(* ===== verification/Prelude.thy ===== *)
theory Prelude
  imports Main "HOL-Library.Word"
begin

text \<open>
  Shared vocabulary of the development: the machine integers and byte strings of the Rust
  sources, the checked and saturating integer operations they use, big- and little-endian
  byte encodings, the parser combinators the message parsers are written with, and the
  generic list lemmas the component theories rest on.

  A Rust \<open>Result<T, E>\<close> is the sum \<open>'e + 'a\<close>, the error on the left; \<open>Option\<close> is
  \<open>option\<close>. Fixed-size byte arrays (\<open>[u8; 32]\<close>) are byte lists whose length is stated
  where a property needs it.
\<close>

unbundle bit_operations_syntax

named_theorems result_simps \<open>unfolding and splitting facts of the result type\<close>
named_theorems byte_simps \<open>length and round-trip facts of the byte encodings\<close>

section \<open>Machine integers\<close>

type_synonym u8 = "8 word"
type_synonym u16 = "16 word"
type_synonym u32 = "32 word"
type_synonym u64 = "64 word"
type_synonym bytes = "u8 list"

text \<open>\<open>uN::saturating_sub\<close>, \<open>uN::checked_add\<close> and \<open>uN::checked_sub\<close>.\<close>

definition saturating_sub :: "'a::len word \<Rightarrow> 'a word \<Rightarrow> 'a word" where
  "saturating_sub a b = (if a \<le> b then 0 else a - b)"

definition checked_add :: "'a::len word \<Rightarrow> 'a word \<Rightarrow> 'a word option" where
  "checked_add a b = (if unat a + unat b < 2 ^ LENGTH('a) then Some (a + b) else None)"

definition checked_sub :: "'a::len word \<Rightarrow> 'a word \<Rightarrow> 'a word option" where
  "checked_sub a b = (if b \<le> a then Some (a - b) else None)"

text \<open>\<open>CheckedSum::checked_sum\<close>: a left fold of \<open>checked_add\<close> from zero.\<close>

fun checked_sum_from :: "u64 \<Rightarrow> u64 list \<Rightarrow> u64 option" where
  "checked_sum_from acc [] = Some acc"
| "checked_sum_from acc (x # xs) =
     (case checked_add acc x of None \<Rightarrow> None | Some acc' \<Rightarrow> checked_sum_from acc' xs)"

definition checked_sum :: "u64 list \<Rightarrow> u64 option" where
  "checked_sum xs = checked_sum_from 0 xs"

lemma saturating_sub_unat: "unat (saturating_sub a b) = unat a - unat b"
  by (simp add: saturating_sub_def word_le_nat_alt unat_sub)

lemma saturating_sub_le: "saturating_sub a b \<le> a"
  by (simp add: word_le_nat_alt saturating_sub_unat)

lemma saturating_sub_zero [simp]: "saturating_sub a 0 = a"
  by (simp add: saturating_sub_def)

lemma unat_height_succ: "(k :: u32) \<noteq> 0xFFFFFFFF \<Longrightarrow> unat (k + 1) = unat k + 1"
proof -
  assume k: "k \<noteq> 0xFFFFFFFF"
  have "unat k \<noteq> unat (0xFFFFFFFF :: u32)" using k by (simp add: word_unat_eq_iff)
  then have "unat k + 1 < 2 ^ 32" using unsigned_less [of k, where 'a = nat] by simp
  then show ?thesis by (simp add: unat_word_ariths)
qed

lemma saturating_sub_one_pos:
  assumes "0 < v"
  shows "saturating_sub v 1 = v - 1"
proof -
  from assms have "v \<noteq> 0" by auto
  then have "unat (v - 1) = unat v - 1" by (simp add: unat_minus_one)
  then show ?thesis by (simp add: word_unat_eq_iff saturating_sub_unat)
qed

lemma checked_add_unat: "checked_add a b = Some c \<Longrightarrow> unat c = unat a + unat b"
  by (auto simp: checked_add_def unat_add_lem split: if_splits)

lemma checked_sub_unat: "checked_sub a b = Some c \<Longrightarrow> unat c = unat a - unat b \<and> unat b \<le> unat a"
  by (auto simp: checked_sub_def unat_sub word_le_nat_alt split: if_splits)

lemma unat_less_power: "unat (w :: 'a::len word) < 2 ^ LENGTH('a)"
  by (rule unsigned_less)

lemma unat_ucast_u16_u32: "unat (ucast (x :: u16) :: u32) = unat x"
proof -
  have "unat x < 2 ^ 32" using unat_less_power [of x] by simp
  then show ?thesis by (simp add: unsigned_ucast_eq take_bit_nat_eq_self)
qed

lemma checked_sum_from_unat:
  "checked_sum_from acc xs = Some s \<Longrightarrow> unat s = unat acc + sum_list (map unat xs)"
  by (induction xs arbitrary: acc) (auto split: option.splits dest: checked_add_unat)

lemma checked_sum_unat: "checked_sum xs = Some s \<Longrightarrow> unat s = sum_list (map unat xs)"
  by (auto simp: checked_sum_def dest: checked_sum_from_unat)

lemma checked_sum_from_None:
  "checked_sum_from acc xs = None \<longleftrightarrow> 2 ^ 64 \<le> unat acc + sum_list (map unat xs)"
proof (induction xs arbitrary: acc)
  case Nil
  show ?case using unat_less_power [of acc] by simp
next
  case (Cons x xs)
  show ?case
  proof (cases "checked_add acc x")
    case None
    then show ?thesis by (auto simp: checked_add_def split: if_splits)
  next
    case (Some c)
    with Cons show ?thesis by (simp add: checked_add_unat add.assoc)
  qed
qed

lemma checked_sum_None: "checked_sum xs = None \<longleftrightarrow> 2 ^ 64 \<le> sum_list (map unat xs)"
  by (simp add: checked_sum_def checked_sum_from_None)

section \<open>Byte encodings\<close>

text \<open>\<open>u64::to_be_bytes\<close>, \<open>u64::from_be_bytes\<close>, \<open>u16::to_le_bytes\<close> and
  \<open>LittleEndian::read_u16\<close>.\<close>

definition u64_to_be_bytes :: "u64 \<Rightarrow> bytes" where
  "u64_to_be_bytes w = map (\<lambda>i. ucast (drop_bit (8 * i) w)) [7, 6, 5, 4, 3, 2, 1, 0]"

definition u64_from_be_bytes :: "bytes \<Rightarrow> u64" where
  "u64_from_be_bytes bs = foldl (\<lambda>acc b. push_bit 8 acc OR ucast b) 0 bs"

definition u16_to_le_bytes :: "u16 \<Rightarrow> bytes" where
  "u16_to_le_bytes w = [ucast w, ucast (drop_bit 8 w)]"

definition u16_from_le_bytes :: "u8 \<Rightarrow> u8 \<Rightarrow> u16" where
  "u16_from_le_bytes lo hi = ucast lo OR push_bit 8 (ucast hi)"

lemma length_u64_to_be_bytes [simp, byte_simps]: "length (u64_to_be_bytes w) = 8"
  by (simp add: u64_to_be_bytes_def)

lemma length_u16_to_le_bytes [simp, byte_simps]: "length (u16_to_le_bytes w) = 2"
  by (simp add: u16_to_le_bytes_def)

lemma u16_le_roundtrip [byte_simps]: "u16_from_le_bytes (ucast w) (ucast (drop_bit 8 w)) = w"
  by (rule bit_word_eqI) (auto simp: u16_from_le_bytes_def bit_simps)

lemma bit_u8_above: "\<not> bit (b :: u8) (8 + n)"
  using bit_imp_le_length [of b "8 + n"] by auto

lemma u16_le_roundtrip2 [byte_simps]:
  "u16_to_le_bytes (u16_from_le_bytes lo hi) = [lo, hi]"
  by (auto simp: u16_from_le_bytes_def u16_to_le_bytes_def bit_simps bit_u8_above
      intro!: bit_word_eqI)

lemma push_bit_byte_step:
  "push_bit 8 (drop_bit (8 + k) w) OR ucast (ucast (drop_bit k w) :: u8) = drop_bit k (w :: u64)"
  by (rule bit_word_eqI) (auto simp: bit_simps)

lemma top_byte_u64: "ucast (ucast (drop_bit 56 w) :: u8) = drop_bit 56 (w :: u64)"
  by (rule bit_word_eqI) (auto simp: bit_simps dest: bit_imp_le_length)

lemma u64_be_roundtrip [byte_simps]: "u64_from_be_bytes (u64_to_be_bytes w) = w"
  using push_bit_byte_step [of 48 w] push_bit_byte_step [of 40 w] push_bit_byte_step [of 32 w]
    push_bit_byte_step [of 24 w] push_bit_byte_step [of 16 w] push_bit_byte_step [of 8 w]
    push_bit_byte_step [of 0 w]
  by (simp add: u64_to_be_bytes_def u64_from_be_bytes_def top_byte_u64)

section \<open>Parser combinators\<close>

text \<open>
  The message parsers are written with \<open>nom\<close> combinators over byte slices. A parser maps
  the input to an error or to the remaining input and a value. \<open>NomError\<close> is the
  recoverable \<open>nom::Err::Error\<close>, \<open>NomFailure\<close> the unrecoverable \<open>nom::Err::Failure\<close>;
  the constructor argument is the \<open>nom::error::ErrorKind\<close>.
\<close>

datatype nom_kind = KTag | KEof | KFail

datatype nom_err = NomError nom_kind | NomFailure nom_kind

type_synonym 'a presult = "nom_err + bytes \<times> 'a"

text \<open>\<open>take(n)\<close>, \<open>tag(t)\<close>, \<open>rest\<close> and \<open>eof\<close> of \<open>nom::bytes::complete\<close> and
  \<open>nom::combinator\<close>.\<close>

definition p_take :: "nat \<Rightarrow> bytes \<Rightarrow> bytes presult" where
  "p_take n xs = (if length xs < n then Inl (NomError KEof) else Inr (drop n xs, take n xs))"

definition p_tag :: "bytes \<Rightarrow> bytes \<Rightarrow> bytes presult" where
  "p_tag t xs =
     (if take (length t) xs = t then Inr (drop (length t) xs, t) else Inl (NomError KTag))"

definition p_rest :: "bytes \<Rightarrow> bytes presult" where
  "p_rest xs = Inr ([], xs)"

definition p_eof :: "bytes \<Rightarrow> bytes presult" where
  "p_eof xs = (if xs = [] then Inr ([], []) else Inl (NomError KEof))"

text \<open>\<open>alt\<close> over a tuple of \<open>tag\<close>s: the first tag that matches.\<close>

fun p_alt_tags :: "bytes list \<Rightarrow> bytes \<Rightarrow> bytes presult" where
  "p_alt_tags [] xs = Inl (NomError KTag)"
| "p_alt_tags (t # ts) xs =
     (case p_tag t xs of Inr r \<Rightarrow> Inr r | Inl _ \<Rightarrow> p_alt_tags ts xs)"

text \<open>\<open>many0(take(2))\<close>: pairs of bytes until fewer than two remain.\<close>

fun p_many0_take2 :: "bytes \<Rightarrow> bytes \<times> (u8 \<times> u8) list" where
  "p_many0_take2 (a # b # xs) = (case p_many0_take2 xs of (r, ps) \<Rightarrow> (r, (a, b) # ps))"
| "p_many0_take2 xs = (xs, [])"

lemma p_take_append [simp]: "length a = n \<Longrightarrow> p_take n (a @ b) = Inr (b, a)"
  by (simp add: p_take_def)

lemma p_take_all: "length a = n \<Longrightarrow> p_take n a = Inr ([], a)"
  by (simp add: p_take_def)

lemma p_take_one [simp]: "p_take 1 (x # xs) = Inr (xs, [x])"
  by (simp add: p_take_def)

lemma p_take_InrD: "p_take n xs = Inr (r, a) \<Longrightarrow> xs = a @ r \<and> length a = n"
  by (auto simp: p_take_def split: if_splits)

lemma p_tag_append [simp]: "p_tag t (t @ xs) = Inr (xs, t)"
  by (simp add: p_tag_def)

lemma p_tag_InrD: "p_tag t xs = Inr (r, a) \<Longrightarrow> a = t \<and> xs = t @ r"
  by (auto simp: p_tag_def split: if_splits) (metis append_take_drop_id)

lemma p_eof_InrD: "p_eof xs = Inr r \<Longrightarrow> xs = [] \<and> r = ([], [])"
  by (auto simp: p_eof_def split: if_splits)

lemma p_alt_tags_InrD:
  "p_alt_tags ts xs = Inr (r, t) \<Longrightarrow> t \<in> set ts \<and> xs = t @ r"
  by (induction ts) (auto split: sum.splits dest: p_tag_InrD)

lemma p_many0_take2_flat:
  "p_many0_take2 (concat (map u16_to_le_bytes ws)) =
     ([], map (\<lambda>w. (ucast w, ucast (drop_bit 8 w))) ws)"
  by (induction ws) (auto simp: u16_to_le_bytes_def)

lemma p_many0_take2_inv:
  "p_many0_take2 xs = (r, ps) \<Longrightarrow> xs = concat (map (\<lambda>(a, b). [a, b]) ps) @ r \<and> length r < 2"
  by (induction xs arbitrary: r ps rule: p_many0_take2.induct) (auto split: prod.splits)

section \<open>Generic lemmas on lists and maps\<close>

lemma take_Suc_insert_nth:
  "i < length xs \<Longrightarrow> take i xs @ xs ! i # drop (Suc i) xs = xs"
  by (rule id_take_nth_drop [symmetric])

lemma filter_False_map_of: "map_of xs k = None \<Longrightarrow> filter (\<lambda>p. fst p \<noteq> k) xs = xs"
  by (induction xs) (auto split: if_splits)

end
