(* ===== verification/Bitcoin.thy ===== *)
theory Bitcoin
  imports Prelude
begin

text \<open>
  The Bitcoin data the enforcer works on (transactions, headers, blocks, the instructions of a
  script), and the third-party functions of the \<open>bitcoin\<close> crate it calls. These functions are
  not part of the repository, so they are parameters: a record of type \<open>btc\<close> is an argument of
  every definition that hashes, serialises a script push or splits a script into instructions.
  What the code relies on is stated as the locale \<open>script_codec\<close>; its instance here follows the
  wire format of Bitcoin scripts.
\<close>

section \<open>Opcodes\<close>

abbreviation OP_RETURN :: u8 where "OP_RETURN \<equiv> 0x6a"
abbreviation OP_TRUE :: u8 where "OP_TRUE \<equiv> 0x51"
abbreviation OP_PUSHBYTES_1 :: u8 where "OP_PUSHBYTES_1 \<equiv> 0x01"
abbreviation OP_NOP5 :: u8 where "OP_NOP5 \<equiv> 0xb4"
abbreviation OP_NOP8 :: u8 where "OP_NOP8 \<equiv> 0xb7"

section \<open>Transactions and blocks\<close>

type_synonym amount = u64
type_synonym txid = bytes
type_synonym blockhash = bytes

definition all_zeros :: blockhash where
  "all_zeros = replicate 32 0"

record outpoint =
  op_txid :: txid
  op_vout :: u32

record txout =
  to_value :: amount
  to_script_pubkey :: bytes

record txin =
  previous_output :: outpoint
  script_sig :: bytes
  txin_sequence :: u32
  txin_witness :: "bytes list"

record transaction =
  tx_version :: u32
  tx_lock_time :: u32
  tx_input :: "txin list"
  tx_output :: "txout list"

record header =
  hdr_version :: u32
  hdr_prev_blockhash :: blockhash
  hdr_merkle_root :: bytes
  hdr_time :: u32
  hdr_bits :: u32
  hdr_nonce :: u32

record block =
  blk_header :: header
  blk_txdata :: "transaction list"

text \<open>\<open>TxIn { previous_output, ..Default::default() }\<close>: empty script, \<open>Sequence::MAX\<close>.\<close>

definition default_txin :: "outpoint \<Rightarrow> txin" where
  "default_txin outp = \<lparr>previous_output = outp, script_sig = [], txin_sequence = 0xFFFFFFFF,
     txin_witness = []\<rparr>"

section \<open>Script instructions and the parameters of the model\<close>

text \<open>
  \<open>Script::instructions\<close> iterates over \<open>Result<Instruction, Error>\<close>. The iteration is the
  list of its items; it ends after the first error.
\<close>

datatype instruction = Op u8 | PushBytes bytes

datatype script_item = IOk instruction | IErr

record btc =
  b_instructions :: "bytes \<Rightarrow> script_item list"
  b_new_op_return :: "bytes \<Rightarrow> bytes"
  b_sha256d :: "bytes \<Rightarrow> bytes"
  b_compute_txid :: "transaction \<Rightarrow> txid"
  b_block_hash :: "header \<Rightarrow> blockhash"
  b_work :: "header \<Rightarrow> nat"
  b_varint :: "u64 \<Rightarrow> bytes"

text \<open>
  \<open>PushBytesBuf::try_from(Vec<u8>)\<close> refuses a push of \<open>2 ^ 32\<close> bytes or more, with a
  \<open>PushBytesError\<close>.
\<close>

datatype push_bytes_error = PushBytesError

definition push_bytes_try_from :: "bytes \<Rightarrow> push_bytes_error + bytes" where
  "push_bytes_try_from d = (if length d < 2 ^ 32 then Inr d else Inl PushBytesError)"

locale script_codec =
  fixes instructions :: "bytes \<Rightarrow> script_item list"
    and new_op_return :: "bytes \<Rightarrow> bytes"
  assumes instructions_op_return:
      "length d < 2 ^ 32 \<Longrightarrow>
         instructions (new_op_return d) = [IOk (Op OP_RETURN), IOk (PushBytes d)]"
    and new_op_return_short:
      "length d \<le> 75 \<Longrightarrow> new_op_return d = OP_RETURN # of_nat (length d) # d"

section \<open>The script wire format\<close>

text \<open>
  The push opcodes of Bitcoin script: a push of up to 75 bytes is its length and the data,
  longer pushes use \<open>OP_PUSHDATA1\<close>, \<open>OP_PUSHDATA2\<close> and \<open>OP_PUSHDATA4\<close> with a
  little-endian length.
\<close>

fun le_bytes_of :: "nat \<Rightarrow> nat \<Rightarrow> bytes" where
  "le_bytes_of 0 n = []"
| "le_bytes_of (Suc k) n = of_nat n # le_bytes_of k (n div 256)"

fun le_nat :: "bytes \<Rightarrow> nat" where
  "le_nat [] = 0"
| "le_nat (b # bs) = unat b + 256 * le_nat bs"

definition push_prefix :: "nat \<Rightarrow> bytes" where
  "push_prefix n =
     (if n \<le> 75 then [of_nat n]
      else if n < 256 then 0x4c # le_bytes_of 1 n
      else if n < 65536 then 0x4d # le_bytes_of 2 n
      else 0x4e # le_bytes_of 4 n)"

definition wire_new_op_return :: "bytes \<Rightarrow> bytes" where
  "wire_new_op_return d = OP_RETURN # push_prefix (length d) @ d"

text \<open>One instruction off the front of a script, with what remains.\<close>

definition wire_push :: "nat \<Rightarrow> bytes \<Rightarrow> (instruction \<times> bytes) option" where
  "wire_push n xs = (if length xs < n then None else Some (PushBytes (take n xs), drop n xs))"

definition wire_pushdata :: "nat \<Rightarrow> bytes \<Rightarrow> (instruction \<times> bytes) option" where
  "wire_pushdata k xs =
     (if length xs < k then None else wire_push (le_nat (take k xs)) (drop k xs))"

definition wire_instruction :: "u8 \<Rightarrow> bytes \<Rightarrow> (instruction \<times> bytes) option" where
  "wire_instruction b xs =
     (if b \<le> 75 then wire_push (unat b) xs
      else if b = 0x4c then wire_pushdata 1 xs
      else if b = 0x4d then wire_pushdata 2 xs
      else if b = 0x4e then wire_pushdata 4 xs
      else Some (Op b, xs))"

lemma wire_instruction_shorter:
  "wire_instruction b xs = Some (i, ys) \<Longrightarrow> length ys \<le> length xs"
  by (auto simp: wire_instruction_def wire_push_def wire_pushdata_def split: if_splits)

function wire_instructions :: "bytes \<Rightarrow> script_item list" where
  "wire_instructions [] = []"
| "wire_instructions (b # xs) =
     (case wire_instruction b xs of
        None \<Rightarrow> [IErr]
      | Some (i, ys) \<Rightarrow> IOk i # wire_instructions ys)"
  by pat_completeness auto
termination
  by (relation "measure length") (auto simp: less_Suc_eq_le wire_instruction_shorter)

declare wire_instructions.simps(2) [simp del]

lemma unat_of_nat_u8: "unat (of_nat n :: u8) = n mod 256"
  by (simp add: unat_of_nat)

lemma length_le_bytes_of [simp]: "length (le_bytes_of k n) = k"
  by (induction k arbitrary: n) auto

lemma le_nat_of: "n < 256 ^ k \<Longrightarrow> le_nat (le_bytes_of k n) = n"
proof (induction k arbitrary: n)
  case (Suc k)
  then have "n div 256 < 256 ^ k" by (simp add: less_mult_imp_div_less mult.commute)
  with Suc.IH show ?case by (simp add: unat_of_nat_u8)
qed simp

lemma wire_push_exact: "wire_push (length d) d = Some (PushBytes d, [])"
  by (simp add: wire_push_def)

lemma wire_pushdata_exact:
  "length d < 256 ^ k \<Longrightarrow> wire_pushdata k (le_bytes_of k (length d) @ d) = Some (PushBytes d, [])"
  by (simp add: wire_pushdata_def le_nat_of wire_push_exact)

lemma wire_instructions_op_return:
  "wire_instructions (OP_RETURN # xs) = IOk (Op OP_RETURN) # wire_instructions xs"
  by (simp add: wire_instruction_def wire_instructions.simps)

lemma wire_instructions_push:
  assumes "length d < 2 ^ 32"
  shows "wire_instructions (push_prefix (length d) @ d) = [IOk (PushBytes d)]"
proof -
  let ?n = "length d"
  consider "?n \<le> 75" | "75 < ?n" "?n < 256" | "256 \<le> ?n" "?n < 65536" | "65536 \<le> ?n"
    by linarith
  then show ?thesis
  proof cases
    case 1
    then have "(of_nat ?n :: u8) \<le> 75" by (simp add: word_le_nat_alt unat_of_nat_u8)
    with 1 show ?thesis
      by (simp add: push_prefix_def wire_instruction_def wire_instructions.simps unat_of_nat_u8
          wire_push_exact)
  next
    case 2
    with wire_pushdata_exact [of d 1] show ?thesis
      by (simp add: push_prefix_def wire_instruction_def wire_instructions.simps
          del: One_nat_def le_bytes_of.simps)
  next
    case 3
    with wire_pushdata_exact [of d 2] show ?thesis
      by (simp add: push_prefix_def wire_instruction_def wire_instructions.simps
          del: le_bytes_of.simps)
  next
    case 4
    with wire_pushdata_exact [of d 4] assms show ?thesis
      by (simp add: push_prefix_def wire_instruction_def wire_instructions.simps
          del: le_bytes_of.simps)
  qed
qed

interpretation wire: script_codec wire_instructions wire_new_op_return
proof
  fix d :: bytes
  assume "length d < 2 ^ 32"
  then show "wire_instructions (wire_new_op_return d) = [IOk (Op OP_RETURN), IOk (PushBytes d)]"
    by (simp add: wire_new_op_return_def wire_instructions_op_return wire_instructions_push)
next
  fix d :: bytes
  assume "length d \<le> 75"
  then show "wire_new_op_return d = OP_RETURN # of_nat (length d) # d"
    by (simp add: wire_new_op_return_def push_prefix_def)
qed

text \<open>
  A concrete instance of the parameters, for evaluating the model: the script functions are the
  wire format above, the hash functions are simple total functions to 32 bytes.
\<close>

definition pad32 :: "bytes \<Rightarrow> bytes" where
  "pad32 xs = take 32 (xs @ replicate 32 0)"

definition sample_btc :: btc where
  "sample_btc = \<lparr>b_instructions = wire_instructions, b_new_op_return = wire_new_op_return,
     b_sha256d = pad32,
     b_compute_txid = (\<lambda>tx. pad32 [ucast (tx_lock_time tx)]),
     b_block_hash = (\<lambda>h. pad32 [ucast (hdr_nonce h)]),
     b_work = (\<lambda>_. 1),
     b_varint = (\<lambda>n. [ucast n])\<rparr>"

lemma sample_btc_simps [simp]:
  "b_instructions sample_btc = wire_instructions"
  "b_new_op_return sample_btc = wire_new_op_return"
  "b_sha256d sample_btc = pad32"
  "b_compute_txid sample_btc = (\<lambda>tx. pad32 [ucast (tx_lock_time tx)])"
  "b_block_hash sample_btc = (\<lambda>h. pad32 [ucast (hdr_nonce h)])"
  "b_work sample_btc = (\<lambda>_. 1)"
  "b_varint sample_btc = (\<lambda>n. [ucast n])"
  by (simp_all add: sample_btc_def)

lemma length_pad32 [simp]: "length (pad32 xs) = 32"
  by (simp add: pad32_def)

lemma pad32_nonzero: "x \<noteq> 0 \<Longrightarrow> pad32 [x] \<noteq> all_zeros"
  by (auto simp: pad32_def all_zeros_def dest: arg_cong [where f = hd])

lemma pad32_single [simp]: "pad32 [x] = pad32 [y] \<longleftrightarrow> x = y"
  by (simp add: pad32_def)

end
