(* ===== verification/Types.thy ===== *)
theory Types
  imports Bitcoin
begin

text \<open>
  The data of \<open>src/lib/types.rs\<close> and the operations on it: network parameters and voting
  thresholds, sidechain proposals and declarations, withdrawal votes, block events, the treasury
  opcode, and the blinded withdrawal bundle. \<open>compute_signet_magic\<close> of \<open>src/lib/p2p.rs\<close>
  is here because \<open>NetworkParams::new\<close> calls it.

  A Rust \<open>String\<close> is the list of its UTF-8 bytes. HTTP/gRPC status conversions
  (\<open>ToStatus\<close>), \<open>Display\<close> and serde implementations are not modelled.
\<close>

section \<open>Thresholds and network parameters\<close>

record thresholds =
  withdrawal_bundle_max_age :: u16
  withdrawal_bundle_inclusion_threshold :: u16
  unused_sidechain_slot_proposal_max_age :: u16
  unused_sidechain_slot_activation_threshold :: u16

definition BTC_MAINNET :: thresholds where
  "BTC_MAINNET = \<lparr>withdrawal_bundle_max_age = 26300,
     withdrawal_bundle_inclusion_threshold = 13150,
     unused_sidechain_slot_proposal_max_age = 2016,
     unused_sidechain_slot_activation_threshold = 1815\<rparr>"

definition ECX_MAINNET :: thresholds where
  "ECX_MAINNET = BTC_MAINNET\<lparr>withdrawal_bundle_max_age := 12096,
     withdrawal_bundle_inclusion_threshold := 6048\<rparr>"

definition SHORT :: thresholds where
  "SHORT = \<lparr>withdrawal_bundle_max_age = 10,
     withdrawal_bundle_inclusion_threshold = 5,
     unused_sidechain_slot_proposal_max_age = 10,
     unused_sidechain_slot_activation_threshold = 5\<rparr>"

datatype fork = ForkBitcoin | ForkEcash

datatype network = Mainnet | Testnet | Testnet4 | Signet | Regtest

fun for_network :: "fork \<Rightarrow> network \<Rightarrow> thresholds" where
  "for_network ForkBitcoin Mainnet = BTC_MAINNET"
| "for_network ForkEcash Mainnet = ECX_MAINNET"
| "for_network _ _ = SHORT"

definition activates_unused_slot :: "thresholds \<Rightarrow> u16 \<Rightarrow> u32 \<Rightarrow> bool" where
  "activates_unused_slot t vote_count proposal_age \<longleftrightarrow>
     vote_count > unused_sidechain_slot_activation_threshold t \<and>
     proposal_age \<le> ucast (unused_sidechain_slot_proposal_max_age t)"

definition starts_with :: "string \<Rightarrow> string \<Rightarrow> bool" where
  "starts_with p s \<longleftrightarrow> take (length p) s = p"

definition fork_detect :: "string \<Rightarrow> fork option" where
  "fork_detect subversion =
     (if starts_with ''/eCash'' subversion then Some ForkEcash
      else if starts_with ''/Satoshi:'' subversion then Some ForkBitcoin
      else None)"

fun fork_name :: "fork \<Rightarrow> string" where
  "fork_name ForkBitcoin = ''bitcoin''"
| "fork_name ForkEcash = ''ecash''"

text \<open>\<open>OpDrivechain\<close> wraps the opcode the node reserves for \<open>OP_DRIVECHAIN\<close>.\<close>

datatype op_drivechain = OpDrivechain (opcode: u8)

definition NOP5 :: op_drivechain where "NOP5 = OpDrivechain OP_NOP5"

definition NOP8 :: op_drivechain where "NOP8 = OpDrivechain OP_NOP8"

record network_params =
  np_fork :: fork
  np_thresholds :: thresholds
  bip300_activation_height :: u32
  network_magic :: "bytes option"
  np_op_drivechain :: op_drivechain
  replay_protection_lock_time :: "u32 option"

definition NEVER_ACTIVATES :: u32 where
  "NEVER_ACTIVATES = 0xFFFFFFFF"

definition length_u64 :: "bytes \<Rightarrow> u64" where
  "length_u64 bs = of_nat (length bs)"

definition compute_signet_magic :: "btc \<Rightarrow> fork \<Rightarrow> bytes \<Rightarrow> bytes" where
  "compute_signet_magic B fk signet_challenge =
     (let tag = (if fk \<noteq> ForkBitcoin then [[0x65, 0x63, 0x61, 0x73, 0x68]] else []);
          input = concat (map (\<lambda>bs. b_varint B (length_u64 bs) @ bs) (tag @ [signet_challenge]))
      in take 4 (b_sha256d B input))"

fun ecash_network_magic :: "network \<Rightarrow> bytes option" where
  "ecash_network_magic Mainnet = Some [0xec, 0xa5, 0xdc, 0xb7]"
| "ecash_network_magic Testnet = Some [0xec, 0xa5, 0xb1, 0x14]"
| "ecash_network_magic Testnet4 = Some [0xec, 0xa5, 0xb1, 0x24]"
| "ecash_network_magic Regtest = Some [0xec, 0xa5, 0xb1, 0x34]"
| "ecash_network_magic Signet = None"

definition network_params_new :: "btc \<Rightarrow> fork \<Rightarrow> network \<Rightarrow> bytes option \<Rightarrow> network_params" where
  "network_params_new B fk nw signet_challenge =
     (let params = \<lparr>np_fork = fk, np_thresholds = for_network fk nw,
            bip300_activation_height = (if nw = Mainnet then NEVER_ACTIVATES else 0),
            network_magic = map_option (compute_signet_magic B fk) signet_challenge,
            np_op_drivechain = NOP5, replay_protection_lock_time = None\<rparr>
      in if fk = ForkBitcoin then params
         else
           let params = params\<lparr>np_op_drivechain := NOP8,
                 replay_protection_lock_time := Some 499999998\<rparr>;
               params = (if nw = Mainnet then params\<lparr>bip300_activation_height := 973728\<rparr>
                         else params)
           in (case ecash_network_magic nw of
                 Some magic \<Rightarrow> params\<lparr>network_magic := Some magic\<rparr>
               | None \<Rightarrow> params))"

section \<open>Sidechain proposals\<close>

type_synonym sidechain_number = u8
type_synonym bmm_commitment = bytes
type_synonym m6id = txid
type_synonym hash256 = bytes
type_synonym sidechain_description = bytes

datatype try_from_int_error = TryFromIntError

definition sidechain_number_try_from :: "u32 \<Rightarrow> try_from_int_error + sidechain_number" where
  "sidechain_number_try_from v = (if v \<le> 0xFF then Inr (ucast v) else Inl TryFromIntError)"

record ctip =
  ctip_outpoint :: outpoint
  ctip_value :: amount

text \<open>\<open>Weight::from_non_witness_data_size\<close> is four weight units per byte.\<close>

definition consolidation_tx_weight :: "u64 \<Rightarrow> u64" where
  "consolidation_tx_weight n_treasuries =
     (let VERSION_AND_LOCKTIME = 4 + 4; COUNTS = 2 * (1 + 4); INPUT = 36 + 1 + 4;
          TREASURY_OUTPUT = 8 + 1 + 4
      in 4 * (VERSION_AND_LOCKTIME + COUNTS + n_treasuries * (2 * INPUT + TREASURY_OUTPUT)))"

record sidechain_proposal_id =
  id_sidechain_number :: sidechain_number
  id_description_hash :: hash256

record sidechain_proposal =
  prop_sidechain_number :: sidechain_number
  prop_description :: sidechain_description

definition sha256d_hash :: "btc \<Rightarrow> sidechain_description \<Rightarrow> hash256" where
  "sha256d_hash B d = b_sha256d B d"

definition compute_id :: "btc \<Rightarrow> sidechain_proposal \<Rightarrow> sidechain_proposal_id" where
  "compute_id B p = \<lparr>id_sidechain_number = prop_sidechain_number p,
     id_description_hash = sha256d_hash B (prop_description p)\<rparr>"

datatype deserialize_sidechain_proposal_error = MissingSidechainNumber

fun sidechain_proposal_try_from ::
    "bytes \<Rightarrow> deserialize_sidechain_proposal_error + sidechain_proposal" where
  "sidechain_proposal_try_from [] = Inl MissingSidechainNumber"
| "sidechain_proposal_try_from (b # bs) =
     Inr \<lparr>prop_sidechain_number = b, prop_description = bs\<rparr>"

record sidechain_proposal_status =
  st_vote_count :: u16
  st_proposal_height :: u32
  st_activation_height :: "u32 option"

record sidechain =
  sc_proposal :: sidechain_proposal
  sc_status :: sidechain_proposal_status

section \<open>Sidechain declarations\<close>

text \<open>\<open>std::str::from_utf8\<close>: well-formed UTF-8 byte sequences (no overlong forms, no
  surrogates, at most \<open>U+10FFFF\<close>).\<close>

definition utf8_in :: "u8 \<Rightarrow> u8 \<Rightarrow> u8 \<Rightarrow> bool" where
  "utf8_in lo hi b \<longleftrightarrow> lo \<le> b \<and> b \<le> hi"

abbreviation utf8_cont :: "u8 \<Rightarrow> bool" where
  "utf8_cont \<equiv> utf8_in 0x80 0xBF"

definition utf8_second :: "u8 \<Rightarrow> u8 \<Rightarrow> bool" where
  "utf8_second a b =
     (if a = 0xE0 then utf8_in 0xA0 0xBF b
      else if a = 0xED then utf8_in 0x80 0x9F b
      else if a = 0xF0 then utf8_in 0x90 0xBF b
      else if a = 0xF4 then utf8_in 0x80 0x8F b
      else utf8_cont b)"

fun utf8_valid :: "bytes \<Rightarrow> bool" where
  "utf8_valid [] = True"
| "utf8_valid [a] \<longleftrightarrow> a < 0x80"
| "utf8_valid [a, b] \<longleftrightarrow>
     (if a < 0x80 then utf8_valid [b] else utf8_in 0xC2 0xDF a \<and> utf8_cont b)"
| "utf8_valid [a, b, c] \<longleftrightarrow>
     (if a < 0x80 then utf8_valid [b, c]
      else if utf8_in 0xC2 0xDF a then utf8_cont b \<and> utf8_valid [c]
      else utf8_in 0xE0 0xEF a \<and> utf8_second a b \<and> utf8_cont c)"
| "utf8_valid (a # b # c # d # xs) \<longleftrightarrow>
     (if a < 0x80 then utf8_valid (b # c # d # xs)
      else if utf8_in 0xC2 0xDF a then utf8_cont b \<and> utf8_valid (c # d # xs)
      else if utf8_in 0xE0 0xEF a then utf8_second a b \<and> utf8_cont c \<and> utf8_valid (d # xs)
      else utf8_in 0xF0 0xF4 a \<and> utf8_second a b \<and> utf8_cont c \<and> utf8_cont d \<and>
        utf8_valid xs)"

lemma utf8_valid_ascii: "\<forall>b\<in>set bs. b < 0x80 \<Longrightarrow> utf8_valid bs"
  by (induction bs rule: utf8_valid.induct) auto

record sidechain_declaration =
  decl_title :: bytes
  decl_description :: bytes
  hash_id_1 :: bytes
  hash_id_2 :: bytes

datatype parse_sidechain_declaration_error =
    InvalidUtf8Title
  | InvalidUtf8Description
  | FailedToDeserialize nom_kind
  | UnknownVersion u8

fun nom_kind_of :: "nom_err \<Rightarrow> nom_kind" where
  "nom_kind_of (NomError k) = k"
| "nom_kind_of (NomFailure k) = k"

definition failed_to_deserialize :: "nom_err \<Rightarrow> parse_sidechain_declaration_error" where
  "failed_to_deserialize e = FailedToDeserialize (nom_kind_of e)"

text \<open>
  \<open>SidechainDeclaration::try_parse\<close>. Every error it returns is a \<open>nom::Err::Error\<close>, whose
  payload is the error here (what \<open>finish()\<close> makes of it).
\<close>

definition HASH_ID_1_LENGTH :: nat where "HASH_ID_1_LENGTH = 32"

definition HASH_ID_2_LENGTH :: nat where "HASH_ID_2_LENGTH = 20"

definition try_parse_body ::
    "bytes \<Rightarrow> bytes \<Rightarrow> parse_sidechain_declaration_error + bytes \<times> sidechain_declaration" where
  "try_parse_body title input =
     (if length input < HASH_ID_1_LENGTH + HASH_ID_2_LENGTH
      then Inl (failed_to_deserialize (NomError KEof))
      else
        let description_length = length input - (HASH_ID_1_LENGTH + HASH_ID_2_LENGTH) in
        case p_take description_length input of
          Inl e \<Rightarrow> Inl (failed_to_deserialize e)
        | Inr (input, description) \<Rightarrow>
            if \<not> utf8_valid description then Inl InvalidUtf8Description
            else case p_take HASH_ID_1_LENGTH input of
              Inl e \<Rightarrow> Inl (failed_to_deserialize e)
            | Inr (input, h1) \<Rightarrow>
                case p_take HASH_ID_2_LENGTH input of
                  Inl e \<Rightarrow> Inl (failed_to_deserialize e)
                | Inr (input, h2) \<Rightarrow>
                    Inr (input, \<lparr>decl_title = title, decl_description = description,
                      hash_id_1 = h1, hash_id_2 = h2\<rparr>))"

definition try_parse ::
    "bytes \<Rightarrow> parse_sidechain_declaration_error + bytes \<times> sidechain_declaration" where
  "try_parse input0 =
     (case p_tag [0] input0 of
        Inl e \<Rightarrow>
          (case input0 of
             version # _ \<Rightarrow> Inl (UnknownVersion version)
           | [] \<Rightarrow> Inl (failed_to_deserialize e))
      | Inr (input, _) \<Rightarrow>
          (case input of
             [] \<Rightarrow> Inl (failed_to_deserialize (NomError KEof))
           | title_length # input \<Rightarrow>
               (case p_take (unat title_length) input of
                  Inl e \<Rightarrow> Inl (failed_to_deserialize e)
                | Inr (input, title) \<Rightarrow>
                    if \<not> utf8_valid title then Inl InvalidUtf8Title
                    else try_parse_body title input)))"

text \<open>\<open>TryFrom<&SidechainDescription>\<close>: the outcome, or \<open>None\<close> where the assertion that
  no bytes remain panics.\<close>

definition sidechain_declaration_try_from ::
    "sidechain_description \<Rightarrow> (parse_sidechain_declaration_error + sidechain_declaration) option" where
  "sidechain_declaration_try_from d =
     (case try_parse d of
        Inl e \<Rightarrow> Some (Inl e)
      | Inr (input, decl) \<Rightarrow> if input = [] then Some (Inr decl) else None)"

section \<open>Acknowledgement policies and bundle votes\<close>

record sidechain_ack =
  ack_sidechain_number :: sidechain_number
  ack_description_hash :: hash256

datatype ack_all_proposals_policy = AckNone | AckNewSlots | AckAll

fun auto_acks :: "ack_all_proposals_policy \<Rightarrow> bool \<Rightarrow> bool" where
  "auto_acks AckNone slot_is_used = False"
| "auto_acks AckNewSlots slot_is_used = (\<not> slot_is_used)"
| "auto_acks AckAll slot_is_used = True"

definition is_automatic :: "ack_all_proposals_policy \<Rightarrow> bool" where
  "is_automatic p \<longleftrightarrow> p \<noteq> AckNone"

datatype withdrawal_bundle_policy = PolNone | PolKnown | PolAll | PolAlarm

datatype withdrawal_bundle_vote = Abstain | Alarm | Upvote u16

fun position :: "('a \<Rightarrow> bool) \<Rightarrow> 'a list \<Rightarrow> nat option" where
  "position p [] = None"
| "position p (x # xs) = (if p x then Some 0 else map_option Suc (position p xs))"

definition u16_try_from :: "nat \<Rightarrow> u16 option" where
  "u16_try_from n = (if n < 65536 then Some (of_nat n) else None)"

definition first_matching :: "m6id list \<Rightarrow> (m6id \<Rightarrow> bool) \<Rightarrow> withdrawal_bundle_vote option" where
  "first_matching pending worth_backing =
     map_option Upvote (Option.bind (position worth_backing pending) u16_try_from)"

definition resolve ::
    "withdrawal_bundle_policy \<Rightarrow> m6id list \<Rightarrow> m6id set \<Rightarrow> m6id set \<Rightarrow> withdrawal_bundle_vote" where
  "resolve policy pending acked ours =
     (case first_matching pending (\<lambda>m. m \<in> acked) of
        Some vote \<Rightarrow> vote
      | None \<Rightarrow>
          (case policy of
             PolNone \<Rightarrow> Abstain
           | PolAlarm \<Rightarrow> Alarm
           | PolKnown \<Rightarrow> case_option Abstain id (first_matching pending (\<lambda>m. m \<in> ours))
           | PolAll \<Rightarrow> case_option Abstain id (first_matching pending (\<lambda>_. True))))"

section \<open>Treasury data and block events\<close>

record treasury_utxo =
  tu_sidechain_number :: sidechain_number
  tu_outpoint :: outpoint
  tu_total_value :: amount
  tu_previous_total_value :: amount

record deposit =
  dep_sequence_number :: nat
  dep_outpoint :: outpoint
  dep_address :: bytes
  dep_value :: amount

record header_info =
  hi_block_hash :: blockhash
  hi_prev_block_hash :: blockhash
  hi_height :: u32
  hi_work :: nat
  hi_timestamp :: u32

datatype withdrawal_bundle_event_kind =
    Submitted
  | Failed
  | Succeeded nat transaction

record sidechain_withdrawal_bundle_event =
  swbe_m6id :: m6id
  swbe_kind :: withdrawal_bundle_event_kind

record withdrawal_bundle_event =
  wbe_sidechain_id :: sidechain_number
  wbe_m6id :: m6id
  wbe_kind :: withdrawal_bundle_event_kind

type_synonym bmm_commitments = "(sidechain_number \<times> bmm_commitment) list"

datatype sidechain_block_event =
    SDeposit deposit
  | SSidechainProposal u32 sidechain_description
  | SWithdrawalBundle sidechain_withdrawal_bundle_event

datatype block_event =
    Deposits "(sidechain_number \<times> deposit) list"
  | SidechainProposalEvent u32 sidechain_proposal
  | WithdrawalBundleE withdrawal_bundle_event

record sidechain_block_info =
  sbi_bmm_commitment :: "bmm_commitment option"
  sbi_events :: "sidechain_block_event list"

record block_info =
  bi_bmm_commitments :: bmm_commitments
  bi_coinbase_txid :: txid
  bi_events :: "block_event list"

definition bi_sidechain_proposals :: "block_info \<Rightarrow> (u32 \<times> sidechain_proposal) list" where
  "bi_sidechain_proposals bi =
     List.map_filter (\<lambda>e. case e of SidechainProposalEvent vout p \<Rightarrow> Some (vout, p)
       | Deposits _ \<Rightarrow> None | WithdrawalBundleE _ \<Rightarrow> None) (bi_events bi)"

definition withdrawal_bundle_events :: "block_info \<Rightarrow> withdrawal_bundle_event list" where
  "withdrawal_bundle_events bi =
     List.map_filter (\<lambda>e. case e of WithdrawalBundleE b \<Rightarrow> Some b
       | Deposits _ \<Rightarrow> None | SidechainProposalEvent _ _ \<Rightarrow> None) (bi_events bi)"

fun only_sidechain_event :: "sidechain_number \<Rightarrow> block_event \<Rightarrow> sidechain_block_event option" where
  "only_sidechain_event n (Deposits deposits) = map_option SDeposit (map_of deposits n)"
| "only_sidechain_event n (SidechainProposalEvent _ _) = None"
| "only_sidechain_event n (WithdrawalBundleE e) =
     (if wbe_sidechain_id e = n
      then Some (SWithdrawalBundle \<lparr>swbe_m6id = wbe_m6id e, swbe_kind = wbe_kind e\<rparr>)
      else None)"

definition only_sidechain :: "block_info \<Rightarrow> sidechain_number \<Rightarrow> sidechain_block_info" where
  "only_sidechain bi n =
     \<lparr>sbi_bmm_commitment = map_of (bi_bmm_commitments bi) n,
      sbi_events = List.map_filter (only_sidechain_event n) (bi_events bi)\<rparr>"

record two_way_peg_data =
  twp_header_info :: header_info
  twp_block_info :: block_info

datatype event =
    ConnectBlock header_info block_info
  | DisconnectBlock blockhash

record pending_m6id_info =
  pi_vote_count :: u16
  pi_proposal_height :: u32

definition pending_m6id_info_new :: "u32 \<Rightarrow> pending_m6id_info" where
  "pending_m6id_info_new proposal_height =
     \<lparr>pi_vote_count = 1, pi_proposal_height = proposal_height\<rparr>"

section \<open>The treasury script and blinded withdrawal bundles\<close>

text \<open>\<open>push_opcode\<close> appends the opcode; \<open>push_slice\<close> of one byte appends
  \<open>OP_PUSHBYTES_1\<close> and the byte.\<close>

definition drivechain_script :: "op_drivechain \<Rightarrow> sidechain_number \<Rightarrow> bytes" where
  "drivechain_script od n = [opcode od, OP_PUSHBYTES_1, n, OP_TRUE]"

datatype blinded_m6_fee_output_error = FeeInvalidSpk bytes | NonZeroValue | FeeScript

datatype blinded_m6_error =
    InvalidFeeOutput blinded_m6_fee_output_error
  | MissingFeeOutput
  | NonEmptyInputs
  | OutputAmountOverflow
  | ZeroPayout

record blinded_m6 =
  bm_fee :: amount
  bm_payout :: amount
  bm_tx :: transaction

text \<open>The instructions of the fee output: \<open>OP_RETURN\<close> and a push of eight bytes, nothing
  else. A script error in the first two instructions is \<open>FeeScript\<close>.\<close>

definition fee_output_bytes :: "bytes \<Rightarrow> script_item list \<Rightarrow> blinded_m6_fee_output_error + bytes" where
  "fee_output_bytes spk items =
     (case items of
        IErr # _ \<Rightarrow> Inl FeeScript
      | IOk (Op op) # items \<Rightarrow>
          if op \<noteq> OP_RETURN then Inl (FeeInvalidSpk spk)
          else (case items of
            IErr # _ \<Rightarrow> Inl FeeScript
          | IOk (PushBytes bs) # items \<Rightarrow>
              if length bs \<noteq> 8 then Inl (FeeInvalidSpk spk)
              else if items = [] then Inr bs
              else Inl (FeeInvalidSpk spk)
          | _ \<Rightarrow> Inl (FeeInvalidSpk spk))
      | _ \<Rightarrow> Inl (FeeInvalidSpk spk))"

definition blinded_m6_try_from :: "btc \<Rightarrow> transaction \<Rightarrow> blinded_m6_error + blinded_m6" where
  "blinded_m6_try_from B tx =
     (if tx_input tx \<noteq> [] then Inl NonEmptyInputs
      else case tx_output tx of
        [] \<Rightarrow> Inl MissingFeeOutput
      | fee_output # _ \<Rightarrow>
          if to_value fee_output \<noteq> 0 then Inl (InvalidFeeOutput NonZeroValue)
          else case checked_sum (map to_value (tx_output tx)) of
            None \<Rightarrow> Inl OutputAmountOverflow
          | Some payout \<Rightarrow>
              if payout = 0 then Inl ZeroPayout
              else case fee_output_bytes (to_script_pubkey fee_output)
                          (b_instructions B (to_script_pubkey fee_output)) of
                Inl e \<Rightarrow> Inl (InvalidFeeOutput e)
              | Inr bs \<Rightarrow> Inr \<lparr>bm_fee = u64_from_be_bytes bs, bm_payout = payout, bm_tx = tx\<rparr>)"

definition blinded_compute_m6id :: "btc \<Rightarrow> blinded_m6 \<Rightarrow> m6id" where
  "blinded_compute_m6id B bm = b_compute_txid B (bm_tx bm)"

text \<open>\<open>into_m6\<close>: \<open>AmountUnderflow\<close> is the error it returns, \<open>IntoM6Panic\<close> a failed
  \<open>expect\<close> or \<open>assert!\<close>.\<close>

datatype into_m6_error = AmountUnderflow | IntoM6Panic

definition into_m6 ::
    "blinded_m6 \<Rightarrow> op_drivechain \<Rightarrow> sidechain_number \<Rightarrow> ctip \<Rightarrow> ctip list \<Rightarrow>
     into_m6_error + transaction" where
  "into_m6 bm od n consolidated unconsolidated =
     (let tx = bm_tx bm in
      case tx_output tx of
        [] \<Rightarrow> Inl IntoM6Panic
      | _ # payouts \<Rightarrow>
          if tx_input tx \<noteq> [] then Inl IntoM6Panic
          else case checked_sum_from (ctip_value consolidated) (map ctip_value unconsolidated) of
            None \<Rightarrow> Inl IntoM6Panic
          | Some treasury_value_in \<Rightarrow>
              (case checked_sub treasury_value_in (bm_payout bm) of
                 None \<Rightarrow> Inl AmountUnderflow
               | Some v \<Rightarrow>
                   (case checked_sub v (bm_fee bm) of
                      None \<Rightarrow> Inl AmountUnderflow
                    | Some treasury_output_value \<Rightarrow>
                        Inr (tx\<lparr>
                          tx_input := map (\<lambda>c. default_txin (ctip_outpoint c))
                            (consolidated # unconsolidated),
                          tx_output := \<lparr>to_value = treasury_output_value,
                            to_script_pubkey = drivechain_script od n\<rparr> # payouts\<rparr>))))"

end
