(* ===== verification/SendTx.thy ===== *)
theory SendTx
  imports Types
begin

text \<open>
  Sending a transaction to a node over the P2P protocol (\<open>p2p/send_tx.rs\<close>, and the choice of an
  address in \<open>p2p.rs\<close>): the frames of the protocol, the state machine of the exchange, the wait
  for the node's pong, and the attempts on several addresses.

  A connection is what the peer sends, followed by the end of the stream or by silence, and the
  number of writes it takes before a write fails. A deadline (\<open>tokio::time::timeout\<close>) cuts the
  stream off: a read beyond what arrived in time is a timeout. The decoders of the \<open>bitcoin\<close>
  crate are the parameter \<open>codec\<close>.
\<close>

section \<open>Messages\<close>

record sock_addr =
  sock_ip :: bytes
  sock_port :: u16

record version_message =
  vm_services :: u64
  vm_timestamp :: u64
  vm_receiver :: "sock_addr \<times> u64"
  vm_sender :: "sock_addr \<times> u64"
  vm_nonce :: u64
  vm_user_agent :: string
  vm_start_height :: u32
  vm_relay :: bool

datatype inventory = InvTransaction txid | InvWitnessTransaction txid | InvOther

datatype message = MVersion version_message | MVerack | MGetData "inventory list" | MPing u64 | MPong u64 | MOther string

datatype network_message =
    NVersion version_message | NVerack | NInv "inventory list" | NTx transaction | NPing u64 | NPong u64

record p2p_codec =
  pc_command :: "bytes \<Rightarrow> string option"
  pc_version :: "bytes \<Rightarrow> version_message option"
  pc_inventory :: "bytes \<Rightarrow> inventory list option"
  pc_u64 :: "bytes \<Rightarrow> u64 option"

datatype protocol_error =
    WrongMagic bytes | InvalidCommand bytes | TooLong string u32 | BadChecksum string | DecodeFailed string
  | OutOfOrder string | NoRelay | NoSegwit | NotRequested txid

datatype send_error = SendIo | SendProtocol protocol_error | SendTimeout

definition HEADER_LEN :: nat where "HEADER_LEN = 24"
definition MAX_PAYLOAD_LEN :: u32 where "MAX_PAYLOAD_LEN = 4000000"
definition SERVICE_WITNESS :: u64 where "SERVICE_WITNESS = 8"

section \<open>Reading\<close>

datatype stream_end = Closed | Silent

record stream =
  st_input :: bytes
  st_end :: stream_end

definition read_exact :: "nat \<Rightarrow> stream \<Rightarrow> send_error + bytes \<times> stream" where
  "read_exact n s =
     (if length (st_input s) < n then Inl (case st_end s of Closed \<Rightarrow> SendIo | Silent \<Rightarrow> SendTimeout)
      else Inr (take n (st_input s), s\<lparr>st_input := drop n (st_input s)\<rparr>))"

definition decode_with :: "('a \<Rightarrow> message) \<Rightarrow> (bytes \<Rightarrow> 'a option) \<Rightarrow> string \<Rightarrow> bytes \<Rightarrow> send_error + message" where
  "decode_with mk dec command payload =
     (case dec payload of None \<Rightarrow> Inl (SendProtocol (DecodeFailed command)) | Some x \<Rightarrow> Inr (mk x))"

definition message_of :: "p2p_codec \<Rightarrow> string \<Rightarrow> bytes \<Rightarrow> send_error + message" where
  "message_of codec command payload =
     (if command = ''version'' then decode_with MVersion (pc_version codec) command payload
      else if command = ''verack'' then Inr MVerack
      else if command = ''getdata'' then decode_with MGetData (pc_inventory codec) command payload
      else if command = ''ping'' then decode_with MPing (pc_u64 codec) command payload
      else if command = ''pong'' then decode_with MPong (pc_u64 codec) command payload
      else Inr (MOther command))"

definition slice :: "nat \<Rightarrow> nat \<Rightarrow> 'a list \<Rightarrow> 'a list" where
  "slice i j xs = take (j - i) (drop i xs)"

definition read_message :: "p2p_codec \<Rightarrow> btc \<Rightarrow> bytes \<Rightarrow> stream \<Rightarrow> send_error + message \<times> stream" where
  "read_message codec B magic s =
     (case read_exact HEADER_LEN s of
        Inl e \<Rightarrow> Inl e
      | Inr (hdr, s) \<Rightarrow>
          if slice 0 4 hdr \<noteq> magic then Inl (SendProtocol (WrongMagic (slice 0 4 hdr)))
          else (case pc_command codec (slice 4 16 hdr) of
             None \<Rightarrow> Inl (SendProtocol (InvalidCommand (slice 4 16 hdr)))
           | Some command \<Rightarrow>
               let payload_len = of_nat (le_nat (slice 16 20 hdr)) :: u32 in
               if payload_len > MAX_PAYLOAD_LEN then Inl (SendProtocol (TooLong command payload_len))
               else (case read_exact (unat payload_len) s of
                  Inl e \<Rightarrow> Inl e
                | Inr (payload, s) \<Rightarrow>
                    if take 4 (b_sha256d B payload) \<noteq> slice 20 24 hdr then Inl (SendProtocol (BadChecksum command))
                    else (case message_of codec command payload of
                       Inl e \<Rightarrow> Inl e
                     | Inr m \<Rightarrow> Inr (m, s)))))"

section \<open>The exchange\<close>

datatype exchange_state = AwaitingVersion | AwaitingVerack | AwaitingGetData | Done

text \<open>The writer is the list of the messages written so far; \<open>ex_writes\<close> is how many more it takes.\<close>

record exchange =
  ex_magic :: bytes
  ex_tx :: transaction
  ex_state :: exchange_state
  ex_sent :: "network_message list"
  ex_writes :: "nat option"

definition write_message :: "network_message \<Rightarrow> exchange \<Rightarrow> send_error + exchange" where
  "write_message m ex =
     (case ex_writes ex of
        Some 0 \<Rightarrow> Inl SendIo
      | Some (Suc n) \<Rightarrow> Inr (ex\<lparr>ex_sent := ex_sent ex @ [m], ex_writes := Some n\<rparr>)
      | None \<Rightarrow> Inr (ex\<lparr>ex_sent := ex_sent ex @ [m]\<rparr>))"

definition version_message :: "sock_addr \<Rightarrow> u32 \<Rightarrow> u64 option \<Rightarrow> u64 \<Rightarrow> version_message" where
  "version_message peer block_height since_epoch nonce =
     \<lparr>vm_services = SERVICE_WITNESS,
      vm_timestamp = (case since_epoch of Some secs \<Rightarrow> secs | None \<Rightarrow> 0),
      vm_receiver = (peer, SERVICE_WITNESS),
      vm_sender = (\<lparr>sock_ip = [0, 0, 0, 0], sock_port = 0\<rparr>, SERVICE_WITNESS),
      vm_nonce = nonce,
      vm_user_agent = ''/bip300301_enforcer:1.0.1/'',
      vm_start_height = block_height,
      vm_relay = False\<rparr>"

definition has_service :: "u64 \<Rightarrow> u64 \<Rightarrow> bool" where
  "has_service services flag = (services AND flag = flag)"

definition requests :: "txid \<Rightarrow> inventory list \<Rightarrow> bool" where
  "requests txid inventory = (InvTransaction txid \<in> set inventory \<or> InvWitnessTransaction txid \<in> set inventory)"

fun handle :: "btc \<Rightarrow> exchange \<Rightarrow> message \<Rightarrow> send_error + exchange" where
  "handle B ex (MVersion version) =
     (if ex_state ex \<noteq> AwaitingVersion then Inl (SendProtocol (OutOfOrder ''version''))
      else if \<not> vm_relay version then Inl (SendProtocol NoRelay)
      else if \<not> has_service (vm_services version) SERVICE_WITNESS then Inl (SendProtocol NoSegwit)
      else (case write_message NVerack ex of
         Inl e \<Rightarrow> Inl e
       | Inr ex \<Rightarrow> Inr (ex\<lparr>ex_state := AwaitingVerack\<rparr>)))"
| "handle B ex MVerack =
     (if ex_state ex \<noteq> AwaitingVerack then Inl (SendProtocol (OutOfOrder ''verack''))
      else (case write_message (NInv [InvTransaction (b_compute_txid B (ex_tx ex))]) ex of
         Inl e \<Rightarrow> Inl e
       | Inr ex \<Rightarrow> Inr (ex\<lparr>ex_state := AwaitingGetData\<rparr>)))"
| "handle B ex (MGetData inventory) =
     (if ex_state ex \<noteq> AwaitingGetData then Inl (SendProtocol (OutOfOrder ''getdata''))
      else if \<not> requests (b_compute_txid B (ex_tx ex)) inventory
        then Inl (SendProtocol (NotRequested (b_compute_txid B (ex_tx ex))))
      else (case write_message (NTx (ex_tx ex)) ex of
         Inl e \<Rightarrow> Inl e
       | Inr ex \<Rightarrow> Inr (ex\<lparr>ex_state := Done\<rparr>)))"
| "handle B ex (MPing nonce) = write_message (NPong nonce) ex"
| "handle B ex (MPong _) = Inr ex"
| "handle B ex (MOther _) = Inr ex"

lemma read_exact_Inr: "read_exact n s = Inr (bs, s') \<Longrightarrow> n \<le> length (st_input s) \<and> bs = take n (st_input s) \<and>
    st_input s' = drop n (st_input s) \<and> st_end s' = st_end s"
  by (auto simp: read_exact_def split: if_splits)

lemma read_message_shorter:
  "read_message codec B magic s = Inr (m, s') \<Longrightarrow> length (st_input s') < length (st_input s)"
  by (auto simp: read_message_def HEADER_LEN_def Let_def split: sum.splits prod.splits if_splits option.splits
      dest!: read_exact_Inr)

text \<open>The loop of \<open>exchange\<close> ends because a message has at least the 24 bytes of its header. The
  exchange is a mutable reference, so an error leaves it as the last handled message did.\<close>

function exchange_loop :: "p2p_codec \<Rightarrow> btc \<Rightarrow> exchange \<Rightarrow> stream \<Rightarrow> (send_error + unit) \<times> exchange \<times> stream" where
  "exchange_loop codec B ex s =
     (if ex_state ex = Done then (Inr (), ex, s)
      else case read_message codec B (ex_magic ex) s of
        Inl e \<Rightarrow> (Inl e, ex, s)
      | Inr (m, s) \<Rightarrow>
          (case handle B ex m of
             Inl e \<Rightarrow> (Inl e, ex, s)
           | Inr ex \<Rightarrow> exchange_loop codec B ex s))"
  by pat_completeness auto
termination
  by (relation "measure (\<lambda>(codec, B, ex, s). length (st_input s))") (auto dest: read_message_shorter)

definition exchange_run :: "p2p_codec \<Rightarrow> btc \<Rightarrow> version_message \<Rightarrow> exchange \<Rightarrow> stream \<Rightarrow>
    (send_error + unit) \<times> exchange \<times> stream" where
  "exchange_run codec B version ex s =
     (case write_message (NVersion version) ex of
        Inl e \<Rightarrow> (Inl e, ex, s)
      | Inr ex \<Rightarrow> exchange_loop codec B ex s)"

function processed_loop :: "p2p_codec \<Rightarrow> btc \<Rightarrow> u64 \<Rightarrow> exchange \<Rightarrow> stream \<Rightarrow> send_error + unit" where
  "processed_loop codec B nonce ex s =
     (case read_message codec B (ex_magic ex) s of
        Inl e \<Rightarrow> Inl e
      | Inr (m, s) \<Rightarrow>
          if m = MPong nonce then Inr ()
          else (case handle B ex m of
             Inl e \<Rightarrow> Inl e
           | Inr ex \<Rightarrow> processed_loop codec B nonce ex s))"
  by pat_completeness auto
termination
  by (relation "measure (\<lambda>(codec, B, nonce, ex, s). length (st_input s))") (auto dest: read_message_shorter)

definition await_processed :: "p2p_codec \<Rightarrow> btc \<Rightarrow> u64 \<Rightarrow> exchange \<Rightarrow> stream \<Rightarrow> send_error + unit" where
  "await_processed codec B nonce ex s =
     (case write_message (NPing nonce) ex of
        Inl e \<Rightarrow> Inl e
      | Inr ex \<Rightarrow> processed_loop codec B nonce ex s)"

declare exchange_loop.simps [simp del] processed_loop.simps [simp del]

section \<open>A node and the attempt to send to it\<close>

text \<open>How a node behaves towards one connection: whether it accepts it, what it sends before the
  deadline of the exchange, what it sends after that until the flush deadline, and how many writes it takes.
  \<open>sent_tx\<close> is the result and the warning about a missing confirmation.\<close>

datatype connect_outcome = ConnectTimeout | ConnectFailed | Connected

record node =
  node_connect :: connect_outcome
  node_input :: stream
  node_later :: stream
  node_writes :: "nat option"

record send_config =
  sc_block_height :: u32
  sc_magic :: bytes

definition send_tx :: "p2p_codec \<Rightarrow> btc \<Rightarrow> u64 option \<Rightarrow> u64 \<Rightarrow> u64 \<Rightarrow> node \<Rightarrow> sock_addr \<Rightarrow> transaction \<Rightarrow> send_config \<Rightarrow>
    (send_error + unit) \<times> network_message list \<times> (send_error + unit) option" where
  "send_tx codec B now version_nonce ping_nonce nd peer tx config =
     (case node_connect nd of
        ConnectTimeout \<Rightarrow> (Inl SendTimeout, [], None)
      | ConnectFailed \<Rightarrow> (Inl SendIo, [], None)
      | Connected \<Rightarrow>
          (case exchange_run codec B (version_message peer (sc_block_height config) now version_nonce)
                  \<lparr>ex_magic = sc_magic config, ex_tx = tx, ex_state = AwaitingVersion, ex_sent = [],
                   ex_writes = node_writes nd\<rparr> (node_input nd) of
             (Inl e, ex, s) \<Rightarrow> (Inl e, ex_sent ex, None)
           | (Inr _, ex, s) \<Rightarrow> (Inr (), ex_sent ex, Some (await_processed codec B ping_nonce ex
                \<lparr>st_input = st_input s @ st_input (node_later nd), st_end = st_end (node_later nd)\<rparr>))))"

text \<open>\<open>send_to_first_reachable\<close>: \<open>attempt\<close> is \<open>send_tx\<close> on an address. The slice is not empty, see
  \<open>broadcast_nonstandard_tx\<close>; on an empty one the \<open>expect\<close> panics (\<open>None\<close>).\<close>

fun send_loop :: "('a \<Rightarrow> send_error + unit) \<Rightarrow> 'a list \<Rightarrow> send_error option \<Rightarrow> (send_error + bool) option" where
  "send_loop attempt [] last_err = map_option Inl last_err"
| "send_loop attempt (addr # addrs) last_err =
     (case attempt addr of
        Inr _ \<Rightarrow> Some (Inr True)
      | Inl SendTimeout \<Rightarrow> Some (Inr False)
      | Inl err \<Rightarrow> send_loop attempt addrs (Some err))"

definition send_to_first_reachable :: "('a \<Rightarrow> send_error + unit) \<Rightarrow> 'a list \<Rightarrow> (send_error + bool) option" where
  "send_to_first_reachable attempt addrs = send_loop attempt addrs None"

datatype broadcast_error = ResolveFailed | ResolvedEmpty | BroadcastSend send_error | BroadcastPanic

definition broadcast_nonstandard_tx :: "('a \<Rightarrow> send_error + unit) \<Rightarrow> 'a list option \<Rightarrow> broadcast_error + bool" where
  "broadcast_nonstandard_tx attempt resolved =
     (case resolved of
        None \<Rightarrow> Inl ResolveFailed
      | Some addrs \<Rightarrow>
          if addrs = [] then Inl ResolvedEmpty
          else (case send_to_first_reachable attempt addrs of
             None \<Rightarrow> Inl BroadcastPanic
           | Some (Inl e) \<Rightarrow> Inl (BroadcastSend e)
           | Some (Inr b) \<Rightarrow> Inr b))"

section \<open>The protocol\<close>

text \<open>What is received and what is sent, as the traces of the protocol: one rule for each message.\<close>

inductive protocol :: "btc \<Rightarrow> transaction \<Rightarrow> version_message \<Rightarrow> message list \<Rightarrow> network_message list \<Rightarrow> exchange_state \<Rightarrow> bool"
  for B tx version where
  start: "protocol B tx version [] [NVersion version] AwaitingVersion"
| version: "protocol B tx version ms out AwaitingVersion \<Longrightarrow> vm_relay v \<Longrightarrow> has_service (vm_services v) SERVICE_WITNESS \<Longrightarrow>
    protocol B tx version (ms @ [MVersion v]) (out @ [NVerack]) AwaitingVerack"
| verack: "protocol B tx version ms out AwaitingVerack \<Longrightarrow>
    protocol B tx version (ms @ [MVerack]) (out @ [NInv [InvTransaction (b_compute_txid B tx)]]) AwaitingGetData"
| getdata: "protocol B tx version ms out AwaitingGetData \<Longrightarrow> requests (b_compute_txid B tx) inventory \<Longrightarrow>
    protocol B tx version (ms @ [MGetData inventory]) (out @ [NTx tx]) Done"
| ping: "protocol B tx version ms out st \<Longrightarrow> protocol B tx version (ms @ [MPing n]) (out @ [NPong n]) st"
| pong: "protocol B tx version ms out st \<Longrightarrow> protocol B tx version (ms @ [MPong n]) out st"
| other: "protocol B tx version ms out st \<Longrightarrow> protocol B tx version (ms @ [MOther c]) out st"

text \<open>The messages read off a stream.\<close>

inductive received :: "p2p_codec \<Rightarrow> btc \<Rightarrow> bytes \<Rightarrow> stream \<Rightarrow> message list \<Rightarrow> stream \<Rightarrow> bool" for codec B magic where
  none: "received codec B magic s [] s"
| more: "received codec B magic s ms s' \<Longrightarrow> read_message codec B magic s' = Inr (m, s'') \<Longrightarrow>
    received codec B magic s (ms @ [m]) s''"

lemma write_message_Inr:
  "write_message m ex = Inr ex' \<Longrightarrow> ex_sent ex' = ex_sent ex @ [m] \<and> ex_state ex' = ex_state ex \<and>
    ex_tx ex' = ex_tx ex \<and> ex_magic ex' = ex_magic ex"
  by (auto simp: write_message_def split: option.splits nat.splits)

lemma handle_protocol:
  assumes "protocol B (ex_tx ex) version ms (ex_sent ex) (ex_state ex)" "handle B ex m = Inr ex'"
  shows "protocol B (ex_tx ex') version (ms @ [m]) (ex_sent ex') (ex_state ex') \<and> ex_tx ex' = ex_tx ex \<and> ex_magic ex' = ex_magic ex"
proof (cases m)
  case (MVersion v)
  with assms(2) obtain ex1 where w: "ex_state ex = AwaitingVersion" "vm_relay v" "has_service (vm_services v) SERVICE_WITNESS"
    "write_message NVerack ex = Inr ex1" "ex' = ex1\<lparr>ex_state := AwaitingVerack\<rparr>" by (auto split: if_splits sum.splits)
  with protocol.version [OF assms(1) [unfolded w(1)] w(2,3)] write_message_Inr [OF w(4)] MVersion show ?thesis by simp
next
  case MVerack
  with assms(2) obtain ex1 where w: "ex_state ex = AwaitingVerack"
    "write_message (NInv [InvTransaction (b_compute_txid B (ex_tx ex))]) ex = Inr ex1" "ex' = ex1\<lparr>ex_state := AwaitingGetData\<rparr>"
    by (auto split: if_splits sum.splits)
  with protocol.verack [OF assms(1) [unfolded w(1)]] write_message_Inr [OF w(2)] MVerack show ?thesis by simp
next
  case (MGetData inventory)
  with assms(2) obtain ex1 where w: "ex_state ex = AwaitingGetData" "requests (b_compute_txid B (ex_tx ex)) inventory"
    "write_message (NTx (ex_tx ex)) ex = Inr ex1" "ex' = ex1\<lparr>ex_state := Done\<rparr>" by (auto split: if_splits sum.splits)
  with protocol.getdata [OF assms(1) [unfolded w(1)] w(2)] write_message_Inr [OF w(3)] MGetData show ?thesis by simp
next
  case (MPing n)
  with protocol.ping [OF assms(1)] write_message_Inr [of "NPong n" ex ex'] assms(2) show ?thesis by simp
qed (use assms protocol.pong protocol.other in \<open>auto\<close>)

lemma exchange_loop_protocol:
  assumes "protocol B (ex_tx ex) version ms (ex_sent ex) (ex_state ex)" "received codec B (ex_magic ex) s0 ms s"
    and "exchange_loop codec B ex s = (r, ex', s')"
  shows "\<exists>ms' t. received codec B (ex_magic ex) s0 ms' t \<and> protocol B (ex_tx ex) version ms' (ex_sent ex') (ex_state ex') \<and>
    (r = Inr () \<longleftrightarrow> ex_state ex' = Done) \<and> (r = Inr () \<longrightarrow> t = s')"
  using assms
proof (induction codec B ex s arbitrary: ms rule: exchange_loop.induct)
  case (1 codec B ex s)
  show ?case
  proof (cases "ex_state ex = Done")
    case True
    with 1 show ?thesis by (auto simp: exchange_loop.simps [of codec B ex s])
  next
    case run: False
    show ?thesis
    proof (cases "read_message codec B (ex_magic ex) s")
      case (Inl e)
      with 1 run show ?thesis by (auto simp: exchange_loop.simps [of codec B ex s])
    next
      case (Inr z)
      obtain m s1 where z: "z = (m, s1)" by (cases z)
      note rd = received.more [OF "1.prems"(2) Inr [unfolded z]]
      show ?thesis
      proof (cases "handle B ex m")
        case (Inl e)
        with 1 run Inr z show ?thesis by (auto simp: exchange_loop.simps [of codec B ex s])
      next
        case (Inr ex1)
        note h = handle_protocol [OF "1.prems"(1) Inr]
        from h have tx: "ex_tx ex1 = ex_tx ex" "ex_magic ex1 = ex_magic ex" by simp_all
        have "exchange_loop codec B ex1 s1 = (r, ex', s')"
          using "1.prems"(3) run \<open>read_message codec B (ex_magic ex) s = Inr z\<close> z Inr by (simp add: exchange_loop.simps [of codec B ex s])
        from "1.IH" [OF run \<open>read_message codec B (ex_magic ex) s = Inr z\<close> z [symmetric] Inr conjunct1 [OF h] _ this, unfolded tx] rd
        show ?thesis by blast
      qed
    qed
  qed
qed

fun in_handshake :: "message \<Rightarrow> bool" where
  "in_handshake (MPing _) = False"
| "in_handshake (MPong _) = False"
| "in_handshake (MOther _) = False"
| "in_handshake _ = True"

fun is_pong :: "network_message \<Rightarrow> bool" where
  "is_pong (NPong _) = True"
| "is_pong _ = False"

text \<open>What the node still has to send, in a state of the exchange.\<close>

fun awaited :: "txid \<Rightarrow> exchange_state \<Rightarrow> message list \<Rightarrow> bool" where
  "awaited txid AwaitingVersion ms = (\<exists>v inventory. ms = [MVersion v, MVerack, MGetData inventory] \<and> vm_relay v \<and>
     has_service (vm_services v) SERVICE_WITNESS \<and> requests txid inventory)"
| "awaited txid AwaitingVerack ms = (\<exists>inventory. ms = [MVerack, MGetData inventory] \<and> requests txid inventory)"
| "awaited txid AwaitingGetData ms = (\<exists>inventory. ms = [MGetData inventory] \<and> requests txid inventory)"
| "awaited txid Done ms = (ms = [])"

abbreviation complete_handshake :: "txid \<Rightarrow> message list \<Rightarrow> bool" where
  "complete_handshake txid ms \<equiv> awaited txid AwaitingVersion (filter in_handshake ms)"

fun sent_in :: "btc \<Rightarrow> transaction \<Rightarrow> version_message \<Rightarrow> exchange_state \<Rightarrow> network_message list" where
  "sent_in B tx version AwaitingVersion = [NVersion version]"
| "sent_in B tx version AwaitingVerack = [NVersion version, NVerack]"
| "sent_in B tx version AwaitingGetData = [NVersion version, NVerack, NInv [InvTransaction (b_compute_txid B tx)]]"
| "sent_in B tx version Done = [NVersion version, NVerack, NInv [InvTransaction (b_compute_txid B tx)], NTx tx]"

lemma protocol_shape:
  "protocol B tx version ms out st \<Longrightarrow> filter (\<lambda>m. \<not> is_pong m) out = sent_in B tx version st \<and>
    (\<forall>rest. awaited (b_compute_txid B tx) st rest \<longrightarrow> awaited (b_compute_txid B tx) AwaitingVersion (filter in_handshake ms @ rest))"
  by (induction rule: protocol.induct) auto

lemma protocol_tx:
  assumes "protocol B tx version ms out st" "NTx tx' \<in> set out"
  shows "tx' = tx \<and> complete_handshake (b_compute_txid B tx) ms \<and>
    filter (\<lambda>m. \<not> is_pong m) out = [NVersion version, NVerack, NInv [InvTransaction (b_compute_txid B tx)], NTx tx]"
proof -
  note shape = protocol_shape [OF assms(1)]
  have "NTx tx' \<in> set (filter (\<lambda>m. \<not> is_pong m) out)" using assms(2) by simp
  then have "NTx tx' \<in> set (sent_in B tx version st)" using shape by simp
  then have st: "st = Done" "tx' = tx" by (cases st; simp)+
  from shape have "awaited (b_compute_txid B tx) AwaitingVersion (filter in_handshake ms @ [])" unfolding st(1) by (metis awaited.simps(4))
  with st shape show ?thesis by simp
qed

lemma start_protocol:
  assumes "write_message (NVersion version) ex = Inr ex1" "ex_state ex = AwaitingVersion" "ex_sent ex = []"
  shows "protocol B (ex_tx ex1) version [] (ex_sent ex1) (ex_state ex1)"
  using write_message_Inr [OF assms(1)] assms(2,3) protocol.start by simp

lemma exchange_run_protocol:
  assumes "exchange_run codec B version ex s = (r, ex', s')" "ex_state ex = AwaitingVersion" "ex_sent ex = []"
  shows "(r = Inl SendIo \<and> ex_sent ex' = []) \<or>
    (\<exists>ms t. received codec B (ex_magic ex) s ms t \<and> protocol B (ex_tx ex) version ms (ex_sent ex') (ex_state ex') \<and>
       (r = Inr () \<longleftrightarrow> ex_state ex' = Done))"
proof (cases "write_message (NVersion version) ex")
  case (Inl e)
  then have "e = SendIo" by (auto simp: write_message_def split: option.splits nat.splits)
  with Inl assms show ?thesis by (auto simp: exchange_run_def)
next
  case (Inr ex1)
  with assms(1) have "exchange_loop codec B ex1 s = (r, ex', s')" by (simp add: exchange_run_def)
  from exchange_loop_protocol [OF start_protocol [OF Inr assms(2,3)] received.none this] write_message_Inr [OF Inr]
  show ?thesis by metis
qed

text \<open>C32: Whatever the node does, the transaction leaves the enforcer only when the node has asked
  for it: if the transaction is among the messages written, then the node sent, besides pings, pongs and
  messages that are ignored, its version (relaying, with segwit), its verack and a request that names the
  transaction, in this order; and besides the answers to pings the enforcer wrote its version, its verack,
  the announcement and the transaction, once each.\<close>

theorem tx_sent_only_on_request:
  assumes "send_tx codec B now vn pn nd peer tx config = (r, sent, flush)" "NTx tx' \<in> set sent"
  shows "tx' = tx \<and> (\<exists>ms t. received codec B (sc_magic config) (node_input nd) ms t \<and>
    complete_handshake (b_compute_txid B tx) ms) \<and>
    filter (\<lambda>m. \<not> is_pong m) sent = [NVersion (version_message peer (sc_block_height config) now vn), NVerack,
      NInv [InvTransaction (b_compute_txid B tx)], NTx tx]"
proof -
  let ?ex = "\<lparr>ex_magic = sc_magic config, ex_tx = tx, ex_state = AwaitingVersion, ex_sent = [], ex_writes = node_writes nd\<rparr>"
  let ?v = "version_message peer (sc_block_height config) now vn"
  obtain r' ex' s' where run: "exchange_run codec B ?v ?ex (node_input nd) = (r', ex', s')" by (metis prod_cases3)
  have "ex_sent ex' = sent" using assms run by (auto simp: send_tx_def split: connect_outcome.splits sum.splits)
  with exchange_run_protocol [OF run] assms(2) obtain ms t where
    "received codec B (sc_magic config) (node_input nd) ms t" "protocol B tx ?v ms sent (ex_state ex')" by auto
  with protocol_tx [OF this(2) assms(2)] show ?thesis by blast
qed

lemma received_Cons:
  assumes "received codec B magic s (m # ms) t"
  shows "\<exists>s1. read_message codec B magic s = Inr (m, s1) \<and> received codec B magic s1 ms t"
proof -
  have "received codec B magic s xs t \<Longrightarrow> xs = m # ms \<Longrightarrow>
      \<exists>s1. read_message codec B magic s = Inr (m, s1) \<and> received codec B magic s1 ms t" for xs
  proof (induction arbitrary: ms rule: received.induct)
    case (more s ms1 s' m1 s'')
    show ?case
    proof (cases ms1)
      case Nil
      with more have "s' = s" by (auto elim: received.cases)
      with more Nil show ?thesis by (auto intro: received.none)
    next
      case (Cons a as)
      with more obtain s1 where "read_message codec B magic s = Inr (m, s1)" "received codec B magic s1 as s'" "ms = as @ [m1]"
        by auto
      with more(2) show ?thesis by (auto intro: received.more)
    qed
  qed simp
  with assms show ?thesis by blast
qed

lemma handle_quiet:
  assumes "\<not> in_handshake m" "ex_writes ex = None"
  shows "\<exists>ex1. handle B ex m = Inr ex1 \<and> ex_writes ex1 = None \<and> ex_state ex1 = ex_state ex \<and> ex_tx ex1 = ex_tx ex \<and> ex_magic ex1 = ex_magic ex"
  using assms by (cases m) (auto simp: write_message_def)

lemma handle_awaited:
  assumes "awaited (b_compute_txid B (ex_tx ex)) (ex_state ex) (m # ms)" "ex_writes ex = None"
  shows "\<exists>ex1. handle B ex m = Inr ex1 \<and> ex_writes ex1 = None \<and> awaited (b_compute_txid B (ex_tx ex)) (ex_state ex1) ms \<and>
    ex_tx ex1 = ex_tx ex \<and> ex_magic ex1 = ex_magic ex"
  using assms by (cases "ex_state ex") (auto simp: write_message_def)

lemma exchange_loop_succeeds:
  assumes "received codec B (ex_magic ex) s ms t" "awaited (b_compute_txid B (ex_tx ex)) (ex_state ex) (filter in_handshake ms)"
    and "ex_writes ex = None"
  shows "fst (exchange_loop codec B ex s) = Inr ()"
  using assms
proof (induction ms arbitrary: ex s)
  case Nil
  then have "ex_state ex = Done" by (cases "ex_state ex") auto
  then show ?case by (simp add: exchange_loop.simps)
next
  case (Cons m ms)
  from received_Cons [OF Cons.prems(1)] obtain s1 where rd: "read_message codec B (ex_magic ex) s = Inr (m, s1)"
    "received codec B (ex_magic ex) s1 ms t" by blast
  have "\<exists>ex1. handle B ex m = Inr ex1 \<and> ex_writes ex1 = None \<and>
      awaited (b_compute_txid B (ex_tx ex)) (ex_state ex1) (filter in_handshake ms) \<and> ex_tx ex1 = ex_tx ex \<and> ex_magic ex1 = ex_magic ex"
  proof (cases "in_handshake m")
    case True
    with handle_awaited [of B ex m] Cons.prems(2,3) show ?thesis by simp
  next
    case False
    with handle_quiet [OF False Cons.prems(3), of B] Cons.prems(2) show ?thesis by auto
  qed
  then obtain ex1 where h: "handle B ex m = Inr ex1" "ex_writes ex1 = None"
    "awaited (b_compute_txid B (ex_tx ex)) (ex_state ex1) (filter in_handshake ms)" "ex_tx ex1 = ex_tx ex" "ex_magic ex1 = ex_magic ex" by blast
  from Cons.IH [of ex1 s1] h rd(2) have "fst (exchange_loop codec B ex1 s1) = Inr ()" by simp
  with rd(1) h(1) show ?case by (simp add: exchange_loop.simps [of codec B ex s])
qed

lemma send_tx_ok_iff:
  assumes "node_connect nd = Connected" "node_writes nd = None"
  shows "fst (send_tx codec B now vn pn nd peer tx config) = Inr () \<longleftrightarrow>
    (\<exists>ms t. received codec B (sc_magic config) (node_input nd) ms t \<and> complete_handshake (b_compute_txid B tx) ms)"
proof -
  let ?ex = "\<lparr>ex_magic = sc_magic config, ex_tx = tx, ex_state = AwaitingVersion, ex_sent = [], ex_writes = None\<rparr>"
  let ?v = "version_message peer (sc_block_height config) now vn"
  obtain r ex' s' where run: "exchange_run codec B ?v ?ex (node_input nd) = (r, ex', s')" by (metis prod_cases3)
  have fst: "fst (send_tx codec B now vn pn nd peer tx config) = Inr () \<longleftrightarrow> r = Inr ()"
    using assms run by (cases r) (simp_all add: send_tx_def)
  show ?thesis
  proof
    assume "fst (send_tx codec B now vn pn nd peer tx config) = Inr ()"
    then have "r = Inr ()" using fst by simp
    with exchange_run_protocol [OF run] obtain ms t where rd: "received codec B (sc_magic config) (node_input nd) ms t"
      and p: "protocol B tx ?v ms (ex_sent ex') Done" by auto
    from protocol_shape [OF p] have "complete_handshake (b_compute_txid B tx) ms" by (metis append_Nil2 awaited.simps(4))
    with rd show "\<exists>ms t. received codec B (sc_magic config) (node_input nd) ms t \<and> complete_handshake (b_compute_txid B tx) ms" by blast
  next
    assume "\<exists>ms t. received codec B (sc_magic config) (node_input nd) ms t \<and> complete_handshake (b_compute_txid B tx) ms"
    then obtain ms t where ms: "received codec B (sc_magic config) (node_input nd) ms t" "complete_handshake (b_compute_txid B tx) ms" by blast
    have "exchange_run codec B ?v ?ex (node_input nd) = exchange_loop codec B (?ex\<lparr>ex_sent := [NVersion ?v]\<rparr>) (node_input nd)"
      by (simp add: exchange_run_def write_message_def)
    moreover have "fst (exchange_loop codec B (?ex\<lparr>ex_sent := [NVersion ?v]\<rparr>) (node_input nd)) = Inr ()"
      by (rule exchange_loop_succeeds [of _ _ _ _ ms t]) (use ms in simp_all)
    ultimately have "r = Inr ()" using run by (metis fst_conv)
    then show "fst (send_tx codec B now vn pn nd peer tx config) = Inr ()" using fst by blast
  qed
qed

lemma send_tx_ok_sent:
  assumes "fst (send_tx codec B now vn pn nd peer tx config) = Inr ()"
  shows "NTx tx \<in> set (fst (snd (send_tx codec B now vn pn nd peer tx config)))"
proof -
  let ?ex = "\<lparr>ex_magic = sc_magic config, ex_tx = tx, ex_state = AwaitingVersion, ex_sent = [], ex_writes = node_writes nd\<rparr>"
  let ?v = "version_message peer (sc_block_height config) now vn"
  obtain r ex' s' where run: "exchange_run codec B ?v ?ex (node_input nd) = (r, ex', s')" by (metis prod_cases3)
  with assms have r: "r = Inr ()" "fst (snd (send_tx codec B now vn pn nd peer tx config)) = ex_sent ex'"
    by (auto simp: send_tx_def split: connect_outcome.splits sum.splits)
  with exchange_run_protocol [OF run] obtain ms where p: "protocol B tx ?v ms (ex_sent ex') Done" by auto
  have "NTx tx \<in> set (filter (\<lambda>m. \<not> is_pong m) (ex_sent ex'))" using protocol_shape [OF p] by simp
  with r(2) show ?thesis by simp
qed

text \<open>C33: On a connection that takes every write, sending succeeds exactly when the node completes the
  handshake and asks for the transaction before the deadline. Pings, pongs and messages the enforcer
  has no use for (feature negotiation) can come in between anywhere, and whether the node later
  confirms with a pong does not change the result.\<close>

theorem send_tx_succeeds_iff:
  assumes "node_connect nd = Connected" "node_writes nd = None"
  shows "fst (send_tx codec B now vn pn nd peer tx config) = Inr () \<longleftrightarrow>
    (\<exists>ms t. received codec B (sc_magic config) (node_input nd) ms t \<and> complete_handshake (b_compute_txid B tx) ms)"
  using assms by (rule send_tx_ok_iff)

section \<open>Frames\<close>

text \<open>The frame of a message: the network's magic, the command in twelve bytes, the length of the payload
  and the first four bytes of its hash, then the payload.\<close>

definition frame :: "btc \<Rightarrow> bytes \<Rightarrow> bytes \<Rightarrow> bytes \<Rightarrow> bytes" where
  "frame B magic command payload =
     magic @ command @ le_bytes_of 4 (length payload) @ take 4 (b_sha256d B payload) @ payload"

lemma unat_len: "n < 2 ^ 32 \<Longrightarrow> unat (of_nat n :: u32) = n"
  by (simp add: unat_of_nat)

text \<open>A frame is read back as the message it carries, and nothing behind it is touched. A message that
  was read took its header and at most 4,000,000 bytes of payload off the stream.\<close>

lemma read_message_frame:
  assumes "length magic = 4" "length command = 12" "pc_command codec command = Some name" "length payload \<le> 4000000"
    and "4 \<le> length (b_sha256d B payload)"
  shows "read_message codec B magic \<lparr>st_input = frame B magic command payload @ rest, st_end = e\<rparr> =
    (case message_of codec name payload of Inl er \<Rightarrow> Inl er | Inr m \<Rightarrow> Inr (m, \<lparr>st_input = rest, st_end = e\<rparr>))"
proof -
  let ?hdr = "magic @ command @ le_bytes_of 4 (length payload) @ take 4 (b_sha256d B payload)"
  have len: "length ?hdr = 24" using assms by simp
  have rd: "read_exact HEADER_LEN \<lparr>st_input = frame B magic command payload @ rest, st_end = e\<rparr> =
      Inr (?hdr, \<lparr>st_input = payload @ rest, st_end = e\<rparr>)"
    using assms by (simp add: read_exact_def HEADER_LEN_def frame_def)
  have parts: "slice 0 4 ?hdr = magic" "slice 4 16 ?hdr = command" "slice 16 20 ?hdr = le_bytes_of 4 (length payload)"
    "slice 20 24 ?hdr = take 4 (b_sha256d B payload)"
    using assms by (simp_all add: slice_def)
  have le: "le_nat (le_bytes_of 4 (length payload)) = length payload" using assms(4) by (intro le_nat_of) simp
  have un: "unat (of_nat (length payload) :: u32) = length payload" using assms(4) by (intro unat_len) simp
  then have small: "\<not> MAX_PAYLOAD_LEN < of_nat (length payload)" using assms(4) by (simp add: MAX_PAYLOAD_LEN_def word_less_nat_alt)
  have rd2: "read_exact (length payload) \<lparr>st_input = payload @ rest, st_end = e\<rparr> = Inr (payload, \<lparr>st_input = rest, st_end = e\<rparr>)"
    by (simp add: read_exact_def)
  show ?thesis
    unfolding read_message_def rd sum.case prod.case parts assms(3) option.case Let_def le un rd2
    using small by simp
qed

lemma read_message_takes:
  assumes "read_message codec B magic s = Inr (m, s')"
  shows "\<exists>k. 24 \<le> k \<and> k \<le> 24 + 4000000 \<and> k \<le> length (st_input s) \<and> st_input s' = drop k (st_input s)"
proof -
  from assms obtain hdr s1 payload n where r: "read_exact HEADER_LEN s = Inr (hdr, s1)" "read_exact (unat n) s1 = Inr (payload, s')"
    "\<not> MAX_PAYLOAD_LEN < n"
    by (auto simp: read_message_def Let_def split: sum.splits prod.splits if_splits option.splits)
  from read_exact_Inr [OF r(1)] read_exact_Inr [OF r(2)] r(3) show ?thesis
    by (intro exI [of _ "unat n + 24"]) (auto simp: HEADER_LEN_def MAX_PAYLOAD_LEN_def word_less_nat_alt)
qed

definition refused :: "('a \<Rightarrow> send_error + unit) \<Rightarrow> 'a \<Rightarrow> bool" where
  "refused attempt addr = (attempt addr \<noteq> Inr () \<and> attempt addr \<noteq> Inl SendTimeout)"

text \<open>Of the addresses of a node the first that does not refuse decides whether the transaction counts
  as sent or as timed out; the broadcast fails only when every address refused, with the error of the
  last, and never panics.\<close>

theorem first_reachable_decides:
  "broadcast_nonstandard_tx attempt (Some addrs) =
     (case dropWhile (refused attempt) addrs of
        addr # _ \<Rightarrow> Inr (attempt addr = Inr ())
      | [] \<Rightarrow> Inl (if addrs = [] then ResolvedEmpty else BroadcastSend (projl (attempt (last addrs)))))"
proof -
  have "send_loop attempt addrs l = (case dropWhile (refused attempt) addrs of
      addr # _ \<Rightarrow> Some (Inr (attempt addr = Inr ()))
    | [] \<Rightarrow> if addrs = [] then map_option Inl l else Some (Inl (projl (attempt (last addrs)))))" for l
  proof (induction addrs arbitrary: l)
    case (Cons a addrs)
    consider "attempt a = Inr ()" | "attempt a = Inl SendTimeout" | e where "attempt a = Inl e" "e \<noteq> SendTimeout"
      by (cases "attempt a") auto
    then show ?case
    proof cases
      case 3
      then have "send_loop attempt (a # addrs) l = send_loop attempt addrs (Some e)" by (cases e) simp_all
      moreover have "refused attempt a" using 3 by (simp add: refused_def)
      ultimately show ?thesis using Cons.IH [of "Some e"] 3(1)
        by (cases "dropWhile (refused attempt) addrs") (auto simp del: dropWhile_eq_Nil_conv)
    qed (simp_all add: refused_def)
  qed simp
  then show ?thesis
    by (cases "dropWhile (refused attempt) addrs")
      (auto simp: broadcast_nonstandard_tx_def send_to_first_reachable_def simp del: dropWhile_eq_Nil_conv)
qed

section \<open>Witnesses\<close>

definition sample_codec_p2p :: p2p_codec where
  "sample_codec_p2p = \<lparr>pc_command = (\<lambda>bs. if hd bs = 1 then Some ''version''
       else if hd bs = 2 then Some ''verack'' else if hd bs = 3 then Some ''getdata''
       else if hd bs = 4 then Some ''ping'' else Some ''sendaddrv2''),
     pc_version = (\<lambda>_. Some \<lparr>vm_services = 9, vm_timestamp = 0, vm_receiver = (\<lparr>sock_ip = [], sock_port = 0\<rparr>, 0),
       vm_sender = (\<lparr>sock_ip = [], sock_port = 0\<rparr>, 0), vm_nonce = 0, vm_user_agent = [], vm_start_height = 0, vm_relay = True\<rparr>),
     pc_inventory = (\<lambda>bs. Some [InvWitnessTransaction bs]),
     pc_u64 = (\<lambda>_. Some 7)\<rparr>"

definition sample_frame :: "u8 \<Rightarrow> bytes \<Rightarrow> bytes" where
  "sample_frame c payload = frame sample_btc [1, 2, 3, 4] (replicate 12 c) payload"

definition sample_tx :: transaction where
  "sample_tx = \<lparr>tx_version = 2, tx_lock_time = 9, tx_input = [], tx_output = []\<rparr>"

definition sample_node :: node where
  "sample_node = \<lparr>node_connect = Connected, node_input = \<lparr>st_input = sample_frame 1 [] @ sample_frame 9 [5] @
       sample_frame 2 [] @ sample_frame 4 [] @ sample_frame 3 (pad32 [9]), st_end = Silent\<rparr>,
     node_later = \<lparr>st_input = [], st_end = Silent\<rparr>, node_writes = None\<rparr>"

lemma sample_frame_read:
  assumes "length payload \<le> 100" "pc_command sample_codec_p2p (replicate 12 c) = Some name"
    and "message_of sample_codec_p2p name payload = Inr m"
  shows "read_message sample_codec_p2p sample_btc [1, 2, 3, 4] \<lparr>st_input = sample_frame c payload @ rest, st_end = e\<rparr> =
    Inr (m, \<lparr>st_input = rest, st_end = e\<rparr>)"
proof -
  have "length (replicate 12 c) = 12" "length [1 :: u8, 2, 3, 4] = 4" "length payload \<le> 4000000"
    "4 \<le> length (b_sha256d sample_btc payload)" using assms(1) by simp_all
  from read_message_frame [OF this(2,1) assms(2) this(3,4)] assms(3) show ?thesis by (simp add: sample_frame_def)
qed

lemma sample_received:
  "\<exists>ms t. received sample_codec_p2p sample_btc [1, 2, 3, 4] (node_input sample_node) ms t \<and> complete_handshake (pad32 [9]) ms"
proof -
  let ?rd = "read_message sample_codec_p2p sample_btc [1, 2, 3, 4]"
  let ?s = "\<lambda>bs. \<lparr>st_input = bs, st_end = Silent\<rparr>"
  let ?v = "the (pc_version sample_codec_p2p [])"
  have cmd: "pc_command sample_codec_p2p (replicate 12 1) = Some ''version''" "pc_command sample_codec_p2p (replicate 12 9) = Some ''sendaddrv2''"
    "pc_command sample_codec_p2p (replicate 12 2) = Some ''verack''" "pc_command sample_codec_p2p (replicate 12 4) = Some ''ping''"
    "pc_command sample_codec_p2p (replicate 12 3) = Some ''getdata''"
    by (simp_all add: sample_codec_p2p_def hd_replicate)
  have msg: "message_of sample_codec_p2p ''version'' [] = Inr (MVersion ?v)" "message_of sample_codec_p2p ''sendaddrv2'' [5] = Inr (MOther ''sendaddrv2'')"
    "message_of sample_codec_p2p ''verack'' [] = Inr MVerack" "message_of sample_codec_p2p ''ping'' [] = Inr (MPing 7)"
    "message_of sample_codec_p2p ''getdata'' (pad32 [9]) = Inr (MGetData [InvWitnessTransaction (pad32 [9])])"
    by (simp_all add: message_of_def decode_with_def sample_codec_p2p_def)
  have e1: "?rd (?s (sample_frame 1 [] @ R)) = Inr (MVersion ?v, ?s R)" for R by (rule sample_frame_read [OF _ cmd(1) msg(1)]) simp
  have e2: "?rd (?s (sample_frame 9 [5] @ R)) = Inr (MOther ''sendaddrv2'', ?s R)" for R by (rule sample_frame_read [OF _ cmd(2) msg(2)]) simp
  have e3: "?rd (?s (sample_frame 2 [] @ R)) = Inr (MVerack, ?s R)" for R by (rule sample_frame_read [OF _ cmd(3) msg(3)]) simp
  have e4: "?rd (?s (sample_frame 4 [] @ R)) = Inr (MPing 7, ?s R)" for R by (rule sample_frame_read [OF _ cmd(4) msg(4)]) simp
  have e5: "?rd (?s (sample_frame 3 (pad32 [9]))) = Inr (MGetData [InvWitnessTransaction (pad32 [9])], ?s [])"
    using sample_frame_read [OF _ cmd(5) msg(5), of "[]"] by simp
  have "received sample_codec_p2p sample_btc [1, 2, 3, 4] (node_input sample_node)
      ((((([] @ [MVersion ?v]) @ [MOther ''sendaddrv2'']) @ [MVerack]) @ [MPing 7]) @ [MGetData [InvWitnessTransaction (pad32 [9])]]) (?s [])"
    unfolding sample_node_def node.simps
    by (rule received.more [OF received.more [OF received.more [OF received.more [OF received.more [OF received.none e1] e2] e3] e4] e5])
  moreover have "complete_handshake (pad32 [9]) ((((([] @ [MVersion ?v]) @ [MOther ''sendaddrv2'']) @ [MVerack]) @ [MPing 7]) @
      [MGetData [InvWitnessTransaction (pad32 [9])]])"
    by (simp add: requests_def has_service_def SERVICE_WITNESS_def sample_codec_p2p_def)
  ultimately show ?thesis by blast
qed

theorem send_tx_succeeds_iff_witness:
  "fst (send_tx sample_codec_p2p sample_btc None 1 2 sample_node \<lparr>sock_ip = [127, 0, 0, 1], sock_port = 8333\<rparr> sample_tx
     \<lparr>sc_block_height = 5, sc_magic = [1, 2, 3, 4]\<rparr>) = Inr ()"
proof -
  have "node_connect sample_node = Connected" "node_writes sample_node = None" by (simp_all add: sample_node_def)
  note iff = send_tx_succeeds_iff [OF this, where codec = sample_codec_p2p and B = sample_btc]
  show ?thesis unfolding iff using sample_received by (simp add: sample_tx_def)
qed

theorem tx_sent_only_on_request_witness:
  "\<exists>r sent flush ms t. send_tx sample_codec_p2p sample_btc None 1 2 sample_node \<lparr>sock_ip = [127, 0, 0, 1], sock_port = 8333\<rparr> sample_tx
     \<lparr>sc_block_height = 5, sc_magic = [1, 2, 3, 4]\<rparr> = (r, sent, flush) \<and> NTx sample_tx \<in> set sent \<and>
     received sample_codec_p2p sample_btc [1, 2, 3, 4] (node_input sample_node) ms t \<and> complete_handshake (pad32 [9]) ms"
proof -
  have "node_connect sample_node = Connected" "node_writes sample_node = None" by (simp_all add: sample_node_def)
  note iff = send_tx_ok_iff [OF this, where codec = sample_codec_p2p and B = sample_btc]
  let ?send = "send_tx sample_codec_p2p sample_btc None 1 2 sample_node \<lparr>sock_ip = [127, 0, 0, 1], sock_port = 8333\<rparr> sample_tx
     \<lparr>sc_block_height = 5, sc_magic = [1, 2, 3, 4]\<rparr>"
  obtain r sent flush where send: "?send = (r, sent, flush)" by (metis prod_cases3)
  have "fst ?send = Inr ()" unfolding iff using sample_received by (simp add: sample_tx_def)
  from send_tx_ok_sent [OF this] have tx: "NTx sample_tx \<in> set sent" unfolding send by simp
  from tx_sent_only_on_request [OF send tx] show ?thesis using send tx by (simp add: sample_tx_def)
qed

end
