(* ===== verification/Seeds.thy ===== *)
theory Seeds
  imports Types "HOL-Library.Countable"
begin

text \<open>
  The wallet's seed store (\<open>wallet/seed_store.rs\<close>) and the encryption of a mnemonic
  (\<open>wallet/mnemonic.rs\<close>): reading and writing \<open>seed.json\<close>, the migration of a seed out of the
  legacy \<open>wallet_seeds\<close> table of \<open>db.sqlite\<close>, and inserting the seed of a new wallet.

  The store promises that a seed is never lost and that a wallet once created stays, whatever
  process crashes at whatever moment. The model therefore takes the operations apart at every
  call into the file system or the database: an operation is a stage and a step function, a
  step makes one such call, and between two steps other processes may run, any process may be
  killed and the machine may lose power. The disk separates what is written from what is
  durable: the bytes of a file are durable once the file was synced, an entry of the directory
  once the directory was.

  The JSON encoding, the BIP 39 word list, Argon2 and AES-GCM are the parameters \<open>seed_env\<close> and
  \<open>crypto_env\<close>.
\<close>

section \<open>The stored seed\<close>

record kdf_params =
  memory_kib :: u32
  iterations :: u32
  parallelism :: u32

definition kdf_legacy :: kdf_params where
  "kdf_legacy = \<lparr>memory_kib = 19 * 1024, iterations = 2, parallelism = 1\<rparr>"

definition kdf_current :: kdf_params where
  "kdf_current = \<lparr>memory_kib = 64 * 1024, iterations = 3, parallelism = 1\<rparr>"

record encrypted_mnemonic =
  em_initialization_vector :: bytes
  em_ciphertext_mnemonic :: bytes
  em_key_salt :: bytes
  em_kdf :: kdf_params

text \<open>\<open>StoredKdfParams\<close> has the fields of \<open>KdfParams\<close>, and the conversions copy them.\<close>

datatype stored_seed =
    StoredPlaintext string
  | StoredEncrypted bytes bytes bytes "kdf_params option"

record seed_file =
  sf_version :: u32
  sf_created_at :: nat
  sf_birthday_height :: "u32 option"
  sf_seed :: stored_seed

definition CURRENT_VERSION :: u32 where
  "CURRENT_VERSION = 1"

text \<open>A seed to persist: \<open>Seed\<close>.\<close>

datatype 'm seed = SeedPlaintext 'm | SeedEncrypted encrypted_mnemonic

text \<open>
  The code outside the sources: \<open>serde_json\<close> on a seed file, \<open>Mnemonic::parse_in_normalized\<close>,
  \<open>Mnemonic::to_string\<close>, and whether a commit of the legacy database syncs the directory that
  \<open>db.sqlite\<close> and \<open>seed.json\<close> share, as SQLite does when it creates a rollback journal.
\<close>

record 'm seed_env =
  se_to_json :: "seed_file \<Rightarrow> bytes"
  se_from_json :: "bytes \<Rightarrow> seed_file option"
  se_parse :: "string \<Rightarrow> 'm option"
  se_to_string :: "'m \<Rightarrow> string"
  se_commit_syncs_dir :: bool

section \<open>The disk\<close>

text \<open>
  A directory entry names a file by number and says whether the entry is durable; a file is its
  bytes and whether they are. \<open>d_legacy\<close> is the database: absent, without the table, or the rows
  of the table. Times are nanoseconds since the epoch.
\<close>

datatype path = SeedJson | Tmp string

record legacy_row =
  lr_id :: int
  lr_plaintext_mnemonic :: "string option"
  lr_initialization_vector :: "bytes option"
  lr_ciphertext_mnemonic :: "bytes option"
  lr_key_salt :: "bytes option"
  lr_creation_time :: "int option"

record disk =
  d_entries :: "path \<Rightarrow> (nat \<times> bool) option"
  d_files :: "nat \<Rightarrow> bytes \<times> bool"
  d_next :: nat
  d_legacy :: "legacy_row list option option"

datatype io_kind = NotFound | AlreadyExists | OtherIo

text \<open>The calls of \<open>std::fs\<close> the store makes.\<close>

definition fs_exists :: "path \<Rightarrow> disk \<Rightarrow> bool" where
  "fs_exists p d \<longleftrightarrow> d_entries d p \<noteq> None"

definition fs_read :: "path \<Rightarrow> disk \<Rightarrow> io_kind + bytes" where
  "fs_read p d = (case d_entries d p of
     None \<Rightarrow> Inl NotFound
   | Some (i, _) \<Rightarrow> Inr (fst (d_files d i)))"

definition fs_remove :: "path \<Rightarrow> disk \<Rightarrow> io_kind + disk" where
  "fs_remove p d = (case d_entries d p of
     None \<Rightarrow> Inl NotFound
   | Some _ \<Rightarrow> Inr (d\<lparr>d_entries := (d_entries d)(p := None)\<rparr>))"

definition fs_create_new :: "path \<Rightarrow> disk \<Rightarrow> io_kind + nat \<times> disk" where
  "fs_create_new p d = (case d_entries d p of
     Some _ \<Rightarrow> Inl AlreadyExists
   | None \<Rightarrow> Inr (d_next d, d\<lparr>d_entries := (d_entries d)(p := Some (d_next d, False)),
       d_files := (d_files d)(d_next d := ([], False)), d_next := Suc (d_next d)\<rparr>))"

definition fs_write :: "nat \<Rightarrow> bytes \<Rightarrow> disk \<Rightarrow> disk" where
  "fs_write i bs d = d\<lparr>d_files := (d_files d)(i := (bs, False))\<rparr>"

definition fs_sync :: "nat \<Rightarrow> disk \<Rightarrow> disk" where
  "fs_sync i d = d\<lparr>d_files := (d_files d)(i := (fst (d_files d i), True))\<rparr>"

definition fs_hard_link :: "path \<Rightarrow> path \<Rightarrow> disk \<Rightarrow> io_kind + disk" where
  "fs_hard_link src dst d = (case d_entries d src of
     None \<Rightarrow> Inl NotFound
   | Some (i, _) \<Rightarrow> (case d_entries d dst of
       Some _ \<Rightarrow> Inl AlreadyExists
     | None \<Rightarrow> Inr (d\<lparr>d_entries := (d_entries d)(dst := Some (i, False))\<rparr>)))"

definition fs_sync_dir :: "disk \<Rightarrow> disk" where
  "fs_sync_dir d = d\<lparr>d_entries := \<lambda>p. map_option (\<lambda>(i, _). (i, True)) (d_entries d p)\<rparr>"

section \<open>Reading the seed file\<close>

datatype read_seed_error = ReadIo io_kind | ReadJson | ReadParseMnemonic

text \<open>
  A fault is \<open>Some n\<close>: the call the step makes fails with an error of its own, a write after
  putting \<open>n\<close> bytes.
\<close>

definition read_seed_file :: "'m seed_env \<Rightarrow> nat option \<Rightarrow> disk
    \<Rightarrow> read_seed_error + seed_file option" where
  "read_seed_file env fault d =
     (if fault \<noteq> None then Inl (ReadIo OtherIo)
      else case fs_read SeedJson d of
        Inl NotFound \<Rightarrow> Inr None
      | Inl e \<Rightarrow> Inl (ReadIo e)
      | Inr contents \<Rightarrow> (case se_from_json env contents of
          None \<Rightarrow> Inl ReadJson
        | Some f \<Rightarrow> Inr (Some f)))"

definition read_mnemonic :: "'m seed_env \<Rightarrow> nat option \<Rightarrow> disk
    \<Rightarrow> read_seed_error + ('m + encrypted_mnemonic) option" where
  "read_mnemonic env fault d = (case read_seed_file env fault d of
     Inl e \<Rightarrow> Inl e
   | Inr None \<Rightarrow> Inr None
   | Inr (Some f) \<Rightarrow> (case sf_seed f of
       StoredPlaintext words \<Rightarrow> (case se_parse env words of
           None \<Rightarrow> Inl ReadParseMnemonic
         | Some m \<Rightarrow> Inr (Some (Inl m)))
     | StoredEncrypted iv ciphertext salt kdf \<Rightarrow> Inr (Some (Inr
         \<lparr>em_initialization_vector = iv, em_ciphertext_mnemonic = ciphertext,
          em_key_salt = salt,
          em_kdf = (case kdf of None \<Rightarrow> kdf_legacy | Some k \<Rightarrow> k)\<rparr>))))"

definition read_birthday_height :: "'m seed_env \<Rightarrow> nat option \<Rightarrow> disk
    \<Rightarrow> read_seed_error + u32 option" where
  "read_birthday_height env fault d = (case read_seed_file env fault d of
     Inl e \<Rightarrow> Inl e
   | Inr None \<Rightarrow> Inr None
   | Inr (Some f) \<Rightarrow> Inr (sf_birthday_height f))"

section \<open>Writing the seed file\<close>

text \<open>The outcome of a step: the stage the operation goes on with, or its result.\<close>

datatype ('s, 'r) progress = Goes 's | Ends 'r

datatype write_stage = WriteClean | WriteCreate | WriteContents nat | WriteSync nat
  | WriteLink | WriteUnlink "io_kind + unit" | WriteSyncDir

fun write_step :: "string \<Rightarrow> bytes \<Rightarrow> nat option \<Rightarrow> write_stage \<Rightarrow> disk
    \<Rightarrow> (write_stage, io_kind + unit) progress \<times> disk" where
  "write_step t contents fault WriteClean d =
     (if fault \<noteq> None then (Ends (Inl OtherIo), d)
      else case fs_remove (Tmp t) d of
        Inr d' \<Rightarrow> (Goes WriteCreate, d')
      | Inl NotFound \<Rightarrow> (Goes WriteCreate, d)
      | Inl e \<Rightarrow> (Ends (Inl e), d))"
| "write_step t contents fault WriteCreate d =
     (if fault \<noteq> None then (Ends (Inl OtherIo), d)
      else case fs_create_new (Tmp t) d of
        Inl AlreadyExists \<Rightarrow> (Ends (Inl OtherIo), d)
      | Inl e \<Rightarrow> (Ends (Inl e), d)
      | Inr (i, d') \<Rightarrow> (Goes (WriteContents i), d'))"
| "write_step t contents fault (WriteContents i) d =
     (case fault of
        Some n \<Rightarrow> (Ends (Inl OtherIo), fs_write i (take n contents) d)
      | None \<Rightarrow> (Goes (WriteSync i), fs_write i contents d))"
| "write_step t contents fault (WriteSync i) d =
     (if fault \<noteq> None then (Ends (Inl OtherIo), d) else (Goes WriteLink, fs_sync i d))"
| "write_step t contents fault WriteLink d =
     (if fault \<noteq> None then (Goes (WriteUnlink (Inl OtherIo)), d)
      else case fs_hard_link (Tmp t) SeedJson d of
        Inl e \<Rightarrow> (Goes (WriteUnlink (Inl e)), d)
      | Inr d' \<Rightarrow> (Goes (WriteUnlink (Inr ())), d'))"
| "write_step t contents fault (WriteUnlink published) d =
     (case published of Inl e \<Rightarrow> Ends (Inl e) | Inr _ \<Rightarrow> Goes WriteSyncDir,
      if fault \<noteq> None then d
      else case fs_remove (Tmp t) d of Inl _ \<Rightarrow> d | Inr d' \<Rightarrow> d')"
| "write_step t contents fault WriteSyncDir d =
     (if fault \<noteq> None then (Ends (Inl OtherIo), d) else (Ends (Inr ()), fs_sync_dir d))"

section \<open>The legacy database\<close>

datatype init_seed_store_error =
    AmbiguousLegacySeed nat
  | InvalidLegacySeed bool bool bool bool
  | LegacySeedMismatch
  | InitIo io_kind
  | InitParseMnemonic
  | ReadSeedFile read_seed_error
  | InitRusqlite
  | VerifySeedFile

definition legacy_row_seed :: "legacy_row \<Rightarrow> init_seed_store_error + int \<times> stored_seed" where
  "legacy_row_seed r =
     (case (lr_plaintext_mnemonic r, lr_initialization_vector r, lr_ciphertext_mnemonic r,
            lr_key_salt r) of
        (Some words, None, None, None) \<Rightarrow> Inr (lr_id r, StoredPlaintext words)
      | (None, Some iv, Some ciphertext, Some salt) \<Rightarrow>
          Inr (lr_id r, StoredEncrypted iv ciphertext salt None)
      | (words, iv, ciphertext, salt) \<Rightarrow> Inl (InvalidLegacySeed (words \<noteq> None) (iv \<noteq> None)
          (ciphertext \<noteq> None) (salt \<noteq> None)))"

datatype legacy_stage = LegacyTable | LegacyCount | LegacyRow

definition legacy_rows :: "disk \<Rightarrow> legacy_row list" where
  "legacy_rows d = (case d_legacy d of Some (Some rows) \<Rightarrow> rows | _ \<Rightarrow> [])"

definition legacy_has_table :: "disk \<Rightarrow> bool" where
  "legacy_has_table d \<longleftrightarrow> (case d_legacy d of Some (Some rows) \<Rightarrow> True | _ \<Rightarrow> False)"

text \<open>
  \<open>read_legacy_seed\<close>: three queries. A query on a table that is gone fails.
\<close>

fun legacy_step :: "nat option \<Rightarrow> legacy_stage \<Rightarrow> disk
    \<Rightarrow> (legacy_stage, init_seed_store_error + (int \<times> stored_seed) option) progress" where
  "legacy_step fault LegacyTable d =
     (if fault \<noteq> None then Ends (Inl InitRusqlite)
      else if \<not> legacy_has_table d then Ends (Inr None)
      else Goes LegacyCount)"
| "legacy_step fault LegacyCount d =
     (if fault \<noteq> None \<or> \<not> legacy_has_table d then Ends (Inl InitRusqlite)
      else if 1 < length (legacy_rows d)
      then Ends (Inl (AmbiguousLegacySeed (length (legacy_rows d))))
      else Goes LegacyRow)"
| "legacy_step fault LegacyRow d =
     (if fault \<noteq> None \<or> \<not> legacy_has_table d then Ends (Inl InitRusqlite)
      else case sort_key lr_id (legacy_rows d) of
        [] \<Rightarrow> Ends (Inr None)
      | r # _ \<Rightarrow> Ends (case legacy_row_seed r of Inl e \<Rightarrow> Inl e | Inr x \<Rightarrow> Inr (Some x)))"

definition legacy_delete :: "'m seed_env \<Rightarrow> int \<Rightarrow> disk \<Rightarrow> disk" where
  "legacy_delete env i d =
     (if i \<notin> lr_id ` set (legacy_rows d) then d
      else (if se_commit_syncs_dir env then fs_sync_dir d else d)
        \<lparr>d_legacy := Some (Some (filter (\<lambda>r. lr_id r \<noteq> i) (legacy_rows d)))\<rparr>)"

section \<open>Migrating the legacy seed\<close>

datatype migrate_stage =
    MigrateExists
  | MigrateOpen
  | MigrateLegacy legacy_stage
  | MigrateRead int stored_seed
  | MigrateCreatedAt int stored_seed
  | MigrateWrite int seed_file write_stage
  | MigrateVerify int seed_file
  | MigrateDelete int stored_seed

text \<open>
  The time of a migrated seed: the row's creation time in seconds when the query gives one that
  is not negative, the current time otherwise.
\<close>

definition legacy_created_at :: "nat option \<Rightarrow> nat \<Rightarrow> int \<Rightarrow> disk \<Rightarrow> nat" where
  "legacy_created_at fault now i d =
     (case (if fault \<noteq> None then None else find (\<lambda>r. lr_id r = i) (legacy_rows d)) of
        None \<Rightarrow> now
      | Some r \<Rightarrow> (case lr_creation_time r of
          None \<Rightarrow> now
        | Some secs \<Rightarrow> if secs < 0 then now else nat secs * 10 ^ 9))"

definition migrated_seed_file :: "nat \<Rightarrow> stored_seed \<Rightarrow> seed_file" where
  "migrated_seed_file created_at s = \<lparr>sf_version = CURRENT_VERSION, sf_created_at = created_at,
     sf_birthday_height = None, sf_seed = s\<rparr>"

definition plaintext_parses :: "'m seed_env \<Rightarrow> stored_seed \<Rightarrow> bool" where
  "plaintext_parses env s \<longleftrightarrow>
     (case s of StoredPlaintext words \<Rightarrow> se_parse env words \<noteq> None | _ \<Rightarrow> True)"

fun migrate_step :: "'m seed_env \<Rightarrow> string \<Rightarrow> nat \<Rightarrow> nat option \<Rightarrow> migrate_stage \<Rightarrow> disk
    \<Rightarrow> (migrate_stage, init_seed_store_error + unit) progress \<times> disk" where
  "migrate_step env t now fault MigrateExists d =
     (if fault \<noteq> None \<or> d_legacy d = None then (Ends (Inr ()), d) else (Goes MigrateOpen, d))"
| "migrate_step env t now fault MigrateOpen d =
     (if fault \<noteq> None \<or> d_legacy d = None then (Ends (Inl InitRusqlite), d)
      else (Goes (MigrateLegacy LegacyTable), d))"
| "migrate_step env t now fault (MigrateLegacy l) d =
     (case legacy_step fault l d of
        Goes l' \<Rightarrow> Goes (MigrateLegacy l')
      | Ends (Inl e) \<Rightarrow> Ends (Inl e)
      | Ends (Inr None) \<Rightarrow> Ends (Inr ())
      | Ends (Inr (Some (i, s))) \<Rightarrow> Goes (MigrateRead i s), d)"
| "migrate_step env t now fault (MigrateRead i s) d =
     (case read_seed_file env fault d of
        Inl e \<Rightarrow> Ends (Inl (ReadSeedFile e))
      | Inr (Some f) \<Rightarrow>
          if sf_seed f = s then Goes (MigrateDelete i s) else Ends (Inl LegacySeedMismatch)
      | Inr None \<Rightarrow>
          if plaintext_parses env s then Goes (MigrateCreatedAt i s)
          else Ends (Inl InitParseMnemonic), d)"
| "migrate_step env t now fault (MigrateCreatedAt i s) d =
     (Goes (MigrateWrite i (migrated_seed_file (legacy_created_at fault now i d) s) WriteClean), d)"
| "migrate_step env t now fault (MigrateWrite i f w) d =
     (case write_step t (se_to_json env f) fault w d of (next, d') \<Rightarrow>
       (case next of
          Goes w' \<Rightarrow> Goes (MigrateWrite i f w')
        | Ends (Inl e) \<Rightarrow> Ends (Inl (InitIo e))
        | Ends (Inr _) \<Rightarrow> Goes (MigrateVerify i f), d'))"
| "migrate_step env t now fault (MigrateVerify i f) d =
     (case read_seed_file env fault d of
        Inl e \<Rightarrow> Ends (Inl (ReadSeedFile e))
      | Inr written \<Rightarrow>
          if written = Some f then Goes (MigrateDelete i (sf_seed f))
          else Ends (Inl VerifySeedFile), d)"
| "migrate_step env t now fault (MigrateDelete i s) d =
     (if fault \<noteq> None \<or> \<not> legacy_has_table d then (Ends (Inl InitRusqlite), d)
      else (Ends (Inr ()), legacy_delete env i d))"

section \<open>Inserting a seed\<close>

datatype insert_seed_error = SeedAlreadyExists | InsertIo io_kind

datatype insert_stage = InsertCheck | InsertWrite seed_file write_stage

definition new_seed_file :: "'m seed_env \<Rightarrow> nat \<Rightarrow> 'm seed \<Rightarrow> u32 option \<Rightarrow> seed_file" where
  "new_seed_file env now s birthday = \<lparr>sf_version = CURRENT_VERSION, sf_created_at = now,
     sf_birthday_height = birthday,
     sf_seed = (case s of
         SeedPlaintext m \<Rightarrow> StoredPlaintext (se_to_string env m)
       | SeedEncrypted e \<Rightarrow> StoredEncrypted (em_initialization_vector e)
           (em_ciphertext_mnemonic e) (em_key_salt e) (Some (em_kdf e)))\<rparr>"

fun insert_step :: "'m seed_env \<Rightarrow> string \<Rightarrow> nat \<Rightarrow> 'm seed \<Rightarrow> u32 option \<Rightarrow> nat option
    \<Rightarrow> insert_stage \<Rightarrow> disk \<Rightarrow> (insert_stage, insert_seed_error + unit) progress \<times> disk" where
  "insert_step env t now s birthday fault InsertCheck d =
     (if fault = None \<and> fs_exists SeedJson d then (Ends (Inl SeedAlreadyExists), d)
      else (Goes (InsertWrite (new_seed_file env now s birthday) WriteClean), d))"
| "insert_step env t now s birthday fault (InsertWrite f w) d =
     (case write_step t (se_to_json env f) fault w d of (next, d') \<Rightarrow>
       (case next of
          Goes w' \<Rightarrow> Goes (InsertWrite f w')
        | Ends (Inl AlreadyExists) \<Rightarrow> Ends (Inl SeedAlreadyExists)
        | Ends (Inl e) \<Rightarrow> Ends (Inl (InsertIo e))
        | Ends (Inr _) \<Rightarrow> Ends (Inr ()), d'))"

section \<open>Running an operation alone\<close>

text \<open>
  An operation that no other process interferes with: its steps one after the other. Sixteen steps
  are enough for a migration, eight for an insert (\<open>seed_store_new_returns\<close>, \<open>insert_seed_returns\<close>).
\<close>

fun run_stages :: "nat \<Rightarrow> ('s \<Rightarrow> disk \<Rightarrow> ('s, 'r) progress \<times> disk) \<Rightarrow> 's \<Rightarrow> disk
    \<Rightarrow> ('r \<times> disk) option" where
  "run_stages 0 step s d = None"
| "run_stages (Suc n) step s d = (case step s d of
     (Ends r, d') \<Rightarrow> Some (r, d')
   | (Goes s', d') \<Rightarrow> run_stages n step s' d')"

definition seed_store_new :: "'m seed_env \<Rightarrow> string \<Rightarrow> nat \<Rightarrow> disk
    \<Rightarrow> ((init_seed_store_error + unit) \<times> disk) option" where
  "seed_store_new env t now d = run_stages 16 (migrate_step env t now None) MigrateExists d"

definition insert_seed :: "'m seed_env \<Rightarrow> string \<Rightarrow> nat \<Rightarrow> 'm seed \<Rightarrow> u32 option \<Rightarrow> disk
    \<Rightarrow> ((insert_seed_error + unit) \<times> disk) option" where
  "insert_seed env t now s birthday d =
     run_stages 8 (insert_step env t now s birthday None) InsertCheck d"

section \<open>Processes\<close>

text \<open>
  A process runs one operation at a time, under the temporary name it drew and the time it read.
  The \<open>insert_lock\<close> of a store only keeps the inserts of one process apart; the model lets them
  interleave as well.
\<close>

datatype 'm seed_op =
    Opening migrate_stage
  | Inserting "'m seed" "u32 option" insert_stage
  | Opened "init_seed_store_error + unit"
  | Inserted "insert_seed_error + unit"

record 'm seed_proc =
  sp_tmp :: string
  sp_now :: nat
  sp_op :: "'m seed_op"

fun op_step :: "'m seed_env \<Rightarrow> string \<Rightarrow> nat \<Rightarrow> nat option \<Rightarrow> 'm seed_op \<Rightarrow> disk
    \<Rightarrow> 'm seed_op \<times> disk" where
  "op_step env t now fault (Opening m) d =
     (case migrate_step env t now fault m d of (next, d') \<Rightarrow>
       (case next of Goes m' \<Rightarrow> Opening m' | Ends r \<Rightarrow> Opened r, d'))"
| "op_step env t now fault (Inserting s birthday i) d =
     (case insert_step env t now s birthday fault i d of (next, d') \<Rightarrow>
       (case next of Goes i' \<Rightarrow> Inserting s birthday i' | Ends r \<Rightarrow> Inserted r, d'))"
| "op_step env t now fault (Opened r) d = (Opened r, d)"
| "op_step env t now fault (Inserted r) d = (Inserted r, d)"

section \<open>The world\<close>

text \<open>
  The seed files a step acknowledges: the one whose insert just returned \<open>Ok\<close>.
\<close>

fun acknowledges :: "'m seed_op \<Rightarrow> 'm seed_op \<Rightarrow> seed_file list" where
  "acknowledges (Inserting s birthday (InsertWrite f w)) (Inserted (Inr _)) = [f]"
| "acknowledges _ _ = []"

text \<open>
  Losing power: durable bytes and a durable \<open>seed.json\<close> stay; bytes that were not synced may become
  anything, an entry for \<open>seed.json\<close> that was not synced may be there or not, and of the temporary
  files any may be left. What the database committed stays.
\<close>

definition power_loss :: "disk \<Rightarrow> disk \<Rightarrow> bool" where
  "power_loss d d' \<longleftrightarrow>
     (\<forall>i. snd (d_files d i) \<longrightarrow> d_files d' i = d_files d i)
   \<and> (case d_entries d SeedJson of
        None \<Rightarrow> d_entries d' SeedJson = None
      | Some (i, durable) \<Rightarrow> d_entries d' SeedJson = Some (i, True)
          \<or> \<not> durable \<and> d_entries d' SeedJson = None)
   \<and> (\<forall>t i b. d_entries d' (Tmp t) = Some (i, b) \<longrightarrow> i < d_next d)
   \<and> d_next d' = d_next d \<and> d_legacy d' = d_legacy d"

record 'm seed_world =
  w_disk :: disk
  w_procs :: "'m seed_proc list"
  w_created :: "seed_file list"

text \<open>
  What may happen to the data directory: a process opens the store or inserts a seed, with a
  temporary name no running process has (the name is the process id and eight random bytes); an
  operation makes a step, with or without a fault; a process ends or is killed; the block producer
  drops the empty legacy table; the machine loses power.
\<close>

inductive world_step :: "'m seed_env \<Rightarrow> 'm seed_world \<Rightarrow> 'm seed_world \<Rightarrow> bool"
  for env :: "'m seed_env" where
  open_store: "t \<notin> sp_tmp ` set ps \<Longrightarrow>
    world_step env \<lparr>w_disk = d, w_procs = ps, w_created = fs\<rparr>
      \<lparr>w_disk = d, w_procs = \<lparr>sp_tmp = t, sp_now = now, sp_op = Opening MigrateExists\<rparr> # ps,
       w_created = fs\<rparr>"
| insert: "t \<notin> sp_tmp ` set ps \<Longrightarrow>
    world_step env \<lparr>w_disk = d, w_procs = ps, w_created = fs\<rparr>
      \<lparr>w_disk = d,
       w_procs = \<lparr>sp_tmp = t, sp_now = now, sp_op = Inserting s birthday InsertCheck\<rparr> # ps,
       w_created = fs\<rparr>"
| run: "op_step env (sp_tmp p) (sp_now p) fault (sp_op p) d = (op', d') \<Longrightarrow>
    world_step env \<lparr>w_disk = d, w_procs = ps @ p # qs, w_created = fs\<rparr>
      \<lparr>w_disk = d', w_procs = ps @ p\<lparr>sp_op := op'\<rparr> # qs,
       w_created = fs @ acknowledges (sp_op p) op'\<rparr>"
| ends: "world_step env \<lparr>w_disk = d, w_procs = ps @ p # qs, w_created = fs\<rparr>
      \<lparr>w_disk = d, w_procs = ps @ qs, w_created = fs\<rparr>"
| drop_table: "d_legacy d = Some (Some []) \<Longrightarrow>
    world_step env \<lparr>w_disk = d, w_procs = ps, w_created = fs\<rparr>
      \<lparr>w_disk = d\<lparr>d_legacy := Some None\<rparr>, w_procs = ps, w_created = fs\<rparr>"
| power: "power_loss d d' \<Longrightarrow>
    world_step env \<lparr>w_disk = d, w_procs = ps, w_created = fs\<rparr>
      \<lparr>w_disk = d', w_procs = [], w_created = fs\<rparr>"

text \<open>
  A disk as the store may find it: files below the counter of the file system, distinct primary
  keys, and a \<open>seed.json\<close> that is a complete seed file whose bytes are durable.
\<close>

definition disk_ok :: "'m seed_env \<Rightarrow> disk \<Rightarrow> bool" where
  "disk_ok env d \<longleftrightarrow>
     (\<forall>p i b. d_entries d p = Some (i, b) \<longrightarrow> i < d_next d)
   \<and> (\<forall>i b. d_entries d SeedJson = Some (i, b) \<longrightarrow>
        snd (d_files d i) \<and> se_from_json env (fst (d_files d i)) \<noteq> None)
   \<and> distinct (map lr_id (legacy_rows d))"

text \<open>\<open>serde_json\<close> reads a seed file back as it was written.\<close>

definition json_ok :: "'m seed_env \<Rightarrow> bool" where
  "json_ok env \<longleftrightarrow> (\<forall>f. se_from_json env (se_to_json env f) = Some f)"

definition disk_good :: "'m seed_env \<Rightarrow> disk \<Rightarrow> bool" where
  "disk_good env d \<longleftrightarrow> json_ok env \<and> disk_ok env d"

text \<open>The seed \<open>s\<close> is in a durable \<open>seed.json\<close>; the file \<open>f\<close> is, exactly as written.\<close>

definition durable_seed :: "'m seed_env \<Rightarrow> stored_seed \<Rightarrow> disk \<Rightarrow> bool" where
  "durable_seed env s d \<longleftrightarrow> (\<exists>i c f. d_entries d SeedJson = Some (i, True)
     \<and> d_files d i = (c, True) \<and> se_from_json env c = Some f \<and> sf_seed f = s)"

definition durable_file :: "'m seed_env \<Rightarrow> seed_file \<Rightarrow> disk \<Rightarrow> bool" where
  "durable_file env f d \<longleftrightarrow> (\<exists>i. d_entries d SeedJson = Some (i, True)
     \<and> d_files d i = (se_to_json env f, True))"

section \<open>What a running operation owns\<close>

definition inode :: "disk \<Rightarrow> path \<Rightarrow> nat option" where
  "inode d p = map_option fst (d_entries d p)"

definition tmp_owns :: "string \<Rightarrow> nat \<Rightarrow> disk \<Rightarrow> bool" where
  "tmp_owns t i d \<longleftrightarrow> inode d (Tmp t) = Some i \<and> (\<forall>p. p \<noteq> Tmp t \<longrightarrow> inode d p \<noteq> Some i)"

definition published :: "'m seed_env \<Rightarrow> seed_file \<Rightarrow> disk \<Rightarrow> bool" where
  "published env f d \<longleftrightarrow>
     (\<exists>i. inode d SeedJson = Some i \<and> d_files d i = (se_to_json env f, True))"

definition holds_seed :: "'m seed_env \<Rightarrow> stored_seed \<Rightarrow> disk \<Rightarrow> bool" where
  "holds_seed env s d \<longleftrightarrow> (\<exists>i c f. inode d SeedJson = Some i
     \<and> d_files d i = (c, True) \<and> se_from_json env c = Some f \<and> sf_seed f = s)"

definition rows_match :: "int \<Rightarrow> stored_seed \<Rightarrow> disk \<Rightarrow> bool" where
  "rows_match i s d \<longleftrightarrow> (\<forall>r\<in>set (legacy_rows d). lr_id r = i \<longrightarrow> legacy_row_seed r = Inr (i, s))"

fun write_loc :: "'m seed_env \<Rightarrow> string \<Rightarrow> seed_file \<Rightarrow> write_stage \<Rightarrow> disk \<Rightarrow> bool" where
  "write_loc env t f (WriteContents i) d = tmp_owns t i d"
| "write_loc env t f (WriteSync i) d =
     (tmp_owns t i d \<and> fst (d_files d i) = se_to_json env f)"
| "write_loc env t f WriteLink d =
     (\<exists>i. tmp_owns t i d \<and> d_files d i = (se_to_json env f, True))"
| "write_loc env t f (WriteUnlink (Inr _)) d = published env f d"
| "write_loc env t f WriteSyncDir d = published env f d"
| "write_loc env t f _ d = True"

fun migrate_loc :: "'m seed_env \<Rightarrow> string \<Rightarrow> migrate_stage \<Rightarrow> disk \<Rightarrow> bool" where
  "migrate_loc env t (MigrateRead i s) d = rows_match i s d"
| "migrate_loc env t (MigrateCreatedAt i s) d = rows_match i s d"
| "migrate_loc env t (MigrateWrite i f w) d = (rows_match i (sf_seed f) d \<and> write_loc env t f w d)"
| "migrate_loc env t (MigrateVerify i f) d = rows_match i (sf_seed f) d"
| "migrate_loc env t (MigrateDelete i s) d = (rows_match i s d \<and> holds_seed env s d)"
| "migrate_loc env t _ d = True"

fun op_loc :: "'m seed_env \<Rightarrow> string \<Rightarrow> 'm seed_op \<Rightarrow> disk \<Rightarrow> bool" where
  "op_loc env t (Opening m) d = migrate_loc env t m d"
| "op_loc env t (Inserting s birthday (InsertWrite f w)) d = write_loc env t f w d"
| "op_loc env t _ d = True"

text \<open>What a process with the temporary name \<open>t\<close> may do to the disk.\<close>

definition evolves :: "string \<Rightarrow> disk \<Rightarrow> disk \<Rightarrow> bool" where
  "evolves t d d' \<longleftrightarrow>
     d_next d \<le> d_next d'
   \<and> (\<forall>u. u \<noteq> t \<longrightarrow> inode d' (Tmp u) = inode d (Tmp u))
   \<and> (\<forall>i. inode d' (Tmp t) = Some i \<longrightarrow> inode d (Tmp t) = Some i \<or> d_next d \<le> i)
   \<and> (\<forall>i b. d_entries d SeedJson = Some (i, b) \<longrightarrow>
        (\<exists>b'. d_entries d' SeedJson = Some (i, b') \<and> (b \<longrightarrow> b')))
   \<and> (\<forall>i. inode d SeedJson = None \<longrightarrow> inode d' SeedJson = Some i \<longrightarrow> inode d (Tmp t) = Some i)
   \<and> (\<forall>i. d_files d' i \<noteq> d_files d i \<longrightarrow> d_next d \<le> i \<or> tmp_owns t i d)
   \<and> set (legacy_rows d') \<subseteq> set (legacy_rows d)"

section \<open>Processes that rely on each other\<close>

text \<open>
  Processes with names on shared data: an action of one keeps the data good, keeps what the
  process relies on, and changes the data only in ways every other process is indifferent to.
  Then a list of processes with distinct names keeps what each of them relies on.
\<close>

locale rely_guarantee =
  fixes act :: "'n \<Rightarrow> 'a \<Rightarrow> 'd \<Rightarrow> 'a \<Rightarrow> 'd \<Rightarrow> bool"
    and good :: "'d \<Rightarrow> bool"
    and relies :: "'n \<Rightarrow> 'a \<Rightarrow> 'd \<Rightarrow> bool"
    and guarantees :: "'n \<Rightarrow> 'd \<Rightarrow> 'd \<Rightarrow> bool"
  assumes act_good: "good d \<Longrightarrow> relies n a d \<Longrightarrow> act n a d a' d' \<Longrightarrow> good d'"
    and act_relies: "good d \<Longrightarrow> relies n a d \<Longrightarrow> act n a d a' d' \<Longrightarrow> relies n a' d'"
    and act_guarantees: "good d \<Longrightarrow> relies n a d \<Longrightarrow> act n a d a' d' \<Longrightarrow> guarantees n d d'"
    and stable: "good d \<Longrightarrow> guarantees n d d' \<Longrightarrow> m \<noteq> n \<Longrightarrow> relies m b d \<Longrightarrow> relies m b d'"
begin

lemma all_keep:
  assumes "good d" "\<forall>(m, b)\<in>set (xs @ (n, a) # ys). relies m b d"
    and "distinct (map fst (xs @ (n, a) # ys))" and act: "act n a d a' d'"
  shows "good d' \<and> guarantees n d d' \<and> (\<forall>(m, b)\<in>set (xs @ (n, a') # ys). relies m b d')"
proof -
  have own: "relies n a d" using assms(2) by auto
  have other: "relies m b d'" if "(m, b) \<in> set xs \<union> set ys" for m b
  proof (rule stable [OF assms(1) act_guarantees [OF assms(1) own act]])
    show "m \<noteq> n" using that assms(3) by force
    show "relies m b d" using that assms(2) by auto
  qed
  show ?thesis
    using other act_good [OF assms(1) own act] act_relies [OF assms(1) own act]
      act_guarantees [OF assms(1) own act] by auto
qed

end


section \<open>Steps keep the disk and what other processes own\<close>

named_theorems disk_simps \<open>what a file system call does to the disk\<close>

lemmas disk_defs = inode_def tmp_owns_def evolves_def disk_good_def disk_ok_def

lemma evolves_refl: "evolves t d d"
  by (simp add: evolves_def)

lemma evolves_table: "legacy_rows d' = legacy_rows d \<Longrightarrow> d_entries d' = d_entries d \<Longrightarrow>
    d_files d' = d_files d \<Longrightarrow> d_next d' = d_next d \<Longrightarrow> evolves t d d'"
  by (simp add: evolves_def inode_def)

lemma legacy_rows_update [simp]:
  "legacy_rows (d\<lparr>d_entries := e\<rparr>) = legacy_rows d"
  "legacy_rows (d\<lparr>d_files := fl\<rparr>) = legacy_rows d"
  "legacy_rows (d\<lparr>d_next := n\<rparr>) = legacy_rows d"
  "legacy_rows (d\<lparr>d_legacy := Some (Some rows)\<rparr>) = rows"
  by (simp_all add: legacy_rows_def)

lemma fs_remove_tmp:
  assumes "disk_good env d" "fs_remove (Tmp t) d = Inr d'"
  shows "disk_good env d'" "evolves t d d'" "d_entries d' SeedJson = d_entries d SeedJson"
    "d_files d' = d_files d"
  using assms by (auto simp: fs_remove_def disk_defs split: option.splits if_splits) blast

lemma fs_create_new_tmp:
  assumes "disk_good env d" "fs_create_new (Tmp t) d = Inr (i, d')"
  shows "disk_good env d'" "evolves t d d'" "tmp_owns t i d'"
proof -
  have d': "d' = d\<lparr>d_entries := (d_entries d)(Tmp t := Some (i, False)),
      d_files := (d_files d)(i := ([], False)), d_next := Suc i\<rparr>" and i: "i = d_next d"
    using assms(2) by (auto simp: fs_create_new_def split: option.splits)
  have lt: "j < i" if "d_entries d p = Some (j, b)" for p j b
    using assms(1) that by (auto simp: i disk_good_def disk_ok_def)
  have sj: "j \<noteq> i" if "d_entries d SeedJson = Some (j, b)" for j b using lt [OF that] by simp
  show "disk_good env d'" using assms(1) sj lt
    by (auto simp: d' disk_good_def disk_ok_def less_Suc_eq split: if_splits)
  show "evolves t d d'" by (auto simp: d' evolves_def inode_def i)
  show "tmp_owns t i d'" using lt by (fastforce simp: d' tmp_owns_def inode_def)
qed

lemma fs_write_tmp:
  assumes "disk_good env d" "tmp_owns t i d"
  shows "disk_good env (fs_write i bs d)" "evolves t d (fs_write i bs d)"
    "tmp_owns t i (fs_write i bs d)" "fst (d_files (fs_write i bs d) i) = bs"
  using assms by (fastforce simp: fs_write_def disk_defs)+

lemma fs_sync_tmp:
  assumes "disk_good env d" "tmp_owns t i d"
  shows "disk_good env (fs_sync i d)" "evolves t d (fs_sync i d)"
    "tmp_owns t i (fs_sync i d)" "d_files (fs_sync i d) i = (fst (d_files d i), True)"
  using assms by (fastforce simp: fs_sync_def disk_defs)+

lemma fs_hard_link_tmp:
  assumes "disk_good env d" "fs_hard_link (Tmp t) SeedJson d = Inr d'"
    "tmp_owns t i d" "d_files d i = (se_to_json env f, True)"
  shows "disk_good env d'" "evolves t d d'" "published env f d'"
proof -
  obtain b where e: "d_entries d (Tmp t) = Some (i, b)"
    using assms(3) by (auto simp: tmp_owns_def inode_def)
  with assms(2) have n: "d_entries d SeedJson = None"
      and d': "d' = d\<lparr>d_entries := (d_entries d)(SeedJson := Some (i, False))\<rparr>"
    by (auto simp: fs_hard_link_def split: option.splits)
  show "disk_good env d'" using assms(1,4) e by (auto simp: d' disk_good_def disk_ok_def json_ok_def)
  show "evolves t d d'" using n e by (auto simp: d' evolves_def inode_def)
  show "published env f d'" using assms(4) by (simp add: d' published_def inode_def)
qed

lemma fs_sync_dir_simps [simp]:
  "d_files (fs_sync_dir d) = d_files d" "d_next (fs_sync_dir d) = d_next d"
  "d_legacy (fs_sync_dir d) = d_legacy d" "inode (fs_sync_dir d) = inode d"
  "legacy_rows (fs_sync_dir d) = legacy_rows d"
  "d_entries (fs_sync_dir d) p = map_option (\<lambda>i. (i, True)) (inode d p)"
  by (auto simp: fs_sync_dir_def inode_def fun_eq_iff option.map_comp o_def split_def)

lemma fs_sync_dir_keeps:
  assumes "disk_good env d"
  shows "disk_good env (fs_sync_dir d)" "evolves t d (fs_sync_dir d)"
  using assms by (auto simp: disk_good_def disk_ok_def evolves_def) (auto simp: inode_def)

lemma published_synced: "published env f d \<Longrightarrow> durable_file env f (fs_sync_dir d)"
  by (auto simp: published_def durable_file_def)

lemma write_step_keeps:
  assumes "disk_good env d" "write_loc env t f w d"
    and "write_step t (se_to_json env f) fault w d = (next, d')"
  shows "disk_good env d' \<and> evolves t d d' \<and> (case next of
      Goes w' \<Rightarrow> write_loc env t f w' d'
    | Ends (Inr _) \<Rightarrow> durable_file env f d'
    | Ends (Inl _) \<Rightarrow> True)"
proof (cases w)
  case WriteClean
  then show ?thesis using assms
    by (auto simp: evolves_refl split: if_splits sum.splits io_kind.splits dest: fs_remove_tmp)
next
  case WriteCreate
  then show ?thesis using assms
    by (auto simp: evolves_refl split: if_splits sum.splits io_kind.splits prod.splits
        dest: fs_create_new_tmp)
next
  case (WriteContents i)
  then show ?thesis using assms by (auto simp: fs_write_tmp split: option.splits)
next
  case (WriteSync i)
  then show ?thesis using assms
    by (auto simp: evolves_refl fs_sync_tmp intro!: exI [of _ i] split: if_splits)
next
  case WriteLink
  then show ?thesis using assms
    by (auto simp: evolves_refl split: if_splits sum.splits dest: fs_hard_link_tmp)
next
  case (WriteUnlink p)
  then show ?thesis using assms
    by (cases p) (auto simp: evolves_refl published_def inode_def fs_remove_tmp(3,4)
        split: if_splits sum.splits dest: fs_remove_tmp(1,2))
next
  case WriteSyncDir
  then show ?thesis using assms
    by (auto simp: evolves_refl fs_sync_dir_keeps published_synced split: if_splits)
qed


lemma entry_less: "disk_good env d \<Longrightarrow> d_entries d p = Some (i, b) \<Longrightarrow> i < d_next d"
  by (auto simp: disk_good_def disk_ok_def)

lemma published_mono:
  assumes "disk_good env d" "evolves t d d'" "inode d SeedJson = Some i" "d_files d i = (c, True)"
  shows "inode d' SeedJson = Some i \<and> d_files d' i = (c, True)"
proof -
  obtain b where e: "d_entries d SeedJson = Some (i, b)" using assms(3) by (auto simp: inode_def)
  have "inode d' SeedJson = Some i" using assms(2) e by (force simp: evolves_def inode_def)
  moreover have "d_files d' i = d_files d i"
  proof (rule ccontr)
    assume "d_files d' i \<noteq> d_files d i"
    then have "d_next d \<le> i \<or> tmp_owns t i d" using assms(2) by (auto simp: evolves_def)
    then show False using entry_less [OF assms(1) e] assms(3) by (auto simp: tmp_owns_def)
  qed
  ultimately show ?thesis using assms(4) by simp
qed

lemma durable_mono:
  assumes "disk_good env d" "evolves t d d'" "d_entries d SeedJson = Some (i, True)"
    "d_files d i = (c, True)"
  shows "d_entries d' SeedJson = Some (i, True) \<and> d_files d' i = (c, True)"
  using published_mono [OF assms(1,2) _ assms(4)] assms(2,3) by (auto simp: evolves_def inode_def)

lemma durable_file_mono:
  "disk_good env d \<Longrightarrow> evolves t d d' \<Longrightarrow> durable_file env f d \<Longrightarrow> durable_file env f d'"
  unfolding durable_file_def using durable_mono by blast

lemma durable_seed_mono:
  "disk_good env d \<Longrightarrow> evolves t d d' \<Longrightarrow> durable_seed env s d \<Longrightarrow> durable_seed env s d'"
  unfolding durable_seed_def using durable_mono by blast

lemma tmp_owns_stable:
  assumes "disk_good env d" "evolves t d d'" "u \<noteq> t" "tmp_owns u i d"
  shows "tmp_owns u i d' \<and> d_files d' i = d_files d i"
proof -
  have i: "inode d (Tmp u) = Some i" and only: "\<And>p. p \<noteq> Tmp u \<Longrightarrow> inode d p \<noteq> Some i"
    using assms(4) by (auto simp: tmp_owns_def)
  have lt: "i < d_next d" using i assms(1) by (auto simp: disk_good_def disk_ok_def inode_def)
  have "inode d' p \<noteq> Some i" if p: "p \<noteq> Tmp u" for p
  proof (cases p)
    case SeedJson
    show ?thesis
    proof (cases "d_entries d SeedJson")
      case None
      then show ?thesis using assms(2,3) only [of "Tmp t"]
        by (auto simp: evolves_def inode_def SeedJson)
    next
      case (Some e)
      then show ?thesis using assms(2) only [OF p]
        by (cases e) (force simp: evolves_def inode_def SeedJson)
    qed
  next
    case (Tmp v)
    show ?thesis
    proof (cases "v = t")
      case True
      then show ?thesis using assms(2) only [OF p] lt by (auto simp: evolves_def Tmp)
    next
      case False
      then show ?thesis using assms(2) only [OF p] by (auto simp: evolves_def Tmp)
    qed
  qed
  moreover have "\<not> tmp_owns t i d" using i assms(3) by (auto simp: tmp_owns_def)
  ultimately show ?thesis using assms(2,3) i lt by (auto simp: tmp_owns_def evolves_def)
qed

lemma rows_match_mono: "evolves t d d' \<Longrightarrow> rows_match i s d \<Longrightarrow> rows_match i s d'"
  by (auto simp: evolves_def rows_match_def)

lemma published_stable:
  "disk_good env d \<Longrightarrow> evolves t d d' \<Longrightarrow> published env f d \<Longrightarrow> published env f d'"
  unfolding published_def using published_mono by blast

lemma holds_seed_stable:
  "disk_good env d \<Longrightarrow> evolves t d d' \<Longrightarrow> holds_seed env s d \<Longrightarrow> holds_seed env s d'"
  unfolding holds_seed_def using published_mono by blast

lemma write_loc_stable:
  assumes "disk_good env d" "evolves t d d'" "u \<noteq> t" "write_loc env u f w d"
  shows "write_loc env u f w d'"
proof (cases w)
  case (WriteUnlink p)
  then show ?thesis using assms published_stable [OF assms(1,2)] by (cases p) auto
next
  case WriteLink
  then show ?thesis using assms(4) tmp_owns_stable [OF assms(1-3)] by simp metis
qed (use assms tmp_owns_stable [OF assms(1-3)] published_stable [OF assms(1,2)] in
  \<open>auto simp del: split_paired_Ex\<close>)

lemma migrate_loc_stable:
  assumes "disk_good env d" "evolves t d d'" "u \<noteq> t" "migrate_loc env u m d"
  shows "migrate_loc env u m d'"
  using assms(4) rows_match_mono [OF assms(2)] write_loc_stable [OF assms(1-3)]
    holds_seed_stable [OF assms(1,2)]
  by (cases m) auto

lemma op_loc_stable:
  assumes "disk_good env d" "evolves t d d'" "u \<noteq> t" "op_loc env u a d"
  shows "op_loc env u a d'"
proof (cases a)
  case (Inserting s birthday i)
  then show ?thesis using assms write_loc_stable [OF assms(1-3)] by (cases i) auto
qed (use assms migrate_loc_stable [OF assms(1-3)] in auto)

lemma read_seed_file_holds:
  assumes "disk_good env d" "read_seed_file env fault d = Inr (Some f)"
  shows "holds_seed env (sf_seed f) d"
  using assms
  by (auto simp: read_seed_file_def fs_read_def holds_seed_def inode_def disk_good_def disk_ok_def
      prod_eq_iff split: if_splits sum.splits io_kind.splits option.splits)

lemma legacy_row_seed_id: "legacy_row_seed r = Inr (i, s) \<Longrightarrow> i = lr_id r"
  by (auto simp: legacy_row_seed_def split: option.splits)

lemma legacy_step_matches:
  assumes "disk_good env d" "legacy_step fault l d = Ends (Inr (Some (i, s)))"
  shows "rows_match i s d"
proof -
  have l: "l = LegacyRow" using assms(2) by (cases l) (auto split: if_splits)
  obtain r rs where rows: "sort_key lr_id (legacy_rows d) = r # rs"
      and seed: "legacy_row_seed r = Inr (i, s)"
    using assms(2) by (auto simp: l split: if_splits list.splits sum.splits)
  have r: "r \<in> set (legacy_rows d)" using rows by (metis list.set_intros(1) set_sort)
  have d: "distinct (map lr_id (legacy_rows d))" using assms(1) by (simp add: disk_good_def disk_ok_def)
  have "r' = r" if "r' \<in> set (legacy_rows d)" "lr_id r' = i" for r'
    using d r that legacy_row_seed_id [OF seed] by (auto simp: distinct_map inj_on_def)
  then show ?thesis using seed by (auto simp: rows_match_def)
qed

lemma legacy_delete_keeps:
  assumes "disk_good env d"
  shows "disk_good env (legacy_delete env i d) \<and> evolves t d (legacy_delete env i d)"
proof -
  have "disk_good env (d'\<lparr>d_legacy := Some (Some (filter P (legacy_rows d')))\<rparr>)
      \<and> evolves t d (d'\<lparr>d_legacy := Some (Some (filter P (legacy_rows d')))\<rparr>)"
    if "disk_good env d'" "evolves t d d'" for d' P
    using that by (auto simp: disk_good_def disk_ok_def evolves_def inode_def tmp_owns_def
        distinct_map_filter)
  from this [OF assms evolves_refl] this [OF fs_sync_dir_keeps [OF assms]]
  show ?thesis using assms by (simp add: legacy_delete_def evolves_refl)
qed

lemma migrate_step_keeps:
  assumes "disk_good env d" "migrate_loc env t m d"
    and "migrate_step env t now fault m d = (next, d')"
  shows "disk_good env d' \<and> evolves t d d' \<and>
    (case next of Goes m' \<Rightarrow> migrate_loc env t m' d' | Ends _ \<Rightarrow> True)"
proof (cases m)
  case (MigrateWrite i f w)
  obtain n where w: "write_step t (se_to_json env f) fault w d = (n, d')"
    using assms(3) by (auto simp: MigrateWrite split: prod.splits)
  show ?thesis
    using write_step_keeps [OF assms(1) _ w] assms(2,3) rows_match_mono
    by (auto simp: MigrateWrite w split: progress.splits sum.splits)
next
  case (MigrateLegacy l)
  then show ?thesis using assms legacy_step_matches [OF assms(1)]
    by (auto simp: evolves_refl split: progress.splits sum.splits option.splits)
next
  case (MigrateDelete i s)
  then show ?thesis using assms legacy_delete_keeps [OF assms(1)]
    by (auto simp: evolves_refl split: if_splits)
qed (use assms read_seed_file_holds [OF assms(1), of fault] in
  \<open>auto simp: evolves_refl migrated_seed_file_def split: if_splits sum.splits option.splits\<close>)

lemma op_step_keeps:
  assumes "disk_good env d" "op_loc env t a d" "op_step env t now fault a d = (a', d')"
  shows "disk_good env d' \<and> evolves t d d' \<and> op_loc env t a' d'"
proof (cases a)
  case (Opening m)
  obtain n where m: "migrate_step env t now fault m d = (n, d')"
    using assms(3) by (auto simp: Opening split: prod.splits)
  show ?thesis using migrate_step_keeps [OF assms(1) _ m] assms(2,3)
    by (auto simp: Opening m split: progress.splits)
next
  case (Inserting s birthday i)
  show ?thesis
  proof (cases i)
    case InsertCheck
    then show ?thesis using assms by (auto simp: Inserting evolves_refl split: if_splits)
  next
    case (InsertWrite f w)
    obtain n where w: "write_step t (se_to_json env f) fault w d = (n, d')"
      using assms(3) by (auto simp: Inserting InsertWrite split: prod.splits)
    show ?thesis using write_step_keeps [OF assms(1) _ w] assms(2,3)
      by (auto simp: Inserting InsertWrite w split: progress.splits sum.splits io_kind.splits)
  qed
qed (use assms in \<open>auto simp: evolves_refl\<close>)

definition op_acts :: "'m seed_env \<Rightarrow> string \<Rightarrow> 'm seed_op \<Rightarrow> disk \<Rightarrow> 'm seed_op \<Rightarrow> disk \<Rightarrow> bool" where
  "op_acts env t a d a' d' \<longleftrightarrow> (\<exists>now fault. op_step env t now fault a d = (a', d'))"

interpretation store: rely_guarantee "op_acts env" "disk_good env" "op_loc env" evolves
  for env :: "'m seed_env"
proof
  fix d d' t a a'
  assume *: "disk_good env d" "op_loc env t a d" "op_acts env t a d a' d'"
  then show "disk_good env d'" "op_loc env t a' d'" "evolves t d d'"
    using op_step_keeps [OF *(1,2)] by (auto simp: op_acts_def)
qed (rule op_loc_stable)


section \<open>The invariant of the world\<close>

text \<open>An insert whose link succeeded and that has not returned.\<close>

fun publishing :: "'m seed_op \<Rightarrow> bool" where
  "publishing (Inserting s birthday (InsertWrite f (WriteUnlink (Inr _)))) = True"
| "publishing (Inserting s birthday (InsertWrite f WriteSyncDir)) = True"
| "publishing _ = False"

definition world_inv :: "'m seed_env \<Rightarrow> 'm seed_world \<Rightarrow> bool" where
  "world_inv env w \<longleftrightarrow> disk_good env (w_disk w)
   \<and> distinct (map sp_tmp (w_procs w))
   \<and> (\<forall>p\<in>set (w_procs w). op_loc env (sp_tmp p) (sp_op p) (w_disk w))
   \<and> (\<forall>f\<in>set (w_created w). durable_file env f (w_disk w))
   \<and> length (w_created w) + length (filter (\<lambda>p. publishing (sp_op p)) (w_procs w)) \<le> 1"

lemma publishing_published:
  "op_loc env t a d \<Longrightarrow> publishing a \<Longrightarrow> d_entries d SeedJson \<noteq> None"
  by (induction a rule: publishing.induct) (auto simp: published_def inode_def)

lemma write_step_link:
  assumes "write_step t c fault w d = (Goes w', d')" "w' = WriteUnlink (Inr x) \<or> w' = WriteSyncDir"
  shows "w = WriteUnlink (Inr ()) \<or> d_entries d SeedJson = None"
  using assms by (cases w) (auto simp: fs_hard_link_def split: if_splits sum.splits io_kind.splits
      option.splits prod.splits)

lemma write_step_ok: "write_step t c fault w d = (Ends (Inr x), d') \<Longrightarrow> w = WriteSyncDir"
  by (cases w) (auto split: if_splits sum.splits io_kind.splits option.splits prod.splits)

lemma op_step_publishes:
  assumes "op_step env t now fault a d = (a', d')"
  shows "length (acknowledges a a') + of_bool (publishing a') \<le> (of_bool (publishing a) :: nat)
    \<or> d_entries d SeedJson = None \<and> acknowledges a a' = []"
proof (cases "\<exists>s birthday f w. a = Inserting s birthday (InsertWrite f w)")
  case True
  then obtain s birthday f w where a: "a = Inserting s birthday (InsertWrite f w)" by blast
  obtain n where w: "write_step t (se_to_json env f) fault w d = (n, d')"
    using assms by (auto simp: a split: prod.splits)
  show ?thesis
  proof (cases n)
    case (Goes w')
    have a': "a' = Inserting s birthday (InsertWrite f w')" using assms by (auto simp: a w Goes)
    show ?thesis
    proof (cases "publishing a'")
      case True
      then have "w' = WriteUnlink (Inr ()) \<or> w' = WriteSyncDir"
        by (auto simp: a' elim: publishing.elims)
      from write_step_link [OF w [unfolded Goes] this] show ?thesis by (auto simp: a a')
    qed (simp add: a')
  next
    case (Ends r)
    then show ?thesis using assms w
      by (cases r) (auto simp: a split: io_kind.splits dest!: write_step_ok)
  qed
next
  case False
  have "\<not> publishing a' \<and> acknowledges a a' = []"
  proof (cases a)
    case (Inserting s birthday i)
    then show ?thesis using assms False by (cases i) (auto split: if_splits)
  qed (use assms in \<open>auto split: prod.splits progress.splits\<close>)
  then show ?thesis by simp
qed


lemma acknowledged_durable:
  assumes "disk_good env d" "op_loc env t a d" "op_step env t now fault a d = (a', d')"
    "f \<in> set (acknowledges a a')"
  shows "durable_file env f d'"
proof -
  obtain s birthday w x where a: "a = Inserting s birthday (InsertWrite f w)" and a': "a' = Inserted (Inr x)"
    using assms(4) by (cases "(a, a')" rule: acknowledges.cases) auto
  obtain n where w: "write_step t (se_to_json env f) fault w d = (n, d')"
    using assms(3) by (auto simp: a split: prod.splits)
  have n: "n = Ends (Inr ())" using assms(3)
    by (cases n) (auto simp: a a' w split: sum.splits io_kind.splits)
  show ?thesis using write_step_keeps [OF assms(1) _ w] assms(2) by (simp add: a n)
qed

lemma power_loss_durable:
  assumes "power_loss d d'" "d_entries d SeedJson = Some (i, True)" "d_files d i = (c, True)"
  shows "d_entries d' SeedJson = Some (i, True) \<and> d_files d' i = (c, True)"
  using assms by (auto simp: power_loss_def)

lemma power_loss_durable_file:
  "power_loss d d' \<Longrightarrow> durable_file env f d \<Longrightarrow> durable_file env f d'"
  unfolding durable_file_def using power_loss_durable by blast

lemma power_loss_durable_seed:
  "power_loss d d' \<Longrightarrow> durable_seed env s d \<Longrightarrow> durable_seed env s d'"
  unfolding durable_seed_def using power_loss_durable by blast

lemma power_loss_rows: "power_loss d d' \<Longrightarrow> legacy_rows d' = legacy_rows d"
  by (simp add: power_loss_def legacy_rows_def)

lemma power_loss_good:
  assumes "power_loss d d'" "disk_good env d"
  shows "disk_good env d'"
proof -
  have sj: "\<exists>b. d_entries d SeedJson = Some (i, b) \<and> d_files d' i = d_files d i"
    if e': "d_entries d' SeedJson = Some (i, b')" for i b'
  proof -
    obtain b where e: "d_entries d SeedJson = Some (i, b)"
      using assms(1) e' by (cases "d_entries d SeedJson") (auto simp: power_loss_def)
    then have "snd (d_files d i)" using assms(2) by (auto simp: disk_good_def disk_ok_def)
    then show ?thesis using assms(1) e by (auto simp: power_loss_def)
  qed
  have "i < d_next d" if "d_entries d' p = Some (i, b)" for p i b
  proof (cases p)
    case SeedJson
    then show ?thesis using sj that entry_less [OF assms(2)] by blast
  next
    case (Tmp t)
    then show ?thesis using assms(1) that by (auto simp: power_loss_def)
  qed
  moreover have "d_next d' = d_next d" using assms(1) by (simp add: power_loss_def)
  moreover have "snd (d_files d' i) \<and> se_from_json env (fst (d_files d' i)) \<noteq> None"
    if "d_entries d' SeedJson = Some (i, b)" for i b
    using sj [OF that] assms(2) by (auto simp: disk_good_def disk_ok_def)
  ultimately show ?thesis
    using assms(2) power_loss_rows [OF assms(1)] unfolding disk_good_def disk_ok_def by simp
qed

lemma run_keeps_inv:
  assumes inv: "world_inv env \<lparr>w_disk = d, w_procs = ps @ p # qs, w_created = fs\<rparr>"
    and step: "op_step env (sp_tmp p) (sp_now p) fault (sp_op p) d = (a', d')"
  shows "world_inv env \<lparr>w_disk = d', w_procs = ps @ p\<lparr>sp_op := a'\<rparr> # qs,
     w_created = fs @ acknowledges (sp_op p) a'\<rparr>" (is "world_inv env ?w'")
proof -
  let ?pair = "\<lambda>p. (sp_tmp p, sp_op p)"
  have good: "disk_good env d" and loc: "op_loc env (sp_tmp p) (sp_op p) d"
      and created: "\<forall>f\<in>set fs. durable_file env f d"
      and count: "length fs + length (filter (\<lambda>p. publishing (sp_op p)) (ps @ p # qs)) \<le> 1"
    using inv by (simp_all add: world_inv_def)
  have keep: "disk_good env d' \<and> evolves (sp_tmp p) d d' \<and>
      (\<forall>(m, b)\<in>set (map ?pair ps @ (sp_tmp p, a') # map ?pair qs). op_loc env m b d')"
    by (rule store.all_keep [where a = "sp_op p"])
      (use inv step in \<open>auto simp: world_inv_def op_acts_def o_def\<close>)
  have "\<forall>q\<in>set (w_procs ?w'). op_loc env (sp_tmp q) (sp_op q) d'" using keep by auto
  moreover have "\<forall>f\<in>set (w_created ?w'). durable_file env f d'"
    using created keep durable_file_mono [OF good] acknowledged_durable [OF good loc step] by auto
  moreover have "length (w_created ?w') + length (filter (\<lambda>p. publishing (sp_op p)) (w_procs ?w')) \<le> 1"
  proof (cases "d_entries d SeedJson = None \<and> acknowledges (sp_op p) a' = []")
    case True
    have "fs = []" using created True by (cases fs) (auto simp: durable_file_def)
    moreover have "\<not> publishing (sp_op q)" if "q \<in> set (ps @ p # qs)" for q
      using inv that True publishing_published [of env "sp_tmp q" "sp_op q" d]
      by (auto simp: world_inv_def)
    ultimately show ?thesis using True by simp
  next
    case False
    then show ?thesis using op_step_publishes [OF step] count by (auto split: if_splits)
  qed
  ultimately show ?thesis using inv keep by (simp add: world_inv_def)
qed

lemma world_step_inv:
  assumes "world_step env w w'" "world_inv env w"
  shows "world_inv env w'"
  using assms
proof (induction rule: world_step.induct)
  case (run p fault d a' d' ps qs fs)
  then show ?case by (intro run_keeps_inv)
next
  case (ends d ps p qs fs)
  then show ?case by (auto simp: world_inv_def split: if_splits)
next
  case (drop_table d ps fs)
  have e: "evolves t d (d\<lparr>d_legacy := Some None\<rparr>)" for t
    using drop_table by (intro evolves_table) (simp_all add: legacy_rows_def)
  have loc: "op_loc env (sp_tmp p) (sp_op p) (d\<lparr>d_legacy := Some None\<rparr>)" if "p \<in> set ps" for p
    using op_loc_stable [OF _ e [of "CHR ''x'' # sp_tmp p"] not_Cons_self2 [symmetric]] drop_table that
    by (auto simp: world_inv_def)
  then show ?case using drop_table
    by (auto simp: world_inv_def disk_good_def disk_ok_def legacy_rows_def durable_file_def)
next
  case (power d d' ps fs)
  then show ?case
    using power_loss_good power_loss_durable_file by (fastforce simp: world_inv_def)
qed (auto simp: world_inv_def)


section \<open>No seed is lost\<close>

text \<open>Every row of \<open>R\<close> is still in the table, or its seed is in a durable \<open>seed.json\<close>.\<close>

definition rows_kept :: "'m seed_env \<Rightarrow> legacy_row set \<Rightarrow> disk \<Rightarrow> bool" where
  "rows_kept env R d \<longleftrightarrow> (\<forall>r\<in>R. r \<in> set (legacy_rows d)
     \<or> (\<exists>i s. legacy_row_seed r = Inr (i, s) \<and> durable_seed env s d))"

lemma write_step_legacy: "write_step t c fault w d = (n, d') \<Longrightarrow> d_legacy d' = d_legacy d"
  by (cases w) (auto simp: fs_remove_def fs_create_new_def fs_write_def fs_sync_def fs_hard_link_def
      split: if_splits sum.splits io_kind.splits option.splits prod.splits)

lemma op_step_legacy:
  assumes "op_step env t now fault a d = (a', d')"
  shows "d_legacy d' = d_legacy d
    \<or> (\<exists>i s. a = Opening (MigrateDelete i s) \<and> d' = legacy_delete env i d)"
proof (cases a)
  case (Opening m)
  then show ?thesis using assms
    by (cases m) (auto split: prod.splits if_splits dest: write_step_legacy)
next
  case (Inserting s birthday i)
  then show ?thesis using assms
    by (cases i) (auto split: prod.splits if_splits dest: write_step_legacy)
qed (use assms in auto)

lemma op_step_rows_kept:
  assumes good: "disk_good env d" and loc: "op_loc env t a d" and sync: "se_commit_syncs_dir env"
    and step: "op_step env t now fault a d = (a', d')" and kept: "rows_kept env R d"
  shows "rows_kept env R d'"
proof -
  have mono: "durable_seed env s d \<Longrightarrow> durable_seed env s d'" for s
    using durable_seed_mono [OF good] op_step_keeps [OF good loc step] by blast
  have "r \<in> set (legacy_rows d') \<or> (\<exists>i s. legacy_row_seed r = Inr (i, s) \<and> durable_seed env s d')"
    if r: "r \<in> set (legacy_rows d)" for r
    using op_step_legacy [OF step]
  proof
    assume "d_legacy d' = d_legacy d"
    then show ?thesis using r by (simp add: legacy_rows_def)
  next
    assume "\<exists>i s. a = Opening (MigrateDelete i s) \<and> d' = legacy_delete env i d"
    then obtain i s where a: "a = Opening (MigrateDelete i s)" and d': "d' = legacy_delete env i d"
      by blast
    show ?thesis
    proof (cases "lr_id r = i")
      case True
      have "legacy_row_seed r = Inr (i, s)" "holds_seed env s d"
        using loc r True by (auto simp: a rows_match_def)
      moreover have "d' = fs_sync_dir d
          \<lparr>d_legacy := Some (Some (filter (\<lambda>r. lr_id r \<noteq> i) (legacy_rows d)))\<rparr>"
        using r True sync by (auto simp: d' legacy_delete_def)
      ultimately show ?thesis by (auto simp: durable_seed_def holds_seed_def)
    qed (use r in \<open>auto simp: d' legacy_delete_def\<close>)
  qed
  then show ?thesis using kept mono unfolding rows_kept_def by blast
qed

lemma world_step_rows_kept:
  assumes "world_step env w w'" "world_inv env w" "se_commit_syncs_dir env"
    "rows_kept env R (w_disk w)"
  shows "rows_kept env R (w_disk w')"
  using assms
proof (induction rule: world_step.induct)
  case (run p fault d a' d' ps qs fs)
  then show ?case using op_step_rows_kept [OF _ _ _ run.hyps] by (simp add: world_inv_def)
next
  case (drop_table d ps fs)
  then show ?case by (auto simp: rows_kept_def legacy_rows_def durable_seed_def)
next
  case (power d d' ps fs)
  then show ?case using power_loss_durable_seed [OF power.hyps, of env] power_loss_rows [OF power.hyps]
    by (simp add: rows_kept_def) metis
qed auto

definition seed_world_init :: "disk \<Rightarrow> 'm seed_world" where
  "seed_world_init d = \<lparr>w_disk = d, w_procs = [], w_created = []\<rparr>"

lemma world_steps_inv:
  assumes "(world_step env)\<^sup>*\<^sup>* (seed_world_init d) w" "json_ok env" "disk_ok env d"
  shows "world_inv env w"
  using assms(1)
proof (induction rule: rtranclp_induct)
  case base
  show ?case using assms(2,3) by (simp add: seed_world_init_def world_inv_def disk_good_def)
qed (rule world_step_inv)

lemma world_steps_rows_kept:
  assumes "(world_step env)\<^sup>*\<^sup>* (seed_world_init d) w" "json_ok env" "disk_ok env d"
    "se_commit_syncs_dir env"
  shows "rows_kept env (set (legacy_rows d)) (w_disk w)"
  using assms(1)
proof (induction rule: rtranclp_induct)
  case base
  show ?case by (simp add: seed_world_init_def rows_kept_def)
next
  case (step w w')
  then show ?case using world_step_rows_kept world_steps_inv [OF step.hyps(1) assms(2,3)] assms(4)
    by blast
qed


section \<open>An operation that runs alone\<close>

definition written_disk :: "string \<Rightarrow> bytes \<Rightarrow> disk \<Rightarrow> disk" where
  "written_disk t c d = fs_sync_dir
     (d\<lparr>d_entries := (d_entries d)(SeedJson := Some (d_next d, False), Tmp t := None),
        d_files := (d_files d)(d_next d := (c, True)), d_next := Suc (d_next d)\<rparr>)"

lemma run_stages_Suc:
  "step s d = (Goes s', d') \<Longrightarrow> run_stages (Suc n) step s d = run_stages n step s' d'"
  "step s d = (Ends r, d') \<Longrightarrow> run_stages (Suc n) step s d = Some (r, d')"
  by simp_all

text \<open>The seven steps of a write, lifted to the operation they are part of.\<close>

lemma run_write:
  assumes lift: "\<And>w d w' d'. write_step t c None w d = (Goes w', d') \<Longrightarrow> step (W w) d = (Goes (W w'), d')"
    and last: "\<And>w d d'. write_step t c None w d = (Ends (Inr ()), d') \<Longrightarrow> step (W w) d = (out, d')"
    and none: "d_entries d SeedJson = None"
  shows "run_stages (n + 7) step (W WriteClean) d = (case out of
      Goes s \<Rightarrow> run_stages n step s (written_disk t c d)
    | Ends r \<Rightarrow> Some (r, written_disk t c d))"
proof -
  let ?d1 = "d\<lparr>d_entries := (d_entries d)(Tmp t := None)\<rparr>"
  let ?i = "d_next d"
  let ?d2 = "?d1\<lparr>d_entries := (d_entries ?d1)(Tmp t := Some (?i, False)),
       d_files := (d_files d)(?i := ([], False)), d_next := Suc ?i\<rparr>"
  let ?d4 = "fs_sync ?i (fs_write ?i c ?d2)"
  let ?d5 = "?d4\<lparr>d_entries := (d_entries ?d4)(SeedJson := Some (?i, False))\<rparr>"
  let ?d6 = "?d5\<lparr>d_entries := (d_entries ?d5)(Tmp t := None)\<rparr>"
  have d1: "?d1 = d" if "d_entries d (Tmp t) = None" using that by (simp add: fun_upd_idem)
  have 1: "write_step t c None WriteClean d = (Goes WriteCreate, ?d1)"
    using d1 by (auto simp: fs_remove_def split: option.splits)
  have 2: "write_step t c None WriteCreate ?d1 = (Goes (WriteContents ?i), ?d2)"
    by (simp add: fs_create_new_def)
  have 3: "write_step t c None (WriteContents ?i) ?d2 = (Goes (WriteSync ?i), fs_write ?i c ?d2)"
    by simp
  have 4: "write_step t c None (WriteSync ?i) (fs_write ?i c ?d2) = (Goes WriteLink, ?d4)" by simp
  have 5: "write_step t c None WriteLink ?d4 = (Goes (WriteUnlink (Inr ())), ?d5)"
    using none by (simp add: fs_hard_link_def fs_sync_def fs_write_def)
  have 6: "write_step t c None (WriteUnlink (Inr ())) ?d5 = (Goes WriteSyncDir, ?d6)"
    by (simp add: fs_remove_def fs_sync_def fs_write_def)
  have 7: "write_step t c None WriteSyncDir ?d6 = (Ends (Inr ()), written_disk t c d)"
    by (cases d) (simp add: written_disk_def fs_sync_def fs_write_def fun_upd_twist)
  note go = run_stages_Suc(1) [where step = step, OF lift]
  have n: "n + 7 = Suc (Suc (Suc (Suc (Suc (Suc (Suc n))))))" by simp
  show ?thesis
    unfolding n go [OF 1] go [OF 2] go [OF 3] go [OF 4] go [OF 5] go [OF 6]
    unfolding run_stages.simps last [OF 7] prod.case by (rule refl)
qed

lemma insert_seed_run:
  "insert_seed env t now s birthday d =
     (if d_entries d SeedJson = None
      then Some (Inr (), written_disk t (se_to_json env (new_seed_file env now s birthday)) d)
      else Some (Inl SeedAlreadyExists, d))"
proof (cases "d_entries d SeedJson = None")
  case True
  let ?f = "new_seed_file env now s birthday"
  let ?step = "insert_step env t now s birthday None"
  have "run_stages (1 + 7) ?step InsertCheck d = run_stages (0 + 7) ?step (InsertWrite ?f WriteClean) d"
    using True by (simp add: eval_nat_numeral fs_exists_def)
  also have "\<dots> = Some (Inr (), written_disk t (se_to_json env ?f) d)"
    by (subst run_write [where W = "InsertWrite ?f" and out = "Ends (Inr ())"]) (simp_all add: True)
  finally show ?thesis using True by (simp add: insert_seed_def)
next
  case False
  then show ?thesis by (simp add: insert_seed_def eval_nat_numeral fs_exists_def)
qed

lemma read_seed_file_written:
  "json_ok env \<Longrightarrow> read_seed_file env None (written_disk t (se_to_json env f) d) = Inr (Some f)"
  by (simp add: read_seed_file_def fs_read_def written_disk_def inode_def json_ok_def)


text \<open>Opening the store succeeds exactly when there is no legacy seed, or one it can migrate.\<close>

definition migratable :: "'m seed_env \<Rightarrow> disk \<Rightarrow> bool" where
  "migratable env d \<longleftrightarrow> (case legacy_rows d of
     [] \<Rightarrow> True
   | [r] \<Rightarrow> (case legacy_row_seed r of
       Inl _ \<Rightarrow> False
     | Inr (i, s) \<Rightarrow> (case read_seed_file env None d of
         Inr (Some f) \<Rightarrow> sf_seed f = s
       | Inr None \<Rightarrow> plaintext_parses env s
       | Inl _ \<Rightarrow> False))
   | _ \<Rightarrow> False)"

lemma read_none: "read_seed_file env None d = Inr None \<Longrightarrow> d_entries d SeedJson = None"
  by (auto simp: read_seed_file_def fs_read_def split: option.splits sum.splits)

lemma read_seed_file_good:
  assumes "disk_good env d"
  shows "\<exists>x. read_seed_file env None d = Inr x"
  using assms
  by (auto simp: read_seed_file_def fs_read_def disk_good_def disk_ok_def split: option.splits)

lemma read_seed_file_legacy [simp]:
  "read_seed_file env fault (d\<lparr>d_legacy := l\<rparr>) = read_seed_file env fault d"
  by (cases "d_entries d SeedJson") (auto simp: read_seed_file_def fs_read_def)

lemma read_seed_file_sync_dir [simp]:
  "read_seed_file env fault (fs_sync_dir d) = read_seed_file env fault d"
  by (cases "d_entries d SeedJson") (auto simp: read_seed_file_def fs_read_def inode_def)

lemma legacy_delete_only:
  assumes "legacy_rows d = [r]"
  shows "legacy_rows (legacy_delete env (lr_id r) d) = []"
    "read_seed_file env fault (legacy_delete env (lr_id r) d) = read_seed_file env fault d"
  using assms by (simp_all add: legacy_delete_def)

lemma seed_store_new_reads:
  assumes "legacy_rows d = [r]" "legacy_row_seed r = Inr (i, s)"
  shows "seed_store_new env t now d =
    run_stages 11 (migrate_step env t now None) (MigrateRead i s) d"
proof -
  have l: "d_legacy d = Some (Some [r])" using assms(1) by (auto simp: legacy_rows_def split: option.splits)
  have h: "legacy_has_table d" by (simp add: legacy_has_table_def l)
  show ?thesis using assms h
    by (simp add: seed_store_new_def eval_nat_numeral l)
qed


lemma seed_store_new_migrates:
  assumes "json_ok env" "legacy_rows d = [r]" "legacy_row_seed r = Inr (i, s)"
    "read_seed_file env None d = Inr None" "plaintext_parses env s"
  shows "\<exists>f. sf_seed f = s \<and> seed_store_new env t now d =
    Some (Inr (), legacy_delete env i (written_disk t (se_to_json env f) d))"
proof -
  let ?step = "migrate_step env t now None"
  let ?f = "migrated_seed_file (legacy_created_at None now i d) s"
  let ?d = "written_disk t (se_to_json env ?f) d"
  have h: "legacy_has_table ?d" using assms(2)
    by (auto simp: legacy_has_table_def legacy_rows_def written_disk_def split: option.splits)
  have "seed_store_new env t now d = run_stages (2 + 7) ?step (MigrateWrite i ?f WriteClean) d"
    using assms by (simp add: seed_store_new_reads eval_nat_numeral)
  also have "\<dots> = run_stages 2 ?step (MigrateVerify i ?f) ?d"
    by (subst run_write [where W = "MigrateWrite i ?f" and out = "Goes (MigrateVerify i ?f)"])
      (simp_all add: read_none [OF assms(4)])
  also have "\<dots> = Some (Inr (), legacy_delete env i ?d)"
    using h by (simp add: eval_nat_numeral read_seed_file_written [OF assms(1)])
  finally show ?thesis by (intro exI [of _ ?f]) (simp add: migrated_seed_file_def)
qed

lemma seed_store_new_resumes:
  assumes "legacy_rows d = [r]" "legacy_row_seed r = Inr (i, s)"
    "read_seed_file env None d = Inr (Some f)" "sf_seed f = s"
  shows "seed_store_new env t now d = Some (Inr (), legacy_delete env i d)"
proof -
  have h: "legacy_has_table d" using assms(1)
    by (auto simp: legacy_has_table_def legacy_rows_def split: option.splits)
  then show ?thesis using assms by (simp add: seed_store_new_reads eval_nat_numeral)
qed

lemma seed_store_new_empty:
  "legacy_rows d = [] \<Longrightarrow> seed_store_new env t now d = Some (Inr (), d)"
  by (cases "d_legacy d"; cases "the (d_legacy d)")
    (simp_all add: seed_store_new_def eval_nat_numeral legacy_rows_def legacy_has_table_def)

lemma seed_store_new_refuses:
  assumes "disk_good env d" "\<not> migratable env d"
  shows "\<exists>e. seed_store_new env t now d = Some (Inl e, d)"
proof -
  obtain r rs where rows: "legacy_rows d = r # rs" using assms(2)
    by (cases "legacy_rows d") (auto simp: migratable_def)
  have l: "d_legacy d = Some (Some (r # rs))" using rows
    by (auto simp: legacy_rows_def split: option.splits)
  have h: "legacy_has_table d" by (simp add: legacy_has_table_def l)
  show ?thesis
  proof (cases "rs = [] \<and> (\<exists>x. legacy_row_seed r = Inr x)")
    case True
    then obtain i s where x: "legacy_row_seed r = Inr (i, s)" by auto
    obtain y where y: "read_seed_file env None d = Inr y" using read_seed_file_good [OF assms(1)] by blast
    show ?thesis using assms(2) True rows x y
      by (cases y) (auto simp: migratable_def seed_store_new_reads eval_nat_numeral)
  next
    case False
    then show ?thesis using rows h
      by (cases rs; cases "legacy_row_seed r") (auto simp: seed_store_new_def eval_nat_numeral l)
  qed
qed


section \<open>Encrypting the mnemonic\<close>

text \<open>
  Argon2id (\<open>Params::new\<close> accepts or refuses the cost) and AES-256-GCM: \<open>None\<close> is the error of
  the crate. The salt of \<open>encrypt\<close> is what the
  system's random source gives, \<open>None\<close> when it fails, and the nonce what \<open>generate_nonce\<close> gives.
\<close>

record 'm crypto_env =
  ce_params_ok :: "kdf_params \<Rightarrow> bool"
  ce_argon2id :: "kdf_params \<Rightarrow> bytes \<Rightarrow> bytes \<Rightarrow> bytes option"
  ce_aes_encrypt :: "bytes \<Rightarrow> bytes \<Rightarrow> bytes \<Rightarrow> bytes option"
  ce_aes_decrypt :: "bytes \<Rightarrow> bytes \<Rightarrow> bytes \<Rightarrow> bytes option"
  ce_from_str :: "string \<Rightarrow> 'm option"

definition as_bytes :: "string \<Rightarrow> bytes" where
  "as_bytes s = map of_char s"

definition from_utf8 :: "bytes \<Rightarrow> string option" where
  "from_utf8 bs = (if utf8_valid bs then Some (map (\<lambda>b. char_of (unat b)) bs) else None)"

datatype encrypt_mnemonic_error = EncryptFailed | EncryptSysRng | EncryptStretchPassword
datatype decrypt_mnemonic_error =
  DecryptFailed | DecryptParseMnemonic | DecryptStretchPassword | DecryptUtf8

definition stretch_password :: "'m crypto_env \<Rightarrow> string \<Rightarrow> bytes \<Rightarrow> kdf_params \<Rightarrow> bytes option" where
  "stretch_password ce password key_salt kdf =
     (if ce_params_ok ce kdf then ce_argon2id ce kdf (as_bytes password) key_salt else None)"

definition encrypt_mnemonic :: "'m seed_env \<Rightarrow> 'm crypto_env \<Rightarrow> bytes option \<Rightarrow> bytes \<Rightarrow> 'm
    \<Rightarrow> string \<Rightarrow> kdf_params \<Rightarrow> encrypt_mnemonic_error + encrypted_mnemonic" where
  "encrypt_mnemonic env ce salt nonce m password kdf = (case salt of
     None \<Rightarrow> Inl EncryptSysRng
   | Some key_salt \<Rightarrow> (case stretch_password ce password key_salt kdf of
       None \<Rightarrow> Inl EncryptStretchPassword
     | Some key \<Rightarrow> (case ce_aes_encrypt ce key nonce (as_bytes (se_to_string env m)) of
         None \<Rightarrow> Inl EncryptFailed
       | Some ciphered \<Rightarrow> Inr \<lparr>em_initialization_vector = nonce,
           em_ciphertext_mnemonic = ciphered, em_key_salt = key_salt, em_kdf = kdf\<rparr>)))"

text \<open>\<open>Nonce::from_slice\<close> panics on a slice that is not twelve bytes long: the outcome \<open>None\<close>.\<close>

definition decrypt_mnemonic :: "'m crypto_env \<Rightarrow> encrypted_mnemonic \<Rightarrow> string
    \<Rightarrow> (decrypt_mnemonic_error + 'm) option" where
  "decrypt_mnemonic ce e password =
     (if length (em_initialization_vector e) \<noteq> 12 then None
      else Some (case stretch_password ce password (em_key_salt e) (em_kdf e) of
        None \<Rightarrow> Inl DecryptStretchPassword
      | Some key \<Rightarrow> (case ce_aes_decrypt ce key (em_initialization_vector e)
            (em_ciphertext_mnemonic e) of
          None \<Rightarrow> Inl DecryptFailed
        | Some plaintext \<Rightarrow> (case from_utf8 plaintext of
            None \<Rightarrow> Inl DecryptUtf8
          | Some raw \<Rightarrow> (case ce_from_str ce raw of
              None \<Rightarrow> Inl DecryptParseMnemonic
            | Some m \<Rightarrow> Inr m)))))"

text \<open>
  What the crates document: AES-GCM decrypts what it encrypted under the same key and nonce, and a
  mnemonic is its words, ASCII, and is parsed back from them.
\<close>

definition crypto_ok :: "'m seed_env \<Rightarrow> 'm crypto_env \<Rightarrow> bool" where
  "crypto_ok env ce \<longleftrightarrow>
     (\<forall>key nonce p c. ce_aes_encrypt ce key nonce p = Some c \<longrightarrow> ce_aes_decrypt ce key nonce c = Some p)
   \<and> (\<forall>m. ce_from_str ce (se_to_string env m) = Some m)
   \<and> (\<forall>m. \<forall>c\<in>set (se_to_string env m). (of_char c :: nat) < 128)"

lemma from_utf8_as_bytes:
  assumes "\<forall>c\<in>set s. (of_char c :: nat) < 128"
  shows "from_utf8 (as_bytes s) = Some s"
proof -
  have u: "unat (of_char c :: u8) = of_char c" for c
  proof -
    have "unat (of_nat (of_char c) :: u8) = of_char c" by (subst unat_of_nat) simp
    then show ?thesis by (simp only: of_nat_of_char)
  qed
  have "(of_char c :: u8) < 0x80" if "c \<in> set s" for c
    using assms that by (simp add: word_less_nat_alt u)
  then have "utf8_valid (as_bytes s)" by (intro utf8_valid_ascii) (auto simp: as_bytes_def)
  then show ?thesis by (simp add: from_utf8_def as_bytes_def o_def u)
qed

lemma encrypt_decrypt:
  assumes "crypto_ok env ce" "length nonce = 12"
    "encrypt_mnemonic env ce salt nonce m password kdf = Inr e"
  shows "decrypt_mnemonic ce e password = Some (Inr m)"
  using assms
  by (auto simp: encrypt_mnemonic_def decrypt_mnemonic_def crypto_ok_def from_utf8_as_bytes
      split: option.splits)


section \<open>Runs of one process\<close>

text \<open>The steps of one process, each with its fault.\<close>

fun op_steps :: "'m seed_env \<Rightarrow> string \<Rightarrow> nat \<Rightarrow> nat option list \<Rightarrow> 'm seed_op \<Rightarrow> disk
    \<Rightarrow> 'm seed_op \<times> disk" where
  "op_steps env t now [] a d = (a, d)"
| "op_steps env t now (fault # faults) a d =
     (case op_step env t now fault a d of (a', d') \<Rightarrow> op_steps env t now faults a' d')"

lemma op_steps_world:
  "op_steps env t now faults a d = (a', d') \<Longrightarrow> \<exists>cs'. (world_step env)\<^sup>*\<^sup>*
     \<lparr>w_disk = d, w_procs = [\<lparr>sp_tmp = t, sp_now = now, sp_op = a\<rparr>], w_created = cs\<rparr>
     \<lparr>w_disk = d', w_procs = [\<lparr>sp_tmp = t, sp_now = now, sp_op = a'\<rparr>], w_created = cs'\<rparr>"
proof (induction faults arbitrary: a d cs)
  case Nil
  then show ?case by auto
next
  case (Cons fault faults)
  obtain a1 d1 where s: "op_step env t now fault a d = (a1, d1)" by fastforce
  have "world_step env
      \<lparr>w_disk = d, w_procs = [\<lparr>sp_tmp = t, sp_now = now, sp_op = a\<rparr>], w_created = cs\<rparr>
      \<lparr>w_disk = d1, w_procs = [\<lparr>sp_tmp = t, sp_now = now, sp_op = a1\<rparr>],
       w_created = cs @ acknowledges a a1\<rparr>"
    using world_step.run [of env "\<lparr>sp_tmp = t, sp_now = now, sp_op = a\<rparr>" fault d a1 d1 "[]" "[]" cs] s
    by simp
  moreover have "op_steps env t now faults a1 d1 = (a', d')" using Cons.prems s by simp
  ultimately show ?case using Cons.IH by (metis converse_rtranclp_into_rtranclp)
qed

lemma open_store_world:
  assumes "op_steps env t now faults (Opening MigrateExists) d = (a', d')"
  shows "\<exists>cs'. (world_step env)\<^sup>*\<^sup>* \<lparr>w_disk = d, w_procs = [], w_created = cs\<rparr>
     \<lparr>w_disk = d', w_procs = [], w_created = cs'\<rparr>"
proof -
  let ?p = "\<lambda>a. \<lparr>sp_tmp = t, sp_now = now, sp_op = a\<rparr>"
  have s: "world_step env \<lparr>w_disk = d, w_procs = [], w_created = cs\<rparr>
      \<lparr>w_disk = d, w_procs = [?p (Opening MigrateExists)], w_created = cs\<rparr>"
    by (rule world_step.open_store) simp
  obtain cs' where r: "(world_step env)\<^sup>*\<^sup>*
      \<lparr>w_disk = d, w_procs = [?p (Opening MigrateExists)], w_created = cs\<rparr>
      \<lparr>w_disk = d', w_procs = [?p a'], w_created = cs'\<rparr>"
    using op_steps_world [OF assms] by blast
  have e: "world_step env \<lparr>w_disk = d', w_procs = [?p a'], w_created = cs'\<rparr>
      \<lparr>w_disk = d', w_procs = [], w_created = cs'\<rparr>"
    using world_step.ends [of env d' "[]" "?p a'" "[]" cs'] by simp
  show ?thesis using s r e
    by (meson converse_rtranclp_into_rtranclp rtranclp.rtrancl_into_rtrancl)
qed

lemma run_stages_steps:
  "run_stages n (migrate_step env t now None) m d = Some (r, d') \<Longrightarrow>
     \<exists>k. op_steps env t now (replicate k None) (Opening m) d = (Opened r, d')"
proof (induction n arbitrary: m d)
  case (Suc n)
  obtain out d1 where s: "migrate_step env t now None m d = (out, d1)" by fastforce
  show ?case
  proof (cases out)
    case (Goes m')
    then obtain k where "op_steps env t now (replicate k None) (Opening m') d1 = (Opened r, d')"
      using Suc.IH Suc.prems s by auto
    then show ?thesis by (intro exI [of _ "Suc k"]) (simp add: s Goes)
  next
    case (Ends r')
    then show ?thesis using Suc.prems by (intro exI [of _ "Suc 0"]) (simp add: s)
  qed
qed simp

text \<open>
  Opening the store alone, without faults, is a run of the world.
\<close>

lemma seed_store_new_world:
  assumes "seed_store_new env t now d = Some (r, d')"
  shows "\<exists>cs'. (world_step env)\<^sup>*\<^sup>* \<lparr>w_disk = d, w_procs = [], w_created = cs\<rparr>
     \<lparr>w_disk = d', w_procs = [], w_created = cs'\<rparr>"
  using run_stages_steps [OF assms [unfolded seed_store_new_def]] open_store_world by metis

section \<open>A concrete encoding\<close>

text \<open>
  The hypotheses on the JSON encoding can be met: seed files as numbers, in unary.
\<close>

definition nat_of_bytes :: "bytes \<Rightarrow> nat" where
  "nat_of_bytes bs = list_encode (map unat bs)"

definition bytes_of_nat :: "nat \<Rightarrow> bytes" where
  "bytes_of_nat n = map of_nat (list_decode n)"

definition nat_of_kdf :: "kdf_params option \<Rightarrow> nat" where
  "nat_of_kdf k = (case k of None \<Rightarrow> 0 | Some p \<Rightarrow> Suc (prod_encode (unat (memory_kib p),
     prod_encode (unat (iterations p), unat (parallelism p)))))"

definition kdf_of_nat :: "nat \<Rightarrow> kdf_params option" where
  "kdf_of_nat n = (case n of 0 \<Rightarrow> None | Suc n' \<Rightarrow> (case prod_decode n' of (a, bc) \<Rightarrow>
     (case prod_decode bc of (b, c) \<Rightarrow>
       Some \<lparr>memory_kib = of_nat a, iterations = of_nat b, parallelism = of_nat c\<rparr>)))"

definition nat_of_seed :: "stored_seed \<Rightarrow> nat" where
  "nat_of_seed s = sum_encode (case s of
     StoredPlaintext words \<Rightarrow> Inl (list_encode (map of_char words))
   | StoredEncrypted iv c salt kdf \<Rightarrow> Inr (prod_encode (nat_of_bytes iv,
       prod_encode (nat_of_bytes c, prod_encode (nat_of_bytes salt, nat_of_kdf kdf)))))"

definition seed_of_nat :: "nat \<Rightarrow> stored_seed" where
  "seed_of_nat n = (case sum_decode n of
     Inl w \<Rightarrow> StoredPlaintext (map char_of (list_decode w))
   | Inr x \<Rightarrow> (case prod_decode x of (iv, y) \<Rightarrow> (case prod_decode y of (c, z) \<Rightarrow>
       (case prod_decode z of (salt, kdf) \<Rightarrow>
         StoredEncrypted (bytes_of_nat iv) (bytes_of_nat c) (bytes_of_nat salt) (kdf_of_nat kdf)))))"

definition unary_to_json :: "seed_file \<Rightarrow> bytes" where
  "unary_to_json f = replicate (prod_encode (unat (sf_version f), prod_encode (sf_created_at f,
     prod_encode (case sf_birthday_height f of None \<Rightarrow> 0 | Some h \<Rightarrow> Suc (unat h),
       nat_of_seed (sf_seed f))))) 0"

definition unary_from_json :: "bytes \<Rightarrow> seed_file option" where
  "unary_from_json bs = (case prod_decode (length bs) of (v, x) \<Rightarrow> (case prod_decode x of (c, y) \<Rightarrow>
     (case prod_decode y of (b, s) \<Rightarrow> Some \<lparr>sf_version = of_nat v, sf_created_at = c,
        sf_birthday_height = (case b of 0 \<Rightarrow> None | Suc h \<Rightarrow> Some (of_nat h)),
        sf_seed = seed_of_nat s\<rparr>)))"

lemma kdf_nat_inverse: "kdf_of_nat (nat_of_kdf k) = k"
  by (cases k) (simp_all add: nat_of_kdf_def kdf_of_nat_def)

lemma bytes_nat_inverse: "bytes_of_nat (nat_of_bytes bs) = bs"
  by (simp add: bytes_of_nat_def nat_of_bytes_def o_def)

lemma seed_nat_inverse: "seed_of_nat (nat_of_seed s) = s"
  by (cases s) (simp_all add: seed_of_nat_def nat_of_seed_def bytes_nat_inverse kdf_nat_inverse o_def)

definition unary_env :: "bool \<Rightarrow> string seed_env" where
  "unary_env syncs = \<lparr>se_to_json = unary_to_json, se_from_json = unary_from_json,
     se_parse = Some, se_to_string = id, se_commit_syncs_dir = syncs\<rparr>"

lemma unary_json_ok: "json_ok (unary_env syncs)"
  by (auto simp: json_ok_def unary_env_def unary_to_json_def unary_from_json_def seed_nat_inverse
      split: option.splits)


section \<open>Properties\<close>

definition one_row :: legacy_row where
  "one_row = \<lparr>lr_id = 1, lr_plaintext_mnemonic = Some ''zoo'', lr_initialization_vector = None,
     lr_ciphertext_mnemonic = None, lr_key_salt = None, lr_creation_time = Some 0\<rparr>"

definition legacy_disk :: disk where
  "legacy_disk = \<lparr>d_entries = (\<lambda>_. None), d_files = (\<lambda>_. ([], False)), d_next = 0,
     d_legacy = Some (Some [one_row])\<rparr>"

lemma one_row_seed: "legacy_row_seed one_row = Inr (1, StoredPlaintext ''zoo'')"
  by (simp add: one_row_def legacy_row_seed_def)

lemma legacy_disk_ok: "disk_ok env legacy_disk"
  by (simp add: disk_ok_def legacy_disk_def legacy_rows_def)

lemma legacy_disk_migrates:
  "\<exists>f. sf_seed f = StoredPlaintext ''zoo'' \<and> seed_store_new (unary_env syncs) t now legacy_disk
     = Some (Inr (), legacy_delete (unary_env syncs) 1
         (written_disk t (unary_to_json f) legacy_disk))"
  using seed_store_new_migrates [OF unary_json_ok _ one_row_seed, of legacy_disk syncs t now]
  by (simp add: legacy_disk_def legacy_rows_def read_seed_file_def fs_read_def plaintext_parses_def
      unary_env_def)

text \<open>C9: A seed is never lost. Whatever processes open the store and insert seeds, in whatever
  order their calls interleave, whichever calls fail, whichever processes are killed and whenever
  the machine loses power: every row that was in the legacy table is still there, or it held a
  seed and that seed is in a \<open>seed.json\<close> that is complete and durable. The hypothesis on the
  database is that its commits sync the data directory, which SQLite does with a rollback
  journal.\<close>

theorem seed_never_lost:
  assumes "(world_step env)\<^sup>*\<^sup>* (seed_world_init d) w" "json_ok env" "disk_ok env d"
    "se_commit_syncs_dir env" "r \<in> set (legacy_rows d)"
  shows "r \<in> set (legacy_rows (w_disk w))
    \<or> (\<exists>i s. legacy_row_seed r = Inr (i, s) \<and> durable_seed env s (w_disk w))"
  using world_steps_rows_kept [OF assms(1-4)] assms(5) unfolding rows_kept_def by blast

theorem seed_never_lost_witness:
  "\<exists>w. (world_step (unary_env True))\<^sup>*\<^sup>* (seed_world_init legacy_disk) w
     \<and> legacy_rows (w_disk w) = []
     \<and> durable_seed (unary_env True) (StoredPlaintext ''zoo'') (w_disk w)"
proof -
  obtain f where f: "seed_store_new (unary_env True) ''t'' 0 legacy_disk
      = Some (Inr (), legacy_delete (unary_env True) 1
          (written_disk ''t'' (unary_to_json f) legacy_disk))" (is "_ = Some (_, ?d)")
    using legacy_disk_migrates by blast
  obtain cs where w: "(world_step (unary_env True))\<^sup>*\<^sup>* (seed_world_init legacy_disk)
      \<lparr>w_disk = ?d, w_procs = [], w_created = cs\<rparr>"
    using seed_store_new_world [OF f, of "[]"] by (auto simp: seed_world_init_def)
  have "legacy_rows (written_disk ''t'' (unary_to_json f) legacy_disk) = [one_row]"
    by (simp add: written_disk_def legacy_disk_def legacy_rows_def)
  then have rows: "legacy_rows ?d = []" using legacy_delete_only(1) [of _ one_row]
    by (simp add: one_row_def)
  have "one_row \<in> set (legacy_rows ?d)
      \<or> (\<exists>i s. legacy_row_seed one_row = Inr (i, s) \<and> durable_seed (unary_env True) s ?d)"
    using seed_never_lost [OF w unary_json_ok legacy_disk_ok, of one_row]
    by (simp add: unary_env_def) (simp add: legacy_disk_def legacy_rows_def)
  then show ?thesis using w rows one_row_seed by (intro exI conjI) auto
qed

text \<open>Without that hypothesis the seed can be lost: a migration publishes \<open>seed.json\<close> and fails
  to sync the directory, the next start finds the file and deletes the row without syncing
  either, and the power fails.\<close>

lemma lost_without_directory_sync:
  "\<exists>w. (world_step (unary_env False))\<^sup>*\<^sup>* (seed_world_init legacy_disk) w
     \<and> legacy_rows (w_disk w) = [] \<and> d_entries (w_disk w) SeedJson = None"
proof -
  let ?env = "unary_env False"
  let ?f = "migrated_seed_file 0 (StoredPlaintext ''zoo'')"
  let ?c = "se_to_json ?env ?f"
  let ?d1 = "legacy_disk\<lparr>d_entries := (\<lambda>_. None)(SeedJson := Some (0, False)),
     d_files := (\<lambda>_. ([], False))(0 := (?c, True)), d_next := 1\<rparr>"
  let ?d2 = "legacy_delete ?env 1 ?d1"
  let ?d3 = "?d2\<lparr>d_entries := (\<lambda>_. None)\<rparr>"
  have parse: "plaintext_parses ?env s" for s
    by (cases s) (simp_all add: plaintext_parses_def unary_env_def)
  have "op_steps ?env ''t'' 0 (replicate 13 None @ [Some 0]) (Opening MigrateExists) legacy_disk
      = (Opened (Inl (InitIo OtherIo)), ?d1)"
    by (simp add: eval_nat_numeral legacy_disk_def legacy_has_table_def legacy_rows_def
        one_row_seed read_seed_file_def fs_read_def parse legacy_created_at_def)
      (simp add: one_row_def fs_remove_def fs_create_new_def fs_write_def fs_sync_def
        fs_hard_link_def fun_upd_twist)
  from open_store_world [OF this, of "[]"] obtain cs1 where
    1: "(world_step ?env)\<^sup>*\<^sup>* (seed_world_init legacy_disk) \<lparr>w_disk = ?d1, w_procs = [], w_created = cs1\<rparr>"
    by (auto simp: seed_world_init_def)
  have rows: "legacy_rows ?d1 = [one_row]" by (simp add: legacy_disk_def legacy_rows_def)
  have json: "se_from_json ?env ?c = Some ?f" using unary_json_ok by (simp add: json_ok_def)
  have "seed_store_new ?env ''u'' 0 ?d1 = Some (Inr (), ?d2)"
    by (rule seed_store_new_resumes [OF rows one_row_seed, where f = ?f])
      (simp add: read_seed_file_def fs_read_def json, simp add: migrated_seed_file_def)
  from seed_store_new_world [OF this] obtain cs2 where
    2: "(world_step ?env)\<^sup>*\<^sup>* \<lparr>w_disk = ?d1, w_procs = [], w_created = cs1\<rparr>
      \<lparr>w_disk = ?d2, w_procs = [], w_created = cs2\<rparr>" by blast
  have rows2: "legacy_rows ?d2 = []" using legacy_delete_only(1) [OF rows] by (simp add: one_row_def)
  have d2: "?d2 = ?d1\<lparr>d_legacy := Some (Some [])\<rparr>"
    using rows by (simp add: legacy_delete_def unary_env_def one_row_def)
  have "power_loss ?d2 ?d3" unfolding d2 by (simp add: power_loss_def)
  then have 3: "world_step ?env \<lparr>w_disk = ?d2, w_procs = [], w_created = cs2\<rparr>
      \<lparr>w_disk = ?d3, w_procs = [], w_created = cs2\<rparr>" by (rule world_step.power)
  have "(world_step ?env)\<^sup>*\<^sup>* (seed_world_init legacy_disk) \<lparr>w_disk = ?d3, w_procs = [], w_created = cs2\<rparr>"
    using 1 2 3 by (meson rtranclp.rtrancl_into_rtrancl rtranclp_trans)
  then show ?thesis using rows2 by (intro exI conjI) auto
qed


text \<open>C11: At most one wallet is ever created, and it stays. In every world the runs reach,
  \<open>seed.json\<close> is absent or a complete seed file, at most one insert was acknowledged, and the
  file of an acknowledged insert is durable and is the one the store reads, byte for byte the one
  that was inserted.\<close>

theorem wallet_created_once:
  assumes "(world_step env)\<^sup>*\<^sup>* (seed_world_init d) w" "json_ok env" "disk_ok env d"
  shows "(\<exists>x. read_seed_file env None (w_disk w) = Inr x) \<and> length (w_created w) \<le> 1
    \<and> (\<forall>f\<in>set (w_created w). durable_file env f (w_disk w)
        \<and> read_seed_file env None (w_disk w) = Inr (Some f))"
proof -
  have inv: "world_inv env w" by (rule world_steps_inv [OF assms])
  then have "read_seed_file env None (w_disk w) = Inr (Some f)" if "f \<in> set (w_created w)" for f
    using that assms(2)
    by (auto simp: world_inv_def durable_file_def read_seed_file_def fs_read_def json_ok_def)
  then show ?thesis using inv read_seed_file_good by (auto simp: world_inv_def)
qed

theorem wallet_created_once_witness:
  "\<exists>w f. (world_step (unary_env False))\<^sup>*\<^sup>* (seed_world_init legacy_disk) w \<and> w_created w = [f]
     \<and> durable_file (unary_env False) f (w_disk w)"
proof -
  let ?env = "unary_env False"
  let ?p = "\<lambda>a. \<lparr>sp_tmp = ''t'', sp_now = 0, sp_op = a\<rparr>"
  let ?f = "new_seed_file ?env 0 (SeedPlaintext ''zoo'') None"
  let ?d = "written_disk ''t'' (se_to_json ?env ?f) legacy_disk"
  let ?start = "Inserting (SeedPlaintext ''zoo'') None InsertCheck"
  let ?last = "Inserting (SeedPlaintext ''zoo'') None (InsertWrite ?f WriteSyncDir)"
  let ?d6 = "legacy_disk\<lparr>d_entries := (\<lambda>_. None)(SeedJson := Some (0, False)),
     d_files := (\<lambda>_. ([], False))(0 := (se_to_json ?env ?f, True)), d_next := 1\<rparr>"
  have 1: "world_step ?env (seed_world_init legacy_disk)
      \<lparr>w_disk = legacy_disk, w_procs = [?p ?start], w_created = []\<rparr>"
    unfolding seed_world_init_def by (rule world_step.insert) simp
  have "op_steps ?env ''t'' 0 (replicate 7 None) ?start legacy_disk = (?last, ?d6)"
    by (simp add: eval_nat_numeral legacy_disk_def fs_exists_def fs_remove_def fs_create_new_def
        fs_write_def fs_sync_def fs_hard_link_def fun_upd_twist)
  from op_steps_world [OF this, of "[]"] obtain cs where
    2: "(world_step ?env)\<^sup>*\<^sup>* \<lparr>w_disk = legacy_disk, w_procs = [?p ?start], w_created = []\<rparr>
      \<lparr>w_disk = ?d6, w_procs = [?p ?last], w_created = cs\<rparr>" by blast
  have "op_step ?env ''t'' 0 None ?last ?d6 = (Inserted (Inr ()), fs_sync_dir ?d6)" by simp
  then have 3: "world_step ?env \<lparr>w_disk = ?d6, w_procs = [?p ?last], w_created = cs\<rparr>
      \<lparr>w_disk = fs_sync_dir ?d6, w_procs = [?p (Inserted (Inr ()))], w_created = cs @ [?f]\<rparr>"
    using world_step.run [of ?env "?p ?last" None ?d6 _ _ "[]" "[]" cs] by simp
  have r: "(world_step ?env)\<^sup>*\<^sup>* (seed_world_init legacy_disk)
      \<lparr>w_disk = fs_sync_dir ?d6, w_procs = [?p (Inserted (Inr ()))], w_created = cs @ [?f]\<rparr>"
    using 1 2 3 by (meson converse_rtranclp_into_rtranclp rtranclp.rtrancl_into_rtrancl)
  from wallet_created_once [OF r unary_json_ok legacy_disk_ok]
  show ?thesis using r by (intro exI conjI) (assumption, auto)
qed

text \<open>C22: Opening the store always ends, and recovers from every crash. Alone and without faults,
  from whatever the runs left behind: when there is no legacy seed, or one valid seed and either
  a \<open>seed.json\<close> that holds the same seed or none and words that parse, it succeeds, the table is empty and \<open>seed.json\<close>
  holds the seed; otherwise it fails and has changed nothing.\<close>

theorem seed_store_recovers:
  assumes "(world_step env)\<^sup>*\<^sup>* (seed_world_init d0) w" "json_ok env" "disk_ok env d0"
    and d: "d = w_disk w"
  shows "\<exists>r d'. seed_store_new env t now d = Some (r, d') \<and>
    (if migratable env d
     then r = Inr () \<and> legacy_rows d' = []
       \<and> (\<forall>x i s. x \<in> set (legacy_rows d) \<longrightarrow> legacy_row_seed x = Inr (i, s) \<longrightarrow>
            (\<exists>f. read_seed_file env None d' = Inr (Some f) \<and> sf_seed f = s))
     else (\<exists>e. r = Inl e) \<and> d' = d)"
proof (cases "migratable env d")
  case False
  have "disk_good env d" using world_steps_inv [OF assms(1-3)] by (simp add: d world_inv_def)
  from seed_store_new_refuses [OF this False, of t now] show ?thesis using False by auto
next
  case True
  show ?thesis
  proof (cases "legacy_rows d")
    case Nil
    then show ?thesis using True seed_store_new_empty [OF Nil, of env t now] by simp
  next
    case (Cons x xs)
    then obtain i s where rows: "legacy_rows d = [x]" and x: "legacy_row_seed x = Inr (i, s)"
      using True by (auto simp: migratable_def split: list.splits sum.splits)
    have i: "i = lr_id x" by (rule legacy_row_seed_id [OF x])
    show ?thesis
    proof (cases "read_seed_file env None d = Inr None")
      case none: True
      then obtain f where "sf_seed f = s" "seed_store_new env t now d =
          Some (Inr (), legacy_delete env i (written_disk t (se_to_json env f) d))"
        using True rows x seed_store_new_migrates [OF assms(2) rows x none, of t now]
        by (auto simp: migratable_def)
      moreover have "legacy_rows (written_disk t c d) = [x]" for c
        using rows by (simp add: written_disk_def)
      ultimately show ?thesis using True rows x i
        by (simp add: legacy_delete_only read_seed_file_written [OF assms(2)])
    next
      case False
      then obtain f where f: "read_seed_file env None d = Inr (Some f)" "sf_seed f = s"
        using True rows x by (auto simp: migratable_def split: sum.splits option.splits)
      then show ?thesis using True rows x i seed_store_new_resumes [OF rows x f, of t now]
        by (simp add: legacy_delete_only)
    qed
  qed
qed

theorem seed_store_recovers_witness:
  "\<exists>d'. seed_store_new (unary_env True) ''t'' 0 legacy_disk = Some (Inr (), d')
     \<and> legacy_rows d' = []"
proof -
  have "migratable (unary_env True) legacy_disk"
    by (simp add: migratable_def legacy_disk_def legacy_rows_def one_row_seed read_seed_file_def
        fs_read_def plaintext_parses_def unary_env_def)
  then show ?thesis
    using seed_store_recovers [OF rtranclp.rtrancl_refl [of _ "seed_world_init legacy_disk"]
        unary_json_ok [of True] legacy_disk_ok, of legacy_disk "''t''" 0]
    by (auto simp: seed_world_init_def)
qed

text \<open>An encrypted wallet can be unlocked. A mnemonic encrypted under a password and inserted
  where there was no wallet is read back by a fresh store and decrypts, under that password, to
  the same mnemonic; the recorded cost of the key derivation and the birthday are read back as
  well.\<close>

theorem encrypted_wallet_unlocks:
  assumes "json_ok env" "crypto_ok env ce" "length nonce = 12" "d_entries d SeedJson = None"
    "encrypt_mnemonic env ce salt nonce m password kdf = Inr e"
  shows "\<exists>d'. insert_seed env t now (SeedEncrypted e) birthday d = Some (Inr (), d')
    \<and> read_mnemonic env None d' = Inr (Some (Inr e)) \<and> em_kdf e = kdf
    \<and> read_birthday_height env None d' = Inr birthday
    \<and> decrypt_mnemonic ce e password = Some (Inr m)"
proof -
  let ?f = "new_seed_file env now (SeedEncrypted e) birthday"
  have r: "read_seed_file env None (written_disk t (se_to_json env ?f) d) = Inr (Some ?f)"
    by (rule read_seed_file_written [OF assms(1)])
  have "em_kdf e = kdf" using assms(5) by (auto simp: encrypt_mnemonic_def split: option.splits)
  moreover have "read_mnemonic env None (written_disk t (se_to_json env ?f) d) = Inr (Some (Inr e))"
    unfolding read_mnemonic_def r by (simp add: new_seed_file_def)
  moreover have "read_birthday_height env None (written_disk t (se_to_json env ?f) d) = Inr birthday"
    unfolding read_birthday_height_def r by (simp add: new_seed_file_def)
  ultimately show ?thesis using encrypt_decrypt [OF assms(2,3,5)] assms(4)
    by (simp add: insert_seed_run)
qed

text \<open>A cipher that shows the hypotheses can hold: it adds the first byte of the key to every byte
  of the text, and only takes words of the word list's alphabet.\<close>

definition word_env :: "bool seed_env" where
  "word_env = \<lparr>se_to_json = unary_to_json, se_from_json = unary_from_json,
     se_parse = (\<lambda>s. if s = ''zoo'' then Some True else if s = ''abandon'' then Some False else None),
     se_to_string = (\<lambda>b. if b then ''zoo'' else ''abandon''), se_commit_syncs_dir = True\<rparr>"

definition shift_crypto :: "bool crypto_env" where
  "shift_crypto = \<lparr>ce_params_ok = (\<lambda>kdf. memory_kib kdf \<ge> 8), ce_argon2id = (\<lambda>kdf pw salt. Some (pw @ salt)),
     ce_aes_encrypt = (\<lambda>key nonce p. Some (map (\<lambda>b. b + hd key) p)),
     ce_aes_decrypt = (\<lambda>key nonce c. Some (map (\<lambda>b. b - hd key) c)),
     ce_from_str = se_parse word_env\<rparr>"

lemma shift_crypto_ok: "crypto_ok word_env shift_crypto"
  by (auto simp: crypto_ok_def shift_crypto_def word_env_def o_def)

theorem encrypted_wallet_unlocks_witness:
  "\<exists>e d'. encrypt_mnemonic word_env shift_crypto (Some (replicate 16 7)) (replicate 12 1) True
       ''pw'' kdf_current = Inr e
     \<and> insert_seed word_env ''t'' 0 (SeedEncrypted e) (Some 5) legacy_disk = Some (Inr (), d')
     \<and> read_mnemonic word_env None d' = Inr (Some (Inr e))
     \<and> decrypt_mnemonic shift_crypto e ''pw'' = Some (Inr True)"
proof -
  have json: "json_ok word_env"
    using unary_json_ok [of True] by (simp add: json_ok_def unary_env_def word_env_def)
  obtain e where e: "encrypt_mnemonic word_env shift_crypto (Some (replicate 16 7)) (replicate 12 1) True
       ''pw'' kdf_current = Inr e"
    by (simp add: encrypt_mnemonic_def stretch_password_def shift_crypto_def kdf_current_def)
  show ?thesis
    using encrypted_wallet_unlocks [OF json shift_crypto_ok _ _ e, of legacy_disk "''t''" 0 "Some 5"] e
    by (auto simp: legacy_disk_def)
qed


end
