(* ===== verification/Messages.thy ===== *)
theory Messages
  imports Types
begin

text \<open>
  The BIP 300/301 messages of \<open>src/lib/messages.rs\<close>: parsers and encoders of the coinbase
  messages M1, M2, M3, M4 and M7, the list of coinbase messages a block may carry, the builder
  that extends a coinbase with messages, the BMM request M8, the treasury output script, and the
  blinded id of a withdrawal bundle (M6). The lemmas show that encoding and parsing are inverse,
  that \<open>CoinbaseMessages::push\<close> accepts exactly the lists of messages the BIPs allow, that a
  built coinbase parses back to the messages it was built from, and that the id of an M6 is the
  id of the blinded bundle it was made from.
\<close>

section \<open>M1, M2, M3\<close>

record m1_propose_sidechain =
  m1_sidechain_number :: sidechain_number
  m1_description :: sidechain_description

definition M1_TAG :: bytes where "M1_TAG = [0xD5, 0xE0, 0xC4, 0xAF]"

definition m1_parse :: "bytes \<Rightarrow> m1_propose_sidechain presult" where
  "m1_parse input =
     (case p_take 1 input of
        Inl e \<Rightarrow> Inl e
      | Inr (input, n) \<Rightarrow>
          (case p_rest input of
             Inl e \<Rightarrow> Inl e
           | Inr (input, d) \<Rightarrow>
               Inr (input, \<lparr>m1_sidechain_number = n ! 0, m1_description = d\<rparr>)))"

text \<open>\<open>PushBytesBuf::try_from\<close> followed by \<open>ScriptBuf::new_op_return\<close>.\<close>

definition op_return_of :: "btc \<Rightarrow> bytes \<Rightarrow> push_bytes_error + bytes" where
  "op_return_of B message =
     (case push_bytes_try_from message of
        Inl e \<Rightarrow> Inl e
      | Inr data \<Rightarrow> Inr (b_new_op_return B data))"

definition m1_message :: "m1_propose_sidechain \<Rightarrow> bytes" where
  "m1_message m1 = M1_TAG @ [m1_sidechain_number m1] @ m1_description m1"

definition m1_to_script :: "btc \<Rightarrow> m1_propose_sidechain \<Rightarrow> push_bytes_error + bytes" where
  "m1_to_script B m1 = op_return_of B (m1_message m1)"

record m2_ack_sidechain =
  m2_sidechain_number :: sidechain_number
  m2_description_hash :: hash256

definition M2_TAG :: bytes where "M2_TAG = [0xD6, 0xE1, 0xC5, 0xDF]"

definition m2_parse :: "bytes \<Rightarrow> m2_ack_sidechain presult" where
  "m2_parse input =
     (case p_take 1 input of
        Inl e \<Rightarrow> Inl e
      | Inr (input, n) \<Rightarrow>
          (case p_take 32 input of
             Inl e \<Rightarrow> Inl e
           | Inr (input, h) \<Rightarrow>
               (case p_eof input of
                  Inl e \<Rightarrow> Inl e
                | Inr (input, _) \<Rightarrow>
                    Inr (input, \<lparr>m2_sidechain_number = n ! 0, m2_description_hash = h\<rparr>))))"

definition m2_message :: "m2_ack_sidechain \<Rightarrow> bytes" where
  "m2_message m2 = M2_TAG @ [m2_sidechain_number m2] @ m2_description_hash m2"

definition m2_to_script :: "btc \<Rightarrow> m2_ack_sidechain \<Rightarrow> push_bytes_error + bytes" where
  "m2_to_script B m2 = op_return_of B (m2_message m2)"

record m3_propose_bundle =
  m3_sidechain_number :: sidechain_number
  m3_bundle_txid :: bytes

definition M3_TAG :: bytes where "M3_TAG = [0xD4, 0x5A, 0xA9, 0x43]"

definition m3_parse :: "bytes \<Rightarrow> m3_propose_bundle presult" where
  "m3_parse input =
     (case p_take 1 input of
        Inl e \<Rightarrow> Inl e
      | Inr (input, n) \<Rightarrow>
          (case p_take 32 input of
             Inl e \<Rightarrow> Inl e
           | Inr (input, h) \<Rightarrow>
               (case p_eof input of
                  Inl e \<Rightarrow> Inl e
                | Inr (input, _) \<Rightarrow>
                    Inr (input, \<lparr>m3_sidechain_number = n ! 0, m3_bundle_txid = h\<rparr>))))"

definition m3_message :: "m3_propose_bundle \<Rightarrow> bytes" where
  "m3_message m3 = M3_TAG @ [m3_sidechain_number m3] @ m3_bundle_txid m3"

definition m3_to_script :: "btc \<Rightarrow> m3_propose_bundle \<Rightarrow> push_bytes_error + bytes" where
  "m3_to_script B m3 = op_return_of B (m3_message m3)"

section \<open>M4\<close>

datatype m4_ack_bundles =
    RepeatPrevious
  | OneByte "u8 list"
  | TwoBytes "u16 list"
  | LeadingBy50

definition M4_TAG :: bytes where "M4_TAG = [0xD7, 0x7D, 0x17, 0x76]"
definition ABSTAIN_ONE_BYTE :: u8 where "ABSTAIN_ONE_BYTE = 0xFF"
definition ABSTAIN_TWO_BYTES :: u16 where "ABSTAIN_TWO_BYTES = 0xFFFF"
definition ALARM_ONE_BYTE :: u8 where "ALARM_ONE_BYTE = 0xFE"
definition ALARM_TWO_BYTES :: u16 where "ALARM_TWO_BYTES = 0xFFFE"
definition REPEAT_PREVIOUS_TAG :: bytes where "REPEAT_PREVIOUS_TAG = [0x00]"
definition ONE_BYTE_TAG :: bytes where "ONE_BYTE_TAG = [0x01]"
definition TWO_BYTES_TAG :: bytes where "TWO_BYTES_TAG = [0x02]"
definition LEADING_BY_50_TAG :: bytes where "LEADING_BY_50_TAG = [0x03]"

fun m4_tag :: "m4_ack_bundles \<Rightarrow> bytes" where
  "m4_tag RepeatPrevious = REPEAT_PREVIOUS_TAG"
| "m4_tag (OneByte _) = ONE_BYTE_TAG"
| "m4_tag (TwoBytes _) = TWO_BYTES_TAG"
| "m4_tag LeadingBy50 = LEADING_BY_50_TAG"

definition m4_parse :: "bytes \<Rightarrow> m4_ack_bundles presult" where
  "m4_parse input =
     (case p_alt_tags [REPEAT_PREVIOUS_TAG, ONE_BYTE_TAG, TWO_BYTES_TAG, LEADING_BY_50_TAG] input of
        Inl e \<Rightarrow> Inl e
      | Inr (input, tag) \<Rightarrow>
          if tag = REPEAT_PREVIOUS_TAG then
            (case p_eof input of Inl e \<Rightarrow> Inl e | Inr (input, _) \<Rightarrow> Inr (input, RepeatPrevious))
          else if tag = ONE_BYTE_TAG then
            (case p_rest input of Inl e \<Rightarrow> Inl e | Inr (input, vs) \<Rightarrow> Inr (input, OneByte vs))
          else if tag = TWO_BYTES_TAG then
            (case p_many0_take2 input of (input, ps) \<Rightarrow>
               (case p_eof input of
                  Inl e \<Rightarrow> Inl e
                | Inr (input, _) \<Rightarrow>
                    Inr (input, TwoBytes (map (\<lambda>(lo, hi). u16_from_le_bytes lo hi) ps))))
          else if tag = LEADING_BY_50_TAG then
            (case p_eof input of Inl e \<Rightarrow> Inl e | Inr (input, _) \<Rightarrow> Inr (input, LeadingBy50))
          else Inl (NomError KFail))"

definition MAX_ONE_BYTE_UPVOTE :: u16 where
  "MAX_ONE_BYTE_UPVOTE = ucast ALARM_ONE_BYTE - 1"

fun vote_two_bytes :: "withdrawal_bundle_vote \<Rightarrow> u16" where
  "vote_two_bytes Abstain = ABSTAIN_TWO_BYTES"
| "vote_two_bytes Alarm = ALARM_TWO_BYTES"
| "vote_two_bytes (Upvote index) = index"

fun vote_one_byte :: "withdrawal_bundle_vote \<Rightarrow> u8" where
  "vote_one_byte Abstain = ABSTAIN_ONE_BYTE"
| "vote_one_byte Alarm = ALARM_ONE_BYTE"
| "vote_one_byte (Upvote index) = ucast index"

fun needs_two_bytes :: "withdrawal_bundle_vote \<Rightarrow> bool" where
  "needs_two_bytes (Upvote index) = (index > MAX_ONE_BYTE_UPVOTE)"
| "needs_two_bytes _ = False"

definition from_votes :: "withdrawal_bundle_vote list \<Rightarrow> m4_ack_bundles" where
  "from_votes votes =
     (if list_ex needs_two_bytes votes then TwoBytes (map vote_two_bytes votes)
      else OneByte (map vote_one_byte votes))"

fun m4_upvotes :: "m4_ack_bundles \<Rightarrow> bytes" where
  "m4_upvotes (OneByte upvotes) = upvotes"
| "m4_upvotes (TwoBytes upvotes) = concat (map u16_to_le_bytes upvotes)"
| "m4_upvotes _ = []"

definition m4_message :: "m4_ack_bundles \<Rightarrow> bytes" where
  "m4_message m4 = M4_TAG @ m4_tag m4 @ m4_upvotes m4"

definition m4_to_script :: "btc \<Rightarrow> m4_ack_bundles \<Rightarrow> push_bytes_error + bytes" where
  "m4_to_script B m4 = op_return_of B (m4_message m4)"

section \<open>M7\<close>

definition parse_bmm_commitment :: "bytes \<Rightarrow> bmm_commitment presult" where
  "parse_bmm_commitment input = p_take 32 input"

record m7_bmm_accept =
  m7_sidechain_number :: sidechain_number
  m7_sidechain_block_hash :: bmm_commitment

definition M7_TAG :: bytes where "M7_TAG = [0xD1, 0x61, 0x73, 0x68]"

definition m7_parse :: "bytes \<Rightarrow> m7_bmm_accept presult" where
  "m7_parse input =
     (case p_take 1 input of
        Inl e \<Rightarrow> Inl e
      | Inr (input, n) \<Rightarrow>
          (case parse_bmm_commitment input of
             Inl e \<Rightarrow> Inl e
           | Inr (input, h) \<Rightarrow>
               (case p_eof input of
                  Inl e \<Rightarrow> Inl e
                | Inr (input, _) \<Rightarrow>
                    Inr (input, \<lparr>m7_sidechain_number = n ! 0, m7_sidechain_block_hash = h\<rparr>))))"

definition m7_message :: "m7_bmm_accept \<Rightarrow> bytes" where
  "m7_message m7 = M7_TAG @ [m7_sidechain_number m7] @ m7_sidechain_block_hash m7"

definition m7_to_script :: "btc \<Rightarrow> m7_bmm_accept \<Rightarrow> push_bytes_error + bytes" where
  "m7_to_script B m7 = op_return_of B (m7_message m7)"

section \<open>Coinbase messages\<close>

datatype coinbase_message =
    M1ProposeSidechain m1_propose_sidechain
  | M2AckSidechain m2_ack_sidechain
  | M3ProposeBundle m3_propose_bundle
  | M4AckBundles m4_ack_bundles
  | M7BmmAccept m7_bmm_accept

definition p_map :: "('a \<Rightarrow> 'b) \<Rightarrow> 'a presult \<Rightarrow> 'b presult" where
  "p_map f r = (case r of Inl e \<Rightarrow> Inl e | Inr (input, a) \<Rightarrow> Inr (input, f a))"

text \<open>The dispatch on the tag of the message, after the script is taken apart.\<close>

definition parse_message :: "bytes \<Rightarrow> coinbase_message presult" where
  "parse_message input =
     (case p_alt_tags [M1_TAG, M2_TAG, M3_TAG, M4_TAG, M7_TAG] input of
        Inl e \<Rightarrow> Inl e
      | Inr (input, tag) \<Rightarrow>
          if tag = M1_TAG then p_map M1ProposeSidechain (m1_parse input)
          else if tag = M2_TAG then p_map M2AckSidechain (m2_parse input)
          else if tag = M3_TAG then p_map M3ProposeBundle (m3_parse input)
          else if tag = M4_TAG then p_map M4AckBundles (m4_parse input)
          else if tag = M7_TAG then p_map M7BmmAccept (m7_parse input)
          else Inl (NomError KFail))"

definition coinbase_message_parse :: "btc \<Rightarrow> bytes \<Rightarrow> coinbase_message presult" where
  "coinbase_message_parse B script =
     (case b_instructions B script of
        IOk (Op op) # items \<Rightarrow>
          if op \<noteq> OP_RETURN then Inl (NomFailure KFail)
          else (case items of
            IOk (PushBytes data) # items \<Rightarrow>
              if items \<noteq> [] then Inl (NomFailure KFail) else parse_message data
          | _ \<Rightarrow> Inl (NomFailure KFail))
      | _ \<Rightarrow> Inl (NomFailure KFail))"

fun coinbase_message_to_script :: "btc \<Rightarrow> coinbase_message \<Rightarrow> push_bytes_error + bytes" where
  "coinbase_message_to_script B (M1ProposeSidechain m1) = m1_to_script B m1"
| "coinbase_message_to_script B (M2AckSidechain m2) = m2_to_script B m2"
| "coinbase_message_to_script B (M3ProposeBundle m3) = m3_to_script B m3"
| "coinbase_message_to_script B (M4AckBundles m4) = m4_to_script B m4"
| "coinbase_message_to_script B (M7BmmAccept m7) = m7_to_script B m7"

datatype coinbase_messages_error =
    MultipleM1 nat
  | DuplicateM2 nat sidechain_number
  | MultipleM3 nat
  | DuplicateM4 nat
  | DuplicateM7 nat sidechain_number

record coinbase_messages =
  cm_messages :: "(coinbase_message \<times> nat) list"
  m1_index :: "nat option"
  m2_ack_slot_to_index :: "sidechain_number \<Rightarrow> nat option"
  m3_index :: "nat option"
  m4_index :: "nat option"
  m7_slot_to_commitment_index :: "sidechain_number \<Rightarrow> (bmm_commitment \<times> nat) option"

definition coinbase_messages_default :: coinbase_messages where
  "coinbase_messages_default = \<lparr>cm_messages = [], m1_index = None,
     m2_ack_slot_to_index = (\<lambda>_. None), m3_index = None, m4_index = None,
     m7_slot_to_commitment_index = (\<lambda>_. None)\<rparr>"

definition m2_ack_slot_vout :: "coinbase_messages \<Rightarrow> sidechain_number \<Rightarrow> nat option" where
  "m2_ack_slot_vout cm slot = m2_ack_slot_to_index cm slot"

definition m2_ack_slots :: "coinbase_messages \<Rightarrow> sidechain_number set" where
  "m2_ack_slots cm = {n. m2_ack_slot_to_index cm n \<noteq> None}"

definition m3_exists :: "coinbase_messages \<Rightarrow> bool" where
  "m3_exists cm = (m3_index cm \<noteq> None)"

definition m4_exists :: "coinbase_messages \<Rightarrow> bool" where
  "m4_exists cm = (m4_index cm \<noteq> None)"

definition m7_bmm_accept_slot_vout :: "coinbase_messages \<Rightarrow> sidechain_number \<Rightarrow> nat option" where
  "m7_bmm_accept_slot_vout cm slot = map_option snd (m7_slot_to_commitment_index cm slot)"

definition m7_bmm_accepts :: "coinbase_messages \<Rightarrow> sidechain_number \<Rightarrow> bmm_commitment option" where
  "m7_bmm_accepts cm n = map_option fst (m7_slot_to_commitment_index cm n)"

definition cm_append :: "coinbase_messages \<Rightarrow> coinbase_message \<Rightarrow> nat \<Rightarrow> coinbase_messages" where
  "cm_append cm msg vout = cm\<lparr>cm_messages := cm_messages cm @ [(msg, vout)]\<rparr>"

fun push :: "coinbase_messages \<Rightarrow> coinbase_message \<Rightarrow> nat \<Rightarrow>
    coinbase_messages_error + coinbase_messages" where
  "push cm (M1ProposeSidechain m1) vout =
     (case m1_index cm of
        Some first_index \<Rightarrow> Inl (MultipleM1 first_index)
      | None \<Rightarrow> Inr (cm_append (cm\<lparr>m1_index := Some vout\<rparr>) (M1ProposeSidechain m1) vout))"
| "push cm (M2AckSidechain m2) vout =
     (case m2_ack_slot_to_index cm (m2_sidechain_number m2) of
        Some index \<Rightarrow> Inl (DuplicateM2 index (m2_sidechain_number m2))
      | None \<Rightarrow>
          Inr (cm_append (cm\<lparr>m2_ack_slot_to_index :=
            (m2_ack_slot_to_index cm)(m2_sidechain_number m2 := Some vout)\<rparr>)
            (M2AckSidechain m2) vout))"
| "push cm (M4AckBundles m4) vout =
     (case m4_index cm of
        Some index \<Rightarrow> Inl (DuplicateM4 index)
      | None \<Rightarrow> Inr (cm_append (cm\<lparr>m4_index := Some vout\<rparr>) (M4AckBundles m4) vout))"
| "push cm (M7BmmAccept m7) vout =
     (case m7_slot_to_commitment_index cm (m7_sidechain_number m7) of
        Some (_, index) \<Rightarrow> Inl (DuplicateM7 index (m7_sidechain_number m7))
      | None \<Rightarrow>
          Inr (cm_append (cm\<lparr>m7_slot_to_commitment_index :=
            (m7_slot_to_commitment_index cm)
              (m7_sidechain_number m7 := Some (m7_sidechain_block_hash m7, vout))\<rparr>)
            (M7BmmAccept m7) vout))"
| "push cm (M3ProposeBundle m3) vout =
     (case m3_index cm of
        Some index \<Rightarrow> Inl (MultipleM3 index)
      | None \<Rightarrow> Inr (cm_append (cm\<lparr>m3_index := Some vout\<rparr>) (M3ProposeBundle m3) vout))"

text \<open>\<open>CoinbaseMessages::new\<close>: the loop over the enumerated outputs; outputs that do not
  parse are skipped.\<close>

fun new_loop :: "btc \<Rightarrow> nat \<Rightarrow> txout list \<Rightarrow> coinbase_messages \<Rightarrow>
    coinbase_messages_error + coinbase_messages" where
  "new_loop B vout [] this = Inr this"
| "new_loop B vout (output # outputs) this =
     (case coinbase_message_parse B (to_script_pubkey output) of
        Inl _ \<Rightarrow> new_loop B (Suc vout) outputs this
      | Inr (_, message) \<Rightarrow>
          (case push this message vout of
             Inl e \<Rightarrow> Inl e
           | Inr this \<Rightarrow> new_loop B (Suc vout) outputs this))"

definition coinbase_messages_new :: "btc \<Rightarrow> txout list \<Rightarrow> coinbase_messages_error + coinbase_messages" where
  "coinbase_messages_new B coinbase_txouts =
     new_loop B 0 coinbase_txouts coinbase_messages_default"

section \<open>Building a coinbase\<close>

record coinbase_builder =
  cb_coinbase_txouts :: "txout list"
  cb_messages :: coinbase_messages

definition coinbase_builder_new :: "btc \<Rightarrow> txout list \<Rightarrow> coinbase_messages_error + coinbase_builder" where
  "coinbase_builder_new B txouts =
     (case coinbase_messages_new B txouts of
        Inl e \<Rightarrow> Inl e
      | Inr cm \<Rightarrow> Inr \<lparr>cb_coinbase_txouts = txouts, cb_messages = cm\<rparr>)"

text \<open>\<open>map\<close> into \<open>Result\<close> followed by \<open>collect\<close>: the first error, or all outputs.\<close>

fun collect_outputs :: "btc \<Rightarrow> coinbase_message list \<Rightarrow> push_bytes_error + txout list" where
  "collect_outputs B [] = Inr []"
| "collect_outputs B (m # ms) =
     (case coinbase_message_to_script B m of
        Inl e \<Rightarrow> Inl e
      | Inr spk \<Rightarrow>
          (case collect_outputs B ms of
             Inl e \<Rightarrow> Inl e
           | Inr outs \<Rightarrow> Inr (\<lparr>to_value = 0, to_script_pubkey = spk\<rparr> # outs)))"

definition build_extension :: "btc \<Rightarrow> coinbase_builder \<Rightarrow> push_bytes_error + txout list" where
  "build_extension B cb =
     collect_outputs B
       (map fst (dropWhile (\<lambda>(_, vout). vout < length (cb_coinbase_txouts cb))
         (cm_messages (cb_messages cb))))"

definition build :: "btc \<Rightarrow> coinbase_builder \<Rightarrow> push_bytes_error + txout list" where
  "build B cb =
     (case build_extension B cb of
        Inl e \<Rightarrow> Inl e
      | Inr extension \<Rightarrow> Inr (cb_coinbase_txouts cb @ extension))"

definition next_vout_index :: "coinbase_builder \<Rightarrow> nat" where
  "next_vout_index cb =
     (case cm_messages (cb_messages cb) of
        [] \<Rightarrow> length (cb_coinbase_txouts cb)
      | ms \<Rightarrow> max (length (cb_coinbase_txouts cb)) (snd (last ms) + 1))"

definition builder_push ::
    "coinbase_builder \<Rightarrow> coinbase_message \<Rightarrow> coinbase_messages_error + coinbase_builder" where
  "builder_push cb message =
     (case push (cb_messages cb) message (next_vout_index cb) of
        Inl e \<Rightarrow> Inl e
      | Inr cm \<Rightarrow> Inr (cb\<lparr>cb_messages := cm\<rparr>))"

definition propose_sidechain ::
    "coinbase_builder \<Rightarrow> sidechain_proposal \<Rightarrow> coinbase_messages_error + coinbase_builder" where
  "propose_sidechain cb p =
     builder_push cb (M1ProposeSidechain \<lparr>m1_sidechain_number = prop_sidechain_number p,
       m1_description = prop_description p\<rparr>)"

definition ack_sidechain ::
    "coinbase_builder \<Rightarrow> sidechain_number \<Rightarrow> hash256 \<Rightarrow> coinbase_messages_error + coinbase_builder" where
  "ack_sidechain cb n h =
     builder_push cb (M2AckSidechain \<lparr>m2_sidechain_number = n, m2_description_hash = h\<rparr>)"

definition propose_bundle ::
    "coinbase_builder \<Rightarrow> sidechain_number \<Rightarrow> m6id \<Rightarrow> coinbase_messages_error + coinbase_builder" where
  "propose_bundle cb n m =
     builder_push cb (M3ProposeBundle \<lparr>m3_sidechain_number = n, m3_bundle_txid = m\<rparr>)"

definition ack_bundles ::
    "coinbase_builder \<Rightarrow> m4_ack_bundles \<Rightarrow> coinbase_messages_error + coinbase_builder" where
  "ack_bundles cb m4 = builder_push cb (M4AckBundles m4)"

definition bmm_accept ::
    "coinbase_builder \<Rightarrow> sidechain_number \<Rightarrow> bmm_commitment \<Rightarrow>
     coinbase_messages_error + coinbase_builder" where
  "bmm_accept cb n h =
     builder_push cb (M7BmmAccept \<lparr>m7_sidechain_number = n, m7_sidechain_block_hash = h\<rparr>)"

section \<open>M8\<close>

record m8_bmm_request =
  m8_sidechain_number :: sidechain_number
  m8_sidechain_block_hash :: bmm_commitment
  m8_prev_mainchain_block_hash :: blockhash

definition M8_TAG :: bytes where "M8_TAG = [0x00, 0xBF, 0x00]"

definition m8_data ::
    "sidechain_number \<Rightarrow> bmm_commitment \<Rightarrow> blockhash \<Rightarrow> push_bytes_error + bytes" where
  "m8_data n h p = push_bytes_try_from (M8_TAG @ [n] @ h @ p)"

definition m8_script_pubkey ::
    "btc \<Rightarrow> sidechain_number \<Rightarrow> bmm_commitment \<Rightarrow> blockhash \<Rightarrow> push_bytes_error + bytes" where
  "m8_script_pubkey B n h p =
     (case m8_data n h p of Inl e \<Rightarrow> Inl e | Inr d \<Rightarrow> Inr (b_new_op_return B d))"

definition M8_BMM_REQUEST_LENGTH :: u8 where
  "M8_BMM_REQUEST_LENGTH = 3 + 1 + 32 + 32"

definition m8_parse :: "bytes \<Rightarrow> m8_bmm_request presult" where
  "m8_parse input =
     (case p_tag [OP_RETURN, M8_BMM_REQUEST_LENGTH] input of
        Inl e \<Rightarrow> Inl e
      | Inr (input, _) \<Rightarrow>
     (case p_tag M8_TAG input of
        Inl e \<Rightarrow> Inl e
      | Inr (input, _) \<Rightarrow>
     (case p_take 1 input of
        Inl e \<Rightarrow> Inl e
      | Inr (input, n) \<Rightarrow>
     (case parse_bmm_commitment input of
        Inl e \<Rightarrow> Inl e
      | Inr (input, h) \<Rightarrow>
     (case p_take 32 input of
        Inl e \<Rightarrow> Inl e
      | Inr (input, p) \<Rightarrow>
     (case p_eof input of
        Inl e \<Rightarrow> Inl e
      | Inr (input, _) \<Rightarrow>
          Inr (input, \<lparr>m8_sidechain_number = n ! 0, m8_sidechain_block_hash = h,
            m8_prev_mainchain_block_hash = p\<rparr>)))))))"

definition parse_m8_tx :: "transaction \<Rightarrow> m8_bmm_request option" where
  "parse_m8_tx tx =
     (case tx_output tx of
        [] \<Rightarrow> None
      | output # _ \<Rightarrow>
          (case m8_parse (to_script_pubkey output) of Inr (_, r) \<Rightarrow> Some r | Inl _ \<Rightarrow> None))"

definition try_parse_op_return_address :: "btc \<Rightarrow> bytes \<Rightarrow> bytes option" where
  "try_parse_op_return_address B script =
     (case b_instructions B script of
        [IOk (Op op), IOk (PushBytes address)] \<Rightarrow>
          if op = OP_RETURN then Some address else None
      | _ \<Rightarrow> None)"

section \<open>Treasury outputs and M6 ids\<close>

definition drivechain_parse :: "op_drivechain \<Rightarrow> bytes \<Rightarrow> sidechain_number presult" where
  "drivechain_parse od input =
     (case p_tag [opcode od, OP_PUSHBYTES_1] input of
        Inl e \<Rightarrow> Inl e
      | Inr (input, _) \<Rightarrow>
     (case p_take 1 input of
        Inl e \<Rightarrow> Inl e
      | Inr (input, n) \<Rightarrow>
     (case p_tag [OP_TRUE] input of
        Inl e \<Rightarrow> Inl e
      | Inr (input, _) \<Rightarrow>
     (case p_eof input of
        Inl e \<Rightarrow> Inl e
      | Inr (input, _) \<Rightarrow> Inr (input, n ! 0)))))"

definition create_m5_deposit_output ::
    "op_drivechain \<Rightarrow> sidechain_number \<Rightarrow> amount \<Rightarrow> txout" where
  "create_m5_deposit_output od n deposit_amount =
     \<lparr>to_value = deposit_amount, to_script_pubkey = drivechain_script od n\<rparr>"

definition create_op_return_output :: "btc \<Rightarrow> bytes \<Rightarrow> push_bytes_error + txout" where
  "create_op_return_output B msg =
     (case op_return_of B msg of
        Inl e \<Rightarrow> Inl e
      | Inr spk \<Rightarrow> Inr \<lparr>to_value = 0, to_script_pubkey = spk\<rparr>)"

datatype m6id_error =
    InsufficientTreasury u64 u64
  | M6InvalidSpk bytes nom_err
  | MissingTreasuryInputs
  | MissingTreasuryOutput
  | TotalOutputAmountOverflow
  | WithdrawalAmountOverflow

definition compute_m6id ::
    "btc \<Rightarrow> op_drivechain \<Rightarrow> transaction \<Rightarrow> amount \<Rightarrow> m6id_error + m6id \<times> sidechain_number" where
  "compute_m6id B od tx t_n_minus_1 =
     (case tx_output tx of
        [] \<Rightarrow> Inl MissingTreasuryOutput
      | first_output # payout_outputs \<Rightarrow>
     (case drivechain_parse od (to_script_pubkey first_output) of
        Inl e \<Rightarrow> Inl (M6InvalidSpk (to_script_pubkey first_output) e)
      | Inr (_, n) \<Rightarrow>
     (if tx_input tx = [] then Inl MissingTreasuryInputs
      else
     (case checked_sum (map to_value payout_outputs) of
        None \<Rightarrow> Inl WithdrawalAmountOverflow
      | Some p_total \<Rightarrow>
     (case checked_add (to_value first_output) p_total of
        None \<Rightarrow> Inl TotalOutputAmountOverflow
      | Some total_output_amount \<Rightarrow>
     (case checked_sub t_n_minus_1 total_output_amount of
        None \<Rightarrow> Inl (InsufficientTreasury total_output_amount t_n_minus_1)
      | Some f_total \<Rightarrow>
          Inr (b_compute_txid B (tx\<lparr>tx_input := [],
                 tx_output := \<lparr>to_value = 0,
                   to_script_pubkey = b_new_op_return B (u64_to_be_bytes f_total)\<rparr>
                   # payout_outputs\<rparr>), n)))))))"

section \<open>Sidechain proposals\<close>

text \<open>\<open>title.len() as u8\<close> keeps the low byte of the length.\<close>

definition create_sidechain_proposal ::
    "btc \<Rightarrow> sidechain_number \<Rightarrow> sidechain_declaration \<Rightarrow>
     push_bytes_error + txout \<times> sidechain_description" where
  "create_sidechain_proposal B n declaration =
     (let description = [0] @ [of_nat (length (decl_title declaration))] @ decl_title declaration
            @ decl_description declaration @ hash_id_1 declaration @ hash_id_2 declaration
      in case m1_to_script B \<lparr>m1_sidechain_number = n, m1_description = description\<rparr> of
           Inl e \<Rightarrow> Inl e
         | Inr spk \<Rightarrow> Inr (\<lparr>to_value = 0, to_script_pubkey = spk\<rparr>, description))"

section \<open>Round trips of the messages\<close>

text \<open>Well-formed messages carry 32-byte hashes; \<open>msg_bytes\<close> is the data push of a message.\<close>

fun msg_wf :: "coinbase_message \<Rightarrow> bool" where
  "msg_wf (M1ProposeSidechain _) = True"
| "msg_wf (M2AckSidechain m2) = (length (m2_description_hash m2) = 32)"
| "msg_wf (M3ProposeBundle m3) = (length (m3_bundle_txid m3) = 32)"
| "msg_wf (M4AckBundles _) = True"
| "msg_wf (M7BmmAccept m7) = (length (m7_sidechain_block_hash m7) = 32)"

fun msg_bytes :: "coinbase_message \<Rightarrow> bytes" where
  "msg_bytes (M1ProposeSidechain m1) = m1_message m1"
| "msg_bytes (M2AckSidechain m2) = m2_message m2"
| "msg_bytes (M3ProposeBundle m3) = m3_message m3"
| "msg_bytes (M4AckBundles m4) = m4_message m4"
| "msg_bytes (M7BmmAccept m7) = m7_message m7"

named_theorems tag_defs \<open>the message tags\<close>

lemmas message_tags [tag_defs] =
  M1_TAG_def M2_TAG_def M3_TAG_def M4_TAG_def M7_TAG_def
  REPEAT_PREVIOUS_TAG_def ONE_BYTE_TAG_def TWO_BYTES_TAG_def LEADING_BY_50_TAG_def

lemma to_script_msg_bytes:
  "coinbase_message_to_script B m = op_return_of B (msg_bytes m)"
  by (cases m) (simp_all add: m1_to_script_def m2_to_script_def m3_to_script_def
      m4_to_script_def m7_to_script_def)

lemma m4_parse_message: "m4_parse (m4_tag m4 @ m4_upvotes m4) = Inr ([], m4)"
  by (cases m4)
    (simp_all add: m4_parse_def tag_defs p_tag_def p_rest_def p_eof_def p_many0_take2_flat
      byte_simps comp_def)

lemma slot_hash_parse:
  "length h = 32 \<Longrightarrow> p_take 1 (n # h) = Inr (h, [n]) \<and> p_take 32 h = Inr ([], h)"
  by (simp add: p_take_def)

lemma parse_message_bytes:
  assumes "msg_wf m"
  shows "parse_message (msg_bytes m) = Inr ([], m)"
proof (cases m)
  case (M1ProposeSidechain m1)
  then show ?thesis
    by (simp add: parse_message_def m1_message_def m1_parse_def tag_defs p_tag_def p_rest_def
        p_map_def p_take_def)
next
  case (M2AckSidechain m2)
  then show ?thesis using assms slot_hash_parse [of "m2_description_hash m2"]
    by (simp add: parse_message_def m2_message_def m2_parse_def tag_defs p_tag_def p_eof_def p_map_def)
next
  case (M3ProposeBundle m3)
  then show ?thesis using assms slot_hash_parse [of "m3_bundle_txid m3"]
    by (simp add: parse_message_def m3_message_def m3_parse_def tag_defs p_tag_def p_eof_def p_map_def)
next
  case (M4AckBundles m4)
  then show ?thesis using m4_parse_message [of m4]
    by (simp add: parse_message_def m4_message_def p_map_def M1_TAG_def M2_TAG_def M3_TAG_def
        M4_TAG_def M7_TAG_def p_tag_def)
next
  case (M7BmmAccept m7)
  then show ?thesis using assms slot_hash_parse [of "m7_sidechain_block_hash m7"]
    by (simp add: parse_message_def m7_message_def m7_parse_def parse_bmm_commitment_def tag_defs
        p_tag_def p_eof_def p_map_def)
qed

lemma p_take_1_cases:
  "p_take (Suc 0) xs = Inr (r, a) \<Longrightarrow> \<exists>x. a = [x] \<and> xs = x # r"
  by (cases xs) (auto simp: p_take_def)

lemma m1_parse_sound:
  "m1_parse d = Inr (r, m) \<Longrightarrow> r = [] \<and> d = m1_sidechain_number m # m1_description m"
  by (auto simp: m1_parse_def p_rest_def split: sum.splits dest!: p_take_1_cases)

lemma m2_parse_sound:
  "m2_parse d = Inr (r, m) \<Longrightarrow> r = [] \<and> d = m2_sidechain_number m # m2_description_hash m \<and>
     length (m2_description_hash m) = 32"
  by (auto simp: m2_parse_def length_Suc_conv split: sum.splits
      dest!: p_eof_InrD p_take_InrD)

lemma m3_parse_sound:
  "m3_parse d = Inr (r, m) \<Longrightarrow> r = [] \<and> d = m3_sidechain_number m # m3_bundle_txid m \<and>
     length (m3_bundle_txid m) = 32"
  by (auto simp: m3_parse_def length_Suc_conv split: sum.splits
      dest!: p_eof_InrD p_take_InrD)

lemma m7_parse_sound:
  "m7_parse d = Inr (r, m) \<Longrightarrow> r = [] \<and> d = m7_sidechain_number m # m7_sidechain_block_hash m \<and>
     length (m7_sidechain_block_hash m) = 32"
  by (auto simp: m7_parse_def parse_bmm_commitment_def length_Suc_conv split: sum.splits
      dest!: p_eof_InrD p_take_InrD)

lemma concat_le_bytes:
  "concat (map (u16_to_le_bytes \<circ> (\<lambda>(lo, hi). u16_from_le_bytes lo hi)) ps) =
     concat (map (\<lambda>(a, b). [a, b]) ps)"
  by (induction ps) (auto simp: byte_simps)

lemma m4_parse_sound:
  assumes "m4_parse d = Inr (r, m)"
  shows "r = [] \<and> d = m4_tag m @ m4_upvotes m"
proof -
  obtain i t where alt:
    "p_alt_tags [REPEAT_PREVIOUS_TAG, ONE_BYTE_TAG, TWO_BYTES_TAG, LEADING_BY_50_TAG] d = Inr (i, t)"
    using assms by (cases "p_alt_tags [REPEAT_PREVIOUS_TAG, ONE_BYTE_TAG, TWO_BYTES_TAG,
      LEADING_BY_50_TAG] d") (auto simp: m4_parse_def simp del: p_alt_tags.simps)
  then have d: "d = t @ i" using p_alt_tags_InrD by blast
  show ?thesis
    using assms unfolding m4_parse_def alt
    by (auto simp: d p_rest_def concat_le_bytes split: sum.splits if_splits prod.splits
        dest!: p_eof_InrD p_many0_take2_inv)
qed

lemma p_map_Inr: "p_map f x = Inr (r, m) \<longleftrightarrow> (\<exists>a. x = Inr (r, a) \<and> m = f a)"
  by (auto simp: p_map_def split: sum.splits)

lemma parse_message_sound:
  assumes "parse_message d = Inr (r, m)"
  shows "r = [] \<and> msg_wf m \<and> d = msg_bytes m"
proof -
  obtain i t where alt: "p_alt_tags [M1_TAG, M2_TAG, M3_TAG, M4_TAG, M7_TAG] d = Inr (i, t)"
    using assms by (auto simp: parse_message_def split: sum.splits)
  then have d: "d = t @ i" using p_alt_tags_InrD by blast
  show ?thesis
    using assms unfolding parse_message_def alt
    by (auto simp: d p_map_Inr m1_message_def m2_message_def m3_message_def m4_message_def
        m7_message_def split: if_splits
        dest!: m1_parse_sound m2_parse_sound m3_parse_sound m4_parse_sound m7_parse_sound)
qed

lemma coinbase_parse_Inr:
  "coinbase_message_parse B s = Inr (r, m) \<longleftrightarrow>
     (\<exists>d. b_instructions B s = [IOk (Op OP_RETURN), IOk (PushBytes d)] \<and>
        parse_message d = Inr (r, m))"
  by (auto simp: coinbase_message_parse_def
      split: list.splits script_item.splits instruction.splits if_splits)

section \<open>Which lists of coinbase messages are accepted\<close>

text \<open>
  The specification of \<open>CoinbaseMessages\<close>: a coinbase carries at most one M1, one M3 and one
  M4, and at most one M2 and one M7 per sidechain slot. That is, the keys of its messages are
  distinct.
\<close>

datatype msg_slot_key = KM1 | KM2 sidechain_number | KM3 | KM4 | KM7 sidechain_number

fun msg_key :: "coinbase_message \<Rightarrow> msg_slot_key" where
  "msg_key (M1ProposeSidechain _) = KM1"
| "msg_key (M2AckSidechain m2) = KM2 (m2_sidechain_number m2)"
| "msg_key (M3ProposeBundle _) = KM3"
| "msg_key (M4AckBundles _) = KM4"
| "msg_key (M7BmmAccept m7) = KM7 (m7_sidechain_number m7)"

definition msgs_allowed :: "coinbase_message list \<Rightarrow> bool" where
  "msgs_allowed ms = distinct (map msg_key ms)"

fun cm_index :: "coinbase_messages \<Rightarrow> msg_slot_key \<Rightarrow> nat option" where
  "cm_index cm KM1 = m1_index cm"
| "cm_index cm (KM2 n) = m2_ack_slot_to_index cm n"
| "cm_index cm KM3 = m3_index cm"
| "cm_index cm KM4 = m4_index cm"
| "cm_index cm (KM7 n) = map_option snd (m7_slot_to_commitment_index cm n)"

text \<open>The index fields agree with the list of messages.\<close>

definition cm_wf :: "coinbase_messages \<Rightarrow> bool" where
  "cm_wf cm \<longleftrightarrow>
     msgs_allowed (map fst (cm_messages cm)) \<and>
     (\<forall>k. cm_index cm k = map_of (map (\<lambda>(m, v). (msg_key m, v)) (cm_messages cm)) k)"

lemma cm_wf_default: "cm_wf coinbase_messages_default"
proof -
  have "cm_index coinbase_messages_default k = None" for k
    by (cases k) (simp_all add: coinbase_messages_default_def)
  then show ?thesis by (simp add: cm_wf_def msgs_allowed_def coinbase_messages_default_def)
qed

lemma push_Inr:
  assumes "push cm m v = Inr cm'"
  shows "cm_messages cm' = cm_messages cm @ [(m, v)]" "cm_index cm (msg_key m) = None"
    "cm_index cm' k = (if k = msg_key m then Some v else cm_index cm k)"
  using assms by (cases m; cases k; force simp: cm_append_def split: option.splits prod.splits)+

lemma push_Inl_iff: "(\<exists>e. push cm m v = Inl e) \<longleftrightarrow> cm_index cm (msg_key m) \<noteq> None"
  by (cases m) (auto split: option.splits prod.splits)

lemma cm_wf_index_None:
  "cm_wf cm \<Longrightarrow> cm_index cm k = None \<longleftrightarrow> k \<notin> msg_key ` set (map fst (cm_messages cm))"
  by (force simp: cm_wf_def map_of_eq_None_iff)

lemma push_wf:
  assumes "cm_wf cm" "push cm m v = Inr cm'"
  shows "cm_wf cm'"
proof -
  let ?l = "\<lambda>ms. map (\<lambda>(m, v). (msg_key m, v)) ms"
  have new: "msg_key m \<notin> msg_key ` set (map fst (cm_messages cm))"
    using cm_wf_index_None [OF assms(1)] push_Inr(2) [OF assms(2)] by simp
  have none: "map_of (?l (cm_messages cm)) (msg_key m) = None"
    using assms(1) push_Inr(2) [OF assms(2)] by (simp add: cm_wf_def)
  have "cm_index cm' k = map_of (?l (cm_messages cm')) k" for k
  proof (cases "k = msg_key m")
    case True
    then show ?thesis using none push_Inr [OF assms(2)] by (simp add: map_add_def)
  next
    case False
    then show ?thesis using assms(1) push_Inr [OF assms(2)]
      by (simp add: cm_wf_def map_add_def split: option.splits)
  qed
  moreover have "msgs_allowed (map fst (cm_messages cm'))"
    using assms(1) new push_Inr(1) [OF assms(2)]
    by (auto simp: cm_wf_def msgs_allowed_def)
  ultimately show ?thesis by (simp add: cm_wf_def)
qed

lemma push_accepts_iff:
  assumes "cm_wf cm"
  shows "(\<exists>cm'. push cm m v = Inr cm') \<longleftrightarrow> msgs_allowed (map fst (cm_messages cm) @ [m])"
proof -
  have "(\<exists>cm'. push cm m v = Inr cm') \<longleftrightarrow> \<not> (\<exists>e. push cm m v = Inl e)"
    by (cases "push cm m v") auto
  also have "\<dots> \<longleftrightarrow> msg_key m \<notin> msg_key ` set (map fst (cm_messages cm))"
    by (simp only: push_Inl_iff not_not cm_wf_index_None [OF assms])
  finally show ?thesis using assms by (auto simp: cm_wf_def msgs_allowed_def)
qed

text \<open>The messages of a list of outputs, with their output indices.\<close>

fun parsed_messages :: "btc \<Rightarrow> nat \<Rightarrow> txout list \<Rightarrow> (coinbase_message \<times> nat) list" where
  "parsed_messages B vout [] = []"
| "parsed_messages B vout (output # outputs) =
     (case coinbase_message_parse B (to_script_pubkey output) of
        Inl _ \<Rightarrow> parsed_messages B (Suc vout) outputs
      | Inr (_, m) \<Rightarrow> (m, vout) # parsed_messages B (Suc vout) outputs)"

lemma new_loop_Inr:
  "new_loop B v outs this = Inr cm \<Longrightarrow> cm_wf this \<Longrightarrow>
     cm_wf cm \<and> cm_messages cm = cm_messages this @ parsed_messages B v outs"
proof (induction B v outs this rule: new_loop.induct)
  case (2 B vout outp outputs this)
  then show ?case
    by (auto split: sum.splits prod.splits simp: push_Inr(1) dest: push_wf)
qed simp

lemma new_loop_complete:
  "cm_wf this \<Longrightarrow> msgs_allowed (map fst (cm_messages this @ parsed_messages B v outs)) \<Longrightarrow>
     \<exists>cm. new_loop B v outs this = Inr cm"
proof (induction B v outs this rule: new_loop.induct)
  case (2 B vout outp outputs this)
  show ?case
  proof (cases "coinbase_message_parse B (to_script_pubkey outp)")
    case (Inl a)
    with 2 show ?thesis by simp
  next
    case (Inr p)
    obtain r m where p: "p = (r, m)" by (cases p)
    have "msgs_allowed (map fst (cm_messages this) @ [m])"
      using 2(4) Inr p by (auto simp: msgs_allowed_def)
    then obtain cm' where cm': "push this m vout = Inr cm'"
      using push_accepts_iff [OF 2(3)] by blast
    show ?thesis
      using 2(2) [OF Inr p [symmetric] cm' push_wf [OF 2(3) cm']] 2(4) Inr p cm' push_Inr(1) [OF cm']
      by simp
  qed
qed simp

lemma coinbase_messages_new_iff:
  "(\<exists>cm. coinbase_messages_new B outs = Inr cm) \<longleftrightarrow>
     msgs_allowed (map fst (parsed_messages B 0 outs))"
proof
  assume "\<exists>cm. coinbase_messages_new B outs = Inr cm"
  then obtain cm where "coinbase_messages_new B outs = Inr cm" by blast
  then have "cm_wf cm" "cm_messages cm = parsed_messages B 0 outs"
    using new_loop_Inr [OF _ cm_wf_default, of B 0 outs cm]
    by (simp_all add: coinbase_messages_new_def coinbase_messages_default_def)
  then show "msgs_allowed (map fst (parsed_messages B 0 outs))"
    by (simp add: cm_wf_def)
next
  assume "msgs_allowed (map fst (parsed_messages B 0 outs))"
  then show "\<exists>cm. coinbase_messages_new B outs = Inr cm"
    using new_loop_complete [OF cm_wf_default, of B 0 outs]
    by (simp add: coinbase_messages_new_def coinbase_messages_default_def)
qed

section \<open>A built coinbase parses back\<close>

text \<open>A run of pushes at consecutive output indices.\<close>

fun push_seq :: "coinbase_messages \<Rightarrow> nat \<Rightarrow> coinbase_message list \<Rightarrow>
    coinbase_messages_error + coinbase_messages" where
  "push_seq cm v [] = Inr cm"
| "push_seq cm v (m # ms) =
     (case push cm m v of Inl e \<Rightarrow> Inl e | Inr cm' \<Rightarrow> push_seq cm' (Suc v) ms)"

text \<open>A sequence of builder calls.\<close>

fun builder_push_all :: "coinbase_builder \<Rightarrow> coinbase_message list \<Rightarrow>
    coinbase_messages_error + coinbase_builder" where
  "builder_push_all cb [] = Inr cb"
| "builder_push_all cb (m # ms) =
     (case builder_push cb m of Inl e \<Rightarrow> Inl e | Inr cb' \<Rightarrow> builder_push_all cb' ms)"

lemma new_loop_append:
  "new_loop B v (xs @ ys) this =
     (case new_loop B v xs this of
        Inl e \<Rightarrow> Inl e
      | Inr cm \<Rightarrow> new_loop B (v + length xs) ys cm)"
  by (induction B v xs this rule: new_loop.induct) (auto split: sum.splits)

lemma parsed_messages_vout:
  "(m, i) \<in> set (parsed_messages B v outs) \<Longrightarrow> i < v + length outs"
  by (induction B v outs rule: parsed_messages.induct) (force split: sum.splits prod.splits)+

lemma coinbase_message_parse_encoded:
  assumes "script_codec (b_instructions B) (b_new_op_return B)"
    and "msg_wf m" "coinbase_message_to_script B m = Inr s"
  shows "coinbase_message_parse B s = Inr ([], m)"
proof -
  have len: "length (msg_bytes m) < 2 ^ 32" and s: "s = b_new_op_return B (msg_bytes m)"
    using assms(3) by (auto simp: to_script_msg_bytes op_return_of_def push_bytes_try_from_def
        split: if_splits)
  show ?thesis
    unfolding coinbase_parse_Inr s
    using script_codec.instructions_op_return [OF assms(1) len] parse_message_bytes [OF assms(2)]
    by blast
qed

lemma new_loop_collected:
  assumes "script_codec (b_instructions B) (b_new_op_return B)"
  shows "\<forall>m\<in>set ms. msg_wf m \<Longrightarrow> collect_outputs B ms = Inr exts \<Longrightarrow>
     new_loop B v exts this = push_seq this v ms"
proof (induction ms arbitrary: exts v this)
  case (Cons m ms)
  then obtain s outs where "coinbase_message_to_script B m = Inr s"
      "collect_outputs B ms = Inr outs" "exts = \<lparr>to_value = 0, to_script_pubkey = s\<rparr> # outs"
    by (auto split: sum.splits)
  with Cons coinbase_message_parse_encoded [OF assms, of m s] show ?case
    by (auto split: sum.splits)
qed simp

text \<open>The state of a builder after pushing \<open>ms\<close> on outputs \<open>outs\<close> whose messages are \<open>base\<close>.\<close>

definition cb_built :: "txout list \<Rightarrow> coinbase_messages \<Rightarrow> coinbase_message list \<Rightarrow>
    coinbase_builder \<Rightarrow> bool" where
  "cb_built outs base ms cb \<longleftrightarrow>
     cb_coinbase_txouts cb = outs \<and>
     push_seq base (length outs) ms = Inr (cb_messages cb) \<and>
     cm_messages (cb_messages cb) =
       cm_messages base @ zip ms [length outs..<length outs + length ms]"

lemma push_seq_snoc:
  "push_seq cm v (ms @ [m]) =
     (case push_seq cm v ms of Inl e \<Rightarrow> Inl e | Inr cm' \<Rightarrow> push cm' m (v + length ms))"
  by (induction ms arbitrary: cm v) (auto split: sum.splits)

lemma next_vout_index_nonempty:
  "cm_messages (cb_messages cb) \<noteq> [] \<Longrightarrow>
     next_vout_index cb =
       max (length (cb_coinbase_txouts cb)) (snd (last (cm_messages (cb_messages cb))) + 1)"
  by (simp add: next_vout_index_def split: list.split)

lemma cb_built_next_vout:
  assumes "cb_built outs base ms cb" "\<forall>(m, v)\<in>set (cm_messages base). v < length outs"
  shows "next_vout_index cb = length outs + length ms"
proof (cases "ms = []")
  case True
  show ?thesis
  proof (cases "cm_messages base = []")
    case False
    then have "snd (last (cm_messages base)) < length outs"
      using assms(2) last_in_set [OF False] by (auto simp: case_prod_beta)
    moreover have "push_seq base (length outs) [] = Inr (cb_messages cb)"
        "cb_coinbase_txouts cb = outs"
      using True assms(1) unfolding cb_built_def by blast+
    ultimately show ?thesis using True False next_vout_index_nonempty [of cb] by simp
  qed (use True assms(1) in \<open>auto simp: next_vout_index_def cb_built_def\<close>)
next
  case False
  then have "snd (last (zip ms [length outs..<length outs + length ms])) = length outs + length ms - 1"
    by (simp add: last_zip)
  with False assms(1) show ?thesis
    by (simp add: next_vout_index_nonempty cb_built_def zip_eq_Nil_iff)
qed

lemma cb_built_push:
  assumes "cb_built outs base ms cb" "\<forall>(m, v)\<in>set (cm_messages base). v < length outs"
    and "builder_push cb m = Inr cb'"
  shows "cb_built outs base (ms @ [m]) cb'"
proof -
  from assms(3) obtain cm where cm: "push (cb_messages cb) m (length outs + length ms) = Inr cm"
    and cb': "cb' = cb\<lparr>cb_messages := cm\<rparr>"
    by (auto simp: builder_push_def cb_built_next_vout [OF assms(1,2)] split: sum.splits)
  show ?thesis
    using assms(1) cm cb' push_Inr(1) [OF cm]
    by (simp add: cb_built_def push_seq_snoc)
qed

lemma cb_built_push_all:
  "\<lbrakk>cb_built outs base ms cb; \<forall>(m, v)\<in>set (cm_messages base). v < length outs;
    builder_push_all cb ms' = Inr cb'\<rbrakk> \<Longrightarrow> cb_built outs base (ms @ ms') cb'"
proof (induction ms' arbitrary: ms cb)
  case (Cons m ms')
  then obtain cb1 where "builder_push cb m = Inr cb1" "builder_push_all cb1 ms' = Inr cb'"
    by (auto split: sum.splits)
  with Cons.IH [of "ms @ [m]" cb1] Cons.prems cb_built_push show ?case by simp
qed simp

lemma built_extension:
  assumes "cb_built outs base ms cb" "\<forall>(m, v)\<in>set (cm_messages base). v < length outs"
  shows "build_extension B cb = collect_outputs B ms"
proof -
  let ?p = "\<lambda>(_ :: coinbase_message, vout). vout < length outs"
  have "dropWhile ?p (zip ms [length outs..<length outs + length ms]) =
      zip ms [length outs..<length outs + length ms]"
    by (cases ms) (simp_all add: upt_conv_Cons del: upt_Suc)
  then have "dropWhile ?p (cm_messages (cb_messages cb)) =
      zip ms [length outs..<length outs + length ms]"
    using assms by (subst (asm) cb_built_def, elim conjE, simp only:, subst dropWhile_append2) auto
  with assms(1) show ?thesis by (simp add: build_extension_def cb_built_def)
qed

lemma built_coinbase_roundtrip:
  assumes "script_codec (b_instructions B) (b_new_op_return B)"
    and "coinbase_builder_new B outs = Inr cb" "builder_push_all cb ms = Inr cb'"
    and "\<forall>m\<in>set ms. msg_wf m" "build B cb' = Inr outs'"
  shows "coinbase_messages_new B outs' = Inr (cb_messages cb')"
proof -
  from assms(2) have new: "coinbase_messages_new B outs = Inr (cb_messages cb)"
    and outs: "cb_coinbase_txouts cb = outs"
    by (auto simp: coinbase_builder_new_def split: sum.splits)
  then have "cm_messages (cb_messages cb) = parsed_messages B 0 outs"
    using new_loop_Inr [OF _ cm_wf_default]
    by (force simp: coinbase_messages_new_def coinbase_messages_default_def)
  then have bound: "\<forall>(m, v)\<in>set (cm_messages (cb_messages cb)). v < length outs"
    using parsed_messages_vout [of _ _ B 0 outs] by fastforce
  have "cb_built outs (cb_messages cb) [] cb" using outs by (simp add: cb_built_def)
  from cb_built_push_all [OF this bound assms(3)]
  have built: "cb_built outs (cb_messages cb) ms cb'" by simp
  from assms(5) built_extension [OF built bound] obtain exts
    where exts: "collect_outputs B ms = Inr exts" "outs' = outs @ exts"
    using built by (auto simp: build_def cb_built_def split: sum.splits)
  show ?thesis
    using new built new_loop_collected [OF assms(1,4) exts(1)]
    by (simp add: coinbase_messages_new_def exts(2) new_loop_append cb_built_def)
qed

section \<open>The properties of the coinbase messages\<close>

text \<open>C37: a well-formed coinbase message, encoded as an output script and parsed again, is the
  same message with no bytes left over.\<close>

theorem coinbase_message_roundtrip:
  assumes "script_codec (b_instructions B) (b_new_op_return B)"
    and "msg_wf m" "coinbase_message_to_script B m = Inr s"
  shows "coinbase_message_parse B s = Inr ([], m)"
  using assms by (rule coinbase_message_parse_encoded)

lemma sample_codec: "script_codec (b_instructions sample_btc) (b_new_op_return sample_btc)"
  by (simp add: wire.script_codec_axioms)

theorem coinbase_message_roundtrip_witness:
  "coinbase_message_parse sample_btc (wire_new_op_return
     [0xD7, 0x7D, 0x17, 0x76, 0x02, 0x12, 0x00, 0xFE, 0x00]) =
     Inr ([], M4AckBundles (TwoBytes [0x12, 0xFE]))"
proof -
  have "coinbase_message_to_script sample_btc (M4AckBundles (TwoBytes [0x12, 0xFE])) =
      Inr (wire_new_op_return [0xD7, 0x7D, 0x17, 0x76, 0x02, 0x12, 0x00, 0xFE, 0x00])"
    by (simp add: to_script_msg_bytes op_return_of_def push_bytes_try_from_def m4_message_def
        M4_TAG_def TWO_BYTES_TAG_def u16_to_le_bytes_def)
  with coinbase_message_roundtrip [OF sample_codec, of "M4AckBundles (TwoBytes [0x12, 0xFE])"]
  show ?thesis by simp
qed

text \<open>The parser is exact. A script it accepts is \<open>OP_RETURN\<close> and one push and nothing
  else, the pushed data is the encoding of the message it returns, hashes are 32 bytes, and no
  bytes are left over; so distinct accepted data give distinct messages.\<close>

theorem coinbase_message_parse_exact:
  "coinbase_message_parse B s = Inr (r, m) \<longleftrightarrow>
     r = [] \<and> msg_wf m \<and>
     b_instructions B s = [IOk (Op OP_RETURN), IOk (PushBytes (msg_bytes m))]"
  by (auto simp: coinbase_parse_Inr parse_message_bytes dest: parse_message_sound)

text \<open>\<open>CoinbaseMessages::push\<close> accepts a message exactly if the extended list has at most
  one M1, one M3, one M4, and one M2 and one M7 per slot, whatever was pushed before.\<close>

theorem push_accepts_exactly_allowed:
  assumes "cm_wf cm"
  shows "(\<exists>cm'. push cm m v = Inr cm' \<and> cm_wf cm' \<and>
            cm_messages cm' = cm_messages cm @ [(m, v)]) \<longleftrightarrow>
         msgs_allowed (map fst (cm_messages cm) @ [m])"
  using push_accepts_iff [OF assms] push_wf [OF assms] push_Inr(1) by blast

theorem push_accepts_exactly_allowed_witness:
  "\<exists>cm'. push coinbase_messages_default (M4AckBundles LeadingBy50) 3 = Inr cm' \<and> cm_wf cm' \<and>
     cm_messages cm' = cm_messages coinbase_messages_default @ [(M4AckBundles LeadingBy50, 3)]"
  by (subst push_accepts_exactly_allowed [OF cm_wf_default])
    (simp add: msgs_allowed_def coinbase_messages_default_def)

text \<open>\<open>CoinbaseMessages::new\<close> succeeds exactly if the messages of the outputs are an
  allowed list, and then holds those messages with their output indices.\<close>

theorem coinbase_messages_new_spec:
  "(case coinbase_messages_new B outs of
      Inr cm \<Rightarrow> cm_wf cm \<and> cm_messages cm = parsed_messages B 0 outs
    | Inl e \<Rightarrow> \<not> msgs_allowed (map fst (parsed_messages B 0 outs)))"
proof (cases "coinbase_messages_new B outs")
  case (Inl e)
  then show ?thesis using coinbase_messages_new_iff [of B outs] by auto
next
  case (Inr cm)
  then show ?thesis
    using new_loop_Inr [OF _ cm_wf_default, of B 0 outs cm]
    by (simp add: coinbase_messages_new_def coinbase_messages_default_def)
qed

text \<open>The outputs \<open>CoinbaseBuilder::build\<close> produces, after any sequence of builder calls,
  parse back to exactly the messages the builder holds: those of the original outputs followed by
  the added ones, at the output indices the builder assigned.\<close>

theorem coinbase_builder_roundtrip:
  assumes "script_codec (b_instructions B) (b_new_op_return B)"
    and "coinbase_builder_new B outs = Inr cb" "builder_push_all cb ms = Inr cb'"
    and "\<forall>m\<in>set ms. msg_wf m" "build B cb' = Inr outs'"
  shows "coinbase_messages_new B outs' = Inr (cb_messages cb')"
  using assms by (rule built_coinbase_roundtrip)

theorem coinbase_builder_roundtrip_witness:
  "\<exists>cb cb' outs'. coinbase_builder_new sample_btc [] = Inr cb \<and>
     builder_push_all cb [M4AckBundles LeadingBy50] = Inr cb' \<and> build sample_btc cb' = Inr outs' \<and>
     coinbase_messages_new sample_btc outs' = Inr (cb_messages cb')"
proof -
  let ?cb = "\<lparr>cb_coinbase_txouts = [], cb_messages = coinbase_messages_default\<rparr>"
  have new: "coinbase_builder_new sample_btc [] = Inr ?cb"
    by (simp add: coinbase_builder_new_def coinbase_messages_new_def)
  obtain cb' where push: "builder_push_all ?cb [M4AckBundles LeadingBy50] = Inr cb'"
    by (simp add: builder_push_def next_vout_index_def coinbase_messages_default_def cm_append_def)
  obtain outs' where out: "build sample_btc cb' = Inr outs'"
    using push
    by (auto simp: builder_push_def next_vout_index_def coinbase_messages_default_def cm_append_def
        build_def build_extension_def m4_to_script_def op_return_of_def push_bytes_try_from_def
        m4_message_def M4_TAG_def LEADING_BY_50_TAG_def)
  from coinbase_builder_roundtrip [OF sample_codec new push _ out] new push out
  show ?thesis by auto
qed

section \<open>BMM requests and treasury outputs\<close>

lemma drivechain_parse_Inr:
  "drivechain_parse od s = Inr (r, n) \<longleftrightarrow> r = [] \<and> s = drivechain_script od n"
proof
  assume "drivechain_parse od s = Inr (r, n)"
  then show "r = [] \<and> s = drivechain_script od n"
    by (auto simp: drivechain_parse_def drivechain_script_def length_Suc_conv split: sum.splits
        dest!: p_tag_InrD p_take_InrD p_eof_InrD)
next
  assume "r = [] \<and> s = drivechain_script od n"
  then show "drivechain_parse od s = Inr (r, n)"
    by (simp add: drivechain_parse_def drivechain_script_def p_tag_def p_take_def p_eof_def)
qed

text \<open>The treasury script parser accepts exactly the script of the slot under the network's
  opcode, with nothing around it.\<close>

theorem drivechain_parse_exact:
  "drivechain_parse od s = Inr (r, n) \<longleftrightarrow> r = [] \<and> s = drivechain_script od n"
  by (rule drivechain_parse_Inr)

lemma m8_parse_Inr:
  "m8_parse s = Inr (r, q) \<longleftrightarrow>
     r = [] \<and> length (m8_sidechain_block_hash q) = 32 \<and>
     length (m8_prev_mainchain_block_hash q) = 32 \<and>
     s = [OP_RETURN, M8_BMM_REQUEST_LENGTH] @ M8_TAG @ [m8_sidechain_number q] @
       m8_sidechain_block_hash q @ m8_prev_mainchain_block_hash q"
proof
  assume "m8_parse s = Inr (r, q)"
  then show "r = [] \<and> length (m8_sidechain_block_hash q) = 32 \<and>
     length (m8_prev_mainchain_block_hash q) = 32 \<and>
     s = [OP_RETURN, M8_BMM_REQUEST_LENGTH] @ M8_TAG @ [m8_sidechain_number q] @
       m8_sidechain_block_hash q @ m8_prev_mainchain_block_hash q"
    by (auto simp: m8_parse_def parse_bmm_commitment_def length_Suc_conv split: sum.splits
        dest!: p_tag_InrD p_take_InrD p_eof_InrD)
next
  assume "r = [] \<and> length (m8_sidechain_block_hash q) = 32 \<and>
     length (m8_prev_mainchain_block_hash q) = 32 \<and>
     s = [OP_RETURN, M8_BMM_REQUEST_LENGTH] @ M8_TAG @ [m8_sidechain_number q] @
       m8_sidechain_block_hash q @ m8_prev_mainchain_block_hash q"
  then show "m8_parse s = Inr (r, q)"
    by (simp add: m8_parse_def parse_bmm_commitment_def p_tag_def p_take_def p_eof_def M8_TAG_def)
qed

text \<open>The script of a BMM request (M8) parses back to the request.\<close>

theorem m8_roundtrip:
  assumes "script_codec (b_instructions B) (b_new_op_return B)"
    and "length h = 32" "length p = 32" "m8_script_pubkey B n h p = Inr s"
  shows "m8_parse s = Inr ([], \<lparr>m8_sidechain_number = n, m8_sidechain_block_hash = h,
    m8_prev_mainchain_block_hash = p\<rparr>)"
proof -
  let ?d = "M8_TAG @ [n] @ h @ p"
  have len: "length ?d = 68" using assms by (simp add: M8_TAG_def)
  have "s = b_new_op_return B ?d"
    using assms(4) by (auto simp: m8_script_pubkey_def m8_data_def push_bytes_try_from_def
        split: if_splits)
  also have "\<dots> = OP_RETURN # of_nat (length ?d) # ?d"
    by (rule script_codec.new_op_return_short [OF assms(1)]) (simp add: len del: length_append append_Cons)
  also have "(of_nat (length ?d) :: u8) = M8_BMM_REQUEST_LENGTH"
    by (simp only: len M8_BMM_REQUEST_LENGTH_def) simp
  finally show ?thesis using assms by (simp add: m8_parse_Inr)
qed

theorem m8_roundtrip_witness:
  "\<exists>s. m8_script_pubkey sample_btc 7 (replicate 32 1) (replicate 32 2) = Inr s \<and>
     m8_parse s = Inr ([], \<lparr>m8_sidechain_number = 7, m8_sidechain_block_hash = replicate 32 1,
       m8_prev_mainchain_block_hash = replicate 32 2\<rparr>)"
proof -
  obtain s where "m8_script_pubkey sample_btc 7 (replicate 32 1) (replicate 32 2) = Inr s"
    by (simp add: m8_script_pubkey_def m8_data_def push_bytes_try_from_def M8_TAG_def)
  with m8_roundtrip [OF sample_codec _ _ this] show ?thesis by simp
qed

section \<open>Withdrawal bundle ids\<close>

lemma compute_m6id_Inr:
  assumes "compute_m6id B od tx t = Inr (m, n)"
  obtains first payouts f where
    "tx_output tx = first # payouts" "to_script_pubkey first = drivechain_script od n"
    "tx_input tx \<noteq> []"
    "unat t = unat (to_value first) + sum_list (map (unat \<circ> to_value) payouts) + unat f"
    "m = b_compute_txid B (tx\<lparr>tx_input := [], tx_output := \<lparr>to_value = 0,
       to_script_pubkey = b_new_op_return B (u64_to_be_bytes f)\<rparr> # payouts\<rparr>)"
proof -
  from assms obtain first payouts where outs: "tx_output tx = first # payouts"
    by (auto simp: compute_m6id_def split: list.splits)
  with assms obtain r k where parse: "drivechain_parse od (to_script_pubkey first) = Inr (r, k)"
    by (auto simp: compute_m6id_def split: sum.splits)
  from assms outs parse have inp: "tx_input tx \<noteq> []"
    by (auto simp: compute_m6id_def)
  with assms outs parse obtain p where p: "checked_sum (map to_value payouts) = Some p"
    by (auto simp: compute_m6id_def split: option.splits)
  with assms outs parse inp obtain tot where tot: "checked_add (to_value first) p = Some tot"
    by (auto simp: compute_m6id_def split: option.splits)
  with assms outs parse inp p obtain f where f: "checked_sub t tot = Some f"
    by (auto simp: compute_m6id_def split: option.splits)
  have "unat t = unat (to_value first) + sum_list (map (unat \<circ> to_value) payouts) + unat f"
    using checked_sum_unat [OF p] checked_add_unat [OF tot] checked_sub_unat [OF f] by simp
  moreover have "k = n" "m = b_compute_txid B (tx\<lparr>tx_input := [], tx_output := \<lparr>to_value = 0,
      to_script_pubkey = b_new_op_return B (u64_to_be_bytes f)\<rparr> # payouts\<rparr>)"
    using assms outs parse inp p tot f by (simp_all add: compute_m6id_def)
  ultimately show thesis using that outs parse inp by (simp add: drivechain_parse_Inr)
qed

text \<open>A withdrawal transaction that has an M6 id conserves the treasury. With the treasury
  value \<open>t\<close> it spends, the new treasury output, the payouts and the fee add up to exactly \<open>t\<close>
  without wrap-around, the treasury output is the first output and pays the slot named in the
  result, and the id is that of the same payouts with the inputs removed and the treasury output
  replaced by an \<open>OP_RETURN\<close> of that fee.\<close>

theorem compute_m6id_conserves_treasury:
  assumes "compute_m6id B od tx t = Inr (m, n)"
  shows "\<exists>first payouts f. tx_output tx = first # payouts \<and>
     to_script_pubkey first = drivechain_script od n \<and> tx_input tx \<noteq> [] \<and>
     unat t = unat (to_value first) + sum_list (map (unat \<circ> to_value) payouts) + unat f \<and>
     m = b_compute_txid B (tx\<lparr>tx_input := [], tx_output := \<lparr>to_value = 0,
       to_script_pubkey = b_new_op_return B (u64_to_be_bytes f)\<rparr> # payouts\<rparr>)"
  using assms by (rule compute_m6id_Inr) blast

definition sample_m6 :: transaction where
  "sample_m6 = \<lparr>tx_version = 2, tx_lock_time = 9,
     tx_input = [default_txin \<lparr>op_txid = [1], op_vout = 0\<rparr>],
     tx_output = [\<lparr>to_value = 60, to_script_pubkey = drivechain_script NOP5 4\<rparr>,
       \<lparr>to_value = 30, to_script_pubkey = [0x51]\<rparr>]\<rparr>"

lemma sample_m6_id:
  "compute_m6id sample_btc NOP5 sample_m6 100 = Inr (pad32 [9], 4)"
  by (simp add: compute_m6id_def sample_m6_def drivechain_parse_def drivechain_script_def NOP5_def
      p_tag_def p_take_def p_eof_def checked_sum_def checked_add_def checked_sub_def)

theorem compute_m6id_conserves_treasury_witness:
  "\<exists>first payouts f. tx_output sample_m6 = first # payouts \<and>
     to_script_pubkey first = drivechain_script NOP5 4 \<and> tx_input sample_m6 \<noteq> [] \<and>
     unat (100 :: u64) = unat (to_value first) + sum_list (map (unat \<circ> to_value) payouts) + unat f \<and>
     pad32 [9] = b_compute_txid sample_btc (sample_m6\<lparr>tx_input := [], tx_output := \<lparr>to_value = 0,
       to_script_pubkey = b_new_op_return sample_btc (u64_to_be_bytes f)\<rparr> # payouts\<rparr>)"
  by (rule compute_m6id_conserves_treasury [OF sample_m6_id])

lemma blinded_m6_try_from_Inr:
  assumes "blinded_m6_try_from B tx = Inr bm"
  shows "bm_tx bm = tx" "tx_input tx = []"
    "\<exists>fee_output payouts. tx_output tx = fee_output # payouts \<and> to_value fee_output = 0 \<and>
       checked_sum (map to_value payouts) = Some (bm_payout bm) \<and> bm_payout bm \<noteq> 0"
  using assms
  by (auto simp: blinded_m6_try_from_def checked_sum_def checked_add_def
      split: if_splits list.splits option.splits sum.splits)

lemma checked_add_sub_roundtrip:
  assumes "checked_sub (t :: u64) p = Some v" "checked_sub v f = Some w"
  shows "checked_add w p = Some (w + p)" "checked_sub t (w + p) = Some f"
proof -
  have v: "unat v = unat t - unat p" "unat p \<le> unat t"
    and w: "unat w = unat v - unat f" "unat f \<le> unat v"
    using assms by (auto dest: checked_sub_unat)
  have "unat t < 2 ^ 64" using unat_less_power [of t] by simp
  moreover have "unat w + unat p \<le> unat t" using v w by linarith
  ultimately have lt: "unat w + unat p < 2 ^ 64" by linarith
  then show "checked_add w p = Some (w + p)" by (simp add: checked_add_def)
  have wp: "unat (w + p) = unat w + unat p" using lt by (subst unat_add_lem [symmetric]) simp
  have le: "w + p \<le> t" using v w wp by (simp add: word_le_nat_alt)
  then have "unat (t - (w + p)) = unat f" using v w wp by (simp add: unat_sub)
  then have "t - (w + p) = f" by (simp only: word_unat_eq_iff)
  with le show "checked_sub t (w + p) = Some f" by (simp add: checked_sub_def)
qed

text \<open>Paying out a bundle keeps its id. If a blinded bundle has the canonical fee output,
  then the M6 that \<open>BlindedM6::into_m6\<close> makes of it, spending treasury inputs of total value
  \<open>t\<close>, has for the validator's \<open>compute_m6id\<close> the id of the blinded bundle that was voted
  on, and the slot it was made for.\<close>

theorem into_m6_keeps_m6id:
  assumes "blinded_m6_try_from B tx = Inr bm"
    and "to_script_pubkey (hd (tx_output tx)) = b_new_op_return B (u64_to_be_bytes (bm_fee bm))"
    and "into_m6 bm od n c us = Inr m6"
    and "checked_sum_from (ctip_value c) (map ctip_value us) = Some t"
  shows "compute_m6id B od m6 t = Inr (blinded_compute_m6id B bm, n)"
proof -
  from blinded_m6_try_from_Inr [OF assms(1)] obtain fee payouts where
    outs: "bm_tx bm = tx" "tx_input tx = []" "tx_output tx = fee # payouts" "to_value fee = 0"
    and sum: "checked_sum (map to_value payouts) = Some (bm_payout bm)" by blast
  from assms(3,4) outs obtain v w where
    vw: "checked_sub t (bm_payout bm) = Some v" "checked_sub v (bm_fee bm) = Some w"
    and m6: "m6 = tx\<lparr>tx_input := map (\<lambda>c. default_txin (ctip_outpoint c)) (c # us),
      tx_output := \<lparr>to_value = w, to_script_pubkey = drivechain_script od n\<rparr> # payouts\<rparr>"
    by (auto simp: into_m6_def split: option.splits)
  have parse: "drivechain_parse od (drivechain_script od n) = Inr ([], n)"
    by (simp add: drivechain_parse_Inr)
  have "fee = \<lparr>to_value = 0, to_script_pubkey = b_new_op_return B (u64_to_be_bytes (bm_fee bm))\<rparr>"
    using assms(2) outs by (cases fee) simp
  then have blind: "tx\<lparr>tx_input := [], tx_output := \<lparr>to_value = 0,
      to_script_pubkey = b_new_op_return B (u64_to_be_bytes (bm_fee bm))\<rparr> # payouts\<rparr> = tx"
    using outs by (cases tx) simp
  show ?thesis
    using sum parse checked_add_sub_roundtrip [OF vw] blind outs
    by (simp add: compute_m6id_def m6 blinded_compute_m6id_def)
qed

definition sample_blinded_tx :: transaction where
  "sample_blinded_tx = \<lparr>tx_version = 2, tx_lock_time = 9, tx_input = [],
     tx_output = [\<lparr>to_value = 0, to_script_pubkey = wire_new_op_return (u64_to_be_bytes 10)\<rparr>,
       \<lparr>to_value = 30, to_script_pubkey = [0x51]\<rparr>]\<rparr>"

definition sample_blinded_m6 :: blinded_m6 where
  "sample_blinded_m6 = \<lparr>bm_fee = 10, bm_payout = 30, bm_tx = sample_blinded_tx\<rparr>"

definition sample_ctip :: ctip where
  "sample_ctip = \<lparr>ctip_outpoint = \<lparr>op_txid = [1], op_vout = 0\<rparr>, ctip_value = 100\<rparr>"

lemma sample_blinded_m6_try_from:
  "blinded_m6_try_from sample_btc sample_blinded_tx = Inr sample_blinded_m6"
proof -
  have "wire_instructions (wire_new_op_return (u64_to_be_bytes 10)) =
      [IOk (Op OP_RETURN), IOk (PushBytes (u64_to_be_bytes 10))]"
    by (rule wire.instructions_op_return) simp
  then show ?thesis
    by (simp add: blinded_m6_try_from_def sample_blinded_tx_def sample_blinded_m6_def
        checked_sum_def checked_add_def fee_output_bytes_def u64_be_roundtrip)
qed

theorem into_m6_keeps_m6id_witness:
  "\<exists>m6. into_m6 sample_blinded_m6 NOP5 4 sample_ctip [] = Inr m6 \<and>
     compute_m6id sample_btc NOP5 m6 100 = Inr (blinded_compute_m6id sample_btc sample_blinded_m6, 4)"
proof -
  obtain m6 where m6: "into_m6 sample_blinded_m6 NOP5 4 sample_ctip [] = Inr m6"
    by (simp add: into_m6_def sample_blinded_m6_def sample_blinded_tx_def sample_ctip_def
        checked_sub_def)
  moreover have "compute_m6id sample_btc NOP5 m6 100 =
      Inr (blinded_compute_m6id sample_btc sample_blinded_m6, 4)"
    by (rule into_m6_keeps_m6id [OF sample_blinded_m6_try_from _ m6])
      (simp_all add: sample_blinded_tx_def sample_blinded_m6_def sample_ctip_def)
  ultimately show ?thesis by blast
qed

section \<open>Sidechain declarations\<close>

text \<open>A declaration the M1 encoding can carry.\<close>

definition decl_wf :: "sidechain_declaration \<Rightarrow> bool" where
  "decl_wf d \<longleftrightarrow> utf8_valid (decl_title d) \<and> utf8_valid (decl_description d) \<and>
     length (hash_id_1 d) = 32 \<and> length (hash_id_2 d) = 20"

lemma try_parse_body_encoded:
  assumes "decl_wf d" "decl_title d = title"
  shows "try_parse_body title (decl_description d @ hash_id_1 d @ hash_id_2 d) = Inr ([], d)"
  using assms
  by (cases d) (simp add: try_parse_body_def decl_wf_def HASH_ID_1_LENGTH_def
      HASH_ID_2_LENGTH_def p_take_def)

lemma create_sidechain_proposal_Inr:
  assumes "create_sidechain_proposal B n decl = Inr (out, d)"
  shows "d = 0 # of_nat (length (decl_title decl)) # decl_title decl @ decl_description decl @
      hash_id_1 decl @ hash_id_2 decl"
    "m1_to_script B \<lparr>m1_sidechain_number = n, m1_description = d\<rparr> = Inr (to_script_pubkey out)"
    "to_value out = 0"
  using assms by (auto simp: create_sidechain_proposal_def Let_def split: sum.splits)

lemma try_parse_body_Inr:
  assumes "try_parse_body title input = Inr (r, decl)"
  shows "r = [] \<and> decl_title decl = title \<and> utf8_valid (decl_description decl) \<and>
    length (hash_id_1 decl) = 32 \<and> length (hash_id_2 decl) = 20"
proof -
  have "52 \<le> length input"
    using assms by (simp add: try_parse_body_def HASH_ID_1_LENGTH_def HASH_ID_2_LENGTH_def
        split: if_splits)
  then show ?thesis
    using assms by (simp add: try_parse_body_def p_take_def HASH_ID_1_LENGTH_def
        HASH_ID_2_LENGTH_def Let_def split: if_splits) auto
qed

lemma try_parse_Inr_title:
  assumes "try_parse input = Inr (r, decl)"
  shows "length (decl_title decl) < 256 \<and> decl_wf decl \<and> r = []"
proof -
  obtain inp1 x where "p_tag [0] input = Inr (inp1, x)"
    using assms by (cases "p_tag [0] input") (auto simp: try_parse_def split: list.splits)
  with assms obtain tl inp where inp: "inp1 = tl # inp"
    and "(case p_take (unat tl) inp of Inl e \<Rightarrow> Inl (failed_to_deserialize e)
       | Inr (input, title) \<Rightarrow> if \<not> utf8_valid title then Inl InvalidUtf8Title
           else try_parse_body title input) = Inr (r, decl)"
    by (cases inp1) (auto simp: try_parse_def)
  then obtain inp2 title where "p_take (unat tl) inp = Inr (inp2, title)" "utf8_valid title"
    and body: "try_parse_body title inp2 = Inr (r, decl)"
    by (cases "p_take (unat tl) inp") (auto split: if_splits)
  then have "length title = unat tl" by (auto dest: p_take_InrD)
  then have "length title < 256" using unat_less_power [of tl] by simp
  with body \<open>utf8_valid title\<close> show ?thesis
    using try_parse_body_Inr [OF body] by (simp add: decl_wf_def)
qed

text \<open>A sidechain proposal made from a declaration whose title has at most 255 bytes
  decodes to that declaration, and its output is a coinbase M1 message for the slot carrying the
  same description.\<close>

lemma create_sidechain_proposal_roundtrip:
  assumes "script_codec (b_instructions B) (b_new_op_return B)"
    and "decl_wf decl" "length (decl_title decl) \<le> 255"
    and "create_sidechain_proposal B n decl = Inr (out, d)"
  shows "sidechain_declaration_try_from d = Some (Inr decl) \<and>
    coinbase_message_parse B (to_script_pubkey out) =
      Inr ([], M1ProposeSidechain \<lparr>m1_sidechain_number = n, m1_description = d\<rparr>)"
proof -
  note d = create_sidechain_proposal_Inr [OF assms(4)]
  have "unat (of_nat (length (decl_title decl)) :: u8) = length (decl_title decl)"
    using assms(3) by (simp add: unat_of_nat)
  moreover have "utf8_valid (decl_title decl)" using assms(2) by (simp add: decl_wf_def)
  ultimately have "try_parse d = Inr ([], decl)"
    using try_parse_body_encoded [OF assms(2) refl]
    by (simp add: d(1) try_parse_def p_tag_def p_take_def)
  moreover have "coinbase_message_parse B (to_script_pubkey out) =
      Inr ([], M1ProposeSidechain \<lparr>m1_sidechain_number = n, m1_description = d\<rparr>)"
    using d(2) by (intro coinbase_message_parse_encoded [OF assms(1)]) simp_all
  ultimately show ?thesis by (simp add: sidechain_declaration_try_from_def)
qed

definition sample_declaration :: sidechain_declaration where
  "sample_declaration = \<lparr>decl_title = [0x74, 0x65, 0x73, 0x74], decl_description = [0x64],
     hash_id_1 = replicate 32 1, hash_id_2 = replicate 20 2\<rparr>"

text \<open>C38: a sidechain proposal is exact about the declaration it is made from: it fails only when the message
  does not fit into one push; otherwise its output is worth nothing, the coinbase parser reads the output
  as the M1 message of the slot with the very description that is returned, and that description decodes
  back to the declaration if, and only if, the title has at most 255 bytes (its length is written
  modulo 256, unchecked).\<close>

theorem sidechain_proposal_exact:
  assumes "script_codec (b_instructions B) (b_new_op_return B)" "decl_wf decl"
  shows "case create_sidechain_proposal B n decl of
      Inl e \<Rightarrow> 2 ^ 32 \<le> length (decl_title decl) + length (decl_description decl) + 59
    | Inr (out, d) \<Rightarrow> length (decl_title decl) + length (decl_description decl) + 59 < 2 ^ 32 \<and> to_value out = 0 \<and>
        coinbase_message_parse B (to_script_pubkey out) =
          Inr ([], M1ProposeSidechain \<lparr>m1_sidechain_number = n, m1_description = d\<rparr>) \<and>
        (sidechain_declaration_try_from d = Some (Inr decl) \<longleftrightarrow> length (decl_title decl) \<le> 255)"
proof (cases "create_sidechain_proposal B n decl")
  case (Inl e)
  then show ?thesis using assms(2)
    by (simp add: create_sidechain_proposal_def m1_to_script_def op_return_of_def m1_message_def push_bytes_try_from_def
        M1_TAG_def Let_def decl_wf_def split: if_splits)
next
  case (Inr r)
  obtain out d where r: "r = (out, d)" by (cases r)
  note d = create_sidechain_proposal_Inr [OF Inr [unfolded r]]
  have "length (decl_title decl) + length (decl_description decl) + 59 < 2 ^ 32"
    using d(2) assms(2) unfolding d(1)
    by (simp add: m1_to_script_def op_return_of_def m1_message_def push_bytes_try_from_def M1_TAG_def decl_wf_def split: if_splits)
  moreover have "coinbase_message_parse B (to_script_pubkey out) =
      Inr ([], M1ProposeSidechain \<lparr>m1_sidechain_number = n, m1_description = d\<rparr>)"
    using d(2) by (intro coinbase_message_parse_encoded [OF assms(1)]) simp_all
  moreover have "length (decl_title decl) \<le> 255" if "sidechain_declaration_try_from d = Some (Inr decl)"
    using that try_parse_Inr_title [of d]
    by (force simp: sidechain_declaration_try_from_def split: sum.splits if_splits)
  moreover have "sidechain_declaration_try_from d = Some (Inr decl)" if "length (decl_title decl) \<le> 255"
    using create_sidechain_proposal_roundtrip [OF assms that Inr [unfolded r]] by blast
  ultimately show ?thesis using Inr r d(3) by auto
qed

theorem sidechain_proposal_exact_witness:
  "(\<exists>out d. create_sidechain_proposal sample_btc 3 sample_declaration = Inr (out, d) \<and>
      sidechain_declaration_try_from d = Some (Inr sample_declaration)) \<and>
   (\<exists>out d. create_sidechain_proposal sample_btc 3 (sample_declaration\<lparr>decl_title := replicate 300 0x61\<rparr>) = Inr (out, d) \<and>
      sidechain_declaration_try_from d \<noteq> Some (Inr (sample_declaration\<lparr>decl_title := replicate 300 0x61\<rparr>)))"
proof -
  have made: "\<exists>out d. create_sidechain_proposal sample_btc 3 (sample_declaration\<lparr>decl_title := t\<rparr>) = Inr (out, d)"
    if "length t \<le> 300" for t using that
    by (simp add: create_sidechain_proposal_def m1_to_script_def op_return_of_def m1_message_def
        push_bytes_try_from_def sample_declaration_def M1_TAG_def Let_def)
  have wf: "decl_wf sample_declaration" "decl_wf (sample_declaration\<lparr>decl_title := replicate 300 0x61\<rparr>)"
    by (simp_all add: decl_wf_def sample_declaration_def utf8_valid_ascii)
  show ?thesis
    using sidechain_proposal_exact [OF sample_codec wf(1), of 3] sidechain_proposal_exact [OF sample_codec wf(2), of 3]
      made [of "decl_title sample_declaration"] made [of "replicate 300 0x61"]
    by (auto simp: sample_declaration_def)
qed

text \<open>Decoding a stored description never panics: the assertion that no bytes remain holds
  for every input, and what is decoded has valid UTF-8 strings and hashes of 32 and 20 bytes.\<close>

theorem sidechain_declaration_try_from_total:
  "\<exists>r. sidechain_declaration_try_from d = Some r \<and> (case r of Inl _ \<Rightarrow> True | Inr decl \<Rightarrow> decl_wf decl)"
  using try_parse_Inr_title [of d]
  by (cases "try_parse d") (force simp: sidechain_declaration_try_from_def)+

end
