(* ===== verification/ActiveDbs.thy ===== *)
theory ActiveDbs
  imports Messages
begin

text \<open>
  The tables of active sidechains, \<open>ActiveSidechainDbs\<close> in
  \<open>src/lib/validator/dbs/mod.rs\<close>, and its operations. An LMDB table is a partial map; a
  write returns the changed tables, and an error drops them, as aborting the transaction does.
  I/O and decoding errors of the store are not modelled: what remains of a database error is a
  missing value or two tables that disagree. A failed \<open>unwrap\<close>, \<open>expect\<close>, index or
  \<open>assert!\<close> is the value \<open>Panic\<close>.

  \<open>PendingM6ids\<close>, an \<open>OrderMap\<close>, is an association list in insertion order. Treasury
  sequence numbers are natural numbers; \<open>put_ctip\<close> panics where \<open>NonZeroU64\<close> overflows.
\<close>

datatype fault = MissingValue | Inconsistent | Panic

section \<open>Insertion-ordered maps\<close>

text \<open>The operations of \<open>ordermap::OrderMap\<close> the code uses, on association lists:
  \<open>get\<close> is \<open>map_of\<close>, \<open>keys\<close> is \<open>map fst\<close>, \<open>get_index\<close> is the entry at a position.\<close>

fun om_insert :: "'k \<Rightarrow> 'v \<Rightarrow> ('k \<times> 'v) list \<Rightarrow> ('k \<times> 'v) list" where
  "om_insert k v [] = [(k, v)]"
| "om_insert k v ((k', v') # xs) =
     (if k' = k then (k, v) # xs else (k', v') # om_insert k v xs)"

text \<open>Removal through an occupied entry keeps the order of the others.\<close>

definition om_remove :: "'k \<Rightarrow> ('k \<times> 'v) list \<Rightarrow> ('k \<times> 'v) list" where
  "om_remove k xs = filter (\<lambda>p. fst p \<noteq> k) xs"

text \<open>\<open>shift_insert\<close>: a new key goes in at the index, a present one is moved there; an index
  out of bounds panics.\<close>

definition om_shift_insert :: "nat \<Rightarrow> 'k \<Rightarrow> 'v \<Rightarrow> ('k \<times> 'v) list \<Rightarrow> ('k \<times> 'v) list option" where
  "om_shift_insert i k v xs =
     (let ys = om_remove k xs in
      if i \<le> length ys then Some (take i ys @ (k, v) # drop i ys) else None)"

text \<open>\<open>get_full\<close>: position and value of a key.\<close>

fun om_get_full :: "'k \<Rightarrow> ('k \<times> 'v) list \<Rightarrow> (nat \<times> 'v) option" where
  "om_get_full k [] = None"
| "om_get_full k ((k', v) # xs) =
     (if k' = k then Some (0, v) else map_option (\<lambda>(i, w). (Suc i, w)) (om_get_full k xs))"

definition om_get_index :: "nat \<Rightarrow> ('k \<times> 'v) list \<Rightarrow> ('k \<times> 'v) option" where
  "om_get_index i xs = (if i < length xs then Some (xs ! i) else None)"

text \<open>Changing the value of a key through \<open>get_mut\<close>; nothing happens if it is absent.\<close>

definition om_modify :: "'k \<Rightarrow> ('v \<Rightarrow> 'v) \<Rightarrow> ('k \<times> 'v) list \<Rightarrow> ('k \<times> 'v) list" where
  "om_modify k f xs = map (\<lambda>(k', v). (k', if k' = k then f v else v)) xs"

lemma om_insert_new: "k \<notin> fst ` set xs \<Longrightarrow> om_insert k v xs = xs @ [(k, v)]"
  by (induction k v xs rule: om_insert.induct) auto

lemma om_insert_keys: "fst ` set (om_insert k v xs) = insert k (fst ` set xs)"
  by (induction k v xs rule: om_insert.induct) auto

lemma om_insert_distinct: "distinct (map fst xs) \<Longrightarrow> distinct (map fst (om_insert k v xs))"
  by (induction k v xs rule: om_insert.induct) (auto simp: om_insert_keys)

lemma om_insert_lookup: "map_of (om_insert k v xs) j = (if j = k then Some v else map_of xs j)"
  by (induction k v xs rule: om_insert.induct) auto

lemma om_remove_absent: "k \<notin> fst ` set xs \<Longrightarrow> om_remove k xs = xs"
  by (force simp: om_remove_def filter_id_conv)

lemma om_remove_distinct: "distinct (map fst xs) \<Longrightarrow> distinct (map fst (om_remove k xs))"
  by (simp add: om_remove_def distinct_map_filter)

lemma om_remove_insert_new: "k \<notin> fst ` set xs \<Longrightarrow> om_remove k (om_insert k v xs) = xs"
  by (simp add: om_insert_new) (simp add: om_remove_def filter_id_conv, force)

lemma om_modify_keys [simp]: "map fst (om_modify k f xs) = map fst xs"
  by (induction xs) (auto simp: om_modify_def)

lemma om_modify_set_keys [simp]: "fst ` set (om_modify k f xs) = fst ` set xs"
  by (metis list.set_map om_modify_keys)

lemma om_get_full_Some:
  "om_get_full k xs = Some (i, v) \<Longrightarrow> i < length xs \<and> xs ! i = (k, v) \<and> k \<notin> fst ` set (take i xs)"
  by (induction k xs arbitrary: i rule: om_get_full.induct) (force split: if_splits)+

lemma om_get_full_map_of: "om_get_full k xs = Some (i, v) \<Longrightarrow> map_of xs k = Some v"
  by (induction k xs arbitrary: i rule: om_get_full.induct) (auto split: if_splits)

text \<open>Removing the entry at a position and inserting it there again restores the list.\<close>

lemma om_shift_insert_restores:
  assumes "distinct (map fst xs)" "om_get_full k xs = Some (i, v)"
  shows "om_shift_insert i k v (om_remove k xs) = Some xs"
proof -
  from om_get_full_Some [OF assms(2)] have i: "i < length xs" "xs ! i = (k, v)" by auto
  then have xs: "xs = take i xs @ (k, v) # drop (Suc i) xs"
    using id_take_nth_drop [of i xs] by simp
  then have "distinct (map fst (take i xs @ (k, v) # drop (Suc i) xs))" using assms(1) by simp
  then have nin: "k \<notin> fst ` set (take i xs)" "k \<notin> fst ` set (drop (Suc i) xs)" by auto
  have "om_remove k xs = om_remove k (take i xs) @ om_remove k (drop (Suc i) xs)"
    by (subst xs) (simp add: om_remove_def)
  then have rem: "om_remove k xs = take i xs @ drop (Suc i) xs"
    by (simp add: om_remove_absent nin)
  moreover have "om_remove k (om_remove k xs) = om_remove k xs"
    by (simp add: om_remove_def)
  ultimately have "om_remove k (om_remove k xs) = take i xs @ drop (Suc i) xs" by simp
  then show ?thesis using i by (simp add: om_shift_insert_def Let_def xs [symmetric])
qed

section \<open>The tables\<close>

type_synonym pending_m6ids = "(m6id \<times> pending_m6id_info) list"

record active_dbs =
  ctip_db :: "sidechain_number \<Rightarrow> ctip option"
  ctip_outpoint_to_value_seq :: "outpoint \<Rightarrow> (sidechain_number \<times> amount \<times> nat) option"
  pending_m6ids_db :: "sidechain_number \<Rightarrow> pending_m6ids option"
  sidechain_db :: "sidechain_number \<Rightarrow> sidechain option"
  slot_sequence_to_treasury_utxo :: "sidechain_number \<times> nat \<Rightarrow> treasury_utxo option"
  treasury_utxo_count :: "sidechain_number \<Rightarrow> nat option"

definition active_dbs_empty :: active_dbs where
  "active_dbs_empty = \<lparr>ctip_db = (\<lambda>_. None), ctip_outpoint_to_value_seq = (\<lambda>_. None),
     pending_m6ids_db = (\<lambda>_. None), sidechain_db = (\<lambda>_. None),
     slot_sequence_to_treasury_utxo = (\<lambda>_. None), treasury_utxo_count = (\<lambda>_. None)\<rparr>"

text \<open>Keys iterate in the order of their encoding, one byte.\<close>

definition all_slots :: "sidechain_number list" where
  "all_slots = map of_nat [0..<256]"

definition numbers :: "active_dbs \<Rightarrow> sidechain_number list" where
  "numbers a = filter (\<lambda>n. sidechain_db a n \<noteq> None) all_slots"

definition put_ctip :: "active_dbs \<Rightarrow> sidechain_number \<Rightarrow> ctip \<Rightarrow> fault + active_dbs \<times> nat" where
  "put_ctip a n ctip =
     (let count = (case treasury_utxo_count a n of Some c \<Rightarrow> c | None \<Rightarrow> 0);
          sequence_number = count;
          old_treasury_value = (case ctip_db a n of Some old \<Rightarrow> ctip_value old | None \<Rightarrow> 0);
          treasury_utxo = \<lparr>tu_sidechain_number = n, tu_outpoint = ctip_outpoint ctip,
            tu_total_value = ctip_value ctip, tu_previous_total_value = old_treasury_value\<rparr>;
          a = a\<lparr>slot_sequence_to_treasury_utxo :=
            (slot_sequence_to_treasury_utxo a)((n, sequence_number) := Some treasury_utxo)\<rparr>
      in if 2 ^ 64 \<le> count + 1 then Inl Panic
         else
           let a = a\<lparr>treasury_utxo_count := (treasury_utxo_count a)(n := Some (count + 1))\<rparr>;
               a = a\<lparr>ctip_db := (ctip_db a)(n := Some ctip)\<rparr>;
               a = a\<lparr>ctip_outpoint_to_value_seq := (ctip_outpoint_to_value_seq a)
                 (ctip_outpoint ctip := Some (n, ctip_value ctip, sequence_number))\<rparr>
           in Inr (a, sequence_number))"

definition delete_ctip :: "active_dbs \<Rightarrow> sidechain_number \<Rightarrow> fault + active_dbs" where
  "delete_ctip a n =
     (case ctip_db a n of
        None \<Rightarrow> Inl MissingValue
      | Some ctip \<Rightarrow>
     (let a = a\<lparr>ctip_outpoint_to_value_seq :=
            (ctip_outpoint_to_value_seq a)(ctip_outpoint ctip := None)\<rparr> in
      case treasury_utxo_count a n of
        None \<Rightarrow> Inl MissingValue
      | Some count \<Rightarrow>
     (let sequence_number = count - 1;
          a = (if sequence_number \<noteq> 0
               then a\<lparr>treasury_utxo_count := (treasury_utxo_count a)(n := Some sequence_number)\<rparr>
               else a\<lparr>treasury_utxo_count := (treasury_utxo_count a)(n := None)\<rparr>);
          a = a\<lparr>slot_sequence_to_treasury_utxo :=
            (slot_sequence_to_treasury_utxo a)((n, sequence_number) := None)\<rparr>
      in if sequence_number = 0 then Inr (a\<lparr>ctip_db := (ctip_db a)(n := None)\<rparr>)
         else case slot_sequence_to_treasury_utxo a (n, sequence_number - 1) of
           None \<Rightarrow> Inl MissingValue
         | Some prev \<Rightarrow>
             Inr (a\<lparr>ctip_db := (ctip_db a)(n := Some \<lparr>ctip_outpoint = tu_outpoint prev,
               ctip_value = tu_total_value prev\<rparr>)\<rparr>))))"

definition put_sidechain :: "active_dbs \<Rightarrow> sidechain_number \<Rightarrow> sidechain \<Rightarrow> active_dbs" where
  "put_sidechain a n sc =
     (let a = (if pending_m6ids_db a n = None
               then a\<lparr>pending_m6ids_db := (pending_m6ids_db a)(n := Some [])\<rparr> else a)
      in a\<lparr>sidechain_db := (sidechain_db a)(n := Some sc)\<rparr>)"

definition delete_sidechain :: "active_dbs \<Rightarrow> sidechain_number \<Rightarrow> active_dbs" where
  "delete_sidechain a n =
     (let a = a\<lparr>pending_m6ids_db := (pending_m6ids_db a)(n := None)\<rparr>
      in a\<lparr>sidechain_db := (sidechain_db a)(n := None)\<rparr>)"

text \<open>The closure maps the pending bundles to its result and the changed bundles.\<close>

definition with_pending_withdrawals ::
    "active_dbs \<Rightarrow> sidechain_number \<Rightarrow> (pending_m6ids \<Rightarrow> 't \<times> pending_m6ids) \<Rightarrow>
     fault + 't \<times> active_dbs" where
  "with_pending_withdrawals a n f =
     (case pending_m6ids_db a n of
        None \<Rightarrow> Inl MissingValue
      | Some pending \<Rightarrow>
          (case f pending of (res, pending') \<Rightarrow>
             Inr (res, a\<lparr>pending_m6ids_db := (pending_m6ids_db a)(n := Some pending')\<rparr>)))"

text \<open>A change of the pending bundles that returns nothing.\<close>

definition update_pending ::
    "active_dbs \<Rightarrow> sidechain_number \<Rightarrow> (pending_m6ids \<Rightarrow> pending_m6ids) \<Rightarrow> fault + active_dbs" where
  "update_pending a n f =
     (case with_pending_withdrawals a n (\<lambda>p. ((), f p)) of
        Inl e \<Rightarrow> Inl e
      | Inr (_, a) \<Rightarrow> Inr a)"

text \<open>Both arms of \<open>put_pending_m6id\<close>, occupied and vacant entry, are one insertion.\<close>

definition put_pending_m6id ::
    "active_dbs \<Rightarrow> sidechain_number \<Rightarrow> m6id \<Rightarrow> u32 \<Rightarrow> fault + active_dbs" where
  "put_pending_m6id a n m proposal_height =
     update_pending a n (om_insert m (pending_m6id_info_new proposal_height))"

definition delete_pending_withdrawal ::
    "active_dbs \<Rightarrow> sidechain_number \<Rightarrow> m6id \<Rightarrow> fault + active_dbs" where
  "delete_pending_withdrawal a n m = update_pending a n (om_remove m)"

definition downvote :: "pending_m6id_info \<Rightarrow> pending_m6id_info" where
  "downvote info = info\<lparr>pi_vote_count := saturating_sub (pi_vote_count info) 1\<rparr>"

definition alarm_pending_m6ds :: "active_dbs \<Rightarrow> sidechain_number \<Rightarrow> fault + active_dbs" where
  "alarm_pending_m6ds a n = update_pending a n (map (\<lambda>(m, info). (m, downvote info)))"

section \<open>The invariant of the tables\<close>

text \<open>
  \<open>ledger_wf\<close> is what the comments on the tables promise for one slot: the sequence numbers
  in use are the numbers below the count, the current treasury output is the last entry, and each
  entry records the value of its predecessor.
\<close>

definition ledger_wf :: "active_dbs \<Rightarrow> sidechain_number \<Rightarrow> bool" where
  "ledger_wf a n \<longleftrightarrow>
     (case treasury_utxo_count a n of
        None \<Rightarrow> ctip_db a n = None \<and> (\<forall>k. slot_sequence_to_treasury_utxo a (n, k) = None)
      | Some c \<Rightarrow>
          0 < c \<and> (\<forall>k. slot_sequence_to_treasury_utxo a (n, k) \<noteq> None \<longleftrightarrow> k < c) \<and>
          ctip_db a n = map_option (\<lambda>u. \<lparr>ctip_outpoint = tu_outpoint u,
            ctip_value = tu_total_value u\<rparr>) (slot_sequence_to_treasury_utxo a (n, c - 1)) \<and>
          (\<forall>k u. slot_sequence_to_treasury_utxo a (n, k) = Some u \<longrightarrow>
             tu_sidechain_number u = n \<and>
             tu_previous_total_value u =
               (case k of 0 \<Rightarrow> 0 | Suc j \<Rightarrow>
                  tu_total_value (the (slot_sequence_to_treasury_utxo a (n, j))))))"

definition pending_wf :: "active_dbs \<Rightarrow> bool" where
  "pending_wf a \<longleftrightarrow>
     (\<forall>n. pending_m6ids_db a n = None \<longleftrightarrow> sidechain_db a n = None) \<and>
     (\<forall>n p. pending_m6ids_db a n = Some p \<longrightarrow> distinct (map fst p))"

text \<open>The outpoint table holds exactly the treasury outputs of all slots.\<close>

definition outpoints_wf :: "active_dbs \<Rightarrow> bool" where
  "outpoints_wf a \<longleftrightarrow>
     (\<forall>n k u. slot_sequence_to_treasury_utxo a (n, k) = Some u \<longrightarrow>
        ctip_outpoint_to_value_seq a (tu_outpoint u) = Some (n, tu_total_value u, k)) \<and>
     (\<forall>outp n v k. ctip_outpoint_to_value_seq a outp = Some (n, v, k) \<longrightarrow>
        (\<exists>u. slot_sequence_to_treasury_utxo a (n, k) = Some u \<and> tu_outpoint u = outp \<and>
           tu_total_value u = v))"

definition active_wf :: "active_dbs \<Rightarrow> bool" where
  "active_wf a \<longleftrightarrow> (\<forall>n. ledger_wf a n) \<and> pending_wf a \<and> outpoints_wf a"

lemma active_wf_empty: "active_wf active_dbs_empty"
  by (simp add: active_wf_def ledger_wf_def pending_wf_def outpoints_wf_def active_dbs_empty_def)

lemma all_slots_set: "set all_slots = UNIV"
proof -
  have "n \<in> set all_slots" for n :: u8
  proof -
    have "n = of_nat (unat n)" "unat n \<in> {0..<256}"
      using unat_less_power [of n] by simp_all
    then show ?thesis unfolding all_slots_def by (metis (no_types) image_eqI list.set_map set_upt)
  qed
  then show ?thesis by blast
qed

lemma all_slots_distinct: "distinct all_slots"
proof -
  have "inj_on (of_nat :: nat \<Rightarrow> u8) {0..<256}"
    by (rule inj_on_inverseI [where g = unat]) (simp add: unat_of_nat)
  then show ?thesis by (simp add: all_slots_def distinct_map)
qed

lemma numbers_set: "set (numbers a) = dom (sidechain_db a)"
  by (auto simp: numbers_def all_slots_set)

lemma numbers_distinct: "distinct (numbers a)"
  by (simp add: numbers_def all_slots_distinct)

section \<open>Treasury outputs: adding and removing\<close>

abbreviation utxo_count :: "active_dbs \<Rightarrow> sidechain_number \<Rightarrow> nat" where
  "utxo_count a n \<equiv> case_option 0 id (treasury_utxo_count a n)"

definition treasury_value :: "active_dbs \<Rightarrow> sidechain_number \<Rightarrow> amount" where
  "treasury_value a n = (case ctip_db a n of Some c \<Rightarrow> ctip_value c | None \<Rightarrow> 0)"

definition new_utxo :: "active_dbs \<Rightarrow> sidechain_number \<Rightarrow> ctip \<Rightarrow> treasury_utxo" where
  "new_utxo a n c = \<lparr>tu_sidechain_number = n, tu_outpoint = ctip_outpoint c,
     tu_total_value = ctip_value c, tu_previous_total_value = treasury_value a n\<rparr>"

lemma put_ctip_Inr:
  "put_ctip a n c = Inr (a', s) \<longleftrightarrow>
     utxo_count a n + 1 < 2 ^ 64 \<and> s = utxo_count a n \<and>
     a' = a\<lparr>slot_sequence_to_treasury_utxo :=
              (slot_sequence_to_treasury_utxo a)((n, s) := Some (new_utxo a n c)),
            treasury_utxo_count := (treasury_utxo_count a)(n := Some (s + 1)),
            ctip_db := (ctip_db a)(n := Some c),
            ctip_outpoint_to_value_seq := (ctip_outpoint_to_value_seq a)
              (ctip_outpoint c := Some (n, ctip_value c, s))\<rparr>"
  by (auto simp: put_ctip_def Let_def new_utxo_def treasury_value_def split: option.splits)

lemma ledger_wf_None:
  "ledger_wf a n \<Longrightarrow> utxo_count a n \<le> k \<Longrightarrow> slot_sequence_to_treasury_utxo a (n, k) = None"
  by (cases "treasury_utxo_count a n") (simp_all add: ledger_wf_def, metis not_less option.exhaust)

lemma ledger_wf_cong:
  assumes "treasury_utxo_count a' n = treasury_utxo_count a n" "ctip_db a' n = ctip_db a n"
    and "\<And>k. slot_sequence_to_treasury_utxo a' (n, k) = slot_sequence_to_treasury_utxo a (n, k)"
  shows "ledger_wf a' n = ledger_wf a n"
  unfolding ledger_wf_def assms ..

lemma ledger_wf_ctip:
  assumes "ledger_wf a n"
  shows "ctip_db a n = (if utxo_count a n = 0 then None else
    map_option (\<lambda>u. \<lparr>ctip_outpoint = tu_outpoint u, ctip_value = tu_total_value u\<rparr>)
      (slot_sequence_to_treasury_utxo a (n, utxo_count a n - 1)))"
  using assms by (auto simp: ledger_wf_def split: option.splits)

lemma ledger_wf_count:
  "ledger_wf a n \<Longrightarrow> treasury_utxo_count a n =
     (if utxo_count a n = 0 then None else Some (utxo_count a n))"
  by (auto simp: ledger_wf_def split: option.splits)

lemma ledger_wf_Some:
  "ledger_wf a n \<Longrightarrow> k < utxo_count a n \<Longrightarrow> \<exists>u. slot_sequence_to_treasury_utxo a (n, k) = Some u"
  by (auto simp: ledger_wf_def split: option.splits)

text \<open>Deleting the treasury output that was put last restores every table.\<close>

lemma delete_put_ctip:
  assumes "ledger_wf a n" "ctip_outpoint_to_value_seq a (ctip_outpoint c) = None"
    and "put_ctip a n c = Inr (a', s)"
  shows "delete_ctip a' n = Inr a"
proof -
  note put = assms(3) [unfolded put_ctip_Inr]
  have seq: "(slot_sequence_to_treasury_utxo a)((n, s) := None) = slot_sequence_to_treasury_utxo a"
    using ledger_wf_None [OF assms(1), of s] put by (simp add: fun_upd_idem)
  have outp: "(ctip_outpoint_to_value_seq a)(ctip_outpoint c := None) = ctip_outpoint_to_value_seq a"
    using assms(2) by (simp add: fun_upd_idem)
  show ?thesis
  proof (cases "s = 0")
    case True
    then have "treasury_utxo_count a n = None" "ctip_db a n = None"
      using put ledger_wf_count [OF assms(1)] ledger_wf_ctip [OF assms(1)] by simp_all
    then have "(treasury_utxo_count a)(n := None) = treasury_utxo_count a"
      "(ctip_db a)(n := None) = ctip_db a" by (simp_all add: fun_upd_idem)
    then show ?thesis using True put seq outp by (simp add: delete_ctip_def Let_def)
  next
    case False
    then obtain u where u: "slot_sequence_to_treasury_utxo a (n, s - 1) = Some u"
      using ledger_wf_Some [OF assms(1), of "s - 1"] put by auto
    have "treasury_utxo_count a n = Some s"
      "ctip_db a n = Some \<lparr>ctip_outpoint = tu_outpoint u, ctip_value = tu_total_value u\<rparr>"
      using False put u ledger_wf_count [OF assms(1)] ledger_wf_ctip [OF assms(1)] by simp_all
    then have "(treasury_utxo_count a)(n := Some s) = treasury_utxo_count a"
      "(ctip_db a)(n := Some \<lparr>ctip_outpoint = tu_outpoint u, ctip_value = tu_total_value u\<rparr>) =
         ctip_db a" by (simp_all add: fun_upd_idem)
    moreover have "(n, s - 1) \<noteq> (n, s)" using False by simp
    ultimately show ?thesis using False put u seq outp by (simp add: delete_ctip_def Let_def)
  qed
qed

lemma put_ctip_ledger_other:
  assumes "ledger_wf a m" "put_ctip a n c = Inr (a', s)" "m \<noteq> n"
  shows "ledger_wf a' m"
  using assms(1,2) ledger_wf_cong [of a' m a] assms(3) by (simp add: put_ctip_Inr)

lemma put_ctip_ledger_same:
  assumes "ledger_wf a n" "put_ctip a n c = Inr (a', s)"
  shows "ledger_wf a' n"
proof -
  note put = assms(2) [unfolded put_ctip_Inr]
  have dom: "slot_sequence_to_treasury_utxo a (n, k) \<noteq> None \<longleftrightarrow> k < s" for k
    using ledger_wf_Some [OF assms(1), of k] ledger_wf_None [OF assms(1), of k] put
    by (cases "k < s") auto
  have prev: "treasury_value a n = (case s of 0 \<Rightarrow> 0 | Suc j \<Rightarrow>
      tu_total_value (the (slot_sequence_to_treasury_utxo a (n, j))))"
    using ledger_wf_ctip [OF assms(1)] put dom [of "s - 1"]
    by (auto simp: treasury_value_def split: nat.splits)
  have old: "tu_sidechain_number u = n \<and> tu_previous_total_value u = (case k of 0 \<Rightarrow> 0 | Suc j \<Rightarrow>
      tu_total_value (the (slot_sequence_to_treasury_utxo a (n, j))))"
    if "slot_sequence_to_treasury_utxo a (n, k) = Some u" for k u
    using that assms(1) by (auto simp: ledger_wf_def split: option.splits)
  have "tu_sidechain_number u = n \<and> tu_previous_total_value u = (case k of 0 \<Rightarrow> 0 | Suc j \<Rightarrow>
      tu_total_value (the (slot_sequence_to_treasury_utxo a' (n, j))))"
    if "slot_sequence_to_treasury_utxo a' (n, k) = Some u" for k u
  proof (cases "k = s")
    case True
    then have "u = new_utxo a n c" using that put by simp
    then show ?thesis using True prev put by (auto simp: new_utxo_def split: nat.splits)
  next
    case False
    then have k: "slot_sequence_to_treasury_utxo a (n, k) = Some u" using that put by simp
    then have "k < s" using dom [of k] by simp
    then show ?thesis using old [OF k] put by (auto split: nat.splits)
  qed
  moreover have "slot_sequence_to_treasury_utxo a' (n, k) \<noteq> None \<longleftrightarrow> k < s + 1" for k
    using dom [of k] put by (auto simp: less_Suc_eq)
  moreover have "ctip_db a' n = map_option (\<lambda>u. \<lparr>ctip_outpoint = tu_outpoint u,
      ctip_value = tu_total_value u\<rparr>) (slot_sequence_to_treasury_utxo a' (n, s + 1 - 1))"
    using put by (simp add: new_utxo_def)
  moreover have "treasury_utxo_count a' n = Some (s + 1)" using put by simp
  ultimately show ?thesis unfolding ledger_wf_def by simp
qed

lemma put_ctip_outpoints:
  assumes "ledger_wf a n" "outpoints_wf a" "put_ctip a n c = Inr (a', s)"
    and "ctip_outpoint_to_value_seq a (ctip_outpoint c) = None"
  shows "outpoints_wf a'"
proof -
  note put = assms(3) [unfolded put_ctip_Inr]
  have none: "slot_sequence_to_treasury_utxo a (n, s) = None"
    using ledger_wf_None [OF assms(1), of s] put by simp
  have "ctip_outpoint_to_value_seq a' (tu_outpoint u) = Some (m, tu_total_value u, k)"
    if "slot_sequence_to_treasury_utxo a' (m, k) = Some u" for m k u
  proof (cases "(m, k) = (n, s)")
    case True
    then show ?thesis using that put by (auto simp: new_utxo_def)
  next
    case False
    then have "slot_sequence_to_treasury_utxo a (m, k) = Some u" using that put by auto
    then have "ctip_outpoint_to_value_seq a (tu_outpoint u) = Some (m, tu_total_value u, k)"
      using assms(2) by (simp add: outpoints_wf_def)
    then show ?thesis using put assms(4) by auto
  qed
  moreover have "\<exists>u. slot_sequence_to_treasury_utxo a' (m, k) = Some u \<and> tu_outpoint u = outp \<and>
      tu_total_value u = v"
    if at: "ctip_outpoint_to_value_seq a' outp = Some (m, v, k)" for outp m v k
  proof (cases "outp = ctip_outpoint c")
    case True
    then show ?thesis using at put by (auto simp: new_utxo_def)
  next
    case False
    then have "ctip_outpoint_to_value_seq a outp = Some (m, v, k)" using at put by simp
    then obtain u where "slot_sequence_to_treasury_utxo a (m, k) = Some u" "tu_outpoint u = outp"
        "tu_total_value u = v"
      using assms(2) unfolding outpoints_wf_def by blast
    then show ?thesis using put none by auto
  qed
  ultimately show ?thesis by (simp add: outpoints_wf_def)
qed

lemma put_ctip_wf:
  assumes "active_wf a" "put_ctip a n c = Inr (a', s)"
    and "ctip_outpoint_to_value_seq a (ctip_outpoint c) = None"
  shows "active_wf a'"
proof -
  have "ledger_wf a' m" for m
    using put_ctip_ledger_other [of a m n c a' s] put_ctip_ledger_same [of a n c a' s] assms
    by (cases "m = n") (auto simp: active_wf_def)
  moreover have "pending_wf a'"
    using assms(1,2) by (simp add: active_wf_def pending_wf_def put_ctip_Inr)
  moreover have "outpoints_wf a'"
    using put_ctip_outpoints [OF _ _ assms(2,3)] assms(1) by (simp add: active_wf_def)
  ultimately show ?thesis by (simp add: active_wf_def)
qed

section \<open>Pending bundles\<close>

lemma update_pending_Inr:
  "update_pending a n f = Inr a' \<longleftrightarrow>
     (\<exists>p. pending_m6ids_db a n = Some p \<and>
        a' = a\<lparr>pending_m6ids_db := (pending_m6ids_db a)(n := Some (f p))\<rparr>)"
  by (auto simp: update_pending_def with_pending_withdrawals_def split: option.splits)

lemma pending_upd_idem:
  "pending_m6ids_db a n = Some p \<Longrightarrow>
     a\<lparr>pending_m6ids_db := (pending_m6ids_db a)(n := Some p)\<rparr> = a"
  by (simp add: fun_upd_idem)

lemma update_pending_undo:
  assumes "pending_m6ids_db a n = Some p" "g (f p) = p"
  shows "\<exists>a'. update_pending a n f = Inr a' \<and> update_pending a' n g = Inr a"
  using assms by (auto simp: update_pending_Inr pending_upd_idem)

text \<open>Changing the pending bundles of a slot to a list with distinct keys keeps the invariant.\<close>

lemma pending_upd_wf:
  assumes "active_wf a" "pending_m6ids_db a n \<noteq> None" "distinct (map fst p)"
  shows "active_wf (a\<lparr>pending_m6ids_db := (pending_m6ids_db a)(n := Some p)\<rparr>)"
proof -
  have "sidechain_db a n \<noteq> None" using assms by (auto simp: active_wf_def pending_wf_def)
  moreover have "ledger_wf (a\<lparr>pending_m6ids_db := (pending_m6ids_db a)(n := Some p)\<rparr>) m" for m
    using assms(1) ledger_wf_cong [of _ m a] by (simp add: active_wf_def)
  ultimately show ?thesis using assms
    by (auto simp: active_wf_def pending_wf_def outpoints_wf_def)
qed

lemma update_pending_wf:
  assumes "active_wf a" "update_pending a n f = Inr a'"
    and "\<And>p. distinct (map fst p) \<Longrightarrow> distinct (map fst (f p))"
  shows "active_wf a'"
proof -
  from assms(2) obtain p where p: "pending_m6ids_db a n = Some p"
    and a': "a' = a\<lparr>pending_m6ids_db := (pending_m6ids_db a)(n := Some (f p))\<rparr>"
    by (auto simp: update_pending_Inr)
  have "distinct (map fst p)" using assms(1) p by (simp add: active_wf_def pending_wf_def)
  with assms(3) pending_upd_wf [OF assms(1)] p a' show ?thesis by simp
qed

lemma put_sidechain_wf:
  assumes "active_wf a"
  shows "active_wf (put_sidechain a n sc)"
proof -
  have "ledger_wf (put_sidechain a n sc) m" for m
    using assms ledger_wf_cong [of "put_sidechain a n sc" m a]
    by (simp add: active_wf_def put_sidechain_def Let_def)
  then show ?thesis using assms
    by (auto simp: put_sidechain_def Let_def active_wf_def pending_wf_def outpoints_wf_def)
qed

lemma delete_put_sidechain:
  assumes "pending_wf a" "sidechain_db a n = None"
  shows "delete_sidechain (put_sidechain a n sc) n = a"
proof -
  have "pending_m6ids_db a n = None" using assms by (simp add: pending_wf_def)
  with assms(2) show ?thesis
    by (simp add: put_sidechain_def delete_sidechain_def Let_def fun_upd_idem)
qed

lemma put_put_sidechain:
  assumes "pending_wf a" "sidechain_db a n = Some old"
  shows "put_sidechain (put_sidechain a n sc) n old = a"
proof -
  have "pending_m6ids_db a n \<noteq> None" using assms by (simp add: pending_wf_def)
  with assms(2) show ?thesis by (auto simp add: put_sidechain_def Let_def fun_upd_idem)
qed

end
