(* ===== verification/BlockHashes.thy ===== *)
theory BlockHashes
  imports ActiveDbs
begin

text \<open>
  The tables keyed by block hash, \<open>BlockHashDbs\<close> in
  \<open>src/lib/validator/dbs/block_hashes.rs\<close>, with the block diffs they store (the data types of
  \<open>src/lib/validator/dbs/diff.rs\<close>; their \<open>apply\<close> and \<open>undo\<close> are in the theory
  \<open>Diff\<close>), and the record of all validator tables, \<open>Dbs\<close> in
  \<open>src/lib/validator/dbs/mod.rs\<close>.

  A \<open>HashMap\<close> keyed by slot is an association list with distinct keys whose order stands for
  the iteration order; \<open>Work\<close>, a 256-bit integer, is a natural number.
\<close>

section \<open>Block diffs\<close>

record new_sidechain_proposal =
  nsp_id :: sidechain_proposal_id
  nsp_sidechain :: sidechain

datatype ack_effect = NoActivation | ReplaceActive sidechain | SlotActivation

record ack_sidechain_proposal =
  asp_id :: sidechain_proposal_id
  asp_effect :: ack_effect

record propose_bundle_diff =
  pb_sidechain_number :: sidechain_number
  pb_m6id :: m6id

datatype ack_bundle_action =
    ActAlarm "m6id set"
  | ActUpvote m6id "m6id list"

type_synonym ack_bundles_diff = "(sidechain_number \<times> ack_bundle_action) list"

datatype coinbase_msg_diff =
    DAckBundles ack_bundles_diff
  | DAckSidechainProposal ack_sidechain_proposal
  | DNewSidechainProposal new_sidechain_proposal
  | DProposeBundle propose_bundle_diff

type_synonym failed_proposals = "sidechain_proposal_id \<Rightarrow> sidechain option"

text \<open>Per slot, the failed bundles by their position; a \<open>BTreeMap\<close> is its ordered entries.\<close>

type_synonym failed_m6ids = "(sidechain_number \<times> (nat \<times> m6id \<times> pending_m6id_info) list) list"

record coinbase_diff =
  cd_msgs :: "coinbase_msg_diff list"
  cd_failed_proposals :: failed_proposals
  cd_failed_m6ids :: failed_m6ids

type_synonym m5_diff = "(sidechain_number \<times> ctip) list"

record m6_diff =
  m6d_sidechain_number :: sidechain_number
  m6d_new_ctip :: ctip
  m6d_removed_pending_withdrawal :: m6id
  m6d_removed_pending_withdrawal_index :: nat
  m6d_removed_pending_withdrawal_info :: pending_m6id_info

datatype tx_diff = DM5 m5_diff | DM6 m6_diff

record block_diff =
  bd_coinbase :: coinbase_diff
  bd_txs :: "tx_diff list"

section \<open>The tables\<close>

record block_hash_dbs =
  bmm_commitments_db :: "blockhash \<Rightarrow> bmm_commitments option"
  coinbase_txid_db :: "blockhash \<Rightarrow> txid option"
  cumulative_work_db :: "blockhash \<Rightarrow> nat option"
  diff_db :: "blockhash \<Rightarrow> block_diff option"
  events_db :: "blockhash \<Rightarrow> block_event list option"
  header_db :: "blockhash \<Rightarrow> header option"
  height_db :: "blockhash \<Rightarrow> u32 option"
  seen_bmm_request_txs :: "blockhash \<times> sidechain_number \<Rightarrow> (txid \<times> bmm_commitment) set"

definition block_hash_dbs_empty :: block_hash_dbs where
  "block_hash_dbs_empty = \<lparr>bmm_commitments_db = (\<lambda>_. None), coinbase_txid_db = (\<lambda>_. None),
     cumulative_work_db = (\<lambda>_. None), diff_db = (\<lambda>_. None), events_db = (\<lambda>_. None),
     header_db = (\<lambda>_. None), height_db = (\<lambda>_. None), seen_bmm_request_txs = (\<lambda>_. {})\<rparr>"

record dbs =
  active_sidechains :: active_dbs
  block_hashes :: block_hash_dbs
  current_chain_tip :: "blockhash option"
  proposal_id_to_sidechain :: "sidechain_proposal_id \<Rightarrow> sidechain option"
  seen_unconsolidated_ctip_outputs :: "outpoint \<Rightarrow> (sidechain_number \<times> amount) option"

definition dbs_empty :: dbs where
  "dbs_empty = \<lparr>active_sidechains = active_dbs_empty, block_hashes = block_hash_dbs_empty,
     current_chain_tip = None, proposal_id_to_sidechain = (\<lambda>_. None),
     seen_unconsolidated_ctip_outputs = (\<lambda>_. None)\<rparr>"

section \<open>Storing headers and blocks\<close>

definition contains_header :: "block_hash_dbs \<Rightarrow> blockhash \<Rightarrow> bool" where
  "contains_header db h = (header_db db h \<noteq> None)"

definition put_header :: "btc \<Rightarrow> block_hash_dbs \<Rightarrow> header \<Rightarrow> u32 \<Rightarrow> block_hash_dbs" where
  "put_header B db hdr height =
     (let block_hash = b_block_hash B hdr;
          db = db\<lparr>header_db := (header_db db)(block_hash := Some hdr)\<rparr>;
          db = db\<lparr>height_db := (height_db db)(block_hash := Some height)\<rparr>
      in if hdr_prev_blockhash hdr \<noteq> all_zeros
         then db\<lparr>height_db := (height_db db)(hdr_prev_blockhash hdr := Some (height - 1))\<rparr>
         else db)"

fun put_headers :: "btc \<Rightarrow> block_hash_dbs \<Rightarrow> (header \<times> u32) list \<Rightarrow> block_hash_dbs" where
  "put_headers B db [] = db"
| "put_headers B db ((hdr, height) # headers) =
     put_headers B (put_header B db hdr height) headers"

datatype put_block_info_error =
    PBI_MissingHeader blockhash
  | PBI_MissingParent blockhash blockhash

definition put_block_info ::
    "btc \<Rightarrow> block_hash_dbs \<Rightarrow> blockhash \<Rightarrow> block_info \<Rightarrow> block_diff \<Rightarrow>
     put_block_info_error + block_hash_dbs" where
  "put_block_info B db block_hash bi diff =
     (case header_db db block_hash of
        None \<Rightarrow> Inl (PBI_MissingHeader block_hash)
      | Some hdr \<Rightarrow>
     (case (if hdr_prev_blockhash hdr = all_zeros then Some (b_work B hdr)
            else map_option (\<lambda>w. w + b_work B hdr)
              (cumulative_work_db db (hdr_prev_blockhash hdr))) of
        None \<Rightarrow> Inl (PBI_MissingParent block_hash (hdr_prev_blockhash hdr))
      | Some cumulative_work \<Rightarrow>
          Inr (db\<lparr>bmm_commitments_db := (bmm_commitments_db db)
                    (block_hash := Some (bi_bmm_commitments bi)),
                  coinbase_txid_db := (coinbase_txid_db db)
                    (block_hash := Some (bi_coinbase_txid bi)),
                  cumulative_work_db := (cumulative_work_db db)
                    (block_hash := Some cumulative_work),
                  events_db := (events_db db)(block_hash := Some (bi_events bi)),
                  diff_db := (diff_db db)(block_hash := Some diff)\<rparr>)))"

section \<open>Ancestors\<close>

text \<open>One step of the \<open>ancestor_headers\<close> iterator: its state is the next block hash.\<close>

definition ancestor_next :: "block_hash_dbs \<Rightarrow> blockhash \<Rightarrow> ((blockhash \<times> header) \<times> blockhash) option" where
  "ancestor_next db h = map_option (\<lambda>hdr. ((h, hdr), hdr_prev_blockhash hdr)) (header_db db h)"

datatype last_common_ancestor_error =
    LCA_Db fault
  | MissingAncestor blockhash u32 u32

text \<open>Skipping \<open>k\<close> elements: the iterator after them, or the depth at which it ran out.\<close>

fun skip_ancestors :: "block_hash_dbs \<Rightarrow> blockhash \<Rightarrow> nat \<Rightarrow> u32 \<Rightarrow> u32 + blockhash" where
  "skip_ancestors db h 0 depth = Inr h"
| "skip_ancestors db h (Suc k) depth =
     (case ancestor_next db h of
        None \<Rightarrow> Inl depth
      | Some (_, h') \<Rightarrow> skip_ancestors db h' k (depth + 1))"

text \<open>The final loop, \<open>for common_depth in 0..=min\<close>: \<open>k\<close> iterations remain and the
  current height is \<open>min - common_depth\<close>.\<close>

fun common_loop :: "block_hash_dbs \<Rightarrow> blockhash \<Rightarrow> u32 \<Rightarrow> blockhash \<Rightarrow> u32 \<Rightarrow>
    blockhash \<Rightarrow> blockhash \<Rightarrow> u32 \<Rightarrow> nat \<Rightarrow> last_common_ancestor_error + blockhash" where
  "common_loop db bh0 height0 bh1 height1 h0 h1 current_height 0 = Inr all_zeros"
| "common_loop db bh0 height0 bh1 height1 h0 h1 current_height (Suc k) =
     (case ancestor_next db h0 of
        None \<Rightarrow> Inl (MissingAncestor bh0 (height0 - current_height) height0)
      | Some ((ancestor0, _), h0') \<Rightarrow>
     (case ancestor_next db h1 of
        None \<Rightarrow> Inl (MissingAncestor bh1 (height1 - current_height) height1)
      | Some ((ancestor1, _), h1') \<Rightarrow>
          if ancestor0 = ancestor1 then Inr ancestor0
          else common_loop db bh0 height0 bh1 height1 h0' h1' (current_height - 1) k))"

definition last_common_ancestor ::
    "block_hash_dbs \<Rightarrow> blockhash \<Rightarrow> blockhash \<Rightarrow> last_common_ancestor_error + blockhash" where
  "last_common_ancestor db bh0 bh1 =
     (if bh0 = bh1 then Inr bh0
      else if bh0 = all_zeros \<or> bh1 = all_zeros then Inr all_zeros
      else case height_db db bh0 of
        None \<Rightarrow> Inl (LCA_Db MissingValue)
      | Some height0 \<Rightarrow>
     (case height_db db bh1 of
        None \<Rightarrow> Inl (LCA_Db MissingValue)
      | Some height1 \<Rightarrow>
     (case skip_ancestors db bh1 (unat height1 - unat height0) 0 of
        Inl depth \<Rightarrow> Inl (MissingAncestor bh1 depth height1)
      | Inr h1 \<Rightarrow>
     (case skip_ancestors db bh0 (unat height0 - unat height1) 0 of
        Inl depth \<Rightarrow> Inl (MissingAncestor bh0 depth height0)
      | Inr h0 \<Rightarrow>
          common_loop db bh0 height0 bh1 height1 h0 h1 (min height0 height1)
            (Suc (unat (min height0 height1)))))))"

section \<open>Header and block info\<close>

text \<open>\<open>Inl Panic\<close> is the failed assertion that the stored header has its key as hash.\<close>

definition try_get_header_info :: "btc \<Rightarrow> block_hash_dbs \<Rightarrow> blockhash \<Rightarrow> fault + header_info option" where
  "try_get_header_info B db block_hash =
     (case header_db db block_hash of
        None \<Rightarrow> Inr None
      | Some hdr \<Rightarrow>
          if b_block_hash B hdr \<noteq> block_hash then Inl Panic
          else (case height_db db block_hash of
            None \<Rightarrow> Inl Inconsistent
          | Some height \<Rightarrow>
              Inr (Some \<lparr>hi_block_hash = b_block_hash B hdr,
                hi_prev_block_hash = hdr_prev_blockhash hdr, hi_height = height,
                hi_work = b_work B hdr, hi_timestamp = hdr_time hdr\<rparr>)))"

datatype get_header_info_error = GHI_Db fault | GHI_MissingHeader blockhash

definition get_header_info :: "btc \<Rightarrow> block_hash_dbs \<Rightarrow> blockhash \<Rightarrow> get_header_info_error + header_info" where
  "get_header_info B db block_hash =
     (case try_get_header_info B db block_hash of
        Inl e \<Rightarrow> Inl (GHI_Db e)
      | Inr None \<Rightarrow> Inl (GHI_MissingHeader block_hash)
      | Inr (Some hi) \<Rightarrow> Inr hi)"

text \<open>The \<open>while\<close> loop of \<open>try_get_header_infos\<close>, with the remaining count.\<close>

fun header_infos_loop :: "btc \<Rightarrow> block_hash_dbs \<Rightarrow> nat \<Rightarrow> blockhash \<Rightarrow> fault + header_info list" where
  "header_infos_loop B db 0 ancestor = Inr []"
| "header_infos_loop B db (Suc ancestors) ancestor =
     (if ancestor = all_zeros then Inr []
      else case try_get_header_info B db ancestor of
        Inl e \<Rightarrow> Inl e
      | Inr None \<Rightarrow> Inr []
      | Inr (Some hi) \<Rightarrow>
          (case header_infos_loop B db ancestors (hi_prev_block_hash hi) of
             Inl e \<Rightarrow> Inl e
           | Inr his \<Rightarrow> Inr (hi # his)))"

definition try_get_header_infos ::
    "btc \<Rightarrow> block_hash_dbs \<Rightarrow> blockhash \<Rightarrow> nat \<Rightarrow> fault + header_info list option" where
  "try_get_header_infos B db block_hash max_ancestors =
     (case try_get_header_info B db block_hash of
        Inl e \<Rightarrow> Inl e
      | Inr None \<Rightarrow> Inr None
      | Inr (Some hi) \<Rightarrow>
          (case header_infos_loop B db max_ancestors (hi_prev_block_hash hi) of
             Inl e \<Rightarrow> Inl e
           | Inr his \<Rightarrow> Inr (Some (hi # his))))"

definition try_get_block_info :: "block_hash_dbs \<Rightarrow> blockhash \<Rightarrow> fault + block_info option" where
  "try_get_block_info db block_hash =
     (case bmm_commitments_db db block_hash of
        None \<Rightarrow> Inr None
      | Some bmm_commitments \<Rightarrow>
     (case coinbase_txid_db db block_hash of
        None \<Rightarrow> Inl Inconsistent
      | Some coinbase_txid \<Rightarrow>
     (case events_db db block_hash of
        None \<Rightarrow> Inl Inconsistent
      | Some events \<Rightarrow>
          Inr (Some \<lparr>bi_bmm_commitments = bmm_commitments, bi_coinbase_txid = coinbase_txid,
            bi_events = events\<rparr>))))"

datatype get_block_info_error = GBI_Db fault | GBI_MissingValue blockhash

definition get_block_info :: "block_hash_dbs \<Rightarrow> blockhash \<Rightarrow> get_block_info_error + block_info" where
  "get_block_info db block_hash =
     (case try_get_block_info db block_hash of
        Inl e \<Rightarrow> Inl (GBI_Db e)
      | Inr None \<Rightarrow> Inl (GBI_MissingValue block_hash)
      | Inr (Some bi) \<Rightarrow> Inr bi)"

definition try_get_two_way_peg_data ::
    "btc \<Rightarrow> block_hash_dbs \<Rightarrow> blockhash \<Rightarrow> fault + two_way_peg_data option" where
  "try_get_two_way_peg_data B db block_hash =
     (case try_get_header_info B db block_hash of
        Inl e \<Rightarrow> Inl e
      | Inr None \<Rightarrow> Inr None
      | Inr (Some hi) \<Rightarrow>
     (case try_get_block_info db block_hash of
        Inl e \<Rightarrow> Inl e
      | Inr None \<Rightarrow> Inr None
      | Inr (Some bi) \<Rightarrow> Inr (Some \<lparr>twp_header_info = hi, twp_block_info = bi\<rparr>)))"

datatype two_way_peg_range_error =
    TWP_Db fault
  | EndBlockNotFound blockhash
  | PreviousBlockNotFound blockhash blockhash
  | StartBlockNotAncestor blockhash blockhash

text \<open>The \<open>while\<close> loop of \<open>get_two_way_peg_data_range\<close>. A cycle of headers would keep it
  running, so its value is an option, \<open>None\<close> where it does not return.\<close>

partial_function (option) peg_range_loop ::
    "btc \<Rightarrow> block_hash_dbs \<Rightarrow> blockhash option \<Rightarrow> blockhash \<Rightarrow> blockhash \<Rightarrow> blockhash \<Rightarrow>
     two_way_peg_data list \<Rightarrow> (two_way_peg_range_error + two_way_peg_data list) option" where
  "peg_range_loop B db start_block end_block prev_block current_block res =
     (if Some current_block = start_block then Some (Inr (rev res))
      else if current_block = all_zeros then
        (case start_block of
           Some start_block \<Rightarrow> Some (Inl (StartBlockNotAncestor start_block end_block))
         | None \<Rightarrow> Some (Inr (rev res)))
      else case try_get_two_way_peg_data B db current_block of
        Inl e \<Rightarrow> Some (Inl (TWP_Db e))
      | Inr None \<Rightarrow> Some (Inl (PreviousBlockNotFound current_block prev_block))
      | Inr (Some d) \<Rightarrow>
          peg_range_loop B db start_block end_block current_block
            (hi_prev_block_hash (twp_header_info d)) (res @ [d]))"

definition get_two_way_peg_data_range ::
    "btc \<Rightarrow> block_hash_dbs \<Rightarrow> blockhash option \<Rightarrow> blockhash \<Rightarrow>
     (two_way_peg_range_error + two_way_peg_data list) option" where
  "get_two_way_peg_data_range B db start_block end_block =
     (case try_get_two_way_peg_data B db end_block of
        Inl e \<Rightarrow> Some (Inl (TWP_Db e))
      | Inr None \<Rightarrow> Some (Inl (EndBlockNotFound end_block))
      | Inr (Some d) \<Rightarrow>
          if Some end_block = start_block then Some (Inr [d])
          else peg_range_loop B db start_block end_block end_block
            (hi_prev_block_hash (twp_header_info d)) [d])"

section \<open>Seen BMM requests\<close>

definition get_seen_bmm_requests ::
    "block_hash_dbs \<Rightarrow> blockhash \<Rightarrow> sidechain_number \<Rightarrow> bmm_commitment \<Rightarrow> txid set" where
  "get_seen_bmm_requests db parent slot commitment =
     {txid. (txid, commitment) \<in> seen_bmm_request_txs db (parent, slot)}"

definition get_seen_bmm_requests_for_parent_block ::
    "block_hash_dbs \<Rightarrow> blockhash \<Rightarrow> sidechain_number \<Rightarrow> bmm_commitment \<Rightarrow> txid set" where
  "get_seen_bmm_requests_for_parent_block db parent slot commitment =
     {txid. (txid, commitment) \<in> seen_bmm_request_txs db (parent, slot)}"

definition put_seen_bmm_request ::
    "block_hash_dbs \<Rightarrow> blockhash \<Rightarrow> sidechain_number \<Rightarrow> txid \<Rightarrow> bmm_commitment \<Rightarrow> block_hash_dbs" where
  "put_seen_bmm_request db parent slot txid commitment =
     db\<lparr>seen_bmm_request_txs := (seen_bmm_request_txs db)
       ((parent, slot) := insert (txid, commitment) (seen_bmm_request_txs db (parent, slot)))\<rparr>"

end
