(* ===== verification/Diff.thy ===== *)
theory Diff
  imports BlockHashes
begin

text \<open>
  Applying and undoing block diffs, \<open>src/lib/validator/dbs/diff.rs\<close>. The trait \<open>Diff\<close> is
  the locale \<open>reversible\<close>: a diff that is valid for a state can be applied, and undoing it
  restores the state. The locale is interpreted for every kind of diff the trait is implemented
  for, up to the diff of a whole block.
\<close>

datatype undo_error =
    U_Db fault
  | SidechainVoteCountUnderflow sidechain_number
  | BundleVoteCountUnderflow sidechain_number m6id

definition undo_db :: "fault + 'a \<Rightarrow> undo_error + 'a" where
  "undo_db r = (case r of Inl e \<Rightarrow> Inl (U_Db e) | Inr x \<Rightarrow> Inr x)"

section \<open>Sidechain proposals\<close>

definition apply_new_sidechain_proposal ::
    "new_sidechain_proposal \<Rightarrow> failed_proposals \<Rightarrow> failed_proposals" where
  "apply_new_sidechain_proposal d props = props(nsp_id d := Some (nsp_sidechain d))"

definition undo_new_sidechain_proposal ::
    "new_sidechain_proposal \<Rightarrow> failed_proposals \<Rightarrow> failed_proposals" where
  "undo_new_sidechain_proposal d props = props(nsp_id d := None)"

definition set_vote_count :: "u16 \<Rightarrow> sidechain \<Rightarrow> sidechain" where
  "set_vote_count v sc = sc\<lparr>sc_status := (sc_status sc)\<lparr>st_vote_count := v\<rparr>\<rparr>"

definition set_activation_height :: "u32 option \<Rightarrow> sidechain \<Rightarrow> sidechain" where
  "set_activation_height h sc = sc\<lparr>sc_status := (sc_status sc)\<lparr>st_activation_height := h\<rparr>\<rparr>"

abbreviation sc_votes :: "sidechain \<Rightarrow> u16" where
  "sc_votes sc \<equiv> st_vote_count (sc_status sc)"

definition put_proposal :: "sidechain_proposal_id \<Rightarrow> sidechain option \<Rightarrow> dbs \<Rightarrow> dbs" where
  "put_proposal pid sc db =
     db\<lparr>proposal_id_to_sidechain := (proposal_id_to_sidechain db)(pid := sc)\<rparr>"

definition apply_ack_sidechain_proposal ::
    "ack_sidechain_proposal \<Rightarrow> u32 \<Rightarrow> dbs \<Rightarrow> fault + dbs" where
  "apply_ack_sidechain_proposal d height db =
     (case proposal_id_to_sidechain db (asp_id d) of
        None \<Rightarrow> Inl MissingValue
      | Some sc \<Rightarrow>
          let sc = set_vote_count (sc_votes sc + 1) sc in
          if asp_effect d = NoActivation then Inr (put_proposal (asp_id d) (Some sc) db)
          else
            let sc = set_activation_height (Some height) sc;
                db = db\<lparr>active_sidechains := put_sidechain (active_sidechains db)
                  (id_sidechain_number (asp_id d)) sc\<rparr>
            in Inr (put_proposal (asp_id d) None db))"

definition undo_ack_sidechain_proposal ::
    "ack_sidechain_proposal \<Rightarrow> dbs \<Rightarrow> undo_error + dbs" where
  "undo_ack_sidechain_proposal d db =
     (let n = id_sidechain_number (asp_id d) in
      case (case asp_effect d of
              NoActivation \<Rightarrow>
                (case proposal_id_to_sidechain db (asp_id d) of
                   None \<Rightarrow> Inl (U_Db MissingValue)
                 | Some sc \<Rightarrow> Inr (sc, db))
            | ReplaceActive prev \<Rightarrow>
                (case sidechain_db (active_sidechains db) n of
                   None \<Rightarrow> Inl (U_Db MissingValue)
                 | Some sc \<Rightarrow>
                     Inr (set_activation_height None sc,
                       db\<lparr>active_sidechains := put_sidechain (active_sidechains db) n prev\<rparr>))
            | SlotActivation \<Rightarrow>
                (case sidechain_db (active_sidechains db) n of
                   None \<Rightarrow> Inl (U_Db MissingValue)
                 | Some sc \<Rightarrow>
                     Inr (set_activation_height None sc,
                       db\<lparr>active_sidechains := delete_sidechain (active_sidechains db) n\<rparr>))) of
        Inl e \<Rightarrow> Inl e
      | Inr (sc, db) \<Rightarrow>
          (case checked_sub (sc_votes sc) 1 of
             None \<Rightarrow> Inl (SidechainVoteCountUnderflow n)
           | Some v \<Rightarrow> Inr (put_proposal (asp_id d) (Some (set_vote_count v sc)) db)))"

section \<open>Bundles\<close>

definition apply_propose_bundle :: "propose_bundle_diff \<Rightarrow> u32 \<Rightarrow> active_dbs \<Rightarrow> fault + active_dbs" where
  "apply_propose_bundle d height a = put_pending_m6id a (pb_sidechain_number d) (pb_m6id d) height"

definition undo_propose_bundle :: "propose_bundle_diff \<Rightarrow> active_dbs \<Rightarrow> fault + active_dbs" where
  "undo_propose_bundle d a = delete_pending_withdrawal a (pb_sidechain_number d) (pb_m6id d)"

definition upvote :: "pending_m6id_info \<Rightarrow> pending_m6id_info" where
  "upvote info = info\<lparr>pi_vote_count := pi_vote_count info + 1\<rparr>"

text \<open>\<open>pending[m6id].vote_count += 1\<close> panics if the bundle is absent; then every other
  listed bundle is downvoted.\<close>

definition apply_upvote :: "m6id \<Rightarrow> m6id list \<Rightarrow> pending_m6ids \<Rightarrow> (fault + unit) \<times> pending_m6ids" where
  "apply_upvote m downvoted_others pending =
     (case map_of pending m of
        None \<Rightarrow> (Inl Panic, pending)
      | Some _ \<Rightarrow>
          (Inr (), fold (\<lambda>other. om_modify other downvote) downvoted_others
             (om_modify m upvote pending)))"

definition apply_ack_bundle_action ::
    "sidechain_number \<Rightarrow> ack_bundle_action \<Rightarrow> active_dbs \<Rightarrow> fault + active_dbs" where
  "apply_ack_bundle_action n action a =
     (case action of
        ActAlarm _ \<Rightarrow> alarm_pending_m6ds a n
      | ActUpvote m downvoted_others \<Rightarrow>
          (case with_pending_withdrawals a n (apply_upvote m downvoted_others) of
             Inl e \<Rightarrow> Inl e
           | Inr (Inl e, _) \<Rightarrow> Inl e
           | Inr (Inr _, a) \<Rightarrow> Inr a))"

text \<open>A loop over the entries of a map keyed by slot.\<close>

fun each_slot :: "(sidechain_number \<Rightarrow> 'x \<Rightarrow> 's \<Rightarrow> 'e + 's) \<Rightarrow> (sidechain_number \<times> 'x) list \<Rightarrow>
    's \<Rightarrow> 'e + 's" where
  "each_slot f [] s = Inr s"
| "each_slot f ((n, x) # d) s =
     (case f n x s of Inl e \<Rightarrow> Inl e | Inr s' \<Rightarrow> each_slot f d s')"

definition apply_ack_bundles :: "ack_bundles_diff \<Rightarrow> active_dbs \<Rightarrow> fault + active_dbs" where
  "apply_ack_bundles d a = each_slot apply_ack_bundle_action d a"

definition undo_alarm :: "m6id set \<Rightarrow> pending_m6ids \<Rightarrow> pending_m6ids" where
  "undo_alarm positive_votes_proposals pending =
     map (\<lambda>(m, info). (m, if m \<in> positive_votes_proposals then upvote info else info)) pending"

definition undo_upvote :: "sidechain_number \<Rightarrow> m6id \<Rightarrow> m6id list \<Rightarrow> pending_m6ids \<Rightarrow>
    (undo_error + unit) \<times> pending_m6ids" where
  "undo_upvote n m downvoted_others pending =
     (case map_of pending m of
        None \<Rightarrow> (Inl (U_Db Panic), pending)
      | Some info \<Rightarrow>
          (case checked_sub (pi_vote_count info) 1 of
             None \<Rightarrow> (Inl (BundleVoteCountUnderflow n m), pending)
           | Some v \<Rightarrow>
               (Inr (), fold (\<lambda>other. om_modify other upvote) downvoted_others
                  (om_modify m (\<lambda>info. info\<lparr>pi_vote_count := v\<rparr>) pending))))"

definition undo_ack_bundle_action ::
    "sidechain_number \<Rightarrow> ack_bundle_action \<Rightarrow> active_dbs \<Rightarrow> undo_error + active_dbs" where
  "undo_ack_bundle_action n action a =
     (case action of
        ActAlarm positive_votes_proposals \<Rightarrow>
          undo_db (update_pending a n (undo_alarm positive_votes_proposals))
      | ActUpvote m downvoted_others \<Rightarrow>
          (case with_pending_withdrawals a n (undo_upvote n m downvoted_others) of
             Inl e \<Rightarrow> Inl (U_Db e)
           | Inr (Inl e, _) \<Rightarrow> Inl e
           | Inr (Inr _, a) \<Rightarrow> Inr a))"

definition undo_ack_bundles :: "ack_bundles_diff \<Rightarrow> active_dbs \<Rightarrow> undo_error + active_dbs" where
  "undo_ack_bundles d a = each_slot undo_ack_bundle_action d a"

section \<open>Coinbase messages\<close>

definition with_active :: "dbs \<Rightarrow> 'e + active_dbs \<Rightarrow> 'e + dbs" where
  "with_active db r = (case r of Inl e \<Rightarrow> Inl e | Inr a \<Rightarrow> Inr (db\<lparr>active_sidechains := a\<rparr>))"

fun apply_coinbase_msg :: "u32 \<Rightarrow> coinbase_msg_diff \<Rightarrow> dbs \<Rightarrow> fault + dbs" where
  "apply_coinbase_msg height (DAckBundles d) db =
     with_active db (apply_ack_bundles d (active_sidechains db))"
| "apply_coinbase_msg height (DAckSidechainProposal d) db =
     apply_ack_sidechain_proposal d height db"
| "apply_coinbase_msg height (DNewSidechainProposal d) db =
     Inr (db\<lparr>proposal_id_to_sidechain :=
       apply_new_sidechain_proposal d (proposal_id_to_sidechain db)\<rparr>)"
| "apply_coinbase_msg height (DProposeBundle d) db =
     with_active db (apply_propose_bundle d height (active_sidechains db))"

fun undo_coinbase_msg :: "coinbase_msg_diff \<Rightarrow> dbs \<Rightarrow> undo_error + dbs" where
  "undo_coinbase_msg (DAckBundles d) db =
     with_active db (undo_ack_bundles d (active_sidechains db))"
| "undo_coinbase_msg (DAckSidechainProposal d) db = undo_ack_sidechain_proposal d db"
| "undo_coinbase_msg (DNewSidechainProposal d) db =
     Inr (db\<lparr>proposal_id_to_sidechain :=
       undo_new_sidechain_proposal d (proposal_id_to_sidechain db)\<rparr>)"
| "undo_coinbase_msg (DProposeBundle d) db =
     with_active db (undo_db (undo_propose_bundle d (active_sidechains db)))"

section \<open>Failed proposals and failed bundles\<close>

definition apply_failed_proposals :: "failed_proposals \<Rightarrow> failed_proposals \<Rightarrow> failed_proposals" where
  "apply_failed_proposals failed props = (\<lambda>k. if failed k \<noteq> None then None else props k)"

definition undo_failed_proposals :: "failed_proposals \<Rightarrow> failed_proposals \<Rightarrow> failed_proposals" where
  "undo_failed_proposals failed props = (\<lambda>k. if failed k \<noteq> None then failed k else props k)"

text \<open>The loops over positions; the list of failed positions is ascending.\<close>

fun remove_failed_loop :: "nat \<Rightarrow> nat list \<Rightarrow> pending_m6ids \<Rightarrow> pending_m6ids \<Rightarrow> pending_m6ids" where
  "remove_failed_loop idx failed [] non_failed = non_failed"
| "remove_failed_loop idx failed ((m, info) # pending) non_failed =
     (case failed of
        f # fs \<Rightarrow>
          if f = idx then remove_failed_loop (Suc idx) fs pending non_failed
          else remove_failed_loop (Suc idx) failed pending (om_insert m info non_failed)
      | [] \<Rightarrow> remove_failed_loop (Suc idx) failed pending (om_insert m info non_failed))"

text \<open>The capacity \<open>pending.len() - failed.len()\<close> must not underflow.\<close>

definition remove_failed_withdrawals ::
    "(nat \<times> m6id \<times> pending_m6id_info) list \<Rightarrow> pending_m6ids \<Rightarrow> (fault + unit) \<times> pending_m6ids" where
  "remove_failed_withdrawals failed pending =
     (if length pending < length failed then (Inl Panic, pending)
      else (Inr (), remove_failed_loop 0 (map fst failed) pending []))"

fun refill_loop :: "nat \<Rightarrow> (nat \<times> m6id \<times> pending_m6id_info) list \<Rightarrow> pending_m6ids \<Rightarrow>
    pending_m6ids \<Rightarrow> pending_m6ids" where
  "refill_loop idx [] [] pending = pending"
| "refill_loop idx [] ((m, info) # non_failed) pending =
     refill_loop (Suc idx) [] non_failed (om_insert m info pending)"
| "refill_loop idx ((j, m, info) # failed) [] pending =
     (if j = idx then refill_loop (Suc idx) failed [] (om_insert m info pending) else pending)"
| "refill_loop idx ((j, m, info) # failed) ((m', info') # non_failed) pending =
     (if j = idx
      then refill_loop (Suc idx) failed ((m', info') # non_failed) (om_insert m info pending)
      else refill_loop (Suc idx) ((j, m, info) # failed) non_failed (om_insert m' info' pending))"

definition refill_pending_withdrawals ::
    "(nat \<times> m6id \<times> pending_m6id_info) list \<Rightarrow> pending_m6ids \<Rightarrow> pending_m6ids" where
  "refill_pending_withdrawals failed non_failed = refill_loop 0 failed non_failed []"

definition apply_failed_slot ::
    "sidechain_number \<Rightarrow> (nat \<times> m6id \<times> pending_m6id_info) list \<Rightarrow> active_dbs \<Rightarrow> fault + active_dbs" where
  "apply_failed_slot n failed a =
     (case with_pending_withdrawals a n (remove_failed_withdrawals failed) of
        Inl e \<Rightarrow> Inl e
      | Inr (Inl e, _) \<Rightarrow> Inl e
      | Inr (Inr _, a) \<Rightarrow> Inr a)"

definition undo_failed_slot ::
    "sidechain_number \<Rightarrow> (nat \<times> m6id \<times> pending_m6id_info) list \<Rightarrow> active_dbs \<Rightarrow> fault + active_dbs" where
  "undo_failed_slot n failed a = update_pending a n (refill_pending_withdrawals failed)"

definition apply_failed_m6ids :: "failed_m6ids \<Rightarrow> active_dbs \<Rightarrow> fault + active_dbs" where
  "apply_failed_m6ids d a = each_slot apply_failed_slot d a"

definition undo_failed_m6ids :: "failed_m6ids \<Rightarrow> active_dbs \<Rightarrow> fault + active_dbs" where
  "undo_failed_m6ids d a = each_slot undo_failed_slot d a"

section \<open>Coinbase, transactions, blocks\<close>

fun apply_all :: "('d \<Rightarrow> 's \<Rightarrow> 'e + 's) \<Rightarrow> 'd list \<Rightarrow> 's \<Rightarrow> 'e + 's" where
  "apply_all f [] s = Inr s"
| "apply_all f (d # ds) s = (case f d s of Inl e \<Rightarrow> Inl e | Inr s' \<Rightarrow> apply_all f ds s')"

definition apply_coinbase :: "u32 \<Rightarrow> coinbase_diff \<Rightarrow> dbs \<Rightarrow> fault + dbs" where
  "apply_coinbase height d db =
     (case apply_all (apply_coinbase_msg height) (cd_msgs d) db of
        Inl e \<Rightarrow> Inl e
      | Inr db \<Rightarrow>
          let db = db\<lparr>proposal_id_to_sidechain :=
                apply_failed_proposals (cd_failed_proposals d) (proposal_id_to_sidechain db)\<rparr>
          in with_active db (apply_failed_m6ids (cd_failed_m6ids d) (active_sidechains db)))"

definition undo_coinbase :: "coinbase_diff \<Rightarrow> dbs \<Rightarrow> undo_error + dbs" where
  "undo_coinbase d db =
     (case with_active db (undo_db (undo_failed_m6ids (cd_failed_m6ids d) (active_sidechains db))) of
        Inl e \<Rightarrow> Inl e
      | Inr db \<Rightarrow>
          let db = db\<lparr>proposal_id_to_sidechain :=
                undo_failed_proposals (cd_failed_proposals d) (proposal_id_to_sidechain db)\<rparr>
          in apply_all undo_coinbase_msg (rev (cd_msgs d)) db)"

definition put_ctip_slot :: "sidechain_number \<Rightarrow> ctip \<Rightarrow> active_dbs \<Rightarrow> fault + active_dbs" where
  "put_ctip_slot n c a = (case put_ctip a n c of Inl e \<Rightarrow> Inl e | Inr (a, _) \<Rightarrow> Inr a)"

definition delete_ctip_slot :: "sidechain_number \<Rightarrow> ctip \<Rightarrow> active_dbs \<Rightarrow> fault + active_dbs" where
  "delete_ctip_slot n c a = delete_ctip a n"

definition apply_m5 :: "m5_diff \<Rightarrow> active_dbs \<Rightarrow> fault + active_dbs" where
  "apply_m5 d a = each_slot put_ctip_slot d a"

definition undo_m5 :: "m5_diff \<Rightarrow> active_dbs \<Rightarrow> fault + active_dbs" where
  "undo_m5 d a = each_slot delete_ctip_slot d a"

definition apply_m6 :: "m6_diff \<Rightarrow> active_dbs \<Rightarrow> fault + active_dbs" where
  "apply_m6 d a =
     (case put_ctip a (m6d_sidechain_number d) (m6d_new_ctip d) of
        Inl e \<Rightarrow> Inl e
      | Inr (a, _) \<Rightarrow>
          delete_pending_withdrawal a (m6d_sidechain_number d) (m6d_removed_pending_withdrawal d))"

definition undo_m6 :: "m6_diff \<Rightarrow> active_dbs \<Rightarrow> fault + active_dbs" where
  "undo_m6 d a =
     (case delete_ctip a (m6d_sidechain_number d) of
        Inl e \<Rightarrow> Inl e
      | Inr a \<Rightarrow>
          (case with_pending_withdrawals a (m6d_sidechain_number d) (\<lambda>pending.
                  case om_shift_insert (m6d_removed_pending_withdrawal_index d)
                    (m6d_removed_pending_withdrawal d) (m6d_removed_pending_withdrawal_info d)
                    pending of
                    None \<Rightarrow> (Inl Panic, pending)
                  | Some pending \<Rightarrow> (Inr (), pending)) of
             Inl e \<Rightarrow> Inl e
           | Inr (Inl e, _) \<Rightarrow> Inl e
           | Inr (Inr _, a) \<Rightarrow> Inr a))"

fun apply_tx :: "tx_diff \<Rightarrow> active_dbs \<Rightarrow> fault + active_dbs" where
  "apply_tx (DM5 m5) a = apply_m5 m5 a"
| "apply_tx (DM6 m6) a = apply_m6 m6 a"

fun undo_tx :: "tx_diff \<Rightarrow> active_dbs \<Rightarrow> fault + active_dbs" where
  "undo_tx (DM5 m5) a = undo_m5 m5 a"
| "undo_tx (DM6 m6) a = undo_m6 m6 a"

definition apply_block :: "u32 \<Rightarrow> block_diff \<Rightarrow> dbs \<Rightarrow> fault + dbs" where
  "apply_block height d db =
     (case apply_coinbase height (bd_coinbase d) db of
        Inl e \<Rightarrow> Inl e
      | Inr db \<Rightarrow> with_active db (apply_all apply_tx (bd_txs d) (active_sidechains db)))"

definition undo_block :: "block_diff \<Rightarrow> dbs \<Rightarrow> undo_error + dbs" where
  "undo_block d db =
     (case with_active db (undo_db (apply_all undo_tx (rev (bd_txs d)) (active_sidechains db))) of
        Inl e \<Rightarrow> Inl e
      | Inr db \<Rightarrow> undo_coinbase (bd_coinbase d) db)"

section \<open>The contract of a diff\<close>

text \<open>
  \<open>ok d s\<close> says that the diff \<open>d\<close> is valid for the state \<open>s\<close>. \<open>ok_all\<close> is validity of
  a sequence, each diff valid for the state the previous ones lead to.
\<close>

fun ok_all :: "('d \<Rightarrow> 's \<Rightarrow> 'e + 's) \<Rightarrow> ('d \<Rightarrow> 's \<Rightarrow> bool) \<Rightarrow> 'd list \<Rightarrow> 's \<Rightarrow> bool" where
  "ok_all f ok [] s = True"
| "ok_all f ok (d # ds) s \<longleftrightarrow>
     ok d s \<and> (case f d s of Inl _ \<Rightarrow> False | Inr s' \<Rightarrow> ok_all f ok ds s')"

lemma apply_all_append:
  "apply_all f (xs @ ys) s =
     (case apply_all f xs s of Inl e \<Rightarrow> Inl e | Inr s' \<Rightarrow> apply_all f ys s')"
  by (induction xs arbitrary: s) (auto split: sum.splits)

lemma ok_all_append:
  "ok_all f ok (xs @ ys) s \<longleftrightarrow>
     ok_all f ok xs s \<and> (case apply_all f xs s of Inl _ \<Rightarrow> False | Inr s' \<Rightarrow> ok_all f ok ys s')"
  by (induction xs arbitrary: s) (auto split: sum.splits)

locale reversible =
  fixes apply_d :: "'d \<Rightarrow> 's \<Rightarrow> 'e + 's"
    and undo_d :: "'d \<Rightarrow> 's \<Rightarrow> 'f + 's"
    and ok :: "'d \<Rightarrow> 's \<Rightarrow> bool"
  assumes undo_apply: "ok d s \<Longrightarrow> \<exists>s'. apply_d d s = Inr s' \<and> undo_d d s' = Inr s"
begin

lemma undo_after: "ok d s \<Longrightarrow> apply_d d s = Inr s' \<Longrightarrow> undo_d d s' = Inr s"
  using undo_apply by force

lemma undo_apply_all:
  "ok_all apply_d ok ds s \<Longrightarrow>
     \<exists>s'. apply_all apply_d ds s = Inr s' \<and> apply_all undo_d (rev ds) s' = Inr s"
proof (induction ds arbitrary: s)
  case (Cons d ds)
  from Cons.prems undo_apply [of d s] obtain s1
    where s1: "apply_d d s = Inr s1" "undo_d d s1 = Inr s" "ok_all apply_d ok ds s1" by auto
  from Cons.IH [OF s1(3)] s1 show ?case by (auto simp: apply_all_append)
qed simp

end

section \<open>Changes of the pending bundles per slot\<close>

text \<open>One step of a loop over slots: the pending bundles of the slot are replaced; a missing
  table entry is the error \<open>mv\<close>.\<close>

definition pending_step :: "'e \<Rightarrow> (sidechain_number \<Rightarrow> 'x \<Rightarrow> pending_m6ids \<Rightarrow> 'e + pending_m6ids) \<Rightarrow>
    sidechain_number \<Rightarrow> 'x \<Rightarrow> active_dbs \<Rightarrow> 'e + active_dbs" where
  "pending_step mv F n x a =
     (case pending_m6ids_db a n of
        None \<Rightarrow> Inl mv
      | Some p \<Rightarrow>
          (case F n x p of
             Inl e \<Rightarrow> Inl e
           | Inr p' \<Rightarrow> Inr (a\<lparr>pending_m6ids_db := (pending_m6ids_db a)(n := Some p')\<rparr>)))"

abbreviation set_pending :: "sidechain_number \<Rightarrow> pending_m6ids \<Rightarrow> active_dbs \<Rightarrow> active_dbs" where
  "set_pending n p a \<equiv> a\<lparr>pending_m6ids_db := (pending_m6ids_db a)(n := Some p)\<rparr>"

lemma pending_step_Inr:
  "pending_step mv F n x a = Inr a' \<longleftrightarrow>
     (\<exists>p p'. pending_m6ids_db a n = Some p \<and> F n x p = Inr p' \<and> a' = set_pending n p' a)"
  by (auto simp: pending_step_def split: option.splits sum.splits)

lemma each_pending_other:
  "each_slot (pending_step mv F) d a = Inr a' \<Longrightarrow> n \<notin> fst ` set d \<Longrightarrow>
     pending_m6ids_db a' n = pending_m6ids_db a n"
  by (induction d arbitrary: a) (auto simp: pending_step_Inr split: sum.splits)

lemma each_pending_commute:
  "each_slot (pending_step mv F) d a = Inr a' \<Longrightarrow> n \<notin> fst ` set d \<Longrightarrow>
     each_slot (pending_step mv F) d (set_pending n p a) = Inr (set_pending n p a')"
proof (induction d arbitrary: a)
  case (Cons y d)
  obtain m x where y: "y = (m, x)" by (cases y)
  from Cons.prems y obtain a1 where a1: "pending_step mv F m x a = Inr a1"
      "each_slot (pending_step mv F) d a1 = Inr a'" and mn: "m \<noteq> n"
    by (auto split: sum.splits)
  then have step: "pending_step mv F m x (set_pending n p a) = Inr (set_pending n p a1)"
    by (auto simp: pending_step_Inr fun_upd_twist)
  have n: "n \<notin> fst ` set d" using Cons.prems(2) by simp
  show ?case unfolding y each_slot.simps step sum.case by (rule Cons.IH [OF a1(2) n])
qed simp

text \<open>A map of changes is valid if its keys are distinct slots with pending bundles and each
  change is valid for the bundles of its slot.\<close>

definition ok_slots :: "(sidechain_number \<Rightarrow> 'x \<Rightarrow> pending_m6ids \<Rightarrow> bool) \<Rightarrow>
    (sidechain_number \<times> 'x) list \<Rightarrow> active_dbs \<Rightarrow> bool" where
  "ok_slots ok_slot d a \<longleftrightarrow> pending_wf a \<and> distinct (map fst d) \<and>
     (\<forall>(n, x)\<in>set d. \<exists>p. pending_m6ids_db a n = Some p \<and> ok_slot n x p)"

lemma pending_wf_set:
  "pending_wf a \<Longrightarrow> pending_m6ids_db a n \<noteq> None \<Longrightarrow> distinct (map fst p) \<Longrightarrow>
     pending_wf (set_pending n p a)"
  by (auto simp: pending_wf_def)

locale slot_reversible =
  fixes F :: "sidechain_number \<Rightarrow> 'x \<Rightarrow> pending_m6ids \<Rightarrow> 'e + pending_m6ids"
    and G :: "sidechain_number \<Rightarrow> 'x \<Rightarrow> pending_m6ids \<Rightarrow> 'f + pending_m6ids"
    and ok_slot :: "sidechain_number \<Rightarrow> 'x \<Rightarrow> pending_m6ids \<Rightarrow> bool"
  assumes slot_undo: "distinct (map fst p) \<Longrightarrow> ok_slot n x p \<Longrightarrow>
      \<exists>p'. F n x p = Inr p' \<and> distinct (map fst p') \<and> G n x p' = Inr p"
begin

lemma each_slot_undo:
  "ok_slots ok_slot d a \<Longrightarrow> \<exists>a'. each_slot (pending_step mv F) d a = Inr a' \<and>
     each_slot (pending_step mv' G) d a' = Inr a"
proof (induction d arbitrary: a)
  case (Cons y d)
  obtain n x where y: "y = (n, x)" by (cases y)
  from Cons.prems y obtain p where p: "pending_m6ids_db a n = Some p" "ok_slot n x p"
    by (auto simp: ok_slots_def)
  have dist: "distinct (map fst p)" using Cons.prems p by (auto simp: ok_slots_def pending_wf_def)
  from slot_undo [OF dist p(2)] obtain p'
    where p': "F n x p = Inr p'" "distinct (map fst p')" "G n x p' = Inr p" by blast
  have n: "n \<notin> fst ` set d" using Cons.prems y by (auto simp: ok_slots_def)
  have step: "pending_step mv F n x a = Inr (set_pending n p' a)"
    using p p' by (auto simp: pending_step_Inr)
  have "ok_slots ok_slot d a" using Cons.prems by (auto simp: ok_slots_def)
  with Cons.IH obtain b where b: "each_slot (pending_step mv F) d a = Inr b"
    "each_slot (pending_step mv' G) d b = Inr a" by blast
  have pb: "pending_m6ids_db b n = Some p" using each_pending_other [OF b(1) n] p by simp
  have "pending_step mv' G n x (set_pending n p' b) = Inr b"
    using p' pb by (auto simp: pending_step_Inr fun_upd_idem)
  with step each_pending_commute [OF b(1) n, of p'] b(2) y show ?case by simp
qed simp

lemma each_slot_wf:
  "\<lbrakk>active_wf a; ok_slots ok_slot d a; each_slot (pending_step mv F) d a = Inr a'\<rbrakk> \<Longrightarrow> active_wf a'"
proof (induction d arbitrary: a)
  case (Cons y d)
  obtain n x where y: "y = (n, x)" by (cases y)
  from Cons.prems y obtain p where p: "pending_m6ids_db a n = Some p" "ok_slot n x p"
    by (auto simp: ok_slots_def)
  have dist: "distinct (map fst p)" using Cons.prems p by (auto simp: ok_slots_def pending_wf_def)
  from slot_undo [OF dist p(2)] obtain p'
    where p': "F n x p = Inr p'" "distinct (map fst p')" by blast
  have rest: "each_slot (pending_step mv F) d (set_pending n p' a) = Inr a'"
  proof -
    have "pending_step mv F n x a = Inr (set_pending n p' a)"
      using p p' by (auto simp: pending_step_Inr)
    then show ?thesis using Cons.prems(3) unfolding y each_slot.simps by (simp only: sum.case)
  qed
  have "active_wf (set_pending n p' a)" by (rule pending_upd_wf) (use Cons.prems p p' in auto)
  moreover have "ok_slots ok_slot d (set_pending n p' a)"
  proof -
    have "pending_wf (set_pending n p' a)"
      using pending_wf_set Cons.prems(2) p p' by (simp add: ok_slots_def)
    moreover have "\<exists>q. pending_m6ids_db (set_pending n p' a) m = Some q \<and> ok_slot m z q"
      if mz: "(m, z) \<in> set d" for m z
    proof -
      have "m \<noteq> n" using Cons.prems(2) y mz by (force simp: ok_slots_def)
      moreover have "\<exists>q. pending_m6ids_db a m = Some q \<and> ok_slot m z q"
        using Cons.prems(2) mz by (auto simp: ok_slots_def)
      ultimately show ?thesis by simp
    qed
    ultimately show ?thesis using Cons.prems(2) by (auto simp: ok_slots_def)
  qed
  ultimately show ?case using Cons.IH rest by blast
qed simp

end

section \<open>Acknowledgement of bundles\<close>

definition try_closure :: "(pending_m6ids \<Rightarrow> ('e + unit) \<times> pending_m6ids) \<Rightarrow> pending_m6ids \<Rightarrow>
    'e + pending_m6ids" where
  "try_closure f p = (case f p of (Inl e, _) \<Rightarrow> Inl e | (Inr _, p') \<Rightarrow> Inr p')"

fun ack_step :: "sidechain_number \<Rightarrow> ack_bundle_action \<Rightarrow> pending_m6ids \<Rightarrow> fault + pending_m6ids" where
  "ack_step n (ActAlarm S) p = Inr (map (\<lambda>(m, info). (m, downvote info)) p)"
| "ack_step n (ActUpvote m others) p = try_closure (apply_upvote m others) p"

fun unack_step :: "sidechain_number \<Rightarrow> ack_bundle_action \<Rightarrow> pending_m6ids \<Rightarrow> undo_error + pending_m6ids" where
  "unack_step n (ActAlarm S) p = Inr (undo_alarm S p)"
| "unack_step n (ActUpvote m others) p = try_closure (undo_upvote n m others) p"

text \<open>An alarm lists exactly the bundles with votes; an upvote names a bundle that is pending and
  not saturated, and lists the other bundles with votes.\<close>

fun ok_action :: "sidechain_number \<Rightarrow> ack_bundle_action \<Rightarrow> pending_m6ids \<Rightarrow> bool" where
  "ok_action n (ActAlarm S) p \<longleftrightarrow> S = {m. \<exists>info. (m, info) \<in> set p \<and> 0 < pi_vote_count info}"
| "ok_action n (ActUpvote m others) p \<longleftrightarrow>
     (\<exists>info. map_of p m = Some info \<and> pi_vote_count info \<noteq> 0xFFFF) \<and>
     others = map fst (filter (\<lambda>(k, info). k \<noteq> m \<and> 0 < pi_vote_count info) p)"

lemma apply_ack_bundle_action_step:
  "apply_ack_bundle_action = pending_step MissingValue ack_step"
  by (intro ext)
    (auto simp: apply_ack_bundle_action_def pending_step_def alarm_pending_m6ds_def
      update_pending_def with_pending_withdrawals_def try_closure_def
      split: ack_bundle_action.splits option.splits prod.splits sum.splits)

lemma undo_ack_bundle_action_step:
  "undo_ack_bundle_action = pending_step (U_Db MissingValue) unack_step"
  by (intro ext)
    (auto simp: undo_ack_bundle_action_def pending_step_def undo_db_def
      update_pending_def with_pending_withdrawals_def try_closure_def
      split: ack_bundle_action.splits option.splits prod.splits sum.splits)

lemma up_down_vote: "0 < pi_vote_count info \<Longrightarrow> upvote (downvote info) = info"
  by (simp add: upvote_def downvote_def saturating_sub_one_pos)

lemma vote_succ_sub:
  assumes "v \<noteq> (0xFFFF :: u16)"
  shows "checked_sub (v + 1) 1 = Some v"
proof -
  have "v + 1 \<noteq> 0"
  proof
    assume "v + 1 = 0"
    then have "v = - 1" by (simp add: eq_neg_iff_add_eq_0)
    with assms show False by simp
  qed
  then have "1 \<le> v + 1" by (simp add: word_le_nat_alt Suc_le_eq unat_gt_0)
  then show ?thesis by (simp add: checked_sub_def)
qed

lemma fold_om_modify:
  "distinct ks \<Longrightarrow> fold (\<lambda>k. om_modify k f) ks p =
     map (\<lambda>(k, v). (k, if k \<in> set ks then f v else v)) p"
  by (induction ks arbitrary: p) (auto simp: om_modify_def)

lemma map_of_map_values:
  "map_of (map (\<lambda>(k, v). (k, h k v)) p) k = map_option (h k) (map_of p k)"
  by (induction p) auto

lemma map_map_values:
  "map (\<lambda>(k, v). (k, f k v)) (map (\<lambda>(k, v). (k, g k v)) p) = map (\<lambda>(k, v). (k, f k (g k v))) p"
  by (induction p) auto

lemma distinct_others:
  "distinct (map fst p) \<Longrightarrow> distinct (map fst (filter P p))"
  by (simp add: distinct_map_filter)

lemma map_values_id:
  assumes "\<And>k v. (k, v) \<in> set p \<Longrightarrow> h k v = v"
  shows "map (\<lambda>(k, v). (k, h k v)) p = p"
  using assms by (induction p) auto

lemma alarm_undo:
  assumes "distinct (map fst p)"
  shows "undo_alarm {m. \<exists>info. (m, info) \<in> set p \<and> 0 < pi_vote_count info}
    (map (\<lambda>(m, info). (m, downvote info)) p) = p"
proof -
  let ?S = "{m. \<exists>info. (m, info) \<in> set p \<and> 0 < pi_vote_count info}"
  have "(if k \<in> ?S then upvote (downvote v) else downvote v) = v" if "(k, v) \<in> set p" for k v
  proof (cases "0 < pi_vote_count v")
    case True
    then show ?thesis using that by (auto simp: up_down_vote)
  next
    case False
    then have "k \<notin> ?S" using that assms by (auto dest: eq_key_imp_eq_value)
    moreover have "downvote v = v"
      using False by (cases v) (simp add: downvote_def saturating_sub_def word_gt_0)
    ultimately show ?thesis by (simp only: if_False)
  qed
  then have "map (\<lambda>(k, v). (k, if k \<in> ?S then upvote (downvote v) else downvote v)) p = p"
    by (rule map_values_id)
  then show ?thesis by (simp add: undo_alarm_def map_map_values del: map_map)
qed

lemma upvote_undo:
  assumes "distinct (map fst p)" "map_of p m = Some info" "pi_vote_count info \<noteq> 0xFFFF"
    and others: "others = map fst (filter (\<lambda>(k, info). k \<noteq> m \<and> 0 < pi_vote_count info) p)"
  shows "\<exists>p'. apply_upvote m others p = (Inr (), p') \<and> map fst p' = map fst p \<and>
    undo_upvote n m others p' = (Inr (), p)"
proof -
  define h where "h = (\<lambda>k v. if k = m then upvote v else if k \<in> set others then downvote v else v)"
  define p' where "p' = map (\<lambda>(k, v). (k, h k v)) p"
  have dist: "distinct others" using assms(1) by (simp add: others distinct_others)
  have m: "m \<notin> set others" by (auto simp: others)
  have "fold (\<lambda>other. om_modify other downvote) others (om_modify m upvote p) = p'"
    using dist m by (auto simp: fold_om_modify om_modify_def p'_def h_def)
  then have app: "apply_upvote m others p = (Inr (), p')"
    by (simp add: apply_upvote_def assms(2))
  have keys: "map fst p' = map fst p" by (simp add: p'_def comp_def case_prod_beta)
  have "map_of p' m = Some (upvote info)"
    by (simp add: p'_def map_of_map_values assms(2) h_def)
  moreover have "checked_sub (pi_vote_count (upvote info)) 1 = Some (pi_vote_count info)"
    using vote_succ_sub [OF assms(3)] by (simp add: upvote_def)
  moreover have "fold (\<lambda>other. om_modify other upvote) others
      (om_modify m (\<lambda>i. i\<lparr>pi_vote_count := pi_vote_count info\<rparr>) p') = p"
  proof -
    let ?g = "\<lambda>k v. if k \<in> set others then upvote (if k = m then (h k v)\<lparr>pi_vote_count :=
      pi_vote_count info\<rparr> else h k v) else (if k = m then (h k v)\<lparr>pi_vote_count :=
      pi_vote_count info\<rparr> else h k v)"
    have "?g k v = v" if kv: "(k, v) \<in> set p" for k v
    proof (cases "k = m")
      case True
      then have "v = info" using kv assms(1,2) by simp
      then show ?thesis using True m by (simp add: h_def upvote_def)
    next
      case False
      moreover have "k \<in> set others \<longleftrightarrow> 0 < pi_vote_count v"
        using kv False assms(1) by (force simp: others dest: eq_key_imp_eq_value)
      ultimately show ?thesis by (simp add: h_def up_down_vote)
    qed
    then have "map (\<lambda>(k, v). (k, ?g k v)) p = p" by (rule map_values_id)
    then show ?thesis using dist
      by (simp add: fold_om_modify om_modify_def p'_def map_map_values del: map_map)
  qed
  ultimately show ?thesis using app keys by (simp add: undo_upvote_def)
qed

lemma ack_keys:
  "ack_step n act p = Inr p' \<Longrightarrow> ok_action n act p \<Longrightarrow> distinct (map fst p) \<Longrightarrow> map fst p' = map fst p"
  using upvote_undo [of p] by (cases act) (force simp: try_closure_def comp_def case_prod_beta)+

interpretation ack: slot_reversible ack_step unack_step ok_action
proof
  fix p :: pending_m6ids and n act
  assume p: "distinct (map fst p)" "ok_action n act p"
  show "\<exists>p'. ack_step n act p = Inr p' \<and> distinct (map fst p') \<and> unack_step n act p' = Inr p"
  proof (cases act)
    case (ActAlarm S)
    then show ?thesis using p alarm_undo [OF p(1)] by (simp add: comp_def case_prod_beta)
  next
    case (ActUpvote m others)
    with p(2) obtain info where "map_of p m = Some info" "pi_vote_count info \<noteq> 0xFFFF"
      and "others = map fst (filter (\<lambda>(k, info). k \<noteq> m \<and> 0 < pi_vote_count info) p)" by auto
    from upvote_undo [OF p(1) this, of n] obtain p' where
      "apply_upvote m others p = (Inr (), p')" "map fst p' = map fst p"
      "undo_upvote n m others p' = (Inr (), p)" by blast
    then show ?thesis using ActUpvote p(1) by (simp add: try_closure_def)
  qed
qed

section \<open>Failed bundles\<close>

text \<open>\<open>enumerate().filter()\<close>: the entries that satisfy \<open>P\<close>, with their positions.\<close>

fun enumerate_filter :: "nat \<Rightarrow> ('a \<Rightarrow> bool) \<Rightarrow> 'a list \<Rightarrow> (nat \<times> 'a) list" where
  "enumerate_filter i P [] = []"
| "enumerate_filter i P (x # xs) =
     (if P x then (i, x) # enumerate_filter (Suc i) P xs else enumerate_filter (Suc i) P xs)"

lemma enumerate_filter_ge: "(j, x) \<in> set (enumerate_filter i P xs) \<Longrightarrow> i \<le> j"
  by (induction xs arbitrary: i) (force split: if_splits)+

lemma enumerate_filter_length: "length (enumerate_filter i P xs) \<le> length xs"
  by (induction xs arbitrary: i) (auto simp: le_SucI)

lemma remove_failed_loop_enum:
  "distinct (map fst (nf @ p)) \<Longrightarrow>
     remove_failed_loop i (map fst (enumerate_filter i P p)) p nf = nf @ filter (\<lambda>x. \<not> P x) p"
proof (induction p arbitrary: i nf)
  case (Cons y p)
  obtain m info where y: "y = (m, info)" by (cases y)
  show ?case
  proof (cases "P y")
    case True
    then show ?thesis using Cons y by simp
  next
    case False
    have new: "om_insert m info nf = nf @ [y]" using Cons.prems y by (simp add: om_insert_new)
    have "remove_failed_loop (Suc i) (map fst (enumerate_filter (Suc i) P p)) p (nf @ [y]) =
        (nf @ [y]) @ filter (\<lambda>x. \<not> P x) p"
      using Cons.prems by (intro Cons.IH) simp
    then show ?thesis
      using False y new enumerate_filter_ge [of _ _ "Suc i" P p]
      by (auto split: list.split) (metis Suc_n_not_le_n list.set_intros(1))
  qed
qed simp

lemma refill_loop_enum:
  "distinct (map fst (acc @ p)) \<Longrightarrow>
     refill_loop i (enumerate_filter i P p) (filter (\<lambda>x. \<not> P x) p) acc = acc @ p"
proof (induction p arbitrary: i acc)
  case (Cons y p)
  obtain m info where y: "y = (m, info)" by (cases y)
  have new: "om_insert m info acc = acc @ [y]" using Cons.prems y by (simp add: om_insert_new)
  have IH: "refill_loop (Suc i) (enumerate_filter (Suc i) P p) (filter (\<lambda>x. \<not> P x) p) (acc @ [y]) =
      acc @ y # p"
    using Cons.IH [of "acc @ [y]" "Suc i"] Cons.prems by simp
  show ?case
  proof (cases "P y")
    case True
    then show ?thesis using IH new y by (cases "filter (\<lambda>x. \<not> P x) p") auto
  next
    case False
    show ?thesis
    proof (cases "enumerate_filter (Suc i) P p")
      case Nil
      then show ?thesis using False IH new y by simp
    next
      case (Cons z zs)
      obtain j k inf where z: "z = (j, k, inf)" by (cases z) auto
      have "Suc i \<le> j" using enumerate_filter_ge [of j "(k, inf)" "Suc i" P p] Cons z by simp
      then show ?thesis using False IH new y Cons z by simp
    qed
  qed
qed simp

definition ok_failed :: "sidechain_number \<Rightarrow> (nat \<times> m6id \<times> pending_m6id_info) list \<Rightarrow>
    pending_m6ids \<Rightarrow> bool" where
  "ok_failed n failed p \<longleftrightarrow> (\<exists>P. failed = enumerate_filter 0 P p)"

definition fail_step :: "sidechain_number \<Rightarrow> (nat \<times> m6id \<times> pending_m6id_info) list \<Rightarrow>
    pending_m6ids \<Rightarrow> fault + pending_m6ids" where
  "fail_step n failed p = try_closure (remove_failed_withdrawals failed) p"

definition unfail_step :: "sidechain_number \<Rightarrow> (nat \<times> m6id \<times> pending_m6id_info) list \<Rightarrow>
    pending_m6ids \<Rightarrow> fault + pending_m6ids" where
  "unfail_step n failed p = Inr (refill_pending_withdrawals failed p)"

lemma apply_failed_slot_step: "apply_failed_slot = pending_step MissingValue fail_step"
  by (intro ext)
    (auto simp: apply_failed_slot_def pending_step_def fail_step_def with_pending_withdrawals_def
      try_closure_def split: option.splits prod.splits sum.splits)

lemma undo_failed_slot_step: "undo_failed_slot = pending_step MissingValue unfail_step"
  by (intro ext)
    (auto simp: undo_failed_slot_def pending_step_def unfail_step_def update_pending_def
      with_pending_withdrawals_def split: option.splits)

lemma fail_step_enum:
  "distinct (map fst p) \<Longrightarrow>
     fail_step n (enumerate_filter 0 P p) p = Inr (filter (\<lambda>x. \<not> P x) p)"
  using enumerate_filter_length [of 0 P p] remove_failed_loop_enum [of "[]" p 0 P]
  by (simp add: fail_step_def remove_failed_withdrawals_def try_closure_def)

interpretation fail: slot_reversible fail_step unfail_step ok_failed
proof
  fix p :: pending_m6ids and n failed
  assume p: "distinct (map fst p)" "ok_failed n failed p"
  then obtain P where failed: "failed = enumerate_filter 0 P p" by (auto simp: ok_failed_def)
  show "\<exists>p'. fail_step n failed p = Inr p' \<and> distinct (map fst p') \<and> unfail_step n failed p' = Inr p"
    using fail_step_enum [OF p(1)] distinct_others [OF p(1)] refill_loop_enum [of "[]" p 0 P] p(1)
    by (simp add: failed unfail_step_def refill_pending_withdrawals_def)
qed

section \<open>Coinbase diffs are reversible\<close>

fun ok_effect :: "ack_effect \<Rightarrow> sidechain option \<Rightarrow> bool" where
  "ok_effect NoActivation sc = True"
| "ok_effect (ReplaceActive prev) sc = (sc = Some prev)"
| "ok_effect SlotActivation sc = (sc = None)"

fun ok_msg :: "coinbase_msg_diff \<Rightarrow> dbs \<Rightarrow> bool" where
  "ok_msg (DAckBundles d) db = ok_slots ok_action d (active_sidechains db)"
| "ok_msg (DAckSidechainProposal d) db \<longleftrightarrow>
     pending_wf (active_sidechains db) \<and>
     (\<exists>sc. proposal_id_to_sidechain db (asp_id d) = Some sc \<and>
        st_activation_height (sc_status sc) = None \<and> sc_votes sc \<noteq> 0xFFFF) \<and>
     ok_effect (asp_effect d)
       (sidechain_db (active_sidechains db) (id_sidechain_number (asp_id d)))"
| "ok_msg (DNewSidechainProposal d) db \<longleftrightarrow> proposal_id_to_sidechain db (nsp_id d) = None"
| "ok_msg (DProposeBundle d) db \<longleftrightarrow>
     (\<exists>p. pending_m6ids_db (active_sidechains db) (pb_sidechain_number d) = Some p \<and>
        pb_m6id d \<notin> fst ` set p)"

lemma put_proposal_simps [simp]:
  "proposal_id_to_sidechain (put_proposal pid sc db) =
     (proposal_id_to_sidechain db)(pid := sc)"
  "active_sidechains (put_proposal pid sc db) = active_sidechains db"
  "put_proposal pid sc (db\<lparr>active_sidechains := a\<rparr>) = (put_proposal pid sc db)\<lparr>active_sidechains := a\<rparr>"
  "(put_proposal pid sc db)\<lparr>active_sidechains := active_sidechains db\<rparr> = put_proposal pid sc db"
  "put_proposal pid sc (put_proposal pid sc' db) = put_proposal pid sc db"
  by (simp_all add: put_proposal_def)

lemma put_proposal_idem: "proposal_id_to_sidechain db pid = sc \<Longrightarrow> put_proposal pid sc db = db"
  by (simp add: put_proposal_def fun_upd_idem)

lemma set_vote_activation_simps [simp]:
  "sc_votes (set_vote_count v sc) = v"
  "sc_votes (set_activation_height h sc) = sc_votes sc"
  "set_vote_count v (set_vote_count w sc) = set_vote_count v sc"
  "set_activation_height h (set_activation_height g sc) = set_activation_height h sc"
  "set_vote_count v (set_activation_height h sc) = set_activation_height h (set_vote_count v sc)"
  "set_vote_count (sc_votes sc) sc = sc"
  "sc_proposal (set_vote_count v sc) = sc_proposal sc"
  "sc_proposal (set_activation_height h sc) = sc_proposal sc"
  "st_proposal_height (sc_status (set_vote_count v sc)) = st_proposal_height (sc_status sc)"
  "st_activation_height (sc_status (set_vote_count v sc)) = st_activation_height (sc_status sc)"
  "st_activation_height (sc_status (set_activation_height h sc)) = h"
  by (simp_all add: set_vote_count_def set_activation_height_def)

lemma set_activation_idem:
  "st_activation_height (sc_status sc) = h \<Longrightarrow> set_activation_height h sc = sc"
  by (auto simp: set_activation_height_def)

lemma put_sidechain_lookup [simp]:
  "sidechain_db (put_sidechain a n sc) = (sidechain_db a)(n := Some sc)"
  by (simp add: put_sidechain_def Let_def)

lemma ack_sidechain_proposal_undo:
  assumes "ok_msg (DAckSidechainProposal d) db"
  shows "\<exists>db'. apply_ack_sidechain_proposal d h db = Inr db' \<and>
    undo_ack_sidechain_proposal d db' = Inr db"
proof -
  let ?n = "id_sidechain_number (asp_id d)" and ?a = "active_sidechains db"
  from assms obtain sc where sc: "proposal_id_to_sidechain db (asp_id d) = Some sc"
    "st_activation_height (sc_status sc) = None" "sc_votes sc \<noteq> 0xFFFF"
    and wf: "pending_wf ?a" and eff: "ok_effect (asp_effect d) (sidechain_db ?a ?n)" by auto
  note vote = vote_succ_sub [OF sc(3)]
  have undo_sc: "set_activation_height None (set_vote_count (sc_votes sc) sc) = sc"
    using sc(2) by (simp add: set_activation_idem)
  show ?thesis
  proof (cases "asp_effect d")
    case NoActivation
    then show ?thesis using sc vote
      by (simp add: apply_ack_sidechain_proposal_def undo_ack_sidechain_proposal_def Let_def
          put_proposal_idem)
  next
    case (ReplaceActive prev)
    then have "sidechain_db ?a ?n = Some prev" using eff by simp
    then show ?thesis using ReplaceActive sc vote put_put_sidechain [OF wf] undo_sc
      by (simp add: apply_ack_sidechain_proposal_def undo_ack_sidechain_proposal_def Let_def
          put_proposal_idem set_activation_idem)
  next
    case SlotActivation
    then have "sidechain_db ?a ?n = None" using eff by simp
    then show ?thesis using SlotActivation sc vote delete_put_sidechain [OF wf] undo_sc
      by (simp add: apply_ack_sidechain_proposal_def undo_ack_sidechain_proposal_def Let_def
          put_proposal_idem set_activation_idem)
  qed
qed

lemma with_active_Inr [simp]: "with_active db (Inr a) = Inr (db\<lparr>active_sidechains := a\<rparr>)"
  by (simp add: with_active_def)

lemma undo_db_Inr [simp]: "undo_db (Inr x) = Inr x"
  by (simp add: undo_db_def)

interpretation ack_bundles: reversible apply_ack_bundles undo_ack_bundles "ok_slots ok_action"
  by unfold_locales
    (simp add: apply_ack_bundles_def undo_ack_bundles_def apply_ack_bundle_action_step
      undo_ack_bundle_action_step ack.each_slot_undo)

interpretation failed_bundles: reversible apply_failed_m6ids undo_failed_m6ids "ok_slots ok_failed"
  by unfold_locales
    (simp add: apply_failed_m6ids_def undo_failed_m6ids_def apply_failed_slot_step
      undo_failed_slot_step fail.each_slot_undo)

interpretation msg: reversible "apply_coinbase_msg h" undo_coinbase_msg ok_msg for h
proof
  fix d db
  assume ok: "ok_msg d db"
  show "\<exists>db'. apply_coinbase_msg h d db = Inr db' \<and> undo_coinbase_msg d db' = Inr db"
  proof (cases d)
    case (DAckBundles x)
    then obtain a' where "apply_ack_bundles x (active_sidechains db) = Inr a'"
        "undo_ack_bundles x a' = Inr (active_sidechains db)"
      using ack_bundles.undo_apply [of x "active_sidechains db"] ok by auto
    then show ?thesis using DAckBundles by simp
  next
    case (DAckSidechainProposal x)
    then show ?thesis using ack_sidechain_proposal_undo ok by simp
  next
    case (DNewSidechainProposal x)
    then show ?thesis using ok
      by (simp add: apply_new_sidechain_proposal_def undo_new_sidechain_proposal_def fun_upd_idem)
  next
    case (DProposeBundle x)
    with ok obtain p where p: "pending_m6ids_db (active_sidechains db) (pb_sidechain_number x) = Some p"
        "pb_m6id x \<notin> fst ` set p" by auto
    have "om_remove (pb_m6id x) (om_insert (pb_m6id x) (pending_m6id_info_new h) p) = p"
      by (rule om_remove_insert_new [OF p(2)])
    from update_pending_undo [OF p(1), where g = "om_remove (pb_m6id x)"
        and f = "om_insert (pb_m6id x) (pending_m6id_info_new h)", OF this] DProposeBundle
    show ?thesis
      by (force simp: apply_propose_bundle_def undo_propose_bundle_def put_pending_m6id_def
          delete_pending_withdrawal_def)
  qed
qed

definition ok_coinbase :: "u32 \<Rightarrow> coinbase_diff \<Rightarrow> dbs \<Rightarrow> bool" where
  "ok_coinbase h d db \<longleftrightarrow>
     ok_all (apply_coinbase_msg h) ok_msg (cd_msgs d) db \<and>
     (case apply_all (apply_coinbase_msg h) (cd_msgs d) db of
        Inl _ \<Rightarrow> False
      | Inr db1 \<Rightarrow>
          (\<forall>k sc. cd_failed_proposals d k = Some sc \<longrightarrow> proposal_id_to_sidechain db1 k = Some sc) \<and>
          ok_slots ok_failed (cd_failed_m6ids d) (active_sidechains db1))"

lemma failed_proposals_undo:
  assumes "\<forall>k sc. failed k = Some sc \<longrightarrow> props k = Some sc"
  shows "undo_failed_proposals failed (apply_failed_proposals failed props) = props"
  using assms by (intro ext) (auto simp: undo_failed_proposals_def apply_failed_proposals_def)

interpretation coinbase: reversible "apply_coinbase h" undo_coinbase "ok_coinbase h" for h
proof
  fix d db
  assume ok: "ok_coinbase h d db"
  then obtain db1 where db1: "apply_all (apply_coinbase_msg h) (cd_msgs d) db = Inr db1"
    "apply_all undo_coinbase_msg (rev (cd_msgs d)) db1 = Inr db"
    using msg.undo_apply_all [of h "cd_msgs d" db] by (auto simp: ok_coinbase_def)
  with ok obtain a' where a': "apply_failed_m6ids (cd_failed_m6ids d) (active_sidechains db1) = Inr a'"
    "undo_failed_m6ids (cd_failed_m6ids d) a' = Inr (active_sidechains db1)"
    using failed_bundles.undo_apply [of "cd_failed_m6ids d" "active_sidechains db1"]
    by (auto simp: ok_coinbase_def)
  have "undo_failed_proposals (cd_failed_proposals d)
      (apply_failed_proposals (cd_failed_proposals d) (proposal_id_to_sidechain db1)) =
      proposal_id_to_sidechain db1"
    using ok db1 by (intro failed_proposals_undo) (simp add: ok_coinbase_def)
  with db1 a' show "\<exists>db'. apply_coinbase h d db = Inr db' \<and> undo_coinbase d db' = Inr db"
    by (simp add: apply_coinbase_def undo_coinbase_def Let_def)
qed

section \<open>Transaction diffs are reversible\<close>

definition ok_ctip :: "active_dbs \<Rightarrow> sidechain_number \<Rightarrow> ctip \<Rightarrow> bool" where
  "ok_ctip a n c \<longleftrightarrow> ledger_wf a n \<and> utxo_count a n + 1 < 2 ^ 64 \<and>
     ctip_outpoint_to_value_seq a (ctip_outpoint c) = None"

definition ok_m5 :: "m5_diff \<Rightarrow> active_dbs \<Rightarrow> bool" where
  "ok_m5 d a \<longleftrightarrow> distinct (map fst d) \<and> distinct (map (ctip_outpoint \<circ> snd) d) \<and>
     (\<forall>(n, c)\<in>set d. ok_ctip a n c)"

lemma put_ctip_slot_Inr:
  "put_ctip_slot n c a = Inr a' \<longleftrightarrow> (\<exists>s. put_ctip a n c = Inr (a', s))"
  by (auto simp: put_ctip_slot_def split: sum.splits)

lemma ok_ctip_put: "ok_ctip a n c \<Longrightarrow> \<exists>a'. put_ctip_slot n c a = Inr a'"
  by (simp add: ok_ctip_def put_ctip_slot_Inr put_ctip_Inr)

lemma ok_ctip_other:
  assumes "ok_ctip a m c" "put_ctip_slot n c' a = Inr a'" "m \<noteq> n"
    and "ctip_outpoint c \<noteq> ctip_outpoint c'"
  shows "ok_ctip a' m c"
  using assms put_ctip_ledger_other [of a m n c']
  by (auto simp: ok_ctip_def put_ctip_slot_Inr put_ctip_Inr)

text \<open>Putting a treasury output in one slot commutes with deleting one in another.\<close>

lemma delete_put_commute:
  assumes "put_ctip_slot m c a1 = Inr a2" "delete_ctip a1 n = Inr a" "m \<noteq> n"
    and "ctip_db a1 n = Some c1" "ctip_outpoint c1 \<noteq> ctip_outpoint c"
  shows "\<exists>b. put_ctip_slot m c a = Inr b \<and> delete_ctip a2 n = Inr b"
proof -
  from assms(1) obtain s where put: "put_ctip a1 m c = Inr (a2, s)"
    by (auto simp: put_ctip_slot_Inr)
  from assms(2,4) obtain cnt where cnt: "treasury_utxo_count a1 n = Some cnt"
    by (auto simp: delete_ctip_def Let_def split: option.splits)
  have same: "treasury_utxo_count a m = treasury_utxo_count a1 m" "ctip_db a m = ctip_db a1 m"
    using assms(2-4) cnt by (auto simp: delete_ctip_def Let_def split: if_splits option.splits)
  have "put_ctip a m c = Inr (a\<lparr>slot_sequence_to_treasury_utxo :=
              (slot_sequence_to_treasury_utxo a)((m, s) := Some (new_utxo a m c)),
            treasury_utxo_count := (treasury_utxo_count a)(m := Some (s + 1)),
            ctip_db := (ctip_db a)(m := Some c),
            ctip_outpoint_to_value_seq := (ctip_outpoint_to_value_seq a)
              (ctip_outpoint c := Some (m, ctip_value c, s))\<rparr>, s)" (is "_ = Inr (?b, _)")
    using put same by (simp add: put_ctip_Inr)
  moreover have "new_utxo a m c = new_utxo a1 m c"
    using same by (simp add: new_utxo_def treasury_value_def)
  then have "delete_ctip a2 n = Inr ?b"
    using put assms(2-5) cnt
    by (auto simp: put_ctip_Inr delete_ctip_def Let_def fun_upd_twist
        split: if_splits option.splits)
  ultimately show ?thesis by (auto simp: put_ctip_slot_Inr)
qed

lemma puts_delete_commute:
  "\<lbrakk>each_slot put_ctip_slot d a1 = Inr a2; delete_ctip a1 n = Inr a; n \<notin> fst ` set d;
    ctip_db a1 n = Some c1; ctip_outpoint c1 \<notin> (ctip_outpoint \<circ> snd) ` set d\<rbrakk> \<Longrightarrow>
   \<exists>b. each_slot put_ctip_slot d a = Inr b \<and> delete_ctip a2 n = Inr b"
proof (induction d arbitrary: a1 a)
  case (Cons y d)
  obtain m c where y: "y = (m, c)" by (cases y)
  from Cons.prems y obtain a1' where put: "put_ctip_slot m c a1 = Inr a1'"
    and rest: "each_slot put_ctip_slot d a1' = Inr a2" by (auto split: sum.splits)
  from delete_put_commute [OF put Cons.prems(2) _ Cons.prems(4)] Cons.prems(3,5) y
  obtain b where b: "put_ctip_slot m c a = Inr b" "delete_ctip a1' n = Inr b" by auto
  have "ctip_db a1' n = Some c1"
    using put Cons.prems(3,4) y by (auto simp: put_ctip_slot_Inr put_ctip_Inr)
  with Cons.IH [OF rest b(2)] Cons.prems(3,5) b(1) y show ?case by simp
qed simp

lemma m5_undo:
  "ok_m5 d a \<Longrightarrow> \<exists>a'. apply_m5 d a = Inr a' \<and> undo_m5 d a' = Inr a"
  unfolding apply_m5_def undo_m5_def
proof (induction d arbitrary: a)
  case (Cons y d)
  obtain n c where y: "y = (n, c)" by (cases y)
  have okn: "ok_ctip a n c" using Cons.prems y by (simp add: ok_m5_def)
  then obtain a1 where a1: "put_ctip_slot n c a = Inr a1" using ok_ctip_put by blast
  then have del: "delete_ctip a1 n = Inr a"
    using delete_put_ctip [of a n c a1] okn by (auto simp: put_ctip_slot_Inr ok_ctip_def)
  have ctip: "ctip_db a1 n = Some c" using a1 by (auto simp: put_ctip_slot_Inr put_ctip_Inr)
  have n: "n \<notin> fst ` set d" "ctip_outpoint c \<notin> (ctip_outpoint \<circ> snd) ` set d"
    using Cons.prems y by (auto simp: ok_m5_def)
  have "ok_ctip a1 m c'" if mc: "(m, c') \<in> set d" for m c'
  proof (rule ok_ctip_other [OF _ a1])
    show "ok_ctip a m c'" using Cons.prems mc by (auto simp: ok_m5_def)
    show "m \<noteq> n" using n mc by force
    show "ctip_outpoint c' \<noteq> ctip_outpoint c" using n mc by force
  qed
  then have "ok_m5 d a1" using Cons.prems by (auto simp: ok_m5_def)
  with Cons.IH obtain a2 where a2: "each_slot put_ctip_slot d a1 = Inr a2" by blast
  from puts_delete_commute [OF a2 del n(1) ctip n(2)] obtain b
    where b: "each_slot put_ctip_slot d a = Inr b" "delete_ctip a2 n = Inr b" by blast
  have "ok_m5 d a" using Cons.prems by (auto simp: ok_m5_def)
  with Cons.IH b(1) have "each_slot delete_ctip_slot d b = Inr a" by force
  moreover have "delete_ctip_slot n c a2 = Inr b" using b(2) by (simp add: delete_ctip_slot_def)
  ultimately show ?case using a1 a2 y by simp
qed simp

definition ok_m6 :: "m6_diff \<Rightarrow> active_dbs \<Rightarrow> bool" where
  "ok_m6 d a \<longleftrightarrow> ok_ctip a (m6d_sidechain_number d) (m6d_new_ctip d) \<and>
     (\<exists>p. pending_m6ids_db a (m6d_sidechain_number d) = Some p \<and> distinct (map fst p) \<and>
        om_get_full (m6d_removed_pending_withdrawal d) p =
          Some (m6d_removed_pending_withdrawal_index d, m6d_removed_pending_withdrawal_info d))"

lemma delete_ctip_pending_commute:
  "delete_ctip a n = Inr b \<Longrightarrow> delete_ctip (set_pending m p a) n = Inr (set_pending m p b)"
  by (auto simp: delete_ctip_def Let_def split: option.splits if_splits)

lemma m6_undo:
  assumes "ok_m6 d a"
  shows "\<exists>a'. apply_m6 d a = Inr a' \<and> undo_m6 d a' = Inr a"
proof -
  let ?n = "m6d_sidechain_number d" and ?c = "m6d_new_ctip d"
  let ?m = "m6d_removed_pending_withdrawal d"
  from assms obtain p where p: "pending_m6ids_db a ?n = Some p" "distinct (map fst p)"
    and full: "om_get_full ?m p =
      Some (m6d_removed_pending_withdrawal_index d, m6d_removed_pending_withdrawal_info d)"
    and ok: "ok_ctip a ?n ?c" by (auto simp: ok_m6_def)
  from ok_ctip_put [OF ok] obtain a1 s where a1: "put_ctip a ?n ?c = Inr (a1, s)"
    by (auto simp: put_ctip_slot_Inr)
  have del: "delete_ctip a1 ?n = Inr a"
    using delete_put_ctip [OF _ _ a1] ok by (simp add: ok_ctip_def)
  have p1: "pending_m6ids_db a1 ?n = Some p" using a1 p by (simp add: put_ctip_Inr)
  let ?a2 = "set_pending ?n (om_remove ?m p) a1"
  have "delete_pending_withdrawal a1 ?n ?m = Inr ?a2"
    using p1 by (simp add: delete_pending_withdrawal_def update_pending_Inr)
  then have app: "apply_m6 d a = Inr ?a2" by (simp add: apply_m6_def a1)
  have del2: "delete_ctip ?a2 ?n = Inr (set_pending ?n (om_remove ?m p) a)"
    by (rule delete_ctip_pending_commute [OF del])
  have "undo_m6 d ?a2 = Inr a"
    unfolding undo_m6_def del2 sum.case with_pending_withdrawals_def
    using om_shift_insert_restores [OF p(2) full] p(1) by (simp add: fun_upd_idem)
  with app show ?thesis by blast
qed

fun ok_tx :: "tx_diff \<Rightarrow> active_dbs \<Rightarrow> bool" where
  "ok_tx (DM5 m5) a = ok_m5 m5 a"
| "ok_tx (DM6 m6) a = ok_m6 m6 a"

interpretation tx: reversible apply_tx undo_tx ok_tx
proof
  fix d a
  assume "ok_tx d a"
  then show "\<exists>a'. apply_tx d a = Inr a' \<and> undo_tx d a' = Inr a"
    by (cases d) (simp_all add: m5_undo m6_undo)
qed

section \<open>Block diffs are reversible\<close>

definition ok_block :: "u32 \<Rightarrow> block_diff \<Rightarrow> dbs \<Rightarrow> bool" where
  "ok_block h d db \<longleftrightarrow>
     ok_coinbase h (bd_coinbase d) db \<and>
     (case apply_coinbase h (bd_coinbase d) db of
        Inl _ \<Rightarrow> False
      | Inr db1 \<Rightarrow> ok_all apply_tx ok_tx (bd_txs d) (active_sidechains db1))"

interpretation block: reversible "apply_block h" undo_block "ok_block h" for h
proof
  fix d db
  assume ok: "ok_block h d db"
  then obtain db1 where db1: "apply_coinbase h (bd_coinbase d) db = Inr db1"
    "undo_coinbase (bd_coinbase d) db1 = Inr db"
    using coinbase.undo_apply [of h "bd_coinbase d" db] by (auto simp: ok_block_def)
  with ok obtain a' where "apply_all apply_tx (bd_txs d) (active_sidechains db1) = Inr a'"
    "apply_all undo_tx (rev (bd_txs d)) a' = Inr (active_sidechains db1)"
    using tx.undo_apply_all [of "bd_txs d" "active_sidechains db1"]
    by (auto simp: ok_block_def)
  with db1 show "\<exists>db'. apply_block h d db = Inr db' \<and> undo_block d db' = Inr db"
    by (simp add: apply_block_def undo_block_def)
qed

end
