(* ===== verification/Handlers.thy ===== *)
theory Handlers
  imports Diff "HOL-Library.Sublist" "HOL-Library.Multiset"
begin

text \<open>
  The handlers of coinbase messages in \<open>src/lib/validator/task/mod.rs\<close>: M1, M2, M3, the four
  encodings of M4, the failure of proposals and bundles by age, and the BMM request M8. Each
  reads the tables and returns the diff to apply, or an error of
  \<open>src/lib/validator/task/error.rs\<close>. The lemmas show that the diff a handler returns is valid
  for the state it was computed from.
\<close>

section \<open>The block handler\<close>

record block_handler =
  bh_network :: network
  bh_params :: network_params
  bh_thresholds :: thresholds
  require_payable_bundles :: bool

definition block_handler_new :: "network \<Rightarrow> network_params \<Rightarrow> block_handler" where
  "block_handler_new nw params = \<lparr>bh_network = nw, bh_params = params,
     bh_thresholds = np_thresholds params, require_payable_bundles = True\<rparr>"

definition LEADING_BY_50_MARGIN :: u16 where
  "LEADING_BY_50_MARGIN = 50"

definition downvoted_others_for_upvote :: "pending_m6ids \<Rightarrow> m6id \<Rightarrow> m6id list" where
  "downvoted_others_for_upvote pending upvote_target =
     map fst (filter (\<lambda>(m, info). m \<noteq> upvote_target \<and> 0 < pi_vote_count info) pending)"

definition positive_votes_proposals_for_alarm :: "pending_m6ids \<Rightarrow> m6id set" where
  "positive_votes_proposals_for_alarm pending =
     set (map fst (filter (\<lambda>(m, info). 0 < pi_vote_count info) pending))"

datatype handle_m8_error = NotAcceptedByMiners | BmmRequestExpired

definition handle_m8 ::
    "transaction \<Rightarrow> bmm_commitments option \<Rightarrow> blockhash \<Rightarrow> handle_m8_error + bool" where
  "handle_m8 tx accepted_bmm_requests prev_mainchain_block_hash =
     (case parse_m8_tx tx of
        None \<Rightarrow> Inr False
      | Some req \<Rightarrow>
          if (case accepted_bmm_requests of
                None \<Rightarrow> False
              | Some accepted \<Rightarrow>
                  map_of accepted (m8_sidechain_number req) \<noteq> Some (m8_sidechain_block_hash req))
          then Inl NotAcceptedByMiners
          else if m8_prev_mainchain_block_hash req \<noteq> prev_mainchain_block_hash
          then Inl BmmRequestExpired
          else Inr True)"

section \<open>M1 and M2\<close>

definition handle_m1_propose_sidechain ::
    "btc \<Rightarrow> dbs \<Rightarrow> sidechain_proposal \<Rightarrow> u32 \<Rightarrow> new_sidechain_proposal option" where
  "handle_m1_propose_sidechain B db proposal proposal_height =
     (let proposal_id = compute_id B proposal in
      if proposal_id_to_sidechain db proposal_id \<noteq> None then None
      else Some \<lparr>nsp_id = proposal_id,
        nsp_sidechain = \<lparr>sc_proposal = proposal,
          sc_status = \<lparr>st_vote_count = 0, st_proposal_height = proposal_height,
            st_activation_height = None\<rparr>\<rparr>\<rparr>)"

definition handle_m2_ack_sidechain ::
    "block_handler \<Rightarrow> dbs \<Rightarrow> u32 \<Rightarrow> sidechain_number \<Rightarrow> hash256 \<Rightarrow> ack_sidechain_proposal option" where
  "handle_m2_ack_sidechain bh db height n description_hash =
     (let thresholds = bh_thresholds bh;
          proposal_id = \<lparr>id_sidechain_number = n, id_description_hash = description_hash\<rparr>
      in case proposal_id_to_sidechain db proposal_id of
           None \<Rightarrow> None
         | Some sidechain \<Rightarrow>
             if height = st_proposal_height (sc_status sidechain) then None
             else
               let vote_count = sc_votes sidechain + 1;
                   age = saturating_sub height (st_proposal_height (sc_status sidechain));
                   existing = sidechain_db (active_sidechains db) n;
                   slot_is_used = (existing \<noteq> None);
                   activated =
                     (slot_is_used \<and> vote_count > withdrawal_bundle_inclusion_threshold thresholds \<and>
                        age \<le> ucast (withdrawal_bundle_max_age thresholds)) \<or>
                     (\<not> slot_is_used \<and> activates_unused_slot thresholds vote_count age);
                   effect =
                     (if activated
                      then (case existing of Some replaced \<Rightarrow> ReplaceActive replaced
                            | None \<Rightarrow> SlotActivation)
                      else NoActivation)
               in Some \<lparr>asp_id = proposal_id, asp_effect = effect\<rparr>)"

text \<open>The filter of \<open>handle_failed_sidechain_proposals\<close>.\<close>

definition proposal_failed :: "thresholds \<Rightarrow> u32 \<Rightarrow> active_dbs \<Rightarrow> sidechain \<Rightarrow> bool" where
  "proposal_failed thresholds height a sidechain =
     (let age = saturating_sub height (st_proposal_height (sc_status sidechain));
          slot_is_used =
            (sidechain_db a (prop_sidechain_number (sc_proposal sidechain)) \<noteq> None);
          max_age = (if slot_is_used then ucast (withdrawal_bundle_max_age thresholds)
            else ucast (unused_sidechain_slot_proposal_max_age thresholds)) :: u32;
          threshold = (if slot_is_used then ucast (withdrawal_bundle_inclusion_threshold thresholds)
            else ucast (unused_sidechain_slot_activation_threshold thresholds)) :: u32;
          max_fails = saturating_sub max_age threshold;
          fails = saturating_sub age (ucast (sc_votes sidechain))
      in age > max_age \<or> (age > max_fails \<and> fails \<ge> max_fails))"

definition handle_failed_sidechain_proposals ::
    "block_handler \<Rightarrow> dbs \<Rightarrow> u32 \<Rightarrow> failed_proposals" where
  "handle_failed_sidechain_proposals bh db height =
     (\<lambda>k. case proposal_id_to_sidechain db k of
            None \<Rightarrow> None
          | Some sidechain \<Rightarrow>
              if proposal_failed (bh_thresholds bh) height (active_sidechains db) sidechain
              then Some sidechain else None)"

section \<open>M3\<close>

datatype handle_m3_error =
    M3_Db fault
  | InactiveSidechain sidechain_number
  | BundleAlreadyPending sidechain_number m6id

definition handle_m3_propose_bundle ::
    "dbs \<Rightarrow> sidechain_number \<Rightarrow> m6id \<Rightarrow> handle_m3_error + propose_bundle_diff" where
  "handle_m3_propose_bundle db n m =
     (if sidechain_db (active_sidechains db) n = None then Inl (InactiveSidechain n)
      else case pending_m6ids_db (active_sidechains db) n of
        None \<Rightarrow> Inl (M3_Db MissingValue)
      | Some pending \<Rightarrow>
          if map_of pending m \<noteq> None then Inl (BundleAlreadyPending n m)
          else Inr \<lparr>pb_sidechain_number = n, pb_m6id = m\<rparr>)"

section \<open>M4\<close>

datatype handle_m4_votes_error =
    M4V_Db fault
  | InvalidVotes nat nat
  | UpvoteFailed sidechain_number u16

text \<open>The action for one vote on the pending bundles of a slot, if any. Outer \<open>None\<close>: the
  index names no bundle.\<close>

definition vote_action :: "pending_m6ids \<Rightarrow> u16 \<Rightarrow> ack_bundle_action option option" where
  "vote_action pending vote =
     (if vote = ALARM_TWO_BYTES then
        let positive = positive_votes_proposals_for_alarm pending in
        Some (if positive \<noteq> {} then Some (ActAlarm positive) else None)
      else case om_get_index (unat vote) pending of
        Some (m, info) \<Rightarrow>
          Some (if pi_vote_count info < 0xFFFF
                then Some (ActUpvote m (downvoted_others_for_upvote pending m)) else None)
      | None \<Rightarrow> None)"

fun votes_loop :: "active_dbs \<Rightarrow> (sidechain_number \<times> u16) list \<Rightarrow>
    handle_m4_votes_error + ack_bundles_diff" where
  "votes_loop a [] = Inr []"
| "votes_loop a ((n, vote) # votes) =
     (if vote = ABSTAIN_TWO_BYTES then votes_loop a votes
      else case pending_m6ids_db a n of
        None \<Rightarrow> Inl (M4V_Db MissingValue)
      | Some pending \<Rightarrow>
          (case vote_action pending vote of
             None \<Rightarrow> Inl (UpvoteFailed n vote)
           | Some act \<Rightarrow>
               (case votes_loop a votes of
                  Inl e \<Rightarrow> Inl e
                | Inr diff \<Rightarrow> Inr ((case act of Some x \<Rightarrow> [(n, x)] | None \<Rightarrow> []) @ diff))))"

definition handle_m4_votes :: "dbs \<Rightarrow> u16 list \<Rightarrow> handle_m4_votes_error + ack_bundles_diff" where
  "handle_m4_votes db upvotes =
     (let active = numbers (active_sidechains db) in
      if length upvotes \<noteq> length active then Inl (InvalidVotes (length active) (length upvotes))
      else votes_loop (active_sidechains db) (zip active upvotes))"

text \<open>
  \<open>by_votes.sort_unstable_by_key(Reverse(votes))\<close>: the order of entries with equal votes is
  not specified, so the sort is a parameter \<open>srt\<close>; what is used of it is that the result is a
  permutation with descending votes.
\<close>

definition leading_action :: "((m6id \<times> u16) list \<Rightarrow> (m6id \<times> u16) list) \<Rightarrow> pending_m6ids \<Rightarrow>
    ack_bundle_action option" where
  "leading_action srt pending =
     (let by_votes = srt (map (\<lambda>(m, info). (m, pi_vote_count info)) pending) in
      case by_votes of
        [] \<Rightarrow> None
      | (leader, lead_votes) # rest \<Rightarrow>
          let second_highest = (case rest of (_, v) # _ \<Rightarrow> v | [] \<Rightarrow> 0) in
          if saturating_sub lead_votes second_highest \<ge> LEADING_BY_50_MARGIN \<and> lead_votes < 0xFFFF
          then Some (ActUpvote leader (downvoted_others_for_upvote pending leader))
          else None)"

fun leading_loop :: "((m6id \<times> u16) list \<Rightarrow> (m6id \<times> u16) list) \<Rightarrow> active_dbs \<Rightarrow>
    sidechain_number list \<Rightarrow> handle_m4_votes_error + ack_bundles_diff" where
  "leading_loop srt a [] = Inr []"
| "leading_loop srt a (n # ns) =
     (case pending_m6ids_db a n of
        None \<Rightarrow> Inl (M4V_Db MissingValue)
      | Some pending \<Rightarrow>
          (case leading_loop srt a ns of
             Inl e \<Rightarrow> Inl e
           | Inr diff \<Rightarrow>
               Inr ((case leading_action srt pending of Some x \<Rightarrow> [(n, x)] | None \<Rightarrow> []) @ diff)))"

definition handle_m4_leading_by_50 ::
    "((m6id \<times> u16) list \<Rightarrow> (m6id \<times> u16) list) \<Rightarrow> dbs \<Rightarrow>
     handle_m4_votes_error + ack_bundles_diff" where
  "handle_m4_leading_by_50 srt db =
     leading_loop srt (active_sidechains db) (numbers (active_sidechains db))"

datatype handle_m4_ack_bundles_error =
    M4A_Db fault
  | M4A_Votes handle_m4_votes_error
  | TwoBytesWithinByteRange

fun is_ack_bundles :: "coinbase_msg_diff \<Rightarrow> ack_bundles_diff option" where
  "is_ack_bundles (DAckBundles ab) = Some ab"
| "is_ack_bundles _ = None"

text \<open>\<open>find_map\<close>: the first value.\<close>

fun find_map :: "('a \<Rightarrow> 'b option) \<Rightarrow> 'a list \<Rightarrow> 'b option" where
  "find_map f [] = None"
| "find_map f (x # xs) = (case f x of Some y \<Rightarrow> Some y | None \<Rightarrow> find_map f xs)"

fun repeat_action :: "pending_m6ids \<Rightarrow> ack_bundle_action \<Rightarrow> ack_bundle_action option" where
  "repeat_action pending (ActUpvote target _) =
     (case map_of pending target of
        None \<Rightarrow> None
      | Some info \<Rightarrow>
          if pi_vote_count info = 0xFFFF then None
          else Some (ActUpvote target (downvoted_others_for_upvote pending target)))"
| "repeat_action pending (ActAlarm _) =
     (let positive = positive_votes_proposals_for_alarm pending in
      if positive \<noteq> {} then Some (ActAlarm positive) else None)"

fun repeat_loop :: "active_dbs \<Rightarrow> ack_bundles_diff \<Rightarrow>
    handle_m4_ack_bundles_error + ack_bundles_diff" where
  "repeat_loop a [] = Inr []"
| "repeat_loop a ((n, action) # prev) =
     (case pending_m6ids_db a n of
        None \<Rightarrow> Inl (M4A_Db MissingValue)
      | Some pending \<Rightarrow>
          (case repeat_loop a prev of
             Inl e \<Rightarrow> Inl e
           | Inr diff \<Rightarrow>
               Inr ((case repeat_action pending action of Some x \<Rightarrow> [(n, x)] | None \<Rightarrow> []) @ diff)))"

definition handle_m4_repeat_previous ::
    "dbs \<Rightarrow> blockhash \<Rightarrow> handle_m4_ack_bundles_error + ack_bundles_diff" where
  "handle_m4_repeat_previous db prev_block_hash =
     (if prev_block_hash = all_zeros then Inr []
      else case diff_db (block_hashes db) prev_block_hash of
        None \<Rightarrow> Inl (M4A_Db MissingValue)
      | Some prev_diff \<Rightarrow>
          (case find_map is_ack_bundles (cd_msgs (bd_coinbase prev_diff)) of
             None \<Rightarrow> Inr []
           | Some prev_ack_bundles \<Rightarrow> repeat_loop (active_sidechains db) prev_ack_bundles))"

definition widen_vote :: "u8 \<Rightarrow> u16" where
  "widen_vote vote =
     (if vote = ABSTAIN_ONE_BYTE then ABSTAIN_TWO_BYTES
      else if vote = ALARM_ONE_BYTE then ALARM_TWO_BYTES
      else ucast vote)"

definition m4_votes_result ::
    "handle_m4_votes_error + ack_bundles_diff \<Rightarrow> handle_m4_ack_bundles_error + ack_bundles_diff" where
  "m4_votes_result r = (case r of Inl e \<Rightarrow> Inl (M4A_Votes e) | Inr d \<Rightarrow> Inr d)"

fun handle_m4_ack_bundles ::
    "((m6id \<times> u16) list \<Rightarrow> (m6id \<times> u16) list) \<Rightarrow> dbs \<Rightarrow> blockhash \<Rightarrow> m4_ack_bundles \<Rightarrow>
     handle_m4_ack_bundles_error + ack_bundles_diff" where
  "handle_m4_ack_bundles srt db prev LeadingBy50 =
     m4_votes_result (handle_m4_leading_by_50 srt db)"
| "handle_m4_ack_bundles srt db prev RepeatPrevious = handle_m4_repeat_previous db prev"
| "handle_m4_ack_bundles srt db prev (OneByte upvotes) =
     m4_votes_result (handle_m4_votes db (map widen_vote upvotes))"
| "handle_m4_ack_bundles srt db prev (TwoBytes upvotes) =
     (if list_all (\<lambda>v. v \<le> 253) upvotes then Inl TwoBytesWithinByteRange
      else m4_votes_result (handle_m4_votes db upvotes))"

section \<open>Failed bundles\<close>

definition bundle_failed :: "thresholds \<Rightarrow> u32 \<Rightarrow> m6id \<times> pending_m6id_info \<Rightarrow> bool" where
  "bundle_failed thresholds block_height entry =
     (saturating_sub block_height (pi_proposal_height (snd entry)) >
        ucast (withdrawal_bundle_max_age thresholds))"

fun failed_loop :: "thresholds \<Rightarrow> u32 \<Rightarrow> active_dbs \<Rightarrow> sidechain_number list \<Rightarrow>
    fault + failed_m6ids" where
  "failed_loop t block_height a [] = Inr []"
| "failed_loop t block_height a (n # ns) =
     (case pending_m6ids_db a n of
        None \<Rightarrow> Inl MissingValue
      | Some pending \<Rightarrow>
          let failed = enumerate_filter 0 (bundle_failed t block_height) pending in
          (case failed_loop t block_height a ns of
             Inl e \<Rightarrow> Inl e
           | Inr rest \<Rightarrow> Inr (if failed \<noteq> [] then (n, failed) # rest else rest)))"

definition handle_failed_m6ids ::
    "block_handler \<Rightarrow> dbs \<Rightarrow> u32 \<Rightarrow> fault + failed_m6ids" where
  "handle_failed_m6ids bh db block_height =
     failed_loop (bh_thresholds bh) block_height (active_sidechains db)
       (numbers (active_sidechains db))"

section \<open>The sort by votes\<close>

text \<open>What \<open>sort_unstable_by_key\<close> with a reversed key promises: a permutation of the input
  with descending votes.\<close>

locale votes_sort =
  fixes srt :: "(m6id \<times> u16) list \<Rightarrow> (m6id \<times> u16) list"
  assumes sort_perm: "mset (srt xs) = mset xs"
    and sort_desc: "sorted_wrt (\<lambda>x y. snd y \<le> snd x) (srt xs)"
begin

lemma sort_set: "set (srt xs) = set xs"
  using sort_perm by (metis set_mset_mset)

lemma sort_empty: "srt xs = [] \<longleftrightarrow> xs = []"
  using sort_perm [of xs] by (metis mset_zero_iff)

end

definition sort_by_votes :: "(m6id \<times> u16) list \<Rightarrow> (m6id \<times> u16) list" where
  "sort_by_votes xs = rev (sort_key snd xs)"

interpretation by_votes: votes_sort sort_by_votes
proof
  fix xs :: "(m6id \<times> u16) list"
  show "mset (sort_by_votes xs) = mset xs" by (simp add: sort_by_votes_def)
  have "sorted_wrt (\<lambda>x y. snd x \<le> snd y) (sort_key snd xs)"
    using sorted_sort_key [of snd xs] by (simp add: sorted_map)
  then show "sorted_wrt (\<lambda>x y. snd y \<le> snd x) (sort_by_votes xs)"
    by (simp add: sort_by_votes_def sorted_wrt_rev)
qed

section \<open>The diffs of the handlers are valid\<close>

lemma handle_m1_ok:
  "handle_m1_propose_sidechain B db p h = Some d \<Longrightarrow> ok_msg (DNewSidechainProposal d) db"
  by (auto simp: handle_m1_propose_sidechain_def Let_def split: if_splits)

lemma handle_m2_Some:
  assumes "handle_m2_ack_sidechain bh db h n dh = Some d"
  shows "\<exists>sc. proposal_id_to_sidechain db (asp_id d) = Some sc \<and>
      h \<noteq> st_proposal_height (sc_status sc)"
    "asp_id d = \<lparr>id_sidechain_number = n, id_description_hash = dh\<rparr>"
    "ok_effect (asp_effect d) (sidechain_db (active_sidechains db) n)"
  using assms
  by (auto simp: handle_m2_ack_sidechain_def Let_def split: option.splits if_splits)

lemma handle_m3_ok:
  "handle_m3_propose_bundle db n m = Inr d \<Longrightarrow> ok_msg (DProposeBundle d) db"
  by (auto simp: handle_m3_propose_bundle_def map_of_eq_None_iff split: option.splits if_splits)

lemma votes_ne_max: "pi_vote_count info < 0xFFFF \<Longrightarrow> pi_vote_count info \<noteq> 0xFFFF"
  by auto

lemma ok_alarm:
  "ok_action n (ActAlarm (positive_votes_proposals_for_alarm p)) p"
  by (force simp: positive_votes_proposals_for_alarm_def)

lemma ok_upvote:
  assumes "map_of p m = Some info" "pi_vote_count info \<noteq> 0xFFFF"
  shows "ok_action n (ActUpvote m (downvoted_others_for_upvote p m)) p"
  using assms by (simp add: downvoted_others_for_upvote_def)

lemma vote_action_ok:
  assumes "vote_action p v = Some (Some act)" "distinct (map fst p)"
  shows "ok_action n act p"
proof (cases "v = ALARM_TWO_BYTES")
  case True
  then show ?thesis using assms ok_alarm [of n p]
    by (auto simp: vote_action_def Let_def split: if_splits)
next
  case False
  with assms(1) obtain m info where get: "om_get_index (unat v) p = Some (m, info)"
      "pi_vote_count info < 0xFFFF" "act = ActUpvote m (downvoted_others_for_upvote p m)"
    by (auto simp: vote_action_def split: option.splits if_splits)
  then have "(m, info) \<in> set p"
    by (auto simp: om_get_index_def split: if_splits) (metis nth_mem)
  then have "map_of p m = Some info" using assms(2) by simp
  with get show ?thesis using ok_upvote votes_ne_max by blast
qed

lemma leading_action_ok:
  assumes "votes_sort srt" "leading_action srt p = Some act" "distinct (map fst p)"
  shows "ok_action n act p"
proof -
  let ?l = "map (\<lambda>(m, info). (m, pi_vote_count info)) p"
  from assms(2) obtain leader lv rest where l: "srt ?l = (leader, lv) # rest" "lv < 0xFFFF"
      "act = ActUpvote leader (downvoted_others_for_upvote p leader)"
    by (auto simp: leading_action_def Let_def split: list.splits if_splits)
  then have "(leader, lv) \<in> set ?l" using votes_sort.sort_set [OF assms(1), of ?l] by auto
  then obtain info where "(leader, info) \<in> set p" "pi_vote_count info = lv" by auto
  with assms(3) l show ?thesis using ok_upvote votes_ne_max by (metis map_of_is_SomeI)
qed

lemma repeat_action_ok:
  "repeat_action p prev = Some act \<Longrightarrow> ok_action n act p"
  using ok_alarm [of n p] ok_upvote [of p _ _ n]
  by (cases prev) (auto simp: Let_def split: option.splits if_splits simp del: ok_action.simps)

text \<open>The loops over the slots produce at most one action per slot, valid for its bundles.\<close>

lemma votes_loop_ok:
  "votes_loop a vs = Inr d \<Longrightarrow> pending_wf a \<Longrightarrow>
     subseq (map fst d) (map fst vs) \<and>
     (\<forall>(n, x)\<in>set d. \<exists>p. pending_m6ids_db a n = Some p \<and> ok_action n x p)"
proof (induction a vs arbitrary: d rule: votes_loop.induct)
  case (2 a n vote votes)
  show ?case
  proof (cases "vote = ABSTAIN_TWO_BYTES")
    case True
    then show ?thesis using 2 by (auto intro: list_emb_Cons)
  next
    case False
    with 2(3) obtain p act rest where p: "pending_m6ids_db a n = Some p"
      "vote_action p vote = Some act" "votes_loop a votes = Inr rest"
      "d = (case act of Some x \<Rightarrow> [(n, x)] | None \<Rightarrow> []) @ rest"
      by (auto split: option.splits sum.splits)
    have "distinct (map fst p)" using 2(4) p(1) by (simp add: pending_wf_def)
    then have "ok_action n x p" if "act = Some x" for x
      using vote_action_ok p(2) that by blast
    with 2(2) [OF False p(1,2,3) 2(4)] p show ?thesis
      by (cases act) (auto intro: list_emb_Cons)
  qed
qed simp

lemma leading_loop_ok:
  "votes_sort srt \<Longrightarrow> leading_loop srt a ns = Inr d \<Longrightarrow> pending_wf a \<Longrightarrow>
     subseq (map fst d) ns \<and>
     (\<forall>(n, x)\<in>set d. \<exists>p. pending_m6ids_db a n = Some p \<and> ok_action n x p)"
proof (induction srt a ns arbitrary: d rule: leading_loop.induct)
  case (2 srt a n ns)
  from 2(3) obtain p rest where p: "pending_m6ids_db a n = Some p"
    "leading_loop srt a ns = Inr rest"
    "d = (case leading_action srt p of Some x \<Rightarrow> [(n, x)] | None \<Rightarrow> []) @ rest"
    by (auto split: option.splits sum.splits)
  have "distinct (map fst p)" using 2(4) p(1) by (simp add: pending_wf_def)
  then have "ok_action n x p" if "leading_action srt p = Some x" for x
    using leading_action_ok 2(2) that by blast
  with 2(1) [OF p(1) 2(2) p(2) 2(4)] p show ?case
    by (cases "leading_action srt p") (auto intro: list_emb_Cons)
qed simp

lemma repeat_loop_ok:
  "repeat_loop a prev = Inr d \<Longrightarrow>
     subseq (map fst d) (map fst prev) \<and>
     (\<forall>(n, x)\<in>set d. \<exists>p. pending_m6ids_db a n = Some p \<and> ok_action n x p)"
proof (induction a prev arbitrary: d rule: repeat_loop.induct)
  case (2 a n action prev)
  from 2(2) obtain p rest where p: "pending_m6ids_db a n = Some p"
    "repeat_loop a prev = Inr rest"
    "d = (case repeat_action p action of Some x \<Rightarrow> [(n, x)] | None \<Rightarrow> []) @ rest"
    by (auto split: option.splits sum.splits)
  with 2(1) [OF p(1,2)] repeat_action_ok show ?case
    by (cases "repeat_action p action") (auto intro: list_emb_Cons simp del: ok_action.simps)
qed simp

text \<open>The stored diffs hold at most one action per slot, as the keys of a \<open>HashMap\<close> do.\<close>

definition diffs_wf :: "block_hash_dbs \<Rightarrow> bool" where
  "diffs_wf b \<longleftrightarrow> (\<forall>h d ab. diff_db b h = Some d \<longrightarrow> DAckBundles ab \<in> set (cd_msgs (bd_coinbase d)) \<longrightarrow>
     distinct (map fst ab))"

lemma find_map_Some: "find_map f xs = Some y \<Longrightarrow> \<exists>x\<in>set xs. f x = Some y"
  by (induction xs) (auto split: option.splits)

lemma is_ack_bundles_Some: "is_ack_bundles m = Some ab \<Longrightarrow> m = DAckBundles ab"
  by (cases m) auto

lemma subseq_keeps_distinct: "subseq xs ys \<Longrightarrow> distinct ys \<Longrightarrow> distinct xs"
  by (induction rule: list_emb.induct) (auto dest: list_emb_set)

lemma ok_slots_subseq:
  assumes "pending_wf a" "distinct ns" "subseq (map fst d) ns"
    and "\<forall>(n, x)\<in>set d. \<exists>p. pending_m6ids_db a n = Some p \<and> ok_action n x p"
  shows "ok_slots ok_action d a"
  using assms subseq_keeps_distinct by (auto simp: ok_slots_def)

lemma handle_m4_votes_ok:
  assumes "pending_wf (active_sidechains db)" "handle_m4_votes db vs = Inr d"
  shows "ok_slots ok_action d (active_sidechains db)"
proof -
  let ?a = "active_sidechains db"
  from assms(2) have len: "length vs = length (numbers ?a)"
    and loop: "votes_loop ?a (zip (numbers ?a) vs) = Inr d"
    by (auto simp: handle_m4_votes_def Let_def split: if_splits)
  from votes_loop_ok [OF loop assms(1)] len numbers_distinct [of ?a]
  show ?thesis by (intro ok_slots_subseq [OF assms(1)]) auto
qed

lemma handle_m4_ok:
  assumes "votes_sort srt" "pending_wf (active_sidechains db)" "diffs_wf (block_hashes db)"
    and "handle_m4_ack_bundles srt db prev m4 = Inr d"
  shows "ok_slots ok_action d (active_sidechains db)"
proof (cases m4)
  case RepeatPrevious
  show ?thesis
  proof (cases "d = []")
    case True
    then show ?thesis using assms(2) by (simp add: ok_slots_def)
  next
    case False
    with RepeatPrevious assms(4) obtain pd pab where
      "diff_db (block_hashes db) prev = Some pd"
      "find_map is_ack_bundles (cd_msgs (bd_coinbase pd)) = Some pab"
      and loop: "repeat_loop (active_sidechains db) pab = Inr d"
      by (auto simp: handle_m4_repeat_previous_def split: if_splits option.splits)
    then have "distinct (map fst pab)"
      using assms(3) find_map_Some is_ack_bundles_Some unfolding diffs_wf_def by metis
    with repeat_loop_ok [OF loop] show ?thesis by (intro ok_slots_subseq [OF assms(2)]) auto
  qed
next
  case LeadingBy50
  then have "leading_loop srt (active_sidechains db) (numbers (active_sidechains db)) = Inr d"
    using assms(4) by (auto simp: m4_votes_result_def handle_m4_leading_by_50_def split: sum.splits)
  from leading_loop_ok [OF assms(1) this assms(2)]
  show ?thesis by (intro ok_slots_subseq [OF assms(2) numbers_distinct]) auto
qed (use assms handle_m4_votes_ok in \<open>auto simp: m4_votes_result_def split: sum.splits if_splits\<close>)

lemma failed_loop_ok:
  "failed_loop t h a ns = Inr d \<Longrightarrow>
     subseq (map fst d) ns \<and>
     (\<forall>(n, x)\<in>set d. \<exists>p. pending_m6ids_db a n = Some p \<and> ok_failed n x p)"
proof (induction t h a ns arbitrary: d rule: failed_loop.induct)
  case (2 t h a n ns)
  let ?f = "\<lambda>p. enumerate_filter 0 (bundle_failed t h) p"
  from 2(2) obtain p rest where p: "pending_m6ids_db a n = Some p"
    "failed_loop t h a ns = Inr rest" "d = (if ?f p \<noteq> [] then (n, ?f p) # rest else rest)"
    by (auto simp: Let_def split: option.splits sum.splits)
  moreover have "ok_failed n (?f p) p" by (auto simp: ok_failed_def)
  ultimately show ?case using 2(1) [OF p(1) refl p(2)] by (auto intro: list_emb_Cons)
qed simp

lemma handle_failed_m6ids_ok:
  assumes "pending_wf (active_sidechains db)" "handle_failed_m6ids bh db h = Inr d"
  shows "ok_slots ok_failed d (active_sidechains db)"
  using failed_loop_ok [OF assms(2) [unfolded handle_failed_m6ids_def]] assms(1) numbers_distinct
    subseq_keeps_distinct
  by (auto simp: ok_slots_def)

lemma handle_failed_proposals_ok:
  "handle_failed_sidechain_proposals bh db h k = Some sc \<Longrightarrow> proposal_id_to_sidechain db k = Some sc"
  by (auto simp: handle_failed_sidechain_proposals_def split: option.splits if_splits)

section \<open>What M4 votes do\<close>

text \<open>
  The specification of one vote on the pending bundles of its slot (BIP 300 M4). An upvote adds a
  vote to the named bundle and takes one from every other; an alarm takes one from every bundle;
  an abstention does nothing. A bundle at the maximal count is not upvoted, and then the other
  bundles are left alone.
\<close>

definition plus_vote :: "pending_m6id_info \<Rightarrow> pending_m6id_info" where
  "plus_vote i = i\<lparr>pi_vote_count := of_nat (unat (pi_vote_count i) + 1)\<rparr>"

definition minus_vote :: "pending_m6id_info \<Rightarrow> pending_m6id_info" where
  "minus_vote i = i\<lparr>pi_vote_count := of_nat (unat (pi_vote_count i) - 1)\<rparr>"

definition vote_spec :: "u16 \<Rightarrow> pending_m6ids \<Rightarrow> pending_m6ids" where
  "vote_spec v p =
     (if v = 0xFFFF then p
      else if v = 0xFFFE then map (\<lambda>(k, i). (k, minus_vote i)) p
      else if unat v < length p \<and> unat (pi_vote_count (snd (p ! unat v))) < 65535
      then map (\<lambda>(k, i). (k, if k = fst (p ! unat v) then plus_vote i else minus_vote i)) p
      else p)"

lemma plus_vote_upvote: "plus_vote = upvote"
  by (simp add: fun_eq_iff plus_vote_def upvote_def)

lemma minus_vote_downvote: "minus_vote = downvote"
proof -
  have "of_nat (unat v - 1) = saturating_sub v 1" for v :: u16
  proof -
    have "unat v - 1 = unat (saturating_sub v 1)" by (simp add: saturating_sub_unat)
    then show ?thesis by simp
  qed
  then show ?thesis by (simp add: fun_eq_iff minus_vote_def downvote_def)
qed

lemma vote_spec_alt:
  "vote_spec v p =
     (if v = ABSTAIN_TWO_BYTES then p
      else if v = ALARM_TWO_BYTES then map (\<lambda>(k, i). (k, downvote i)) p
      else if unat v < length p \<and> pi_vote_count (snd (p ! unat v)) < 0xFFFF
      then map (\<lambda>(k, i). (k, if k = fst (p ! unat v) then upvote i else downvote i)) p
      else p)"
  unfolding vote_spec_def ABSTAIN_TWO_BYTES_def ALARM_TWO_BYTES_def plus_vote_upvote
    minus_vote_downvote word_less_nat_alt by simp

lemma downvote_zero: "\<not> 0 < pi_vote_count i \<Longrightarrow> downvote i = i"
  by (cases i) (simp add: downvote_def saturating_sub_def word_gt_0)

lemma downvote_all_zero:
  "\<forall>(k, i)\<in>set p. \<not> 0 < pi_vote_count i \<Longrightarrow> map (\<lambda>(k, i). (k, downvote i)) p = p"
  by (rule map_values_id) (auto simp: downvote_zero)

lemma apply_upvote_spec:
  assumes "distinct (map fst p)" "map_of p m = Some info"
  shows "apply_upvote m (downvoted_others_for_upvote p m) p =
    (Inr (), map (\<lambda>(k, i). (k, if k = m then upvote i else downvote i)) p)"
proof -
  let ?others = "downvoted_others_for_upvote p m"
  have dist: "distinct ?others"
    using distinct_others [OF assms(1)] by (simp add: downvoted_others_for_upvote_def)
  have eq: "(if k \<in> set ?others then downvote (if k = m then upvote i else i)
      else if k = m then upvote i else i) = (if k = m then upvote i else downvote i)"
    if ki: "(k, i) \<in> set p" for k i
  proof (cases "k = m")
    case False
    then have "k \<in> set ?others \<longleftrightarrow> 0 < pi_vote_count i"
      using ki assms(1)
      by (force simp: downvoted_others_for_upvote_def dest: eq_key_imp_eq_value)
    with False show ?thesis by (simp add: downvote_zero)
  qed (auto simp: downvoted_others_for_upvote_def)
  have "fold (\<lambda>k. om_modify k downvote) ?others (om_modify m upvote p) =
      map (\<lambda>(k, i). (k, if k \<in> set ?others then downvote (if k = m then upvote i else i)
        else if k = m then upvote i else i)) p"
    by (simp add: fold_om_modify [OF dist] om_modify_def map_map_values del: map_map)
  also have "\<dots> = map (\<lambda>(k, i). (k, if k = m then upvote i else downvote i)) p"
    using eq by (auto intro!: map_cong)
  finally show ?thesis by (simp add: apply_upvote_def assms(2))
qed

lemma vote_action_spec:
  assumes "vote_action p v = Some act" "distinct (map fst p)" "v \<noteq> ABSTAIN_TWO_BYTES"
  shows "(case act of None \<Rightarrow> vote_spec v p = p | Some x \<Rightarrow> ack_step n x p = Inr (vote_spec v p))"
proof (cases "v = ALARM_TWO_BYTES")
  case True
  have none: "positive_votes_proposals_for_alarm p = {} \<Longrightarrow> map (\<lambda>(k, i). (k, downvote i)) p = p"
    by (rule downvote_all_zero)
      (force simp: positive_votes_proposals_for_alarm_def filter_empty_conv)
  from True assms(3) have "vote_spec v p = map (\<lambda>(k, i). (k, downvote i)) p"
    by (simp add: vote_spec_alt)
  with assms(1) True none show ?thesis by (auto simp: vote_action_def Let_def)
next
  case False
  with assms(1) have lt: "unat v < length p" by (auto simp: vote_action_def om_get_index_def
      split: option.splits if_splits)
  obtain m info where mi: "p ! unat v = (m, info)" by (cases "p ! unat v")
  then have "map_of p m = Some info" using lt assms(2) by (metis map_of_is_SomeI nth_mem)
  then have up: "ack_step n (ActUpvote m (downvoted_others_for_upvote p m)) p =
      Inr (map (\<lambda>(k, i). (k, if k = m then upvote i else downvote i)) p)"
    using apply_upvote_spec [OF assms(2)] by (simp add: try_closure_def)
  have act: "act = (if pi_vote_count info < 0xFFFF
      then Some (ActUpvote m (downvoted_others_for_upvote p m)) else None)"
    using assms(1) False lt mi by (auto simp: vote_action_def om_get_index_def)
  have spec: "vote_spec v p = (if pi_vote_count info < 0xFFFF
      then map (\<lambda>(k, i). (k, if k = m then upvote i else downvote i)) p else p)"
    using False assms(3) lt mi by (simp add: vote_spec_alt)
  show ?thesis using act spec up by (simp split: if_splits)
qed

lemma votes_loop_keys: "votes_loop a vs = Inr d \<Longrightarrow> fst ` set d \<subseteq> fst ` set vs"
proof (induction a vs arbitrary: d rule: votes_loop.induct)
  case (2 a n vote votes)
  show ?case
  proof (cases "vote = ABSTAIN_TWO_BYTES")
    case True
    with 2 show ?thesis by auto
  next
    case False
    with 2(3) obtain p act rest where p: "pending_m6ids_db a n = Some p"
      "vote_action p vote = Some act" "votes_loop a votes = Inr rest"
      "d = (case act of Some x \<Rightarrow> [(n, x)] | None \<Rightarrow> []) @ rest"
      by (auto split: option.splits sum.splits)
    from 2(2) [OF False p(1-3)] p(4) show ?thesis by (cases act) auto
  qed
qed simp

lemma votes_loop_lookup:
  "\<lbrakk>votes_loop a vs = Inr d; distinct (map fst vs); (n, v) \<in> set vs\<rbrakk> \<Longrightarrow>
     if v = ABSTAIN_TWO_BYTES then map_of d n = None
     else \<exists>p. pending_m6ids_db a n = Some p \<and> vote_action p v = Some (map_of d n)"
proof (induction a vs arbitrary: d rule: votes_loop.induct)
  case (2 a m vote votes)
  show ?case
  proof (cases "vote = ABSTAIN_TWO_BYTES")
    case True
    with 2(3) have loop: "votes_loop a votes = Inr d" by simp
    have "map_of d m = None" using votes_loop_keys [OF loop] 2(4) by (force simp: map_of_eq_None_iff)
    with True 2(1) [OF True loop] 2(4,5) show ?thesis by auto
  next
    case False
    with 2(3) obtain p act rest where p: "pending_m6ids_db a m = Some p"
      "vote_action p vote = Some act" and loop: "votes_loop a votes = Inr rest"
      and d: "d = (case act of Some x \<Rightarrow> [(m, x)] | None \<Rightarrow> []) @ rest"
      by (auto split: option.splits sum.splits)
    have none: "map_of rest m = None"
      using votes_loop_keys [OF loop] 2(4) by (force simp: map_of_eq_None_iff)
    show ?thesis
    proof (cases "n = m")
      case True
      then have "v = vote" using 2(4,5) by (force simp: rev_image_eqI)
      with True False p d none show ?thesis by (auto split: option.splits)
    next
      case False
      with 2(5) have "(n, v) \<in> set votes" by simp
      with 2(2) [OF \<open>vote \<noteq> ABSTAIN_TWO_BYTES\<close> p loop _ this] 2(4) d False
      show ?thesis by (auto split: option.splits)
    qed
  qed
qed simp

lemma each_pending_lookup:
  "\<lbrakk>each_slot (pending_step mv F) d a = Inr a'; distinct (map fst d)\<rbrakk> \<Longrightarrow>
     (case map_of d n of
        None \<Rightarrow> pending_m6ids_db a' n = pending_m6ids_db a n
      | Some x \<Rightarrow> \<exists>p p'. pending_m6ids_db a n = Some p \<and> F n x p = Inr p' \<and>
          pending_m6ids_db a' n = Some p')"
proof (induction d arbitrary: a)
  case (Cons y d)
  obtain m x where y: "y = (m, x)" by (cases y)
  from Cons.prems(1) y obtain a1 where a1: "pending_step mv F m x a = Inr a1"
    "each_slot (pending_step mv F) d a1 = Inr a'" by (auto split: sum.splits)
  have m: "m \<notin> fst ` set d" using Cons.prems(2) y by simp
  show ?case
  proof (cases "n = m")
    case True
    then show ?thesis using y a1 each_pending_other [OF a1(2) m] by (auto simp: pending_step_Inr)
  next
    case False
    then have "pending_m6ids_db a1 n = pending_m6ids_db a n" using a1(1)
      by (auto simp: pending_step_Inr)
    moreover have "map_of (y # d) n = map_of d n" using False y by simp
    ultimately show ?thesis using Cons.IH [OF a1(2)] Cons.prems(2)
      by (cases "map_of d n") simp_all
  qed
qed simp

text \<open>C36: the diff of \<open>handle_m4_votes\<close> can be applied, and applying it changes the pending
  bundles of each active slot, in the order of slot numbers, exactly as the specification of its
  vote says; other slots keep their bundles.\<close>

theorem m4_votes_semantics:
  assumes "pending_wf (active_sidechains db)" "handle_m4_votes db vs = Inr d"
  shows "\<exists>a'. apply_ack_bundles d (active_sidechains db) = Inr a' \<and>
    length vs = length (numbers (active_sidechains db)) \<and>
    (\<forall>k < length vs. pending_m6ids_db a' (numbers (active_sidechains db) ! k) =
       map_option (vote_spec (vs ! k))
         (pending_m6ids_db (active_sidechains db) (numbers (active_sidechains db) ! k)))"
proof -
  let ?a = "active_sidechains db" and ?ns = "numbers (active_sidechains db)"
  have ok: "ok_slots ok_action d ?a" by (rule handle_m4_votes_ok [OF assms])
  then obtain a' where app: "apply_ack_bundles d ?a = Inr a'"
    using ack_bundles.undo_apply by blast
  from assms(2) have len: "length vs = length ?ns" and loop: "votes_loop ?a (zip ?ns vs) = Inr d"
    by (auto simp: handle_m4_votes_def Let_def split: if_splits)
  have dist: "distinct (map fst (zip ?ns vs))" using len by (simp add: numbers_distinct)
  have each: "each_slot (pending_step MissingValue ack_step) d ?a = Inr a'"
    using app by (simp add: apply_ack_bundles_def apply_ack_bundle_action_step)
  have "pending_m6ids_db a' (?ns ! k) = map_option (vote_spec (vs ! k)) (pending_m6ids_db ?a (?ns ! k))"
    if k: "k < length vs" for k
  proof -
    let ?n = "?ns ! k" and ?v = "vs ! k"
    have "(?n, ?v) \<in> set (zip ?ns vs)" using k len by (auto simp: set_zip)
    note look = votes_loop_lookup [OF loop dist this]
    have "distinct (map fst d)" using ok by (simp add: ok_slots_def)
    note lk = each_pending_lookup [OF each this, of ?n]
    show ?thesis
    proof (cases "?v = ABSTAIN_TWO_BYTES")
      case True
      moreover have "vote_spec ABSTAIN_TWO_BYTES = id" by (simp add: vote_spec_alt fun_eq_iff)
      ultimately show ?thesis using look lk by (simp add: option.map_id)
    next
      case False
      then obtain p where p: "pending_m6ids_db ?a ?n = Some p" "vote_action p ?v = Some (map_of d ?n)"
        using look by auto
      have "distinct (map fst p)" using assms(1) p(1) by (simp add: pending_wf_def)
      from vote_action_spec [OF p(2) this False, of ?n] lk p(1) show ?thesis
        by (auto split: option.splits)
    qed
  qed
  with app len show ?thesis by blast
qed

text \<open>A state with one active sidechain, in slot 5, and two pending bundles.\<close>

definition sample_sidechain :: sidechain where
  "sample_sidechain = \<lparr>sc_proposal = \<lparr>prop_sidechain_number = 5, prop_description = [0]\<rparr>,
     sc_status = \<lparr>st_vote_count = 6, st_proposal_height = 1, st_activation_height = Some 7\<rparr>\<rparr>"

definition sample_pending :: pending_m6ids where
  "sample_pending = [([1], \<lparr>pi_vote_count = 60, pi_proposal_height = 8\<rparr>),
     ([2], \<lparr>pi_vote_count = 4, pi_proposal_height = 9\<rparr>)]"

definition sample_active :: active_dbs where
  "sample_active = active_dbs_empty\<lparr>sidechain_db := [5 \<mapsto> sample_sidechain],
     pending_m6ids_db := [5 \<mapsto> sample_pending]\<rparr>"

definition sample_dbs :: dbs where
  "sample_dbs = dbs_empty\<lparr>active_sidechains := sample_active\<rparr>"

lemma filter_unique: "distinct xs \<Longrightarrow> y \<in> set xs \<Longrightarrow> filter (\<lambda>x. x = y) xs = [y]"
  by (induction xs) (auto simp: filter_empty_conv)

lemma sample_numbers: "numbers sample_active = [5]"
proof -
  have "numbers sample_active = filter (\<lambda>n. n = 5) all_slots"
    by (simp add: numbers_def sample_active_def active_dbs_empty_def)
  also have "\<dots> = [5]" by (rule filter_unique [OF all_slots_distinct]) (simp add: all_slots_set)
  finally show ?thesis .
qed

lemma sample_pending_wf: "pending_wf sample_active"
  by (auto simp: pending_wf_def sample_active_def active_dbs_empty_def sample_pending_def)

lemma sample_active_wf: "active_wf sample_active"
proof -
  have "ledger_wf sample_active n" for n
    by (simp add: ledger_wf_def sample_active_def active_dbs_empty_def)
  then show ?thesis using sample_pending_wf
    by (simp add: active_wf_def outpoints_wf_def sample_active_def active_dbs_empty_def)
qed

lemma sample_dbs_active [simp]: "active_sidechains sample_dbs = sample_active"
  by (simp add: sample_dbs_def)

lemma sample_pending_lookup [simp]: "pending_m6ids_db sample_active 5 = Some sample_pending"
  by (simp add: sample_active_def)

theorem m4_votes_semantics_witness:
  "\<exists>d a'. handle_m4_votes sample_dbs [1] = Inr d \<and> apply_ack_bundles d sample_active = Inr a' \<and>
     pending_m6ids_db a' 5 = Some [([1], \<lparr>pi_vote_count = 59, pi_proposal_height = 8\<rparr>),
       ([2], \<lparr>pi_vote_count = 5, pi_proposal_height = 9\<rparr>)]"
proof -
  have wf: "pending_wf (active_sidechains sample_dbs)" by (simp add: sample_pending_wf)
  obtain d where d: "handle_m4_votes sample_dbs [1] = Inr d"
    by (simp add: handle_m4_votes_def sample_numbers vote_action_def om_get_index_def
        sample_pending_def ABSTAIN_TWO_BYTES_def ALARM_TWO_BYTES_def)
  from m4_votes_semantics [OF wf d] obtain a' where app: "apply_ack_bundles d sample_active = Inr a'"
    and "pending_m6ids_db a' 5 = Some (vote_spec 1 sample_pending)"
    by (auto simp: sample_numbers)
  then have "pending_m6ids_db a' 5 = Some [([1], \<lparr>pi_vote_count = 59, pi_proposal_height = 8\<rparr>),
       ([2], \<lparr>pi_vote_count = 5, pi_proposal_height = 9\<rparr>)]"
    by (simp add: vote_spec_alt sample_pending_def ABSTAIN_TWO_BYTES_def ALARM_TWO_BYTES_def
        upvote_def downvote_def saturating_sub_def word_le_nat_alt)
  with d app show ?thesis by blast
qed

lemma from_votes_handled:
  "handle_m4_ack_bundles srt db prev (from_votes votes) =
     m4_votes_result (handle_m4_votes db (map vote_two_bytes votes))"
proof (cases "list_ex needs_two_bytes votes")
  case True
  then obtain i where "Upvote i \<in> set votes" "i > MAX_ONE_BYTE_UPVOTE"
    by (auto simp: list_ex_iff elim!: needs_two_bytes.elims)
  then have "\<not> list_all (\<lambda>v. v \<le> 253) (map vote_two_bytes votes)"
    by (force simp: list_all_iff MAX_ONE_BYTE_UPVOTE_def ALARM_ONE_BYTE_def)
  with True show ?thesis by (simp add: from_votes_def)
next
  case False
  have "widen_vote (vote_one_byte v) = vote_two_bytes v" if v: "v \<in> set votes" for v
  proof (cases v)
    case (Upvote i)
    have "\<not> needs_two_bytes v" using False v by (auto simp: list_ex_iff)
    then have "unat i \<le> 253"
      using Upvote by (simp add: MAX_ONE_BYTE_UPVOTE_def ALARM_ONE_BYTE_def word_le_nat_alt not_less)
    then have u: "unat (ucast i :: u8) = unat i" by (simp add: unsigned_ucast_eq take_bit_nat_eq_self)
    then have "(ucast i :: u8) \<noteq> 0xFF" "(ucast i :: u8) \<noteq> 0xFE"
      using \<open>unat i \<le> 253\<close> by auto
    moreover have "(ucast (ucast i :: u8) :: u16) = i"
    proof -
      have "unat (ucast (ucast i :: u8) :: u16) = take_bit LENGTH(16) (unat i)"
        by (subst unsigned_ucast_eq) (simp only: u)
      also have "\<dots> = unat i" by (rule take_bit_nat_eq_self) (use \<open>unat i \<le> 253\<close> in simp)
      finally show ?thesis by (simp only: word_unat_eq_iff)
    qed
    ultimately show ?thesis using Upvote
      by (simp add: widen_vote_def ABSTAIN_ONE_BYTE_def ALARM_ONE_BYTE_def)
  qed (simp_all add: widen_vote_def ABSTAIN_ONE_BYTE_def ALARM_ONE_BYTE_def)
  then have "map widen_vote (map vote_one_byte votes) = map vote_two_bytes votes" by simp
  with False show ?thesis by (simp add: from_votes_def del: map_map)
qed

text \<open>The M4 message that \<open>M4AckBundles::from_votes\<close> encodes is handled as the votes it
  was made from, whichever of the two encodings it chose: the one-byte sentinels are widened to
  the two-byte ones, and the two-byte encoding is only chosen where the handler accepts it.\<close>

theorem from_votes_handled_as_votes:
  "handle_m4_ack_bundles srt db prev (from_votes votes) =
     m4_votes_result (handle_m4_votes db (map vote_two_bytes votes))"
  by (rule from_votes_handled)

section \<open>The LeadingBy50 rule\<close>

text \<open>The bundle with at least 50 votes more than every other bundle of the slot.\<close>

definition is_leader :: "pending_m6ids \<Rightarrow> m6id \<Rightarrow> u16 \<Rightarrow> bool" where
  "is_leader p m v \<longleftrightarrow> (\<exists>info. map_of p m = Some info \<and> pi_vote_count info = v) \<and> 50 \<le> unat v \<and>
     (\<forall>(k, i)\<in>set p. k \<noteq> m \<longrightarrow> unat (pi_vote_count i) + 50 \<le> unat v)"

lemma leading_margin:
  "saturating_sub v w \<ge> LEADING_BY_50_MARGIN \<longleftrightarrow> unat w + 50 \<le> unat v"
  by (auto simp: LEADING_BY_50_MARGIN_def word_le_nat_alt saturating_sub_unat)

lemma leading_sorted_facts:
  assumes "votes_sort srt" "distinct (map fst p)"
    and srt: "srt (map (\<lambda>(m, info). (m, pi_vote_count info)) p) = (leader, lv) # rest"
  shows "\<exists>info. map_of p leader = Some info \<and> pi_vote_count info = lv"
    "\<And>k i. (k, i) \<in> set p \<Longrightarrow> k \<noteq> leader \<Longrightarrow> (k, pi_vote_count i) \<in> set rest"
    "\<And>k v. (k, v) \<in> set rest \<Longrightarrow> v \<le> lv \<and> k \<noteq> leader \<and> (\<exists>i. (k, i) \<in> set p \<and> pi_vote_count i = v)"
    "sorted_wrt (\<lambda>x y. snd y \<le> snd x) rest"
proof -
  let ?l = "map (\<lambda>(m, info). (m, pi_vote_count info)) p"
  have perm: "mset (srt ?l) = mset ?l" and desc: "sorted_wrt (\<lambda>x y. snd y \<le> snd x) (srt ?l)"
    using votes_sort.sort_perm [OF assms(1)] votes_sort.sort_desc [OF assms(1)] by auto
  have set_l: "set ((leader, lv) # rest) = set ?l"
    using votes_sort.sort_set [OF assms(1), of ?l] srt by simp
  have "mset (map fst (srt ?l)) = mset (map fst ?l)" by (simp only: mset_map perm)
  then have dist: "distinct (map fst ((leader, lv) # rest))"
    using assms(2) mset_eq_imp_distinct_iff srt by (fastforce simp: comp_def case_prod_beta)
  have "(leader, lv) \<in> set ?l" unfolding set_l [symmetric] by simp
  then show "\<exists>info. map_of p leader = Some info \<and> pi_vote_count info = lv"
    using assms(2) by auto
  show "(k, pi_vote_count i) \<in> set rest" if "(k, i) \<in> set p" "k \<noteq> leader" for k i
  proof -
    have "(k, pi_vote_count i) \<in> set ((leader, lv) # rest)" unfolding set_l using that by force
    then show ?thesis using that(2) by simp
  qed
  show "v \<le> lv \<and> k \<noteq> leader \<and> (\<exists>i. (k, i) \<in> set p \<and> pi_vote_count i = v)"
    if "(k, v) \<in> set rest" for k v
  proof -
    have "(k, v) \<in> set ?l" unfolding set_l [symmetric] using that by simp
    then obtain i where "(k, i) \<in> set p" "pi_vote_count i = v" by auto
    moreover have "k \<noteq> leader" using dist that by force
    moreover have "v \<le> lv" using desc srt that by force
    ultimately show ?thesis by blast
  qed
  show "sorted_wrt (\<lambda>x y. snd y \<le> snd x) rest" using desc srt by simp
qed

lemma leading_margin_is_leader:
  assumes "votes_sort srt" "distinct (map fst p)"
    and srt: "srt (map (\<lambda>(m, info). (m, pi_vote_count info)) p) = (leader, lv) # rest"
  shows "LEADING_BY_50_MARGIN \<le> saturating_sub lv (case rest of (_, v) # _ \<Rightarrow> v | [] \<Rightarrow> 0) \<longleftrightarrow>
    is_leader p leader lv"
proof -
  note f = leading_sorted_facts [OF assms]
  show ?thesis
  proof (cases rest)
    case Nil
    then have "\<forall>(k, i)\<in>set p. k = leader" using f(2) by fastforce
    then show ?thesis using f(1) Nil
      by (auto simp: LEADING_BY_50_MARGIN_def word_le_nat_alt is_leader_def)
  next
    case (Cons y ys)
    obtain k2 v2 where y: "y = (k2, v2)" by (cases y)
    have second: "v \<le> v2" if "(k, v) \<in> set rest" for k v
      using f(4) that Cons y by auto
    have "unat v2 + 50 \<le> unat lv \<longleftrightarrow> is_leader p leader lv"
    proof
      assume m: "unat v2 + 50 \<le> unat lv"
      have "unat (pi_vote_count i) + 50 \<le> unat lv" if "(k, i) \<in> set p" "k \<noteq> leader" for k i
        using second [OF f(2) [OF that]] m by (simp add: word_le_nat_alt)
      then show "is_leader p leader lv" using f(1) m by (auto simp: is_leader_def)
    next
      assume "is_leader p leader lv"
      then show "unat v2 + 50 \<le> unat lv"
        using f(3) [of k2 v2] Cons y by (auto simp: is_leader_def)
    qed
    then show ?thesis using Cons y by (simp add: leading_margin)
  qed
qed

lemma is_leader_unique:
  assumes "votes_sort srt" "distinct (map fst p)" "is_leader p m v"
    and srt: "srt (map (\<lambda>(m, info). (m, pi_vote_count info)) p) = (leader, lv) # rest"
  shows "m = leader \<and> v = lv"
proof (cases "m = leader")
  case True
  then show ?thesis
    using assms(3) leading_sorted_facts(1) [OF assms(1,2) srt] by (auto simp: is_leader_def)
next
  case False
  note f = leading_sorted_facts [OF assms(1,2) srt]
  from assms(3) obtain i where i: "(m, i) \<in> set p" "pi_vote_count i = v"
    by (auto simp: is_leader_def dest: map_of_SomeD)
  have "unat v \<le> unat lv" using f(3) [OF f(2) [OF i(1) False]] i(2) by (simp add: word_le_nat_alt)
  moreover obtain info where "(leader, info) \<in> set p" "pi_vote_count info = lv"
    using f(1) by (auto dest: map_of_SomeD)
  then have "unat lv + 50 \<le> unat v" using assms(3) False by (auto simp: is_leader_def)
  ultimately show ?thesis by simp
qed

text \<open>Whatever order the unstable sort gives to bundles with equal votes, \<open>LeadingBy50\<close>
  upvotes exactly the bundle that leads every other by at least 50 votes, if there is one and it
  is not saturated, and nothing otherwise.\<close>

theorem leading_by_50_upvotes_leader:
  assumes "votes_sort srt" "distinct (map fst p)"
  shows "leading_action srt p = Some act \<longleftrightarrow>
    (\<exists>m v. is_leader p m v \<and> v < 0xFFFF \<and> act = ActUpvote m (downvoted_others_for_upvote p m))"
proof (cases "srt (map (\<lambda>(m, info). (m, pi_vote_count info)) p)")
  case Nil
  then have "p = []" using votes_sort.sort_empty [OF assms(1)] by force
  then show ?thesis using Nil by (simp add: leading_action_def is_leader_def)
next
  case (Cons y rest)
  obtain leader lv where y: "y = (leader, lv)" by (cases y)
  note srt = Cons [unfolded y]
  have "leading_action srt p = Some act \<longleftrightarrow> is_leader p leader lv \<and> lv < 0xFFFF \<and>
      act = ActUpvote leader (downvoted_others_for_upvote p leader)"
    using leading_margin_is_leader [OF assms srt] srt
    by (auto simp: leading_action_def Let_def)
  then show ?thesis using is_leader_unique [OF assms _ srt] by blast
qed

theorem leading_by_50_upvotes_leader_witness:
  "leading_action sort_by_votes sample_pending = Some (ActUpvote [1] [[2]])"
proof -
  have "distinct (map fst sample_pending)" by (simp add: sample_pending_def)
  from leading_by_50_upvotes_leader [OF by_votes.votes_sort_axioms this,
      of "ActUpvote [1] [[2]]"]
  have "leading_action sort_by_votes sample_pending = Some (ActUpvote [1] [[2]]) \<longleftrightarrow>
    (\<exists>m v. is_leader sample_pending m v \<and> v < 0xFFFF \<and>
      ActUpvote [1] [[2]] = ActUpvote m (downvoted_others_for_upvote sample_pending m))" .
  moreover have "is_leader sample_pending [1] 60"
    by (simp add: is_leader_def sample_pending_def)
  moreover have "downvoted_others_for_upvote sample_pending [1] = [[2]]"
    by (simp add: downvoted_others_for_upvote_def sample_pending_def)
  ultimately show ?thesis by auto
qed

section \<open>Failure by age\<close>

lemma subseq_set_subset: "subseq xs ys \<Longrightarrow> set xs \<subseteq> set ys"
  by (auto dest: list_emb_set)

lemma enumerate_filter_Nil: "enumerate_filter i P xs = [] \<longleftrightarrow> (\<forall>x\<in>set xs. \<not> P x)"
  by (induction xs arbitrary: i) auto

lemma failed_loop_lookup:
  "\<lbrakk>failed_loop t h a ns = Inr d; distinct ns; n \<in> set ns\<rbrakk> \<Longrightarrow>
     \<exists>p. pending_m6ids_db a n = Some p \<and>
       (let f = enumerate_filter 0 (bundle_failed t h) p in
        map_of d n = (if f = [] then None else Some f))"
proof (induction t h a ns arbitrary: d rule: failed_loop.induct)
  case (2 t h a m ns)
  let ?f = "\<lambda>p. enumerate_filter 0 (bundle_failed t h) p"
  from 2(2) obtain p rest where p: "pending_m6ids_db a m = Some p"
    and rest: "failed_loop t h a ns = Inr rest"
    and d: "d = (if ?f p \<noteq> [] then (m, ?f p) # rest else rest)"
    by (auto simp: Let_def split: option.splits sum.splits)
  have keys: "fst ` set rest \<subseteq> set ns"
    using failed_loop_ok [OF rest] subseq_set_subset by fastforce
  show ?case
  proof (cases "n = m")
    case True
    have "m \<notin> fst ` set rest" using keys 2(3) by auto
    then have "map_of rest m = None" by (simp add: map_of_eq_None_iff)
    with True p d show ?thesis by (simp add: Let_def)
  next
    case False
    with 2(1) [OF p refl rest] 2(3,4) d show ?thesis by (auto simp: Let_def)
  qed
qed simp

lemma bundle_failed_nat:
  "bundle_failed t h (m, info) \<longleftrightarrow>
     unat (withdrawal_bundle_max_age t) < unat h - unat (pi_proposal_height info)"
  by (simp add: bundle_failed_def word_less_nat_alt saturating_sub_unat unat_ucast_u16_u32)

text \<open>After the failed bundles of a block are removed, the pending bundles of every active
  slot are exactly those whose age does not exceed the maximum, in their old order.\<close>

theorem failed_m6ids_removes_expired:
  assumes "pending_wf (active_sidechains db)" "handle_failed_m6ids bh db h = Inr d"
    and "n \<in> set (numbers (active_sidechains db))"
  shows "\<exists>a'. apply_failed_m6ids d (active_sidechains db) = Inr a' \<and>
    pending_m6ids_db a' n = map_option (filter (\<lambda>(m, info).
        unat h - unat (pi_proposal_height info) \<le> unat (withdrawal_bundle_max_age (bh_thresholds bh))))
      (pending_m6ids_db (active_sidechains db) n)"
proof -
  have young: "(\<lambda>(m, info). unat h - unat (pi_proposal_height info) \<le>
      unat (withdrawal_bundle_max_age (bh_thresholds bh))) = (\<lambda>e. \<not> bundle_failed (bh_thresholds bh) h e)"
    by (auto simp: bundle_failed_nat)
  let ?a = "active_sidechains db" and ?P = "bundle_failed (bh_thresholds bh) h"
  have ok: "ok_slots ok_failed d ?a" by (rule handle_failed_m6ids_ok [OF assms(1,2)])
  then obtain a' where app: "apply_failed_m6ids d ?a = Inr a'"
    using failed_bundles.undo_apply by blast
  from failed_loop_lookup [OF assms(2) [unfolded handle_failed_m6ids_def] numbers_distinct assms(3)]
  obtain p where p: "pending_m6ids_db ?a n = Some p"
    and d: "map_of d n = (if enumerate_filter 0 ?P p = [] then None else Some (enumerate_filter 0 ?P p))"
    by (auto simp: Let_def)
  have dist: "distinct (map fst p)" using assms(1) p by (simp add: pending_wf_def)
  have each: "each_slot (pending_step MissingValue fail_step) d ?a = Inr a'"
    using app by (simp add: apply_failed_m6ids_def apply_failed_slot_step)
  have "distinct (map fst d)" using ok by (simp add: ok_slots_def)
  note lk = each_pending_lookup [OF each this, of n]
  have "pending_m6ids_db a' n = Some (filter (\<lambda>e. \<not> ?P e) p)"
  proof (cases "enumerate_filter 0 ?P p = []")
    case True
    then have "filter (\<lambda>e. \<not> ?P e) p = p"
      by (simp add: enumerate_filter_Nil)
    then show ?thesis using True lk d p by simp
  next
    case False
    then show ?thesis using lk d p fail_step_enum [OF dist, of n ?P] by simp
  qed
  with app p show ?thesis unfolding young by simp
qed

theorem failed_m6ids_removes_expired_witness:
  "\<exists>d a'. handle_failed_m6ids \<lparr>bh_network = Regtest,
       bh_params = network_params_new sample_btc ForkBitcoin Regtest None, bh_thresholds = SHORT,
       require_payable_bundles = True\<rparr> sample_dbs 19 = Inr d \<and>
     apply_failed_m6ids d sample_active = Inr a' \<and>
     pending_m6ids_db a' 5 = Some [([2], \<lparr>pi_vote_count = 4, pi_proposal_height = 9\<rparr>)]"
proof -
  let ?bh = "\<lparr>bh_network = Regtest,
       bh_params = network_params_new sample_btc ForkBitcoin Regtest None, bh_thresholds = SHORT,
       require_payable_bundles = True\<rparr>"
  have wf: "pending_wf (active_sidechains sample_dbs)" by (simp add: sample_pending_wf)
  obtain d where d: "handle_failed_m6ids ?bh sample_dbs 19 = Inr d"
    by (simp add: handle_failed_m6ids_def sample_numbers Let_def)
  from failed_m6ids_removes_expired [OF wf d, of 5] obtain a' where
    app: "apply_failed_m6ids d sample_active = Inr a'"
    and p: "pending_m6ids_db a' 5 = Some (filter (\<lambda>(m, info).
      unat (19 :: u32) - unat (pi_proposal_height info) \<le> unat (withdrawal_bundle_max_age SHORT)) sample_pending)"
    by (auto simp: sample_numbers)
  have "filter (\<lambda>(m, info). unat (19 :: u32) - unat (pi_proposal_height info) \<le>
      unat (withdrawal_bundle_max_age SHORT)) sample_pending =
      [([2], \<lparr>pi_vote_count = 4, pi_proposal_height = 9\<rparr>)]"
    by (simp add: sample_pending_def SHORT_def)
  with d app p show ?thesis by auto
qed

text \<open>A BMM request transaction is accepted in a block exactly if its commitment is the one
  accepted for its slot and it names the parent block; in the mempool, where no commitments are
  known yet, only the parent block counts. Other transactions are never refused.\<close>

theorem handle_m8_accepts:
  "handle_m8 tx accepted parent = Inr b \<longleftrightarrow>
     (case parse_m8_tx tx of
        None \<Rightarrow> b = False
      | Some req \<Rightarrow>
          b = True \<and> m8_prev_mainchain_block_hash req = parent \<and>
          (case accepted of None \<Rightarrow> True
           | Some acc \<Rightarrow> map_of acc (m8_sidechain_number req) = Some (m8_sidechain_block_hash req)))"
  by (auto simp: handle_m8_def split: option.splits)

end
