(* ===== verification/Ctips.thy ===== *)
theory Ctips
  imports Handlers
begin

text \<open>
  Treasury transactions, M5 deposits and M6 withdrawals, in \<open>src/lib/validator/task/mod.rs\<close>:
  the treasury outputs a block has created but not yet consolidated
  (\<open>UnconsolidatedCtips\<close>), the treasury inputs and outputs of a transaction
  (\<open>fill_ctips\<close>), the check of a withdrawal against the pending bundles (\<open>handle_m6\<close>) and
  the classification of a transaction (\<open>handle_m5_m6\<close>), with \<open>handle_transaction\<close>.

  A \<open>HashMap\<close> is an association list; where the code iterates over one, the order is a
  parameter \<open>ord\<close>. A \<open>HashSet\<close> of treasury outputs is a list without repetition, a
  \<open>LinkedHashSet\<close> a list in insertion order.
\<close>

section \<open>Unconsolidated treasury outputs\<close>

record unconsolidated_ctips =
  by_outpoint :: "(outpoint \<times> sidechain_number \<times> amount) list"
  by_sidechain :: "sidechain_number \<Rightarrow> ctip list option"

definition uc_default :: unconsolidated_ctips where
  "uc_default = \<lparr>by_outpoint = [], by_sidechain = (\<lambda>_. None)\<rparr>"

definition linked_insert :: "'a \<Rightarrow> 'a list \<Rightarrow> 'a list" where
  "linked_insert x xs = filter (\<lambda>y. y \<noteq> x) xs @ [x]"

definition uc_insert :: "sidechain_number \<Rightarrow> ctip \<Rightarrow> unconsolidated_ctips \<Rightarrow> unconsolidated_ctips" where
  "uc_insert n c uc =
     \<lparr>by_outpoint = om_insert (ctip_outpoint c) (n, ctip_value c) (by_outpoint uc),
      by_sidechain = (by_sidechain uc)(n :=
        Some (linked_insert c (case by_sidechain uc n of Some cs \<Rightarrow> cs | None \<Rightarrow> [])))\<rparr>"

definition uc_is_empty :: "unconsolidated_ctips \<Rightarrow> bool" where
  "uc_is_empty uc = (by_outpoint uc = [])"

definition uc_remove :: "outpoint \<Rightarrow> unconsolidated_ctips \<Rightarrow> bool \<times> unconsolidated_ctips" where
  "uc_remove outp uc =
     (case map_of (by_outpoint uc) outp of
        None \<Rightarrow> (False, uc)
      | Some (n, value) \<Rightarrow>
          let uc = uc\<lparr>by_outpoint := om_remove outp (by_outpoint uc)\<rparr> in
          (case by_sidechain uc n of
             None \<Rightarrow> (True, uc)
           | Some ctips \<Rightarrow>
               let ctips = filter (\<lambda>c. c \<noteq> \<lparr>ctip_outpoint = outp, ctip_value = value\<rparr>) ctips in
               (True, uc\<lparr>by_sidechain := (by_sidechain uc)
                  (n := if ctips = [] then None else Some ctips)\<rparr>)))"

definition uc_get_by_sidechain :: "unconsolidated_ctips \<Rightarrow> sidechain_number \<Rightarrow> ctip list option" where
  "uc_get_by_sidechain uc n = by_sidechain uc n"

definition uc_remove_sidechain ::
    "sidechain_number \<Rightarrow> unconsolidated_ctips \<Rightarrow> ctip list \<times> unconsolidated_ctips" where
  "uc_remove_sidechain n uc =
     (let res = (case by_sidechain uc n of Some cs \<Rightarrow> cs | None \<Rightarrow> []) in
      (res, \<lparr>by_outpoint = fold (\<lambda>c. om_remove (ctip_outpoint c)) res (by_outpoint uc),
             by_sidechain = (by_sidechain uc)(n := None)\<rparr>))"

section \<open>The treasury inputs and outputs of a transaction\<close>

datatype invalid_m6 =
    InsufficientVoteCount m6id u16 u16
  | MissingPendingWithdrawal m6id sidechain_number
  | TreasuryOutputCount nat
  | TreasuryOutputIndex u32
  | UnexpectedInput outpoint
  | MissingConsolidatedInput sidechain_number

datatype handle_m5_m6_error =
    Ambiguous
  | M5M6_Db fault
  | InvalidM6 invalid_m6
  | M5M6_M6id m6id_error
  | MissingDepositAddress sidechain_number
  | MultipleOpDrivechainOutputs sidechain_number
  | TreasurySpentWithoutNewCtip sidechain_number
  | ZeroDiff

record tx_ctips_info =
  consolidated_ctip_input :: "ctip option"
  unconsolidated_ctip_inputs :: "ctip list"
  ctip_output :: ctip

type_synonym tx_ctips_infos = "(sidechain_number \<times> tx_ctips_info) list"

definition set_insert :: "'a \<Rightarrow> 'a list \<Rightarrow> 'a list" where
  "set_insert x xs = (if x \<in> set xs then xs else xs @ [x])"

fun fill_outputs :: "op_drivechain \<Rightarrow> active_dbs \<Rightarrow> txid \<Rightarrow> nat \<Rightarrow> txout list \<Rightarrow> tx_ctips_infos \<Rightarrow>
    handle_m5_m6_error + tx_ctips_infos" where
  "fill_outputs od a txid vout [] res = Inr res"
| "fill_outputs od a txid vout (outp # outputs) res =
     (case drivechain_parse od (to_script_pubkey outp) of
        Inl _ \<Rightarrow> fill_outputs od a txid (Suc vout) outputs res
      | Inr (_, n) \<Rightarrow>
          if sidechain_db a n = None then fill_outputs od a txid (Suc vout) outputs res
          else if map_of res n \<noteq> None then Inl (MultipleOpDrivechainOutputs n)
          else fill_outputs od a txid (Suc vout) outputs
            (res @ [(n, \<lparr>consolidated_ctip_input = None, unconsolidated_ctip_inputs = [],
               ctip_output = \<lparr>ctip_outpoint = \<lparr>op_txid = txid, op_vout = of_nat vout\<rparr>,
                 ctip_value = to_value outp\<rparr>\<rparr>)]))"

fun fill_inputs :: "active_dbs \<Rightarrow> unconsolidated_ctips \<Rightarrow> txin list \<Rightarrow> tx_ctips_infos \<Rightarrow>
    handle_m5_m6_error + tx_ctips_infos" where
  "fill_inputs a uc [] res = Inr res"
| "fill_inputs a uc (txin # inputs) res =
     (let outp = previous_output txin in
      case ctip_outpoint_to_value_seq a outp of
        Some (n, amount, _) \<Rightarrow>
          (case map_of res n of
             None \<Rightarrow> Inl (TreasurySpentWithoutNewCtip n)
           | Some info \<Rightarrow>
               if consolidated_ctip_input info \<noteq> None then Inl (M5M6_Db Panic)
               else fill_inputs a uc inputs
                 (om_modify n (\<lambda>i. i\<lparr>consolidated_ctip_input :=
                    Some \<lparr>ctip_outpoint = outp, ctip_value = amount\<rparr>\<rparr>) res))
      | None \<Rightarrow>
     (case map_of (by_outpoint uc) outp of
        Some (n, amount) \<Rightarrow>
          (case map_of res n of
             None \<Rightarrow> Inl (TreasurySpentWithoutNewCtip n)
           | Some _ \<Rightarrow>
               fill_inputs a uc inputs
                 (om_modify n (\<lambda>i. i\<lparr>unconsolidated_ctip_inputs :=
                    set_insert \<lparr>ctip_outpoint = outp, ctip_value = amount\<rparr>
                      (unconsolidated_ctip_inputs i)\<rparr>) res))
      | None \<Rightarrow> fill_inputs a uc inputs res))"

definition fill_ctips :: "btc \<Rightarrow> block_handler \<Rightarrow> dbs \<Rightarrow> unconsolidated_ctips \<Rightarrow> transaction \<Rightarrow>
    handle_m5_m6_error + tx_ctips_infos" where
  "fill_ctips B bh db uc tx =
     (let a = active_sidechains db in
      case fill_outputs (np_op_drivechain (bh_params bh)) a (b_compute_txid B tx) 0
             (tx_output tx) [] of
        Inl e \<Rightarrow> Inl e
      | Inr res \<Rightarrow> fill_inputs a uc (tx_input tx) res)"

section \<open>M6\<close>

definition handle_m6 :: "btc \<Rightarrow> block_handler \<Rightarrow> dbs \<Rightarrow> transaction \<Rightarrow> amount \<Rightarrow>
    handle_m5_m6_error + m6id \<times> sidechain_number \<times> nat \<times> pending_m6id_info" where
  "handle_m6 B bh db tx old_treasury_value =
     (case compute_m6id B (np_op_drivechain (bh_params bh)) tx old_treasury_value of
        Inl e \<Rightarrow> Inl (M5M6_M6id e)
      | Inr (m, n) \<Rightarrow>
     (case pending_m6ids_db (active_sidechains db) n of
        None \<Rightarrow> Inl (InvalidM6 (MissingPendingWithdrawal m n))
      | Some pending \<Rightarrow>
     (case om_get_full m pending of
        None \<Rightarrow> Inl (InvalidM6 (MissingPendingWithdrawal m n))
      | Some (index, info) \<Rightarrow>
          if \<not> require_payable_bundles bh \<or>
             pi_vote_count info > withdrawal_bundle_inclusion_threshold (bh_thresholds bh)
          then Inr (m, n, index, info)
          else Inl (InvalidM6 (InsufficientVoteCount m
            (withdrawal_bundle_inclusion_threshold (bh_thresholds bh)) (pi_vote_count info))))))"

section \<open>M5 and M6\<close>

datatype deposits_or_withdrawal =
    M5Deposits "(sidechain_number \<times> deposit) list" m5_diff
  | M6Withdrawal sidechain_number m6id nat m6_diff

fun first_unexpected :: "outpoint set \<Rightarrow> txin list \<Rightarrow> outpoint option" where
  "first_unexpected expected [] = None"
| "first_unexpected expected (txin # inputs) =
     (if previous_output txin \<notin> expected then Some (previous_output txin)
      else first_unexpected expected inputs)"

text \<open>The \<open>Ordering::Less\<close> arm of the loop body.\<close>

definition m6_arm :: "btc \<Rightarrow> block_handler \<Rightarrow> dbs \<Rightarrow> transaction \<Rightarrow> nat \<Rightarrow> sidechain_number \<Rightarrow>
    tx_ctips_info \<Rightarrow> amount \<Rightarrow> deposits_or_withdrawal option \<Rightarrow>
    handle_m5_m6_error + deposits_or_withdrawal" where
  "m6_arm B bh db tx n_ctip_outputs n info treasury_value_in res =
     (case consolidated_ctip_input info of
        None \<Rightarrow> Inl (InvalidM6 (MissingConsolidatedInput n))
      | Some consolidated \<Rightarrow>
     (case first_unexpected
             (insert (ctip_outpoint consolidated)
               (ctip_outpoint ` set (unconsolidated_ctip_inputs info))) (tx_input tx) of
        Some unexpected \<Rightarrow> Inl (InvalidM6 (UnexpectedInput unexpected))
      | None \<Rightarrow>
     (if op_vout (ctip_outpoint (ctip_output info)) \<noteq> 0
      then Inl (InvalidM6 (TreasuryOutputIndex (op_vout (ctip_outpoint (ctip_output info)))))
      else case handle_m6 B bh db tx treasury_value_in of
        Inl e \<Rightarrow> Inl e
      | Inr (m, n', removed_index, pinfo) \<Rightarrow>
     (if n \<noteq> n' then Inl (M5M6_Db Panic)
      else
        let sequence_number = utxo_count (active_sidechains db) n;
            diff = \<lparr>m6d_sidechain_number = n, m6d_new_ctip = ctip_output info,
              m6d_removed_pending_withdrawal = m,
              m6d_removed_pending_withdrawal_index = removed_index,
              m6d_removed_pending_withdrawal_info = pinfo\<rparr>
        in case res of
             None \<Rightarrow> Inr (M6Withdrawal n m sequence_number diff)
           | Some (M5Deposits _ _) \<Rightarrow> Inl Ambiguous
           | Some (M6Withdrawal _ _ _ _) \<Rightarrow> Inl (InvalidM6 (TreasuryOutputCount n_ctip_outputs))))))"

text \<open>The deposit of the \<open>Ordering::Greater\<close> arm: the next output is its address.\<close>

definition m5_deposit :: "btc \<Rightarrow> dbs \<Rightarrow> transaction \<Rightarrow> sidechain_number \<Rightarrow> ctip \<Rightarrow> amount \<Rightarrow>
    handle_m5_m6_error + deposit" where
  "m5_deposit B db tx n out treasury_value_in =
     (let i = unat (op_vout (ctip_outpoint out)) + 1 in
      if length (tx_output tx) \<le> i then Inl (MissingDepositAddress n)
      else case try_parse_op_return_address B (to_script_pubkey (tx_output tx ! i)) of
        None \<Rightarrow> Inl (MissingDepositAddress n)
      | Some address \<Rightarrow>
          Inr \<lparr>dep_sequence_number = utxo_count (active_sidechains db) n,
            dep_outpoint = ctip_outpoint out, dep_address = address,
            dep_value = ctip_value out - treasury_value_in\<rparr>)"

text \<open>Whether the new treasury output becomes the treasury output of its slot at once: it spends
  the old one, or there is none.\<close>

definition consolidates :: "dbs \<Rightarrow> sidechain_number \<Rightarrow> tx_ctips_info \<Rightarrow> bool" where
  "consolidates db n info \<longleftrightarrow>
     consolidated_ctip_input info \<noteq> None \<or> ctip_db (active_sidechains db) n = None"

definition m5_arm :: "btc \<Rightarrow> dbs \<Rightarrow> transaction \<Rightarrow> sidechain_number \<Rightarrow> tx_ctips_info \<Rightarrow>
    amount \<Rightarrow> deposits_or_withdrawal option \<Rightarrow> handle_m5_m6_error + deposits_or_withdrawal" where
  "m5_arm B db tx n info treasury_value_in res =
     (case (if ctip_value (ctip_output info) > treasury_value_in
            then (case m5_deposit B db tx n (ctip_output info) treasury_value_in of
                    Inl e \<Rightarrow> Inl e | Inr d \<Rightarrow> Inr (Some d))
            else Inr None) of
        Inl e \<Rightarrow> Inl e
      | Inr deposit \<Rightarrow>
     (case res of
        None \<Rightarrow>
          Inr (M5Deposits (case deposit of Some d \<Rightarrow> [(n, d)] | None \<Rightarrow> [])
            (if consolidates db n info then [(n, ctip_output info)] else []))
      | Some (M5Deposits deposits diff) \<Rightarrow>
          Inr (M5Deposits (case deposit of Some d \<Rightarrow> om_insert n d deposits | None \<Rightarrow> deposits)
            (if consolidates db n info then om_insert n (ctip_output info) diff else diff))
      | Some (M6Withdrawal _ _ _ _) \<Rightarrow> Inl Ambiguous))"

text \<open>
  The loop body. \<open>Sum\<close> of amounts wraps and \<open>+\<close> of amounts panics on overflow.
\<close>

definition treasury_in :: "tx_ctips_info \<Rightarrow> amount option" where
  "treasury_in info =
     checked_add (case consolidated_ctip_input info of Some c \<Rightarrow> ctip_value c | None \<Rightarrow> 0)
       (sum_list (map ctip_value (unconsolidated_ctip_inputs info)))"

definition classify :: "btc \<Rightarrow> block_handler \<Rightarrow> dbs \<Rightarrow> transaction \<Rightarrow> nat \<Rightarrow> sidechain_number \<Rightarrow>
    tx_ctips_info \<Rightarrow> deposits_or_withdrawal option \<Rightarrow>
    handle_m5_m6_error + deposits_or_withdrawal" where
  "classify B bh db tx n_ctip_outputs n info res =
     (case treasury_in info of
        None \<Rightarrow> Inl (M5M6_Db Panic)
      | Some treasury_value_in \<Rightarrow>
          if ctip_value (ctip_output info) = treasury_value_in \<and> unconsolidated_ctip_inputs info = []
          then Inl ZeroDiff
          else if ctip_value (ctip_output info) < treasury_value_in
          then m6_arm B bh db tx n_ctip_outputs n info treasury_value_in res
          else m5_arm B db tx n info treasury_value_in res)"

definition update_unconsolidated :: "dbs \<Rightarrow> sidechain_number \<Rightarrow> tx_ctips_info \<Rightarrow>
    unconsolidated_ctips \<Rightarrow> unconsolidated_ctips" where
  "update_unconsolidated db n info uc =
     (let uc = fold (\<lambda>c uc. snd (uc_remove (ctip_outpoint c) uc)) (unconsolidated_ctip_inputs info) uc
      in if consolidates db n info then uc else uc_insert n (ctip_output info) uc)"

fun m5_m6_loop :: "btc \<Rightarrow> block_handler \<Rightarrow> dbs \<Rightarrow> transaction \<Rightarrow> nat \<Rightarrow> tx_ctips_infos \<Rightarrow>
    deposits_or_withdrawal option \<Rightarrow> unconsolidated_ctips \<Rightarrow>
    handle_m5_m6_error + deposits_or_withdrawal option \<times> unconsolidated_ctips" where
  "m5_m6_loop B bh db tx k [] res uc = Inr (res, uc)"
| "m5_m6_loop B bh db tx k ((n, info) # infos) res uc =
     (case classify B bh db tx k n info res of
        Inl e \<Rightarrow> Inl e
      | Inr res' \<Rightarrow>
          m5_m6_loop B bh db tx k infos (Some res') (update_unconsolidated db n info uc))"

definition handle_m5_m6 :: "btc \<Rightarrow> (tx_ctips_infos \<Rightarrow> tx_ctips_infos) \<Rightarrow> block_handler \<Rightarrow> dbs \<Rightarrow>
    unconsolidated_ctips \<Rightarrow> transaction \<Rightarrow>
    handle_m5_m6_error + deposits_or_withdrawal option \<times> unconsolidated_ctips" where
  "handle_m5_m6 B ord bh db uc tx =
     (case fill_ctips B bh db uc tx of
        Inl e \<Rightarrow> Inl e
      | Inr infos \<Rightarrow> m5_m6_loop B bh db tx (length infos) (ord infos) None uc)"

section \<open>Transactions\<close>

datatype transaction_event =
    TxDeposits "(sidechain_number \<times> deposit) list"
  | TxWithdrawalBundle withdrawal_bundle_event

datatype handle_transaction_error =
    HT_M5M6 handle_m5_m6_error
  | HT_M8 handle_m8_error

definition tx_result :: "transaction \<Rightarrow> deposits_or_withdrawal option \<Rightarrow>
    (transaction_event \<times> tx_diff) option" where
  "tx_result tx r =
     (case r of
        None \<Rightarrow> None
      | Some (M5Deposits deposits diff) \<Rightarrow> Some (TxDeposits deposits, DM5 diff)
      | Some (M6Withdrawal n m sequence_number diff) \<Rightarrow>
          Some (TxWithdrawalBundle \<lparr>wbe_sidechain_id = n, wbe_m6id = m,
            wbe_kind = Succeeded sequence_number tx\<rparr>, DM6 diff))"

definition handle_transaction :: "btc \<Rightarrow> (tx_ctips_infos \<Rightarrow> tx_ctips_infos) \<Rightarrow> block_handler \<Rightarrow> dbs \<Rightarrow>
    bmm_commitments option \<Rightarrow> unconsolidated_ctips \<Rightarrow> blockhash \<Rightarrow> transaction \<Rightarrow>
    handle_transaction_error + (transaction_event \<times> tx_diff) option \<times> unconsolidated_ctips" where
  "handle_transaction B ord bh db accepted uc prev tx =
     (case handle_m5_m6 B ord bh db uc tx of
        Inl e \<Rightarrow> Inl (HT_M5M6 e)
      | Inr (r, uc) \<Rightarrow>
          (case handle_m8 tx accepted prev of
             Inl e \<Rightarrow> Inl (HT_M8 e)
           | Inr _ \<Rightarrow> Inr (tx_result tx r, uc)))"

section \<open>The treasury inputs of a transaction\<close>

text \<open>The slot and value of a treasury output: consolidated, or created in this block and not
  consolidated yet.\<close>

definition treasury_of :: "active_dbs \<Rightarrow> unconsolidated_ctips \<Rightarrow> outpoint \<Rightarrow>
    (sidechain_number \<times> amount) option" where
  "treasury_of a uc outp =
     (case ctip_outpoint_to_value_seq a outp of
        Some (n, v, _) \<Rightarrow> Some (n, v)
      | None \<Rightarrow> map_of (by_outpoint uc) outp)"

text \<open>The value that a transaction takes out of the treasury of a slot.\<close>

definition spent_outpoints :: "active_dbs \<Rightarrow> unconsolidated_ctips \<Rightarrow> transaction \<Rightarrow>
    sidechain_number \<Rightarrow> outpoint set" where
  "spent_outpoints a uc tx n =
     {outp \<in> previous_output ` set (tx_input tx). \<exists>v. treasury_of a uc outp = Some (n, v)}"

definition spent_value :: "active_dbs \<Rightarrow> unconsolidated_ctips \<Rightarrow> transaction \<Rightarrow>
    sidechain_number \<Rightarrow> nat" where
  "spent_value a uc tx n =
     (\<Sum>outp\<in>spent_outpoints a uc tx n. unat (snd (the (treasury_of a uc outp))))"

text \<open>What \<open>fill_outputs\<close> gives: one entry per active slot with a treasury output, naming the
  output.\<close>

definition output_of :: "op_drivechain \<Rightarrow> active_dbs \<Rightarrow> txid \<Rightarrow> txout list \<Rightarrow> sidechain_number \<Rightarrow>
    ctip \<Rightarrow> bool" where
  "output_of od a txid outs n c \<longleftrightarrow> sidechain_db a n \<noteq> None \<and>
     (\<exists>i < length outs. c = \<lparr>ctip_outpoint = \<lparr>op_txid = txid, op_vout = of_nat i\<rparr>,
          ctip_value = to_value (outs ! i)\<rparr> \<and>
        (\<exists>rest. drivechain_parse od (to_script_pubkey (outs ! i)) = Inr (rest, n)))"

lemma fill_outputs_spec:
  assumes "fill_outputs od a txid (length pre) outs res = Inr r" "distinct (map fst res)"
    and "\<forall>(n, i)\<in>set res. output_of od a txid (pre @ outs) n (ctip_output i) \<and>
      consolidated_ctip_input i = None \<and> unconsolidated_ctip_inputs i = []"
  shows "distinct (map fst r) \<and>
    (\<forall>(n, i)\<in>set r. output_of od a txid (pre @ outs) n (ctip_output i) \<and>
      consolidated_ctip_input i = None \<and> unconsolidated_ctip_inputs i = [])"
  using assms
proof (induction outs arbitrary: pre res)
  case (Cons outp outs)
  note step = Cons.IH [of "pre @ [outp]"]
  show ?case
  proof (cases "drivechain_parse od (to_script_pubkey outp)")
    case (Inl e)
    then show ?thesis using step [of res] Cons.prems by simp
  next
    case (Inr p)
    obtain rest n where p: "p = (rest, n)" by (cases p)
    let ?new = "\<lparr>consolidated_ctip_input = None, unconsolidated_ctip_inputs = [],
               ctip_output = \<lparr>ctip_outpoint = \<lparr>op_txid = txid, op_vout = of_nat (length pre)\<rparr>,
                 ctip_value = to_value outp\<rparr>\<rparr> :: tx_ctips_info"
    show ?thesis
    proof (cases "sidechain_db a n = None")
      case True
      then show ?thesis using step [of res] Cons.prems Inr p by simp
    next
      case False
      then have none: "map_of res n = None"
        and rest: "fill_outputs od a txid (length (pre @ [outp])) outs (res @ [(n, ?new)]) = Inr r"
        using Cons.prems(1) Inr p by (auto split: if_splits)
      have "output_of od a txid (pre @ outp # outs) n (ctip_output ?new)"
        using False Inr p unfolding output_of_def
        by (auto intro!: exI [of _ "length pre"])
      then show ?thesis using step [OF rest] Cons.prems(2,3) none
        by (auto simp: map_of_eq_None_iff)
    qed
  qed
qed simp

lemmas fill_outputs_initial = fill_outputs_spec [of _ _ _ "[]" _ "[]", simplified]

text \<open>What \<open>fill_inputs\<close> gives after the inputs with the outpoints \<open>D\<close>: the entry of a slot
  holds exactly the treasury outputs of the slot among them.\<close>

definition info_inv :: "active_dbs \<Rightarrow> unconsolidated_ctips \<Rightarrow> outpoint set \<Rightarrow> sidechain_number \<Rightarrow>
    tx_ctips_info \<Rightarrow> bool" where
  "info_inv a uc D n info \<longleftrightarrow>
     set_option (consolidated_ctip_input info) =
       {\<lparr>ctip_outpoint = outp, ctip_value = v\<rparr> | outp v.
          outp \<in> D \<and> (\<exists>s. ctip_outpoint_to_value_seq a outp = Some (n, v, s))} \<and>
     set (unconsolidated_ctip_inputs info) =
       {\<lparr>ctip_outpoint = outp, ctip_value = v\<rparr> | outp v.
          outp \<in> D \<and> ctip_outpoint_to_value_seq a outp = None \<and>
          map_of (by_outpoint uc) outp = Some (n, v)} \<and>
     distinct (unconsolidated_ctip_inputs info)"

definition infos_inv :: "active_dbs \<Rightarrow> unconsolidated_ctips \<Rightarrow> outpoint set \<Rightarrow> tx_ctips_infos \<Rightarrow> bool" where
  "infos_inv a uc D infos \<longleftrightarrow> distinct (map fst infos) \<and> (\<forall>(n, i)\<in>set infos. info_inv a uc D n i) \<and>
     (\<forall>outp\<in>D. \<forall>n v. treasury_of a uc outp = Some (n, v) \<longrightarrow> n \<in> fst ` set infos)"

abbreviation outputs_of :: "tx_ctips_infos \<Rightarrow> (sidechain_number \<times> ctip) list" where
  "outputs_of infos \<equiv> map (\<lambda>(n, i). (n, ctip_output i)) infos"

lemma om_modify_elem:
  "(n, i) \<in> set (om_modify k f xs) \<Longrightarrow> \<exists>j. (n, j) \<in> set xs \<and> i = (if n = k then f j else j)"
  by (auto simp: om_modify_def)

lemma om_modify_outputs:
  "(\<And>i. ctip_output (f i) = ctip_output i) \<Longrightarrow> outputs_of (om_modify k f xs) = outputs_of xs"
  by (auto simp: om_modify_def)

text \<open>One input that spends no treasury output, a consolidated one, an unconsolidated one.\<close>

lemma infos_inv_other:
  assumes "infos_inv a uc D res" "ctip_outpoint_to_value_seq a outp = None"
    and "map_of (by_outpoint uc) outp = None"
  shows "infos_inv a uc (insert outp D) res"
proof -
  have "info_inv a uc (insert outp D) n i" if "(n, i) \<in> set res" for n i
  proof -
    have "info_inv a uc D n i" using that assms(1) by (auto simp: infos_inv_def)
    moreover have "{\<lparr>ctip_outpoint = outp', ctip_value = v\<rparr> | outp' v. outp' \<in> insert outp D \<and>
        (\<exists>s. ctip_outpoint_to_value_seq a outp' = Some (n, v, s))} =
      {\<lparr>ctip_outpoint = outp', ctip_value = v\<rparr> | outp' v. outp' \<in> D \<and>
        (\<exists>s. ctip_outpoint_to_value_seq a outp' = Some (n, v, s))}" using assms(2) by auto
    moreover have "{\<lparr>ctip_outpoint = outp', ctip_value = v\<rparr> | outp' v. outp' \<in> insert outp D \<and>
        ctip_outpoint_to_value_seq a outp' = None \<and> map_of (by_outpoint uc) outp' = Some (n, v)} =
      {\<lparr>ctip_outpoint = outp', ctip_value = v\<rparr> | outp' v. outp' \<in> D \<and>
        ctip_outpoint_to_value_seq a outp' = None \<and> map_of (by_outpoint uc) outp' = Some (n, v)}"
      using assms(3) by auto
    ultimately show ?thesis unfolding info_inv_def by argo
  qed
  then show ?thesis using assms by (auto simp: infos_inv_def treasury_of_def)
qed

lemma infos_inv_consolidated:
  assumes "infos_inv a uc D res" "ctip_outpoint_to_value_seq a outp = Some (n, v, s)"
    and "map_of res n = Some info" "consolidated_ctip_input info = None"
  shows "infos_inv a uc (insert outp D) (om_modify n (\<lambda>i. i\<lparr>consolidated_ctip_input :=
    Some \<lparr>ctip_outpoint = outp, ctip_value = v\<rparr>\<rparr>) res)" (is "infos_inv _ _ _ (om_modify n ?f res)")
proof -
  have "info_inv a uc (insert outp D) m i" if mi: "(m, i) \<in> set (om_modify n ?f res)" for m i
  proof -
    from om_modify_elem [OF mi] obtain j where j: "(m, j) \<in> set res" "i = (if m = n then ?f j else j)"
      by blast
    have inv: "info_inv a uc D m j" using j assms(1) by (auto simp: infos_inv_def)
    have "m = n \<Longrightarrow> j = info"
      using j assms(1,3) by (auto simp: infos_inv_def)
    then have "set_option (consolidated_ctip_input i) =
        {\<lparr>ctip_outpoint = outp', ctip_value = v\<rparr> | outp' v. outp' \<in> insert outp D \<and>
          (\<exists>s. ctip_outpoint_to_value_seq a outp' = Some (m, v, s))}"
      using inv j(2) assms(2,4) unfolding info_inv_def by (cases "m = n") auto
    moreover have "set (unconsolidated_ctip_inputs i) =
       {\<lparr>ctip_outpoint = outp', ctip_value = v\<rparr> | outp' v. outp' \<in> insert outp D \<and>
          ctip_outpoint_to_value_seq a outp' = None \<and> map_of (by_outpoint uc) outp' = Some (m, v)}"
      using inv j(2) assms(2) unfolding info_inv_def by (cases "m = n") auto
    moreover have "distinct (unconsolidated_ctip_inputs i)"
      using inv j(2) by (simp add: info_inv_def)
    ultimately show ?thesis unfolding info_inv_def by blast
  qed
  moreover have "n \<in> fst ` set res" using assms(3) by (metis domI dom_map_of_conv_image_fst)
  ultimately show ?thesis using assms(1,2) by (auto simp: infos_inv_def treasury_of_def)
qed

lemma infos_inv_unconsolidated:
  assumes "infos_inv a uc D res" "ctip_outpoint_to_value_seq a outp = None"
    and "map_of (by_outpoint uc) outp = Some (n, v)" "map_of res n = Some info"
  shows "infos_inv a uc (insert outp D) (om_modify n (\<lambda>i. i\<lparr>unconsolidated_ctip_inputs :=
    set_insert \<lparr>ctip_outpoint = outp, ctip_value = v\<rparr> (unconsolidated_ctip_inputs i)\<rparr>) res)"
    (is "infos_inv _ _ _ (om_modify n ?f res)")
proof -
  have "info_inv a uc (insert outp D) m i" if mi: "(m, i) \<in> set (om_modify n ?f res)" for m i
  proof -
    from om_modify_elem [OF mi] obtain j where j: "(m, j) \<in> set res" "i = (if m = n then ?f j else j)"
      by blast
    have inv: "info_inv a uc D m j" using j assms(1) by (auto simp: infos_inv_def)
    have "set_option (consolidated_ctip_input i) =
        {\<lparr>ctip_outpoint = outp', ctip_value = v\<rparr> | outp' v. outp' \<in> insert outp D \<and>
          (\<exists>s. ctip_outpoint_to_value_seq a outp' = Some (m, v, s))}"
      using inv j(2) assms(2) unfolding info_inv_def by (cases "m = n") auto
    moreover have "set (unconsolidated_ctip_inputs i) =
       {\<lparr>ctip_outpoint = outp', ctip_value = v\<rparr> | outp' v. outp' \<in> insert outp D \<and>
          ctip_outpoint_to_value_seq a outp' = None \<and> map_of (by_outpoint uc) outp' = Some (m, v)}"
      using inv j(2) assms(2,3) unfolding info_inv_def
      by (cases "m = n") (auto simp: set_insert_def)
    moreover have "distinct (unconsolidated_ctip_inputs i)"
      using inv j(2) by (simp add: info_inv_def set_insert_def)
    ultimately show ?thesis unfolding info_inv_def by blast
  qed
  moreover have "n \<in> fst ` set res" using assms(4) by (metis domI dom_map_of_conv_image_fst)
  ultimately show ?thesis using assms(1-3) by (auto simp: infos_inv_def treasury_of_def)
qed

lemma fill_inputs_inv:
  "fill_inputs a uc ins res = Inr r \<Longrightarrow> infos_inv a uc D res \<Longrightarrow>
     infos_inv a uc (D \<union> previous_output ` set ins) r \<and> outputs_of r = outputs_of res"
proof (induction a uc ins res arbitrary: D rule: fill_inputs.induct)
  case (2 a uc txin inputs res)
  let ?outp = "previous_output txin"
  have D: "D \<union> previous_output ` set (txin # inputs) = insert ?outp D \<union> previous_output ` set inputs"
    by simp
  show ?case
  proof (cases "ctip_outpoint_to_value_seq a ?outp")
    case (Some nvs)
    obtain n v s where nvs: "nvs = (n, v, s)" by (cases nvs)
    note t = Some [unfolded nvs]
    with 2(4) obtain info where info: "map_of res n = Some info" "consolidated_ctip_input info = None"
      by (auto simp: Let_def split: option.splits if_splits)
    let ?f = "\<lambda>i. i\<lparr>consolidated_ctip_input := Some \<lparr>ctip_outpoint = ?outp, ctip_value = v\<rparr>\<rparr>"
    have rest: "fill_inputs a uc inputs (om_modify n ?f res) = Inr r"
      using 2(4) t info by (simp add: Let_def)
    have "outputs_of (om_modify n ?f res) = outputs_of res" by (rule om_modify_outputs) simp
    with 2(3) [OF refl t refl refl info(1) _ rest infos_inv_consolidated [OF 2(5) t info]] info(2) D
    show ?thesis by simp
  next
    case None
    show ?thesis
    proof (cases "map_of (by_outpoint uc) ?outp")
      case (Some nv)
      obtain n v where nv: "nv = (n, v)" by (cases nv)
      note t = Some [unfolded nv]
      with 2(4) None obtain info where info: "map_of res n = Some info"
        by (auto simp: Let_def split: option.splits)
      let ?f = "\<lambda>i. i\<lparr>unconsolidated_ctip_inputs :=
        set_insert \<lparr>ctip_outpoint = ?outp, ctip_value = v\<rparr> (unconsolidated_ctip_inputs i)\<rparr>"
      have rest: "fill_inputs a uc inputs (om_modify n ?f res) = Inr r"
        using 2(4) None t info by (simp add: Let_def)
      have "outputs_of (om_modify n ?f res) = outputs_of res" by (rule om_modify_outputs) simp
      with 2(2) [OF refl None t refl info rest infos_inv_unconsolidated [OF 2(5) None t info]] D
      show ?thesis by simp
    next
      case none: None
      with 2(4) None have "fill_inputs a uc inputs res = Inr r" by (simp add: Let_def)
      from 2(1) [OF refl None none this infos_inv_other [OF 2(5) None none]] D show ?thesis by simp
    qed
  qed
qed simp

lemma fill_ctips_inv:
  assumes "fill_ctips B bh db uc tx = Inr infos"
  shows "infos_inv (active_sidechains db) uc (previous_output ` set (tx_input tx)) infos"
    "\<forall>(n, i)\<in>set infos. output_of (np_op_drivechain (bh_params bh)) (active_sidechains db)
       (b_compute_txid B tx) (tx_output tx) n (ctip_output i)"
proof -
  let ?a = "active_sidechains db" and ?od = "np_op_drivechain (bh_params bh)"
  from assms obtain res where res: "fill_outputs ?od ?a (b_compute_txid B tx) 0 (tx_output tx) [] = Inr res"
    and ins: "fill_inputs ?a uc (tx_input tx) res = Inr infos"
    by (auto simp: fill_ctips_def Let_def split: sum.splits)
  note out = fill_outputs_initial [OF res]
  then have "infos_inv ?a uc {} res" by (auto simp: infos_inv_def info_inv_def)
  from fill_inputs_inv [OF ins this]
  have inv: "infos_inv ?a uc (previous_output ` set (tx_input tx)) infos"
    and eq: "outputs_of infos = outputs_of res" by simp_all
  show "infos_inv ?a uc (previous_output ` set (tx_input tx)) infos" by (rule inv)
  have "\<forall>(n, c)\<in>set (outputs_of infos). output_of ?od ?a (b_compute_txid B tx) (tx_output tx) n c"
    unfolding eq using out by auto
  then show "\<forall>(n, i)\<in>set infos. output_of ?od ?a (b_compute_txid B tx) (tx_output tx) n (ctip_output i)"
    by auto
qed

text \<open>The ctips of an entry are the treasury outputs of the slot that the transaction spends.\<close>

definition info_ctips :: "tx_ctips_info \<Rightarrow> ctip set" where
  "info_ctips info = set_option (consolidated_ctip_input info) \<union> set (unconsolidated_ctip_inputs info)"

lemma info_ctips_spent:
  assumes "info_inv a uc (previous_output ` set (tx_input tx)) n info"
  shows "info_ctips info = (\<lambda>outp. \<lparr>ctip_outpoint = outp,
    ctip_value = snd (the (treasury_of a uc outp))\<rparr>) ` spent_outpoints a uc tx n"
proof (intro set_eqI)
  fix c :: ctip
  obtain outp v where c: "c = \<lparr>ctip_outpoint = outp, ctip_value = v\<rparr>" by (cases c)
  let ?D = "previous_output ` set (tx_input tx)"
  have "c \<in> info_ctips info \<longleftrightarrow> outp \<in> ?D \<and> treasury_of a uc outp = Some (n, v)"
    using assms unfolding info_inv_def info_ctips_def c treasury_of_def
    by (auto split: option.splits)
  also have "\<dots> \<longleftrightarrow> c \<in> (\<lambda>outp. \<lparr>ctip_outpoint = outp,
      ctip_value = snd (the (treasury_of a uc outp))\<rparr>) ` spent_outpoints a uc tx n"
    by (auto simp: c spent_outpoints_def)
  finally show "c \<in> info_ctips info \<longleftrightarrow> c \<in> (\<lambda>outp. \<lparr>ctip_outpoint = outp,
      ctip_value = snd (the (treasury_of a uc outp))\<rparr>) ` spent_outpoints a uc tx n" .
qed

lemma info_ctips_sum:
  assumes "info_inv a uc (previous_output ` set (tx_input tx)) n info"
  shows "(case consolidated_ctip_input info of Some c \<Rightarrow> unat (ctip_value c) | None \<Rightarrow> 0) +
    sum_list (map (unat \<circ> ctip_value) (unconsolidated_ctip_inputs info)) = spent_value a uc tx n"
proof -
  let ?cs = "set_option (consolidated_ctip_input info)" and ?us = "unconsolidated_ctip_inputs info"
  have disj: "?cs \<inter> set ?us = {}" and dist: "distinct ?us"
    using assms by (auto simp: info_inv_def)
  have "sum_list (map (unat \<circ> ctip_value) ?us) = (\<Sum>c\<in>set ?us. unat (ctip_value c))"
    using dist by (simp add: sum_list_distinct_conv_sum_set)
  moreover have "(case consolidated_ctip_input info of Some c \<Rightarrow> unat (ctip_value c) | None \<Rightarrow> 0) =
      (\<Sum>c\<in>?cs. unat (ctip_value c))" by (cases "consolidated_ctip_input info") simp_all
  moreover have "(\<Sum>c\<in>info_ctips info. unat (ctip_value c)) =
      (\<Sum>c\<in>?cs. unat (ctip_value c)) + (\<Sum>c\<in>set ?us. unat (ctip_value c))"
    unfolding info_ctips_def by (rule sum.union_disjoint) (use disj in simp_all)
  moreover have "(\<Sum>c\<in>info_ctips info. unat (ctip_value c)) = spent_value a uc tx n"
    unfolding info_ctips_spent [OF assms] spent_value_def
    by (subst sum.reindex) (auto simp: inj_on_def)
  ultimately show ?thesis by simp
qed

lemma unat_sum_list:
  "sum_list (map unat ws) < 2 ^ LENGTH('a) \<Longrightarrow>
     unat (sum_list ws :: 'a::len word) = sum_list (map unat ws)"
proof (induction ws)
  case (Cons w ws)
  then have "unat (sum_list ws) = sum_list (map unat ws)" by simp
  moreover have "unat w + sum_list (map unat ws) < 2 ^ LENGTH('a)" using Cons.prems by simp
  ultimately show ?case by (simp add: unat_word_ariths)
qed simp

text \<open>Under the bound of the money supply the checked sum of the loop is the value spent.\<close>

lemma treasury_in_spent:
  assumes "info_inv a uc (previous_output ` set (tx_input tx)) n info"
    and "spent_value a uc tx n < 2 ^ 64" "treasury_in info = Some t"
  shows "unat t = spent_value a uc tx n"
proof -
  let ?vs = "map ctip_value (unconsolidated_ctip_inputs info)"
  note eq = info_ctips_sum [OF assms(1)]
  have us: "unat (sum_list ?vs) = sum_list (map unat ?vs)"
    by (rule unat_sum_list) (use eq assms(2) in \<open>simp add: comp_def\<close>)
  show ?thesis using assms(2,3) us eq
    by (cases "consolidated_ctip_input info")
      (auto simp: treasury_in_def checked_add_def unat_word_ariths comp_def split: if_splits)
qed

section \<open>The treasury is protected\<close>

text \<open>A pending bundle that has enough votes to be paid out; in the mempool any pending bundle.\<close>

definition approved_bundle :: "block_handler \<Rightarrow> active_dbs \<Rightarrow> sidechain_number \<Rightarrow> m6id \<Rightarrow> bool" where
  "approved_bundle bh a n m \<longleftrightarrow>
     (\<exists>p info. pending_m6ids_db a n = Some p \<and> map_of p m = Some info \<and>
        (require_payable_bundles bh \<longrightarrow>
           withdrawal_bundle_inclusion_threshold (bh_thresholds bh) < pi_vote_count info))"

lemma handle_m6_Inr:
  assumes "handle_m6 B bh db tx old = Inr (m, n, i, info)"
  shows "compute_m6id B (np_op_drivechain (bh_params bh)) tx old = Inr (m, n)"
    "\<exists>p. pending_m6ids_db (active_sidechains db) n = Some p \<and> om_get_full m p = Some (i, info)"
    "approved_bundle bh (active_sidechains db) n m"
  using assms
  by (auto simp: handle_m6_def approved_bundle_def om_get_full_map_of
      split: sum.splits option.splits prod.splits if_splits)

text \<open>What one step of the loop decides.\<close>

lemma m6_arm_Inr:
  assumes "m6_arm B bh db tx k n info t res = Inr r"
  shows "res = None"
    "\<exists>c. consolidated_ctip_input info = Some c"
    "previous_output ` set (tx_input tx) \<subseteq> ctip_outpoint ` info_ctips info"
    "\<exists>m i pinfo. handle_m6 B bh db tx t = Inr (m, n, i, pinfo) \<and>
       r = M6Withdrawal n m (utxo_count (active_sidechains db) n)
         \<lparr>m6d_sidechain_number = n, m6d_new_ctip = ctip_output info,
          m6d_removed_pending_withdrawal = m, m6d_removed_pending_withdrawal_index = i,
          m6d_removed_pending_withdrawal_info = pinfo\<rparr>"
proof -
  have none: "first_unexpected S ins = None \<Longrightarrow> previous_output ` set ins \<subseteq> S" for S ins
    by (induction S ins rule: first_unexpected.induct) (auto split: if_splits)
  from assms obtain c where c: "consolidated_ctip_input info = Some c"
    and exp: "first_unexpected (insert (ctip_outpoint c)
      (ctip_outpoint ` set (unconsolidated_ctip_inputs info))) (tx_input tx) = None"
    by (auto simp: m6_arm_def split: option.splits)
  show "\<exists>c. consolidated_ctip_input info = Some c" using c by blast
  show "previous_output ` set (tx_input tx) \<subseteq> ctip_outpoint ` info_ctips info"
    using none [OF exp] c by (simp add: info_ctips_def)
  show "res = None"
    using assms by (auto simp: m6_arm_def Let_def split: option.splits sum.splits if_splits
        deposits_or_withdrawal.splits)
  then show "\<exists>m i pinfo. handle_m6 B bh db tx t = Inr (m, n, i, pinfo) \<and>
       r = M6Withdrawal n m (utxo_count (active_sidechains db) n)
         \<lparr>m6d_sidechain_number = n, m6d_new_ctip = ctip_output info,
          m6d_removed_pending_withdrawal = m, m6d_removed_pending_withdrawal_index = i,
          m6d_removed_pending_withdrawal_info = pinfo\<rparr>"
    using assms c exp by (auto simp: m6_arm_def Let_def split: sum.splits if_splits)
qed

lemma classify_Inr:
  assumes "classify B bh db tx k n info res = Inr r"
  shows "\<exists>t. treasury_in info = Some t \<and>
    (if ctip_value (ctip_output info) < t then m6_arm B bh db tx k n info t res = Inr r
     else m5_arm B db tx n info t res = Inr r)"
  using assms by (auto simp: classify_def split: option.splits if_splits)

lemma m5_arm_not_m6: "m5_arm B db tx n info t (Some (M6Withdrawal n' m s d)) \<noteq> Inr r"
  by (auto simp: m5_arm_def split: sum.splits if_splits)

lemma m5_arm_deposits: "m5_arm B db tx n info t res = Inr r \<Longrightarrow> \<exists>ds d. r = M5Deposits ds d"
  by (auto simp: m5_arm_def split: sum.splits if_splits option.splits deposits_or_withdrawal.splits)

lemma loop_after_m6:
  "m5_m6_loop B bh db tx k infos (Some (M6Withdrawal n m s d)) uc = Inr (r, uc') \<Longrightarrow> infos = []"
  by (cases infos)
    (auto split: sum.splits if_splits dest!: classify_Inr m6_arm_Inr(1) simp: m5_arm_not_m6)

text \<open>Every entry of the loop leaves the treasury of its slot with at least what it took, or is
  the one payout of an approved bundle.\<close>

lemma loop_protects:
  "m5_m6_loop B bh db tx k infos res uc = Inr (r, uc') \<Longrightarrow> (n, info) \<in> set infos \<Longrightarrow>
     \<exists>t. treasury_in info = Some t \<and>
       (t \<le> ctip_value (ctip_output info) \<or>
        (infos = [(n, info)] \<and> res = None \<and> m6_arm B bh db tx k n info t None = Inr (the r) \<and> r \<noteq> None))"
proof (induction B bh db tx k infos res uc rule: m5_m6_loop.induct)
  case (2 B bh db tx k n' info' infos res uc)
  from 2(2) obtain r1 where r1: "classify B bh db tx k n' info' res = Inr r1"
    and rest: "m5_m6_loop B bh db tx k infos (Some r1) (update_unconsolidated db n' info' uc) = Inr (r, uc')"
    by (auto split: sum.splits)
  from classify_Inr [OF r1] obtain t where t: "treasury_in info' = Some t"
    and arm: "if ctip_value (ctip_output info') < t then m6_arm B bh db tx k n' info' t res = Inr r1
      else m5_arm B db tx n' info' t res = Inr r1" by blast
  show ?case
  proof (cases "(n, info) \<in> set infos")
    case True
    from 2(1) [OF r1 rest True] show ?thesis by auto
  next
    case False
    then have eq: "n = n'" "info = info'" using 2(3) by auto
    show ?thesis
    proof (cases "ctip_value (ctip_output info') < t")
      case True
      then have m6: "m6_arm B bh db tx k n' info' t res = Inr r1" using arm by simp
      then have "infos = []" "res = None"
        using m6_arm_Inr(1,4) [OF m6] loop_after_m6 rest by blast+
      then show ?thesis using t m6 rest eq by auto
    next
      case False
      then show ?thesis using t eq by auto
    qed
  qed
qed simp

text \<open>C2: the treasury of a sidechain cannot be drained. Whatever the order in which the slots are
  visited, a transaction that is accepted and spends a treasury output of a slot creates exactly
  the next treasury output for that slot, which holds at least everything the transaction took
  from the treasury of that slot; the only exception is the payout of a pending bundle of this
  slot that is approved by votes, whose inputs are all treasury outputs of this slot. The
  hypothesis on the value is the bound of the money supply, well below \<open>2 ^ 64\<close>.\<close>

theorem treasury_protected:
  assumes "handle_m5_m6 B ord bh db uc tx = Inr (r, uc')"
    and "\<And>xs. mset (ord xs) = mset xs"
    and "outp \<in> spent_outpoints (active_sidechains db) uc tx n"
    and "spent_value (active_sidechains db) uc tx n < 2 ^ 64"
  shows "\<exists>c. output_of (np_op_drivechain (bh_params bh)) (active_sidechains db)
      (b_compute_txid B tx) (tx_output tx) n c \<and>
    (spent_value (active_sidechains db) uc tx n \<le> unat (ctip_value c) \<or>
     (\<exists>m s d. r = Some (M6Withdrawal n m s d) \<and> m6d_new_ctip d = c \<and>
        approved_bundle bh (active_sidechains db) n m \<and>
        previous_output ` set (tx_input tx) = spent_outpoints (active_sidechains db) uc tx n))"
proof -
  let ?a = "active_sidechains db" and ?D = "previous_output ` set (tx_input tx)"
  from assms(1) obtain infos where infos: "fill_ctips B bh db uc tx = Inr infos"
    and loop: "m5_m6_loop B bh db tx (length infos) (ord infos) None uc = Inr (r, uc')"
    by (auto simp: handle_m5_m6_def split: sum.splits)
  note inv = fill_ctips_inv [OF infos]
  from assms(3) obtain info where info: "(n, info) \<in> set infos"
    using inv(1) by (force simp: infos_inv_def spent_outpoints_def)
  then have "(n, info) \<in> set (ord infos)" using assms(2) [of infos] by (metis set_mset_mset)
  from loop_protects [OF loop this] obtain t where t: "treasury_in info = Some t"
    and dec: "t \<le> ctip_value (ctip_output info) \<or> (ord infos = [(n, info)] \<and>
      m6_arm B bh db tx (length infos) n info t None = Inr (the r) \<and> r \<noteq> None)" by blast
  have inv_n: "info_inv ?a uc ?D n info" using inv(1) info by (auto simp: infos_inv_def)
  have tv: "unat t = spent_value ?a uc tx n" by (rule treasury_in_spent [OF inv_n assms(4) t])
  have "spent_value ?a uc tx n \<le> unat (ctip_value (ctip_output info)) \<or>
     (\<exists>m s d. r = Some (M6Withdrawal n m s d) \<and> m6d_new_ctip d = ctip_output info \<and>
        approved_bundle bh ?a n m \<and> ?D = spent_outpoints ?a uc tx n)"
    using dec
  proof
    assume "t \<le> ctip_value (ctip_output info)"
    then show ?thesis using tv by (simp add: word_le_nat_alt)
  next
    assume m6: "ord infos = [(n, info)] \<and>
      m6_arm B bh db tx (length infos) n info t None = Inr (the r) \<and> r \<noteq> None"
    then obtain m i pinfo where h: "handle_m6 B bh db tx t = Inr (m, n, i, pinfo)"
      and r: "the r = M6Withdrawal n m (utxo_count ?a n)
         \<lparr>m6d_sidechain_number = n, m6d_new_ctip = ctip_output info,
          m6d_removed_pending_withdrawal = m, m6d_removed_pending_withdrawal_index = i,
          m6d_removed_pending_withdrawal_info = pinfo\<rparr>"
      using m6_arm_Inr(4) by blast
    have "?D \<subseteq> ctip_outpoint ` info_ctips info" using m6 m6_arm_Inr(3) by blast
    then have "?D \<subseteq> spent_outpoints ?a uc tx n"
      by (auto simp: info_ctips_spent [OF inv_n])
    then have "?D = spent_outpoints ?a uc tx n" by (auto simp: spent_outpoints_def)
    then show ?thesis using m6 r handle_m6_Inr(3) [OF h] by auto
  qed
  then show ?thesis using inv(2) info by blast
qed

text \<open>A state with a treasury of 100 in slot 4 and an approved bundle, which \<open>sample_m6\<close> pays
  out.\<close>

definition sample_handler :: block_handler where
  "sample_handler = \<lparr>bh_network = Regtest,
     bh_params = network_params_new sample_btc ForkBitcoin Regtest None, bh_thresholds = SHORT,
     require_payable_bundles = True\<rparr>"

definition sample_treasury :: active_dbs where
  "sample_treasury = active_dbs_empty\<lparr>
     sidechain_db := [4 \<mapsto> sample_sidechain],
     pending_m6ids_db := [4 \<mapsto> [(pad32 [9], \<lparr>pi_vote_count = 200, pi_proposal_height = 8\<rparr>)]],
     ctip_db := [4 \<mapsto> sample_ctip],
     ctip_outpoint_to_value_seq := [ctip_outpoint sample_ctip \<mapsto> (4, 100, 0)],
     slot_sequence_to_treasury_utxo := [(4, 0) \<mapsto> \<lparr>tu_sidechain_number = 4,
       tu_outpoint = ctip_outpoint sample_ctip, tu_total_value = 100, tu_previous_total_value = 0\<rparr>],
     treasury_utxo_count := [4 \<mapsto> 1]\<rparr>"

definition sample_treasury_dbs :: dbs where
  "sample_treasury_dbs = dbs_empty\<lparr>active_sidechains := sample_treasury\<rparr>"

lemma sample_handler_simps [simp]:
  "np_op_drivechain (bh_params sample_handler) = NOP5"
  "bip300_activation_height (bh_params sample_handler) = 0"
  "bh_thresholds sample_handler = SHORT" "require_payable_bundles sample_handler"
  by (simp_all add: sample_handler_def network_params_new_def Let_def)

lemma sample_treasury_wf: "active_wf sample_treasury"
proof -
  have "ledger_wf sample_treasury n" for n
    by (auto simp: ledger_wf_def sample_treasury_def active_dbs_empty_def sample_ctip_def)
  moreover have "pending_wf sample_treasury"
    by (auto simp: pending_wf_def sample_treasury_def active_dbs_empty_def)
  moreover have "outpoints_wf sample_treasury"
    by (auto simp: outpoints_wf_def sample_treasury_def active_dbs_empty_def split: if_splits)
  ultimately show ?thesis by (simp add: active_wf_def)
qed

lemma sample_m6_fill:
  assumes "active_sidechains db = sample_treasury"
  shows "fill_ctips sample_btc sample_handler db uc_default sample_m6 =
     Inr [(4, \<lparr>consolidated_ctip_input = Some sample_ctip, unconsolidated_ctip_inputs = [],
       ctip_output = \<lparr>ctip_outpoint = \<lparr>op_txid = pad32 [9], op_vout = 0\<rparr>, ctip_value = 60\<rparr>\<rparr>)]"
  by (simp add: fill_ctips_def Let_def sample_m6_def drivechain_parse_def drivechain_script_def
      NOP5_def p_tag_def p_take_def p_eof_def assms sample_treasury_def
      sample_ctip_def default_txin_def om_modify_def)

definition sample_m6_diff :: m6_diff where
  "sample_m6_diff = \<lparr>m6d_sidechain_number = 4,
     m6d_new_ctip = \<lparr>ctip_outpoint = \<lparr>op_txid = pad32 [9], op_vout = 0\<rparr>, ctip_value = 60\<rparr>,
     m6d_removed_pending_withdrawal = pad32 [9], m6d_removed_pending_withdrawal_index = 0,
     m6d_removed_pending_withdrawal_info = \<lparr>pi_vote_count = 200, pi_proposal_height = 8\<rparr>\<rparr>"

lemma sample_m6_handled:
  assumes db: "active_sidechains db = sample_treasury"
  shows "handle_m5_m6 sample_btc id sample_handler db uc_default sample_m6 =
     Inr (Some (M6Withdrawal 4 (pad32 [9]) 1 sample_m6_diff), uc_default)"
proof -
  have "handle_m6 sample_btc sample_handler db sample_m6 100 =
      Inr (pad32 [9], 4, 0, \<lparr>pi_vote_count = 200, pi_proposal_height = 8\<rparr>)"
    by (simp add: handle_m6_def sample_m6_id db sample_treasury_def
        SHORT_def)
  moreover have "treasury_in \<lparr>consolidated_ctip_input = Some sample_ctip,
      unconsolidated_ctip_inputs = [], ctip_output = c\<rparr> = Some 100" for c
    by (simp add: treasury_in_def checked_add_def sample_ctip_def)
  moreover have "utxo_count (active_sidechains db) 4 = 1" by (simp add: db sample_treasury_def)
  moreover have "first_unexpected {ctip_outpoint sample_ctip} (tx_input sample_m6) = None"
    by (simp add: sample_m6_def default_txin_def sample_ctip_def)
  ultimately show ?thesis
    by (simp add: handle_m5_m6_def sample_m6_fill [OF db] classify_def m6_arm_def Let_def
        sample_m6_diff_def update_unconsolidated_def consolidates_def)
qed

lemma sample_m6_spent:
  "spent_outpoints sample_treasury uc_default sample_m6 4 = {ctip_outpoint sample_ctip}"
  "spent_value sample_treasury uc_default sample_m6 4 = 100"
proof -
  show *: "spent_outpoints sample_treasury uc_default sample_m6 4 = {ctip_outpoint sample_ctip}"
    by (auto simp: spent_outpoints_def treasury_of_def sample_treasury_def sample_m6_def
        default_txin_def sample_ctip_def)
  show "spent_value sample_treasury uc_default sample_m6 4 = 100"
    unfolding spent_value_def * by (simp add: treasury_of_def sample_treasury_def)
qed

theorem treasury_protected_witness:
  "\<exists>r uc' c. handle_m5_m6 sample_btc id sample_handler sample_treasury_dbs uc_default sample_m6 = Inr (r, uc') \<and>
     output_of NOP5 sample_treasury (b_compute_txid sample_btc sample_m6) (tx_output sample_m6) 4 c \<and>
     (100 \<le> unat (ctip_value c) \<or> (\<exists>m s d. r = Some (M6Withdrawal 4 m s d) \<and> m6d_new_ctip d = c \<and>
        approved_bundle sample_handler sample_treasury 4 m \<and>
        previous_output ` set (tx_input sample_m6) = {ctip_outpoint sample_ctip}))"
proof -
  have a: "active_sidechains sample_treasury_dbs = sample_treasury"
    by (simp add: sample_treasury_dbs_def)
  then obtain r uc' where r:
    "handle_m5_m6 sample_btc id sample_handler sample_treasury_dbs uc_default sample_m6 = Inr (r, uc')"
    using sample_m6_handled by blast
  from treasury_protected [OF r, of "ctip_outpoint sample_ctip" 4] r show ?thesis
    unfolding a sample_m6_spent by auto
qed

section \<open>Transaction diffs are valid\<close>

text \<open>The result of the loop names only the treasury outputs of the transaction; a withdrawal
  names a pending bundle.\<close>

fun result_ok :: "active_dbs \<Rightarrow> (sidechain_number \<times> ctip) set \<Rightarrow> deposits_or_withdrawal \<Rightarrow> bool" where
  "result_ok a S (M5Deposits ds d) \<longleftrightarrow> distinct (map fst d) \<and> set d \<subseteq> S"
| "result_ok a S (M6Withdrawal n m s d) \<longleftrightarrow>
     m6d_sidechain_number d = n \<and> (n, m6d_new_ctip d) \<in> S \<and> m6d_removed_pending_withdrawal d = m \<and>
     (\<exists>p. pending_m6ids_db a n = Some p \<and> om_get_full m p =
        Some (m6d_removed_pending_withdrawal_index d, m6d_removed_pending_withdrawal_info d))"

lemma om_insert_set: "set (om_insert k v xs) \<subseteq> insert (k, v) (set xs)"
  by (induction k v xs rule: om_insert.induct) auto

lemma classify_ok:
  assumes "classify B bh db tx k n info res = Inr r" "(n, ctip_output info) \<in> S"
    and "\<forall>r'. res = Some r' \<longrightarrow> result_ok (active_sidechains db) S r'"
  shows "result_ok (active_sidechains db) S r"
proof -
  from classify_Inr [OF assms(1)] obtain t where
    arm: "if ctip_value (ctip_output info) < t then m6_arm B bh db tx k n info t res = Inr r
      else m5_arm B db tx n info t res = Inr r" by blast
  show ?thesis
  proof (cases "ctip_value (ctip_output info) < t")
    case True
    then obtain m i pinfo where h: "handle_m6 B bh db tx t = Inr (m, n, i, pinfo)"
      and r: "r = M6Withdrawal n m (utxo_count (active_sidechains db) n)
         \<lparr>m6d_sidechain_number = n, m6d_new_ctip = ctip_output info,
          m6d_removed_pending_withdrawal = m, m6d_removed_pending_withdrawal_index = i,
          m6d_removed_pending_withdrawal_info = pinfo\<rparr>" using m6_arm_Inr(4) arm by meson
    show ?thesis using handle_m6_Inr(2) [OF h] assms(2) unfolding r by simp
  next
    case False
    then have arm5: "m5_arm B db tx n info t res = Inr r" using arm by simp
    show ?thesis
    proof (cases res)
      case None
      then show ?thesis using arm5 assms(2) by (auto simp: m5_arm_def split: sum.splits if_splits)
    next
      case (Some r0)
      then obtain ds0 d0 where r0: "r0 = M5Deposits ds0 d0"
        using arm5 m5_arm_not_m6 by (cases r0) auto
      then have "distinct (map fst d0)" "set d0 \<subseteq> S" using assms(3) Some by auto
      moreover have "\<exists>ds. r = M5Deposits ds (if consolidates db n info
          then om_insert n (ctip_output info) d0 else d0)"
        using arm5 Some r0 by (auto simp: m5_arm_def split: sum.splits if_splits)
      moreover have "set (om_insert n (ctip_output info) d0) \<subseteq> insert (n, ctip_output info) (set d0)"
        by (rule om_insert_set)
      ultimately show ?thesis using assms(2) om_insert_distinct by (fastforce split: if_splits)
    qed
  qed
qed

lemma loop_ok:
  "m5_m6_loop B bh db tx k infos res uc = Inr (r, uc') \<Longrightarrow> set (outputs_of infos) \<subseteq> S \<Longrightarrow>
     \<forall>r'. res = Some r' \<longrightarrow> result_ok (active_sidechains db) S r' \<Longrightarrow>
     \<forall>r'. r = Some r' \<longrightarrow> result_ok (active_sidechains db) S r'"
proof (induction B bh db tx k infos res uc rule: m5_m6_loop.induct)
  case (2 B bh db tx k n info infos res uc)
  from 2(2) obtain r1 where r1: "classify B bh db tx k n info res = Inr r1"
    and rest: "m5_m6_loop B bh db tx k infos (Some r1) (update_unconsolidated db n info uc) = Inr (r, uc')"
    by (auto split: sum.splits)
  have "result_ok (active_sidechains db) S r1" using classify_ok [OF r1 _ 2(4)] 2(3) by simp
  with 2(1) [OF r1 rest] 2(3) show ?case by simp
qed simp

text \<open>Treasury outputs of different slots are different outputs.\<close>

lemma output_of_inj:
  assumes "output_of od a txid outs n c" "output_of od a txid outs n' c'"
    and "length outs \<le> 2 ^ 32" "ctip_outpoint c = ctip_outpoint c'"
  shows "n = n'"
proof -
  from assms(1) obtain i rest where i: "i < length outs" "op_vout (ctip_outpoint c) = of_nat i"
    "drivechain_parse od (to_script_pubkey (outs ! i)) = Inr (rest, n)"
    by (auto simp: output_of_def)
  from assms(2) obtain j rest' where j: "j < length outs" "op_vout (ctip_outpoint c') = of_nat j"
    "drivechain_parse od (to_script_pubkey (outs ! j)) = Inr (rest', n')"
    by (auto simp: output_of_def)
  have "unat (of_nat i :: u32) = unat (of_nat j :: u32)" using i(2) j(2) assms(4) by simp
  then have "i = j" using i(1) j(1) assms(3) by (simp add: unat_of_nat)
  then show ?thesis using i(3) j(3) by simp
qed

lemma apply_m5_counts:
  "each_slot put_ctip_slot d a = Inr a' \<Longrightarrow> distinct (map fst d) \<Longrightarrow> (n, c) \<in> set d \<Longrightarrow>
     utxo_count a n + 1 < 2 ^ 64"
proof (induction d arbitrary: a)
  case (Cons y d)
  obtain m c' where y: "y = (m, c')" by (cases y)
  from Cons.prems(1) y obtain a1 where a1: "put_ctip_slot m c' a = Inr a1"
    "each_slot put_ctip_slot d a1 = Inr a'" by (auto split: sum.splits)
  show ?case
  proof (cases "n = m")
    case True
    then show ?thesis using a1(1) by (auto simp: put_ctip_slot_Inr put_ctip_Inr)
  next
    case False
    then have "utxo_count a1 n + 1 < 2 ^ 64" using Cons.IH [OF a1(2)] Cons.prems(2,3) y by auto
    moreover have "treasury_utxo_count a1 n = treasury_utxo_count a n"
      using a1(1) False by (auto simp: put_ctip_slot_Inr put_ctip_Inr)
    ultimately show ?thesis by simp
  qed
qed simp

text \<open>The outpoints that applying a transaction diff adds to the outpoint table.\<close>

fun tx_diff_outpoints :: "tx_diff \<Rightarrow> outpoint set" where
  "tx_diff_outpoints (DM5 d) = (ctip_outpoint \<circ> snd) ` set d"
| "tx_diff_outpoints (DM6 d) = {ctip_outpoint (m6d_new_ctip d)}"

lemma apply_m5_wf:
  "each_slot put_ctip_slot d a = Inr a' \<Longrightarrow> active_wf a \<Longrightarrow>
     \<forall>(n, c)\<in>set d. ctip_outpoint_to_value_seq a (ctip_outpoint c) = None \<Longrightarrow>
     distinct (map (ctip_outpoint \<circ> snd) d) \<Longrightarrow>
     active_wf a' \<and> dom (ctip_outpoint_to_value_seq a') =
       dom (ctip_outpoint_to_value_seq a) \<union> (ctip_outpoint \<circ> snd) ` set d"
proof (induction d arbitrary: a)
  case (Cons y d)
  obtain m c where y: "y = (m, c)" by (cases y)
  from Cons.prems(1) y obtain a1 where "put_ctip_slot m c a = Inr a1"
    and rest: "each_slot put_ctip_slot d a1 = Inr a'" by (auto split: sum.splits)
  then obtain s where put: "put_ctip a m c = Inr (a1, s)" by (auto simp: put_ctip_slot_Inr)
  have wf: "active_wf a1" by (rule put_ctip_wf [OF Cons.prems(2) put]) (use Cons.prems(3) y in auto)
  have tab: "ctip_outpoint_to_value_seq a1 =
      (ctip_outpoint_to_value_seq a)(ctip_outpoint c := Some (m, ctip_value c, s))"
    using put by (simp add: put_ctip_Inr)
  have "\<forall>(n, c)\<in>set d. ctip_outpoint_to_value_seq a1 (ctip_outpoint c) = None"
    using Cons.prems(3,4) y tab by force
  from Cons.IH [OF rest wf this] Cons.prems(4) y tab show ?case by auto
qed simp

text \<open>The new treasury outputs of a transaction: outputs of it, none of them known, of different slots.\<close>

definition new_outputs :: "active_dbs \<Rightarrow> txid \<Rightarrow> (sidechain_number \<times> ctip) set \<Rightarrow> bool" where
  "new_outputs a txid outs \<longleftrightarrow> (\<forall>n c. (n, c) \<in> outs \<longrightarrow>
     op_txid (ctip_outpoint c) = txid \<and> ctip_outpoint_to_value_seq a (ctip_outpoint c) = None
     \<and> (\<forall>n' c'. (n', c') \<in> outs \<longrightarrow> ctip_outpoint c = ctip_outpoint c' \<longrightarrow> n = n'))"

definition tx_applied :: "tx_diff \<Rightarrow> txid \<Rightarrow> active_dbs \<Rightarrow> active_dbs \<Rightarrow> bool" where
  "tx_applied d txid a a' \<longleftrightarrow> ok_tx d a \<and> active_wf a' \<and> (\<forall>outp. ctip_outpoint_to_value_seq a' outp \<noteq> None \<longrightarrow>
     op_txid outp = txid \<or> ctip_outpoint_to_value_seq a outp \<noteq> None)"

lemma m5_applied:
  assumes "active_wf a" "new_outputs a txid outs" "distinct (map fst d)" "set d \<subseteq> outs"
    and app: "each_slot put_ctip_slot d a = Inr a'"
  shows "tx_applied (DM5 d) txid a a'"
proof -
  have "inj_on (ctip_outpoint \<circ> snd) (set d)"
  proof (rule inj_onI)
    fix x y assume xy: "x \<in> set d" "y \<in> set d" "(ctip_outpoint \<circ> snd) x = (ctip_outpoint \<circ> snd) y"
    then have "(fst x, snd x) \<in> outs" "(fst y, snd y) \<in> outs" using assms(4) by auto
    then have "fst x = fst y" using assms(2) xy(3) unfolding new_outputs_def comp_def by blast
    then show "x = y" using assms(3) xy by (metis eq_key_imp_eq_value prod.collapse)
  qed
  then have dist: "distinct (map (ctip_outpoint \<circ> snd) d)" using assms(3) by (simp add: distinct_map)
  have none: "\<forall>(n, c)\<in>set d. ctip_outpoint_to_value_seq a (ctip_outpoint c) = None"
    using assms(2,4) by (auto simp: new_outputs_def)
  have "ok_m5 d a"
    using assms(1,3) dist none apply_m5_counts [OF app assms(3)] by (auto simp: ok_m5_def ok_ctip_def active_wf_def)
  moreover have "op_txid (ctip_outpoint c) = txid" if "(n, c) \<in> set d" for n c
    using assms(2,4) that by (auto simp: new_outputs_def)
  ultimately show ?thesis using apply_m5_wf [OF app assms(1) none dist] by (fastforce simp: tx_applied_def dom_def)
qed

lemma m6_applied:
  assumes "active_wf a" "new_outputs a txid outs" "(n, m6d_new_ctip d) \<in> outs"
    and d: "m6d_sidechain_number d = n" "m6d_removed_pending_withdrawal d = m"
    and p: "pending_m6ids_db a n = Some p"
      "om_get_full m p = Some (m6d_removed_pending_withdrawal_index d, m6d_removed_pending_withdrawal_info d)"
    and app: "apply_m6 d a = Inr a'"
  shows "tx_applied (DM6 d) txid a a'"
proof -
  have new: "op_txid (ctip_outpoint (m6d_new_ctip d)) = txid" "ctip_outpoint_to_value_seq a (ctip_outpoint (m6d_new_ctip d)) = None"
    using assms(2,3) by (auto simp: new_outputs_def)
  have wf: "\<And>n. ledger_wf a n" "pending_wf a" using assms(1) by (auto simp: active_wf_def)
  from app obtain a1 s where put: "put_ctip a n (m6d_new_ctip d) = Inr (a1, s)"
    and del: "delete_pending_withdrawal a1 n m = Inr a'"
    using d by (auto simp: apply_m6_def split: sum.splits)
  have "distinct (map fst p)" using wf(2) p(1) by (simp add: pending_wf_def)
  then have "ok_m6 d a" using p d new(2) wf(1) put by (simp add: ok_m6_def ok_ctip_def put_ctip_Inr)
  moreover have "active_wf a'"
    using put_ctip_wf [OF assms(1) put new(2)] del
    by (auto simp: delete_pending_withdrawal_def om_remove_distinct intro: update_pending_wf)
  moreover have "ctip_outpoint_to_value_seq a' = (ctip_outpoint_to_value_seq a)
      (ctip_outpoint (m6d_new_ctip d) := Some (n, ctip_value (m6d_new_ctip d), s))"
    using put del by (auto simp: put_ctip_Inr delete_pending_withdrawal_def update_pending_Inr)
  ultimately show ?thesis using new(1) by (auto simp: tx_applied_def)
qed

lemma handle_m5_m6_ok:
  assumes "handle_m5_m6 B ord bh db uc tx = Inr (r, uc')" "\<And>xs. mset (ord xs) = mset xs"
    and "active_wf (active_sidechains db)" "length (tx_output tx) \<le> 2 ^ 32"
    and fresh: "\<And>v. ctip_outpoint_to_value_seq (active_sidechains db)
      \<lparr>op_txid = b_compute_txid B tx, op_vout = v\<rparr> = None"
    and "tx_result tx r = Some (ev, d)" "apply_tx d (active_sidechains db) = Inr a'"
  shows "ok_tx d (active_sidechains db)" "active_wf a'"
    "\<And>outp. ctip_outpoint_to_value_seq a' outp \<noteq> None \<Longrightarrow>
       op_txid outp = b_compute_txid B tx \<or> ctip_outpoint_to_value_seq (active_sidechains db) outp \<noteq> None"
proof -
  let ?a = "active_sidechains db" and ?txid = "b_compute_txid B tx"
  from assms(1) obtain infos where infos: "fill_ctips B bh db uc tx = Inr infos"
    and loop: "m5_m6_loop B bh db tx (length infos) (ord infos) None uc = Inr (r, uc')"
    by (auto simp: handle_m5_m6_def split: sum.splits)
  have "set (ord infos) = set infos" using assms(2) by (metis set_mset_mset)
  then have S: "set (outputs_of (ord infos)) = set (outputs_of infos)" by simp
  have out: "output_of (np_op_drivechain (bh_params bh)) ?a ?txid (tx_output tx) n c"
    if "(n, c) \<in> set (outputs_of infos)" for n c
    using fill_ctips_inv(2) [OF infos] that by auto
  have inj: "n = n'" if "(n, c) \<in> set (outputs_of infos)" "(n', c') \<in> set (outputs_of infos)" "ctip_outpoint c = ctip_outpoint c'"
    for n c n' c'
    by (rule output_of_inj [OF out [OF that(1)] out [OF that(2)] assms(4) that(3)])
  have "op_txid (ctip_outpoint c) = ?txid" "ctip_outpoint_to_value_seq ?a (ctip_outpoint c) = None"
    if "(n, c) \<in> set (outputs_of infos)" for n c
    using out [OF that] fresh by (auto simp: output_of_def)
  with inj have new: "new_outputs ?a ?txid (set (outputs_of infos))" unfolding new_outputs_def by blast
  from assms(6) obtain r' where r: "r = Some r'" by (auto simp: tx_result_def split: option.splits)
  have res: "result_ok ?a (set (outputs_of infos)) r'"
    using loop_ok [OF loop, of "set (outputs_of infos)"] r S by simp
  have "tx_applied d ?txid ?a a'"
  proof (cases r')
    case (M5Deposits ds d5)
    then have "d = DM5 d5" using assms(6) r by (simp add: tx_result_def)
    then show ?thesis using m5_applied [OF assms(3) new, of d5 a'] res M5Deposits assms(7) by (simp add: apply_m5_def)
  next
    case (M6Withdrawal n m s d6)
    then have d: "d = DM6 d6" using assms(6) r by (simp add: tx_result_def)
    then show ?thesis using m6_applied [OF assms(3) new, of n d6 m _ a'] res M6Withdrawal assms(7) by auto
  qed
  then show "ok_tx d ?a" "active_wf a'" "\<And>outp. ctip_outpoint_to_value_seq a' outp \<noteq> None \<Longrightarrow>
       op_txid outp = ?txid \<or> ctip_outpoint_to_value_seq ?a outp \<noteq> None" by (auto simp: tx_applied_def)
qed

section \<open>The two maps of the unconsolidated treasury outputs agree\<close>

text \<open>The map by outpoint and the map by slot hold the same treasury outputs, and no slot is kept with an
  empty list. Every operation on the two maps keeps this; an inserted output is new.\<close>

definition uc_indexed :: "unconsolidated_ctips \<Rightarrow> bool" where
  "uc_indexed uc \<longleftrightarrow>
     (\<forall>outp n v. map_of (by_outpoint uc) outp = Some (n, v) \<longleftrightarrow>
        (\<exists>cs. by_sidechain uc n = Some cs \<and> \<lparr>ctip_outpoint = outp, ctip_value = v\<rparr> \<in> set cs)) \<and>
     (\<forall>n. by_sidechain uc n \<noteq> Some [])"

lemma ctip_eta: "\<lparr>ctip_outpoint = ctip_outpoint c, ctip_value = ctip_value c\<rparr> = (c :: ctip)"
  by (cases c) simp

lemma uc_default_indexed: "uc_indexed uc_default"
  by (simp add: uc_indexed_def uc_default_def)

lemma uc_indexed_D:
  assumes "uc_indexed uc"
  shows "map_of (by_outpoint uc) outp = Some (n, v) \<longleftrightarrow>
      (\<exists>cs. by_sidechain uc n = Some cs \<and> \<lparr>ctip_outpoint = outp, ctip_value = v\<rparr> \<in> set cs)"
    and "by_sidechain uc n \<noteq> Some []"
  using assms unfolding uc_indexed_def by blast+

lemma uc_insert_indexed:
  assumes "uc_indexed uc" "map_of (by_outpoint uc) (ctip_outpoint c) = None"
  shows "uc_indexed (uc_insert n c uc)"
  unfolding uc_indexed_def
proof (intro conjI allI)
  fix outp k v
  have new: "\<lparr>ctip_outpoint = ctip_outpoint c, ctip_value = w\<rparr> \<notin> set cs" if "by_sidechain uc k = Some cs" for w k cs
    using uc_indexed_D(1) [OF assms(1), of "ctip_outpoint c" k w] assms(2) that by auto
  have "(\<lparr>ctip_outpoint = outp, ctip_value = v\<rparr> = c) = (outp = ctip_outpoint c \<and> v = ctip_value c)" by (cases c) auto
  then show "map_of (by_outpoint (uc_insert n c uc)) outp = Some (k, v) \<longleftrightarrow>
      (\<exists>cs. by_sidechain (uc_insert n c uc) k = Some cs \<and> \<lparr>ctip_outpoint = outp, ctip_value = v\<rparr> \<in> set cs)"
    using uc_indexed_D(1) [OF assms(1), of outp k v] new
    by (cases "outp = ctip_outpoint c") (auto simp: uc_insert_def om_insert_lookup linked_insert_def split: option.splits)
next
  fix k show "by_sidechain (uc_insert n c uc) k \<noteq> Some []"
    using uc_indexed_D(2) [OF assms(1)] by (simp add: uc_insert_def linked_insert_def)
qed

lemma om_remove_lookup: "map_of (om_remove k xs) j = (if j = k then None else map_of xs j)"
  by (induction xs) (auto simp: om_remove_def)

lemma uc_remove_indexed:
  assumes "uc_indexed uc"
  shows "uc_indexed (snd (uc_remove outp uc))"
proof (cases "map_of (by_outpoint uc) outp")
  case (Some nv)
  obtain n v where nv: "nv = (n, v)" by (cases nv)
  obtain cs where cs: "by_sidechain uc n = Some cs" "\<lparr>ctip_outpoint = outp, ctip_value = v\<rparr> \<in> set cs"
    using uc_indexed_D(1) [OF assms, of outp n v] Some nv by auto
  let ?cs = "filter (\<lambda>c. c \<noteq> \<lparr>ctip_outpoint = outp, ctip_value = v\<rparr>) cs"
  have r: "snd (uc_remove outp uc) = uc\<lparr>by_outpoint := om_remove outp (by_outpoint uc),
      by_sidechain := (by_sidechain uc)(n := if ?cs = [] then None else Some ?cs)\<rparr>"
    using Some nv cs(1) by (simp add: uc_remove_def Let_def)
  have only: "k = n \<and> w = v" if "by_sidechain uc k = Some ds" "\<lparr>ctip_outpoint = outp, ctip_value = w\<rparr> \<in> set ds" for k w ds
    using uc_indexed_D(1) [OF assms, of outp k w] Some nv that by auto
  have "map_of (om_remove outp (by_outpoint uc)) outp' = Some (k, w) \<longleftrightarrow>
      (\<exists>ds. ((by_sidechain uc)(n := if ?cs = [] then None else Some ?cs)) k = Some ds \<and>
        \<lparr>ctip_outpoint = outp', ctip_value = w\<rparr> \<in> set ds)" for outp' k w
  proof (cases "outp' = outp")
    case True
    have "\<not> (\<exists>ds. ((by_sidechain uc)(n := if ?cs = [] then None else Some ?cs)) k = Some ds \<and>
        \<lparr>ctip_outpoint = outp, ctip_value = w\<rparr> \<in> set ds)"
    proof (cases "k = n")
      case True
      then show ?thesis using only [OF cs(1), of w] by (cases "?cs = []") auto
    next
      case False
      then show ?thesis using only [of k _ w] by auto
    qed
    then show ?thesis using True by (simp only: om_remove_lookup) simp
  next
    case False
    have "(\<exists>ds. ((by_sidechain uc)(n := if ?cs = [] then None else Some ?cs)) k = Some ds \<and>
          \<lparr>ctip_outpoint = outp', ctip_value = w\<rparr> \<in> set ds) \<longleftrightarrow>
        (\<exists>ds. by_sidechain uc k = Some ds \<and> \<lparr>ctip_outpoint = outp', ctip_value = w\<rparr> \<in> set ds)"
      using False cs(1) by (cases "k = n") (auto simp: filter_empty_conv)
    then show ?thesis using False uc_indexed_D(1) [OF assms, of outp' k w] by (simp add: om_remove_lookup)
  qed
  then show ?thesis using uc_indexed_D(2) [OF assms] unfolding r uc_indexed_def by simp
qed (simp add: uc_remove_def assms)

lemma fold_om_remove_lookup:
  "map_of (fold (\<lambda>c. om_remove (ctip_outpoint c)) cs xs) j = (if j \<in> ctip_outpoint ` set cs then None else map_of xs j)"
  by (induction cs arbitrary: xs) (auto simp: om_remove_lookup)

lemma uc_remove_sidechain_indexed:
  assumes "uc_indexed uc"
  shows "uc_indexed (snd (uc_remove_sidechain n uc))"
proof -
  let ?cs = "case by_sidechain uc n of Some cs \<Rightarrow> cs | None \<Rightarrow> []"
  have mem: "(outp \<in> ctip_outpoint ` set ?cs) \<longleftrightarrow> (\<exists>v. map_of (by_outpoint uc) outp = Some (n, v))" for outp
  proof
    assume "outp \<in> ctip_outpoint ` set ?cs"
    then obtain c where c: "c \<in> set ?cs" "outp = ctip_outpoint c" by blast
    then have "\<lparr>ctip_outpoint = outp, ctip_value = ctip_value c\<rparr> \<in> set ?cs" by (simp only: ctip_eta)
    then show "\<exists>v. map_of (by_outpoint uc) outp = Some (n, v)"
      using uc_indexed_D(1) [OF assms, of outp n "ctip_value c"] by (auto split: option.splits)
  next
    assume "\<exists>v. map_of (by_outpoint uc) outp = Some (n, v)"
    then show "outp \<in> ctip_outpoint ` set ?cs"
      using uc_indexed_D(1) [OF assms, of outp n] by force
  qed
  show ?thesis unfolding uc_indexed_def
  proof (intro conjI allI)
    fix outp k v
    show "map_of (by_outpoint (snd (uc_remove_sidechain n uc))) outp = Some (k, v) \<longleftrightarrow>
      (\<exists>cs. by_sidechain (snd (uc_remove_sidechain n uc)) k = Some cs \<and> \<lparr>ctip_outpoint = outp, ctip_value = v\<rparr> \<in> set cs)"
      using mem [of outp] uc_indexed_D(1) [OF assms, of outp k v]
      by (cases "k = n") (auto simp: uc_remove_sidechain_def Let_def fold_om_remove_lookup)
  next
    fix k show "by_sidechain (snd (uc_remove_sidechain n uc)) k \<noteq> Some []"
      using uc_indexed_D(2) [OF assms] by (simp add: uc_remove_sidechain_def Let_def)
  qed
qed

lemma uc_indexed_empty:
  assumes "uc_indexed uc"
  shows "uc_is_empty uc \<longleftrightarrow> (\<forall>n. by_sidechain uc n = None)"
proof
  assume "uc_is_empty uc"
  show "\<forall>n. by_sidechain uc n = None"
  proof (rule ccontr)
    assume "\<not> ?thesis"
    then obtain n cs where cs: "by_sidechain uc n = Some cs" by auto
    with uc_indexed_D(2) [OF assms, of n] obtain c where "c \<in> set cs" by (cases cs) auto
    then have "\<lparr>ctip_outpoint = ctip_outpoint c, ctip_value = ctip_value c\<rparr> \<in> set cs" by (simp only: ctip_eta)
    with cs uc_indexed_D(1) [OF assms, of "ctip_outpoint c" n "ctip_value c"] \<open>uc_is_empty uc\<close>
    show False by (auto simp: uc_is_empty_def)
  qed
next
  assume none: "\<forall>n. by_sidechain uc n = None"
  show "uc_is_empty uc"
  proof (cases "by_outpoint uc")
    case (Cons e es)
    then have "map_of (by_outpoint uc) (fst e) = Some (fst (snd e), snd (snd e))" by (cases e) simp
    with uc_indexed_D(1) [OF assms, of "fst e" "fst (snd e)" "snd (snd e)"] none show ?thesis by simp
  qed (simp add: uc_is_empty_def)
qed

end
