(* ===== verification/Connect.thy ===== *)
theory Connect
  imports Ctips
begin

text \<open>
  Connecting and disconnecting blocks, \<open>src/lib/validator/task/mod.rs\<close>: the dispatch of coinbase
  messages, \<open>partial_connect_block\<close>, \<open>finalize_connect_block\<close> with \<open>record_block\<close>,
  \<open>connect_block\<close> and \<open>disconnect_block\<close>, and the validation of a single transaction,
  \<open>validate_tx\<close>; and which errors of \<open>src/lib/validator/task/error.rs\<close> are fatal.

  A write transaction is the record \<open>dbs\<close>, passed on and returned changed. On an error the
  caller drops it, so an error result carries no tables. \<open>srt\<close> and \<open>ord\<close> are the unstable
  sort and the \<open>HashMap\<close> order of the handlers. Where \<open>failed_m6ids_diff\<close>, a
  \<open>HashMap\<close>, is iterated to make events, the order is that of the slots.
\<close>

section \<open>Errors\<close>

datatype partial_connect_error =
    BlockParent blockhash blockhash u32
  | PC_CoinbaseMessages coinbase_messages_error
  | PC_Db fault
  | PC_FailedM6Ids fault
  | PC_M3 handle_m3_error
  | PC_M4 handle_m4_ack_bundles_error
  | MultipleBmmBlocks sidechain_number
  | MultipleBmmRequests sidechain_number
  | NoCoinbase
  | PC_Transaction txid blockhash handle_transaction_error

datatype record_block_error =
    RB_Db fault
  | RB_PutBlockInfo put_block_info_error

datatype finalize_connect_error =
    FC_Record record_block_error
  | UnconsolidatedCtip outpoint sidechain_number

datatype connect_block_error =
    CB_Finalize finalize_connect_error
  | CB_Partial partial_connect_error

datatype disconnect_block_error =
    DB_Db fault
  | DB_GetHeaderInfo get_header_info_error
  | DB_TipHash blockhash blockhash
  | DB_Undo undo_error

text \<open>The \<open>fatal\<close> attributes: a fatal error says nothing about the validity of the block.\<close>

fun m3_fatal :: "handle_m3_error \<Rightarrow> bool" where
  "m3_fatal (M3_Db _) = True"
| "m3_fatal (InactiveSidechain _) = False"
| "m3_fatal (BundleAlreadyPending _ _) = False"

fun m4_votes_fatal :: "handle_m4_votes_error \<Rightarrow> bool" where
  "m4_votes_fatal (M4V_Db _) = True"
| "m4_votes_fatal (InvalidVotes _ _) = False"
| "m4_votes_fatal (UpvoteFailed _ _) = False"

fun m4_fatal :: "handle_m4_ack_bundles_error \<Rightarrow> bool" where
  "m4_fatal (M4A_Db _) = True"
| "m4_fatal (M4A_Votes e) = m4_votes_fatal e"
| "m4_fatal TwoBytesWithinByteRange = False"

fun m5_m6_fatal :: "handle_m5_m6_error \<Rightarrow> bool" where
  "m5_m6_fatal (M5M6_Db _) = True"
| "m5_m6_fatal _ = False"

fun transaction_fatal :: "handle_transaction_error \<Rightarrow> bool" where
  "transaction_fatal (HT_M5M6 e) = m5_m6_fatal e"
| "transaction_fatal (HT_M8 _) = False"

fun partial_fatal :: "partial_connect_error \<Rightarrow> bool" where
  "partial_fatal (BlockParent _ _ _) = False"
| "partial_fatal (PC_CoinbaseMessages _) = False"
| "partial_fatal (PC_Db _) = True"
| "partial_fatal (PC_FailedM6Ids _) = True"
| "partial_fatal (PC_M3 e) = m3_fatal e"
| "partial_fatal (PC_M4 e) = m4_fatal e"
| "partial_fatal (MultipleBmmBlocks _) = False"
| "partial_fatal (MultipleBmmRequests _) = False"
| "partial_fatal NoCoinbase = False"
| "partial_fatal (PC_Transaction _ _ e) = transaction_fatal e"

fun finalize_fatal :: "finalize_connect_error \<Rightarrow> bool" where
  "finalize_fatal (FC_Record _) = True"
| "finalize_fatal (UnconsolidatedCtip _ _) = False"

fun connect_fatal :: "connect_block_error \<Rightarrow> bool" where
  "connect_fatal (CB_Finalize e) = finalize_fatal e"
| "connect_fatal (CB_Partial e) = partial_fatal e"

section \<open>Coinbase messages\<close>

datatype coinbase_message_event =
    CM_NewSidechainProposal sidechain
  | CM_WithdrawalBundle withdrawal_bundle_event

fun handle_coinbase_message ::
    "btc \<Rightarrow> ((m6id \<times> u16) list \<Rightarrow> (m6id \<times> u16) list) \<Rightarrow> block_handler \<Rightarrow> dbs \<Rightarrow> u32 \<Rightarrow> blockhash \<Rightarrow>
     bmm_commitments \<Rightarrow> coinbase_message \<Rightarrow>
     partial_connect_error +
       coinbase_message_event option \<times> coinbase_msg_diff option \<times> bmm_commitments" where
  "handle_coinbase_message B srt bh db height prev accepted (M1ProposeSidechain m1) =
     (let proposal = \<lparr>prop_sidechain_number = m1_sidechain_number m1,
        prop_description = m1_description m1\<rparr> in
      case handle_m1_propose_sidechain B db proposal height of
        Some diff \<Rightarrow>
          Inr (Some (CM_NewSidechainProposal (nsp_sidechain diff)),
            Some (DNewSidechainProposal diff), accepted)
      | None \<Rightarrow> Inr (None, None, accepted))"
| "handle_coinbase_message B srt bh db height prev accepted (M2AckSidechain m2) =
     Inr (None, map_option DAckSidechainProposal
       (handle_m2_ack_sidechain bh db height (m2_sidechain_number m2) (m2_description_hash m2)),
       accepted)"
| "handle_coinbase_message B srt bh db height prev accepted (M3ProposeBundle m3) =
     (case handle_m3_propose_bundle db (m3_sidechain_number m3) (m3_bundle_txid m3) of
        Inl e \<Rightarrow> Inl (PC_M3 e)
      | Inr diff \<Rightarrow>
          Inr (Some (CM_WithdrawalBundle \<lparr>wbe_sidechain_id = m3_sidechain_number m3,
              wbe_m6id = m3_bundle_txid m3, wbe_kind = Submitted\<rparr>),
            Some (DProposeBundle diff), accepted))"
| "handle_coinbase_message B srt bh db height prev accepted (M4AckBundles m4) =
     (case handle_m4_ack_bundles srt db prev m4 of
        Inl e \<Rightarrow> Inl (PC_M4 e)
      | Inr diff \<Rightarrow> Inr (None, if diff = [] then None else Some (DAckBundles diff), accepted))"
| "handle_coinbase_message B srt bh db height prev accepted (M7BmmAccept m7) =
     (if map_of accepted (m7_sidechain_number m7) \<noteq> None
      then Inl (MultipleBmmBlocks (m7_sidechain_number m7))
      else Inr (None, None,
        om_insert (m7_sidechain_number m7) (m7_sidechain_block_hash m7) accepted))"

text \<open>The first loop of \<open>partial_connect_block\<close>: the messages of the coinbase, and the first
  output index of every sidechain proposal.\<close>

type_synonym m1_outputs = "((sidechain_number \<times> hash256) \<times> u32) list"

definition or_insert :: "'k \<Rightarrow> 'v \<Rightarrow> ('k \<times> 'v) list \<Rightarrow> ('k \<times> 'v) list" where
  "or_insert k v xs = (if map_of xs k = None then om_insert k v xs else xs)"

fun note_m1 :: "btc \<Rightarrow> coinbase_message \<Rightarrow> nat \<Rightarrow> m1_outputs \<Rightarrow> m1_outputs" where
  "note_m1 B (M1ProposeSidechain m1) vout m1s =
     or_insert (m1_sidechain_number m1, sha256d_hash B (m1_description m1)) (of_nat vout) m1s"
| "note_m1 B _ vout m1s = m1s"

fun collect_messages :: "btc \<Rightarrow> nat \<Rightarrow> txout list \<Rightarrow> coinbase_messages \<Rightarrow> m1_outputs \<Rightarrow>
    partial_connect_error + coinbase_messages \<times> m1_outputs" where
  "collect_messages B vout [] msgs m1s = Inr (msgs, m1s)"
| "collect_messages B vout (outp # outputs) msgs m1s =
     (case coinbase_message_parse B (to_script_pubkey outp) of
        Inl _ \<Rightarrow> collect_messages B (Suc vout) outputs msgs m1s
      | Inr (_, message) \<Rightarrow>
          let m1s = note_m1 B message vout m1s in
          (case push msgs message vout of
             Inl e \<Rightarrow> Inl (PC_CoinbaseMessages e)
           | Inr msgs \<Rightarrow> collect_messages B (Suc vout) outputs msgs m1s))"

text \<open>The event of a message; indexing \<open>m1_sidechain_proposals\<close> panics on a missing key.\<close>

fun message_event :: "btc \<Rightarrow> m1_outputs \<Rightarrow> coinbase_message_event option \<Rightarrow> fault + block_event list" where
  "message_event B m1s None = Inr []"
| "message_event B m1s (Some (CM_NewSidechainProposal sc)) =
     (let proposal = sc_proposal sc in
      case map_of m1s (prop_sidechain_number proposal,
             sha256d_hash B (prop_description proposal)) of
        None \<Rightarrow> Inl Panic
      | Some index \<Rightarrow> Inr [SidechainProposalEvent index proposal])"
| "message_event B m1s (Some (CM_WithdrawalBundle e)) = Inr [WithdrawalBundleE e]"

text \<open>The loop over the messages: each is handled on the tables the diffs of the previous ones
  lead to. The result is the accepted commitments, the events, the diffs and the tables.\<close>

fun messages_loop ::
    "btc \<Rightarrow> ((m6id \<times> u16) list \<Rightarrow> (m6id \<times> u16) list) \<Rightarrow> block_handler \<Rightarrow> u32 \<Rightarrow> blockhash \<Rightarrow>
     m1_outputs \<Rightarrow> coinbase_message list \<Rightarrow> bmm_commitments \<Rightarrow> dbs \<Rightarrow>
     partial_connect_error + bmm_commitments \<times> block_event list \<times> coinbase_msg_diff list \<times> dbs" where
  "messages_loop B srt bh height prev m1s [] accepted db = Inr (accepted, [], [], db)"
| "messages_loop B srt bh height prev m1s (message # messages) accepted db =
     (case handle_coinbase_message B srt bh db height prev accepted message of
        Inl e \<Rightarrow> Inl e
      | Inr (ev, diff, accepted) \<Rightarrow>
     (case message_event B m1s ev of
        Inl e \<Rightarrow> Inl (PC_Db e)
      | Inr events \<Rightarrow>
     (case (case diff of None \<Rightarrow> Inr db | Some d \<Rightarrow> apply_coinbase_msg height d db) of
        Inl e \<Rightarrow> Inl (PC_Db e)
      | Inr db \<Rightarrow>
     (case messages_loop B srt bh height prev m1s messages accepted db of
        Inl e \<Rightarrow> Inl e
      | Inr (accepted, events', diffs, db) \<Rightarrow>
          Inr (accepted, events @ events', (case diff of None \<Rightarrow> [] | Some d \<Rightarrow> [d]) @ diffs, db)))))"

text \<open>A coinbase without M4 counts as one that abstains for every active sidechain.\<close>

definition default_m4 :: "((m6id \<times> u16) list \<Rightarrow> (m6id \<times> u16) list) \<Rightarrow> u32 \<Rightarrow> blockhash \<Rightarrow> bool \<Rightarrow>
    dbs \<Rightarrow> partial_connect_error + coinbase_msg_diff list \<times> dbs" where
  "default_m4 srt height prev has_m4 db =
     (if has_m4 then Inr ([], db)
      else
        let active_sidechains_count = length (numbers (active_sidechains db));
            upvotes = replicate active_sidechains_count ABSTAIN_ONE_BYTE
        in case handle_m4_ack_bundles srt db prev (OneByte upvotes) of
             Inl e \<Rightarrow> Inl (PC_M4 e)
           | Inr diff \<Rightarrow>
               if diff = [] then Inr ([], db)
               else (case apply_coinbase_msg height (DAckBundles diff) db of
                 Inl e \<Rightarrow> Inl (PC_Db e)
               | Inr db \<Rightarrow> Inr ([DAckBundles diff], db)))"

definition failed_events :: "failed_m6ids \<Rightarrow> block_event list" where
  "failed_events failed =
     concat (map (\<lambda>(n, fs). map (\<lambda>(_, m, _). WithdrawalBundleE \<lparr>wbe_sidechain_id = n,
       wbe_m6id = m, wbe_kind = Failed\<rparr>) fs) failed)"

text \<open>The part of \<open>partial_connect_block\<close> that handles the coinbase: the commitments, the
  events, the coinbase diff and the tables.\<close>

definition connect_coinbase ::
    "btc \<Rightarrow> ((m6id \<times> u16) list \<Rightarrow> (m6id \<times> u16) list) \<Rightarrow> block_handler \<Rightarrow> u32 \<Rightarrow> blockhash \<Rightarrow>
     transaction \<Rightarrow> dbs \<Rightarrow>
     partial_connect_error + bmm_commitments \<times> block_event list \<times> coinbase_diff \<times> dbs" where
  "connect_coinbase B srt bh height prev coinbase db =
     (case collect_messages B 0 (tx_output coinbase) coinbase_messages_default [] of
        Inl e \<Rightarrow> Inl e
      | Inr (coinbase_messages, m1s) \<Rightarrow>
     (case messages_loop B srt bh height prev m1s (map fst (cm_messages coinbase_messages)) [] db of
        Inl e \<Rightarrow> Inl e
      | Inr (accepted, events, diffs, db) \<Rightarrow>
     (case default_m4 srt height prev (m4_exists coinbase_messages) db of
        Inl e \<Rightarrow> Inl e
      | Inr (m4_diffs, db) \<Rightarrow>
     (let failed_proposals = handle_failed_sidechain_proposals bh db height;
          db = db\<lparr>proposal_id_to_sidechain :=
            apply_failed_proposals failed_proposals (proposal_id_to_sidechain db)\<rparr>
      in case handle_failed_m6ids bh db height of
        Inl e \<Rightarrow> Inl (PC_FailedM6Ids e)
      | Inr failed_m6ids \<Rightarrow>
     (case apply_failed_m6ids failed_m6ids (active_sidechains db) of
        Inl e \<Rightarrow> Inl (PC_Db e)
      | Inr a \<Rightarrow>
          Inr (accepted, events @ failed_events failed_m6ids,
            \<lparr>cd_msgs = diffs @ m4_diffs, cd_failed_proposals = failed_proposals,
             cd_failed_m6ids = failed_m6ids\<rparr>,
            db\<lparr>active_sidechains := a\<rparr>))))))"

section \<open>The other transactions\<close>

fun tx_block_event :: "transaction_event \<Rightarrow> block_event" where
  "tx_block_event (TxDeposits deposits) = Deposits deposits"
| "tx_block_event (TxWithdrawalBundle e) = WithdrawalBundleE e"

fun txs_loop ::
    "btc \<Rightarrow> (tx_ctips_infos \<Rightarrow> tx_ctips_infos) \<Rightarrow> block_handler \<Rightarrow> blockhash \<Rightarrow> blockhash \<Rightarrow>
     bmm_commitments \<Rightarrow> transaction list \<Rightarrow> unconsolidated_ctips \<Rightarrow> sidechain_number set \<Rightarrow> dbs \<Rightarrow>
     partial_connect_error + unconsolidated_ctips \<times> block_event list \<times> tx_diff list \<times> dbs" where
  "txs_loop B ord bh block_hash prev accepted [] uc slots db = Inr (uc, [], [], db)"
| "txs_loop B ord bh block_hash prev accepted (tx # txs) uc slots db =
     (case handle_transaction B ord bh db (Some accepted) uc prev tx of
        Inl e \<Rightarrow> Inl (PC_Transaction (b_compute_txid B tx) block_hash e)
      | Inr (handled, uc) \<Rightarrow>
     (case (case parse_m8_tx tx of
              None \<Rightarrow> Inr slots
            | Some req \<Rightarrow>
                if m8_sidechain_number req \<in> slots
                then Inl (MultipleBmmRequests (m8_sidechain_number req))
                else Inr (insert (m8_sidechain_number req) slots)) of
        Inl e \<Rightarrow> Inl e
      | Inr slots \<Rightarrow>
     (case handled of
        None \<Rightarrow> txs_loop B ord bh block_hash prev accepted txs uc slots db
      | Some (tx_event, diff) \<Rightarrow>
     (case apply_tx diff (active_sidechains db) of
        Inl e \<Rightarrow> Inl (PC_Db e)
      | Inr a \<Rightarrow>
     (case txs_loop B ord bh block_hash prev accepted txs uc slots (db\<lparr>active_sidechains := a\<rparr>) of
        Inl e \<Rightarrow> Inl e
      | Inr (uc, events, diffs, db) \<Rightarrow>
          Inr (uc, tx_block_event tx_event # events, diff # diffs, db))))))"

section \<open>Connecting a block\<close>

definition ensure_tip_is_parent :: "dbs \<Rightarrow> blockhash \<Rightarrow> partial_connect_error + unit" where
  "ensure_tip_is_parent db parent =
     (if current_chain_tip db = Some parent \<or> (current_chain_tip db = None \<and> parent = all_zeros)
      then Inr ()
      else
        let tip = (case current_chain_tip db of Some t \<Rightarrow> t | None \<Rightarrow> all_zeros);
            tip_height = (case height_db (block_hashes db) tip of Some h \<Rightarrow> h | None \<Rightarrow> 0)
        in Inl (BlockParent parent tip tip_height))"

definition empty_block_info_and_diff :: "txid \<Rightarrow> block_info \<times> block_diff" where
  "empty_block_info_and_diff coinbase_txid =
     (\<lparr>bi_bmm_commitments = [], bi_coinbase_txid = coinbase_txid, bi_events = []\<rparr>,
      \<lparr>bd_coinbase = \<lparr>cd_msgs = [], cd_failed_proposals = (\<lambda>_. None), cd_failed_m6ids = []\<rparr>,
       bd_txs = []\<rparr>)"

record partially_connected_block_info =
  pc_header_info :: header_info
  pc_block_info :: block_info
  pc_diff :: block_diff
  pc_unconsolidated_ctips :: unconsolidated_ctips

definition partial_connect_block ::
    "btc \<Rightarrow> ((m6id \<times> u16) list \<Rightarrow> (m6id \<times> u16) list) \<Rightarrow> (tx_ctips_infos \<Rightarrow> tx_ctips_infos) \<Rightarrow>
     block_handler \<Rightarrow> block \<Rightarrow> dbs \<Rightarrow>
     partial_connect_error + partially_connected_block_info \<times> dbs" where
  "partial_connect_block B srt ord bh block db =
     (let hdr = blk_header block; parent = hdr_prev_blockhash hdr in
      case ensure_tip_is_parent db parent of
        Inl e \<Rightarrow> Inl e
      | Inr _ \<Rightarrow>
     (let block_hash = b_block_hash B hdr in
      case height_db (block_hashes db) block_hash of
        None \<Rightarrow> Inl (PC_Db MissingValue)
      | Some height \<Rightarrow>
     (case blk_txdata block of
        [] \<Rightarrow> Inl NoCoinbase
      | coinbase # txs \<Rightarrow>
     (let header_info = \<lparr>hi_block_hash = block_hash, hi_prev_block_hash = parent,
            hi_height = height, hi_work = b_work B hdr, hi_timestamp = hdr_time hdr\<rparr>
      in if height < bip300_activation_height (bh_params bh)
         then (case empty_block_info_and_diff (b_compute_txid B coinbase) of (block_info, diff) \<Rightarrow>
           Inr (\<lparr>pc_header_info = header_info, pc_block_info = block_info, pc_diff = diff,
             pc_unconsolidated_ctips = uc_default\<rparr>, db))
         else case connect_coinbase B srt bh height parent coinbase db of
           Inl e \<Rightarrow> Inl e
         | Inr (accepted, events, coinbase_diff, db) \<Rightarrow>
        (case txs_loop B ord bh block_hash parent accepted txs uc_default {} db of
           Inl e \<Rightarrow> Inl e
         | Inr (uc, tx_events, tx_diffs, db) \<Rightarrow>
             Inr (\<lparr>pc_header_info = header_info,
                pc_block_info = \<lparr>bi_bmm_commitments = accepted,
                  bi_coinbase_txid = b_compute_txid B coinbase, bi_events = events @ tx_events\<rparr>,
                pc_diff = \<lparr>bd_coinbase = coinbase_diff, bd_txs = tx_diffs\<rparr>,
                pc_unconsolidated_ctips = uc\<rparr>, db))))))"

definition record_block :: "btc \<Rightarrow> header_info \<Rightarrow> block_info \<Rightarrow> block_diff \<Rightarrow> dbs \<Rightarrow>
    record_block_error + event \<times> dbs" where
  "record_block B header_info block_info block_diff db =
     (let block_hash = hi_block_hash header_info in
      case put_block_info B (block_hashes db) block_hash block_info block_diff of
        Inl e \<Rightarrow> Inl (RB_PutBlockInfo e)
      | Inr bhs \<Rightarrow>
     (let db = db\<lparr>block_hashes := bhs\<rparr> in
      case (case current_chain_tip db of
              None \<Rightarrow> Inr None
            | Some current_tip \<Rightarrow>
                (case cumulative_work_db bhs current_tip of
                   None \<Rightarrow> Inl (RB_Db MissingValue)
                 | Some w \<Rightarrow> Inr (Some w))) of
        Inl e \<Rightarrow> Inl e
      | Inr current_tip_cumulative_work \<Rightarrow>
     (case cumulative_work_db bhs block_hash of
        None \<Rightarrow> Inl (RB_Db MissingValue)
      | Some cumulative_work \<Rightarrow>
          let db = (if (case current_tip_cumulative_work of None \<Rightarrow> True | Some w \<Rightarrow> w < cumulative_work)
                    then db\<lparr>current_chain_tip := Some block_hash\<rparr> else db)
          in Inr (ConnectBlock header_info block_info, db))))"

definition finalize_connect_block :: "btc \<Rightarrow> partially_connected_block_info \<Rightarrow> dbs \<Rightarrow>
    finalize_connect_error + event \<times> dbs" where
  "finalize_connect_block B info db =
     (case by_outpoint (pc_unconsolidated_ctips info) of
        (outp, sidechain, _) # _ \<Rightarrow> Inl (UnconsolidatedCtip outp sidechain)
      | [] \<Rightarrow>
          (case record_block B (pc_header_info info) (pc_block_info info) (pc_diff info) db of
             Inl e \<Rightarrow> Inl (FC_Record e)
           | Inr r \<Rightarrow> Inr r))"

definition connect_block ::
    "btc \<Rightarrow> ((m6id \<times> u16) list \<Rightarrow> (m6id \<times> u16) list) \<Rightarrow> (tx_ctips_infos \<Rightarrow> tx_ctips_infos) \<Rightarrow>
     block_handler \<Rightarrow> block \<Rightarrow> dbs \<Rightarrow> connect_block_error + event \<times> dbs" where
  "connect_block B srt ord bh block db =
     (case partial_connect_block B srt ord bh block db of
        Inl e \<Rightarrow> Inl (CB_Partial e)
      | Inr (info, db) \<Rightarrow>
          (case finalize_connect_block B info db of
             Inl e \<Rightarrow> Inl (CB_Finalize e)
           | Inr r \<Rightarrow> Inr r))"

definition disconnect_block :: "btc \<Rightarrow> blockhash \<Rightarrow> event list \<Rightarrow> dbs \<Rightarrow>
    disconnect_block_error + event list \<times> dbs" where
  "disconnect_block B block_hash events db =
     (case diff_db (block_hashes db) block_hash of
        None \<Rightarrow> Inr (events, db)
      | Some diff \<Rightarrow>
     (case (case current_chain_tip db of
              Some tip_hash \<Rightarrow> if tip_hash \<noteq> block_hash then Some tip_hash else None
            | None \<Rightarrow> None) of
        Some tip_hash \<Rightarrow> Inl (DB_TipHash block_hash tip_hash)
      | None \<Rightarrow>
     (case get_header_info B (block_hashes db) block_hash of
        Inl e \<Rightarrow> Inl (DB_GetHeaderInfo e)
      | Inr header_info \<Rightarrow>
     (case undo_block diff db of
        Inl e \<Rightarrow> Inl (DB_Undo e)
      | Inr db \<Rightarrow>
          let db = (if hi_prev_block_hash header_info \<noteq> all_zeros
                    then db\<lparr>current_chain_tip := Some (hi_prev_block_hash header_info)\<rparr>
                    else db\<lparr>current_chain_tip := None\<rparr>)
          in Inr (events @ [DisconnectBlock block_hash], db)))))"

section \<open>Validating a single transaction\<close>

datatype validated_tx =
    VM5 unconsolidated_ctips
  | VInvalid
  | VValid
  | VPayout sidechain_number m6id

datatype validate_tx_error =
    VT_Db fault
  | NoChainTip
  | VT_Transaction handle_transaction_error

definition seen_ctip_inputs :: "dbs \<Rightarrow> txin list \<Rightarrow> unconsolidated_ctips" where
  "seen_ctip_inputs db inputs =
     fold (\<lambda>input uc.
        case seen_unconsolidated_ctip_outputs db (previous_output input) of
          Some (n, value) \<Rightarrow>
            uc_insert n \<lparr>ctip_outpoint = previous_output input, ctip_value = value\<rparr> uc
        | None \<Rightarrow> uc) inputs uc_default"

definition validate_tx :: "btc \<Rightarrow> (tx_ctips_infos \<Rightarrow> tx_ctips_infos) \<Rightarrow> block_handler \<Rightarrow> dbs \<Rightarrow>
    transaction \<Rightarrow> validate_tx_error + validated_tx" where
  "validate_tx B ord bh db tx =
     (case current_chain_tip db of
        None \<Rightarrow> Inl NoChainTip
      | Some tip_hash \<Rightarrow>
     (case height_db (block_hashes db) tip_hash of
        None \<Rightarrow> Inl (VT_Db MissingValue)
      | Some tip_height \<Rightarrow>
     (case handle_transaction B ord (bh\<lparr>require_payable_bundles := False\<rparr>) db None
             (seen_ctip_inputs db (tx_input tx)) tip_hash tx of
        Inr (None, _) \<Rightarrow> Inr VValid
      | Inr (Some (ev, diff), uc) \<Rightarrow>
          (case apply_tx diff (active_sidechains db) of
             Inl e \<Rightarrow> Inl (VT_Db e)
           | Inr _ \<Rightarrow>
               Inr (case ev of
                 TxWithdrawalBundle e \<Rightarrow> VPayout (wbe_sidechain_id e) (wbe_m6id e)
               | TxDeposits _ \<Rightarrow> VM5 uc))
      | Inl err \<Rightarrow> if transaction_fatal err then Inl (VT_Transaction err) else Inr VInvalid)))"

section \<open>The invariant of the tables\<close>

definition max_age :: "thresholds \<Rightarrow> nat" where
  "max_age t = max (unat (withdrawal_bundle_max_age t)) (unat (unused_sidechain_slot_proposal_max_age t))"

text \<open>A proposal in a block at height \<open>h\<close>, before (\<open>acked = False\<close>) or after an
  acknowledgement for its slot: it is not active, not from the future, has at most one vote per
  block since its proposal, and it is not older than the maximal age by more than this block.\<close>

definition proposal_ok :: "thresholds \<Rightarrow> u32 \<Rightarrow> bool \<Rightarrow> sidechain \<Rightarrow> bool" where
  "proposal_ok t h acked sc \<longleftrightarrow>
     st_activation_height (sc_status sc) = None \<and>
     unat (st_proposal_height (sc_status sc)) \<le> unat h \<and>
     unat (sc_votes sc) \<le> unat h - unat (st_proposal_height (sc_status sc)) - (if acked then 0 else 1) \<and>
     unat h - unat (st_proposal_height (sc_status sc)) \<le> max_age t + 1"

text \<open>The invariant while the messages of a block at height \<open>h\<close> are handled, with the slots
  acknowledged so far.\<close>

definition mid_wf :: "block_handler \<Rightarrow> u32 \<Rightarrow> sidechain_number set \<Rightarrow> dbs \<Rightarrow> bool" where
  "mid_wf bh h acked db \<longleftrightarrow> active_wf (active_sidechains db) \<and> diffs_wf (block_hashes db) \<and>
     (\<forall>pid sc. proposal_id_to_sidechain db pid = Some sc \<longrightarrow>
        proposal_ok (bh_thresholds bh) h (id_sidechain_number pid \<in> acked) sc)"

text \<open>What the diffs of a block do not touch.\<close>

definition same_frame :: "dbs \<Rightarrow> dbs \<Rightarrow> bool" where
  "same_frame db db' \<longleftrightarrow> block_hashes db' = block_hashes db \<and> current_chain_tip db' = current_chain_tip db \<and>
     seen_unconsolidated_ctip_outputs db' = seen_unconsolidated_ctip_outputs db"

abbreviation outpoint_table :: "dbs \<Rightarrow> outpoint \<Rightarrow> (sidechain_number \<times> amount \<times> nat) option" where
  "outpoint_table db \<equiv> ctip_outpoint_to_value_seq (active_sidechains db)"

lemma same_frame_refl [simp]: "same_frame db db"
  by (simp add: same_frame_def)

lemma same_frame_trans: "same_frame db db1 \<Longrightarrow> same_frame db1 db2 \<Longrightarrow> same_frame db db2"
  by (simp add: same_frame_def)

lemma each_pending_table:
  "each_slot (pending_step mv F) d a = Inr a' \<Longrightarrow>
     ctip_outpoint_to_value_seq a' = ctip_outpoint_to_value_seq a"
  by (induction d arbitrary: a) (auto simp: pending_step_Inr split: sum.splits)

lemma apply_ack_sidechain_frame:
  "apply_ack_sidechain_proposal d h db = Inr db' \<Longrightarrow>
     same_frame db db' \<and> outpoint_table db' = outpoint_table db"
  by (auto simp: apply_ack_sidechain_proposal_def Let_def same_frame_def put_proposal_def
      put_sidechain_def split: option.splits if_splits)

lemma apply_coinbase_msg_frame:
  assumes "apply_coinbase_msg h d db = Inr db'"
  shows "same_frame db db' \<and> outpoint_table db' = outpoint_table db"
proof (cases d)
  case (DAckBundles ab)
  with assms obtain a where a: "apply_ack_bundles ab (active_sidechains db) = Inr a"
    and db': "db' = db\<lparr>active_sidechains := a\<rparr>" by (auto simp: with_active_def split: sum.splits)
  have "ctip_outpoint_to_value_seq a = outpoint_table db"
    using a by (simp add: apply_ack_bundles_def apply_ack_bundle_action_step each_pending_table)
  then show ?thesis by (simp add: db' same_frame_def)
next
  case (DAckSidechainProposal x)
  then show ?thesis using assms apply_ack_sidechain_frame by simp
next
  case (DNewSidechainProposal x)
  then show ?thesis using assms by (auto simp: same_frame_def)
next
  case (DProposeBundle x)
  then show ?thesis using assms
    by (auto simp: with_active_def same_frame_def apply_propose_bundle_def put_pending_m6id_def
        update_pending_Inr split: sum.splits)
qed

section \<open>One coinbase message\<close>

fun acked_slots :: "coinbase_message \<Rightarrow> sidechain_number set" where
  "acked_slots (M2AckSidechain m2) = {m2_sidechain_number m2}"
| "acked_slots _ = {}"

lemma unat_succ_less:
  "unat (v :: u16) < 0xFFFF \<Longrightarrow> unat (v + 1) = unat v + 1"
  by (simp add: unat_word_ariths)

lemma proposal_ok_votes:
  assumes "proposal_ok t h False sc" "max_age t < 0xFFFF"
  shows "unat (sc_votes sc) < 0xFFFF"
  using assms by (simp add: proposal_ok_def) linarith

lemma proposal_ok_weaken: "proposal_ok t h False sc \<Longrightarrow> proposal_ok t h b sc"
  by (auto simp: proposal_ok_def)

lemma proposal_ok_ack:
  assumes "proposal_ok t h False sc" "max_age t < 0xFFFF" "h \<noteq> st_proposal_height (sc_status sc)"
  shows "proposal_ok t h True (set_vote_count (sc_votes sc + 1) sc)"
proof -
  have "unat h \<noteq> unat (st_proposal_height (sc_status sc))"
    using assms(3) by (simp add: word_unat_eq_iff)
  then show ?thesis
    using assms(1) unat_succ_less [OF proposal_ok_votes [OF assms(1,2)]]
    by (auto simp: proposal_ok_def)
qed

text \<open>The diff of a coinbase message is valid, and applying it keeps the invariant.\<close>

lemma m2_step:
  assumes wf: "mid_wf bh h S db" and age: "max_age (bh_thresholds bh) < 0xFFFF"
    and m2: "handle_m2_ack_sidechain bh db h n dh = Some d" and n: "n \<notin> S"
    and app: "apply_ack_sidechain_proposal d h db = Inr db1"
  shows "ok_msg (DAckSidechainProposal d) db" "mid_wf bh h (insert n S) db1"
proof -
  let ?t = "bh_thresholds bh"
  from handle_m2_Some [OF m2] obtain sc where sc: "proposal_id_to_sidechain db (asp_id d) = Some sc"
      "h \<noteq> st_proposal_height (sc_status sc)"
    and pid: "asp_id d = \<lparr>id_sidechain_number = n, id_description_hash = dh\<rparr>"
    and eff: "ok_effect (asp_effect d) (sidechain_db (active_sidechains db) n)" by auto
  have ok: "proposal_ok ?t h False sc" using wf sc(1) pid n unfolding mid_wf_def by fastforce
  have v: "unat (sc_votes sc) < 0xFFFF" by (rule proposal_ok_votes [OF ok age])
  have "st_activation_height (sc_status sc) = None" "sc_votes sc \<noteq> 0xFFFF"
    using ok v by (auto simp: proposal_ok_def)
  then show "ok_msg (DAckSidechainProposal d) db"
    using wf sc(1) eff pid by (auto simp: mid_wf_def active_wf_def)
  let ?sc = "set_vote_count (sc_votes sc + 1) sc"
  have ack: "proposal_ok ?t h True ?sc" by (rule proposal_ok_ack [OF ok age sc(2)])
  have others: "proposal_ok ?t h (id_sidechain_number pid \<in> insert n S) sc'"
    if "proposal_id_to_sidechain db pid = Some sc'" for pid sc'
  proof -
    have "proposal_ok ?t h (id_sidechain_number pid \<in> S) sc'" using wf that by (simp add: mid_wf_def)
    then show ?thesis using proposal_ok_weaken by (cases "id_sidechain_number pid \<in> S") auto
  qed
  show "mid_wf bh h (insert n S) db1"
  proof (cases "asp_effect d = NoActivation")
    case True
    then have "db1 = put_proposal (asp_id d) (Some ?sc) db"
      using app sc(1) by (simp add: apply_ack_sidechain_proposal_def)
    then show ?thesis using wf others ack pid unfolding mid_wf_def
      by (auto simp: put_proposal_def)
  next
    case False
    then have "db1 = put_proposal (asp_id d) None (db\<lparr>active_sidechains :=
        put_sidechain (active_sidechains db) n (set_activation_height (Some h) ?sc)\<rparr>)"
      using app sc(1) pid by (simp add: apply_ack_sidechain_proposal_def Let_def)
    then show ?thesis using wf others put_sidechain_wf unfolding mid_wf_def
      by (auto simp: put_proposal_def)
  qed
qed

lemma m1_step:
  assumes wf: "mid_wf bh h S db" and m1: "handle_m1_propose_sidechain B db p h = Some d"
  shows "mid_wf bh h S (db\<lparr>proposal_id_to_sidechain :=
    apply_new_sidechain_proposal d (proposal_id_to_sidechain db)\<rparr>)"
proof -
  have "proposal_ok (bh_thresholds bh) h b (nsp_sidechain d)" for b
    using m1 by (auto simp: handle_m1_propose_sidechain_def Let_def proposal_ok_def split: if_splits)
  then show ?thesis using wf by (auto simp: mid_wf_def apply_new_sidechain_proposal_def)
qed

lemma with_active_step:
  assumes "mid_wf bh h S db" "active_wf a"
  shows "mid_wf bh h S (db\<lparr>active_sidechains := a\<rparr>)"
  using assms by (simp add: mid_wf_def)

lemma message_step:
  assumes wf: "mid_wf bh h S db" and age: "max_age (bh_thresholds bh) < 0xFFFF"
    and srt: "votes_sort srt" and disj: "acked_slots m \<inter> S = {}"
    and m: "handle_coinbase_message B srt bh db h prev acc m = Inr (ev, Some d, acc')"
    and app: "apply_coinbase_msg h d db = Inr db1"
  shows "ok_msg d db" "mid_wf bh h (acked_slots m \<union> S) db1"
proof -
  have awf: "active_wf (active_sidechains db)" "pending_wf (active_sidechains db)"
    "diffs_wf (block_hashes db)" using wf by (auto simp: mid_wf_def active_wf_def)
  have "ok_msg d db \<and> mid_wf bh h (acked_slots m \<union> S) db1"
  proof (cases m)
    case (M1ProposeSidechain m1)
    with m obtain x where "handle_m1_propose_sidechain B db \<lparr>prop_sidechain_number =
        m1_sidechain_number m1, prop_description = m1_description m1\<rparr> h = Some x"
      "d = DNewSidechainProposal x" by (auto simp: Let_def split: option.splits)
    then show ?thesis using m1_step [OF wf] app M1ProposeSidechain handle_m1_ok by fastforce
  next
    case (M2AckSidechain m2)
    with m obtain x where x: "handle_m2_ack_sidechain bh db h (m2_sidechain_number m2)
        (m2_description_hash m2) = Some x" "d = DAckSidechainProposal x" by auto
    show ?thesis using m2_step [OF wf age x(1), of db1] M2AckSidechain disj app x(2) by simp
  next
    case (M3ProposeBundle m3)
    with m obtain x where x: "handle_m3_propose_bundle db (m3_sidechain_number m3)
        (m3_bundle_txid m3) = Inr x" "d = DProposeBundle x" by (auto split: sum.splits)
    with app obtain a where a: "apply_propose_bundle x h (active_sidechains db) = Inr a"
      "db1 = db\<lparr>active_sidechains := a\<rparr>" by (auto simp: with_active_def split: sum.splits)
    have "active_wf a" using a(1) awf(1)
      by (auto simp: apply_propose_bundle_def put_pending_m6id_def om_insert_distinct
          intro: update_pending_wf)
    then show ?thesis using with_active_step [OF wf] handle_m3_ok [OF x(1)] x(2) a(2) M3ProposeBundle
      by simp
  next
    case (M4AckBundles m4)
    with m have x: "\<exists>ab. handle_m4_ack_bundles srt db prev m4 = Inr ab \<and> d = DAckBundles ab"
      by (auto split: sum.splits if_splits)
    then obtain ab where ab: "handle_m4_ack_bundles srt db prev m4 = Inr ab" "d = DAckBundles ab"
      by blast
    note ok = handle_m4_ok [OF srt awf(2,3) ab(1)]
    from app ab(2) obtain a where a: "apply_ack_bundles ab (active_sidechains db) = Inr a"
      "db1 = db\<lparr>active_sidechains := a\<rparr>" by (auto simp: with_active_def split: sum.splits)
    have "active_wf a" using ack.each_slot_wf [OF awf(1) ok] a(1)
      by (simp add: apply_ack_bundles_def apply_ack_bundle_action_step)
    then show ?thesis using with_active_step [OF wf] ok ab(2) a(2) M4AckBundles by simp
  next
    case (M7BmmAccept m7)
    then show ?thesis using m by (auto split: if_splits)
  qed
  then show "ok_msg d db" "mid_wf bh h (acked_slots m \<union> S) db1" by blast+
qed

section \<open>The coinbase\<close>

lemma acked_disjoint:
  assumes "msgs_allowed (m # ms)" "m' \<in> set ms"
  shows "acked_slots m' \<inter> acked_slots m = {}"
proof -
  have "msg_key m \<notin> msg_key ` set ms" using assms(1) by (simp add: msgs_allowed_def)
  then have "msg_key m' \<noteq> msg_key m" using assms(2) by (metis imageI)
  then show ?thesis by (cases m; cases m') auto
qed

lemma messages_loop_ok:
  "\<lbrakk>messages_loop B srt bh h prev m1s ms acc db = Inr (acc', evs, ds, db'); mid_wf bh h S db;
    msgs_allowed ms; \<forall>m\<in>set ms. acked_slots m \<inter> S = {}; votes_sort srt;
    max_age (bh_thresholds bh) < 0xFFFF\<rbrakk> \<Longrightarrow>
   ok_all (apply_coinbase_msg h) ok_msg ds db \<and> apply_all (apply_coinbase_msg h) ds db = Inr db' \<and>
   (\<exists>S'. mid_wf bh h S' db') \<and> same_frame db db' \<and> outpoint_table db' = outpoint_table db"
proof (induction ms arbitrary: acc db S evs ds)
  case (Cons m ms)
  from Cons.prems(1) obtain ev d acc1 events db1 evs2 ds2 where
    m: "handle_coinbase_message B srt bh db h prev acc m = Inr (ev, d, acc1)"
    and app: "(case d of None \<Rightarrow> Inr db | Some d \<Rightarrow> apply_coinbase_msg h d db) = Inr db1"
    and rest: "messages_loop B srt bh h prev m1s ms acc1 db1 = Inr (acc', evs2, ds2, db')"
    and ds: "ds = (case d of None \<Rightarrow> [] | Some d \<Rightarrow> [d]) @ ds2"
    by (auto split: sum.splits prod.splits)
  have allowed: "msgs_allowed ms" using Cons.prems(3) by (simp add: msgs_allowed_def)
  show ?case
  proof (cases d)
    case None
    with Cons.IH [OF rest _ allowed, of S] Cons.prems app ds show ?thesis by simp
  next
    case (Some x)
    then have ap: "apply_coinbase_msg h x db = Inr db1" using app by simp
    have dj: "acked_slots m \<inter> S = {}" using Cons.prems(4) by simp
    note st = message_step [OF Cons.prems(2,6,5) dj m [unfolded Some] ap]
    have "\<forall>m'\<in>set ms. acked_slots m' \<inter> (acked_slots m \<union> S) = {}"
      using acked_disjoint [OF Cons.prems(3)] Cons.prems(4) by (simp add: Int_Un_distrib)
    note IH = Cons.IH [OF rest st(2) allowed this Cons.prems(5,6)]
    note fr = apply_coinbase_msg_frame [OF ap]
    show ?thesis using IH st(1) ap fr same_frame_trans Some ds by auto
  qed
qed auto

lemma collect_messages_new:
  "collect_messages B v outs msgs m1s = Inr (cm, m1s') \<Longrightarrow> new_loop B v outs msgs = Inr cm"
proof (induction B v outs msgs m1s rule: collect_messages.induct)
  case (2 B v outp outputs msgs m1s)
  then show ?case by (auto simp: Let_def split: sum.splits prod.splits)
qed simp

lemma abstain_loop: "\<forall>(n, v)\<in>set vs. v = ABSTAIN_TWO_BYTES \<Longrightarrow> votes_loop a vs = Inr []"
  by (induction a vs rule: votes_loop.induct) auto

text \<open>The default M4 changes nothing.\<close>

lemma default_m4_none: "default_m4 srt h prev has_m4 db = Inr ([], db)"
proof -
  let ?ns = "numbers (active_sidechains db)"
  have "widen_vote ABSTAIN_ONE_BYTE = ABSTAIN_TWO_BYTES" by (simp add: widen_vote_def)
  moreover have "votes_loop (active_sidechains db) (zip ?ns (replicate (length ?ns) ABSTAIN_TWO_BYTES)) = Inr []"
    by (rule abstain_loop) (auto simp: set_zip)
  ultimately show ?thesis
    by (simp add: default_m4_def handle_m4_votes_def m4_votes_result_def Let_def)
qed

text \<open>The invariant between blocks, where \<open>k\<close> is the height of the next block. Before the
  activation height there are no proposals.\<close>

definition proposal_end :: "thresholds \<Rightarrow> nat \<Rightarrow> sidechain \<Rightarrow> bool" where
  "proposal_end t k sc \<longleftrightarrow>
     st_activation_height (sc_status sc) = None \<and>
     unat (st_proposal_height (sc_status sc)) < k \<and>
     unat (sc_votes sc) \<le> k - 1 - unat (st_proposal_height (sc_status sc)) \<and>
     k - 1 - unat (st_proposal_height (sc_status sc)) \<le> max_age t"

definition tables_wf :: "block_handler \<Rightarrow> nat \<Rightarrow> dbs \<Rightarrow> bool" where
  "tables_wf bh k db \<longleftrightarrow> active_wf (active_sidechains db) \<and> diffs_wf (block_hashes db) \<and>
     (\<forall>pid sc. proposal_id_to_sidechain db pid = Some sc \<longrightarrow> proposal_end (bh_thresholds bh) k sc) \<and>
     (k \<le> unat (bip300_activation_height (bh_params bh)) \<longrightarrow>
        (\<forall>pid. proposal_id_to_sidechain db pid = None))"

lemma proposal_end_next:
  "proposal_end t (unat h) sc \<Longrightarrow> proposal_ok t h False sc"
  by (auto simp: proposal_end_def proposal_ok_def)

lemma proposal_ok_end:
  assumes "proposal_ok t h b sc" "\<not> proposal_failed t h a sc"
  shows "proposal_end t (unat h + 1) sc"
proof -
  have "unat (saturating_sub h (st_proposal_height (sc_status sc))) \<le> max_age t"
    using assms(2)
    by (auto simp: proposal_failed_def Let_def max_age_def word_less_nat_alt not_less
        unat_ucast_u16_u32 split: if_splits)
  then show ?thesis using assms(1) by (auto simp: proposal_ok_def proposal_end_def saturating_sub_unat)
qed

lemma tables_wf_mid:
  "tables_wf bh (unat h) db \<Longrightarrow> mid_wf bh h {} db"
  unfolding tables_wf_def mid_wf_def using proposal_end_next by fastforce

lemma connect_coinbase_ok:
  assumes con: "connect_coinbase B srt bh h prev coinbase db = Inr (acc, evs, cd, db')"
    and wf: "mid_wf bh h {} db" and act: "bip300_activation_height (bh_params bh) \<le> h" and srt: "votes_sort srt" and age: "max_age (bh_thresholds bh) < 0xFFFF"
  shows "ok_coinbase h cd db" "apply_coinbase h cd db = Inr db'" "tables_wf bh (unat h + 1) db'"
    "same_frame db db'" "outpoint_table db' = outpoint_table db"
proof -
  from con obtain cm m1s evs1 ds db1 a fm where
    cm: "collect_messages B 0 (tx_output coinbase) coinbase_messages_default [] = Inr (cm, m1s)"
    and loop: "messages_loop B srt bh h prev m1s (map fst (cm_messages cm)) [] db = Inr (acc, evs1, ds, db1)"
    and fm: "handle_failed_m6ids bh (db1\<lparr>proposal_id_to_sidechain := apply_failed_proposals
       (handle_failed_sidechain_proposals bh db1 h) (proposal_id_to_sidechain db1)\<rparr>) h = Inr fm"
    and a: "apply_failed_m6ids fm (active_sidechains db1) = Inr a"
    and cd: "cd = \<lparr>cd_msgs = ds, cd_failed_proposals = handle_failed_sidechain_proposals bh db1 h,
             cd_failed_m6ids = fm\<rparr>"
    and db': "db' = db1\<lparr>proposal_id_to_sidechain := apply_failed_proposals
       (handle_failed_sidechain_proposals bh db1 h) (proposal_id_to_sidechain db1),
       active_sidechains := a\<rparr>"
    by (auto simp: connect_coinbase_def default_m4_none Let_def split: sum.splits prod.splits)
  have "cm_wf cm" using new_loop_Inr [OF collect_messages_new [OF cm] cm_wf_default] by simp
  then have allowed: "msgs_allowed (map fst (cm_messages cm))" by (simp add: cm_wf_def)
  from messages_loop_ok [OF loop wf allowed _ srt age] obtain S where
    msgs: "ok_all (apply_coinbase_msg h) ok_msg ds db" "apply_all (apply_coinbase_msg h) ds db = Inr db1"
    and mid: "mid_wf bh h S db1" and fr: "same_frame db db1" "outpoint_table db1 = outpoint_table db"
    by auto
  have awf: "active_wf (active_sidechains db1)" "pending_wf (active_sidechains db1)"
    using mid by (auto simp: mid_wf_def active_wf_def)
  have okf: "ok_slots ok_failed fm (active_sidechains db1)"
    using handle_failed_m6ids_ok [OF _ fm] awf(2) by simp
  show "ok_coinbase h cd db"
    using msgs okf handle_failed_proposals_ok by (auto simp: ok_coinbase_def cd)
  show "apply_coinbase h cd db = Inr db'"
    using msgs a by (simp add: apply_coinbase_def cd db' Let_def)
  have each: "each_slot (pending_step MissingValue fail_step) fm (active_sidechains db1) = Inr a"
    using a by (simp add: apply_failed_m6ids_def apply_failed_slot_step)
  show "same_frame db db'" using fr(1) by (simp add: same_frame_def db')
  show "outpoint_table db' = outpoint_table db" using fr(2) each_pending_table [OF each] by (simp add: db')
  have "active_wf a" by (rule fail.each_slot_wf [OF awf(1) okf each])
  moreover have "proposal_end (bh_thresholds bh) (unat h + 1) sc" if "proposal_id_to_sidechain db' pid = Some sc" for pid sc
  proof -
    have sc: "proposal_id_to_sidechain db1 pid = Some sc"
      and nf: "handle_failed_sidechain_proposals bh db1 h pid = None"
      using that by (auto simp: db' apply_failed_proposals_def split: if_splits)
    then have "\<not> proposal_failed (bh_thresholds bh) h (active_sidechains db1) sc"
      by (auto simp: handle_failed_sidechain_proposals_def split: if_splits)
    then show ?thesis using mid sc proposal_ok_end unfolding mid_wf_def by blast
  qed
  ultimately show "tables_wf bh (unat h + 1) db'" using mid act by (simp add: tables_wf_def mid_wf_def db' word_le_nat_alt)
qed


section \<open>The other transactions\<close>

text \<open>What Bitcoin consensus guarantees of the transactions of a block: their ids are distinct and
  new (BIP 30), and the number of outputs fits an output index.\<close>

definition fresh_txs :: "btc \<Rightarrow> transaction list \<Rightarrow> dbs \<Rightarrow> bool" where
  "fresh_txs B txs db \<longleftrightarrow> distinct (map (b_compute_txid B) txs) \<and>
     (\<forall>tx\<in>set txs. length (tx_output tx) \<le> 2 ^ 32 \<and>
        (\<forall>v. outpoint_table db \<lparr>op_txid = b_compute_txid B tx, op_vout = v\<rparr> = None))"

lemma txs_loop_ok:
  "\<lbrakk>txs_loop B ord bh block_hash prev acc txs uc slots db = Inr (uc', evs, ds, db');
    active_wf (active_sidechains db); fresh_txs B txs db; \<And>xs. mset (ord xs) = mset xs\<rbrakk> \<Longrightarrow>
   ok_all apply_tx ok_tx ds (active_sidechains db) \<and>
   apply_all apply_tx ds (active_sidechains db) = Inr (active_sidechains db') \<and>
   active_wf (active_sidechains db') \<and> db' = db\<lparr>active_sidechains := active_sidechains db'\<rparr>"
proof (induction txs arbitrary: uc slots db evs ds)
  case (Cons tx txs)
  from Cons.prems(1) obtain handled uc1 slots1 where
    h: "handle_transaction B ord bh db (Some acc) uc prev tx = Inr (handled, uc1)"
    and rest: "(case handled of
        None \<Rightarrow> txs_loop B ord bh block_hash prev acc txs uc1 slots1 db
      | Some (tx_event, diff) \<Rightarrow>
     (case apply_tx diff (active_sidechains db) of
        Inl e \<Rightarrow> Inl (PC_Db e)
      | Inr a \<Rightarrow>
     (case txs_loop B ord bh block_hash prev acc txs uc1 slots1 (db\<lparr>active_sidechains := a\<rparr>) of
        Inl e \<Rightarrow> Inl e
      | Inr (uc, events, diffs, db) \<Rightarrow>
          Inr (uc, tx_block_event tx_event # events, diff # diffs, db)))) = Inr (uc', evs, ds, db')"
    by (auto split: sum.splits)
  from h obtain r where m56: "handle_m5_m6 B ord bh db uc tx = Inr (r, uc1)"
    and handled: "handled = tx_result tx r"
    by (auto simp: handle_transaction_def split: sum.splits)
  show ?case
  proof (cases handled)
    case None
    moreover have "fresh_txs B txs db" using Cons.prems(3) by (simp add: fresh_txs_def)
    ultimately show ?thesis using Cons.IH [OF _ Cons.prems(2) _ Cons.prems(4)] rest by simp
  next
    case (Some ed)
    obtain ev d where ed: "ed = (ev, d)" by (cases ed)
    from rest Some ed obtain a evs2 ds2 where a: "apply_tx d (active_sidechains db) = Inr a"
      and rest2: "txs_loop B ord bh block_hash prev acc txs uc1 slots1 (db\<lparr>active_sidechains := a\<rparr>) =
        Inr (uc', evs2, ds2, db')" and ds: "ds = d # ds2" by (auto split: sum.splits)
    have len: "length (tx_output tx) \<le> 2 ^ 32"
      and fresh: "\<And>v. outpoint_table db \<lparr>op_txid = b_compute_txid B tx, op_vout = v\<rparr> = None"
      using Cons.prems(3) by (auto simp: fresh_txs_def)
    note ok = handle_m5_m6_ok [OF m56 Cons.prems(4,2) len fresh handled [symmetric, unfolded Some ed] a]
    have "ctip_outpoint_to_value_seq a \<lparr>op_txid = b_compute_txid B tx', op_vout = v\<rparr> = None"
      if "tx' \<in> set txs" for tx' v
    proof (rule ccontr)
      assume "ctip_outpoint_to_value_seq a \<lparr>op_txid = b_compute_txid B tx', op_vout = v\<rparr> \<noteq> None"
      then have "b_compute_txid B tx' = b_compute_txid B tx"
        using ok(3) Cons.prems(3) that by (fastforce simp: fresh_txs_def)
      then have "b_compute_txid B tx \<in> b_compute_txid B ` set txs" using that by (metis imageI)
      then show False using Cons.prems(3) by (simp add: fresh_txs_def)
    qed
    then have "fresh_txs B txs (db\<lparr>active_sidechains := a\<rparr>)"
      using Cons.prems(3) by (simp add: fresh_txs_def)
    from Cons.IH [OF rest2 _ this Cons.prems(4)] ok(1,2) a ds
    have IH: "ok_all apply_tx ok_tx ds2 a" "apply_all apply_tx ds2 a = Inr (active_sidechains db')"
      "active_wf (active_sidechains db')" "db' = db\<lparr>active_sidechains := active_sidechains db'\<rparr>"
      by auto
    then show ?thesis using ok(1) a ds by simp
  qed
qed auto

section \<open>Whole blocks\<close>

lemma block_height_partial:
  assumes "partial_connect_block B srt ord bh block db = Inr (info, db1)"
  shows "height_db (block_hashes db) (b_block_hash B (blk_header block)) =
      Some (hi_height (pc_header_info info))"
    "hi_block_hash (pc_header_info info) = b_block_hash B (blk_header block)"
    "hi_prev_block_hash (pc_header_info info) = hdr_prev_blockhash (blk_header block)"
    "ensure_tip_is_parent db (hdr_prev_blockhash (blk_header block)) = Inr ()"
  using assms
  by (auto simp: partial_connect_block_def Let_def empty_block_info_and_diff_def
      split: sum.splits option.splits list.splits if_splits prod.splits)

text \<open>The diff of a block that is partially connected is valid for the tables before, applying it
  gives the tables after, and the invariant holds again.\<close>

lemma partial_connect_ok:
  assumes con: "partial_connect_block B srt ord bh block db = Inr (info, db1)"
    and h: "hi_height (pc_header_info info) = h"
    and wf: "tables_wf bh (unat h) db" and srt: "votes_sort srt" and ord: "\<And>xs. mset (ord xs) = mset xs"
    and age: "max_age (bh_thresholds bh) < 0xFFFF" and fresh: "fresh_txs B (tl (blk_txdata block)) db"
  shows "ok_block h (pc_diff info) db"
    "apply_block h (pc_diff info) db = Inr db1"
    "tables_wf bh (unat h + 1) db1" "same_frame db db1"
proof -
  let ?hash = "b_block_hash B (blk_header block)"
  let ?prev = "hdr_prev_blockhash (blk_header block)"
  from block_height_partial [OF con, unfolded h]
  have hh: "height_db (block_hashes db) ?hash = Some h" and tip: "ensure_tip_is_parent db ?prev = Inr ()"
    by auto
  obtain coinbase txs where txs: "blk_txdata block = coinbase # txs"
    using con hh tip by (cases "blk_txdata block") (auto simp: partial_connect_block_def Let_def)
  have "ok_block h (pc_diff info) db \<and> apply_block h (pc_diff info) db = Inr db1 \<and>
    tables_wf bh (unat h + 1) db1 \<and> same_frame db db1"
  proof (cases "h < bip300_activation_height (bh_params bh)")
    case True
    have "partial_connect_block B srt ord bh block db = Inr (\<lparr>pc_header_info =
        \<lparr>hi_block_hash = ?hash, hi_prev_block_hash = ?prev, hi_height = h,
         hi_work = b_work B (blk_header block), hi_timestamp = hdr_time (blk_header block)\<rparr>,
        pc_block_info = fst (empty_block_info_and_diff (b_compute_txid B coinbase)),
        pc_diff = snd (empty_block_info_and_diff (b_compute_txid B coinbase)),
        pc_unconsolidated_ctips = uc_default\<rparr>, db)"
      using True hh tip txs by (simp add: partial_connect_block_def Let_def empty_block_info_and_diff_def)
    then have "db1 = db" "pc_diff info = snd (empty_block_info_and_diff (b_compute_txid B coinbase))"
      using con by auto
    moreover have none: "\<forall>pid. proposal_id_to_sidechain db pid = None"
      using wf True by (auto simp: tables_wf_def word_less_nat_alt)
    moreover have "tables_wf bh (unat h + 1) db"
      using wf none True by (auto simp: tables_wf_def word_less_nat_alt)
    moreover have "pending_wf (active_sidechains db)" using wf by (auto simp: tables_wf_def active_wf_def)
    moreover have "db\<lparr>proposal_id_to_sidechain := \<lambda>k. None\<rparr> = db"
    proof -
      have "proposal_id_to_sidechain db = (\<lambda>k. None)" using none by auto
      then show ?thesis by (simp flip: \<open>proposal_id_to_sidechain db = (\<lambda>k. None)\<close>)
    qed
    ultimately show ?thesis
      by (simp add: ok_block_def apply_block_def empty_block_info_and_diff_def ok_coinbase_def
          apply_coinbase_def ok_slots_def apply_failed_m6ids_def apply_failed_proposals_def Let_def)
  next
    case False
    with con hh tip txs obtain acc evs cd db0 uc tevs ds where
      cb: "connect_coinbase B srt bh h ?prev coinbase db = Inr (acc, evs, cd, db0)"
      and tl: "txs_loop B ord bh ?hash ?prev acc txs uc_default {} db0 = Inr (uc, tevs, ds, db1)"
      and diff: "pc_diff info = \<lparr>bd_coinbase = cd, bd_txs = ds\<rparr>"
      by (auto simp: partial_connect_block_def Let_def split: sum.splits prod.splits)
    have mid: "mid_wf bh h {} db" using tables_wf_mid wf by simp
    have act: "bip300_activation_height (bh_params bh) \<le> h" using False by simp
    note c = connect_coinbase_ok [OF cb mid act srt age]
    have "fresh_txs B txs db0" using fresh txs c(5) by (simp add: fresh_txs_def)
    moreover have "active_wf (active_sidechains db0)" using c(3) by (simp add: tables_wf_def)
    ultimately have t: "ok_all apply_tx ok_tx ds (active_sidechains db0)"
      "apply_all apply_tx ds (active_sidechains db0) = Inr (active_sidechains db1)"
      "active_wf (active_sidechains db1)" "db1 = db0\<lparr>active_sidechains := active_sidechains db1\<rparr>"
      using txs_loop_ok [OF tl _ _ ord] by blast+
    have "same_frame db0 db1" by (subst t(4)) (simp add: same_frame_def)
    moreover have "tables_wf bh (unat h + 1) db1"
      using c(3) t(3) by (subst t(4)) (simp add: tables_wf_def)
    moreover have "with_active db0 (Inr (active_sidechains db1)) = Inr db1" using t(4) by simp
    ultimately show ?thesis
      using c(1,2,4) t(1,2) same_frame_trans by (auto simp: ok_block_def apply_block_def diff)
  qed
  then show "ok_block h (pc_diff info) db" "apply_block h (pc_diff info) db = Inr db1"
    "tables_wf bh (unat h + 1) db1" "same_frame db db1" by blast+
qed

section \<open>Undoing a block depends on the changed tables only\<close>

abbreviation reframe :: "block_hash_dbs \<Rightarrow> blockhash option \<Rightarrow>
    (outpoint \<Rightarrow> (sidechain_number \<times> amount) option) \<Rightarrow> dbs \<Rightarrow> dbs" where
  "reframe b t s db \<equiv> db\<lparr>block_hashes := b, current_chain_tip := t,
     seen_unconsolidated_ctip_outputs := s\<rparr>"

lemma undo_ack_reframe:
  "undo_ack_sidechain_proposal d db = Inr r \<Longrightarrow>
     undo_ack_sidechain_proposal d (reframe b t s db) = Inr (reframe b t s r)"
  by (auto simp: undo_ack_sidechain_proposal_def Let_def put_proposal_def
      split: ack_effect.splits option.splits sum.splits)

lemma with_active_reframe:
  "with_active db x = Inr r \<Longrightarrow> with_active (reframe b t s db) x = Inr (reframe b t s r)"
  by (auto simp: with_active_def split: sum.splits)

lemma undo_coinbase_msg_reframe:
  "undo_coinbase_msg d db = Inr r \<Longrightarrow>
     undo_coinbase_msg d (reframe b t s db) = Inr (reframe b t s r)"
  by (cases d) (auto simp: undo_ack_reframe with_active_reframe)

lemma undo_msgs_reframe:
  "apply_all undo_coinbase_msg ds db = Inr r \<Longrightarrow>
     apply_all undo_coinbase_msg ds (reframe b t s db) = Inr (reframe b t s r)"
proof (induction ds arbitrary: db)
  case (Cons d ds)
  then obtain db1 where "undo_coinbase_msg d db = Inr db1" "apply_all undo_coinbase_msg ds db1 = Inr r"
    by (auto split: sum.splits)
  then show ?case using Cons.IH undo_coinbase_msg_reframe by simp
qed simp

lemma reframe_update:
  "(reframe b t s db)\<lparr>active_sidechains := a\<rparr> = reframe b t s (db\<lparr>active_sidechains := a\<rparr>)"
  "(reframe b t s db)\<lparr>proposal_id_to_sidechain := p\<rparr> = reframe b t s (db\<lparr>proposal_id_to_sidechain := p\<rparr>)"
  by (cases db, simp)+

lemma undo_coinbase_reframe:
  assumes "undo_coinbase d db = Inr r"
  shows "undo_coinbase d (reframe b t s db) = Inr (reframe b t s r)"
proof -
  from assms obtain a where a: "undo_failed_m6ids (cd_failed_m6ids d) (active_sidechains db) = Inr a"
    and m: "apply_all undo_coinbase_msg (rev (cd_msgs d)) (db\<lparr>active_sidechains := a,
      proposal_id_to_sidechain :=
        undo_failed_proposals (cd_failed_proposals d) (proposal_id_to_sidechain db)\<rparr>) = Inr r"
    by (auto simp: undo_coinbase_def undo_db_def with_active_def Let_def split: sum.splits)
  from undo_msgs_reframe [OF m, where b = b and t = t and s = s] a show ?thesis
    by (simp add: undo_coinbase_def Let_def reframe_update)
qed

lemma undo_block_reframe:
  assumes "undo_block d db = Inr r"
  shows "undo_block d (reframe b t s db) = Inr (reframe b t s r)"
proof -
  from assms obtain a where a: "apply_all undo_tx (rev (bd_txs d)) (active_sidechains db) = Inr a"
    and c: "undo_coinbase (bd_coinbase d) (db\<lparr>active_sidechains := a\<rparr>) = Inr r"
    by (auto simp: undo_block_def undo_db_def with_active_def split: sum.splits)
  from undo_coinbase_reframe [OF c, where b = b and t = t and s = s] a show ?thesis
    by (simp add: undo_block_def reframe_update)
qed

section \<open>The invariant and connected blocks\<close>

definition next_height :: "dbs \<Rightarrow> nat" where
  "next_height db = (case current_chain_tip db of
     None \<Rightarrow> 0
   | Some t \<Rightarrow> (case height_db (block_hashes db) t of Some h \<Rightarrow> unat h + 1 | None \<Rightarrow> 0))"

definition dbs_wf :: "block_handler \<Rightarrow> dbs \<Rightarrow> bool" where
  "dbs_wf bh db \<longleftrightarrow> tables_wf bh (next_height db) db \<and> current_chain_tip db \<noteq> Some all_zeros"

text \<open>What holds of a block when it is connected: its header and height are stored, as the
  comment on \<open>connect_block\<close> demands; it has work, its hash is not the null hash, and its
  transactions are fresh, as Bitcoin consensus guarantees.\<close>

definition block_ready :: "btc \<Rightarrow> dbs \<Rightarrow> block \<Rightarrow> bool" where
  "block_ready B db block \<longleftrightarrow>
     (let hash = b_block_hash B (blk_header block) in
      header_db (block_hashes db) hash = Some (blk_header block) \<and>
      map_option unat (height_db (block_hashes db) hash) = Some (next_height db) \<and>
      0 < b_work B (blk_header block) \<and> hash \<noteq> all_zeros) \<and>
     fresh_txs B (tl (blk_txdata block)) db"

text \<open>What the unspecified orders of the implementation promise, and the bound on ages that the
  thresholds of every network satisfy.\<close>

definition env_ok :: "((m6id \<times> u16) list \<Rightarrow> (m6id \<times> u16) list) \<Rightarrow> (tx_ctips_infos \<Rightarrow> tx_ctips_infos) \<Rightarrow>
    block_handler \<Rightarrow> bool" where
  "env_ok srt ord bh \<longleftrightarrow> votes_sort srt \<and> (\<forall>xs. mset (ord xs) = mset xs) \<and>
     max_age (bh_thresholds bh) < 0xFFFF"

lemma thresholds_max_age: "max_age (for_network fk nw) < 0xFFFF"
  by (cases "(fk, nw)" rule: for_network.cases)
    (simp_all add: max_age_def BTC_MAINNET_def ECX_MAINNET_def SHORT_def)

lemma ensure_tip_Inr:
  "ensure_tip_is_parent db p = Inr u \<longleftrightarrow>
     current_chain_tip db = Some p \<or> (current_chain_tip db = None \<and> p = all_zeros)"
  by (auto simp: ensure_tip_is_parent_def Let_def split: if_splits)

lemma connect_block_Inr:
  assumes con: "connect_block B srt ord bh block db = Inr (ev, db')"
    and wf: "dbs_wf bh db" and ready: "block_ready B db block" and env: "env_ok srt ord bh"
  obtains info db1 b where
    "partial_connect_block B srt ord bh block db = Inr (info, db1)"
    "by_outpoint (pc_unconsolidated_ctips info) = []"
    "ev = ConnectBlock (pc_header_info info) (pc_block_info info)"
    "ok_block (hi_height (pc_header_info info)) (pc_diff info) db"
    "apply_block (hi_height (pc_header_info info)) (pc_diff info) db = Inr db1"
    "tables_wf bh (next_height db + 1) db1" "same_frame db db1"
    "put_block_info B (block_hashes db) (b_block_hash B (blk_header block))
       (pc_block_info info) (pc_diff info) = Inr b"
    "db' = db1\<lparr>block_hashes := b, current_chain_tip := Some (b_block_hash B (blk_header block))\<rparr>"
proof -
  let ?hash = "b_block_hash B (blk_header block)" and ?prev = "hdr_prev_blockhash (blk_header block)"
  from con obtain info db1 where part: "partial_connect_block B srt ord bh block db = Inr (info, db1)"
    and fin: "finalize_connect_block B info db1 = Inr (ev, db')"
    by (auto simp: connect_block_def split: sum.splits)
  note hb = block_height_partial [OF part]
  have k: "unat (hi_height (pc_header_info info)) = next_height db"
    using ready hb(1) by (simp add: block_ready_def Let_def)
  note ok = partial_connect_ok [OF part refl, unfolded k]
  have wf': "tables_wf bh (next_height db) db" and fresh: "fresh_txs B (tl (blk_txdata block)) db"
    using wf ready by (auto simp: dbs_wf_def block_ready_def)
  note ok = ok [OF wf' _ _ _ fresh]
  have fr: "same_frame db db1" using ok(4) env by (simp add: env_ok_def)
  from fin have empty: "by_outpoint (pc_unconsolidated_ctips info) = []"
    and rec: "record_block B (pc_header_info info) (pc_block_info info) (pc_diff info) db1 = Inr (ev, db')"
    by (auto simp: finalize_connect_block_def split: list.splits sum.splits)
  from rec fr hb(2) obtain b where b: "put_block_info B (block_hashes db) ?hash (pc_block_info info)
      (pc_diff info) = Inr b"
    by (auto simp: record_block_def Let_def same_frame_def split: sum.splits)
  have hdr: "header_db (block_hashes db) ?hash = Some (blk_header block)" and work: "0 < b_work B (blk_header block)"
    using ready by (auto simp: block_ready_def Let_def)
  have tip: "current_chain_tip db = Some ?prev \<or> (current_chain_tip db = None \<and> ?prev = all_zeros)"
    using hb(4) by (simp add: ensure_tip_Inr)
  have "current_chain_tip db \<noteq> Some all_zeros" using wf by (simp add: dbs_wf_def)
  then have res: "ev = ConnectBlock (pc_header_info info) (pc_block_info info) \<and>
      db' = db1\<lparr>block_hashes := b, current_chain_tip := Some ?hash\<rparr>"
    using rec fr hb(2) b hdr work tip
    by (auto simp: record_block_def Let_def same_frame_def put_block_info_def
        split: sum.splits option.splits if_splits)
  show thesis
    by (rule that [OF part empty _ ok(1,2,3) fr b]) (use res env in \<open>auto simp: env_ok_def\<close>)
qed

section \<open>Disconnecting inverts connecting\<close>

text \<open>The part of the tables that a block changes, the state of the chain.\<close>

definition chain_state :: "dbs \<Rightarrow> active_dbs \<times> (sidechain_proposal_id \<Rightarrow> sidechain option) \<times> blockhash option" where
  "chain_state db = (active_sidechains db, proposal_id_to_sidechain db, current_chain_tip db)"

lemma put_block_info_Inr:
  assumes "put_block_info B b hash bi d = Inr b'"
  shows "header_db b' = header_db b" "height_db b' = height_db b"
    "diff_db b' = (diff_db b)(hash := Some d)"
  using assms by (auto simp: put_block_info_def split: option.splits if_splits)

text \<open>Disconnecting a block whose diff, header and height are stored, on any tables that agree with
  those after the block on what the block changes.\<close>

lemma disconnect_applied:
  assumes ok: "ok_block h d db" and app: "apply_block h d db = Inr db1"
    and x: "active_sidechains x = active_sidechains db1"
      "proposal_id_to_sidechain x = proposal_id_to_sidechain db1" "current_chain_tip x = Some hash"
    and stored: "diff_db (block_hashes x) hash = Some d" "header_db (block_hashes x) hash = Some hdr"
      "b_block_hash B hdr = hash" "height_db (block_hashes x) hash = Some h"
  shows "disconnect_block B hash evs x = Inr (evs @ [DisconnectBlock hash],
    x\<lparr>active_sidechains := active_sidechains db, proposal_id_to_sidechain := proposal_id_to_sidechain db,
      current_chain_tip := (if hdr_prev_blockhash hdr = all_zeros then None
        else Some (hdr_prev_blockhash hdr))\<rparr>)"
proof -
  have "undo_block d db1 = Inr db" by (rule block.undo_after [OF ok app])
  note undo = undo_block_reframe [OF this, where b = "block_hashes x" and t = "current_chain_tip x"
      and s = "seen_unconsolidated_ctip_outputs x"]
  have "reframe (block_hashes x) (current_chain_tip x) (seen_unconsolidated_ctip_outputs x) db1 = x"
    using x(1,2) by (cases x, cases db1) simp
  with undo have "undo_block d x = Inr (reframe (block_hashes x) (current_chain_tip x)
      (seen_unconsolidated_ctip_outputs x) db)" by simp
  moreover have "get_header_info B (block_hashes x) hash = Inr \<lparr>hi_block_hash = hash,
      hi_prev_block_hash = hdr_prev_blockhash hdr, hi_height = h, hi_work = b_work B hdr,
      hi_timestamp = hdr_time hdr\<rparr>"
    using stored by (simp add: get_header_info_def try_get_header_info_def)
  ultimately show ?thesis using stored(1) x(3)
    by (cases x, cases db) (simp add: disconnect_block_def)
qed

text \<open>What connecting a block leaves behind, as the lemma above needs it.\<close>

lemma connect_block_leaves:
  assumes con: "connect_block B srt ord bh block db = Inr (ev, db')"
    and wf: "dbs_wf bh db" and ready: "block_ready B db block" and env: "env_ok srt ord bh"
  obtains h d db1 where "ok_block h d db" "apply_block h d db = Inr db1"
    "active_sidechains db' = active_sidechains db1"
    "proposal_id_to_sidechain db' = proposal_id_to_sidechain db1"
    "current_chain_tip db' = Some (b_block_hash B (blk_header block))"
    "diff_db (block_hashes db') = (diff_db (block_hashes db))(b_block_hash B (blk_header block) := Some d)"
    "header_db (block_hashes db') = header_db (block_hashes db)"
    "height_db (block_hashes db') = height_db (block_hashes db)"
    "height_db (block_hashes db) (b_block_hash B (blk_header block)) = Some h"
    "tables_wf bh (next_height db + 1) db1" "same_frame db db1"
proof -
  from connect_block_Inr [OF con wf ready env] obtain info db1 b where
    part: "partial_connect_block B srt ord bh block db = Inr (info, db1)"
    and ok: "ok_block (hi_height (pc_header_info info)) (pc_diff info) db"
      "apply_block (hi_height (pc_header_info info)) (pc_diff info) db = Inr db1"
      "tables_wf bh (next_height db + 1) db1" "same_frame db db1"
    and put: "put_block_info B (block_hashes db) (b_block_hash B (blk_header block))
       (pc_block_info info) (pc_diff info) = Inr b"
    and db': "db' = db1\<lparr>block_hashes := b,
       current_chain_tip := Some (b_block_hash B (blk_header block))\<rparr>" .
  show thesis
    by (rule that [OF ok(1,2) _ _ _ _ _ _ block_height_partial(1) [OF part] ok(3,4)])
      (simp_all add: db' put_block_info_Inr [OF put])
qed

lemma connect_tip_before:
  assumes "connect_block B srt ord bh block db = Inr (ev, db')" "dbs_wf bh db"
  shows "current_chain_tip db = (if hdr_prev_blockhash (blk_header block) = all_zeros then None
    else Some (hdr_prev_blockhash (blk_header block)))"
proof -
  from assms(1) obtain info db1 where "partial_connect_block B srt ord bh block db = Inr (info, db1)"
    by (auto simp: connect_block_def split: sum.splits)
  from block_height_partial(4) [OF this] show ?thesis
    using assms(2) by (auto simp: ensure_tip_Inr dbs_wf_def)
qed

text \<open>C1: disconnecting a block that was just connected restores the tables of active sidechains
  (treasuries, pending bundles with their order and votes, active sidechains), the sidechain
  proposals and the chain tip, and reports the disconnection.\<close>

theorem disconnect_inverts_connect:
  assumes "connect_block B srt ord bh block db = Inr (ev, db')"
    and "dbs_wf bh db" "block_ready B db block" "env_ok srt ord bh"
  shows "\<exists>db''. disconnect_block B (b_block_hash B (blk_header block)) evs db' =
      Inr (evs @ [DisconnectBlock (b_block_hash B (blk_header block))], db'') \<and>
    chain_state db'' = chain_state db"
proof -
  let ?hash = "b_block_hash B (blk_header block)"
  from connect_block_leaves [OF assms] obtain h d db1 where
    ok: "ok_block h d db" "apply_block h d db = Inr db1"
    and x: "active_sidechains db' = active_sidechains db1"
      "proposal_id_to_sidechain db' = proposal_id_to_sidechain db1" "current_chain_tip db' = Some ?hash"
    and st: "diff_db (block_hashes db') = (diff_db (block_hashes db))(?hash := Some d)"
      "header_db (block_hashes db') = header_db (block_hashes db)"
      "height_db (block_hashes db') = height_db (block_hashes db)"
      "height_db (block_hashes db) ?hash = Some h" by metis
  have "header_db (block_hashes db') ?hash = Some (blk_header block)"
    using assms(3) st(2) by (simp add: block_ready_def Let_def)
  from disconnect_applied [OF ok x _ this refl, of evs] st
  show ?thesis using connect_tip_before [OF assms(1,2)] by (simp add: chain_state_def)
qed

lemma ok_all_mem: "ok_all f ok ds s \<Longrightarrow> d \<in> set ds \<Longrightarrow> \<exists>s'. ok d s'"
  by (induction ds arbitrary: s) (auto split: sum.splits)

lemma ok_block_diffs:
  "ok_block h d db \<Longrightarrow> DAckBundles ab \<in> set (cd_msgs (bd_coinbase d)) \<Longrightarrow> distinct (map fst ab)"
  by (auto simp: ok_block_def ok_coinbase_def ok_slots_def dest: ok_all_mem)

lemma connect_preserves_wf:
  assumes "connect_block B srt ord bh block db = Inr (ev, db')"
    and "dbs_wf bh db" "block_ready B db block" "env_ok srt ord bh"
  shows "dbs_wf bh db'"
proof -
  let ?hash = "b_block_hash B (blk_header block)"
  from connect_block_leaves [OF assms] obtain h d db1 where
    ok: "ok_block h d db"
    and x: "active_sidechains db' = active_sidechains db1"
      "proposal_id_to_sidechain db' = proposal_id_to_sidechain db1" "current_chain_tip db' = Some ?hash"
    and st: "diff_db (block_hashes db') = (diff_db (block_hashes db))(?hash := Some d)"
      "height_db (block_hashes db') = height_db (block_hashes db)"
      "height_db (block_hashes db) ?hash = Some h"
    and wf1: "tables_wf bh (next_height db + 1) db1" and fr: "same_frame db db1" by metis
  have k: "next_height db' = next_height db + 1" "?hash \<noteq> all_zeros"
    using assms(3) st(2,3) x(3) by (auto simp: block_ready_def Let_def next_height_def)
  have "diffs_wf (block_hashes db)" using assms(2) by (simp add: dbs_wf_def tables_wf_def)
  then have "diffs_wf (block_hashes db')"
    using ok_block_diffs [OF ok] st(1) by (auto simp: diffs_wf_def)
  then show ?thesis using wf1 x k by (simp add: dbs_wf_def tables_wf_def)
qed

text \<open>C10: connecting a block keeps the invariant of the tables: the treasury ledgers, the pending
  bundles and the outpoint index stay consistent, stored diffs stay well-formed, and every
  proposal is inactive, within its maximal age, and has at most one vote per block.\<close>

theorem connect_preserves_invariant:
  assumes "connect_block B srt ord bh block db = Inr (ev, db')"
    and "dbs_wf bh db" "block_ready B db block" "env_ok srt ord bh"
  shows "dbs_wf bh db'"
  using assms by (rule connect_preserves_wf)

text \<open>A block at height 12 whose coinbase carries no message and whose one other transaction pays
  out the approved bundle of the treasury state.\<close>

definition sample_header :: header where
  "sample_header = \<lparr>hdr_version = 1, hdr_prev_blockhash = pad32 [3], hdr_merkle_root = [],
     hdr_time = 0, hdr_bits = 0, hdr_nonce = 5\<rparr>"

definition sample_hash :: blockhash where
  "sample_hash = b_block_hash sample_btc sample_header"

definition sample_coinbase :: transaction where
  "sample_coinbase = \<lparr>tx_version = 2, tx_lock_time = 0, tx_input = [], tx_output = []\<rparr>"

definition sample_block :: block where
  "sample_block = \<lparr>blk_header = sample_header, blk_txdata = [sample_coinbase, sample_m6]\<rparr>"

definition sample_chain :: dbs where
  "sample_chain = dbs_empty\<lparr>active_sidechains := sample_treasury,
     block_hashes := block_hash_dbs_empty\<lparr>header_db := [sample_hash \<mapsto> sample_header],
       height_db := [pad32 [3] \<mapsto> 11, sample_hash \<mapsto> 12], cumulative_work_db := [pad32 [3] \<mapsto> 5]\<rparr>,
     current_chain_tip := Some (pad32 [3])\<rparr>"

lemma sample_active_chain [simp]: "active_sidechains sample_chain = sample_treasury"
  by (simp add: sample_chain_def)

lemma sample_hash_fold [simp]: "pad32 [ucast (hdr_nonce sample_header)] = sample_hash"
  by (simp add: sample_hash_def)

lemma sample_hash_ne: "sample_hash \<noteq> pad32 [3]" "sample_hash \<noteq> all_zeros" "pad32 [3] \<noteq> all_zeros"
  using pad32_nonzero [of 5] pad32_nonzero [of 3]
  by (simp_all add: sample_hash_def sample_header_def)

lemma sample_numbers4: "numbers sample_treasury = [4]"
proof -
  have "numbers sample_treasury = filter (\<lambda>n. n = 4) all_slots"
    by (simp add: numbers_def sample_treasury_def active_dbs_empty_def)
  also have "\<dots> = [4]" by (rule filter_unique [OF all_slots_distinct]) (simp add: all_slots_set)
  finally show ?thesis .
qed

lemma sample_env: "env_ok sort_by_votes id sample_handler"
  using by_votes.votes_sort_axioms by (simp add: env_ok_def max_age_def SHORT_def)

lemma sample_chain_wf: "dbs_wf sample_handler sample_chain"
  using sample_treasury_wf sample_hash_ne
  by (simp add: dbs_wf_def tables_wf_def diffs_wf_def sample_chain_def dbs_empty_def block_hash_dbs_empty_def)

lemma sample_ready: "block_ready sample_btc sample_chain sample_block"
proof -
  have "fresh_txs sample_btc [sample_m6] sample_chain"
    by (simp add: fresh_txs_def sample_treasury_def active_dbs_empty_def sample_ctip_def sample_m6_def
        pad32_def)
  moreover have "0 < b_work sample_btc sample_header" by simp
  ultimately show ?thesis using sample_hash_ne
    by (simp add: block_ready_def Let_def sample_block_def sample_chain_def next_height_def)
qed


lemma sample_connect_coinbase:
  "connect_coinbase sample_btc sort_by_votes sample_handler 12 (pad32 [3]) sample_coinbase sample_chain =
     Inr ([], [], \<lparr>cd_msgs = [], cd_failed_proposals = (\<lambda>_. None), cd_failed_m6ids = []\<rparr>, sample_chain)"
proof -
  have none: "proposal_id_to_sidechain sample_chain = (\<lambda>_. None)"
    by (simp add: sample_chain_def dbs_empty_def)
  then have failed: "handle_failed_sidechain_proposals sample_handler sample_chain 12 = (\<lambda>_. None)"
    by (simp add: handle_failed_sidechain_proposals_def)
  have upd: "sample_chain\<lparr>proposal_id_to_sidechain := (\<lambda>_. None)\<rparr> = sample_chain"
    "sample_chain\<lparr>active_sidechains := sample_treasury\<rparr> = sample_chain"
    by (simp_all add: sample_chain_def dbs_empty_def)
  have m6ids: "handle_failed_m6ids sample_handler sample_chain 12 = Inr []"
    by (simp add: handle_failed_m6ids_def sample_numbers4)
      (simp add: sample_treasury_def bundle_failed_def SHORT_def saturating_sub_def word_le_nat_alt
        word_less_nat_alt)
  have outs: "tx_output sample_coinbase = []" by (simp add: sample_coinbase_def)
  show ?thesis unfolding connect_coinbase_def outs
    by (simp add: coinbase_messages_default_def default_m4_none failed apply_failed_proposals_def none
        upd m6ids apply_failed_m6ids_def failed_events_def)
qed

lemma sample_apply_m6: "\<exists>a. apply_m6 sample_m6_diff sample_treasury = Inr a"
  by (simp add: apply_m6_def sample_m6_diff_def put_ctip_def Let_def delete_pending_withdrawal_def
      update_pending_def with_pending_withdrawals_def sample_treasury_def)

lemma sample_connect: "\<exists>ev db'. connect_block sample_btc sort_by_votes id sample_handler sample_block
    sample_chain = Inr (ev, db')"
proof -
  have m8: "parse_m8_tx sample_m6 = None"
    by (simp add: parse_m8_tx_def sample_m6_def drivechain_script_def NOP5_def m8_parse_def
        p_tag_def)
  from sample_apply_m6 obtain a where a: "apply_m6 sample_m6_diff sample_treasury = Inr a" by blast
  have tx: "handle_transaction sample_btc id sample_handler sample_chain (Some []) uc_default (pad32 [3])
      sample_m6 = Inr (tx_result sample_m6 (Some (M6Withdrawal 4 (pad32 [9]) 1 sample_m6_diff)), uc_default)"
    by (simp add: handle_transaction_def sample_m6_handled handle_m8_def m8)
  have "\<exists>evs. txs_loop sample_btc id sample_handler sample_hash (pad32 [3]) [] [sample_m6] uc_default {}
      sample_chain = Inr (uc_default, evs, [DM6 sample_m6_diff], sample_chain\<lparr>active_sidechains := a\<rparr>)"
    using tx a by (simp add: m8 tx_result_def)
  then obtain evs where txs: "txs_loop sample_btc id sample_handler sample_hash (pad32 [3]) [] [sample_m6]
      uc_default {} sample_chain = Inr (uc_default, evs, [DM6 sample_m6_diff],
      sample_chain\<lparr>active_sidechains := a\<rparr>)" by blast
  have tip: "ensure_tip_is_parent sample_chain (pad32 [3]) = Inr ()"
    by (simp add: ensure_tip_Inr sample_chain_def)
  have hh: "height_db (block_hashes sample_chain) sample_hash = Some 12" by (simp add: sample_chain_def)
  have prev: "hdr_prev_blockhash sample_header = pad32 [3]" by (simp add: sample_header_def)
  have "\<exists>info. partial_connect_block sample_btc sort_by_votes id sample_handler sample_block sample_chain =
      Inr (info, sample_chain\<lparr>active_sidechains := a\<rparr>) \<and>
      hi_block_hash (pc_header_info info) = sample_hash \<and> pc_unconsolidated_ctips info = uc_default"
    using tip hh sample_connect_coinbase txs prev
    by (simp add: partial_connect_block_def sample_block_def Let_def word_le_nat_alt)
  then obtain info where info: "partial_connect_block sample_btc sort_by_votes id sample_handler
      sample_block sample_chain = Inr (info, sample_chain\<lparr>active_sidechains := a\<rparr>)"
    "hi_block_hash (pc_header_info info) = sample_hash" "pc_unconsolidated_ctips info = uc_default" by blast
  have "\<exists>ev db'. finalize_connect_block sample_btc info (sample_chain\<lparr>active_sidechains := a\<rparr>) = Inr (ev, db')"
    using info(2,3) sample_hash_ne prev
    by (simp add: finalize_connect_block_def uc_default_def record_block_def Let_def put_block_info_def
        sample_chain_def)
  with info(1) show ?thesis by (auto simp: connect_block_def)
qed

theorem disconnect_inverts_connect_witness:
  "\<exists>ev db' db''. connect_block sample_btc sort_by_votes id sample_handler sample_block sample_chain =
       Inr (ev, db') \<and>
     disconnect_block sample_btc sample_hash [] db' = Inr ([DisconnectBlock sample_hash], db'') \<and>
     chain_state db'' = chain_state sample_chain"
proof -
  from sample_connect obtain ev db' where con: "connect_block sample_btc sort_by_votes id sample_handler
      sample_block sample_chain = Inr (ev, db')" by blast
  have hash: "b_block_hash sample_btc (blk_header sample_block) = sample_hash"
    by (simp add: sample_block_def)
  from disconnect_inverts_connect [OF con sample_chain_wf sample_ready sample_env, of "[]"] con
  show ?thesis unfolding hash by auto
qed

theorem connect_preserves_invariant_witness:
  "\<exists>ev db'. connect_block sample_btc sort_by_votes id sample_handler sample_block sample_chain =
       Inr (ev, db') \<and> dbs_wf sample_handler db'"
proof -
  from sample_connect obtain ev db' where con: "connect_block sample_btc sort_by_votes id sample_handler
      sample_block sample_chain = Inr (ev, db')" by blast
  from connect_preserves_invariant [OF con sample_chain_wf sample_ready sample_env] con
  show ?thesis by blast
qed

section \<open>Activation of sidechains\<close>

text \<open>What BIP 300 demands of a sidechain that a block at height \<open>h\<close> activates in a slot: more
  acknowledgements than the threshold, at most one per block, within the maximal age. A used slot
  has the thresholds of withdrawal bundles.\<close>

definition activation_ok :: "thresholds \<Rightarrow> u32 \<Rightarrow> sidechain option \<Rightarrow> sidechain \<Rightarrow> bool" where
  "activation_ok t h old sc \<longleftrightarrow>
     st_activation_height (sc_status sc) = Some h \<and>
     (let votes = unat (sc_votes sc); age = unat h - unat (st_proposal_height (sc_status sc)) in
      votes \<le> age \<and>
      (if old = None
       then unat (unused_sidechain_slot_activation_threshold t) < votes \<and>
         age \<le> unat (unused_sidechain_slot_proposal_max_age t)
       else unat (withdrawal_bundle_inclusion_threshold t) < votes \<and>
         age \<le> unat (withdrawal_bundle_max_age t)))"

lemma m2_effect:
  assumes m2: "handle_m2_ack_sidechain bh db h n dh = Some d" and act: "asp_effect d \<noteq> NoActivation"
    and sc: "proposal_id_to_sidechain db (asp_id d) = Some sc"
    and ok: "proposal_ok (bh_thresholds bh) h True (set_vote_count (sc_votes sc + 1) sc)"
  shows "activation_ok (bh_thresholds bh) h (sidechain_db (active_sidechains db) n)
    (set_activation_height (Some h) (set_vote_count (sc_votes sc + 1) sc))"
proof -
  let ?t = "bh_thresholds bh" and ?v = "sc_votes sc + 1"
  let ?age = "saturating_sub h (st_proposal_height (sc_status sc))"
  have pid: "asp_id d = \<lparr>id_sidechain_number = n, id_description_hash = dh\<rparr>"
    using handle_m2_Some(2) [OF m2] .
  have "(sidechain_db (active_sidechains db) n \<noteq> None \<and> ?v > withdrawal_bundle_inclusion_threshold ?t \<and>
      ?age \<le> ucast (withdrawal_bundle_max_age ?t)) \<or>
    (sidechain_db (active_sidechains db) n = None \<and> activates_unused_slot ?t ?v ?age)"
    using m2 act sc pid by (auto simp: handle_m2_ack_sidechain_def Let_def split: if_splits)
  moreover have "st_proposal_height (sc_status (set_activation_height h' sc')) =
      st_proposal_height (sc_status sc')" for h' sc'
    by (simp add: set_activation_height_def)
  ultimately show ?thesis using ok
    by (auto simp: activation_ok_def proposal_ok_def Let_def activates_unused_slot_def
        word_less_nat_alt word_le_nat_alt unat_ucast_u16_u32 saturating_sub_unat)
qed

lemma ack_sidechain_db:
  assumes "apply_ack_sidechain_proposal d h db = Inr db'"
    and "proposal_id_to_sidechain db (asp_id d) = Some sc"
  shows "sidechain_db (active_sidechains db') = (if asp_effect d = NoActivation
    then sidechain_db (active_sidechains db)
    else (sidechain_db (active_sidechains db))(id_sidechain_number (asp_id d) :=
      Some (set_activation_height (Some h) (set_vote_count (sc_votes sc + 1) sc))))"
  using assms by (auto simp: apply_ack_sidechain_proposal_def Let_def)

lemma each_pending_sidechains:
  "each_slot (pending_step mv F) d a = Inr a' \<Longrightarrow> sidechain_db a' = sidechain_db a"
  by (induction d arbitrary: a) (auto simp: pending_step_Inr split: sum.splits)

lemma message_sidechains:
  assumes wf: "mid_wf bh h S db" and age: "max_age (bh_thresholds bh) < 0xFFFF"
    and disj: "acked_slots m \<inter> S = {}"
    and m: "handle_coinbase_message B srt bh db h prev acc m = Inr (ev, Some d, acc')"
    and app: "apply_coinbase_msg h d db = Inr db1"
    and ne: "sidechain_db (active_sidechains db1) n \<noteq> sidechain_db (active_sidechains db) n"
  shows "n \<in> acked_slots m \<and> (\<exists>sc. sidechain_db (active_sidechains db1) n = Some sc \<and>
    activation_ok (bh_thresholds bh) h (sidechain_db (active_sidechains db) n) sc)"
proof (cases m)
  case (M2AckSidechain m2)
  with m obtain x where x: "handle_m2_ack_sidechain bh db h (m2_sidechain_number m2)
      (m2_description_hash m2) = Some x" "d = DAckSidechainProposal x" by auto
  from handle_m2_Some [OF x(1)] obtain sc where sc: "proposal_id_to_sidechain db (asp_id x) = Some sc"
      "h \<noteq> st_proposal_height (sc_status sc)"
    and pid: "asp_id x = \<lparr>id_sidechain_number = m2_sidechain_number m2,
      id_description_hash = m2_description_hash m2\<rparr>" by auto
  have "proposal_ok (bh_thresholds bh) h False sc"
    using wf sc(1) pid disj M2AckSidechain unfolding mid_wf_def by fastforce
  note ok = proposal_ok_ack [OF this age sc(2)]
  have app': "apply_ack_sidechain_proposal x h db = Inr db1" using app x(2) by simp
  note eq = ack_sidechain_db [OF app' sc(1), unfolded pid]
  have act: "asp_effect x \<noteq> NoActivation" and n: "n = m2_sidechain_number m2"
    using eq ne by (auto split: if_splits)
  show ?thesis using m2_effect [OF x(1) act sc(1) ok] eq act n M2AckSidechain by simp
next
  case (M4AckBundles m4)
  with m have "\<exists>ab. d = DAckBundles ab" by (auto split: sum.splits if_splits)
  then show ?thesis using app ne
    by (auto simp: with_active_def apply_ack_bundles_def apply_ack_bundle_action_step
        each_pending_sidechains split: sum.splits)
next
  case (M3ProposeBundle m3)
  with m have "\<exists>x. d = DProposeBundle x" by (auto split: sum.splits)
  then show ?thesis using app ne
    by (auto simp: with_active_def apply_propose_bundle_def put_pending_m6id_def update_pending_Inr
        split: sum.splits)
qed (use m app ne in \<open>auto simp: Let_def split: option.splits if_splits\<close>)

lemma messages_loop_sidechains:
  "\<lbrakk>messages_loop B srt bh h prev m1s ms acc db = Inr (acc', evs, ds, db'); mid_wf bh h S db;
    msgs_allowed ms; \<forall>m\<in>set ms. acked_slots m \<inter> S = {}; votes_sort srt;
    max_age (bh_thresholds bh) < 0xFFFF;
    sidechain_db (active_sidechains db') n \<noteq> sidechain_db (active_sidechains db) n\<rbrakk> \<Longrightarrow>
   n \<in> (\<Union>m\<in>set ms. acked_slots m) \<and> (\<exists>sc. sidechain_db (active_sidechains db') n = Some sc \<and>
     activation_ok (bh_thresholds bh) h (sidechain_db (active_sidechains db) n) sc)"
proof (induction ms arbitrary: acc db S evs ds)
  case (Cons m ms)
  from Cons.prems(1) obtain ev d acc1 events db1 evs2 ds2 where
    m: "handle_coinbase_message B srt bh db h prev acc m = Inr (ev, d, acc1)"
    and app: "(case d of None \<Rightarrow> Inr db | Some d \<Rightarrow> apply_coinbase_msg h d db) = Inr db1"
    and rest: "messages_loop B srt bh h prev m1s ms acc1 db1 = Inr (acc', evs2, ds2, db')"
    by (auto split: sum.splits prod.splits)
  have allowed: "msgs_allowed ms" using Cons.prems(3) by (simp add: msgs_allowed_def)
  show ?case
  proof (cases d)
    case None
    with Cons.IH [OF rest _ allowed, of S] Cons.prems app show ?thesis by auto
  next
    case (Some x)
    then have ap: "apply_coinbase_msg h x db = Inr db1" using app by simp
    have dj: "acked_slots m \<inter> S = {}" using Cons.prems(4) by simp
    note st = message_step [OF Cons.prems(2,6,5) dj m [unfolded Some] ap]
    note own = message_sidechains [OF Cons.prems(2,6) dj m [unfolded Some] ap, of n]
    have disj: "\<forall>m'\<in>set ms. acked_slots m' \<inter> (acked_slots m \<union> S) = {}"
      using acked_disjoint [OF Cons.prems(3)] Cons.prems(4) by (simp add: Int_Un_distrib)
    note IH = Cons.IH [OF rest st(2) allowed disj Cons.prems(5,6)]
    show ?thesis
    proof (cases "sidechain_db (active_sidechains db1) n = sidechain_db (active_sidechains db) n")
      case True
      then show ?thesis using IH Cons.prems(7) by auto
    next
      case False
      then have "n \<in> acked_slots m" using own by blast
      then have "n \<notin> (\<Union>m'\<in>set ms. acked_slots m')" using disj by blast
      then have "sidechain_db (active_sidechains db') n = sidechain_db (active_sidechains db1) n"
        using IH by blast
      then show ?thesis using own False by auto
    qed
  qed
qed simp

lemma apply_tx_sidechains:
  assumes "apply_tx d a = Inr a'"
  shows "sidechain_db a' = sidechain_db a"
proof (cases d)
  case (DM5 m5)
  have "each_slot put_ctip_slot xs a = Inr a' \<Longrightarrow> sidechain_db a' = sidechain_db a" for xs
    by (induction xs arbitrary: a) (auto simp: put_ctip_slot_Inr put_ctip_Inr split: sum.splits)
  then show ?thesis using DM5 assms by (simp add: apply_m5_def)
next
  case (DM6 m6)
  then show ?thesis using assms
    by (auto simp: apply_m6_def put_ctip_Inr delete_pending_withdrawal_def update_pending_Inr
        split: sum.splits)
qed

lemma apply_txs_sidechains: "apply_all apply_tx ds a = Inr a' \<Longrightarrow> sidechain_db a' = sidechain_db a"
  by (induction ds arbitrary: a) (auto simp: apply_tx_sidechains split: sum.splits)

lemma connect_coinbase_sidechains:
  assumes con: "connect_coinbase B srt bh h prev coinbase db = Inr (acc, evs, cd, db')"
    and wf: "mid_wf bh h {} db" and srt: "votes_sort srt" and age: "max_age (bh_thresholds bh) < 0xFFFF"
    and ne: "sidechain_db (active_sidechains db') n \<noteq> sidechain_db (active_sidechains db) n"
  shows "\<exists>sc. sidechain_db (active_sidechains db') n = Some sc \<and>
     activation_ok (bh_thresholds bh) h (sidechain_db (active_sidechains db) n) sc"
proof -
  from con obtain cm m1s evs1 ds db1 a fm where
    cm: "collect_messages B 0 (tx_output coinbase) coinbase_messages_default [] = Inr (cm, m1s)"
    and loop: "messages_loop B srt bh h prev m1s (map fst (cm_messages cm)) [] db = Inr (acc, evs1, ds, db1)"
    and a: "apply_failed_m6ids fm (active_sidechains db1) = Inr a"
    and db': "active_sidechains db' = a"
    by (auto simp: connect_coinbase_def default_m4_none Let_def split: sum.splits prod.splits)
  have "cm_wf cm" using new_loop_Inr [OF collect_messages_new [OF cm] cm_wf_default] by simp
  then have allowed: "msgs_allowed (map fst (cm_messages cm))" by (simp add: cm_wf_def)
  have "sidechain_db a = sidechain_db (active_sidechains db1)"
    using a by (simp add: apply_failed_m6ids_def apply_failed_slot_step each_pending_sidechains)
  then show ?thesis
    using messages_loop_sidechains [OF loop wf allowed _ srt age, of n] ne db' by simp
qed

text \<open>C14: the sidechain in a slot changes only when a block activates a proposal there. The new
  sidechain has more acknowledgements than the threshold of an unused slot, or of a used one if it
  replaces a sidechain, at most one per block since its proposal, all within the maximal age, and it
  records the height of the block.\<close>

theorem activation_needs_votes:
  assumes con: "connect_block B srt ord bh block db = Inr (ev, db')"
    and wf: "dbs_wf bh db" and ready: "block_ready B db block" and env: "env_ok srt ord bh"
    and ne: "sidechain_db (active_sidechains db') n \<noteq> sidechain_db (active_sidechains db) n"
  shows "\<exists>sc h. sidechain_db (active_sidechains db') n = Some sc \<and> unat h = next_height db \<and>
    activation_ok (bh_thresholds bh) h (sidechain_db (active_sidechains db) n) sc"
proof -
  let ?hash = "b_block_hash B (blk_header block)" and ?prev = "hdr_prev_blockhash (blk_header block)"
  from connect_block_Inr [OF con wf ready env] obtain info db1 b where
    part: "partial_connect_block B srt ord bh block db = Inr (info, db1)"
    and db': "db' = db1\<lparr>block_hashes := b, current_chain_tip := Some ?hash\<rparr>" by metis
  obtain h where h: "hi_height (pc_header_info info) = h" by blast
  note hh = block_height_partial [OF part, unfolded h]
  have k: "unat h = next_height db" using ready hh(1) by (simp add: block_ready_def Let_def)
  obtain coinbase txs where txs: "blk_txdata block = coinbase # txs"
    using part hh(1,4) by (cases "blk_txdata block") (auto simp: partial_connect_block_def Let_def)
  have "\<not> h < bip300_activation_height (bh_params bh)"
  proof
    assume "h < bip300_activation_height (bh_params bh)"
    then have "db1 = db" using part hh txs
      by (auto simp: partial_connect_block_def Let_def empty_block_info_and_diff_def)
    then show False using ne db' by simp
  qed
  with part hh txs obtain acc evs cd db0 uc tevs ds where
    cb: "connect_coinbase B srt bh h ?prev coinbase db = Inr (acc, evs, cd, db0)"
    and tl: "txs_loop B ord bh ?hash ?prev acc txs uc_default {} db0 = Inr (uc, tevs, ds, db1)"
    by (auto simp: partial_connect_block_def Let_def split: sum.splits prod.splits)
  have mid: "mid_wf bh h {} db" using tables_wf_mid wf k by (simp add: dbs_wf_def)
  have srt: "votes_sort srt" and ord: "\<And>xs. mset (ord xs) = mset xs"
    and age: "max_age (bh_thresholds bh) < 0xFFFF" using env by (auto simp: env_ok_def)
  have act: "bip300_activation_height (bh_params bh) \<le> h"
    using \<open>\<not> h < bip300_activation_height (bh_params bh)\<close> by simp
  have "outpoint_table db0 = outpoint_table db" "active_wf (active_sidechains db0)"
    using connect_coinbase_ok(3,5) [OF cb mid act srt age] by (simp_all add: tables_wf_def)
  then have "apply_all apply_tx ds (active_sidechains db0) = Inr (active_sidechains db1)"
    using txs_loop_ok [OF tl _ _ ord] ready txs by (simp add: block_ready_def fresh_txs_def)
  then have "sidechain_db (active_sidechains db1) = sidechain_db (active_sidechains db0)"
    by (rule apply_txs_sidechains)
  then have "sidechain_db (active_sidechains db0) n \<noteq> sidechain_db (active_sidechains db) n"
    "sidechain_db (active_sidechains db') = sidechain_db (active_sidechains db0)" using ne db' by simp_all
  with connect_coinbase_sidechains [OF cb mid srt age, of n] k show ?thesis by auto
qed

lemma handle_failed_m6ids_total:
  assumes "pending_wf (active_sidechains db)"
  shows "\<exists>d. handle_failed_m6ids bh db h = Inr d"
proof -
  have "set ns \<subseteq> dom (sidechain_db a) \<Longrightarrow> pending_wf a \<Longrightarrow> \<exists>d. failed_loop t h a ns = Inr d" for t a ns
    by (induction t h a ns rule: failed_loop.induct)
      (fastforce simp: Let_def pending_wf_def split: option.splits)+
  then show ?thesis using assms numbers_set unfolding handle_failed_m6ids_def by blast
qed

text \<open>A coinbase whose messages are handled is connected: the failures by age cannot fail.\<close>

lemma connect_coinbase_succeeds:
  assumes "collect_messages B 0 (tx_output coinbase) coinbase_messages_default [] = Inr (cm, m1s)"
    and "messages_loop B srt bh h prev m1s (map fst (cm_messages cm)) [] db = Inr (acc, evs, ds, db1)"
    and "pending_wf (active_sidechains db1)"
  shows "\<exists>evs cd db'. connect_coinbase B srt bh h prev coinbase db = Inr (acc, evs, cd, db') \<and>
    sidechain_db (active_sidechains db') = sidechain_db (active_sidechains db1) \<and> same_frame db1 db'"
proof -
  let ?db = "db1\<lparr>proposal_id_to_sidechain := apply_failed_proposals
    (handle_failed_sidechain_proposals bh db1 h) (proposal_id_to_sidechain db1)\<rparr>"
  obtain fm where fm: "handle_failed_m6ids bh ?db h = Inr fm"
    using handle_failed_m6ids_total [of ?db bh h] assms(3) by auto
  have "ok_slots ok_failed fm (active_sidechains db1)"
    using handle_failed_m6ids_ok [OF _ fm] assms(3) by simp
  then obtain a where a: "apply_failed_m6ids fm (active_sidechains db1) = Inr a"
    using failed_bundles.undo_apply by blast
  then have "sidechain_db a = sidechain_db (active_sidechains db1)"
    by (simp add: apply_failed_m6ids_def apply_failed_slot_step each_pending_sidechains)
  then show ?thesis using assms(1,2) fm a
    by (simp add: connect_coinbase_def default_m4_none Let_def same_frame_def)
qed

text \<open>A proposal for slot 6 with five votes, which the acknowledgement in the next block activates.\<close>

definition sample_candidate :: sidechain where
  "sample_candidate = \<lparr>sc_proposal = \<lparr>prop_sidechain_number = 6, prop_description = [7]\<rparr>,
     sc_status = \<lparr>st_vote_count = 5, st_proposal_height = 5, st_activation_height = None\<rparr>\<rparr>"

definition sample_candidate_id :: sidechain_proposal_id where
  "sample_candidate_id = \<lparr>id_sidechain_number = 6, id_description_hash = pad32 [7]\<rparr>"

definition sample_ack :: coinbase_message where
  "sample_ack = M2AckSidechain \<lparr>m2_sidechain_number = 6, m2_description_hash = pad32 [7]\<rparr>"

definition sample_ack_coinbase :: transaction where
  "sample_ack_coinbase = sample_coinbase\<lparr>tx_output := [\<lparr>to_value = 0,
     to_script_pubkey = wire_new_op_return (msg_bytes sample_ack)\<rparr>]\<rparr>"

definition sample_ack_block :: block where
  "sample_ack_block = \<lparr>blk_header = sample_header, blk_txdata = [sample_ack_coinbase]\<rparr>"

definition sample_candidate_chain :: dbs where
  "sample_candidate_chain = sample_chain\<lparr>proposal_id_to_sidechain := [sample_candidate_id \<mapsto> sample_candidate]\<rparr>"

lemma sample_ack_parse:
  "coinbase_message_parse sample_btc (wire_new_op_return (msg_bytes sample_ack)) = Inr ([], sample_ack)"
proof (rule coinbase_message_parse_encoded [OF sample_codec])
  show "msg_wf sample_ack" by (simp add: sample_ack_def)
  show "coinbase_message_to_script sample_btc sample_ack =
      Inr (wire_new_op_return (msg_bytes sample_ack))"
    by (simp add: to_script_msg_bytes op_return_of_def push_bytes_try_from_def sample_ack_def
        m2_message_def M2_TAG_def)
qed

lemma sample_candidate_frame:
  "block_hashes sample_candidate_chain = block_hashes sample_chain"
  "current_chain_tip sample_candidate_chain = current_chain_tip sample_chain"
  "active_sidechains sample_candidate_chain = sample_treasury"
  by (simp_all add: sample_candidate_chain_def)

lemma sample_candidate_wf: "dbs_wf sample_handler sample_candidate_chain"
proof -
  have "next_height sample_candidate_chain = 12" using sample_hash_ne
    by (simp add: next_height_def sample_candidate_frame sample_chain_def)
  moreover have "proposal_end SHORT 12 sample_candidate"
    by (simp add: proposal_end_def sample_candidate_def max_age_def SHORT_def)
  moreover have "diffs_wf (block_hashes sample_chain)"
    by (simp add: diffs_wf_def sample_chain_def block_hash_dbs_empty_def)
  moreover have "current_chain_tip sample_chain \<noteq> Some all_zeros"
    using sample_hash_ne by (simp add: sample_chain_def)
  ultimately show ?thesis using sample_treasury_wf
    by (auto simp: dbs_wf_def tables_wf_def sample_candidate_frame)
      (auto simp: sample_candidate_chain_def split: if_splits)
qed

lemma sample_candidate_ready: "block_ready sample_btc sample_candidate_chain sample_ack_block"
  using sample_hash_ne
  by (simp add: block_ready_def Let_def sample_ack_block_def sample_candidate_frame next_height_def
      fresh_txs_def) (simp add: sample_chain_def sample_candidate_frame)

lemma sample_ack_loop:
  "\<exists>ds db1. messages_loop sample_btc sort_by_votes sample_handler 12 (pad32 [3]) m1s [sample_ack] []
      sample_candidate_chain = Inr ([], [], ds, db1) \<and>
     active_sidechains db1 = put_sidechain sample_treasury 6
       (set_activation_height (Some 12) (set_vote_count 6 sample_candidate)) \<and>
     same_frame sample_candidate_chain db1"
proof -
  let ?d = "\<lparr>asp_id = sample_candidate_id, asp_effect = SlotActivation\<rparr>"
  have look: "proposal_id_to_sidechain sample_candidate_chain sample_candidate_id = Some sample_candidate"
    by (simp add: sample_candidate_chain_def)
  have "sidechain_db sample_treasury 6 = None"
    by (simp add: sample_treasury_def active_dbs_empty_def)
  then have m2: "handle_m2_ack_sidechain sample_handler sample_candidate_chain 12 6 (pad32 [7]) = Some ?d"
    using look [unfolded sample_candidate_id_def]
    by (simp add: handle_m2_ack_sidechain_def Let_def sample_candidate_frame activates_unused_slot_def
        sample_candidate_id_def)
      (simp add: sample_candidate_def SHORT_def saturating_sub_def word_le_nat_alt word_less_nat_alt)
  have "apply_ack_sidechain_proposal ?d 12 sample_candidate_chain = Inr (put_proposal sample_candidate_id
      None (sample_candidate_chain\<lparr>active_sidechains := put_sidechain sample_treasury 6
       (set_activation_height (Some 12) (set_vote_count 6 sample_candidate))\<rparr>))"
    using look by (simp add: apply_ack_sidechain_proposal_def Let_def sample_candidate_frame)
      (simp add: sample_candidate_id_def sample_candidate_def)
  then show ?thesis using m2 by (simp add: sample_ack_def same_frame_def put_proposal_def)
qed

lemma sample_activates:
  "\<exists>ev db'. connect_block sample_btc sort_by_votes id sample_handler sample_ack_block
      sample_candidate_chain = Inr (ev, db') \<and> sidechain_db (active_sidechains db') 6 \<noteq> None"
proof -
  have "\<exists>cm m1s. collect_messages sample_btc 0 (tx_output sample_ack_coinbase) coinbase_messages_default [] =
      Inr (cm, m1s) \<and> map fst (cm_messages cm) = [sample_ack]"
    by (simp add: sample_ack_coinbase_def sample_ack_parse)
      (simp add: sample_ack_def coinbase_messages_default_def cm_append_def)
  then obtain cm m1s where cm: "collect_messages sample_btc 0 (tx_output sample_ack_coinbase)
      coinbase_messages_default [] = Inr (cm, m1s)" "map fst (cm_messages cm) = [sample_ack]" by metis
  from sample_ack_loop [of m1s] obtain ds db1 where
    loop: "messages_loop sample_btc sort_by_votes sample_handler 12 (pad32 [3]) m1s [sample_ack] []
      sample_candidate_chain = Inr ([], [], ds, db1)"
    and act: "active_sidechains db1 = put_sidechain sample_treasury 6
       (set_activation_height (Some 12) (set_vote_count 6 sample_candidate))"
    and fr: "same_frame sample_candidate_chain db1" by blast
  have "pending_wf (active_sidechains db1)"
    using put_sidechain_wf [OF sample_treasury_wf] act by (auto simp: active_wf_def)
  from connect_coinbase_succeeds [OF cm(1) _ this, unfolded cm(2), OF loop] obtain evs cd db2 where
    cb: "connect_coinbase sample_btc sort_by_votes sample_handler 12 (pad32 [3]) sample_ack_coinbase
      sample_candidate_chain = Inr ([], evs, cd, db2)"
    and db2: "sidechain_db (active_sidechains db2) = sidechain_db (active_sidechains db1)"
      "same_frame db1 db2" by blast
  have fr2: "block_hashes db2 = block_hashes sample_chain" "current_chain_tip db2 = Some (pad32 [3])"
    using fr db2(2) by (simp_all add: same_frame_def sample_candidate_frame sample_chain_def)
  have tip: "ensure_tip_is_parent sample_candidate_chain (pad32 [3]) = Inr ()"
    by (simp add: ensure_tip_Inr sample_candidate_frame sample_chain_def)
  have hh: "height_db (block_hashes sample_candidate_chain) sample_hash = Some 12"
    by (simp add: sample_candidate_frame sample_chain_def)
  have prev: "hdr_prev_blockhash sample_header = pad32 [3]" by (simp add: sample_header_def)
  have "\<exists>info. partial_connect_block sample_btc sort_by_votes id sample_handler sample_ack_block
      sample_candidate_chain = Inr (info, db2) \<and>
      hi_block_hash (pc_header_info info) = sample_hash \<and> pc_unconsolidated_ctips info = uc_default"
    using tip hh cb prev
    by (simp add: partial_connect_block_def sample_ack_block_def Let_def word_le_nat_alt)
  then obtain info where info: "partial_connect_block sample_btc sort_by_votes id sample_handler
      sample_ack_block sample_candidate_chain = Inr (info, db2)"
    "hi_block_hash (pc_header_info info) = sample_hash" "pc_unconsolidated_ctips info = uc_default" by blast
  have "\<exists>ev db'. finalize_connect_block sample_btc info db2 = Inr (ev, db') \<and>
      active_sidechains db' = active_sidechains db2"
    using info(2,3) sample_hash_ne prev fr2
    by (simp add: finalize_connect_block_def uc_default_def record_block_def Let_def put_block_info_def
        sample_chain_def)
  then show ?thesis using info(1) act db2(1) by (fastforce simp: connect_block_def)
qed

theorem activation_needs_votes_witness:
  "\<exists>ev db' sc h. connect_block sample_btc sort_by_votes id sample_handler sample_ack_block
      sample_candidate_chain = Inr (ev, db') \<and> sidechain_db (active_sidechains db') 6 = Some sc \<and>
     activation_ok SHORT h None sc"
proof -
  from sample_activates obtain ev db' where con: "connect_block sample_btc sort_by_votes id sample_handler
      sample_ack_block sample_candidate_chain = Inr (ev, db')"
    and ne: "sidechain_db (active_sidechains db') 6 \<noteq> None" by blast
  have none: "sidechain_db (active_sidechains sample_candidate_chain) 6 = None"
    by (simp add: sample_candidate_frame sample_treasury_def active_dbs_empty_def)
  from activation_needs_votes [OF con sample_candidate_wf sample_candidate_ready sample_env, of 6] ne none con
  show ?thesis by auto
qed

section \<open>Failure of proposals\<close>

definition slot_max_age :: "thresholds \<Rightarrow> bool \<Rightarrow> nat" where
  "slot_max_age t used = (if used then unat (withdrawal_bundle_max_age t)
     else unat (unused_sidechain_slot_proposal_max_age t))"

definition slot_threshold :: "thresholds \<Rightarrow> bool \<Rightarrow> nat" where
  "slot_threshold t used = (if used then unat (withdrawal_bundle_inclusion_threshold t)
     else unat (unused_sidechain_slot_activation_threshold t))"

lemma proposal_failed_nat:
  "proposal_failed t h a sc \<longleftrightarrow>
     (let used = (sidechain_db a (prop_sidechain_number (sc_proposal sc)) \<noteq> None);
          A = slot_max_age t used; T = slot_threshold t used;
          age = unat h - unat (st_proposal_height (sc_status sc)) in
      age > A \<or> (age > A - T \<and> age - unat (sc_votes sc) \<ge> A - T))"
  by (simp add: proposal_failed_def Let_def slot_max_age_def slot_threshold_def word_less_nat_alt
      word_le_nat_alt saturating_sub_unat unat_ucast_u16_u32)

text \<open>A proposal is dropped exactly if it is too old, or has had more than the tolerated number
  of blocks and could not collect more than the threshold of votes any more, even if every block up
  to the maximal age acknowledged it. So a proposal that can still be activated is never dropped.\<close>

theorem proposal_failed_iff_hopeless:
  assumes "unat (sc_votes sc) \<le> unat h - unat (st_proposal_height (sc_status sc))"
    and "slot_threshold t (sidechain_db a (prop_sidechain_number (sc_proposal sc)) \<noteq> None) \<le>
      slot_max_age t (sidechain_db a (prop_sidechain_number (sc_proposal sc)) \<noteq> None)"
  shows "proposal_failed t h a sc \<longleftrightarrow>
    (let used = (sidechain_db a (prop_sidechain_number (sc_proposal sc)) \<noteq> None);
         age = unat h - unat (st_proposal_height (sc_status sc)) in
     slot_max_age t used < age \<or>
     (slot_max_age t used - slot_threshold t used < age \<and>
      unat (sc_votes sc) + (slot_max_age t used - age) \<le> slot_threshold t used))"
  using assms unfolding proposal_failed_nat Let_def by linarith

theorem proposal_failed_iff_hopeless_witness:
  "proposal_failed SHORT 12 sample_treasury (set_vote_count 1 sample_candidate)"
proof -
  have none: "sidechain_db sample_treasury 6 = None"
    by (simp add: sample_treasury_def active_dbs_empty_def)
  have sc: "prop_sidechain_number (sc_proposal sample_candidate) = 6"
    "st_proposal_height (sc_status sample_candidate) = 5"
    by (simp_all add: sample_candidate_def)
  have short: "slot_max_age SHORT u = 10" "slot_threshold SHORT u = 5" for u
    by (simp_all add: slot_max_age_def slot_threshold_def SHORT_def)
  show ?thesis
    using proposal_failed_iff_hopeless [of "set_vote_count 1 sample_candidate" 12 SHORT sample_treasury]
    by (simp add: sc none short)
qed

end
