(* ===== verification/Ancestors.thy ===== *)
theory Ancestors
  imports BlockHashes
begin

text \<open>
  What the walks over stored headers in \<open>src/lib/validator/dbs/block_hashes.rs\<close> compute: the
  ancestor relation of the header table, its invariant, the last common ancestor of two blocks,
  and the bounded and unbounded ranges of ancestors.

  The null hash, the parent of the genesis block, counts as an ancestor of every block.
\<close>

section \<open>The ancestor relation\<close>

inductive ancestor :: "block_hash_dbs \<Rightarrow> blockhash \<Rightarrow> blockhash \<Rightarrow> bool" for db where
  self: "ancestor db h h"
| parent: "header_db db h = Some hdr \<Longrightarrow> ancestor db a (hdr_prev_blockhash hdr) \<Longrightarrow> ancestor db a h"

inductive_cases ancestor_cases: "ancestor db a h"

definition known :: "block_hash_dbs \<Rightarrow> blockhash \<Rightarrow> bool" where
  "known db h \<longleftrightarrow> h = all_zeros \<or> header_db db h \<noteq> None"

text \<open>The number of blocks from the null hash to a block.\<close>

definition level :: "block_hash_dbs \<Rightarrow> blockhash \<Rightarrow> nat" where
  "level db h = (if h = all_zeros then 0
     else case height_db db h of Some k \<Rightarrow> unat k + 1 | None \<Rightarrow> 0)"

text \<open>The invariant of the header tables: a header is stored under its hash, which is not the null
  hash; it has a height, and its parent is the null hash at height 0, or stored one height below.\<close>

definition headers_wf :: "btc \<Rightarrow> block_hash_dbs \<Rightarrow> bool" where
  "headers_wf B db \<longleftrightarrow> header_db db all_zeros = None \<and>
     (\<forall>h hdr. header_db db h = Some hdr \<longrightarrow> b_block_hash B hdr = h \<and> height_db db h \<noteq> None \<and>
        known db (hdr_prev_blockhash hdr) \<and> level db h = level db (hdr_prev_blockhash hdr) + 1)"

lemma headers_wfD:
  assumes "headers_wf B db" "header_db db h = Some hdr"
  shows "b_block_hash B hdr = h" "height_db db h \<noteq> None" "known db (hdr_prev_blockhash hdr)"
    "level db h = level db (hdr_prev_blockhash hdr) + 1" "h \<noteq> all_zeros"
  using assms by (auto simp: headers_wf_def)

lemma known_zeros [simp]: "known db all_zeros"
  by (simp add: known_def)

lemma level_zeros [simp]: "level db all_zeros = 0"
  by (simp add: level_def)

lemma level_known:
  assumes "headers_wf B db" "known db h" "h \<noteq> all_zeros"
  obtains hdr k where "header_db db h = Some hdr" "height_db db h = Some k" "level db h = unat k + 1"
  using assms by (fastforce simp: known_def level_def headers_wf_def)

lemma level_eq_0: "headers_wf B db \<Longrightarrow> known db h \<Longrightarrow> level db h = 0 \<longleftrightarrow> h = all_zeros"
  by (metis add_is_0 level_known level_zeros one_neq_zero)

text \<open>A walk never leaves the known blocks, and the level decreases along it.\<close>

lemma ancestor_level:
  assumes "headers_wf B db" "ancestor db a h" "known db h"
  shows "known db a \<and> level db a \<le> level db h \<and> (level db a = level db h \<longrightarrow> a = h)"
  using assms(2,3)
proof (induction rule: ancestor.induct)
  case (parent h hdr a)
  with headers_wfD [OF assms(1) parent(1)] show ?case by force
qed simp

lemma ancestor_trans: "ancestor db b c \<Longrightarrow> ancestor db a b \<Longrightarrow> ancestor db a c"
  by (induction rule: ancestor.induct) (auto intro: ancestor.parent)

text \<open>The ancestors of a block are ordered by their level.\<close>

lemma ancestor_linear:
  assumes "headers_wf B db" "ancestor db b h" "ancestor db a h" "known db h" "level db a \<le> level db b"
  shows "ancestor db a b"
  using assms(2-5)
proof (induction arbitrary: a rule: ancestor.induct)
  case (self h)
  then show ?case by simp
next
  case (parent h hdr b)
  note wf = headers_wfD [OF assms(1) parent.hyps(1)]
  have b: "level db b < level db h"
    using ancestor_level [OF assms(1) parent.hyps(2) wf(3)] wf(4) by simp
  have "ancestor db a (hdr_prev_blockhash hdr)"
    using parent.prems(1)
    by (rule ancestor_cases) (use parent.hyps(1) parent.prems(3) b in auto)
  with parent.IH wf(3) parent.prems(3) show ?case by blast
qed

lemma zeros_ancestor:
  assumes "headers_wf B db" "known db h"
  shows "ancestor db all_zeros h"
  using assms(2)
proof (induction "level db h" arbitrary: h rule: less_induct)
  case less
  show ?case
  proof (cases "h = all_zeros")
    case True
    then show ?thesis by (simp add: ancestor.self)
  next
    case False
    with less.prems obtain hdr where hdr: "header_db db h = Some hdr" by (auto simp: known_def)
    note wf = headers_wfD [OF assms(1) hdr]
    from less.hyps [OF _ wf(3)] wf(4) hdr show ?thesis by (auto intro: ancestor.parent)
  qed
qed

section \<open>The last common ancestor\<close>

lemma skip_ancestors_level:
  assumes "headers_wf B db"
  shows "known db h \<Longrightarrow> k \<le> level db h \<Longrightarrow>
    \<exists>h'. skip_ancestors db h k depth = Inr h' \<and> ancestor db h' h \<and> known db h' \<and>
      level db h' = level db h - k"
proof (induction k arbitrary: h depth)
  case 0
  then show ?case by (simp add: ancestor.self)
next
  case (Suc k)
  then have "h \<noteq> all_zeros" by auto
  with Suc.prems obtain hdr where hdr: "header_db db h = Some hdr" by (auto simp: known_def)
  note wf = headers_wfD [OF assms hdr]
  from Suc.IH [OF wf(3)] Suc.prems(2) wf(4) hdr show ?case
    by (fastforce simp: ancestor_next_def intro: ancestor.parent)
qed

definition last_common :: "block_hash_dbs \<Rightarrow> blockhash \<Rightarrow> blockhash \<Rightarrow> blockhash \<Rightarrow> bool" where
  "last_common db h0 h1 a \<longleftrightarrow> ancestor db a h0 \<and> ancestor db a h1 \<and>
     (\<forall>c. ancestor db c h0 \<longrightarrow> ancestor db c h1 \<longrightarrow> ancestor db c a)"

lemma common_loop_last:
  assumes "headers_wf B db"
  shows "known db h0 \<Longrightarrow> known db h1 \<Longrightarrow> level db h0 = k \<Longrightarrow> level db h1 = k \<Longrightarrow>
    \<exists>a. common_loop db bh0 height0 bh1 height1 h0 h1 ch k = Inr a \<and> last_common db h0 h1 a"
proof (induction k arbitrary: h0 h1 ch)
  case 0
  then have "h0 = all_zeros" "h1 = all_zeros" using level_eq_0 [OF assms] by auto
  then show ?case by (simp add: last_common_def ancestor.self)
next
  case (Suc k)
  from Suc.prems have "h0 \<noteq> all_zeros" "h1 \<noteq> all_zeros" by auto
  with Suc.prems obtain hd0 hd1 where hd: "header_db db h0 = Some hd0" "header_db db h1 = Some hd1"
    by (auto simp: known_def)
  note wf0 = headers_wfD [OF assms hd(1)] and wf1 = headers_wfD [OF assms hd(2)]
  show ?case
  proof (cases "h0 = h1")
    case True
    then show ?thesis using hd by (simp add: ancestor_next_def last_common_def ancestor.self)
  next
    case False
    have c: "ancestor db c (hdr_prev_blockhash hd0) \<and> ancestor db c (hdr_prev_blockhash hd1)"
      if "ancestor db c h0" "ancestor db c h1" for c
    proof -
      have "c \<noteq> h0" using ancestor_level [OF assms that(2) Suc.prems(2)] Suc.prems False by auto
      moreover have "c \<noteq> h1" using ancestor_level [OF assms that(1) Suc.prems(1)] Suc.prems False by auto
      ultimately show ?thesis using that hd by (auto elim: ancestor_cases)
    qed
    from Suc.IH [OF wf0(3) wf1(3), of "ch - 1"] wf0(4) wf1(4) Suc.prems obtain a
      where a: "common_loop db bh0 height0 bh1 height1 (hdr_prev_blockhash hd0)
          (hdr_prev_blockhash hd1) (ch - 1) k = Inr a"
        "last_common db (hdr_prev_blockhash hd0) (hdr_prev_blockhash hd1) a" by auto
    then show ?thesis using hd False c
      by (auto simp: ancestor_next_def last_common_def intro: ancestor.parent)
  qed
qed

lemma last_common_up:
  assumes "headers_wf B db" "last_common db h0 h1 a" "ancestor db h0 b0" "ancestor db h1 b1"
    "known db b0" "known db b1" "level db h0 = min (level db b0) (level db b1)"
    "level db h1 = min (level db b0) (level db b1)"
  shows "last_common db b0 b1 a"
proof -
  have "ancestor db c h0 \<and> ancestor db c h1" if "ancestor db c b0" "ancestor db c b1" for c
    using ancestor_linear [OF assms(1,3) that(1) assms(5)] ancestor_linear [OF assms(1,4) that(2) assms(6)]
      ancestor_level [OF assms(1) that(1) assms(5)] ancestor_level [OF assms(1) that(2) assms(6)] assms(7,8)
    by simp
  then show ?thesis using assms(2-4) by (auto simp: last_common_def intro: ancestor_trans)
qed

lemma last_common_ancestor_total:
  assumes "headers_wf B db" "known db h0" "known db h1"
  shows "\<exists>a. last_common_ancestor db h0 h1 = Inr a \<and> last_common db h0 h1 a"
proof (cases "h0 = h1 \<or> h0 = all_zeros \<or> h1 = all_zeros")
  case True
  have zero: "c = all_zeros" if "ancestor db c all_zeros" for c
    using ancestor_level [OF assms(1) that] level_eq_0 [OF assms(1)] by simp
  from True zero show ?thesis using zeros_ancestor [OF assms(1)] assms(2,3)
    by (auto simp: last_common_ancestor_def last_common_def ancestor.self)
next
  case False
  then have nz: "h0 \<noteq> all_zeros" "h1 \<noteq> all_zeros" by auto
  from level_known [OF assms(1,2) nz(1)] obtain k0 where k0: "height_db db h0 = Some k0" "level db h0 = unat k0 + 1" .
  from level_known [OF assms(1,3) nz(2)] obtain k1 where k1: "height_db db h1 = Some k1" "level db h1 = unat k1 + 1" .
  have "unat k1 - unat k0 \<le> level db h1" "unat k0 - unat k1 \<le> level db h0" using k0 k1 by simp_all
  note skip = skip_ancestors_level [OF assms(1,3) this(1), of 0] skip_ancestors_level [OF assms(1,2) this(2), of 0]
  from skip(1) k1 obtain g1 where
    g1: "skip_ancestors db h1 (unat k1 - unat k0) 0 = Inr g1" "ancestor db g1 h1" "known db g1"
      "level db g1 = unat k1 + 1 - (unat k1 - unat k0)" by auto
  from skip(2) k0 obtain g0 where
    g0: "skip_ancestors db h0 (unat k0 - unat k1) 0 = Inr g0" "ancestor db g0 h0" "known db g0"
      "level db g0 = unat k0 + 1 - (unat k0 - unat k1)" by auto
  have l: "level db g0 = Suc (unat (min k0 k1))" "level db g1 = Suc (unat (min k0 k1))"
    using g0(4) g1(4) by (auto simp: min_def word_le_nat_alt)
  from common_loop_last [OF assms(1) g0(3) g1(3) l] obtain a where
    a: "common_loop db h0 k0 h1 k1 g0 g1 (min k0 k1) (Suc (unat (min k0 k1))) = Inr a" "last_common db g0 g1 a"
    by blast
  have "last_common db h0 h1 a"
    by (rule last_common_up [OF assms(1) a(2) g0(2) g1(2) assms(2,3)])
      (use l k0 k1 in \<open>auto simp: min_def word_le_nat_alt\<close>)
  then show ?thesis using False k0(1) k1(1) g0(1) g1(1) a(1)
    by (simp add: last_common_ancestor_def del: common_loop.simps)
qed

text \<open>Between blocks of the header tables, \<open>last_common_ancestor\<close> always returns, and its
  result is their last common ancestor: an ancestor of both of which every common ancestor is an
  ancestor.\<close>

theorem last_common_ancestor_correct:
  assumes "headers_wf B db" "known db h0" "known db h1"
  shows "\<exists>a. last_common_ancestor db h0 h1 = Inr a \<and> last_common db h0 h1 a"
  using assms by (rule last_common_ancestor_total)

section \<open>Ranges of ancestors\<close>

lemma try_get_header_info_wf:
  assumes "headers_wf B db" "header_db db h = Some hdr"
  obtains k where "try_get_header_info B db h = Inr (Some \<lparr>hi_block_hash = h,
    hi_prev_block_hash = hdr_prev_blockhash hdr, hi_height = k, hi_work = b_work B hdr,
    hi_timestamp = hdr_time hdr\<rparr>)" "height_db db h = Some k"
  using headers_wfD [OF assms] assms(2) by (auto simp: try_get_header_info_def)

text \<open>The blocks of a walk, newest first: each entry is the stored information of the ancestor it
  stands for.\<close>

definition walk_of :: "btc \<Rightarrow> block_hash_dbs \<Rightarrow> blockhash \<Rightarrow> header_info list \<Rightarrow> bool" where
  "walk_of B db h his \<longleftrightarrow> (\<forall>i<length his. skip_ancestors db h i 0 = Inr (hi_block_hash (his ! i)) \<and>
     try_get_header_info B db (hi_block_hash (his ! i)) = Inr (Some (his ! i)))"

lemma skip_ancestors_depth:
  "skip_ancestors db h k depth = Inr h' \<longleftrightarrow> skip_ancestors db h k 0 = Inr h'"
proof (induction k arbitrary: h depth)
  case (Suc k)
  show ?case using Suc [of _ "depth + 1"] Suc [of _ 1] by (auto split: option.splits)
qed simp

lemma walk_of_Cons:
  assumes "try_get_header_info B db h = Inr (Some hi)" "hi_block_hash hi = h"
    "header_db db h = Some hdr" "hi_prev_block_hash hi = hdr_prev_blockhash hdr"
    "walk_of B db (hdr_prev_blockhash hdr) his"
  shows "walk_of B db h (hi # his)"
  unfolding walk_of_def
proof (intro allI impI)
  fix i
  assume "i < length (hi # his)"
  then show "skip_ancestors db h i 0 = Inr (hi_block_hash ((hi # his) ! i)) \<and>
      try_get_header_info B db (hi_block_hash ((hi # his) ! i)) = Inr (Some ((hi # his) ! i))"
    using assms by (cases i) (auto simp: walk_of_def ancestor_next_def skip_ancestors_depth [of _ _ _ 1])
qed

lemma header_infos_loop_walk:
  assumes "headers_wf B db"
  shows "known db h \<Longrightarrow> \<exists>his. header_infos_loop B db n h = Inr his \<and>
    length his = min n (level db h) \<and> walk_of B db h his"
proof (induction n arbitrary: h)
  case 0
  then show ?case by (simp add: walk_of_def)
next
  case (Suc n)
  show ?case
  proof (cases "h = all_zeros")
    case True
    then show ?thesis by (simp add: walk_of_def)
  next
    case False
    with Suc.prems obtain hdr where hdr: "header_db db h = Some hdr" by (auto simp: known_def)
    note wf = headers_wfD [OF assms hdr]
    obtain k where k: "try_get_header_info B db h = Inr (Some \<lparr>hi_block_hash = h,
        hi_prev_block_hash = hdr_prev_blockhash hdr, hi_height = k, hi_work = b_work B hdr,
        hi_timestamp = hdr_time hdr\<rparr>)" by (rule try_get_header_info_wf [OF assms hdr])
    from Suc.IH [OF wf(3)] obtain his where his: "header_infos_loop B db n (hdr_prev_blockhash hdr) = Inr his"
      "length his = min n (level db (hdr_prev_blockhash hdr))" "walk_of B db (hdr_prev_blockhash hdr) his" by blast
    with walk_of_Cons [OF k _ hdr _ his(3)] False k wf(4) show ?thesis by simp
  qed
qed

text \<open>\<open>try_get_header_infos\<close> returns the block itself and its ancestors newest first, each with
  its stored header information: \<open>max_ancestors\<close> of them, or all down to the genesis block if
  there are fewer.\<close>

theorem header_infos_bounded:
  assumes "headers_wf B db" "header_db db h \<noteq> None"
  shows "\<exists>his. try_get_header_infos B db h max_ancestors = Inr (Some his) \<and>
    length his = min (max_ancestors + 1) (level db h) \<and> walk_of B db h his"
proof -
  from assms(2) obtain hdr where hdr: "header_db db h = Some hdr" by blast
  note wf = headers_wfD [OF assms(1) hdr]
  obtain k where k: "try_get_header_info B db h = Inr (Some \<lparr>hi_block_hash = h,
      hi_prev_block_hash = hdr_prev_blockhash hdr, hi_height = k, hi_work = b_work B hdr,
      hi_timestamp = hdr_time hdr\<rparr>)" by (rule try_get_header_info_wf [OF assms(1) hdr])
  from header_infos_loop_walk [OF assms(1) wf(3), of max_ancestors] obtain his
    where his: "header_infos_loop B db max_ancestors (hdr_prev_blockhash hdr) = Inr his"
      "length his = min max_ancestors (level db (hdr_prev_blockhash hdr))"
      "walk_of B db (hdr_prev_blockhash hdr) his" by blast
  with walk_of_Cons [OF k _ hdr _ his(3)] k wf(4) show ?thesis by (simp add: try_get_header_infos_def)
qed

text \<open>The data of the blocks after \<open>s\<close> up to and including \<open>h\<close>, oldest first.\<close>

inductive peg_path :: "btc \<Rightarrow> block_hash_dbs \<Rightarrow> blockhash \<Rightarrow> two_way_peg_data list \<Rightarrow> blockhash \<Rightarrow> bool"
  for B db s where
  here: "peg_path B db s [] s"
| snoc: "try_get_two_way_peg_data B db h = Inr (Some d) \<Longrightarrow>
    peg_path B db s ds (hi_prev_block_hash (twp_header_info d)) \<Longrightarrow> peg_path B db s (ds @ [d]) h"

definition connected_below :: "block_hash_dbs \<Rightarrow> blockhash \<Rightarrow> bool" where
  "connected_below db h \<longleftrightarrow>
     (\<forall>a. ancestor db a h \<longrightarrow> a \<noteq> all_zeros \<longrightarrow> (\<exists>bi. try_get_block_info db a = Inr (Some bi)))"

lemma connected_below_parent:
  "connected_below db h \<Longrightarrow> header_db db h = Some hdr \<Longrightarrow> connected_below db (hdr_prev_blockhash hdr)"
  by (auto simp: connected_below_def intro: ancestor.parent)

lemma peg_data_connected:
  assumes "headers_wf B db" "header_db db h = Some hdr" "connected_below db h"
  obtains d where "try_get_two_way_peg_data B db h = Inr (Some d)"
    "hi_prev_block_hash (twp_header_info d) = hdr_prev_blockhash hdr"
proof -
  have "h \<noteq> all_zeros" by (rule headers_wfD(5) [OF assms(1,2)])
  with assms(3) obtain bi where bi: "try_get_block_info db h = Inr (Some bi)"
    by (auto simp: connected_below_def intro: ancestor.self)
  obtain k where k: "try_get_header_info B db h = Inr (Some \<lparr>hi_block_hash = h,
      hi_prev_block_hash = hdr_prev_blockhash hdr, hi_height = k, hi_work = b_work B hdr,
      hi_timestamp = hdr_time hdr\<rparr>)" by (rule try_get_header_info_wf [OF assms(1,2)])
  show thesis by (rule that) (use bi k in \<open>auto simp: try_get_two_way_peg_data_def\<close>)
qed

text \<open>The block a range starts after: the null hash if none is given.\<close>

definition range_start :: "blockhash option \<Rightarrow> blockhash" where
  "range_start start = (case start of None \<Rightarrow> all_zeros | Some s \<Rightarrow> s)"

lemma peg_range_loop_path:
  assumes "headers_wf B db" "known db h" "connected_below db h" "ancestor db (range_start start) h"
  shows "\<exists>ds. peg_range_loop B db start e p h res = Some (Inr (ds @ rev res)) \<and>
    peg_path B db (range_start start) ds h"
  using assms(2-4)
proof (induction "level db h" arbitrary: h p res rule: less_induct)
  case less
  show ?case
  proof (cases "h = range_start start")
    case True
    then show ?thesis
      by (subst peg_range_loop.simps) (auto simp: range_start_def peg_path.here split: option.splits)
  next
    case False
    from False less.prems(3) obtain hdr where hdr: "header_db db h = Some hdr"
      and a: "ancestor db (range_start start) (hdr_prev_blockhash hdr)"
      by (auto elim: ancestor_cases)
    note wf = headers_wfD [OF assms(1) hdr]
    obtain d where d: "try_get_two_way_peg_data B db h = Inr (Some d)"
      "hi_prev_block_hash (twp_header_info d) = hdr_prev_blockhash hdr"
      by (rule peg_data_connected [OF assms(1) hdr less.prems(2)])
    from less.hyps [OF _ wf(3) connected_below_parent [OF less.prems(2) hdr] a] wf(4)
    obtain ds where ds: "peg_range_loop B db start e h (hdr_prev_blockhash hdr) (res @ [d]) =
        Some (Inr (ds @ rev (res @ [d])))" "peg_path B db (range_start start) ds (hdr_prev_blockhash hdr)"
      by fastforce
    have "Some h \<noteq> start" using False by (auto simp: range_start_def)
    with wf(5) d ds(1) have "peg_range_loop B db start e p h res = Some (Inr ((ds @ [d]) @ rev res))"
      by (subst peg_range_loop.simps) simp
    moreover have "peg_path B db (range_start start) (ds @ [d]) h"
      using d ds(2) by (auto intro: peg_path.snoc)
    ultimately show ?thesis by blast
  qed
qed

lemma peg_range_loop_misses:
  assumes "headers_wf B db" "known db h" "connected_below db h" "\<not> ancestor db s h"
  shows "peg_range_loop B db (Some s) e p h res = Some (Inl (StartBlockNotAncestor s e))"
  using assms(2-4)
proof (induction "level db h" arbitrary: h p res rule: less_induct)
  case less
  have s: "h \<noteq> s" using less.prems(3) by (auto intro: ancestor.self)
  show ?case
  proof (cases "h = all_zeros")
    case True
    with s show ?thesis by (subst peg_range_loop.simps) simp
  next
    case False
    with less.prems(1) obtain hdr where hdr: "header_db db h = Some hdr" by (auto simp: known_def)
    note wf = headers_wfD [OF assms(1) hdr]
    obtain d where d: "try_get_two_way_peg_data B db h = Inr (Some d)"
      "hi_prev_block_hash (twp_header_info d) = hdr_prev_blockhash hdr"
      by (rule peg_data_connected [OF assms(1) hdr less.prems(2)])
    have "\<not> ancestor db s (hdr_prev_blockhash hdr)"
      using less.prems(3) hdr by (auto intro: ancestor.parent)
    from less.hyps [OF _ wf(3) connected_below_parent [OF less.prems(2) hdr] this] wf(4)
    show ?thesis using s False d by (subst peg_range_loop.simps) simp
  qed
qed

text \<open>\<open>get_two_way_peg_data_range\<close> returns on a connected chain: the data of every block after
  the start block up to the end block, oldest first (the end block alone if it is the start
  block, everything since the genesis block without a start block), and the error
  \<open>StartBlockNotAncestor\<close> if the start block is not an ancestor of the end block.\<close>

theorem peg_range_terminates:
  assumes "headers_wf B db" "header_db db e \<noteq> None" "connected_below db e"
  shows "if ancestor db (range_start start) e
    then \<exists>ds. get_two_way_peg_data_range B db start e = Some (Inr ds) \<and>
      (if start = Some e then \<exists>d. ds = [d] \<and> try_get_two_way_peg_data B db e = Inr (Some d)
       else peg_path B db (range_start start) ds e)
    else \<exists>s. start = Some s \<and> get_two_way_peg_data_range B db start e = Some (Inl (StartBlockNotAncestor s e))"
proof -
  from assms(2) obtain hdr where hdr: "header_db db e = Some hdr" by blast
  note wf = headers_wfD [OF assms(1) hdr]
  note below = connected_below_parent [OF assms(3) hdr]
  obtain d where d: "try_get_two_way_peg_data B db e = Inr (Some d)"
    "hi_prev_block_hash (twp_header_info d) = hdr_prev_blockhash hdr"
    by (rule peg_data_connected [OF assms(1) hdr assms(3)])
  consider (eq) "start = Some e" | (anc) "start \<noteq> Some e" "ancestor db (range_start start) e"
    | (not) "\<not> ancestor db (range_start start) e" by blast
  then show ?thesis
  proof cases
    case eq
    then show ?thesis using d by (simp add: get_two_way_peg_data_range_def range_start_def ancestor.self)
  next
    case anc
    then have "range_start start \<noteq> e" using wf(5) by (auto simp: range_start_def split: option.splits)
    with anc(2) hdr have "ancestor db (range_start start) (hdr_prev_blockhash hdr)"
      by (auto elim: ancestor_cases)
    from peg_range_loop_path [OF assms(1) wf(3) below this, of e e "[d]"] anc(1) anc(2) d
    show ?thesis by (force simp: get_two_way_peg_data_range_def intro: peg_path.snoc)
  next
    case not
    with zeros_ancestor [OF assms(1)] hdr obtain s where s: "start = Some s"
      by (auto simp: range_start_def known_def split: option.splits)
    with not hdr have "\<not> ancestor db s (hdr_prev_blockhash hdr)" "s \<noteq> e"
      by (auto simp: range_start_def intro: ancestor.intros)
    with peg_range_loop_misses [OF assms(1) wf(3) below this(1), of e e "[d]"] s d not
    show ?thesis by (simp add: get_two_way_peg_data_range_def)
  qed
qed

text \<open>Two blocks with the genesis block as parent.\<close>

definition fork_header :: "u32 \<Rightarrow> blockhash \<Rightarrow> header" where
  "fork_header nonce prev = \<lparr>hdr_version = 1, hdr_prev_blockhash = prev, hdr_merkle_root = [],
     hdr_time = 0, hdr_bits = 0, hdr_nonce = nonce\<rparr>"

definition fork_tables :: block_hash_dbs where
  "fork_tables = block_hash_dbs_empty\<lparr>
     header_db := [pad32 [1] \<mapsto> fork_header 1 all_zeros, pad32 [2] \<mapsto> fork_header 2 (pad32 [1]),
       pad32 [3] \<mapsto> fork_header 3 (pad32 [1])],
     height_db := [pad32 [1] \<mapsto> 0, pad32 [2] \<mapsto> 1, pad32 [3] \<mapsto> 1],
     bmm_commitments_db := (\<lambda>_. Some []), coinbase_txid_db := (\<lambda>_. Some all_zeros),
     events_db := (\<lambda>_. Some [])\<rparr>"

lemma fork_headers:
  "header_db fork_tables = [pad32 [1] \<mapsto> fork_header 1 all_zeros,
     pad32 [2] \<mapsto> fork_header 2 (pad32 [1]), pad32 [3] \<mapsto> fork_header 3 (pad32 [1])]"
  "height_db fork_tables = [pad32 [1] \<mapsto> 0, pad32 [2] \<mapsto> 1, pad32 [3] \<mapsto> 1]"
  by (simp_all add: fork_tables_def)

lemma fork_wf: "headers_wf sample_btc fork_tables"
  using pad32_nonzero [of 1] pad32_nonzero [of 2] pad32_nonzero [of 3]
  by (auto simp: headers_wf_def fork_headers fork_header_def known_def level_def split: if_splits)

lemma fork_connected: "connected_below fork_tables h"
  by (simp add: connected_below_def try_get_block_info_def fork_tables_def)

theorem last_common_ancestor_correct_witness:
  "\<exists>a. last_common_ancestor fork_tables (pad32 [2]) (pad32 [3]) = Inr a \<and>
     last_common fork_tables (pad32 [2]) (pad32 [3]) a"
  by (rule last_common_ancestor_correct [OF fork_wf]) (simp_all add: known_def fork_headers)

theorem header_infos_bounded_witness:
  "\<exists>his. try_get_header_infos sample_btc fork_tables (pad32 [2]) 7 = Inr (Some his) \<and>
     length his = 2 \<and> walk_of sample_btc fork_tables (pad32 [2]) his"
  using header_infos_bounded [OF fork_wf, of "pad32 [2]" 7] pad32_nonzero [of 2]
  by (simp add: fork_headers level_def numeral_2_eq_2)

theorem peg_range_terminates_witness:
  "\<exists>ds. get_two_way_peg_data_range sample_btc fork_tables None (pad32 [2]) = Some (Inr ds) \<and>
     peg_path sample_btc fork_tables all_zeros ds (pad32 [2])"
  using peg_range_terminates [OF fork_wf _ fork_connected, of "pad32 [2]" None]
    zeros_ancestor [OF fork_wf, of "pad32 [2]"]
  by (simp add: fork_headers range_start_def known_def)

end
