(* ===== verification/HeaderSync.thy ===== *)
theory HeaderSync
  imports Connect Ancestors
begin

text \<open>
  Header synchronisation, \<open>src/lib/validator/task/mod.rs\<close>: the binary search
  \<open>fetch_best_ancestor\<close>, the check \<open>validate_rpc_header_batch\<close> of a batch of headers and the
  loop \<open>sync_headers\<close>; the REST decoder of \<open>src/lib/validator/main_rest_client.rs\<close>; and the
  errors of \<open>src/lib/validator/task/error.rs\<close>.

  The node is a record of its answers. They may change while a loop runs, so every answer takes
  the number of the iteration that asks. The decoders of the \<open>bitcoin\<close> crate are fields too.
  Headers are committed batch by batch, so a result carries the tables also when it is an error.
\<close>

section \<open>Errors\<close>

datatype rest_error =
    RestRequest
  | InvalidBlockHash
  | InvalidBlockHeadersLength nat
  | BlockHeaderDecode nat
  | BlockHeaderHeightOverflow u32 nat

datatype sync_error =
    BatchJsonRpc "string list"
  | SE_BlockDirectoryParser
  | SE_BlockFileParserSetOffset
  | SE_FetchBlockIndex
  | SE_ParseBlockFiles
  | BlockNotInActiveChain blockhash
  | SE_ConnectBlock connect_block_error
  | SE_Db fault
  | SE_Decode
  | SE_DeserializeHex
  | SE_DisconnectBlock disconnect_block_error
  | SE_GetHeaderInfo get_header_info_error
  | HeaderSyncInProgress
  | SE_Hex
  | JsonRpc string
  | SE_LastCommonAncestor last_common_ancestor_error
  | SE_MissingBackgroundChainstate
  | SE_Rest rest_error
  | Shutdown
  | SnapshotBaseHeaderUnknown blockhash
  | SE_Panic

text \<open>The \<open>fatal\<close> attributes of \<open>error::Sync\<close>.\<close>

fun sync_fatal :: "sync_error \<Rightarrow> bool" where
  "sync_fatal (SE_ConnectBlock e) = connect_fatal e"
| "sync_fatal SE_Decode = False"
| "sync_fatal SE_DeserializeHex = False"
| "sync_fatal HeaderSyncInProgress = False"
| "sync_fatal SE_Hex = False"
| "sync_fatal _ = True"

section \<open>The node\<close>

text \<open>The answer to a JSON-RPC batch: a transport error, the errors of single requests, or all
  results. A field of type \<open>nat \<Rightarrow> \<dots>\<close> takes the iteration that asks.\<close>

type_synonym 'a batch_answer = "unit + (string list + 'a list)"

record chainstate_info =
  cs_blocks :: "u32 option"
  cs_snapshot_blockhash :: "blockhash option"
  cs_validated :: "bool option"

record node =
  n_height_of :: "blockhash \<Rightarrow> unit + u32"
  n_getblockhash :: "nat \<Rightarrow> u32 \<Rightarrow> unit + blockhash"
  n_hash_batch :: "nat \<Rightarrow> u32 list \<Rightarrow> blockhash batch_answer"
  n_header_batch :: "nat \<Rightarrow> blockhash list \<Rightarrow> string batch_answer"
  n_rest_headers :: "(nat \<Rightarrow> blockhash \<Rightarrow> nat \<Rightarrow> unit + bytes) option"
  n_block_batch :: "nat \<Rightarrow> blockhash list \<Rightarrow> string batch_answer"
  n_chainstates :: "nat \<Rightarrow> unit + chainstate_info list"
  n_cancelled :: "nat \<Rightarrow> bool"
  n_cancelled_waiting :: "nat \<Rightarrow> bool"
  d_header_hex :: "string \<Rightarrow> header option"
  d_header :: "bytes \<Rightarrow> header option"
  d_hex :: "string \<Rightarrow> bytes option"
  d_block :: "bytes \<Rightarrow> block option"

section \<open>The best known ancestor\<close>

text \<open>\<open>u32::midpoint\<close> rounds down and does not overflow.\<close>

definition midpoint :: "u32 \<Rightarrow> u32 \<Rightarrow> u32" where
  "midpoint a b = of_nat ((unat a + unat b) div 2)"

lemma unat_midpoint: "unat (midpoint a b) = (unat a + unat b) div 2"
proof -
  have "unat a < 2 ^ 32" "unat b < 2 ^ 32" using unat_less_power [of a] unat_less_power [of b] by simp_all
  then have "(unat a + unat b) div 2 < 2 ^ 32" by simp
  then show ?thesis by (simp add: midpoint_def unat_of_nat)
qed

text \<open>The measure of the binary search: the distance between its two ends shrinks, or the search gets its first known ancestor.\<close>

definition search_gap :: "(blockhash \<times> u32) option \<Rightarrow> u32 \<Rightarrow> nat" where
  "search_gap best oldest = (case best of
     None \<Rightarrow> 2 * unat oldest + 1
   | Some (_, k) \<Rightarrow> 2 * ((unat oldest - unat k) + (unat k - unat oldest)))"

lemma search_gap_decreases:
  assumes "mid = midpoint oldest (case map_option snd best of Some k \<Rightarrow> k | None \<Rightarrow> 0)"
    "Some mid \<noteq> map_option snd best" "mid \<noteq> oldest"
  shows "search_gap (Some (h, mid)) oldest < search_gap best oldest"
    "search_gap best mid < search_gap best oldest"
proof -
  have m: "unat mid = (unat oldest + (case best of Some (_, k) \<Rightarrow> unat k | None \<Rightarrow> 0)) div 2"
    using assms(1) by (auto simp: unat_midpoint split: option.splits)
  have ne: "unat mid \<noteq> unat oldest" using assms(3) by (simp add: word_unat_eq_iff)
  show "search_gap (Some (h, mid)) oldest < search_gap best oldest"
       "search_gap best mid < search_gap best oldest"
    using m ne assms(2) by (cases best; force simp: search_gap_def word_unat_eq_iff [of mid])+
qed

function best_ancestor_loop :: "node \<Rightarrow> block_hash_dbs \<Rightarrow> nat \<Rightarrow> (blockhash \<times> u32) option \<Rightarrow> u32 \<Rightarrow>
    sync_error + (blockhash \<times> u32) option" where
  "best_ancestor_loop node db t best oldest =
     (let best_height = map_option snd best;
          mid = midpoint oldest (case best_height of Some k \<Rightarrow> k | None \<Rightarrow> 0)
      in if Some mid = best_height \<or> mid = oldest then Inr best
         else case n_getblockhash node t mid of
           Inl _ \<Rightarrow> Inl (JsonRpc ''getblockhash'')
         | Inr h \<Rightarrow>
             if contains_header db h then best_ancestor_loop node db (t + 1) (Some (h, mid)) oldest
             else best_ancestor_loop node db (t + 1) best mid)"
  by pat_completeness auto

termination
  by (relation "measure (\<lambda>(node, db, t, best, oldest). search_gap best oldest)")
    (auto simp: search_gap_decreases simp del: search_gap_def)

definition fetch_best_ancestor :: "node \<Rightarrow> block_hash_dbs \<Rightarrow> blockhash \<Rightarrow> u32 \<Rightarrow>
    sync_error + (blockhash \<times> u32) option" where
  "fetch_best_ancestor node db node_tip node_tip_height =
     (if node_tip = all_zeros then Inr None
      else if contains_header db node_tip then Inr (Some (node_tip, node_tip_height))
      else best_ancestor_loop node db 0 None node_tip_height)"

declare best_ancestor_loop.simps [simp del]

text \<open>The loop on a chain of which the enforcer has the headers below height \<open>k\<close>.\<close>

lemma best_ancestor_loop_boundary:
  assumes "\<And>t i. unat i < n \<Longrightarrow> n_getblockhash node t i = Inr (chain (unat i))"
    and "\<And>i. i < n \<Longrightarrow> contains_header db (chain i) \<longleftrightarrow> i < k"
    and "k \<le> unat oldest" "unat oldest \<le> n"
    and "case best of None \<Rightarrow> True | Some (h, i) \<Rightarrow> unat i < k \<and> h = chain (unat i)"
  shows "best_ancestor_loop node db t best oldest =
      Inr (if k = 0 then None else Some (chain (k - 1), of_nat (k - 1)))"
  using assms
proof (induction node db t best oldest rule: best_ancestor_loop.induct)
  case (1 node db t best oldest)
  let ?mid = "midpoint oldest (case map_option snd best of Some k \<Rightarrow> k | None \<Rightarrow> 0)"
  have m: "unat ?mid = (unat oldest + (case best of Some (_, k) \<Rightarrow> unat k | None \<Rightarrow> 0)) div 2"
    by (auto simp: unat_midpoint split: option.splits)
  show ?case
  proof (cases "Some ?mid = map_option snd best \<or> ?mid = oldest")
    case True
    have "best = (if k = 0 then None else Some (chain (k - 1), of_nat (k - 1)))"
    proof (cases best)
      case None
      with True m have "unat oldest = 0" by (simp add: word_unat_eq_iff [of _ oldest])
      with None "1.prems"(3) show ?thesis by simp
    next
      case (Some p)
      then obtain h i where p: "best = Some (h, i)" by (cases p) simp
      with True m have "(unat oldest + unat i) div 2 = unat i \<or> (unat oldest + unat i) div 2 = unat oldest"
        by (auto simp: word_unat_eq_iff)
      with "1.prems"(3,5) p have "k = unat i + 1" by auto
      with p "1.prems"(5) show ?thesis by simp
    qed
    with True show ?thesis by (subst best_ancestor_loop.simps) (simp add: Let_def)
  next
    case False
    then have ne: "unat ?mid \<noteq> unat oldest" by (simp add: word_unat_eq_iff)
    with m "1.prems"(3,5) have lt: "unat ?mid < unat oldest"
      by (auto split: option.splits)
    with "1.prems"(1,2,4) have h: "n_getblockhash node t ?mid = Inr (chain (unat ?mid))"
      "contains_header db (chain (unat ?mid)) \<longleftrightarrow> unat ?mid < k" by simp_all
    show ?thesis
    proof (cases "unat ?mid < k")
      case True
      have "best_ancestor_loop node db (t + 1) (Some (chain (unat ?mid), ?mid)) oldest =
          Inr (if k = 0 then None else Some (chain (k - 1), of_nat (k - 1)))"
        by (rule "1.IH"(1) [OF refl refl _ h(1)]) (use "1.prems" False True h in simp_all)
      then show ?thesis using False True h by (subst best_ancestor_loop.simps) (simp add: Let_def)
    next
      case out: False
      have "best_ancestor_loop node db (t + 1) best ?mid =
          Inr (if k = 0 then None else Some (chain (k - 1), of_nat (k - 1)))"
        by (rule "1.IH"(2) [OF refl refl _ h(1)]) (use "1.prems" False out h lt in simp_all)
      then show ?thesis using False out h by (subst best_ancestor_loop.simps) (simp add: Let_def)
    qed
  qed
qed

text \<open>C19: the binary search finds the boundary. On an active chain \<open>chain\<close> of which the
  enforcer has exactly the headers below height \<open>k\<close>, the search returns the last of them with its
  height, and nothing if it has none.\<close>

theorem fetch_best_ancestor_correct:
  assumes "\<And>t i. unat i \<le> unat tip_height \<Longrightarrow> n_getblockhash node t i = Inr (chain (unat i))"
    and "\<And>i. i \<le> unat tip_height \<Longrightarrow> contains_header db (chain i) \<longleftrightarrow> i < k"
    and "k \<le> unat tip_height + 1" "chain (unat tip_height) \<noteq> all_zeros"
  shows "fetch_best_ancestor node db (chain (unat tip_height)) tip_height =
    Inr (if k = 0 then None else Some (chain (k - 1), of_nat (k - 1)))"
proof (cases "k = unat tip_height + 1")
  case True
  then show ?thesis using assms(2) [of "unat tip_height"] assms(4) by (simp add: fetch_best_ancestor_def)
next
  case False
  then have "k \<le> unat tip_height" using assms(3) by simp
  with best_ancestor_loop_boundary [of "unat tip_height" node chain db k tip_height None 0]
    assms(1,2) assms(2) [of "unat tip_height"] assms(4)
  show ?thesis by (simp add: fetch_best_ancestor_def)
qed

text \<open>What the search returns in general: a known header the node reported for the height, below
  the tip; or the tip itself.\<close>

lemma best_ancestor_loop_found:
  assumes "best_ancestor_loop node db t best oldest = Inr (Some (h, i))"
    and "case best of None \<Rightarrow> True | Some (h, i) \<Rightarrow> contains_header db h \<and> i < oldest \<and>
      (\<exists>t. n_getblockhash node t i = Inr h)"
  shows "contains_header db h \<and> i < oldest \<and> (\<exists>t. n_getblockhash node t i = Inr h)"
  using assms
proof (induction node db t best oldest rule: best_ancestor_loop.induct)
  case (1 node db t best oldest)
  let ?mid = "midpoint oldest (case map_option snd best of Some k \<Rightarrow> k | None \<Rightarrow> 0)"
  have m: "unat ?mid = (unat oldest + (case best of Some (_, k) \<Rightarrow> unat k | None \<Rightarrow> 0)) div 2"
    by (auto simp: unat_midpoint split: option.splits)
  show ?case
  proof (cases "Some ?mid = map_option snd best \<or> ?mid = oldest")
    case True
    with "1.prems" show ?thesis by (subst (asm) best_ancestor_loop.simps) (simp add: Let_def)
  next
    case False
    then have ne: "unat ?mid \<noteq> unat oldest" "\<And>h i. best = Some (h, i) \<Longrightarrow> unat ?mid \<noteq> unat i"
      by (auto simp: word_unat_eq_iff)
    with m "1.prems"(2) have lt: "?mid < oldest" "\<And>h i. best = Some (h, i) \<Longrightarrow> i < ?mid"
      by (auto simp: word_less_nat_alt split: option.splits)
    from False "1.prems"(1) obtain g where g: "n_getblockhash node t ?mid = Inr g"
      by (subst (asm) best_ancestor_loop.simps) (auto simp: Let_def split: sum.splits)
    show ?thesis
    proof (cases "contains_header db g")
      case True
      with False g "1.prems"(1) have "best_ancestor_loop node db (t + 1) (Some (g, ?mid)) oldest = Inr (Some (h, i))"
        by (subst (asm) best_ancestor_loop.simps) (simp add: Let_def)
      from "1.IH"(1) [OF refl refl False g True this] show ?thesis using lt(1) g True by auto
    next
      case out: False
      with False g "1.prems"(1) have r: "best_ancestor_loop node db (t + 1) best ?mid = Inr (Some (h, i))"
        by (subst (asm) best_ancestor_loop.simps) (simp add: Let_def)
      have "case best of None \<Rightarrow> True | Some (h, i) \<Rightarrow> contains_header db h \<and> i < ?mid \<and>
          (\<exists>t. n_getblockhash node t i = Inr h)"
        using lt(2) "1.prems"(2) by (auto split: option.splits)
      from "1.IH"(2) [OF refl refl False g out r this] lt(1) show ?thesis by (metis less_trans)
    qed
  qed
qed

section \<open>Batches of headers\<close>

type_synonym header_batch = "(header \<times> blockhash \<times> u32) list"

text \<open>The height of the header at an offset, if offset and height fit in 32 bits.\<close>

definition offset_height :: "u32 \<Rightarrow> nat \<Rightarrow> u32 option" where
  "offset_height start_height offset =
     (if offset < 2 ^ 32 then checked_add start_height (of_nat offset) else None)"

lemma offset_height_Some: "offset_height start offset = Some k \<longleftrightarrow> unat k = unat start + offset"
proof -
  have "offset < 2 ^ 32" if "unat k = unat start + offset" using unat_less_power [of k] that by simp
  moreover have "unat start + offset < 2 ^ 32" if "unat k = unat start + offset"
    using unat_less_power [of k] that by simp
  ultimately show ?thesis
    by (auto simp: offset_height_def checked_add_def unat_of_nat word_unat_eq_iff unat_add_lem [THEN iffD1])
qed

text \<open>\<open>decode_block_headers\<close>: \<open>chunks_exact(80)\<close> on a length that is a multiple of 80.\<close>

function chunks80 :: "bytes \<Rightarrow> bytes list" where
  "chunks80 bs = (if length bs < 80 then [] else take 80 bs # chunks80 (drop 80 bs))"
  by pat_completeness auto
termination by (relation "measure length") auto

declare chunks80.simps [simp del]

fun decode_chunks :: "btc \<Rightarrow> node \<Rightarrow> u32 \<Rightarrow> nat \<Rightarrow> bytes list \<Rightarrow> rest_error + header_batch" where
  "decode_chunks B node start_height offset [] = Inr []"
| "decode_chunks B node start_height offset (bytes # chunks) =
     (case d_header node bytes of
        None \<Rightarrow> Inl (BlockHeaderDecode offset)
      | Some hdr \<Rightarrow>
     (case offset_height start_height offset of
        None \<Rightarrow> Inl (BlockHeaderHeightOverflow start_height offset)
      | Some height \<Rightarrow>
     (case decode_chunks B node start_height (offset + 1) chunks of
        Inl e \<Rightarrow> Inl e
      | Inr headers \<Rightarrow> Inr ((hdr, b_block_hash B hdr, height) # headers))))"

definition decode_block_headers :: "btc \<Rightarrow> node \<Rightarrow> bytes \<Rightarrow> u32 \<Rightarrow> rest_error + header_batch" where
  "decode_block_headers B node bytes start_height =
     (if length bytes mod 80 \<noteq> 0 then Inl (InvalidBlockHeadersLength (length bytes))
      else decode_chunks B node start_height 0 (chunks80 bytes))"

definition get_block_headers :: "btc \<Rightarrow> node \<Rightarrow> (nat \<Rightarrow> blockhash \<Rightarrow> nat \<Rightarrow> unit + bytes) \<Rightarrow> nat \<Rightarrow>
    blockhash \<Rightarrow> u32 \<Rightarrow> nat \<Rightarrow> rest_error + header_batch" where
  "get_block_headers B node rest t block_hash start_height descendants =
     (case rest t block_hash descendants of
        Inl _ \<Rightarrow> Inl RestRequest
      | Inr bytes \<Rightarrow>
     (case decode_block_headers B node bytes start_height of
        Inl e \<Rightarrow> Inl e
      | Inr headers \<Rightarrow>
          (case headers of
             (_, returned_hash, _) # _ \<Rightarrow>
               if returned_hash \<noteq> block_hash then Inl InvalidBlockHash else Inr headers
           | [] \<Rightarrow> Inr headers)))"

text \<open>The loop of \<open>validate_rpc_header_batch\<close> over the zipped batches; the two \<open>expect\<close>s are
  \<open>SE_Panic\<close>.\<close>

fun validate_loop :: "btc \<Rightarrow> node \<Rightarrow> u32 \<Rightarrow> nat \<Rightarrow> blockhash option \<Rightarrow> (blockhash \<times> string) list \<Rightarrow>
    sync_error + header_batch" where
  "validate_loop B node start_height offset previous [] = Inr []"
| "validate_loop B node start_height offset previous ((block_hash, raw_header) # rest) =
     (case offset_height start_height offset of
        None \<Rightarrow> Inl SE_Panic
      | Some expected_height \<Rightarrow>
     (case d_header_hex node raw_header of
        None \<Rightarrow> Inl SE_DeserializeHex
      | Some hdr \<Rightarrow>
          if b_block_hash B hdr \<noteq> block_hash \<or>
             (\<exists>p\<in>set_option previous. hdr_prev_blockhash hdr \<noteq> p)
          then Inl (BlockNotInActiveChain block_hash)
          else (case validate_loop B node start_height (offset + 1) (Some block_hash) rest of
             Inl e \<Rightarrow> Inl e
           | Inr validated \<Rightarrow> Inr ((hdr, block_hash, expected_height) # validated))))"

definition validate_rpc_header_batch :: "btc \<Rightarrow> node \<Rightarrow> blockhash \<Rightarrow> u32 \<Rightarrow> blockhash list \<Rightarrow> string list \<Rightarrow>
    sync_error + header_batch" where
  "validate_rpc_header_batch B node start_block_hash start_height hashes raw_headers =
     (if (case hashes of [] \<Rightarrow> True | h # _ \<Rightarrow> h \<noteq> start_block_hash)
      then Inl (BlockNotInActiveChain start_block_hash)
      else validate_loop B node start_height 0 None (zip hashes raw_headers))"

text \<open>A contiguous segment of a chain: every header hashes to the hash beside it and has the one
  before it as parent, and the heights count up from \<open>k\<close>.\<close>

fun segment :: "btc \<Rightarrow> blockhash option \<Rightarrow> nat \<Rightarrow> header_batch \<Rightarrow> bool" where
  "segment B prev k [] = True"
| "segment B prev k ((hdr, h, height) # hs) \<longleftrightarrow> b_block_hash B hdr = h \<and> unat height = k \<and>
     (\<forall>p\<in>set_option prev. hdr_prev_blockhash hdr = p) \<and> segment B (Some h) (k + 1) hs"

lemma validate_loop_Inr:
  "validate_loop B node start offset prev zs = Inr hs \<longleftrightarrow>
     map (\<lambda>(_, h, _). h) hs = map fst zs \<and>
     map (\<lambda>(hdr, _, _). Some hdr) hs = map (\<lambda>z. d_header_hex node (snd z)) zs \<and>
     segment B prev (unat start + offset) hs"
proof (induction zs arbitrary: offset prev hs)
  case (Cons z zs)
  obtain h raw where z: "z = (h, raw)" by (cases z)
  show ?case
  proof (cases hs)
    case Nil
    then show ?thesis using z by (auto split: option.splits sum.splits)
  next
    case (Cons x xs)
    obtain hdr g k where x: "x = (hdr, g, k)" by (cases x)
    have k: "unat k = unat start + offset \<longleftrightarrow> offset_height start offset = Some k"
      by (simp add: offset_height_Some)
    show ?thesis
      using Cons.IH [of "offset + 1" "Some h" xs]
      by (auto simp: z x Cons k split: option.splits sum.splits)
  qed
qed auto

text \<open>\<open>validate_rpc_header_batch\<close> accepts exactly the contiguous segments of a chain that start
  with the requested block: it returns \<open>hs\<close> iff the first reported hash is the start block, the
  entries of \<open>hs\<close> are the reported hashes (as far as headers came with them) with their decoded
  headers, and they form a segment from the start height.\<close>

theorem validate_rpc_header_batch_exact:
  "validate_rpc_header_batch B node start_hash start_height hashes raws = Inr hs \<longleftrightarrow>
     hashes \<noteq> [] \<and> hd hashes = start_hash \<and>
     map (\<lambda>(_, h, _). h) hs = take (length raws) hashes \<and>
     map (\<lambda>(hdr, _, _). Some hdr) hs = map (d_header_hex node) (take (length hashes) raws) \<and>
     segment B None (unat start_height) hs"
proof -
  have "map fst (zip hashes raws) = take (length raws) hashes" by (simp add: map_fst_zip_take min_def)
  moreover have "map (\<lambda>z. d_header_hex node (snd z)) (zip hashes raws) =
      map (d_header_hex node) (take (length hashes) raws)"
    by (simp add: map_snd_zip_take min_def flip: map_map [unfolded comp_def, of "d_header_hex node" snd])
  ultimately show ?thesis
    by (auto simp: validate_rpc_header_batch_def validate_loop_Inr split: list.splits)
qed

text \<open>What the REST client guarantees: hashes and heights, but not that the headers link up.\<close>

fun batch_hashes :: "btc \<Rightarrow> nat \<Rightarrow> header_batch \<Rightarrow> bool" where
  "batch_hashes B k [] = True"
| "batch_hashes B k ((hdr, h, height) # hs) \<longleftrightarrow> b_block_hash B hdr = h \<and> unat height = k \<and>
     batch_hashes B (k + 1) hs"

lemma decode_chunks_Inr:
  "decode_chunks B node start offset cs = Inr hs \<longleftrightarrow>
     map (\<lambda>(hdr, _, _). Some hdr) hs = map (d_header node) cs \<and> batch_hashes B (unat start + offset) hs"
proof (induction cs arbitrary: offset hs)
  case (Cons c cs)
  show ?case
  proof (cases hs)
    case Nil
    then show ?thesis by (auto split: option.splits sum.splits)
  next
    case (Cons x xs)
    obtain hdr g k where x: "x = (hdr, g, k)" by (cases x)
    have k: "unat k = unat start + offset \<longleftrightarrow> offset_height start offset = Some k"
      by (simp add: offset_height_Some)
    show ?thesis
      using Cons.IH [of "offset + 1" xs] by (auto simp: x Cons k split: option.splits sum.splits)
  qed
qed auto

section \<open>The header loop\<close>

definition HEADER_FETCH_BATCH_SIZE :: nat where
  "HEADER_FETCH_BATCH_SIZE = 2000"

text \<open>The heights of the requests; a height that does not fit panics.\<close>

fun request_heights :: "u32 \<Rightarrow> nat \<Rightarrow> nat \<Rightarrow> u32 list option" where
  "request_heights current_height offset 0 = Some []"
| "request_heights current_height offset (Suc n) =
     (case offset_height current_height offset of
        None \<Rightarrow> None
      | Some height \<Rightarrow>
          map_option (\<lambda>hs. height # hs) (request_heights current_height (offset + 1) n))"

definition rpc_headers :: "btc \<Rightarrow> node \<Rightarrow> nat \<Rightarrow> blockhash \<Rightarrow> u32 \<Rightarrow> nat \<Rightarrow> sync_error + header_batch" where
  "rpc_headers B node t current_block_hash current_height batch_size =
     (case request_heights current_height 0 batch_size of
        None \<Rightarrow> Inl SE_Panic
      | Some heights \<Rightarrow>
     (case n_hash_batch node t heights of
        Inl _ \<Rightarrow> Inl (JsonRpc ''getblockhash (batched)'')
      | Inr (Inl errors) \<Rightarrow> Inl (BatchJsonRpc errors)
      | Inr (Inr hashes) \<Rightarrow>
     (case n_header_batch node t hashes of
        Inl _ \<Rightarrow> Inl (JsonRpc ''getblockheader (batched)'')
      | Inr (Inl errors) \<Rightarrow> Inl (BatchJsonRpc errors)
      | Inr (Inr raw_headers) \<Rightarrow>
          validate_rpc_header_batch B node current_block_hash current_height hashes raw_headers)))"

definition fetch_headers :: "btc \<Rightarrow> node \<Rightarrow> nat \<Rightarrow> blockhash \<Rightarrow> u32 \<Rightarrow> nat \<Rightarrow> sync_error + header_batch" where
  "fetch_headers B node t current_block_hash current_height batch_size =
     (case n_rest_headers node of
        Some rest \<Rightarrow>
          (case get_block_headers B node rest t current_block_hash current_height batch_size of
             Inl e \<Rightarrow> Inl (SE_Rest e)
           | Inr headers \<Rightarrow> Inr headers)
      | None \<Rightarrow> rpc_headers B node t current_block_hash current_height batch_size)"

text \<open>The loop of \<open>sync_headers\<close>, \<open>None\<close> where it does not return.\<close>

partial_function (option) headers_loop :: "btc \<Rightarrow> node \<Rightarrow> blockhash \<Rightarrow> u32 \<Rightarrow> nat \<Rightarrow> blockhash \<Rightarrow> u32 \<Rightarrow>
    block_hash_dbs \<Rightarrow> ((sync_error + unit) \<times> block_hash_dbs) option" where
  "headers_loop B node main_tip main_tip_height t current_block_hash current_height db =
     (if n_cancelled node t then Some (Inl Shutdown, db)
      else
        let headers_needed = (main_tip_height - current_height) + 1;
            batch_size = min HEADER_FETCH_BATCH_SIZE (unat headers_needed)
        in case fetch_headers B node t current_block_hash current_height batch_size of
             Inl e \<Rightarrow> Some (Inl e, db)
           | Inr [] \<Rightarrow> Some (Inl (BlockNotInActiveChain current_block_hash), db)
           | Inr (x # xs) \<Rightarrow>
               (case last (x # xs) of (_, last_block_hash, last_block_height) \<Rightarrow>
                  let db = put_headers B db (map (\<lambda>(hdr, _, height). (hdr, height)) (x # xs)) in
                  if last_block_hash = main_tip then Some (Inr (), db)
                  else if last_block_height = main_tip_height
                  then Some (Inl (BlockNotInActiveChain main_tip), db)
                  else headers_loop B node main_tip main_tip_height (t + 1) last_block_hash
                    last_block_height db))"

definition sync_headers :: "btc \<Rightarrow> node \<Rightarrow> blockhash \<Rightarrow> block_hash_dbs \<Rightarrow>
    ((sync_error + unit) \<times> block_hash_dbs) option" where
  "sync_headers B node main_tip db =
     (if main_tip = all_zeros then Some (Inr (), db)
      else case n_height_of node main_tip of
        Inl _ \<Rightarrow> Some (Inl (JsonRpc ''getblockheader''), db)
      | Inr main_tip_height \<Rightarrow>
     (case fetch_best_ancestor node db main_tip main_tip_height of
        Inl e \<Rightarrow> Some (Inl e, db)
      | Inr (Some (best, height)) \<Rightarrow>
          if best = main_tip then Some (Inr (), db)
          else headers_loop B node main_tip main_tip_height 0 best height db
      | Inr None \<Rightarrow>
          (case n_getblockhash node 0 0 of
             Inl _ \<Rightarrow> Some (Inl (JsonRpc ''getblockhash''), db)
           | Inr genesis_block_hash \<Rightarrow>
               headers_loop B node main_tip main_tip_height 0 genesis_block_hash 0 db)))"

section \<open>The header tables stay well-formed\<close>

text \<open>Headers among which the block hash is collision-free and never null.\<close>

definition hash_distinct :: "btc \<Rightarrow> header set \<Rightarrow> bool" where
  "hash_distinct B H \<longleftrightarrow> inj_on (b_block_hash B) H \<and> (\<forall>hdr\<in>H. b_block_hash B hdr \<noteq> all_zeros)"

lemma put_header_known:
  assumes wf: "headers_wf B db" and H: "hash_distinct B H" "ran (header_db db) \<subseteq> H" "hdr \<in> H"
    and p: "known db (hdr_prev_blockhash hdr)" "level db (hdr_prev_blockhash hdr) = unat height"
  shows "put_header B db hdr height = db\<lparr>header_db := (header_db db)(b_block_hash B hdr \<mapsto> hdr),
    height_db := (height_db db)(b_block_hash B hdr \<mapsto> height)\<rparr>"
proof (cases "hdr_prev_blockhash hdr = all_zeros")
  case True
  then show ?thesis by (simp add: put_header_def Let_def)
next
  case False
  from level_known [OF wf p(1) False] obtain hp k where
    st: "header_db db (hdr_prev_blockhash hdr) = Some hp" and
    k: "height_db db (hdr_prev_blockhash hdr) = Some k" "level db (hdr_prev_blockhash hdr) = unat k + 1" .
  have "unat (height - 1) = unat k"
    using k(2) p(2) by (metis add_diff_cancel_right' unat_0 unat_minus_one zero_neq_one add_is_0)
  then have "height - 1 = k" by (simp add: word_unat_eq_iff)
  moreover have "b_block_hash B hdr \<noteq> hdr_prev_blockhash hdr"
  proof
    assume eq: "b_block_hash B hdr = hdr_prev_blockhash hdr"
    with st obtain hdr' where st': "header_db db (b_block_hash B hdr) = Some hdr'" by auto
    note wf' = headers_wfD [OF wf st']
    have "hdr' \<in> H" using H(2) st' by (auto simp: ran_def)
    then have "hdr' = hdr" using H(1,3) wf'(1) by (auto simp: hash_distinct_def inj_on_def)
    with wf'(4) eq show False by simp
  qed
  ultimately have "(height_db db)(b_block_hash B hdr \<mapsto> height, hdr_prev_blockhash hdr \<mapsto> height - 1) =
      (height_db db)(b_block_hash B hdr \<mapsto> height)" using k(1) by (auto simp: fun_eq_iff)
  with False show ?thesis by (simp add: put_header_def Let_def)
qed

lemma put_header_wf:
  assumes wf: "headers_wf B db" and H: "hash_distinct B H" "ran (header_db db) \<subseteq> H" "hdr \<in> H"
    and p: "known db (hdr_prev_blockhash hdr)" "level db (hdr_prev_blockhash hdr) = unat height"
  defines "db' \<equiv> put_header B db hdr height"
  shows "headers_wf B db'" "header_db db' = (header_db db)(b_block_hash B hdr \<mapsto> hdr)"
    "level db' (b_block_hash B hdr) = unat height + 1" "ran (header_db db') \<subseteq> H"
    "header_db db \<subseteq>\<^sub>m header_db db'"
proof -
  let ?h = "b_block_hash B hdr"
  note db' = put_header_known [OF wf H p, folded db'_def]
  show hd: "header_db db' = (header_db db)(?h \<mapsto> hdr)" by (simp add: db')
  have ht: "height_db db' = (height_db db)(?h \<mapsto> height)" by (simp add: db')
  have nz: "?h \<noteq> all_zeros" using H(1,3) by (simp add: hash_distinct_def)
  show lv: "level db' ?h = unat height + 1" using nz by (simp add: db' level_def)
  show "ran (header_db db') \<subseteq> H" using H(2,3) by (auto simp: hd ran_def)
  have same: "hdr' = hdr" if "header_db db ?h = Some hdr'" for hdr'
    using headers_wfD(1) [OF wf that] H that by (auto simp: hash_distinct_def inj_on_def ran_def)
  then show "header_db db \<subseteq>\<^sub>m header_db db'" by (auto simp: hd map_le_def)
  have l: "level db' x = level db x" if "known db x" for x
  proof (cases "x = ?h")
    case True
    with that nz obtain hdr' where "header_db db ?h = Some hdr'" by (auto simp: known_def)
    with same have "header_db db ?h = Some hdr" by simp
    from headers_wfD(4) [OF wf this] p(2) lv True show ?thesis by simp
  next
    case False
    then show ?thesis by (simp add: db' level_def)
  qed
  have kn: "known db' x" if "known db x" for x using that by (auto simp: known_def hd)
  show "headers_wf B db'"
    unfolding headers_wf_def
  proof (intro conjI allI impI)
    show "header_db db' all_zeros = None" using wf nz by (simp add: hd headers_wf_def)
    fix x hx
    assume x: "header_db db' x = Some hx"
    have "x = ?h \<and> hx = hdr \<or> header_db db x = Some hx" using x by (auto simp: hd split: if_splits)
    then have "b_block_hash B hx = x \<and> height_db db' x \<noteq> None \<and> known db' (hdr_prev_blockhash hx) \<and>
        level db' x = level db' (hdr_prev_blockhash hx) + 1"
    proof
      assume "x = ?h \<and> hx = hdr"
      then show ?thesis using p lv l [OF p(1)] kn [OF p(1)] ht by simp
    next
      assume st: "header_db db x = Some hx"
      note w = headers_wfD [OF wf st]
      have "known db x" using st by (simp add: known_def)
      then show ?thesis using w l [of x] l [OF w(3)] kn [OF w(3)] ht by simp
    qed
    then show "b_block_hash B hx = x" "height_db db' x \<noteq> None" "known db' (hdr_prev_blockhash hx)"
      "level db' x = level db' (hdr_prev_blockhash hx) + 1" by simp_all
  qed
qed

text \<open>Storing a segment whose first header belongs at its height.\<close>

lemma put_headers_wf:
  assumes "hash_distinct B H"
  shows "headers_wf B db \<Longrightarrow> ran (header_db db) \<subseteq> H \<Longrightarrow> set (map fst hs) \<subseteq> H \<Longrightarrow>
    segment B (Some p) k hs \<Longrightarrow> known db p \<Longrightarrow> level db p = k \<Longrightarrow>
    (let db' = put_headers B db (map (\<lambda>(hdr, _, height). (hdr, height)) hs) in
     headers_wf B db' \<and> ran (header_db db') \<subseteq> H \<and> header_db db \<subseteq>\<^sub>m header_db db' \<and>
     (hs \<noteq> [] \<longrightarrow> header_db db' (fst (snd (last hs))) \<noteq> None \<and>
        level db' (fst (snd (last hs))) = k + length hs))"
proof (induction hs arbitrary: db p k)
  case (Cons x hs)
  obtain hdr h height where x: "x = (hdr, h, height)" by (cases x)
  from Cons.prems x have pk: "known db (hdr_prev_blockhash hdr)" "level db (hdr_prev_blockhash hdr) = unat height"
    "hdr \<in> H" "b_block_hash B hdr = h" "unat height = k" "segment B (Some h) (k + 1) hs" by auto
  let ?db = "put_header B db hdr height"
  note one = put_header_wf [OF Cons.prems(1) assms Cons.prems(2) pk(3,1,2)]
  have "known ?db h" using one(2) pk(4) by (simp add: known_def)
  note rest = Cons.IH [OF one(1,4) _ pk(6) this, unfolded Let_def]
  have sub: "set (map fst hs) \<subseteq> H" using Cons.prems(3) by auto
  note rest = rest [OF sub]
  have "level ?db h = k + 1" using one(3) pk(4,5) by simp
  note rest = rest [OF this]
  have st: "header_db ?db h \<noteq> None" using one(2) pk(4) by simp
  show ?case
  proof (cases "hs = []")
    case True
    then show ?thesis using one st pk(4,5) by (simp add: x Let_def)
  next
    case False
    from rest have "header_db db \<subseteq>\<^sub>m header_db (put_headers B ?db (map (\<lambda>(hdr, _, height). (hdr, height)) hs))"
      using one(5) map_le_trans by blast
    then show ?thesis using rest False by (simp add: x Let_def)
  qed
qed simp

section \<open>The header loop returns and keeps the invariant\<close>

fun linked_headers :: "btc \<Rightarrow> header list \<Rightarrow> bool" where
  "linked_headers B (x # y # hs) \<longleftrightarrow> hdr_prev_blockhash y = b_block_hash B x \<and> linked_headers B (y # hs)"
| "linked_headers B _ = True"

text \<open>What the synchronisation relies on: the decoders only yield headers of \<open>H\<close>; a JSON-RPC batch
  is answered in full; the REST endpoint returns consecutive headers, no more than asked for; a known block that the node reports at a height
  has that height, and the block it reports at height 0 is the genesis block.\<close>

definition node_serves :: "btc \<Rightarrow> node \<Rightarrow> header set \<Rightarrow> block_hash_dbs \<Rightarrow> bool" where
  "node_serves B node H db \<longleftrightarrow>
     (\<forall>raw hdr. d_header_hex node raw = Some hdr \<longrightarrow> hdr \<in> H) \<and>
     (\<forall>raw hdr. d_header node raw = Some hdr \<longrightarrow> hdr \<in> H) \<and>
     (\<forall>t ks hs. n_hash_batch node t ks = Inr (Inr hs) \<longrightarrow> length hs = length ks) \<and>
     (\<forall>t hs rs. n_header_batch node t hs = Inr (Inr rs) \<longrightarrow> length rs = length hs) \<and>
     (\<forall>rest t h n bs hdrs. n_rest_headers node = Some rest \<longrightarrow> rest t h n = Inr bs \<longrightarrow>
        map (d_header node) (chunks80 bs) = map Some hdrs \<longrightarrow>
        linked_headers B hdrs \<and> length hdrs \<le> n) \<and>
     (\<forall>t k h. n_getblockhash node t k = Inr h \<longrightarrow> contains_header db h \<longrightarrow> height_db db h = Some k) \<and>
     (\<forall>t h hdr. n_getblockhash node t 0 = Inr h \<longrightarrow> hdr \<in> H \<longrightarrow> b_block_hash B hdr = h \<longrightarrow>
        hdr_prev_blockhash hdr = all_zeros)"

lemma node_serves_rest:
  "node_serves B node H db \<Longrightarrow> n_rest_headers node = Some rest \<Longrightarrow> rest t h n = Inr bs \<Longrightarrow>
     map (d_header node) (chunks80 bs) = map Some hdrs \<Longrightarrow>
     linked_headers B hdrs \<and> length hdrs \<le> n"
  unfolding node_serves_def by blast

lemma request_heights_length: "request_heights h i n = Some ks \<Longrightarrow> length ks = n"
  by (induction h i n arbitrary: ks rule: request_heights.induct) (auto split: option.splits)

lemma batch_segment:
  "batch_hashes B k hs \<Longrightarrow> linked_headers B (map fst hs) \<Longrightarrow>
     (\<forall>p\<in>set_option prev. hs \<noteq> [] \<longrightarrow> hdr_prev_blockhash (fst (hd hs)) = p) \<Longrightarrow> segment B prev k hs"
proof (induction hs arbitrary: k prev)
  case (Cons x hs)
  then show ?case by (cases x; cases hs) auto
qed simp

lemma map_Some_fst: "map (\<lambda>(hdr, _, _). Some hdr) hs = map Some (map fst hs)"
  by (simp add: split_def)

text \<open>Either way to fetch a batch yields a segment that starts with the requested block.\<close>

lemma fetch_headers_segment:
  assumes "node_serves B node H db" "fetch_headers B node t cur height n = Inr hs" "hs \<noteq> []"
  shows "segment B None (unat height) hs \<and> fst (snd (hd hs)) = cur \<and> fst ` set hs \<subseteq> H \<and>
    length hs \<le> n \<and> (length hs < min 2 n \<longrightarrow> n_rest_headers node \<noteq> None)"
proof (cases "n_rest_headers node")
  case None
  with assms(2) obtain ks hashes raws where r: "request_heights height 0 n = Some ks"
    "n_hash_batch node t ks = Inr (Inr hashes)" "n_header_batch node t hashes = Inr (Inr raws)"
    and v: "validate_rpc_header_batch B node cur height hashes raws = Inr hs"
    by (auto simp: fetch_headers_def rpc_headers_def split: option.splits sum.splits)
  have len: "length hashes = n" "length raws = n"
    using assms(1) r request_heights_length [OF r(1)] by (auto simp: node_serves_def)
  from v have sp: "hashes \<noteq> []" "hd hashes = cur" "map (\<lambda>(_, h, _). h) hs = hashes"
      "map Some (map fst hs) = map (d_header_hex node) raws" "segment B None (unat height) hs"
    unfolding validate_rpc_header_batch_exact map_Some_fst using len by auto
  have "hdr \<in> H" if "hdr \<in> fst ` set hs" for hdr
  proof -
    from that have "Some hdr \<in> set (map (d_header_hex node) raws)"
      unfolding sp(4) [symmetric] by (auto simp: image_iff)
    then show ?thesis using assms(1) by (auto simp: node_serves_def image_iff eq_commute [of "Some _"])
  qed
  moreover have "fst (snd (hd hs)) = cur" using sp(2,3) assms(3) by (cases hs) auto
  moreover have "length hs = n" using sp(3) len(1) by (metis length_map)
  ultimately show ?thesis using sp(5) by auto
next
  case (Some rest)
  with assms(2) obtain bs where r: "rest t cur n = Inr bs" "decode_chunks B node height 0 (chunks80 bs) = Inr hs"
    and h: "fst (snd (hd hs)) = cur"
    using assms(3) by (auto simp: fetch_headers_def get_block_headers_def decode_block_headers_def
        split: sum.splits list.splits if_splits)
  from r(2) have d: "map (d_header node) (chunks80 bs) = map Some (map fst hs)" "batch_hashes B (unat height) hs"
    unfolding decode_chunks_Inr map_Some_fst by auto
  have "linked_headers B (map fst hs) \<and> length (map fst hs) \<le> n"
    by (rule node_serves_rest [OF assms(1) Some r(1) d(1)])
  then have l: "linked_headers B (map fst hs)" "length hs \<le> n" by auto

  have "hdr \<in> H" if "hdr \<in> fst ` set hs" for hdr
  proof -
    from that have "Some hdr \<in> set (map (d_header node) (chunks80 bs))"
      unfolding d(1) by (auto simp: image_iff)
    then show ?thesis using assms(1) by (auto simp: node_serves_def image_iff eq_commute [of "Some _"])
  qed
  then show ?thesis using batch_segment [OF d(2) l(1), of None] l h Some by auto
qed

text \<open>Where the loop stands: at a stored block of that height, or at the genesis block.\<close>

definition loop_at :: "btc \<Rightarrow> header set \<Rightarrow> block_hash_dbs \<Rightarrow> blockhash \<Rightarrow> u32 \<Rightarrow> bool" where
  "loop_at B H db cur height \<longleftrightarrow>
     (header_db db cur \<noteq> None \<and> level db cur = unat height + 1) \<or>
     (height = 0 \<and> (\<forall>hdr\<in>H. b_block_hash B hdr = cur \<longrightarrow> hdr_prev_blockhash hdr = all_zeros))"

lemma loop_at_parent:
  assumes "headers_wf B db" "hash_distinct B H" "ran (header_db db) \<subseteq> H" "loop_at B H db cur height"
    "hdr \<in> H" "b_block_hash B hdr = cur"
  shows "known db (hdr_prev_blockhash hdr) \<and> level db (hdr_prev_blockhash hdr) = unat height"
  using assms(4) unfolding loop_at_def
proof
  assume st: "header_db db cur \<noteq> None \<and> level db cur = unat height + 1"
  then obtain hdr' where hdr': "header_db db cur = Some hdr'" by blast
  note wf = headers_wfD [OF assms(1) hdr']
  have "hdr' \<in> H" using assms(3) hdr' by (auto simp: ran_def)
  then have "hdr' = hdr" using assms(2,5,6) wf(1) by (auto simp: hash_distinct_def inj_on_def)
  with wf st show ?thesis by simp
qed (use assms(5,6) in simp)

lemma segment_last:
  "segment B prev k hs \<Longrightarrow> hs \<noteq> [] \<Longrightarrow> unat (snd (snd (last hs))) = k + length hs - 1"
  by (induction hs arbitrary: prev k) auto

text \<open>One round of the loop: the batch is stored, and the loop moves on to its last block.\<close>

lemma header_round:
  assumes "headers_wf B db" "hash_distinct B H" "ran (header_db db) \<subseteq> H" "loop_at B H db cur height"
    and "node_serves B node H db0" "fetch_headers B node t cur height n = Inr hs" "hs \<noteq> []"
  defines "db' \<equiv> put_headers B db (map (\<lambda>(hdr, _, height). (hdr, height)) hs)"
  shows "headers_wf B db'" "ran (header_db db') \<subseteq> H" "header_db db \<subseteq>\<^sub>m header_db db'"
    "header_db db' (fst (snd (last hs))) \<noteq> None"
    "loop_at B H db' (fst (snd (last hs))) (snd (snd (last hs)))"
    "unat (snd (snd (last hs))) = unat height + length hs - 1" "length hs \<le> n"
    "length hs < min 2 n \<Longrightarrow> n_rest_headers node \<noteq> None \<and> fst (snd (last hs)) = cur"
proof -
  note b = fetch_headers_segment [OF assms(5-7)]
  obtain hdr h k hs' where hs: "hs = (hdr, h, k) # hs'" using assms(7) by (cases hs) auto
  with b have h: "h = cur" "b_block_hash B hdr = cur" "hdr \<in> H" by auto
  from loop_at_parent [OF assms(1-4) h(3,2)]
  have p: "known db (hdr_prev_blockhash hdr)" "level db (hdr_prev_blockhash hdr) = unat height" by auto
  have seg: "segment B (Some (hdr_prev_blockhash hdr)) (unat height) hs" using b hs by (auto simp: h)
  have "set (map fst hs) \<subseteq> H" using b by auto
  note r = put_headers_wf [OF assms(2) assms(1,3) this seg p, unfolded Let_def, folded db'_def]
  show 1: "headers_wf B db'" "ran (header_db db') \<subseteq> H" "header_db db \<subseteq>\<^sub>m header_db db'"
    "header_db db' (fst (snd (last hs))) \<noteq> None" using r assms(7) by auto
  show 2: "unat (snd (snd (last hs))) = unat height + length hs - 1" using segment_last [OF seg assms(7)] .
  have "0 < length hs" using assms(7) by simp
  then show "loop_at B H db' (fst (snd (last hs))) (snd (snd (last hs)))"
    using 1(4) 2 r assms(7) unfolding loop_at_def by (intro disjI1) auto
  show "length hs \<le> n" using b by auto
  show "n_rest_headers node \<noteq> None \<and> fst (snd (last hs)) = cur" if "length hs < min 2 n"
    using b that h(1) by (cases hs') (auto simp: hs)
qed

text \<open>The loop spins at a block below the height of the tip when, from some iteration on, the REST
  endpoint answers every request for the headers from that block with its own header alone, as Bitcoin Core does
  for the tip of its active chain.\<close>

definition header_batch_size :: "u32 \<Rightarrow> u32 \<Rightarrow> nat" where
  "header_batch_size tip_height height = min HEADER_FETCH_BATCH_SIZE (unat (tip_height - height + 1))"

definition stays :: "btc \<Rightarrow> node \<Rightarrow> u32 \<Rightarrow> nat \<Rightarrow> blockhash \<Rightarrow> u32 \<Rightarrow> bool" where
  "stays B node tip_height t cur height \<longleftrightarrow> \<not> n_cancelled node t \<and> n_rest_headers node \<noteq> None \<and>
     (\<exists>hdr. fetch_headers B node t cur height (header_batch_size tip_height height) = Inr [(hdr, cur, height)])"

definition spins_at :: "btc \<Rightarrow> node \<Rightarrow> blockhash \<Rightarrow> u32 \<Rightarrow> nat \<Rightarrow> blockhash \<Rightarrow> u32 \<Rightarrow> bool" where
  "spins_at B node tip tip_height t0 cur height \<longleftrightarrow> cur \<noteq> tip \<and> unat height < unat tip_height \<and>
     (\<forall>t\<ge>t0. stays B node tip_height t cur height)"

lemma headers_loop_spins:
  assumes "spins_at B node tip tip_height t cur height"
  shows "headers_loop B node tip tip_height t cur height db = None"
proof (rule ccontr)
  assume "\<not> ?thesis"
  then obtain y where "headers_loop B node tip tip_height t cur height db = Some y" by auto
  then have "\<not> spins_at B node tip tip_height t cur height"
  proof (induction rule: headers_loop.raw_induct [rotated, consumes 1, case_names loop])
    case (loop headers_loop B node tip tip_height t cur height db y)
    show ?case
    proof
      assume sp: "spins_at B node tip tip_height t cur height"
      then obtain hdr where f: "\<not> n_cancelled node t" "fetch_headers B node t cur height (header_batch_size tip_height height) = Inr [(hdr, cur, height)]"
        "cur \<noteq> tip" "height \<noteq> tip_height" by (auto simp: spins_at_def stays_def)
      have "spins_at B node tip tip_height (t + 1) cur height" using sp by (simp add: spins_at_def)
      then show False using loop f by (auto simp: header_batch_size_def Let_def)
    qed
  qed
  with assms show False by blast
qed

text \<open>One iteration of the loop: it returns, or it moves on to a higher block at or below the height of the tip, or it
  stays where it is.\<close>

definition loop_inv :: "btc \<Rightarrow> header set \<Rightarrow> u32 \<Rightarrow> blockhash \<Rightarrow> u32 \<Rightarrow> block_hash_dbs \<Rightarrow> bool" where
  "loop_inv B H tip_height cur height db \<longleftrightarrow> headers_wf B db \<and> ran (header_db db) \<subseteq> H \<and> loop_at B H db cur height \<and>
     unat height \<le> unat tip_height"

lemma header_batch_size_two:
  assumes "unat height < unat tip_height" "0 < header_batch_size tip_height height"
  shows "2 \<le> header_batch_size tip_height height"
proof -
  have "unat (tip_height - height) = unat tip_height - unat height" using assms(1) by (intro unat_sub) (simp add: word_le_nat_alt)
  moreover have "1 + (tip_height - height) \<noteq> 0" using assms(2) by (metis add.commute header_batch_size_def less_numeral_extra(3) min_0R unat_0)
  from unatSuc [OF this] have "unat (tip_height - height + 1) = unat (tip_height - height) + 1" by (simp add: add.commute)
  ultimately show ?thesis using assms(1) by (simp add: header_batch_size_def HEADER_FETCH_BATCH_SIZE_def)
qed

lemma header_batch_size_le:
  assumes "unat height \<le> unat tip_height"
  shows "header_batch_size tip_height height \<le> unat tip_height - unat height + 1"
proof -
  have "unat (tip_height - height + 1) \<le> unat (tip_height - height) + 1"
    by (cases "1 + (tip_height - height) = 0") (simp_all add: add.commute unatSuc)
  then show ?thesis using assms by (simp add: header_batch_size_def unat_sub word_le_nat_alt)
qed

lemma headers_loop_iteration:
  assumes "hash_distinct B H" "node_serves B node H db0" "loop_inv B H tip_height cur height db"
  obtains (returns) r db' where "headers_loop B node tip tip_height t cur height db = Some (r, db')" "headers_wf B db'"
      "header_db db \<subseteq>\<^sub>m header_db db'" "r = Inr () \<longrightarrow> header_db db' tip \<noteq> None"
    | (iterates) cur' height' db' where "headers_loop B node tip tip_height t cur height db =
        headers_loop B node tip tip_height (t + 1) cur' height' db'" "loop_inv B H tip_height cur' height' db'"
      "header_db db \<subseteq>\<^sub>m header_db db'"
      "unat height < unat height' \<or> cur' = cur \<and> height' = height \<and> cur \<noteq> tip \<and> unat height < unat tip_height \<and>
        stays B node tip_height t cur height"
proof -
  note inv = assms(3) [unfolded loop_inv_def]
  note unfold = headers_loop.simps [of B node tip tip_height t cur height db, folded header_batch_size_def, unfolded Let_def, folded header_batch_size_def]
  consider (stop) "n_cancelled node t"
    | (err) e where "\<not> n_cancelled node t" "fetch_headers B node t cur height (header_batch_size tip_height height) = Inl e"
    | (none) "\<not> n_cancelled node t" "fetch_headers B node t cur height (header_batch_size tip_height height) = Inr []"
    | (some) hs where "\<not> n_cancelled node t" "fetch_headers B node t cur height (header_batch_size tip_height height) = Inr hs" "hs \<noteq> []"
    by (metis sum.exhaust)
  then show thesis
  proof cases
    case (some hs)
    let ?db = "put_headers B db (map (\<lambda>(hdr, _, height). (hdr, height)) hs)"
    obtain hdr lh lk where lst: "last hs = (hdr, lh, lk)" by (cases "last hs")
    note rd = header_round [OF inv [THEN conjunct1] assms(1) inv [THEN conjunct2, THEN conjunct1]
        inv [THEN conjunct2, THEN conjunct2, THEN conjunct1] assms(2) some(2,3), unfolded lst fst_conv snd_conv]
    obtain x xs where hs: "hs = x # xs" using some(3) by (cases hs) auto
    have step: "headers_loop B node tip tip_height t cur height db =
        (if lh = tip then Some (Inr (), ?db)
         else if lk = tip_height then Some (Inl (BlockNotInActiveChain tip), ?db)
         else headers_loop B node tip tip_height (t + 1) lh lk ?db)"
      using some(1,2) lst unfolding unfold hs by simp
    show thesis
    proof (cases "lh = tip \<or> lk = tip_height")
      case True
      have "headers_loop B node tip tip_height t cur height db =
          Some (if lh = tip then Inr () else Inl (BlockNotInActiveChain tip), ?db)" using step True by auto
      then show thesis by (rule returns) (use rd(1,3,4) in auto)
    next
      case False
      have le: "unat height \<le> unat tip_height" using inv by blast
      have len: "0 < length hs" using some(3) by simp
      have up: "unat lk \<le> unat tip_height" using rd(6,7) header_batch_size_le [OF le] len le by linarith
      have ne: "unat lk \<noteq> unat tip_height" using False by (simp add: word_unat_eq_iff)
      show thesis
      proof (rule iterates)
        show "headers_loop B node tip tip_height t cur height db = headers_loop B node tip tip_height (t + 1) lh lk ?db"
          using step False by simp
        show "loop_inv B H tip_height lh lk ?db" using rd(1,2,5) up by (simp add: loop_inv_def)
        show "header_db db \<subseteq>\<^sub>m header_db ?db" by (rule rd(3))
        show "unat height < unat lk \<or> lh = cur \<and> lk = height \<and> cur \<noteq> tip \<and> unat height < unat tip_height \<and>
            stays B node tip_height t cur height"
        proof (cases "2 \<le> length hs")
          case True
          then have "unat height < unat lk" using rd(6) by linarith
          then show ?thesis by blast
        next
          case one: False
          then have "length hs = 1" using len by linarith
          then have one_hdr: "hs = [(hdr, lh, lk)]" using lst by (cases hs) auto
          have lk: "lk = height" using rd(6) by (simp add: word_unat_eq_iff one_hdr)
          then have lt: "unat height < unat tip_height" using ne le by simp
          have "0 < header_batch_size tip_height height" using rd(7) len by linarith
          then have "length hs < min 2 (header_batch_size tip_height height)" using one header_batch_size_two [OF lt] by simp
          from rd(8) [OF this] have "lh = cur" "n_rest_headers node \<noteq> None" by auto
          moreover have "stays B node tip_height t cur height"
            using calculation some(1,2) by (simp add: stays_def one_hdr lk)
          ultimately show ?thesis using lk lt False by blast
        qed
      qed
    qed
  qed (rule returns, auto simp: unfold inv)+
qed

definition loop_result :: "btc \<Rightarrow> node \<Rightarrow> blockhash \<Rightarrow> u32 \<Rightarrow> block_hash_dbs \<Rightarrow>
    ((sync_error + unit) \<times> block_hash_dbs) option \<Rightarrow> bool" where
  "loop_result B node tip tip_height db res = (case res of
     Some (r, db') \<Rightarrow> headers_wf B db' \<and> header_db db \<subseteq>\<^sub>m header_db db' \<and> (r = Inr () \<longrightarrow> header_db db' tip \<noteq> None)
   | None \<Rightarrow> \<exists>t0 cur height. spins_at B node tip tip_height t0 cur height)"

lemma loop_result_mono: "loop_result B node tip h db' res \<Longrightarrow> header_db db \<subseteq>\<^sub>m header_db db' \<Longrightarrow> loop_result B node tip h db res"
  by (auto simp: loop_result_def split: option.splits intro: map_le_trans)

lemma headers_loop_returns:
  assumes "hash_distinct B H" "node_serves B node H db0"
  shows "loop_inv B H tip_height cur height db \<Longrightarrow>
    loop_result B node tip tip_height db (headers_loop B node tip tip_height t cur height db)"
proof (induction "unat tip_height - unat height" arbitrary: t cur height db rule: less_induct)
  case less
  have wait: "loop_result B node tip tip_height db (headers_loop B node tip tip_height t cur height db)"
    if "loop_inv B H tip_height cur height db"
      "\<not> (cur \<noteq> tip \<and> unat height < unat tip_height \<and> stays B node tip_height (t + k) cur height)" for k t db
    using that
  proof (induction k arbitrary: t db)
    case 0
    show ?case
    proof (cases rule: headers_loop_iteration [OF assms 0(1), where tip = tip and t = t, case_names returns iterates])
      case (returns r db')
      then show ?thesis by (simp add: loop_result_def)
    next
      case (iterates cur' height' db')
      then have up: "unat height < unat height'" using 0(2) by auto
      have "unat tip_height - unat height' < unat tip_height - unat height" using up iterates(2) by (auto simp: loop_inv_def)
      from loop_result_mono [OF less.hyps [OF this iterates(2)] iterates(3)] show ?thesis unfolding iterates(1) .
    qed
  next
    case (Suc k)
    show ?case
    proof (cases rule: headers_loop_iteration [OF assms Suc.prems(1), where tip = tip and t = t, case_names returns iterates])
      case (returns r db')
      then show ?thesis by (simp add: loop_result_def)
    next
      case (iterates cur' height' db')
      have "loop_result B node tip tip_height db' (headers_loop B node tip tip_height (t + 1) cur' height' db')"
      proof (cases "unat height < unat height'")
        case True
        then have "unat tip_height - unat height' < unat tip_height - unat height" using iterates(2) by (auto simp: loop_inv_def)
        from less.hyps [OF this iterates(2)] show ?thesis .
      next
        case False
        with iterates(4) have same: "cur' = cur" "height' = height" by auto
        show ?thesis using Suc.IH [OF iterates(2) [unfolded same], of "t + 1"] Suc.prems(2) unfolding same by simp
      qed
      from loop_result_mono [OF this iterates(3)] show ?thesis unfolding iterates(1) .
    qed
  qed
  show ?case
  proof (cases "spins_at B node tip tip_height t cur height")
    case True
    then show ?thesis unfolding headers_loop_spins [OF True] loop_result_def by auto
  next
    case False
    then obtain k where "\<not> (cur \<noteq> tip \<and> unat height < unat tip_height \<and> stays B node tip_height (t + k) cur height)"
      unfolding spins_at_def by (metis le_iff_add)
    from wait [OF less.prems this] show ?thesis .
  qed
qed

lemma best_ancestor_starts:
  assumes "node_serves B node H db" "headers_wf B db" "main_tip \<noteq> all_zeros"
    and "fetch_best_ancestor node db main_tip h = Inr (Some (a, k))"
  shows "if a = main_tip then known db main_tip else loop_at B H db a k \<and> unat k \<le> unat h"
proof (cases "contains_header db main_tip")
  case True
  then have "a = main_tip" using assms(3,4) by (simp add: fetch_best_ancestor_def)
  then show ?thesis using True by (simp add: known_def contains_header_def)
next
  case False
  with assms(3,4) have f: "contains_header db a" "k < h" "\<exists>t. n_getblockhash node t k = Inr a"
    using best_ancestor_loop_found [of node db 0 None h a k] by (auto simp: fetch_best_ancestor_def)
  then have "height_db db a = Some k" using assms(1) unfolding node_serves_def by blast
  moreover have "a \<noteq> all_zeros" using f(1) assms(2) by (auto simp: contains_header_def headers_wf_def)
  ultimately have "loop_at B H db a k" using f(1) by (simp add: loop_at_def level_def contains_header_def)
  then show ?thesis using f False by (auto simp: word_less_nat_alt)
qed

text \<open>C18: \<open>sync_headers\<close>, whichever of its two sources of headers it uses: when it returns, it has kept
  the invariant of the header tables and every stored header, and if it succeeds the headers up to
  the tip of the node are stored. It always returns, unless it spins: from some iteration on, the REST endpoint
  answers every request for the headers from one block below the height of the tip with that
  block's own header alone, and the loop has no guard against a batch without progress.\<close>

theorem sync_headers_terminates:
  assumes "hash_distinct B H" "node_serves B node H db" "headers_wf B db" "ran (header_db db) \<subseteq> H"
  shows "case sync_headers B node main_tip db of
      Some (r, db') \<Rightarrow> headers_wf B db' \<and> header_db db \<subseteq>\<^sub>m header_db db' \<and> (r = Inr () \<longrightarrow> known db' main_tip)
    | None \<Rightarrow> \<exists>tip_height t0 cur height. n_height_of node main_tip = Inr tip_height \<and>
        spins_at B node main_tip tip_height t0 cur height"
proof -
  have loop: "case headers_loop B node main_tip h t cur height db of
      Some (r, db') \<Rightarrow> headers_wf B db' \<and> header_db db \<subseteq>\<^sub>m header_db db' \<and> (r = Inr () \<longrightarrow> known db' main_tip)
    | None \<Rightarrow> \<exists>t0 cur height. spins_at B node main_tip h t0 cur height"
    if "loop_at B H db cur height" "unat height \<le> unat h" for h t cur height
    using headers_loop_returns [OF assms(1,2), of h cur height db main_tip t] assms(3,4) that
    by (auto simp: known_def loop_inv_def loop_result_def split: option.splits)
  have genesis: "loop_at B H db g 0" if "n_getblockhash node 0 0 = Inr g" for g
    using that assms(2) unfolding loop_at_def node_serves_def by blast
  consider "main_tip = all_zeros" | (h) h where "main_tip \<noteq> all_zeros" "n_height_of node main_tip = Inr h"
    | e where "main_tip \<noteq> all_zeros" "n_height_of node main_tip = Inl e" by (metis sum.exhaust)
  then show ?thesis
  proof cases
    case (h h)
    consider (none) "fetch_best_ancestor node db main_tip h = Inr None"
      | (some) a k where "fetch_best_ancestor node db main_tip h = Inr (Some (a, k))"
      | e where "fetch_best_ancestor node db main_tip h = Inl e" by (metis sum.exhaust option.exhaust surj_pair)
    then show ?thesis
    proof cases
      case none
      show ?thesis
      proof (cases "n_getblockhash node 0 0")
        case (Inr g)
        from loop [OF genesis [OF Inr], of h 0] show ?thesis using h none Inr
          by (auto simp: sync_headers_def split: option.splits)
      qed (use h none assms(3) in \<open>simp add: sync_headers_def\<close>)
    next
      case (some a k)
      note st = best_ancestor_starts [OF assms(2,3) h(1) some]
      show ?thesis
      proof (cases "a = main_tip")
        case True
        then show ?thesis using h some st assms(3) by (simp add: sync_headers_def)
      next
        case False
        then show ?thesis using h some st loop [of a k h 0] by (auto simp: sync_headers_def split: option.splits)
      qed
    qed (use h assms(3) in \<open>simp add: sync_headers_def\<close>)
  qed (use assms(3) in \<open>simp_all add: sync_headers_def known_def\<close>)
qed

section \<open>A node one block ahead\<close>

definition sample_hashes :: "nat \<Rightarrow> blockhash" where
  "sample_hashes i = (if i = 0 then pad32 [1] else pad32 [2])"

definition sample_node :: node where
  "sample_node = \<lparr>n_height_of = (\<lambda>_. Inr 1), n_getblockhash = (\<lambda>_ k. Inr (sample_hashes (unat k))),
     n_hash_batch = (\<lambda>_ ks. Inr (Inr (map (sample_hashes \<circ> unat) ks))),
     n_header_batch = (\<lambda>_ hs. Inr (Inr (map (\<lambda>h. if h = pad32 [1] then ''0'' else ''1'') hs))),
     n_rest_headers = None, n_block_batch = (\<lambda>_ _. Inl ()), n_chainstates = (\<lambda>_. Inr []),
     n_cancelled = (\<lambda>_. False), n_cancelled_waiting = (\<lambda>_. False),
     d_header_hex = (\<lambda>raw. Some (if raw = ''0'' then fork_header 1 all_zeros else fork_header 2 (pad32 [1]))),
     d_header = (\<lambda>_. None), d_hex = (\<lambda>_. None), d_block = (\<lambda>_. None)\<rparr>"

definition genesis_tables :: block_hash_dbs where
  "genesis_tables = block_hash_dbs_empty\<lparr>header_db := [pad32 [1] \<mapsto> fork_header 1 all_zeros],
     height_db := [pad32 [1] \<mapsto> 0]\<rparr>"

lemma genesis_headers:
  "header_db genesis_tables = [pad32 [1] \<mapsto> fork_header 1 all_zeros]"
  "height_db genesis_tables = [pad32 [1] \<mapsto> 0]"
  by (simp_all add: genesis_tables_def)

lemma genesis_wf: "headers_wf sample_btc genesis_tables"
  using pad32_nonzero [of 1]
  by (auto simp: headers_wf_def genesis_headers fork_header_def known_def level_def split: if_splits)

lemma sample_headers_distinct:
  "hash_distinct sample_btc {fork_header 1 all_zeros, fork_header 2 (pad32 [1])}"
  using pad32_nonzero [of 1] pad32_nonzero [of 2] by (simp add: hash_distinct_def fork_header_def)

lemma sample_node_serves:
  "node_serves sample_btc sample_node {fork_header 1 all_zeros, fork_header 2 (pad32 [1])} genesis_tables"
  by (auto simp: node_serves_def sample_node_def sample_hashes_def contains_header_def genesis_headers
      fork_header_def word_unat_eq_iff split: if_splits)

theorem fetch_best_ancestor_correct_witness:
  "fetch_best_ancestor sample_node genesis_tables (pad32 [2]) 1 = Inr (Some (pad32 [1], 0))"
proof -
  have "fetch_best_ancestor sample_node genesis_tables (sample_hashes (unat (1 :: u32))) 1 =
      Inr (if (1 :: nat) = 0 then None else Some (sample_hashes (1 - 1), of_nat (1 - 1)))"
    by (rule fetch_best_ancestor_correct)
      (auto simp: sample_node_def sample_hashes_def contains_header_def genesis_headers pad32_nonzero
        split: if_splits)
  then show ?thesis by (simp add: sample_hashes_def)
qed

text \<open>The same node with its REST endpoint: two chunks of 80 bytes stand for the two headers. The second
  node answers with the requested header alone, and the loop spins.\<close>

definition sample_chunk :: "u8 \<Rightarrow> bytes" where
  "sample_chunk b = replicate 80 b"

lemma sample_chunk_simps [simp]: "(sample_chunk a = sample_chunk b) = (a = b)" "length (sample_chunk b) = 80" "sample_chunk b \<noteq> []"
  by (simp_all add: sample_chunk_def replicate_eq_replicate)

lemma chunks80_sample: "chunks80 [] = []" "chunks80 (sample_chunk b @ bs) = sample_chunk b # chunks80 bs"
  "chunks80 (sample_chunk b) = [sample_chunk b]"
proof -
  show nil: "chunks80 [] = []" by (subst chunks80.simps) simp
  show "chunks80 (sample_chunk b @ bs) = sample_chunk b # chunks80 bs" for bs by (subst chunks80.simps) simp
  from this [of "[]"] nil show "chunks80 (sample_chunk b) = [sample_chunk b]" by simp
qed

definition rest_node :: "(blockhash \<Rightarrow> nat \<Rightarrow> bytes) \<Rightarrow> node" where
  "rest_node answer = sample_node\<lparr>n_rest_headers := Some (\<lambda>_ h n. Inr (answer h n)),
     d_header := (\<lambda>bs. if bs = sample_chunk 1 then Some (fork_header 1 all_zeros)
       else if bs = sample_chunk 2 then Some (fork_header 2 (pad32 [1])) else None)\<rparr>"

definition both_headers :: "blockhash \<Rightarrow> nat \<Rightarrow> bytes" where
  "both_headers h n = (if n = 0 then [] else if h \<noteq> pad32 [1] then sample_chunk 2
     else if n = 1 then sample_chunk 1 else sample_chunk 1 @ sample_chunk 2)"

definition own_header :: "blockhash \<Rightarrow> nat \<Rightarrow> bytes" where
  "own_header h n = (if n = 0 then [] else if h \<noteq> pad32 [1] then sample_chunk 2 else sample_chunk 1)"

lemma rest_node_simps [simp]:
  "n_height_of (rest_node f) h = Inr 1" "n_getblockhash (rest_node f) t k = Inr (sample_hashes (unat k))"
  "n_cancelled (rest_node f) t = False" "n_rest_headers (rest_node f) = Some (\<lambda>_ h n. Inr (f h n))"
  "d_header (rest_node f) (sample_chunk 1) = Some (fork_header 1 all_zeros)"
  "d_header (rest_node f) (sample_chunk 2) = Some (fork_header 2 (pad32 [1]))"
  by (simp_all add: rest_node_def sample_node_def)

lemma rest_node_serves:
  assumes "\<And>h n hdrs. map (d_header (rest_node f)) (chunks80 (f h n)) = map Some hdrs \<Longrightarrow>
    linked_headers sample_btc hdrs \<and> length hdrs \<le> n"
  shows "node_serves sample_btc (rest_node f) {fork_header 1 all_zeros, fork_header 2 (pad32 [1])} genesis_tables"
proof -
  have "d_header_hex (rest_node f) = d_header_hex sample_node" "n_hash_batch (rest_node f) = n_hash_batch sample_node"
    "n_header_batch (rest_node f) = n_header_batch sample_node" "n_getblockhash (rest_node f) = n_getblockhash sample_node"
    by (simp_all add: rest_node_def)
  moreover have "\<forall>raw hdr. d_header (rest_node f) raw = Some hdr \<longrightarrow> hdr \<in> {fork_header 1 all_zeros, fork_header 2 (pad32 [1])}"
    by (simp add: rest_node_def)
  moreover have "linked_headers sample_btc hdrs \<and> length hdrs \<le> n" if "n_rest_headers (rest_node f) = Some rest" "rest t h n = Inr bs"
      "map (d_header (rest_node f)) (chunks80 bs) = map Some hdrs" for rest t h n bs hdrs
    by (rule assms [of h]) (use that in \<open>auto\<close>)
  ultimately show ?thesis using sample_node_serves unfolding node_serves_def by (intro conjI) (metis | blast)+
qed

lemma both_headers_serves:
  "node_serves sample_btc (rest_node both_headers) {fork_header 1 all_zeros, fork_header 2 (pad32 [1])} genesis_tables"
proof (rule rest_node_serves)
  fix h n hdrs
  assume m: "map (d_header (rest_node both_headers)) (chunks80 (both_headers h n)) = map Some hdrs"
  consider "n = 0" "chunks80 (both_headers h n) = []" | "n \<noteq> 0" "chunks80 (both_headers h n) = [sample_chunk 2]"
    | "n \<noteq> 0" "chunks80 (both_headers h n) = [sample_chunk 1]" | "2 \<le> n" "chunks80 (both_headers h n) = [sample_chunk 1, sample_chunk 2]"
    by (cases "n = 0"; cases "n = 1"; cases "h = pad32 [1]") (simp_all add: both_headers_def chunks80_sample)
  then show "linked_headers sample_btc hdrs \<and> length hdrs \<le> n"
    using m by cases (auto simp: Cons_eq_map_conv fork_header_def)
qed

lemma sample_batch_size: "height = 0 \<Longrightarrow> header_batch_size 1 height = 2"
  by (simp add: header_batch_size_def HEADER_FETCH_BATCH_SIZE_def)

lemma both_headers_no_spin: "\<not> spins_at sample_btc (rest_node both_headers) (pad32 [2]) 1 t0 cur height"
proof
  assume sp: "spins_at sample_btc (rest_node both_headers) (pad32 [2]) 1 t0 cur height"
  then have h: "height = 0" "cur \<noteq> pad32 [2]" by (auto simp: spins_at_def unat_eq_zero)
  from sp obtain hdr where f: "fetch_headers sample_btc (rest_node both_headers) t0 cur height (header_batch_size 1 height) = Inr [(hdr, cur, height)]"
    unfolding spins_at_def stays_def by blast
  show False using f h
    by (cases "cur = pad32 [1]") (auto simp: fetch_headers_def get_block_headers_def decode_block_headers_def sample_batch_size
      both_headers_def chunks80_sample offset_height_def checked_add_def fork_header_def split: if_splits)
qed

theorem sync_headers_terminates_witness:
  "\<exists>r db'. sync_headers sample_btc (rest_node both_headers) (pad32 [2]) genesis_tables = Some (r, db') \<and>
     headers_wf sample_btc db' \<and> header_db genesis_tables \<subseteq>\<^sub>m header_db db'"
proof -
  have "ran (header_db genesis_tables) \<subseteq> {fork_header 1 all_zeros, fork_header 2 (pad32 [1])}" by (simp add: genesis_headers)
  from sync_headers_terminates [OF sample_headers_distinct both_headers_serves genesis_wf this, of "pad32 [2]"]
  show ?thesis using both_headers_no_spin
    by (cases "sync_headers sample_btc (rest_node both_headers) (pad32 [2]) genesis_tables") auto
qed

lemma own_header_spins: "sync_headers sample_btc (rest_node own_header) (pad32 [2]) genesis_tables = None"
proof -
  have "best_ancestor_loop (rest_node own_header) genesis_tables 0 None 1 =
      Inr (if (1 :: nat) = 0 then None else Some (sample_hashes (1 - 1), of_nat (1 - 1)))"
    by (rule best_ancestor_loop_boundary [where chain = sample_hashes and n = 1])
      (auto simp: sample_hashes_def contains_header_def genesis_headers split: if_splits)
  then have a: "fetch_best_ancestor (rest_node own_header) genesis_tables (pad32 [2]) 1 = Inr (Some (pad32 [1], 0))"
    using pad32_nonzero [of 2] by (simp add: fetch_best_ancestor_def sample_hashes_def contains_header_def genesis_headers)
  have "spins_at sample_btc (rest_node own_header) (pad32 [2]) 1 0 (pad32 [1]) 0"
    by (simp add: spins_at_def stays_def fetch_headers_def get_block_headers_def decode_block_headers_def sample_batch_size
      own_header_def chunks80_sample offset_height_def checked_add_def fork_header_def)
  from headers_loop_spins [OF this] a show ?thesis by (simp add: sync_headers_def pad32_nonzero)
qed

end
