(* ===== verification/BlockSync.thy ===== *)
theory BlockSync
  imports HeaderSync
begin

text \<open>
  The steps of block synchronisation, \<open>src/lib/validator/task/mod.rs\<close>: handling a batch of
  blocks, connecting the blocks below the activation height from their headers, the disconnect
  loop of a reorganisation, the list of missing blocks, and the heights the node has no block
  data for (\<open>src/lib/validator/task/chainstates.rs\<close>).

  \<open>missing_blocks\<close> is a stack with the next block last, as in the code. Operations that commit
  some of their work before they fail return the tables and the broadcast events beside the
  result.
\<close>

section \<open>Batches of blocks\<close>

record invalid_block =
  ib_block_hash :: blockhash
  ib_reason :: connect_block_error

text \<open>Every block is connected in a nested transaction; a rejected block leaves no trace.\<close>

fun handle_block_batch ::
    "btc \<Rightarrow> ((m6id \<times> u16) list \<Rightarrow> (m6id \<times> u16) list) \<Rightarrow> (tx_ctips_infos \<Rightarrow> tx_ctips_infos) \<Rightarrow>
     block_handler \<Rightarrow> block list \<Rightarrow> event list \<Rightarrow> dbs \<Rightarrow>
     sync_error + invalid_block option \<times> event list \<times> dbs" where
  "handle_block_batch B srt ord bh [] events db = Inr (None, events, db)"
| "handle_block_batch B srt ord bh (block # blocks) events db =
     (case connect_block B srt ord bh block db of
        Inr (event, db) \<Rightarrow> handle_block_batch B srt ord bh blocks (events @ [event]) db
      | Inl err \<Rightarrow>
          if connect_fatal err then Inl (SE_ConnectBlock err)
          else Inr (Some \<lparr>ib_block_hash = b_block_hash B (blk_header block), ib_reason = err\<rparr>, events, db))"

definition handle_block_batch_and_commit ::
    "btc \<Rightarrow> ((m6id \<times> u16) list \<Rightarrow> (m6id \<times> u16) list) \<Rightarrow> (tx_ctips_infos \<Rightarrow> tx_ctips_infos) \<Rightarrow>
     block_handler \<Rightarrow> block list \<Rightarrow> dbs \<Rightarrow> (sync_error + invalid_block option) \<times> event list \<times> dbs" where
  "handle_block_batch_and_commit B srt ord bh blocks db =
     (case handle_block_batch B srt ord bh blocks [] db of
        Inl e \<Rightarrow> (Inl e, [], db)
      | Inr (invalid_block, events, db) \<Rightarrow> (Inr invalid_block, events, db))"

section \<open>Missing blocks\<close>

definition missing_blocks_connect_to_tip :: "btc \<Rightarrow> dbs \<Rightarrow> blockhash list \<Rightarrow> blockhash \<Rightarrow> sync_error + bool" where
  "missing_blocks_connect_to_tip B db missing_blocks main_tip =
     (let tip = (case current_chain_tip db of Some t \<Rightarrow> t | None \<Rightarrow> all_zeros) in
      if missing_blocks = [] then Inr (tip = main_tip)
      else case get_header_info B (block_hashes db) (last missing_blocks) of
        Inl e \<Rightarrow> Inl (SE_GetHeaderInfo e)
      | Inr header_info \<Rightarrow> Inr (hi_prev_block_hash header_info = tip))"

text \<open>The iterator \<open>ancestor_headers\<close> from the tip of the node up to the tip of the enforcer.\<close>

partial_function (option) missing_blocks_loop :: "block_hash_dbs \<Rightarrow> blockhash \<Rightarrow> blockhash \<Rightarrow>
    blockhash list \<Rightarrow> blockhash list option" where
  "missing_blocks_loop db enforcer_tip h collected =
     (case ancestor_next db h of
        None \<Rightarrow> Some collected
      | Some ((block_hash, _), parent) \<Rightarrow>
          if block_hash = enforcer_tip then Some collected
          else missing_blocks_loop db enforcer_tip parent (collected @ [block_hash]))"

section \<open>Blocks below the activation height\<close>

definition connect_block_from_header :: "btc \<Rightarrow> blockhash \<Rightarrow> dbs \<Rightarrow> sync_error + event \<times> dbs" where
  "connect_block_from_header B block_hash db =
     (case get_header_info B (block_hashes db) block_hash of
        Inl e \<Rightarrow> Inl (SE_GetHeaderInfo e)
      | Inr header_info \<Rightarrow>
     (case ensure_tip_is_parent db (hi_prev_block_hash header_info) of
        Inl e \<Rightarrow> Inl (SE_ConnectBlock (CB_Partial e))
      | Inr _ \<Rightarrow>
     (case empty_block_info_and_diff all_zeros of (block_info, block_diff) \<Rightarrow>
        (case record_block B header_info block_info block_diff db of
           Inl e \<Rightarrow> Inl (SE_ConnectBlock (CB_Finalize (FC_Record e)))
         | Inr r \<Rightarrow> Inr r))))"

definition PRE_ACTIVATION_BATCH_SIZE :: nat where
  "PRE_ACTIVATION_BATCH_SIZE = 10000"

text \<open>The inner loop: at most \<open>n\<close> more blocks in this transaction.\<close>

fun pre_activation_batch :: "btc \<Rightarrow> block_handler \<Rightarrow> nat \<Rightarrow> blockhash list \<Rightarrow> event list \<Rightarrow> dbs \<Rightarrow>
    sync_error + blockhash list \<times> event list \<times> dbs" where
  "pre_activation_batch B bh 0 missing events db = Inr (missing, events, db)"
| "pre_activation_batch B bh (Suc n) missing events db =
     (if missing = [] then Inr (missing, events, db)
      else case height_db (block_hashes db) (last missing) of
        None \<Rightarrow> Inl (SE_Db MissingValue)
      | Some height \<Rightarrow>
          if height < bip300_activation_height (bh_params bh) then
            (case connect_block_from_header B (last missing) db of
               Inl e \<Rightarrow> Inl e
             | Inr (event, db) \<Rightarrow> pre_activation_batch B bh n (butlast missing) (events @ [event]) db)
          else Inr (missing, events, db))"

lemma pre_activation_batch_pops:
  "pre_activation_batch B bh n missing events db = Inr (missing', events', db') \<Longrightarrow>
     length missing' + length events' = length missing + length events"
  by (induction B bh n missing events db rule: pre_activation_batch.induct)
    (auto split: if_splits option.splits sum.splits)

lemma pre_activation_batch_shrinks:
  "pre_activation_batch B bh n missing [] db = Inr (missing', events', db') \<Longrightarrow> events' \<noteq> [] \<Longrightarrow>
     length missing' < length missing"
  by (drule pre_activation_batch_pops) (simp flip: length_greater_0_conv)

text \<open>The outer loop. The result is the number of blocks connected, the blocks still missing, the
  events broadcast and the tables; batches before an error stay committed.\<close>

function connect_pre_activation_loop :: "btc \<Rightarrow> block_handler \<Rightarrow> (nat \<Rightarrow> bool) \<Rightarrow> nat \<Rightarrow> nat \<Rightarrow>
    blockhash list \<Rightarrow> event list \<Rightarrow> dbs \<Rightarrow> (sync_error + nat) \<times> blockhash list \<times> event list \<times> dbs" where
  "connect_pre_activation_loop B bh cancelled t connected missing sent db =
     (if cancelled t then (Inl Shutdown, missing, sent, db)
      else case pre_activation_batch B bh PRE_ACTIVATION_BATCH_SIZE missing [] db of
        Inl e \<Rightarrow> (Inl e, missing, sent, db)
      | Inr (missing', events, db') \<Rightarrow>
          if events = [] then (Inr connected, missing', sent, db)
          else connect_pre_activation_loop B bh cancelled (t + 1) (connected + length events) missing'
            (sent @ events) db')"
  by pat_completeness auto
termination
  by (relation "measure (\<lambda>(B, bh, cancelled, t, connected, missing, sent, db). length missing)")
    (auto intro: pre_activation_batch_shrinks)

declare connect_pre_activation_loop.simps [simp del]

definition connect_pre_activation_blocks :: "btc \<Rightarrow> block_handler \<Rightarrow> (nat \<Rightarrow> bool) \<Rightarrow> blockhash list \<Rightarrow>
    dbs \<Rightarrow> (sync_error + nat) \<times> blockhash list \<times> event list \<times> dbs" where
  "connect_pre_activation_blocks B bh cancelled missing db =
     (if bip300_activation_height (bh_params bh) = 0 then (Inr 0, missing, [], db)
      else connect_pre_activation_loop B bh cancelled 0 0 missing [] db)"

section \<open>Blocks the node has no data for\<close>

record background_sync =
  bs_snapshot_blockhash :: blockhash
  bs_background_height :: u32

definition snapshot_of :: "chainstate_info \<Rightarrow> blockhash option" where
  "snapshot_of cs = (if cs_validated cs \<noteq> Some True then cs_snapshot_blockhash cs else None)"

definition background_sync_of :: "chainstate_info list \<Rightarrow> sync_error + background_sync option" where
  "background_sync_of chainstates =
     (case find_map snapshot_of chainstates of
        None \<Rightarrow> Inr None
      | Some snapshot_blockhash \<Rightarrow>
          let heights = map (\<lambda>cs. case cs_blocks cs of Some k \<Rightarrow> k | None \<Rightarrow> 0)
            (filter (\<lambda>cs. cs_snapshot_blockhash cs = None) chainstates)
          in if heights = [] then Inl SE_MissingBackgroundChainstate
             else Inr (Some \<lparr>bs_snapshot_blockhash = snapshot_blockhash,
               bs_background_height = Max (set heights)\<rparr>))"

record block_data_gap =
  gap_background_height :: u32
  gap_snapshot_base_height :: u32

definition gap_contains :: "block_data_gap \<Rightarrow> u32 \<Rightarrow> bool" where
  "gap_contains gap height \<longleftrightarrow> gap_background_height gap < height \<and> height \<le> gap_snapshot_base_height gap"

definition block_data_gap_at :: "node \<Rightarrow> nat \<Rightarrow> block_hash_dbs \<Rightarrow> sync_error + block_data_gap option" where
  "block_data_gap_at node t db =
     (case n_chainstates node t of
        Inl _ \<Rightarrow> Inl (JsonRpc ''getchainstates'')
      | Inr chainstates \<Rightarrow>
     (case background_sync_of chainstates of
        Inl e \<Rightarrow> Inl e
      | Inr None \<Rightarrow> Inr None
      | Inr (Some bs) \<Rightarrow>
          (case height_db db (bs_snapshot_blockhash bs) of
             None \<Rightarrow> Inl (SnapshotBaseHeaderUnknown (bs_snapshot_blockhash bs))
           | Some snapshot_base_height \<Rightarrow>
               Inr (Some \<lparr>gap_background_height = bs_background_height bs,
                 gap_snapshot_base_height = snapshot_base_height\<rparr>))))"

section \<open>Reorganisations\<close>

definition tip_or_zeros :: "dbs \<Rightarrow> blockhash" where
  "tip_or_zeros db = (case current_chain_tip db of Some t \<Rightarrow> t | None \<Rightarrow> all_zeros)"

text \<open>The disconnect loop of \<open>sync_blocks\<close>, \<open>None\<close> where it does not return.\<close>

partial_function (option) disconnect_to :: "btc \<Rightarrow> blockhash \<Rightarrow> blockhash \<Rightarrow> event list \<Rightarrow> dbs \<Rightarrow>
    (sync_error + event list \<times> dbs) option" where
  "disconnect_to B lca current_tip events db =
     (if current_tip = lca then Some (Inr (events, db))
      else case disconnect_block B current_tip events db of
        Inl e \<Rightarrow> Some (Inl (SE_DisconnectBlock e))
      | Inr (events, db) \<Rightarrow> disconnect_to B lca (tip_or_zeros db) events db)"

text \<open>The first part of \<open>sync_blocks\<close>: back to the last common ancestor with the node.\<close>

definition reorganise :: "btc \<Rightarrow> blockhash \<Rightarrow> dbs \<Rightarrow> (sync_error + event list \<times> dbs) option" where
  "reorganise B main_tip db =
     (case last_common_ancestor (block_hashes db) (tip_or_zeros db) main_tip of
        Inl e \<Rightarrow> Some (Inl (SE_LastCommonAncestor e))
      | Inr lca \<Rightarrow>
          if tip_or_zeros db \<noteq> lca then disconnect_to B lca (tip_or_zeros db) [] db
          else Some (Inr ([], db)))"

section \<open>Disconnecting a chain of blocks\<close>

text \<open>What may happen to the tables between two blocks: headers arrive and BMM requests and mempool
  treasuries are noted, but the state of the chain, the headers and heights already stored and the
  diffs of the blocks \<open>hs\<close> stay, and the tables stay well-formed.\<close>

definition headers_le :: "block_hash_dbs \<Rightarrow> block_hash_dbs \<Rightarrow> bool" where
  "headers_le b b' \<longleftrightarrow> header_db b \<subseteq>\<^sub>m header_db b' \<and> height_db b \<subseteq>\<^sub>m height_db b'"

lemma headers_leD:
  assumes "headers_le b b'"
  shows "header_db b h = Some hdr \<Longrightarrow> header_db b' h = Some hdr" "height_db b h = Some k \<Longrightarrow> height_db b' h = Some k"
  using assms by (auto simp: headers_le_def map_le_def dom_def)

lemma headers_le_refl [simp]: "headers_le b b"
  by (simp add: headers_le_def)

lemma headers_le_trans: "headers_le a b \<Longrightarrow> headers_le b c \<Longrightarrow> headers_le a c"
  by (auto simp: headers_le_def intro: map_le_trans)

definition tables_grow :: "btc \<Rightarrow> block_hash_dbs \<Rightarrow> block_hash_dbs \<Rightarrow> bool" where
  "tables_grow B b b' \<longleftrightarrow> headers_le b b' \<and> (headers_wf B b \<longrightarrow> headers_wf B b') \<and> (diffs_wf b \<longrightarrow> diffs_wf b')"

lemma tables_grow_refl [simp]: "tables_grow B b b"
  by (simp add: tables_grow_def)

lemma tables_grow_trans: "tables_grow B a b \<Longrightarrow> tables_grow B b c \<Longrightarrow> tables_grow B a c"
  by (auto simp: tables_grow_def intro: headers_le_trans)

lemma headers_wf_cong:
  assumes "header_db b' = header_db b" "height_db b' = height_db b"
  shows "headers_wf B b' = headers_wf B b"
proof -
  have "known b' = known b" "level b' = level b" by (auto simp: fun_eq_iff known_def level_def assms)
  then show ?thesis by (simp add: headers_wf_def assms)
qed

lemma connect_tables_grow:
  assumes "connect_block B srt ord bh block db = Inr (ev, db')" "dbs_wf bh db" "block_ready B db block"
    "env_ok srt ord bh"
  shows "tables_grow B (block_hashes db) (block_hashes db')"
proof -
  from connect_block_leaves [OF assms]
  have h: "header_db (block_hashes db') = header_db (block_hashes db)"
    "height_db (block_hashes db') = height_db (block_hashes db)" by metis+
  moreover have "diffs_wf (block_hashes db')"
    using connect_preserves_wf [OF assms] by (simp add: dbs_wf_def tables_wf_def)
  ultimately show ?thesis by (simp add: tables_grow_def headers_le_def headers_wf_cong [OF h])
qed

definition grown :: "btc \<Rightarrow> blockhash list \<Rightarrow> dbs \<Rightarrow> dbs \<Rightarrow> bool" where
  "grown B hs db db' \<longleftrightarrow> chain_state db' = chain_state db \<and> tables_grow B (block_hashes db) (block_hashes db') \<and>
     (\<forall>h\<in>set hs. diff_db (block_hashes db') h = diff_db (block_hashes db) h)"

text \<open>Tables reached from \<open>db0\<close> by connecting the blocks \<open>hs\<close>, newest first.\<close>

inductive history :: "btc \<Rightarrow> ((m6id \<times> u16) list \<Rightarrow> (m6id \<times> u16) list) \<Rightarrow> (tx_ctips_infos \<Rightarrow> tx_ctips_infos) \<Rightarrow>
    block_handler \<Rightarrow> dbs \<Rightarrow> blockhash list \<Rightarrow> dbs \<Rightarrow> bool" for B srt ord bh db0 where
  start: "history B srt ord bh db0 [] db0"
| block: "history B srt ord bh db0 hs db \<Longrightarrow> dbs_wf bh db \<Longrightarrow> block_ready B db block \<Longrightarrow>
    connect_block B srt ord bh block db = Inr (ev, db') \<Longrightarrow>
    history B srt ord bh db0 (b_block_hash B (blk_header block) # hs) db'"
| grow: "history B srt ord bh db0 hs db \<Longrightarrow> grown B hs db db' \<Longrightarrow> history B srt ord bh db0 hs db'"

inductive_cases history_Nil: "history B srt ord bh db0 [] db"

lemma history_empty: "history B srt ord bh db0 hs db \<Longrightarrow> hs = [] \<Longrightarrow> chain_state db = chain_state db0"
  by (induction rule: history.induct) (auto simp: grown_def)

lemma history_tip:
  "history B srt ord bh db0 hs db \<Longrightarrow> env_ok srt ord bh \<Longrightarrow>
     current_chain_tip db = (case hs of [] \<Rightarrow> current_chain_tip db0 | h # _ \<Rightarrow> Some h)"
proof (induction rule: history.induct)
  case (block hs db blk ev db')
  then show ?case by (auto elim: connect_block_leaves [OF block.hyps(4,2,3)])
qed (auto simp: grown_def chain_state_def)

lemma connect_next_height:
  assumes "connect_block B srt ord bh block db = Inr (ev, db')" "dbs_wf bh db" "block_ready B db block"
    "env_ok srt ord bh"
  shows "next_height db' = next_height db + 1" "height_db (block_hashes db') = height_db (block_hashes db)"
proof -
  from connect_block_leaves [OF assms] obtain k where
    "current_chain_tip db' = Some (b_block_hash B (blk_header block))"
    "height_db (block_hashes db') = height_db (block_hashes db)"
    "height_db (block_hashes db) (b_block_hash B (blk_header block)) = Some k" by metis
  then show "next_height db' = next_height db + 1" "height_db (block_hashes db') = height_db (block_hashes db)"
    using assms(3) by (auto simp: block_ready_def Let_def next_height_def)
qed

text \<open>Blocks of a history are below the next height, so a new block is not among them.\<close>

lemma history_heights:
  assumes "history B srt ord bh db0 hs db" "env_ok srt ord bh"
  shows "\<forall>g\<in>set hs. \<exists>k. height_db (block_hashes db) g = Some k \<and> unat k < next_height db"
  using assms(1)
proof (induction rule: history.induct)
  case (block hs db blk ev db')
  note n = connect_next_height [OF block.hyps(4,2,3) assms(2)]
  have "\<exists>k. height_db (block_hashes db) (b_block_hash B (blk_header blk)) = Some k \<and> unat k = next_height db"
    using block.hyps(3) by (auto simp: block_ready_def Let_def)
  then show ?case using block.IH n by fastforce
next
  case (grow hs db db')
  show ?case
  proof (cases hs)
    case (Cons h tl)
    with history_tip [OF grow.hyps(1) assms(2)] have t: "current_chain_tip db = Some h" by simp
    from grow.IH Cons obtain k where k: "height_db (block_hashes db) h = Some k" by auto
    have g: "headers_le (block_hashes db) (block_hashes db')" "current_chain_tip db' = Some h"
      using grow.hyps(2) t by (simp_all add: grown_def chain_state_def tables_grow_def)
    have "next_height db' = next_height db"
      using k headers_leD(2) [OF g(1) k] g(2) t by (simp add: next_height_def)
    then show ?thesis using grow.IH headers_leD(2) [OF g(1)] by metis
  qed simp
qed simp

lemma history_new:
  assumes "history B srt ord bh db0 hs db" "env_ok srt ord bh" "block_ready B db block"
  shows "b_block_hash B (blk_header block) \<notin> set hs"
  using history_heights [OF assms(1,2)] assms(3) by (fastforce simp: block_ready_def Let_def)

lemma history_distinct:
  assumes "history B srt ord bh db0 hs db" "env_ok srt ord bh"
  shows "distinct hs"
  using assms(1)
proof (induction rule: history.induct)
  case (block hs db blk ev db')
  then show ?case using history_new [OF block.hyps(1) assms(2) block.hyps(3)] by simp
qed auto

lemma history_nonzero:
  assumes "history B srt ord bh db0 hs db" "env_ok srt ord bh"
  shows "all_zeros \<notin> set hs"
  using assms(1) by (induction rule: history.induct) (auto simp: block_ready_def Let_def)

text \<open>Along a history the stored headers and heights stay, and the next height counts the blocks.\<close>

lemma history_tables:
  assumes "history B srt ord bh db0 hs db" "env_ok srt ord bh"
  shows "tables_grow B (block_hashes db0) (block_hashes db)"
  using assms(1)
proof (induction rule: history.induct)
  case (block hs db blk ev db')
  then show ?case using connect_tables_grow [OF block.hyps(4,2,3) assms(2)] tables_grow_trans by blast
qed (auto simp: grown_def intro: tables_grow_trans)

lemmas history_headers = history_tables [unfolded tables_grow_def, THEN conjunct1]

text \<open>Tables to start from: well-formed, with a tip of known height.\<close>

definition base_ok :: "block_handler \<Rightarrow> dbs \<Rightarrow> bool" where
  "base_ok bh db \<longleftrightarrow> dbs_wf bh db \<and>
     (\<forall>t. current_chain_tip db = Some t \<longrightarrow> height_db (block_hashes db) t \<noteq> None)"

lemma history_wf:
  assumes "history B srt ord bh db0 hs db" "env_ok srt ord bh" "base_ok bh db0"
  shows "dbs_wf bh db"
  using assms(1)
proof (induction rule: history.induct)
  case start
  then show ?case using assms(3) by (simp add: base_ok_def)
next
  case (block hs db blk ev db')
  then show ?case using connect_preserves_wf [OF block.hyps(4,2,3) assms(2)] by simp
next
  case (grow hs db db')
  have cs: "chain_state db' = chain_state db" and tg: "tables_grow B (block_hashes db) (block_hashes db')"
    using grow.hyps(2) by (auto simp: grown_def)
  have known: "height_db (block_hashes db) t \<noteq> None" if "current_chain_tip db = Some t" for t
    using that history_tip [OF grow.hyps(1) assms(2)] history_heights [OF grow.hyps(1) assms(2)] assms(3)
      headers_leD(2) [OF history_headers [OF grow.hyps(1) assms(2)]]
    by (cases hs) (auto simp: base_ok_def)
  have "next_height db' = next_height db"
    using cs known headers_leD(2) [of "block_hashes db" "block_hashes db'"] tg
    by (auto simp: next_height_def chain_state_def tables_grow_def split: option.splits)
  then show ?case using grow.IH cs tg by (simp add: dbs_wf_def tables_wf_def chain_state_def tables_grow_def)
qed

lemma history_next_height:
  assumes "history B srt ord bh db0 hs db" "env_ok srt ord bh"
    "current_chain_tip db0 = Some t" "height_db (block_hashes db0) t = Some k"
  shows "next_height db = unat k + 1 + length hs"
  using assms(1)
proof (induction rule: history.induct)
  case start
  then show ?case using assms(3,4) by (simp add: next_height_def)
next
  case (block hs db blk ev db')
  then show ?case using connect_next_height(1) [OF block.hyps(4,2,3) assms(2)] by simp
next
  case (grow hs db db')
  have tip: "current_chain_tip db' = current_chain_tip db" "headers_le (block_hashes db) (block_hashes db')"
    using grow.hyps(2) by (simp_all add: grown_def chain_state_def tables_grow_def)
  have "\<exists>t' k'. current_chain_tip db = Some t' \<and> height_db (block_hashes db) t' = Some k'"
    using history_tip [OF grow.hyps(1) assms(2)] history_heights [OF grow.hyps(1) assms(2)] assms(3,4)
      headers_leD(2) [OF history_headers [OF grow.hyps(1) assms(2)]]
    by (cases hs) auto
  then show ?case using grow.IH tip headers_leD(2) [OF tip(2)] by (auto simp: next_height_def)
qed

text \<open>What the newest block left in the tables, and the tables before it.\<close>

lemma history_newest:
  assumes "history B srt ord bh db0 hs' x" "hs' = h # hs" "env_ok srt ord bh"
  shows "\<exists>db d k db1 hdr. history B srt ord bh db0 hs db \<and> ok_block k d db \<and> apply_block k d db = Inr db1 \<and>
    active_sidechains x = active_sidechains db1 \<and>
    proposal_id_to_sidechain x = proposal_id_to_sidechain db1 \<and> current_chain_tip x = Some h \<and>
    diff_db (block_hashes x) h = Some d \<and> header_db (block_hashes x) h = Some hdr \<and>
    b_block_hash B hdr = h \<and> height_db (block_hashes x) h = Some k \<and>
    current_chain_tip db = (if hdr_prev_blockhash hdr = all_zeros then None else Some (hdr_prev_blockhash hdr)) \<and>
    tables_grow B (block_hashes db) (block_hashes x) \<and>
    (\<forall>g\<in>set hs. diff_db (block_hashes x) g = diff_db (block_hashes db) g)"
  using assms(1,2)
proof (induction rule: history.induct)
  case (block hs1 db blk ev db')
  then have eq: "hs1 = hs" "h = b_block_hash B (blk_header blk)" by auto
  have new: "h \<notin> set hs" using history_new [OF block.hyps(1) assms(3) block.hyps(3)] eq by simp
  have hdr: "header_db (block_hashes db) h = Some (blk_header blk)"
    using block.hyps(3) eq by (simp add: block_ready_def Let_def)
  from connect_block_leaves [OF block.hyps(4,2,3) assms(3)] obtain k d db1 where
    l: "ok_block k d db" "apply_block k d db = Inr db1" "active_sidechains db' = active_sidechains db1"
      "proposal_id_to_sidechain db' = proposal_id_to_sidechain db1" "current_chain_tip db' = Some h"
      "diff_db (block_hashes db') = (diff_db (block_hashes db))(h := Some d)"
      "header_db (block_hashes db') = header_db (block_hashes db)"
      "height_db (block_hashes db') = height_db (block_hashes db)"
      "height_db (block_hashes db) h = Some k" unfolding eq by metis
  show ?case
    by (rule exI [of _ db], rule exI [of _ d], rule exI [of _ k], rule exI [of _ db1], rule exI [of _ "blk_header blk"])
      (use l hdr eq block.hyps(1) new connect_tip_before [OF block.hyps(4,2)]
         connect_tables_grow [OF block.hyps(4,2,3) assms(3)] in auto)
next
  case (grow hs1 db db')
  from grow.hyps(2) grow.prems have g: "active_sidechains db' = active_sidechains db"
    "proposal_id_to_sidechain db' = proposal_id_to_sidechain db" "current_chain_tip db' = current_chain_tip db"
    "\<forall>g\<in>set (h # hs). diff_db (block_hashes db') g = diff_db (block_hashes db) g"
    "tables_grow B (block_hashes db) (block_hashes db')"
    by (simp_all add: grown_def chain_state_def)
  have le: "headers_le (block_hashes db) (block_hashes db')" using g(5) by (simp add: tables_grow_def)
  from grow.IH [OF grow.prems] show ?case
    unfolding g(1-3) using g(4) headers_leD [OF le] tables_grow_trans [OF _ g(5)]
    by (elim exE conjE, intro exI conjI) auto
qed simp

text \<open>Disconnecting the newest block leads back to tables reached with the blocks before it.\<close>

lemma history_disconnect:
  assumes "history B srt ord bh db0 (h # hs) x" "env_ok srt ord bh"
  shows "\<exists>y. disconnect_block B h evs x = Inr (evs @ [DisconnectBlock h], y) \<and>
    history B srt ord bh db0 hs y \<and> block_hashes y = block_hashes x"
proof -
  from history_newest [OF assms(1) refl assms(2)] obtain db d k db1 hdr where
    hist: "history B srt ord bh db0 hs db" and ok: "ok_block k d db" "apply_block k d db = Inr db1"
    and x: "active_sidechains x = active_sidechains db1"
      "proposal_id_to_sidechain x = proposal_id_to_sidechain db1" "current_chain_tip x = Some h"
    and st: "diff_db (block_hashes x) h = Some d" "header_db (block_hashes x) h = Some hdr"
      "b_block_hash B hdr = h" "height_db (block_hashes x) h = Some k"
    and tip: "current_chain_tip db = (if hdr_prev_blockhash hdr = all_zeros then None
      else Some (hdr_prev_blockhash hdr))"
    and rest: "tables_grow B (block_hashes db) (block_hashes x)"
      "\<forall>g\<in>set hs. diff_db (block_hashes x) g = diff_db (block_hashes db) g" by blast
  let ?y = "x\<lparr>active_sidechains := active_sidechains db, proposal_id_to_sidechain := proposal_id_to_sidechain db,
      current_chain_tip := (if hdr_prev_blockhash hdr = all_zeros then None
        else Some (hdr_prev_blockhash hdr))\<rparr>"
  have "grown B hs db ?y" using rest tip by (simp add: grown_def chain_state_def)
  with hist have "history B srt ord bh db0 hs ?y" by (rule history.grow)
  with disconnect_applied [OF ok x st, of evs] show ?thesis by auto
qed

lemma disconnect_to_history:
  assumes "env_ok srt ord bh"
  shows "history B srt ord bh db0 (ds @ hs) x \<Longrightarrow> lca = (case hs of [] \<Rightarrow> tip_or_zeros db0 | h # _ \<Rightarrow> h) \<Longrightarrow>
    lca \<notin> set ds \<Longrightarrow>
    \<exists>y. disconnect_to B lca (tip_or_zeros x) evs x = Some (Inr (evs @ map DisconnectBlock ds, y)) \<and>
      history B srt ord bh db0 hs y \<and> block_hashes y = block_hashes x"
proof (induction ds arbitrary: x evs)
  case Nil
  have "tip_or_zeros x = lca"
    using history_tip [OF Nil.prems(1) assms] Nil.prems(2)
    by (auto simp: tip_or_zeros_def split: list.splits)
  then show ?case using Nil.prems(1) by (subst disconnect_to.simps) auto
next
  case (Cons h ds)
  have tip: "tip_or_zeros x = h" "h \<noteq> lca"
    using history_tip [OF Cons.prems(1) assms] Cons.prems(3) by (auto simp: tip_or_zeros_def)
  from history_disconnect [of B srt ord bh db0 h "ds @ hs" x evs] Cons.prems(1) assms obtain y where
    y: "disconnect_block B h evs x = Inr (evs @ [DisconnectBlock h], y)"
      "history B srt ord bh db0 (ds @ hs) y" "block_hashes y = block_hashes x" by auto
  from Cons.IH [OF y(2) Cons.prems(2), of "evs @ [DisconnectBlock h]"] Cons.prems(3) obtain z where
    "disconnect_to B lca (tip_or_zeros y) (evs @ [DisconnectBlock h]) y =
       Some (Inr ((evs @ [DisconnectBlock h]) @ map DisconnectBlock ds, z))" "history B srt ord bh db0 hs z"
    "block_hashes z = block_hashes y" by auto
  then show ?case using tip y(1,3) by (subst disconnect_to.simps) simp
qed

text \<open>C15: a reorganisation undoes the blocks of the old branch and nothing else. When the blocks
  \<open>hs\<close> were connected on top of \<open>db0\<close>, whose tip is the last common ancestor with the node, the
  disconnect loop ends, reports the disconnected blocks newest first, and leaves the state of the
  chain as it was at the common ancestor.\<close>

theorem reorganisation_restores:
  assumes "history B srt ord bh db0 hs db" "env_ok srt ord bh"
    and "last_common_ancestor (block_hashes db) (tip_or_zeros db) main_tip = Inr (tip_or_zeros db0)"
    and "tip_or_zeros db0 \<notin> set hs"
  shows "\<exists>db'. reorganise B main_tip db = Some (Inr (map DisconnectBlock hs, db')) \<and>
    chain_state db' = chain_state db0"
proof -
  from disconnect_to_history [OF assms(2), of B db0 hs "[]" db "tip_or_zeros db0" "[]"] assms(1,4)
  obtain y where y: "disconnect_to B (tip_or_zeros db0) (tip_or_zeros db) [] db = Some (Inr (map DisconnectBlock hs, y))"
    "history B srt ord bh db0 [] y" by auto
  have "chain_state y = chain_state db0" by (rule history_empty [OF y(2) refl])
  show ?thesis
  proof (cases "tip_or_zeros db = tip_or_zeros db0")
    case False
    then show ?thesis using y assms(3) history_empty [OF y(2) refl] by (simp add: reorganise_def)
  next
    case True
    then have "disconnect_to B (tip_or_zeros db0) (tip_or_zeros db) [] db = Some (Inr ([], db))"
      by (subst disconnect_to.simps) simp
    then show ?thesis using y True assms(3) history_empty [OF y(2) refl] by (simp add: reorganise_def)
  qed
qed

section \<open>A batch connects its valid prefix\<close>

text \<open>The blocks of a batch that connect are ready when their turn comes.\<close>

fun batch_ready :: "btc \<Rightarrow> ((m6id \<times> u16) list \<Rightarrow> (m6id \<times> u16) list) \<Rightarrow> (tx_ctips_infos \<Rightarrow> tx_ctips_infos) \<Rightarrow>
    block_handler \<Rightarrow> block list \<Rightarrow> dbs \<Rightarrow> bool" where
  "batch_ready B srt ord bh [] db = True"
| "batch_ready B srt ord bh (b # bs) db \<longleftrightarrow>
     (case connect_block B srt ord bh b db of Inl _ \<Rightarrow> True
      | Inr (_, db') \<Rightarrow> block_ready B db b \<and> batch_ready B srt ord bh bs db')"

text \<open>Blocks that are ready whenever they connect to tables reached from \<open>db0\<close>.\<close>

definition sound_blocks :: "btc \<Rightarrow> ((m6id \<times> u16) list \<Rightarrow> (m6id \<times> u16) list) \<Rightarrow> (tx_ctips_infos \<Rightarrow> tx_ctips_infos) \<Rightarrow>
    block_handler \<Rightarrow> dbs \<Rightarrow> block set \<Rightarrow> bool" where
  "sound_blocks B srt ord bh db0 S \<longleftrightarrow>
     (\<forall>hs x b r. history B srt ord bh db0 hs x \<longrightarrow> b \<in> S \<longrightarrow>
        connect_block B srt ord bh b x = Inr r \<longrightarrow> block_ready B x b)"

lemma sound_batch_ready:
  assumes "sound_blocks B srt ord bh db0 S" "env_ok srt ord bh"
  shows "history B srt ord bh db0 hs x \<Longrightarrow> dbs_wf bh x \<Longrightarrow> set bs \<subseteq> S \<Longrightarrow> batch_ready B srt ord bh bs x"
proof (induction bs arbitrary: hs x)
  case (Cons b bs)
  show ?case
  proof (cases "connect_block B srt ord bh b x")
    case (Inr r)
    obtain ev y where r: "connect_block B srt ord bh b x = Inr (ev, y)" using Inr by (cases r) simp
    have rd: "block_ready B x b"
      using assms(1) Cons.prems(1,3) r unfolding sound_blocks_def by (meson list.set_intros(1) subsetD)
    have "history B srt ord bh db0 (b_block_hash B (blk_header b) # hs) y"
      by (rule history.block [OF Cons.prems(1,2) rd r])
    from Cons.IH [OF this connect_preserves_wf [OF r Cons.prems(2) rd assms(2)]] Cons.prems(3)
    show ?thesis using r rd by simp
  qed simp
qed simp

lemma handle_block_batch_prefix:
  assumes "env_ok srt ord bh"
  shows "handle_block_batch B srt ord bh bs evs db = Inr (bad, evs', db') \<Longrightarrow> dbs_wf bh db \<Longrightarrow>
    batch_ready B srt ord bh bs db \<Longrightarrow> history B srt ord bh db0 hs db \<Longrightarrow>
    \<exists>n\<le>length bs. dbs_wf bh db' \<and> length evs' = length evs + n \<and>
      history B srt ord bh db0 (rev (map (\<lambda>b. b_block_hash B (blk_header b)) (take n bs)) @ hs) db' \<and>
      (case bad of None \<Rightarrow> n = length bs
       | Some ib \<Rightarrow> n < length bs \<and> ib_block_hash ib = b_block_hash B (blk_header (bs ! n)) \<and>
           connect_block B srt ord bh (bs ! n) db' = Inl (ib_reason ib) \<and> \<not> connect_fatal (ib_reason ib))"
proof (induction bs arbitrary: evs db hs)
  case Nil
  then show ?case by simp
next
  case (Cons b bs)
  show ?case
  proof (cases "connect_block B srt ord bh b db")
    case (Inl e)
    with Cons.prems show ?thesis by (intro exI [of _ 0]) (auto split: if_splits)
  next
    case (Inr r)
    obtain ev db1 where r: "connect_block B srt ord bh b db = Inr (ev, db1)" using Inr by (cases r) simp
    from Cons.prems(3) r have rd: "block_ready B db b" "batch_ready B srt ord bh bs db1" by auto
    have hist: "history B srt ord bh db0 (b_block_hash B (blk_header b) # hs) db1"
      by (rule history.block [OF Cons.prems(4,2) rd(1) r])
    have wf: "dbs_wf bh db1" by (rule connect_preserves_wf [OF r Cons.prems(2) rd(1) assms])
    have rest: "handle_block_batch B srt ord bh bs (evs @ [ev]) db1 = Inr (bad, evs', db')"
      using Cons.prems(1) r by simp
    from Cons.IH [OF rest wf rd(2) hist] obtain n where n: "n \<le> length bs" "dbs_wf bh db'"
      "length evs' = length (evs @ [ev]) + n"
      "history B srt ord bh db0 (rev (map (\<lambda>b. b_block_hash B (blk_header b)) (take n bs)) @
         b_block_hash B (blk_header b) # hs) db'"
      "case bad of None \<Rightarrow> n = length bs
       | Some ib \<Rightarrow> n < length bs \<and> ib_block_hash ib = b_block_hash B (blk_header (bs ! n)) \<and>
           connect_block B srt ord bh (bs ! n) db' = Inl (ib_reason ib) \<and> \<not> connect_fatal (ib_reason ib)"
      by blast
    then show ?thesis by (intro exI [of _ "Suc n"]) (auto split: option.splits)
  qed
qed

text \<open>C16: a batch connects its valid prefix. A fatal error leaves the tables as they were and
  broadcasts nothing. Otherwise the blocks before the first rejected one are connected, one event
  each, and the invariant holds; the rejected block is reported with its error, which is not fatal
  and which it gives on the tables left behind.\<close>

theorem batch_commits_valid_prefix:
  assumes "handle_block_batch_and_commit B srt ord bh bs db = (r, evs, db')"
    and "dbs_wf bh db" "batch_ready B srt ord bh bs db" "env_ok srt ord bh"
  shows "case r of Inl _ \<Rightarrow> evs = [] \<and> db' = db
    | Inr bad \<Rightarrow> \<exists>n\<le>length bs. dbs_wf bh db' \<and> length evs = n \<and>
      history B srt ord bh db (rev (map (\<lambda>b. b_block_hash B (blk_header b)) (take n bs))) db' \<and>
      (case bad of None \<Rightarrow> n = length bs
       | Some ib \<Rightarrow> n < length bs \<and> ib_block_hash ib = b_block_hash B (blk_header (bs ! n)) \<and>
           connect_block B srt ord bh (bs ! n) db' = Inl (ib_reason ib) \<and> \<not> connect_fatal (ib_reason ib))"
proof (cases "handle_block_batch B srt ord bh bs [] db")
  case (Inl e)
  then show ?thesis using assms(1) by (auto simp: handle_block_batch_and_commit_def)
next
  case (Inr x)
  then have h: "handle_block_batch B srt ord bh bs [] db = Inr (case r of Inr bad \<Rightarrow> bad, evs, db')"
    and r: "\<exists>bad. r = Inr bad" using assms(1) by (auto simp: handle_block_batch_and_commit_def split: prod.splits)
  from handle_block_batch_prefix [OF assms(4) h assms(2,3) history.start] r show ?thesis by auto
qed

section \<open>Blocks below the activation height need no body\<close>

lemma record_block_coinbase_txid:
  "record_block B hi bi d db = Inr (ev, db') \<Longrightarrow>
   record_block B hi (bi\<lparr>bi_coinbase_txid := x\<rparr>) d db = Inr (ConnectBlock hi (bi\<lparr>bi_coinbase_txid := x\<rparr>),
     db'\<lparr>block_hashes := (block_hashes db')\<lparr>coinbase_txid_db :=
       (coinbase_txid_db (block_hashes db'))(hi_block_hash hi := Some x)\<rparr>\<rparr>)"
  by (auto simp: record_block_def Let_def put_block_info_def split: option.splits sum.splits if_splits)

lemma record_block_coinbase_txid_Inl:
  "record_block B hi bi d db = Inl e \<Longrightarrow> record_block B hi (bi\<lparr>bi_coinbase_txid := x\<rparr>) d db = Inl e"
  by (auto simp: record_block_def Let_def put_block_info_def split: option.splits sum.splits if_splits)

lemma pre_activation_equiv:
  fixes block :: block and B :: btc
  defines "hash \<equiv> b_block_hash B (blk_header block)"
  assumes "header_db (block_hashes db) hash = Some (blk_header block)"
    and "height_db (block_hashes db) hash = Some height" "height < bip300_activation_height (bh_params bh)"
    and "blk_txdata block \<noteq> []"
  shows "case connect_block B srt ord bh block db of
      Inl e \<Rightarrow> connect_block_from_header B hash db = Inl (SE_ConnectBlock e)
    | Inr (ev, db') \<Rightarrow> \<exists>ev'. connect_block_from_header B hash db = Inr (ev',
        db'\<lparr>block_hashes := (block_hashes db')\<lparr>coinbase_txid_db :=
          (coinbase_txid_db (block_hashes db'))(hash := Some all_zeros)\<rparr>\<rparr>)"
proof -
  obtain cb txs where tx: "blk_txdata block = cb # txs" using assms(5) by (cases "blk_txdata block") auto
  let ?hi = "\<lparr>hi_block_hash = hash, hi_prev_block_hash = hdr_prev_blockhash (blk_header block),
    hi_height = height, hi_work = b_work B (blk_header block), hi_timestamp = hdr_time (blk_header block)\<rparr>"
  let ?bi = "\<lparr>bi_bmm_commitments = [], bi_coinbase_txid = b_compute_txid B cb, bi_events = []\<rparr>"
  let ?d = "\<lparr>bd_coinbase = \<lparr>cd_msgs = [], cd_failed_proposals = (\<lambda>_. None), cd_failed_m6ids = []\<rparr>, bd_txs = []\<rparr>"
  have gi: "get_header_info B (block_hashes db) hash = Inr ?hi"
    using assms(2,3) by (simp add: get_header_info_def try_get_header_info_def hash_def)
  show ?thesis
  proof (cases "ensure_tip_is_parent db (hdr_prev_blockhash (blk_header block))")
    case (Inl e)
    then show ?thesis using gi
      by (simp add: connect_block_def partial_connect_block_def Let_def connect_block_from_header_def)
  next
    case (Inr u)
    have c: "connect_block B srt ord bh block db = (case record_block B ?hi ?bi ?d db of
        Inl e \<Rightarrow> Inl (CB_Finalize (FC_Record e)) | Inr r \<Rightarrow> Inr r)"
      using Inr assms(3,4) tx
      by (simp add: connect_block_def partial_connect_block_def Let_def hash_def empty_block_info_and_diff_def
          finalize_connect_block_def uc_default_def split: sum.splits)
    have f: "connect_block_from_header B hash db = (case record_block B ?hi (?bi\<lparr>bi_coinbase_txid := all_zeros\<rparr>) ?d db of
        Inl e \<Rightarrow> Inl (SE_ConnectBlock (CB_Finalize (FC_Record e))) | Inr r \<Rightarrow> Inr r)"
      using Inr gi by (simp add: connect_block_from_header_def empty_block_info_and_diff_def)
    show ?thesis
    proof (cases "record_block B ?hi ?bi ?d db")
      case (Inl e)
      show ?thesis unfolding c f Inl sum.case
        using record_block_coinbase_txid_Inl [OF Inl, of all_zeros] by simp
    next
      case (Inr r)
      obtain ev db' where r: "record_block B ?hi ?bi ?d db = Inr (ev, db')" using Inr by (cases r) simp
      show ?thesis unfolding c f r sum.case prod.case
        using record_block_coinbase_txid [OF r, of all_zeros] by simp
    qed
  qed
qed

text \<open>Below the activation height, connecting a block from its stored header does what connecting
  the block does: the same error or success, and the same tables except for the coinbase
  transaction id, which is null.\<close>

theorem pre_activation_needs_no_body:
  fixes block :: block and B :: btc
  defines "hash \<equiv> b_block_hash B (blk_header block)"
  assumes "header_db (block_hashes db) hash = Some (blk_header block)"
    and "height_db (block_hashes db) hash = Some height" "height < bip300_activation_height (bh_params bh)"
    and "blk_txdata block \<noteq> []"
  shows "case connect_block B srt ord bh block db of
      Inl e \<Rightarrow> connect_block_from_header B hash db = Inl (SE_ConnectBlock e)
    | Inr (ev, db') \<Rightarrow> \<exists>ev'. connect_block_from_header B hash db = Inr (ev',
        db'\<lparr>block_hashes := (block_hashes db')\<lparr>coinbase_txid_db :=
          (coinbase_txid_db (block_hashes db'))(hash := Some all_zeros)\<rparr>\<rparr>)"
  using pre_activation_equiv [OF assms(2-)[unfolded hash_def]] unfolding hash_def .

section \<open>The missing blocks\<close>

text \<open>The missing blocks are the path from the tip of the node down to the tip of the enforcer,
  newest first, without the latter.\<close>

lemma missing_blocks_loop_path:
  assumes "headers_wf B db"
  shows "ancestor db tip h \<Longrightarrow> known db h \<Longrightarrow>
    \<exists>hs. missing_blocks_loop db tip h acc = Some (acc @ hs) \<and> skip_ancestors db h (length hs) 0 = Inr tip \<and>
      (\<forall>i<length hs. skip_ancestors db h i 0 = Inr (hs ! i)) \<and> tip \<notin> set hs \<and>
      length hs + level db tip = level db h"
proof (induction arbitrary: acc rule: ancestor.induct)
  case (self h)
  then show ?case
    by (subst missing_blocks_loop.simps) (auto simp: ancestor_next_def split: option.splits)
next
  case (parent h hdr a)
  note wf = headers_wfD [OF assms parent.hyps(1)]
  have ne: "h \<noteq> a" using ancestor_level [OF assms parent.hyps(2) wf(3)] wf(4) by auto
  from parent.IH [OF wf(3), of "acc @ [h]"] obtain hs where
    hs: "missing_blocks_loop db a (hdr_prev_blockhash hdr) (acc @ [h]) = Some ((acc @ [h]) @ hs)"
      "skip_ancestors db (hdr_prev_blockhash hdr) (length hs) 0 = Inr a"
      "\<forall>i<length hs. skip_ancestors db (hdr_prev_blockhash hdr) i 0 = Inr (hs ! i)" "a \<notin> set hs"
      "length hs + level db a = level db (hdr_prev_blockhash hdr)" by blast
  have "missing_blocks_loop db a h acc = Some (acc @ h # hs)"
    using parent.hyps(1) ne hs(1) by (subst missing_blocks_loop.simps) (simp add: ancestor_next_def)
  moreover have "skip_ancestors db h (length (h # hs)) 0 = Inr a"
    using parent.hyps(1) hs(2) by (simp add: ancestor_next_def skip_ancestors_depth [of _ _ _ 1])
  moreover have "skip_ancestors db h i 0 = Inr ((h # hs) ! i)" if "i < length (h # hs)" for i
    using that parent.hyps(1) hs(3) by (cases i) (auto simp: ancestor_next_def skip_ancestors_depth [of _ _ _ 1])
  ultimately show ?case using hs(4,5) ne wf(4) by (intro exI [of _ "h # hs"]) auto
qed

section \<open>Witnesses\<close>

lemma sample_block_hash: "b_block_hash sample_btc (blk_header sample_block) = sample_hash"
  by (simp add: sample_block_def)

lemma sample_batch_ready: "batch_ready sample_btc sort_by_votes id sample_handler [sample_block] sample_chain"
  using sample_ready by (auto split: sum.splits)

theorem batch_commits_valid_prefix_witness:
  "\<exists>evs db'. handle_block_batch_and_commit sample_btc sort_by_votes id sample_handler [sample_block] sample_chain =
     (Inr None, evs, db') \<and> dbs_wf sample_handler db' \<and> length evs = 1"
proof -
  obtain ev db' where con: "connect_block sample_btc sort_by_votes id sample_handler sample_block sample_chain = Inr (ev, db')"
    using sample_connect by blast
  then have h: "handle_block_batch_and_commit sample_btc sort_by_votes id sample_handler [sample_block] sample_chain =
      (Inr None, [ev], db')" by (simp add: handle_block_batch_and_commit_def)
  from batch_commits_valid_prefix [OF h sample_chain_wf sample_batch_ready sample_env] h
  show ?thesis by auto
qed

text \<open>The header of the parent arrives after the block; the node is at the parent.\<close>

theorem reorganisation_restores_witness:
  "\<exists>db db'. tip_or_zeros db = sample_hash \<and>
     reorganise sample_btc (pad32 [3]) db = Some (Inr ([DisconnectBlock sample_hash], db')) \<and>
     chain_state db' = chain_state sample_chain"
proof -
  obtain ev db' where con: "connect_block sample_btc sort_by_votes id sample_handler sample_block sample_chain = Inr (ev, db')"
    using sample_connect by blast
  note hh = sample_block_hash
  let ?x = "db'\<lparr>block_hashes := (block_hashes db')\<lparr>header_db :=
    (header_db (block_hashes db'))(pad32 [3] \<mapsto> fork_header 3 all_zeros)\<rparr>\<rparr>"
  have h1: "history sample_btc sort_by_votes id sample_handler sample_chain [sample_hash] db'"
    using history.block [OF history.start sample_chain_wf sample_ready con] hh by simp
  from connect_block_leaves [OF con sample_chain_wf sample_ready sample_env] hh have
    l: "current_chain_tip db' = Some sample_hash" "header_db (block_hashes db') = header_db (block_hashes sample_chain)"
      "height_db (block_hashes db') = height_db (block_hashes sample_chain)" by metis+
  have bad: "\<not> headers_wf sample_btc (block_hashes db')"
    using sample_hash_ne by (auto simp: headers_wf_def l(2) sample_chain_def known_def sample_header_def)
  have h2: "history sample_btc sort_by_votes id sample_handler sample_chain [sample_hash] ?x"
    by (rule history.grow [OF h1]) (simp add: grown_def chain_state_def tables_grow_def headers_le_def map_le_def
        bad diffs_wf_def l(2) sample_chain_def sample_hash_ne)
  have t: "tip_or_zeros ?x = sample_hash" "tip_or_zeros sample_chain = pad32 [3]"
    using l(1) by (simp_all add: tip_or_zeros_def sample_chain_def)
  have "last_common_ancestor (block_hashes ?x) sample_hash (pad32 [3]) = Inr (pad32 [3])"
    using l sample_hash_ne
    by (simp add: last_common_ancestor_def sample_chain_def ancestor_next_def sample_header_def
        common_loop.simps(2) [where k = 11, simplified])
  then have lca: "last_common_ancestor (block_hashes ?x) (tip_or_zeros ?x) (pad32 [3]) =
      Inr (tip_or_zeros sample_chain)" unfolding t .
  have "tip_or_zeros sample_chain \<notin> set [sample_hash]" unfolding t using sample_hash_ne(1) by simp
  from reorganisation_restores [OF h2 sample_env lca this] obtain y where
    "reorganise sample_btc (pad32 [3]) ?x = Some (Inr (map DisconnectBlock [sample_hash], y))"
    "chain_state y = chain_state sample_chain" by blast
  then show ?thesis using t(1) by (intro exI [of _ ?x] exI [of _ y]) simp
qed

definition late_handler :: block_handler where
  "late_handler = sample_handler\<lparr>bh_params := (bh_params sample_handler)\<lparr>bip300_activation_height := 100\<rparr>\<rparr>"

theorem pre_activation_needs_no_body_witness:
  "case connect_block sample_btc sort_by_votes id late_handler sample_block sample_chain of
      Inl e \<Rightarrow> connect_block_from_header sample_btc sample_hash sample_chain = Inl (SE_ConnectBlock e)
    | Inr (ev, db') \<Rightarrow> \<exists>ev'. connect_block_from_header sample_btc sample_hash sample_chain = Inr (ev',
        db'\<lparr>block_hashes := (block_hashes db')\<lparr>coinbase_txid_db :=
          (coinbase_txid_db (block_hashes db'))(sample_hash := Some all_zeros)\<rparr>\<rparr>)"
proof -
  have "header_db (block_hashes sample_chain) (b_block_hash sample_btc (blk_header sample_block)) =
      Some (blk_header sample_block)"
    "height_db (block_hashes sample_chain) (b_block_hash sample_btc (blk_header sample_block)) = Some 12"
    "(12 :: u32) < bip300_activation_height (bh_params late_handler)" "blk_txdata sample_block \<noteq> []"
    by (simp_all add: sample_chain_def sample_block_def late_handler_def)
  from pre_activation_needs_no_body [OF this, of sort_by_votes id]
  show ?thesis unfolding sample_block_hash .
qed

end
