(* ===== verification/BlockFiles.thy ===== *)
theory BlockFiles
  imports BlockSync "HOL-Library.Monad_Syntax"
begin

text \<open>
  Reading blocks from the files of the node: the parser of \<open>blk*.dat\<close> files and of block index
  entries, \<open>src/lib/validator/parse_block_files.rs\<close>.

  A file is its bytes and the directory a partial map from file numbers to files. The decoders of
  the \<open>bitcoin\<close> crate and the LevelDB reader are parameters. A decoder or reader error that
  carries an I/O error is a constructor without it.
\<close>

section \<open>The obfuscated reader\<close>

record xor_reader =
  xr_data :: bytes
  xr_key :: "bytes option"
  xr_offset :: nat

definition unxor :: "bytes option \<Rightarrow> nat \<Rightarrow> u8 \<Rightarrow> u8" where
  "unxor key pos b = (case key of None \<Rightarrow> b | Some k \<Rightarrow> b XOR (k ! (pos mod length k)))"

text \<open>\<open>read_exact\<close>; \<open>None\<close> is the unexpected end of the file.\<close>

definition xr_read_exact :: "nat \<Rightarrow> xor_reader \<Rightarrow> (bytes \<times> xor_reader) option" where
  "xr_read_exact n r =
     (if xr_offset r + n \<le> length (xr_data r)
      then Some (map (\<lambda>i. unxor (xr_key r) (xr_offset r + i) (xr_data r ! (xr_offset r + i))) [0..<n],
        r\<lparr>xr_offset := xr_offset r + n\<rparr>)
      else None)"

section \<open>Block files\<close>

definition MAINNET_MAGIC :: bytes where "MAINNET_MAGIC = [0xF9, 0xBE, 0xB4, 0xD9]"
definition TESTNET_MAGIC :: bytes where "TESTNET_MAGIC = [0x0B, 0x11, 0x09, 0x07]"
definition SIGNET_MAGIC :: bytes where "SIGNET_MAGIC = [0x0A, 0x03, 0xCF, 0x40]"
definition REGTEST_MAGIC :: bytes where "REGTEST_MAGIC = [0xFA, 0xBF, 0xB5, 0xDA]"

definition MAX_BLOCK_SERIALIZED_SIZE :: nat where
  "MAX_BLOCK_SERIALIZED_SIZE = 4000000"

datatype parse_block_file_error =
    PF_Io
  | InvalidMagic bytes bytes nat
  | InvalidNetwork network network
  | BlockSizeTooLarge u32
  | BlockSizeTooSmall u32
  | TxDataDecode
  | HeaderDecode
  | UintDecode

record parsed_block =
  pb_header :: header
  pb_raw_tx_data :: bytes
  pb_offset :: nat

record file_parser =
  fp_reader :: xor_reader
  fp_network :: network
  fp_magic_override :: "bytes option"

text \<open>What the parser uses of the \<open>bitcoin\<close> crate: decoding a header of 80 bytes and a list of
  transactions, and the message start of a network.\<close>

record block_codec =
  c_header :: "bytes \<Rightarrow> header option"
  c_txs :: "bytes \<Rightarrow> transaction list option"
  c_magic :: "network \<Rightarrow> bytes"

fun magic_for_network :: "network \<Rightarrow> bytes" where
  "magic_for_network Mainnet = MAINNET_MAGIC"
| "magic_for_network Testnet = TESTNET_MAGIC"
| "magic_for_network Testnet4 = TESTNET_MAGIC"
| "magic_for_network Signet = SIGNET_MAGIC"
| "magic_for_network Regtest = REGTEST_MAGIC"

definition parse_tx_data :: "block_codec \<Rightarrow> parsed_block \<Rightarrow> parse_block_file_error + transaction list" where
  "parse_tx_data C p = (case c_txs C (pb_raw_tx_data p) of Some txs \<Rightarrow> Inr txs | None \<Rightarrow> Inl TxDataDecode)"

text \<open>Little-endian 32-bit integers.\<close>

definition u32_from_le_bytes :: "bytes \<Rightarrow> u32" where
  "u32_from_le_bytes bs = foldr (\<lambda>b acc. ucast b OR push_bit 8 acc) bs 0"

definition u32_to_le_bytes :: "u32 \<Rightarrow> bytes" where
  "u32_to_le_bytes w = map (\<lambda>i. ucast (drop_bit (8 * i) w)) [0, 1, 2, 3]"

lemma length_u32_to_le_bytes [simp, byte_simps]: "length (u32_to_le_bytes w) = 4"
  by (simp add: u32_to_le_bytes_def)

lemma le_byte_step: "ucast (ucast (drop_bit k w) :: u8) OR push_bit 8 (drop_bit (8 + k) w) = drop_bit k (w :: u32)"
proof (rule bit_word_eqI)
  fix n
  assume n: "n < LENGTH(32)"
  have "8 + k + (n - 8) = k + n" if "\<not> n < 8" using that by simp
  then show "bit (ucast (ucast (drop_bit k w) :: u8) OR push_bit 8 (drop_bit (8 + k) w)) n = bit (drop_bit k w) n"
    using n by (cases "n < 8") (auto simp: bit_simps)
qed

lemma top_byte_u32: "ucast (ucast (drop_bit 24 w) :: u8) = drop_bit 24 (w :: u32)"
  by (rule bit_word_eqI) (auto simp: bit_simps dest: bit_imp_le_length)

lemma u32_le_roundtrip [byte_simps]: "u32_from_le_bytes (u32_to_le_bytes w) = w"
  using le_byte_step [of 16 w] le_byte_step [of 8 w] le_byte_step [of 0 w]
  by (simp add: u32_from_le_bytes_def u32_to_le_bytes_def top_byte_u32)

definition is_end_of_file :: "bytes option \<Rightarrow> nat \<Rightarrow> bytes \<Rightarrow> bool" where
  "is_end_of_file key offset magic =
     (case key of
        Some k \<Rightarrow> list_all (\<lambda>i. magic ! i XOR k ! ((offset - 4 + i) mod length k) = 0) [0..<length magic]
      | None \<Rightarrow> list_all (\<lambda>b. b = 0) magic)"

definition wrong_magic :: "block_codec \<Rightarrow> file_parser \<Rightarrow> bytes \<Rightarrow> bytes \<Rightarrow> nat \<Rightarrow> parse_block_file_error" where
  "wrong_magic C p magic expected_magic offset =
     (case (if fp_magic_override p = None
            then find (\<lambda>net. c_magic C net = magic) [Mainnet, Regtest, Testnet, Signet] else None) of
        Some net \<Rightarrow> InvalidNetwork net (fp_network p)
      | None \<Rightarrow> InvalidMagic magic expected_magic offset)"

definition expected_magic_of :: "file_parser \<Rightarrow> bytes" where
  "expected_magic_of p = (case fp_magic_override p of Some m \<Rightarrow> m | None \<Rightarrow> magic_for_network (fp_network p))"

definition next_block :: "block_codec \<Rightarrow> file_parser \<Rightarrow>
    parse_block_file_error + (parsed_block \<times> file_parser) option" where
  "next_block C p =
     (let offset = xr_offset (fp_reader p) in
      case xr_read_exact 4 (fp_reader p) of
        None \<Rightarrow> Inr None
      | Some (magic, r) \<Rightarrow>
          if is_end_of_file (xr_key r) (xr_offset r) magic then Inr None
          else if magic \<noteq> expected_magic_of p
          then Inl (wrong_magic C p magic (expected_magic_of p) offset)
          else
     (case xr_read_exact 4 r of
        None \<Rightarrow> Inl UintDecode
      | Some (size_bytes, r) \<Rightarrow>
          let size = unat (u32_from_le_bytes size_bytes) in
          if size > MAX_BLOCK_SERIALIZED_SIZE then Inl (BlockSizeTooLarge (of_nat size))
          else
     (case xr_read_exact 80 r of
        None \<Rightarrow> Inl HeaderDecode
      | Some (header_bytes, r) \<Rightarrow>
     (case c_header C header_bytes of
        None \<Rightarrow> Inl HeaderDecode
      | Some hdr \<Rightarrow>
          if size < 80 then Inl (BlockSizeTooSmall (of_nat size))
          else
     (case xr_read_exact (size - 80) r of
        None \<Rightarrow> Inl PF_Io
      | Some (txdata, r) \<Rightarrow>
          Inr (Some (\<lparr>pb_header = hdr, pb_raw_tx_data = txdata, pb_offset = offset\<rparr>,
            p\<lparr>fp_reader := r\<rparr>)))))))"

lemma expected_magic_of_reader [simp]: "expected_magic_of (p\<lparr>fp_reader := r\<rparr>) = expected_magic_of p"
  by (cases p) (simp add: expected_magic_of_def split: option.split)

lemma xr_read_exact_Some:
  assumes "xr_read_exact n r = Some (bs, r')"
  shows "xr_offset r' = xr_offset r + n \<and> xr_offset r' \<le> length (xr_data r) \<and> xr_data r' = xr_data r"
  using assms by (auto simp: xr_read_exact_def split: if_splits)

lemma next_block_advances:
  assumes "next_block C p = Inr (Some (b, p'))"
  shows "xr_offset (fp_reader p) < xr_offset (fp_reader p') \<and>
    xr_offset (fp_reader p') \<le> length (xr_data (fp_reader p)) \<and> xr_data (fp_reader p') = xr_data (fp_reader p)"
proof -
  from assms obtain m r1 s r2 h r3 t n r4 where
    "xr_read_exact 4 (fp_reader p) = Some (m, r1)" "xr_read_exact 4 r1 = Some (s, r2)"
    "xr_read_exact 80 r2 = Some (h, r3)" "xr_read_exact n r3 = Some (t, r4)" "p' = p\<lparr>fp_reader := r4\<rparr>"
    by (auto simp: next_block_def Let_def split: option.splits if_splits)
  then show ?thesis by (auto dest!: xr_read_exact_Some)
qed

text \<open>\<open>all_blocks\<close>; the error carries the number of blocks read before it.\<close>

function all_blocks :: "block_codec \<Rightarrow> file_parser \<Rightarrow> nat \<Rightarrow> (nat \<times> parse_block_file_error) + parsed_block list" where
  "all_blocks C p index =
     (case next_block C p of
        Inl e \<Rightarrow> Inl (index, e)
      | Inr None \<Rightarrow> Inr []
      | Inr (Some (b, p')) \<Rightarrow>
          (case all_blocks C p' (index + 1) of
             Inl e \<Rightarrow> Inl e
           | Inr bs \<Rightarrow> Inr (b # bs)))"
  by pat_completeness auto
termination
  by (relation "measure (\<lambda>(C, p, index). length (xr_data (fp_reader p)) - xr_offset (fp_reader p))")
    (auto dest!: next_block_advances)

declare all_blocks.simps [simp del]

section \<open>Parsing inverts writing\<close>

text \<open>How the node writes a file: entries of magic, size, header and transactions, obfuscated with the
  key, and zero bytes at the end.\<close>

definition file_entry :: "bytes \<Rightarrow> bytes \<times> bytes \<Rightarrow> bytes" where
  "file_entry magic e = magic @ u32_to_le_bytes (of_nat (80 + length (snd e))) @ fst e @ snd e"

definition obfuscate :: "bytes option \<Rightarrow> bytes \<Rightarrow> bytes" where
  "obfuscate key plain = map (\<lambda>i. unxor key i (plain ! i)) [0..<length plain]"

definition block_file :: "bytes option \<Rightarrow> bytes \<Rightarrow> (bytes \<times> bytes) list \<Rightarrow> nat \<Rightarrow> bytes" where
  "block_file key magic es padding = obfuscate key (concat (map (file_entry magic) es)) @ replicate padding 0"

text \<open>The parsed entries with their offsets.\<close>

fun parsed_at :: "block_codec \<Rightarrow> nat \<Rightarrow> (bytes \<times> bytes) list \<Rightarrow> parsed_block list" where
  "parsed_at C pos [] = []"
| "parsed_at C pos ((hb, tb) # es) =
     \<lparr>pb_header = the (c_header C hb), pb_raw_tx_data = tb, pb_offset = pos\<rparr> #
       parsed_at C (pos + 88 + length tb) es"

text \<open>Well-formed entries; the key never coincides with the magic, which would look like padding.\<close>

definition entry_ok :: "block_codec \<Rightarrow> bytes \<times> bytes \<Rightarrow> bool" where
  "entry_ok C e \<longleftrightarrow> length (fst e) = 80 \<and> 80 + length (snd e) \<le> MAX_BLOCK_SERIALIZED_SIZE \<and> c_header C (fst e) \<noteq> None"

definition key_differs :: "bytes option \<Rightarrow> bytes \<Rightarrow> bool" where
  "key_differs key magic \<longleftrightarrow> (case key of None \<Rightarrow> list_ex (\<lambda>b. b \<noteq> 0) magic
     | Some k \<Rightarrow> k \<noteq> [] \<and> (\<forall>pos<length k. list_ex (\<lambda>i. magic ! i \<noteq> k ! ((pos + i) mod length k)) [0..<length magic]))"

lemma unxor_unxor [simp]: "unxor key pos (unxor key pos b) = b"
  by (simp add: unxor_def xor.assoc split: option.splits)

lemma read_plain:
  assumes "xr_data r = obfuscate (xr_key r) (pre @ bs @ post) @ pad" "xr_offset r = length pre" "length bs = n"
  shows "xr_read_exact n r = Some (bs, r\<lparr>xr_offset := length (pre @ bs)\<rparr>)"
proof -
  have "map (\<lambda>i. unxor (xr_key r) (length pre + i) (xr_data r ! (length pre + i))) [0..<n] = bs"
    using assms(1,3) by (auto intro!: nth_equalityI simp: obfuscate_def nth_append)
  then show ?thesis using assms by (simp add: xr_read_exact_def obfuscate_def)
qed

lemma xor_eq_0: "a XOR b = 0 \<longleftrightarrow> a = (b :: u8)"
  by (metis xor_self_eq xor.right_neutral xor.assoc)

lemma key_differs_not_end:
  assumes "key_differs key magic" "length magic = 4"
  shows "\<not> is_end_of_file key (pos + 4) magic"
proof (cases key)
  case None
  then show ?thesis using assms(1) by (auto simp: key_differs_def is_end_of_file_def list_ex_iff list_all_iff)
next
  case (Some k)
  with assms(1) have "k \<noteq> []" and d: "\<forall>p<length k. list_ex (\<lambda>i. magic ! i \<noteq> k ! ((p + i) mod length k)) [0..<length magic]"
    by (auto simp: key_differs_def)
  then have "pos mod length k < length k" by simp
  with d obtain i where "i < length magic" "magic ! i \<noteq> k ! ((pos mod length k + i) mod length k)"
    by (auto simp: list_ex_iff)
  then show ?thesis using Some by (auto simp: is_end_of_file_def list_all_iff xor_eq_0 mod_add_left_eq)
qed

lemma next_block_entry:
  assumes ok: "entry_ok C (hb, tb)" and m: "expected_magic_of p = magic" "length magic = 4"
    and key: "key_differs (xr_key (fp_reader p)) magic"
    and data: "xr_data (fp_reader p) = obfuscate (xr_key (fp_reader p)) (pre @ file_entry magic (hb, tb) @ post) @ pad"
    and pos: "xr_offset (fp_reader p) = length pre"
  shows "next_block C p = Inr (Some (\<lparr>pb_header = the (c_header C hb), pb_raw_tx_data = tb, pb_offset = length pre\<rparr>,
    p\<lparr>fp_reader := (fp_reader p)\<lparr>xr_offset := length pre + 88 + length tb\<rparr>\<rparr>))"
proof -
  let ?r = "fp_reader p"
  define sz where "sz = u32_to_le_bytes (of_nat (80 + length tb))"
  have sz4: "length sz = 4" by (simp add: sz_def)
  have len: "length hb = 80" "80 + length tb \<le> 4000000" and hd: "c_header C hb \<noteq> None"
    using ok by (auto simp: entry_ok_def MAX_BLOCK_SERIALIZED_SIZE_def)
  note d = data [unfolded file_entry_def fst_conv snd_conv, folded sz_def]
  have 1: "xr_read_exact 4 ?r = Some (magic, ?r\<lparr>xr_offset := length (pre @ magic)\<rparr>)"
    by (rule read_plain [of _ pre magic "sz @ hb @ tb @ post"]) (use d pos m(2) in simp_all)
  have 2: "xr_read_exact 4 (?r\<lparr>xr_offset := length (pre @ magic)\<rparr>) =
      Some (sz, ?r\<lparr>xr_offset := length ((pre @ magic) @ sz)\<rparr>)"
    using read_plain [of "?r\<lparr>xr_offset := length (pre @ magic)\<rparr>" "pre @ magic" sz "hb @ tb @ post" pad 4] d sz4 by simp
  have 3: "xr_read_exact 80 (?r\<lparr>xr_offset := length ((pre @ magic) @ sz)\<rparr>) =
      Some (hb, ?r\<lparr>xr_offset := length ((pre @ magic @ sz) @ hb)\<rparr>)"
    using read_plain [of "?r\<lparr>xr_offset := length ((pre @ magic) @ sz)\<rparr>" "pre @ magic @ sz" hb "tb @ post" pad 80]
      d len(1) by simp
  have 4: "xr_read_exact (length tb) (?r\<lparr>xr_offset := length ((pre @ magic @ sz) @ hb)\<rparr>) =
      Some (tb, ?r\<lparr>xr_offset := length ((pre @ magic @ sz @ hb) @ tb)\<rparr>)"
    using read_plain [of "?r\<lparr>xr_offset := length ((pre @ magic @ sz) @ hb)\<rparr>" "pre @ magic @ sz @ hb" tb post pad] d by simp
  have "unat (of_nat n :: u32) = n" if "n \<le> 4000000" for n using that by (simp add: unat_of_nat)
  from this [OF len(2)] have size: "unat (u32_from_le_bytes sz) = 80 + length tb"
    by (simp only: sz_def u32_le_roundtrip)
  have "\<not> is_end_of_file (xr_key ?r) (length (pre @ magic)) magic"
    using key_differs_not_end [OF key m(2), of "length pre"] m(2) by simp
  then show ?thesis using 1 2 3 4 size len hd m sz4
    by (auto simp: next_block_def Let_def MAX_BLOCK_SERIALIZED_SIZE_def pos)
qed

lemma all_blocks_entries:
  assumes m: "length magic = 4" and key: "key_differs key magic"
  shows "list_all (entry_ok C) es \<Longrightarrow> expected_magic_of p = magic \<Longrightarrow> xr_key (fp_reader p) = key \<Longrightarrow>
    xr_data (fp_reader p) = obfuscate key (pre @ concat (map (file_entry magic) es)) @ replicate padding 0 \<Longrightarrow>
    xr_offset (fp_reader p) = length pre \<Longrightarrow>
    all_blocks C p index = Inr (parsed_at C (length pre) es)"
proof (induction es arbitrary: p pre index)
  case Nil
  have "next_block C p = Inr None"
  proof (cases "4 \<le> padding")
    case True
    let ?r = "fp_reader p"
    have "xr_read_exact 4 ?r = Some (map (\<lambda>i. unxor key (length pre + i) 0) [0..<4], ?r\<lparr>xr_offset := length pre + 4\<rparr>)"
      using Nil.prems True by (auto simp: xr_read_exact_def obfuscate_def nth_append)
    moreover have "is_end_of_file key (length pre + 4) (map (\<lambda>i. unxor key (length pre + i) 0) [0..<4])"
      by (auto simp: is_end_of_file_def unxor_def list_all_iff xor_eq_0 split: option.splits)
    ultimately show ?thesis using Nil.prems by (simp add: next_block_def Let_def)
  next
    case False
    then have "xr_read_exact 4 (fp_reader p) = None"
      using Nil.prems by (simp add: xr_read_exact_def obfuscate_def)
    then show ?thesis by (simp add: next_block_def)
  qed
  then show ?case by (subst all_blocks.simps) simp
next
  case (Cons e es)
  obtain hb tb where e: "e = (hb, tb)" by (cases e)
  let ?p = "p\<lparr>fp_reader := (fp_reader p)\<lparr>xr_offset := length pre + 88 + length tb\<rparr>\<rparr>"
  have ok: "entry_ok C (hb, tb)" "length hb = 80" using Cons.prems(1) e by (auto simp: entry_ok_def)
  have nb: "next_block C p = Inr (Some (\<lparr>pb_header = the (c_header C hb), pb_raw_tx_data = tb,
      pb_offset = length pre\<rparr>, ?p))"
    by (rule next_block_entry [OF ok(1) Cons.prems(2) m, where post = "concat (map (file_entry magic) es)"])
      (use Cons.prems key e in simp_all)
  have "all_blocks C ?p (index + 1) = Inr (parsed_at C (length (pre @ file_entry magic e)) es)"
    by (rule Cons.IH) (use Cons.prems m e ok(2) in \<open>auto simp: file_entry_def\<close>)
  moreover have "length (pre @ file_entry magic e) = length pre + 88 + length tb"
    using m ok(2) e by (simp add: file_entry_def)
  ultimately show ?case using nb e by (subst all_blocks.simps) (simp add: add.assoc)
qed

text \<open>C34: parsing a block file inverts writing it, with and without obfuscation and padding: every
  block comes back with its header, its transaction bytes and the offset of its entry.\<close>

theorem block_file_roundtrip:
  assumes "list_all (entry_ok C) es" "length magic = 4" "key_differs key magic"
    and "fp_magic_override p = Some magic" "fp_reader p = \<lparr>xr_data = block_file key magic es padding,
      xr_key = key, xr_offset = 0\<rparr>"
  shows "all_blocks C p 0 = Inr (parsed_at C 0 es)"
  using all_blocks_entries [OF assms(2,3,1), of p "[]" padding 0] assms(4,5)
  by (simp add: block_file_def expected_magic_of_def)

section \<open>The directory of block files\<close>

record directory =
  dir_files :: "u32 \<Rightarrow> bytes option"
  dir_xor :: "bytes option"

record directory_parser =
  dp_xor_key :: "bytes option"
  dp_network :: network
  dp_magic_override :: "bytes option"
  dp_file_index :: u32
  dp_current_parser :: "file_parser option"

datatype directory_parser_error = ReadXorKey | XorKeyLength

text \<open>\<open>BlockDirectoryParser::new\<close>: the key of \<open>xor.dat\<close>, none if it is zero; a key of another
  length than 8 panics.\<close>

definition directory_parser_new :: "directory \<Rightarrow> network \<Rightarrow> bytes option \<Rightarrow> directory_parser_error + directory_parser" where
  "directory_parser_new dir network magic_override =
     (case dir_xor dir of
        None \<Rightarrow> Inl ReadXorKey
      | Some k \<Rightarrow>
          if length k \<noteq> 8 then Inl XorKeyLength
          else Inr \<lparr>dp_xor_key = (if list_all (\<lambda>b. b = 0) k then None else Some k), dp_network = network,
            dp_magic_override = magic_override, dp_file_index = 0, dp_current_parser = None\<rparr>)"

definition open_file :: "directory_parser \<Rightarrow> bytes \<Rightarrow> file_parser" where
  "open_file dp bytes = \<lparr>fp_reader = \<lparr>xr_data = bytes, xr_key = dp_xor_key dp, xr_offset = 0\<rparr>,
     fp_network = dp_network dp, fp_magic_override = dp_magic_override dp\<rparr>"

text \<open>\<open>set_offset\<close> opens the current file; \<open>None\<close> is the I/O error of a missing file. Seeking past
  the end is allowed.\<close>

definition set_offset :: "directory \<Rightarrow> directory_parser \<Rightarrow> nat \<Rightarrow> directory_parser option" where
  "set_offset dir dp offset =
     (case (case dp_current_parser dp of
              Some p \<Rightarrow> Some p
            | None \<Rightarrow> map_option (open_file dp) (dir_files dir (dp_file_index dp))) of
        None \<Rightarrow> None
      | Some p \<Rightarrow>
          Some (dp\<lparr>dp_current_parser := Some (p\<lparr>fp_reader := (fp_reader p)\<lparr>xr_offset := offset\<rparr>\<rparr>)\<rparr>))"

text \<open>\<open>next_block\<close> of the directory moves on to the next file, up to the first missing one.\<close>

partial_function (option) directory_next :: "block_codec \<Rightarrow> directory \<Rightarrow> directory_parser \<Rightarrow>
    (parse_block_file_error + (parsed_block \<times> directory_parser) option) option" where
  "directory_next C dir dp =
     (case dp_current_parser dp of
        Some p \<Rightarrow>
          (case next_block C p of
             Inl e \<Rightarrow> Some (Inl e)
           | Inr (Some (b, p)) \<Rightarrow> Some (Inr (Some (b, dp\<lparr>dp_current_parser := Some p\<rparr>)))
           | Inr None \<Rightarrow>
               directory_next C dir (dp\<lparr>dp_current_parser := None, dp_file_index := dp_file_index dp + 1\<rparr>))
      | None \<Rightarrow>
          (case dir_files dir (dp_file_index dp) of
             None \<Rightarrow> Some (Inr None)
           | Some bytes \<Rightarrow> directory_next C dir (dp\<lparr>dp_current_parser := Some (open_file dp bytes)\<rparr>)))"

section \<open>Block index entries\<close>

text \<open>\<open>read_varint\<close>: the value and the bytes left, \<open>None\<close> for an overflow or the end of the input.\<close>

fun read_varint_loop :: "u64 \<Rightarrow> bytes \<Rightarrow> (u64 \<times> bytes) option" where
  "read_varint_loop n [] = None"
| "read_varint_loop n (ch # bs) =
     (if n > drop_bit 7 (- 1) then None
      else let n = push_bit 7 n OR ucast (ch AND 0x7F) in
        if ch AND 0x80 \<noteq> 0 then (if n = - 1 then None else read_varint_loop (n + 1) bs)
        else Some (n, bs))"

definition read_varint :: "bytes \<Rightarrow> (u64 \<times> bytes) option" where
  "read_varint bs = read_varint_loop 0 bs"

definition read_uint256 :: "bytes \<Rightarrow> (bytes \<times> bytes) option" where
  "read_uint256 bs = (if 32 \<le> length bs then Some (take 32 bs, drop 32 bs) else None)"

definition read_uint32 :: "bytes \<Rightarrow> (u32 \<times> bytes) option" where
  "read_uint32 bs = (if 4 \<le> length bs then Some (u32_from_le_bytes (take 4 bs), drop 4 bs) else None)"

definition HAVE_DATA :: u32 where "HAVE_DATA = 8"
definition HAVE_UNDO :: u32 where "HAVE_UNDO = 16"

definition has_data :: "u32 \<Rightarrow> bool" where "has_data status \<longleftrightarrow> status AND HAVE_DATA \<noteq> 0"
definition has_undo :: "u32 \<Rightarrow> bool" where "has_undo status \<longleftrightarrow> status AND HAVE_UNDO \<noteq> 0"

record disk_block_index =
  dbi_version :: u64
  dbi_height :: u64
  dbi_status :: u32
  dbi_tx_count :: u64
  dbi_file_number :: "u32 option"
  dbi_data_pos :: "u64 option"
  dbi_undo_pos :: "u64 option"
  dbi_block_version :: u32
  dbi_prev_block_hash :: blockhash
  dbi_merkle_root :: blockhash
  dbi_timestamp :: u32
  dbi_difficulty_target :: u32
  dbi_nonce :: u32

definition adjusted_data_pos :: "disk_block_index \<Rightarrow> u64 option" where
  "adjusted_data_pos i = (case dbi_data_pos i of Some pos \<Rightarrow> checked_sub pos 8 | None \<Rightarrow> None)"

definition read_if :: "bool \<Rightarrow> bytes \<Rightarrow> (u64 option \<times> bytes) option" where
  "read_if b bs = (if b then map_option (\<lambda>(v, bs). (Some v, bs)) (read_varint bs) else Some (None, bs))"

definition disk_block_index_deserialize :: "bytes \<Rightarrow> (disk_block_index \<times> bytes) option" where
  "disk_block_index_deserialize bs =
     do {
       (version, bs) \<leftarrow> read_varint bs;
       (height, bs) \<leftarrow> read_varint bs;
       (status_raw, bs) \<leftarrow> read_varint bs;
       let status = ucast status_raw;
       (tx_count, bs) \<leftarrow> read_varint bs;
       (file_number, bs) \<leftarrow> read_if (has_data status \<or> has_undo status) bs;
       (data_pos, bs) \<leftarrow> read_if (has_data status) bs;
       (undo_pos, bs) \<leftarrow> read_if (has_undo status) bs;
       (block_version, bs) \<leftarrow> read_uint32 bs;
       (prev_block_hash, bs) \<leftarrow> read_uint256 bs;
       (merkle_root, bs) \<leftarrow> read_uint256 bs;
       (timestamp, bs) \<leftarrow> read_uint32 bs;
       (difficulty_target, bs) \<leftarrow> read_uint32 bs;
       (nonce, bs) \<leftarrow> read_uint32 bs;
       Some (\<lparr>dbi_version = version, dbi_height = height, dbi_status = status, dbi_tx_count = tx_count,
         dbi_file_number = map_option ucast file_number, dbi_data_pos = data_pos, dbi_undo_pos = undo_pos,
         dbi_block_version = block_version, dbi_prev_block_hash = prev_block_hash,
         dbi_merkle_root = merkle_root, dbi_timestamp = timestamp,
         dbi_difficulty_target = difficulty_target, dbi_nonce = nonce\<rparr>, bs)
     }"

section \<open>Variable-length integers\<close>

text \<open>How the node writes them: groups of seven bits, most significant first, all but the last with
  the high bit set and one less than their value.\<close>

function varint_groups :: "nat \<Rightarrow> bytes" where
  "varint_groups n = (if n < 128 then [of_nat (n + 128)]
     else varint_groups (n div 128 - 1) @ [of_nat (n mod 128 + 128)])"
  by pat_completeness auto
termination by (relation "measure id") auto

declare varint_groups.simps [simp del]

definition write_varint :: "nat \<Rightarrow> bytes" where
  "write_varint n = (if n < 128 then [of_nat n]
     else varint_groups (n div 128 - 1) @ [of_nat (n mod 128)])"

lemma mask7: "(0x7F :: nat) = mask 7"
  by (simp add: mask_eq_exp_minus_1)

lemma low_group: "b < 256 \<Longrightarrow> ucast ((of_nat b :: u8) AND 0x7F) = (of_nat (b mod 128) :: u64)"
proof -
  assume b: "b < 256"
  have "(of_nat b :: u8) AND 0x7F = of_nat (b AND 0x7F)" by (simp add: of_nat_and_eq)
  also have "b AND 0x7F = b mod 128" unfolding mask7 by (simp add: take_bit_eq_mod flip: take_bit_eq_mask)
  finally show ?thesis by (simp add: unsigned_of_nat take_bit_nat_eq_self)
qed

lemma high_bit: "b < 256 \<Longrightarrow> (of_nat b :: u8) AND 0x80 = 0 \<longleftrightarrow> b < 128"
proof -
  assume b: "b < 256"
  have "(of_nat b :: u8) AND 0x80 = 0 \<longleftrightarrow> \<not> bit (of_nat b :: u8) 7"
    using and_exp_eq_0_iff_not_bit [of "of_nat b :: u8" 7] by simp
  also have "\<dots> \<longleftrightarrow> \<not> bit b 7" by (simp add: bit_of_nat_iff)
  also have "\<dots> \<longleftrightarrow> b < 128" using b by (cases "b < 128") (simp_all add: bit_iff_odd le_div_geq)
  finally show ?thesis .
qed

lemma shift_group:
  assumes "b < 128"
  shows "push_bit 7 (of_nat a :: u64) OR of_nat b = of_nat (a * 128 + b)"
proof -
  have "\<not> bit (push_bit 7 a) n \<or> \<not> bit b n" for n
  proof (cases "n < 7")
    case False
    then have "(2 :: nat) ^ 7 \<le> 2 ^ n" by (intro power_increasing) auto
    then have "b div 2 ^ n = 0" using assms by simp
    then show ?thesis by (simp add: bit_iff_odd)
  qed (simp add: bit_simps)
  then have "push_bit 7 a OR b = push_bit 7 a + b" by (intro disjunctive_add [symmetric]) blast
  then have "(of_nat (push_bit 7 a OR b) :: u64) = of_nat (a * 128 + b)" by (simp add: push_bit_eq_mult)
  then show ?thesis by (simp add: of_nat_or_eq push_bit_of_nat)
qed

lemma shift_limit: "a < 2 ^ 57 \<Longrightarrow> \<not> (of_nat a :: u64) > drop_bit 7 (- 1)"
proof -
  assume a: "a < 2 ^ 57"
  have "(drop_bit 7 (- 1) :: u64) = 0x1FFFFFFFFFFFFFF" by (simp add: mask_eq_exp_minus_1)
  then have "unat (drop_bit 7 (- 1) :: u64) = 2 ^ 57 - 1" by (simp del: drop_bit_minus_one)
  with a show ?thesis by (simp add: word_less_nat_alt unat_of_nat)
qed

text \<open>One byte of the loop.\<close>

lemma read_varint_step:
  assumes "a < 2 ^ 57" "b < 256"
  shows "read_varint_loop (of_nat a) (of_nat b # bs) =
    (if b < 128 then Some (of_nat (a * 128 + b), bs)
     else if (of_nat (a * 128 + b mod 128) :: u64) = - 1 then None
     else read_varint_loop (of_nat (a * 128 + b mod 128 + 1)) bs)"
  using high_bit [OF assms(2)] low_group [OF assms(2)] shift_limit [OF assms(1)] shift_group [of "b mod 128" a]
  by (auto simp: Let_def add.commute)

lemma read_varint_groups:
  "n + 1 < 2 ^ 57 \<Longrightarrow> read_varint_loop 0 (varint_groups n @ bs) = read_varint_loop (of_nat (n + 1)) bs"
proof (induction n arbitrary: bs rule: varint_groups.induct)
  case (1 n)
  have ne: "(of_nat n :: u64) \<noteq> - 1"
  proof
    assume "(of_nat n :: u64) = - 1"
    then have "unat (of_nat n :: u64) = 2 ^ 64 - 1" by (simp add: unsigned_minus_1_eq_mask mask_eq_exp_minus_1)
    then show False using "1.prems" by (simp add: unat_of_nat)
  qed
  show ?case
  proof (cases "n < 128")
    case True
    then show ?thesis using read_varint_step [of 0 "n + 128" bs] ne
      by (subst varint_groups.simps) (simp del: read_varint_loop.simps)
  next
    case False
    let ?m = "n div 128 - 1"
    have m: "?m + 1 = n div 128" "n div 128 < 2 ^ 57" using False "1.prems" by auto
    have "read_varint_loop 0 (varint_groups n @ bs) =
        read_varint_loop (of_nat (n div 128)) (of_nat (n mod 128 + 128) # bs)"
      using "1.IH" [OF False, of "of_nat (n mod 128 + 128) # bs"] m False
      by (subst varint_groups.simps) (simp del: read_varint_loop.simps)
    then show ?thesis using read_varint_step [OF m(2), of "n mod 128 + 128" bs] ne
      by (simp del: read_varint_loop.simps add: mod_add_self2 div_mult_mod_eq)
  qed
qed

text \<open>Reading a variable-length integer inverts writing it, for every 64-bit value, and leaves the
  bytes behind it.\<close>

theorem read_varint_roundtrip:
  "read_varint (write_varint (unat (n :: u64)) @ bs) = Some (n, bs)"
proof -
  let ?n = "unat n"
  have lim: "?n < 2 ^ 64" using unat_less_power [of n] by simp
  show ?thesis
  proof (cases "?n < 128")
    case True
    then show ?thesis using read_varint_step [of 0 ?n bs]
      by (simp add: write_varint_def read_varint_def del: read_varint_loop.simps)
  next
    case False
    have m: "?n div 128 - 1 + 1 = ?n div 128" "?n div 128 < 2 ^ 57" using False lim by auto
    have "read_varint (write_varint ?n @ bs) = read_varint_loop (of_nat (?n div 128)) (of_nat (?n mod 128) # bs)"
      using read_varint_groups [of "?n div 128 - 1" "of_nat (?n mod 128) # bs"] m False
      by (simp add: write_varint_def read_varint_def del: read_varint_loop.simps)
    then show ?thesis using read_varint_step [OF m(2), of "?n mod 128" bs]
      by (simp del: read_varint_loop.simps add: div_mult_mod_eq)
  qed
qed

section \<open>An obfuscated file\<close>

definition sample_codec_blocks :: block_codec where
  "sample_codec_blocks = \<lparr>c_header = (\<lambda>_. Some (fork_header 1 all_zeros)), c_txs = (\<lambda>_. Some []),
     c_magic = magic_for_network\<rparr>"

definition sample_entries :: "(bytes \<times> bytes) list" where
  "sample_entries = [(replicate 80 0, [1, 2]), (replicate 80 7, [])]"

definition sample_key :: bytes where
  "sample_key = [1, 2, 3, 4, 5, 6, 7, 8]"

definition sample_file_parser :: file_parser where
  "sample_file_parser = \<lparr>fp_reader = \<lparr>xr_data = block_file (Some sample_key) REGTEST_MAGIC sample_entries 16,
     xr_key = Some sample_key, xr_offset = 0\<rparr>, fp_network = Regtest, fp_magic_override = Some REGTEST_MAGIC\<rparr>"

lemma sample_key_differs: "key_differs (Some sample_key) REGTEST_MAGIC"
proof -
  have "REGTEST_MAGIC ! 0 \<noteq> sample_key ! (pos mod 8)" for pos
  proof -
    have "sample_key ! (pos mod 8) \<in> set sample_key" by (rule nth_mem) (simp add: sample_key_def)
    moreover have "REGTEST_MAGIC ! 0 \<notin> set sample_key" by (simp add: REGTEST_MAGIC_def sample_key_def)
    ultimately show ?thesis by metis
  qed
  then have "list_ex (\<lambda>i. REGTEST_MAGIC ! i \<noteq> sample_key ! ((pos + i) mod 8)) [0..<4]" for pos
    by (force simp: list_ex_iff)
  moreover have "length sample_key = 8" "length REGTEST_MAGIC = 4" "sample_key \<noteq> []"
    by (simp_all add: sample_key_def REGTEST_MAGIC_def)
  ultimately show ?thesis by (simp only: key_differs_def option.case) blast
qed

theorem block_file_roundtrip_witness:
  "all_blocks sample_codec_blocks sample_file_parser 0 = Inr (parsed_at sample_codec_blocks 0 sample_entries)"
  by (rule block_file_roundtrip [OF _ _ sample_key_differs])
    (simp_all add: sample_entries_def entry_ok_def MAX_BLOCK_SERIALIZED_SIZE_def sample_codec_blocks_def
      REGTEST_MAGIC_def sample_file_parser_def)

end
