(* ===== verification/DirectorySync.thy ===== *)
theory DirectorySync
  imports BlockFiles
begin

text \<open>
  Synchronisation from the block files of the node, \<open>src/lib/validator/task/block_files.rs\<close>: the
  cache of blocks that come too early, the batches of pending blocks and the loop of
  \<open>sync_from_directory\<close>.

  The \<open>HashMap\<close> of the cache is an association list. The state of the loop is a record; one round
  is a function of it, and the loop repeats it. Rounds are counted, and \<open>cancelled\<close> says in which
  of them a shutdown is noticed.
\<close>

section \<open>The block cache\<close>

record block_cache =
  bc_blocks :: "(blockhash \<times> block) list"
  bc_insertion_order :: "blockhash list"
  bc_max_size :: nat

definition block_cache_new :: "nat \<Rightarrow> block_cache" where
  "block_cache_new max_size = \<lparr>bc_blocks = [], bc_insertion_order = [], bc_max_size = max_size\<rparr>"

text \<open>The eviction loop; it would not end if nothing is left to evict.\<close>

fun evict_oldest :: "nat \<Rightarrow> (blockhash \<times> block) list \<Rightarrow> blockhash list \<Rightarrow>
    ((blockhash \<times> block) list \<times> blockhash list) option" where
  "evict_oldest max_size blocks [] = (if length blocks < max_size then Some (blocks, []) else None)"
| "evict_oldest max_size blocks (oldest # order) =
     (if length blocks < max_size then Some (blocks, oldest # order)
      else evict_oldest max_size (om_remove oldest blocks) order)"

definition cache_insert :: "block_cache \<Rightarrow> blockhash \<Rightarrow> block \<Rightarrow> block_cache option" where
  "cache_insert c block_hash block =
     (if map_of (bc_blocks c) block_hash \<noteq> None then Some c
      else case evict_oldest (bc_max_size c) (bc_blocks c) (bc_insertion_order c) of
        None \<Rightarrow> None
      | Some (blocks, order) \<Rightarrow>
          Some (c\<lparr>bc_blocks := (block_hash, block) # blocks, bc_insertion_order := order @ [block_hash]\<rparr>))"

definition cache_remove :: "block_cache \<Rightarrow> blockhash \<Rightarrow> block option \<times> block_cache" where
  "cache_remove c block_hash =
     (case map_of (bc_blocks c) block_hash of
        Some block \<Rightarrow> (Some block, c\<lparr>bc_blocks := om_remove block_hash (bc_blocks c),
          bc_insertion_order := remove1 block_hash (bc_insertion_order c)\<rparr>)
      | None \<Rightarrow> (None, c))"

text \<open>The cache holds at most \<open>max_size\<close> blocks, each under its hash, and the order lists their
  hashes once.\<close>

definition cache_wf :: "btc \<Rightarrow> block set \<Rightarrow> block_cache \<Rightarrow> bool" where
  "cache_wf B S c \<longleftrightarrow> distinct (map fst (bc_blocks c)) \<and> distinct (bc_insertion_order c) \<and>
     set (bc_insertion_order c) = fst ` set (bc_blocks c) \<and> length (bc_blocks c) \<le> bc_max_size c \<and>
     0 < bc_max_size c \<and> (\<forall>(h, b)\<in>set (bc_blocks c). b_block_hash B (blk_header b) = h \<and> b \<in> S)"

lemma om_remove_set: "set (om_remove k xs) = {p \<in> set xs. fst p \<noteq> k}"
  by (auto simp: om_remove_def)

lemma om_remove_shorter: "k \<in> fst ` set xs \<Longrightarrow> length (om_remove k xs) < length xs"
  unfolding om_remove_def by (auto intro!: length_filter_less)

lemma evict_oldest_wf:
  "distinct (map fst bl) \<Longrightarrow> distinct od \<Longrightarrow> set od = fst ` set bl \<Longrightarrow> 0 < m \<Longrightarrow>
    \<exists>bl' od'. evict_oldest m bl od = Some (bl', od') \<and> distinct (map fst bl') \<and> distinct od' \<and>
      set od' = fst ` set bl' \<and> length bl' < m \<and> set bl' \<subseteq> set bl"
proof (induction m bl od rule: evict_oldest.induct)
  case (2 m bl h od)
  show ?case
  proof (cases "length bl < m")
    case False
    have "set od = fst ` set (om_remove h bl)" using "2.prems"(2,3) by (auto simp: om_remove_set)
    with "2.IH" [OF False] "2.prems" om_remove_distinct [of bl h] False show ?thesis
      by (auto simp: om_remove_set)
  qed (use "2.prems" in auto)
qed auto

lemma cache_insert_wf:
  assumes "cache_wf B S c" "b_block_hash B (blk_header b) = h" "b \<in> S"
  shows "\<exists>c'. cache_insert c h b = Some c' \<and> cache_wf B S c' \<and> bc_max_size c' = bc_max_size c"
proof (cases "map_of (bc_blocks c) h")
  case None
  from evict_oldest_wf [of "bc_blocks c" "bc_insertion_order c" "bc_max_size c"] assms(1) obtain bl od where
    e: "evict_oldest (bc_max_size c) (bc_blocks c) (bc_insertion_order c) = Some (bl, od)" "distinct (map fst bl)"
      "distinct od" "set od = fst ` set bl" "length bl < bc_max_size c" "set bl \<subseteq> set (bc_blocks c)"
    by (auto simp: cache_wf_def)
  have "h \<notin> fst ` set bl" using None e(6) by (auto simp: map_of_eq_None_iff)
  with e assms None show ?thesis by (auto simp: cache_insert_def cache_wf_def)
qed (use assms in \<open>simp add: cache_insert_def\<close>)

lemma cache_remove_wf:
  assumes "cache_wf B S c" "cache_remove c h = (Some b, c')"
  shows "cache_wf B S c'" "b_block_hash B (blk_header b) = h" "b \<in> S" "length (bc_blocks c') < length (bc_blocks c)"
proof -
  from assms(2) have m: "map_of (bc_blocks c) h = Some b"
    and c': "c' = c\<lparr>bc_blocks := om_remove h (bc_blocks c), bc_insertion_order := remove1 h (bc_insertion_order c)\<rparr>"
    by (auto simp: cache_remove_def split: option.splits)
  from map_of_SomeD [OF m] have mem: "(h, b) \<in> set (bc_blocks c)" .
  then show "b_block_hash B (blk_header b) = h" "b \<in> S" using assms(1) by (auto simp: cache_wf_def)
  have "h \<in> fst ` set (bc_blocks c)" using mem by force
  then show sh: "length (bc_blocks c') < length (bc_blocks c)" by (simp add: c' om_remove_shorter)
  show "cache_wf B S c'" using assms(1) sh om_remove_distinct [of "bc_blocks c" h]
    by (auto simp: cache_wf_def c' om_remove_set)
qed

section \<open>Pending blocks\<close>

definition MAX_BLOCK_CACHE_SIZE :: nat where "MAX_BLOCK_CACHE_SIZE = 5000"
definition MAX_ITERATIONS_WITHOUT_MATCH :: nat where "MAX_ITERATIONS_WITHOUT_MATCH = 5000"
definition BLOCKS_DIR_CONNECT_BATCH_SIZE :: nat where "BLOCKS_DIR_CONNECT_BATCH_SIZE = 2000"

abbreviation block_hash_of :: "btc \<Rightarrow> block \<Rightarrow> blockhash" where
  "block_hash_of B b \<equiv> b_block_hash B (blk_header b)"

definition restore_pending_blocks :: "btc \<Rightarrow> blockhash list \<Rightarrow> block list \<Rightarrow> blockhash list" where
  "restore_pending_blocks B missing_blocks pending_blocks =
     missing_blocks @ map (block_hash_of B) (rev pending_blocks)"

record pending_state =
  ps_missing :: "blockhash list"
  ps_pending :: "block list"
  ps_handled :: nat
  ps_events :: "event list"
  ps_db :: dbs

text \<open>The handler with what it depends on.\<close>

record handler_env =
  he_btc :: btc
  he_srt :: "(m6id \<times> u16) list \<Rightarrow> (m6id \<times> u16) list"
  he_ord :: "tx_ctips_infos \<Rightarrow> tx_ctips_infos"
  he_handler :: block_handler

definition connect_pending_blocks :: "handler_env \<Rightarrow> pending_state \<Rightarrow> (sync_error + bool) \<times> pending_state" where
  "connect_pending_blocks E s =
     (case handle_block_batch_and_commit (he_btc E) (he_srt E) (he_ord E) (he_handler E) (ps_pending s) (ps_db s) of
        (Inl e, _, _) \<Rightarrow> (Inl e, s)
      | (Inr None, events, db) \<Rightarrow>
          (Inr True, s\<lparr>ps_handled := ps_handled s + length (ps_pending s), ps_pending := [],
            ps_events := ps_events s @ events, ps_db := db\<rparr>)
      | (Inr (Some invalid_block), events, db) \<Rightarrow>
          let rejected_idx = length (takeWhile (\<lambda>b. block_hash_of (he_btc E) b \<noteq> ib_block_hash invalid_block) (ps_pending s))
          in if rejected_idx = length (ps_pending s) then (Inl SE_Panic, s)
             else (Inr False, s\<lparr>ps_missing := restore_pending_blocks (he_btc E) (ps_missing s)
                 (drop rejected_idx (ps_pending s)),
               ps_handled := ps_handled s + rejected_idx, ps_pending := [],
               ps_events := ps_events s @ events, ps_db := db\<rparr>))"

text \<open>Staging the next expected block; a full batch, or the last one, is connected.\<close>

definition stage_block :: "handler_env \<Rightarrow> block \<Rightarrow> pending_state \<Rightarrow> (sync_error + bool) \<times> pending_state" where
  "stage_block E block s =
     (let s = s\<lparr>ps_pending := ps_pending s @ [block], ps_missing := butlast (ps_missing s)\<rparr> in
      if BLOCKS_DIR_CONNECT_BATCH_SIZE \<le> length (ps_pending s) \<or> ps_missing s = []
      then connect_pending_blocks E s else (Inr True, s))"

lemma cache_remove_shrinks: "cache_remove c h = (Some b, c') \<Longrightarrow> length (bc_blocks c') < length (bc_blocks c)"
  by (force simp: cache_remove_def split: option.splits intro!: om_remove_shorter dest!: map_of_SomeD)

function process_cached_blocks :: "handler_env \<Rightarrow> block_cache \<Rightarrow> pending_state \<Rightarrow>
    (sync_error + bool) \<times> block_cache \<times> pending_state" where
  "process_cached_blocks E cache s =
     (if ps_missing s = [] then (Inr True, cache, s)
      else case cache_remove cache (last (ps_missing s)) of
        (None, cache') \<Rightarrow> (Inr True, cache', s)
      | (Some block, cache') \<Rightarrow>
          (case stage_block E block s of
             (Inr True, s) \<Rightarrow> process_cached_blocks E cache' s
           | (r, s) \<Rightarrow> (r, cache', s)))"
  by pat_completeness auto

termination
  by (relation "measure (\<lambda>(E, cache, s). length (bc_blocks cache))") (auto intro: cache_remove_shrinks dest: sym)

declare process_cached_blocks.simps [simp del]

section \<open>The loop over the files\<close>

record dir_state =
  ds_parser :: directory_parser
  ds_cache :: block_cache
  ds_found_start :: bool
  ds_without_match :: nat
  ds_count :: nat
  ds_pending :: pending_state

text \<open>A round ends the loop with an error or a \<open>break\<close>, or leads to the next one.\<close>

datatype round_result =
    Stop "sync_error + unit" pending_state
  | Again dir_state

definition flush_pending :: "handler_env \<Rightarrow> (sync_error + unit) \<Rightarrow> pending_state \<Rightarrow> (sync_error + unit) \<times> pending_state" where
  "flush_pending E r s =
     (if ps_pending s \<noteq> [] then
        (case connect_pending_blocks E s of (Inl e, s) \<Rightarrow> (Inl e, s) | (Inr _, s) \<Rightarrow> (r, s))
      else (r, s))"

definition stop_with :: "(sync_error + unit) \<times> pending_state \<Rightarrow> round_result" where
  "stop_with r = Stop (fst r) (snd r)"

definition full_block :: "parsed_block \<Rightarrow> transaction list \<Rightarrow> block" where
  "full_block p txs = \<lparr>blk_header = pb_header p, blk_txdata = txs\<rparr>"

text \<open>The expected block was read.\<close>

definition expected_round :: "handler_env \<Rightarrow> block \<Rightarrow> dir_state \<Rightarrow> round_result" where
  "expected_round E block d =
     (case stage_block E block (ds_pending d) of
        (Inl e, s) \<Rightarrow> Stop (Inl e) s
      | (Inr False, s) \<Rightarrow> Stop (Inr ()) s
      | (Inr True, s) \<Rightarrow>
          (case process_cached_blocks E (ds_cache d) s of
             (Inl e, cache, s) \<Rightarrow> Stop (Inl e) s
           | (Inr False, cache, s) \<Rightarrow> Stop (Inr ()) s
           | (Inr True, cache, s) \<Rightarrow>
               Again (d\<lparr>ds_cache := cache, ds_without_match := 0, ds_pending := s\<rparr>)))"

text \<open>Another block was read: it is cached, and too many of them end the loop.\<close>

definition unexpected_round :: "handler_env \<Rightarrow> blockhash \<Rightarrow> block \<Rightarrow> dir_state \<Rightarrow> round_result option" where
  "unexpected_round E hash block d =
     (case cache_insert (ds_cache d) hash block of
        None \<Rightarrow> None
      | Some cache \<Rightarrow>
          let n = ds_without_match d + 1 in
          if MAX_ITERATIONS_WITHOUT_MATCH \<le> n then Some (stop_with (flush_pending E (Inr ()) (ds_pending d)))
          else Some (Again (d\<lparr>ds_cache := cache, ds_without_match := n\<rparr>)))"

definition block_round :: "handler_env \<Rightarrow> block_codec \<Rightarrow> blockhash \<Rightarrow> parsed_block \<Rightarrow> dir_state \<Rightarrow> round_result option" where
  "block_round E C first_missing_block p d =
     (let hash = b_block_hash (he_btc E) (pb_header p); s = ds_pending d in
      if \<not> ds_found_start d \<and> hash \<noteq> first_missing_block then
        (case parse_tx_data C p of
           Inl _ \<Rightarrow> Some (Stop (Inl SE_ParseBlockFiles) s)
         | Inr txs \<Rightarrow>
             (case cache_insert (ds_cache d) hash (full_block p txs) of
                None \<Rightarrow> None
              | Some cache \<Rightarrow> Some (Again (d\<lparr>ds_cache := cache\<rparr>))))
      else
        let d = d\<lparr>ds_found_start := True\<rparr> in
        if ps_missing s = [] then Some (Stop (Inr ()) s)
        else (case parse_tx_data C p of
           Inl _ \<Rightarrow> Some (Stop (Inl SE_ParseBlockFiles) s)
         | Inr txs \<Rightarrow>
             if hash = last (ps_missing s) then Some (expected_round E (full_block p txs) d)
             else unexpected_round E hash (full_block p txs) d))"

definition dir_round :: "handler_env \<Rightarrow> block_codec \<Rightarrow> directory \<Rightarrow> (nat \<Rightarrow> bool) \<Rightarrow> blockhash \<Rightarrow> dir_state \<Rightarrow>
    round_result option" where
  "dir_round E C dir cancelled first_missing_block d =
     (if ds_count d mod 100 = 0 \<and> cancelled (ds_count d)
      then Some (stop_with (flush_pending E (Inl Shutdown) (ds_pending d)))
      else case directory_next C dir (ds_parser d) of
        None \<Rightarrow> None
      | Some (Inl _) \<Rightarrow> Some (Stop (Inl SE_ParseBlockFiles) (ds_pending d))
      | Some (Inr None) \<Rightarrow> Some (Stop (Inr ()) (ds_pending d))
      | Some (Inr (Some (p, dp))) \<Rightarrow>
          block_round E C first_missing_block p (d\<lparr>ds_parser := dp, ds_count := ds_count d + 1\<rparr>))"

partial_function (option) dir_loop :: "handler_env \<Rightarrow> block_codec \<Rightarrow> directory \<Rightarrow> (nat \<Rightarrow> bool) \<Rightarrow> blockhash \<Rightarrow>
    dir_state \<Rightarrow> ((sync_error + unit) \<times> pending_state) option" where
  "dir_loop E C dir cancelled first_missing_block d =
     (case dir_round E C dir cancelled first_missing_block d of
        None \<Rightarrow> None
      | Some (Stop r s) \<Rightarrow> Some (r, s)
      | Some (Again d) \<Rightarrow> dir_loop E C dir cancelled first_missing_block d)"

text \<open>Where the parser starts: at the genesis block without looking it up, otherwise at the position the
  block index has. \<open>genesis\<close> is \<open>Network::chain_hash\<close>; \<open>index\<close> reads the LevelDB of the node.\<close>

record block_dir =
  bd_directory :: directory
  bd_codec :: block_codec
  bd_index :: "unit + (bytes \<Rightarrow> bytes option)"
  bd_genesis :: blockhash

definition fetch_block_index :: "block_dir \<Rightarrow> blockhash \<Rightarrow> disk_block_index option" where
  "fetch_block_index D hash =
     (case bd_index D of
        Inl _ \<Rightarrow> None
      | Inr get \<Rightarrow>
          (case get (0x62 # hash) of
             None \<Rightarrow> None
           | Some v \<Rightarrow> map_option fst (disk_block_index_deserialize v)))"

definition seek_block :: "block_dir \<Rightarrow> blockhash \<Rightarrow> directory_parser \<Rightarrow> sync_error + directory_parser" where
  "seek_block D first_missing_block dp =
     (if first_missing_block = bd_genesis D then Inr dp
      else case fetch_block_index D first_missing_block of
        None \<Rightarrow> Inl SE_FetchBlockIndex
      | Some block_index \<Rightarrow>
     (case dbi_file_number block_index of
        None \<Rightarrow> Inl SE_FetchBlockIndex
      | Some file_number \<Rightarrow>
     (case adjusted_data_pos block_index of
        None \<Rightarrow> Inl SE_FetchBlockIndex
      | Some data_pos \<Rightarrow>
          (case set_offset (bd_directory D) (dp\<lparr>dp_file_index := file_number\<rparr>) (unat data_pos) of
             None \<Rightarrow> Inl SE_BlockFileParserSetOffset
           | Some dp \<Rightarrow> Inr dp))))"

text \<open>\<open>sync_from_directory_inner\<close>: the number of blocks handled and the state it leaves.\<close>

definition sync_from_directory_inner :: "handler_env \<Rightarrow> block_dir \<Rightarrow> (nat \<Rightarrow> bool) \<Rightarrow> pending_state \<Rightarrow>
    ((sync_error + u32) \<times> pending_state) option" where
  "sync_from_directory_inner E D cancelled s =
     (if ps_missing s = [] then Some (Inl SE_Panic, s)
      else case directory_parser_new (bd_directory D) (bh_network (he_handler E))
          (network_magic (bh_params (he_handler E))) of
        Inl ReadXorKey \<Rightarrow> Some (Inl SE_BlockDirectoryParser, s)
      | Inl XorKeyLength \<Rightarrow> Some (Inl SE_Panic, s)
      | Inr dp \<Rightarrow>
     (case seek_block D (last (ps_missing s)) dp of
        Inl e \<Rightarrow> Some (Inl e, s)
      | Inr dp \<Rightarrow>
     (case height_db (block_hashes (ps_db s)) (hd (ps_missing s)) of
        None \<Rightarrow> Some (Inl (SE_Db MissingValue), s)
      | Some target_end_height \<Rightarrow>
     (case dir_loop E (bd_codec D) (bd_directory D) cancelled (last (ps_missing s))
          \<lparr>ds_parser = dp, ds_cache = block_cache_new MAX_BLOCK_CACHE_SIZE, ds_found_start = False,
           ds_without_match = 0, ds_count = 0, ds_pending = s\<rparr> of
        None \<Rightarrow> None
      | Some (Inl e, s) \<Rightarrow> Some (Inl e, s)
      | Some (Inr _, s) \<Rightarrow>
          (case flush_pending E (Inr ()) s of
             (Inl e, s) \<Rightarrow> Some (Inl e, s)
           | (Inr _, s) \<Rightarrow> Some (Inr (of_nat (ps_handled s)), s))))))"

definition sync_from_directory :: "handler_env \<Rightarrow> block_dir \<Rightarrow> (nat \<Rightarrow> bool) \<Rightarrow> blockhash list \<Rightarrow> dbs \<Rightarrow>
    ((sync_error + u32) \<times> blockhash list \<times> event list \<times> dbs) option" where
  "sync_from_directory E D cancelled missing_blocks db =
     (case sync_from_directory_inner E D cancelled
          \<lparr>ps_missing = missing_blocks, ps_pending = [], ps_handled = 0, ps_events = [], ps_db = db\<rparr> of
        None \<Rightarrow> None
      | Some (res, s) \<Rightarrow>
          Some (res, (if ps_pending s \<noteq> [] then restore_pending_blocks (he_btc E) (ps_missing s) (ps_pending s)
            else ps_missing s), ps_events s, ps_db s))"

section \<open>The missing blocks stay exact\<close>

abbreviation reached :: "handler_env \<Rightarrow> dbs \<Rightarrow> blockhash list \<Rightarrow> dbs \<Rightarrow> bool" where
  "reached E \<equiv> history (he_btc E) (he_srt E) (he_ord E) (he_handler E)"

abbreviation env_he :: "handler_env \<Rightarrow> bool" where
  "env_he E \<equiv> env_ok (he_srt E) (he_ord E) (he_handler E)"

text \<open>What the synchronisation relies on.\<close>

definition sync_ok :: "handler_env \<Rightarrow> block set \<Rightarrow> dbs \<Rightarrow> blockhash list \<Rightarrow> bool" where
  "sync_ok E S db0 missing0 \<longleftrightarrow> env_he E \<and> distinct missing0 \<and>
     sound_blocks (he_btc E) (he_srt E) (he_ord E) (he_handler E) db0 S"

lemma sync_okD:
  assumes "sync_ok E S db0 missing0"
  shows "env_he E" "distinct missing0" "sound_blocks (he_btc E) (he_srt E) (he_ord E) (he_handler E) db0 S"
  using assms by (simp_all add: sync_ok_def)

text \<open>The blocks missing at first are the ones still missing, the pending ones and those connected.\<close>

definition pending_inv :: "handler_env \<Rightarrow> block set \<Rightarrow> dbs \<Rightarrow> blockhash list \<Rightarrow> blockhash list \<Rightarrow> pending_state \<Rightarrow> bool" where
  "pending_inv E S db0 hs0 missing0 s \<longleftrightarrow>
     (\<exists>hs. reached E db0 (hs @ hs0) (ps_db s) \<and> dbs_wf (he_handler E) (ps_db s) \<and>
        missing0 = ps_missing s @ rev (map (block_hash_of (he_btc E)) (ps_pending s)) @ hs) \<and>
     set (ps_pending s) \<subseteq> S"

lemma takeWhile_first:
  assumes "distinct (map f xs)" "n < length xs" "f (xs ! n) = y"
  shows "length (takeWhile (\<lambda>x. f x \<noteq> y) xs) = n"
proof -
  have "takeWhile (\<lambda>x. f x \<noteq> y) xs = take n xs"
  proof (rule takeWhile_eq_take_P_nth)
    fix i
    assume i: "i < n" "i < length xs"
    then have "map f xs ! i \<noteq> map f xs ! n"
      using assms(1,2) by (simp only: nth_eq_iff_index_eq length_map)
    then show "f (xs ! i) \<noteq> y" using i assms(2,3) by simp
  qed (use assms in auto)
  then show ?thesis using assms(2) by simp
qed

lemma restore_pending_rev: "restore_pending_blocks B m ps = m @ rev (map (block_hash_of B) ps)"
  by (simp add: restore_pending_blocks_def rev_map)

lemma connect_pending_ok:
  assumes ok: "sync_ok E S db0 missing0" and inv: "pending_inv E S db0 hs0 missing0 s"
    and con: "connect_pending_blocks E s = (r, s')"
  shows "pending_inv E S db0 hs0 missing0 s'"
proof -
  let ?B = "he_btc E" and ?bs = "ps_pending s"
  note env = sync_okD(1) [OF ok] and dist = sync_okD(2) [OF ok] and sound = sync_okD(3) [OF ok]
  from inv obtain hs where hs: "reached E db0 (hs @ hs0) (ps_db s)" "dbs_wf (he_handler E) (ps_db s)"
    "missing0 = ps_missing s @ rev (map (block_hash_of ?B) ?bs) @ hs" and S: "set ?bs \<subseteq> S"
    by (auto simp: pending_inv_def)
  have rd: "batch_ready ?B (he_srt E) (he_ord E) (he_handler E) ?bs (ps_db s)"
    by (rule sound_batch_ready [OF sound env hs(1,2) S])
  have d: "distinct (map (block_hash_of ?B) ?bs)" using dist hs(3) by simp
  show ?thesis
  proof (cases "handle_block_batch ?B (he_srt E) (he_ord E) (he_handler E) ?bs [] (ps_db s)")
    case (Inl e)
    then have "s' = s" using con by (simp add: connect_pending_blocks_def handle_block_batch_and_commit_def)
    then show ?thesis using inv by simp
  next
    case (Inr x)
    then obtain bad evs db' where
      h: "handle_block_batch ?B (he_srt E) (he_ord E) (he_handler E) ?bs [] (ps_db s) = Inr (bad, evs, db')"
      by (cases x) auto
    from handle_block_batch_prefix [OF env h hs(2) rd hs(1)] obtain n where
      n: "n \<le> length ?bs" "dbs_wf (he_handler E) db'"
        "reached E db0 ((rev (map (block_hash_of ?B) (take n ?bs)) @ hs) @ hs0) db'"
        "case bad of None \<Rightarrow> n = length ?bs
         | Some ib \<Rightarrow> n < length ?bs \<and> ib_block_hash ib = block_hash_of ?B (?bs ! n) \<and>
           connect_block ?B (he_srt E) (he_ord E) (he_handler E) (?bs ! n) db' = Inl (ib_reason ib) \<and>
           \<not> connect_fatal (ib_reason ib)" by auto
    have split: "rev (map (block_hash_of ?B) ?bs) =
        rev (map (block_hash_of ?B) (drop n ?bs)) @ rev (map (block_hash_of ?B) (take n ?bs))"
      by (metis append_take_drop_id map_append rev_append)
    show ?thesis
    proof (cases bad)
      case None
      with n(4) con h have s': "ps_missing s' = ps_missing s" "ps_pending s' = []" "ps_db s' = db'"
        by (auto simp: connect_pending_blocks_def handle_block_batch_and_commit_def)
      have "n = length ?bs" using None n(4) by simp
      then show ?thesis using n(2,3) hs(3) unfolding pending_inv_def s'
        by (intro conjI exI [of _ "rev (map (block_hash_of ?B) (take n ?bs)) @ hs"]) auto
    next
      case (Some ib)
      with n(4) have nl: "n < length ?bs" "block_hash_of ?B (?bs ! n) = ib_block_hash ib" by auto
      have "length (takeWhile (\<lambda>b. block_hash_of ?B b \<noteq> ib_block_hash ib) ?bs) = n"
        by (rule takeWhile_first [OF d nl])
      with con h Some nl(1) have s': "ps_missing s' = restore_pending_blocks ?B (ps_missing s) (drop n ?bs)"
          "ps_pending s' = []" "ps_db s' = db'"
        by (auto simp: connect_pending_blocks_def handle_block_batch_and_commit_def Let_def)
      show ?thesis using n(2,3) hs(3) split unfolding pending_inv_def s' restore_pending_rev
        by (intro conjI exI [of _ "rev (map (block_hash_of ?B) (take n ?bs)) @ hs"]) auto
    qed
  qed
qed

lemma stage_block_ok:
  assumes ok: "sync_ok E S db0 missing0" and inv: "pending_inv E S db0 hs0 missing0 s"
    and next_block: "ps_missing s \<noteq> []" "block_hash_of (he_btc E) b = last (ps_missing s)" "b \<in> S"
    and st: "stage_block E b s = (r, s')"
  shows "pending_inv E S db0 hs0 missing0 s'"
proof -
  let ?s = "s\<lparr>ps_pending := ps_pending s @ [b], ps_missing := butlast (ps_missing s)\<rparr>"
  have m: "butlast (ps_missing s) @ [block_hash_of (he_btc E) b] = ps_missing s" using next_block by simp
  from inv obtain hs where hs: "reached E db0 (hs @ hs0) (ps_db s)" "dbs_wf (he_handler E) (ps_db s)"
    "missing0 = ps_missing s @ rev (map (block_hash_of (he_btc E)) (ps_pending s)) @ hs" and S: "set (ps_pending s) \<subseteq> S"
    by (auto simp: pending_inv_def)
  have "missing0 = (butlast (ps_missing s) @ [block_hash_of (he_btc E) b]) @
      rev (map (block_hash_of (he_btc E)) (ps_pending s)) @ hs" unfolding m by (rule hs(3))
  then have inv': "pending_inv E S db0 hs0 missing0 ?s" using hs(1,2) S next_block(3)
    unfolding pending_inv_def by (intro conjI exI [of _ hs]) simp_all
  show ?thesis
  proof (cases "BLOCKS_DIR_CONNECT_BATCH_SIZE \<le> length (ps_pending ?s) \<or> ps_missing ?s = []")
    case True
    then have "connect_pending_blocks E ?s = (r, s')" using st unfolding stage_block_def Let_def by simp
    then show ?thesis by (rule connect_pending_ok [OF ok inv'])
  next
    case False
    then have "s' = ?s" using st unfolding stage_block_def Let_def by simp
    then show ?thesis using inv' by simp
  qed
qed

lemma cache_remove_None: "cache_remove c h = (None, c') \<Longrightarrow> c' = c"
  by (auto simp: cache_remove_def split: option.splits)

lemma process_cached_ok:
  assumes "sync_ok E S db0 missing0" "pending_inv E S db0 hs0 missing0 s" "cache_wf (he_btc E) S c" "process_cached_blocks E c s = (r, c', s')"
  shows "pending_inv E S db0 hs0 missing0 s' \<and> cache_wf (he_btc E) S c'"
  using assms
proof (induction E c s arbitrary: r c' s' rule: process_cached_blocks.induct)
  case (1 E c s)
  note unfold = process_cached_blocks.simps [of E c s]
  show ?case
  proof (cases "ps_missing s = []")
    case True
    then show ?thesis using "1.prems" by (simp add: unfold)
  next
    case False
    obtain ob c1 where rm: "cache_remove c (last (ps_missing s)) = (ob, c1)" by (cases "cache_remove c (last (ps_missing s))")
    show ?thesis
    proof (cases ob)
      case None
      then show ?thesis using "1.prems" False rm cache_remove_None by (auto simp: unfold)
    next
      case (Some b)
      note rm = rm [unfolded Some]
      note cw = cache_remove_wf [OF "1.prems"(3) rm]
      obtain x s1 where st: "stage_block E b s = (x, s1)" by (cases "stage_block E b s")
      have inv1: "pending_inv E S db0 hs0 missing0 s1"
        by (rule stage_block_ok [OF "1.prems"(1,2) False cw(2,3) st])
      show ?thesis
      proof (cases "x = Inr True")
        case True
        have "process_cached_blocks E c1 s1 = (r, c', s')"
          using "1.prems"(4) False rm st True by (simp add: unfold)
        from "1.IH" [OF False rm [symmetric] refl st [symmetric] True _ "1.prems"(1) inv1 cw(1) this]
        show ?thesis by simp
      next
        case False': False
        then have "s' = s1" "c' = c1" using "1.prems"(4) False rm st
          by (cases x; auto simp: unfold split: bool.splits)+
        then show ?thesis using inv1 cw(1) by simp
      qed
    qed
  qed
qed

text \<open>The blocks that the parser reads from a position on, and those it can read from the files of a directory, from
  the positions it starts at.\<close>

inductive parser_reaches :: "block_codec \<Rightarrow> directory \<Rightarrow> directory_parser \<Rightarrow> directory_parser \<Rightarrow> bool" for C dir where
  here: "parser_reaches C dir dp dp"
| further: "directory_next C dir dp = Some (Inr (Some (p, dp'))) \<Longrightarrow> parser_reaches C dir dp' dp'' \<Longrightarrow> parser_reaches C dir dp dp''"

definition blocks_from :: "block_codec \<Rightarrow> directory \<Rightarrow> directory_parser \<Rightarrow> block set" where
  "blocks_from C dir dp = {full_block p txs | p txs. \<exists>dp1 dp2. parser_reaches C dir dp dp1 \<and>
     directory_next C dir dp1 = Some (Inr (Some (p, dp2))) \<and> parse_tx_data C p = Inr txs}"

definition file_blocks :: "handler_env \<Rightarrow> block_dir \<Rightarrow> block set" where
  "file_blocks E D = {b. \<exists>dp0 dp h. directory_parser_new (bd_directory D) (bh_network (he_handler E))
       (network_magic (bh_params (he_handler E))) = Inr dp0 \<and> seek_block D h dp0 = Inr dp \<and>
     b \<in> blocks_from (bd_codec D) (bd_directory D) dp}"

lemma blocks_from_next:
  assumes "directory_next C dir dp = Some (Inr (Some (p, dp')))"
  shows "parse_tx_data C p = Inr txs \<Longrightarrow> full_block p txs \<in> blocks_from C dir dp" "blocks_from C dir dp' \<subseteq> blocks_from C dir dp"
  using assms unfolding blocks_from_def by (blast intro: parser_reaches.here parser_reaches.further)+

lemma next_block_header:
  assumes "next_block C p = Inr (Some (b, p'))"
  shows "pb_header b \<in> ran (c_header C)"
proof -
  from assms obtain bs where "c_header C bs = Some (pb_header b)"
    by (auto simp: next_block_def Let_def split: option.splits if_splits)
  then show ?thesis by (rule ranI)
qed

lemma directory_next_header:
  assumes "directory_next C dir dp = Some (Inr (Some (b, dp')))"
  shows "pb_header b \<in> ran (c_header C)"
proof -
  have "\<forall>x q. (Inr (Some (b, dp')) :: parse_block_file_error + (parsed_block \<times> directory_parser) option) =
      Inr (Some (x, q)) \<longrightarrow> pb_header x \<in> ran (c_header C)"
    by (rule directory_next.raw_induct [OF _ assms,
          where P = "\<lambda>C dir dp r. \<forall>x q. r = Inr (Some (x, q)) \<longrightarrow> pb_header x \<in> ran (c_header C)"])
      (auto split: option.splits sum.splits dest: next_block_header)
  then show ?thesis by simp
qed

text \<open>At most what the codec can decode.\<close>

lemma file_blocks_decoded:
  "b \<in> file_blocks E D \<Longrightarrow> blk_header b \<in> ran (c_header (bd_codec D)) \<and> blk_txdata b \<in> ran (c_txs (bd_codec D))"
  using directory_next_header
  by (fastforce simp: file_blocks_def blocks_from_def full_block_def parse_tx_data_def ran_def split: option.splits)

definition dir_inv :: "handler_env \<Rightarrow> block set \<Rightarrow> dbs \<Rightarrow> blockhash list \<Rightarrow> blockhash list \<Rightarrow> dir_state \<Rightarrow> bool" where
  "dir_inv E S db0 hs0 missing0 d \<longleftrightarrow> pending_inv E S db0 hs0 missing0 (ds_pending d) \<and> cache_wf (he_btc E) S (ds_cache d)"

fun round_ok :: "handler_env \<Rightarrow> block set \<Rightarrow> dbs \<Rightarrow> blockhash list \<Rightarrow> blockhash list \<Rightarrow> round_result \<Rightarrow> bool" where
  "round_ok E S db0 hs0 missing0 (Stop r s) = pending_inv E S db0 hs0 missing0 s"
| "round_ok E S db0 hs0 missing0 (Again d) = dir_inv E S db0 hs0 missing0 d"

lemma flush_pending_ok:
  "sync_ok E S db0 missing0 \<Longrightarrow> pending_inv E S db0 hs0 missing0 s \<Longrightarrow> pending_inv E S db0 hs0 missing0 (snd (flush_pending E r s))"
  using connect_pending_ok by (fastforce simp: flush_pending_def split: prod.splits sum.splits)

lemma expected_round_ok:
  assumes ok: "sync_ok E S db0 missing0" and "dir_inv E S db0 hs0 missing0 d" "ps_missing (ds_pending d) \<noteq> []"
    "block_hash_of (he_btc E) b = last (ps_missing (ds_pending d))" "b \<in> S"
  shows "round_ok E S db0 hs0 missing0 (expected_round E b d)"
proof -
  obtain r s where st: "stage_block E b (ds_pending d) = (r, s)" by (cases "stage_block E b (ds_pending d)")
  have s: "pending_inv E S db0 hs0 missing0 s"
    using stage_block_ok [OF ok _ assms(3-5) st] assms(2) by (simp add: dir_inv_def)
  obtain x c' s' where pc: "process_cached_blocks E (ds_cache d) s = (x, c', s')"
    by (cases "process_cached_blocks E (ds_cache d) s")
  have "pending_inv E S db0 hs0 missing0 s' \<and> cache_wf (he_btc E) S c'"
    using process_cached_ok [OF ok s _ pc] assms(2) by (simp add: dir_inv_def)
  then show ?thesis using st pc s
    by (auto simp: expected_round_def dir_inv_def split: sum.splits bool.splits)
qed

lemma unexpected_round_ok:
  assumes ok: "sync_ok E S db0 missing0" and "dir_inv E S db0 hs0 missing0 d" "block_hash_of (he_btc E) b = h" "b \<in> S"
    "unexpected_round E h b d = Some r"
  shows "round_ok E S db0 hs0 missing0 r"
proof -
  have "cache_wf (he_btc E) S (ds_cache d)" using assms(2) by (simp add: dir_inv_def)
  from cache_insert_wf [OF this assms(3,4)] obtain c' where
    "cache_insert (ds_cache d) h b = Some c'" "cache_wf (he_btc E) S c'" by blast
  then show ?thesis using assms(2,5) flush_pending_ok [OF ok]
    by (auto simp: unexpected_round_def Let_def dir_inv_def stop_with_def split: if_splits)
qed

lemma block_round_ok:
  assumes ok: "sync_ok E S db0 missing0" and inv: "dir_inv E S db0 hs0 missing0 d" and S: "\<And>txs. parse_tx_data C p = Inr txs \<Longrightarrow> full_block p txs \<in> S"
    and r: "block_round E C first p d = Some r"
  shows "round_ok E S db0 hs0 missing0 r"
proof (cases "parse_tx_data C p")
  case (Inl e)
  then show ?thesis using inv r by (auto simp: block_round_def Let_def dir_inv_def split: if_splits)
next
  case (Inr txs)
  let ?b = "full_block p txs" and ?h = "b_block_hash (he_btc E) (pb_header p)"
  let ?d = "d\<lparr>ds_found_start := True\<rparr>"
  have b: "?b \<in> S" "block_hash_of (he_btc E) ?b = ?h"
    using S [OF Inr] by (auto simp: full_block_def)
  have inv': "dir_inv E S db0 hs0 missing0 ?d" using inv by (simp add: dir_inv_def)
  consider (early) "\<not> ds_found_start d \<and> ?h \<noteq> first"
    | (fin) "\<not> (\<not> ds_found_start d \<and> ?h \<noteq> first)" "ps_missing (ds_pending d) = []"
    | (exp) "\<not> (\<not> ds_found_start d \<and> ?h \<noteq> first)" "ps_missing (ds_pending d) \<noteq> []" "?h = last (ps_missing (ds_pending d))"
    | (unexp) "\<not> (\<not> ds_found_start d \<and> ?h \<noteq> first)" "ps_missing (ds_pending d) \<noteq> []" "?h \<noteq> last (ps_missing (ds_pending d))"
    by blast
  then show ?thesis
  proof cases
    case early
    have "cache_wf (he_btc E) S (ds_cache d)" using inv by (simp add: dir_inv_def)
    from cache_insert_wf [OF this b(2,1)] show ?thesis
      using r early Inr inv by (auto simp: block_round_def Let_def dir_inv_def)
  next
    case fin
    then show ?thesis using r inv by (auto simp: block_round_def Let_def dir_inv_def)
  next
    case exp
    then have "r = expected_round E ?b ?d" using r Inr by (auto simp: block_round_def Let_def)
    then show ?thesis using expected_round_ok [OF ok inv', of ?b] exp b by simp
  next
    case unexp
    then have "unexpected_round E ?h ?b ?d = Some r" using r Inr by (auto simp: block_round_def Let_def)
    then show ?thesis using unexpected_round_ok [OF ok inv' b(2,1)] by simp
  qed
qed

lemma block_round_parser: "block_round E C first p d = Some (Again d') \<Longrightarrow> ds_parser d' = ds_parser d"
  by (auto simp: block_round_def expected_round_def unexpected_round_def stop_with_def Let_def
      split: if_splits sum.splits option.splits prod.splits bool.splits)

lemma dir_round_parser:
  "dir_round E C dir cancelled first d = Some (Again d') \<Longrightarrow> \<exists>p. directory_next C dir (ds_parser d) = Some (Inr (Some (p, ds_parser d')))"
  by (auto simp: dir_round_def stop_with_def split: if_splits option.splits sum.splits prod.splits dest: block_round_parser)

lemma dir_round_ok:
  assumes ok: "sync_ok E S db0 missing0" and inv: "dir_inv E S db0 hs0 missing0 d" and S: "blocks_from C dir (ds_parser d) \<subseteq> S"
    and r: "dir_round E C dir cancelled first d = Some r"
  shows "round_ok E S db0 hs0 missing0 r"
proof (cases "ds_count d mod 100 = 0 \<and> cancelled (ds_count d)")
  case True
  then show ?thesis using r inv flush_pending_ok [OF ok]
    by (auto simp: dir_round_def stop_with_def dir_inv_def)
next
  case False
  show ?thesis
  proof (cases "\<exists>p dp. directory_next C dir (ds_parser d) = Some (Inr (Some (p, dp)))")
    case True
    then obtain p dp where n: "directory_next C dir (ds_parser d) = Some (Inr (Some (p, dp)))" by blast
    have "dir_inv E S db0 hs0 missing0 (d\<lparr>ds_parser := dp, ds_count := ds_count d + 1\<rparr>)"
      using inv by (simp add: dir_inv_def)
    moreover have "full_block p txs \<in> S" if "parse_tx_data C p = Inr txs" for txs using blocks_from_next(1) [OF n that] S by blast
    ultimately show ?thesis using block_round_ok [OF ok, of hs0 _ C p first r] r False n by (simp add: dir_round_def)
  next
    case no: False
    then show ?thesis using r False inv
      by (auto simp: dir_round_def dir_inv_def split: option.splits sum.splits if_splits)
  qed
qed

lemma dir_loop_ok:
  assumes "dir_loop E C dir cancelled first d = Some r"
    "sync_ok E S db0 missing0" "blocks_from C dir (ds_parser d) \<subseteq> S" "dir_inv E S db0 hs0 missing0 d"
  shows "pending_inv E S db0 hs0 missing0 (snd r)"
proof -
  have "sync_ok E S db0 missing0 \<longrightarrow> blocks_from C dir (ds_parser d) \<subseteq> S \<longrightarrow> dir_inv E S db0 hs0 missing0 d \<longrightarrow> pending_inv E S db0 hs0 missing0 (snd r)"
  proof (rule dir_loop.raw_induct [OF _ assms(1), where P = "\<lambda>E C dir cancelled first d r. sync_ok E S db0 missing0 \<longrightarrow>
        blocks_from C dir (ds_parser d) \<subseteq> S \<longrightarrow> dir_inv E S db0 hs0 missing0 d \<longrightarrow> pending_inv E S db0 hs0 missing0 (snd r)"], intro impI)
    fix f E C dir cancelled first d r
    assume IH: "\<And>E C dir cancelled first d r. f E C dir cancelled first d = Some r \<Longrightarrow> sync_ok E S db0 missing0 \<longrightarrow>
        blocks_from C dir (ds_parser d) \<subseteq> S \<longrightarrow> dir_inv E S db0 hs0 missing0 d \<longrightarrow> pending_inv E S db0 hs0 missing0 (snd r)"
      and step: "(case dir_round E C dir cancelled first d of None \<Rightarrow> None | Some (Stop r s) \<Rightarrow> Some (r, s)
        | Some (Again d) \<Rightarrow> f E C dir cancelled first d) = Some r"
      and ok: "sync_ok E S db0 missing0" and S: "blocks_from C dir (ds_parser d) \<subseteq> S" and inv: "dir_inv E S db0 hs0 missing0 d"
    note round = dir_round_ok [OF ok inv S, of cancelled first]
    have "blocks_from C dir (ds_parser d') \<subseteq> S" if "dir_round E C dir cancelled first d = Some (Again d')" for d'
      using dir_round_parser [OF that] blocks_from_next(2) S by blast
    then show "pending_inv E S db0 hs0 missing0 (snd r)"
      using round step IH ok by (auto split: option.splits round_result.splits)
  qed
  then show ?thesis using assms by blast
qed

lemma directory_sync_ok:
  assumes "sync_from_directory E D cancelled missing0 db1 = Some (r, missing, evs, db)"
    and "reached E db0 hs0 db1" "dbs_wf (he_handler E) db1" "sync_ok E S db0 missing0"
    and "file_blocks E D \<subseteq> S"
  shows "\<exists>hs. missing0 = missing @ hs \<and> reached E db0 (hs @ hs0) db \<and> dbs_wf (he_handler E) db"
proof -
  let ?s = "\<lparr>ps_missing = missing0, ps_pending = [], ps_handled = 0, ps_events = [], ps_db = db1\<rparr>"
  from assms(1) obtain s where inner: "sync_from_directory_inner E D cancelled ?s = Some (r, s)"
    and res: "missing = restore_pending_blocks (he_btc E) (ps_missing s) (ps_pending s)" "db = ps_db s"
    by (auto simp: sync_from_directory_def restore_pending_rev split: option.splits)
  have inv0: "pending_inv E S db0 hs0 missing0 ?s"
    using assms(2,3) by (auto simp: pending_inv_def)
  have cache: "cache_wf (he_btc E) S (block_cache_new MAX_BLOCK_CACHE_SIZE)"
    by (simp add: cache_wf_def block_cache_new_def MAX_BLOCK_CACHE_SIZE_def)
  have "pending_inv E S db0 hs0 missing0 s"
  proof (cases "s = ?s")
    case True
    then show ?thesis using inv0 by simp
  next
    case False
    with inner obtain dp0 dp x s1 where
      dp: "directory_parser_new (bd_directory D) (bh_network (he_handler E)) (network_magic (bh_params (he_handler E))) = Inr dp0"
        "seek_block D (last missing0) dp0 = Inr dp"
      and loop: "dir_loop E (bd_codec D) (bd_directory D) cancelled (last missing0)
          \<lparr>ds_parser = dp, ds_cache = block_cache_new MAX_BLOCK_CACHE_SIZE, ds_found_start = False,
           ds_without_match = 0, ds_count = 0, ds_pending = ?s\<rparr> = Some (x, s1)"
      and s: "s = s1 \<or> s = snd (flush_pending E (Inr ()) s1)"
      by (auto simp: sync_from_directory_inner_def split: if_splits sum.splits option.splits
          directory_parser_error.splits prod.splits)
    have "blocks_from (bd_codec D) (bd_directory D) dp \<subseteq> S" using dp assms(5) unfolding file_blocks_def by blast
    with dir_loop_ok [OF loop assms(4)] inv0 cache have "pending_inv E S db0 hs0 missing0 s1"
      by (simp add: dir_inv_def)
    then show ?thesis using s flush_pending_ok [OF assms(4)] by blast
  qed
  then show ?thesis by (auto simp: pending_inv_def res restore_pending_rev)
qed

text \<open>C17: after \<open>sync_from_directory\<close>, whether it succeeds or fails, \<open>missing_blocks\<close> describes
  exactly what is left to sync: it is what was missing, less the blocks that were connected to the
  tables in the meantime, in order. \<open>db0\<close> is where the history of the tables starts.\<close>

theorem directory_sync_exact:
  assumes "sync_from_directory E D cancelled missing0 db1 = Some (r, missing, evs, db)"
    and "reached E db0 hs0 db1" "dbs_wf (he_handler E) db1" "sync_ok E S db0 missing0"
    and "file_blocks E D \<subseteq> S"
  shows "\<exists>hs. missing0 = missing @ hs \<and> reached E db0 (hs @ hs0) db \<and> dbs_wf (he_handler E) db"
  using assms by (rule directory_sync_ok)

section \<open>A file with one block\<close>

definition sample_he :: handler_env where
  "sample_he = \<lparr>he_btc = sample_btc, he_srt = sort_by_votes, he_ord = id, he_handler = sample_handler\<rparr>"

definition sample_block_file :: bytes where
  "sample_block_file = block_file None REGTEST_MAGIC [(replicate 80 0, [])] 0"

definition file_codec_of :: "block \<Rightarrow> block_codec" where
  "file_codec_of b = \<lparr>c_header = (\<lambda>_. Some (blk_header b)), c_txs = (\<lambda>_. Some (blk_txdata b)), c_magic = magic_for_network\<rparr>"

definition one_file_dir :: "block \<Rightarrow> blockhash \<Rightarrow> block_dir" where
  "one_file_dir b g = \<lparr>bd_directory = \<lparr>dir_files = [0 \<mapsto> sample_block_file], dir_xor = Some (replicate 8 0)\<rparr>,
     bd_codec = file_codec_of b, bd_index = Inl (), bd_genesis = g\<rparr>"

definition sample_dir :: block_dir where
  "sample_dir = one_file_dir sample_block sample_hash"

lemma sample_he_simps [simp]:
  "he_btc sample_he = sample_btc" "he_srt sample_he = sort_by_votes" "he_ord sample_he = id"
  "he_handler sample_he = sample_handler"
  by (simp_all add: sample_he_def)

lemma one_file_blocks: "file_blocks E (one_file_dir b g) \<subseteq> {b}"
proof
  fix b'
  assume "b' \<in> file_blocks E (one_file_dir b g)"
  from file_blocks_decoded [OF this] have "blk_header b' = blk_header b" "blk_txdata b' = blk_txdata b"
    by (auto simp: one_file_dir_def file_codec_of_def ran_def)
  then show "b' \<in> {b}" by (cases b; cases b') simp
qed

lemma sample_sound: "sound_blocks sample_btc sort_by_votes id sample_handler sample_chain {sample_block}"
  unfolding sound_blocks_def
proof (intro allI impI)
  fix hs x b r
  assume h: "history sample_btc sort_by_votes id sample_handler sample_chain hs x" and "b \<in> {sample_block}"
    and con: "connect_block sample_btc sort_by_votes id sample_handler b x = Inr r"
  then have b: "b = sample_block" by simp
  note le = headers_leD [OF history_headers [OF h sample_env]]
  have st: "header_db (block_hashes x) sample_hash = Some sample_header" "height_db (block_hashes x) sample_hash = Some 12"
    "height_db (block_hashes x) (pad32 [3]) = Some 11"
    by (rule le; simp add: sample_chain_def sample_hash_ne(1) [symmetric])+
  from con obtain info db1 where "partial_connect_block sample_btc sort_by_votes id sample_handler sample_block x = Inr (info, db1)"
    unfolding b by (auto simp: connect_block_def split: sum.splits)
  from block_height_partial(4) [OF this] have tip: "current_chain_tip x = Some (pad32 [3])"
    using sample_hash_ne(3) by (auto simp: ensure_tip_Inr sample_block_def sample_header_def)
  have "next_height x = unat (11 :: u32) + 1 + length hs"
    by (rule history_next_height [OF h sample_env, of "pad32 [3]"]) (simp_all add: sample_chain_def sample_hash_ne(1) [symmetric])
  moreover have nh: "next_height x = 12" using tip st(3) by (simp add: next_height_def)
  ultimately have "hs = []" by simp
  with history_empty [OF h] have "active_sidechains x = active_sidechains sample_chain" by (simp add: chain_state_def)
  moreover have "fresh_txs sample_btc (tl (blk_txdata sample_block)) sample_chain"
    using sample_ready by (simp add: block_ready_def)
  ultimately have "fresh_txs sample_btc (tl (blk_txdata sample_block)) x" by (simp add: fresh_txs_def)
  then show "block_ready sample_btc x b" unfolding b block_ready_def Let_def sample_block_hash
    using st nh sample_hash_ne(2) by (simp add: sample_block_def)
qed

lemma sample_sync_ok: "sync_ok sample_he {sample_block} sample_chain [sample_hash]"
  using sample_sound sample_env by (simp add: sync_ok_def)

definition sample_open :: file_parser where
  "sample_open = \<lparr>fp_reader = \<lparr>xr_data = sample_block_file, xr_key = None, xr_offset = 0\<rparr>,
     fp_network = Regtest, fp_magic_override = None\<rparr>"

lemma one_next_block:
  "next_block (file_codec_of b) sample_open = Inr (Some (\<lparr>pb_header = blk_header b, pb_raw_tx_data = [], pb_offset = 0\<rparr>,
     sample_open\<lparr>fp_reader := (fp_reader sample_open)\<lparr>xr_offset := 88\<rparr>\<rparr>))"
proof -
  have "next_block (file_codec_of b) sample_open = Inr (Some (\<lparr>pb_header = the (c_header (file_codec_of b) (replicate 80 0)),
      pb_raw_tx_data = [], pb_offset = length ([] :: bytes)\<rparr>,
      sample_open\<lparr>fp_reader := (fp_reader sample_open)\<lparr>xr_offset := length ([] :: bytes) + 88 + length ([] :: bytes)\<rparr>\<rparr>))"
    by (rule next_block_entry [where magic = REGTEST_MAGIC and post = "[]" and pad = "[]"])
      (simp_all add: entry_ok_def MAX_BLOCK_SERIALIZED_SIZE_def file_codec_of_def sample_open_def
        expected_magic_of_def REGTEST_MAGIC_def key_differs_def sample_block_file_def block_file_def)
  then show ?thesis by (simp add: file_codec_of_def)
qed

lemma sample_file_length: "length sample_block_file = 88"
  by (simp add: sample_block_file_def block_file_def obfuscate_def file_entry_def REGTEST_MAGIC_def)

definition sample_dp :: directory_parser where
  "sample_dp = \<lparr>dp_xor_key = None, dp_network = Regtest, dp_magic_override = None, dp_file_index = 0,
     dp_current_parser = None\<rparr>"

lemma directory_next_steps:
  "dp_current_parser dp = None \<Longrightarrow> dir_files dir (dp_file_index dp) = Some bs \<Longrightarrow>
     directory_next C dir dp = directory_next C dir (dp\<lparr>dp_current_parser := Some (open_file dp bs)\<rparr>)"
  "dp_current_parser dp = None \<Longrightarrow> dir_files dir (dp_file_index dp) = None \<Longrightarrow> directory_next C dir dp = Some (Inr None)"
  "dp_current_parser dp = Some p \<Longrightarrow> next_block C p = Inr (Some (b, p')) \<Longrightarrow>
     directory_next C dir dp = Some (Inr (Some (b, dp\<lparr>dp_current_parser := Some p'\<rparr>)))"
  "dp_current_parser dp = Some p \<Longrightarrow> next_block C p = Inr None \<Longrightarrow>
     directory_next C dir dp = directory_next C dir (dp\<lparr>dp_current_parser := None, dp_file_index := dp_file_index dp + 1\<rparr>)"
  by (subst directory_next.simps; simp)+

lemma one_directory_next:
  "\<exists>dp. directory_next (file_codec_of b) (bd_directory (one_file_dir b g)) sample_dp =
       Some (Inr (Some (\<lparr>pb_header = blk_header b, pb_raw_tx_data = [], pb_offset = 0\<rparr>, dp))) \<and>
     directory_next (file_codec_of b) (bd_directory (one_file_dir b g)) dp = Some (Inr None)"
proof -
  let ?C = "file_codec_of b" and ?D = "bd_directory (one_file_dir b g)"
  let ?q = "sample_open\<lparr>fp_reader := (fp_reader sample_open)\<lparr>xr_offset := 88\<rparr>\<rparr>"
  let ?dp1 = "sample_dp\<lparr>dp_current_parser := Some (open_file sample_dp sample_block_file)\<rparr>"
  let ?dp2 = "sample_dp\<lparr>dp_current_parser := Some ?q\<rparr>"
  have o: "open_file sample_dp sample_block_file = sample_open" by (simp add: open_file_def sample_dp_def sample_open_def)
  have 1: "directory_next ?C ?D sample_dp = directory_next ?C ?D ?dp1"
    by (rule directory_next_steps(1)) (simp_all add: sample_dp_def one_file_dir_def)
  have 2: "directory_next ?C ?D ?dp1 = Some (Inr (Some (\<lparr>pb_header = blk_header b, pb_raw_tx_data = [], pb_offset = 0\<rparr>,
      ?dp1\<lparr>dp_current_parser := Some ?q\<rparr>)))"
    by (rule directory_next_steps(3) [OF _ one_next_block]) (simp add: o)
  have "next_block ?C ?q = Inr None"
    by (simp add: next_block_def xr_read_exact_def sample_open_def sample_file_length)
  then have 3: "directory_next ?C ?D ?dp2 =
      directory_next ?C ?D (?dp2\<lparr>dp_current_parser := None, dp_file_index := dp_file_index ?dp2 + 1\<rparr>)"
    by (rule directory_next_steps(4) [rotated]) simp
  have 4: "directory_next ?C ?D (?dp2\<lparr>dp_current_parser := None, dp_file_index := dp_file_index ?dp2 + 1\<rparr>) = Some (Inr None)"
    by (rule directory_next_steps(2)) (simp_all add: sample_dp_def one_file_dir_def)
  show ?thesis using 1 2 3 4 by (intro exI [of _ ?dp2]) simp
qed

lemma one_dir_loop:
  assumes con: "connect_block (he_btc E) (he_srt E) (he_ord E) (he_handler E) b db = Inr (ev, db')"
    and g: "block_hash_of (he_btc E) b = g" and net: "bh_network (he_handler E) = Regtest"
      "network_magic (bh_params (he_handler E)) = None"
    and ht: "height_db (block_hashes db) (hd (missing @ [g])) = Some k"
  shows "sync_from_directory E (one_file_dir b g) (\<lambda>_. False) (missing @ [g]) db = Some (Inr 1, missing, [ev], db')"
proof -
  let ?C = "file_codec_of b" and ?D = "one_file_dir b g"
  obtain dp where n: "directory_next ?C (bd_directory ?D) sample_dp =
      Some (Inr (Some (\<lparr>pb_header = blk_header b, pb_raw_tx_data = [], pb_offset = 0\<rparr>, dp)))"
    "directory_next ?C (bd_directory ?D) dp = Some (Inr None)"
    using one_directory_next by blast
  let ?s = "\<lparr>ps_missing = missing @ [g], ps_pending = [], ps_handled = 0, ps_events = [], ps_db = db\<rparr>"
  let ?d = "\<lparr>ds_parser = sample_dp, ds_cache = block_cache_new MAX_BLOCK_CACHE_SIZE, ds_found_start = False,
     ds_without_match = 0, ds_count = 0, ds_pending = ?s\<rparr>"
  define staged where "staged = ?s\<lparr>ps_missing := missing, ps_pending := [b]\<rparr>"
  define finish where "finish = \<lparr>ps_missing = missing, ps_pending = [], ps_handled = 1, ps_events = [ev], ps_db = db'\<rparr>"
  define s' where "s' = (if missing = [] then finish else staged)"
  let ?d' = "?d\<lparr>ds_parser := dp, ds_count := 1, ds_found_start := True, ds_pending := s'\<rparr>"
  have cp: "connect_pending_blocks E staged = (Inr True, finish)"
    using con by (simp add: connect_pending_blocks_def handle_block_batch_and_commit_def staged_def finish_def)
  have st: "stage_block E b ?s = (Inr True, s')"
    using cp by (auto simp: stage_block_def s'_def staged_def BLOCKS_DIR_CONNECT_BATCH_SIZE_def)
  have pc: "process_cached_blocks E (ds_cache ?d) s' = (Inr True, ds_cache ?d, s')"
    by (subst process_cached_blocks.simps) (simp add: s'_def staged_def finish_def cache_remove_def block_cache_new_def)
  have px: "parse_tx_data ?C \<lparr>pb_header = blk_header b, pb_raw_tx_data = [], pb_offset = 0\<rparr> = Inr (blk_txdata b)"
    by (simp add: parse_tx_data_def file_codec_of_def)
  have fb: "full_block \<lparr>pb_header = blk_header b, pb_raw_tx_data = [], pb_offset = 0\<rparr> (blk_txdata b) = b"
    by (simp add: full_block_def)
  have 1: "dir_round E ?C (bd_directory ?D) (\<lambda>_. False) g ?d = Some (Again ?d')"
    using n(1) st pc px g by (simp add: dir_round_def block_round_def Let_def expected_round_def fb)
  have 2: "dir_round E ?C (bd_directory ?D) (\<lambda>_. False) g ?d' = Some (Stop (Inr ()) s')"
    using n(2) by (simp add: dir_round_def)
  have "dir_loop E ?C (bd_directory ?D) (\<lambda>_. False) g ?d = Some (Inr (), s')"
    by (subst dir_loop.simps, simp only: 1 option.case round_result.case)
      (subst dir_loop.simps, simp only: 2 option.case round_result.case)
  moreover have "flush_pending E (Inr ()) s' = (Inr (), finish)"
    using cp by (simp add: flush_pending_def s'_def staged_def finish_def)
  moreover have "directory_parser_new (bd_directory ?D) (bh_network (he_handler E)) (network_magic (bh_params (he_handler E))) =
      Inr sample_dp"
    by (simp add: directory_parser_new_def one_file_dir_def sample_dp_def net Let_def list_all_iff)
  moreover have "seek_block ?D g sample_dp = Inr sample_dp" "bd_codec ?D = ?C"
    by (simp_all add: seek_block_def one_file_dir_def)
  ultimately show ?thesis using ht
    by (simp add: sync_from_directory_def sync_from_directory_inner_def finish_def)
qed

lemma sample_dir_loop:
  "\<exists>evs db. sync_from_directory sample_he sample_dir (\<lambda>_. False) [sample_hash] sample_chain = Some (Inr 1, [], evs, db)"
proof -
  obtain ev db' where con: "connect_block sample_btc sort_by_votes id sample_handler sample_block sample_chain = Inr (ev, db')"
    using sample_connect by blast
  have facts: "block_hash_of sample_btc sample_block = sample_hash" "bh_network sample_handler = Regtest"
    "network_magic (bh_params sample_handler) = None" "height_db (block_hashes sample_chain) (hd ([] @ [sample_hash])) = Some 12"
    by (simp_all add: sample_block_def sample_handler_def network_params_new_def sample_chain_def)
  have "sync_from_directory sample_he (one_file_dir sample_block sample_hash) (\<lambda>_. False) ([] @ [sample_hash]) sample_chain =
      Some (Inr 1, [], [ev], db')"
    by (rule one_dir_loop) (simp_all only: sample_he_simps con facts)
  then show ?thesis by (simp add: sample_dir_def)
qed

theorem directory_sync_exact_witness:
  "\<exists>evs db. sync_from_directory sample_he sample_dir (\<lambda>_. False) [sample_hash] sample_chain = Some (Inr 1, [], evs, db) \<and>
     reached sample_he sample_chain [sample_hash] db"
proof -
  obtain evs db where s: "sync_from_directory sample_he sample_dir (\<lambda>_. False) [sample_hash] sample_chain =
      Some (Inr 1, [], evs, db)" using sample_dir_loop by blast
  from directory_sync_exact [OF s history.start _ sample_sync_ok one_file_blocks [of _ sample_block sample_hash, folded sample_dir_def]] sample_chain_wf s show ?thesis by auto
qed

end
