(* ===== verification/Sync.thy ===== *)
theory Sync
  imports DirectorySync
begin

text \<open>
  Block synchronisation as a whole, \<open>sync_blocks\<close> and \<open>sync_to_tip\<close> in
  \<open>src/lib/validator/task/mod.rs\<close>: back to the last common ancestor, the blocks below the
  activation height from their headers, the block files, and the rest in batches over JSON-RPC,
  waiting where the node has no block data yet.

  \<open>cancelled\<close> says in which iteration of which phase a shutdown is noticed. A panic is the error
  \<open>SE_Panic\<close>, which no caller handles.
\<close>

section \<open>Fetching blocks\<close>

fun decode_blocks :: "node \<Rightarrow> string list \<Rightarrow> sync_error + block list" where
  "decode_blocks node [] = Inr []"
| "decode_blocks node (raw # raws) =
     (case d_hex node raw of
        None \<Rightarrow> Inl SE_Hex
      | Some bytes \<Rightarrow>
     (case d_block node bytes of
        None \<Rightarrow> Inl SE_Decode
      | Some block \<Rightarrow>
     (case decode_blocks node raws of
        Inl e \<Rightarrow> Inl e
      | Inr blocks \<Rightarrow> Inr (block # blocks))))"

definition fetch_blocks_batch :: "node \<Rightarrow> nat \<Rightarrow> blockhash list \<Rightarrow> sync_error + block list" where
  "fetch_blocks_batch node t hashes =
     (case n_block_batch node t hashes of
        Inl _ \<Rightarrow> Inl (JsonRpc ''getblock (batched)'')
      | Inr (Inl errors) \<Rightarrow> Inl (BatchJsonRpc errors)
      | Inr (Inr raws) \<Rightarrow> decode_blocks node raws)"

definition BLOCK_FETCH_BATCH_SIZE :: nat where
  "BLOCK_FETCH_BATCH_SIZE = 50"

text \<open>The size of the next batch, \<open>None\<close> where the next block is inside the gap.\<close>

definition next_batch_size :: "block_data_gap option \<Rightarrow> u32 \<Rightarrow> nat option" where
  "next_batch_size gap height =
     (case gap of
        Some g \<Rightarrow>
          if gap_contains g height then None
          else if height \<le> gap_background_height g
          then Some (min BLOCK_FETCH_BATCH_SIZE (unat (gap_background_height g - height + 1)))
          else Some BLOCK_FETCH_BATCH_SIZE
      | None \<Rightarrow> Some BLOCK_FETCH_BATCH_SIZE)"

datatype sync_phase = PreActivation | BlockDirectory | BlockBatches

text \<open>The loop over the missing blocks, oldest first, \<open>None\<close> where it does not return.\<close>

partial_function (option) blocks_loop :: "handler_env \<Rightarrow> node \<Rightarrow> (nat \<Rightarrow> bool) \<Rightarrow> blockhash list \<Rightarrow> u32 \<Rightarrow>
    nat \<Rightarrow> nat \<Rightarrow> block_data_gap option \<Rightarrow> event list \<Rightarrow> dbs \<Rightarrow>
    ((sync_error + invalid_block option) \<times> event list \<times> dbs) option" where
  "blocks_loop E node cancelled missing_rev first_missing_height t next_idx gap sent db =
     (if length missing_rev \<le> next_idx then Some (Inr None, sent, db)
      else if cancelled t then Some (Inl Shutdown, sent, db)
      else
        let height = first_missing_height + of_nat next_idx in
        case next_batch_size gap height of
          None \<Rightarrow>
            if n_cancelled_waiting node t then Some (Inl Shutdown, sent, db)
            else (case block_data_gap_at node (t + 1) (block_hashes db) of
              Inl e \<Rightarrow> Some (Inl e, sent, db)
            | Inr gap \<Rightarrow>
                blocks_loop E node cancelled missing_rev first_missing_height (t + 1) next_idx gap sent db)
        | Some batch_size \<Rightarrow>
            let batch_end = min (next_idx + batch_size) (length missing_rev) in
            (case fetch_blocks_batch node t (take (batch_end - next_idx) (drop next_idx missing_rev)) of
               Inl e \<Rightarrow> Some (Inl e, sent, db)
             | Inr blocks \<Rightarrow>
            (case handle_block_batch_and_commit (he_btc E) (he_srt E) (he_ord E) (he_handler E) blocks db of
               (Inl e, events, db) \<Rightarrow> Some (Inl e, sent @ events, db)
             | (Inr (Some invalid_block), events, db) \<Rightarrow> Some (Inr (Some invalid_block), sent @ events, db)
             | (Inr None, events, db) \<Rightarrow>
                 blocks_loop E node cancelled missing_rev first_missing_height (t + 1) batch_end gap
                   (sent @ events) db)))"

text \<open>The block directory: its errors are only passed on if they leave a gap.\<close>

definition sync_block_dir :: "handler_env \<Rightarrow> block_dir option \<Rightarrow> (nat \<Rightarrow> bool) \<Rightarrow> blockhash \<Rightarrow> blockhash list \<Rightarrow> dbs \<Rightarrow>
    ((sync_error + blockhash list) \<times> event list \<times> dbs) option" where
  "sync_block_dir E dir cancelled main_tip missing db =
     (case dir of
        None \<Rightarrow> Some (Inr missing, [], db)
      | Some D \<Rightarrow>
     (case sync_from_directory E D cancelled missing db of
        None \<Rightarrow> None
      | Some (Inr _, missing, events, db) \<Rightarrow> Some (Inr missing, events, db)
      | Some (Inl e, missing, events, db) \<Rightarrow>
          if e = SE_Panic then Some (Inl e, events, db)
          else (case missing_blocks_connect_to_tip (he_btc E) db missing main_tip of
             Inl e' \<Rightarrow> Some (Inl e', events, db)
           | Inr False \<Rightarrow> Some (Inl e, events, db)
           | Inr True \<Rightarrow> Some (Inr missing, events, db))))"

text \<open>The rest of the missing blocks, over JSON-RPC.\<close>

definition sync_over_rpc :: "handler_env \<Rightarrow> node \<Rightarrow> (nat \<Rightarrow> bool) \<Rightarrow> u32 \<Rightarrow> blockhash list \<Rightarrow> event list \<Rightarrow> dbs \<Rightarrow>
    ((sync_error + invalid_block option) \<times> event list \<times> dbs) option" where
  "sync_over_rpc E node cancelled main_tip_height missing sent db =
     (case block_data_gap_at node 0 (block_hashes db) of
        Inl e \<Rightarrow> Some (Inl e, sent, db)
      | Inr gap \<Rightarrow>
          let missing_rev = rev missing;
              first_missing_height = (main_tip_height + 1) - of_nat (length missing_rev)
          in blocks_loop E node cancelled missing_rev first_missing_height 0 0 gap sent db)"

definition connect_missing :: "handler_env \<Rightarrow> node \<Rightarrow> block_dir option \<Rightarrow> (sync_phase \<Rightarrow> nat \<Rightarrow> bool) \<Rightarrow> blockhash \<Rightarrow>
    u32 \<Rightarrow> blockhash list \<Rightarrow> event list \<Rightarrow> dbs \<Rightarrow> ((sync_error + invalid_block option) \<times> event list \<times> dbs) option" where
  "connect_missing E node dir cancelled main_tip h missing sent db =
     (case connect_pre_activation_blocks (he_btc E) (he_handler E) (cancelled PreActivation) missing db of
        (Inl e, _, events, db) \<Rightarrow> Some (Inl e, sent @ events, db)
      | (Inr _, missing, events, db) \<Rightarrow>
     (case sync_block_dir E dir (cancelled BlockDirectory) main_tip missing db of
        None \<Rightarrow> None
      | Some (Inl e, events', db) \<Rightarrow> Some (Inl e, sent @ events @ events', db)
      | Some (Inr missing, events', db) \<Rightarrow>
          sync_over_rpc E node (cancelled BlockBatches) h missing (sent @ events @ events') db))"

definition sync_blocks :: "handler_env \<Rightarrow> node \<Rightarrow> block_dir option \<Rightarrow> (sync_phase \<Rightarrow> nat \<Rightarrow> bool) \<Rightarrow> blockhash \<Rightarrow> dbs \<Rightarrow>
    ((sync_error + invalid_block option) \<times> event list \<times> dbs) option" where
  "sync_blocks E node dir cancelled main_tip db =
     (case reorganise (he_btc E) main_tip db of
        None \<Rightarrow> None
      | Some (Inl e) \<Rightarrow> Some (Inl e, [], db)
      | Some (Inr (sent, db)) \<Rightarrow>
     (case missing_blocks_loop (block_hashes db) (tip_or_zeros db) main_tip [] of
        None \<Rightarrow> None
      | Some missing \<Rightarrow>
     (case height_db (block_hashes db) main_tip of
        None \<Rightarrow> Some (Inl (SE_Db MissingValue), sent, db)
      | Some main_tip_height \<Rightarrow>
          if missing = [] then Some (Inr None, sent, db)
          else connect_missing E node dir cancelled main_tip main_tip_height missing sent db)))"

definition sync_to_tip :: "handler_env \<Rightarrow> node \<Rightarrow> block_dir option \<Rightarrow> (sync_phase \<Rightarrow> nat \<Rightarrow> bool) \<Rightarrow> blockhash \<Rightarrow> dbs \<Rightarrow>
    ((sync_error + invalid_block option) \<times> event list \<times> dbs) option" where
  "sync_to_tip E node dir cancelled main_tip db =
     (case sync_headers (he_btc E) node main_tip (block_hashes db) of
        None \<Rightarrow> None
      | Some (Inl e, b) \<Rightarrow> Some (Inl e, [], db\<lparr>block_hashes := b\<rparr>)
      | Some (Inr _, b) \<Rightarrow> sync_blocks E node dir cancelled main_tip (db\<lparr>block_hashes := b\<rparr>))"

section \<open>What synchronisation relies on\<close>

text \<open>The history of the tables starts without a tip; headers have work; the node answers a request
  for blocks with the blocks of the requested hashes; the blocks of node and files are among \<open>S\<close>,
  the blocks that are ready whenever they connect.\<close>

definition sync_source :: "handler_env \<Rightarrow> node \<Rightarrow> block_dir option \<Rightarrow> dbs \<Rightarrow> block set \<Rightarrow> bool" where
  "sync_source E node dir base S \<longleftrightarrow> env_he E \<and> base_ok (he_handler E) base \<and> current_chain_tip base = None \<and>
     sound_blocks (he_btc E) (he_srt E) (he_ord E) (he_handler E) base S \<and> (\<forall>hdr. 0 < b_work (he_btc E) hdr) \<and>
     (\<forall>t hs blocks. fetch_blocks_batch node t hs = Inr blocks \<longrightarrow>
        map (block_hash_of (he_btc E)) blocks = hs \<and> set blocks \<subseteq> S) \<and>
     (\<forall>D. dir = Some D \<longrightarrow> file_blocks E D \<subseteq> S)"

lemma sync_sourceD:
  assumes "sync_source E node dir base S"
  shows "env_he E" "base_ok (he_handler E) base" "current_chain_tip base = None"
    "sound_blocks (he_btc E) (he_srt E) (he_ord E) (he_handler E) base S" "0 < b_work (he_btc E) hdr"
    "fetch_blocks_batch node t hs = Inr blocks \<Longrightarrow> map (block_hash_of (he_btc E)) blocks = hs \<and> set blocks \<subseteq> S"
    "dir = Some D \<Longrightarrow> file_blocks E D \<subseteq> S"
  using assms unfolding sync_source_def by blast+

section \<open>Back to the common ancestor\<close>

lemma ancestor_zeros: "headers_wf B b \<Longrightarrow> ancestor b a all_zeros \<Longrightarrow> a = all_zeros"
  by (auto simp: headers_wf_def elim: ancestor_cases)

text \<open>The ancestors of the tip are the blocks of the history.\<close>

lemma history_ancestors:
  assumes "env_he E" "current_chain_tip base = None"
  shows "reached E base hs x \<Longrightarrow> headers_wf (he_btc E) (block_hashes x) \<Longrightarrow>
    ancestor (block_hashes x) a (tip_or_zeros x) \<Longrightarrow> a = all_zeros \<or> a \<in> set hs"
proof (induction hs arbitrary: x)
  case Nil
  have "tip_or_zeros x = all_zeros"
    using history_tip [OF Nil.prems(1) assms(1)] assms(2) by (simp add: tip_or_zeros_def)
  then show ?case using ancestor_zeros [OF Nil.prems(2)] Nil.prems(3) by simp
next
  case (Cons h hs)
  have tip: "tip_or_zeros x = h" using history_tip [OF Cons.prems(1) assms(1)] by (simp add: tip_or_zeros_def)
  from history_disconnect [OF Cons.prems(1) assms(1), of "[]"] obtain y where
    y: "disconnect_block (he_btc E) h [] x = Inr ([DisconnectBlock h], y)" "reached E base hs y"
      "block_hashes y = block_hashes x" by auto
  from history_newest [OF Cons.prems(1) refl assms(1)] obtain hdr db where
    hdr: "header_db (block_hashes x) h = Some hdr" "reached E base hs db"
      "current_chain_tip db = (if hdr_prev_blockhash hdr = all_zeros then None else Some (hdr_prev_blockhash hdr))"
    by blast
  have "current_chain_tip y = current_chain_tip db"
    using history_tip [OF y(2) assms(1)] history_tip [OF hdr(2) assms(1)] by simp
  then have ty: "tip_or_zeros y = hdr_prev_blockhash hdr" using hdr(3) by (simp add: tip_or_zeros_def)
  from Cons.prems(3) tip have "a = h \<or> ancestor (block_hashes y) a (tip_or_zeros y)"
    using hdr(1) by (auto simp: y(3) ty elim: ancestor_cases)
  then show ?case using Cons.IH [OF y(2)] Cons.prems(2) y(3) by auto
qed

lemma reorganise_ok:
  assumes src: "env_he E" "current_chain_tip base = None" and r: "reached E base hs db"
    and wf: "headers_wf (he_btc E) (block_hashes db)" and tip: "known (block_hashes db) main_tip"
  shows "\<exists>ds rest y. reorganise (he_btc E) main_tip db = Some (Inr (map DisconnectBlock ds, y)) \<and> hs = ds @ rest \<and>
    reached E base rest y \<and> block_hashes y = block_hashes db \<and> ancestor (block_hashes y) (tip_or_zeros y) main_tip"
proof -
  have known: "known (block_hashes db) (tip_or_zeros db)"
  proof (cases hs)
    case Nil
    then show ?thesis using history_tip [OF r src(1)] src(2) by (simp add: tip_or_zeros_def)
  next
    case (Cons h tl)
    then show ?thesis using history_newest [OF r Cons src(1)] history_tip [OF r src(1)]
      by (auto simp: known_def tip_or_zeros_def)
  qed
  from last_common_ancestor_total [OF wf known tip] obtain lca where
    lca: "last_common_ancestor (block_hashes db) (tip_or_zeros db) main_tip = Inr lca"
    "ancestor (block_hashes db) lca (tip_or_zeros db)" "ancestor (block_hashes db) lca main_tip"
    by (auto simp: last_common_def)
  have dist: "distinct hs" by (rule history_distinct [OF r src(1)])
  have nz: "all_zeros \<notin> set hs"
    using history_nonzero [OF r src(1)] by blast
  from history_ancestors [OF src r wf lca(2)] have "\<exists>ds rest. hs = ds @ rest \<and>
      lca = (case rest of [] \<Rightarrow> tip_or_zeros base | h # _ \<Rightarrow> h) \<and> lca \<notin> set ds"
  proof
    assume "lca = all_zeros"
    then show ?thesis using nz src(2) by (intro exI [of _ hs] exI [of _ "[]"]) (simp add: tip_or_zeros_def)
  next
    assume "lca \<in> set hs"
    then obtain ds rest where "hs = ds @ lca # rest" "lca \<notin> set ds" by (metis split_list_first)
    then show ?thesis by (intro exI [of _ ds] exI [of _ "lca # rest"]) simp
  qed
  then obtain ds rest where split: "hs = ds @ rest" "lca = (case rest of [] \<Rightarrow> tip_or_zeros base | h # _ \<Rightarrow> h)"
    "lca \<notin> set ds" by blast
  from disconnect_to_history [OF src(1) r [unfolded split(1)] split(2,3), of "[]"] obtain y where
    y: "disconnect_to (he_btc E) lca (tip_or_zeros db) [] db = Some (Inr (map DisconnectBlock ds, y))"
      "reached E base rest y" "block_hashes y = block_hashes db" by auto
  have "reorganise (he_btc E) main_tip db = disconnect_to (he_btc E) lca (tip_or_zeros db) [] db"
    using lca(1) by (subst disconnect_to.simps) (auto simp: reorganise_def disconnect_to.simps)
  moreover have "tip_or_zeros y = lca"
    using history_tip [OF y(2) src(1)] split(2) by (cases rest) (auto simp: tip_or_zeros_def)
  ultimately show ?thesis using y split(1) lca(3) by (intro exI [of _ ds] exI [of _ rest] exI [of _ y]) simp
qed

section \<open>Blocks from headers\<close>

text \<open>The height of a child of the tip is the next height.\<close>

lemma child_height:
  assumes "headers_wf B (block_hashes x)" "dbs_wf bh x" "header_db (block_hashes x) h = Some hdr"
    "height_db (block_hashes x) h = Some k" "ensure_tip_is_parent x (hdr_prev_blockhash hdr) = Inr u"
  shows "unat k = next_height x"
proof -
  note wf = headers_wfD [OF assms(1,3)]
  have k: "level (block_hashes x) h = unat k + 1" using wf(5) assms(4) by (simp add: level_def)
  have tip: "current_chain_tip x = (if hdr_prev_blockhash hdr = all_zeros then None else Some (hdr_prev_blockhash hdr))"
    using assms(2,5) by (auto simp: ensure_tip_Inr dbs_wf_def)
  show ?thesis
  proof (cases "hdr_prev_blockhash hdr = all_zeros")
    case True
    then show ?thesis using wf(4) k tip by (simp add: next_height_def)
  next
    case False
    from level_known [OF assms(1) wf(3) False] obtain j where
      "height_db (block_hashes x) (hdr_prev_blockhash hdr) = Some j"
      "level (block_hashes x) (hdr_prev_blockhash hdr) = unat j + 1" .
    then show ?thesis using wf(4) k tip False by (simp add: next_height_def)
  qed
qed

lemma from_header_reached:
  assumes env: "env_he E" and work: "\<And>hdr. 0 < b_work (he_btc E) hdr" and r: "reached E base hs x"
    and wf: "headers_wf (he_btc E) (block_hashes x)" "dbs_wf (he_handler E) x"
    and h: "height_db (block_hashes x) h = Some k" "k < bip300_activation_height (bh_params (he_handler E))"
    and con: "connect_block_from_header (he_btc E) h x = Inr (ev, y)"
  shows "reached E base (h # hs) y"
proof -
  let ?B = "he_btc E"
  from con obtain hi where hi: "get_header_info ?B (block_hashes x) h = Inr hi"
    and tip: "ensure_tip_is_parent x (hi_prev_block_hash hi) = Inr ()"
    by (auto simp: connect_block_from_header_def split: sum.splits)
  from hi obtain hdr where hdr: "header_db (block_hashes x) h = Some hdr" "b_block_hash ?B hdr = h"
    "hi_prev_block_hash hi = hdr_prev_blockhash hdr"
    by (auto simp: get_header_info_def try_get_header_info_def split: option.splits sum.splits if_splits)
  define blk where "blk = \<lparr>blk_header = hdr, blk_txdata = [\<lparr>tx_version = 0, tx_lock_time = 0, tx_input = [], tx_output = []\<rparr>]\<rparr>"
  have bh: "b_block_hash ?B (blk_header blk) = h" "blk_header blk = hdr" "blk_txdata blk \<noteq> []" "tl (blk_txdata blk) = []"
    by (simp_all add: blk_def hdr(2))
  note eq = pre_activation_equiv [of x ?B blk, unfolded bh(2) hdr(2), OF hdr(1) h bh(3), of "he_srt E" "he_ord E"]
  from eq con obtain ev' db' where c: "connect_block ?B (he_srt E) (he_ord E) (he_handler E) blk x = Inr (ev', db')"
    and y: "y = db'\<lparr>block_hashes := (block_hashes db')\<lparr>coinbase_txid_db :=
      (coinbase_txid_db (block_hashes db'))(h := Some all_zeros)\<rparr>\<rparr>"
    by (auto split: sum.splits)
  have "unat k = next_height x"
    by (rule child_height [OF wf hdr(1) h(1)]) (use tip hdr(3) in simp)
  then have "block_ready ?B x blk"
    using hdr(1) h(1) work headers_wfD(5) [OF wf(1) hdr(1)] bh
    by (simp add: block_ready_def Let_def fresh_txs_def)
  from history.block [OF r wf(2) this c] have "reached E base (h # hs) db'" unfolding bh(1) .
  moreover have "grown ?B (h # hs) db' y"
  proof -
    have e: "header_db (block_hashes y) = header_db (block_hashes db')" "height_db (block_hashes y) = height_db (block_hashes db')"
      "diff_db (block_hashes y) = diff_db (block_hashes db')" "chain_state y = chain_state db'"
      by (simp_all add: y chain_state_def)
    show ?thesis by (simp add: grown_def tables_grow_def headers_le_def diffs_wf_def e headers_wf_cong [OF e(1,2)])
  qed
  ultimately show ?thesis by (rule history.grow)
qed

lemma reached_wf:
  assumes "sync_source E node dir base S" "headers_wf (he_btc E) (block_hashes base)" "reached E base hs x"
  shows "dbs_wf (he_handler E) x" "headers_wf (he_btc E) (block_hashes x)"
  using history_wf [OF assms(3) sync_sourceD(1,2) [OF assms(1)]]
    history_tables [OF assms(3) sync_sourceD(1) [OF assms(1)]] assms(2)
  by (auto simp: tables_grow_def)

lemma pre_activation_batch_reached:
  assumes src: "sync_source E node dir base S" and wf: "headers_wf (he_btc E) (block_hashes base)"
  shows "pre_activation_batch (he_btc E) (he_handler E) n missing evs x = Inr (missing', evs', x') \<Longrightarrow>
    reached E base hs x \<Longrightarrow> \<exists>conn. missing = missing' @ conn \<and> reached E base (conn @ hs) x'"
proof (induction n arbitrary: missing evs x hs)
  case (Suc n)
  show ?case
  proof (cases "missing = [] \<or> \<not> (\<exists>k. height_db (block_hashes x) (last missing) = Some k \<and>
      k < bip300_activation_height (bh_params (he_handler E)))")
    case True
    then show ?thesis using Suc.prems by (auto split: if_splits option.splits)
  next
    case False
    then obtain k where k: "missing \<noteq> []" "height_db (block_hashes x) (last missing) = Some k"
      "k < bip300_activation_height (bh_params (he_handler E))" by blast
    from Suc.prems(1) k obtain ev y where c: "connect_block_from_header (he_btc E) (last missing) x = Inr (ev, y)"
      and rest: "pre_activation_batch (he_btc E) (he_handler E) n (butlast missing) (evs @ [ev]) y = Inr (missing', evs', x')"
      by (auto split: sum.splits)
    have "reached E base (last missing # hs) y"
      by (rule from_header_reached [OF sync_sourceD(1,5) [OF src] Suc.prems(2) _ _ k(2,3) c])
        (use reached_wf [OF src wf Suc.prems(2)] in auto)
    from Suc.IH [OF rest this] obtain conn where "butlast missing = missing' @ conn"
      "reached E base (conn @ last missing # hs) x'" by blast
    then have "missing = missing' @ conn @ [last missing] \<and> reached E base ((conn @ [last missing]) @ hs) x'"
      using append_butlast_last_id [OF k(1)] by (metis append.assoc append_Cons append_Nil)
    then show ?thesis by blast
  qed
qed auto

lemma connect_pre_activation_reached:
  assumes src: "sync_source E node dir base S" and wf: "headers_wf (he_btc E) (block_hashes base)"
    and r: "reached E base hs x"
    and con: "connect_pre_activation_blocks (he_btc E) (he_handler E) cancelled missing x = (res, missing', evs, x')"
  shows "\<exists>conn. missing = missing' @ conn \<and> reached E base (conn @ hs) x'"
proof -
  have "\<exists>conn. missing = missing' @ conn \<and> reached E base (conn @ hs) x'"
    if "connect_pre_activation_loop (he_btc E) (he_handler E) cancelled t c missing sent x = (res, missing', evs, x')"
      "reached E base hs x" for t c sent
    using that
  proof (induction "length missing" arbitrary: t c sent missing x hs rule: less_induct)
    case less
    note unfold = connect_pre_activation_loop.simps [of "he_btc E" "he_handler E" cancelled t c missing sent x]
    show ?case
    proof (cases "\<not> cancelled t \<and> (\<exists>m ev y. pre_activation_batch (he_btc E) (he_handler E)
        PRE_ACTIVATION_BATCH_SIZE missing [] x = Inr (m, ev, y) \<and> ev \<noteq> [])")
      case True
      then obtain m ev y where b: "pre_activation_batch (he_btc E) (he_handler E) PRE_ACTIVATION_BATCH_SIZE missing [] x =
          Inr (m, ev, y)" "ev \<noteq> []" "\<not> cancelled t" by blast
      from pre_activation_batch_reached [OF src wf b(1) less.prems(2)] obtain conn where
        c1: "missing = m @ conn" "reached E base (conn @ hs) y" by blast
      have "connect_pre_activation_loop (he_btc E) (he_handler E) cancelled (t + 1) (c + length ev) m (sent @ ev) y =
          (res, missing', evs, x')" using less.prems(1) b by (simp add: unfold)
      from less.hyps [OF pre_activation_batch_shrinks [OF b(1,2)] this c1(2)] obtain conn' where
        "m = missing' @ conn'" "reached E base (conn' @ conn @ hs) x'" by blast
      then show ?thesis using c1(1) by (intro exI [of _ "conn' @ conn"]) simp
    next
      case False
      have "missing = missing' \<and> x' = x"
      proof (cases "pre_activation_batch (he_btc E) (he_handler E) PRE_ACTIVATION_BATCH_SIZE missing [] x")
        case (Inl e)
        then show ?thesis using less.prems(1) by (auto simp: unfold split: if_splits)
      next
        case (Inr p)
        then obtain m ev y where p: "pre_activation_batch (he_btc E) (he_handler E) PRE_ACTIVATION_BATCH_SIZE missing [] x =
            Inr (m, ev, y)" by (cases p) auto
        from pre_activation_batch_reached [OF src wf p less.prems(2)] pre_activation_batch_pops [OF p]
        have "ev = [] \<Longrightarrow> m = missing" by auto
        then show ?thesis using less.prems(1) p False by (auto simp: unfold split: if_splits)
      qed
      then show ?thesis using less.prems(2) by (intro exI [of _ "[]"]) simp
    qed
  qed
  then show ?thesis using con r by (auto simp: connect_pre_activation_blocks_def split: if_splits)
qed

section \<open>The batches\<close>

lemma batch_step:
  assumes src: "sync_source E node dir base S" and wf: "headers_wf (he_btc E) (block_hashes base)"
    and r: "reached E base (rev (take i mr) @ hs) db"
    and f: "fetch_blocks_batch node t (take (j - i) (drop i mr)) = Inr blocks" "i \<le> j" "j \<le> length mr"
    and h: "handle_block_batch_and_commit (he_btc E) (he_srt E) (he_ord E) (he_handler E) blocks db = (res, evs, db')"
  shows "\<exists>n\<le>length mr. reached E base (rev (take n mr) @ hs) db' \<and> (res = Inr None \<longrightarrow> n = j)"
proof (cases "handle_block_batch (he_btc E) (he_srt E) (he_ord E) (he_handler E) blocks [] db")
  case (Inl e)
  then have "db' = db" "res = Inl e" using h by (auto simp: handle_block_batch_and_commit_def)
  then show ?thesis using r f(2,3) by (intro exI [of _ i]) simp
next
  case (Inr x)
  then obtain bad evs' db2 where x: "handle_block_batch (he_btc E) (he_srt E) (he_ord E) (he_handler E) blocks [] db =
      Inr (bad, evs', db2)" by (cases x) auto
  then have e: "db' = db2" "res = Inr bad" using h by (auto simp: handle_block_batch_and_commit_def)
  note D = sync_sourceD [OF src]
  from D(6) [OF f(1)] have hash: "map (block_hash_of (he_btc E)) blocks = take (j - i) (drop i mr)" and S: "set blocks \<subseteq> S"
    by auto
  note w = reached_wf [OF src wf r]
  have rd: "batch_ready (he_btc E) (he_srt E) (he_ord E) (he_handler E) blocks db"
    by (rule sound_batch_ready [OF D(4,1) r w(1) S])
  from handle_block_batch_prefix [OF D(1) x w(1) rd r] obtain n where n: "n \<le> length blocks"
    "reached E base (rev (map (block_hash_of (he_btc E)) (take n blocks)) @ rev (take i mr) @ hs) db2"
    "case bad of None \<Rightarrow> n = length blocks | Some ib \<Rightarrow> n < length blocks \<and> ib_block_hash ib = block_hash_of (he_btc E) (blocks ! n) \<and>
       connect_block (he_btc E) (he_srt E) (he_ord E) (he_handler E) (blocks ! n) db2 = Inl (ib_reason ib) \<and> \<not> connect_fatal (ib_reason ib)"
    by blast
  have len: "length blocks = j - i" using arg_cong [OF hash, of length] f(3) by simp
  have "map (block_hash_of (he_btc E)) (take n blocks) = take n (drop i mr)"
    using hash n(1) len by (metis min.absorb1 take_map take_take)
  then have "rev (map (block_hash_of (he_btc E)) (take n blocks)) @ rev (take i mr) = rev (take (i + n) mr)"
    by (simp add: take_add)
  then have "reached E base (rev (take (i + n) mr) @ hs) db2" using n(2) by (metis append.assoc)
  moreover have "bad = None \<longrightarrow> i + n = j" using n(3) len f(2) by auto
  moreover have "i + n \<le> length mr" using n(1) len f(2,3) by simp
  ultimately show ?thesis using e by (intro exI [of _ "i + n"]) simp
qed

text \<open>One iteration of \<open>blocks_loop\<close>: a result, or the variables of the next one.\<close>

definition blocks_step :: "handler_env \<Rightarrow> node \<Rightarrow> (nat \<Rightarrow> bool) \<Rightarrow> blockhash list \<Rightarrow> u32 \<Rightarrow>
    nat \<Rightarrow> nat \<Rightarrow> block_data_gap option \<Rightarrow> event list \<Rightarrow> dbs \<Rightarrow>
    ((sync_error + invalid_block option) \<times> event list \<times> dbs) +
    (nat \<times> nat \<times> block_data_gap option \<times> event list \<times> dbs)" where
  "blocks_step E node cancelled mr first t i gap sent db =
     (if length mr \<le> i then Inl (Inr None, sent, db)
      else if cancelled t then Inl (Inl Shutdown, sent, db)
      else case next_batch_size gap (first + of_nat i) of
        None \<Rightarrow> if n_cancelled_waiting node t then Inl (Inl Shutdown, sent, db)
          else (case block_data_gap_at node (t + 1) (block_hashes db) of
            Inl e \<Rightarrow> Inl (Inl e, sent, db) | Inr gap \<Rightarrow> Inr (t + 1, i, gap, sent, db))
      | Some k \<Rightarrow> (let j = min (i + k) (length mr) in
          case fetch_blocks_batch node t (take (j - i) (drop i mr)) of
            Inl e \<Rightarrow> Inl (Inl e, sent, db)
          | Inr blocks \<Rightarrow>
              (case handle_block_batch_and_commit (he_btc E) (he_srt E) (he_ord E) (he_handler E) blocks db of
                 (res, events, db) \<Rightarrow>
                   if res = Inr None then Inr (t + 1, j, gap, sent @ events, db)
                   else Inl (res, sent @ events, db))))"

lemma blocks_loop_unfold:
  "blocks_loop E node cancelled mr first t i gap sent db =
     (case blocks_step E node cancelled mr first t i gap sent db of
        Inl r \<Rightarrow> Some r
      | Inr (t, i, gap, sent, db) \<Rightarrow> blocks_loop E node cancelled mr first t i gap sent db)"
  by (subst blocks_loop.simps) (auto simp: blocks_step_def Let_def split: sum.splits option.splits prod.splits)

lemma blocks_loop_rule [consumes 1, case_names stop step]:
  assumes "blocks_loop E node cancelled mr first t i gap sent db = Some r"
    and stop: "\<And>t i gap sent db r. blocks_step E node cancelled mr first t i gap sent db = Inl r \<Longrightarrow> P i db r"
    and step: "\<And>t i gap sent db t' i' gap' sent' db' r.
      blocks_step E node cancelled mr first t i gap sent db = Inr (t', i', gap', sent', db') \<Longrightarrow> P i' db' r \<Longrightarrow> P i db r"
  shows "P i db r"
proof -
  have "E' = E \<longrightarrow> node' = node \<longrightarrow> cancelled' = cancelled \<longrightarrow> mr' = mr \<longrightarrow> first' = first \<longrightarrow> P i db r"
    if "blocks_loop E' node' cancelled' mr' first' t i gap sent db = Some r" for E' node' cancelled' mr' first'
  proof (rule blocks_loop.raw_induct [OF _ that, where P = "\<lambda>E' node' cancelled' mr' first' t i gap sent db r.
      E' = E \<longrightarrow> node' = node \<longrightarrow> cancelled' = cancelled \<longrightarrow> mr' = mr \<longrightarrow> first' = first \<longrightarrow> P i db r"], intro impI, goal_cases)
    case (1 f E' node' cancelled' mr' first' t i gap sent db r)
    note hyps = 1(1,2) [unfolded 1(3-7)]
    show ?case
    proof (cases "blocks_step E node cancelled mr first t i gap sent db")
      case (Inl x)
      then have "x = r" using hyps(2)
        by (auto simp: blocks_step_def Let_def split: sum.splits option.splits prod.splits if_splits)
      with Inl show ?thesis by (simp add: stop)
    next
      case (Inr x)
      obtain t' i' gap' sent' db' where x: "x = (t', i', gap', sent', db')" by (cases x)
      have "f E node cancelled mr first t' i' gap' sent' db' = Some r" using hyps(2) Inr x
        by (auto simp: blocks_step_def Let_def split: sum.splits option.splits prod.splits if_splits)
      from hyps(1) [OF this] step [OF Inr [unfolded x]] show ?thesis by simp
    qed
  qed
  then show ?thesis using assms(1) by blast
qed

lemma blocks_step_reached:
  assumes src: "sync_source E node dir base S" and wf: "headers_wf (he_btc E) (block_hashes base)"
    and r: "reached E base (rev (take i mr) @ hs) db" and i: "i \<le> length mr"
  shows "case blocks_step E node cancelled mr first t i gap sent db of
      Inl (r, _, db') \<Rightarrow> \<exists>n\<le>length mr. reached E base (rev (take n mr) @ hs) db' \<and> (r = Inr None \<longrightarrow> n = length mr)
    | Inr (_, i', _, _, db') \<Rightarrow> reached E base (rev (take i' mr) @ hs) db' \<and> i' \<le> length mr"
proof -
  have "\<exists>n\<le>length mr. reached E base (rev (take n mr) @ hs) db" using r i by blast
  moreover have "\<exists>n\<le>length mr. reached E base (rev (take n mr) @ hs) db' \<and>
      (res = Inr None \<longrightarrow> n = min (i + k) (length mr))"
    if "fetch_blocks_batch node t (take (min (i + k) (length mr) - i) (drop i mr)) = Inr blocks"
      "handle_block_batch_and_commit (he_btc E) (he_srt E) (he_ord E) (he_handler E) blocks db = (res, events, db')"
    for k blocks res events db'
    using batch_step [OF src wf r that(1) _ _ that(2)] i by simp
  ultimately show ?thesis using r i
    by (auto simp: blocks_step_def Let_def split: sum.splits option.splits prod.splits) blast+
qed

lemma blocks_loop_reached:
  assumes "blocks_loop E node cancelled mr first t i gap sent db = Some r"
    "sync_source E node dir base S" "headers_wf (he_btc E) (block_hashes base)"
    "reached E base (rev (take i mr) @ hs) db" "i \<le> length mr"
  shows "\<exists>n\<le>length mr. reached E base (rev (take n mr) @ hs) (snd (snd r)) \<and> (fst r = Inr None \<longrightarrow> n = length mr)"
  using assms(1,4,5)
proof (induction rule: blocks_loop_rule)
  case (stop t i gap sent db r)
  from blocks_step_reached [OF assms(2,3) stop(2,3), of cancelled first t gap sent] stop(1) show ?case
    by (auto split: prod.splits)
next
  case (step t i gap sent db t' i' gap' sent' db' r)
  from blocks_step_reached [OF assms(2,3) step(3,4), of cancelled first t gap sent] step(1,2) show ?case by simp
qed

lemma sync_over_rpc_reached:
  assumes "sync_over_rpc E node cancelled h missing sent db = Some (r, evs, db')"
    "sync_source E node dir base S" "headers_wf (he_btc E) (block_hashes base)" "reached E base hs db"
  shows "\<exists>c. reached E base (c @ hs) db' \<and> (r = Inr None \<longrightarrow> c = missing)"
proof (cases "block_data_gap_at node 0 (block_hashes db)")
  case (Inl e)
  then have "r \<noteq> Inr None \<and> reached E base ([] @ hs) db'" using assms(1,4) by (auto simp: sync_over_rpc_def)
  then show ?thesis by blast
next
  case (Inr gap)
  then have loop: "blocks_loop E node cancelled (rev missing) (h + 1 - of_nat (length (rev missing))) 0 0 gap sent db =
      Some (r, evs, db')" using assms(1) by (simp add: sync_over_rpc_def Let_def)
  have "reached E base (rev (take 0 (rev missing)) @ hs) db" using assms(4) by simp
  from blocks_loop_reached [OF loop assms(2,3) this] obtain n where
    "reached E base (rev (take n (rev missing)) @ hs) db'" "r = Inr None \<longrightarrow> n = length missing" by auto
  then show ?thesis by (intro exI [of _ "rev (take n (rev missing))"]) simp
qed

lemma missing_blocks_stack:
  assumes "headers_wf B b" "known b h" "ancestor b tip h"
  shows "\<exists>m. missing_blocks_loop b tip h [] = Some m \<and> distinct m \<and> (m = [] \<longrightarrow> tip = h) \<and> (m \<noteq> [] \<longrightarrow> hd m = h)"
proof -
  from missing_blocks_loop_path [OF assms(1,3,2), of "[]"] obtain m where
    m: "missing_blocks_loop b tip h [] = Some m" "skip_ancestors b h (length m) 0 = Inr tip"
      "\<forall>i<length m. skip_ancestors b h i 0 = Inr (m ! i)" "length m + level b tip = level b h" by auto
  have lv: "level b (m ! k) = level b h - k" if "k < length m" for k
    using skip_ancestors_level [OF assms(1,2), of k 0] m(3,4) that by force
  have "distinct m"
  proof (rule distinct_conv_nth [THEN iffD2], intro allI impI)
    fix i j
    assume ij: "i < length m" "j < length m" "i \<noteq> j"
    then have "level b (m ! i) \<noteq> level b (m ! j)" using lv m(4) by auto
    then show "m ! i \<noteq> m ! j" by auto
  qed
  moreover have "m \<noteq> [] \<longrightarrow> hd m = h" using m(3) by (cases m) auto
  moreover have "m = [] \<longrightarrow> tip = h" using m(2) by auto
  ultimately show ?thesis using m(1) by blast
qed

lemma sync_block_dir_reached:
  assumes src: "sync_source E node dir base S" and wf: "headers_wf (he_btc E) (block_hashes base)"
    and r: "reached E base hs x" and d: "distinct missing"
    and s: "sync_block_dir E dir cancelled main_tip missing x = Some (res, evs, x')"
  shows "\<exists>conn. reached E base (conn @ hs) x' \<and> (\<forall>m. res = Inr m \<longrightarrow> missing = m @ conn)"
proof (cases dir)
  case None
  then show ?thesis using s r by (intro exI [of _ "[]"]) (auto simp: sync_block_dir_def)
next
  case (Some D)
  note D = sync_sourceD [OF src]
  from s Some obtain res' m evs' x1 where f: "sync_from_directory E D cancelled missing x = Some (res', m, evs', x1)"
    by (auto simp: sync_block_dir_def split: option.splits)
  have "sync_ok E S base missing" using D(1,4) d by (simp add: sync_ok_def)
  from directory_sync_ok [OF f r reached_wf(1) [OF src wf r] this D(7) [OF Some]] obtain conn where
    c: "missing = m @ conn" "reached E base (conn @ hs) x1" by blast
  have "x' = x1 \<and> (\<forall>m'. res = Inr m' \<longrightarrow> m' = m)"
    using s Some f by (auto simp: sync_block_dir_def split: sum.splits if_splits bool.splits)
  then show ?thesis using c by blast
qed

text \<open>What \<open>sync_blocks\<close> starts from: the reorganisation succeeds, and the missing blocks lead from the tip
  it leaves to the tip of the node.\<close>

lemma active_branch_reorganised:
  assumes "sync_source E node dir base S" "headers_wf (he_btc E) (block_hashes base)"
    and "reached E base hs db" "header_db (block_hashes db) main_tip \<noteq> None"
  obtains ds rest y m th where
    "reorganise (he_btc E) main_tip db = Some (Inr (map DisconnectBlock ds, y))" "reached E base rest y"
    "missing_blocks_loop (block_hashes y) (tip_or_zeros y) main_tip [] = Some m" "distinct m"
    "m = [] \<longrightarrow> tip_or_zeros y = main_tip" "m \<noteq> [] \<longrightarrow> hd m = main_tip"
    "height_db (block_hashes y) main_tip = Some th"
proof -
  note D = sync_sourceD [OF assms(1)]
  note w = reached_wf [OF assms(1,2)]
  have k: "known (block_hashes db) main_tip" using assms(4) by (simp add: known_def)
  from reorganise_ok [OF D(1,3) assms(3) w(2) [OF assms(3)] k] obtain ds rest y where
    re: "reorganise (he_btc E) main_tip db = Some (Inr (map DisconnectBlock ds, y))" "reached E base rest y"
      "block_hashes y = block_hashes db" "ancestor (block_hashes y) (tip_or_zeros y) main_tip" by blast
  from missing_blocks_stack [OF w(2) [OF re(2)] _ re(4)] k re(3) obtain m where
    m: "missing_blocks_loop (block_hashes y) (tip_or_zeros y) main_tip [] = Some m" "distinct m"
      "m = [] \<longrightarrow> tip_or_zeros y = main_tip" "m \<noteq> [] \<longrightarrow> hd m = main_tip" by auto
  from headers_wfD(2) [OF w(2) [OF assms(3)]] assms(4) obtain th where th: "height_db (block_hashes y) main_tip = Some th"
    using re(3) by fastforce
  show thesis by (rule that [OF re(1,2) m th])
qed

text \<open>From the missing blocks on, \<open>sync_blocks\<close> connects a prefix of them, and all of them on success.\<close>

lemma connect_missing_reached:
  assumes src: "sync_source E node dir base S" "headers_wf (he_btc E) (block_hashes base)"
    and r: "reached E base rest db" "distinct missing"
    and c: "connect_missing E node dir cancelled main_tip h missing sent db = Some (r, evs, db')"
  shows "\<exists>c. reached E base (c @ rest) db' \<and> (r = Inr None \<longrightarrow> c = missing)"
proof -
  obtain res m1 evs1 x1 where pre: "connect_pre_activation_blocks (he_btc E) (he_handler E) (cancelled PreActivation) missing db =
      (res, m1, evs1, x1)" by (metis surj_pair)
  from connect_pre_activation_reached [OF src r(1) pre] obtain c1 where
    c1: "missing = m1 @ c1" "reached E base (c1 @ rest) x1" by blast
  show ?thesis
  proof (cases res)
    case (Inl e)
    then have "r = Inl e" "db' = x1" using c pre by (auto simp: connect_missing_def)
    then show ?thesis using c1(2) by auto
  next
    case (Inr n)
    then obtain res2 evs2 x2 where dir: "sync_block_dir E dir (cancelled BlockDirectory) main_tip m1 x1 = Some (res2, evs2, x2)"
      using c pre by (auto simp: connect_missing_def split: option.splits)
    have "distinct m1" using r(2) c1(1) by simp
    from sync_block_dir_reached [OF src c1(2) this dir] obtain c2 where
      c2: "reached E base (c2 @ c1 @ rest) x2" "\<forall>m2. res2 = Inr m2 \<longrightarrow> m1 = m2 @ c2" by auto
    show ?thesis
    proof (cases res2)
      case e: (Inl e)
      then have "r = Inl e" "db' = x2" using c pre Inr dir by (auto simp: connect_missing_def)
      then show ?thesis using c2(1) by (intro exI [of _ "c2 @ c1"]) simp
    next
      case m2: (Inr m2)
      then have "sync_over_rpc E node (cancelled BlockBatches) h m2 (sent @ evs1 @ evs2) x2 = Some (r, evs, db')"
        using c pre Inr dir by (simp add: connect_missing_def)
      from sync_over_rpc_reached [OF this src c2(1)] obtain c3 where
        "reached E base (c3 @ c2 @ c1 @ rest) db'" "r = Inr None \<longrightarrow> c3 = m2" by blast
      then show ?thesis using c1(1) c2(2) m2 by (intro exI [of _ "c3 @ c2 @ c1"]) simp
    qed
  qed
qed

text \<open>C12: \<open>sync_blocks\<close> only ever connects and disconnects blocks, whatever its outcome: the tables it
  leaves are reached by a history of connected blocks and satisfy the invariant. If it reports no
  error and no invalid block, the tip of the enforcer is the tip of the node.\<close>

theorem sync_blocks_reaches_tip:
  assumes "sync_source E node dir base S" "headers_wf (he_btc E) (block_hashes base)"
    and "reached E base hs db" "header_db (block_hashes db) main_tip \<noteq> None"
    and "sync_blocks E node dir cancelled main_tip db = Some (r, evs, db')"
  shows "\<exists>hs'. reached E base hs' db' \<and> dbs_wf (he_handler E) db' \<and> (r = Inr None \<longrightarrow> tip_or_zeros db' = main_tip)"
proof -
  have tip: "tip_or_zeros x = (case hs of [] \<Rightarrow> all_zeros | h # _ \<Rightarrow> h)" if "reached E base hs x" for hs x
    using history_tip [OF that sync_sourceD(1) [OF assms(1)]] sync_sourceD(3) [OF assms(1)]
    by (auto simp: tip_or_zeros_def split: list.splits)
  note w = reached_wf [OF assms(1,2)]
  obtain ds rest y m th where re: "reorganise (he_btc E) main_tip db = Some (Inr (map DisconnectBlock ds, y))" "reached E base rest y"
    and m: "missing_blocks_loop (block_hashes y) (tip_or_zeros y) main_tip [] = Some m" "distinct m"
      "m = [] \<longrightarrow> tip_or_zeros y = main_tip" "m \<noteq> [] \<longrightarrow> hd m = main_tip"
    and th: "height_db (block_hashes y) main_tip = Some th"
    by (rule active_branch_reorganised [OF assms(1-4)])
  show ?thesis
  proof (cases "m = []")
    case True
    then show ?thesis using assms(5) re m th w(1) by (auto simp: sync_blocks_def)
  next
    case False
    then have "connect_missing E node dir cancelled main_tip th m (map DisconnectBlock ds) y = Some (r, evs, db')"
      using assms(5) re(1) m(1) th by (simp add: sync_blocks_def)
    from connect_missing_reached [OF assms(1,2) re(2) m(2) this] obtain c where
      c: "reached E base (c @ rest) db'" "r = Inr None \<longrightarrow> c = m" by blast
    then have "r = Inr None \<longrightarrow> tip_or_zeros db' = main_tip" using tip [OF c(1)] m(4) False by (cases m) auto
    then show ?thesis using c(1) w(1) by blast
  qed
qed

section \<open>Synchronisation ends\<close>

lemma next_batch_size_pos:
  assumes "next_batch_size gap h = Some n" "\<And>g. gap = Some g \<Longrightarrow> gap_background_height g \<noteq> - 1"
  shows "0 < n"
proof (cases "\<exists>g. gap = Some g \<and> h \<le> gap_background_height g")
  case True
  then obtain g where g: "gap = Some g" "h \<le> gap_background_height g" by blast
  let ?d = "gap_background_height g - h"
  have "1 + ?d \<noteq> 0"
  proof
    assume "1 + ?d = 0"
    then have "?d = - 1" by (simp add: eq_neg_iff_add_eq_0 add.commute)
    moreover have "?d \<le> gap_background_height g" using g(2) by (simp add: word_le_nat_alt unat_sub)
    ultimately have "gap_background_height g = - 1" by (metis word_order.extremum_unique)
    then show False using assms(2) [OF g(1)] by simp
  qed
  then have "0 < unat (?d + 1)" by (metis add.commute neq0_conv unat_eq_zero)
  then show ?thesis using assms(1) g
    by (auto simp: next_batch_size_def BLOCK_FETCH_BATCH_SIZE_def gap_contains_def split: if_splits)
next
  case False
  then show ?thesis using assms(1)
    by (auto simp: next_batch_size_def BLOCK_FETCH_BATCH_SIZE_def split: if_splits option.splits)
qed

text \<open>The node ends its background validation after some number of polls, and no chainstate has the
  greatest 32-bit height.\<close>

definition background_ends :: "node \<Rightarrow> nat \<Rightarrow> bool" where
  "background_ends node T \<longleftrightarrow>
     (\<forall>t b g. block_data_gap_at node t b = Inr (Some g) \<longrightarrow> t < T \<and> gap_background_height g \<noteq> - 1)"

lemma blocks_loop_returns:
  assumes "background_ends node T"
  shows "\<lbrakk>\<And>g. gap = Some g \<Longrightarrow> gap_background_height g \<noteq> - 1\<rbrakk> \<Longrightarrow>
    \<exists>r. blocks_loop E node cancelled mr first t i gap sent db = Some r"
proof (induction "(length mr - i, (T - t) + (if gap = None then 0 else 1))" arbitrary: t i gap sent db
    rule: wf_induct_rule [OF wf_lex_prod [OF wf_less_than wf_less_than]])
  case less: (1 t i gap sent db)
  show ?case
  proof (cases "blocks_step E node cancelled mr first t i gap sent db")
    case (Inl r)
    then show ?thesis by (cases r) (simp add: blocks_loop_unfold [of E node cancelled mr first t i gap sent db])
  next
    case (Inr x)
    then obtain t' i' gap' sent' db' where s: "blocks_step E node cancelled mr first t i gap sent db = Inr (t', i', gap', sent', db')"
      by (cases x) auto
    then consider (wait) "gap \<noteq> None" "t' = t + 1" "i' = i" "block_data_gap_at node (t + 1) (block_hashes db) = Inr gap'"
      | (batch) k where "next_batch_size gap (first + of_nat i) = Some k" "i < length mr" "gap' = gap" "i' = min (i + k) (length mr)"
      by (fastforce simp: blocks_step_def next_batch_size_def Let_def split: if_splits option.splits sum.splits prod.splits)
    then have "\<exists>r. blocks_loop E node cancelled mr first t' i' gap' sent' db' = Some r"
    proof cases
      case wait
      then have "gap' \<noteq> None \<longrightarrow> t + 1 < T" using assms unfolding background_ends_def by blast
      then have "(T - (t + 1)) + (if gap' = None then 0 else 1) < (T - t) + (1 :: nat)" by auto
      then show ?thesis using less(1) [of i' t' gap' sent' db'] wait assms by (force simp: background_ends_def)
    next
      case batch
      have "length mr - i' < length mr - i" using next_batch_size_pos [OF batch(1) less.prems] batch(2,4) by auto
      then show ?thesis using less(1) [of i' t' gap' sent' db'] less.prems batch(3) by auto
    qed
    with s show ?thesis by (simp add: blocks_loop_unfold [of E node cancelled mr first t i gap sent db])
  qed
qed

text \<open>C21: without a block directory, \<open>sync_blocks\<close> returns, if a background validation of the node
  ends: it follows the node and does not wait for ever.\<close>

theorem sync_blocks_returns:
  assumes "sync_source E node None base S" "headers_wf (he_btc E) (block_hashes base)"
    and "reached E base hs db" "header_db (block_hashes db) main_tip \<noteq> None" "background_ends node T"
  shows "\<exists>r. sync_blocks E node None cancelled main_tip db = Some r"
proof -
  obtain ds rest y m th where re: "reorganise (he_btc E) main_tip db = Some (Inr (map DisconnectBlock ds, y))"
    and m: "missing_blocks_loop (block_hashes y) (tip_or_zeros y) main_tip [] = Some m"
    and th: "height_db (block_hashes y) main_tip = Some th"
    by (rule active_branch_reorganised [OF assms(1-4)])
  obtain res m1 evs1 x1 where pre: "connect_pre_activation_blocks (he_btc E) (he_handler E) (cancelled PreActivation) m y =
      (res, m1, evs1, x1)" by (metis surj_pair)
  have rpc: "\<exists>r. sync_over_rpc E node (cancelled BlockBatches) th m1 sent x1 = Some r" for sent
  proof (cases "block_data_gap_at node 0 (block_hashes x1)")
    case (Inr gap)
    then have "\<And>g. gap = Some g \<Longrightarrow> gap_background_height g \<noteq> - 1" using assms(5) by (auto simp: background_ends_def)
    from blocks_loop_returns [OF assms(5) this] Inr show ?thesis by (simp add: sync_over_rpc_def Let_def)
  qed (simp add: sync_over_rpc_def)
  show ?thesis
  proof (cases "m = []")
    case False
    then show ?thesis using re m th pre rpc
      by (cases res) (auto simp: sync_blocks_def connect_missing_def sync_block_dir_def)
  qed (use re m th in \<open>simp add: sync_blocks_def\<close>)
qed

section \<open>Only blocks below the activation height are missing\<close>

text \<open>A stack of blocks, newest first, from \<open>h\<close> down to the child of \<open>t\<close>.\<close>

fun stack_path :: "block_hash_dbs \<Rightarrow> blockhash \<Rightarrow> blockhash list \<Rightarrow> blockhash \<Rightarrow> bool" where
  "stack_path b h [] t \<longleftrightarrow> h = t"
| "stack_path b h (x # xs) t \<longleftrightarrow> x = h \<and> (\<exists>hdr. header_db b h = Some hdr \<and> stack_path b (hdr_prev_blockhash hdr) xs t)"

lemma stack_path_skip:
  "skip_ancestors b h (length xs) d = Inr t \<Longrightarrow> \<forall>i<length xs. skip_ancestors b h i d = Inr (xs ! i) \<Longrightarrow> stack_path b h xs t"
proof (induction xs arbitrary: h d)
  case (Cons x xs)
  from Cons.prems(2) have x: "x = h" by force
  from Cons.prems(1) obtain hdr where hdr: "header_db b h = Some hdr"
    by (auto simp: ancestor_next_def split: option.splits)
  have "\<forall>i<length xs. skip_ancestors b (hdr_prev_blockhash hdr) i (d + 1) = Inr (xs ! i)"
  proof (intro allI impI)
    fix i assume "i < length xs"
    then have "skip_ancestors b h (Suc i) d = Inr ((x # xs) ! Suc i)" using Cons.prems(2) by (simp del: skip_ancestors.simps)
    then show "skip_ancestors b (hdr_prev_blockhash hdr) i (d + 1) = Inr (xs ! i)" using hdr by (simp add: ancestor_next_def)
  qed
  with Cons.IH [of "hdr_prev_blockhash hdr" "d + 1"] Cons.prems(1) hdr x show ?case by (simp add: ancestor_next_def)
qed simp

lemma stack_path_last:
  "stack_path b h (xs @ [l]) t \<Longrightarrow> stack_path b h xs l \<and> (\<exists>hdr. header_db b l = Some hdr \<and> hdr_prev_blockhash hdr = t)"
  by (induction xs arbitrary: h) auto

lemma stack_path_ancestor: "stack_path b h xs t \<Longrightarrow> x \<in> set xs \<Longrightarrow> ancestor b x h \<and> header_db b x \<noteq> None"
  by (induction xs arbitrary: h) (auto intro: ancestor.intros)

lemma stack_path_cong: "header_db b' = header_db b \<Longrightarrow> stack_path b' h xs t = stack_path b h xs t"
  by (induction xs arbitrary: h) auto

text \<open>The tip is \<open>t\<close> and its cumulative work is recorded.\<close>

definition tip_recorded :: "dbs \<Rightarrow> blockhash \<Rightarrow> bool" where
  "tip_recorded x t \<longleftrightarrow> (if t = all_zeros then current_chain_tip x = None
     else current_chain_tip x = Some t \<and> cumulative_work_db (block_hashes x) t \<noteq> None)"

lemma from_header_step:
  assumes wf: "headers_wf B (block_hashes x)" and work: "\<And>hdr. 0 < b_work B hdr" and t: "tip_recorded x t"
    and h: "header_db (block_hashes x) l = Some hdr" "hdr_prev_blockhash hdr = t"
  shows "\<exists>ev y. connect_block_from_header B l x = Inr (ev, y) \<and> tip_recorded y l \<and>
    header_db (block_hashes y) = header_db (block_hashes x) \<and> height_db (block_hashes y) = height_db (block_hashes x)"
proof -
  note w = headers_wfD [OF wf h(1)]
  obtain k where k: "height_db (block_hashes x) l = Some k" using w(2) by blast
  have gi: "get_header_info B (block_hashes x) l = Inr \<lparr>hi_block_hash = l, hi_prev_block_hash = t, hi_height = k,
      hi_work = b_work B hdr, hi_timestamp = hdr_time hdr\<rparr>"
    using h w(1) k by (simp add: get_header_info_def try_get_header_info_def)
  show ?thesis
  proof (cases "t = all_zeros")
    case True
    then show ?thesis using gi t h w(5)
      by (simp add: connect_block_from_header_def ensure_tip_is_parent_def empty_block_info_and_diff_def record_block_def
          put_block_info_def tip_recorded_def Let_def)
  next
    case False
    then obtain cw where c: "current_chain_tip x = Some t" "cumulative_work_db (block_hashes x) t = Some cw"
      using t by (auto simp: tip_recorded_def)
    have "t \<noteq> l" using w(4) h(2) by auto
    then show ?thesis using gi c h w(5) False work [of hdr]
      by (simp add: connect_block_from_header_def ensure_tip_is_parent_def empty_block_info_and_diff_def record_block_def
          put_block_info_def tip_recorded_def Let_def)
  qed
qed

lemma pre_activation_batch_all:
  assumes work: "\<And>hdr. 0 < b_work B hdr"
  shows "headers_wf B (block_hashes x) \<Longrightarrow> tip_recorded x t \<Longrightarrow> stack_path (block_hashes x) h ms t \<Longrightarrow>
    \<forall>m\<in>set ms. \<exists>k. height_db (block_hashes x) m = Some k \<and> k < bip300_activation_height (bh_params bh) \<Longrightarrow>
    \<exists>evs' y t'. pre_activation_batch B bh n ms evs x = Inr (take (length ms - n) ms, evs', y) \<and>
      length evs' = length evs + min n (length ms) \<and> tip_recorded y t' \<and>
      stack_path (block_hashes y) h (take (length ms - n) ms) t' \<and>
      header_db (block_hashes y) = header_db (block_hashes x) \<and> height_db (block_hashes y) = height_db (block_hashes x)"
proof (induction n arbitrary: ms evs x t)
  case (Suc n)
  show ?case
  proof (cases ms rule: rev_cases)
    case Nil
    then show ?thesis using Suc.prems by auto
  next
    case (snoc rest l)
    from stack_path_last [OF Suc.prems(3) [unfolded snoc]] obtain hdr where
      p: "stack_path (block_hashes x) h rest l" "header_db (block_hashes x) l = Some hdr" "hdr_prev_blockhash hdr = t" by blast
    from from_header_step [OF Suc.prems(1) work Suc.prems(2) p(2,3)] obtain ev y where
      c: "connect_block_from_header B l x = Inr (ev, y)" "tip_recorded y l" "header_db (block_hashes y) = header_db (block_hashes x)"
        "height_db (block_hashes y) = height_db (block_hashes x)" by blast
    have k: "\<exists>k. height_db (block_hashes x) l = Some k \<and> k < bip300_activation_height (bh_params bh)"
      using Suc.prems(4) snoc by simp
    have "headers_wf B (block_hashes y)" using Suc.prems(1) headers_wf_cong [OF c(3,4)] by simp
    moreover have "stack_path (block_hashes y) h rest l" using p(1) stack_path_cong [OF c(3)] by simp
    moreover have "\<forall>m\<in>set rest. \<exists>k. height_db (block_hashes y) m = Some k \<and> k < bip300_activation_height (bh_params bh)"
      using Suc.prems(4) snoc c(4) by simp
    ultimately obtain evs' z t' where "pre_activation_batch B bh n rest (evs @ [ev]) y = Inr (take (length rest - n) rest, evs', z)"
      "length evs' = length (evs @ [ev]) + min n (length rest)" "tip_recorded z t'"
      "stack_path (block_hashes z) h (take (length rest - n) rest) t'"
      "header_db (block_hashes z) = header_db (block_hashes y)" "height_db (block_hashes z) = height_db (block_hashes y)"
      using Suc.IH [of y l rest "evs @ [ev]"] c(2) by blast
    then show ?thesis using k c snoc by (intro exI [of _ evs'] exI [of _ z] exI [of _ t']) (auto simp: Suc_diff_le)
  qed
qed auto

text \<open>The blocks below the activation height are all connected.\<close>

lemma connect_pre_activation_all:
  assumes work: "\<And>hdr. 0 < b_work B hdr" and go: "\<And>t. \<not> cancelled t"
  shows "headers_wf B (block_hashes x) \<Longrightarrow> tip_recorded x t \<Longrightarrow> stack_path (block_hashes x) h ms t \<Longrightarrow>
    \<forall>m\<in>set ms. \<exists>k. height_db (block_hashes x) m = Some k \<and> k < bip300_activation_height (bh_params bh) \<Longrightarrow>
    \<exists>c' sent' y. connect_pre_activation_loop B bh cancelled i c ms sent x = (Inr c', [], sent', y) \<and> tip_recorded y h"
proof (induction "length ms" arbitrary: i c ms sent x t rule: less_induct)
  case less
  from pre_activation_batch_all [OF work less.prems, of PRE_ACTIVATION_BATCH_SIZE "[]"] obtain evs y t' where
    b: "pre_activation_batch B bh PRE_ACTIVATION_BATCH_SIZE ms [] x = Inr (take (length ms - PRE_ACTIVATION_BATCH_SIZE) ms, evs, y)"
      "length evs = min PRE_ACTIVATION_BATCH_SIZE (length ms)" "tip_recorded y t'"
      "stack_path (block_hashes y) h (take (length ms - PRE_ACTIVATION_BATCH_SIZE) ms) t'"
      "header_db (block_hashes y) = header_db (block_hashes x)" "height_db (block_hashes y) = height_db (block_hashes x)" by auto
  note unfold = connect_pre_activation_loop.simps [of B bh cancelled i c ms sent x]
  show ?case
  proof (cases "ms = []")
    case True
    then have "h = t" using less.prems(3) by simp
    moreover have "connect_pre_activation_loop B bh cancelled i c ms sent x = (Inr c, [], sent, x)"
      unfolding unfold using True b(1,2) go by simp
    ultimately show ?thesis using less.prems(2) by blast
  next
    case False
    let ?ms = "take (length ms - PRE_ACTIVATION_BATCH_SIZE) ms"
    have "0 < length evs" using b(2) False by (simp add: PRE_ACTIVATION_BATCH_SIZE_def)
    then have e: "evs \<noteq> []" by simp
    have lt: "length ?ms < length ms" using False by (simp add: PRE_ACTIVATION_BATCH_SIZE_def)
    have "\<forall>m\<in>set ?ms. \<exists>k. height_db (block_hashes y) m = Some k \<and> k < bip300_activation_height (bh_params bh)"
      using less.prems(4) b(6) by (auto dest: in_set_takeD)
    from less.hyps [OF lt _ b(3,4) this, of "i + 1" "c + length evs" "sent @ evs"]
    show ?thesis using b(1) e go headers_wf_cong [OF b(5,6), of B] less.prems(1) by (simp add: unfold)
  qed
qed

text \<open>C35: with a block directory, \<open>sync_blocks\<close> panics whenever a block is missing and all that are missing are
  below the activation height: whatever was connected before, if the tip of the node is a new block below
  that height, all missing blocks are connected from their headers, the tip of the enforcer is the
  tip of the node, and then \<open>sync_from_directory\<close> is called with an empty list, whose last
  element it expects. (No shutdown is noticed while the blocks are connected, headers have work, and the blocks
  connected before have their cumulative work recorded.)\<close>

theorem block_directory_panics:
  assumes "env_he E" "current_chain_tip base = None" "\<And>hdr. 0 < b_work (he_btc E) hdr"
    and r: "reached E base hs db" and wf: "headers_wf (he_btc E) (block_hashes db)"
    and cw: "\<forall>h\<in>set hs. cumulative_work_db (block_hashes db) h \<noteq> None"
    and tip: "header_db (block_hashes db) main_tip \<noteq> None" "main_tip \<notin> set hs" "height_db (block_hashes db) main_tip = Some k"
      "k < bip300_activation_height (bh_params (he_handler E))"
    and go: "\<And>t. \<not> cancelled PreActivation t"
  shows "\<exists>evs db'. sync_blocks E node (Some D) cancelled main_tip db = Some (Inl SE_Panic, evs, db') \<and>
    current_chain_tip db' = Some main_tip"
proof -
  let ?B = "he_btc E"
  have known: "known (block_hashes db) main_tip" using tip(1) by (simp add: known_def)
  from reorganise_ok [OF assms(1,2) r wf known] obtain ds rest y where
    y: "reorganise ?B main_tip db = Some (Inr (map DisconnectBlock ds, y))" "hs = ds @ rest" "reached E base rest y"
      "block_hashes y = block_hashes db" "ancestor (block_hashes y) (tip_or_zeros y) main_tip" by blast
  from missing_blocks_loop_path [OF wf y(5) [unfolded y(4)] known, of "[]"] obtain m where
    m: "missing_blocks_loop (block_hashes y) (tip_or_zeros y) main_tip [] = Some m"
      "skip_ancestors (block_hashes y) main_tip (length m) 0 = Inr (tip_or_zeros y)"
      "\<forall>i<length m. skip_ancestors (block_hashes y) main_tip i 0 = Inr (m ! i)" unfolding y(4) by auto
  note path = stack_path_skip [OF m(2,3)]
  have nz: "main_tip \<noteq> all_zeros" using tip(1) headers_wfD(5) [OF wf] by auto
  have t: "current_chain_tip y = (case rest of [] \<Rightarrow> None | h # _ \<Rightarrow> Some h)"
    using history_tip [OF y(3) assms(1)] assms(2) by (simp split: list.splits)
  have "tip_recorded y (tip_or_zeros y)"
    using t cw y(2,4) history_nonzero [OF y(3) assms(1)]
    by (cases rest) (auto simp: tip_recorded_def tip_or_zeros_def)
  moreover have ms: "m \<noteq> []"
  proof
    assume "m = []"
    then have "tip_or_zeros y = main_tip" using m(2) by simp
    then show False using t nz tip(2) y(2) by (cases rest) (auto simp: tip_or_zeros_def)
  qed
  moreover have "\<exists>j. height_db (block_hashes y) x = Some j \<and> j < bip300_activation_height (bh_params (he_handler E))"
    if x: "x \<in> set m" for x
  proof -
    from stack_path_ancestor [OF path x] have a: "ancestor (block_hashes db) x main_tip" "header_db (block_hashes db) x \<noteq> None"
      unfolding y(4) by auto
    have "x \<noteq> all_zeros" "height_db (block_hashes db) x \<noteq> None" using headers_wfD(2,5) [OF wf] a(2) by auto
    then obtain j where j: "height_db (block_hashes db) x = Some j" "level (block_hashes db) x = unat j + 1"
      by (auto simp: level_def)
    moreover have "level (block_hashes db) main_tip = unat k + 1" using tip(3) nz by (simp add: level_def)
    ultimately have "unat j \<le> unat k" using ancestor_level [OF wf a(1) known] by simp
    then have "j < bip300_activation_height (bh_params (he_handler E))" using tip(4) by (simp add: word_less_nat_alt)
    then show ?thesis using j(1) y(4) by simp
  qed
  ultimately obtain c sent x where
    "connect_pre_activation_loop ?B (he_handler E) (cancelled PreActivation) 0 0 m [] y = (Inr c, [], sent, x)" "tip_recorded x main_tip"
    using connect_pre_activation_all [where cancelled = "cancelled PreActivation", OF assms(3) go _ _ path, where bh = "he_handler E" and i = 0 and c = 0 and sent = "[]"] wf y(4)
    by auto
  moreover have "bip300_activation_height (bh_params (he_handler E)) \<noteq> 0" using tip(4) by auto
  ultimately have "connect_pre_activation_blocks ?B (he_handler E) (cancelled PreActivation) m y = (Inr c, [], sent, x)"
    "current_chain_tip x = Some main_tip" using nz by (simp_all add: connect_pre_activation_blocks_def tip_recorded_def)
  then show ?thesis using y(1,4) m(1) ms tip(3)
    by (simp add: sync_blocks_def connect_missing_def sync_block_dir_def sync_from_directory_def sync_from_directory_inner_def)
qed

section \<open>A chain below the activation height\<close>

text \<open>Tables that have one header, the genesis block, and no tip.\<close>

definition late_he :: handler_env where
  "late_he = sample_he\<lparr>he_handler := late_handler\<rparr>"

definition new_dbs :: dbs where
  "new_dbs = dbs_empty\<lparr>block_hashes := genesis_tables\<rparr>"

lemma new_dbs_source: "sync_source late_he sample_node None new_dbs {}"
proof -
  have "env_he late_he"
    using sample_env by (simp add: late_he_def late_handler_def env_ok_def)
  moreover have "base_ok late_handler new_dbs"
    by (auto simp: base_ok_def dbs_wf_def tables_wf_def new_dbs_def dbs_empty_def active_wf_empty diffs_wf_def
        genesis_tables_def block_hash_dbs_empty_def)
  moreover have "current_chain_tip new_dbs = None" by (simp add: new_dbs_def dbs_empty_def)
  ultimately show ?thesis
    by (simp add: sync_source_def sound_blocks_def late_he_def fetch_blocks_batch_def sample_node_def)
qed

theorem sync_blocks_returns_witness:
  "\<exists>r. sync_blocks late_he sample_node None (\<lambda>_ _. False) (pad32 [1]) new_dbs = Some r"
proof (rule sync_blocks_returns [OF new_dbs_source _ history.start])
  show "headers_wf (he_btc late_he) (block_hashes new_dbs)" "header_db (block_hashes new_dbs) (pad32 [1]) \<noteq> None"
    using genesis_wf by (simp_all add: late_he_def new_dbs_def genesis_headers)
  show "background_ends sample_node 0"
    by (simp add: background_ends_def block_data_gap_at_def sample_node_def background_sync_of_def)
qed

text \<open>An enforcer without blocks, and a node with a genesis block and one on top of it.\<close>

definition two_tables :: block_hash_dbs where
  "two_tables = block_hash_dbs_empty\<lparr>header_db := [pad32 [1] \<mapsto> fork_header 1 all_zeros, pad32 [2] \<mapsto> fork_header 2 (pad32 [1])],
     height_db := [pad32 [1] \<mapsto> 0, pad32 [2] \<mapsto> 1]\<rparr>"

lemma two_tables_wf: "headers_wf sample_btc two_tables"
  using pad32_nonzero [of 1] pad32_nonzero [of 2]
  by (auto simp: headers_wf_def two_tables_def fork_header_def known_def level_def split: if_splits)

theorem block_directory_panics_witness:
  "\<exists>evs db'. sync_blocks late_he sample_node (Some sample_dir) (\<lambda>_ _. False) (pad32 [2]) (dbs_empty\<lparr>block_hashes := two_tables\<rparr>) =
     Some (Inl SE_Panic, evs, db') \<and> current_chain_tip db' = Some (pad32 [2])"
proof (rule block_directory_panics [OF _ _ _ history.start, where k = 1])
  show "env_he late_he" using sample_env by (simp add: late_he_def late_handler_def env_ok_def)
  show "0 < b_work (he_btc late_he) hdr" for hdr using sync_sourceD(5) [OF new_dbs_source] .
  show "headers_wf (he_btc late_he) (block_hashes (dbs_empty\<lparr>block_hashes := two_tables\<rparr>))"
    using two_tables_wf by (simp add: late_he_def)
qed (simp_all add: two_tables_def dbs_empty_def late_he_def late_handler_def)

text \<open>The first block is in a block file, the second is fetched from the node.\<close>

definition first_block :: block where
  "first_block = \<lparr>blk_header = fork_header 1 all_zeros, blk_txdata = [sample_coinbase]\<rparr>"

definition second_block :: block where
  "second_block = \<lparr>blk_header = fork_header 2 (pad32 [1]), blk_txdata = [sample_coinbase]\<rparr>"

definition two_headers :: dbs where
  "two_headers = dbs_empty\<lparr>block_hashes := two_tables\<rparr>"

definition serving_node :: node where
  "serving_node = sample_node\<lparr>n_block_batch := (\<lambda>_ hs. if hs = [pad32 [2]] then Inr (Inr [''2'']) else Inl ()),
     d_hex := (\<lambda>_. Some []), d_block := (\<lambda>_. Some second_block)\<rparr>"

lemma empty_connect_coinbase:
  assumes "active_sidechains x = active_dbs_empty" "proposal_id_to_sidechain x = (\<lambda>_. None)"
  shows "connect_coinbase sample_btc sort_by_votes sample_handler h p sample_coinbase x =
     Inr ([], [], \<lparr>cd_msgs = [], cd_failed_proposals = (\<lambda>_. None), cd_failed_m6ids = []\<rparr>, x)"
proof -
  have failed: "handle_failed_sidechain_proposals sample_handler x h = (\<lambda>_. None)"
    using assms(2) by (simp add: handle_failed_sidechain_proposals_def)
  have upd: "x\<lparr>proposal_id_to_sidechain := (\<lambda>_. None)\<rparr> = x" "x\<lparr>active_sidechains := active_dbs_empty\<rparr> = x"
    using assms by (cases x; simp)+
  have m6ids: "handle_failed_m6ids sample_handler x h = Inr []"
    using assms(1) by (simp add: handle_failed_m6ids_def numbers_def active_dbs_empty_def)
  have outs: "tx_output sample_coinbase = []" by (simp add: sample_coinbase_def)
  show ?thesis unfolding connect_coinbase_def outs
    by (simp add: coinbase_messages_default_def default_m4_none failed apply_failed_proposals_def assms
        upd m6ids apply_failed_m6ids_def failed_events_def)
qed

definition blank_info :: "u8 \<Rightarrow> blockhash \<Rightarrow> u32 \<Rightarrow> partially_connected_block_info" where
  "blank_info n parent height = \<lparr>pc_header_info = \<lparr>hi_block_hash = pad32 [n], hi_prev_block_hash = parent,
      hi_height = height, hi_work = 1, hi_timestamp = 0\<rparr>,
    pc_block_info = \<lparr>bi_bmm_commitments = [], bi_coinbase_txid = pad32 [0], bi_events = []\<rparr>,
    pc_diff = \<lparr>bd_coinbase = \<lparr>cd_msgs = [], cd_failed_proposals = (\<lambda>_. None), cd_failed_m6ids = []\<rparr>, bd_txs = []\<rparr>,
    pc_unconsolidated_ctips = uc_default\<rparr>"

definition blank_event :: "u8 \<Rightarrow> blockhash \<Rightarrow> u32 \<Rightarrow> event" where
  "blank_event n parent height = ConnectBlock (pc_header_info (blank_info n parent height)) (pc_block_info (blank_info n parent height))"

definition first_dbs :: dbs where
  "first_dbs = two_headers\<lparr>block_hashes := two_tables\<lparr>
      bmm_commitments_db := [pad32 [1] \<mapsto> []], coinbase_txid_db := [pad32 [1] \<mapsto> pad32 [0]],
      cumulative_work_db := [pad32 [1] \<mapsto> 1], events_db := [pad32 [1] \<mapsto> []],
      diff_db := [pad32 [1] \<mapsto> pc_diff (blank_info 1 all_zeros 0)]\<rparr>,
    current_chain_tip := Some (pad32 [1])\<rparr>"

lemma first_connects:
  "connect_block sample_btc sort_by_votes id sample_handler first_block two_headers = Inr (blank_event 1 all_zeros 0, first_dbs)"
proof -
  have cc: "connect_coinbase sample_btc sort_by_votes sample_handler 0 all_zeros sample_coinbase two_headers =
     Inr ([], [], \<lparr>cd_msgs = [], cd_failed_proposals = (\<lambda>_. None), cd_failed_m6ids = []\<rparr>, two_headers)"
    by (rule empty_connect_coinbase) (simp_all add: two_headers_def dbs_empty_def)
  have "partial_connect_block sample_btc sort_by_votes id sample_handler first_block two_headers = Inr (blank_info 1 all_zeros 0, two_headers)"
    using cc by (simp add: partial_connect_block_def ensure_tip_is_parent_def two_headers_def dbs_empty_def two_tables_def
        first_block_def fork_header_def Let_def blank_info_def sample_handler_def network_params_new_def sample_coinbase_def)
  moreover have "record_block sample_btc (pc_header_info (blank_info 1 all_zeros 0)) (pc_block_info (blank_info 1 all_zeros 0))
      (pc_diff (blank_info 1 all_zeros 0)) two_headers = Inr (blank_event 1 all_zeros 0, first_dbs)"
    by (simp add: record_block_def put_block_info_def two_headers_def dbs_empty_def blank_info_def blank_event_def
        fork_header_def Let_def first_dbs_def two_tables_def block_hash_dbs_empty_def)
  ultimately show ?thesis
    by (simp add: connect_block_def finalize_connect_block_def blank_info_def uc_default_def)
qed

lemma second_connects:
  "\<exists>ev db'. connect_block sample_btc sort_by_votes id sample_handler second_block first_dbs = Inr (ev, db')"
proof -
  have cc: "connect_coinbase sample_btc sort_by_votes sample_handler 1 (pad32 [1]) sample_coinbase first_dbs =
     Inr ([], [], \<lparr>cd_msgs = [], cd_failed_proposals = (\<lambda>_. None), cd_failed_m6ids = []\<rparr>, first_dbs)"
    by (rule empty_connect_coinbase) (simp_all add: first_dbs_def two_headers_def dbs_empty_def)
  have "partial_connect_block sample_btc sort_by_votes id sample_handler second_block first_dbs =
      Inr (blank_info 2 (pad32 [1]) 1, first_dbs)"
    using cc by (simp add: partial_connect_block_def ensure_tip_is_parent_def first_dbs_def two_headers_def dbs_empty_def two_tables_def
        second_block_def fork_header_def Let_def blank_info_def sample_handler_def network_params_new_def sample_coinbase_def)
  moreover have "\<exists>ev db'. record_block sample_btc (pc_header_info (blank_info 2 (pad32 [1]) 1)) (pc_block_info (blank_info 2 (pad32 [1]) 1))
      (pc_diff (blank_info 2 (pad32 [1]) 1)) first_dbs = Inr (ev, db')"
    by (simp add: record_block_def put_block_info_def two_headers_def dbs_empty_def blank_info_def
        fork_header_def Let_def first_dbs_def two_tables_def block_hash_dbs_empty_def)
  ultimately show ?thesis
    by (auto simp: connect_block_def finalize_connect_block_def blank_info_def uc_default_def)
qed

lemma two_base: "base_ok sample_handler two_headers"
  by (auto simp: base_ok_def dbs_wf_def tables_wf_def two_headers_def dbs_empty_def active_wf_empty diffs_wf_def
      two_tables_def block_hash_dbs_empty_def)

lemma two_sound: "sound_blocks sample_btc sort_by_votes id sample_handler two_headers {first_block, second_block}"
  unfolding sound_blocks_def
proof (intro allI impI)
  fix hs x b r
  assume h: "history sample_btc sort_by_votes id sample_handler two_headers hs x" and b: "b \<in> {first_block, second_block}"
    and con: "connect_block sample_btc sort_by_votes id sample_handler b x = Inr r"
  note le = headers_leD [OF history_headers [OF h sample_env]]
  have st: "header_db (block_hashes x) (pad32 [1]) = Some (fork_header 1 all_zeros)" "height_db (block_hashes x) (pad32 [1]) = Some 0"
    "header_db (block_hashes x) (pad32 [2]) = Some (fork_header 2 (pad32 [1]))" "height_db (block_hashes x) (pad32 [2]) = Some 1"
    by (rule le; simp add: two_headers_def two_tables_def)+
  from con obtain info db1 where p: "partial_connect_block sample_btc sort_by_votes id sample_handler b x = Inr (info, db1)"
    by (auto simp: connect_block_def split: sum.splits)
  have "base_ok sample_handler two_headers" by (rule two_base)
  then have wf: "dbs_wf sample_handler x" using history_wf [OF h sample_env] by simp
  show "block_ready sample_btc x b"
  proof (cases "b = first_block")
    case True
    then have "next_height x = 0" using block_height_partial(4) [OF p] wf
      by (auto simp: ensure_tip_Inr first_block_def fork_header_def next_height_def dbs_wf_def)
    then show ?thesis unfolding True block_ready_def Let_def
      using st pad32_nonzero [of 1] by (simp add: first_block_def fork_header_def fresh_txs_def)
  next
    case False
    then have b: "b = second_block" using b by simp
    then have "current_chain_tip x = Some (pad32 [1])" using block_height_partial(4) [OF p] pad32_nonzero [of 1]
      by (auto simp: ensure_tip_Inr second_block_def fork_header_def)
    then have "next_height x = 1" using st by (simp add: next_height_def)
    then show ?thesis unfolding b block_ready_def Let_def
      using st pad32_nonzero [of 2] by (simp add: second_block_def fork_header_def fresh_txs_def)
  qed
qed

lemma two_source: "sync_source sample_he serving_node (Some (one_file_dir first_block (pad32 [1]))) two_headers {first_block, second_block}"
proof -
  have "map (block_hash_of sample_btc) blocks = hs \<and> set blocks \<subseteq> {first_block, second_block}"
    if "fetch_blocks_batch serving_node t hs = Inr blocks" for t hs blocks
    using that by (auto simp: fetch_blocks_batch_def serving_node_def second_block_def fork_header_def split: if_splits)
  moreover have "file_blocks sample_he (one_file_dir first_block (pad32 [1])) \<subseteq> {first_block, second_block}"
    using one_file_blocks by blast
  ultimately show ?thesis using sample_env two_base two_sound
    by (simp add: sync_source_def two_headers_def dbs_empty_def)
qed

lemma two_sync:
  "\<exists>evs db'. sync_blocks sample_he serving_node (Some (one_file_dir first_block (pad32 [1]))) (\<lambda>_ _. False) (pad32 [2]) two_headers =
     Some (Inr None, evs, db') \<and> length evs = 2"
proof -
  obtain ev db' where c: "connect_block sample_btc sort_by_votes id sample_handler second_block first_dbs = Inr (ev, db')"
    using second_connects by blast
  have tip: "tip_or_zeros two_headers = all_zeros" by (simp add: tip_or_zeros_def two_headers_def dbs_empty_def)
  have re: "reorganise sample_btc (pad32 [2]) two_headers = Some (Inr ([], two_headers))"
    by (simp add: reorganise_def tip_or_zeros_def last_common_ancestor_def two_headers_def dbs_empty_def)
  have m: "missing_blocks_loop (block_hashes two_headers) all_zeros (pad32 [2]) [] = Some [pad32 [2], pad32 [1]]"
    using pad32_nonzero [of 1] pad32_nonzero [of 2]
    by (subst missing_blocks_loop.simps, simp add: ancestor_next_def two_headers_def two_tables_def fork_header_def)
      (subst missing_blocks_loop.simps, simp add: ancestor_next_def,
        subst missing_blocks_loop.simps, simp add: ancestor_next_def)
  have p: "connect_pre_activation_blocks sample_btc sample_handler (\<lambda>_. False) [pad32 [2], pad32 [1]] two_headers =
      (Inr 0, [pad32 [2], pad32 [1]], [], two_headers)"
    by (simp add: connect_pre_activation_blocks_def sample_handler_def network_params_new_def)
  have d: "sync_from_directory sample_he (one_file_dir first_block (pad32 [1])) (\<lambda>_. False) ([pad32 [2]] @ [pad32 [1]]) two_headers =
      Some (Inr 1, [pad32 [2]], [blank_event 1 all_zeros 0], first_dbs)"
    by (rule one_dir_loop) (simp_all add: first_connects first_block_def [symmetric], simp_all add: first_block_def fork_header_def sample_handler_def network_params_new_def two_headers_def two_tables_def)
  have l: "blocks_loop E n c xs f t (length xs) g snt x = Some (Inr None, snt, x)" for E n c xs f t g snt x
    by (subst blocks_loop.simps) simp
  have f: "fetch_blocks_batch serving_node 0 [pad32 [2]] = Inr [second_block]"
    by (simp add: fetch_blocks_batch_def serving_node_def)
  have "blocks_loop sample_he serving_node (\<lambda>_. False) [pad32 [2]] 1 0 0 None [blank_event 1 all_zeros 0] first_dbs =
      Some (Inr None, [blank_event 1 all_zeros 0, ev], db')"
    using c f l [of _ _ _ "[pad32 [2]]"]
    by (subst blocks_loop.simps) (simp add: next_batch_size_def BLOCK_FETCH_BATCH_SIZE_def handle_block_batch_and_commit_def)
  moreover have "block_data_gap_at serving_node 0 (block_hashes first_dbs) = Inr None"
    by (simp add: block_data_gap_at_def serving_node_def sample_node_def background_sync_of_def)
  ultimately have "connect_missing sample_he serving_node (Some (one_file_dir first_block (pad32 [1]))) (\<lambda>_ _. False) (pad32 [2]) 1
      [pad32 [2], pad32 [1]] [] two_headers = Some (Inr None, [blank_event 1 all_zeros 0, ev], db')"
    using p d by (simp add: connect_missing_def sync_block_dir_def sync_over_rpc_def Let_def)
  moreover have "height_db (block_hashes two_headers) (pad32 [2]) = Some 1" by (simp add: two_headers_def two_tables_def)
  ultimately show ?thesis using re m by (simp add: sync_blocks_def tip)
qed

theorem sync_blocks_reaches_tip_witness:
  "\<exists>evs db'. sync_blocks sample_he serving_node (Some (one_file_dir first_block (pad32 [1]))) (\<lambda>_ _. False) (pad32 [2]) two_headers =
     Some (Inr None, evs, db') \<and> length evs = 2 \<and> tip_or_zeros db' = pad32 [2]"
proof -
  obtain evs db' where s: "sync_blocks sample_he serving_node (Some (one_file_dir first_block (pad32 [1]))) (\<lambda>_ _. False)
      (pad32 [2]) two_headers = Some (Inr None, evs, db')" "length evs = 2" using two_sync by blast
  have h: "headers_wf (he_btc sample_he) (block_hashes two_headers)" "header_db (block_hashes two_headers) (pad32 [2]) \<noteq> None"
    using two_tables_wf by (simp_all add: two_headers_def two_tables_def)
  from sync_blocks_reaches_tip [OF two_source h(1) history.start h(2) s(1)] s show ?thesis by blast
qed

end
