(* ===== verification/Enforcer.thy ===== *)
theory Enforcer
  imports Sync
begin

text \<open>
  The CUSF enforcer (\<open>validator/cusf_enforcer.rs\<close>): what the node's mempool and block driver call.
  Blocks are connected in a transaction nested in the one that stores their header; a \<^emph>\<open>mode\<close>
  decides what becomes of the two. Tables that a function leaves are in its result; an error \<open>Inl\<close>
  drops the transaction, so that the tables stay as they were. The actions are the types of the
  \<open>cusf_enforcer_mempool\<close> crate.
\<close>

section \<open>Connecting in a mode\<close>

datatype reject_reason =
    RR_ConnectBlock connect_block_error
  | RR_MissingParentHeight blockhash blockhash

datatype connect_block_action =
    BlockAccept "txid set"
  | BlockReject

text \<open>The trait \<open>ConnectBlockMode\<close>. \<open>finish_child parent child\<close> gives the state of the outer transaction
  after the inner one was committed or aborted, \<open>finish_parent durable parent\<close> and
  \<open>reject durable parent\<close> the tables after the outer one was.\<close>

record ('accepted, 'output) connect_block_mode =
  finish_child :: "dbs \<Rightarrow> dbs \<Rightarrow> event \<Rightarrow> txid set \<Rightarrow> 'accepted \<times> dbs"
  finish_parent :: "dbs \<Rightarrow> dbs \<Rightarrow> 'accepted \<Rightarrow> 'output \<times> event list \<times> dbs"
  mode_reject :: "dbs \<Rightarrow> dbs \<Rightarrow> reject_reason \<Rightarrow> 'output \<times> event list \<times> dbs"

text \<open>The header of a block is stored one above its parent, if it is not there.\<close>

definition store_header :: "btc \<Rightarrow> block \<Rightarrow> dbs \<Rightarrow> reject_reason + dbs" where
  "store_header B block db =
     (let block_hash = b_block_hash B (blk_header block); parent = hdr_prev_blockhash (blk_header block) in
      if contains_header (block_hashes db) block_hash then Inr db
      else case (if parent = all_zeros then Some 0
                 else map_option (\<lambda>h. h + 1) (height_db (block_hashes db) parent)) of
        None \<Rightarrow> Inl (RR_MissingParentHeight block_hash parent)
      | Some height \<Rightarrow>
          Inr (db\<lparr>block_hashes := put_headers B (block_hashes db) [(blk_header block, height)]\<rparr>))"

definition bmm_request_txs :: "(sidechain_number \<Rightarrow> bmm_commitment \<Rightarrow> txid set) \<Rightarrow> txid set" where
  "bmm_request_txs requests = (\<Union>slot. \<Union>commitment. requests slot commitment)"

definition connect_block_with_mode :: "handler_env \<Rightarrow> ('accepted, 'output) connect_block_mode \<Rightarrow> block \<Rightarrow>
    dbs \<Rightarrow> connect_block_error + 'output \<times> event list \<times> dbs" where
  "connect_block_with_mode E mode block db =
     (case store_header (he_btc E) block db of
        Inl reason \<Rightarrow> Inr (mode_reject mode db db reason)
      | Inr parent_db \<Rightarrow>
     (case connect_block (he_btc E) (he_srt E) (he_ord E) (he_handler E) block parent_db of
        Inl err \<Rightarrow>
          if connect_fatal err then Inl err
          else Inr (mode_reject mode db parent_db (RR_ConnectBlock err))
      | Inr (event, child_db) \<Rightarrow>
          let remove_mempool_txs = bmm_request_txs (get_seen_bmm_requests_for_parent_block
                (block_hashes child_db) (hdr_prev_blockhash (blk_header block)))
          in (case finish_child mode parent_db child_db event remove_mempool_txs of
                (accepted, parent_db) \<Rightarrow> Inr (finish_parent mode db parent_db accepted))))"

definition ConnectBlockCommit :: "(event \<times> txid set, connect_block_action) connect_block_mode" where
  "ConnectBlockCommit =
     \<lparr>finish_child = (\<lambda>parent child event remove_mempool_txs. ((event, remove_mempool_txs), child)),
      finish_parent = (\<lambda>durable parent (event, remove_mempool_txs).
        (BlockAccept remove_mempool_txs, [event], parent)),
      mode_reject = (\<lambda>durable parent reason. (BlockReject, [], parent))\<rparr>"

definition ConnectBlockDryRun :: "(dbs \<Rightarrow> 'a) \<Rightarrow> ('a, reject_reason + 'a) connect_block_mode" where
  "ConnectBlockDryRun f =
     \<lparr>finish_child = (\<lambda>parent child event remove_mempool_txs. (f child, parent)),
      finish_parent = (\<lambda>durable parent res. (Inr res, [], durable)),
      mode_reject = (\<lambda>durable parent reason. (Inl reason, [], durable))\<rparr>"

section \<open>The enforcer\<close>

definition enforcer_connect_block :: "handler_env \<Rightarrow> block \<Rightarrow> dbs \<Rightarrow>
    connect_block_error + connect_block_action \<times> event list \<times> dbs" where
  "enforcer_connect_block E = connect_block_with_mode E ConnectBlockCommit"

text \<open>\<open>validate_block\<close> returns the reason of a rejection; the code returns its text.\<close>

definition validate_block :: "handler_env \<Rightarrow> block \<Rightarrow> dbs \<Rightarrow>
    connect_block_error + reject_reason option \<times> event list \<times> dbs" where
  "validate_block E block db =
     (case connect_block_with_mode E (ConnectBlockDryRun (\<lambda>_. ())) block db of
        Inl e \<Rightarrow> Inl e
      | Inr (Inr _, evs, db) \<Rightarrow> Inr (None, evs, db)
      | Inr (Inl reason, evs, db) \<Rightarrow> Inr (Some reason, evs, db))"

definition enforcer_disconnect_block :: "handler_env \<Rightarrow> blockhash \<Rightarrow> dbs \<Rightarrow>
    disconnect_block_error + txid set \<times> event list \<times> dbs" where
  "enforcer_disconnect_block E block_hash db =
     (case disconnect_block (he_btc E) block_hash [] db of
        Inl e \<Rightarrow> Inl e
      | Inr (events, db) \<Rightarrow>
          Inr (bmm_request_txs (get_seen_bmm_requests_for_parent_block (block_hashes db) block_hash),
            events, db))"

text \<open>\<open>sync_to_tip\<close> of the enforcer. \<open>in_progress\<close> tells whether \<open>header_sync_progress_rx\<close> is set;
  \<open>shutdown = Some (evs, db')\<close> says that the shutdown signal wins the race when the synchronisation has
  sent the events \<open>evs\<close> and left the tables \<open>db'\<close>.\<close>

datatype sync_to_tip_error =
    STT_InvalidBlock blockhash connect_block_error
  | STT_Sync sync_error

definition enforcer_sync_to_tip :: "handler_env \<Rightarrow> node \<Rightarrow> block_dir option \<Rightarrow> (sync_phase \<Rightarrow> nat \<Rightarrow> bool) \<Rightarrow>
    (event list \<times> dbs) option \<Rightarrow> blockhash \<Rightarrow> bool \<times> dbs \<Rightarrow>
    ((sync_to_tip_error + unit) \<times> event list \<times> bool \<times> dbs) option" where
  "enforcer_sync_to_tip E node dir cancelled shutdown tip st =
     (case st of (in_progress, db) \<Rightarrow>
      if in_progress then Some (Inl (STT_Sync HeaderSyncInProgress), [], True, db)
      else case shutdown of
        Some (evs, db') \<Rightarrow> Some (Inl (STT_Sync Shutdown), evs, False, db')
      | None \<Rightarrow>
     (case sync_to_tip E node dir cancelled tip db of
        None \<Rightarrow> None
      | Some (r, evs, db) \<Rightarrow>
          Some (case r of
              Inr None \<Rightarrow> Inr ()
            | Inr (Some ib) \<Rightarrow> Inl (STT_InvalidBlock (ib_block_hash ib) (ib_reason ib))
            | Inl e \<Rightarrow> Inl (STT_Sync e), evs, False, db)))"

section \<open>Transactions of the mempool\<close>

text \<open>\<open>TxAcceptAction\<close>; the weight is an \<open>i64\<close>.\<close>

datatype tx_accept_action =
    TxAccept "txid set" "64 word"
  | TxReject

definition BMM_ACCEPT_OUTPUT_WEIGHT :: "64 word" where
  "BMM_ACCEPT_OUTPUT_WEIGHT = (let spk_size = 39; WITNESS_SCALE_FACTOR = 4 in (8 + 1 + spk_size) * WITNESS_SCALE_FACTOR)"

text \<open>The conflicts and the weight of a BMM request, which is noted.\<close>

definition note_bmm_request :: "txid \<Rightarrow> transaction \<Rightarrow> dbs \<Rightarrow> txid set \<times> 64 word \<times> dbs" where
  "note_bmm_request txid tx db =
     (case parse_m8_tx tx of
        Some r \<Rightarrow>
          let conflicts_with = (\<Union>commitment. get_seen_bmm_requests (block_hashes db)
                (m8_prev_mainchain_block_hash r) (m8_sidechain_number r) commitment) - {txid}
          in (conflicts_with, BMM_ACCEPT_OUTPUT_WEIGHT, db\<lparr>block_hashes := put_seen_bmm_request (block_hashes db)
                (m8_prev_mainchain_block_hash r) (m8_sidechain_number r) txid (m8_sidechain_block_hash r)\<rparr>)
      | None \<Rightarrow> ({}, 0, db))"

definition treasury_output_count :: "op_drivechain \<Rightarrow> transaction \<Rightarrow> nat" where
  "treasury_output_count drivechain tx =
     length (filter (\<lambda>out. case drivechain_parse drivechain (to_script_pubkey out) of Inr _ \<Rightarrow> True | Inl _ \<Rightarrow> False)
       (tx_output tx))"

definition note_unconsolidated :: "unconsolidated_ctips \<Rightarrow> dbs \<Rightarrow> dbs" where
  "note_unconsolidated uc db = db\<lparr>seen_unconsolidated_ctip_outputs :=
     fold (\<lambda>(outpoint, sidechain_number, value) seen. seen(outpoint \<mapsto> (sidechain_number, value)))
       (by_outpoint uc) (seen_unconsolidated_ctip_outputs db)\<rparr>"

definition accept_tx_with_payout :: "handler_env \<Rightarrow> transaction \<Rightarrow> dbs \<Rightarrow>
    validate_tx_error + (tx_accept_action \<times> (sidechain_number \<times> m6id) option) \<times> dbs" where
  "accept_tx_with_payout E tx db =
     (case validate_tx (he_btc E) (he_ord E) (he_handler E) db tx of
        Inl e \<Rightarrow> Inl e
      | Inr VInvalid \<Rightarrow> Inr ((TxReject, None), db)
      | Inr valid \<Rightarrow>
     (let (payout, uc) = (case valid of
            VM5 uc \<Rightarrow> (None, uc)
          | VPayout n m \<Rightarrow> (Some (n, m), uc_default)
          | _ \<Rightarrow> (None, uc_default));
          (conflicts_with, weight_tweak, db) = note_bmm_request (b_compute_txid (he_btc E) tx) tx db;
          n_treasury_outputs = treasury_output_count (np_op_drivechain (bh_params (he_handler E))) tx;
          weight_tweak = weight_tweak +
            (if n_treasury_outputs = 0 then 0 else consolidation_tx_weight (of_nat n_treasury_outputs))
      in Inr ((TxAccept conflicts_with weight_tweak, payout), note_unconsolidated uc db)))"

definition accept_tx :: "handler_env \<Rightarrow> transaction \<Rightarrow> dbs \<Rightarrow> validate_tx_error + tx_accept_action \<times> dbs" where
  "accept_tx E tx db =
     (case accept_tx_with_payout E tx db of Inl e \<Rightarrow> Inl e | Inr ((action, _), db) \<Rightarrow> Inr (action, db))"

section \<open>The state after a block\<close>

text \<open>\<open>partial_connect_block_dry_run\<close> leaves nothing behind, so only its result is given.\<close>

definition partial_connect_block_dry_run :: "handler_env \<Rightarrow> block \<Rightarrow>
    (dbs \<Rightarrow> partially_connected_block_info \<Rightarrow> 'a) \<Rightarrow> dbs \<Rightarrow> connect_block_error + (reject_reason + 'a)" where
  "partial_connect_block_dry_run E block f db =
     (case store_header (he_btc E) block db of
        Inl reason \<Rightarrow> Inr (Inl reason)
      | Inr parent_db \<Rightarrow>
     (case partial_connect_block (he_btc E) (he_srt E) (he_ord E) (he_handler E) block parent_db of
        Inl err \<Rightarrow>
          if connect_fatal (CB_Partial err) then Inl (CB_Partial err)
          else Inr (Inl (RR_ConnectBlock (CB_Partial err)))
      | Inr (info, child_db) \<Rightarrow> Inr (Inr (f child_db info))))"

record ctips =
  ctips_consolidated :: "sidechain_number \<Rightarrow> ctip option"
  ctips_unconsolidated :: unconsolidated_ctips

record withdrawal_state =
  ws_ctips :: ctips
  ws_pending_withdrawals :: "sidechain_number \<Rightarrow> pending_m6ids option"

definition get_withdrawal_state_after :: "handler_env \<Rightarrow> block \<Rightarrow> dbs \<Rightarrow>
    connect_block_error + (reject_reason + withdrawal_state)" where
  "get_withdrawal_state_after E block db =
     partial_connect_block_dry_run E block (\<lambda>db info.
       \<lparr>ws_ctips = \<lparr>ctips_consolidated = ctip_db (active_sidechains db),
          ctips_unconsolidated = pc_unconsolidated_ctips info\<rparr>,
        ws_pending_withdrawals = pending_m6ids_db (active_sidechains db)\<rparr>) db"

section \<open>What every mode decides\<close>

text \<open>A mode reports an accepted block as accepted and a rejected one as rejected; a dry run leaves the
  tables and sends no event.\<close>

lemma with_mode_cases:
  assumes "connect_block_with_mode E mode block db = Inr z"
  obtains (missing) reason where "store_header (he_btc E) block db = Inl reason" "z = mode_reject mode db db reason"
  | (rejected) p e where "store_header (he_btc E) block db = Inr p"
      "connect_block (he_btc E) (he_srt E) (he_ord E) (he_handler E) block p = Inl e" "\<not> connect_fatal e"
      "z = mode_reject mode db p (RR_ConnectBlock e)"
  | (accepted) p ev c acc p' where "store_header (he_btc E) block db = Inr p"
      "connect_block (he_btc E) (he_srt E) (he_ord E) (he_handler E) block p = Inr (ev, c)"
      "finish_child mode p c ev (bmm_request_txs (get_seen_bmm_requests_for_parent_block
         (block_hashes c) (hdr_prev_blockhash (blk_header block)))) = (acc, p')"
      "z = finish_parent mode db p' acc"
proof (cases "store_header (he_btc E) block db")
  case (Inl r)
  with assms missing show thesis by (simp add: connect_block_with_mode_def)
next
  case (Inr p)
  show thesis
  proof (cases "connect_block (he_btc E) (he_srt E) (he_ord E) (he_handler E) block p")
    case (Inl e)
    with assms Inr rejected show thesis by (simp add: connect_block_with_mode_def split: if_splits)
  next
    case r: (Inr q)
    obtain ev c where q: "q = (ev, c)" by (cases q)
    with assms Inr r accepted show thesis
      by (cases "finish_child mode p c ev (bmm_request_txs (get_seen_bmm_requests_for_parent_block
         (block_hashes c) (hdr_prev_blockhash (blk_header block))))") (simp add: connect_block_with_mode_def)
  qed
qed

locale block_mode =
  fixes mode :: "('accepted, 'output) connect_block_mode" and accepts :: "'output \<Rightarrow> bool"
  assumes finish_accepts: "accepts (fst (finish_parent mode durable parent accepted))"
    and reject_rejects: "\<not> accepts (fst (mode_reject mode durable parent reason))"
begin

lemma error_iff:
  "connect_block_with_mode E mode block db = Inl e \<longleftrightarrow>
     (\<exists>p. store_header (he_btc E) block db = Inr p \<and>
        connect_block (he_btc E) (he_srt E) (he_ord E) (he_handler E) block p = Inl e \<and> connect_fatal e)"
  by (auto simp: connect_block_with_mode_def Let_def split: sum.splits prod.splits if_splits)

lemma accepts_iff:
  assumes "connect_block_with_mode E mode block db = Inr (out, evs, db')"
  shows "accepts out \<longleftrightarrow> (\<exists>p r. store_header (he_btc E) block db = Inr p \<and>
    connect_block (he_btc E) (he_srt E) (he_ord E) (he_handler E) block p = Inr r)"
  using assms
proof (cases rule: with_mode_cases)
  case (missing reason)
  then show ?thesis using reject_rejects [of db db reason] by (metis Inl_Inr_False fst_conv)
next
  case (rejected p e)
  then show ?thesis using reject_rejects [of db p "RR_ConnectBlock e"] by (metis Inl_Inr_False Inr_inject fst_conv)
next
  case (accepted p ev c acc p')
  then show ?thesis using finish_accepts [of db p' acc] by (metis fst_conv)
qed

end

locale dry_mode = block_mode mode accepts
  for mode :: "('accepted, 'output) connect_block_mode" and accepts :: "'output \<Rightarrow> bool" +
  assumes finish_aborts: "snd (finish_parent mode durable parent accepted) = ([], durable)"
    and reject_aborts: "snd (mode_reject mode durable parent reason) = ([], durable)"
begin

lemma leaves_tables:
  assumes "connect_block_with_mode E mode block db = Inr (out, evs, db')"
  shows "evs = [] \<and> db' = db"
  using assms by (cases rule: with_mode_cases) (metis finish_aborts reject_aborts prod.inject snd_conv)+

end

interpretation commit: block_mode ConnectBlockCommit "\<lambda>a. a \<noteq> BlockReject"
  by unfold_locales (auto simp: ConnectBlockCommit_def split: prod.split)

interpretation dry_run: dry_mode "ConnectBlockDryRun f" "\<lambda>r. case r of Inr _ \<Rightarrow> True | Inl _ \<Rightarrow> False" for f
  by unfold_locales (auto simp: ConnectBlockDryRun_def)

text \<open>C29: \<open>validate_block\<close> predicts \<open>connect_block\<close>: it fails, accepts or rejects as connecting the block
  would, and it changes no table and sends no event.\<close>

theorem validate_block_predicts:
  "case enforcer_connect_block E block db of
     Inl e \<Rightarrow> validate_block E block db = Inl e
   | Inr (action, _, _) \<Rightarrow> \<exists>reason. validate_block E block db = Inr (reason, [], db) \<and>
       (reason = None \<longleftrightarrow> action \<noteq> BlockReject)"
proof (cases "enforcer_connect_block E block db")
  case (Inl e)
  then have "connect_block_with_mode E (ConnectBlockDryRun (\<lambda>_. ())) block db = Inl e"
    unfolding enforcer_connect_block_def by (simp only: commit.error_iff dry_run.error_iff)
  with Inl show ?thesis by (simp add: validate_block_def)
next
  case (Inr z)
  obtain action evs db' where z: "z = (action, evs, db')" by (cases z)
  have "\<not> (\<exists>e. connect_block_with_mode E (ConnectBlockDryRun (\<lambda>_. ())) block db = Inl e)"
    using Inr unfolding enforcer_connect_block_def dry_run.error_iff commit.error_iff [symmetric] by simp
  then obtain out evs' db2 where dry: "connect_block_with_mode E (ConnectBlockDryRun (\<lambda>_. ())) block db = Inr (out, evs', db2)"
    by (metis prod_cases3 sum.exhaust)
  have act: "action \<noteq> BlockReject \<longleftrightarrow> (case out of Inr _ \<Rightarrow> True | Inl _ \<Rightarrow> False)"
    using commit.accepts_iff [OF Inr [unfolded enforcer_connect_block_def z]] dry_run.accepts_iff [OF dry] by simp
  have "validate_block E block db = Inr (case out of Inr _ \<Rightarrow> None | Inl r \<Rightarrow> Some r, [], db)"
    using dry dry_run.leaves_tables [OF dry] by (cases out) (simp_all add: validate_block_def)
  then show ?thesis using act unfolding Inr z sum.case prod.case by (cases out) simp_all
qed

section \<open>The enforcer as a stack of blocks\<close>

text \<open>The requests of the driver, what a request does to the tables and whether it moved the tip.\<close>

datatype request =
    ReqConnect block
  | ReqDisconnect blockhash
  | ReqAcceptTx transaction
  | ReqValidate block

fun enforcer_step :: "handler_env \<Rightarrow> request \<Rightarrow> dbs \<Rightarrow> bool \<times> dbs" where
  "enforcer_step E (ReqConnect b) db =
     (case enforcer_connect_block E b db of Inl _ \<Rightarrow> (False, db) | Inr (action, _, db') \<Rightarrow> (action \<noteq> BlockReject, db'))"
| "enforcer_step E (ReqDisconnect h) db =
     (case enforcer_disconnect_block E h db of Inl _ \<Rightarrow> (False, db) | Inr (_, evs, db') \<Rightarrow> (evs \<noteq> [], db'))"
| "enforcer_step E (ReqAcceptTx tx) db =
     (case accept_tx E tx db of Inl _ \<Rightarrow> (False, db) | Inr (_, db') \<Rightarrow> (False, db'))"
| "enforcer_step E (ReqValidate b) db =
     (case validate_block E b db of Inl _ \<Rightarrow> (False, db) | Inr (_, _, db') \<Rightarrow> (False, db'))"

fun enforcer_run :: "handler_env \<Rightarrow> request list \<Rightarrow> dbs \<Rightarrow> (request \<times> bool) list \<times> dbs" where
  "enforcer_run E [] db = ([], db)"
| "enforcer_run E (r # rs) db =
     (case enforcer_step E r db of (moved, db') \<Rightarrow>
        (case enforcer_run E rs db' of (log, db'') \<Rightarrow> ((r, moved) # log, db'')))"

text \<open>The specification: a stack of block hashes, newest first.\<close>

fun stack_step :: "btc \<Rightarrow> request \<times> bool \<Rightarrow> blockhash list \<Rightarrow> blockhash list" where
  "stack_step B (ReqConnect b, True) hs = block_hash_of B b # hs"
| "stack_step B (ReqDisconnect h, True) hs = tl hs"
| "stack_step B _ hs = hs"

text \<open>The driver connects blocks of \<open>S\<close> that do not exceed the largest height, and disconnects while
  there is a tip.\<close>

fun driven :: "handler_env \<Rightarrow> block set \<Rightarrow> request list \<Rightarrow> dbs \<Rightarrow> bool" where
  "driven E S [] db = True"
| "driven E S (r # rs) db \<longleftrightarrow> (case r of
       ReqConnect b \<Rightarrow> b \<in> S \<and> height_db (block_hashes db) (hdr_prev_blockhash (blk_header b)) \<noteq> Some (- 1)
     | ReqDisconnect _ \<Rightarrow> current_chain_tip db \<noteq> None
     | _ \<Rightarrow> True) \<and> driven E S rs (snd (enforcer_step E r db))"

text \<open>What holds of the header tables between requests: the stored headers are among \<open>H\<close>, and only
  stored headers have a height.\<close>

definition headers_in :: "header set \<Rightarrow> block_hash_dbs \<Rightarrow> bool" where
  "headers_in H b \<longleftrightarrow> ran (header_db b) \<subseteq> H \<and> dom (height_db b) \<subseteq> dom (header_db b)"

lemma headers_in_cong:
  assumes "header_db b' = header_db b" "height_db b' = height_db b"
  shows "headers_in H b' = headers_in H b"
  by (simp add: headers_in_def assms)

lemma store_header_grows:
  assumes "store_header B block db = Inr p" "headers_wf B (block_hashes db)" "hash_distinct B H"
    "headers_in H (block_hashes db)" "blk_header block \<in> H"
    "height_db (block_hashes db) (hdr_prev_blockhash (blk_header block)) \<noteq> Some (- 1)"
  shows "grown B hs db p" "headers_in H (block_hashes p)"
proof -
  let ?hdr = "blk_header block" and ?b = "block_hashes db"
  have ran: "ran (header_db ?b) \<subseteq> H" using assms(4) by (simp add: headers_in_def)
  have "grown B hs db p \<and> headers_in H (block_hashes p)"
  proof (cases "contains_header ?b (b_block_hash B ?hdr)")
    case True
    with assms(1,4) show ?thesis by (simp add: store_header_def Let_def grown_def)
  next
    case False
    with assms(1) obtain height where
      height: "(if hdr_prev_blockhash ?hdr = all_zeros then Some 0
        else map_option (\<lambda>h. h + 1) (height_db ?b (hdr_prev_blockhash ?hdr))) = Some height"
      and p: "p = db\<lparr>block_hashes := put_header B ?b ?hdr height\<rparr>"
      by (auto simp: store_header_def Let_def split: option.splits)
    have parent: "known ?b (hdr_prev_blockhash ?hdr) \<and> level ?b (hdr_prev_blockhash ?hdr) = unat height"
    proof (cases "hdr_prev_blockhash ?hdr = all_zeros")
      case True
      with height show ?thesis by simp
    next
      case ne: False
      with height obtain k where k: "height_db ?b (hdr_prev_blockhash ?hdr) = Some k" "height = k + 1" by auto
      then have kn: "known ?b (hdr_prev_blockhash ?hdr)" using assms(4) by (force simp: headers_in_def known_def)
      have "1 + k \<noteq> 0" using assms(6) k(1) by (metis add.commute eq_neg_iff_add_eq_0)
      then have "unat (k + 1) = unat k + 1" using unatSuc [of k] by (simp add: add.commute)
      with level_known [OF assms(2) kn ne] k kn show ?thesis by (metis option.inject)
    qed
    note eq = put_header_known [OF assms(2,3) ran assms(5)] and wf = put_header_wf [OF assms(2,3) ran assms(5)]
    have new: "height_db ?b (b_block_hash B ?hdr) = None"
      using False assms(4) by (auto simp: headers_in_def contains_header_def)
    let ?b' = "put_header B ?b ?hdr height"
    have b': "?b' = ?b\<lparr>header_db := (header_db ?b)(b_block_hash B ?hdr \<mapsto> ?hdr),
        height_db := (height_db ?b)(b_block_hash B ?hdr \<mapsto> height)\<rparr>" using eq parent by blast
    have le: "headers_le ?b ?b'" using False new by (auto simp: headers_le_def b' map_le_def dom_def contains_header_def)
    have "headers_wf B ?b'" using wf(1) parent by blast
    then have "tables_grow B ?b ?b'" using le by (simp add: tables_grow_def b' diffs_wf_def)
    then have "grown B hs db p" by (simp add: grown_def p chain_state_def b')
    moreover have "headers_in H ?b'"
      using assms(4,5) wf(4) parent by (auto simp: headers_in_def b' ran_def)
    ultimately show ?thesis by (simp add: p)
  qed
  then show "grown B hs db p" "headers_in H (block_hashes p)" by simp_all
qed

lemma accept_tx_grows:
  assumes "accept_tx E tx db = Inr (action, db')"
  shows "grown B hs db db'" "header_db (block_hashes db') = header_db (block_hashes db)"
    "height_db (block_hashes db') = height_db (block_hashes db)"
proof -
  obtain uc where "db' = db \<or> db' = note_unconsolidated uc (snd (snd (note_bmm_request (b_compute_txid (he_btc E) tx) tx db)))"
    using assms by (auto simp: accept_tx_def accept_tx_with_payout_def Let_def
      split: sum.splits validated_tx.splits prod.splits)
  then have "chain_state db' = chain_state db \<and> header_db (block_hashes db') = header_db (block_hashes db) \<and>
      height_db (block_hashes db') = height_db (block_hashes db) \<and> diff_db (block_hashes db') = diff_db (block_hashes db)"
    by (auto simp: note_unconsolidated_def note_bmm_request_def put_seen_bmm_request_def chain_state_def Let_def
      split: option.splits)
  moreover from this have "headers_wf B (block_hashes db') = headers_wf B (block_hashes db)"
    by (intro headers_wf_cong) simp_all
  ultimately show "grown B hs db db'" "header_db (block_hashes db') = header_db (block_hashes db)"
    "height_db (block_hashes db') = height_db (block_hashes db)"
    by (simp_all add: grown_def tables_grow_def headers_le_def diffs_wf_def)
qed

lemma validate_block_leaves: "validate_block E block db = Inr (r, evs, db') \<Longrightarrow> db' = db"
  by (auto simp: validate_block_def split: sum.splits dest: dry_run.leaves_tables)

text \<open>The requests refine the stack: the tables are always those of the blocks on it.\<close>

lemma connect_refines:
  assumes env: "env_he E" and S: "sound_blocks (he_btc E) (he_srt E) (he_ord E) (he_handler E) base S"
    and H: "hash_distinct (he_btc E) H" "blk_header b \<in> H" and b: "b \<in> S"
    and reach: "reached E base hs db" and base: "base_ok (he_handler E) base"
    and wf: "headers_wf (he_btc E) (block_hashes db)" "headers_in H (block_hashes db)"
    and height: "height_db (block_hashes db) (hdr_prev_blockhash (blk_header b)) \<noteq> Some (- 1)"
    and step: "enforcer_step E (ReqConnect b) db = (moved, db')"
  shows "reached E base (stack_step (he_btc E) (ReqConnect b, moved) hs) db' \<and> headers_in H (block_hashes db')"
proof (cases "enforcer_connect_block E b db")
  case (Inl e)
  with step reach wf(2) show ?thesis by simp
next
  case (Inr z)
  obtain action evs where z: "z = (action, evs, db')" "moved = (action \<noteq> BlockReject)"
    using Inr step by (cases z) simp
  from Inr [unfolded enforcer_connect_block_def] show ?thesis
  proof (cases rule: with_mode_cases)
    case (missing reason)
    with z reach wf(2) show ?thesis by (simp add: ConnectBlockCommit_def)
  next
    case (rejected p e)
    note g = store_header_grows [OF rejected(1) wf(1) H(1) wf(2) H(2) height]
    from rejected(4) z have "db' = p" "\<not> moved" by (simp_all add: ConnectBlockCommit_def)
    then show ?thesis using history.grow [OF reach g(1)] g(2) by simp
  next
    case (accepted p ev c acc p')
    note g = store_header_grows [OF accepted(1) wf(1) H(1) wf(2) H(2) height]
    have "db' = c" "moved" using accepted(3,4) z by (auto simp: ConnectBlockCommit_def)
    have rp: "reached E base hs p" by (rule history.grow [OF reach g(1)])
    have ready: "block_ready (he_btc E) p b" using S rp b accepted(2) unfolding sound_blocks_def by blast
    have pwf: "dbs_wf (he_handler E) p" by (rule history_wf [OF rp env base])
    from connect_block_leaves [OF accepted(2) pwf ready env]
    have "header_db (block_hashes c) = header_db (block_hashes p)" "height_db (block_hashes c) = height_db (block_hashes p)"
      by metis+
    then have "headers_in H (block_hashes c)" using g(2) headers_in_cong by blast
    then show ?thesis using history.block [OF rp pwf ready accepted(2)] \<open>db' = c\<close> \<open>moved\<close> by simp
  qed
qed

lemma disconnect_refines:
  assumes env: "env_he E" and reach: "reached E base hs db"
    and tip: "current_chain_tip base = None" "current_chain_tip db \<noteq> None"
    and step: "enforcer_step E (ReqDisconnect h) db = (moved, db')"
  shows "reached E base (stack_step (he_btc E) (ReqDisconnect h, moved) hs) db' \<and> block_hashes db' = block_hashes db"
proof (cases "disconnect_block (he_btc E) h [] db")
  case (Inl e)
  with step reach show ?thesis by (simp add: enforcer_disconnect_block_def)
next
  case (Inr z)
  obtain evs where z: "disconnect_block (he_btc E) h [] db = Inr (evs, db')" "moved = (evs \<noteq> [])"
    using Inr step by (cases z) (simp add: enforcer_disconnect_block_def)
  show ?thesis
  proof (cases "diff_db (block_hashes db) h")
    case None
    with z reach show ?thesis by (simp add: disconnect_block_def)
  next
    case (Some d)
    obtain g gs where hs: "hs = g # gs"
      using history_tip [OF reach env] tip by (cases hs) auto
    then have "current_chain_tip db = Some g" using history_tip [OF reach env] by simp
    with z Some have "g = h" "moved"
      by (auto simp: disconnect_block_def Let_def split: if_splits sum.splits)
    with history_disconnect [OF reach [unfolded hs] env, of "[]"] z hs show ?thesis by auto
  qed
qed

text \<open>What the enforcer relies on: the blocks of \<open>S\<close> are ready whenever they connect, block hashes tell
  headers apart, and the history starts without a tip.\<close>

definition driver_ok :: "handler_env \<Rightarrow> block set \<Rightarrow> header set \<Rightarrow> dbs \<Rightarrow> bool" where
  "driver_ok E S H base \<longleftrightarrow> env_he E \<and> base_ok (he_handler E) base \<and> current_chain_tip base = None \<and>
     sound_blocks (he_btc E) (he_srt E) (he_ord E) (he_handler E) base S \<and> hash_distinct (he_btc E) H \<and>
     blk_header ` S \<subseteq> H \<and> headers_wf (he_btc E) (block_hashes base)"

lemma driver_okD:
  assumes "driver_ok E S H base"
  shows "env_he E" "base_ok (he_handler E) base" "current_chain_tip base = None"
    "sound_blocks (he_btc E) (he_srt E) (he_ord E) (he_handler E) base S" "hash_distinct (he_btc E) H"
    "b \<in> S \<Longrightarrow> blk_header b \<in> H" "headers_wf (he_btc E) (block_hashes base)"
  using assms unfolding driver_ok_def by blast+

lemma driver_reached:
  assumes "driver_ok E S H base" "reached E base hs db"
  shows "dbs_wf (he_handler E) db" "headers_wf (he_btc E) (block_hashes db)"
    "tip_or_zeros db = (case hs of [] \<Rightarrow> all_zeros | h # _ \<Rightarrow> h)"
proof -
  note D = driver_okD [OF assms(1)]
  show "dbs_wf (he_handler E) db" by (rule history_wf [OF assms(2) D(1,2)])
  show "headers_wf (he_btc E) (block_hashes db)"
    using history_tables [OF assms(2) D(1)] D(7) by (simp add: tables_grow_def)
  show "tip_or_zeros db = (case hs of [] \<Rightarrow> all_zeros | h # _ \<Rightarrow> h)"
    using history_tip [OF assms(2) D(1)] D(3) by (simp add: tip_or_zeros_def split: list.splits)
qed

lemma step_refines:
  assumes ok: "driver_ok E S H base" and reach: "reached E base hs db" and inH: "headers_in H (block_hashes db)"
    and dr: "driven E S (r # rs) db" and step: "enforcer_step E r db = (moved, db')"
  shows "reached E base (stack_step (he_btc E) (r, moved) hs) db' \<and> headers_in H (block_hashes db')"
proof (cases r)
  case (ReqConnect b)
  note D = driver_okD [OF ok]
  from dr ReqConnect have b: "b \<in> S" "height_db (block_hashes db) (hdr_prev_blockhash (blk_header b)) \<noteq> Some (- 1)"
    by simp_all
  show ?thesis unfolding ReqConnect
    by (rule connect_refines [OF D(1,4,5) D(6) [OF b(1)] b(1) reach D(2) driver_reached(2) [OF ok reach] inH b(2)
      step [unfolded ReqConnect]])
next
  case (ReqDisconnect h)
  with dr have tip: "current_chain_tip db \<noteq> None" by simp
  from disconnect_refines [OF driver_okD(1) [OF ok] reach driver_okD(3) [OF ok] tip step [unfolded ReqDisconnect]] inH
  show ?thesis by (simp add: ReqDisconnect)
next
  case (ReqAcceptTx tx)
  show ?thesis
  proof (cases "accept_tx E tx db")
    case (Inr z)
    obtain action where z: "accept_tx E tx db = Inr (action, db')" using Inr step ReqAcceptTx by (cases z) simp
    have "\<not> moved" using z step ReqAcceptTx by simp
    with accept_tx_grows [OF z] history.grow [OF reach accept_tx_grows(1) [OF z]] inH headers_in_cong
    show ?thesis by (simp add: ReqAcceptTx headers_in_def)
  qed (use step reach inH ReqAcceptTx in simp)
next
  case (ReqValidate b)
  have "db' = db \<and> \<not> moved"
    using step ReqValidate by (auto split: sum.splits dest: validate_block_leaves)
  then show ?thesis using reach inH by (simp add: ReqValidate)
qed

lemma run_refines:
  assumes ok: "driver_ok E S H base"
  shows "enforcer_run E rs db = (log, db') \<Longrightarrow> driven E S rs db \<Longrightarrow> reached E base hs db \<Longrightarrow>
    headers_in H (block_hashes db) \<Longrightarrow>
    reached E base (fold (stack_step (he_btc E)) log hs) db' \<and> headers_in H (block_hashes db')"
proof (induction rs arbitrary: db log hs)
  case (Cons r rs)
  obtain moved db1 where step: "enforcer_step E r db = (moved, db1)" by (cases "enforcer_step E r db")
  obtain log' where rest: "enforcer_run E rs db1 = (log', db')" "log = (r, moved) # log'"
    using Cons.prems(1) step by (auto split: prod.splits)
  note one = step_refines [OF ok Cons.prems(3,4,2) step]
  from Cons.IH [OF rest(1) _ conjunct1 [OF one] conjunct2 [OF one]] Cons.prems(2) step rest(2) show ?case by simp
qed simp

text \<open>C3: the enforcer is a stack of blocks. Under any sequence of requests, connecting pushes the accepted
  block, disconnecting pops the tip, and rejected or failed requests, validations and mempool
  transactions leave the stack: the tables are those of connecting the blocks on the stack, the
  invariant holds, and the tip is the top.\<close>

theorem enforcer_refines_stack:
  assumes "driver_ok E S H base" "reached E base hs db" "headers_in H (block_hashes db)"
    and "enforcer_run E rs db = (log, db')" "driven E S rs db"
  shows "let hs' = fold (stack_step (he_btc E)) log hs in
    reached E base hs' db' \<and> dbs_wf (he_handler E) db' \<and> tip_or_zeros db' = (case hs' of [] \<Rightarrow> all_zeros | h # _ \<Rightarrow> h)"
  using run_refines [OF assms(1,4,5,2,3)] driver_reached [OF assms(1)] unfolding Let_def by blast

section \<open>The life of a BMM request\<close>

definition seen_grow :: "dbs \<Rightarrow> dbs \<Rightarrow> bool" where
  "seen_grow db db' \<longleftrightarrow> (\<forall>k. seen_bmm_request_txs (block_hashes db) k \<subseteq> seen_bmm_request_txs (block_hashes db') k)"

lemma store_header_seen: "store_header B block db = Inr p \<Longrightarrow> seen_bmm_request_txs (block_hashes p) = seen_bmm_request_txs (block_hashes db)"
  by (auto simp: store_header_def put_header_def Let_def split: if_splits option.splits)

lemma connect_block_seen:
  assumes "connect_block B srt ord bh block db = Inr (ev, db')" "dbs_wf bh db" "block_ready B db block" "env_ok srt ord bh"
  shows "seen_bmm_request_txs (block_hashes db') = seen_bmm_request_txs (block_hashes db)"
proof (rule connect_block_Inr [OF assms])
  fix info db1 b
  assume "put_block_info B (block_hashes db) (b_block_hash B (blk_header block)) (pc_block_info info) (pc_diff info) = Inr b"
    "db' = db1\<lparr>block_hashes := b, current_chain_tip := Some (b_block_hash B (blk_header block))\<rparr>"
  then show ?thesis by (auto simp: put_block_info_def Let_def split: option.splits sum.splits if_splits)
qed

lemma step_seen:
  assumes ok: "driver_ok E S H base" and reach: "reached E base hs db" and inH: "headers_in H (block_hashes db)"
    and dr: "driven E S (r # rs) db" and step: "enforcer_step E r db = (moved, db')"
  shows "seen_grow db db'"
proof (cases r)
  case (ReqConnect b)
  note D = driver_okD [OF ok]
  from dr ReqConnect have b: "b \<in> S" "height_db (block_hashes db) (hdr_prev_blockhash (blk_header b)) \<noteq> Some (- 1)"
    by simp_all
  show ?thesis
  proof (cases "enforcer_connect_block E b db")
    case (Inr z)
    obtain action evs where z: "z = (action, evs, db')" using Inr step ReqConnect by (cases z) simp
    from Inr [unfolded enforcer_connect_block_def] show ?thesis
    proof (cases rule: with_mode_cases)
      case (accepted p ev c acc p')
      note g = store_header_grows [OF accepted(1) driver_reached(2) [OF ok reach] D(5) inH D(6) [OF b(1)] b(2)]
      have rp: "reached E base hs p" by (rule history.grow [OF reach g(1)])
      have ready: "block_ready (he_btc E) p b" using D(4) rp b(1) accepted(2) unfolding sound_blocks_def by blast
      have "db' = c" using accepted(3,4) z by (auto simp: ConnectBlockCommit_def)
      then show ?thesis
        using connect_block_seen [OF accepted(2) history_wf [OF rp D(1,2)] ready D(1)] store_header_seen [OF accepted(1)]
        by (simp add: seen_grow_def)
    qed (use z store_header_seen in \<open>auto simp: ConnectBlockCommit_def seen_grow_def\<close>)
  qed (use step ReqConnect in \<open>simp add: seen_grow_def\<close>)
next
  case (ReqDisconnect h)
  with dr have tip: "current_chain_tip db \<noteq> None" by simp
  from disconnect_refines [OF driver_okD(1) [OF ok] reach driver_okD(3) [OF ok] tip step [unfolded ReqDisconnect]]
  show ?thesis by (simp add: seen_grow_def)
next
  case (ReqAcceptTx tx)
  then show ?thesis using step
    by (auto simp: accept_tx_def accept_tx_with_payout_def Let_def seen_grow_def note_unconsolidated_def note_bmm_request_def
      put_seen_bmm_request_def split: sum.splits validated_tx.splits prod.splits option.splits)
next
  case (ReqValidate b)
  then show ?thesis using step by (auto simp: seen_grow_def split: sum.splits dest: validate_block_leaves)
qed

lemma run_seen:
  assumes ok: "driver_ok E S H base"
  shows "enforcer_run E rs db = (log, db') \<Longrightarrow> driven E S rs db \<Longrightarrow> reached E base hs db \<Longrightarrow>
    headers_in H (block_hashes db) \<Longrightarrow> seen_grow db db'"
proof (induction rs arbitrary: db log hs)
  case (Cons r rs)
  obtain moved db1 where step: "enforcer_step E r db = (moved, db1)" by (cases "enforcer_step E r db")
  obtain log' where rest: "enforcer_run E rs db1 = (log', db')"
    using Cons.prems(1) step by (auto split: prod.splits)
  note one = step_refines [OF ok Cons.prems(3,4,2) step]
  from Cons.IH [OF rest _ conjunct1 [OF one] conjunct2 [OF one]] Cons.prems(2) step
  have "seen_grow db1 db'" by simp
  with step_seen [OF ok Cons.prems(3,4,2) step] show ?case by (fastforce simp: seen_grow_def)
qed (simp add: seen_grow_def)

text \<open>An accepted BMM request is noted.\<close>

lemma accept_tx_notes:
  assumes "accept_tx E tx db = Inr (TxAccept conflicts weight, db')" "parse_m8_tx tx = Some r"
  shows "(b_compute_txid (he_btc E) tx, m8_sidechain_block_hash r) \<in>
      seen_bmm_request_txs (block_hashes db') (m8_prev_mainchain_block_hash r, m8_sidechain_number r)"
    "conflicts = fst ` seen_bmm_request_txs (block_hashes db) (m8_prev_mainchain_block_hash r, m8_sidechain_number r) -
      {b_compute_txid (he_btc E) tx}"
proof -
  let ?n = "note_bmm_request (b_compute_txid (he_btc E) tx) tx db"
  obtain uc where "db' = note_unconsolidated uc (snd (snd ?n))" "conflicts = fst ?n"
    using assms(1) by (auto simp: accept_tx_def accept_tx_with_payout_def Let_def
      split: sum.splits validated_tx.splits prod.splits)
  then show "(b_compute_txid (he_btc E) tx, m8_sidechain_block_hash r) \<in>
      seen_bmm_request_txs (block_hashes db') (m8_prev_mainchain_block_hash r, m8_sidechain_number r)"
    "conflicts = fst ` seen_bmm_request_txs (block_hashes db) (m8_prev_mainchain_block_hash r, m8_sidechain_number r) -
      {b_compute_txid (he_btc E) tx}"
    by (force simp: note_unconsolidated_def note_bmm_request_def put_seen_bmm_request_def get_seen_bmm_requests_def
      assms(2) Let_def)+
qed

text \<open>The transactions that leave the mempool with a block.\<close>

fun removed_by :: "handler_env \<Rightarrow> request \<Rightarrow> dbs \<Rightarrow> txid set option" where
  "removed_by E (ReqConnect b) db =
     (case enforcer_connect_block E b db of Inr (BlockAccept txs, _, _) \<Rightarrow> Some txs | _ \<Rightarrow> None)"
| "removed_by E (ReqDisconnect h) db =
     (case enforcer_disconnect_block E h db of Inr (txs, _, _) \<Rightarrow> Some txs | _ \<Rightarrow> None)"
| "removed_by E _ db = None"

fun concerns :: "request \<Rightarrow> blockhash \<Rightarrow> bool" where
  "concerns (ReqConnect b) parent = (hdr_prev_blockhash (blk_header b) = parent)"
| "concerns (ReqDisconnect h) parent = (h = parent)"
| "concerns _ parent = False"

lemma removed_by_all:
  assumes "removed_by E q db = Some removed" "enforcer_step E q db = (moved, db')" "concerns q parent"
    "(txid, c) \<in> seen_bmm_request_txs (block_hashes db') (parent, slot)"
  shows "txid \<in> removed"
proof (cases q)
  case (ReqConnect b)
  obtain evs where z: "enforcer_connect_block E b db = Inr (BlockAccept removed, evs, db')"
    using assms(1,2) ReqConnect by (auto split: sum.splits prod.splits connect_block_action.splits)
  from z [unfolded enforcer_connect_block_def] show ?thesis
  proof (cases rule: with_mode_cases)
    case (accepted p ev c acc p')
    then show ?thesis using assms(3,4) ReqConnect
      by (auto simp: ConnectBlockCommit_def bmm_request_txs_def get_seen_bmm_requests_for_parent_block_def)
  qed (simp_all add: ConnectBlockCommit_def)
next
  case (ReqDisconnect h)
  then show ?thesis using assms
    by (auto simp: enforcer_disconnect_block_def bmm_request_txs_def get_seen_bmm_requests_for_parent_block_def split: sum.splits)
qed (use assms(1) in simp_all)

text \<open>C30: an accepted BMM request is not forgotten. Whatever happens after it enters the mempool, it is
  removed with the next block on top of the block it refers to and when that block is disconnected,
  and it conflicts with every later request for the same sidechain and parent block.\<close>

theorem bmm_request_remembered:
  assumes "driver_ok E S H base" "reached E base hs db" "headers_in H (block_hashes db)"
    and "accept_tx E tx db = Inr (TxAccept conflicts weight, db1)" "parse_m8_tx tx = Some r"
    and "enforcer_run E rs db1 = (log, db2)" "driven E S (rs @ [q]) db1"
  shows "(concerns q (m8_prev_mainchain_block_hash r) \<longrightarrow> removed_by E q db2 = Some removed \<longrightarrow>
      b_compute_txid (he_btc E) tx \<in> removed) \<and>
    (\<forall>tx' r' conflicts' weight' db3. accept_tx E tx' db2 = Inr (TxAccept conflicts' weight', db3) \<longrightarrow>
      parse_m8_tx tx' = Some r' \<longrightarrow> m8_prev_mainchain_block_hash r' = m8_prev_mainchain_block_hash r \<longrightarrow>
      m8_sidechain_number r' = m8_sidechain_number r \<longrightarrow>
      b_compute_txid (he_btc E) tx \<in> conflicts' \<or> b_compute_txid (he_btc E) tx = b_compute_txid (he_btc E) tx')"
proof -
  let ?key = "(m8_prev_mainchain_block_hash r, m8_sidechain_number r)"
  have dr: "driven E S rs db1 \<and> driven E S [q] db2" using assms(6,7)
  proof (induction rs arbitrary: db1 log)
    case (Cons a rs)
    then show ?case by (cases "enforcer_step E a db1") (auto split: prod.splits)
  qed simp
  note g = accept_tx_grows [OF assms(4)]
  have reach1: "reached E base hs db1" by (rule history.grow [OF assms(2) g(1)])
  have in1: "headers_in H (block_hashes db1)" using assms(3) headers_in_cong [OF g(2,3)] by blast
  have "(b_compute_txid (he_btc E) tx, m8_sidechain_block_hash r) \<in> seen_bmm_request_txs (block_hashes db2) ?key"
    using accept_tx_notes(1) [OF assms(4,5)] run_seen [OF assms(1,6) conjunct1 [OF dr] reach1 in1] by (auto simp: seen_grow_def)
  moreover obtain moved db3 where q: "enforcer_step E q db2 = (moved, db3)" by (cases "enforcer_step E q db2")
  note refine = run_refines [OF assms(1,6) conjunct1 [OF dr] reach1 in1]
  have "seen_grow db2 db3" by (rule step_seen [OF assms(1) conjunct1 [OF refine] conjunct2 [OF refine] conjunct2 [OF dr] q])
  ultimately have seen: "(b_compute_txid (he_btc E) tx, m8_sidechain_block_hash r) \<in> seen_bmm_request_txs (block_hashes db2) ?key"
    "(b_compute_txid (he_btc E) tx, m8_sidechain_block_hash r) \<in> seen_bmm_request_txs (block_hashes db3) ?key"
    by (auto simp: seen_grow_def)
  show ?thesis
  proof (intro conjI impI allI)
    assume "concerns q (m8_prev_mainchain_block_hash r)" "removed_by E q db2 = Some removed"
    then show "b_compute_txid (he_btc E) tx \<in> removed" using removed_by_all [OF _ q _ seen(2)] by blast
  next
    fix tx' r' conflicts' weight' db3
    assume later: "accept_tx E tx' db2 = Inr (TxAccept conflicts' weight', db3)" "parse_m8_tx tx' = Some r'"
      "m8_prev_mainchain_block_hash r' = m8_prev_mainchain_block_hash r" "m8_sidechain_number r' = m8_sidechain_number r"
    show "b_compute_txid (he_btc E) tx \<in> conflicts' \<or> b_compute_txid (he_btc E) tx = b_compute_txid (he_btc E) tx'"
      using accept_tx_notes(2) [OF later(1,2)] seen(1) later(3,4) by force
  qed
qed

section \<open>A chain of one block\<close>

definition genesis_block :: block where
  "genesis_block = \<lparr>blk_header = fork_header 1 all_zeros, blk_txdata = [sample_coinbase]\<rparr>"

definition genesis_info :: partially_connected_block_info where
  "genesis_info = \<lparr>pc_header_info = \<lparr>hi_block_hash = pad32 [1], hi_prev_block_hash = all_zeros, hi_height = 0,
      hi_work = 1, hi_timestamp = 0\<rparr>,
    pc_block_info = fst (empty_block_info_and_diff (pad32 [0])), pc_diff = snd (empty_block_info_and_diff (pad32 [0])),
    pc_unconsolidated_ctips = uc_default\<rparr>"

definition one_block :: dbs where
  "one_block = new_dbs\<lparr>block_hashes := genesis_tables\<lparr>
      bmm_commitments_db := [pad32 [1] \<mapsto> []], coinbase_txid_db := [pad32 [1] \<mapsto> pad32 [0]],
      cumulative_work_db := [pad32 [1] \<mapsto> 1], events_db := [pad32 [1] \<mapsto> []],
      diff_db := [pad32 [1] \<mapsto> pc_diff genesis_info]\<rparr>,
    current_chain_tip := Some (pad32 [1])\<rparr>"

lemma late_he_simps [simp]:
  "he_btc late_he = sample_btc" "he_srt late_he = sort_by_votes" "he_ord late_he = id" "he_handler late_he = late_handler"
  by (simp_all add: late_he_def)

lemma genesis_stored: "store_header sample_btc genesis_block new_dbs = Inr new_dbs"
  by (simp add: store_header_def contains_header_def new_dbs_def dbs_empty_def genesis_headers genesis_block_def fork_header_def)

lemma genesis_connects:
  "connect_block sample_btc sort_by_votes id late_handler genesis_block new_dbs =
     Inr (ConnectBlock (pc_header_info genesis_info) (pc_block_info genesis_info), one_block)"
proof -
  have "partial_connect_block sample_btc sort_by_votes id late_handler genesis_block new_dbs = Inr (genesis_info, new_dbs)"
    by (simp add: partial_connect_block_def ensure_tip_is_parent_def new_dbs_def dbs_empty_def genesis_headers
        genesis_block_def fork_header_def Let_def late_handler_def genesis_info_def empty_block_info_and_diff_def
        sample_coinbase_def)
  moreover have "record_block sample_btc (pc_header_info genesis_info) (pc_block_info genesis_info) (pc_diff genesis_info) new_dbs =
      Inr (ConnectBlock (pc_header_info genesis_info) (pc_block_info genesis_info), one_block)"
    by (simp add: record_block_def put_block_info_def new_dbs_def dbs_empty_def genesis_headers genesis_info_def
        fork_header_def Let_def one_block_def empty_block_info_and_diff_def genesis_tables_def block_hash_dbs_empty_def)
  ultimately show ?thesis
    by (simp add: connect_block_def finalize_connect_block_def genesis_info_def uc_default_def)
qed

lemma genesis_sound: "sound_blocks sample_btc sort_by_votes id late_handler new_dbs {genesis_block}"
  unfolding sound_blocks_def
proof (intro allI impI)
  fix hs x b r
  assume h: "history sample_btc sort_by_votes id late_handler new_dbs hs x" and "b \<in> {genesis_block}"
    and con: "connect_block sample_btc sort_by_votes id late_handler b x = Inr r"
  then have b: "b = genesis_block" by simp
  have env: "env_ok sort_by_votes id late_handler" using sync_sourceD(1) [OF new_dbs_source] by simp
  note le = headers_leD [OF history_headers [OF h env]]
  have st: "header_db (block_hashes x) (pad32 [1]) = Some (fork_header 1 all_zeros)" "height_db (block_hashes x) (pad32 [1]) = Some 0"
    by (rule le; simp add: new_dbs_def genesis_headers)+
  from con obtain info db1 where p: "partial_connect_block sample_btc sort_by_votes id late_handler genesis_block x = Inr (info, db1)"
    unfolding b by (auto simp: connect_block_def split: sum.splits)
  have "dbs_wf late_handler x"
    using history_wf [OF h env] sync_sourceD(2) [OF new_dbs_source] by simp
  then have "next_height x = 0"
    using block_height_partial(4) [OF p]
    by (auto simp: ensure_tip_Inr genesis_block_def fork_header_def next_height_def dbs_wf_def)
  then show "block_ready sample_btc x b" unfolding b block_ready_def Let_def
    using st pad32_nonzero [of 1] by (simp add: genesis_block_def fork_header_def fresh_txs_def)
qed

lemma genesis_driver: "driver_ok late_he {genesis_block} {fork_header 1 all_zeros} new_dbs"
  using sync_sourceD(1,2,3) [OF new_dbs_source] genesis_sound genesis_wf pad32_nonzero [of 1]
  by (simp add: driver_ok_def hash_distinct_def genesis_block_def new_dbs_def fork_header_def)

lemma new_dbs_headers: "headers_in {fork_header 1 all_zeros} (block_hashes new_dbs)"
  by (auto simp: headers_in_def new_dbs_def genesis_headers)

lemma genesis_connect_step: "enforcer_step late_he (ReqConnect genesis_block) new_dbs = (True, one_block)"
  by (simp add: enforcer_connect_block_def connect_block_with_mode_def genesis_stored genesis_connects ConnectBlockCommit_def Let_def)

lemma genesis_driven: "driven late_he {genesis_block} [ReqConnect genesis_block, ReqDisconnect (pad32 [1])] new_dbs"
proof -
  have "current_chain_tip one_block = Some (pad32 [1])" by (simp add: one_block_def)
  moreover have "height_db (block_hashes new_dbs) k \<noteq> Some (- 1)" for k by (simp add: new_dbs_def genesis_headers)
  ultimately show ?thesis using genesis_connect_step by (simp del: enforcer_step.simps)
qed

lemma genesis_reached: "reached late_he new_dbs [pad32 [1]] one_block" "headers_in {fork_header 1 all_zeros} (block_hashes one_block)"
proof -
  have "stack_step (he_btc late_he) (ReqConnect genesis_block, True) [] = [pad32 [1]]"
    by (simp add: genesis_block_def fork_header_def)
  then show "reached late_he new_dbs [pad32 [1]] one_block" "headers_in {fork_header 1 all_zeros} (block_hashes one_block)"
    using step_refines [OF genesis_driver history.start new_dbs_headers genesis_driven genesis_connect_step] by simp_all
qed

lemma genesis_disconnect:
  obtains db where "enforcer_step late_he (ReqDisconnect (pad32 [1])) one_block = (True, db)"
    "\<exists>txs evs. enforcer_disconnect_block late_he (pad32 [1]) one_block = Inr (txs, evs, db)"
  using history_disconnect [OF genesis_reached(1) driver_okD(1) [OF genesis_driver], of "[]"]
  by (auto simp: enforcer_disconnect_block_def)

theorem enforcer_refines_stack_witness:
  "\<exists>db. enforcer_run late_he [ReqConnect genesis_block, ReqDisconnect (pad32 [1])] new_dbs =
     ([(ReqConnect genesis_block, True), (ReqDisconnect (pad32 [1]), True)], db) \<and>
     dbs_wf late_handler db \<and> tip_or_zeros db = all_zeros"
proof -
  obtain db where d: "enforcer_step late_he (ReqDisconnect (pad32 [1])) one_block = (True, db)" by (rule genesis_disconnect)
  have run: "enforcer_run late_he [ReqConnect genesis_block, ReqDisconnect (pad32 [1])] new_dbs =
     ([(ReqConnect genesis_block, True), (ReqDisconnect (pad32 [1]), True)], db)"
    using genesis_connect_step d by (simp del: enforcer_step.simps)
  from enforcer_refines_stack [OF genesis_driver history.start new_dbs_headers run genesis_driven] run
  show ?thesis by (simp add: Let_def)
qed

definition sample_m8_tx :: transaction where
  "sample_m8_tx = \<lparr>tx_version = 2, tx_lock_time = 9, tx_input = [],
     tx_output = [\<lparr>to_value = 0, to_script_pubkey = [OP_RETURN, 68] @ M8_TAG @ [7] @ replicate 32 1 @ pad32 [1]\<rparr>]\<rparr>"

lemma sample_m8_parse: "parse_m8_tx sample_m8_tx = Some \<lparr>m8_sidechain_number = 7, m8_sidechain_block_hash = replicate 32 1,
    m8_prev_mainchain_block_hash = pad32 [1]\<rparr>"
proof -
  have "m8_parse ([OP_RETURN, 68] @ M8_TAG @ [7] @ replicate 32 1 @ pad32 [1]) = Inr ([], \<lparr>m8_sidechain_number = 7,
      m8_sidechain_block_hash = replicate 32 1, m8_prev_mainchain_block_hash = pad32 [1]\<rparr>)"
    unfolding m8_parse_Inr by (simp add: M8_BMM_REQUEST_LENGTH_def)
  then show ?thesis unfolding parse_m8_tx_def sample_m8_tx_def by (simp del: append_Cons append_Nil)
qed

lemma sample_m8_accepted: "\<exists>db. accept_tx late_he sample_m8_tx one_block = Inr (TxAccept {} 192, db)"
proof -
  obtain out where outs: "tx_output sample_m8_tx = [out]" "tx_input sample_m8_tx = []"
    and nd: "\<And>od. \<exists>e. drivechain_parse od (to_script_pubkey out) = Inl e"
    by (simp add: sample_m8_tx_def drivechain_parse_def p_tag_def)
  have fill: "fill_ctips sample_btc bh db uc sample_m8_tx = Inr []" for bh db uc
    using nd [of "np_op_drivechain (bh_params bh)"] by (auto simp: fill_ctips_def outs)
  have "handle_transaction sample_btc id bh db None uc (pad32 [1]) sample_m8_tx = Inr (None, uc)" for bh db uc
    by (simp add: handle_transaction_def handle_m5_m6_def fill handle_m8_def sample_m8_parse tx_result_def)
  moreover have "current_chain_tip one_block = Some (pad32 [1])" "height_db (block_hashes one_block) (pad32 [1]) = Some 0"
    by (simp_all add: one_block_def genesis_tables_def)
  ultimately have v: "validate_tx sample_btc id late_handler one_block sample_m8_tx = Inr VValid"
    by (simp add: validate_tx_def)
  have count: "treasury_output_count od sample_m8_tx = 0" for od
    using nd [of od] by (auto simp: treasury_output_count_def outs)
  have "seen_bmm_request_txs (block_hashes one_block) k = {}" for k
    by (simp add: one_block_def genesis_tables_def block_hash_dbs_empty_def)
  then show ?thesis
    by (simp add: accept_tx_def accept_tx_with_payout_def v note_bmm_request_def sample_m8_parse count Let_def
      get_seen_bmm_requests_def BMM_ACCEPT_OUTPUT_WEIGHT_def)
qed

theorem bmm_request_remembered_witness:
  "\<exists>conflicts weight db removed. accept_tx late_he sample_m8_tx one_block = Inr (TxAccept conflicts weight, db) \<and>
     removed_by late_he (ReqDisconnect (pad32 [1])) db = Some removed \<and> pad32 [9] \<in> removed"
proof -
  obtain db where acc: "accept_tx late_he sample_m8_tx one_block = Inr (TxAccept {} 192, db)" using sample_m8_accepted by blast
  note g = accept_tx_grows [OF acc]
  have reach: "reached late_he new_dbs [pad32 [1]] db" by (rule history.grow [OF genesis_reached(1) g(1)])
  then have dr: "driven late_he {genesis_block} ([] @ [ReqDisconnect (pad32 [1])]) db"
    using history_tip [OF reach driver_okD(1) [OF genesis_driver]] by simp
  from history_disconnect [OF reach driver_okD(1) [OF genesis_driver], of "[]"] obtain removed where
    r: "removed_by late_he (ReqDisconnect (pad32 [1])) db = Some removed" by (auto simp: enforcer_disconnect_block_def)
  from bmm_request_remembered [OF genesis_driver genesis_reached acc sample_m8_parse _ dr, of "[]" db removed] r
  have "pad32 [9] \<in> removed" by (simp add: sample_m8_tx_def)
  with acc r show ?thesis by blast
qed

end
