(* ===== verification/Producer.thy ===== *)
theory Producer
  imports Enforcer "HOL-Library.List_Lexorder" "HOL-Library.Product_Lexorder" "HOL-Library.Sublist"
begin

text \<open>
  The messages and transactions of a new block (\<open>block_producer/coinbase.rs\<close>): which sidechain
  proposal, acknowledgements, withdrawal bundle and votes go into the coinbase, and the payouts and
  consolidations behind the other transactions. The rows of the SQLite database are arguments, as are
  the sidechain proposals \<open>get_sidechains\<close> reads, in the order of their keys, and the order in which
  a \<open>HashMap\<close> is iterated. A read that fails ends the construction of the block before it changes
  anything and is not modelled.
\<close>

section \<open>Reading the validator\<close>

text \<open>\<open>Iterator::min_by_key\<close>: the first of the least elements.\<close>

fun min_by_key :: "('a \<Rightarrow> 'k :: linorder) \<Rightarrow> 'a list \<Rightarrow> 'a option" where
  "min_by_key f [] = None"
| "min_by_key f (x # xs) =
     (case min_by_key f xs of None \<Rightarrow> Some x | Some y \<Rightarrow> Some (if f y < f x then y else x))"

lemma min_by_key_None: "min_by_key f xs = None \<longleftrightarrow> xs = []"
  by (cases xs) (auto split: option.splits)

lemma min_by_key_Some:
  "min_by_key f xs = Some x \<Longrightarrow> x \<in> set xs \<and> (\<forall>y\<in>set xs. f x \<le> f y)"
proof (induction xs arbitrary: x)
  case (Cons a xs)
  show ?case
  proof (cases "min_by_key f xs")
    case None
    with Cons.prems show ?thesis by (simp add: min_by_key_None)
  next
    case (Some y)
    with Cons.IH [OF Some] Cons.prems show ?thesis by (fastforce split: if_splits)
  qed
qed simp

text \<open>\<open>get_active_sidechains\<close> asserts that every active sidechain has an activation height.\<close>

definition get_active_sidechains :: "dbs \<Rightarrow> fault + sidechain list" where
  "get_active_sidechains db =
     (let scs = map (\<lambda>n. the (sidechain_db (active_sidechains db) n)) (numbers (active_sidechains db)) in
      if list_ex (\<lambda>sc. st_activation_height (sc_status sc) = None) scs then Inl Panic else Inr scs)"

definition get_pending_withdrawals :: "dbs \<Rightarrow> sidechain_number \<Rightarrow> fault + pending_m6ids" where
  "get_pending_withdrawals db n =
     (case pending_m6ids_db (active_sidechains db) n of None \<Rightarrow> Inl MissingValue | Some p \<Rightarrow> Inr p)"

section \<open>Bundle proposals\<close>

type_synonym bundle_proposals = "(m6id \<times> blinded_m6 \<times> pending_m6id_info option) list"

fun get_bundle_proposals :: "dbs \<Rightarrow> sidechain_number set \<Rightarrow> (sidechain_number \<times> (m6id \<times> blinded_m6) list) list \<Rightarrow>
    fault + (sidechain_number \<times> bundle_proposals) list" where
  "get_bundle_proposals db used [] = Inr []"
| "get_bundle_proposals db used ((sidechain_id, m6ids) # rest) =
     (if sidechain_id \<notin> used then get_bundle_proposals db used rest
      else case get_pending_withdrawals db sidechain_id of
        Inl e \<Rightarrow> Inl e
      | Inr pending_m6ids \<Rightarrow>
     (let res = map (\<lambda>(m6id, blinded_m6). (m6id, blinded_m6, map_of pending_m6ids m6id)) m6ids in
      case get_bundle_proposals db used rest of
        Inl e \<Rightarrow> Inl e
      | Inr others \<Rightarrow> Inr (if res = [] then others else (sidechain_id, res) # others)))"

definition used_slots :: "sidechain list \<Rightarrow> sidechain_number set" where
  "used_slots scs = set (map (\<lambda>sc. prop_sidechain_number (sc_proposal sc)) scs)"

definition select_bundle_proposal :: "(sidechain_number \<times> bundle_proposals) list \<Rightarrow>
    (sidechain_number \<times> m6id) option" where
  "select_bundle_proposal bundle_proposals =
     min_by_key (\<lambda>x. x) (concat (map (\<lambda>(n, m6ids).
       map (\<lambda>(m6id, _, _). (n, m6id)) (filter (\<lambda>(_, _, info). info = None) m6ids)) bundle_proposals))"

section \<open>Proposals and acknowledgements\<close>

text \<open>\<open>collect\<close> into a map: of several proposals for a slot the last stays.\<close>

definition get_active_sidechain_proposals :: "(sidechain_proposal_id \<times> sidechain) list \<Rightarrow>
    (sidechain_number \<times> sidechain_proposal) list" where
  "get_active_sidechain_proposals sidechains =
     fold (\<lambda>(_, sc). om_insert (prop_sidechain_number (sc_proposal sc)) (sc_proposal sc)) sidechains []"

definition validate_sidechain_ack :: "btc \<Rightarrow> (sidechain_number \<times> sidechain_proposal) list \<Rightarrow> sidechain_ack \<Rightarrow> bool" where
  "validate_sidechain_ack B pending_proposals ack =
     (case map_of pending_proposals (ack_sidechain_number ack) of
        None \<Rightarrow> False
      | Some p \<Rightarrow> sha256d_hash B (prop_description p) = ack_description_hash ack)"

definition m2s_may_activate_unused_slot :: "thresholds \<Rightarrow> (sidechain_proposal_id \<times> sidechain) list \<Rightarrow>
    coinbase_messages \<Rightarrow> sidechain_number set \<Rightarrow> u32 \<Rightarrow> bool" where
  "m2s_may_activate_unused_slot thresholds sidechains msgs used height =
     (m2_ack_slots msgs \<noteq> {} \<and>
     (let unused_slot_acks = {\<lparr>id_sidechain_number = m2_sidechain_number m2,
              id_description_hash = m2_description_hash m2\<rparr> | m2.
            M2AckSidechain m2 \<in> set (map fst (cm_messages msgs)) \<and> m2_sidechain_number m2 \<notin> used}
      in unused_slot_acks \<noteq> {} \<and>
         list_ex (\<lambda>(proposal_id, sc).
           proposal_id \<in> unused_slot_acks \<and>
           activates_unused_slot thresholds
             (if sc_votes sc = 0xFFFF then 0xFFFF else sc_votes sc + 1)
             (saturating_sub height (st_proposal_height (sc_status sc)))) sidechains))"

definition select_sidechain_acks :: "btc \<Rightarrow> sidechain_ack list \<Rightarrow> (sidechain_number \<times> sidechain_proposal) list \<Rightarrow>
    sidechain_number set \<Rightarrow> ack_all_proposals_policy \<Rightarrow> sidechain_ack list \<times> sidechain_ack list" where
  "select_sidechain_acks B stored_acks pending_proposals used policy =
     (fold (\<lambda>(n, proposal) acks.
          if \<not> auto_acks policy (n \<in> used) \<or> list_ex (\<lambda>ack. ack_sidechain_number ack = n) acks then acks
          else acks @ [\<lparr>ack_sidechain_number = n,
            ack_description_hash = sha256d_hash B (prop_description proposal)\<rparr>])
        pending_proposals (filter (validate_sidechain_ack B pending_proposals) stored_acks),
      filter (\<lambda>ack. \<not> validate_sidechain_ack B pending_proposals ack) stored_acks)"

definition select_sidechain_proposal :: "btc \<Rightarrow> sidechain_proposal list \<Rightarrow> sidechain_proposal_id set \<Rightarrow>
    sidechain_proposal option" where
  "select_sidechain_proposal B queued proposed =
     min_by_key (\<lambda>p. (id_sidechain_number (compute_id B p), id_description_hash (compute_id B p)))
       (filter (\<lambda>p. compute_id B p \<notin> proposed) queued)"

section \<open>Votes on bundles\<close>

fun select_bundle_votes :: "dbs \<Rightarrow> (sidechain_number \<times> m6id) list \<Rightarrow> (sidechain_number \<times> bundle_proposals) list \<Rightarrow>
    withdrawal_bundle_policy \<Rightarrow> sidechain list \<Rightarrow> fault + withdrawal_bundle_vote list" where
  "select_bundle_votes db stored_bundle_acks bundle_proposals policy [] = Inr []"
| "select_bundle_votes db stored_bundle_acks bundle_proposals policy (sidechain # rest) =
     (let slot = prop_sidechain_number (sc_proposal sidechain) in
      case get_pending_withdrawals db slot of
        Inl e \<Rightarrow> Inl e
      | Inr pending \<Rightarrow>
     (case select_bundle_votes db stored_bundle_acks bundle_proposals policy rest of
        Inl e \<Rightarrow> Inl e
      | Inr votes \<Rightarrow>
          Inr (resolve policy (map fst pending) {m. (slot, m) \<in> set stored_bundle_acks}
            (set (map fst (case map_of bundle_proposals slot of Some ps \<Rightarrow> ps | None \<Rightarrow> []))) # votes)))"

section \<open>The coinbase\<close>

record policy_rows =
  rows_proposals :: "sidechain_proposal list"
  rows_acks :: "sidechain_ack list"
  rows_bundles :: "(sidechain_number \<times> (m6id \<times> blinded_m6) list) list"
  rows_bundle_acks :: "(sidechain_number \<times> m6id) list"

datatype generate_coinbase_error =
    GC_HeaderInfo get_header_info_error
  | GC_CoinbaseMessages coinbase_messages_error
  | GC_PushBytes push_bytes_error
  | GC_Validator fault

fun ack_loop :: "sidechain_ack list \<Rightarrow> coinbase_builder \<Rightarrow> coinbase_messages_error + coinbase_builder" where
  "ack_loop [] cb = Inr cb"
| "ack_loop (ack # acks) cb =
     (if m2_ack_slot_vout (cb_messages cb) (ack_sidechain_number ack) \<noteq> None then ack_loop acks cb
      else case ack_sidechain cb (ack_sidechain_number ack) (ack_description_hash ack) of
        Inl e \<Rightarrow> Inl e
      | Inr cb \<Rightarrow> ack_loop acks cb)"

definition extend_coinbase_txouts :: "btc \<Rightarrow> network_params \<Rightarrow> dbs \<Rightarrow> (sidechain_proposal_id \<times> sidechain) list \<Rightarrow>
    policy_rows \<Rightarrow> ack_all_proposals_policy \<Rightarrow> withdrawal_bundle_policy \<Rightarrow> blockhash \<Rightarrow> txout list \<Rightarrow>
    generate_coinbase_error + txout list" where
  "extend_coinbase_txouts B params db sidechains rows ack_policy bundle_policy mainchain_tip coinbase_txouts =
     (case get_header_info B (block_hashes db) mainchain_tip of
        Inl e \<Rightarrow> Inl (GC_HeaderInfo e)
      | Inr hi \<Rightarrow>
     (let height = (if hi_height hi = 0xFFFFFFFF then 0xFFFFFFFF else hi_height hi + 1) in
      if height < bip300_activation_height params then Inr coinbase_txouts
      else case coinbase_builder_new B coinbase_txouts of
        Inl e \<Rightarrow> Inl (GC_CoinbaseMessages e)
      | Inr cb \<Rightarrow>
     (case (case select_sidechain_proposal B (rows_proposals rows) (set (map fst sidechains)) of
              Some p \<Rightarrow> propose_sidechain cb p
            | None \<Rightarrow> Inr cb) of
        Inl e \<Rightarrow> Inl (GC_CoinbaseMessages e)
      | Inr cb \<Rightarrow>
     (case get_active_sidechains db of
        Inl e \<Rightarrow> Inl (GC_Validator e)
      | Inr active \<Rightarrow>
     (let used = used_slots active;
          (acks, _) = select_sidechain_acks B (rows_acks rows) (get_active_sidechain_proposals sidechains) used ack_policy
      in case ack_loop acks cb of
        Inl e \<Rightarrow> Inl (GC_CoinbaseMessages e)
      | Inr cb \<Rightarrow>
     (case get_bundle_proposals db used (rows_bundles rows) of
        Inl e \<Rightarrow> Inl (GC_Validator e)
      | Inr bundle_proposals \<Rightarrow>
     (case (if m3_exists (cb_messages cb) then Inr cb
            else case select_bundle_proposal bundle_proposals of
              Some (n, m) \<Rightarrow> propose_bundle cb n m
            | None \<Rightarrow> Inr cb) of
        Inl e \<Rightarrow> Inl (GC_CoinbaseMessages e)
      | Inr cb \<Rightarrow>
     (case select_bundle_votes db (rows_bundle_acks rows) bundle_proposals bundle_policy active of
        Inl e \<Rightarrow> Inl (GC_Validator e)
      | Inr votes \<Rightarrow>
     (case (if list_ex (\<lambda>v. v \<noteq> Abstain) votes \<and>
               \<not> m2s_may_activate_unused_slot (np_thresholds params) sidechains (cb_messages cb) used height
            then ack_bundles cb (from_votes votes) else Inr cb) of
        Inl e \<Rightarrow> Inl (GC_CoinbaseMessages e)
      | Inr cb \<Rightarrow>
          (case build B cb of Inl e \<Rightarrow> Inl (GC_PushBytes e) | Inr outs \<Rightarrow> Inr outs))))))))))"

section \<open>Payouts and consolidation\<close>

definition new_treasury_value :: "amount \<Rightarrow> amount \<Rightarrow> amount \<Rightarrow> amount option" where
  "new_treasury_value value fee payout =
     (case checked_sub value fee of None \<Rightarrow> None | Some v \<Rightarrow> checked_sub v payout)"

text \<open>The sums of amounts panic when they overflow.\<close>

definition finalize_m6 :: "btc \<Rightarrow> op_drivechain \<Rightarrow> sidechain_number \<Rightarrow> ctip \<Rightarrow> ctip list \<Rightarrow> blinded_m6 \<Rightarrow>
    into_m6_error + transaction \<times> ctip" where
  "finalize_m6 B od sidechain_id consolidated unconsolidated bm =
     (case checked_sum_from (ctip_value consolidated) (map ctip_value unconsolidated) of
        None \<Rightarrow> Inl IntoM6Panic
      | Some treasury_value_in \<Rightarrow>
     (case new_treasury_value treasury_value_in (bm_fee bm) (bm_payout bm) of
        None \<Rightarrow> Inl AmountUnderflow
      | Some new_value \<Rightarrow>
     (case into_m6 bm od sidechain_id consolidated unconsolidated of
        Inl e \<Rightarrow> Inl e
      | Inr m6 \<Rightarrow> Inr (m6, \<lparr>ctip_outpoint = \<lparr>op_txid = b_compute_txid B m6, op_vout = 0\<rparr>, ctip_value = new_value\<rparr>))))"

fun pay_bundles :: "btc \<Rightarrow> network_params \<Rightarrow> sidechain_number \<Rightarrow> bundle_proposals \<Rightarrow> ctips \<Rightarrow>
    fault + transaction list \<times> ctips" where
  "pay_bundles B params sidechain_id [] ctips = Inr ([], ctips)"
| "pay_bundles B params sidechain_id ((m6id, bm, None) # rest) ctips = pay_bundles B params sidechain_id rest ctips"
| "pay_bundles B params sidechain_id ((m6id, bm, Some info) # rest) ctips =
     (if pi_vote_count info \<le> withdrawal_bundle_inclusion_threshold (np_thresholds params)
      then pay_bundles B params sidechain_id rest ctips
      else case ctips_consolidated ctips sidechain_id of
        None \<Rightarrow> Inr ([], ctips)
      | Some consolidated \<Rightarrow>
     (let unconsolidated = (case uc_get_by_sidechain (ctips_unconsolidated ctips) sidechain_id of
            Some cs \<Rightarrow> cs | None \<Rightarrow> [])
      in case finalize_m6 B (np_op_drivechain params) sidechain_id consolidated unconsolidated bm of
        Inl IntoM6Panic \<Rightarrow> Inl Panic
      | Inl AmountUnderflow \<Rightarrow> pay_bundles B params sidechain_id rest ctips
      | Inr (m6, successor) \<Rightarrow>
     (case pay_bundles B params sidechain_id rest
             (ctips\<lparr>ctips_unconsolidated := snd (uc_remove_sidechain sidechain_id (ctips_unconsolidated ctips)),
                ctips_consolidated := (ctips_consolidated ctips)(sidechain_id \<mapsto> successor)\<rparr>) of
        Inl e \<Rightarrow> Inl e
      | Inr (txs, ctips) \<Rightarrow> Inr (m6 # txs, ctips))))"

fun pay_sidechains :: "btc \<Rightarrow> network_params \<Rightarrow> (sidechain_number \<times> bundle_proposals) list \<Rightarrow> ctips \<Rightarrow>
    fault + transaction list \<times> ctips" where
  "pay_sidechains B params [] ctips = Inr ([], ctips)"
| "pay_sidechains B params ((sidechain_id, m6ids) # rest) ctips =
     (case pay_bundles B params sidechain_id m6ids ctips of
        Inl e \<Rightarrow> Inl e
      | Inr (txs, ctips) \<Rightarrow>
     (case pay_sidechains B params rest ctips of
        Inl e \<Rightarrow> Inl e
      | Inr (txs', ctips) \<Rightarrow> Inr (txs @ txs', ctips)))"

text \<open>The inputs and the outputs of the consolidation; \<open>slots\<close> is the order of the map.\<close>

fun consolidation_parts :: "op_drivechain \<Rightarrow> ctips \<Rightarrow> sidechain_number list \<Rightarrow> fault + txin list \<times> txout list" where
  "consolidation_parts od ctips [] = Inr ([], [])"
| "consolidation_parts od ctips (n # slots) =
     (let cs = (case ctips_consolidated ctips n of Some c \<Rightarrow> [c] | None \<Rightarrow> []) @
            (case by_sidechain (ctips_unconsolidated ctips) n of Some cs \<Rightarrow> cs | None \<Rightarrow> [])
      in case checked_sum_from 0 (map ctip_value cs) of
        None \<Rightarrow> Inl Panic
      | Some value_out \<Rightarrow>
     (case consolidation_parts od ctips slots of
        Inl e \<Rightarrow> Inl e
      | Inr (ins, outs) \<Rightarrow>
          Inr (map (\<lambda>c. default_txin (ctip_outpoint c)) cs @ ins, create_m5_deposit_output od n value_out # outs)))"

definition uc_slots :: "unconsolidated_ctips \<Rightarrow> sidechain_number list" where
  "uc_slots uc = filter (\<lambda>n. by_sidechain uc n \<noteq> None) all_slots"

definition suffix_txs_for_proposals :: "btc \<Rightarrow> (sidechain_number list \<Rightarrow> sidechain_number list) \<Rightarrow> network_params \<Rightarrow>
    (sidechain_number \<times> bundle_proposals) list \<Rightarrow> ctips \<Rightarrow> fault + transaction list" where
  "suffix_txs_for_proposals B hash_order params bundle_proposals ctips =
     (case pay_sidechains B params bundle_proposals ctips of
        Inl e \<Rightarrow> Inl e
      | Inr (res, ctips) \<Rightarrow>
          if uc_is_empty (ctips_unconsolidated ctips) then Inr res
          else (case consolidation_parts (np_op_drivechain params) ctips (hash_order (uc_slots (ctips_unconsolidated ctips))) of
            Inl e \<Rightarrow> Inl e
          | Inr (ins, outs) \<Rightarrow>
              Inr (res @ [\<lparr>tx_version = 2, tx_lock_time = 0, tx_input = ins, tx_output = outs\<rparr>])))"

text \<open>Bundles that the transactions before the suffix settle, or that the block votes down, are not paid.\<close>

definition still_payable :: "thresholds \<Rightarrow> (sidechain_number \<Rightarrow> pending_m6ids option) \<Rightarrow> sidechain_number \<Rightarrow> m6id \<Rightarrow> bool" where
  "still_payable thresholds pending_withdrawals sidechain_id m6id =
     (case Option.bind (pending_withdrawals sidechain_id) (\<lambda>pending. map_of pending m6id) of
        None \<Rightarrow> False
      | Some after \<Rightarrow> pi_vote_count after > withdrawal_bundle_inclusion_threshold thresholds)"

definition generate_suffix_txs :: "btc \<Rightarrow> (sidechain_number list \<Rightarrow> sidechain_number list) \<Rightarrow> network_params \<Rightarrow> dbs \<Rightarrow>
    policy_rows \<Rightarrow> ctips \<Rightarrow> (sidechain_number \<Rightarrow> pending_m6ids option) option \<Rightarrow> fault + transaction list" where
  "generate_suffix_txs B hash_order params db rows ctips pending_withdrawals =
     (case get_active_sidechains db of
        Inl e \<Rightarrow> Inl e
      | Inr active \<Rightarrow>
     (case get_bundle_proposals db (used_slots active) (rows_bundles rows) of
        Inl e \<Rightarrow> Inl e
      | Inr bundle_proposals \<Rightarrow>
          suffix_txs_for_proposals B hash_order params
            (case pending_withdrawals of
               None \<Rightarrow> bundle_proposals
             | Some pending \<Rightarrow> map (\<lambda>(n, ps). (n, map (\<lambda>(m, bm, info).
                 (m, bm, if still_payable (np_thresholds params) pending n m then info else None)) ps)) bundle_proposals)
            ctips))"

section \<open>Messages that are handled apply\<close>

lemma message_applies:
  assumes wf: "mid_wf bh h S db" and srt: "votes_sort srt"
    and m: "handle_coinbase_message B srt bh db h prev acc m = Inr (ev, Some d, acc')"
  shows "\<exists>db1. apply_coinbase_msg h d db = Inr db1"
proof (cases m)
  case (M2AckSidechain m2)
  with m obtain x where x: "handle_m2_ack_sidechain bh db h (m2_sidechain_number m2) (m2_description_hash m2) = Some x"
    "d = DAckSidechainProposal x" by auto
  from handle_m2_Some(1) [OF x(1)] show ?thesis by (auto simp: x(2) apply_ack_sidechain_proposal_def Let_def)
next
  case (M3ProposeBundle m3)
  with m obtain x where "handle_m3_propose_bundle db (m3_sidechain_number m3) (m3_bundle_txid m3) = Inr x" "d = DProposeBundle x"
    by (auto split: sum.splits)
  then have "ok_msg d db" using handle_m3_ok by blast
  then show ?thesis using msg.undo_apply by blast
next
  case (M4AckBundles m4)
  with m obtain x where x: "handle_m4_ack_bundles srt db prev m4 = Inr x" "d = DAckBundles x"
    by (auto split: sum.splits if_splits)
  have "ok_slots ok_action x (active_sidechains db)"
    using handle_m4_ok [OF srt _ _ x(1)] wf by (auto simp: mid_wf_def active_wf_def)
  then show ?thesis using ack_bundles.undo_apply x(2) by (fastforce simp: with_active_def)
qed (use m in \<open>auto simp: Let_def split: option.splits if_splits\<close>)

lemma messages_loop_append:
  "messages_loop B srt bh h prev m1s (ms @ ms') acc db =
     (case messages_loop B srt bh h prev m1s ms acc db of
        Inl e \<Rightarrow> Inl e
      | Inr (acc, evs, ds, db) \<Rightarrow>
          (case messages_loop B srt bh h prev m1s ms' acc db of
             Inl e \<Rightarrow> Inl e
           | Inr (acc, evs', ds', db) \<Rightarrow> Inr (acc, evs @ evs', ds @ ds', db)))"
  by (induction ms arbitrary: acc db) (auto split: sum.splits prod.splits option.splits)

text \<open>What acknowledgements leave: active slots stay active with their bundles; without an activation of an
  unused slot no slot becomes active.\<close>

definition slots_same :: "active_dbs \<Rightarrow> active_dbs \<Rightarrow> bool" where
  "slots_same a a' \<longleftrightarrow> (\<forall>n. sidechain_db a n \<noteq> None \<longrightarrow> sidechain_db a' n \<noteq> None \<and>
     pending_m6ids_db a' n = pending_m6ids_db a n)"

definition slots_keep :: "active_dbs \<Rightarrow> active_dbs \<Rightarrow> bool" where
  "slots_keep a a' \<longleftrightarrow> (\<forall>n. sidechain_db a n \<noteq> None \<longrightarrow> sidechain_db a' n \<noteq> None \<and>
     (\<exists>ext. pending_m6ids_db a' n = Some (the (pending_m6ids_db a n) @ ext)))"

definition stays_unused :: "thresholds \<Rightarrow> u32 \<Rightarrow> dbs \<Rightarrow> sidechain_number \<Rightarrow> hash256 \<Rightarrow> bool" where
  "stays_unused t h db n dh \<longleftrightarrow> sidechain_db (active_sidechains db) n \<noteq> None \<or>
     (\<forall>sc. proposal_id_to_sidechain db \<lparr>id_sidechain_number = n, id_description_hash = dh\<rparr> = Some sc \<longrightarrow>
        h \<noteq> st_proposal_height (sc_status sc) \<longrightarrow>
        \<not> activates_unused_slot t (sc_votes sc + 1) (saturating_sub h (st_proposal_height (sc_status sc))))"

abbreviation m2_of :: "sidechain_ack \<Rightarrow> coinbase_message" where
  "m2_of a \<equiv> M2AckSidechain \<lparr>m2_sidechain_number = ack_sidechain_number a, m2_description_hash = ack_description_hash a\<rparr>"

lemma m2_one:
  assumes m2: "handle_m2_ack_sidechain bh db h n dh = Some d" and wf: "pending_wf (active_sidechains db)"
    and app: "apply_ack_sidechain_proposal d h db = Inr db1"
  shows "slots_same (active_sidechains db) (active_sidechains db1)"
    "stays_unused (bh_thresholds bh) h db n dh \<Longrightarrow>
       dom (sidechain_db (active_sidechains db1)) = dom (sidechain_db (active_sidechains db))"
    "pid \<noteq> \<lparr>id_sidechain_number = n, id_description_hash = dh\<rparr> \<Longrightarrow>
       proposal_id_to_sidechain db1 pid = proposal_id_to_sidechain db pid"
proof -
  from handle_m2_Some [OF m2] obtain sc where sc: "proposal_id_to_sidechain db (asp_id d) = Some sc"
    "h \<noteq> st_proposal_height (sc_status sc)" and pid: "asp_id d = \<lparr>id_sidechain_number = n, id_description_hash = dh\<rparr>" by auto
  have keep: "pending_m6ids_db (active_sidechains db) k \<noteq> None \<Longrightarrow>
      pending_m6ids_db (active_sidechains db1) k = pending_m6ids_db (active_sidechains db) k" for k
    using app sc by (auto simp: apply_ack_sidechain_proposal_def Let_def put_sidechain_def put_proposal_def split: if_splits)
  have sdb: "sidechain_db (active_sidechains db1) = (if asp_effect d = NoActivation then sidechain_db (active_sidechains db)
    else (sidechain_db (active_sidechains db))(n := Some (set_activation_height (Some h) (set_vote_count (sc_votes sc + 1) sc))))"
    using ack_sidechain_db [OF app sc(1)] pid by simp
  show "slots_same (active_sidechains db) (active_sidechains db1)"
    unfolding slots_same_def
  proof (intro allI impI conjI)
    fix k
    assume k: "sidechain_db (active_sidechains db) k \<noteq> None"
    then show "sidechain_db (active_sidechains db1) k \<noteq> None" by (simp add: sdb)
    have "pending_m6ids_db (active_sidechains db) k \<noteq> None" using k wf by (simp add: pending_wf_def)
    then show "pending_m6ids_db (active_sidechains db1) k = pending_m6ids_db (active_sidechains db) k" by (rule keep)
  qed
  show "dom (sidechain_db (active_sidechains db1)) = dom (sidechain_db (active_sidechains db))"
    if un: "stays_unused (bh_thresholds bh) h db n dh"
  proof (cases "sidechain_db (active_sidechains db) n")
    case None
    with un sc pid m2 have "asp_effect d = NoActivation"
      by (auto simp: stays_unused_def handle_m2_ack_sidechain_def Let_def split: if_splits)
    then show ?thesis by (simp add: sdb)
  next
    case (Some y)
    then show ?thesis by (auto simp: sdb)
  qed
  show "proposal_id_to_sidechain db1 pid = proposal_id_to_sidechain db pid"
    if "pid \<noteq> \<lparr>id_sidechain_number = n, id_description_hash = dh\<rparr>"
    using app sc that pid by (auto simp: apply_ack_sidechain_proposal_def Let_def put_proposal_def split: if_splits)
qed

lemma slots_same_refl: "slots_same a a"
  by (simp add: slots_same_def)

lemma slots_same_trans: "slots_same a b \<Longrightarrow> slots_same b c \<Longrightarrow> slots_same a c"
  by (simp add: slots_same_def)

lemma slots_same_keep: "pending_wf a \<Longrightarrow> slots_same a b \<Longrightarrow> slots_keep a b"
  unfolding slots_same_def slots_keep_def pending_wf_def by (metis append_Nil2 option.collapse)

lemma slots_same_then_keep: "slots_same a b \<Longrightarrow> slots_keep b c \<Longrightarrow> slots_keep a c"
  unfolding slots_same_def slots_keep_def by metis

lemma m2_progress:
  assumes srt: "votes_sort srt" and age: "max_age (bh_thresholds bh) < 0xFFFF"
  shows "mid_wf bh h S db \<Longrightarrow> distinct (map ack_sidechain_number as) \<Longrightarrow> \<forall>a\<in>set as. ack_sidechain_number a \<notin> S \<Longrightarrow>
    \<exists>ds db' S'. messages_loop B srt bh h prev m1s (map m2_of as) acc db = Inr (acc, [], ds, db') \<and> mid_wf bh h S' db' \<and>
      slots_same (active_sidechains db) (active_sidechains db') \<and>
      ((\<forall>a\<in>set as. stays_unused (bh_thresholds bh) h db (ack_sidechain_number a) (ack_description_hash a)) \<longrightarrow>
         dom (sidechain_db (active_sidechains db')) = dom (sidechain_db (active_sidechains db)))"
proof (induction as arbitrary: S db)
  case Nil
  then show ?case using slots_same_refl by auto
next
  case (Cons a as)
  let ?n = "ack_sidechain_number a" and ?dh = "ack_description_hash a"
  have pwf: "pending_wf (active_sidechains db)" using Cons.prems(1) by (simp add: mid_wf_def active_wf_def)
  show ?case
  proof (cases "handle_m2_ack_sidechain bh db h ?n ?dh")
    case None
    from Cons.IH [OF Cons.prems(1)] Cons.prems(2,3) None show ?thesis by auto
  next
    case (Some d)
    then obtain db1 where app: "apply_ack_sidechain_proposal d h db = Inr db1"
      using message_applies [OF Cons.prems(1) srt, of B prev acc "m2_of a"] by auto
    have n: "?n \<notin> S" using Cons.prems(3) by simp
    note one = m2_one [OF Some pwf app]
    note wf1 = m2_step(2) [OF Cons.prems(1) age Some n app]
    have rest: "distinct (map ack_sidechain_number as)" "\<forall>b\<in>set as. ack_sidechain_number b \<notin> insert ?n S"
      using Cons.prems(2,3) by (auto simp: image_iff)
    from Cons.IH [OF wf1 rest] obtain ds db' S' where
      r: "messages_loop B srt bh h prev m1s (map m2_of as) acc db1 = Inr (acc, [], ds, db')" "mid_wf bh h S' db'"
      "slots_same (active_sidechains db1) (active_sidechains db')"
      and un: "\<forall>b\<in>set as. stays_unused (bh_thresholds bh) h db1 (ack_sidechain_number b) (ack_description_hash b) \<Longrightarrow>
         dom (sidechain_db (active_sidechains db')) = dom (sidechain_db (active_sidechains db1))" by blast
    have loop: "messages_loop B srt bh h prev m1s (map m2_of (a # as)) acc db = Inr (acc, [], DAckSidechainProposal d # ds, db')"
      using Some app r(1) by simp
    have dom: "dom (sidechain_db (active_sidechains db')) = dom (sidechain_db (active_sidechains db))"
      if st: "\<forall>b\<in>set (a # as). stays_unused (bh_thresholds bh) h db (ack_sidechain_number b) (ack_description_hash b)"
    proof -
      have d1: "dom (sidechain_db (active_sidechains db1)) = dom (sidechain_db (active_sidechains db))"
        using one(2) st by simp
      have "stays_unused (bh_thresholds bh) h db1 (ack_sidechain_number b) (ack_description_hash b)" if b: "b \<in> set as" for b
      proof -
        have "ack_sidechain_number b \<noteq> ?n" using Cons.prems(2) b by (auto simp: image_iff)
        then have "proposal_id_to_sidechain db1 \<lparr>id_sidechain_number = ack_sidechain_number b, id_description_hash = ack_description_hash b\<rparr>
            = proposal_id_to_sidechain db \<lparr>id_sidechain_number = ack_sidechain_number b, id_description_hash = ack_description_hash b\<rparr>"
          by (intro one(3)) simp
        moreover have "sidechain_db (active_sidechains db1) k \<noteq> None \<longleftrightarrow> sidechain_db (active_sidechains db) k \<noteq> None" for k
          using d1 by blast
        ultimately show ?thesis using st b unfolding stays_unused_def by simp
      qed
      with un d1 show ?thesis by blast
    qed
    from loop r(2) slots_same_trans [OF one(1) r(3)] dom show ?thesis by blast
  qed
qed

section \<open>The votes fit the pending bundles\<close>

lemma position_Some: "position p xs = Some i \<Longrightarrow> i < length xs"
  by (induction xs arbitrary: i) (auto split: if_splits)

lemma resolve_index: "resolve policy pending acked ours = Upvote i \<Longrightarrow> unat i < length pending"
proof -
  have f: "unat j < length pending" if "first_matching pending q = Some v" "v = Upvote j" for q v j
    using that position_Some [of q pending]
    by (auto simp: first_matching_def u16_try_from_def unat_of_nat split: if_splits bind_splits)
  assume "resolve policy pending acked ours = Upvote i"
  then show ?thesis
    by (auto simp: resolve_def split: option.splits withdrawal_bundle_policy.splits dest: f)
qed

lemma votes_loop_total:
  "\<forall>(n, v)\<in>set nvs. v = ABSTAIN_TWO_BYTES \<or>
     (\<exists>p. pending_m6ids_db a n = Some p \<and> (v = ALARM_TWO_BYTES \<or> unat v < length p)) \<Longrightarrow>
   \<exists>d. votes_loop a nvs = Inr d"
proof (induction nvs)
  case (Cons x nvs)
  obtain n v where x: "x = (n, v)" by (cases x)
  from Cons obtain d where d: "votes_loop a nvs = Inr d" by auto
  show ?case
  proof (cases "v = ABSTAIN_TWO_BYTES")
    case False
    with Cons.prems x obtain p where p: "pending_m6ids_db a n = Some p" "v = ALARM_TWO_BYTES \<or> unat v < length p" by auto
    then have "vote_action p v \<noteq> None"
      by (auto simp: vote_action_def Let_def om_get_index_def split: prod.splits)
    with d p x False show ?thesis by auto
  qed (use d x in simp)
qed simp

text \<open>Active sidechains are stored under their own number.\<close>

definition slots_named :: "dbs \<Rightarrow> bool" where
  "slots_named db \<longleftrightarrow> (\<forall>n sc. sidechain_db (active_sidechains db) n = Some sc \<longrightarrow> prop_sidechain_number (sc_proposal sc) = n)"

lemma active_slots:
  assumes "get_active_sidechains db = Inr active" "slots_named db"
  shows "map (\<lambda>sc. prop_sidechain_number (sc_proposal sc)) active = numbers (active_sidechains db)"
    "used_slots active = dom (sidechain_db (active_sidechains db))"
proof -
  have "active = map (\<lambda>n. the (sidechain_db (active_sidechains db) n)) (numbers (active_sidechains db))"
    using assms(1) by (simp add: get_active_sidechains_def Let_def split: if_splits)
  then show "map (\<lambda>sc. prop_sidechain_number (sc_proposal sc)) active = numbers (active_sidechains db)"
    using assms(2) by (auto simp: slots_named_def numbers_def intro!: map_idI)
  then show "used_slots active = dom (sidechain_db (active_sidechains db))"
    unfolding used_slots_def by (auto simp: numbers_set)
qed

lemma select_bundle_votes_spec:
  "select_bundle_votes db acks bps policy scs = Inr votes \<Longrightarrow>
     list_all2 (\<lambda>n v. \<exists>p acked ours. pending_m6ids_db (active_sidechains db) n = Some p \<and>
       v = resolve policy (map fst p) acked ours) (map (\<lambda>sc. prop_sidechain_number (sc_proposal sc)) scs) votes"
  by (induction scs arbitrary: votes)
    (auto simp: get_pending_withdrawals_def Let_def split: option.splits sum.splits)

lemma produced_votes_handled:
  assumes "get_active_sidechains db = Inr active" "slots_named db"
    and "select_bundle_votes db acks bps policy active = Inr votes"
    and "dom (sidechain_db (active_sidechains db')) = dom (sidechain_db (active_sidechains db))"
    and "slots_keep (active_sidechains db) (active_sidechains db')"
  shows "\<exists>d. handle_m4_votes db' (map vote_two_bytes votes) = Inr d"
proof -
  let ?a = "active_sidechains db" and ?a' = "active_sidechains db'"
  have "sidechain_db ?a' n \<noteq> None \<longleftrightarrow> sidechain_db ?a n \<noteq> None" for n using assms(4) by blast
  then have ns: "numbers ?a' = numbers ?a" by (simp add: numbers_def)
  have fit: "list_all2 (\<lambda>n v. \<exists>p acked ours. pending_m6ids_db ?a n = Some p \<and> v = resolve policy (map fst p) acked ours)
      (numbers ?a) votes" using select_bundle_votes_spec [OF assms(3)] active_slots(1) [OF assms(1,2)] by simp
  then have len: "length votes = length (numbers ?a)" by (simp add: list_all2_lengthD)
  have "\<exists>d. votes_loop ?a' (zip (numbers ?a) (map vote_two_bytes votes)) = Inr d"
  proof (rule votes_loop_total, rule ballI)
    fix x
    assume "x \<in> set (zip (numbers ?a) (map vote_two_bytes votes))"
    then obtain n v where x: "x = (n, vote_two_bytes v)" and nv: "(n, v) \<in> set (zip (numbers ?a) votes)"
      by (auto simp: zip_map2)
    from nv fit obtain p acked ours where p: "pending_m6ids_db ?a n = Some p" "v = resolve policy (map fst p) acked ours"
      by (fastforce simp: list_all2_iff)
    have "sidechain_db ?a n \<noteq> None" using set_zip_leftD [OF nv] by (auto simp: numbers_set)
    then obtain ext where ext: "pending_m6ids_db ?a' n = Some (p @ ext)" using assms(5) p(1) by (fastforce simp: slots_keep_def)
    have "unat i < length p" if "v = Upvote i" for i using resolve_index [of policy "map fst p" acked ours i] p(2) that by simp
    then have "vote_two_bytes v = ABSTAIN_TWO_BYTES \<or> vote_two_bytes v = ALARM_TWO_BYTES \<or> unat (vote_two_bytes v) < length p"
      by (cases v) auto
    with ext show "case x of (n, v) \<Rightarrow> v = ABSTAIN_TWO_BYTES \<or>
        (\<exists>p. pending_m6ids_db ?a' n = Some p \<and> (v = ALARM_TWO_BYTES \<or> unat v < length p))"
      by (auto simp: x)
  qed
  then show ?thesis using len ns by (simp add: handle_m4_votes_def Let_def)
qed

section \<open>The messages of the coinbase\<close>

lemma builder_push_all_append:
  "builder_push_all cb (xs @ ys) = (case builder_push_all cb xs of Inl e \<Rightarrow> Inl e | Inr cb' \<Rightarrow> builder_push_all cb' ys)"
  by (induction xs arbitrary: cb) (auto split: sum.splits)

lemma ack_loop_pushes:
  "ack_loop acks cb = Inr cb' \<Longrightarrow> \<exists>as. set as \<subseteq> set acks \<and> builder_push_all cb (map m2_of as) = Inr cb'"
proof (induction acks arbitrary: cb)
  case (Cons ack acks)
  show ?case
  proof (cases "m2_ack_slot_vout (cb_messages cb) (ack_sidechain_number ack)")
    case None
    with Cons.prems obtain cb1 where c: "builder_push cb (m2_of ack) = Inr cb1" "ack_loop acks cb1 = Inr cb'"
      by (auto simp: ack_sidechain_def split: sum.splits)
    from Cons.IH [OF c(2)] obtain as where "set as \<subseteq> set acks" "builder_push_all cb1 (map m2_of as) = Inr cb'" by blast
    with c(1) show ?thesis by (intro exI [of _ "ack # as"]) auto
  next
    case (Some v)
    with Cons show ?thesis by (auto, blast)
  qed
qed (intro exI [of _ "[]"], simp)

lemma select_acks_hash:
  assumes "select_sidechain_acks B stored pending used policy = (acks, stale)" "a \<in> set acks"
  shows "\<exists>d. ack_description_hash a = sha256d_hash B d"
proof -
  let ?f = "\<lambda>(n, proposal) acks.
          if \<not> auto_acks policy (n \<in> used) \<or> list_ex (\<lambda>ack. ack_sidechain_number ack = n) acks then acks
          else acks @ [\<lparr>ack_sidechain_number = n, ack_description_hash = sha256d_hash B (prop_description proposal)\<rparr>]"
  have acks: "acks = fold ?f pending (filter (validate_sidechain_ack B pending) stored)"
    using assms(1) unfolding select_sidechain_acks_def by (rule Pair_inject) simp
  have keep: "\<forall>a\<in>set xs. \<exists>d. ack_description_hash a = sha256d_hash B d \<Longrightarrow>
      \<forall>a\<in>set (fold ?f ps xs). \<exists>d. ack_description_hash a = sha256d_hash B d" for ps xs
  proof (induction ps arbitrary: xs)
    case (Cons x ps)
    show ?case unfolding fold_simps by (rule Cons.IH) (use Cons.prems in \<open>auto split: prod.splits\<close>)
  qed simp
  have "\<forall>a\<in>set (filter (validate_sidechain_ack B pending) stored). \<exists>d. ack_description_hash a = sha256d_hash B d"
    by (auto simp: validate_sidechain_ack_def split: option.splits) (metis)
  from keep [OF this, of pending] assms(2) show ?thesis unfolding acks by blast
qed

lemma select_bundle_unproposed:
  assumes "get_bundle_proposals db used rows = Inr bps" "select_bundle_proposal bps = Some (n, m)"
  shows "n \<in> used \<and> (\<exists>p ms bm. pending_m6ids_db (active_sidechains db) n = Some p \<and> map_of p m = None \<and>
    (n, ms) \<in> set rows \<and> (m, bm) \<in> set ms)"
proof -
  have get: "n \<in> used \<and> (\<exists>p ms. pending_m6ids_db (active_sidechains db) n = Some p \<and> (n, ms) \<in> set rows \<and>
      ps = map (\<lambda>(m6id, bm). (m6id, bm, map_of p m6id)) ms)" if "(n, ps) \<in> set bps" for n ps
    using assms(1) that
  proof (induction rows arbitrary: bps)
    case (Cons x rows)
    obtain k ms where x: "x = (k, ms)" by (cases x)
    show ?case
    proof (cases "k \<in> used")
      case False
      with Cons.IH [of bps] Cons.prems x show ?thesis by auto
    next
      case True
      with Cons.prems(1) x obtain p others where p: "pending_m6ids_db (active_sidechains db) k = Some p"
        "get_bundle_proposals db used rows = Inr others"
        and bps: "bps = (let res = map (\<lambda>(m6id, bm). (m6id, bm, map_of p m6id)) ms in if res = [] then others else (k, res) # others)"
        by (auto simp: get_pending_withdrawals_def Let_def split: option.splits sum.splits)
      from Cons.prems(2) bps consider "(n, ps) \<in> set others" | "n = k" "ps = map (\<lambda>(m6id, bm). (m6id, bm, map_of p m6id)) ms"
        by (auto simp: Let_def split: if_splits)
      then show ?thesis
      proof cases
        case 1
        with Cons.IH [OF p(2)] show ?thesis by auto
      next
        case 2
        with p(1) True x show ?thesis by auto
      qed
    qed
  qed simp
  from min_by_key_Some [OF assms(2) [unfolded select_bundle_proposal_def]] obtain ps bm where
    "(n, ps) \<in> set bps" "(m, bm, None) \<in> set ps" by auto
  with get [of n ps] show ?thesis by force
qed

lemma m1s_found:
  assumes "\<forall>m1. M1ProposeSidechain m1 \<in> fst ` set (cm_messages msgs) \<longrightarrow>
      map_of m1s (m1_sidechain_number m1, sha256d_hash B (m1_description m1)) \<noteq> None"
    and "new_loop B v outs msgs = Inr cm"
  shows "\<exists>m1s'. collect_messages B v outs msgs m1s = Inr (cm, m1s') \<and>
    (\<forall>m1. M1ProposeSidechain m1 \<in> fst ` set (cm_messages cm) \<longrightarrow>
      map_of m1s' (m1_sidechain_number m1, sha256d_hash B (m1_description m1)) \<noteq> None)"
  using assms
proof (induction B v outs msgs arbitrary: m1s rule: new_loop.induct)
  case (2 B v outp outs msgs)
  show ?case
  proof (cases "coinbase_message_parse B (to_script_pubkey outp)")
    case (Inl e)
    with 2 show ?thesis by simp
  next
    case (Inr z)
    obtain rest message where z: "z = (rest, message)" by (cases z)
    from 2(4) Inr z obtain cm1 where p: "push msgs message v = Inr cm1" "new_loop B (Suc v) outs cm1 = Inr cm"
      by (auto split: sum.splits)
    have keep: "map_of (note_m1 B message v m1s) k \<noteq> None" if "map_of m1s k \<noteq> None" for k
      using that by (cases message) (auto simp: or_insert_def om_insert_lookup)
    have new: "map_of (note_m1 B message v m1s) (m1_sidechain_number m1, sha256d_hash B (m1_description m1)) \<noteq> None"
      if "message = M1ProposeSidechain m1" for m1
      using that by (auto simp: or_insert_def om_insert_lookup)
    have inv: "\<forall>m1. M1ProposeSidechain m1 \<in> fst ` set (cm_messages cm1) \<longrightarrow>
      map_of (note_m1 B message v m1s) (m1_sidechain_number m1, sha256d_hash B (m1_description m1)) \<noteq> None"
      using 2(3) keep new push_Inr(1) [OF p(1)] by auto
    from 2(2) [OF Inr z [symmetric] p(1) inv p(2)] show ?thesis using Inr z p(1) by simp
  qed
qed simp

lemma extend_stages:
  assumes "extend_coinbase_txouts B params db sidechains rows ap bp tip txouts = Inr outs"
    "get_header_info B (block_hashes db) tip = Inr hi"
    "height = (if hi_height hi = 0xFFFFFFFF then 0xFFFFFFFF else hi_height hi + 1)"
    "\<not> height < bip300_activation_height params"
  obtains cb0 cb1 active acks stale cb2 bps cb3 votes cb4 where
    "coinbase_builder_new B txouts = Inr cb0"
    "(case select_sidechain_proposal B (rows_proposals rows) (set (map fst sidechains)) of
        Some p \<Rightarrow> propose_sidechain cb0 p | None \<Rightarrow> Inr cb0) = Inr cb1"
    "get_active_sidechains db = Inr active"
    "select_sidechain_acks B (rows_acks rows) (get_active_sidechain_proposals sidechains) (used_slots active) ap = (acks, stale)"
    "ack_loop acks cb1 = Inr cb2"
    "get_bundle_proposals db (used_slots active) (rows_bundles rows) = Inr bps"
    "(if m3_exists (cb_messages cb2) then Inr cb2
      else case select_bundle_proposal bps of Some (n, m) \<Rightarrow> propose_bundle cb2 n m | None \<Rightarrow> Inr cb2) = Inr cb3"
    "select_bundle_votes db (rows_bundle_acks rows) bps bp active = Inr votes"
    "(if list_ex (\<lambda>v. v \<noteq> Abstain) votes \<and>
         \<not> m2s_may_activate_unused_slot (np_thresholds params) sidechains (cb_messages cb3) (used_slots active) height
      then ack_bundles cb3 (from_votes votes) else Inr cb3) = Inr cb4"
    "build B cb4 = Inr outs"
proof -
  from assms show thesis
    unfolding extend_coinbase_txouts_def Let_def
    by (auto split: sum.splits prod.splits simp del: not_less intro!: that)
qed

lemma not_may_activate:
  assumes "\<not> m2s_may_activate_unused_slot t sidechains msgs used h" "cm_wf msgs"
    and "m2_of a \<in> set (map fst (cm_messages msgs))" "ack_sidechain_number a \<notin> used"
    and "map_of sidechains \<lparr>id_sidechain_number = ack_sidechain_number a, id_description_hash = ack_description_hash a\<rparr> = Some sc"
    and "sc_votes sc \<noteq> 0xFFFF"
  shows "\<not> activates_unused_slot t (sc_votes sc + 1) (saturating_sub h (st_proposal_height (sc_status sc)))"
proof -
  have "KM2 (ack_sidechain_number a) \<in> msg_key ` set (map fst (cm_messages msgs))"
    using assms(3) by (metis image_eqI m2_ack_sidechain.select_convs(1) msg_key.simps(2))
  then have "cm_index msgs (KM2 (ack_sidechain_number a)) \<noteq> None" using cm_wf_index_None [OF assms(2)] by blast
  then have ne: "m2_ack_slots msgs \<noteq> {}" by (auto simp: m2_ack_slots_def)
  let ?id = "\<lparr>id_sidechain_number = ack_sidechain_number a, id_description_hash = ack_description_hash a\<rparr>"
  let ?acks = "{\<lparr>id_sidechain_number = m2_sidechain_number m2, id_description_hash = m2_description_hash m2\<rparr> | m2.
      M2AckSidechain m2 \<in> set (map fst (cm_messages msgs)) \<and> m2_sidechain_number m2 \<notin> used}"
  have id: "?id \<in> ?acks" using assms(3,4) by force
  have sc: "(?id, sc) \<in> set sidechains" using assms(5) by (rule map_of_SomeD)
  show ?thesis
  proof
    assume act: "activates_unused_slot t (sc_votes sc + 1) (saturating_sub h (st_proposal_height (sc_status sc)))"
    have "m2s_may_activate_unused_slot t sidechains msgs used h"
      unfolding m2s_may_activate_unused_slot_def Let_def list_ex_iff
    proof (intro conjI bexI [OF _ sc])
      show "?acks \<noteq> {}" using id by blast
      show "case (?id, sc) of (proposal_id, sc) \<Rightarrow> proposal_id \<in> ?acks \<and> activates_unused_slot t
          (if sc_votes sc = 0xFFFF then 0xFFFF else sc_votes sc + 1) (saturating_sub h (st_proposal_height (sc_status sc)))"
        unfolding prod.case using id act assms(6) by simp
    qed (rule ne)
    with assms(1) show False by blast
  qed
qed

lemma push_seq_wf: "push_seq cm v ms = Inr cm' \<Longrightarrow> cm_wf cm \<Longrightarrow> cm_wf cm'"
  by (induction ms arbitrary: cm v) (auto split: sum.splits dest: push_wf)

lemma built_messages:
  assumes "coinbase_builder_new B outs = Inr cb0" "coinbase_messages_new B outs = Inr coinbase_messages_default"
    and "builder_push_all cb0 ms = Inr cb"
  shows "map fst (cm_messages (cb_messages cb)) = ms" "cm_wf (cb_messages cb)"
proof -
  have "cb_built outs coinbase_messages_default [] cb0"
    using assms(1,2) by (auto simp: coinbase_builder_new_def cb_built_def)
  from cb_built_push_all [OF this _ assms(3)] have b: "cb_built outs coinbase_messages_default ms cb"
    by (simp add: coinbase_messages_default_def)
  then show "map fst (cm_messages (cb_messages cb)) = ms"
    by (simp add: cb_built_def coinbase_messages_default_def)
  show "cm_wf (cb_messages cb)" using b push_seq_wf cm_wf_default unfolding cb_built_def by blast
qed

lemma m1_progress:
  assumes wf: "mid_wf bh h S db"
    and found: "map_of m1s (m1_sidechain_number m1, sha256d_hash B (m1_description m1)) \<noteq> None"
  shows "\<exists>evs ds db'. messages_loop B srt bh h prev m1s [M1ProposeSidechain m1] acc db = Inr (acc, evs, ds, db') \<and>
    mid_wf bh h S db' \<and> active_sidechains db' = active_sidechains db \<and>
    (\<forall>pid sc. proposal_id_to_sidechain db' pid = Some sc \<longrightarrow>
       proposal_id_to_sidechain db pid = Some sc \<or> st_proposal_height (sc_status sc) = h)"
proof (cases "handle_m1_propose_sidechain B db \<lparr>prop_sidechain_number = m1_sidechain_number m1,
    prop_description = m1_description m1\<rparr> h")
  case None
  then show ?thesis using wf by simp
next
  case (Some d)
  note step = m1_step [OF wf Some]
  from Some have "sc_proposal (nsp_sidechain d) = \<lparr>prop_sidechain_number = m1_sidechain_number m1, prop_description = m1_description m1\<rparr>"
    "st_proposal_height (sc_status (nsp_sidechain d)) = h"
    by (auto simp: handle_m1_propose_sidechain_def Let_def split: if_splits)
  with Some found step show ?thesis by (auto simp: apply_new_sidechain_proposal_def)
qed

lemma m3_progress:
  assumes wf: "mid_wf bh h S db" and srt: "votes_sort srt" and age: "max_age (bh_thresholds bh) < 0xFFFF"
    and n: "sidechain_db (active_sidechains db) n \<noteq> None" "pending_m6ids_db (active_sidechains db) n = Some p" "map_of p m = None"
  shows "\<exists>evs ds db' S'. messages_loop B srt bh h prev m1s [M3ProposeBundle \<lparr>m3_sidechain_number = n, m3_bundle_txid = m\<rparr>] acc db =
      Inr (acc, evs, ds, db') \<and> mid_wf bh h S' db' \<and> slots_keep (active_sidechains db) (active_sidechains db') \<and>
    dom (sidechain_db (active_sidechains db')) = dom (sidechain_db (active_sidechains db))"
proof -
  let ?m = "M3ProposeBundle \<lparr>m3_sidechain_number = n, m3_bundle_txid = m\<rparr>"
    and ?d = "\<lparr>pb_sidechain_number = n, pb_m6id = m\<rparr>"
  have h: "handle_m3_propose_bundle db n m = Inr ?d" using n by (simp add: handle_m3_propose_bundle_def)
  then obtain ev where ev: "handle_coinbase_message B srt bh db h prev acc ?m = Inr (Some ev, Some (DProposeBundle ?d), acc)"
    "message_event B m1s (Some ev) = Inr [WithdrawalBundleE \<lparr>wbe_sidechain_id = n, wbe_m6id = m, wbe_kind = Submitted\<rparr>]" by auto
  from message_applies [OF wf srt ev(1)] obtain db' where app: "apply_coinbase_msg h (DProposeBundle ?d) db = Inr db'" by blast
  have wf': "mid_wf bh h (acked_slots ?m \<union> S) db'" by (rule message_step(2) [OF wf age srt _ ev(1) app]) simp
  from app obtain a where a: "db' = db\<lparr>active_sidechains := a\<rparr>" "update_pending (active_sidechains db) n
      (om_insert m (pending_m6id_info_new h)) = Inr a"
    by (auto simp: with_active_def apply_propose_bundle_def put_pending_m6id_def split: sum.splits)
  have "om_insert m i p = p @ [(m, i)]" for i using n(3) by (simp add: om_insert_new map_of_eq_None_iff)
  with a(2) n(2) have a': "a = (active_sidechains db)\<lparr>pending_m6ids_db := (pending_m6ids_db (active_sidechains db))
      (n := Some (p @ [(m, pending_m6id_info_new h)]))\<rparr>" by (auto simp: update_pending_Inr)
  have "slots_keep (active_sidechains db) (active_sidechains db')"
    unfolding slots_keep_def
  proof (intro allI impI conjI)
    fix k
    assume k: "sidechain_db (active_sidechains db) k \<noteq> None"
    then show "sidechain_db (active_sidechains db') k \<noteq> None" by (simp add: a(1) a')
    have "\<forall>n. pending_m6ids_db (active_sidechains db) n = None \<longleftrightarrow> sidechain_db (active_sidechains db) n = None"
      using wf by (simp add: mid_wf_def active_wf_def pending_wf_def)
    with k obtain q where "pending_m6ids_db (active_sidechains db) k = Some q" by (metis not_None_eq)
    then show "\<exists>ext. pending_m6ids_db (active_sidechains db') k = Some (the (pending_m6ids_db (active_sidechains db) k) @ ext)"
      using n(2) by (cases "k = n") (simp_all add: a(1) a')
  qed
  moreover have "dom (sidechain_db (active_sidechains db')) = dom (sidechain_db (active_sidechains db))" by (simp add: a(1) a')
  ultimately show ?thesis using ev app wf' by auto
qed

text \<open>What the phases of a produced coinbase need: the M1 is listed among those of the block, the M3
  proposes a bundle that is not pending for an active slot, the M2s activate no unused slot before an
  M4, and the votes of the M4 are handled by tables that have the same active slots and at least the
  same bundles.\<close>

definition m1_listed :: "btc \<Rightarrow> ((sidechain_number \<times> hash256) \<times> 'v) list \<Rightarrow> coinbase_message list \<Rightarrow> bool" where
  "m1_listed B m1s ms \<longleftrightarrow> ms = [] \<or> (\<exists>m1. ms = [M1ProposeSidechain m1] \<and>
     map_of m1s (m1_sidechain_number m1, sha256d_hash B (m1_description m1)) \<noteq> None)"

definition m3_fresh :: "active_dbs \<Rightarrow> coinbase_message list \<Rightarrow> bool" where
  "m3_fresh a ms \<longleftrightarrow> ms = [] \<or> (\<exists>n m p. ms = [M3ProposeBundle \<lparr>m3_sidechain_number = n, m3_bundle_txid = m\<rparr>] \<and>
     sidechain_db a n \<noteq> None \<and> pending_m6ids_db a n = Some p \<and> map_of p m = None \<and> length m = 32)"

definition votes_handled :: "active_dbs \<Rightarrow> withdrawal_bundle_vote list \<Rightarrow> bool" where
  "votes_handled a votes \<longleftrightarrow> (\<forall>db. slots_keep a (active_sidechains db) \<longrightarrow>
     dom (sidechain_db (active_sidechains db)) = dom (sidechain_db a) \<longrightarrow>
     (\<exists>d. handle_m4_votes db (map vote_two_bytes votes) = Inr d))"

definition m4_castable :: "thresholds \<Rightarrow> u32 \<Rightarrow> dbs \<Rightarrow> sidechain_ack list \<Rightarrow> coinbase_message list \<Rightarrow> bool" where
  "m4_castable t h db acks ms \<longleftrightarrow> ms = [] \<or> (\<exists>votes. ms = [M4AckBundles (from_votes votes)] \<and>
     (\<forall>a\<in>set acks. stays_unused t h db (ack_sidechain_number a) (ack_description_hash a)) \<and>
     votes_handled (active_sidechains db) votes)"

lemma m3_phase:
  assumes "m3_fresh a ms" "slots_same a (active_sidechains db)" "pending_wf a"
    and "mid_wf bh h S db" "votes_sort srt" "max_age (bh_thresholds bh) < 0xFFFF"
  obtains evs ds db' S' where "messages_loop B srt bh h prev m1s ms [] db = Inr ([], evs, ds, db')"
    "mid_wf bh h S' db'" "slots_keep a (active_sidechains db')"
    "dom (sidechain_db (active_sidechains db')) = dom (sidechain_db (active_sidechains db))"
proof (cases "ms = []")
  case True
  then show thesis using that [of "[]" "[]" db] assms(4) slots_same_keep [OF assms(3,2)] by simp
next
  case False
  with assms(1) obtain n m p where ms: "ms = [M3ProposeBundle \<lparr>m3_sidechain_number = n, m3_bundle_txid = m\<rparr>]"
    and act: "sidechain_db a n \<noteq> None" and p: "pending_m6ids_db a n = Some p" "map_of p m = None"
    unfolding m3_fresh_def by blast
  have n: "sidechain_db (active_sidechains db) n \<noteq> None" "pending_m6ids_db (active_sidechains db) n = Some p"
    using assms(2) act p(1) by (auto simp: slots_same_def)
  from m3_progress [OF assms(4-6) n p(2), of B prev m1s "[]"] slots_same_then_keep [OF assms(2)] that
  show thesis unfolding ms by blast
qed

lemma m4_phase:
  assumes "mid_wf bh h S db" "votes_sort srt" "max_age (bh_thresholds bh) < 0xFFFF"
    and "handle_m4_votes db (map vote_two_bytes votes) = Inr d"
  shows "\<exists>ds db' S'. messages_loop B srt bh h prev m1s [M4AckBundles (from_votes votes)] [] db = Inr ([], [], ds, db')
    \<and> mid_wf bh h S' db'"
proof -
  have m: "handle_coinbase_message B srt bh db h prev [] (M4AckBundles (from_votes votes)) =
      Inr (None, if d = [] then None else Some (DAckBundles d), [])"
    using assms(4) by (simp add: from_votes_handled m4_votes_result_def)
  show ?thesis
  proof (cases "d = []")
    case True
    with m assms(1) show ?thesis by auto
  next
    case False
    with m have m: "handle_coinbase_message B srt bh db h prev [] (M4AckBundles (from_votes votes)) = Inr (None, Some (DAckBundles d), [])"
      by simp
    from message_applies [OF assms(1,2) m] obtain db' where app: "apply_coinbase_msg h (DAckBundles d) db = Inr db'" by blast
    have "mid_wf bh h (acked_slots (M4AckBundles (from_votes votes)) \<union> S) db'"
      by (rule message_step(2) [OF assms(1,3,2) _ m app]) simp
    with m app show ?thesis by (auto simp del: handle_coinbase_message.simps)
  qed
qed

lemma m1_phase:
  assumes "m1_listed B m1s ms" "mid_wf bh h {} db"
  obtains evs ds db' where "messages_loop B srt bh h prev m1s ms [] db = Inr ([], evs, ds, db')" "mid_wf bh h {} db'"
    "active_sidechains db' = active_sidechains db"
    "\<And>pid sc. proposal_id_to_sidechain db' pid = Some sc \<Longrightarrow>
       proposal_id_to_sidechain db pid = Some sc \<or> st_proposal_height (sc_status sc) = h"
proof (cases "ms = []")
  case True
  then show thesis using that [of "[]" "[]" db] assms(2) by simp
next
  case False
  with assms(1) m1_progress [OF assms(2)] that show thesis unfolding m1_listed_def by blast
qed

lemma produced_messages_handled:
  assumes wf: "mid_wf bh h {} db" and env: "votes_sort srt" "max_age (bh_thresholds bh) < 0xFFFF"
    and m1: "m1_listed B m1s ms1" and m2: "distinct (map ack_sidechain_number acks)"
    and m3: "m3_fresh (active_sidechains db) ms3" and m4: "m4_castable (bh_thresholds bh) h db acks ms4"
  shows "\<exists>evs ds db' S. messages_loop B srt bh h prev m1s (ms1 @ map m2_of acks @ ms3 @ ms4) [] db = Inr ([], evs, ds, db') \<and> mid_wf bh h S db'"
proof -
  have pwf: "pending_wf (active_sidechains db)" using wf by (simp add: mid_wf_def active_wf_def)
  obtain evs1 ds1 db1 where p1: "messages_loop B srt bh h prev m1s ms1 [] db = Inr ([], evs1, ds1, db1)" "mid_wf bh h {} db1"
      "active_sidechains db1 = active_sidechains db"
    and new: "\<And>pid sc. proposal_id_to_sidechain db1 pid = Some sc \<Longrightarrow>
       proposal_id_to_sidechain db pid = Some sc \<or> st_proposal_height (sc_status sc) = h"
    by (rule m1_phase [OF m1 wf, where srt = srt and prev = prev]) (rule that)
  from m2_progress [OF env p1(2) m2, of B prev m1s "[]"] obtain ds2 db2 S2 where
    p2: "messages_loop B srt bh h prev m1s (map m2_of acks) [] db1 = Inr ([], [], ds2, db2)" "mid_wf bh h S2 db2"
      "slots_same (active_sidechains db) (active_sidechains db2)"
    and un: "\<forall>a\<in>set acks. stays_unused (bh_thresholds bh) h db1 (ack_sidechain_number a) (ack_description_hash a) \<Longrightarrow>
      dom (sidechain_db (active_sidechains db2)) = dom (sidechain_db (active_sidechains db))"
    unfolding p1(3) by blast
  obtain evs3 ds3 db3 S3 where p3: "messages_loop B srt bh h prev m1s ms3 [] db2 = Inr ([], evs3, ds3, db3)" "mid_wf bh h S3 db3"
      "slots_keep (active_sidechains db) (active_sidechains db3)"
      "dom (sidechain_db (active_sidechains db3)) = dom (sidechain_db (active_sidechains db2))"
    by (rule m3_phase [OF m3 p2(3) pwf p2(2) env])
  have "\<exists>ds4 db4 S4. messages_loop B srt bh h prev m1s ms4 [] db3 = Inr ([], [], ds4, db4) \<and> mid_wf bh h S4 db4"
  proof (cases "ms4 = []")
    case True
    with p3(2) show ?thesis by auto
  next
    case False
    with m4 obtain votes where ms4: "ms4 = [M4AckBundles (from_votes votes)]"
      and quiet: "\<forall>a\<in>set acks. stays_unused (bh_thresholds bh) h db (ack_sidechain_number a) (ack_description_hash a)"
      and vote: "votes_handled (active_sidechains db) votes" unfolding m4_castable_def by blast
    have "\<forall>a\<in>set acks. stays_unused (bh_thresholds bh) h db1 (ack_sidechain_number a) (ack_description_hash a)"
      using quiet new unfolding stays_unused_def p1(3) by blast
    then have "dom (sidechain_db (active_sidechains db3)) = dom (sidechain_db (active_sidechains db))" using un p3(4) by simp
    then obtain d where "handle_m4_votes db3 (map vote_two_bytes votes) = Inr d"
      using vote p3(3) unfolding votes_handled_def by blast
    from m4_phase [OF p3(2) env this] show ?thesis unfolding ms4 .
  qed
  with p1(1) p2(1) p3(1) show ?thesis by (auto simp: messages_loop_append)
qed

definition rows_wf :: "policy_rows \<Rightarrow> bool" where
  "rows_wf rows \<longleftrightarrow> (\<forall>(n, ms)\<in>set (rows_bundles rows). \<forall>(m, bm)\<in>set ms. length m = 32)"

lemma extend_messages:
  assumes "extend_coinbase_txouts B params db sidechains rows ap bp tip txouts = Inr outs"
    "get_header_info B (block_hashes db) tip = Inr hi"
    "height = (if hi_height hi = 0xFFFFFFFF then 0xFFFFFFFF else hi_height hi + 1)"
    "\<not> height < bip300_activation_height params"
  obtains cb0 cb3 cb4 ms1 as ms3 ms4 active bps where
    "coinbase_builder_new B txouts = Inr cb0"
    "builder_push_all cb0 (ms1 @ map m2_of as @ ms3) = Inr cb3"
    "builder_push_all cb0 (ms1 @ map m2_of as @ ms3 @ ms4) = Inr cb4"
    "build B cb4 = Inr outs" "get_active_sidechains db = Inr active"
    "ms1 = [] \<or> (\<exists>m1. ms1 = [M1ProposeSidechain m1])"
    "\<forall>a\<in>set as. \<exists>d. ack_description_hash a = sha256d_hash B d"
    "get_bundle_proposals db (used_slots active) (rows_bundles rows) = Inr bps"
    "ms3 = [] \<or> (\<exists>n m. select_bundle_proposal bps = Some (n, m) \<and>
       ms3 = [M3ProposeBundle \<lparr>m3_sidechain_number = n, m3_bundle_txid = m\<rparr>])"
    "ms4 = [] \<or> (\<exists>votes. ms4 = [M4AckBundles (from_votes votes)] \<and>
       select_bundle_votes db (rows_bundle_acks rows) bps bp active = Inr votes \<and>
       \<not> m2s_may_activate_unused_slot (np_thresholds params) sidechains (cb_messages cb3) (used_slots active) height)"
proof (rule extend_stages [OF assms])
  fix cb0 cb1 active acks stale cb2 bps cb3 votes cb4
  assume s: "coinbase_builder_new B txouts = Inr cb0" "get_active_sidechains db = Inr active"
    "select_sidechain_acks B (rows_acks rows) (get_active_sidechain_proposals sidechains) (used_slots active) ap = (acks, stale)"
    "ack_loop acks cb1 = Inr cb2" "get_bundle_proposals db (used_slots active) (rows_bundles rows) = Inr bps"
    "select_bundle_votes db (rows_bundle_acks rows) bps bp active = Inr votes" "build B cb4 = Inr outs"
    and p1: "(case select_sidechain_proposal B (rows_proposals rows) (set (map fst sidechains)) of
        Some p \<Rightarrow> propose_sidechain cb0 p | None \<Rightarrow> Inr cb0) = Inr cb1"
    and p3: "(if m3_exists (cb_messages cb2) then Inr cb2
      else case select_bundle_proposal bps of Some (n, m) \<Rightarrow> propose_bundle cb2 n m | None \<Rightarrow> Inr cb2) = Inr cb3"
    and p4: "(if list_ex (\<lambda>v. v \<noteq> Abstain) votes \<and>
         \<not> m2s_may_activate_unused_slot (np_thresholds params) sidechains (cb_messages cb3) (used_slots active) height
      then ack_bundles cb3 (from_votes votes) else Inr cb3) = Inr cb4"
  from p1 obtain ms1 where ms1: "builder_push_all cb0 ms1 = Inr cb1" "ms1 = [] \<or> (\<exists>m1. ms1 = [M1ProposeSidechain m1])"
  proof (cases "select_sidechain_proposal B (rows_proposals rows) (set (map fst sidechains))")
    case None
    with p1 show thesis by (intro that [of "[]"]) simp_all
  next
    case (Some p)
    with p1 show thesis by (intro that [of "[M1ProposeSidechain \<lparr>m1_sidechain_number = prop_sidechain_number p,
       m1_description = prop_description p\<rparr>]"]) (simp_all add: propose_sidechain_def)
  qed
  from ack_loop_pushes [OF s(4)] obtain as where as: "set as \<subseteq> set acks" "builder_push_all cb1 (map m2_of as) = Inr cb2" by blast
  from p3 obtain ms3 where ms3: "builder_push_all cb2 ms3 = Inr cb3"
    "ms3 = [] \<or> (\<exists>n m. select_bundle_proposal bps = Some (n, m) \<and> ms3 = [M3ProposeBundle \<lparr>m3_sidechain_number = n, m3_bundle_txid = m\<rparr>])"
  proof (cases "m3_exists (cb_messages cb2) \<or> select_bundle_proposal bps = None")
    case True
    with p3 show thesis by (intro that [of "[]"]) (auto split: if_splits)
  next
    case False
    then obtain n m where "select_bundle_proposal bps = Some (n, m)" by auto
    with p3 False show thesis by (intro that [of "[M3ProposeBundle \<lparr>m3_sidechain_number = n, m3_bundle_txid = m\<rparr>]"])
        (simp_all add: propose_bundle_def)
  qed
  from p4 obtain ms4 where ms4: "builder_push_all cb3 ms4 = Inr cb4"
    "ms4 = [] \<or> (ms4 = [M4AckBundles (from_votes votes)] \<and>
       \<not> m2s_may_activate_unused_slot (np_thresholds params) sidechains (cb_messages cb3) (used_slots active) height)"
  proof (cases "list_ex (\<lambda>v. v \<noteq> Abstain) votes \<and>
         \<not> m2s_may_activate_unused_slot (np_thresholds params) sidechains (cb_messages cb3) (used_slots active) height")
    case True
    with p4 show thesis by (intro that [of "[M4AckBundles (from_votes votes)]"]) (simp_all add: ack_bundles_def)
  next
    case False
    with p4 show thesis by (intro that [of "[]"]) simp_all
  qed
  have push3: "builder_push_all cb0 (ms1 @ map m2_of as @ ms3) = Inr cb3"
    by (simp add: builder_push_all_append ms1(1) as(2) ms3(1))
  have push4: "builder_push_all cb0 (ms1 @ map m2_of as @ ms3 @ ms4) = Inr cb4"
    by (simp add: builder_push_all_append ms1(1) as(2) ms3(1) ms4(1))
  have hash: "\<forall>a\<in>set as. \<exists>d. ack_description_hash a = sha256d_hash B d"
    using select_acks_hash [OF s(3)] as(1) by blast
  show thesis
    by (rule that [OF s(1) push3 push4 s(7) s(2) ms1(2) hash s(5) ms3(2)]) (use ms4(2) s(6) in blast)
qed

lemma get_header_info_height:
  assumes "get_header_info B db tip = Inr hi"
  shows "height_db db tip = Some (hi_height hi)"
  using assms by (auto simp: get_header_info_def try_get_header_info_def split: option.splits sum.splits if_splits)

lemma distinct_m2:
  assumes "cm_wf cm" "map fst (cm_messages cm) = ms1 @ map m2_of as @ ms"
  shows "distinct (map ack_sidechain_number as)"
proof -
  have "distinct (map msg_key (map m2_of as))" using assms by (auto simp: cm_wf_def msgs_allowed_def)
  then have "distinct (map KM2 (map ack_sidechain_number as))" by (simp add: comp_def)
  then show ?thesis by (rule distinct_map [THEN iffD1, THEN conjunct1])
qed

lemma m3_selected:
  assumes "rows_wf rows" "get_bundle_proposals db (used_slots active) (rows_bundles rows) = Inr bps"
    and "used_slots active = dom (sidechain_db (active_sidechains db))"
    and "ms = [] \<or> (\<exists>n m. select_bundle_proposal bps = Some (n, m) \<and>
      ms = [M3ProposeBundle \<lparr>m3_sidechain_number = n, m3_bundle_txid = m\<rparr>])"
  shows "m3_fresh (active_sidechains db) ms"
proof (cases "ms = []")
  case False
  with assms(4) obtain n m where nm: "select_bundle_proposal bps = Some (n, m)"
    "ms = [M3ProposeBundle \<lparr>m3_sidechain_number = n, m3_bundle_txid = m\<rparr>]" by blast
  from select_bundle_unproposed [OF assms(2) nm(1)] obtain p ms' bm where p: "n \<in> used_slots active"
    "pending_m6ids_db (active_sidechains db) n = Some p" "map_of p m = None" "(n, ms') \<in> set (rows_bundles rows)" "(m, bm) \<in> set ms'"
    by blast
  have "length m = 32" using assms(1) p(4,5) by (fastforce simp: rows_wf_def)
  with p nm(2) assms(3) show ?thesis unfolding m3_fresh_def by blast
qed (simp add: m3_fresh_def)

lemma m4_selected:
  assumes "get_active_sidechains db = Inr active" "slots_named db" "map_of sidechains = proposal_id_to_sidechain db"
    and "mid_wf bh h {} db" "max_age (bh_thresholds bh) < 0xFFFF"
    and cm: "cm_wf cm" "set (map m2_of acks) \<subseteq> set (map fst (cm_messages cm))"
    and "ms = [] \<or> (\<exists>votes. ms = [M4AckBundles (from_votes votes)] \<and>
      select_bundle_votes db (rows_bundle_acks rows) bps bp active = Inr votes \<and>
      \<not> m2s_may_activate_unused_slot (bh_thresholds bh) sidechains cm (used_slots active) h)"
  shows "m4_castable (bh_thresholds bh) h db acks ms"
proof (cases "ms = []")
  case False
  with assms(8) obtain votes where v: "ms = [M4AckBundles (from_votes votes)]"
    "select_bundle_votes db (rows_bundle_acks rows) bps bp active = Inr votes"
    and may: "\<not> m2s_may_activate_unused_slot (bh_thresholds bh) sidechains cm (used_slots active) h" by blast
  have slots: "used_slots active = dom (sidechain_db (active_sidechains db))" by (rule active_slots(2) [OF assms(1,2)])
  have "stays_unused (bh_thresholds bh) h db (ack_sidechain_number a) (ack_description_hash a)" if a: "a \<in> set acks" for a
  proof (cases "sidechain_db (active_sidechains db) (ack_sidechain_number a) = None")
    case True
    have "\<not> activates_unused_slot (bh_thresholds bh) (sc_votes sc + 1) (saturating_sub h (st_proposal_height (sc_status sc)))"
      if sc: "proposal_id_to_sidechain db \<lparr>id_sidechain_number = ack_sidechain_number a, id_description_hash = ack_description_hash a\<rparr> = Some sc" for sc
    proof (rule not_may_activate [OF may cm(1)])
      show "m2_of a \<in> set (map fst (cm_messages cm))" using a cm(2) by auto
      show "ack_sidechain_number a \<notin> used_slots active" unfolding slots using True by (simp add: domIff)
      show "map_of sidechains \<lparr>id_sidechain_number = ack_sidechain_number a, id_description_hash = ack_description_hash a\<rparr> = Some sc"
        unfolding assms(3) by (rule sc)
      have "proposal_ok (bh_thresholds bh) h False sc" using assms(4) sc by (auto simp: mid_wf_def)
      from proposal_ok_votes [OF this assms(5)] show "sc_votes sc \<noteq> 0xFFFF" by auto
    qed
    then show ?thesis by (simp add: stays_unused_def)
  qed (simp add: stays_unused_def)
  moreover have "votes_handled (active_sidechains db) votes"
    unfolding votes_handled_def using produced_votes_handled [OF assms(1,2) v(2)] by blast
  ultimately show ?thesis using v(1) by (auto simp: m4_castable_def)
qed (simp add: m4_castable_def)

lemma m1_collected:
  assumes "coinbase_messages_new B outs = Inr cm"
    and "ms = [] \<or> (\<exists>m1. ms = [M1ProposeSidechain m1])" "set ms \<subseteq> set (map fst (cm_messages cm))"
  obtains m1s where "collect_messages B 0 outs coinbase_messages_default [] = Inr (cm, m1s)" "m1_listed B m1s ms"
proof -
  have "new_loop B 0 outs coinbase_messages_default = Inr cm" using assms(1) by (simp add: coinbase_messages_new_def)
  from m1s_found [OF _ this, of "[]"] obtain m1s where
    coll: "collect_messages B 0 outs coinbase_messages_default [] = Inr (cm, m1s)"
    and found: "\<And>m1. M1ProposeSidechain m1 \<in> fst ` set (cm_messages cm) \<Longrightarrow>
       map_of m1s (m1_sidechain_number m1, sha256d_hash B (m1_description m1)) \<noteq> None"
    by (auto simp: coinbase_messages_default_def)
  have "m1_listed B m1s ms" using assms(2,3) found unfolding m1_listed_def by force
  with coll show thesis by (rule that)
qed

text \<open>C4: A coinbase that \<open>extend_coinbase_txouts\<close> builds on the tip is accepted there: the validator
  reads the same messages back from the outputs, handles each of them without an error - also the M4,
  although the M2s before it may have changed the set of active sidechains - and
  \<open>connect_coinbase\<close> succeeds. The outputs the miner adds carry no messages of their own, the
  tables are those of a chain of connected blocks, and bundle ids have 32 bytes.\<close>

theorem produced_coinbase_connects:
  assumes "script_codec (b_instructions B) (b_new_op_return B)" "\<And>d. length (b_sha256d B d) = 32" "rows_wf rows"
    and ext: "extend_coinbase_txouts B (bh_params bh) db sidechains rows ap bp tip txouts = Inr outs"
    and none: "coinbase_messages_new B txouts = Inr coinbase_messages_default"
    and sc: "map_of sidechains = proposal_id_to_sidechain db" and named: "slots_named db"
    and tip: "current_chain_tip db = Some tip" and h: "height_db (block_hashes db) tip = Some k" "k \<noteq> 0xFFFFFFFF"
    and act: "\<not> k + 1 < bip300_activation_height (bh_params bh)"
    and wf: "dbs_wf bh db" and env: "env_ok srt ord bh" and t: "bh_thresholds bh = np_thresholds (bh_params bh)"
  shows "\<exists>r. connect_coinbase B srt bh (k + 1) tip (coinbase\<lparr>tx_output := outs\<rparr>) db = Inr r"
proof -
  from ext obtain hi where hi: "get_header_info B (block_hashes db) tip = Inr hi"
    by (auto simp: extend_coinbase_txouts_def split: sum.splits)
  have k: "(if hi_height hi = 0xFFFFFFFF then 0xFFFFFFFF else hi_height hi + 1) = k + 1"
    using get_header_info_height [OF hi] h by simp
  have srt: "votes_sort srt" and age: "max_age (bh_thresholds bh) < 0xFFFF" using env by (auto simp: env_ok_def)
  have mid: "mid_wf bh (k + 1) {} db"
    using wf tables_wf_mid tip h(1) unat_height_succ [OF h(2)] by (simp add: dbs_wf_def next_height_def)
  show ?thesis
  proof (rule extend_messages [OF ext hi k [symmetric] act])
    fix cb0 cb3 cb4 ms1 acks ms3 ms4 active bps
    assume new: "coinbase_builder_new B txouts = Inr cb0"
      and push3: "builder_push_all cb0 (ms1 @ map m2_of acks @ ms3) = Inr cb3"
      and push4: "builder_push_all cb0 (ms1 @ map m2_of acks @ ms3 @ ms4) = Inr cb4"
      and built: "build B cb4 = Inr outs" and active: "get_active_sidechains db = Inr active"
      and ms1: "ms1 = [] \<or> (\<exists>m1. ms1 = [M1ProposeSidechain m1])"
      and hashes: "\<forall>a\<in>set acks. \<exists>d. ack_description_hash a = sha256d_hash B d"
      and bps: "get_bundle_proposals db (used_slots active) (rows_bundles rows) = Inr bps"
      and ms3: "ms3 = [] \<or> (\<exists>n m. select_bundle_proposal bps = Some (n, m) \<and>
        ms3 = [M3ProposeBundle \<lparr>m3_sidechain_number = n, m3_bundle_txid = m\<rparr>])"
      and ms4: "ms4 = [] \<or> (\<exists>votes. ms4 = [M4AckBundles (from_votes votes)] \<and>
        select_bundle_votes db (rows_bundle_acks rows) bps bp active = Inr votes \<and>
        \<not> m2s_may_activate_unused_slot (np_thresholds (bh_params bh)) sidechains (cb_messages cb3) (used_slots active) (k + 1))"
    note bm = built_messages [OF new none push4] and bm3 = built_messages [OF new none push3]
    have m3: "m3_fresh (active_sidechains db) ms3" by (rule m3_selected [OF assms(3) bps active_slots(2) [OF active named] ms3])
    then have "\<forall>m\<in>set (ms1 @ map m2_of acks @ ms3 @ ms4). msg_wf m"
      using ms1 hashes ms4 assms(2) by (auto simp: sha256d_hash_def m3_fresh_def)
    then have "coinbase_messages_new B outs = Inr (cb_messages cb4)"
      by (rule built_coinbase_roundtrip [OF assms(1) new push4 _ built])
    then obtain m1s where coll: "collect_messages B 0 outs coinbase_messages_default [] = Inr (cb_messages cb4, m1s)"
      and m1: "m1_listed B m1s ms1"
      by (rule m1_collected [OF _ ms1]) (unfold bm(1), simp)
    have m4: "m4_castable (bh_thresholds bh) (k + 1) db acks ms4"
      by (rule m4_selected [OF active named sc mid age bm3(2) _ ms4 [folded t]]) (unfold bm3(1), auto)
    have "distinct (map ack_sidechain_number acks)" by (rule distinct_m2 [OF bm(2,1)])
    from produced_messages_handled [OF mid srt age m1 this m3 m4, of tip] obtain evs ds db' S where
      loop: "messages_loop B srt bh (k + 1) tip m1s (ms1 @ map m2_of acks @ ms3 @ ms4) [] db = Inr ([], evs, ds, db')"
      and "mid_wf bh (k + 1) S db'" by blast
    then have "pending_wf (active_sidechains db')" by (simp add: mid_wf_def active_wf_def)
    then show ?thesis
      using connect_coinbase_succeeds [of B "coinbase\<lparr>tx_output := outs\<rparr>" "cb_messages cb4" m1s srt bh "k + 1" tip db] coll loop
      unfolding bm(1) by auto
  qed
qed

definition sample_producer_chain :: dbs where
  "sample_producer_chain = sample_chain\<lparr>
     active_sidechains := sample_treasury\<lparr>sidechain_db := [4 \<mapsto>
       sample_sidechain\<lparr>sc_proposal := \<lparr>prop_sidechain_number = 4, prop_description = [0]\<rparr>\<rparr>]\<rparr>,
     block_hashes := (block_hashes sample_chain)\<lparr>header_db := [pad32 [3] \<mapsto> sample_header\<lparr>hdr_nonce := 3\<rparr>]\<rparr>\<rparr>"

definition sample_rows :: policy_rows where
  "sample_rows = \<lparr>rows_proposals = [\<lparr>prop_sidechain_number = 7, prop_description = [0, 1]\<rparr>], rows_acks = [],
     rows_bundles = [], rows_bundle_acks = [(4, pad32 [9])]\<rparr>"

lemma active_wf_rename:
  "active_wf a \<Longrightarrow> (\<And>n. f n = None \<longleftrightarrow> sidechain_db a n = None) \<Longrightarrow> active_wf (a\<lparr>sidechain_db := f\<rparr>)"
  by (simp add: active_wf_def ledger_wf_def pending_wf_def outpoints_wf_def cong: option.case_cong nat.case_cong)

lemma sample_producer_wf: "dbs_wf sample_handler sample_producer_chain" "slots_named sample_producer_chain"
proof -
  have "active_wf (active_sidechains sample_producer_chain)"
    using active_wf_rename [OF sample_treasury_wf, of "[4 \<mapsto>
       sample_sidechain\<lparr>sc_proposal := \<lparr>prop_sidechain_number = 4, prop_description = [0]\<rparr>\<rparr>]"]
    by (simp add: sample_producer_chain_def) (simp add: sample_treasury_def)
  then show "dbs_wf sample_handler sample_producer_chain"
    using sample_hash_ne
    by (simp add: dbs_wf_def tables_wf_def diffs_wf_def sample_producer_chain_def sample_chain_def dbs_empty_def
        block_hash_dbs_empty_def)
  show "slots_named sample_producer_chain"
    by (simp add: slots_named_def sample_producer_chain_def)
qed

lemma sample_producer_active: "get_active_sidechains sample_producer_chain =
    Inr [sample_sidechain\<lparr>sc_proposal := \<lparr>prop_sidechain_number = 4, prop_description = [0]\<rparr>\<rparr>]"
proof -
  have "numbers (active_sidechains sample_producer_chain) = [4]"
    by (simp add: numbers_def sample_producer_chain_def)
      (rule filter_unique [OF all_slots_distinct], simp add: all_slots_set)
  then show ?thesis
    by (simp add: get_active_sidechains_def) (simp add: sample_producer_chain_def sample_sidechain_def)
qed

lemma sample_extend: "\<exists>outs. extend_coinbase_txouts sample_btc (bh_params sample_handler) sample_producer_chain []
    sample_rows AckAll PolNone (pad32 [3]) [] = Inr outs \<and> length outs = 2"
proof -
  have hi: "get_header_info sample_btc (block_hashes sample_producer_chain) (pad32 [3]) = Inr \<lparr>hi_block_hash = pad32 [3],
      hi_prev_block_hash = pad32 [3], hi_height = 11, hi_work = 1, hi_timestamp = hdr_time sample_header\<rparr>"
    using sample_hash_ne
    by (auto simp: get_header_info_def try_get_header_info_def sample_producer_chain_def sample_chain_def sample_header_def)
  have pend: "get_pending_withdrawals sample_producer_chain 4 = Inr [(pad32 [9], \<lparr>pi_vote_count = 200, pi_proposal_height = 8\<rparr>)]"
    by (simp add: get_pending_withdrawals_def sample_producer_chain_def sample_treasury_def)
  have votes: "select_bundle_votes sample_producer_chain [(4, pad32 [9])] [] PolNone
      [sample_sidechain\<lparr>sc_proposal := \<lparr>prop_sidechain_number = 4, prop_description = [0]\<rparr>\<rparr>] = Inr [Upvote 0]"
    by (simp add: pend resolve_def first_matching_def u16_try_from_def)
  show ?thesis
    by (simp add: extend_coinbase_txouts_def sample_producer_active hi sample_rows_def votes
        coinbase_builder_new_def coinbase_messages_new_def select_sidechain_proposal_def propose_sidechain_def
        builder_push_def next_vout_index_def coinbase_messages_default_def cm_append_def
        select_sidechain_acks_def get_active_sidechain_proposals_def select_bundle_proposal_def
        m2s_may_activate_unused_slot_def m2_ack_slots_def m3_exists_def ack_bundles_def from_votes_def
        build_def build_extension_def m4_to_script_def m1_to_script_def op_return_of_def push_bytes_try_from_def
        m4_message_def M4_TAG_def m1_message_def M1_TAG_def ONE_BYTE_TAG_def
        del: select_bundle_votes.simps)
qed

theorem produced_coinbase_connects_witness:
  "\<exists>outs r. extend_coinbase_txouts sample_btc (bh_params sample_handler) sample_producer_chain []
      sample_rows AckAll PolNone (pad32 [3]) [] = Inr outs \<and> length outs = 2 \<and>
    connect_coinbase sample_btc sort_by_votes sample_handler 12 (pad32 [3]) (sample_coinbase\<lparr>tx_output := outs\<rparr>)
      sample_producer_chain = Inr r"
proof -
  from sample_extend obtain outs where ext: "extend_coinbase_txouts sample_btc (bh_params sample_handler)
      sample_producer_chain [] sample_rows AckAll PolNone (pad32 [3]) [] = Inr outs" "length outs = 2" by blast
  have "\<exists>r. connect_coinbase sample_btc sort_by_votes sample_handler (11 + 1) (pad32 [3]) (sample_coinbase\<lparr>tx_output := outs\<rparr>)
      sample_producer_chain = Inr r"
  proof (rule produced_coinbase_connects [OF sample_codec _ _ ext(1) _ _ sample_producer_wf(2) _ _ _ _ sample_producer_wf(1) sample_env])
    show "rows_wf sample_rows" by (simp add: rows_wf_def sample_rows_def)
    show "map_of [] = proposal_id_to_sidechain sample_producer_chain"
      by (simp add: sample_producer_chain_def sample_chain_def dbs_empty_def)
    show "current_chain_tip sample_producer_chain = Some (pad32 [3])"
      "height_db (block_hashes sample_producer_chain) (pad32 [3]) = Some 11"
      using sample_hash_ne by (simp_all add: sample_producer_chain_def sample_chain_def)
    show "bh_thresholds sample_handler = np_thresholds (bh_params sample_handler)"
      by (simp add: sample_handler_def network_params_new_def Let_def)
  qed (simp_all add: coinbase_messages_new_def)
  with ext show ?thesis by auto
qed

section \<open>The suffix pays what the treasury holds\<close>

text \<open>The specification of the suffix. What a slot holds is its treasury output and the treasury outputs
  still to be consolidated into it. The approved bundles are taken in order: one of a slot with no treasury output, or one
  that costs more than the slot holds, is left; any other is paid by the transaction that spends
  everything the slot holds, in order, to the bundle's payouts and, first, to a treasury output with all that is left,
  which is what the slot holds from then on.\<close>

type_synonym treasuries = "sidechain_number \<Rightarrow> ctip option \<times> ctip list"

definition treasuries_of :: "ctips \<Rightarrow> treasuries" where
  "treasuries_of ctips n = (ctips_consolidated ctips n,
     case by_sidechain (ctips_unconsolidated ctips) n of Some cs \<Rightarrow> cs | None \<Rightarrow> [])"

definition held :: "ctip option \<times> ctip list \<Rightarrow> ctip list" where
  "held t = (case fst t of Some c \<Rightarrow> [c] | None \<Rightarrow> []) @ snd t"

definition worth :: "ctip option \<times> ctip list \<Rightarrow> nat" where
  "worth t = sum_list (map (\<lambda>c. unat (ctip_value c)) (held t))"

definition spend :: "ctip list \<Rightarrow> txin list" where
  "spend cs = map (\<lambda>c. default_txin (ctip_outpoint c)) cs"

definition bundle_cost :: "blinded_m6 \<Rightarrow> nat" where
  "bundle_cost bm = unat (bm_fee bm) + unat (bm_payout bm)"

definition paid_to :: "(sidechain_number \<times> blinded_m6) list \<Rightarrow> sidechain_number \<Rightarrow> nat" where
  "paid_to paid n = sum_list (map (\<lambda>(k, bm). if k = n then bundle_cost bm else 0) paid)"

definition approved :: "thresholds \<Rightarrow> (sidechain_number \<times> bundle_proposals) list \<Rightarrow> (sidechain_number \<times> blinded_m6) list" where
  "approved t bps = concat (map (\<lambda>(n, ps). map (\<lambda>(m, bm, info). (n, bm)) (filter (\<lambda>(m, bm, info).
     case info of None \<Rightarrow> False | Some i \<Rightarrow> withdrawal_bundle_inclusion_threshold t < pi_vote_count i) ps)) bps)"

definition payout_tx :: "op_drivechain \<Rightarrow> sidechain_number \<Rightarrow> ctip list \<Rightarrow> amount \<Rightarrow> blinded_m6 \<Rightarrow> transaction" where
  "payout_tx od n cs v bm = (bm_tx bm)\<lparr>tx_input := spend cs,
     tx_output := \<lparr>to_value = v, to_script_pubkey = drivechain_script od n\<rparr> # tl (tx_output (bm_tx bm))\<rparr>"

inductive pays_out :: "btc \<Rightarrow> op_drivechain \<Rightarrow> treasuries \<Rightarrow> (sidechain_number \<times> blinded_m6) list \<Rightarrow>
    transaction list \<Rightarrow> (sidechain_number \<times> blinded_m6) list \<Rightarrow> treasuries \<Rightarrow> bool" for B od where
  pays_out_nil: "pays_out B od T [] [] [] T"
| pays_out_no_treasury: "fst (T n) = None \<Longrightarrow> pays_out B od T bs txs paid T' \<Longrightarrow> pays_out B od T ((n, bm) # bs) txs paid T'"
| pays_out_too_dear: "worth (T n) < bundle_cost bm \<Longrightarrow> pays_out B od T bs txs paid T' \<Longrightarrow>
    pays_out B od T ((n, bm) # bs) txs paid T'"
| pays_out_pay: "fst (T n) \<noteq> None \<Longrightarrow> unat v + bundle_cost bm = worth (T n) \<Longrightarrow> m6 = payout_tx od n (held (T n)) v bm \<Longrightarrow>
    pays_out B od (T(n := (Some \<lparr>ctip_outpoint = \<lparr>op_txid = b_compute_txid B m6, op_vout = 0\<rparr>, ctip_value = v\<rparr>, [])))
      bs txs paid T' \<Longrightarrow>
    pays_out B od T ((n, bm) # bs) (m6 # txs) ((n, bm) # paid) T'"

definition consolidation :: "op_drivechain \<Rightarrow> treasuries \<Rightarrow> sidechain_number list \<Rightarrow> transaction list" where
  "consolidation od T slots = (if slots = [] then [] else
     [\<lparr>tx_version = 2, tx_lock_time = 0, tx_input = concat (map (\<lambda>n. spend (held (T n))) slots),
       tx_output = map (\<lambda>n. create_m5_deposit_output od n (word_of_nat (worth (T n)))) slots\<rparr>])"

definition suffix_paid :: "btc \<Rightarrow> op_drivechain \<Rightarrow> ctips \<Rightarrow> (sidechain_number \<times> blinded_m6) list \<Rightarrow> transaction list \<Rightarrow> ctips \<Rightarrow> bool" where
  "suffix_paid B od ctips bs txs ctips' \<longleftrightarrow> uc_indexed (ctips_unconsolidated ctips') \<and>
     (\<exists>paid. pays_out B od (treasuries_of ctips) bs txs paid (treasuries_of ctips'))"

lemma paid_to_simps [simp]:
  "paid_to [] n = 0" "paid_to ((k, bm) # ps) n = (if k = n then bundle_cost bm else 0) + paid_to ps n"
  "paid_to (ps @ qs) n = paid_to ps n + paid_to qs n"
  by (simp_all add: paid_to_def)

lemma approved_simps [simp]:
  "approved t [] = []" "approved t (x # y # bps) = approved t [x] @ approved t (y # bps)"
  "approved t [(n, [])] = []" "approved t [(n, (m, bm, None) # ps)] = approved t [(n, ps)]"
  "approved t [(n, (m, bm, Some i) # ps)] = (if pi_vote_count i \<le> withdrawal_bundle_inclusion_threshold t
     then approved t [(n, ps)] else (n, bm) # approved t [(n, ps)])"
  by (auto simp: approved_def)

lemma checked_sub_both:
  "(case checked_sub v (a :: u64) of None \<Rightarrow> None | Some w \<Rightarrow> checked_sub w b) =
     (if unat a + unat b \<le> unat v then Some (v - a - b) else None)"
proof (cases "a \<le> v")
  case True
  then have "unat (v - a) = unat v - unat a" by (rule unat_sub)
  with True show ?thesis by (auto simp: checked_sub_def word_le_nat_alt)
next
  case False
  then show ?thesis by (auto simp: checked_sub_def word_le_nat_alt)
qed

lemma blinded_m6_shape:
  assumes "blinded_m6_try_from B tx0 = Inr bm"
  obtains f ps where "tx_output (bm_tx bm) = f # ps" "tx_input (bm_tx bm) = []"
  using assms by (auto simp: blinded_m6_try_from_def split: if_splits list.splits option.splits sum.splits)

lemma worth_simps [simp]: "worth (None, cs) = sum_list (map (\<lambda>c. unat (ctip_value c)) cs)"
  "worth (Some c, cs) = unat (ctip_value c) + sum_list (map (\<lambda>c. unat (ctip_value c)) cs)"
  by (simp_all add: worth_def held_def)

lemma pays_out_conserves:
  "pays_out B od T bs txs paid T' \<Longrightarrow> worth (T' n) + paid_to paid n = worth (T n)"
  by (induction rule: pays_out.induct) auto

lemma pays_out_functional:
  assumes "pays_out B od T bs txs paid T'" "pays_out B od T bs txs' paid' T''"
  shows "txs' = txs \<and> paid' = paid \<and> T'' = T'"
  using assms
proof (induction arbitrary: txs' paid' T'' rule: pays_out.induct)
  case (pays_out_nil T)
  then show ?case by (auto elim: pays_out.cases)
next
  case (pays_out_no_treasury T n bs txs paid T' bm)
  from pays_out_no_treasury.prems pays_out_no_treasury.hyps(1) pays_out_no_treasury.IH show ?case
    by (auto elim: pays_out.cases)
next
  case (pays_out_too_dear T n bm bs txs paid T')
  from pays_out_too_dear.prems pays_out_too_dear.hyps(1) pays_out_too_dear.IH show ?case
    by (auto elim: pays_out.cases)
next
  case (pays_out_pay T n v bm m6 bs txs paid T')
  from pays_out_pay.prems show ?case
  proof (cases rule: pays_out.cases)
    case (pays_out_pay v' m6' txs1 paid1)
    then have "v' = v" using pays_out_pay.hyps(2) by (metis add_right_cancel word_unat_eq_iff)
    then show ?thesis using pays_out_pay pays_out_pay.hyps(3) pays_out_pay.IH by blast
  qed (use pays_out_pay.hyps in auto)
qed

lemma pays_out_append:
  "pays_out B od T bs txs paid T1 \<Longrightarrow> pays_out B od T1 bs' txs' paid' T' \<Longrightarrow>
     pays_out B od T (bs @ bs') (txs @ txs') (paid @ paid') T'"
  by (induction rule: pays_out.induct) (auto intro: pays_out.intros)

lemma pays_out_subseq: "pays_out B od T bs txs paid T' \<Longrightarrow> subseq paid bs"
  by (induction rule: pays_out.induct) (auto intro: list_emb.intros)

lemma pays_out_none:
  "fst (T n) = None \<Longrightarrow> \<forall>(k, bm)\<in>set bs. k = n \<Longrightarrow> pays_out B od T bs [] [] T"
  by (induction bs) (auto intro: pays_out.intros)


lemma finalize_m6_exact:
  assumes lt: "worth (Some c, cs) < 2 ^ 64" and bm: "blinded_m6_try_from B tx0 = Inr bm"
  shows "bundle_cost bm \<le> worth (Some c, cs) \<Longrightarrow> \<exists>v. unat v + bundle_cost bm = worth (Some c, cs) \<and>
      finalize_m6 B od n c cs bm = Inr (payout_tx od n (c # cs) v bm,
        \<lparr>ctip_outpoint = \<lparr>op_txid = b_compute_txid B (payout_tx od n (c # cs) v bm), op_vout = 0\<rparr>, ctip_value = v\<rparr>)"
    and "worth (Some c, cs) < bundle_cost bm \<Longrightarrow> finalize_m6 B od n c cs bm = Inl AmountUnderflow"
proof -
  obtain v where v: "checked_sum_from (ctip_value c) (map ctip_value cs) = Some v"
    using checked_sum_from_None [of "ctip_value c" "map ctip_value cs"] lt
    by (cases "checked_sum_from (ctip_value c) (map ctip_value cs)") (auto simp: comp_def)
  have uv: "worth (Some c, cs) = unat v"
    using checked_sum_from_unat [OF v] by (simp add: comp_def)
  obtain f ps where tx: "tx_output (bm_tx bm) = f # ps" "tx_input (bm_tx bm) = []" by (rule blinded_m6_shape [OF bm])
  note both = checked_sub_both [where v = v and a = "bm_fee bm" and b = "bm_payout bm"]
    checked_sub_both [where v = v and a = "bm_payout bm" and b = "bm_fee bm"]
  show "\<exists>v. unat v + bundle_cost bm = worth (Some c, cs) \<and>
      finalize_m6 B od n c cs bm = Inr (payout_tx od n (c # cs) v bm,
        \<lparr>ctip_outpoint = \<lparr>op_txid = b_compute_txid B (payout_tx od n (c # cs) v bm), op_vout = 0\<rparr>, ctip_value = v\<rparr>)"
    if "bundle_cost bm \<le> worth (Some c, cs)"
  proof -
    have le: "unat (bm_fee bm) + unat (bm_payout bm) \<le> unat v" using that uv by (simp add: bundle_cost_def)
    have fee: "unat (v - bm_fee bm) = unat v - unat (bm_fee bm)" by (rule unat_sub) (use le in \<open>simp add: word_le_nat_alt\<close>)
    have "unat (v - bm_fee bm - bm_payout bm) = unat (v - bm_fee bm) - unat (bm_payout bm)"
      by (rule unat_sub) (use le fee in \<open>simp add: word_le_nat_alt\<close>)
    then have val: "unat (v - bm_fee bm - bm_payout bm) + bundle_cost bm = unat v" using le fee by (simp add: bundle_cost_def)
    have nt: "new_treasury_value v (bm_fee bm) (bm_payout bm) = Some (v - bm_fee bm - bm_payout bm)"
      using both(1) le by (simp add: new_treasury_value_def)
    obtain w where w: "checked_sub v (bm_payout bm) = Some w" "checked_sub w (bm_fee bm) = Some (v - bm_fee bm - bm_payout bm)"
      using both(2) le by (auto simp: add.commute diff_right_commute split: option.splits if_splits)
    have "into_m6 bm od n c cs = Inr (payout_tx od n (c # cs) (v - bm_fee bm - bm_payout bm) bm)"
      using v w tx by (simp add: into_m6_def payout_tx_def spend_def)
    then show ?thesis using v nt val uv by (intro exI [of _ "v - bm_fee bm - bm_payout bm"]) (simp add: finalize_m6_def)
  qed
  show "finalize_m6 B od n c cs bm = Inl AmountUnderflow" if "worth (Some c, cs) < bundle_cost bm"
    using that v both(1) unfolding uv by (simp add: finalize_m6_def new_treasury_value_def bundle_cost_def)
qed

lemma treasuries_of_pay:
  "treasuries_of (ctips\<lparr>ctips_unconsolidated := snd (uc_remove_sidechain n (ctips_unconsolidated ctips)),
      ctips_consolidated := (ctips_consolidated ctips)(n \<mapsto> s)\<rparr>) = (treasuries_of ctips)(n := (Some s, []))"
  by (rule ext) (simp add: treasuries_of_def uc_remove_sidechain_def Let_def)

lemma approved_slots: "\<forall>(k, bm)\<in>set (approved t [(n, ps)]). k = n"
  by (auto simp: approved_def)

lemma pay_bundles_pays_out:
  assumes "\<forall>k. worth (treasuries_of ctips k) < 2 ^ 64" "\<forall>(m, bm, i)\<in>set ps. \<exists>tx. blinded_m6_try_from B tx = Inr bm"
    and "uc_indexed (ctips_unconsolidated ctips)"
  shows "\<exists>txs ctips'. pay_bundles B params n ps ctips = Inr (txs, ctips') \<and>
    suffix_paid B (np_op_drivechain params) ctips (approved (np_thresholds params) [(n, ps)]) txs ctips'"
  using assms
proof (induction B params n ps ctips rule: pay_bundles.induct)
  case (1 B params n ctips)
  then show ?case by (auto simp: suffix_paid_def intro: pays_out.intros)
next
  case (2 B params n m bm rest ctips)
  then show ?case by simp
next
  case (3 B params n m bm info rest ctips)
  let ?od = "np_op_drivechain params" let ?rest = "approved (np_thresholds params) [(n, rest)]"
  have wf: "\<forall>(m, bm, i)\<in>set rest. \<exists>tx. blinded_m6_try_from B tx = Inr bm" using 3(5) by simp
  show ?case
  proof (cases "pi_vote_count info \<le> withdrawal_bundle_inclusion_threshold (np_thresholds params)")
    case True
    from 3(1) [OF True 3(4) wf 3(6)] True show ?thesis by simp
  next
    case False
    show ?thesis
    proof (cases "ctips_consolidated ctips n")
      case None
      then have "fst (treasuries_of ctips n) = None" by (simp add: treasuries_of_def)
      from pays_out_none [where T = "treasuries_of ctips" and n = n, OF this approved_slots] 3(6)
      have "suffix_paid B ?od ctips (approved (np_thresholds params) [(n, (m, bm, Some info) # rest)]) [] ctips"
        unfolding suffix_paid_def by blast
      with None False show ?thesis by simp
    next
      case (Some c)
      let ?cs = "case uc_get_by_sidechain (ctips_unconsolidated ctips) n of Some cs \<Rightarrow> cs | None \<Rightarrow> []"
      have T: "treasuries_of ctips n = (Some c, ?cs)" using Some by (simp add: treasuries_of_def uc_get_by_sidechain_def)
      from 3(5) obtain tx0 where tx0: "blinded_m6_try_from B tx0 = Inr bm" by auto
      note fin = finalize_m6_exact [OF 3(4) [rule_format, of n, unfolded T] tx0, where n = n and od = ?od]
      show ?thesis
      proof (cases "worth (Some c, ?cs) < bundle_cost bm")
        case over: True
        from fin(2) [OF over] have f: "finalize_m6 B ?od n c ?cs bm = Inl AmountUnderflow" .
        from 3(2) [OF False Some refl f refl 3(4) wf 3(6)] obtain txs ctips' where
          r: "pay_bundles B params n rest ctips = Inr (txs, ctips')" "suffix_paid B ?od ctips ?rest txs ctips'" by blast
        have "suffix_paid B ?od ctips ((n, bm) # ?rest) txs ctips'"
          using r(2) over unfolding suffix_paid_def T [symmetric] by (blast intro: pays_out_too_dear)
        with f Some False r(1) show ?thesis by simp
      next
        case False': False
        then have le: "bundle_cost bm \<le> worth (Some c, ?cs)" by simp
        from fin(1) [OF le] obtain v where v: "unat v + bundle_cost bm = worth (Some c, ?cs)"
          and f: "finalize_m6 B ?od n c ?cs bm = Inr (payout_tx ?od n (c # ?cs) v bm,
          \<lparr>ctip_outpoint = \<lparr>op_txid = b_compute_txid B (payout_tx ?od n (c # ?cs) v bm), op_vout = 0\<rparr>, ctip_value = v\<rparr>)"
          by blast
        let ?m6 = "payout_tx ?od n (c # ?cs) v bm"
        let ?s = "\<lparr>ctip_outpoint = \<lparr>op_txid = b_compute_txid B ?m6, op_vout = 0\<rparr>, ctip_value = v\<rparr>"
        let ?ctips = "ctips\<lparr>ctips_unconsolidated := snd (uc_remove_sidechain n (ctips_unconsolidated ctips)),
          ctips_consolidated := (ctips_consolidated ctips)(n \<mapsto> ?s)\<rparr>"
        have "unat v < 2 ^ 64" using 3(4) [rule_format, of n] v unfolding T by linarith
        then have lt: "\<forall>k. worth (treasuries_of ?ctips k) < 2 ^ 64" using 3(4) unfolding treasuries_of_pay by simp
        have ix: "uc_indexed (ctips_unconsolidated ?ctips)" using uc_remove_sidechain_indexed [OF 3(6)] by simp
        from 3(3) [OF False Some refl f refl lt wf ix] obtain txs ctips' where
          r: "pay_bundles B params n rest ?ctips = Inr (txs, ctips')" "suffix_paid B ?od ?ctips ?rest txs ctips'" by blast
        from r(2) obtain paid where p: "pays_out B ?od ((treasuries_of ctips)(n := (Some ?s, []))) ?rest txs paid (treasuries_of ctips')"
          "uc_indexed (ctips_unconsolidated ctips')" unfolding suffix_paid_def treasuries_of_pay by blast
        have "pays_out B ?od (treasuries_of ctips) ((n, bm) # ?rest) (?m6 # txs) ((n, bm) # paid) (treasuries_of ctips')"
          by (rule pays_out_pay [OF _ _ _ p(1)]) (use v in \<open>simp_all add: T held_def\<close>)
        with p(2) have "suffix_paid B ?od ctips ((n, bm) # ?rest) (?m6 # txs) ctips'" unfolding suffix_paid_def by blast
        with f Some False r(1) show ?thesis by simp
      qed
    qed
  qed
qed

lemma suffix_paid_append:
  "suffix_paid B od ctips bs txs ctips1 \<Longrightarrow> suffix_paid B od ctips1 bs' txs' ctips' \<Longrightarrow> suffix_paid B od ctips (bs @ bs') (txs @ txs') ctips'"
  by (auto simp: suffix_paid_def intro: pays_out_append)

lemma suffix_paid_bounded:
  assumes "suffix_paid B od ctips bs txs ctips'" "\<forall>k. worth (treasuries_of ctips k) < 2 ^ 64"
  shows "\<forall>k. worth (treasuries_of ctips' k) < 2 ^ 64"
  using assms by (metis suffix_paid_def pays_out_conserves add_lessD1)

lemma approved_Cons: "approved t (x # bps) = approved t [x] @ approved t bps"
  by (cases bps) simp_all

lemma pay_sidechains_pays_out:
  assumes "\<forall>k. worth (treasuries_of ctips k) < 2 ^ 64"
    and "\<forall>(n, ps)\<in>set bps. \<forall>(m, bm, i)\<in>set ps. \<exists>tx. blinded_m6_try_from B tx = Inr bm"
    and "uc_indexed (ctips_unconsolidated ctips)"
  shows "\<exists>txs ctips'. pay_sidechains B params bps ctips = Inr (txs, ctips') \<and>
    suffix_paid B (np_op_drivechain params) ctips (approved (np_thresholds params) bps) txs ctips'"
  using assms
proof (induction bps arbitrary: ctips)
  case Nil
  then show ?case by (auto simp: suffix_paid_def intro: pays_out.intros)
next
  case (Cons x bps)
  obtain n ps where x: "x = (n, ps)" by (cases x)
  from pay_bundles_pays_out [OF Cons.prems(1) _ Cons.prems(3), of ps B params n] Cons.prems(2) x
  obtain txs ctips1 where p: "pay_bundles B params n ps ctips = Inr (txs, ctips1)"
    "suffix_paid B (np_op_drivechain params) ctips (approved (np_thresholds params) [x]) txs ctips1" by auto
  from Cons.IH [OF suffix_paid_bounded [OF p(2) Cons.prems(1)]] Cons.prems(2) p(2)
  obtain txs' ctips' where q: "pay_sidechains B params bps ctips1 = Inr (txs', ctips')"
    "suffix_paid B (np_op_drivechain params) ctips1 (approved (np_thresholds params) bps) txs' ctips'"
    by (auto simp: suffix_paid_def)
  from p(1) q(1) x suffix_paid_append [OF p(2) q(2), folded approved_Cons] show ?case by simp
qed

lemma consolidation_parts_exact:
  assumes "\<forall>k. worth (treasuries_of ctips k) < 2 ^ 64"
  shows "consolidation_parts od ctips slots = Inr (concat (map (\<lambda>n. spend (held (treasuries_of ctips n))) slots),
    map (\<lambda>n. create_m5_deposit_output od n (word_of_nat (worth (treasuries_of ctips n)))) slots)"
proof (induction slots)
  case (Cons n slots)
  have cs: "(case ctips_consolidated ctips n of Some c \<Rightarrow> [c] | None \<Rightarrow> []) @
    (case by_sidechain (ctips_unconsolidated ctips) n of Some cs \<Rightarrow> cs | None \<Rightarrow> []) = held (treasuries_of ctips n)"
    by (simp add: held_def treasuries_of_def)
  have tot: "sum_list (map unat (map ctip_value (held (treasuries_of ctips n)))) = worth (treasuries_of ctips n)"
    by (simp add: worth_def comp_def)
  obtain v where v: "checked_sum_from 0 (map ctip_value (held (treasuries_of ctips n))) = Some v"
    using checked_sum_from_None [of 0 "map ctip_value (held (treasuries_of ctips n))"] assms [rule_format, of n] tot
    by (cases "checked_sum_from 0 (map ctip_value (held (treasuries_of ctips n)))") auto
  have "worth (treasuries_of ctips n) = unat v" using checked_sum_from_unat [OF v] tot by simp
  then have "v = word_of_nat (worth (treasuries_of ctips n))" by simp
  with v Cons show ?case by (simp only: consolidation_parts.simps Let_def cs) (simp add: spend_def)
qed simp

text \<open>C5: The suffix of a block is always built, and it is exactly the M6s that settle the approved bundles, in
  order, followed by the consolidation. Each M6 spends everything its slot holds and pays the bundle's
  own outputs behind a treasury output with the rest, bundles the slot cannot pay are skipped, the
  holdings of every slot shrink by exactly the fees and payouts of its bundles, and the one
  consolidation spends everything held by the slots that still have outputs to consolidate and pays
  each of them its whole holdings; there is none when no slot has. (The values of one slot add up to less than
  \<open>2\<^sup>6\<^sup>4\<close> satoshi, which the money supply ensures, the two maps of unconsolidated outputs agree,
  the bundles are ones \<open>BlindedM6\<close> accepts, and the iteration order of the hash map is a permutation.)\<close>

theorem suffix_conserves_treasury:
  assumes "\<forall>n. worth (treasuries_of ctips n) < 2 ^ 64" "uc_indexed (ctips_unconsolidated ctips)"
    and "\<forall>(n, ps)\<in>set bps. \<forall>(m, bm, i)\<in>set ps. \<exists>tx. blinded_m6_try_from B tx = Inr bm"
    and "\<forall>xs. mset (hash_order xs) = mset xs"
  shows "\<exists>m6s paid T slots. suffix_txs_for_proposals B hash_order params bps ctips =
      Inr (m6s @ consolidation (np_op_drivechain params) T slots) \<and>
    pays_out B (np_op_drivechain params) (treasuries_of ctips) (approved (np_thresholds params) bps) m6s paid T \<and>
    (\<forall>n. worth (T n) + paid_to paid n = worth (treasuries_of ctips n)) \<and>
    distinct slots \<and> set slots = {n. snd (T n) \<noteq> []}"
proof -
  let ?od = "np_op_drivechain params"
  from pay_sidechains_pays_out [OF assms(1,3,2)] obtain txs ctips' where
    p: "pay_sidechains B params bps ctips = Inr (txs, ctips')"
      "suffix_paid B ?od ctips (approved (np_thresholds params) bps) txs ctips'" by blast
  let ?slots = "hash_order (uc_slots (ctips_unconsolidated ctips'))"
  from p(2) obtain paid where s: "pays_out B ?od (treasuries_of ctips) (approved (np_thresholds params) bps) txs paid (treasuries_of ctips')"
    and ix: "uc_indexed (ctips_unconsolidated ctips')" unfolding suffix_paid_def by blast
  have perm: "mset ?slots = mset (uc_slots (ctips_unconsolidated ctips'))" using assms(4) by blast
  have sl: "distinct ?slots" "set ?slots = set (uc_slots (ctips_unconsolidated ctips'))"
    using mset_eq_imp_distinct_iff [OF perm] mset_eq_setD [OF perm] by (simp_all add: uc_slots_def all_slots_distinct)
  have slots: "set ?slots = {n. snd (treasuries_of ctips' n) \<noteq> []}"
    using uc_indexed_D(2) [OF ix] unfolding sl(2) by (auto simp: uc_slots_def all_slots_set treasuries_of_def split: option.splits)
  have "uc_is_empty (ctips_unconsolidated ctips') \<longleftrightarrow> ?slots = []"
    unfolding uc_indexed_empty [OF ix] set_empty [symmetric] sl(2) by (simp add: uc_slots_def all_slots_set)
  then have "suffix_txs_for_proposals B hash_order params bps ctips = Inr (txs @ consolidation ?od (treasuries_of ctips') ?slots)"
    using p(1) consolidation_parts_exact [OF suffix_paid_bounded [OF p(2) assms(1)], of ?od ?slots]
    by (simp add: suffix_txs_for_proposals_def consolidation_def)
  with s pays_out_conserves [OF s] sl(1) slots show ?thesis by blast
qed

definition sample_suffix_ctips :: ctips where
  "sample_suffix_ctips = \<lparr>ctips_consolidated = [4 \<mapsto> sample_ctip],
     ctips_unconsolidated = \<lparr>by_outpoint = [(\<lparr>op_txid = pad32 [6], op_vout = 0\<rparr>, 5, 7)],
       by_sidechain = [5 \<mapsto> [\<lparr>ctip_outpoint = \<lparr>op_txid = pad32 [6], op_vout = 0\<rparr>, ctip_value = 7\<rparr>]]\<rparr>\<rparr>"

definition sample_bundles :: "(sidechain_number \<times> bundle_proposals) list" where
  "sample_bundles = [(4, [(pad32 [9], sample_blinded_m6, Some \<lparr>pi_vote_count = 200, pi_proposal_height = 8\<rparr>)])]"

lemma sample_worth: "worth (treasuries_of sample_suffix_ctips n) = (if n = 4 then 100 else if n = 5 then 7 else 0)"
  by (simp add: treasuries_of_def sample_suffix_ctips_def sample_ctip_def)

lemma sample_suffix_indexed: "uc_indexed (ctips_unconsolidated sample_suffix_ctips)"
  by (auto simp: uc_indexed_def sample_suffix_ctips_def)

theorem suffix_conserves_treasury_witness:
  "\<exists>m6s paid T slots. suffix_txs_for_proposals sample_btc id (bh_params sample_handler) sample_bundles sample_suffix_ctips =
      Inr (m6s @ consolidation (np_op_drivechain (bh_params sample_handler)) T slots) \<and>
    pays_out sample_btc (np_op_drivechain (bh_params sample_handler)) (treasuries_of sample_suffix_ctips)
      [(4, sample_blinded_m6)] m6s paid T \<and>
    worth (T 4) + paid_to paid 4 = 100 \<and> worth (T 5) + paid_to paid 5 = 7 \<and> distinct slots \<and> set slots = {n. snd (T n) \<noteq> []}"
proof -
  have a: "approved (np_thresholds (bh_params sample_handler)) sample_bundles = [(4, sample_blinded_m6)]"
    by (simp add: sample_bundles_def sample_handler_def network_params_new_def Let_def SHORT_def)
  have tot: "\<forall>n. worth (treasuries_of sample_suffix_ctips n) < 2 ^ 64" by (simp add: sample_worth)
  have wf: "\<forall>(n, ps)\<in>set sample_bundles. \<forall>(m, bm, i)\<in>set ps. \<exists>tx. blinded_m6_try_from sample_btc tx = Inr bm"
    using sample_blinded_m6_try_from by (auto simp: sample_bundles_def)
  have "\<forall>xs. mset (id xs) = mset (xs :: sidechain_number list)" by simp
  from suffix_conserves_treasury [OF tot sample_suffix_indexed wf this, where params = "bh_params sample_handler"]
  obtain m6s paid T slots where r:
    "suffix_txs_for_proposals sample_btc id (bh_params sample_handler) sample_bundles sample_suffix_ctips =
      Inr (m6s @ consolidation (np_op_drivechain (bh_params sample_handler)) T slots)"
    "pays_out sample_btc (np_op_drivechain (bh_params sample_handler)) (treasuries_of sample_suffix_ctips)
      [(4, sample_blinded_m6)] m6s paid T"
    "\<forall>n. worth (T n) + paid_to paid n = worth (treasuries_of sample_suffix_ctips n)"
    "distinct slots" "set slots = {n. snd (T n) \<noteq> []}" unfolding a by blast
  from r(3) [rule_format, of 4] r(3) [rule_format, of 5] r(1,2,4,5) show ?thesis unfolding sample_worth by auto
qed

end
