(* ===== verification/Queries.thy ===== *)
theory Queries
  imports Ancestors
begin

text \<open>
  What the service around the tables reads from them (\<open>src/lib/validator/mod.rs\<close>): how the chain
  changed since a block (\<open>chain_diff\<close>), the headers of the active chain, block infos and BMM
  commitments of a block and its ancestors, treasury sequence numbers and pending withdrawals.

  A walk over the \<open>ancestor_headers\<close> iterator that has no bound on its length is an option,
  \<open>None\<close> where a cycle of headers would keep it running.
\<close>

section \<open>Walks\<close>

text \<open>\<open>take_while\<close> and \<open>take\<close> of the iterator.\<close>

partial_function (option) ancestors_while :: "block_hash_dbs \<Rightarrow> (blockhash \<Rightarrow> bool) \<Rightarrow> blockhash \<Rightarrow> blockhash list option" where
  "ancestors_while db p h =
     (case ancestor_next db h of
        None \<Rightarrow> Some []
      | Some ((block_hash, _), h') \<Rightarrow>
          if p block_hash then Option.bind (ancestors_while db p h') (\<lambda>hs. Some (block_hash # hs))
          else Some [])"

fun ancestors_take :: "block_hash_dbs \<Rightarrow> nat \<Rightarrow> blockhash \<Rightarrow> blockhash list" where
  "ancestors_take db 0 h = []"
| "ancestors_take db (Suc n) h =
     (case ancestor_next db h of
        None \<Rightarrow> []
      | Some ((block_hash, _), h') \<Rightarrow> block_hash # ancestors_take db n h')"

section \<open>How the chain changed\<close>

record chain_diff_data =
  cd_tip :: blockhash
  cd_tip_height :: u32
  cd_rebuilt :: bool
  cd_disconnected :: "blockhash list"
  cd_connected :: "(blockhash \<times> block_info) list"

datatype chain_diff_error =
    CD_Db fault
  | CD_LastCommonAncestor last_common_ancestor_error
  | CD_MissingBlockInfo blockhash

fun connected_infos :: "block_hash_dbs \<Rightarrow> blockhash list \<Rightarrow> chain_diff_error + (blockhash \<times> block_info) list" where
  "connected_infos db [] = Inr []"
| "connected_infos db (h # hs) =
     (case try_get_block_info db h of
        Inl e \<Rightarrow> Inl (CD_Db e)
      | Inr None \<Rightarrow> Inl (CD_MissingBlockInfo h)
      | Inr (Some bi) \<Rightarrow>
     (case connected_infos db hs of
        Inl e \<Rightarrow> Inl e
      | Inr rest \<Rightarrow> Inr ((h, bi) # rest)))"

definition diff_branches :: "network_params \<Rightarrow> block_hash_dbs \<Rightarrow> blockhash \<Rightarrow> u32 \<Rightarrow> blockhash option \<Rightarrow>
    (chain_diff_error + blockhash list \<times> blockhash list) option" where
  "diff_branches params db tip tip_height start =
     (case start of
        Some h \<Rightarrow>
          (case last_common_ancestor db h tip of
             Inl e \<Rightarrow> Some (Inl (CD_LastCommonAncestor e))
           | Inr fork_point \<Rightarrow>
               Option.bind (ancestors_while db (\<lambda>block_hash. block_hash \<noteq> fork_point) h) (\<lambda>disconnected.
               Option.bind (ancestors_while db (\<lambda>block_hash. block_hash \<noteq> fork_point) tip) (\<lambda>connected.
                 Some (Inr (disconnected, connected)))))
      | None \<Rightarrow>
          Some (Inr ([], ancestors_take db
            (unat (saturating_sub (tip_height + 1) (bip300_activation_height params))) tip)))"

definition chain_diff :: "network_params \<Rightarrow> dbs \<Rightarrow> blockhash option \<Rightarrow> (chain_diff_error + chain_diff_data option) option" where
  "chain_diff params db start =
     (case current_chain_tip db of
        None \<Rightarrow> Some (Inr None)
      | Some tip \<Rightarrow>
     (case height_db (block_hashes db) tip of
        None \<Rightarrow> Some (Inl (CD_Db MissingValue))
      | Some tip_height \<Rightarrow>
     (let start = (case start of Some h \<Rightarrow> if contains_header (block_hashes db) h then Some h else None | None \<Rightarrow> None) in
      Option.bind (diff_branches params (block_hashes db) tip tip_height start) (\<lambda>branches.
      case branches of
        Inl e \<Rightarrow> Some (Inl e)
      | Inr (disconnected, connected) \<Rightarrow>
     (case connected_infos (block_hashes db) (rev connected) of
        Inl e \<Rightarrow> Some (Inl e)
      | Inr infos \<Rightarrow> Some (Inr (Some \<lparr>cd_tip = tip, cd_tip_height = tip_height, cd_rebuilt = (start = None),
          cd_disconnected = disconnected, cd_connected = infos\<rparr>)))))))"

section \<open>Other queries\<close>

partial_function (option) list_headers_loop :: "block_hash_dbs \<Rightarrow> u32 \<Rightarrow> blockhash \<Rightarrow> (fault + (u32 \<times> blockhash) list) option" where
  "list_headers_loop db start_height h =
     (case ancestor_next db h of
        None \<Rightarrow> Some (Inr [])
      | Some ((block_hash, _), h') \<Rightarrow>
     (case height_db db block_hash of
        None \<Rightarrow> Some (Inl MissingValue)
      | Some height \<Rightarrow>
          if height < start_height then Some (Inr [])
          else Option.bind (list_headers_loop db start_height h') (\<lambda>r.
            Some (case r of Inl e \<Rightarrow> Inl e | Inr res \<Rightarrow> Inr ((height, block_hash) # res)))))"

definition list_headers :: "dbs \<Rightarrow> u32 \<Rightarrow> (fault + (u32 \<times> blockhash) list) option" where
  "list_headers db start_height =
     (case current_chain_tip db of
        None \<Rightarrow> Some (Inr [])
      | Some tip \<Rightarrow> map_option (map_sum id rev) (list_headers_loop (block_hashes db) start_height tip))"

definition try_get_block_height :: "dbs \<Rightarrow> fault + u32 option" where
  "try_get_block_height db =
     (case current_chain_tip db of
        None \<Rightarrow> Inr None
      | Some tip \<Rightarrow> (case height_db (block_hashes db) tip of None \<Rightarrow> Inl MissingValue | Some height \<Rightarrow> Inr (Some height)))"

fun block_infos_loop :: "block_hash_dbs \<Rightarrow> header_info list \<Rightarrow> fault + (header_info \<times> block_info) list" where
  "block_infos_loop db [] = Inr []"
| "block_infos_loop db (hi # his) =
     (case try_get_block_info db (hi_block_hash hi) of
        Inl e \<Rightarrow> Inl e
      | Inr None \<Rightarrow> Inr []
      | Inr (Some bi) \<Rightarrow>
     (case block_infos_loop db his of
        Inl e \<Rightarrow> Inl e
      | Inr res \<Rightarrow> Inr ((hi, bi) # res)))"

definition try_get_block_infos :: "btc \<Rightarrow> block_hash_dbs \<Rightarrow> blockhash \<Rightarrow> nat \<Rightarrow>
    fault + (header_info \<times> block_info) list option" where
  "try_get_block_infos B db block_hash max_ancestors =
     (case try_get_header_infos B db block_hash max_ancestors of
        Inl e \<Rightarrow> Inl e
      | Inr None \<Rightarrow> Inr None
      | Inr (Some header_infos) \<Rightarrow>
     (case try_get_block_info db block_hash of
        Inl e \<Rightarrow> Inl e
      | Inr None \<Rightarrow> Inr None
      | Inr (Some bi) \<Rightarrow>
     (case block_infos_loop db (tl header_infos) of
        Inl e \<Rightarrow> Inl e
      | Inr res \<Rightarrow> Inr (Some ((hd header_infos, bi) # res)))))"

datatype get_block_infos_error = GBIS_Db fault | GBIS_MissingHeaderBlock blockhash

definition get_block_infos :: "btc \<Rightarrow> block_hash_dbs \<Rightarrow> blockhash \<Rightarrow> nat \<Rightarrow>
    get_block_infos_error + (header_info \<times> block_info) list" where
  "get_block_infos B db block_hash max_ancestors =
     (case try_get_block_infos B db block_hash max_ancestors of
        Inl e \<Rightarrow> Inl (GBIS_Db e)
      | Inr None \<Rightarrow> Inl (GBIS_MissingHeaderBlock block_hash)
      | Inr (Some res) \<Rightarrow> Inr res)"

definition try_get_bmm_commitments :: "block_hash_dbs \<Rightarrow> blockhash \<Rightarrow> nat \<Rightarrow> bmm_commitments list" where
  "try_get_bmm_commitments db block_hash max_ancestors =
     List.map_filter id (takeWhile (\<lambda>c. c \<noteq> None)
       (map (bmm_commitments_db db) (ancestors_take db (max_ancestors + 1) block_hash)))"

definition get_ctip_sequence_number :: "dbs \<Rightarrow> sidechain_number \<Rightarrow> nat option" where
  "get_ctip_sequence_number db n = map_option (\<lambda>count. count - 1) (treasury_utxo_count (active_sidechains db) n)"

definition try_get_pending_withdrawal :: "dbs \<Rightarrow> sidechain_number \<Rightarrow> m6id \<Rightarrow> pending_m6id_info option" where
  "try_get_pending_withdrawal db n m =
     Option.bind (pending_m6ids_db (active_sidechains db) n) (\<lambda>pending. map_of pending m)"

section \<open>Branches\<close>

text \<open>The blocks from \<open>h\<close> down to, and without, its ancestor \<open>f\<close>.\<close>

inductive branch :: "block_hash_dbs \<Rightarrow> blockhash \<Rightarrow> blockhash list \<Rightarrow> blockhash \<Rightarrow> bool" for db f where
  stop: "branch db f [] f"
| step: "header_db db h = Some hdr \<Longrightarrow> h \<noteq> f \<Longrightarrow> branch db f hs (hdr_prev_blockhash hdr) \<Longrightarrow> branch db f (h # hs) h"

inductive_cases branch_ConsE: "branch db f (x # xs) h"

lemma ancestors_while_branch:
  assumes wf: "headers_wf B db" and "ancestor db f h" "known db h"
  shows "\<exists>hs. ancestors_while db (\<lambda>x. x \<noteq> f) h = Some hs \<and> branch db f hs h \<and> length hs + level db f = level db h"
  using assms(2,3)
proof (induction rule: ancestor.induct)
  case (self h)
  then show ?case
    by (subst ancestors_while.simps) (auto simp: ancestor_next_def branch.stop split: option.splits)
next
  case (parent h hdr f)
  note wf' = headers_wfD [OF wf parent.hyps(1)]
  have ne: "h \<noteq> f" using ancestor_level [OF wf parent.hyps(2) wf'(3)] wf'(4) by auto
  from parent.IH [OF wf'(3)] obtain hs where "ancestors_while db (\<lambda>x. x \<noteq> f) (hdr_prev_blockhash hdr) = Some hs"
    "branch db f hs (hdr_prev_blockhash hdr)" "length hs + level db f = level db (hdr_prev_blockhash hdr)" by blast
  with ne parent.hyps(1) wf'(4) show ?case
    by (subst ancestors_while.simps) (auto simp: ancestor_next_def intro: branch.step)
qed

lemma ancestors_take_branch:
  assumes wf: "headers_wf B db"
  shows "known db h \<Longrightarrow> n \<le> level db h \<Longrightarrow> \<exists>f. branch db f (ancestors_take db n h) h \<and> ancestor db f h \<and> level db f = level db h - n"
proof (induction n arbitrary: h)
  case 0
  then show ?case by (auto intro: branch.stop ancestor.self)
next
  case (Suc n)
  then have "h \<noteq> all_zeros" by auto
  with Suc.prems obtain hdr where hdr: "header_db db h = Some hdr" by (auto simp: known_def)
  note wf' = headers_wfD [OF wf hdr]
  from Suc.IH [OF wf'(3)] Suc.prems(2) wf'(4) obtain f where f: "branch db f (ancestors_take db n (hdr_prev_blockhash hdr)) (hdr_prev_blockhash hdr)"
    "ancestor db f (hdr_prev_blockhash hdr)" "level db f = level db (hdr_prev_blockhash hdr) - n" by auto
  have "h \<noteq> f" using f(3) wf'(4) by auto
  with f hdr wf'(4) show ?case
    by (intro exI [of _ f]) (auto simp: ancestor_next_def intro: branch.step ancestor.parent)
qed

lemma branch_ancestor: "branch db f hs h \<Longrightarrow> ancestor db f h"
  by (induction rule: branch.induct) (auto intro: ancestor.intros)

lemma branch_members: "branch db f hs h \<Longrightarrow> x \<in> set hs \<Longrightarrow> ancestor db x h \<and> header_db db x \<noteq> None"
  by (induction rule: branch.induct) (auto intro: ancestor.intros)

lemma connected_infos_Inr:
  "(\<And>h. h \<in> set hs \<Longrightarrow> \<exists>bi. try_get_block_info db h = Inr (Some bi)) \<Longrightarrow>
   \<exists>infos. connected_infos db hs = Inr infos \<and> map fst infos = hs \<and>
     (\<forall>(h, bi)\<in>set infos. try_get_block_info db h = Inr (Some bi))"
proof (induction hs)
  case (Cons h hs)
  then obtain bi where "try_get_block_info db h = Inr (Some bi)" by auto
  moreover from Cons obtain infos where "connected_infos db hs = Inr infos" "map fst infos = hs"
    "\<forall>(h, bi)\<in>set infos. try_get_block_info db h = Inr (Some bi)" by auto
  ultimately show ?case by auto
qed simp

text \<open>The headers of the active chain from a height on, oldest first.\<close>

lemma list_headers_loop_exact:
  assumes wf: "headers_wf B db"
  shows "known db h \<Longrightarrow> \<exists>res. list_headers_loop db start h = Some (Inr res) \<and>
    map (unat \<circ> fst) (rev res) = [unat start..<level db h] \<and>
    (\<forall>(k, x)\<in>set res. ancestor db x h \<and> height_db db x = Some k)"
proof (induction "level db h" arbitrary: h rule: less_induct)
  case less
  show ?case
  proof (cases "h = all_zeros")
    case True
    then have "header_db db h = None" using wf by (simp add: headers_wf_def)
    with True show ?thesis by (subst list_headers_loop.simps) (simp add: ancestor_next_def)
  next
    case False
    from level_known [OF wf less.prems False] obtain hdr k where
      hdr: "header_db db h = Some hdr" "height_db db h = Some k" and lev: "level db h = unat k + 1" .
    note wf' = headers_wfD [OF wf hdr(1)]
    show ?thesis
    proof (cases "k < start")
      case True
      then have "level db h \<le> unat start" using lev by (simp add: word_less_nat_alt)
      with True hdr show ?thesis by (subst list_headers_loop.simps) (simp add: ancestor_next_def)
    next
      case False
      from less.hyps [OF _ wf'(3)] wf'(4) obtain res where
        res: "list_headers_loop db start (hdr_prev_blockhash hdr) = Some (Inr res)"
          "map (unat \<circ> fst) (rev res) = [unat start..<level db (hdr_prev_blockhash hdr)]"
          "\<forall>(k, x)\<in>set res. ancestor db x (hdr_prev_blockhash hdr) \<and> height_db db x = Some k" by auto
      have "[unat start..<level db h] = [unat start..<unat k] @ [unat k]"
        using lev False by (simp add: word_less_nat_alt)
      with res False hdr wf'(4) lev show ?thesis
        by (subst list_headers_loop.simps)
          (auto simp: ancestor_next_def intro: ancestor.self ancestor.parent)
    qed
  qed
qed

lemma ancestors_take_walk:
  "walk_of B db h his \<Longrightarrow> length his = min n (level db h) \<Longrightarrow> headers_wf B db \<Longrightarrow> known db h \<Longrightarrow>
    ancestors_take db n h = map hi_block_hash his"
proof (induction n arbitrary: h his)
  case (Suc n)
  show ?case
  proof (cases "h = all_zeros")
    case True
    then have "header_db db h = None" using Suc.prems(3) by (simp add: headers_wf_def)
    with True Suc.prems(2) show ?thesis by (simp add: ancestor_next_def)
  next
    case False
    from level_known [OF Suc.prems(3,4) False] obtain hdr where hdr: "header_db db h = Some hdr" .
    note wf' = headers_wfD [OF Suc.prems(3) hdr]
    from Suc.prems(2) wf'(4) obtain hi his' where his: "his = hi # his'" by (cases his) auto
    have "walk_of B db (hdr_prev_blockhash hdr) his'"
      unfolding walk_of_def
    proof (intro allI impI)
      fix i
      assume "i < length his'"
      then have "Suc i < length his" using his by simp
      with Suc.prems(1) show "skip_ancestors db (hdr_prev_blockhash hdr) i 0 = Inr (hi_block_hash (his' ! i)) \<and>
          try_get_header_info B db (hi_block_hash (his' ! i)) = Inr (Some (his' ! i))"
        using his hdr by (force simp: walk_of_def ancestor_next_def skip_ancestors_depth [of _ _ _ 1])
    qed
    with Suc.IH [OF this _ Suc.prems(3) wf'(3)] Suc.prems(2) wf'(4) his
    have "ancestors_take db n (hdr_prev_blockhash hdr) = map hi_block_hash his'" by simp
    moreover have "hi_block_hash hi = h" using Suc.prems(1) his by (auto simp: walk_of_def)
    ultimately show ?thesis using hdr his by (simp add: ancestor_next_def)
  qed
qed simp

definition stored_start :: "dbs \<Rightarrow> blockhash option \<Rightarrow> blockhash option" where
  "stored_start db start = (case start of Some h \<Rightarrow> if header_db (block_hashes db) h = None then None else Some h | None \<Rightarrow> None)"

lemma chain_diff_total:
  assumes wf: "headers_wf B (block_hashes db)" and tip: "current_chain_tip db = Some tip"
    and conn: "connected_below (block_hashes db) tip"
    and h: "header_db (block_hashes db) tip \<noteq> None" "height_db (block_hashes db) tip = Some k" "k \<noteq> 0xFFFFFFFF"
  shows "\<exists>cd. chain_diff params db start = Some (Inr (Some cd)) \<and> cd_tip cd = tip \<and> cd_tip_height cd = k \<and>
    (\<forall>(x, bi)\<in>set (cd_connected cd). try_get_block_info (block_hashes db) x = Inr (Some bi)) \<and>
    (case stored_start db start of
       Some h \<Rightarrow> \<not> cd_rebuilt cd \<and> (\<exists>fork. last_common (block_hashes db) h tip fork \<and>
         branch (block_hashes db) fork (cd_disconnected cd) h \<and>
         branch (block_hashes db) fork (rev (map fst (cd_connected cd))) tip)
     | None \<Rightarrow> cd_rebuilt cd \<and> cd_disconnected cd = [] \<and>
         (\<exists>f. branch (block_hashes db) f (rev (map fst (cd_connected cd))) tip \<and>
           level (block_hashes db) f = min (unat k + 1) (unat (bip300_activation_height params))))"
proof -
  let ?db = "block_hashes db"
  let ?start = "stored_start db start"
  have known: "known ?db tip" using h(1) by (simp add: known_def)
  have nz: "tip \<noteq> all_zeros" using h(1) headers_wfD(5) [OF wf] by auto
  have lev: "level ?db tip = unat k + 1" using h(2) nz by (simp add: level_def)
  have infos: "\<exists>infos. connected_infos ?db (rev hs) = Inr infos \<and> map fst infos = rev hs \<and>
      (\<forall>(x, bi)\<in>set infos. try_get_block_info ?db x = Inr (Some bi))" if "branch ?db f hs tip" for f hs
  proof (rule connected_infos_Inr)
    fix x
    assume "x \<in> set (rev hs)"
    with branch_members [OF that] have "ancestor ?db x tip" "header_db ?db x \<noteq> None" by auto
    with conn headers_wfD(5) [OF wf] show "\<exists>bi. try_get_block_info ?db x = Inr (Some bi)"
      by (auto simp: connected_below_def)
  qed
  have start: "(case start of Some h \<Rightarrow> if contains_header ?db h then Some h else None | None \<Rightarrow> None) = ?start"
    by (auto simp: stored_start_def contains_header_def split: option.splits)
  show ?thesis
  proof (cases ?start)
    case None
    let ?n = "unat (saturating_sub (k + 1) (bip300_activation_height params))"
    have k1: "unat (k + 1) = unat k + 1" using h(3) by (rule unat_height_succ)
    have n: "?n = unat k + 1 - unat (bip300_activation_height params)"
      using k1 by (simp add: saturating_sub_unat)
    from ancestors_take_branch [OF wf known, of ?n] lev n obtain f where
      f: "branch ?db f (ancestors_take ?db ?n tip) tip" "level ?db f = unat k + 1 - ?n" by auto
    from infos [OF f(1)] obtain infos where
      i: "connected_infos ?db (rev (ancestors_take ?db ?n tip)) = Inr infos"
        "map fst infos = rev (ancestors_take ?db ?n tip)" "\<forall>(x, bi)\<in>set infos. try_get_block_info ?db x = Inr (Some bi)" by blast
    have "level ?db f = min (unat k + 1) (unat (bip300_activation_height params))" using f(2) n by simp
    with f(1) i None tip h(2) start show ?thesis
      by (intro exI [of _ "\<lparr>cd_tip = tip, cd_tip_height = k, cd_rebuilt = True, cd_disconnected = [], cd_connected = infos\<rparr>"])
        (auto simp: chain_diff_def diff_branches_def Let_def)
  next
    case (Some h0)
    then have known0: "known ?db h0" by (auto simp: stored_start_def known_def split: option.splits if_splits)
    from last_common_ancestor_total [OF wf known0 known] obtain fork where
      fork: "last_common_ancestor ?db h0 tip = Inr fork" "last_common ?db h0 tip fork" by blast
    then have anc: "ancestor ?db fork h0" "ancestor ?db fork tip" by (auto simp: last_common_def)
    from ancestors_while_branch [OF wf anc(1) known0] obtain ds where
      ds: "ancestors_while ?db (\<lambda>x. x \<noteq> fork) h0 = Some ds" "branch ?db fork ds h0" by blast
    from ancestors_while_branch [OF wf anc(2) known] obtain cs where
      cs: "ancestors_while ?db (\<lambda>x. x \<noteq> fork) tip = Some cs" "branch ?db fork cs tip" by blast
    from infos [OF cs(2)] obtain infos where
      i: "connected_infos ?db (rev cs) = Inr infos" "map fst infos = rev cs"
        "\<forall>(x, bi)\<in>set infos. try_get_block_info ?db x = Inr (Some bi)" by blast
    with fork ds cs Some tip h(2) start show ?thesis
      by (intro exI [of _ "\<lparr>cd_tip = tip, cd_tip_height = k, cd_rebuilt = False, cd_disconnected = ds, cd_connected = infos\<rparr>"])
        (auto simp: chain_diff_def diff_branches_def Let_def)
  qed
qed


lemma block_infos_loop_connected:
  "(\<And>hi. hi \<in> set his \<Longrightarrow> \<exists>bi. try_get_block_info db (hi_block_hash hi) = Inr (Some bi)) \<Longrightarrow>
   \<exists>res. block_infos_loop db his = Inr res \<and> map fst res = his \<and>
     (\<forall>(hi, bi)\<in>set res. try_get_block_info db (hi_block_hash hi) = Inr (Some bi))"
proof (induction his)
  case (Cons hi his)
  then obtain bi where "try_get_block_info db (hi_block_hash hi) = Inr (Some bi)" by auto
  moreover from Cons obtain res where "block_infos_loop db his = Inr res" "map fst res = his"
    "\<forall>(hi, bi)\<in>set res. try_get_block_info db (hi_block_hash hi) = Inr (Some bi)" by auto
  ultimately show ?case by auto
qed simp

lemma walk_of_member:
  assumes "headers_wf B db" "known db h" "walk_of B db h his" "hi \<in> set his"
  shows "ancestor db (hi_block_hash hi) h \<and> header_db db (hi_block_hash hi) \<noteq> None"
proof -
  from assms(4) obtain i where i: "i < length his" "his ! i = hi" by (auto simp: in_set_conv_nth)
  have s: "skip_ancestors db h i 0 = Inr (hi_block_hash hi)" "try_get_header_info B db (hi_block_hash hi) = Inr (Some hi)"
    using assms(3) i by (auto simp: walk_of_def)
  have "ancestor db x g" if "skip_ancestors db g j d = Inr x" for g j d x
    using that by (induction j arbitrary: g d)
      (auto simp: ancestor_next_def split: option.splits intro: ancestor.intros)
  with s show ?thesis by (auto simp: try_get_header_info_def split: option.splits)
qed

lemma bmm_commitments_of_info:
  "try_get_block_info db h = Inr (Some bi) \<Longrightarrow> bmm_commitments_db db h = Some (bi_bmm_commitments bi)"
  by (auto simp: try_get_block_info_def split: option.splits)

lemma bmm_commitments_filter:
  assumes "\<forall>(hi, bi)\<in>set res. try_get_block_info db (hi_block_hash hi) = Inr (Some bi)"
  shows "List.map_filter id (takeWhile (\<lambda>c. c \<noteq> None) (map (bmm_commitments_db db) (map (hi_block_hash \<circ> fst) res))) =
    map (bi_bmm_commitments \<circ> snd) res"
  using assms by (induction res) (auto simp: bmm_commitments_of_info List.map_filter_simps)

lemma get_block_infos_walk:
  assumes wf: "headers_wf B db" and h: "header_db db h \<noteq> None" and conn: "connected_below db h"
  shows "\<exists>res. get_block_infos B db h max_ancestors = Inr res \<and>
    length res = min (max_ancestors + 1) (level db h) \<and> walk_of B db h (map fst res) \<and>
    (\<forall>(hi, bi)\<in>set res. try_get_block_info db (hi_block_hash hi) = Inr (Some bi)) \<and>
    try_get_bmm_commitments db h max_ancestors = map (bi_bmm_commitments \<circ> snd) res"
proof -
  have known: "known db h" using h by (simp add: known_def)
  from header_infos_bounded [OF wf h] obtain his where
    his: "try_get_header_infos B db h max_ancestors = Inr (Some his)" "length his = min (max_ancestors + 1) (level db h)"
      "walk_of B db h his" by blast
  have "0 < level db h" using h level_eq_0 [OF wf known] headers_wfD(5) [OF wf] by auto
  with his(2) obtain hi his' where c: "his = hi # his'" by (cases his) auto
  have hi: "hi_block_hash hi = h" using his(3) c by (auto simp: walk_of_def)
  have bis: "\<exists>bi. try_get_block_info db (hi_block_hash x) = Inr (Some bi)" if "x \<in> set his" for x
    using walk_of_member [OF wf known his(3) that] conn headers_wfD(5) [OF wf] by (auto simp: connected_below_def)
  from block_infos_loop_connected [of his' db] bis c obtain res where
    res: "block_infos_loop db his' = Inr res" "map fst res = his'"
      "\<forall>(hi, bi)\<in>set res. try_get_block_info db (hi_block_hash hi) = Inr (Some bi)" by auto
  from bis [of hi] c hi obtain bi where bi: "try_get_block_info db h = Inr (Some bi)" by auto
  let ?res = "(hi, bi) # res"
  have all: "\<forall>(hi, bi)\<in>set ?res. try_get_block_info db (hi_block_hash hi) = Inr (Some bi)" using res(3) bi hi by auto
  have "ancestors_take db (max_ancestors + 1) h = map (hi_block_hash \<circ> fst) ?res"
    using ancestors_take_walk [OF his(3,2) wf known] c res(2) by (simp only: map_map [symmetric] list.map fst_conv o_apply)
  then have "try_get_bmm_commitments db h max_ancestors = map (bi_bmm_commitments \<circ> snd) ?res"
    unfolding try_get_bmm_commitments_def using bmm_commitments_filter [OF all] by (simp only:)
  moreover have "get_block_infos B db h max_ancestors = Inr ?res"
    using his(1) bi res(1) c by (simp add: get_block_infos_def try_get_block_infos_def)
  moreover have "map fst ?res = his" using c res(2) by simp
  ultimately show ?thesis using all his(2,3) by (metis length_map)
qed


section \<open>Properties\<close>

text \<open>The difference between an earlier block and the tip is always computed and is exact. From a
  stored block it is the branch down to the last common ancestor and the branch from there up to the tip;
  from no block, or one that is not stored, it is every block of the active chain from the activation
  height. The connected blocks come with their stored infos, oldest first.\<close>

theorem chain_diff_correct:
  assumes "headers_wf B (block_hashes db)" "current_chain_tip db = Some tip" "connected_below (block_hashes db) tip"
    and "header_db (block_hashes db) tip \<noteq> None" "height_db (block_hashes db) tip = Some k" "k \<noteq> 0xFFFFFFFF"
  shows "\<exists>cd. chain_diff params db start = Some (Inr (Some cd)) \<and> cd_tip cd = tip \<and> cd_tip_height cd = k \<and>
    (\<forall>(x, bi)\<in>set (cd_connected cd). try_get_block_info (block_hashes db) x = Inr (Some bi)) \<and>
    (case stored_start db start of
       Some h \<Rightarrow> \<not> cd_rebuilt cd \<and> (\<exists>fork. last_common (block_hashes db) h tip fork \<and>
         branch (block_hashes db) fork (cd_disconnected cd) h \<and>
         branch (block_hashes db) fork (rev (map fst (cd_connected cd))) tip)
     | None \<Rightarrow> cd_rebuilt cd \<and> cd_disconnected cd = [] \<and>
         (\<exists>f. branch (block_hashes db) f (rev (map fst (cd_connected cd))) tip \<and>
           level (block_hashes db) f = min (unat k + 1) (unat (bip300_activation_height params))))"
  using assms by (rule chain_diff_total)

text \<open>The headers listed from a height on are those of the active chain, one for each height up to
  the tip in ascending order, however many stale branches the tables hold.\<close>

theorem list_headers_exact:
  assumes "headers_wf B (block_hashes db)" "current_chain_tip db = Some tip"
    and "header_db (block_hashes db) tip \<noteq> None" "height_db (block_hashes db) tip = Some k"
  shows "\<exists>res. list_headers db start = Some (Inr res) \<and> map (unat \<circ> fst) res = [unat start..<unat k + 1] \<and>
    (\<forall>(k, x)\<in>set res. ancestor (block_hashes db) x tip \<and> height_db (block_hashes db) x = Some k)"
proof -
  have "known (block_hashes db) tip" "tip \<noteq> all_zeros"
    using assms(3) headers_wfD(5) [OF assms(1)] by (auto simp: known_def)
  moreover have "level (block_hashes db) tip = unat k + 1" using calculation(2) assms(4) by (simp add: level_def)
  ultimately obtain res where "list_headers_loop (block_hashes db) start tip = Some (Inr res)"
    "map (unat \<circ> fst) (rev res) = [unat start..<unat k + 1]"
    "\<forall>(k, x)\<in>set res. ancestor (block_hashes db) x tip \<and> height_db (block_hashes db) x = Some k"
    using list_headers_loop_exact [OF assms(1), of tip start] by auto
  then show ?thesis using assms(2) by (intro exI [of _ "rev res"]) (simp add: list_headers_def)
qed

text \<open>\<open>get_block_infos\<close> returns the block and its ancestors newest first, \<open>max_ancestors\<close> of
  them or all there are, with the stored header and block infos; and the BMM commitments reported for
  the same range are the ones in these infos.\<close>

theorem block_infos_bounded:
  assumes "headers_wf B db" "header_db db h \<noteq> None" "connected_below db h"
  shows "\<exists>res. get_block_infos B db h max_ancestors = Inr res \<and>
    length res = min (max_ancestors + 1) (level db h) \<and> walk_of B db h (map fst res) \<and>
    (\<forall>(hi, bi)\<in>set res. try_get_block_info db (hi_block_hash hi) = Inr (Some bi)) \<and>
    try_get_bmm_commitments db h max_ancestors = map (bi_bmm_commitments \<circ> snd) res"
  using assms by (rule get_block_infos_walk)

definition fork_dbs :: dbs where
  "fork_dbs = dbs_empty\<lparr>block_hashes := fork_tables, current_chain_tip := Some (pad32 [2])\<rparr>"

lemma fork_dbs_simps: "block_hashes fork_dbs = fork_tables" "current_chain_tip fork_dbs = Some (pad32 [2])"
  by (simp_all add: fork_dbs_def)

theorem chain_diff_correct_witness:
  "\<forall>params. \<exists>cd. chain_diff params fork_dbs (Some (pad32 [3])) = Some (Inr (Some cd)) \<and> cd_tip cd = pad32 [2] \<and> \<not> cd_rebuilt cd"
proof
  fix params
  show "\<exists>cd. chain_diff params fork_dbs (Some (pad32 [3])) = Some (Inr (Some cd)) \<and> cd_tip cd = pad32 [2] \<and> \<not> cd_rebuilt cd"
    using chain_diff_correct [of sample_btc fork_dbs "pad32 [2]" 1 params "Some (pad32 [3])"] fork_wf fork_connected
    by (auto simp: fork_dbs_simps fork_headers stored_start_def)
qed

theorem list_headers_exact_witness:
  "\<exists>res. list_headers fork_dbs 1 = Some (Inr res) \<and> length res = 1"
  using list_headers_exact [of sample_btc fork_dbs "pad32 [2]" 1 1] fork_wf
  by (auto simp: fork_dbs_simps fork_headers dest: arg_cong [of _ _ length])

theorem block_infos_bounded_witness:
  "\<exists>res. get_block_infos sample_btc fork_tables (pad32 [2]) 7 = Inr res \<and> length res = 2"
  using block_infos_bounded [OF fork_wf _ fork_connected, of "pad32 [2]" 7] pad32_nonzero [of 2]
  by (auto simp: fork_headers level_def)

end
