(* ===== verification/Summary.thy ===== *)
theory Summary
  imports Producer Queries "HOL-Library.List_Lexorder" "HOL-Library.Product_Lexorder"
begin

text \<open>
  The snapshot of the consensus state at the tip that two runs are compared by
  (\<open>validator/sync_state_summary.rs\<close>): collecting it from the tables, and the differences of two
  snapshots. The proposals are an argument, the entries of their table in the order of the keys,
  as in \<open>Producer\<close>. The texts of the differences are values of a data type; what they report is kept,
  the wording is not.
\<close>

section \<open>The snapshot\<close>

record ctip_summary =
  cs_outpoint :: outpoint
  cs_value_sats :: u64

record pending_withdrawal_summary =
  pw_m6id :: m6id
  pw_vote_count :: u16
  pw_proposal_height :: u32

record sidechain_state_summary =
  ss_sidechain_number :: u8
  ss_description_hash :: hash256
  ss_title :: "bytes option"
  ss_description :: "bytes option"
  ss_vote_count :: u16
  ss_proposal_height :: u32
  ss_activation_height :: "u32 option"
  ss_ctip :: "ctip_summary option"
  ss_ctip_sequence_number :: "nat option"
  ss_pending_withdrawals :: "pending_withdrawal_summary list"

record sync_state_summary =
  sum_tip_hash :: blockhash
  sum_tip_height :: u32
  sum_sidechains :: "sidechain_state_summary list"

definition summary_key :: "sidechain_state_summary \<Rightarrow> u8 \<times> hash256" where
  "summary_key s = (ss_sidechain_number s, ss_description_hash s)"

definition sidechain_key :: "btc \<Rightarrow> sidechain \<Rightarrow> u8 \<times> hash256" where
  "sidechain_key B sc = (prop_sidechain_number (sc_proposal sc),
     sha256d_hash B (prop_description (sc_proposal sc)))"

definition ctip_summary_of :: "dbs \<Rightarrow> sidechain_number \<Rightarrow> ctip_summary option" where
  "ctip_summary_of db n = map_option (\<lambda>c. \<lparr>cs_outpoint = ctip_outpoint c, cs_value_sats = ctip_value c\<rparr>)
     (ctip_db (active_sidechains db) n)"

definition pending_summaries :: "pending_m6ids \<Rightarrow> pending_withdrawal_summary list" where
  "pending_summaries pending = sort_key pw_m6id (map (\<lambda>(m, info). \<lparr>pw_m6id = m,
     pw_vote_count = pi_vote_count info, pw_proposal_height = pi_proposal_height info\<rparr>) pending)"

text \<open>The body of the loop over the sidechains, for one that was not seen yet.\<close>

definition sidechain_summary :: "btc \<Rightarrow> dbs \<Rightarrow> sidechain \<Rightarrow> fault + sidechain_state_summary" where
  "sidechain_summary B db sc =
     (let n = prop_sidechain_number (sc_proposal sc);
          activation_height = st_activation_height (sc_status sc)
      in case (if activation_height = None then Inr (None, None, [])
               else case get_pending_withdrawals db n of
                 Inl e \<Rightarrow> Inl e
               | Inr pending \<Rightarrow>
                   Inr (ctip_summary_of db n, get_ctip_sequence_number db n, pending)) of
        Inl e \<Rightarrow> Inl e
      | Inr (ctip, sequence_number, pending) \<Rightarrow>
          (case sidechain_declaration_try_from (prop_description (sc_proposal sc)) of
             None \<Rightarrow> Inl Panic
           | Some declaration \<Rightarrow> Inr
               \<lparr>ss_sidechain_number = n,
                ss_description_hash = sha256d_hash B (prop_description (sc_proposal sc)),
                ss_title = (case declaration of Inl _ \<Rightarrow> None | Inr d \<Rightarrow> Some (decl_title d)),
                ss_description =
                  (case declaration of Inl _ \<Rightarrow> None | Inr d \<Rightarrow> Some (decl_description d)),
                ss_vote_count = st_vote_count (sc_status sc),
                ss_proposal_height = st_proposal_height (sc_status sc),
                ss_activation_height = activation_height,
                ss_ctip = ctip, ss_ctip_sequence_number = sequence_number,
                ss_pending_withdrawals = pending_summaries pending\<rparr>))"

fun summaries_loop :: "btc \<Rightarrow> dbs \<Rightarrow> (u8 \<times> hash256) set \<Rightarrow> sidechain list
    \<Rightarrow> fault + sidechain_state_summary list" where
  "summaries_loop B db seen [] = Inr []"
| "summaries_loop B db seen (sc # scs) =
     (if sidechain_key B sc \<in> seen then summaries_loop B db seen scs
      else case sidechain_summary B db sc of
        Inl e \<Rightarrow> Inl e
      | Inr s \<Rightarrow> (case summaries_loop B db (insert (sidechain_key B sc) seen) scs of
          Inl e \<Rightarrow> Inl e
        | Inr ss \<Rightarrow> Inr (s # ss)))"

definition sync_state_summary :: "btc \<Rightarrow> (sidechain_proposal_id \<times> sidechain) list \<Rightarrow> dbs
    \<Rightarrow> fault + sync_state_summary" where
  "sync_state_summary B proposals db = (case current_chain_tip db of
     None \<Rightarrow> Inl MissingValue
   | Some tip_hash \<Rightarrow> (case try_get_block_height db of
       Inl e \<Rightarrow> Inl e
     | Inr None \<Rightarrow> Inl MissingValue
     | Inr (Some tip_height) \<Rightarrow> (case get_active_sidechains db of
         Inl e \<Rightarrow> Inl e
       | Inr active \<Rightarrow> (case summaries_loop B db {} (active @ map snd proposals) of
           Inl e \<Rightarrow> Inl e
         | Inr sidechains \<Rightarrow> Inr \<lparr>sum_tip_hash = tip_hash, sum_tip_height = tip_height,
             sum_sidechains = sort_key summary_key sidechains\<rparr>))))"

definition active_sidechain_count :: "sync_state_summary \<Rightarrow> nat" where
  "active_sidechain_count s =
     length (filter (\<lambda>sc. ss_activation_height sc \<noteq> None) (sum_sidechains s))"

definition pending_withdrawal_count :: "sync_state_summary \<Rightarrow> nat" where
  "pending_withdrawal_count s =
     sum_list (map (\<lambda>sc. length (ss_pending_withdrawals sc)) (sum_sidechains s))"

section \<open>Differences\<close>

datatype summary_field = FieldVoteCount | FieldProposalHeight | FieldActivationHeight
  | FieldCtipSequenceNumber | FieldTitle | FieldDescription | FieldCtip | FieldPendingWithdrawals

datatype summary_diff =
    DiffTipHash blockhash blockhash
  | DiffTipHeight u32 u32
  | DiffPresentNow "u8 \<times> hash256"
  | DiffAbsentNow "u8 \<times> hash256"
  | DiffField "u8 \<times> hash256" summary_field sidechain_state_summary sidechain_state_summary

definition field_diffs :: "sidechain_state_summary \<Rightarrow> sidechain_state_summary \<Rightarrow> summary_diff list" where
  "field_diffs s r =
     (let cmp = (\<lambda>field differs. if differs then [DiffField (summary_key s) field s r] else [])
      in cmp FieldVoteCount (ss_vote_count s \<noteq> ss_vote_count r)
       @ cmp FieldProposalHeight (ss_proposal_height s \<noteq> ss_proposal_height r)
       @ cmp FieldActivationHeight (ss_activation_height s \<noteq> ss_activation_height r)
       @ cmp FieldCtipSequenceNumber (ss_ctip_sequence_number s \<noteq> ss_ctip_sequence_number r)
       @ cmp FieldTitle (ss_title s \<noteq> ss_title r)
       @ cmp FieldDescription (ss_description s \<noteq> ss_description r)
       @ cmp FieldCtip (ss_ctip s \<noteq> ss_ctip r)
       @ cmp FieldPendingWithdrawals (ss_pending_withdrawals s \<noteq> ss_pending_withdrawals r))"

text \<open>\<open>collect\<close> into a \<open>BTreeMap\<close>: keys in order, and the last value of a key stays.\<close>

definition summary_map :: "sync_state_summary \<Rightarrow> (u8 \<times> hash256 \<Rightarrow> sidechain_state_summary option)" where
  "summary_map s = map_of (rev (map (\<lambda>sc. (summary_key sc, sc)) (sum_sidechains s)))"

definition summary_keys :: "sync_state_summary \<Rightarrow> (u8 \<times> hash256) list" where
  "summary_keys s = sort (remdups (map summary_key (sum_sidechains s)))"

definition sidechain_diffs :: "sync_state_summary \<Rightarrow> sync_state_summary \<Rightarrow> summary_diff list" where
  "sidechain_diffs s r =
     concat (map (\<lambda>k. case summary_map r k of
         None \<Rightarrow> [DiffPresentNow k]
       | Some ref_sc \<Rightarrow> (case summary_map s k of None \<Rightarrow> [] | Some sc \<Rightarrow> field_diffs sc ref_sc))
       (summary_keys s))
   @ concat (map (\<lambda>k. if summary_map s k = None then [DiffAbsentNow k] else []) (summary_keys r))"

definition summary_diffs :: "sync_state_summary \<Rightarrow> sync_state_summary \<Rightarrow> summary_diff list" where
  "summary_diffs s r =
     (if sum_tip_hash s \<noteq> sum_tip_hash r then [DiffTipHash (sum_tip_hash s) (sum_tip_hash r)] else [])
   @ (if sum_tip_height s \<noteq> sum_tip_height r
      then [DiffTipHeight (sum_tip_height s) (sum_tip_height r)] else [])
   @ sidechain_diffs s r"

section \<open>Canonical snapshots\<close>

definition canonical :: "sync_state_summary \<Rightarrow> bool" where
  "canonical s \<longleftrightarrow> sorted (map summary_key (sum_sidechains s))
     \<and> distinct (map summary_key (sum_sidechains s))"

lemma sidechain_summary_key: "sidechain_summary B db sc = Inr s \<Longrightarrow> summary_key s = sidechain_key B sc"
  by (auto simp: sidechain_summary_def summary_key_def sidechain_key_def Let_def
      split: if_splits sum.splits option.splits)

text \<open>The loop keeps the first sidechain of every key, and summarises each of them.\<close>

fun first_by_key :: "btc \<Rightarrow> (u8 \<times> hash256) set \<Rightarrow> sidechain list \<Rightarrow> sidechain list" where
  "first_by_key B seen [] = []"
| "first_by_key B seen (sc # scs) =
     (if sidechain_key B sc \<in> seen then first_by_key B seen scs
      else sc # first_by_key B (insert (sidechain_key B sc) seen) scs)"

fun summarise_all :: "btc \<Rightarrow> dbs \<Rightarrow> sidechain list \<Rightarrow> fault + sidechain_state_summary list" where
  "summarise_all B db [] = Inr []"
| "summarise_all B db (sc # scs) = (case sidechain_summary B db sc of
     Inl e \<Rightarrow> Inl e
   | Inr s \<Rightarrow> (case summarise_all B db scs of Inl e \<Rightarrow> Inl e | Inr ss \<Rightarrow> Inr (s # ss)))"

lemma summaries_loop_first: "summaries_loop B db seen scs = summarise_all B db (first_by_key B seen scs)"
  by (induction B seen scs rule: first_by_key.induct) (simp_all split: sum.splits)

lemma first_by_key_keys:
  "distinct (map (sidechain_key B) (first_by_key B seen scs))
   \<and> sidechain_key B ` set (first_by_key B seen scs) = sidechain_key B ` set scs - seen"
  by (induction B seen scs rule: first_by_key.induct) auto

lemma summarise_all_Inr:
  "summarise_all B db scs = Inr ss \<longleftrightarrow>
     (\<forall>sc\<in>set scs. \<exists>s. sidechain_summary B db sc = Inr s) \<and> ss = map (projr \<circ> sidechain_summary B db) scs"
proof (induction scs arbitrary: ss)
  case (Cons sc scs)
  show ?case
  proof (cases "summarise_all B db scs")
    case (Inl e)
    then have "\<not> (\<forall>sc\<in>set scs. \<exists>s. sidechain_summary B db sc = Inr s)"
      using Cons.IH [of "map (projr \<circ> sidechain_summary B db) scs"] by simp
    then show ?thesis using Inl by (auto split: sum.splits)
  next
    case (Inr ss0)
    then show ?thesis using Cons.IH [of ss0] by (auto split: sum.splits)
  qed
qed auto

lemma summarise_all_keys:
  "summarise_all B db scs = Inr ss \<Longrightarrow> map summary_key ss = map (sidechain_key B) scs"
  by (induction scs arbitrary: ss) (auto simp: sidechain_summary_key split: sum.splits)

lemma sync_state_summary_canonical:
  assumes "sync_state_summary B proposals db = Inr s"
  shows "canonical s"
proof -
  obtain scs ss where "summaries_loop B db {} scs = Inr ss"
      and s: "sum_sidechains s = sort_key summary_key ss"
    using assms by (auto simp: sync_state_summary_def split: option.splits sum.splits)
  then have keys: "map summary_key ss = map (sidechain_key B) (first_by_key B {} scs)"
    by (simp add: summaries_loop_first summarise_all_keys)
  have "distinct (map summary_key ss)" unfolding keys using first_by_key_keys by blast
  then have "distinct (map summary_key (sort_key summary_key ss))" by (simp add: distinct_map)
  then show ?thesis by (simp add: canonical_def s)
qed

lemma field_diffs_empty:
  "summary_key s = summary_key r \<Longrightarrow> field_diffs s r = [] \<longleftrightarrow> s = r"
  by (cases s; cases r) (auto simp: field_diffs_def summary_key_def Let_def)

lemma canonical_map:
  assumes "canonical s"
  shows "summary_map s k = Some sc \<longleftrightarrow> sc \<in> set (sum_sidechains s) \<and> summary_key sc = k"
proof -
  have "distinct (map fst (rev (map (\<lambda>sc. (summary_key sc, sc)) (sum_sidechains s))))"
    using assms by (simp add: canonical_def o_def flip: rev_map)
  from map_of_eq_Some_iff [OF this] show ?thesis by (auto simp: summary_map_def)
qed

lemma summary_map_None: "summary_map s k = None \<longleftrightarrow> k \<notin> summary_key ` set (sum_sidechains s)"
  by (force simp: summary_map_def map_of_eq_None_iff)

text \<open>A canonical list is determined by its elements.\<close>

lemma canonical_ext:
  assumes "canonical s" "canonical r" "set (sum_sidechains s) = set (sum_sidechains r)"
  shows "sum_sidechains s = sum_sidechains r"
proof (rule map_sorted_distinct_set_unique [where f = summary_key])
  show "inj_on summary_key (set (sum_sidechains s) \<union> set (sum_sidechains r))"
    using assms by (simp add: canonical_def distinct_map)
qed (use assms in \<open>auto simp: canonical_def distinct_map\<close>)

lemma sidechain_diffs_empty:
  assumes "canonical s" "canonical r"
  shows "sidechain_diffs s r = [] \<longleftrightarrow> sum_sidechains s = sum_sidechains r"
proof
  assume eq: "sum_sidechains s = sum_sidechains r"
  then have "summary_map s = summary_map r" by (simp add: summary_map_def)
  moreover have "summary_map r k \<noteq> None" if "k \<in> set (summary_keys r)" for k
    using that by (simp add: summary_map_None summary_keys_def)
  moreover have "summary_keys s = summary_keys r" by (simp add: summary_keys_def eq)
  moreover have "field_diffs sc sc = []" for sc by (simp add: field_diffs_empty)
  ultimately show "sidechain_diffs s r = []" unfolding sidechain_diffs_def
    by (auto simp del: split_paired_All split_paired_Ex split: option.split) fastforce+
next
  assume d: "sidechain_diffs s r = []"
  have fwd: "sc \<in> set (sum_sidechains r)" if sc: "sc \<in> set (sum_sidechains s)" for sc
  proof -
    have k: "summary_map s (summary_key sc) = Some sc" using sc canonical_map [OF assms(1)] by blast
    have "summary_key sc \<in> set (summary_keys s)" using sc by (simp add: summary_keys_def)
    then obtain rc where rc: "summary_map r (summary_key sc) = Some rc" "field_diffs sc rc = []"
      using d k unfolding sidechain_diffs_def
      by (cases "summary_map r (summary_key sc)") auto
    then show ?thesis using canonical_map [OF assms(2)] field_diffs_empty by metis
  qed
  have bwd: "rc \<in> set (sum_sidechains s)" if rc: "rc \<in> set (sum_sidechains r)" for rc
  proof -
    have "summary_key rc \<in> set (summary_keys r)" using rc by (simp add: summary_keys_def)
    then have "summary_map s (summary_key rc) = None \<Longrightarrow>
        DiffAbsentNow (summary_key rc) \<in> set (sidechain_diffs s r)"
      unfolding sidechain_diffs_def set_append set_concat set_map by auto
    then have "summary_map s (summary_key rc) \<noteq> None" using d by auto
    then obtain sc where sc: "sc \<in> set (sum_sidechains s)" "summary_key sc = summary_key rc"
      by (auto simp: canonical_map [OF assms(1)])
    then have "sc = rc" using fwd rc assms(2) by (auto simp: canonical_def distinct_map inj_on_def)
    then show ?thesis using sc by simp
  qed
  show "sum_sidechains s = sum_sidechains r" using fwd bwd canonical_ext [OF assms] by blast
qed

section \<open>Independence of the iteration orders\<close>

lemma first_by_key_append:
  "first_by_key B seen (xs @ ys) =
     first_by_key B seen xs @ first_by_key B (seen \<union> sidechain_key B ` set xs) ys"
  by (induction B seen xs rule: first_by_key.induct) (simp_all add: insert_absorb Un_insert_right)

lemma first_by_key_distinct:
  "distinct (map (sidechain_key B) ys) \<Longrightarrow>
     first_by_key B seen ys = filter (\<lambda>sc. sidechain_key B sc \<notin> seen) ys"
proof (induction B seen ys rule: first_by_key.induct)
  case (2 B seen sc scs)
  have "filter (\<lambda>x. sidechain_key B x \<noteq> sidechain_key B sc \<and> sidechain_key B x \<notin> seen) scs
      = filter (\<lambda>x. sidechain_key B x \<notin> seen) scs"
    using 2(3) by (intro filter_cong) (auto simp: image_iff)
  then show ?case using 2 by simp
qed simp

lemma pending_summaries_perm:
  assumes "mset xs = mset ys" "distinct (map fst xs)"
  shows "pending_summaries xs = pending_summaries ys"
  unfolding pending_summaries_def
proof (rule sort_key_inj_key_eq)
  show "inj_on pw_m6id (set (map (\<lambda>(m, info). \<lparr>pw_m6id = m, pw_vote_count = pi_vote_count info,
      pw_proposal_height = pi_proposal_height info\<rparr>) xs))"
    using assms(2) by (force simp: distinct_map inj_on_def)
qed (use assms in \<open>auto simp: mset_map\<close>)

text \<open>Two readings of the same state: the proposals in some order, and the pending bundles of every
  slot in some order.\<close>

definition same_state :: "btc \<Rightarrow> (sidechain_proposal_id \<times> sidechain) list \<Rightarrow> dbs
    \<Rightarrow> (sidechain_proposal_id \<times> sidechain) list \<Rightarrow> dbs \<Rightarrow> bool" where
  "same_state B proposals db proposals' db' \<longleftrightarrow>
     mset proposals = mset proposals' \<and> distinct (map (sidechain_key B \<circ> snd) proposals)
   \<and> current_chain_tip db = current_chain_tip db' \<and> block_hashes db = block_hashes db'
   \<and> sidechain_db (active_sidechains db) = sidechain_db (active_sidechains db')
   \<and> ctip_db (active_sidechains db) = ctip_db (active_sidechains db')
   \<and> treasury_utxo_count (active_sidechains db) = treasury_utxo_count (active_sidechains db')
   \<and> (\<forall>n. rel_option (\<lambda>xs ys. mset xs = mset ys \<and> distinct (map fst xs))
        (pending_m6ids_db (active_sidechains db) n) (pending_m6ids_db (active_sidechains db') n))"

lemma sidechain_summary_same:
  assumes "same_state B proposals db proposals' db'"
  shows "sidechain_summary B db sc = sidechain_summary B db' sc"
proof -
  let ?n = "prop_sidechain_number (sc_proposal sc)"
  have "rel_option (\<lambda>xs ys. mset xs = mset ys \<and> distinct (map fst xs))
      (pending_m6ids_db (active_sidechains db) ?n) (pending_m6ids_db (active_sidechains db') ?n)"
    using assms by (simp add: same_state_def)
  then show ?thesis
  proof (cases rule: option.rel_cases)
    case None
    then show ?thesis
      by (simp add: sidechain_summary_def get_pending_withdrawals_def Let_def)
  next
    case (Some xs ys)
    then have "pending_summaries xs = pending_summaries ys" using pending_summaries_perm by blast
    then show ?thesis using assms Some
      by (cases "sidechain_declaration_try_from (prop_description (sc_proposal sc))")
        (simp_all add: sidechain_summary_def get_pending_withdrawals_def Let_def same_state_def
          ctip_summary_of_def get_ctip_sequence_number_def)
  qed
qed

lemma first_by_key_same:
  assumes "mset proposals = mset proposals'" "distinct (map (sidechain_key B \<circ> snd) proposals)"
  shows "set (first_by_key B {} (active @ map snd proposals))
    = set (first_by_key B {} (active @ map snd proposals'))"
proof -
  have "distinct (map (sidechain_key B \<circ> snd) proposals')"
    using assms by (metis mset_map mset_eq_imp_distinct_iff)
  then show ?thesis using assms(2) mset_eq_setD [OF assms(1)]
    by (simp add: first_by_key_append first_by_key_distinct)
qed

section \<open>Properties\<close>

text \<open>C24: The snapshot is deterministic. It depends on the contents of the tables only: whatever
  order the proposals and the pending bundles come in, two validators that agree on the contents
  compute the same snapshot.\<close>

theorem summary_deterministic:
  assumes "same_state B proposals db proposals' db'"
    and "sync_state_summary B proposals db = Inr s"
  shows "sync_state_summary B proposals' db' = Inr s"
proof -
  note same = assms(1) [unfolded same_state_def]
  have reads: "current_chain_tip db' = current_chain_tip db"
      "try_get_block_height db' = try_get_block_height db"
      "get_active_sidechains db' = get_active_sidechains db"
    using same by (cases "current_chain_tip db'"; simp add: try_get_block_height_def
        get_active_sidechains_def numbers_def)+
  obtain tip height active ss where tip: "current_chain_tip db = Some tip"
      and height: "try_get_block_height db = Inr (Some height)"
      and active: "get_active_sidechains db = Inr active"
      and ss: "summaries_loop B db {} (active @ map snd proposals) = Inr ss"
      and s: "s = \<lparr>sum_tip_hash = tip, sum_tip_height = height,
        sum_sidechains = sort_key summary_key ss\<rparr>"
    using assms(2) by (auto simp: sync_state_summary_def split: option.splits sum.splits)
  let ?f = "projr \<circ> sidechain_summary B db"
  have set_eq: "set (first_by_key B {} (active @ map snd proposals))
      = set (first_by_key B {} (active @ map snd proposals'))"
    using first_by_key_same same by blast
  obtain ss' where ss': "summaries_loop B db' {} (active @ map snd proposals') = Inr ss'"
      and "set ss' = set ss"
    using ss set_eq unfolding summaries_loop_first summarise_all_Inr
    by (simp add: sidechain_summary_same [OF assms(1)])
  let ?s' = "\<lparr>sum_tip_hash = tip, sum_tip_height = height, sum_sidechains = sort_key summary_key ss'\<rparr>"
  have r: "sync_state_summary B proposals' db' = Inr ?s'"
    by (simp add: sync_state_summary_def reads tip height active ss')
  have "sum_sidechains s = sum_sidechains ?s'"
    using canonical_ext [OF sync_state_summary_canonical [OF assms(2)] sync_state_summary_canonical [OF r]]
      \<open>set ss' = set ss\<close> by (simp add: s)
  then show ?thesis using r by (simp add: s)
qed

text \<open>The comparison is exact. Two snapshots a validator computed have no differences exactly
  when they are equal.\<close>

theorem summary_diff_exact:
  assumes "sync_state_summary B proposals db = Inr s" "sync_state_summary B' proposals' db' = Inr r"
  shows "summary_diffs s r = [] \<longleftrightarrow> s = r"
  using sidechain_diffs_empty [OF assms [THEN sync_state_summary_canonical]]
  by (cases s; cases r) (auto simp: summary_diffs_def)

definition summary_dbs :: "pending_m6ids \<Rightarrow> dbs" where
  "summary_dbs pending = sample_dbs\<lparr>block_hashes := fork_tables, current_chain_tip := Some (pad32 [2]),
     active_sidechains := sample_active\<lparr>pending_m6ids_db := [5 \<mapsto> pending]\<rparr>\<rparr>"

lemma summary_dbs_numbers: "numbers (active_sidechains (summary_dbs pending)) = [5]"
  using sample_numbers by (simp add: summary_dbs_def numbers_def)

lemma summary_dbs_summary:
  "\<exists>s. sync_state_summary sample_btc [] (summary_dbs sample_pending) = Inr s
     \<and> length (sum_sidechains s) = 1"
proof -
  have d: "sidechain_declaration_try_from [0] \<noteq> None" by code_simp
  have 1: "get_active_sidechains (summary_dbs sample_pending) = Inr [sample_sidechain]"
    unfolding get_active_sidechains_def summary_dbs_numbers
    by (simp add: summary_dbs_def sample_active_def) (simp add: sample_sidechain_def)
  have 2: "try_get_block_height (summary_dbs sample_pending) = Inr (Some 1)"
    by (simp add: try_get_block_height_def summary_dbs_def fork_headers)
  have "\<exists>s. sidechain_summary sample_btc (summary_dbs sample_pending) sample_sidechain = Inr s"
    using d by (auto simp: sidechain_summary_def Let_def get_pending_withdrawals_def summary_dbs_def
        sample_sidechain_def)
  moreover have "current_chain_tip (summary_dbs sample_pending) = Some (pad32 [2])"
    by (simp add: summary_dbs_def)
  ultimately show ?thesis by (auto simp: sync_state_summary_def 1 2)
qed

lemma summary_dbs_same:
  "same_state sample_btc [] (summary_dbs sample_pending) [] (summary_dbs (rev sample_pending))"
  by (auto simp: same_state_def summary_dbs_def sample_pending_def)

theorem summary_deterministic_witness:
  "\<exists>s. sync_state_summary sample_btc [] (summary_dbs sample_pending) = Inr s
     \<and> sync_state_summary sample_btc [] (summary_dbs (rev sample_pending)) = Inr s"
  using summary_dbs_summary summary_deterministic [OF summary_dbs_same] by blast

theorem summary_diff_exact_witness:
  "\<exists>s. sync_state_summary sample_btc [] (summary_dbs sample_pending) = Inr s \<and> summary_diffs s s = []"
  using summary_dbs_summary summary_diff_exact by blast

end
