(* ===== verification/NodeChecks.thy ===== *)
theory NodeChecks
  imports Bitcoin "HOL-Library.Sublist"
begin

text \<open>
  The checks of the connected node at start-up and the client they use: the version
  (\<open>version.rs\<close>), pruning, the REST server, the ZMQ endpoint and the transaction index
  (\<open>node_checks.rs\<close>), the credentials of the RPC client and the broadcasts whose rejection is
  tolerated (\<open>rpc_client.rs\<close>), and the question whether a bid is in the mempool
  (\<open>validator/mod.rs\<close>).

  The answer of a single request is an argument; the answers of repeated requests are a function
  of the number of the request. The texts of the help messages are not modelled.
\<close>

section \<open>Errors of a request\<close>

datatype client_error = ClientCall int string | ClientOther

section \<open>Version\<close>

definition SUPPORTED_BITCOIN_CORE_MAJORS :: "u32 list" where
  "SUPPORTED_BITCOIN_CORE_MAJORS = [32, 31, 30]"

definition major_from_version_int :: "u64 \<Rightarrow> u32" where
  "major_from_version_int version = ucast (version div 10000)"

record detected_version =
  dv_version :: u64
  dv_subversion :: string
  dv_major :: u32

datatype version_check_error =
    VersionRpc client_error
  | UnsupportedBitcoinCoreVersion u64 string "u32 list" bool

definition check_bitcoin_core_version :: "client_error + u64 \<times> string \<Rightarrow> u32 option \<Rightarrow> bool
    \<Rightarrow> version_check_error + detected_version" where
  "check_bitcoin_core_version answer expected_major skip_check = (case answer of
     Inl e \<Rightarrow> Inl (VersionRpc e)
   | Inr (version, subversion) \<Rightarrow>
       (let detected = \<lparr>dv_version = version, dv_subversion = subversion,
              dv_major = major_from_version_int version\<rparr>;
            allowed_majors =
              (case expected_major of Some m \<Rightarrow> [m] | None \<Rightarrow> SUPPORTED_BITCOIN_CORE_MAJORS)
        in if skip_check then Inr detected
           else if dv_major detected \<in> set allowed_majors then Inr detected
           else Inl (UnsupportedBitcoinCoreVersion version subversion allowed_majors
             (expected_major \<noteq> None))))"

section \<open>Pruning, ZMQ, REST and the transaction index\<close>

datatype prune_check_error = PruneRpc client_error | PrunedNode

definition check_node_not_pruned :: "client_error + bool \<Rightarrow> prune_check_error + unit" where
  "check_node_not_pruned answer = (case answer of
     Inl e \<Rightarrow> Inl (PruneRpc e)
   | Inr pruned \<Rightarrow> if \<not> pruned then Inr () else Inl PrunedNode)"

datatype zmq_check_error = ZmqRpc client_error | ZmqMissing

definition zmq_sequence_address :: "client_error + (string \<times> string) list \<Rightarrow> zmq_check_error + string" where
  "zmq_sequence_address answer = (case answer of
     Inl e \<Rightarrow> Inl (ZmqRpc e)
   | Inr notifications \<Rightarrow>
       (case find (\<lambda>(notification_type, address). notification_type = ''pubsequence'') notifications of
          None \<Rightarrow> Inl ZmqMissing
        | Some (_, address) \<Rightarrow> Inr address))"

text \<open>The answers of the REST server: a result, the error of a disabled server, an HTTP error with
  its status, or another error.\<close>

datatype rest_answer = RestChainInfo | RestServerNotEnabled | RestHttp "u16 option" | RestOther

datatype rest_check_error = StillWarmingUp nat | RestCheckFailed rest_answer

definition SERVICE_UNAVAILABLE :: u16 where
  "SERVICE_UNAVAILABLE = 503"

definition MAX_RETRIES :: nat where
  "MAX_RETRIES = 180"

text \<open>The loop, after \<open>retries\<close> retries: its next request is the one with that number.\<close>

function rest_check_loop :: "(nat \<Rightarrow> rest_answer) \<Rightarrow> nat \<Rightarrow> rest_check_error + bool" where
  "rest_check_loop answers retries = (case answers retries of
     RestChainInfo \<Rightarrow> Inr True
   | RestServerNotEnabled \<Rightarrow> Inr False
   | RestHttp status \<Rightarrow>
       if status = Some SERVICE_UNAVAILABLE then
         (if MAX_RETRIES \<le> retries then Inl (StillWarmingUp MAX_RETRIES)
          else rest_check_loop answers (retries + 1))
       else Inl (RestCheckFailed (RestHttp status))
   | RestOther \<Rightarrow> Inl (RestCheckFailed RestOther))"
  by pat_completeness auto
termination
  by (relation "measure (\<lambda>(answers, retries). MAX_RETRIES - retries)") auto

declare rest_check_loop.simps [simp del]

definition check_rest_server_available :: "(nat \<Rightarrow> rest_answer) \<Rightarrow> rest_check_error + bool" where
  "check_rest_server_available answers = rest_check_loop answers 0"

datatype txindex_check_error = TxindexRpc client_error | TxindexNotEnabled

text \<open>An answer of \<open>getindexinfo\<close>: the error, or the entry of the index and whether it is synced.
  The loop has no bound: \<open>None\<close> when it polls forever.\<close>

partial_function (option) txindex_loop :: "(nat \<Rightarrow> client_error + bool option) \<Rightarrow> nat
    \<Rightarrow> (txindex_check_error + unit) option" where
  "txindex_loop answers polls = (case answers polls of
     Inl e \<Rightarrow> Some (Inl (TxindexRpc e))
   | Inr None \<Rightarrow> Some (Inl TxindexNotEnabled)
   | Inr (Some synced) \<Rightarrow>
       if synced then Some (Inr ()) else txindex_loop answers (polls + 1))"

definition check_txindex :: "(nat \<Rightarrow> client_error + bool option) \<Rightarrow> (txindex_check_error + unit) option" where
  "check_txindex answers = txindex_loop answers 0"

section \<open>The RPC client\<close>

record node_rpc_config =
  rpc_cookie_path :: "string option"
  rpc_user :: "string option"
  rpc_pass :: "string option"

datatype rpc_client_error = UserAndPasswordMustBeSetTogether | UserOrCookieMustBeSet
  | ReadCookie string | GetRpcUser | GetRpcPassword

text \<open>\<open>str::split\<close> on a character: always at least one piece.\<close>

fun split_char :: "char \<Rightarrow> string \<Rightarrow> string list" where
  "split_char c [] = [[]]"
| "split_char c (x # xs) = (if x = c then [] # split_char c xs
     else case split_char c xs of [] \<Rightarrow> [[x]] | p # ps \<Rightarrow> (x # p) # ps)"

text \<open>\<open>create_client\<close> up to the call that builds the client: the user and the password it is built
  with. \<open>read_cookie\<close> reads the cookie file.\<close>

definition client_credentials :: "(string \<Rightarrow> string option) \<Rightarrow> node_rpc_config
    \<Rightarrow> rpc_client_error + string \<times> string" where
  "client_credentials read_cookie conf =
     (if (rpc_user conf = None) \<noteq> (rpc_pass conf = None) then Inl UserAndPasswordMustBeSetTogether
      else if (rpc_user conf = None) = (rpc_cookie_path conf = None) then Inl UserOrCookieMustBeSet
      else let conf_user = (case rpc_user conf of None \<Rightarrow> [] | Some u \<Rightarrow> u);
               conf_pass = (case rpc_pass conf of None \<Rightarrow> [] | Some p \<Rightarrow> p)
        in case rpc_cookie_path conf of
             None \<Rightarrow> Inr (conf_user, conf_pass)
           | Some cookie_path \<Rightarrow> (case read_cookie cookie_path of
               None \<Rightarrow> Inl (ReadCookie cookie_path)
             | Some auth \<Rightarrow> (case split_char CHR '':'' auth of
                 [] \<Rightarrow> Inl GetRpcUser
               | [user] \<Rightarrow> Inl GetRpcPassword
               | user # pass # _ \<Rightarrow> Inr (user, pass))))"

text \<open>Broadcasts: \<open>send\<close> is \<open>sendrawtransaction\<close> with a transaction and the cap on the fee rate,
  \<open>None\<close> for the node's default and \<open>Some 0\<close> for no cap.\<close>

definition broadcast_transaction_with_tolerance :: "('tx \<Rightarrow> nat option \<Rightarrow> client_error + txid) \<Rightarrow> 'tx
    \<Rightarrow> nat option \<Rightarrow> (int \<Rightarrow> string \<Rightarrow> bool) \<Rightarrow> client_error + txid option" where
  "broadcast_transaction_with_tolerance send tx max_fee_rate tolerate_rejection =
     (case send tx max_fee_rate of
        Inr txid \<Rightarrow> Inr (Some txid)
      | Inl (ClientCall code msg) \<Rightarrow>
          if tolerate_rejection code msg then Inr None else Inl (ClientCall code msg)
      | Inl ClientOther \<Rightarrow> Inl ClientOther)"

definition OP_DRIVECHAIN_NOT_SUPPORTED_ERR_MSG :: string where
  "OP_DRIVECHAIN_NOT_SUPPORTED_ERR_MSG =
     ''non-mandatory-script-verify-flag (NOPx reserved for soft-fork upgrades)''"

definition OP_DRIVECHAIN_NOT_SUPPORTED_ERR_MSG_V30_0 :: string where
  "OP_DRIVECHAIN_NOT_SUPPORTED_ERR_MSG_V30_0 =
     ''mempool-script-verify-flag-failed (NOPx reserved for soft-fork upgrades)''"

definition broadcast_transaction_with_max_fee_rate :: "('tx \<Rightarrow> nat option \<Rightarrow> client_error + txid) \<Rightarrow> 'tx
    \<Rightarrow> nat option \<Rightarrow> client_error + txid option" where
  "broadcast_transaction_with_max_fee_rate send tx max_fee_rate =
     broadcast_transaction_with_tolerance send tx max_fee_rate (\<lambda>code msg.
       sublist OP_DRIVECHAIN_NOT_SUPPORTED_ERR_MSG msg
     \<or> sublist OP_DRIVECHAIN_NOT_SUPPORTED_ERR_MSG_V30_0 msg)"

definition broadcast_transaction :: "('tx \<Rightarrow> nat option \<Rightarrow> client_error + txid) \<Rightarrow> 'tx
    \<Rightarrow> client_error + txid option" where
  "broadcast_transaction send tx = broadcast_transaction_with_max_fee_rate send tx None"

definition broadcast_transaction_no_fee_limit :: "('tx \<Rightarrow> nat option \<Rightarrow> client_error + txid) \<Rightarrow> 'tx
    \<Rightarrow> client_error + txid option" where
  "broadcast_transaction_no_fee_limit send tx = broadcast_transaction_with_max_fee_rate send tx (Some 0)"

definition BITCOIN_CORE_RPC_TRANSACTION_REJECTED :: int where
  "BITCOIN_CORE_RPC_TRANSACTION_REJECTED = -26"

definition broadcast_transaction_tolerate_mempool_rejection ::
    "('tx \<Rightarrow> nat option \<Rightarrow> client_error + txid) \<Rightarrow> 'tx \<Rightarrow> client_error + txid option" where
  "broadcast_transaction_tolerate_mempool_rejection send tx =
     broadcast_transaction_with_tolerance send tx None
       (\<lambda>code msg. code = BITCOIN_CORE_RPC_TRANSACTION_REJECTED)"

text \<open>The fee of a bid in the node's mempool.\<close>

fun absent_from_mempool :: "client_error \<Rightarrow> bool" where
  "absent_from_mempool (ClientCall code msg) \<longleftrightarrow> code = -5"
| "absent_from_mempool ClientOther \<longleftrightarrow> False"

definition bmm_bid_fee :: "client_error + u64 \<Rightarrow> client_error + u64 option" where
  "bmm_bid_fee answer = (case answer of
     Inr fee \<Rightarrow> Inr (Some fee)
   | Inl e \<Rightarrow> if absent_from_mempool e then Inr None else Inl e)"

section \<open>Loops\<close>

abbreviation warming_up :: "rest_answer \<Rightarrow> bool" where
  "warming_up a \<equiv> a = RestHttp (Some SERVICE_UNAVAILABLE)"

text \<open>What the check answers on an answer that is not the one of a server warming up.\<close>

fun rest_verdict :: "rest_answer \<Rightarrow> rest_check_error + bool" where
  "rest_verdict RestChainInfo = Inr True"
| "rest_verdict RestServerNotEnabled = Inr False"
| "rest_verdict a = Inl (RestCheckFailed a)"

lemma rest_check_loop_decides:
  "\<not> warming_up (answers (retries + n)) \<Longrightarrow> (\<And>i. i < n \<Longrightarrow> warming_up (answers (retries + i))) \<Longrightarrow>
   retries + n \<le> MAX_RETRIES \<Longrightarrow> rest_check_loop answers retries = rest_verdict (answers (retries + n))"
proof (induction n arbitrary: retries)
  case 0
  then show ?case
    by (subst rest_check_loop.simps) (auto split: rest_answer.splits)
next
  case (Suc n)
  have "warming_up (answers retries)" using Suc.prems(2) [of 0] by simp
  moreover have "rest_check_loop answers (retries + 1) = rest_verdict (answers (retries + 1 + n))"
    using Suc.prems(1,3) Suc.prems(2) [of "Suc i" for i] by (intro Suc.IH) simp_all
  ultimately show ?case using Suc.prems(3) by (subst rest_check_loop.simps) simp
qed

lemma rest_check_loop_gives_up:
  "(\<And>i. i \<le> n \<Longrightarrow> warming_up (answers (retries + i))) \<Longrightarrow> retries + n = MAX_RETRIES \<Longrightarrow>
   rest_check_loop answers retries = Inl (StillWarmingUp MAX_RETRIES)"
proof (induction n arbitrary: retries)
  case 0
  then show ?case using 0(1) [of 0] by (subst rest_check_loop.simps) simp
next
  case (Suc n)
  have "warming_up (answers retries)" using Suc.prems(1) [of 0] by simp
  moreover have "rest_check_loop answers (retries + 1) = Inl (StillWarmingUp MAX_RETRIES)"
    using Suc.prems(2) Suc.prems(1) [of "Suc i" for i] by (intro Suc.IH) simp_all
  ultimately show ?case using Suc.prems(2) by (subst rest_check_loop.simps) simp
qed

text \<open>An answer that ends the wait for the index.\<close>

fun txindex_verdict :: "client_error + bool option \<Rightarrow> (txindex_check_error + unit) option" where
  "txindex_verdict (Inl e) = Some (Inl (TxindexRpc e))"
| "txindex_verdict (Inr None) = Some (Inl TxindexNotEnabled)"
| "txindex_verdict (Inr (Some True)) = Some (Inr ())"
| "txindex_verdict (Inr (Some False)) = None"

lemma txindex_loop_step:
  "txindex_loop answers polls = (case txindex_verdict (answers polls) of
     None \<Rightarrow> txindex_loop answers (polls + 1) | Some r \<Rightarrow> Some r)"
  by (subst txindex_loop.simps)
    (cases "answers polls" rule: txindex_verdict.cases; simp)

lemma txindex_loop_returns:
  "txindex_verdict (answers (polls + n)) = Some r \<Longrightarrow>
   (\<And>i. i < n \<Longrightarrow> txindex_verdict (answers (polls + i)) = None) \<Longrightarrow>
   txindex_loop answers polls = Some r"
proof (induction n arbitrary: polls)
  case 0
  then show ?case by (simp add: txindex_loop_step)
next
  case (Suc n)
  have "txindex_verdict (answers polls) = None" using Suc.prems(2) [of 0] by simp
  moreover have "txindex_loop answers (polls + 1) = Some r"
    using Suc.prems(1) Suc.prems(2) [of "Suc i" for i] by (intro Suc.IH) simp_all
  ultimately show ?case by (subst txindex_loop_step) simp
qed

lemma txindex_loop_waits:
  assumes "txindex_loop answers polls = Some r"
  shows "\<exists>n. txindex_verdict (answers n) \<noteq> None"
proof (rule txindex_loop.raw_induct [where P = "\<lambda>answers polls r. \<exists>n. txindex_verdict (answers n) \<noteq> None"])
  fix loop answers and polls :: nat and r
  assume "\<And>answers polls r. loop answers polls = Some r \<Longrightarrow> \<exists>n. txindex_verdict (answers n) \<noteq> None"
    and "(case answers polls of Inl e \<Rightarrow> Some (Inl (TxindexRpc e)) | Inr None \<Rightarrow> Some (Inl TxindexNotEnabled)
      | Inr (Some synced) \<Rightarrow> if synced then Some (Inr ()) else loop answers (polls + 1)) = Some r"
  then show "\<exists>n. txindex_verdict (answers n) \<noteq> None"
    by (cases "answers polls" rule: txindex_verdict.cases) (auto intro: exI [of _ polls])
qed (rule assms)

lemma split_char_not_empty [simp]: "split_char c s \<noteq> []"
  by (induction c s rule: split_char.induct) (auto split: list.splits)

lemma split_char_absent: "c \<notin> set s \<Longrightarrow> split_char c s = [s]"
  by (induction c s rule: split_char.induct) auto

lemma split_char_append: "c \<notin> set s \<Longrightarrow> split_char c (s @ c # t) = s # split_char c t"
  by (induction s) auto

lemma split_char_pieces: "split_char c s = p # ps \<Longrightarrow>
    c \<notin> set p \<and> (if ps = [] then s = p else \<exists>t. s = p @ c # t \<and> split_char c t = ps)"
proof (induction c s arbitrary: p ps rule: split_char.induct)
  case (2 c x xs)
  show ?case
  proof (cases "x = c")
    case True
    then show ?thesis using 2(3) by auto
  next
    case False
    then obtain q where "split_char c xs = q # ps" "p = x # q"
      using 2(3) by (auto split: list.splits)
    then show ?thesis using 2(2) [OF False] False by (cases ps) auto
  qed
qed auto

lemma split_char_two: "(\<exists>ps. split_char CHR '':'' auth = user # pass # ps) \<longleftrightarrow>
    (\<exists>rest. (auth = user @ '':'' @ pass \<or> auth = user @ '':'' @ pass @ '':'' @ rest)
      \<and> CHR '':'' \<notin> set user \<and> CHR '':'' \<notin> set pass)"
proof
  assume "\<exists>ps. split_char CHR '':'' auth = user # pass # ps"
  then obtain ps t where "auth = user @ CHR '':'' # t" "CHR '':'' \<notin> set user"
      "split_char CHR '':'' t = pass # ps"
    by (fastforce dest: split_char_pieces)
  moreover from split_char_pieces [OF this(3)] obtain rest where
    "CHR '':'' \<notin> set pass" "t = pass \<or> t = pass @ CHR '':'' # rest" by (auto split: if_splits)
  ultimately show "\<exists>rest. (auth = user @ '':'' @ pass \<or> auth = user @ '':'' @ pass @ '':'' @ rest)
      \<and> CHR '':'' \<notin> set user \<and> CHR '':'' \<notin> set pass" by auto
qed (auto simp: split_char_append split_char_absent)

section \<open>Properties\<close>

text \<open>The check of the REST server ends after at most 181 requests, and the first answer that is
  not 503 decides: available, disabled, or an error; if there is none it reports that the server
  is still warming up.\<close>

theorem rest_check_decides:
  "check_rest_server_available answers =
     (case find (\<lambda>i. \<not> warming_up (answers i)) [0..<181] of
        Some i \<Rightarrow> rest_verdict (answers i)
      | None \<Rightarrow> Inl (StillWarmingUp 180))"
proof (cases "find (\<lambda>i. \<not> warming_up (answers i)) [0..<181]")
  case None
  then have "warming_up (answers i)" if "i \<le> 180" for i
    using that by (force simp: find_None_iff)
  then show ?thesis using None rest_check_loop_gives_up [of 180 answers 0]
    by (simp add: check_rest_server_available_def MAX_RETRIES_def)
next
  case (Some i)
  then obtain "i < 181" "\<not> warming_up (answers i)" "\<forall>j<i. warming_up (answers j)"
    by (force simp: find_Some_iff)
  then show ?thesis using Some rest_check_loop_decides [of answers 0 i]
    by (simp add: check_rest_server_available_def MAX_RETRIES_def)
qed

lemma check_txindex_iff:
  "(\<exists>r. check_txindex answers = Some r) \<longleftrightarrow> (\<exists>n. txindex_verdict (answers n) \<noteq> None)"
proof
  assume "\<exists>n. txindex_verdict (answers n) \<noteq> None"
  then obtain n where "txindex_verdict (answers n) \<noteq> None" "\<forall>i<n. txindex_verdict (answers i) = None"
    using exists_least_iff [of "\<lambda>n. txindex_verdict (answers n) \<noteq> None"] by blast
  then show "\<exists>r. check_txindex answers = Some r"
    using txindex_loop_returns [of answers 0 n] by (auto simp: check_txindex_def)
qed (use txindex_loop_waits in \<open>auto simp: check_txindex_def\<close>)

text \<open>C40: The RPC client gets credentials exactly when a user and a password are configured and no
  cookie, or a cookie and neither of them, and the cookie file has a colon: the user is what stands
  before it, the password what follows up to a second colon. \<open>GetRpcUser\<close> is never the outcome.\<close>

theorem client_credentials_exact:
  "(client_credentials read_cookie conf = Inr (user, pass)) =
     (if rpc_cookie_path conf = None then rpc_user conf = Some user \<and> rpc_pass conf = Some pass
      else rpc_user conf = None \<and> rpc_pass conf = None \<and>
        (\<exists>rest. (read_cookie (the (rpc_cookie_path conf)) = Some (user @ '':'' @ pass)
             \<or> read_cookie (the (rpc_cookie_path conf)) = Some (user @ '':'' @ pass @ '':'' @ rest))
          \<and> CHR '':'' \<notin> set user \<and> CHR '':'' \<notin> set pass))
   \<and> client_credentials read_cookie conf \<noteq> Inl GetRpcUser"
proof -
  have pieces: "client_credentials read_cookie conf = Inr (user, pass) \<longleftrightarrow>
      (\<exists>ps. split_char CHR '':'' auth = user # pass # ps)"
    if "rpc_cookie_path conf = Some p" "rpc_user conf = None" "rpc_pass conf = None"
      "read_cookie p = Some auth" for p auth
    using that by (auto simp: client_credentials_def split: list.splits)
  have "client_credentials read_cookie conf \<noteq> Inl GetRpcUser"
    by (auto simp: client_credentials_def Let_def split: option.splits list.splits)
  moreover have "(client_credentials read_cookie conf = Inr (user, pass)) =
     (if rpc_cookie_path conf = None then rpc_user conf = Some user \<and> rpc_pass conf = Some pass
      else rpc_user conf = None \<and> rpc_pass conf = None \<and>
        (\<exists>rest. (read_cookie (the (rpc_cookie_path conf)) = Some (user @ '':'' @ pass)
             \<or> read_cookie (the (rpc_cookie_path conf)) = Some (user @ '':'' @ pass @ '':'' @ rest))
          \<and> CHR '':'' \<notin> set user \<and> CHR '':'' \<notin> set pass))"
  proof (cases "rpc_cookie_path conf")
    case None
    then show ?thesis by (auto simp: client_credentials_def)
  next
    case (Some p)
    show ?thesis
    proof (cases "rpc_user conf = None \<and> rpc_pass conf = None")
      case False
      then show ?thesis using Some by (auto simp: client_credentials_def)
    next
      case True
      then show ?thesis using Some pieces [OF Some] split_char_two
        by (cases "read_cookie p") (auto simp: client_credentials_def)
    qed
  qed
  ultimately show ?thesis by blast
qed

end
