(* ===== verification/Proto.thy ===== *)
theory Proto
  imports Messages
begin

text \<open>
  The conversions between the messages of the RPC interface and the types of the program
  (\<open>proto.rs\<close>), and the transport form of a withdrawal bundle (\<open>BlindedM6::deserialize\<close> in
  \<open>types.rs\<close>).

  A message of the generated code is a record with an option for every field that may be absent;
  the hexadecimal wrappers \<open>ConsensusHex\<close>, \<open>Hex\<close> and \<open>ReverseHex\<close> are an optional string. An
  error of a conversion names the message and the field; the offending value and the texts are
  not kept. The \<open>hex\<close> crate and the consensus encoding of the \<open>bitcoin\<close> crate are the parameter
  \<open>proto_codec\<close>.
\<close>

section \<open>Hexadecimal fields\<close>

record proto_codec =
  pc_hex_encode :: "bytes \<Rightarrow> string"
  pc_hex_decode :: "string \<Rightarrow> bytes option"
  pc_from_hex :: "nat \<Rightarrow> string \<Rightarrow> bytes option"
  pc_hash_serialize :: "bytes \<Rightarrow> bytes"
  pc_hash_deserialize :: "bytes \<Rightarrow> bytes option"
  pc_vec_serialize :: "bytes \<Rightarrow> bytes"
  pc_vec_deserialize :: "bytes \<Rightarrow> bytes option"
  pc_tx_serialize :: "transaction \<Rightarrow> bytes"
  pc_work_bytes :: "nat \<Rightarrow> bytes"

text \<open>What the crates document: decoding inverts encoding, for hashes and arrays at their length.\<close>

definition codec_ok :: "proto_codec \<Rightarrow> bool" where
  "codec_ok C \<longleftrightarrow>
     (\<forall>bs. pc_hex_decode C (pc_hex_encode C bs) = Some bs)
   \<and> (\<forall>bs. pc_from_hex C (length bs) (pc_hex_encode C bs) = Some bs)
   \<and> (\<forall>bs. length bs = 32 \<longrightarrow> pc_hash_deserialize C (pc_hash_serialize C bs) = Some bs)
   \<and> (\<forall>bs. pc_vec_deserialize C (pc_vec_serialize C bs) = Some bs)"

type_synonym hex_message = "string option"

datatype proto_error =
    MissingField string string
  | InvalidFieldValue string string
  | InvalidRepeatedValue string string

definition required :: "string \<Rightarrow> string \<Rightarrow> 'a option \<Rightarrow> proto_error + 'a" where
  "required message field v = (case v of None \<Rightarrow> Inl (MissingField message field) | Some x \<Rightarrow> Inr x)"

definition consensus_hex_decode :: "proto_codec \<Rightarrow> (bytes \<Rightarrow> 'a option) \<Rightarrow> string \<Rightarrow> string \<Rightarrow> hex_message
    \<Rightarrow> proto_error + 'a" where
  "consensus_hex_decode C deserialize message field h = (case h of
     None \<Rightarrow> Inl (MissingField ''ConsensusHex'' ''hex'')
   | Some hex \<Rightarrow> (case Option.bind (pc_hex_decode C hex) deserialize of
       None \<Rightarrow> Inl (InvalidFieldValue message field)
     | Some v \<Rightarrow> Inr v))"

definition consensus_hex_encode :: "proto_codec \<Rightarrow> bytes \<Rightarrow> hex_message" where
  "consensus_hex_encode C serialized = Some (pc_hex_encode C serialized)"

definition hex_array_decode :: "proto_codec \<Rightarrow> nat \<Rightarrow> string \<Rightarrow> string \<Rightarrow> hex_message
    \<Rightarrow> proto_error + bytes" where
  "hex_array_decode C n message field h = (case h of
     None \<Rightarrow> Inl (MissingField ''Hex'' ''hex'')
   | Some hex \<Rightarrow> (case pc_from_hex C n hex of
       None \<Rightarrow> Inl (InvalidFieldValue message field)
     | Some v \<Rightarrow> Inr v))"

definition hex_bytes_encode :: "proto_codec \<Rightarrow> bytes \<Rightarrow> hex_message" where
  "hex_bytes_encode C bs = Some (pc_hex_encode C bs)"

definition reverse_hex_decode :: "proto_codec \<Rightarrow> (bytes \<Rightarrow> 'a option) \<Rightarrow> string \<Rightarrow> string \<Rightarrow> hex_message
    \<Rightarrow> proto_error + 'a" where
  "reverse_hex_decode C deserialize message field h = (case h of
     None \<Rightarrow> Inl (MissingField ''ReverseHex'' ''hex'')
   | Some hex \<Rightarrow> (case pc_hex_decode C hex of
       None \<Rightarrow> Inl (InvalidFieldValue message field)
     | Some bytes \<Rightarrow> (case deserialize (rev bytes) of
         None \<Rightarrow> Inl (InvalidFieldValue message field)
       | Some v \<Rightarrow> Inr v)))"

definition reverse_hex_encode :: "proto_codec \<Rightarrow> bytes \<Rightarrow> hex_message" where
  "reverse_hex_encode C serialized = Some (pc_hex_encode C (rev serialized))"

abbreviation hash_to_reverse_hex :: "proto_codec \<Rightarrow> bytes \<Rightarrow> hex_message" where
  "hash_to_reverse_hex C h \<equiv> reverse_hex_encode C (pc_hash_serialize C h)"

abbreviation hash_to_consensus_hex :: "proto_codec \<Rightarrow> bytes \<Rightarrow> hex_message" where
  "hash_to_consensus_hex C h \<equiv> consensus_hex_encode C (pc_hash_serialize C h)"

lemma reverse_hex_roundtrip:
  "codec_ok C \<Longrightarrow> length h = 32 \<Longrightarrow>
     reverse_hex_decode C (pc_hash_deserialize C) message field (hash_to_reverse_hex C h) = Inr h"
  by (simp add: codec_ok_def reverse_hex_decode_def reverse_hex_encode_def)

lemma consensus_hex_roundtrip:
  "codec_ok C \<Longrightarrow> length h = 32 \<Longrightarrow>
     consensus_hex_decode C (pc_hash_deserialize C) message field (hash_to_consensus_hex C h) = Inr h"
  by (simp add: codec_ok_def consensus_hex_decode_def consensus_hex_encode_def)

lemma consensus_vec_roundtrip:
  "codec_ok C \<Longrightarrow> consensus_hex_decode C (pc_vec_deserialize C) message field
     (consensus_hex_encode C (pc_vec_serialize C v)) = Inr v"
  by (simp add: codec_ok_def consensus_hex_decode_def consensus_hex_encode_def)

lemma hex_array_roundtrip:
  "codec_ok C \<Longrightarrow> length v = n \<Longrightarrow> hex_array_decode C n message field (hex_bytes_encode C v) = Inr v"
  by (auto simp: codec_ok_def hex_array_decode_def hex_bytes_encode_def)

section \<open>Sidechain declarations\<close>

record declaration_v0 =
  v0_title :: "bytes option"
  v0_description :: "bytes option"
  v0_hash_id_1 :: "hex_message option"
  v0_hash_id_2 :: "hex_message option"

text \<open>The message holds one of its versions, of which there is one, or none.\<close>

type_synonym declaration_message = "declaration_v0 option"

definition declaration_to_v0 :: "proto_codec \<Rightarrow> sidechain_declaration \<Rightarrow> declaration_v0" where
  "declaration_to_v0 C d = \<lparr>v0_title = Some (decl_title d), v0_description = Some (decl_description d),
     v0_hash_id_1 = Some (hash_to_consensus_hex C (hash_id_1 d)),
     v0_hash_id_2 = Some (hex_bytes_encode C (hash_id_2 d))\<rparr>"

definition declaration_from_v0 :: "proto_codec \<Rightarrow> declaration_v0 \<Rightarrow> proto_error + sidechain_declaration" where
  "declaration_from_v0 C v =
     (case required ''V0'' ''title'' (v0_title v) of Inl e \<Rightarrow> Inl e | Inr title \<Rightarrow>
     (case required ''V0'' ''description'' (v0_description v) of Inl e \<Rightarrow> Inl e | Inr description \<Rightarrow>
     (case required ''V0'' ''hash_id_1'' (v0_hash_id_1 v) of Inl e \<Rightarrow> Inl e | Inr h1 \<Rightarrow>
     (case consensus_hex_decode C (pc_hash_deserialize C) ''V0'' ''hash_id_1'' h1 of Inl e \<Rightarrow> Inl e | Inr hash1 \<Rightarrow>
     (case required ''V0'' ''hash_id_2'' (v0_hash_id_2 v) of Inl e \<Rightarrow> Inl e | Inr h2 \<Rightarrow>
     (case hex_array_decode C 20 ''V0'' ''hash_id_2'' h2 of Inl e \<Rightarrow> Inl e | Inr hash2 \<Rightarrow>
       Inr \<lparr>decl_title = title, decl_description = description, hash_id_1 = hash1, hash_id_2 = hash2\<rparr>))))))"

definition declaration_to_proto :: "proto_codec \<Rightarrow> sidechain_declaration \<Rightarrow> declaration_message" where
  "declaration_to_proto C d = Some (declaration_to_v0 C d)"

definition declaration_from_proto :: "proto_codec \<Rightarrow> declaration_message \<Rightarrow> proto_error + sidechain_declaration" where
  "declaration_from_proto C m = (case required ''SidechainDeclaration'' ''sidechain_declaration'' m of
     Inl e \<Rightarrow> Inl e | Inr v0 \<Rightarrow> declaration_from_v0 C v0)"

section \<open>Policies and networks\<close>

text \<open>An enum value that this build does not know is \<open>None\<close>.\<close>

datatype proto_ack_policy =
    ACK_POLICY_UNSPECIFIED | ACK_POLICY_NONE | ACK_POLICY_NEW_SLOTS | ACK_POLICY_ALL

datatype unknown_policy = UnknownPolicy

fun ack_policy_to_proto :: "ack_all_proposals_policy \<Rightarrow> proto_ack_policy" where
  "ack_policy_to_proto AckNone = ACK_POLICY_NONE"
| "ack_policy_to_proto AckNewSlots = ACK_POLICY_NEW_SLOTS"
| "ack_policy_to_proto AckAll = ACK_POLICY_ALL"

fun ack_policy_from_proto :: "proto_ack_policy option \<Rightarrow> unknown_policy + ack_all_proposals_policy" where
  "ack_policy_from_proto (Some ACK_POLICY_NONE) = Inr AckNone"
| "ack_policy_from_proto (Some ACK_POLICY_NEW_SLOTS) = Inr AckNewSlots"
| "ack_policy_from_proto (Some ACK_POLICY_ALL) = Inr AckAll"
| "ack_policy_from_proto (Some ACK_POLICY_UNSPECIFIED) = Inl UnknownPolicy"
| "ack_policy_from_proto None = Inl UnknownPolicy"

datatype proto_bundle_policy = BUNDLE_POLICY_UNSPECIFIED | BUNDLE_POLICY_NONE | BUNDLE_POLICY_KNOWN
  | BUNDLE_POLICY_ALL | BUNDLE_POLICY_ALARM

fun bundle_policy_to_proto :: "withdrawal_bundle_policy \<Rightarrow> proto_bundle_policy" where
  "bundle_policy_to_proto PolNone = BUNDLE_POLICY_NONE"
| "bundle_policy_to_proto PolKnown = BUNDLE_POLICY_KNOWN"
| "bundle_policy_to_proto PolAll = BUNDLE_POLICY_ALL"
| "bundle_policy_to_proto PolAlarm = BUNDLE_POLICY_ALARM"

fun bundle_policy_from_proto :: "proto_bundle_policy option \<Rightarrow> unknown_policy + withdrawal_bundle_policy" where
  "bundle_policy_from_proto (Some BUNDLE_POLICY_NONE) = Inr PolNone"
| "bundle_policy_from_proto (Some BUNDLE_POLICY_KNOWN) = Inr PolKnown"
| "bundle_policy_from_proto (Some BUNDLE_POLICY_ALL) = Inr PolAll"
| "bundle_policy_from_proto (Some BUNDLE_POLICY_ALARM) = Inr PolAlarm"
| "bundle_policy_from_proto (Some BUNDLE_POLICY_UNSPECIFIED) = Inl UnknownPolicy"
| "bundle_policy_from_proto None = Inl UnknownPolicy"

datatype proto_network = NETWORK_MAINNET | NETWORK_REGTEST | NETWORK_SIGNET | NETWORK_TESTNET

fun network_to_proto :: "network \<Rightarrow> proto_network" where
  "network_to_proto Mainnet = NETWORK_MAINNET"
| "network_to_proto Regtest = NETWORK_REGTEST"
| "network_to_proto Signet = NETWORK_SIGNET"
| "network_to_proto Testnet = NETWORK_TESTNET"
| "network_to_proto Testnet4 = NETWORK_TESTNET"

section \<open>Coinbase messages\<close>

definition proto_sidechain_number :: "string \<Rightarrow> string \<Rightarrow> u32 option \<Rightarrow> proto_error + sidechain_number" where
  "proto_sidechain_number message field v = (case required message field v of
     Inl e \<Rightarrow> Inl e
   | Inr n \<Rightarrow> (case sidechain_number_try_from n of
       Inl _ \<Rightarrow> Inl (InvalidFieldValue message field)
     | Inr s \<Rightarrow> Inr s))"

record propose_sidechain_message =
  ps_sidechain_number :: "u32 option"
  ps_data :: "hex_message option"

definition m1_from_proto :: "proto_codec \<Rightarrow> propose_sidechain_message \<Rightarrow> proto_error + m1_propose_sidechain" where
  "m1_from_proto C m =
     (case proto_sidechain_number ''ProposeSidechain'' ''sidechain_number'' (ps_sidechain_number m) of Inl e \<Rightarrow> Inl e | Inr n \<Rightarrow>
     (case required ''ProposeSidechain'' ''data'' (ps_data m) of Inl e \<Rightarrow> Inl e | Inr data \<Rightarrow>
     (case consensus_hex_decode C (pc_vec_deserialize C) ''ProposeSidechain'' ''data'' data of Inl e \<Rightarrow> Inl e | Inr description \<Rightarrow>
       Inr \<lparr>m1_sidechain_number = n, m1_description = description\<rparr>)))"

record ack_sidechain_message =
  as_sidechain_number :: "u32 option"
  as_data_hash :: "hex_message option"

definition m2_from_proto :: "proto_codec \<Rightarrow> ack_sidechain_message \<Rightarrow> proto_error + m2_ack_sidechain" where
  "m2_from_proto C m =
     (case proto_sidechain_number ''AckSidechain'' ''sidechain_number'' (as_sidechain_number m) of Inl e \<Rightarrow> Inl e | Inr n \<Rightarrow>
     (case required ''AckSidechain'' ''data_hash'' (as_data_hash m) of Inl e \<Rightarrow> Inl e | Inr hash \<Rightarrow>
     (case consensus_hex_decode C (pc_hash_deserialize C) ''AckSidechain'' ''data_hash'' hash of Inl e \<Rightarrow> Inl e | Inr description_hash \<Rightarrow>
       Inr \<lparr>m2_sidechain_number = n, m2_description_hash = description_hash\<rparr>)))"

record propose_bundle_message =
  pb_sidechain_number :: "u32 option"
  pb_bundle_txid :: "hex_message option"

definition m3_from_proto :: "proto_codec \<Rightarrow> propose_bundle_message \<Rightarrow> proto_error + m3_propose_bundle" where
  "m3_from_proto C m =
     (case proto_sidechain_number ''ProposeBundle'' ''sidechain_number'' (pb_sidechain_number m) of Inl e \<Rightarrow> Inl e | Inr n \<Rightarrow>
     (case required ''ProposeBundle'' ''bundle_txid'' (pb_bundle_txid m) of Inl e \<Rightarrow> Inl e | Inr hash \<Rightarrow>
     (case reverse_hex_decode C (pc_hash_deserialize C) ''ProposeBundle'' ''bundle_txid'' hash of Inl e \<Rightarrow> Inl e | Inr txid \<Rightarrow>
       Inr \<lparr>m3_sidechain_number = n, m3_bundle_txid = txid\<rparr>)))"

text \<open>The loop over the votes: an error at the first that does not fit two bytes, otherwise whether
  one needs two.\<close>

fun upvotes_width :: "u32 list \<Rightarrow> bool \<Rightarrow> proto_error + bool" where
  "upvotes_width [] two_bytes = Inr two_bytes"
| "upvotes_width (u # us) two_bytes =
     (if u > 0xFFFF then Inl (InvalidRepeatedValue ''Upvotes'' ''upvotes'')
      else if u > 0xFF then upvotes_width us True
      else upvotes_width us two_bytes)"

definition upvotes_from_proto :: "u32 list \<Rightarrow> proto_error + m4_ack_bundles" where
  "upvotes_from_proto vals = (case upvotes_width vals False of
     Inl e \<Rightarrow> Inl e
   | Inr two_bytes \<Rightarrow> Inr (if two_bytes then TwoBytes (map ucast vals) else OneByte (map ucast vals)))"

datatype ack_bundles_message = PLeadingBy50 | PRepeatPrevious | PUpvotes "u32 list"

fun ack_bundles_from_oneof :: "ack_bundles_message \<Rightarrow> proto_error + m4_ack_bundles" where
  "ack_bundles_from_oneof PLeadingBy50 = Inr LeadingBy50"
| "ack_bundles_from_oneof PRepeatPrevious = Inr RepeatPrevious"
| "ack_bundles_from_oneof (PUpvotes vals) = upvotes_from_proto vals"

definition m4_from_proto :: "ack_bundles_message option \<Rightarrow> proto_error + m4_ack_bundles" where
  "m4_from_proto m = (case required ''AckBundles'' ''ack_bundles'' m of
     Inl e \<Rightarrow> Inl e | Inr ack \<Rightarrow> ack_bundles_from_oneof ack)"

section \<open>Headers, events and block infos\<close>

record header_message =
  hm_block_hash :: hex_message
  hm_prev_block_hash :: hex_message
  hm_height :: u32
  hm_work :: hex_message
  hm_timestamp :: u64

definition header_to_proto :: "proto_codec \<Rightarrow> header_info \<Rightarrow> header_message" where
  "header_to_proto C info = \<lparr>hm_block_hash = hash_to_reverse_hex C (hi_block_hash info),
     hm_prev_block_hash = hash_to_reverse_hex C (hi_prev_block_hash info),
     hm_height = hi_height info,
     hm_work = hash_to_consensus_hex C (pc_work_bytes C (hi_work info)),
     hm_timestamp = ucast (hi_timestamp info)\<rparr>"

record outpoint_message =
  om_txid :: hex_message
  om_vout :: u32

definition outpoint_to_proto :: "proto_codec \<Rightarrow> outpoint \<Rightarrow> outpoint_message" where
  "outpoint_to_proto C op = \<lparr>om_txid = hash_to_reverse_hex C (op_txid op), om_vout = op_vout op\<rparr>"

record deposit_message =
  dm_sequence_number :: nat
  dm_outpoint :: outpoint_message
  dm_address :: hex_message
  dm_value_sats :: u64

definition deposit_to_proto :: "proto_codec \<Rightarrow> deposit \<Rightarrow> deposit_message" where
  "deposit_to_proto C d = \<lparr>dm_sequence_number = dep_sequence_number d,
     dm_outpoint = outpoint_to_proto C (dep_outpoint d),
     dm_address = hex_bytes_encode C (dep_address d), dm_value_sats = dep_value d\<rparr>"

datatype bundle_event_message = BundleFailed | BundleSubmitted | BundleSucceeded nat hex_message

fun event_kind_to_proto :: "proto_codec \<Rightarrow> withdrawal_bundle_event_kind \<Rightarrow> bundle_event_message" where
  "event_kind_to_proto C Failed = BundleFailed"
| "event_kind_to_proto C Submitted = BundleSubmitted"
| "event_kind_to_proto C (Succeeded sequence_number tx) =
     BundleSucceeded sequence_number (consensus_hex_encode C (pc_tx_serialize C tx))"

datatype block_event_message =
    DepositEvent deposit_message
  | WithdrawalBundleEventMessage hex_message bundle_event_message

fun block_event_to_proto :: "proto_codec \<Rightarrow> sidechain_block_event \<Rightarrow> block_event_message option" where
  "block_event_to_proto C (SDeposit d) = Some (DepositEvent (deposit_to_proto C d))"
| "block_event_to_proto C (SSidechainProposal vout description) = None"
| "block_event_to_proto C (SWithdrawalBundle e) =
     Some (WithdrawalBundleEventMessage (hash_to_consensus_hex C (swbe_m6id e))
       (event_kind_to_proto C (swbe_kind e)))"

record block_info_message =
  bim_bmm_commitment :: "hex_message option"
  bim_events :: "block_event_message list"

definition block_info_message_default :: block_info_message where
  "block_info_message_default = \<lparr>bim_bmm_commitment = None, bim_events = []\<rparr>"

definition sidechain_block_info_to_proto :: "proto_codec \<Rightarrow> sidechain_block_info \<Rightarrow> block_info_message" where
  "sidechain_block_info_to_proto C info =
     \<lparr>bim_bmm_commitment = map_option (hash_to_consensus_hex C) (sbi_bmm_commitment info),
      bim_events = List.map_filter (block_event_to_proto C) (sbi_events info)\<rparr>"

definition block_info_as_proto :: "proto_codec \<Rightarrow> block_info \<Rightarrow> sidechain_number \<Rightarrow> block_info_message" where
  "block_info_as_proto C info n = sidechain_block_info_to_proto C (only_sidechain info n)"

definition peg_data_into_proto :: "proto_codec \<Rightarrow> two_way_peg_data \<Rightarrow> sidechain_number
    \<Rightarrow> (header_message \<times> block_info_message) option" where
  "peg_data_into_proto C d n =
     (let info = block_info_as_proto C (twp_block_info d) n
      in if info = block_info_message_default then None
         else Some (header_to_proto C (twp_header_info d), info))"

datatype event_message =
    ConnectBlockMessage header_message block_info_message
  | DisconnectBlockMessage hex_message

fun event_into_proto :: "proto_codec \<Rightarrow> event \<Rightarrow> sidechain_number \<Rightarrow> event_message" where
  "event_into_proto C (ConnectBlock header_info block_info) n =
     ConnectBlockMessage (header_to_proto C header_info) (block_info_as_proto C block_info n)"
| "event_into_proto C (DisconnectBlock block_hash) n =
     DisconnectBlockMessage (hash_to_reverse_hex C block_hash)"

record sidechain_info_message =
  sim_sidechain_number :: u32
  sim_description :: hex_message
  sim_vote_count :: u32
  sim_proposal_height :: u32
  sim_activation_height :: "u32 option"
  sim_declaration :: "declaration_message option"

text \<open>The declaration of a description, if it decodes; the outer \<open>None\<close> is a panic of the decoder.\<close>

definition proto_declaration :: "proto_codec \<Rightarrow> sidechain_description \<Rightarrow> declaration_message option option" where
  "proto_declaration C description = map_option
     (\<lambda>d. case d of Inl _ \<Rightarrow> None | Inr decl \<Rightarrow> Some (declaration_to_proto C decl))
     (sidechain_declaration_try_from description)"

definition sidechain_to_info :: "proto_codec \<Rightarrow> sidechain \<Rightarrow> sidechain_info_message option" where
  "sidechain_to_info C sc = map_option (\<lambda>decl.
     \<lparr>sim_sidechain_number = ucast (prop_sidechain_number (sc_proposal sc)),
      sim_description = consensus_hex_encode C (pc_vec_serialize C (prop_description (sc_proposal sc))),
      sim_vote_count = ucast (st_vote_count (sc_status sc)),
      sim_proposal_height = st_proposal_height (sc_status sc),
      sim_activation_height = st_activation_height (sc_status sc),
      sim_declaration = decl\<rparr>) (proto_declaration C (prop_description (sc_proposal sc)))"

section \<open>Fees\<close>

text \<open>\<open>FeeRate::from_sat_per_vb\<close>, a checked conversion, is the parameter \<open>rate\<close>.\<close>

datatype 'r fee_policy = FeeAbsolute amount | FeeOfRate 'r

datatype fee_message = SatPerVbyte u64 | FeeSats u64

fun fee_from_oneof :: "(u64 \<Rightarrow> 'r option) \<Rightarrow> fee_message \<Rightarrow> u64 + 'r fee_policy" where
  "fee_from_oneof rate (SatPerVbyte sats) =
     (case rate sats of None \<Rightarrow> Inl sats | Some r \<Rightarrow> Inr (FeeOfRate r))"
| "fee_from_oneof rate (FeeSats sats) = Inr (FeeAbsolute sats)"

definition fee_from_proto :: "(u64 \<Rightarrow> 'r option) \<Rightarrow> fee_message option \<Rightarrow> proto_error + 'r fee_policy" where
  "fee_from_proto rate m = (case required ''FeeRate'' ''fee'' m of
     Inl e \<Rightarrow> Inl e
   | Inr fee \<Rightarrow> (case fee_from_oneof rate fee of
       Inl _ \<Rightarrow> Inl (InvalidFieldValue ''FeeRate'' ''fee'')
     | Inr policy \<Rightarrow> Inr policy))"

section \<open>Bundles in transport\<close>

text \<open>
  The decoders of the \<open>bitcoin\<close> crate: of a whole transaction, and of a version, a variable-length
  count, an output and a lock time at the front of a byte string, with what is left of it.
\<close>

record tx_decoders =
  td_transaction :: "bytes \<Rightarrow> transaction option"
  td_version :: "bytes \<Rightarrow> (u32 \<times> bytes) option"
  td_varint :: "bytes \<Rightarrow> (u64 \<times> bytes) option"
  td_txout :: "bytes \<Rightarrow> (txout \<times> bytes) option"
  td_lock_time :: "bytes \<Rightarrow> (u32 \<times> bytes) option"

fun decode_outputs :: "tx_decoders \<Rightarrow> nat \<Rightarrow> bytes \<Rightarrow> (txout list \<times> bytes) option" where
  "decode_outputs D 0 bs = Some ([], bs)"
| "decode_outputs D (Suc n) bs = (case td_txout D bs of
     None \<Rightarrow> None
   | Some (out, bs) \<Rightarrow> (case decode_outputs D n bs of
       None \<Rightarrow> None
     | Some (outs, bs) \<Rightarrow> Some (out # outs, bs)))"

definition deserialize_tx :: "tx_decoders \<Rightarrow> bytes \<Rightarrow> transaction option" where
  "deserialize_tx D bs = (case td_transaction D bs of
     Some tx \<Rightarrow> Some tx
   | None \<Rightarrow>
     (case td_version D bs of None \<Rightarrow> None | Some (version, bs) \<Rightarrow>
     (case td_varint D bs of None \<Rightarrow> None | Some (input_count, bs) \<Rightarrow>
      if input_count \<noteq> 0 then None
      else
     (case td_varint D bs of None \<Rightarrow> None | Some (output_count, bs) \<Rightarrow>
     (case decode_outputs D (unat output_count) bs of None \<Rightarrow> None | Some (output, bs) \<Rightarrow>
     (case td_lock_time D bs of None \<Rightarrow> None | Some (lock_time, bs) \<Rightarrow>
      if bs \<noteq> [] then None
      else Some \<lparr>tx_version = version, tx_lock_time = lock_time, tx_input = [], tx_output = output\<rparr>))))))"

datatype blinded_m6_decode_error = DecodeTransaction | DecodeBlindedM6 blinded_m6_error

definition blinded_m6_deserialize :: "btc \<Rightarrow> tx_decoders \<Rightarrow> bytes \<Rightarrow> blinded_m6_decode_error + blinded_m6" where
  "blinded_m6_deserialize B D bs = (case deserialize_tx D bs of
     None \<Rightarrow> Inl DecodeTransaction
   | Some tx \<Rightarrow> (case blinded_m6_try_from B tx of
       Inl e \<Rightarrow> Inl (DecodeBlindedM6 e)
     | Inr blinded \<Rightarrow> Inr blinded))"

section \<open>Properties\<close>

lemma required_Some [simp]: "required message field (Some x) = Inr x"
  by (simp add: required_def)

text \<open>A declaration survives the RPC interface: what one end encodes into the message, the
  other decodes to the same declaration.\<close>

theorem declaration_proto_roundtrip:
  assumes "codec_ok C" "length (hash_id_1 d) = 32" "length (hash_id_2 d) = 20"
  shows "declaration_from_proto C (declaration_to_proto C d) = Inr d"
  using assms
  by (cases d) (simp add: declaration_from_proto_def declaration_to_proto_def declaration_from_v0_def
      declaration_to_v0_def consensus_hex_roundtrip hex_array_roundtrip)

text \<open>Hexadecimal digits as the \<open>hex\<close> crate writes them, and raw bytes for the consensus
  encodings, with a count before a vector: an instance that shows the hypotheses can hold.\<close>

definition hex_digit :: "nat \<Rightarrow> char" where
  "hex_digit n = ''0123456789abcdef'' ! n"

definition digit_value :: "char \<Rightarrow> nat option" where
  "digit_value c = position (\<lambda>x. x = c) ''0123456789abcdef''"

definition hex_of :: "bytes \<Rightarrow> string" where
  "hex_of bs = concat (map (\<lambda>b. [hex_digit (unat b div 16), hex_digit (unat b mod 16)]) bs)"

fun of_hex :: "string \<Rightarrow> bytes option" where
  "of_hex [] = Some []"
| "of_hex [c] = None"
| "of_hex (c # d # s) = (case (digit_value c, digit_value d, of_hex s) of
     (Some a, Some b, Some bs) \<Rightarrow> Some (of_nat (16 * a + b) # bs) | _ \<Rightarrow> None)"

definition sample_codec :: proto_codec where
  "sample_codec = \<lparr>pc_hex_encode = hex_of, pc_hex_decode = of_hex,
     pc_from_hex = (\<lambda>n s. Option.bind (of_hex s) (\<lambda>bs. if length bs = n then Some bs else None)),
     pc_hash_serialize = id, pc_hash_deserialize = (\<lambda>bs. if length bs = 32 then Some bs else None),
     pc_vec_serialize = (\<lambda>bs. 0 # bs), pc_vec_deserialize = (\<lambda>bs. case bs of [] \<Rightarrow> None | _ # v \<Rightarrow> Some v),
     pc_tx_serialize = (\<lambda>_. []), pc_work_bytes = (\<lambda>_. [])\<rparr>"

lemma digit_value_hex: "n < 16 \<Longrightarrow> digit_value (hex_digit n) = Some n"
proof -
  have "\<forall>n\<in>set [0..<16]. digit_value (hex_digit n) = Some n"
    by (simp add: upt_rec digit_value_def hex_digit_def)
  then show "n < 16 \<Longrightarrow> digit_value (hex_digit n) = Some n" by simp
qed

lemma of_hex_hex_of: "of_hex (hex_of bs) = Some bs"
proof (induction bs)
  case (Cons b bs)
  have "unat b < 256" using unat_less_power [of b] by simp
  then have "digit_value (hex_digit (unat b div 16)) = Some (unat b div 16)"
      "digit_value (hex_digit (unat b mod 16)) = Some (unat b mod 16)"
    by (simp_all add: digit_value_hex less_mult_imp_div_less)
  moreover have "(of_nat (16 * (unat b div 16) + unat b mod 16) :: u8) = b" by simp
  ultimately show ?case using Cons by (simp add: hex_of_def)
qed (simp add: hex_of_def)

lemma sample_codec_ok: "codec_ok sample_codec"
  by (simp add: codec_ok_def sample_codec_def of_hex_hex_of)

theorem declaration_proto_roundtrip_witness:
  "declaration_from_proto sample_codec (declaration_to_proto sample_codec
     \<lparr>decl_title = [84], decl_description = [], hash_id_1 = replicate 32 1, hash_id_2 = replicate 20 2\<rparr>)
   = Inr \<lparr>decl_title = [84], decl_description = [], hash_id_1 = replicate 32 1, hash_id_2 = replicate 20 2\<rparr>"
  by (rule declaration_proto_roundtrip [OF sample_codec_ok]) simp_all

text \<open>The two-way peg data that goes out for a sidechain has exactly the blocks that concern it:
  those that commit to a block of it, deposit to it, or carry an event of one of its withdrawal
  bundles.\<close>

theorem peg_data_proto_exact:
  "(peg_data_into_proto C d n = None) =
     (map_of (bi_bmm_commitments (twp_block_info d)) n = None
      \<and> list_all (\<lambda>e. case e of Deposits ds \<Rightarrow> map_of ds n = None
          | SidechainProposalEvent _ _ \<Rightarrow> True
          | WithdrawalBundleE w \<Rightarrow> wbe_sidechain_id w \<noteq> n) (bi_events (twp_block_info d)))"
proof -
  have out: "block_event_to_proto C e = None \<longleftrightarrow> (\<exists>vout p. e = SSidechainProposal vout p)" for e
    by (cases e) simp_all
  have no_proposal: "only_sidechain_event n e \<noteq> Some (SSidechainProposal vout p)" for e vout p
    by (cases e) (auto split: if_splits)
  have "List.map_filter (block_event_to_proto C) (List.map_filter (only_sidechain_event n) es) = []
      \<longleftrightarrow> list_all (\<lambda>e. only_sidechain_event n e = None) es" for es
  proof (induction es)
    case (Cons e es)
    then show ?case using no_proposal [of e] out
      by (cases "only_sidechain_event n e") (auto simp: List.map_filter_simps split: option.splits)
  qed (simp add: List.map_filter_simps)
  moreover have "only_sidechain_event n e = None \<longleftrightarrow> (case e of Deposits ds \<Rightarrow> map_of ds n = None
      | SidechainProposalEvent _ _ \<Rightarrow> True | WithdrawalBundleE w \<Rightarrow> wbe_sidechain_id w \<noteq> n)" for e
    by (cases e) simp_all
  ultimately show ?thesis
    by (simp add: peg_data_into_proto_def block_info_as_proto_def sidechain_block_info_to_proto_def
        only_sidechain_def block_info_message_default_def Let_def)
qed

section \<open>Legacy bundles\<close>

text \<open>The legacy form of a transaction without inputs, from encoders of its parts.\<close>

definition legacy_encode :: "(u32 \<Rightarrow> bytes) \<Rightarrow> (u64 \<Rightarrow> bytes) \<Rightarrow> (txout \<Rightarrow> bytes) \<Rightarrow> (u32 \<Rightarrow> bytes)
    \<Rightarrow> transaction \<Rightarrow> bytes" where
  "legacy_encode enc_version enc_varint enc_txout enc_lock_time tx =
     enc_version (tx_version tx) @ enc_varint 0 @ enc_varint (of_nat (length (tx_output tx)))
     @ concat (map enc_txout (tx_output tx)) @ enc_lock_time (tx_lock_time tx)"

text \<open>Decoders that read an encoded part off the front of a byte string.\<close>

definition decodes :: "tx_decoders \<Rightarrow> (u32 \<Rightarrow> bytes) \<Rightarrow> (u64 \<Rightarrow> bytes) \<Rightarrow> (txout \<Rightarrow> bytes) \<Rightarrow> (u32 \<Rightarrow> bytes) \<Rightarrow> bool" where
  "decodes D enc_version enc_varint enc_txout enc_lock_time \<longleftrightarrow>
     (\<forall>v bs. td_version D (enc_version v @ bs) = Some (v, bs))
   \<and> (\<forall>v bs. td_varint D (enc_varint v @ bs) = Some (v, bs))
   \<and> (\<forall>v bs. td_txout D (enc_txout v @ bs) = Some (v, bs))
   \<and> (\<forall>v bs. td_lock_time D (enc_lock_time v @ bs) = Some (v, bs))"

lemma decode_outputs_encoded:
  "(\<And>v bs. td_txout D (enc v @ bs) = Some (v, bs)) \<Longrightarrow>
     decode_outputs D (length outs) (concat (map enc outs) @ bs) = Some (outs, bs)"
  by (induction outs) simp_all

lemma deserialize_legacy:
  assumes D: "decodes D enc_version enc_varint enc_txout enc_lock_time"
    and tx: "tx_input tx = []" "length (tx_output tx) < 2 ^ 64"
    and standard: "td_transaction D (legacy_encode enc_version enc_varint enc_txout enc_lock_time tx) = None"
  shows "deserialize_tx D (legacy_encode enc_version enc_varint enc_txout enc_lock_time tx) = Some tx"
proof -
  have v: "td_version D (enc_version v @ bs) = Some (v, bs)"
      and n: "td_varint D (enc_varint k @ bs) = Some (k, bs)"
      and l: "td_lock_time D (enc_lock_time v @ bs) = Some (v, bs)"
      and o: "td_txout D (enc_txout x @ bs) = Some (x, bs)" for v k x bs
    using D by (simp_all add: decodes_def)
  have "unat (of_nat (length (tx_output tx)) :: u64) = length (tx_output tx)"
    using tx(2) by (simp add: unat_of_nat)
  moreover have "td_lock_time D (enc_lock_time (tx_lock_time tx)) = Some (tx_lock_time tx, [])"
    using l [of _ "[]"] by simp
  ultimately show ?thesis
    using standard tx(1) decode_outputs_encoded [OF o]
    by (cases tx) (simp add: deserialize_tx_def legacy_encode_def v n)
qed

end
