(* ===== verification/PolicyDb.thy ===== *)
theory PolicyDb
  imports Producer Queries
begin

text \<open>
  The policy database of the block producer (\<open>src/lib/block_producer/db.rs\<close>): what the operator has
  proposed, acknowledged and submitted, and in which block each proposal was mined and each bundle
  settled, brought in line with the validator's chain before every use.

  A table is the list of its rows in the order they were inserted; a \<open>UNIQUE\<close> constraint that
  an \<open>INSERT\<close> violates is an error. An SQL transaction is the record of tables, dropped on an
  error. The columns \<open>policy_tip\<close>, \<open>mined_in\<close> and \<open>settled_in\<close> hold block hashes as hex
  text and \<open>bundle_tx\<close> the encoded bundle; here they hold the hash and the bundle. Errors of
  SQLite itself are not modelled.
\<close>

section \<open>Tables\<close>

record proposal_row =
  pr_sidechain_number :: sidechain_number
  pr_data_hash :: hash256
  pr_data :: sidechain_description
  pr_mined_in :: "blockhash option"
  pr_queued_at :: "u32 option"

record bundle_row =
  br_sidechain_number :: sidechain_number
  br_bundle_hash :: m6id
  br_bundle :: blinded_m6
  br_settled_in :: "blockhash option"
  br_queued_at :: "u32 option"
  br_paid_out :: "bool option"

record policy_db =
  pd_proposals :: "proposal_row list"
  pd_acks :: "sidechain_ack list"
  pd_bundles :: "bundle_row list"
  pd_bundle_acks :: "(sidechain_number \<times> m6id) list"
  pd_ack_policy :: ack_all_proposals_policy
  pd_bundle_policy :: withdrawal_bundle_policy
  pd_policy_tip :: "blockhash option"

text \<open>After the migrations: no rows, the policies of the settings row, no cursor.\<close>

definition policy_db_new :: policy_db where
  "policy_db_new = \<lparr>pd_proposals = [], pd_acks = [], pd_bundles = [], pd_bundle_acks = [],
     pd_ack_policy = AckNewSlots, pd_bundle_policy = PolKnown, pd_policy_tip = None\<rparr>"

datatype policy_error =
    PE_Reconcile chain_diff_error
  | PE_UniqueConstraint
  | PE_AlreadyPaidOut m6id

section \<open>Reconciling with the chain\<close>

text \<open>\<open>queued_at IS NULL OR queued_at < height\<close>\<close>

definition takes_marks :: "u32 option \<Rightarrow> u32 \<Rightarrow> bool" where
  "takes_marks queued_at height = (case queued_at of None \<Rightarrow> True | Some q \<Rightarrow> q < height)"

definition clear_proposal :: "proposal_row \<Rightarrow> proposal_row" where
  "clear_proposal r = r\<lparr>pr_mined_in := None\<rparr>"

definition clear_bundle :: "bundle_row \<Rightarrow> bundle_row" where
  "clear_bundle r = r\<lparr>br_settled_in := None, br_paid_out := None\<rparr>"

definition disconnect_marks :: "blockhash \<Rightarrow> policy_db \<Rightarrow> policy_db" where
  "disconnect_marks block_hash db =
     db\<lparr>pd_proposals := map (\<lambda>r. if pr_mined_in r = Some block_hash then clear_proposal r else r) (pd_proposals db),
        pd_bundles := map (\<lambda>r. if br_settled_in r = Some block_hash then clear_bundle r else r) (pd_bundles db)\<rparr>"

definition mark_proposal :: "btc \<Rightarrow> blockhash \<Rightarrow> u32 \<Rightarrow> sidechain_proposal \<Rightarrow> proposal_row list \<Rightarrow> proposal_row list" where
  "mark_proposal B block_hash height proposal =
     (let id = compute_id B proposal in
      map (\<lambda>r. if pr_sidechain_number r = id_sidechain_number id \<and> pr_data_hash r = id_description_hash id \<and>
                  takes_marks (pr_queued_at r) height
               then r\<lparr>pr_mined_in := Some block_hash\<rparr> else r))"

text \<open>Whether the bundle of an event was paid out, if the event settles it.\<close>

fun settles :: "withdrawal_bundle_event_kind \<Rightarrow> bool option" where
  "settles Failed = Some False"
| "settles (Succeeded _ _) = Some True"
| "settles Submitted = None"

definition mark_bundle :: "blockhash \<Rightarrow> u32 \<Rightarrow> withdrawal_bundle_event \<Rightarrow> bundle_row list \<Rightarrow> bundle_row list" where
  "mark_bundle block_hash height event rows =
     (case settles (wbe_kind event) of
        None \<Rightarrow> rows
      | Some paid_out \<Rightarrow>
          map (\<lambda>r. if br_sidechain_number r = wbe_sidechain_id event \<and> br_bundle_hash r = wbe_m6id event \<and>
                      takes_marks (br_queued_at r) height
                   then r\<lparr>br_settled_in := Some block_hash, br_paid_out := Some paid_out\<rparr> else r) rows)"

definition connect_marks :: "btc \<Rightarrow> (blockhash \<times> block_info) \<times> u32 \<Rightarrow> policy_db \<Rightarrow> policy_db" where
  "connect_marks B b db = (case b of ((block_hash, block_info), height) \<Rightarrow>
     db\<lparr>pd_proposals := fold (\<lambda>(_, proposal). mark_proposal B block_hash height proposal)
          (bi_sidechain_proposals block_info) (pd_proposals db),
        pd_bundles := fold (mark_bundle block_hash height) (withdrawal_bundle_events block_info) (pd_bundles db)\<rparr>)"

definition apply_chain_diff :: "btc \<Rightarrow> chain_diff_data \<Rightarrow> policy_db \<Rightarrow> policy_db" where
  "apply_chain_diff B diff db =
     (let db = (if cd_rebuilt diff
                then db\<lparr>pd_proposals := map clear_proposal (pd_proposals db), pd_bundles := map clear_bundle (pd_bundles db)\<rparr>
                else db);
          db = fold disconnect_marks (cd_disconnected diff) db;
          first_connected_height = cd_tip_height diff + 1 - of_nat (length (cd_connected diff));
          heights = map (\<lambda>i. first_connected_height + of_nat i) [0..<length (cd_connected diff)];
          db = fold (connect_marks B) (zip (cd_connected diff) heights) db
      in db\<lparr>pd_policy_tip := Some (cd_tip diff)\<rparr>)"

definition reconcile :: "btc \<Rightarrow> network_params \<Rightarrow> dbs \<Rightarrow> policy_db \<Rightarrow> (chain_diff_error + u32 option \<times> policy_db) option" where
  "reconcile B params validator db =
     Option.bind (chain_diff params validator (pd_policy_tip db)) (\<lambda>r. Some (case r of
        Inl e \<Rightarrow> Inl e
      | Inr None \<Rightarrow> Inr (None, db)
      | Inr (Some diff) \<Rightarrow>
          if pd_policy_tip db = Some (cd_tip diff) then Inr (Some (cd_tip_height diff), db)
          else Inr (Some (cd_tip_height diff), apply_chain_diff B diff db)))"

definition reconciled :: "btc \<Rightarrow> network_params \<Rightarrow> dbs \<Rightarrow> (policy_db \<Rightarrow> u32 option \<Rightarrow> policy_error + 'a \<times> policy_db) \<Rightarrow>
    policy_db \<Rightarrow> (policy_error + 'a \<times> policy_db) option" where
  "reconciled B params validator f db =
     Option.bind (reconcile B params validator db) (\<lambda>r. Some (case r of
        Inl e \<Rightarrow> Inl (PE_Reconcile e)
      | Inr (tip_height, db) \<Rightarrow> f db tip_height))"

definition start_cursor :: "btc \<Rightarrow> dbs \<Rightarrow> policy_db \<Rightarrow> get_header_info_error + policy_db" where
  "start_cursor B validator db =
     (if pd_policy_tip db \<noteq> None then Inr db
      else case current_chain_tip validator of
        None \<Rightarrow> Inr db
      | Some tip \<Rightarrow>
     (case get_header_info B (block_hashes validator) tip of
        Inl e \<Rightarrow> Inl e
      | Inr hi \<Rightarrow>
          Inr (db\<lparr>pd_policy_tip := Some tip,
            pd_proposals := map (\<lambda>r. if pr_queued_at r = None then r\<lparr>pr_queued_at := Some (hi_height hi)\<rparr> else r) (pd_proposals db),
            pd_bundles := map (\<lambda>r. if br_queued_at r = None then r\<lparr>br_queued_at := Some (hi_height hi)\<rparr> else r) (pd_bundles db)\<rparr>)))"

section \<open>Requests\<close>

definition get_our_sidechain_proposals :: "btc \<Rightarrow> network_params \<Rightarrow> dbs \<Rightarrow> policy_db \<Rightarrow>
    (policy_error + sidechain_proposal list \<times> policy_db) option" where
  "get_our_sidechain_proposals B params validator = reconciled B params validator (\<lambda>db _.
     Inr (map (\<lambda>r. \<lparr>prop_sidechain_number = pr_sidechain_number r, prop_description = pr_data r\<rparr>)
        (filter (\<lambda>r. pr_mined_in r = None) (pd_proposals db)), db))"

text \<open>\<open>entry(..).or_default().push(..)\<close>\<close>

fun push_entry :: "'k \<Rightarrow> 'v \<Rightarrow> ('k \<times> 'v list) list \<Rightarrow> ('k \<times> 'v list) list" where
  "push_entry k v [] = [(k, [v])]"
| "push_entry k v ((k', vs) # rest) = (if k = k' then (k', vs @ [v]) # rest else (k', vs) # push_entry k v rest)"

definition stored_bundle_proposals :: "btc \<Rightarrow> network_params \<Rightarrow> dbs \<Rightarrow> policy_db \<Rightarrow>
    (policy_error + (sidechain_number \<times> (m6id \<times> blinded_m6) list) list \<times> policy_db) option" where
  "stored_bundle_proposals B params validator = reconciled B params validator (\<lambda>db _.
     Inr (fold (\<lambda>r. push_entry (br_sidechain_number r) (br_bundle_hash r, br_bundle r))
        (filter (\<lambda>r. br_settled_in r = None) (pd_bundles db)) [], db))"

definition insert_proposal :: "proposal_row \<Rightarrow> policy_db \<Rightarrow> policy_error + unit \<times> policy_db" where
  "insert_proposal row db =
     (if list_ex (\<lambda>r. pr_sidechain_number r = pr_sidechain_number row \<and> pr_data_hash r = pr_data_hash row) (pd_proposals db)
      then Inl PE_UniqueConstraint else Inr ((), db\<lparr>pd_proposals := pd_proposals db @ [row]\<rparr>))"

definition db_propose_sidechain :: "btc \<Rightarrow> network_params \<Rightarrow> dbs \<Rightarrow> sidechain_proposal \<Rightarrow> policy_db \<Rightarrow>
    (policy_error + unit \<times> policy_db) option" where
  "db_propose_sidechain B params validator proposal =
     (let data_hash = sha256d_hash B (prop_description proposal) in
      reconciled B params validator (\<lambda>db tip_height.
        let requeue = (\<lambda>r. pr_sidechain_number r = prop_sidechain_number proposal \<and> pr_data_hash r = data_hash \<and> pr_mined_in r \<noteq> None)
        in if list_ex requeue (pd_proposals db)
           then Inr ((), db\<lparr>pd_proposals := map (\<lambda>r. if requeue r then r\<lparr>pr_mined_in := None, pr_queued_at := tip_height\<rparr> else r)
                  (pd_proposals db)\<rparr>)
           else insert_proposal \<lparr>pr_sidechain_number = prop_sidechain_number proposal, pr_data_hash = data_hash,
                  pr_data = prop_description proposal, pr_mined_in = None, pr_queued_at = tip_height\<rparr> db))"

definition put_withdrawal_bundle :: "btc \<Rightarrow> network_params \<Rightarrow> dbs \<Rightarrow> sidechain_number \<Rightarrow> blinded_m6 \<Rightarrow> policy_db \<Rightarrow>
    (policy_error + m6id \<times> policy_db) option" where
  "put_withdrawal_bundle B params validator n bundle =
     (let m6id = blinded_compute_m6id B bundle;
          same = (\<lambda>r. br_sidechain_number r = n \<and> br_bundle_hash r = m6id)
      in reconciled B params validator (\<lambda>db tip_height.
        if list_ex (\<lambda>r. same r \<and> br_paid_out r = Some True) (pd_bundles db) then Inl (PE_AlreadyPaidOut m6id)
        else Inr (m6id, db\<lparr>pd_bundles :=
          (if list_ex same (pd_bundles db)
           then map (\<lambda>r. if same r then r\<lparr>br_settled_in := None, br_paid_out := None, br_queued_at := tip_height\<rparr> else r) (pd_bundles db)
           else pd_bundles db @ [\<lparr>br_sidechain_number = n, br_bundle_hash = m6id, br_bundle = bundle,
             br_settled_in = None, br_queued_at = tip_height, br_paid_out = None\<rparr>])\<rparr>)))"

definition db_ack_sidechain :: "sidechain_number \<Rightarrow> hash256 \<Rightarrow> policy_db \<Rightarrow> policy_error + policy_db" where
  "db_ack_sidechain n data_hash db =
     (let ack = \<lparr>ack_sidechain_number = n, ack_description_hash = data_hash\<rparr> in
      if ack \<in> set (pd_acks db) then Inl PE_UniqueConstraint else Inr (db\<lparr>pd_acks := pd_acks db @ [ack]\<rparr>))"

definition nack_sidechain :: "sidechain_number \<Rightarrow> hash256 \<Rightarrow> policy_db \<Rightarrow> policy_db" where
  "nack_sidechain n data_hash db = db\<lparr>pd_acks :=
     filter (\<lambda>ack. \<not> (ack_sidechain_number ack = n \<and> ack_description_hash ack = data_hash)) (pd_acks db)\<rparr>"

definition ack_bundle :: "sidechain_number \<Rightarrow> m6id \<Rightarrow> policy_db \<Rightarrow> policy_db" where
  "ack_bundle n m db = (if (n, m) \<in> set (pd_bundle_acks db) then db else db\<lparr>pd_bundle_acks := pd_bundle_acks db @ [(n, m)]\<rparr>)"

definition delete_bundle_ack :: "sidechain_number \<Rightarrow> m6id \<Rightarrow> policy_db \<Rightarrow> policy_db" where
  "delete_bundle_ack n m db = db\<lparr>pd_bundle_acks := filter (\<lambda>ack. ack \<noteq> (n, m)) (pd_bundle_acks db)\<rparr>"

definition set_ack_policy :: "ack_all_proposals_policy \<Rightarrow> policy_db \<Rightarrow> policy_db" where
  "set_ack_policy policy db = db\<lparr>pd_ack_policy := policy\<rparr>"

definition set_bundle_policy :: "withdrawal_bundle_policy \<Rightarrow> policy_db \<Rightarrow> policy_db" where
  "set_bundle_policy policy db = db\<lparr>pd_bundle_policy := policy\<rparr>"


datatype policy_request =
    GetProposals
  | GetBundles
  | ProposeSidechain sidechain_proposal
  | PutBundle sidechain_number blinded_m6
  | AckSidechain sidechain_number hash256
  | NackSidechain sidechain_number hash256
  | AckBundle sidechain_number m6id
  | DeleteBundleAck sidechain_number m6id
  | SetAckPolicy ack_all_proposals_policy
  | SetBundlePolicy withdrawal_bundle_policy
  | StartCursor

text \<open>The tables after a request: an error drops the transaction, and with it the reconciliation.\<close>

definition committed :: "(policy_error + 'a \<times> policy_db) option \<Rightarrow> policy_db \<Rightarrow> policy_db" where
  "committed r db = (case r of Some (Inr (_, db')) \<Rightarrow> db' | _ \<Rightarrow> db)"

fun policy_step :: "btc \<Rightarrow> network_params \<Rightarrow> dbs \<times> policy_request \<Rightarrow> policy_db \<Rightarrow> policy_db" where
  "policy_step B params (v, GetProposals) db = committed (get_our_sidechain_proposals B params v db) db"
| "policy_step B params (v, GetBundles) db = committed (stored_bundle_proposals B params v db) db"
| "policy_step B params (v, ProposeSidechain p) db = committed (db_propose_sidechain B params v p db) db"
| "policy_step B params (v, PutBundle n b) db = committed (put_withdrawal_bundle B params v n b db) db"
| "policy_step B params (v, AckSidechain n h) db = (case db_ack_sidechain n h db of Inr db' \<Rightarrow> db' | Inl _ \<Rightarrow> db)"
| "policy_step B params (v, NackSidechain n h) db = nack_sidechain n h db"
| "policy_step B params (v, AckBundle n m) db = ack_bundle n m db"
| "policy_step B params (v, DeleteBundleAck n m) db = delete_bundle_ack n m db"
| "policy_step B params (v, SetAckPolicy policy) db = set_ack_policy policy db"
| "policy_step B params (v, SetBundlePolicy policy) db = set_bundle_policy policy db"
| "policy_step B params (v, StartCursor) db = (case start_cursor B v db of Inr db' \<Rightarrow> db' | Inl _ \<Rightarrow> db)"

section \<open>The marks a chain leaves\<close>

type_synonym chain_block = "(blockhash \<times> block_info) \<times> u32"

text \<open>The last mark of the blocks of a chain, oldest first.\<close>

definition last_mark :: "('b \<Rightarrow> 'm list) \<Rightarrow> 'b list \<Rightarrow> 'm option" where
  "last_mark marks bs = (let ms = concat (map marks bs) in if ms = [] then None else Some (last ms))"

lemma last_mark_Nil [simp]: "last_mark marks [] = None"
  by (simp add: last_mark_def)

lemma last_mark_append:
  "last_mark marks (xs @ ys) = (case last_mark marks ys of None \<Rightarrow> last_mark marks xs | Some m \<Rightarrow> Some m)"
  by (simp add: last_mark_def Let_def)

lemma last_mark_Some:
  assumes "last_mark marks bs = Some m"
  obtains b where "b \<in> set bs" "m \<in> set (marks b)"
proof -
  from assms have "concat (map marks bs) \<noteq> []" "m = last (concat (map marks bs))"
    by (auto simp: last_mark_def Let_def split: if_splits)
  then have "m \<in> set (concat (map marks bs))" by (metis last_in_set)
  then show ?thesis using that by auto
qed

lemma last_mark_None: "last_mark marks bs = None \<longleftrightarrow> (\<forall>b\<in>set bs. marks b = [])"
  by (auto simp: last_mark_def Let_def)

text \<open>The mark after a reorganisation: the last one of the new blocks, or the old one unless its block is
  gone. It is forgotten if the blocks below the fork and the disconnected blocks both carried one and the
  new blocks carry none.\<close>

definition next_mark :: "('m \<Rightarrow> blockhash) \<Rightarrow> blockhash list \<Rightarrow> 'b list \<Rightarrow> ('b \<Rightarrow> 'm list) \<Rightarrow> 'm option \<Rightarrow> 'm option" where
  "next_mark block_of gone new marks m = (case last_mark marks new of
     Some m' \<Rightarrow> Some m'
   | None \<Rightarrow> (case m of None \<Rightarrow> None | Some m' \<Rightarrow> if block_of m' \<in> set gone then None else Some m'))"

definition forgotten :: "('b \<Rightarrow> 'm list) \<Rightarrow> 'b list \<Rightarrow> 'b list \<Rightarrow> 'b list \<Rightarrow> bool" where
  "forgotten marks common old new \<longleftrightarrow> last_mark marks common \<noteq> None \<and> last_mark marks old \<noteq> None \<and> last_mark marks new = None"

locale marked_rows =
  fixes mark :: "'r \<Rightarrow> 'm option" and set_mark :: "'m option \<Rightarrow> 'r \<Rightarrow> 'r" and block_of :: "'m \<Rightarrow> blockhash"
    and marks :: "'r \<Rightarrow> chain_block \<Rightarrow> 'm list"
  assumes mark_set [simp]: "mark (set_mark m r) = m"
    and marks_set [simp]: "marks (set_mark m r) = marks r"
    and marks_block: "x \<in> set (marks r b) \<Longrightarrow> block_of x = fst (fst b)"
begin

definition unmark :: "blockhash \<Rightarrow> 'r \<Rightarrow> 'r" where
  "unmark h r = (if map_option block_of (mark r) = Some h then set_mark None r else r)"

definition mark_all :: "chain_block \<Rightarrow> 'r \<Rightarrow> 'r" where
  "mark_all b r = fold (\<lambda>m. set_mark (Some m)) (marks r b) r"

lemma unmark_marks [simp]: "marks (unmark h r) = marks r"
  by (simp add: unmark_def)

lemma fold_unmark:
  "marks (fold unmark hs r) = marks r"
  "mark (fold unmark hs r) = (case mark r of None \<Rightarrow> None | Some m \<Rightarrow> if block_of m \<in> set hs then None else Some m)"
proof -
  show "marks (fold unmark hs r) = marks r" by (induction hs arbitrary: r) simp_all
  show "mark (fold unmark hs r) = (case mark r of None \<Rightarrow> None | Some m \<Rightarrow> if block_of m \<in> set hs then None else Some m)"
  proof (induction hs arbitrary: r)
    case (Cons h hs)
    show ?case unfolding fold.simps o_apply Cons by (auto simp: unmark_def split: option.splits)
  qed (simp split: option.splits)
qed

lemma fold_set_mark:
  "marks (fold (\<lambda>m. set_mark (Some m)) ms r) = marks r"
  "mark (fold (\<lambda>m. set_mark (Some m)) ms r) = (if ms = [] then mark r else Some (last ms))"
  by (induction ms arbitrary: r) simp_all

lemma fold_mark_all:
  "marks (fold mark_all bs r) = marks r"
  "mark (fold mark_all bs r) = (case last_mark (marks r) bs of None \<Rightarrow> mark r | Some m \<Rightarrow> Some m)"
proof -
  have m: "marks (mark_all b r) = marks r" "mark (mark_all b r) = (if marks r b = [] then mark r else Some (last (marks r b)))"
    for b r by (simp_all add: mark_all_def fold_set_mark)
  show "marks (fold mark_all bs r) = marks r" by (induction bs arbitrary: r) (simp_all add: m)
  show "mark (fold mark_all bs r) = (case last_mark (marks r) bs of None \<Rightarrow> mark r | Some m \<Rightarrow> Some m)"
  proof (induction bs arbitrary: r)
    case (Cons b bs)
    have "last_mark (marks r) (b # bs) =
        (case last_mark (marks r) bs of None \<Rightarrow> last_mark (marks r) [b] | Some m \<Rightarrow> Some m)"
      using last_mark_append [of "marks r" "[b]" bs] by simp
    moreover have "last_mark (marks r) [b] = (if marks r b = [] then None else Some (last (marks r b)))"
      by (simp add: last_mark_def)
    ultimately show ?case unfolding fold.simps o_apply Cons m by (auto split: option.splits)
  qed simp
qed

text \<open>A reorganisation: the blocks \<open>old\<close> are replaced by \<open>new\<close>.\<close>

lemma reorganised_mark:
  "mark (fold mark_all new (fold unmark gone r)) = next_mark block_of gone new (marks r) (mark r)"
  unfolding fold_mark_all fold_unmark next_mark_def by (simp only:)

lemma next_mark_in_line:
  assumes "mark r = last_mark (marks r) (common @ old)" "set gone = (\<lambda>b. fst (fst b)) ` set old"
    and "(\<lambda>b. fst (fst b)) ` set common \<inter> (\<lambda>b. fst (fst b)) ` set old = {}"
  shows "next_mark block_of gone new (marks r) (mark r) = last_mark (marks r) (common @ new) \<longleftrightarrow>
    \<not> forgotten (marks r) common old new"
proof (cases "last_mark (marks r) old")
  case None
  have "block_of m \<notin> set gone" if "last_mark (marks r) common = Some m" for m
  proof -
    from that obtain b where "b \<in> set common" "m \<in> set (marks r b)" by (rule last_mark_Some)
    then have "block_of m \<in> (\<lambda>b. fst (fst b)) ` set common" using marks_block by auto
    then show ?thesis using assms(2,3) by blast
  qed
  then show ?thesis using None assms(1) by (auto simp: next_mark_def forgotten_def last_mark_append split: option.splits)
next
  case (Some m)
  then obtain b where "b \<in> set old" "m \<in> set (marks r b)" by (rule last_mark_Some)
  then have "block_of m \<in> set gone" using marks_block assms(2) by auto
  then show ?thesis using Some assms(1) by (auto simp: next_mark_def forgotten_def last_mark_append split: option.splits)
qed

lemma fold_erase:
  assumes "\<And>m r. e (set_mark m r) = e r"
  shows "e (fold mark_all bs r) = e r" "e (fold unmark gone r) = e r"
proof -
  have "e (fold (\<lambda>m. set_mark (Some m)) ms r) = e r" for ms r by (induction ms arbitrary: r) (simp_all add: assms)
  then show "e (fold mark_all bs r) = e r" by (induction bs arbitrary: r) (simp_all add: mark_all_def)
  show "e (fold unmark gone r) = e r" by (induction gone arbitrary: r) (simp_all add: unmark_def assms)
qed

lemma rebuilt:
  assumes "\<forall>b\<in>set common. marks r b = []"
  shows "mark (fold mark_all new (set_mark None r)) = last_mark (marks r) (common @ new)"
  using assms by (simp add: fold_mark_all last_mark_append last_mark_None [THEN iffD2] split: option.splits)

end

definition proposal_marks :: "btc \<Rightarrow> proposal_row \<Rightarrow> chain_block \<Rightarrow> blockhash list" where
  "proposal_marks B r b = (case b of ((block_hash, block_info), height) \<Rightarrow>
     if takes_marks (pr_queued_at r) height
     then map (\<lambda>_. block_hash) (filter (\<lambda>(_, p). compute_id B p =
       \<lparr>id_sidechain_number = pr_sidechain_number r, id_description_hash = pr_data_hash r\<rparr>) (bi_sidechain_proposals block_info))
     else [])"

definition bundle_marks :: "bundle_row \<Rightarrow> chain_block \<Rightarrow> (blockhash \<times> bool option) list" where
  "bundle_marks r b = (case b of ((block_hash, block_info), height) \<Rightarrow>
     if takes_marks (br_queued_at r) height
     then List.map_filter (\<lambda>e. if wbe_sidechain_id e = br_sidechain_number r \<and> wbe_m6id e = br_bundle_hash r
       then map_option (\<lambda>paid_out. (block_hash, Some paid_out)) (settles (wbe_kind e)) else None)
       (withdrawal_bundle_events block_info)
     else [])"

definition bundle_mark :: "bundle_row \<Rightarrow> (blockhash \<times> bool option) option" where
  "bundle_mark r = map_option (\<lambda>h. (h, br_paid_out r)) (br_settled_in r)"

definition set_bundle_mark :: "(blockhash \<times> bool option) option \<Rightarrow> bundle_row \<Rightarrow> bundle_row" where
  "set_bundle_mark m r = (case m of
     None \<Rightarrow> r\<lparr>br_settled_in := None, br_paid_out := None\<rparr>
   | Some (h, paid_out) \<Rightarrow> r\<lparr>br_settled_in := Some h, br_paid_out := paid_out\<rparr>)"

interpretation proposals: marked_rows pr_mined_in "\<lambda>m r. r\<lparr>pr_mined_in := m\<rparr>" id "proposal_marks B" for B
  by unfold_locales (auto simp: proposal_marks_def fun_eq_iff split: if_splits)

interpretation bundles: marked_rows bundle_mark set_bundle_mark fst bundle_marks
  by unfold_locales (auto simp: bundle_marks_def bundle_mark_def set_bundle_mark_def fun_eq_iff List.map_filter_def
    split: if_splits option.splits)


section \<open>Chains of connected blocks\<close>

text \<open>The blocks after \<open>f\<close> up to \<open>t\<close>, oldest first, with their stored infos and heights.\<close>

definition chain_blocks :: "block_hash_dbs \<Rightarrow> blockhash \<Rightarrow> blockhash \<Rightarrow> chain_block list \<Rightarrow> bool" where
  "chain_blocks db f t bs \<longleftrightarrow> branch db f (rev (map (\<lambda>b. fst (fst b)) bs)) t \<and>
     (\<forall>((h, bi), k)\<in>set bs. try_get_block_info db h = Inr (Some bi) \<and> height_db db h = Some k)"

lemma branch_unique: "branch db f xs h \<Longrightarrow> branch db f ys h \<Longrightarrow> xs = ys"
proof (induction arbitrary: ys rule: branch.induct)
  case stop
  then show ?case by (auto elim: branch.cases)
next
  case (step h hdr hs)
  from step.prems step.hyps(1,2) obtain ys' where "ys = h # ys'" "branch db f ys' (hdr_prev_blockhash hdr)"
    by (auto elim: branch.cases)
  with step.IH show ?case by auto
qed

lemma branch_append:
  "branch db f xs t \<Longrightarrow> branch db g ys f \<Longrightarrow> header_db db g = None \<Longrightarrow> branch db g (xs @ ys) t"
  by (induction rule: branch.induct) (auto intro: branch.step)

lemma chain_blocks_append:
  "chain_blocks db f t ys \<Longrightarrow> chain_blocks db g f xs \<Longrightarrow> header_db db g = None \<Longrightarrow> chain_blocks db g t (xs @ ys)"
  by (auto simp: chain_blocks_def intro: branch_append)

lemma chain_blocks_unique:
  assumes "chain_blocks db f t xs" "chain_blocks db f t ys"
  shows "xs = ys"
proof -
  have "rev (map (\<lambda>b. fst (fst b)) xs) = rev (map (\<lambda>b. fst (fst b)) ys)"
    using assms unfolding chain_blocks_def by (intro branch_unique) auto
  then have m: "map (\<lambda>b. fst (fst b)) xs = map (\<lambda>b. fst (fst b)) ys" by simp
  have len: "length xs = length ys" using m by (metis length_map)
  have "xs ! i = ys ! i" if i: "i < length xs" for i
  proof -
    obtain h bi k h' bi' k' where x: "xs ! i = ((h, bi), k)" "ys ! i = ((h', bi'), k')" by (metis surj_pair)
    have "map (\<lambda>b. fst (fst b)) xs ! i = map (\<lambda>b. fst (fst b)) ys ! i" using m by simp
    then have h: "h = h'" using i len x by simp
    have "((h, bi), k) \<in> set xs" "((h', bi'), k') \<in> set ys" using i len x by (metis nth_mem)+
    with assms have "try_get_block_info db h = Inr (Some bi) \<and> height_db db h = Some k"
      "try_get_block_info db h' = Inr (Some bi') \<and> height_db db h' = Some k'" by (auto simp: chain_blocks_def)
    with h x show ?thesis by simp
  qed
  with len show ?thesis by (rule nth_equalityI)
qed

text \<open>The heights along a branch.\<close>

lemma branch_heights:
  assumes wf: "headers_wf B db"
  shows "branch db f hs t \<Longrightarrow> known db t \<Longrightarrow>
    level db t = level db f + length hs \<and> (\<forall>i<length hs. height_db db (rev hs ! i) = Some (of_nat (level db f + i)))"
proof (induction rule: branch.induct)
  case (step h hdr hs)
  note wf' = headers_wfD [OF wf step.hyps(1)]
  from step.IH [OF wf'(3)] have IH: "level db (hdr_prev_blockhash hdr) = level db f + length hs"
    "\<forall>i<length hs. height_db db (rev hs ! i) = Some (of_nat (level db f + i))" by blast+
  obtain k where k: "height_db db h = Some k" using wf'(2) by blast
  then have "level db h = unat k + 1" using wf'(5) by (simp add: level_def)
  with wf'(4) IH(1) have "unat k = level db f + length hs" by simp
  then have "k = of_nat (level db f + length hs)" by (metis of_nat_unat ucast_id)
  with k IH wf'(4) show ?case by (auto simp: nth_append less_Suc_eq)
qed simp

lemma branch_distinct:
  assumes wf: "headers_wf B db"
  shows "branch db f hs t \<Longrightarrow> known db t \<Longrightarrow> distinct hs"
proof (induction rule: branch.induct)
  case (step h hdr hs)
  note wf' = headers_wfD [OF wf step.hyps(1)]
  have "h \<notin> set hs"
  proof
    assume "h \<in> set hs"
    then have "ancestor db h (hdr_prev_blockhash hdr)" using branch_members [OF step.hyps(3)] by blast
    from ancestor_level [OF wf this wf'(3)] wf'(4) show False by simp
  qed
  with step.IH [OF wf'(3)] show ?case by simp
qed simp

lemma chain_blocks_exists:
  assumes wf: "headers_wf B db" and b: "branch db f hs t" and t: "known db t" and c: "connected_below db t"
  obtains bs where "chain_blocks db f t bs" "map (\<lambda>b. fst (fst b)) bs = rev hs"
proof -
  let ?bs = "map (\<lambda>h. ((h, the (projr (try_get_block_info db h))), the (height_db db h))) (rev hs)"
  have "try_get_block_info db h = Inr (Some (the (projr (try_get_block_info db h)))) \<and> height_db db h = Some (the (height_db db h))"
    if "h \<in> set hs" for h
  proof -
    from branch_members [OF b that] obtain hdr where h: "ancestor db h t" "header_db db h = Some hdr" by blast
    note wf' = headers_wfD [OF wf h(2)]
    from c h(1) wf'(5) obtain bi where "try_get_block_info db h = Inr (Some bi)" by (auto simp: connected_below_def)
    with wf'(2) show ?thesis by auto
  qed
  then have "chain_blocks db f t ?bs" using b by (auto simp: chain_blocks_def comp_def rev_map)
  then show ?thesis using that by (auto simp: comp_def)
qed


section \<open>Row by row\<close>

lemma fold_rows: "fold (\<lambda>x. map (f x)) xs rows = map (fold f xs) rows"
  by (induction xs arbitrary: rows) (simp_all add: comp_def)

lemma disconnect_rows:
  "pd_proposals (fold disconnect_marks hs db) = map (fold proposals.unmark hs) (pd_proposals db)"
  "pd_bundles (fold disconnect_marks hs db) = map (fold bundles.unmark hs) (pd_bundles db)"
proof -
  have p: "pd_proposals (disconnect_marks h db) = map (proposals.unmark h) (pd_proposals db)" for h db
    by (simp add: disconnect_marks_def proposals.unmark_def clear_proposal_def)
  have b: "pd_bundles (disconnect_marks h db) = map (bundles.unmark h) (pd_bundles db)" for h db
    by (auto simp: disconnect_marks_def bundles.unmark_def clear_bundle_def bundle_mark_def set_bundle_mark_def)
  show "pd_proposals (fold disconnect_marks hs db) = map (fold proposals.unmark hs) (pd_proposals db)"
    by (induction hs arbitrary: db) (simp_all add: p)
  show "pd_bundles (fold disconnect_marks hs db) = map (fold bundles.unmark hs) (pd_bundles db)"
    by (induction hs arbitrary: db) (simp_all add: b)
qed

lemma mark_proposals_row:
  "fold (\<lambda>(_, p) r. if pr_sidechain_number r = id_sidechain_number (compute_id B p) \<and>
       pr_data_hash r = id_description_hash (compute_id B p) \<and> takes_marks (pr_queued_at r) k
     then r\<lparr>pr_mined_in := Some h\<rparr> else r) ps r =
   fold (\<lambda>m r. r\<lparr>pr_mined_in := Some m\<rparr>)
     (if takes_marks (pr_queued_at r) k then map (\<lambda>_. h) (filter (\<lambda>(_, p). compute_id B p =
        \<lparr>id_sidechain_number = pr_sidechain_number r, id_description_hash = pr_data_hash r\<rparr>) ps) else []) r"
proof (induction ps arbitrary: r)
  case (Cons p ps)
  obtain v q where p: "p = (v, q)" by (cases p)
  have key: "compute_id B q = \<lparr>id_sidechain_number = n, id_description_hash = d\<rparr> \<longleftrightarrow>
      n = id_sidechain_number (compute_id B q) \<and> d = id_description_hash (compute_id B q)" for n d
    by (auto simp: compute_id_def)
  show ?case unfolding p fold.simps o_apply prod.case Cons by (auto simp: key)
qed simp

lemma set_bundle_mark_Some: "set_bundle_mark (Some (h, p)) r = r\<lparr>br_settled_in := Some h, br_paid_out := p\<rparr>"
  by (simp add: set_bundle_mark_def)

lemma mark_bundles_row:
  "fold (\<lambda>e r. case settles (wbe_kind e) of None \<Rightarrow> r | Some paid_out \<Rightarrow>
       if br_sidechain_number r = wbe_sidechain_id e \<and> br_bundle_hash r = wbe_m6id e \<and> takes_marks (br_queued_at r) k
       then r\<lparr>br_settled_in := Some h, br_paid_out := Some paid_out\<rparr> else r) es r =
   fold (\<lambda>m. set_bundle_mark (Some m))
     (if takes_marks (br_queued_at r) k then List.map_filter (\<lambda>e. if wbe_sidechain_id e = br_sidechain_number r \<and>
        wbe_m6id e = br_bundle_hash r then map_option (\<lambda>paid_out. (h, Some paid_out)) (settles (wbe_kind e)) else None) es else []) r"
proof (induction es arbitrary: r)
  case (Cons e es)
  show ?case unfolding fold.simps o_apply Cons
    by (auto simp: set_bundle_mark_Some List.map_filter_simps split: option.splits)
qed (simp add: List.map_filter_simps)

lemma connect_rows:
  "pd_proposals (fold (connect_marks B) bs db) = map (fold (proposals.mark_all B) bs) (pd_proposals db)"
  "pd_bundles (fold (connect_marks B) bs db) = map (fold bundles.mark_all bs) (pd_bundles db)"
proof -
  have p: "pd_proposals (connect_marks B b db) = map (proposals.mark_all B b) (pd_proposals db)" for b db
  proof -
    obtain h bi k where fields: "b = ((h, bi), k)" by (metis surj_pair)
    have "pd_proposals (connect_marks B b db) = fold (\<lambda>x. map ((\<lambda>(_, p) r.
        if pr_sidechain_number r = id_sidechain_number (compute_id B p) \<and>
          pr_data_hash r = id_description_hash (compute_id B p) \<and> takes_marks (pr_queued_at r) k
        then r\<lparr>pr_mined_in := Some h\<rparr> else r) x)) (bi_sidechain_proposals bi) (pd_proposals db)"
      unfolding fields connect_marks_def prod.case mark_proposal_def Let_def case_prod_unfold fst_conv snd_conv by simp
    then show ?thesis unfolding fold_rows mark_proposals_row fields
      by (simp add: proposals.mark_all_def proposal_marks_def)
  qed
  have b: "pd_bundles (connect_marks B b db) = map (bundles.mark_all b) (pd_bundles db)" for b db
  proof -
    obtain h bi k where fields: "b = ((h, bi), k)" by (metis surj_pair)
    have "mark_bundle h k = (\<lambda>e. map (\<lambda>r. case settles (wbe_kind e) of None \<Rightarrow> r | Some paid_out \<Rightarrow>
        if br_sidechain_number r = wbe_sidechain_id e \<and> br_bundle_hash r = wbe_m6id e \<and> takes_marks (br_queued_at r) k
        then r\<lparr>br_settled_in := Some h, br_paid_out := Some paid_out\<rparr> else r))"
      by (intro ext) (simp add: mark_bundle_def split: option.splits)
    then have "pd_bundles (connect_marks B b db) = map (fold (\<lambda>e r. case settles (wbe_kind e) of None \<Rightarrow> r | Some paid_out \<Rightarrow>
        if br_sidechain_number r = wbe_sidechain_id e \<and> br_bundle_hash r = wbe_m6id e \<and> takes_marks (br_queued_at r) k
        then r\<lparr>br_settled_in := Some h, br_paid_out := Some paid_out\<rparr> else r) (withdrawal_bundle_events bi)) (pd_bundles db)"
      unfolding fields connect_marks_def by (simp only: prod.case fold_rows) simp
    then show ?thesis unfolding mark_bundles_row fields
      by (simp add: bundles.mark_all_def bundle_marks_def)
  qed
  show "pd_proposals (fold (connect_marks B) bs db) = map (fold (proposals.mark_all B) bs) (pd_proposals db)"
    by (induction bs arbitrary: db) (simp_all add: p)
  show "pd_bundles (fold (connect_marks B) bs db) = map (fold bundles.mark_all bs) (pd_bundles db)"
    by (induction bs arbitrary: db) (simp_all add: b)
qed


section \<open>Reconciling is exact\<close>

text \<open>The marks of all rows are those the chain up to \<open>t\<close> leaves.\<close>

definition in_line :: "btc \<Rightarrow> block_hash_dbs \<Rightarrow> blockhash \<Rightarrow> policy_db \<Rightarrow> bool" where
  "in_line B db t pdb \<longleftrightarrow> (\<exists>bs. chain_blocks db all_zeros t bs \<and>
     (\<forall>r\<in>set (pd_proposals pdb). pr_mined_in r = last_mark (proposal_marks B r) bs) \<and>
     (\<forall>r\<in>set (pd_bundles pdb). bundle_mark r = last_mark (bundle_marks r) bs))"

text \<open>Blocks below the activation height carry nothing that marks a row.\<close>

definition quiet_below :: "u32 \<Rightarrow> block_hash_dbs \<Rightarrow> bool" where
  "quiet_below activation db \<longleftrightarrow> (\<forall>h k bi. height_db db h = Some k \<longrightarrow> k < activation \<longrightarrow>
     try_get_block_info db h = Inr (Some bi) \<longrightarrow> bi_sidechain_proposals bi = [] \<and> withdrawal_bundle_events bi = [])"

text \<open>Apart from the marks and the cursor nothing changes.\<close>

definition proposal_body :: "proposal_row \<Rightarrow> proposal_row" where
  "proposal_body r = r\<lparr>pr_mined_in := None\<rparr>"

definition bundle_body :: "bundle_row \<Rightarrow> bundle_row" where
  "bundle_body r = r\<lparr>br_settled_in := None, br_paid_out := None\<rparr>"

definition same_rows :: "policy_db \<Rightarrow> policy_db \<Rightarrow> bool" where
  "same_rows pdb pdb' \<longleftrightarrow> map proposal_body (pd_proposals pdb') = map proposal_body (pd_proposals pdb) \<and>
     map bundle_body (pd_bundles pdb') = map bundle_body (pd_bundles pdb) \<and>
     pdb' = pdb\<lparr>pd_proposals := pd_proposals pdb', pd_bundles := pd_bundles pdb', pd_policy_tip := pd_policy_tip pdb'\<rparr>"

text \<open>From the chain up to a stored cursor \<open>t\<close> to the one up to the tip: every mark is the one the
  reorganisation leaves, and one that was the mark of the old chain is the mark of the new chain unless
  it is forgotten.\<close>

definition carried_over :: "btc \<Rightarrow> block_hash_dbs \<Rightarrow> blockhash \<Rightarrow> blockhash \<Rightarrow> policy_db \<Rightarrow> policy_db \<Rightarrow> bool" where
  "carried_over B db t tip pdb pdb' \<longleftrightarrow> (\<exists>fork gone common new. last_common db t tip fork \<and> branch db fork gone t \<and>
     chain_blocks db all_zeros fork common \<and> chain_blocks db fork tip new \<and>
     map pr_mined_in (pd_proposals pdb') =
       map (\<lambda>r. next_mark id gone new (proposal_marks B r) (pr_mined_in r)) (pd_proposals pdb) \<and>
     map bundle_mark (pd_bundles pdb') =
       map (\<lambda>r. next_mark fst gone new (bundle_marks r) (bundle_mark r)) (pd_bundles pdb) \<and>
     (\<forall>old. chain_blocks db fork t old \<longrightarrow>
       (\<forall>r\<in>set (pd_proposals pdb). pr_mined_in r = last_mark (proposal_marks B r) (common @ old) \<longrightarrow>
          (next_mark id gone new (proposal_marks B r) (pr_mined_in r) = last_mark (proposal_marks B r) (common @ new) \<longleftrightarrow>
           \<not> forgotten (proposal_marks B r) common old new)) \<and>
       (\<forall>r\<in>set (pd_bundles pdb). bundle_mark r = last_mark (bundle_marks r) (common @ old) \<longrightarrow>
          (next_mark fst gone new (bundle_marks r) (bundle_mark r) = last_mark (bundle_marks r) (common @ new) \<longleftrightarrow>
           \<not> forgotten (bundle_marks r) common old new))))"

lemma zip_chain_blocks:
  assumes wf: "headers_wf B db" and b: "branch db f (rev (map fst cs)) t" and t: "known db t" "t \<noteq> all_zeros" "height_db db t = Some k"
    and bi: "\<forall>(x, bi)\<in>set cs. try_get_block_info db x = Inr (Some bi)"
  shows "chain_blocks db f t (zip cs (map (\<lambda>i. (k + 1 - of_nat (length cs)) + of_nat i) [0..<length cs]))"
    (is "chain_blocks db f t (zip cs ?hs)")
proof -
  note hs = branch_heights [OF wf b t(1)]
  have "unat k + 1 = level db f + length cs" using hs t(2,3) by (simp add: level_def)
  then have "of_nat (unat k + 1) = (of_nat (level db f + length cs) :: u32)" by (simp only:)
  then have first: "k + 1 - of_nat (length cs) = of_nat (level db f)" by (simp add: add.commute)
  have "try_get_block_info db x = Inr (Some i) \<and> height_db db x = Some k'" if m: "((x, i), k') \<in> set (zip cs ?hs)" for x i k'
  proof -
    from m obtain j where j: "j < length cs" "cs ! j = (x, i)" "k' = of_nat (level db f) + of_nat j"
      unfolding first by (auto simp: in_set_zip)
    have "map fst cs ! j = x" using j by simp
    then have "height_db db x = Some (of_nat (level db f + j))" using hs j(1) by auto
    moreover have "(x, i) \<in> set cs" using j(1,2) by (metis nth_mem)
    ultimately show ?thesis using bi j(3) by auto
  qed
  moreover have "map (\<lambda>b. fst (fst b)) (zip cs ?hs) = map fst cs"
    by (rule nth_equalityI) simp_all
  ultimately show ?thesis using b unfolding chain_blocks_def by auto
qed

lemma quiet_marks:
  assumes wf: "headers_wf B db" and q: "quiet_below activation db" and c: "chain_blocks db all_zeros f xs" "known db f"
    and l: "level db f \<le> unat activation" and m: "b \<in> set xs"
  shows "proposal_marks B' r b = [] \<and> bundle_marks r' b = []"
proof -
  obtain h bi k where b: "b = ((h, bi), k)" by (metis surj_pair)
  with c(1) m have i: "try_get_block_info db h = Inr (Some bi)" "height_db db h = Some k" by (auto simp: chain_blocks_def)
  have "branch db all_zeros (rev (map (\<lambda>b. fst (fst b)) xs)) f" using c(1) by (simp add: chain_blocks_def)
  from branch_members [OF this, of h] m b have a: "ancestor db h f" "header_db db h \<noteq> None" by force+
  have "level db h \<le> level db f" using ancestor_level [OF wf a(1) c(2)] by blast
  moreover have "level db h = unat k + 1" using a(2) headers_wfD(5) [OF wf] i(2) by (auto simp: level_def)
  ultimately have "k < activation" using l by (simp add: word_less_nat_alt)
  with q i have "bi_sidechain_proposals bi = []" "withdrawal_bundle_events bi = []" by (auto simp: quiet_below_def)
  then show ?thesis using b by (simp add: proposal_marks_def bundle_marks_def List.map_filter_def)
qed

lemma clear_bundle_mark: "clear_bundle = set_bundle_mark None"
  by (rule ext) (simp add: clear_bundle_def set_bundle_mark_def)

lemma proposal_marks_stable:
  "proposal_marks B (fold (proposals.mark_all B) bs r) = proposal_marks B r"
  "proposal_marks B (fold proposals.unmark hs r) = proposal_marks B r"
  "proposal_marks B (clear_proposal r) = proposal_marks B r"
  by (simp_all add: proposals.fold_mark_all proposals.fold_unmark clear_proposal_def)

lemma bundle_marks_stable:
  "bundle_marks (fold bundles.mark_all bs r) = bundle_marks r"
  "bundle_marks (fold bundles.unmark hs r) = bundle_marks r"
  "bundle_marks (clear_bundle r) = bundle_marks r"
  by (simp_all add: bundles.fold_mark_all bundles.fold_unmark clear_bundle_mark)

text \<open>Incrementally, from the chain to the cursor.\<close>

lemma body_set [simp]: "proposal_body (r\<lparr>pr_mined_in := m\<rparr>) = proposal_body r" "bundle_body (set_bundle_mark m' r') = bundle_body r'"
  by (simp_all add: proposal_body_def bundle_body_def set_bundle_mark_def split: option.splits)

lemma fold_rest:
  "fold disconnect_marks gone db = db\<lparr>pd_proposals := pd_proposals (fold disconnect_marks gone db),
     pd_bundles := pd_bundles (fold disconnect_marks gone db)\<rparr>"
  "fold (connect_marks B) bs db = db\<lparr>pd_proposals := pd_proposals (fold (connect_marks B) bs db),
     pd_bundles := pd_bundles (fold (connect_marks B) bs db)\<rparr>"
proof -
  let ?rest = "\<lambda>db :: policy_db. db\<lparr>pd_proposals := [], pd_bundles := []\<rparr>"
  have restore: "db' = db\<lparr>pd_proposals := pd_proposals db', pd_bundles := pd_bundles db'\<rparr>" if "?rest db' = ?rest db" for db db'
    using that by (cases db; cases db') simp
  have "?rest (fold disconnect_marks gone db) = ?rest db"
    by (induction gone arbitrary: db) (simp_all add: disconnect_marks_def)
  then show "fold disconnect_marks gone db = db\<lparr>pd_proposals := pd_proposals (fold disconnect_marks gone db),
     pd_bundles := pd_bundles (fold disconnect_marks gone db)\<rparr>" by (rule restore)
  have "?rest (connect_marks B b db) = ?rest db" for b db
    by (cases b) (simp add: connect_marks_def split: prod.splits)
  then have "?rest (fold (connect_marks B) bs db) = ?rest db" by (induction bs arbitrary: db) simp_all
  then show "fold (connect_marks B) bs db = db\<lparr>pd_proposals := pd_proposals (fold (connect_marks B) bs db),
     pd_bundles := pd_bundles (fold (connect_marks B) bs db)\<rparr>" by (rule restore)
qed

lemma apply_chain_diff_same_rows: "same_rows pdb (apply_chain_diff B cd pdb)"
proof -
  note e = proposals.fold_erase [where e = proposal_body, OF body_set(1)] bundles.fold_erase [where e = bundle_body, OF body_set(2)]
  have "proposal_body (clear_proposal r) = proposal_body r" "bundle_body (clear_bundle r') = bundle_body r'" for r r'
    by (simp_all add: clear_proposal_def clear_bundle_mark)
  then have 1: "map proposal_body (pd_proposals (apply_chain_diff B cd pdb)) = map proposal_body (pd_proposals pdb)"
    "map bundle_body (pd_bundles (apply_chain_diff B cd pdb)) = map bundle_body (pd_bundles pdb)"
    by (simp_all add: apply_chain_diff_def Let_def connect_rows disconnect_rows e)
  have "apply_chain_diff B cd pdb = pdb\<lparr>pd_proposals := pd_proposals (apply_chain_diff B cd pdb),
      pd_bundles := pd_bundles (apply_chain_diff B cd pdb), pd_policy_tip := pd_policy_tip (apply_chain_diff B cd pdb)\<rparr>"
    unfolding apply_chain_diff_def Let_def by (subst fold_rest(2), subst fold_rest(1)) simp
  with 1 show ?thesis unfolding same_rows_def by blast
qed


lemma apply_chain_diff_marks:
  assumes "\<not> cd_rebuilt cd"
  defines "new \<equiv> zip (cd_connected cd) (map (\<lambda>i. (cd_tip_height cd + 1 - of_nat (length (cd_connected cd))) + of_nat i)
    [0..<length (cd_connected cd)])"
  shows "map pr_mined_in (pd_proposals (apply_chain_diff B cd pdb)) =
      map (\<lambda>r. next_mark id (cd_disconnected cd) new (proposal_marks B r) (pr_mined_in r)) (pd_proposals pdb)"
    "map bundle_mark (pd_bundles (apply_chain_diff B cd pdb)) =
      map (\<lambda>r. next_mark fst (cd_disconnected cd) new (bundle_marks r) (bundle_mark r)) (pd_bundles pdb)"
  using assms(1) proposals.reorganised_mark bundles.reorganised_mark
  by (simp_all add: apply_chain_diff_def Let_def connect_rows disconnect_rows new_def)

lemma carried_overI:
  assumes wf: "headers_wf B db" and t: "known db t" and f: "last_common db t tip fork" "branch db fork gone t"
    and c: "chain_blocks db all_zeros fork common" "chain_blocks db fork tip new"
    and m: "map pr_mined_in (pd_proposals pdb') =
       map (\<lambda>r. next_mark id gone new (proposal_marks B r) (pr_mined_in r)) (pd_proposals pdb)"
      "map bundle_mark (pd_bundles pdb') =
       map (\<lambda>r. next_mark fst gone new (bundle_marks r) (bundle_mark r)) (pd_bundles pdb)"
  shows "carried_over B db t tip pdb pdb'"
proof -
  have z: "header_db db all_zeros = None" using wf by (simp add: headers_wf_def)
  have sets: "set gone = (\<lambda>b. fst (fst b)) ` set old" "(\<lambda>b. fst (fst b)) ` set common \<inter> (\<lambda>b. fst (fst b)) ` set old = {}"
    if old: "chain_blocks db fork t old" for old
  proof -
    have "rev (map (\<lambda>b. fst (fst b)) old) = gone" using old f(2) by (auto simp: chain_blocks_def intro: branch_unique)
    then show "set gone = (\<lambda>b. fst (fst b)) ` set old" by (metis set_map set_rev)
    have "chain_blocks db all_zeros t (common @ old)" by (rule chain_blocks_append [OF old c(1) z])
    from branch_distinct [OF wf this [unfolded chain_blocks_def, THEN conjunct1] t]
    show "(\<lambda>b. fst (fst b)) ` set common \<inter> (\<lambda>b. fst (fst b)) ` set old = {}"
      unfolding distinct_rev map_append distinct_append set_map by blast
  qed
  have "next_mark id gone new (proposal_marks B r) (pr_mined_in r) = last_mark (proposal_marks B r) (common @ new) \<longleftrightarrow>
      \<not> forgotten (proposal_marks B r) common old new"
    if "chain_blocks db fork t old" "pr_mined_in r = last_mark (proposal_marks B r) (common @ old)" for old r
    by (rule proposals.next_mark_in_line [OF that(2) sets [OF that(1)]])
  moreover have "next_mark fst gone new (bundle_marks r) (bundle_mark r) = last_mark (bundle_marks r) (common @ new) \<longleftrightarrow>
      \<not> forgotten (bundle_marks r) common old new"
    if "chain_blocks db fork t old" "bundle_mark r = last_mark (bundle_marks r) (common @ old)" for old r
    by (rule bundles.next_mark_in_line [OF that(2) sets [OF that(1)]])
  ultimately show ?thesis using f c m unfolding carried_over_def by blast
qed

lemma chain_to_known:
  assumes "headers_wf B db" "known db f" "connected_below db f"
  obtains common where "chain_blocks db all_zeros f common"
proof -
  from ancestors_while_branch [OF assms(1) zeros_ancestor [OF assms(1,2)] assms(2)] obtain gs where "branch db all_zeros gs f" by blast
  from chain_blocks_exists [OF assms(1) this assms(2,3)] show ?thesis using that .
qed

lemma carried_over_same:
  assumes wf: "headers_wf B db" and t: "known db tip" "connected_below db tip"
  shows "carried_over B db tip tip pdb pdb"
proof -
  from chain_to_known [OF wf t] obtain common where common: "chain_blocks db all_zeros tip common" .
  have n: "next_mark f [] [] ms m = m" for f ms and m :: "'x option" by (simp add: next_mark_def split: option.splits)
  show ?thesis
    by (rule carried_overI [OF wf t(1) _ _ common, where gone = "[]" and new = "[]"])
      (simp_all add: n last_common_def ancestor.self chain_blocks_def branch.stop)
qed

text \<open>From scratch.\<close>

lemma apply_chain_diff_rebuilt:
  assumes wf: "headers_wf B db" and cd: "cd_rebuilt cd" "cd_disconnected cd = []"
      "branch db f (rev (map fst (cd_connected cd))) (cd_tip cd)"
    and f: "level db f \<le> unat activation" "quiet_below activation db" "connected_below db f"
    and tip: "known db (cd_tip cd)" "cd_tip cd \<noteq> all_zeros" "height_db db (cd_tip cd) = Some (cd_tip_height cd)"
    and bi: "\<forall>(x, bi)\<in>set (cd_connected cd). try_get_block_info db x = Inr (Some bi)"
  shows "in_line B db (cd_tip cd) (apply_chain_diff B cd pdb)"
proof -
  let ?new = "zip (cd_connected cd) (map (\<lambda>i. (cd_tip_height cd + 1 - of_nat (length (cd_connected cd))) + of_nat i)
    [0..<length (cd_connected cd)])"
  have new: "chain_blocks db f (cd_tip cd) ?new" by (rule zip_chain_blocks [OF wf cd(3) tip bi])
  have kf: "known db f" using ancestor_level [OF wf branch_ancestor [OF cd(3)] tip(1)] by blast
  from ancestors_while_branch [OF wf zeros_ancestor [OF wf kf] kf] obtain gs where gs: "branch db all_zeros gs f" by blast
  from chain_blocks_exists [OF wf gs kf f(3)] obtain common where common: "chain_blocks db all_zeros f common" .
  have chain: "chain_blocks db all_zeros (cd_tip cd) (common @ ?new)"
    using chain_blocks_append [OF new common] wf by (simp add: headers_wf_def)
  note q = quiet_marks [OF wf f(2) common kf f(1)]
  let ?p = "\<lambda>r. fold (proposals.mark_all B) ?new (clear_proposal r)"
  let ?b = "\<lambda>r. fold bundles.mark_all ?new (clear_bundle r)"
  have rows: "pd_proposals (apply_chain_diff B cd pdb) = map ?p (pd_proposals pdb)"
      "pd_bundles (apply_chain_diff B cd pdb) = map ?b (pd_bundles pdb)"
    using cd(1,2) by (simp_all add: apply_chain_diff_def Let_def connect_rows)
  have "pr_mined_in (?p r) = last_mark (proposal_marks B (?p r)) (common @ ?new)" for r
    unfolding proposal_marks_stable unfolding clear_proposal_def by (rule proposals.rebuilt) (use q in blast)
  moreover have "bundle_mark (?b r) = last_mark (bundle_marks (?b r)) (common @ ?new)" for r
    unfolding bundle_marks_stable unfolding clear_bundle_mark by (rule bundles.rebuilt) (use q in blast)
  ultimately show ?thesis using chain rows unfolding in_line_def by (intro exI [of _ "common @ ?new"]) auto
qed


text \<open>A validator with a tip, whose stored chains are connected.\<close>

definition validator_ready :: "btc \<Rightarrow> network_params \<Rightarrow> dbs \<Rightarrow> blockhash \<Rightarrow> u32 \<Rightarrow> bool" where
  "validator_ready B params v tip k \<longleftrightarrow> headers_wf B (block_hashes v) \<and> current_chain_tip v = Some tip \<and>
     connected_below (block_hashes v) tip \<and> header_db (block_hashes v) tip \<noteq> None \<and>
     height_db (block_hashes v) tip = Some k \<and> k \<noteq> 0xFFFFFFFF \<and>
     quiet_below (bip300_activation_height params) (block_hashes v)"

lemma validator_readyD:
  assumes "validator_ready B params v tip k"
  shows "headers_wf B (block_hashes v)" "current_chain_tip v = Some tip" "connected_below (block_hashes v) tip"
    "header_db (block_hashes v) tip \<noteq> None" "height_db (block_hashes v) tip = Some k" "k \<noteq> 0xFFFFFFFF"
    "quiet_below (bip300_activation_height params) (block_hashes v)" "known (block_hashes v) tip" "tip \<noteq> all_zeros"
  using assms headers_wfD(5) [of B "block_hashes v" tip] by (auto simp: validator_ready_def known_def)

lemma reconcile_total:
  assumes r: "validator_ready B params v tip k"
  shows "\<exists>pdb'. reconcile B params v pdb = Some (Inr (Some k, pdb')) \<and> pd_policy_tip pdb' = Some tip \<and> same_rows pdb pdb' \<and>
    (case stored_start v (pd_policy_tip pdb) of
       None \<Rightarrow> in_line B (block_hashes v) tip pdb'
     | Some t \<Rightarrow> carried_over B (block_hashes v) t tip pdb pdb')"
proof -
  let ?db = "block_hashes v"
  note v = validator_readyD [OF r]
  from chain_diff_total [OF v(1-6), of params "pd_policy_tip pdb"] obtain cd where
    cd: "chain_diff params v (pd_policy_tip pdb) = Some (Inr (Some cd))" "cd_tip cd = tip" "cd_tip_height cd = k"
      "\<forall>(x, bi)\<in>set (cd_connected cd). try_get_block_info ?db x = Inr (Some bi)"
    and br: "case stored_start v (pd_policy_tip pdb) of
       Some h \<Rightarrow> \<not> cd_rebuilt cd \<and> (\<exists>fork. last_common ?db h tip fork \<and>
         branch ?db fork (cd_disconnected cd) h \<and> branch ?db fork (rev (map fst (cd_connected cd))) tip)
     | None \<Rightarrow> cd_rebuilt cd \<and> cd_disconnected cd = [] \<and> (\<exists>f. branch ?db f (rev (map fst (cd_connected cd))) tip \<and>
           level ?db f = min (unat k + 1) (unat (bip300_activation_height params)))" by blast
  have below: "connected_below ?db f" "known ?db f" if "branch ?db f hs tip" for f hs
    using v(3) branch_ancestor [OF that] ancestor_level [OF v(1) branch_ancestor [OF that] v(8)]
    by (auto simp: connected_below_def intro: ancestor_trans)
  show ?thesis
  proof (cases "pd_policy_tip pdb = Some tip")
    case True
    then have "stored_start v (pd_policy_tip pdb) = Some tip" using v(4) by (simp add: stored_start_def)
    with True cd carried_over_same [OF v(1,8,3)] show ?thesis by (simp add: reconcile_def same_rows_def)
  next
    case False
    let ?pdb = "apply_chain_diff B cd pdb"
    have "case stored_start v (pd_policy_tip pdb) of None \<Rightarrow> in_line B ?db tip ?pdb | Some t \<Rightarrow> carried_over B ?db t tip pdb ?pdb"
    proof (cases "stored_start v (pd_policy_tip pdb)")
      case None
      with br obtain f where f: "cd_rebuilt cd" "cd_disconnected cd = []" "branch ?db f (rev (map fst (cd_connected cd))) tip"
        "level ?db f \<le> unat (bip300_activation_height params)" by auto
      from apply_chain_diff_rebuilt [OF v(1) f(1,2) _ f(4) v(7) below(1) [OF f(3)]] f(3) cd v None show ?thesis by simp
    next
      case (Some t)
      then have t: "known ?db t" by (auto simp: stored_start_def known_def split: option.splits if_splits)
      from br Some obtain fork where f: "\<not> cd_rebuilt cd" "last_common ?db t tip fork" "branch ?db fork (cd_disconnected cd) t"
        "branch ?db fork (rev (map fst (cd_connected cd))) tip" by auto
      from chain_to_known [OF v(1) below(2,1) [OF f(4)]] obtain common where common: "chain_blocks ?db all_zeros fork common" by blast
      have new: "chain_blocks ?db fork tip (zip (cd_connected cd)
          (map (\<lambda>i. (cd_tip_height cd + 1 - of_nat (length (cd_connected cd))) + of_nat i) [0..<length (cd_connected cd)]))"
        using zip_chain_blocks [OF v(1) f(4) v(8,9) _ cd(4)] cd(3) v(5) by simp
      from carried_overI [OF v(1) t f(2,3) common new apply_chain_diff_marks [OF f(1)]] Some show ?thesis by simp
    qed
    moreover have "pd_policy_tip ?pdb = Some tip" using cd(2) by (simp add: apply_chain_diff_def Let_def)
    ultimately show ?thesis using False cd apply_chain_diff_same_rows by (simp add: reconcile_def)
  qed
qed

section \<open>Queueing\<close>

text \<open>A row queued at the tip takes no mark from the chain below it.\<close>

lemma queued_at_tip:
  assumes r: "validator_ready B params v tip k" and c: "chain_blocks (block_hashes v) all_zeros tip bs"
  shows "pr_queued_at r = Some k \<Longrightarrow> last_mark (proposal_marks B r) bs = None"
    "br_queued_at r' = Some k \<Longrightarrow> last_mark (bundle_marks r') bs = None"
proof -
  note v = validator_readyD [OF r]
  have "\<not> takes_marks (Some k) (snd b)" if "b \<in> set bs" for b
  proof -
    obtain h bi k' where b: "b = ((h, bi), k')" by (metis surj_pair)
    with c that have i: "height_db (block_hashes v) h = Some k'" by (auto simp: chain_blocks_def)
    have "branch (block_hashes v) all_zeros (rev (map (\<lambda>b. fst (fst b)) bs)) tip" using c by (simp add: chain_blocks_def)
    from branch_members [OF this, of h] that b have a: "ancestor (block_hashes v) h tip" "header_db (block_hashes v) h \<noteq> None" by force+
    have "level (block_hashes v) h \<le> level (block_hashes v) tip" using ancestor_level [OF v(1) a(1) v(8)] by blast
    moreover have "level (block_hashes v) h = unat k' + 1" "level (block_hashes v) tip = unat k + 1"
      using a(2) headers_wfD(5) [OF v(1)] i v(5,9) by (auto simp: level_def)
    ultimately show ?thesis using b by (simp add: takes_marks_def word_less_nat_alt not_less)
  qed
  then show "pr_queued_at r = Some k \<Longrightarrow> last_mark (proposal_marks B r) bs = None"
    "br_queued_at r' = Some k \<Longrightarrow> last_mark (bundle_marks r') bs = None"
    by (fastforce simp: last_mark_None proposal_marks_def bundle_marks_def split: prod.splits)+
qed

lemma in_line_bundles:
  assumes r: "validator_ready B params v tip k" and l: "in_line B (block_hashes v) tip pdb"
    and rows: "\<And>r. r \<in> set rows \<Longrightarrow> r \<in> set (pd_bundles pdb) \<or> (br_settled_in r = None \<and> br_queued_at r = Some k)"
  shows "in_line B (block_hashes v) tip (pdb\<lparr>pd_bundles := rows\<rparr>)"
proof -
  from l obtain bs where bs: "chain_blocks (block_hashes v) all_zeros tip bs"
    "\<forall>r\<in>set (pd_proposals pdb). pr_mined_in r = last_mark (proposal_marks B r) bs"
    "\<forall>r\<in>set (pd_bundles pdb). bundle_mark r = last_mark (bundle_marks r) bs" by (auto simp: in_line_def)
  have "bundle_mark r = last_mark (bundle_marks r) bs" if "r \<in> set rows" for r
    using rows [OF that] bs(3) queued_at_tip(2) [OF assms(1) bs(1), of r] by (auto simp: bundle_mark_def)
  with bs(1,2) show ?thesis by (auto simp: in_line_def)
qed


section \<open>The invariant of the tables\<close>

definition proposal_key :: "proposal_row \<Rightarrow> sidechain_number \<times> hash256" where
  "proposal_key r = (pr_sidechain_number r, pr_data_hash r)"

definition bundle_key :: "bundle_row \<Rightarrow> sidechain_number \<times> m6id" where
  "bundle_key r = (br_sidechain_number r, br_bundle_hash r)"

definition proposal_ok :: "btc \<Rightarrow> proposal_row \<Rightarrow> bool" where
  "proposal_ok B r \<longleftrightarrow> pr_data_hash r = sha256d_hash B (pr_data r)"

definition bundle_ok :: "btc \<Rightarrow> bundle_row \<Rightarrow> bool" where
  "bundle_ok B r \<longleftrightarrow> br_bundle_hash r = blinded_compute_m6id B (br_bundle r) \<and> (br_settled_in r = None \<longleftrightarrow> br_paid_out r = None)"

definition policy_wf :: "btc \<Rightarrow> policy_db \<Rightarrow> bool" where
  "policy_wf B db \<longleftrightarrow> distinct (map proposal_key (pd_proposals db)) \<and> distinct (map bundle_key (pd_bundles db)) \<and>
     distinct (pd_acks db) \<and> distinct (pd_bundle_acks db) \<and>
     list_all (proposal_ok B) (pd_proposals db) \<and> list_all (bundle_ok B) (pd_bundles db)"

lemma mined_in_ok [simp]:
  "proposal_key (r\<lparr>pr_mined_in := m\<rparr>) = proposal_key r" "proposal_ok B (r\<lparr>pr_mined_in := m\<rparr>) = proposal_ok B r"
  "proposal_key (r\<lparr>pr_queued_at := q\<rparr>) = proposal_key r" "proposal_ok B (r\<lparr>pr_queued_at := q\<rparr>) = proposal_ok B r"
  "bundle_key (r'\<lparr>br_queued_at := q\<rparr>) = bundle_key r'" "bundle_ok B (r'\<lparr>br_queued_at := q\<rparr>) = bundle_ok B r'"
  by (simp_all add: proposal_key_def proposal_ok_def bundle_key_def bundle_ok_def)

lemma policy_wf_rows:
  assumes "policy_wf B db" "\<And>r. proposal_key (f r) = proposal_key r" "\<And>r. proposal_ok B r \<Longrightarrow> proposal_ok B (f r)"
    and "\<And>r. bundle_key (g r) = bundle_key r" "\<And>r. bundle_ok B r \<Longrightarrow> bundle_ok B (g r)"
    and "pd_proposals db' = map f (pd_proposals db)" "pd_bundles db' = map g (pd_bundles db)"
    and "pd_acks db' = pd_acks db" "pd_bundle_acks db' = pd_bundle_acks db"
  shows "policy_wf B db'"
proof -
  have "map proposal_key (pd_proposals db') = map proposal_key (pd_proposals db)"
    "map bundle_key (pd_bundles db') = map bundle_key (pd_bundles db)" using assms(2,4,6,7) by simp_all
  moreover have "list_all (proposal_ok B) (pd_proposals db')" "list_all (bundle_ok B) (pd_bundles db')"
    using assms(1,3,5,6,7) by (auto simp: policy_wf_def list_all_iff)
  ultimately show ?thesis using assms(1,8,9) by (simp add: policy_wf_def)
qed

lemma disconnect_marks_wf: "policy_wf B db \<Longrightarrow> policy_wf B (disconnect_marks h db)"
  by (erule policy_wf_rows [where f = "\<lambda>r. if pr_mined_in r = Some h then clear_proposal r else r"
        and g = "\<lambda>r. if br_settled_in r = Some h then clear_bundle r else r"])
    (auto simp: disconnect_marks_def proposal_key_def bundle_key_def proposal_ok_def bundle_ok_def
      clear_proposal_def clear_bundle_def)

lemma mark_all_ok:
  "proposal_key (proposals.mark_all B' b r) = proposal_key r" "proposal_ok B (proposals.mark_all B' b r) = proposal_ok B r"
  "bundle_key (bundles.mark_all b r') = bundle_key r'" "bundle_ok B r' \<Longrightarrow> bundle_ok B (bundles.mark_all b r')"
proof -
  have "proposal_key (fold (\<lambda>m r. r\<lparr>pr_mined_in := Some m\<rparr>) ms r) = proposal_key r \<and>
      proposal_ok B (fold (\<lambda>m r. r\<lparr>pr_mined_in := Some m\<rparr>) ms r) = proposal_ok B r" for ms
    by (induction ms arbitrary: r) simp_all
  then show "proposal_key (proposals.mark_all B' b r) = proposal_key r"
    "proposal_ok B (proposals.mark_all B' b r) = proposal_ok B r" by (simp_all add: proposals.mark_all_def)
  have k: "bundle_key (fold (\<lambda>m. set_bundle_mark (Some m)) ms r') = bundle_key r'" for ms
    by (induction ms arbitrary: r') (auto simp: bundle_key_def set_bundle_mark_def split: prod.splits)
  have ok: "bundle_ok B (fold (\<lambda>m. set_bundle_mark (Some m)) ms r')" if "bundle_ok B r'" "\<forall>m\<in>set ms. snd m \<noteq> None" for ms
    using that by (induction ms arbitrary: r') (auto simp: bundle_ok_def set_bundle_mark_def split: prod.splits)
  have "\<forall>m\<in>set (bundle_marks r' b). snd m \<noteq> None"
    by (auto simp: bundle_marks_def List.map_filter_def split: prod.splits if_splits)
  with k ok show "bundle_key (bundles.mark_all b r') = bundle_key r'" "bundle_ok B r' \<Longrightarrow> bundle_ok B (bundles.mark_all b r')"
    by (simp_all add: bundles.mark_all_def)
qed

lemma marks_keep_acks:
  "pd_acks (disconnect_marks h db) = pd_acks db" "pd_bundle_acks (disconnect_marks h db) = pd_bundle_acks db"
  "pd_acks (connect_marks B b db) = pd_acks db" "pd_bundle_acks (connect_marks B b db) = pd_bundle_acks db"
  by (simp_all add: disconnect_marks_def connect_marks_def split: prod.splits)

lemma connect_marks_wf: "policy_wf B db \<Longrightarrow> policy_wf B (connect_marks B' b db)"
  by (erule policy_wf_rows [where f = "proposals.mark_all B' b" and g = "bundles.mark_all b"])
    (use connect_rows [of B' "[b]" db] in \<open>auto simp: mark_all_ok marks_keep_acks\<close>)

lemma fold_wf: "(\<And>x db. policy_wf B db \<Longrightarrow> policy_wf B (f x db)) \<Longrightarrow> policy_wf B db \<Longrightarrow> policy_wf B (fold f xs db)"
  by (induction xs arbitrary: db) simp_all

lemma apply_chain_diff_wf:
  assumes "policy_wf B db"
  shows "policy_wf B (apply_chain_diff B' cd db)"
proof -
  let ?db = "if cd_rebuilt cd then db\<lparr>pd_proposals := map clear_proposal (pd_proposals db),
    pd_bundles := map clear_bundle (pd_bundles db)\<rparr> else db"
  have "policy_wf B ?db"
  proof (cases "cd_rebuilt cd")
    case True
    show ?thesis
      by (rule policy_wf_rows [OF assms, where f = clear_proposal and g = clear_bundle])
        (use True in \<open>auto simp: proposal_key_def bundle_key_def proposal_ok_def bundle_ok_def clear_proposal_def clear_bundle_def\<close>)
  qed (use assms in simp)
  then have "policy_wf B (fold (connect_marks B') bs (fold disconnect_marks hs ?db))" for bs hs
    by (intro fold_wf disconnect_marks_wf connect_marks_wf)
  then have "policy_wf B (fold (connect_marks B') bs (fold disconnect_marks hs ?db)\<lparr>pd_policy_tip := t\<rparr>)" for bs hs t
    by (simp add: policy_wf_def)
  then show ?thesis unfolding apply_chain_diff_def Let_def .
qed

lemma reconcile_wf: "reconcile B' params v db = Some (Inr (k, db')) \<Longrightarrow> policy_wf B db \<Longrightarrow> policy_wf B db'"
  by (cases "chain_diff params v (pd_policy_tip db)")
    (auto simp: reconcile_def apply_chain_diff_wf split: sum.splits option.splits if_splits)

lemma reconciled_wf:
  assumes "policy_wf B db" "\<And>k db r db'. f db k = Inr (r, db') \<Longrightarrow> policy_wf B db \<Longrightarrow> policy_wf B db'"
  shows "policy_wf B (committed (reconciled B' params v f db) db)"
proof (cases "reconcile B' params v db")
  case (Some r)
  then show ?thesis using assms reconcile_wf [of B' params v db _ _ B]
    by (auto simp: committed_def reconciled_def split: sum.splits)
qed (use assms in \<open>simp add: committed_def reconciled_def\<close>)


lemma start_cursor_wf: "start_cursor B' v db = Inr db' \<Longrightarrow> policy_wf B db \<Longrightarrow> policy_wf B db'"
  by (auto simp: start_cursor_def split: if_splits option.splits sum.splits
      elim!: policy_wf_rows [where f = "\<lambda>r. if pr_queued_at r = None then r\<lparr>pr_queued_at := Some k\<rparr> else r"
        and g = "\<lambda>r. if br_queued_at r = None then r\<lparr>br_queued_at := Some k\<rparr> else r" for k])

lemma propose_wf:
  assumes "policy_wf B db"
  shows "policy_wf B (committed (db_propose_sidechain B params v p db) db)"
  unfolding db_propose_sidechain_def Let_def
proof (rule reconciled_wf [OF assms])
  let ?requeue = "\<lambda>r. pr_sidechain_number r = prop_sidechain_number p \<and>
    pr_data_hash r = sha256d_hash B (prop_description p) \<and> pr_mined_in r \<noteq> None"
  fix k db r db'
  assume wf: "policy_wf B db" and f: "(if list_ex ?requeue (pd_proposals db)
      then Inr ((), db\<lparr>pd_proposals := map (\<lambda>r. if ?requeue r then r\<lparr>pr_mined_in := None, pr_queued_at := k\<rparr> else r) (pd_proposals db)\<rparr>)
      else insert_proposal \<lparr>pr_sidechain_number = prop_sidechain_number p, pr_data_hash = sha256d_hash B (prop_description p),
        pr_data = prop_description p, pr_mined_in = None, pr_queued_at = k\<rparr> db) = Inr (r, db')"
  show "policy_wf B db'"
  proof (cases "list_ex ?requeue (pd_proposals db)")
    case True
    with f have "db' = db\<lparr>pd_proposals := map (\<lambda>r. if ?requeue r then r\<lparr>pr_mined_in := None, pr_queued_at := k\<rparr> else r) (pd_proposals db)\<rparr>"
      by (simp split: if_splits)
    then show ?thesis
      by (intro policy_wf_rows [OF wf, where f = "\<lambda>r. if ?requeue r then r\<lparr>pr_mined_in := None, pr_queued_at := k\<rparr> else r" and g = "\<lambda>r. r"])
        simp_all
  next
    case False
    let ?row = "\<lparr>pr_sidechain_number = prop_sidechain_number p, pr_data_hash = sha256d_hash B (prop_description p),
        pr_data = prop_description p, pr_mined_in = None, pr_queued_at = k\<rparr>"
    from f False have ins: "insert_proposal ?row db = Inr (r, db')" by (simp only: if_False)
    then have "\<not> list_ex (\<lambda>r. proposal_key r = proposal_key ?row) (pd_proposals db)"
      "db' = db\<lparr>pd_proposals := pd_proposals db @ [?row]\<rparr>"
      by (auto simp: insert_proposal_def proposal_key_def split: if_splits)
    moreover have "proposal_ok B ?row" by (simp add: proposal_ok_def)
    ultimately show ?thesis using wf by (auto simp: policy_wf_def list_ex_iff)
  qed
qed

lemma put_bundle_wf:
  assumes "policy_wf B db"
  shows "policy_wf B (committed (put_withdrawal_bundle B params v n b db) db)"
  unfolding put_withdrawal_bundle_def Let_def
proof (rule reconciled_wf [OF assms])
  let ?m = "blinded_compute_m6id B b"
  let ?same = "\<lambda>r. br_sidechain_number r = n \<and> br_bundle_hash r = ?m"
  let ?row = "\<lambda>k. \<lparr>br_sidechain_number = n, br_bundle_hash = ?m, br_bundle = b, br_settled_in = None, br_queued_at = k, br_paid_out = None\<rparr>"
  let ?f = "\<lambda>k r. if ?same r then r\<lparr>br_settled_in := None, br_paid_out := None, br_queued_at := k\<rparr> else r"
  fix k db r db'
  assume wf: "policy_wf B db" and f: "(if list_ex (\<lambda>r. ?same r \<and> br_paid_out r = Some True) (pd_bundles db)
      then Inl (PE_AlreadyPaidOut ?m)
      else Inr (?m, db\<lparr>pd_bundles := if list_ex ?same (pd_bundles db) then map (?f k) (pd_bundles db) else pd_bundles db @ [?row k]\<rparr>)) =
      Inr (r, db')"
  then have db': "db' = db\<lparr>pd_bundles := if list_ex ?same (pd_bundles db) then map (?f k) (pd_bundles db) else pd_bundles db @ [?row k]\<rparr>"
    by (auto split: if_splits)
  show "policy_wf B db'"
  proof (cases "list_ex ?same (pd_bundles db)")
    case True
    with db' have "db' = db\<lparr>pd_bundles := map (?f k) (pd_bundles db)\<rparr>" by simp
    then show ?thesis
      by (intro policy_wf_rows [OF wf, where f = "\<lambda>r. r" and g = "?f k"]) (simp_all add: bundle_key_def bundle_ok_def)
  next
    case False
    with db' wf show ?thesis by (auto simp: policy_wf_def bundle_key_def bundle_ok_def list_ex_iff)
  qed
qed

lemma step_wf: "policy_wf B db \<Longrightarrow> policy_wf B (policy_step B params x db)"
proof (induction B params x db rule: policy_step.induct)
  case (1 B params v db)
  then show ?case by (auto simp: get_our_sidechain_proposals_def intro: reconciled_wf)
next
  case (2 B params v db)
  then show ?case by (auto simp: stored_bundle_proposals_def intro: reconciled_wf)
next
  case (5 B params v n h db)
  then show ?case by (auto simp: db_ack_sidechain_def policy_wf_def Let_def split: sum.splits if_splits)
next
  case (3 B params v p db)
  then show ?case by (simp add: propose_wf)
next
  case (4 B params v n b db)
  then show ?case by (simp add: put_bundle_wf)
next
  case (11 B params v db)
  then show ?case by (auto split: sum.splits intro: start_cursor_wf)
qed (auto simp: nack_sidechain_def ack_bundle_def delete_bundle_ack_def set_ack_policy_def set_bundle_policy_def policy_wf_def)


section \<open>Properties\<close>

text \<open>C26: whatever requests the block producer makes, while the validator changes in between, its tables
  stay well-formed: keys are unique, every row is stored under the hash of what it holds, and a bundle
  has a settling block exactly if it is known whether it was paid out.\<close>

theorem policy_tables_wf: "policy_wf B (fold (policy_step B params) requests policy_db_new)"
proof -
  have "policy_wf B policy_db_new" by (simp add: policy_wf_def policy_db_new_def)
  then show ?thesis by (induction requests rule: rev_induct) (simp_all add: step_wf)
qed

text \<open>C13: reconciling with a validator that has a tip always succeeds, moves the cursor to the tip and changes
  nothing but marks. Without a stored cursor it rebuilds them: every proposal is marked with the last
  block of the active chain, above the height it was queued at, that mined it, and every bundle with
  the last that settled it and how. From a stored cursor every mark becomes the last one of the blocks after the
  fork, or stays, unless its block was disconnected. So a row whose mark was the one of the cursor's chain has the one of the
  active chain afterwards, except exactly when it was marked both below the fork and by a disconnected
  block and no new block marks it: its mark below the fork is forgotten.\<close>

theorem reconcile_exact:
  assumes "validator_ready B params v tip k"
  shows "\<exists>pdb'. reconcile B params v pdb = Some (Inr (Some k, pdb')) \<and> pd_policy_tip pdb' = Some tip \<and> same_rows pdb pdb' \<and>
    (case stored_start v (pd_policy_tip pdb) of
       None \<Rightarrow> in_line B (block_hashes v) tip pdb'
     | Some t \<Rightarrow> carried_over B (block_hashes v) t tip pdb pdb')"
  using assms by (rule reconcile_total)

text \<open>A withdrawal bundle is refused exactly if its row is marked as paid out once the database is reconciled;
  any other bundle, also one that failed, is pending afterwards, and marks in line with the chain stay so.\<close>

lemma put_withdrawal_bundle_exact:
  assumes r: "validator_ready B params v tip k"
  shows "\<exists>pdb1. reconcile B params v pdb = Some (Inr (Some k, pdb1)) \<and>
    (let m = blinded_compute_m6id B b in
     if \<exists>r\<in>set (pd_bundles pdb1). bundle_key r = (n, m) \<and> br_paid_out r = Some True
     then put_withdrawal_bundle B params v n b pdb = Some (Inl (PE_AlreadyPaidOut m))
     else \<exists>pdb'. put_withdrawal_bundle B params v n b pdb = Some (Inr (m, pdb')) \<and>
       (in_line B (block_hashes v) tip pdb1 \<longrightarrow> in_line B (block_hashes v) tip pdb') \<and>
       (\<exists>r\<in>set (pd_bundles pdb'). bundle_key r = (n, m) \<and> br_settled_in r = None))"
proof -
  from reconcile_total [OF r] obtain pdb1 where rec: "reconcile B params v pdb = Some (Inr (Some k, pdb1))" by blast
  let ?m = "blinded_compute_m6id B b"
  let ?same = "\<lambda>r. br_sidechain_number r = n \<and> br_bundle_hash r = ?m"
  let ?row = "\<lparr>br_sidechain_number = n, br_bundle_hash = ?m, br_bundle = b, br_settled_in = None, br_queued_at = Some k, br_paid_out = None\<rparr>"
  let ?f = "\<lambda>r. if ?same r then r\<lparr>br_settled_in := None, br_paid_out := None, br_queued_at := Some k\<rparr> else r"
  let ?rows = "if list_ex ?same (pd_bundles pdb1) then map ?f (pd_bundles pdb1) else pd_bundles pdb1 @ [?row]"
  have put: "put_withdrawal_bundle B params v n b pdb =
    Some (if list_ex (\<lambda>r. ?same r \<and> br_paid_out r = Some True) (pd_bundles pdb1) then Inl (PE_AlreadyPaidOut ?m)
      else Inr (?m, pdb1\<lparr>pd_bundles := ?rows\<rparr>))"
    using rec by (simp add: put_withdrawal_bundle_def reconciled_def Let_def)
  have "list_ex (\<lambda>r. ?same r \<and> br_paid_out r = Some True) (pd_bundles pdb1) \<longleftrightarrow>
      (\<exists>r\<in>set (pd_bundles pdb1). bundle_key r = (n, ?m) \<and> br_paid_out r = Some True)"
    by (auto simp: list_ex_iff bundle_key_def)
  moreover have "in_line B (block_hashes v) tip (pdb1\<lparr>pd_bundles := ?rows\<rparr>)" if "in_line B (block_hashes v) tip pdb1"
    by (rule in_line_bundles [OF r that]) (auto split: if_splits)
  moreover have "\<exists>r\<in>set ?rows. bundle_key r = (n, ?m) \<and> br_settled_in r = None"
  proof (cases "list_ex ?same (pd_bundles pdb1)")
    case True
    then obtain r where r: "r \<in> set (pd_bundles pdb1)" "?same r" by (auto simp: list_ex_iff)
    then have "?f r \<in> set ?rows" using True by simp
    with r(2) show ?thesis by (intro bexI [of _ "?f r"]) (simp_all add: bundle_key_def)
  qed (simp add: bundle_key_def)
  ultimately show ?thesis using rec put by (intro exI [of _ pdb1]) (auto simp: Let_def)
qed

text \<open>The exception reconciling has: a proposal that was mined twice loses its mark when the later of the
  two blocks is disconnected, while rebuilding the marks of the same chain keeps it.\<close>

theorem reorganisation_forgets_mark:
  assumes "a \<noteq> b" and rows: "pd_proposals db = [r]" "pr_queued_at r = None"
    and id: "compute_id B p = \<lparr>id_sidechain_number = pr_sidechain_number r, id_description_hash = pr_data_hash r\<rparr>"
    and bi: "bi_sidechain_proposals mined = [(vout, p)]" "bi_sidechain_proposals other = []"
  defines "cd \<equiv> \<lambda>tip rebuilt disconnected connected. \<lparr>cd_tip = tip, cd_tip_height = 10, cd_rebuilt = rebuilt,
    cd_disconnected = disconnected, cd_connected = connected\<rparr>"
  shows "map pr_mined_in (pd_proposals (apply_chain_diff B (cd c False [b] [(c, other)]) (apply_chain_diff B (cd b True [] [(a, mined), (b, mined)]) db))) = [None] \<and>
    map pr_mined_in (pd_proposals (apply_chain_diff B (cd c True [] [(a, mined), (c, other)]) db)) = [Some a]"
  using assms by (simp add: apply_chain_diff_def Let_def disconnect_marks_def connect_marks_def mark_proposal_def
      clear_proposal_def takes_marks_def compute_id_def)


definition sample_policy_rows :: policy_db where
  "sample_policy_rows = policy_db_new\<lparr>pd_policy_tip := Some (pad32 [3]),
     pd_proposals := [\<lparr>pr_sidechain_number = 1, pr_data_hash = sha256d_hash sample_btc [7], pr_data = [7],
       pr_mined_in = None, pr_queued_at = Some 0\<rparr>]\<rparr>"

lemma fork_quiet: "try_get_block_info fork_tables h = Inr (Some bi) \<Longrightarrow> bi_sidechain_proposals bi = [] \<and> withdrawal_bundle_events bi = []"
  by (auto simp: try_get_block_info_def fork_tables_def bi_sidechain_proposals_def withdrawal_bundle_events_def List.map_filter_def)

lemma fork_ready: "validator_ready sample_btc (bh_params sample_handler) fork_dbs (pad32 [2]) 1"
  using fork_wf fork_connected fork_quiet
  by (simp add: validator_ready_def fork_dbs_simps fork_headers quiet_below_def)

theorem reconcile_exact_witness:
  "\<exists>pdb'. reconcile sample_btc (bh_params sample_handler) fork_dbs sample_policy_rows = Some (Inr (Some 1, pdb')) \<and>
     pd_policy_tip pdb' = Some (pad32 [2]) \<and> same_rows sample_policy_rows pdb' \<and>
     carried_over sample_btc (block_hashes fork_dbs) (pad32 [3]) (pad32 [2]) sample_policy_rows pdb'"
proof -
  have "stored_start fork_dbs (pd_policy_tip sample_policy_rows) = Some (pad32 [3])"
    by (simp add: stored_start_def sample_policy_rows_def fork_dbs_simps fork_headers)
  with reconcile_exact [OF fork_ready, of sample_policy_rows] show ?thesis by simp
qed

end
