(* ===== verification/Template.thy ===== *)
theory Template
  imports PolicyDb
begin

text \<open>
  Block templates (\<open>src/lib/block_producer/mod.rs\<close>): the block producer as an enforcer that remembers the
  payouts in the mempool, the auction of BMM requests, the initial template with its coinbase messages,
  excluded transactions and reserved weights, and the finished template with accepted requests and the
  suffix of payouts.

  The state is a record of the validator's tables, the policy database, the payouts and the last error.
  Every step that reads the policy database returns it too, since a read commits the reconciliation even if the
  template fails later. Sets of transactions to exclude are sets.
\<close>

section \<open>The block producer\<close>

record 'e block_producer =
  bp_validator :: dbs
  bp_policy :: policy_db
  bp_mempool_payouts :: "txid \<Rightarrow> (sidechain_number \<times> m6id) option"
  bp_last_gbt_error :: "'e option"

text \<open>What the \<open>bitcoin\<close> crate, the clock and the node answer: the script of a height, the merkle root,
  the weight of a transaction, the time, and the fee of a transaction in the node's mempool; and the
  orders in which hash maps are iterated.\<close>

record template_env =
  te_env :: handler_env
  te_height_script :: "u32 \<Rightarrow> bytes"
  te_merkle_root :: "txid list \<Rightarrow> bytes"
  te_weight :: "transaction \<Rightarrow> nat"
  te_now :: u32
  te_bid_fee :: "txid \<Rightarrow> unit + amount option"
  te_bid_order :: "(sidechain_number \<times> bmm_commitment \<times> txid) set \<Rightarrow> (sidechain_number \<times> bmm_commitment \<times> txid) list"
  te_slot_order :: "sidechain_number list \<Rightarrow> sidechain_number list"
  te_sidechains :: "dbs \<Rightarrow> (sidechain_proposal_id \<times> sidechain) list"

abbreviation te_btc :: "template_env \<Rightarrow> btc" where "te_btc T \<equiv> he_btc (te_env T)"
abbreviation te_params :: "template_env \<Rightarrow> network_params" where "te_params T \<equiv> bh_params (he_handler (te_env T))"

datatype template_error =
    TE_NoCoinbaseTxn
  | TE_MainchainTip
  | TE_Policy policy_error
  | TE_GenerateCoinbase generate_coinbase_error
  | TE_GetHeaderInfo get_header_info_error
  | TE_ConnectBlock connect_block_error
  | TE_ApplyCoinbase reject_reason
  | TE_BmmBidFee
  | TE_Validator fault
  | TE_CoinbaseMessages coinbase_messages_error
  | TE_GenerateSuffixTxouts push_bytes_error
  | TE_InitialBlockTemplate reject_reason

section \<open>Payouts in the mempool\<close>

definition unpayable_mempool_payouts :: "thresholds \<Rightarrow> (txid \<Rightarrow> (sidechain_number \<times> m6id) option) \<Rightarrow>
    (sidechain_number \<Rightarrow> pending_m6ids option) \<Rightarrow> txid set" where
  "unpayable_mempool_payouts thresholds payouts pending_after =
     {txid. case payouts txid of
        None \<Rightarrow> False
      | Some (n, m) \<Rightarrow>
          (case Option.bind (pending_after n) (\<lambda>pending. map_of pending m) of
             None \<Rightarrow> True
           | Some info \<Rightarrow> pi_vote_count info \<le> withdrawal_bundle_inclusion_threshold thresholds)}"

definition forget_mempool_payouts :: "btc \<Rightarrow> block \<Rightarrow> 'e block_producer \<Rightarrow> 'e block_producer" where
  "forget_mempool_payouts B block p = p\<lparr>bp_mempool_payouts :=
     fold (\<lambda>tx payouts. payouts(b_compute_txid B tx := None)) (blk_txdata block) (bp_mempool_payouts p)\<rparr>"

definition producer_connect_block :: "handler_env \<Rightarrow> block \<Rightarrow> 'e block_producer \<Rightarrow>
    connect_block_error + connect_block_action \<times> event list \<times> 'e block_producer" where
  "producer_connect_block E block p =
     (case enforcer_connect_block E block (bp_validator p) of
        Inl e \<Rightarrow> Inl e
      | Inr (action, events, db) \<Rightarrow>
          let p = p\<lparr>bp_validator := db\<rparr>
          in Inr (action, events, case action of BlockAccept _ \<Rightarrow> forget_mempool_payouts (he_btc E) block p | BlockReject \<Rightarrow> p))"

definition producer_disconnect_block :: "handler_env \<Rightarrow> blockhash \<Rightarrow> 'e block_producer \<Rightarrow>
    disconnect_block_error + txid set \<times> event list \<times> 'e block_producer" where
  "producer_disconnect_block E block_hash p =
     (case enforcer_disconnect_block E block_hash (bp_validator p) of
        Inl e \<Rightarrow> Inl e
      | Inr (removed, events, db) \<Rightarrow> Inr (removed, events, p\<lparr>bp_validator := db\<rparr>))"

definition producer_accept_tx :: "handler_env \<Rightarrow> transaction \<Rightarrow> 'e block_producer \<Rightarrow>
    validate_tx_error + tx_accept_action \<times> 'e block_producer" where
  "producer_accept_tx E tx p =
     (case accept_tx_with_payout E tx (bp_validator p) of
        Inl e \<Rightarrow> Inl e
      | Inr ((action, payout), db) \<Rightarrow>
          let p = p\<lparr>bp_validator := db\<rparr>
          in Inr (action, case payout of
               Some payout \<Rightarrow> p\<lparr>bp_mempool_payouts := (bp_mempool_payouts p)(b_compute_txid (he_btc E) tx \<mapsto> payout)\<rparr>
             | None \<Rightarrow> p))"

section \<open>The BMM auction\<close>

fun collect_bids :: "(txid \<Rightarrow> unit + amount option) \<Rightarrow> (sidechain_number \<times> bmm_commitment \<times> txid) list \<Rightarrow>
    template_error + (sidechain_number \<times> bmm_commitment \<times> txid \<times> amount) list" where
  "collect_bids bid_fee [] = Inr []"
| "collect_bids bid_fee ((n, commitment, txid) # requests) =
     (case bid_fee txid of
        Inl _ \<Rightarrow> Inl TE_BmmBidFee
      | Inr fee \<Rightarrow>
     (case collect_bids bid_fee requests of
        Inl e \<Rightarrow> Inl e
      | Inr bids \<Rightarrow> Inr (case fee of Some fee \<Rightarrow> (n, commitment, txid, fee) # bids | None \<Rightarrow> bids)))"

type_synonym bmm_winners = "sidechain_number \<Rightarrow> (bmm_commitment \<times> txid \<times> amount) option"

fun place_bid :: "sidechain_number \<times> bmm_commitment \<times> txid \<times> amount \<Rightarrow> bmm_winners \<Rightarrow> bmm_winners" where
  "place_bid (n, commitment, txid, fee) winners =
     (case winners n of
        None \<Rightarrow> winners(n \<mapsto> (commitment, txid, fee))
      | Some (_, _, best) \<Rightarrow> if fee > best then winners(n \<mapsto> (commitment, txid, fee)) else winners)"

definition bmm_auction_winners :: "(sidechain_number \<times> bmm_commitment \<times> txid \<times> amount) list \<Rightarrow> bmm_winners" where
  "bmm_auction_winners bids = fold place_bid bids Map.empty"

text \<open>The requests seen for a parent block, by slot and commitment.\<close>

definition seen_requests :: "block_hash_dbs \<Rightarrow> blockhash \<Rightarrow> (sidechain_number \<times> bmm_commitment \<times> txid) set" where
  "seen_requests db parent = {(n, commitment, txid). txid \<in> get_seen_bmm_requests_for_parent_block db parent n commitment}"

definition lost_bids :: "bmm_winners \<Rightarrow> (sidechain_number \<times> bmm_commitment \<times> txid) set \<Rightarrow> txid set" where
  "lost_bids winners requests =
     {txid. \<exists>n commitment. (n, commitment, txid) \<in> requests \<and> Some txid \<noteq> map_option (\<lambda>(_, t, _). t) (winners n)}"

section \<open>Templates\<close>

definition WITNESS_RESERVED_VALUE :: bytes where "WITNESS_RESERVED_VALUE = replicate 32 0"

definition dry_run_block :: "template_env \<Rightarrow> blockhash \<Rightarrow> u32 \<Rightarrow> txout list \<Rightarrow> transaction list \<Rightarrow> block" where
  "dry_run_block T tip height coinbase_txouts prefix_txs =
     (let coinbase_tx = \<lparr>tx_version = 2, tx_lock_time = 0,
            tx_input = [\<lparr>previous_output = \<lparr>op_txid = all_zeros, op_vout = 0xFFFFFFFF\<rparr>,
              script_sig = te_height_script T height, txin_sequence = 0xFFFFFFFF, txin_witness = [WITNESS_RESERVED_VALUE]\<rparr>],
            tx_output = coinbase_txouts\<rparr>;
          merkle_root = te_merkle_root T (map (b_compute_txid (te_btc T)) (coinbase_tx # prefix_txs))
      in \<lparr>blk_header = \<lparr>hdr_version = 2, hdr_prev_blockhash = tip, hdr_merkle_root = merkle_root, hdr_time = te_now T,
            hdr_bits = 0x1d00ffff, hdr_nonce = 0\<rparr>,
          blk_txdata = coinbase_tx # prefix_txs\<rparr>)"

text \<open>Steps in sequence: each returns the policy database, whether it fails or not, and a failing read leaves
  it alone, because its transaction is rolled back.\<close>

definition policy_bind :: "((template_error + 'a) \<times> policy_db) option \<Rightarrow> ('a \<Rightarrow> policy_db \<Rightarrow> ((template_error + 'b) \<times> policy_db) option) \<Rightarrow>
    ((template_error + 'b) \<times> policy_db) option" where
  "policy_bind r f = Option.bind r (\<lambda>(r, db). case r of Inl e \<Rightarrow> Some (Inl e, db) | Inr x \<Rightarrow> f x db)"

definition policy_read :: "(policy_db \<Rightarrow> (policy_error + 'a \<times> policy_db) option) \<Rightarrow> policy_db \<Rightarrow> ((template_error + 'a) \<times> policy_db) option" where
  "policy_read f db = map_option (\<lambda>r. case r of Inl e \<Rightarrow> (Inl (TE_Policy e), db) | Inr (x, db') \<Rightarrow> (Inr x, db')) (f db)"

text \<open>The rows \<open>extend_coinbase_txouts\<close> reads, in its order.\<close>

definition read_rows :: "template_env \<Rightarrow> dbs \<Rightarrow> policy_db \<Rightarrow> ((template_error + policy_rows) \<times> policy_db) option" where
  "read_rows T v db =
     policy_bind (policy_read (get_our_sidechain_proposals (te_btc T) (te_params T) v) db) (\<lambda>proposals db.
     policy_bind (policy_read (stored_bundle_proposals (te_btc T) (te_params T) v) db) (\<lambda>bundles db.
       Some (Inr \<lparr>rows_proposals = proposals, rows_acks = pd_acks db, rows_bundles = bundles,
         rows_bundle_acks = pd_bundle_acks db\<rparr>, db)))"

definition extend_coinbase :: "template_env \<Rightarrow> dbs \<Rightarrow> policy_db \<Rightarrow> blockhash \<Rightarrow> txout list \<Rightarrow>
    ((template_error + txout list) \<times> policy_db) option" where
  "extend_coinbase T v db tip txouts =
     (case get_header_info (te_btc T) (block_hashes v) tip of
        Inl e \<Rightarrow> Some (Inl (TE_GenerateCoinbase (GC_HeaderInfo e)), db)
      | Inr hi \<Rightarrow>
     (let height = (if hi_height hi = 0xFFFFFFFF then 0xFFFFFFFF else hi_height hi + 1) in
      if height < bip300_activation_height (te_params T) then Some (Inr txouts, db)
      else case coinbase_builder_new (te_btc T) txouts of
        Inl e \<Rightarrow> Some (Inl (TE_GenerateCoinbase (GC_CoinbaseMessages e)), db)
      | Inr _ \<Rightarrow>
      policy_bind (read_rows T v db) (\<lambda>rows db.
     (case extend_coinbase_txouts (te_btc T) (te_params T) v (te_sidechains T v) rows
             (pd_ack_policy db) (pd_bundle_policy db) tip txouts of
        Inl e \<Rightarrow> Some (Inl (TE_GenerateCoinbase e), db)
      | Inr outs \<Rightarrow> Some (Inr outs, db)))))"

text \<open>A suffix built from the rows of the policy database.\<close>

definition db_suffix_txs :: "template_env \<Rightarrow> dbs \<Rightarrow> policy_db \<Rightarrow> ctips \<Rightarrow> (sidechain_number \<Rightarrow> pending_m6ids option) option \<Rightarrow>
    ((template_error + transaction list) \<times> policy_db) option" where
  "db_suffix_txs T v db ctips pending =
     policy_bind (policy_read (stored_bundle_proposals (te_btc T) (te_params T) v) db) (\<lambda>bundles db.
     (case generate_suffix_txs (te_btc T) (te_slot_order T) (te_params T) v
             \<lparr>rows_proposals = [], rows_acks = [], rows_bundles = bundles, rows_bundle_acks = []\<rparr> ctips pending of
        Inl e \<Rightarrow> Some (Inl (TE_Validator e), db)
      | Inr txs \<Rightarrow> Some (Inr txs, db)))"

definition MAX_MONEY :: amount where "MAX_MONEY = 2100000000000000"

definition fake_ctips :: ctips where
  "fake_ctips = \<lparr>ctips_consolidated = (\<lambda>n. Some \<lparr>ctip_outpoint = \<lparr>op_txid = replicate 32 n, op_vout = 0\<rparr>,
     ctip_value = MAX_MONEY\<rparr>), ctips_unconsolidated = uc_default\<rparr>"

record initial_template =
  it_coinbase_txouts :: "txout list"
  it_exclude_mempool_txs :: "txid set"
  it_suffix_weights :: "nat list"

definition initial_block_template_inner :: "template_env \<Rightarrow> bool \<Rightarrow> blockhash \<Rightarrow> template_error block_producer \<Rightarrow> initial_template \<Rightarrow>
    ((template_error + initial_template) \<times> policy_db) option" where
  "initial_block_template_inner T coinbase_txn parent p template =
     (if \<not> coinbase_txn then Some (Inl TE_NoCoinbaseTxn, bp_policy p)
      else case current_chain_tip (bp_validator p) of
        None \<Rightarrow> Some (Inl TE_MainchainTip, bp_policy p)
      | Some tip \<Rightarrow>
      policy_bind (extend_coinbase T (bp_validator p) (bp_policy p) tip (it_coinbase_txouts template)) (\<lambda>txouts policy.
     (case get_header_info (te_btc T) (block_hashes (bp_validator p)) tip of
        Inl e \<Rightarrow> Some (Inl (TE_GetHeaderInfo e), policy)
      | Inr hi \<Rightarrow>
     (case get_withdrawal_state_after (te_env T) (dry_run_block T tip (hi_height hi + 1) txouts []) (bp_validator p) of
        Inl e \<Rightarrow> Some (Inl (TE_ConnectBlock e), policy)
      | Inr (Inl reason) \<Rightarrow> Some (Inl (TE_ApplyCoinbase reason), policy)
      | Inr (Inr coinbase_state) \<Rightarrow>
     (let unpayable = unpayable_mempool_payouts (np_thresholds (te_params T)) (bp_mempool_payouts p)
            (ws_pending_withdrawals coinbase_state);
          requests = seen_requests (block_hashes (bp_validator p)) parent
      in case collect_bids (te_bid_fee T) (te_bid_order T requests) of
        Inl e \<Rightarrow> Some (Inl e, policy)
      | Inr bids \<Rightarrow>
     (let winners = bmm_auction_winners bids in
      policy_bind (db_suffix_txs T (bp_validator p) policy fake_ctips None) (\<lambda>fake_suffix_txs policy.
          Some (Inr \<lparr>it_coinbase_txouts = txouts,
            it_exclude_mempool_txs = it_exclude_mempool_txs template \<union> unpayable \<union> lost_bids winners requests,
            it_suffix_weights = it_suffix_weights template @ map (te_weight T) fake_suffix_txs\<rparr>, policy))))))))"

text \<open>\<open>record_gbt_result\<close>: the error of the last template, if it failed.\<close>

definition record_gbt_result :: "'e + 'a \<Rightarrow> 'e block_producer \<Rightarrow> 'e block_producer" where
  "record_gbt_result res p = p\<lparr>bp_last_gbt_error := (case res of Inl e \<Rightarrow> Some e | Inr _ \<Rightarrow> None)\<rparr>"

definition initial_block_template :: "template_env \<Rightarrow> bool \<Rightarrow> blockhash \<Rightarrow> initial_template \<Rightarrow> template_error block_producer \<Rightarrow>
    ((template_error + initial_template) \<times> template_error block_producer) option" where
  "initial_block_template T coinbase_txn parent template p =
     map_option (\<lambda>(res, policy). (res, record_gbt_result res (p\<lparr>bp_policy := policy\<rparr>)))
       (initial_block_template_inner T coinbase_txn parent p template)"

fun accept_requests :: "transaction list \<Rightarrow> coinbase_builder \<Rightarrow> coinbase_messages_error + coinbase_builder" where
  "accept_requests [] cb = Inr cb"
| "accept_requests (tx # txs) cb =
     (case parse_m8_tx tx of
        Some r \<Rightarrow>
          if m7_bmm_accept_slot_vout (cb_messages cb) (m8_sidechain_number r) = None
          then (case bmm_accept cb (m8_sidechain_number r) (m8_sidechain_block_hash r) of
            Inl e \<Rightarrow> Inl e
          | Inr cb \<Rightarrow> accept_requests txs cb)
          else accept_requests txs cb
      | None \<Rightarrow> accept_requests txs cb)"

record filled_template =
  ft_coinbase_txouts :: "txout list"
  ft_prefix_txs :: "transaction list"
  ft_suffix_txs :: "transaction list"

definition block_template_suffix_inner :: "template_env \<Rightarrow> bool \<Rightarrow> template_error block_producer \<Rightarrow> filled_template \<Rightarrow>
    ((template_error + filled_template) \<times> policy_db) option" where
  "block_template_suffix_inner T coinbase_txn p template =
     (if \<not> coinbase_txn then Some (Inr template, bp_policy p)
      else case (case current_chain_tip (bp_validator p) of
             Some tip \<Rightarrow> (case get_header_info (te_btc T) (block_hashes (bp_validator p)) tip of
                 Inl e \<Rightarrow> Inl (TE_GetHeaderInfo e) | Inr hi \<Rightarrow> Inr (tip, hi_height hi + 1))
           | None \<Rightarrow> Inr (all_zeros, 0)) of
        Inl e \<Rightarrow> Some (Inl e, bp_policy p)
      | Inr (tip, height) \<Rightarrow>
     (case coinbase_builder_new (te_btc T) (ft_coinbase_txouts template) of
        Inl e \<Rightarrow> Some (Inl (TE_CoinbaseMessages e), bp_policy p)
      | Inr cb \<Rightarrow>
     (case accept_requests (ft_prefix_txs template) cb of
        Inl e \<Rightarrow> Some (Inl (TE_CoinbaseMessages e), bp_policy p)
      | Inr cb \<Rightarrow>
     (case build_extension (te_btc T) cb of
        Inl e \<Rightarrow> Some (Inl (TE_GenerateSuffixTxouts e), bp_policy p)
      | Inr extension \<Rightarrow>
     (let txouts = ft_coinbase_txouts template @ extension in
      case get_withdrawal_state_after (te_env T) (dry_run_block T tip height txouts (ft_prefix_txs template)) (bp_validator p) of
        Inl e \<Rightarrow> Some (Inl (TE_ConnectBlock e), bp_policy p)
      | Inr (Inl reason) \<Rightarrow> Some (Inl (TE_InitialBlockTemplate reason), bp_policy p)
      | Inr (Inr ws) \<Rightarrow>
      policy_bind (db_suffix_txs T (bp_validator p) (bp_policy p) (ws_ctips ws) (Some (ws_pending_withdrawals ws))) (\<lambda>suffix_txs policy.
          Some (Inr \<lparr>ft_coinbase_txouts = txouts, ft_prefix_txs = ft_prefix_txs template,
            ft_suffix_txs = ft_suffix_txs template @ suffix_txs\<rparr>, policy)))))))"

definition finalize_block_template :: "template_env \<Rightarrow> bool \<Rightarrow> filled_template \<Rightarrow> template_error block_producer \<Rightarrow>
    ((template_error + filled_template) \<times> template_error block_producer) option" where
  "finalize_block_template T coinbase_txn template p =
     map_option (\<lambda>(res, policy). (res, record_gbt_result res (p\<lparr>bp_policy := policy\<rparr>)))
       (block_template_suffix_inner T coinbase_txn p template)"

lemma policy_bind_simps [simp]:
  "policy_bind (Some (Inr x, db)) f = f x db" "policy_bind (Some (Inl e, db)) f = Some (Inl e, db)" "policy_bind None f = None"
  by (simp_all add: policy_bind_def)

lemma policy_bind_Inr: "policy_bind r f = Some (Inr y, db') \<longleftrightarrow> (\<exists>x db. r = Some (Inr x, db) \<and> f x db = Some (Inr y, db'))"
  by (cases r; cases "fst (the r)") (auto simp: policy_bind_def split: prod.splits)

section \<open>The auction is won by the highest bid\<close>

definition winner_of :: "(sidechain_number \<times> bmm_commitment \<times> txid \<times> amount) list \<Rightarrow> sidechain_number \<Rightarrow>
    bmm_commitment \<times> txid \<times> amount \<Rightarrow> bool" where
  "winner_of bids n w \<longleftrightarrow> (\<exists>i<length bids. bids ! i = (n, w) \<and>
     (\<forall>j<length bids. fst (bids ! j) = n \<longrightarrow> snd (snd (snd (bids ! j))) \<le> snd (snd w) \<and>
        (snd (snd (snd (bids ! j))) = snd (snd w) \<longrightarrow> i \<le> j)))"

lemma winner_of_snoc:
  "winner_of bids n w \<Longrightarrow> fst b \<noteq> n \<or> snd (snd (snd b)) \<le> snd (snd w) \<Longrightarrow> winner_of (bids @ [b]) n w"
  unfolding winner_of_def by (elim exE conjE, rule exI, intro conjI) (auto simp: nth_append less_Suc_eq)

lemma winner_of_new:
  assumes "\<forall>b\<in>set bids. fst b = n \<longrightarrow> snd (snd (snd b)) < snd (snd w)"
  shows "winner_of (bids @ [(n, w)]) n w"
  unfolding winner_of_def
proof (rule exI [of _ "length bids"], intro conjI allI impI)
  fix j
  assume j: "j < length (bids @ [(n, w)])" "fst ((bids @ [(n, w)]) ! j) = n"
  show "snd (snd (snd ((bids @ [(n, w)]) ! j))) \<le> snd (snd w)"
    using j assms by (cases "j < length bids") (auto simp: nth_append less_Suc_eq dest!: nth_mem)
  assume "snd (snd (snd ((bids @ [(n, w)]) ! j))) = snd (snd w)"
  with j assms show "length bids \<le> j"
    by (cases "j < length bids") (auto simp: nth_append less_Suc_eq dest!: nth_mem)
qed simp_all

lemma auction_winners:
  "case bmm_auction_winners bids n of None \<Rightarrow> \<forall>b\<in>set bids. fst b \<noteq> n | Some w \<Rightarrow> winner_of bids n w"
proof (induction bids rule: rev_induct)
  case (snoc b bids)
  obtain n' c t f where b: "b = (n', c, t, f)" by (metis surj_pair)
  let ?w = "bmm_auction_winners bids"
  have step: "bmm_auction_winners (bids @ [b]) = place_bid b ?w" by (simp add: bmm_auction_winners_def)
  show ?case
  proof (cases "n' = n")
    case False
    then have "place_bid b ?w n = ?w n" using b by (auto split: option.splits)
    with snoc False b step show ?thesis by (auto split: option.splits intro!: winner_of_snoc)
  next
    case True
    show ?thesis
    proof (cases "?w n")
      case None
      with snoc have "\<forall>x\<in>set bids. fst x = n \<longrightarrow> snd (snd (snd x)) < snd (snd (c, t, f))" by simp
      from winner_of_new [OF this] None True b step show ?thesis by simp
    next
      case (Some w)
      obtain c' t' f' where w: "w = (c', t', f')" by (metis surj_pair)
      with Some snoc have win: "winner_of bids n (c', t', f')" by simp
      show ?thesis
      proof (cases "f > f'")
        case gt: True
        have "\<forall>x\<in>set bids. fst x = n \<longrightarrow> snd (snd (snd x)) < snd (snd (c, t, f))"
          using win gt by (fastforce simp: winner_of_def in_set_conv_nth)
        from winner_of_new [OF this] Some w gt True b step show ?thesis by simp
      next
        case False
        with winner_of_snoc [OF win, of b] Some w True b step show ?thesis by (simp add: not_less)
      qed
    qed
  qed
qed (simp add: bmm_auction_winners_def)

lemma collect_bids_set:
  "collect_bids fee reqs = Inr bids \<Longrightarrow>
   set bids = {(n, c, t, f). (n, c, t) \<in> set reqs \<and> fee t = Inr (Some f)} \<and> (\<forall>(n, c, t)\<in>set reqs. \<exists>f. fee t = Inr f)"
proof (induction fee reqs arbitrary: bids rule: collect_bids.induct)
  case (2 fee n c t reqs)
  then show ?case by (auto split: sum.splits option.splits)
qed simp

lemma lost_bids_winner:
  assumes bids: "collect_bids fee reqs = Inr bids" and t: "(n, c, t) \<in> set reqs" "t \<notin> lost_bids (bmm_auction_winners bids) (set reqs)"
  shows "\<exists>f. fee t = Inr (Some f) \<and> (\<forall>(n', c', t')\<in>set reqs. n' = n \<longrightarrow>
    (\<forall>f'. fee t' = Inr (Some f') \<longrightarrow> f' \<le> f) \<and> (t' \<notin> lost_bids (bmm_auction_winners bids) (set reqs) \<longrightarrow> t' = t))"
proof -
  from t have "Some t = map_option (\<lambda>(_, t, _). t) (bmm_auction_winners bids n)" unfolding lost_bids_def by blast
  then obtain c1 f where w: "bmm_auction_winners bids n = Some (c1, t, f)" by (cases "bmm_auction_winners bids n") auto
  from auction_winners [of bids n] w have win: "winner_of bids n (c1, t, f)" by simp
  then have "(n, c1, t, f) \<in> set bids" by (auto simp: winner_of_def in_set_conv_nth)
  then have f: "fee t = Inr (Some f)" using collect_bids_set [OF bids] by auto
  have "f' \<le> f" if "(n, c', t') \<in> set reqs" "fee t' = Inr (Some f')" for c' t' f'
  proof -
    have "(n, c', t', f') \<in> set bids" using collect_bids_set [OF bids] that by auto
    with win show ?thesis by (fastforce simp: winner_of_def in_set_conv_nth)
  qed
  moreover have "t' = t" if "(n, c', t') \<in> set reqs" "t' \<notin> lost_bids (bmm_auction_winners bids) (set reqs)" for c' t'
    using that w by (auto simp: lost_bids_def)
  ultimately show ?thesis using f by auto
qed

section \<open>Requests are accepted\<close>

definition first_request :: "transaction list \<Rightarrow> sidechain_number \<Rightarrow> bmm_commitment option" where
  "first_request txs n = map_option m8_sidechain_block_hash (find (\<lambda>r. m8_sidechain_number r = n) (List.map_filter parse_m8_tx txs))"

lemma first_request_simps:
  "first_request [] n = None"
  "first_request (tx # txs) n = (case parse_m8_tx tx of
     None \<Rightarrow> first_request txs n
   | Some r \<Rightarrow> if m8_sidechain_number r = n then Some (m8_sidechain_block_hash r) else first_request txs n)"
  by (auto simp: first_request_def List.map_filter_simps split: option.splits)

lemma parse_m8_tx_length: "parse_m8_tx tx = Some r \<Longrightarrow> length (m8_sidechain_block_hash r) = 32"
  by (auto simp: parse_m8_tx_def m8_parse_Inr split: option.splits list.splits sum.splits prod.splits)

lemma bmm_accept_accepts:
  assumes "bmm_accept cb n h = Inr cb'"
  shows "m7_bmm_accepts (cb_messages cb') n' = (if n' = n then Some h else m7_bmm_accepts (cb_messages cb) n')"
  using assms by (auto simp: bmm_accept_def builder_push_def m7_bmm_accepts_def cm_append_def split: sum.splits option.splits)

lemma accept_requests_pushes:
  "accept_requests txs cb = Inr cb' \<Longrightarrow>
   (\<exists>ms. builder_push_all cb ms = Inr cb' \<and> (\<forall>m\<in>set ms. msg_wf m)) \<and>
   (\<forall>n. m7_bmm_accepts (cb_messages cb') n =
      (case m7_bmm_accepts (cb_messages cb) n of Some c \<Rightarrow> Some c | None \<Rightarrow> first_request txs n))"
proof (induction txs cb rule: accept_requests.induct)
  case (1 cb)
  then show ?case by (auto simp: first_request_simps split: option.splits intro: exI [of _ "[]"])
next
  case (2 tx txs cb)
  show ?case
  proof (cases "parse_m8_tx tx")
    case None
    then have e: "first_request (tx # txs) = first_request txs" by (intro ext) (simp add: first_request_simps)
    from 2 None show ?thesis unfolding e by simp
  next
    case (Some r)
    let ?n = "m8_sidechain_number r"
    show ?thesis
    proof (cases "m7_bmm_accepts (cb_messages cb) ?n")
      case (Some c)
      then have "m7_bmm_accept_slot_vout (cb_messages cb) ?n \<noteq> None"
        by (auto simp: m7_bmm_accepts_def m7_bmm_accept_slot_vout_def)
      with 2 \<open>parse_m8_tx tx = Some r\<close> Some show ?thesis by (fastforce simp: first_request_simps split: option.splits)
    next
      case None
      then have slot: "m7_bmm_accept_slot_vout (cb_messages cb) ?n = None"
        by (auto simp: m7_bmm_accepts_def m7_bmm_accept_slot_vout_def)
      with 2(4) Some obtain cb1 where cb1: "bmm_accept cb ?n (m8_sidechain_block_hash r) = Inr cb1" "accept_requests txs cb1 = Inr cb'"
        by (auto split: sum.splits)
      from 2(2) [OF Some slot cb1] obtain ms where
        ms: "builder_push_all cb1 ms = Inr cb'" "\<forall>m\<in>set ms. msg_wf m"
        and acc: "\<And>n. m7_bmm_accepts (cb_messages cb') n =
          (case m7_bmm_accepts (cb_messages cb1) n of Some c \<Rightarrow> Some c | None \<Rightarrow> first_request txs n)" by blast
      have "builder_push_all cb (M7BmmAccept \<lparr>m7_sidechain_number = ?n, m7_sidechain_block_hash = m8_sidechain_block_hash r\<rparr> # ms) = Inr cb'"
        using cb1(1) ms(1) by (simp add: bmm_accept_def)
      moreover have "msg_wf (M7BmmAccept \<lparr>m7_sidechain_number = ?n, m7_sidechain_block_hash = m8_sidechain_block_hash r\<rparr>)"
        using parse_m8_tx_length [OF Some] by simp
      ultimately have "\<exists>ms. builder_push_all cb ms = Inr cb' \<and> (\<forall>m\<in>set ms. msg_wf m)"
        using ms(2) by (metis set_ConsD)
      moreover have "m7_bmm_accepts (cb_messages cb') n =
          (case m7_bmm_accepts (cb_messages cb) n of Some c \<Rightarrow> Some c | None \<Rightarrow> first_request (tx # txs) n)" for n
        unfolding acc bmm_accept_accepts [OF cb1(1)] using None Some by (auto simp: first_request_simps split: option.splits)
      ultimately show ?thesis by blast
    qed
  qed
qed


section \<open>The life of a payout\<close>

datatype producer_request =
    PConnect block
  | PDisconnect blockhash
  | PAccept transaction
  | PPolicy policy_request

definition producer_step :: "handler_env \<Rightarrow> producer_request \<Rightarrow> 'e block_producer \<Rightarrow> 'e block_producer" where
  "producer_step E q p = (case q of
     PConnect block \<Rightarrow> (case producer_connect_block E block p of Inr (_, _, p') \<Rightarrow> p' | Inl _ \<Rightarrow> p)
   | PDisconnect h \<Rightarrow> (case producer_disconnect_block E h p of Inr (_, _, p') \<Rightarrow> p' | Inl _ \<Rightarrow> p)
   | PAccept tx \<Rightarrow> (case producer_accept_tx E tx p of Inr (_, p') \<Rightarrow> p' | Inl _ \<Rightarrow> p)
   | PPolicy r \<Rightarrow> p\<lparr>bp_policy := policy_step (he_btc E) (bh_params (he_handler E)) (bp_validator p, r) (bp_policy p)\<rparr>)"

text \<open>The request is not about the transaction: it neither connects a block with it nor offers it again.\<close>

definition leaves_tx :: "handler_env \<Rightarrow> txid \<Rightarrow> producer_request \<Rightarrow> bool" where
  "leaves_tx E t q = (case q of
     PConnect block \<Rightarrow> t \<notin> b_compute_txid (he_btc E) ` set (blk_txdata block)
   | PAccept tx \<Rightarrow> b_compute_txid (he_btc E) tx \<noteq> t
   | _ \<Rightarrow> True)"

lemma fold_forget:
  "fold (\<lambda>tx payouts. payouts(b_compute_txid B tx := None)) txs payouts t =
     (if t \<in> b_compute_txid B ` set txs then None else payouts t)"
  by (induction txs arbitrary: payouts) auto

lemma step_keeps_payout:
  assumes "leaves_tx E t q"
  shows "bp_mempool_payouts (producer_step E q p) t = bp_mempool_payouts p t"
proof (cases q)
  case (PConnect block)
  with assms show ?thesis
    by (auto simp: producer_step_def leaves_tx_def producer_connect_block_def forget_mempool_payouts_def fold_forget Let_def
        split: sum.splits prod.splits connect_block_action.splits)
next
  case (PDisconnect h)
  then show ?thesis by (auto simp: producer_step_def producer_disconnect_block_def split: sum.splits)
next
  case (PAccept tx)
  with assms show ?thesis
    by (auto simp: producer_step_def leaves_tx_def producer_accept_tx_def Let_def split: sum.splits option.splits)
qed (simp add: producer_step_def)

lemma run_keeps_payout:
  "\<forall>q\<in>set qs. leaves_tx E t q \<Longrightarrow> bp_mempool_payouts (fold (producer_step E) qs p) t = bp_mempool_payouts p t"
  by (induction qs arbitrary: p) (simp_all add: step_keeps_payout)

lemma initial_template_parts:
  assumes "initial_block_template T coinbase_txn parent template p = Some (Inr template', p')"
  obtains tip txouts policy hi ws bids where "current_chain_tip (bp_validator p) = Some tip"
    "get_header_info (te_btc T) (block_hashes (bp_validator p)) tip = Inr hi"
    "extend_coinbase T (bp_validator p) (bp_policy p) tip (it_coinbase_txouts template) = Some (Inr txouts, policy)"
    "get_withdrawal_state_after (te_env T) (dry_run_block T tip (hi_height hi + 1) txouts []) (bp_validator p) = Inr (Inr ws)"
    "collect_bids (te_bid_fee T) (te_bid_order T (seen_requests (block_hashes (bp_validator p)) parent)) = Inr bids"
    "it_coinbase_txouts template' = txouts"
    "it_exclude_mempool_txs template' = it_exclude_mempool_txs template \<union>
       unpayable_mempool_payouts (np_thresholds (te_params T)) (bp_mempool_payouts p) (ws_pending_withdrawals ws) \<union>
       lost_bids (bmm_auction_winners bids) (seen_requests (block_hashes (bp_validator p)) parent)"
proof -
  from assms obtain policy2 where inner: "initial_block_template_inner T coinbase_txn parent p template = Some (Inr template', policy2)"
    unfolding initial_block_template_def by auto
  then have coinbase_txn by (cases coinbase_txn) (simp_all add: initial_block_template_inner_def)
  with inner obtain tip where tip: "current_chain_tip (bp_validator p) = Some tip"
    by (cases "current_chain_tip (bp_validator p)") (simp_all add: initial_block_template_inner_def)
  note start = inner [unfolded initial_block_template_inner_def tip option.case, simplified \<open>coinbase_txn\<close>, simplified, unfolded policy_bind_Inr]
  then obtain txouts policy where
    ext: "extend_coinbase T (bp_validator p) (bp_policy p) tip (it_coinbase_txouts template) = Some (Inr txouts, policy)"
    by auto
  with start obtain hi where hi: "get_header_info (te_btc T) (block_hashes (bp_validator p)) tip = Inr hi"
    by (auto split: sum.splits)
  with start ext obtain ws where
    ws: "get_withdrawal_state_after (te_env T) (dry_run_block T tip (hi_height hi + 1) txouts []) (bp_validator p) = Inr (Inr ws)"
    by (auto split: sum.splits)
  with start ext hi obtain bids where
    bids: "collect_bids (te_bid_fee T) (te_bid_order T (seen_requests (block_hashes (bp_validator p)) parent)) = Inr bids"
    by (auto simp: Let_def split: sum.splits)
  from start ext hi ws bids have "it_coinbase_txouts template' = txouts"
    "it_exclude_mempool_txs template' = it_exclude_mempool_txs template \<union>
       unpayable_mempool_payouts (np_thresholds (te_params T)) (bp_mempool_payouts p) (ws_pending_withdrawals ws) \<union>
       lost_bids (bmm_auction_winners bids) (seen_requests (block_hashes (bp_validator p)) parent)"
    by (auto simp: Let_def policy_bind_Inr)
  with that tip hi ext ws bids show ?thesis by blast
qed

section \<open>Properties\<close>

text \<open>C7: a template settles the auction of every slot. Of the requests seen for the parent block at most
  one per slot is left in, one that is in the node's mempool and whose fee no other request for the slot
  exceeds; all others are excluded. (A hash map is iterated over all its entries.)\<close>

theorem template_settles_auction:
  assumes "initial_block_template T coinbase_txn parent template p = Some (Inr template', p')"
    and "requests = seen_requests (block_hashes (bp_validator p)) parent" "set (te_bid_order T requests) = requests"
    and "(n, c, t) \<in> requests" "t \<notin> it_exclude_mempool_txs template'"
  shows "\<exists>f. te_bid_fee T t = Inr (Some f) \<and> (\<forall>(n', c', t')\<in>requests. n' = n \<longrightarrow>
    (\<forall>f'. te_bid_fee T t' = Inr (Some f') \<longrightarrow> f' \<le> f) \<and> (t' \<notin> it_exclude_mempool_txs template' \<longrightarrow> t' = t))"
proof (cases rule: initial_template_parts [OF assms(1)])
  case (1 tip txouts policy hi ws bids)
  then have bids: "collect_bids (te_bid_fee T) (te_bid_order T requests) = Inr bids"
    and ex: "lost_bids (bmm_auction_winners bids) requests \<subseteq> it_exclude_mempool_txs template'" using assms(2) by auto
  have t: "(n, c, t) \<in> set (te_bid_order T requests)" "t \<notin> lost_bids (bmm_auction_winners bids) (set (te_bid_order T requests))"
    using assms(3-5) ex by auto
  from lost_bids_winner [OF bids t] show ?thesis unfolding assms(3) using ex by fast
qed

text \<open>C6: a payout in the mempool enters a block only while it is payable. Once an M6 was accepted, and
  whatever blocks, reorganisations, transactions and policy changes follow that do not concern it, a
  template leaves it in only if its bundle is pending after the coinbase of this very template, with more votes than the
  inclusion threshold.\<close>

theorem mempool_payout_guarded:
  assumes acc: "accept_tx_with_payout E tx (bp_validator p) = Inr ((action, Some (n, m)), db)"
      "producer_accept_tx E tx p = Inr (action, p1)"
    and run: "p2 = fold (producer_step E) qs p1" "\<forall>q\<in>set qs. leaves_tx E (b_compute_txid (he_btc E) tx) q"
    and tmpl: "te_env T = E" "initial_block_template T coinbase_txn parent template p2 = Some (Inr template', p3)"
    and left: "b_compute_txid (he_btc E) tx \<notin> it_exclude_mempool_txs template'"
  shows "\<exists>tip hi ws pending info. current_chain_tip (bp_validator p2) = Some tip \<and>
    get_header_info (he_btc E) (block_hashes (bp_validator p2)) tip = Inr hi \<and>
    get_withdrawal_state_after E (dry_run_block T tip (hi_height hi + 1) (it_coinbase_txouts template') []) (bp_validator p2) = Inr (Inr ws) \<and>
    ws_pending_withdrawals ws n = Some pending \<and> map_of pending m = Some info \<and>
    pi_vote_count info > withdrawal_bundle_inclusion_threshold (np_thresholds (bh_params (he_handler E)))"
proof -
  let ?t = "b_compute_txid (he_btc E) tx"
  have "bp_mempool_payouts p1 ?t = Some (n, m)" using acc by (auto simp: producer_accept_tx_def Let_def)
  then have pay: "bp_mempool_payouts p2 ?t = Some (n, m)" using run_keeps_payout [OF run(2), of p1] run(1) by simp
  show ?thesis
  proof (cases rule: initial_template_parts [OF tmpl(2)])
    case (1 tip txouts policy hi ws bids)
    then have "?t \<notin> unpayable_mempool_payouts (np_thresholds (te_params T)) (bp_mempool_payouts p2) (ws_pending_withdrawals ws)"
      using left by blast
    then obtain pending info where "ws_pending_withdrawals ws n = Some pending" "map_of pending m = Some info"
      "pi_vote_count info > withdrawal_bundle_inclusion_threshold (np_thresholds (bh_params (he_handler E)))"
      using pay tmpl(1) by (auto simp: unpayable_mempool_payouts_def not_le bind_eq_Some_conv split: option.splits)
    with 1 tmpl(1) show ?thesis by blast
  qed
qed

text \<open>The coinbase of a finished template accepts the BMM requests of the template: it parses, with the
  messages it had before, and accepts for every slot what it accepted before, or else the first request
  of the prefix for the slot.\<close>

theorem template_accepts_requests:
  assumes codec: "script_codec (b_instructions (te_btc T)) (b_new_op_return (te_btc T))"
    and "finalize_block_template T True template p = Some (Inr template', p')"
  shows "\<exists>cm cm'. coinbase_messages_new (te_btc T) (ft_coinbase_txouts template) = Inr cm \<and>
    coinbase_messages_new (te_btc T) (ft_coinbase_txouts template') = Inr cm' \<and>
    prefix (cm_messages cm) (cm_messages cm') \<and> ft_prefix_txs template' = ft_prefix_txs template \<and>
    (\<forall>n. m7_bmm_accepts cm' n =
      (case m7_bmm_accepts cm n of Some c \<Rightarrow> Some c | None \<Rightarrow> first_request (ft_prefix_txs template) n))"
proof -
  from assms(2) obtain policy where inner: "block_template_suffix_inner T True p template = Some (Inr template', policy)"
    unfolding finalize_block_template_def by auto
  then obtain cb cb' ext where cb: "coinbase_builder_new (te_btc T) (ft_coinbase_txouts template) = Inr cb"
    "accept_requests (ft_prefix_txs template) cb = Inr cb'" "build_extension (te_btc T) cb' = Inr ext"
    "ft_coinbase_txouts template' = ft_coinbase_txouts template @ ext" "ft_prefix_txs template' = ft_prefix_txs template"
    by (auto simp: block_template_suffix_inner_def Let_def policy_bind_Inr split: sum.splits option.splits)
  from accept_requests_pushes [OF cb(2)] obtain ms where ms: "builder_push_all cb ms = Inr cb'" "\<forall>m\<in>set ms. msg_wf m"
    and acc: "\<And>n. m7_bmm_accepts (cb_messages cb') n =
      (case m7_bmm_accepts (cb_messages cb) n of Some c \<Rightarrow> Some c | None \<Rightarrow> first_request (ft_prefix_txs template) n)" by blast
  have new: "coinbase_messages_new (te_btc T) (ft_coinbase_txouts template) = Inr (cb_messages cb)"
    and outs: "cb_coinbase_txouts cb = ft_coinbase_txouts template"
    using cb(1) by (auto simp: coinbase_builder_new_def split: sum.splits)
  have keep: "cb_coinbase_txouts cb' = cb_coinbase_txouts cb \<and> prefix (cm_messages (cb_messages cb)) (cm_messages (cb_messages cb'))"
    using ms(1)
  proof (induction ms arbitrary: cb)
    case (Cons m ms)
    then obtain cb1 where p: "builder_push cb m = Inr cb1" "builder_push_all cb1 ms = Inr cb'" by (auto split: sum.splits)
    then have "cb_coinbase_txouts cb1 = cb_coinbase_txouts cb" "prefix (cm_messages (cb_messages cb)) (cm_messages (cb_messages cb1))"
      by (auto simp: builder_push_def push_Inr(1) split: sum.splits)
    with Cons.IH [OF p(2)] show ?case by (auto intro: prefix_order.trans)
  qed simp
  have "build (te_btc T) cb' = Inr (ft_coinbase_txouts template')" using cb(3,4) keep outs by (simp add: build_def)
  from built_coinbase_roundtrip [OF codec cb(1) ms this] new acc keep cb(5) show ?thesis by blast
qed


section \<open>A template\<close>

text \<open>A chain of two blocks below the activation height, with a treasury whose bundle is approved, two requests for
  slot 7, and a node that knows the fees of both.\<close>

definition template_handler :: block_handler where
  "template_handler = sample_handler\<lparr>bh_params := (bh_params sample_handler)\<lparr>bip300_activation_height := 1000\<rparr>\<rparr>"

definition template_validator :: dbs where
  "template_validator = fork_dbs\<lparr>active_sidechains := sample_treasury, block_hashes := fork_tables\<lparr>
     seen_bmm_request_txs := (\<lambda>(parent, n). if parent = pad32 [2] \<and> n = 7
       then {(pad32 [21], replicate 32 1), (pad32 [22], replicate 32 2)} else {})\<rparr>\<rparr>"

definition sample_template_env :: template_env where
  "sample_template_env = \<lparr>te_env = \<lparr>he_btc = sample_btc, he_srt = sort_by_votes, he_ord = id, he_handler = template_handler\<rparr>,
     te_height_script = (\<lambda>_. []), te_merkle_root = (\<lambda>_. []), te_weight = (\<lambda>_. 0), te_now = 0,
     te_bid_fee = (\<lambda>t. Inr (if t = pad32 [21] then Some 5 else if t = pad32 [22] then Some 9 else None)),
     te_bid_order = (\<lambda>_. [(7, replicate 32 1, pad32 [21]), (7, replicate 32 2, pad32 [22])]),
     te_slot_order = id, te_sidechains = (\<lambda>_. [])\<rparr>"

definition sample_producer :: "template_error block_producer" where
  "sample_producer = \<lparr>bp_validator = template_validator, bp_policy = policy_db_new\<lparr>pd_policy_tip := Some (pad32 [2])\<rparr>,
     bp_mempool_payouts = Map.empty, bp_last_gbt_error = None\<rparr>"

definition empty_template :: initial_template where
  "empty_template = \<lparr>it_coinbase_txouts = [], it_exclude_mempool_txs = {}, it_suffix_weights = []\<rparr>"

lemma sample_template_env_simps [simp]:
  "te_env sample_template_env = \<lparr>he_btc = sample_btc, he_srt = sort_by_votes, he_ord = id, he_handler = template_handler\<rparr>"
  "bip300_activation_height (bh_params template_handler) = 1000" "np_thresholds (bh_params template_handler) = SHORT"
  "np_op_drivechain (bh_params template_handler) = NOP5" "bh_thresholds template_handler = SHORT"
  by (simp_all add: sample_template_env_def template_handler_def sample_handler_def network_params_new_def Let_def for_network.simps)

lemma template_validator_simps [simp]:
  "current_chain_tip template_validator = Some (pad32 [2])" "active_sidechains template_validator = sample_treasury"
  "header_db (block_hashes template_validator) = header_db fork_tables"
  "height_db (block_hashes template_validator) = height_db fork_tables"
  "try_get_block_info (block_hashes template_validator) = try_get_block_info fork_tables"
proof -
  show "try_get_block_info (block_hashes template_validator) = try_get_block_info fork_tables"
    by (rule ext) (simp add: template_validator_def try_get_block_info_def cong: option.case_cong)
qed (simp_all add: template_validator_def fork_dbs_def)

lemma template_ready: "validator_ready sample_btc params template_validator (pad32 [2]) 1"
proof -
  have "headers_wf sample_btc (block_hashes template_validator)"
    using fork_wf headers_wf_cong [of "block_hashes template_validator" fork_tables] by simp
  moreover have "connected_below (block_hashes template_validator) h" for h
    by (simp add: connected_below_def, simp add: try_get_block_info_def fork_tables_def)
  ultimately show ?thesis using fork_quiet by (simp add: validator_ready_def fork_headers quiet_below_def)
qed

lemma reconcile_at_tip:
  assumes "validator_ready B params v tip k" "pd_policy_tip pdb = Some tip"
  shows "reconcile B params v pdb = Some (Inr (Some k, pdb))"
proof -
  note v = validator_readyD [OF assms(1)]
  from chain_diff_total [OF v(1-6), of params "pd_policy_tip pdb"] assms(2) show ?thesis by (auto simp: reconcile_def)
qed

lemma template_suffix:
  assumes "pd_policy_tip pdb = Some (pad32 [2])" "pd_bundles pdb = []" "uc_is_empty (ctips_unconsolidated ctips)"
  shows "db_suffix_txs sample_template_env template_validator pdb ctips pending = Some (Inr [], pdb)"
proof -
  have "stored_bundle_proposals sample_btc (bh_params template_handler) template_validator pdb = Some (Inr ([], pdb))"
    using reconcile_at_tip [OF template_ready assms(1)] assms(2) by (simp add: stored_bundle_proposals_def reconciled_def)
  moreover have "\<exists>active. get_active_sidechains template_validator = Inr active"
    by (auto simp: get_active_sidechains_def Let_def list_ex_iff numbers_def sample_treasury_def sample_sidechain_def split: if_splits)
  ultimately show ?thesis using assms(3)
    by (auto simp: db_suffix_txs_def policy_read_def generate_suffix_txs_def suffix_txs_for_proposals_def split: option.splits)
qed

lemma template_dry_run:
  "get_withdrawal_state_after (te_env sample_template_env) (dry_run_block sample_template_env (pad32 [2]) 2 outs txs) template_validator =
     Inr (Inr \<lparr>ws_ctips = \<lparr>ctips_consolidated = ctip_db sample_treasury, ctips_unconsolidated = uc_default\<rparr>,
       ws_pending_withdrawals = pending_m6ids_db sample_treasury\<rparr>)"
proof -
  let ?b = "dry_run_block sample_template_env (pad32 [2]) 2 outs txs"
  have h: "hdr_prev_blockhash (blk_header ?b) = pad32 [2]" "hdr_nonce (blk_header ?b) = 0"
    "\<exists>cb. blk_txdata ?b = cb # txs" by (simp_all add: dry_run_block_def Let_def)
  let ?db = "template_validator\<lparr>block_hashes := put_headers sample_btc (block_hashes template_validator) [(blk_header ?b, 2)]\<rparr>"
  have "header_db fork_tables (pad32 [0]) = None" "height_db fork_tables (pad32 [2]) = Some 1" by (simp_all add: fork_headers)
  then have db: "store_header sample_btc ?b template_validator = Inr ?db" "height_db (block_hashes ?db) (pad32 [0]) = Some 2"
    using pad32_nonzero [of 2] by (simp_all add: store_header_def Let_def h contains_header_def put_header_def)
  from h(3) obtain cb where cb: "blk_txdata ?b = cb # txs" ..
  have "partial_connect_block sample_btc sort_by_votes id template_handler ?b ?db =
      Inr (\<lparr>pc_header_info = \<lparr>hi_block_hash = pad32 [0], hi_prev_block_hash = pad32 [2], hi_height = 2, hi_work = b_work sample_btc (blk_header ?b),
        hi_timestamp = hdr_time (blk_header ?b)\<rparr>, pc_block_info = fst (empty_block_info_and_diff (b_compute_txid sample_btc cb)),
        pc_diff = snd (empty_block_info_and_diff (b_compute_txid sample_btc cb)), pc_unconsolidated_ctips = uc_default\<rparr>, ?db)"
    using db cb by (simp add: partial_connect_block_def Let_def h ensure_tip_is_parent_def case_prod_unfold)
  with db show ?thesis by (simp add: get_withdrawal_state_after_def partial_connect_block_dry_run_def)
qed


lemma template_requests:
  "seen_requests (block_hashes template_validator) (pad32 [2]) =
     {(7, replicate 32 1, pad32 [21]), (7, replicate 32 2, pad32 [22])}"
  by (auto simp: seen_requests_def get_seen_bmm_requests_for_parent_block_def template_validator_def split: if_splits)

lemma template_header: "\<exists>hi. get_header_info sample_btc (block_hashes template_validator) (pad32 [2]) = Inr hi \<and> hi_height hi = 1"
  by (simp add: get_header_info_def try_get_header_info_def fork_headers fork_header_def)

lemma sample_template_built:
  assumes "bp_validator p = template_validator" "bp_policy p = policy_db_new\<lparr>pd_policy_tip := Some (pad32 [2])\<rparr>"
  shows "\<exists>p' template'. initial_block_template sample_template_env True (pad32 [2]) empty_template p = Some (Inr template', p') \<and>
    it_exclude_mempool_txs template' =
      unpayable_mempool_payouts SHORT (bp_mempool_payouts p) (pending_m6ids_db sample_treasury) \<union> {pad32 [21]}"
proof -
  obtain hi where hi: "get_header_info sample_btc (block_hashes template_validator) (pad32 [2]) = Inr hi" "hi_height hi = 1"
    using template_header by blast
  let ?bids = "[(7, replicate 32 1, pad32 [21], 5), (7, replicate 32 2, pad32 [22], 9)]"
  have bids: "collect_bids (te_bid_fee sample_template_env) (te_bid_order sample_template_env R) = Inr ?bids" for R
    by (simp add: sample_template_env_def)
  have lost: "lost_bids (bmm_auction_winners ?bids) (seen_requests (block_hashes template_validator) (pad32 [2])) = {pad32 [21]}"
    by (auto simp: lost_bids_def template_requests bmm_auction_winners_def)
  have ext: "extend_coinbase sample_template_env template_validator db (pad32 [2]) outs = Some (Inr outs, db)" for db outs
    using hi by (simp add: extend_coinbase_def Let_def)
  have suffix: "db_suffix_txs sample_template_env template_validator (bp_policy p) fake_ctips None = Some (Inr [], bp_policy p)"
    by (rule template_suffix) (simp_all add: assms policy_db_new_def fake_ctips_def uc_default_def uc_is_empty_def)
  have "initial_block_template_inner sample_template_env True (pad32 [2]) p empty_template =
    Some (Inr \<lparr>it_coinbase_txouts = [], it_exclude_mempool_txs =
      unpayable_mempool_payouts SHORT (bp_mempool_payouts p) (pending_m6ids_db sample_treasury) \<union> {pad32 [21]}, it_suffix_weights = []\<rparr>, bp_policy p)"
    using hi template_dry_run [of "[]" "[]"]
    by (simp add: initial_block_template_inner_def assms(1) ext bids lost suffix empty_template_def Let_def)
  then show ?thesis by (simp add: initial_block_template_def)
qed


lemma template_m6_handled:
  "handle_m5_m6 sample_btc id (template_handler\<lparr>require_payable_bundles := False\<rparr>) template_validator uc_default sample_m6 =
     Inr (Some (M6Withdrawal 4 (pad32 [9]) 1 sample_m6_diff), uc_default)"
proof -
  let ?bh = "template_handler\<lparr>require_payable_bundles := False\<rparr>"
  have fill: "fill_ctips sample_btc ?bh template_validator uc_default sample_m6 =
      fill_ctips sample_btc sample_handler template_validator uc_default sample_m6" by (simp add: fill_ctips_def)
  have "handle_m6 sample_btc ?bh template_validator sample_m6 100 =
      Inr (pad32 [9], 4, 0, \<lparr>pi_vote_count = 200, pi_proposal_height = 8\<rparr>)"
    by (simp add: handle_m6_def sample_m6_id sample_treasury_def)
  moreover have "treasury_in \<lparr>consolidated_ctip_input = Some sample_ctip,
      unconsolidated_ctip_inputs = [], ctip_output = c\<rparr> = Some 100" for c
    by (simp add: treasury_in_def checked_add_def sample_ctip_def)
  moreover have "utxo_count sample_treasury 4 = 1" by (simp add: sample_treasury_def)
  moreover have "first_unexpected {ctip_outpoint sample_ctip} (tx_input sample_m6) = None"
    by (simp add: sample_m6_def default_txin_def sample_ctip_def)
  ultimately show ?thesis
    by (simp add: handle_m5_m6_def fill sample_m6_fill classify_def m6_arm_def Let_def
        sample_m6_diff_def update_unconsolidated_def consolidates_def)
qed

lemma template_m6_accepted:
  "\<exists>action. accept_tx_with_payout (te_env sample_template_env) sample_m6 template_validator =
     Inr ((action, Some (4, pad32 [9])), template_validator)"
proof -
  have m8: "parse_m8_tx sample_m6 = None"
    by (simp add: parse_m8_tx_def sample_m6_def drivechain_script_def NOP5_def m8_parse_def p_tag_def)
  from sample_apply_m6 obtain a where a: "apply_m6 sample_m6_diff sample_treasury = Inr a" by blast
  have seen: "seen_ctip_inputs template_validator inputs = uc_default" for inputs
    by (induction inputs) (simp_all add: seen_ctip_inputs_def template_validator_def fork_dbs_def dbs_empty_def)
  have "validate_tx sample_btc id template_handler template_validator sample_m6 = Inr (VPayout 4 (pad32 [9]))"
    using a by (simp add: validate_tx_def fork_headers seen handle_transaction_def template_m6_handled handle_m8_def m8 tx_result_def)
  then show ?thesis
    by (simp add: accept_tx_with_payout_def note_bmm_request_def m8 note_unconsolidated_def uc_default_def Let_def)
qed

theorem template_settles_auction_witness:
  "\<exists>template' p'. initial_block_template sample_template_env True (pad32 [2]) empty_template sample_producer = Some (Inr template', p') \<and>
     pad32 [22] \<notin> it_exclude_mempool_txs template' \<and> te_bid_fee sample_template_env (pad32 [22]) = Inr (Some 9)"
proof -
  obtain template' p' where t: "initial_block_template sample_template_env True (pad32 [2]) empty_template sample_producer = Some (Inr template', p')"
    and ex: "it_exclude_mempool_txs template' =
      unpayable_mempool_payouts SHORT (bp_mempool_payouts sample_producer) (pending_m6ids_db sample_treasury) \<union> {pad32 [21]}"
    using sample_template_built [of sample_producer] by (auto simp: sample_producer_def)
  have left: "pad32 [22] \<notin> it_exclude_mempool_txs template'"
    by (simp add: ex unpayable_mempool_payouts_def sample_producer_def)
  have seen: "seen_requests (block_hashes (bp_validator sample_producer)) (pad32 [2]) =
      {(7, replicate 32 1, pad32 [21]), (7, replicate 32 2, pad32 [22])}"
    using template_requests by (simp add: sample_producer_def)
  have "\<exists>f. te_bid_fee sample_template_env (pad32 [22]) = Inr (Some f)"
    using template_settles_auction [OF t refl, of 7 "replicate 32 2" "pad32 [22]"] left unfolding seen
    by (auto simp: sample_template_env_def)
  then show ?thesis using t left by (auto simp: sample_template_env_def)
qed

theorem mempool_payout_guarded_witness:
  "\<exists>action p1 template' p3. producer_accept_tx (te_env sample_template_env) sample_m6 sample_producer = Inr (action, p1) \<and>
     initial_block_template sample_template_env True (pad32 [2]) empty_template p1 = Some (Inr template', p3) \<and>
     pad32 [9] \<notin> it_exclude_mempool_txs template' \<and>
     (\<exists>info. map_of (the (pending_m6ids_db sample_treasury 4)) (pad32 [9]) = Some info \<and>
       pi_vote_count info > withdrawal_bundle_inclusion_threshold SHORT)"
proof -
  obtain action where acc: "accept_tx_with_payout (te_env sample_template_env) sample_m6 (bp_validator sample_producer) =
      Inr ((action, Some (4, pad32 [9])), template_validator)"
    using template_m6_accepted by (auto simp: sample_producer_def)
  let ?p1 = "sample_producer\<lparr>bp_mempool_payouts := [pad32 [9] \<mapsto> (4, pad32 [9])]\<rparr>"
  have id: "b_compute_txid sample_btc sample_m6 = pad32 [9]" by (simp add: sample_m6_def)
  have p1: "producer_accept_tx (te_env sample_template_env) sample_m6 sample_producer = Inr (action, ?p1)"
    using acc id by (simp add: producer_accept_tx_def Let_def, simp add: sample_producer_def)
  obtain template' p3 where t: "initial_block_template sample_template_env True (pad32 [2]) empty_template ?p1 = Some (Inr template', p3)"
    and ex: "it_exclude_mempool_txs template' =
      unpayable_mempool_payouts SHORT [pad32 [9] \<mapsto> (4, pad32 [9])] (pending_m6ids_db sample_treasury) \<union> {pad32 [21]}"
    using sample_template_built [of ?p1] by (auto simp: sample_producer_def)
  have left: "pad32 [9] \<notin> it_exclude_mempool_txs template'"
    by (simp add: ex unpayable_mempool_payouts_def sample_treasury_def SHORT_def)
  from mempool_payout_guarded [OF acc p1, of ?p1 "[]" sample_template_env True "pad32 [2]" empty_template template' p3] t left id
  obtain tip hi ws pending info where
    ws: "current_chain_tip template_validator = Some tip" "get_header_info sample_btc (block_hashes template_validator) tip = Inr hi"
      "get_withdrawal_state_after (te_env sample_template_env) (dry_run_block sample_template_env tip (hi_height hi + 1) (it_coinbase_txouts template') [])
         template_validator = Inr (Inr ws)"
      "ws_pending_withdrawals ws 4 = Some pending" "map_of pending (pad32 [9]) = Some info"
      "pi_vote_count info > withdrawal_bundle_inclusion_threshold SHORT" by (auto simp: sample_producer_def)
  moreover have "hi_height hi + 1 = 2" "tip = pad32 [2]" using template_header ws(1,2) by auto
  ultimately have "pending_m6ids_db sample_treasury 4 = Some pending" using template_dry_run by auto
  with ws p1 t left show ?thesis by auto
qed

definition sample_filled :: filled_template where
  "sample_filled = \<lparr>ft_coinbase_txouts = [], ft_prefix_txs = [sample_m8_tx], ft_suffix_txs = []\<rparr>"

theorem template_accepts_requests_witness:
  "\<exists>template' p' cm'. finalize_block_template sample_template_env True sample_filled sample_producer = Some (Inr template', p') \<and>
     coinbase_messages_new sample_btc (ft_coinbase_txouts template') = Inr cm' \<and> m7_bmm_accepts cm' 7 = Some (replicate 32 1)"
proof -
  obtain hi where hi: "get_header_info sample_btc (block_hashes template_validator) (pad32 [2]) = Inr hi" "hi_height hi = 1"
    using template_header by blast
  let ?cb = "\<lparr>cb_coinbase_txouts = [], cb_messages = coinbase_messages_default\<rparr>"
  let ?m7 = "\<lparr>m7_sidechain_number = 7, m7_sidechain_block_hash = replicate 32 1\<rparr>"
  have new: "coinbase_builder_new sample_btc [] = Inr ?cb"
    by (simp add: coinbase_builder_new_def coinbase_messages_new_def)
  obtain cb where cb: "accept_requests [sample_m8_tx] ?cb = Inr cb" "cm_messages (cb_messages cb) = [(M7BmmAccept ?m7, 0)]"
      "cb_coinbase_txouts cb = []"
    by (simp add: sample_m8_parse m7_bmm_accept_slot_vout_def bmm_accept_def builder_push_def next_vout_index_def
        coinbase_messages_default_def cm_append_def)
  obtain ext where ext: "build_extension sample_btc cb = Inr ext"
    using cb(2,3) by (auto simp: build_extension_def m7_to_script_def op_return_of_def push_bytes_try_from_def m7_message_def M7_TAG_def)
  have suffix: "db_suffix_txs sample_template_env template_validator (policy_db_new\<lparr>pd_policy_tip := Some (pad32 [2])\<rparr>)
      \<lparr>ctips_consolidated = c, ctips_unconsolidated = uc_default\<rparr> pending = Some (Inr [], policy_db_new\<lparr>pd_policy_tip := Some (pad32 [2])\<rparr>)"
    for c pending by (rule template_suffix) (simp_all add: policy_db_new_def uc_default_def uc_is_empty_def)
  obtain template' p' where t: "finalize_block_template sample_template_env True sample_filled sample_producer = Some (Inr template', p')"
    using hi new cb(1) ext suffix template_dry_run [of ext "[sample_m8_tx]"]
    by (simp add: finalize_block_template_def block_template_suffix_inner_def sample_filled_def sample_producer_def Let_def)
  have first: "first_request [sample_m8_tx] 7 = Some (replicate 32 1)" by (simp add: first_request_simps sample_m8_parse)
  have none: "coinbase_messages_new sample_btc [] = Inr coinbase_messages_default" "m7_bmm_accepts coinbase_messages_default n = None" for n
    by (simp_all add: coinbase_messages_new_def m7_bmm_accepts_def coinbase_messages_default_def)
  from template_accepts_requests [OF _ t] sample_codec t none first show ?thesis by (auto simp: sample_filled_def)
qed

end
