(* ===== verification/Grind.thy ===== *)
theory Grind
  imports Bitcoin
begin

text \<open>
  Grinding the proof-of-work of a header (\<open>grind\<close> of \<open>mining.rs\<close>): threads that try the nonces of
  one residue class each, and share a flag and the nonce that was found. The threads are interleaved step by step:
  a test of the flag before every batch of 4096 candidates, a candidate, the swap of the flag, and the
  store of the nonce are one step each. The hash of the \<open>bitcoin\<close> crate and its comparison with the
  target are parameters.
\<close>

section \<open>Threads\<close>

datatype thread = Running u32 nat | Storing u32 | Returned

record grind_state =
  g_found :: bool
  g_nonce :: u64
  g_threads :: "thread list"

record pow =
  pow_tail :: bytes
  pow_target :: bytes
  pow_hash :: "bytes \<Rightarrow> bytes"
  pow_is_met_by :: "bytes \<Rightarrow> bool"

definition U64_MAX :: u64 where "U64_MAX = 0xFFFFFFFFFFFFFFFF"

definition candidate_hash :: "pow \<Rightarrow> u32 \<Rightarrow> bytes" where
  "candidate_hash p candidate = pow_hash p (take 12 (pow_tail p) @ le_bytes_of 4 (unat candidate))"

definition candidate_meets :: "pow \<Rightarrow> u32 \<Rightarrow> bool" where
  "candidate_meets p candidate =
     (candidate_hash p candidate ! 31 \<le> pow_target p ! 31 \<and> pow_is_met_by p (candidate_hash p candidate))"

text \<open>A thread at the start of a batch has no candidates left in it (\<open>Running c 0\<close>).\<close>

fun thread_step :: "pow \<Rightarrow> u32 \<Rightarrow> bool \<times> u64 \<Rightarrow> thread \<Rightarrow> (bool \<times> u64) \<times> thread" where
  "thread_step p threads (found, nonce) (Running candidate 0) =
     ((found, nonce), if found then Returned else Running candidate 4096)"
| "thread_step p threads (found, nonce) (Running candidate (Suc k)) =
     (if candidate_meets p candidate
      then (if found then ((True, nonce), Returned) else ((True, nonce), Storing candidate))
      else ((found, nonce), case checked_add candidate threads of None \<Rightarrow> Returned | Some c \<Rightarrow> Running c k))"
| "thread_step p threads (found, nonce) (Storing candidate) = ((found, ucast candidate), Returned)"
| "thread_step p threads (found, nonce) Returned = ((found, nonce), Returned)"

inductive grind_step :: "pow \<Rightarrow> u32 \<Rightarrow> grind_state \<Rightarrow> grind_state \<Rightarrow> bool" for p threads where
  step: "i < length (g_threads st) \<Longrightarrow> g_threads st ! i \<noteq> Returned \<Longrightarrow>
    thread_step p threads (g_found st, g_nonce st) (g_threads st ! i) = ((found, nonce), t) \<Longrightarrow>
    grind_step p threads st \<lparr>g_found = found, g_nonce = nonce, g_threads = (g_threads st)[i := t]\<rparr>"

definition grind_init :: "u32 \<Rightarrow> grind_state" where
  "grind_init threads = \<lparr>g_found = False, g_nonce = U64_MAX,
     g_threads = map (\<lambda>first. Running (of_nat first) 0) [0..<unat threads]\<rparr>"

definition grind_joined :: "grind_state \<Rightarrow> bool" where
  "grind_joined st = (\<forall>t\<in>set (g_threads st). t = Returned)"

definition grind_result :: "header \<Rightarrow> grind_state \<Rightarrow> header option" where
  "grind_result h st = (if g_nonce st = U64_MAX then None else Some (h\<lparr>hdr_nonce := ucast (g_nonce st)\<rparr>))"

section \<open>The threads cover the nonces\<close>

fun thread_ok :: "pow \<Rightarrow> nat \<Rightarrow> nat \<Rightarrow> thread \<Rightarrow> bool" where
  "thread_ok p T i (Running c k) = (unat c mod T = i \<and> (\<forall>n. unat n mod T = i \<longrightarrow> n < c \<longrightarrow> \<not> candidate_meets p n))"
| "thread_ok p T i (Storing c) = False"
| "thread_ok p T i Returned = (\<forall>n. unat n mod T = i \<longrightarrow> \<not> candidate_meets p n)"

definition grind_inv :: "pow \<Rightarrow> u32 \<Rightarrow> grind_state \<Rightarrow> bool" where
  "grind_inv p threads st \<longleftrightarrow> length (g_threads st) = unat threads \<and>
     (if g_found st
      then \<exists>c. candidate_meets p c \<and> (g_nonce st = ucast c \<and> (\<forall>d. Storing d \<in> set (g_threads st) \<longrightarrow> d = c) \<or>
             Storing c \<in> set (g_threads st) \<and> (\<forall>d. Storing d \<in> set (g_threads st) \<longrightarrow> d = c))
      else g_nonce st = U64_MAX \<and> (\<forall>i < unat threads. thread_ok p (unat threads) i (g_threads st ! i)))"

lemma thread_ok_next:
  assumes "thread_ok p (unat T) i (Running c (Suc k))" "\<not> candidate_meets p c" "0 < T"
  shows "thread_ok p (unat T) i (case checked_add c T of None \<Rightarrow> Returned | Some d \<Rightarrow> Running d k)"
proof -
  have i: "unat c mod unat T = i" and below: "\<And>n. unat n mod unat T = i \<Longrightarrow> n < c \<Longrightarrow> \<not> candidate_meets p n"
    using assms(1) by simp_all
  have T: "0 < unat T" using assms(3) by (simp add: word_less_nat_alt)
  have gap: "\<not> candidate_meets p n" if "unat n mod unat T = i" "unat n < unat c + unat T" for n
  proof (cases "unat n < unat c")
    case True
    then show ?thesis using below [OF that(1)] by (simp add: word_less_nat_alt)
  next
    case False
    then have le: "unat c \<le> unat n" by simp
    have "unat n mod unat T = unat c mod unat T" using that(1) i by simp
    then have "unat T dvd unat n - unat c" using mod_eq_dvd_iff_nat [OF le] by blast
    moreover have "unat n - unat c < unat T" using that(2) le by linarith
    ultimately have "unat n - unat c = 0" by (meson nat_dvd_not_less neq0_conv)
    then have "n = c" using le by (simp add: word_unat_eq_iff)
    then show ?thesis using assms(2) by simp
  qed
  show ?thesis
  proof (cases "checked_add c T")
    case None
    then have "2 ^ 32 \<le> unat c + unat T" by (auto simp: checked_add_def split: if_splits)
    then have "unat n < unat c + unat T" for n :: u32 using unat_less_power [of n] by simp
    with gap None show ?thesis by simp
  next
    case (Some d)
    then have d: "unat d = unat c + unat T" by (rule checked_add_unat)
    then show ?thesis using Some i gap by (auto simp: word_less_nat_alt)
  qed
qed

lemma ucast_not_max: "(ucast (c :: u32) :: u64) \<noteq> U64_MAX"
proof
  assume "(ucast c :: u64) = U64_MAX"
  then have "unat (ucast c :: u64) = unat U64_MAX" by simp
  moreover have "unat (ucast c :: u64) = unat c"
    using unat_less_power [of c] by (simp add: unsigned_ucast_eq take_bit_nat_eq_self)
  ultimately show False using unat_less_power [of c] by (simp add: U64_MAX_def)
qed

lemma grind_init_inv: "0 < threads \<Longrightarrow> grind_inv p threads (grind_init threads)"
proof -
  assume "0 < threads"
  have "thread_ok p (unat threads) i (Running (of_nat i) 0)" if i: "i < unat threads" for i
  proof -
    have u: "unat (of_nat i :: u32) = i" using i unat_less_power [of threads] by (simp add: unat_of_nat)
    have "unat n mod unat threads \<noteq> i" if "unat n < i" for n :: u32
    proof -
      have "unat n mod unat threads = unat n" using that i by simp
      with that show ?thesis by simp
    qed
    then have "unat n mod unat threads = i \<longrightarrow> \<not> n < of_nat i" for n :: u32 by (auto simp: word_less_nat_alt u)
    then show ?thesis using u i by simp
  qed
  then show ?thesis by (simp add: grind_inv_def grind_init_def)
qed

lemma storing_update:
  assumes "Storing d \<in> set (ts[i := t])" "t \<noteq> Storing d" shows "Storing d \<in> set ts"
  using assms set_update_subset_insert [of ts i t] by blast

lemma storing_kept:
  assumes "Storing c \<in> set ts" "i < length ts" "ts ! i \<noteq> Storing c" shows "Storing c \<in> set (ts[i := t])"
proof -
  from assms(1) obtain j where "j < length ts" "ts ! j = Storing c" by (auto simp: in_set_conv_nth)
  with assms show ?thesis by (metis length_list_update nth_list_update_neq nth_mem)
qed

lemma search_step_inv:
  assumes "thread_step p threads (False, g_nonce st) (g_threads st ! i) = ((found, nonce), t)"
    and "\<not> g_found st" "grind_inv p threads st" "0 < threads" "i < length (g_threads st)" "g_threads st ! i \<noteq> Returned"
  shows "grind_inv p threads \<lparr>g_found = found, g_nonce = nonce, g_threads = (g_threads st)[i := t]\<rparr>"
proof -
  let ?ts = "g_threads st"
  have len: "length ?ts = unat threads" and ok: "\<And>j. j < unat threads \<Longrightarrow> thread_ok p (unat threads) j (?ts ! j)"
    and max: "g_nonce st = U64_MAX" using assms(2,3) by (simp_all add: grind_inv_def)
  have i: "i < unat threads" using assms(5) len by simp
  have no: "Storing d \<notin> set ?ts" for d using ok len by (force simp: in_set_conv_nth)
  have upd: "\<forall>j < unat threads. thread_ok p (unat threads) j (?ts[i := t] ! j)" if "thread_ok p (unat threads) i t"
    using that ok i len by (auto simp: nth_list_update)
  consider c where "?ts ! i = Running c 0" | (hit) c j where "?ts ! i = Running c (Suc j)" "candidate_meets p c"
    | (miss) c j where "?ts ! i = Running c (Suc j)" "\<not> candidate_meets p c"
    using ok [OF i] assms(6) by (cases "?ts ! i") (auto, metis not0_implies_Suc)
  then show ?thesis
  proof cases
    case 1
    then have "found = False" "nonce = g_nonce st" "t = Running c 4096" using assms(1) by auto
    with upd ok [OF i] 1 max len show ?thesis by (simp add: grind_inv_def)
  next
    case hit
    then have f: "found = True" "t = Storing c" using assms(1) by auto
    have "d = c" if "Storing d \<in> set (?ts[i := t])" for d
      using storing_update [OF that] no f(2) by (cases "d = c") auto
    moreover have "Storing c \<in> set (?ts[i := t])" using f(2) assms(5) by (simp add: set_update_memI)
    ultimately show ?thesis using hit f len by (auto simp: grind_inv_def)
  next
    case miss
    then have "found = False" "nonce = g_nonce st"
      "t = (case checked_add c threads of None \<Rightarrow> Returned | Some d \<Rightarrow> Running d j)" using assms(1) by auto
    with upd thread_ok_next [of p threads i c j] ok [OF i] miss assms(4) max len show ?thesis
      by (simp add: grind_inv_def)
  qed
qed

lemma found_step_inv:
  assumes "thread_step p threads (True, g_nonce st) (g_threads st ! i) = ((found, nonce), t)"
    and "g_found st" "grind_inv p threads st" "i < length (g_threads st)" "g_threads st ! i \<noteq> Returned"
  shows "grind_inv p threads \<lparr>g_found = found, g_nonce = nonce, g_threads = (g_threads st)[i := t]\<rparr>"
proof -
  let ?ts = "g_threads st"
  obtain c where c: "candidate_meets p c" and only: "\<And>d. Storing d \<in> set ?ts \<Longrightarrow> d = c"
    and cs: "g_nonce st = ucast c \<or> Storing c \<in> set ?ts" and len: "length ?ts = unat threads"
    using assms(2,3) by (auto simp: grind_inv_def)
  have f: "found" and t: "\<And>d. t \<noteq> Storing d" and nonce: "nonce = (case ?ts ! i of Storing d \<Rightarrow> ucast d | _ \<Rightarrow> g_nonce st)"
    using assms(1) by (cases "?ts ! i" rule: thread.exhaust; cases "(p, threads, (g_found st, g_nonce st), ?ts ! i)" rule: thread_step.cases;
        auto split: if_splits option.splits)+
  have only': "d = c" if "Storing d \<in> set (?ts[i := t])" for d using only storing_update [OF that t] by blast
  have "nonce = ucast c \<or> Storing c \<in> set (?ts[i := t])"
  proof (cases "?ts ! i")
    case (Storing d)
    then have "d = c" using only assms(4) by (metis nth_mem)
    with Storing nonce show ?thesis by simp
  next
    case (Running d k)
    with nonce cs assms(4) show ?thesis by (auto intro: storing_kept)
  qed (use assms(5) in simp)
  with f c only' len show ?thesis by (auto simp: grind_inv_def)
qed

lemma grind_step_inv:
  assumes "grind_step p threads st st'" "grind_inv p threads st" "0 < threads"
  shows "grind_inv p threads st'"
  using assms(1)
proof cases
  case (step i found nonce t)
  then show ?thesis using search_step_inv [of p threads st i found nonce t] found_step_inv [of p threads st i found nonce t] assms(2,3)
    by (cases "g_found st") simp_all
qed

section \<open>Every run ends\<close>

fun thread_weight :: "thread \<Rightarrow> nat" where
  "thread_weight (Running c k) = 2 * (2 ^ 32 - unat c) + (if k = 0 then 3 else 2)"
| "thread_weight (Storing c) = 1"
| "thread_weight Returned = 0"

lemma thread_step_weight:
  assumes "thread_step p threads (found, nonce) t = (sh, t')" "t \<noteq> Returned" "0 < threads"
  shows "thread_weight t' < thread_weight t"
proof (cases "(p, threads, (found, nonce), t)" rule: thread_step.cases)
  case (2 p' T' f n c k)
  show ?thesis
  proof (cases "checked_add c threads")
    case (Some d)
    then have "unat d = unat c + unat threads" by (rule checked_add_unat)
    moreover have "0 < unat threads" using assms(3) by (simp add: word_less_nat_alt)
    ultimately have "2 ^ 32 - unat d < 2 ^ 32 - unat c" using unat_less_power [of d] by simp
    with assms 2 Some show ?thesis by (auto split: if_splits)
  qed (use assms 2 in \<open>auto split: if_splits\<close>)
qed (use assms in \<open>auto split: if_splits\<close>)

definition grind_weight :: "grind_state \<Rightarrow> nat" where
  "grind_weight st = sum_list (map thread_weight (g_threads st))"

lemma grind_step_weight:
  assumes "grind_step p threads st st'" "0 < threads"
  shows "grind_weight st' < grind_weight st"
  using assms(1)
proof cases
  case (step i found nonce t)
  have "thread_weight t < thread_weight (g_threads st ! i)" using thread_step_weight [OF step(4,3) assms(2)] .
  moreover have "thread_weight (g_threads st ! i) \<le> sum_list (map thread_weight (g_threads st))"
    using step(2) by (simp add: member_le_sum_list)
  ultimately show ?thesis using step(2) unfolding step(1)
    by (simp add: grind_weight_def map_update sum_list_update)
qed

lemma grind_runs_inv: "(grind_step p threads)\<^sup>*\<^sup>* st st' \<Longrightarrow> grind_inv p threads st \<Longrightarrow> 0 < threads \<Longrightarrow> grind_inv p threads st'"
  by (induction rule: rtranclp_induct) (auto intro: grind_step_inv)

lemma grind_progress: "\<not> grind_joined st \<Longrightarrow> \<exists>st'. grind_step p threads st st'"
proof -
  assume "\<not> grind_joined st"
  then obtain i where i: "i < length (g_threads st)" "g_threads st ! i \<noteq> Returned"
    by (auto simp: grind_joined_def in_set_conv_nth)
  obtain found nonce t where "thread_step p threads (g_found st, g_nonce st) (g_threads st ! i) = ((found, nonce), t)"
    by (metis surj_pair)
  from grind_step.step [OF i this] show ?thesis by blast
qed

lemma le_nat_top:
  assumes "length xs = length ys" "xs \<noteq> []" "le_nat xs \<le> le_nat ys"
  shows "last xs \<le> last ys"
proof -
  have bound: "le_nat zs < 256 ^ length zs" for zs
  proof (induction zs)
    case (Cons z zs)
    have "unat z < 256" using unat_less_power [of z] by simp
    with Cons show ?case by simp
  qed simp
  have split: "le_nat (zs @ [z]) = le_nat zs + 256 ^ length zs * unat z" for zs z
    by (induction zs) (simp_all add: algebra_simps)
  obtain as a bs b where x: "xs = as @ [a]" "ys = bs @ [b]" using assms(1,2) by (metis length_0_conv rev_exhaust)
  have l: "length as = length bs" using assms(1) x by simp
  have "256 ^ length bs * unat a \<le> le_nat bs + 256 ^ length bs * unat b" using assms(3) x split l by simp
  also have "\<dots> < 256 ^ length bs * (unat b + 1)" using bound [of bs] by simp
  finally have "unat a < unat b + 1" using mult_less_cancel1 by blast
  then show ?thesis using x by (simp add: word_le_nat_alt)
qed

text \<open>The comparison of the highest byte never rejects a hash that meets the target.\<close>

definition pow_ok :: "pow \<Rightarrow> bool" where
  "pow_ok p \<longleftrightarrow> length (pow_target p) = 32 \<and> (\<forall>bs. length (pow_hash p bs) = 32) \<and>
     (\<forall>h. length h = 32 \<longrightarrow> pow_is_met_by p h = (le_nat h \<le> le_nat (pow_target p)))"

lemma candidate_meets_iff: "pow_ok p \<Longrightarrow> candidate_meets p n = pow_is_met_by p (candidate_hash p n)"
proof -
  assume ok: "pow_ok p"
  have "candidate_hash p n ! 31 \<le> pow_target p ! 31" if m: "pow_is_met_by p (candidate_hash p n)"
  proof -
    let ?h = "candidate_hash p n"
    have h: "length ?h = 32" "length (pow_target p) = 32" using ok by (simp_all add: pow_ok_def candidate_hash_def)
    have "last ?h \<le> last (pow_target p)"
      by (rule le_nat_top) (use ok m h in \<open>auto simp: pow_ok_def\<close>)
    moreover have "last ?h = ?h ! 31" "last (pow_target p) = pow_target p ! 31"
      using h last_conv_nth [of ?h] last_conv_nth [of "pow_target p"] by force+
    ultimately show ?thesis by simp
  qed
  then show ?thesis by (auto simp: candidate_meets_def)
qed

text \<open>The result when all threads have returned.\<close>

lemma grind_joined_result:
  assumes "0 < threads" "pow_ok p" "(grind_step p threads)\<^sup>*\<^sup>* (grind_init threads) st" "grind_joined st"
  shows "case grind_result h st of None \<Rightarrow> \<forall>n. \<not> pow_is_met_by p (candidate_hash p n)
     | Some h' \<Rightarrow> h' = h\<lparr>hdr_nonce := hdr_nonce h'\<rparr> \<and> pow_is_met_by p (candidate_hash p (hdr_nonce h'))"
proof -
  have inv: "grind_inv p threads st" by (rule grind_runs_inv [OF assms(3) grind_init_inv assms(1)]) (rule assms(1))
  have none: "Storing c \<notin> set (g_threads st)" for c using assms(4) by (auto simp: grind_joined_def)
  show ?thesis
  proof (cases "g_found st")
    case True
    with inv none obtain c where c: "candidate_meets p c" "g_nonce st = ucast c" by (auto simp: grind_inv_def)
    have "(ucast (ucast c :: u64) :: u32) = c" by (simp add: ucast_down_ucast_id is_down)
    then have "grind_result h st = Some (h\<lparr>hdr_nonce := c\<rparr>)" using c(2) ucast_not_max by (simp add: grind_result_def)
    then show ?thesis using c(1) candidate_meets_iff [OF assms(2)] by simp
  next
    case False
    have "\<not> candidate_meets p n" for n
    proof -
      let ?i = "unat n mod unat threads"
      have "?i < unat threads" using assms(1) by (simp add: word_less_nat_alt)
      moreover from this have "g_threads st ! ?i = Returned" using assms(4) inv by (simp add: grind_joined_def grind_inv_def)
      ultimately have "thread_ok p (unat threads) ?i Returned" using inv False by (metis grind_inv_def)
      then show ?thesis by simp
    qed
    moreover have "grind_result h st = None" using inv False by (simp add: grind_inv_def grind_result_def)
    ultimately show ?thesis using candidate_meets_iff [OF assms(2)] by simp
  qed
qed

text \<open>C31: However the threads are scheduled, grinding ends, and when all threads have returned the result
  is right: \<open>None\<close> only if no nonce at all meets the target, and otherwise the given header with
  a nonce that does. (The target is met by the hashes that are, as little-endian numbers, at most the target.)\<close>

theorem grind_correct:
  assumes "0 < threads" "pow_ok p"
  shows "wfp (\<lambda>st' st. grind_step p threads st st') \<and>
    (\<forall>st. (grind_step p threads)\<^sup>*\<^sup>* (grind_init threads) st \<longrightarrow>
       (grind_joined st \<or> (\<exists>st'. grind_step p threads st st')) \<and>
       (grind_joined st \<longrightarrow>
          (case grind_result h st of
             None \<Rightarrow> \<forall>n. \<not> pow_is_met_by p (candidate_hash p n)
           | Some h' \<Rightarrow> h' = h\<lparr>hdr_nonce := hdr_nonce h'\<rparr> \<and> pow_is_met_by p (candidate_hash p (hdr_nonce h')))))"
proof (intro conjI allI impI)
  show "wfp (\<lambda>st' st. grind_step p threads st st')"
    by (rule wfp_if_convertible_to_nat [of _ grind_weight]) (rule grind_step_weight [OF _ assms(1)])
  fix st
  assume runs: "(grind_step p threads)\<^sup>*\<^sup>* (grind_init threads) st"
  show "grind_joined st \<or> (\<exists>st'. grind_step p threads st st')" using grind_progress by blast
  assume j: "grind_joined st"
  with runs show "case grind_result h st of None \<Rightarrow> \<forall>n. \<not> pow_is_met_by p (candidate_hash p n)
     | Some h' \<Rightarrow> h' = h\<lparr>hdr_nonce := hdr_nonce h'\<rparr> \<and> pow_is_met_by p (candidate_hash p (hdr_nonce h'))"
    by (rule grind_joined_result [OF assms])
qed

definition sample_pow :: pow where
  "sample_pow = \<lparr>pow_tail = replicate 16 0, pow_target = replicate 32 0, pow_hash = (\<lambda>bs. replicate 32 (bs ! 12)),
     pow_is_met_by = (\<lambda>h. le_nat h \<le> le_nat (replicate 32 0))\<rparr>"

definition sample_grind_header :: header where
  "sample_grind_header = \<lparr>hdr_version = 1, hdr_prev_blockhash = [], hdr_merkle_root = [], hdr_time = 0, hdr_bits = 0, hdr_nonce = 7\<rparr>"

lemma le_bytes_of_zero: "le_bytes_of 4 0 = [0, 0, 0, 0]"
proof -
  have "le_bytes_of (Suc (Suc (Suc (Suc 0)))) 0 = [0, 0, 0, 0]" by simp
  moreover have "Suc (Suc (Suc (Suc 0))) = 4" by simp
  ultimately show ?thesis by (simp only:)
qed

lemma first_nonce_run:
  assumes meets: "candidate_meets p 0"
  shows "(grind_step p 1)\<^sup>*\<^sup>* (grind_init 1) \<lparr>g_found = True, g_nonce = 0, g_threads = [Returned]\<rparr>"
proof -
  let ?st = "\<lambda>f n t. \<lparr>g_found = f, g_nonce = n, g_threads = [t]\<rparr>"
  have init: "grind_init 1 = ?st False U64_MAX (Running 0 0)" by (simp add: grind_init_def)
  have s1: "grind_step p 1 (?st False U64_MAX (Running 0 0)) (?st False U64_MAX (Running 0 4096))"
    using grind_step.step [of 0 "?st False U64_MAX (Running 0 0)" p 1 False U64_MAX "Running 0 4096"] by simp
  have s2: "grind_step p 1 (?st False U64_MAX (Running 0 4096)) (?st True U64_MAX (Storing 0))"
    using grind_step.step [of 0 "?st False U64_MAX (Running 0 4096)" p 1 True U64_MAX "Storing 0"] meets
      thread_step.simps(2) [of p 1 False U64_MAX 0 4095] by simp
  have s3: "grind_step p 1 (?st True U64_MAX (Storing 0)) (?st True 0 Returned)"
    using grind_step.step [of 0 "?st True U64_MAX (Storing 0)" p 1 True 0 Returned] by simp
  show ?thesis unfolding init by (meson converse_rtranclp_into_rtranclp rtranclp.rtrancl_refl s1 s2 s3)
qed

lemma sample_grind_run:
  "(grind_step sample_pow 1)\<^sup>*\<^sup>* (grind_init 1) \<lparr>g_found = True, g_nonce = 0, g_threads = [Returned]\<rparr>"
proof (rule first_nonce_run)
  have "candidate_hash sample_pow 0 = replicate 32 0" by (simp add: candidate_hash_def sample_pow_def nth_append le_bytes_of_zero)
  then show "candidate_meets sample_pow 0" by (simp add: candidate_meets_def sample_pow_def)
qed

theorem grind_correct_witness:
  "\<exists>st. (grind_step sample_pow 1)\<^sup>*\<^sup>* (grind_init 1) st \<and> grind_joined st \<and>
     grind_result sample_grind_header st = Some (sample_grind_header\<lparr>hdr_nonce := 0\<rparr>) \<and>
     pow_is_met_by sample_pow (candidate_hash sample_pow 0)"
proof -
  have "0 < (1 :: u32)" "pow_ok sample_pow" by (simp_all add: pow_ok_def sample_pow_def)
  note c = grind_correct [OF this, where h = sample_grind_header]
  let ?st = "\<lparr>g_found = True, g_nonce = 0, g_threads = [Returned]\<rparr>"
  have j: "grind_joined ?st" by (simp add: grind_joined_def)
  have r: "grind_result sample_grind_header ?st = Some (sample_grind_header\<lparr>hdr_nonce := 0\<rparr>)"
    by (simp add: grind_result_def U64_MAX_def)
  have "case grind_result sample_grind_header ?st of None \<Rightarrow> \<forall>n. \<not> pow_is_met_by sample_pow (candidate_hash sample_pow n)
     | Some h' \<Rightarrow> h' = sample_grind_header\<lparr>hdr_nonce := hdr_nonce h'\<rparr> \<and> pow_is_met_by sample_pow (candidate_hash sample_pow (hdr_nonce h'))"
    using c sample_grind_run j by blast
  then have "pow_is_met_by sample_pow (candidate_hash sample_pow 0)" unfolding r by simp
  with sample_grind_run j r show ?thesis by blast
qed

end
