(* ===== verification/Mining.thy ===== *)
theory Mining
  imports Template Grind
begin

text \<open>
  Mining a block from a template without a wallet (\<open>src/lib/block_producer/mine.rs\<close>) and finishing
  it for submission (\<open>src/lib/mining.rs\<close>): the witness commitment, the signet solution, the time of
  the block, its value, the coinbase, and the calls that submit it and wait for the validator.

  The \<open>bitcoin\<close> crate, the clock, the node and the template server are the fields of a \<open>mining_env\<close>.
  An outer \<open>None\<close> is a panic. \<open>mine\<close> and \<open>generate_block\<close> also return the blocks they submit to the
  node. Grinding is a field, too: the interleaving of its threads is the subject of \<open>Grind\<close>.
\<close>

section \<open>What mining relies on\<close>

datatype coinbase_txn_or_value = CoinbaseTxn bytes | CoinbaseValue amount

record gbt_transaction =
  gt_txid :: txid
  gt_data :: bytes
  gt_fee :: int

record gbt_template =
  gbt_prev_blockhash :: blockhash
  gbt_compact_target :: u32
  gbt_mintime :: u64
  gbt_coinbase :: coinbase_txn_or_value
  gbt_transactions :: "gbt_transaction list"

record mining_env =
  mn_btc :: btc
  mn_push_slice :: "bytes \<Rightarrow> bytes \<Rightarrow> bytes"
  mn_witness_root :: "transaction list \<Rightarrow> bytes"
  mn_witness_commitment :: "bytes \<Rightarrow> bytes \<Rightarrow> bytes"
  mn_merkle_root :: "txid list \<Rightarrow> bytes"
  mn_serialize_script :: "bytes \<Rightarrow> bytes"
  mn_serialize_witness :: "bytes list \<Rightarrow> bytes"
  mn_height_script :: "u32 \<Rightarrow> bytes"
  mn_deserialize :: "bytes \<Rightarrow> transaction option"
  mn_network :: network
  mn_signet_challenge :: "bytes option"
  mn_now :: "u64 option"
  mn_gbt_client :: "(string list \<Rightarrow> unit + gbt_template) option"
  mn_sign_with_wallet :: "transaction \<Rightarrow> txid \<times> bytes \<Rightarrow> unit + bytes \<times> bool"
  mn_grind :: "header \<Rightarrow> unit + header option"
  mn_submit_block :: "block \<Rightarrow> unit + string option"
  mn_address_from_script :: "bytes \<Rightarrow> bytes option"
  mn_address_is_mine :: "bytes \<Rightarrow> unit + bool"

section \<open>Finishing a block\<close>

definition WITNESS_COMMITMENT_HEADER :: bytes where "WITNESS_COMMITMENT_HEADER = [0xaa, 0x21, 0xa9, 0xed]"

definition SIGNET_HEADER :: bytes where "SIGNET_HEADER = [0xec, 0xc7, 0xda, 0xa2]"

datatype no_witness_commitment = NoWitnessCommitment

definition compute_merkle_root :: "mining_env \<Rightarrow> transaction list \<Rightarrow> bytes" where
  "compute_merkle_root M txs = mn_merkle_root M (map (b_compute_txid (mn_btc M)) txs)"

definition add_witness_commitment :: "mining_env \<Rightarrow> block \<Rightarrow> block option" where
  "add_witness_commitment M block =
     (case blk_txdata block of
        [] \<Rightarrow> None
      | coinbase # txs \<Rightarrow>
     (case tx_input coinbase of
        [] \<Rightarrow> None
      | txin # txins \<Rightarrow>
     (let coinbase = coinbase\<lparr>tx_input := txin\<lparr>txin_witness := [WITNESS_RESERVED_VALUE]\<rparr> # txins\<rparr>;
          witness_root = mn_witness_root M (coinbase # txs);
          commitment = mn_witness_commitment M witness_root WITNESS_RESERVED_VALUE;
          pushed = WITNESS_COMMITMENT_HEADER @ commitment;
          coinbase = coinbase\<lparr>tx_output := tx_output coinbase @
            [\<lparr>to_value = 0, to_script_pubkey = b_new_op_return (mn_btc M) pushed\<rparr>]\<rparr>
      in Some \<lparr>blk_header = (blk_header block)\<lparr>hdr_merkle_root := compute_merkle_root M (coinbase # txs)\<rparr>,
           blk_txdata = coinbase # txs\<rparr>)))"

text \<open>\<open>rposition\<close>: the index of the last element that satisfies the predicate.\<close>

fun rposition :: "('a \<Rightarrow> bool) \<Rightarrow> 'a list \<Rightarrow> nat option" where
  "rposition P [] = None"
| "rposition P (x # xs) = (case rposition P xs of Some i \<Rightarrow> Some (Suc i) | None \<Rightarrow> if P x then Some 0 else None)"

definition looks_like_commitment :: "bytes \<Rightarrow> bool" where
  "looks_like_commitment script =
     (length script \<ge> 38 \<and> prefix ([OP_RETURN, 0x24] @ WITNESS_COMMITMENT_HEADER) script)"

definition witness_commitment_index :: "txout list \<Rightarrow> no_witness_commitment + nat" where
  "witness_commitment_index outputs =
     (case rposition (\<lambda>txout. looks_like_commitment (to_script_pubkey txout)) outputs of
        None \<Rightarrow> Inl NoWitnessCommitment | Some i \<Rightarrow> Inr i)"

definition push_to_output :: "mining_env \<Rightarrow> nat \<Rightarrow> bytes \<Rightarrow> transaction \<Rightarrow> transaction" where
  "push_to_output M i d tx = tx\<lparr>tx_output := (tx_output tx)[i :=
     (tx_output tx ! i)\<lparr>to_script_pubkey := mn_push_slice M (to_script_pubkey (tx_output tx ! i)) d\<rparr>]\<rparr>"

record signet_txs =
  to_spend :: transaction
  to_sign :: transaction

definition signet_txs_new :: "mining_env \<Rightarrow> block \<Rightarrow> bytes \<Rightarrow> (no_witness_commitment + signet_txs) option" where
  "signet_txs_new M block challenge =
     (case blk_txdata block of
        [] \<Rightarrow> None
      | coinbase # txs \<Rightarrow>
     (case witness_commitment_index (tx_output coinbase) of
        Inl e \<Rightarrow> Some (Inl e)
      | Inr i \<Rightarrow>
     (let coinbase = push_to_output M i SIGNET_HEADER coinbase;
          merkle_root = compute_merkle_root M (coinbase # txs);
          block_data = le_bytes_of 4 (unat (hdr_version (blk_header block))) @ hdr_prev_blockhash (blk_header block) @
            merkle_root @ le_bytes_of 4 (unat (hdr_time (blk_header block)))
      in case push_bytes_try_from block_data of
        Inl _ \<Rightarrow> None
      | Inr pushed \<Rightarrow>
     (let to_spend = \<lparr>tx_version = 0, tx_lock_time = 0,
            tx_input = [\<lparr>previous_output = \<lparr>op_txid = all_zeros, op_vout = 0xFFFFFFFF\<rparr>,
              script_sig = mn_push_slice M [0] pushed, txin_sequence = 0, txin_witness = []\<rparr>],
            tx_output = [\<lparr>to_value = 0, to_script_pubkey = challenge\<rparr>]\<rparr>;
          to_sign = \<lparr>tx_version = 0, tx_lock_time = 0,
            tx_input = [\<lparr>previous_output = \<lparr>op_txid = b_compute_txid (mn_btc M) to_spend, op_vout = 0\<rparr>,
              script_sig = [], txin_sequence = 0, txin_witness = []\<rparr>],
            tx_output = [\<lparr>to_value = 0, to_script_pubkey = [OP_RETURN]\<rparr>]\<rparr>
      in Some (Inr \<lparr>to_spend = to_spend, to_sign = to_sign\<rparr>)))))"

definition add_signet_solution :: "mining_env \<Rightarrow> block \<Rightarrow> bytes \<Rightarrow> bytes list \<Rightarrow> (no_witness_commitment + block) option" where
  "add_signet_solution M block sig witness =
     (case blk_txdata block of
        [] \<Rightarrow> None
      | coinbase # txs \<Rightarrow>
     (case witness_commitment_index (tx_output coinbase) of
        Inl e \<Rightarrow> Some (Inl e)
      | Inr i \<Rightarrow>
     (case push_bytes_try_from (SIGNET_HEADER @ mn_serialize_script M sig @ mn_serialize_witness M witness) of
        Inl _ \<Rightarrow> None
      | Inr pushed \<Rightarrow>
     (let coinbase = push_to_output M i pushed coinbase
      in Some (Inr \<lparr>blk_header = (blk_header block)\<lparr>hdr_merkle_root := compute_merkle_root M (coinbase # txs)\<rparr>,
           blk_txdata = coinbase # txs\<rparr>)))))"

section \<open>The time and the value of a block\<close>

definition L2L_SIGNET_CHALLENGE :: bytes where
  "L2L_SIGNET_CHALLENGE = map of_char ''00141551188e5153533b4fdd555449e640d9cc129456''"

definition target_block_interval :: "bytes \<Rightarrow> u64" where
  "target_block_interval challenge = (if challenge = L2L_SIGNET_CHALLENGE then 60 else 600)"

definition midpoint :: "u64 \<Rightarrow> u64 \<Rightarrow> u64" where
  "midpoint a b = of_nat ((unat a + unat b) div 2)"

definition signet_block_time :: "u64 \<Rightarrow> u64 \<Rightarrow> u64 \<Rightarrow> u64" where
  "signet_block_time tip_time now interval =
     (let tip_age = saturating_sub now tip_time in
      if tip_age > interval then tip_time + midpoint tip_age interval else max now (tip_time + 1))"

definition SUBSIDY_HALVING_INTERVAL :: u32 where "SUBSIDY_HALVING_INTERVAL = 210000"

definition get_block_value :: "u32 \<Rightarrow> amount \<Rightarrow> network \<Rightarrow> amount option" where
  "get_block_value height fees network =
     (let subsidy_sats = 50 * 100000000 :: u64;
          interval = (case network of Regtest \<Rightarrow> 150 | _ \<Rightarrow> SUBSIDY_HALVING_INTERVAL);
          halvings = height div interval
      in if halvings \<ge> 64 then Some fees else checked_add fees (drop_bit (unat halvings) subsidy_sats))"

record template_header =
  th_bits :: u32
  th_mintime :: u64

section \<open>From the template to the block\<close>

datatype select_block_txs_error =
    SB_GetBlockTemplate "template_error option"
  | SB_NoBlockTemplateServer
  | SB_NoCoinbaseTxn
  | SB_DecodeTemplateCoinbase
  | SB_DecodeTemplateTransaction txid
  | SB_NegativeTemplateTransactionFee txid int
  | SB_TemplateTipMismatch blockhash blockhash

definition fetch_block_template :: "(string list \<Rightarrow> unit + gbt_template) \<Rightarrow> string list \<Rightarrow> template_error block_producer \<Rightarrow>
    select_block_txs_error + gbt_template" where
  "fetch_block_template client rules p =
     (case client rules of Inl _ \<Rightarrow> Inl (SB_GetBlockTemplate (bp_last_gbt_error p)) | Inr template \<Rightarrow> Inr template)"

fun decode_template_txs :: "mining_env \<Rightarrow> gbt_transaction list \<Rightarrow> select_block_txs_error + (transaction \<times> amount) list" where
  "decode_template_txs M [] = Inr []"
| "decode_template_txs M (t # ts) =
     (case mn_deserialize M (gt_data t) of
        None \<Rightarrow> Inl (SB_DecodeTemplateTransaction (gt_txid t))
      | Some tx \<Rightarrow>
          if gt_fee t < 0 then Inl (SB_NegativeTemplateTransactionFee (gt_txid t) (gt_fee t))
          else (case decode_template_txs M ts of Inl e \<Rightarrow> Inl e | Inr res \<Rightarrow> Inr ((tx, of_int (gt_fee t)) # res)))"

definition is_message :: "btc \<Rightarrow> txout \<Rightarrow> bool" where
  "is_message B txout = (case coinbase_message_parse B (to_script_pubkey txout) of Inl _ \<Rightarrow> False | Inr _ \<Rightarrow> True)"

definition select_block_txs :: "mining_env \<Rightarrow> template_error block_producer \<Rightarrow> blockhash \<Rightarrow>
    select_block_txs_error + txout list \<times> (transaction \<times> amount) list \<times> template_header" where
  "select_block_txs M p mainchain_tip =
     (let rules = [''segwit'', ''bip300301''] @ (if mn_network M = Signet then [''signet''] else []) in
      case mn_gbt_client M of
        None \<Rightarrow> Inl SB_NoBlockTemplateServer
      | Some client \<Rightarrow>
     (case fetch_block_template client rules p of
        Inl e \<Rightarrow> Inl e
      | Inr template \<Rightarrow>
      if gbt_prev_blockhash template \<noteq> mainchain_tip
      then Inl (SB_TemplateTipMismatch (gbt_prev_blockhash template) mainchain_tip)
      else case gbt_coinbase template of
        CoinbaseValue _ \<Rightarrow> Inl SB_NoCoinbaseTxn
      | CoinbaseTxn data \<Rightarrow>
     (case mn_deserialize M data of
        None \<Rightarrow> Inl SB_DecodeTemplateCoinbase
      | Some coinbase \<Rightarrow>
     (case decode_template_txs M (gbt_transactions template) of
        Inl e \<Rightarrow> Inl e
      | Inr res \<Rightarrow> Inr (filter (is_message (mn_btc M)) (tx_output coinbase), res,
          \<lparr>th_bits = gbt_compact_target template, th_mintime = gbt_mintime template\<rparr>)))))"

definition finalize_coinbase :: "mining_env \<Rightarrow> u32 \<Rightarrow> bytes \<Rightarrow> txout list \<Rightarrow> amount \<Rightarrow> transaction option" where
  "finalize_coinbase M best_block_height coinbase_spk coinbase_outputs fees =
     (case get_block_value (best_block_height + 1) fees (mn_network M) of
        None \<Rightarrow> None
      | Some value \<Rightarrow>
     (let txout = (if value > 0 then \<lparr>to_value = value, to_script_pubkey = coinbase_spk\<rparr>
                   else \<lparr>to_value = 0, to_script_pubkey = [OP_RETURN]\<rparr>)
      in Some \<lparr>tx_version = 2, tx_lock_time = 0,
           tx_input = [\<lparr>previous_output = \<lparr>op_txid = all_zeros, op_vout = 0xFFFFFFFF\<rparr>,
             script_sig = mn_height_script M (best_block_height + 1), txin_sequence = 0xFFFFFFFF, txin_witness = []\<rparr>],
           tx_output = txout # coinbase_outputs\<rparr>))"

definition block_time :: "mining_env \<Rightarrow> header_info \<Rightarrow> template_header \<Rightarrow> u32 option" where
  "block_time M tip_header template =
     (case mn_now M of
        None \<Rightarrow> None
      | Some now \<Rightarrow>
     (let tip_time = ucast (hi_timestamp tip_header);
          time = (case mn_signet_challenge M of
            Some challenge \<Rightarrow> signet_block_time tip_time now (target_block_interval challenge)
          | None \<Rightarrow> max now (tip_time + 1))
      in Some (ucast (max time (th_mintime template)))))"

datatype finalize_block_error = FB_GetHeaderInfo get_header_info_error | FB_GetMainchainTip | FB_SystemTime

definition finalize_block :: "mining_env \<Rightarrow> dbs \<Rightarrow> bytes \<Rightarrow> txout list \<Rightarrow> transaction list \<Rightarrow> amount \<Rightarrow> template_header \<Rightarrow>
    (finalize_block_error + block) option" where
  "finalize_block M v coinbase_spk coinbase_outputs transactions fees template =
     (case current_chain_tip v of
        None \<Rightarrow> Some (Inl FB_GetMainchainTip)
      | Some best_block_hash \<Rightarrow>
     (case get_header_info (mn_btc M) (block_hashes v) best_block_hash of
        Inl e \<Rightarrow> Some (Inl (FB_GetHeaderInfo e))
      | Inr tip_header \<Rightarrow>
     (case finalize_coinbase M (hi_height tip_header) coinbase_spk coinbase_outputs fees of
        None \<Rightarrow> None
      | Some coinbase_tx \<Rightarrow>
     (case block_time M tip_header template of
        None \<Rightarrow> Some (Inl FB_SystemTime)
      | Some time \<Rightarrow>
     (let header = \<lparr>hdr_version = 0x20000000, hdr_prev_blockhash = best_block_hash, hdr_merkle_root = all_zeros,
            hdr_time = time, hdr_bits = th_bits template, hdr_nonce = 0\<rparr>
      in map_option Inr (add_witness_commitment M \<lparr>blk_header = header, blk_txdata = coinbase_tx # transactions\<rparr>))))))"

datatype sign_signet_block_error =
    SS_BitcoinCoreRPC | SS_DecodeSigned | SS_NoWitnessCommitment no_witness_commitment | SS_Unsolved

definition sign_signet_block :: "mining_env \<Rightarrow> block \<Rightarrow> bytes \<Rightarrow> (sign_signet_block_error + block) option" where
  "sign_signet_block M block challenge =
     Option.bind (signet_txs_new M block challenge) (\<lambda>r. case r of
        Inl e \<Rightarrow> Some (Inl (SS_NoWitnessCommitment e))
      | Inr txs \<Rightarrow>
     (case mn_sign_with_wallet M (to_sign txs) (b_compute_txid (mn_btc M) (to_spend txs), challenge) of
        Inl _ \<Rightarrow> Some (Inl SS_BitcoinCoreRPC)
      | Inr (data, complete) \<Rightarrow>
      if \<not> complete then Some (Inl SS_Unsolved)
      else case mn_deserialize M data of
        None \<Rightarrow> Some (Inl SS_DecodeSigned)
      | Some signed_tx \<Rightarrow>
     (case tx_input signed_tx of
        [] \<Rightarrow> None
      | txin # _ \<Rightarrow>
          map_option (map_sum SS_NoWitnessCommitment id)
            (add_signet_solution M block (script_sig txin) (txin_witness txin)))))"

section \<open>Submitting the block\<close>

datatype await_block_connection_error = AB_Validator fault | AB_Timeout blockhash

text \<open>The views are what the validator answers with at every poll until the time-out.\<close>

fun await_block_connection :: "btc \<Rightarrow> dbs list \<Rightarrow> blockhash \<Rightarrow> await_block_connection_error + unit" where
  "await_block_connection B [] block_hash = Inl (AB_Timeout block_hash)"
| "await_block_connection B (v # views) block_hash =
     (case try_get_block_infos B (block_hashes v) block_hash 0 of
        Inl e \<Rightarrow> Inl (AB_Validator e)
      | Inr (Some _) \<Rightarrow> Inr ()
      | Inr None \<Rightarrow> await_block_connection B views block_hash)"

datatype mine_error =
    ME_AwaitBlockConnection await_block_connection_error
  | ME_BitcoinCoreRPC
  | ME_FinalizeBlock finalize_block_error
  | ME_Grind
  | ME_NonceSpaceExhausted
  | ME_SignSignetBlock sign_signet_block_error
  | ME_BlockRejected string

text \<open>Encoding a block into a vector does not fail.\<close>

definition submit :: "mining_env \<Rightarrow> dbs list \<Rightarrow> block \<Rightarrow> (mine_error + blockhash) \<times> block list" where
  "submit M views block =
     (case mn_submit_block M block of
        Inl _ \<Rightarrow> (Inl ME_BitcoinCoreRPC, [block])
      | Inr (Some reason) \<Rightarrow> (Inl (ME_BlockRejected reason), [block])
      | Inr None \<Rightarrow>
     (let block_hash = b_block_hash (mn_btc M) (blk_header block)
      in case await_block_connection (mn_btc M) views block_hash of
        Inl e \<Rightarrow> (Inl (ME_AwaitBlockConnection e), [block])
      | Inr _ \<Rightarrow> (Inr block_hash, [block])))"

definition grind_and_submit :: "mining_env \<Rightarrow> dbs list \<Rightarrow> block \<Rightarrow> (mine_error + blockhash) \<times> block list" where
  "grind_and_submit M views block =
     (case mn_grind M (blk_header block) of
        Inl _ \<Rightarrow> (Inl ME_Grind, [])
      | Inr None \<Rightarrow> (Inl ME_NonceSpaceExhausted, [])
      | Inr (Some header) \<Rightarrow> submit M views (block\<lparr>blk_header := header\<rparr>))"

definition mine :: "mining_env \<Rightarrow> dbs \<Rightarrow> dbs list \<Rightarrow> bytes \<Rightarrow> txout list \<Rightarrow> transaction list \<Rightarrow> amount \<Rightarrow> template_header \<Rightarrow>
    ((mine_error + blockhash) \<times> block list) option" where
  "mine M v views coinbase_spk coinbase_outputs transactions fees template =
     Option.bind (finalize_block M v coinbase_spk coinbase_outputs transactions fees template) (\<lambda>r. case r of
        Inl e \<Rightarrow> Some (Inl (ME_FinalizeBlock e), [])
      | Inr block \<Rightarrow>
     (case mn_signet_challenge M of
        None \<Rightarrow> Some (grind_and_submit M views block)
      | Some challenge \<Rightarrow>
      Option.bind (sign_signet_block M block challenge) (\<lambda>r. case r of
        Inl e \<Rightarrow> Some (Inl (ME_SignSignetBlock e), [])
      | Inr block \<Rightarrow> Some (grind_and_submit M views block))))"

datatype verify_can_mine_error =
    VC_BitcoinCoreRPC
  | VC_Network network
  | VC_NoSignetChallengeFound
  | VC_ParseSignetChallenge
  | VC_SignetChallengeAddressMissing bytes

definition verify_can_mine :: "mining_env \<Rightarrow> verify_can_mine_error + unit" where
  "verify_can_mine M =
     (case mn_network M of
        Regtest \<Rightarrow> Inr ()
      | Signet \<Rightarrow>
     (case mn_signet_challenge M of
        None \<Rightarrow> Inl VC_NoSignetChallengeFound
      | Some challenge \<Rightarrow>
     (case mn_address_from_script M challenge of
        None \<Rightarrow> Inl VC_ParseSignetChallenge
      | Some address \<Rightarrow>
     (case mn_address_is_mine M address of
        Inl _ \<Rightarrow> Inl VC_BitcoinCoreRPC
      | Inr is_mine \<Rightarrow> if \<not> is_mine then Inl (VC_SignetChallengeAddressMissing address) else Inr ())))
      | network \<Rightarrow> Inl (VC_Network network))"

datatype generate_block_error = GB_Mine mine_error | GB_SelectBlockTxs select_block_txs_error | GB_ValidatorNotSynced

text \<open>The validator may have moved on when \<open>mine\<close> reads its tip again: \<open>v\<close> is what it holds then.\<close>

definition generate_block :: "mining_env \<Rightarrow> template_error block_producer \<Rightarrow> dbs \<Rightarrow> dbs list \<Rightarrow> bytes \<Rightarrow>
    ((generate_block_error + blockhash) \<times> block list) option" where
  "generate_block M p v views coinbase_spk =
     (case current_chain_tip (bp_validator p) of
        None \<Rightarrow> Some (Inl GB_ValidatorNotSynced, [])
      | Some mainchain_tip \<Rightarrow>
     (case select_block_txs M p mainchain_tip of
        Inl e \<Rightarrow> Some (Inl (GB_SelectBlockTxs e), [])
      | Inr (coinbase_outputs, selected, template) \<Rightarrow>
     (let fees = sum_list (map snd selected);
          transactions = map fst selected
      in map_option (\<lambda>(res, submitted). (map_sum GB_Mine id res, submitted))
           (mine M v views coinbase_spk coinbase_outputs transactions fees template))))"

section \<open>Scripts that are built by pushes\<close>

text \<open>What mining relies on beyond \<open>script_codec\<close>: \<open>push_slice\<close> appends, and the instructions of a script
  after it end with the push.\<close>

locale script_builder = script_codec +
  fixes push_slice :: "bytes \<Rightarrow> bytes \<Rightarrow> bytes"
  assumes push_slice_op_return:
      "length d < 2 ^ 32 \<Longrightarrow> length e < 2 ^ 32 \<Longrightarrow>
         instructions (push_slice (new_op_return d) e) = [IOk (Op OP_RETURN), IOk (PushBytes d), IOk (PushBytes e)]"
    and push_slice_prefix: "prefix s (push_slice s e)"
    and instructions_op_return_only: "instructions [OP_RETURN] = [IOk (Op OP_RETURN)]"
begin

text \<open>The script of a witness commitment, with or without a solution pushed to it.\<close>

definition commitment_script :: "bytes \<Rightarrow> bytes \<Rightarrow> bool" where
  "commitment_script c s \<longleftrightarrow> s = new_op_return (WITNESS_COMMITMENT_HEADER @ c) \<or>
     (\<exists>e. length e < 2 ^ 32 \<and> s = push_slice (new_op_return (WITNESS_COMMITMENT_HEADER @ c)) e)"

lemma commitment_script_prefix: "commitment_script c s \<Longrightarrow> prefix (new_op_return (WITNESS_COMMITMENT_HEADER @ c)) s"
  using push_slice_prefix by (auto simp: commitment_script_def)

lemma commitment_script_looks:
  assumes "commitment_script c s" "length c = 32"
  shows "looks_like_commitment s"
proof -
  let ?h = "new_op_return (WITNESS_COMMITMENT_HEADER @ c)"
  have h: "?h = [OP_RETURN, 0x24] @ WITNESS_COMMITMENT_HEADER @ c"
    using new_op_return_short [of "WITNESS_COMMITMENT_HEADER @ c"] assms(2) by (simp add: WITNESS_COMMITMENT_HEADER_def)
  obtain r where "s = ?h @ r" using commitment_script_prefix [OF assms(1)] by (auto simp: prefix_def)
  with h assms(2) show ?thesis by (simp add: looks_like_commitment_def WITNESS_COMMITMENT_HEADER_def)
qed

lemma commitment_script_instructions:
  assumes "commitment_script c s" "length c = 32" "instructions s = [IOk (Op OP_RETURN), IOk (PushBytes d)]"
  shows "d = WITNESS_COMMITMENT_HEADER @ c"
  using assms instructions_op_return [of "WITNESS_COMMITMENT_HEADER @ c"] push_slice_op_return [of "WITNESS_COMMITMENT_HEADER @ c"]
  by (auto simp: commitment_script_def WITNESS_COMMITMENT_HEADER_def)

end

definition wire_push_slice :: "bytes \<Rightarrow> bytes \<Rightarrow> bytes" where
  "wire_push_slice s e = s @ push_prefix (length e) @ e"

lemma wire_push_append: "wire_push n xs = Some (i, ys) \<Longrightarrow> wire_push n (xs @ zs) = Some (i, ys @ zs)"
  by (simp add: wire_push_def split: if_splits)

lemma wire_pushdata_append: "wire_pushdata k xs = Some (i, ys) \<Longrightarrow> wire_pushdata k (xs @ zs) = Some (i, ys @ zs)"
  by (simp add: wire_pushdata_def wire_push_append not_less split: if_splits)

lemma wire_instruction_append:
  "wire_instruction b xs = Some (i, ys) \<Longrightarrow> wire_instruction b (xs @ zs) = Some (i, ys @ zs)"
  unfolding wire_instruction_def
  by (cases "b \<le> 75"; cases "b = 0x4c"; cases "b = 0x4d"; cases "b = 0x4e") (simp_all add: wire_push_append wire_pushdata_append)

lemma wire_instructions_append:
  "IErr \<notin> set (wire_instructions xs) \<Longrightarrow> wire_instructions (xs @ ys) = wire_instructions xs @ wire_instructions ys"
proof (induction xs rule: wire_instructions.induct)
  case (2 b xs)
  then obtain i r where i: "wire_instruction b xs = Some (i, r)"
    by (auto simp: wire_instructions.simps split: option.splits)
  with 2 have "wire_instructions (r @ ys) = wire_instructions r @ wire_instructions ys" by (auto simp: wire_instructions.simps)
  with i wire_instruction_append [OF i] show ?case by (simp add: wire_instructions.simps)
qed simp

interpretation wire_builder: script_builder wire_instructions wire_new_op_return wire_push_slice
proof
  fix d e s :: bytes
  assume "length d < 2 ^ 32" "length e < 2 ^ 32"
  then show "wire_instructions (wire_push_slice (wire_new_op_return d) e) =
      [IOk (Op OP_RETURN), IOk (PushBytes d), IOk (PushBytes e)]"
    using wire.instructions_op_return [of d] wire_instructions_push [of e]
    by (simp add: wire_push_slice_def wire_instructions_append)
qed (simp_all add: wire_push_slice_def wire_instructions_op_return)

section \<open>Messages of a coinbase\<close>

lemma parsed_messages_filter:
  "map fst (parsed_messages B v outs) =
     map (\<lambda>txout. snd (projr (coinbase_message_parse B (to_script_pubkey txout)))) (filter (is_message B) outs)"
  by (induction B v outs rule: parsed_messages.induct) (auto simp: is_message_def split: sum.splits)

lemma header_is_no_message: "parse_message (WITNESS_COMMITMENT_HEADER @ c) \<noteq> Inr (r, m)"
  by (simp add: parse_message_def WITNESS_COMMITMENT_HEADER_def tag_defs p_tag_def)

lemma commitment_is_no_message:
  assumes "script_builder (b_instructions B) (b_new_op_return B) push_slice"
    and "script_builder.commitment_script (b_new_op_return B) push_slice c (to_script_pubkey txout)" "length c = 32"
  shows "\<not> is_message B txout"
proof
  assume "is_message B txout"
  then obtain r m where "coinbase_message_parse B (to_script_pubkey txout) = Inr (r, m)"
    by (auto simp: is_message_def split: sum.splits)
  then obtain d where "b_instructions B (to_script_pubkey txout) = [IOk (Op OP_RETURN), IOk (PushBytes d)]" "parse_message d = Inr (r, m)"
    by (auto simp: coinbase_parse_Inr)
  with script_builder.commitment_script_instructions [OF assms] header_is_no_message show False by auto
qed

lemma burn_is_no_message:
  assumes "script_builder (b_instructions B) (b_new_op_return B) push_slice"
  shows "\<not> is_message B \<lparr>to_value = x, to_script_pubkey = [OP_RETURN]\<rparr>"
  using script_builder.instructions_op_return_only [OF assms] by (simp add: is_message_def coinbase_message_parse_def)

section \<open>The commitment of a finished block\<close>

lemma rposition_last: "P x \<Longrightarrow> rposition P (xs @ [x]) = Some (length xs)"
  by (induction xs) simp_all

text \<open>The rules every block has to follow about its transactions: the header commits to them, the coinbase has
  the reserved value as its witness, and the output that counts as the witness commitment commits to the witnesses.\<close>

definition witness_commitment_of :: "mining_env \<Rightarrow> transaction list \<Rightarrow> bytes" where
  "witness_commitment_of M txs = mn_witness_commitment M (mn_witness_root M txs) WITNESS_RESERVED_VALUE"

definition commits :: "mining_env \<Rightarrow> block \<Rightarrow> bool" where
  "commits M block \<longleftrightarrow> hdr_merkle_root (blk_header block) = compute_merkle_root M (blk_txdata block) \<and>
     (\<exists>coinbase txs i. blk_txdata block = coinbase # txs \<and> map txin_witness (tx_input coinbase) = [[WITNESS_RESERVED_VALUE]] \<and>
        witness_commitment_index (tx_output coinbase) = Inr i \<and>
        prefix (b_new_op_return (mn_btc M) (WITNESS_COMMITMENT_HEADER @ witness_commitment_of M (coinbase # txs)))
          (to_script_pubkey (tx_output coinbase ! i)))"

text \<open>A block under construction: its coinbase has the given outputs and ends with the commitment.\<close>

definition builder_of :: "mining_env \<Rightarrow> bool" where
  "builder_of M \<longleftrightarrow> script_builder (b_instructions (mn_btc M)) (b_new_op_return (mn_btc M)) (mn_push_slice M) \<and>
     (\<forall>root. length (mn_witness_commitment M root WITNESS_RESERVED_VALUE) = 32) \<and>
     (\<forall>coinbase coinbase' txs. mn_witness_root M (coinbase # txs) = mn_witness_root M (coinbase' # txs))"

lemma builder_ofD:
  assumes "builder_of M"
  shows "script_builder (b_instructions (mn_btc M)) (b_new_op_return (mn_btc M)) (mn_push_slice M)"
    "length (witness_commitment_of M txs) = 32"
    "witness_commitment_of M (coinbase # txs) = witness_commitment_of M (coinbase' # txs)"
proof -
  have "mn_witness_root M (coinbase # txs) = mn_witness_root M (coinbase' # txs)" using assms unfolding builder_of_def by blast
  then show "witness_commitment_of M (coinbase # txs) = witness_commitment_of M (coinbase' # txs)"
    by (simp add: witness_commitment_of_def)
qed (use assms in \<open>auto simp: builder_of_def witness_commitment_of_def\<close>)

definition finished :: "mining_env \<Rightarrow> header \<Rightarrow> txout list \<Rightarrow> transaction list \<Rightarrow> block \<Rightarrow> bool" where
  "finished M header outs txs block \<longleftrightarrow> (\<exists>coinbase commitment.
     block = \<lparr>blk_header = header\<lparr>hdr_merkle_root := compute_merkle_root M (coinbase # txs)\<rparr>, blk_txdata = coinbase # txs\<rparr> \<and>
     tx_output coinbase = outs @ [commitment] \<and> map txin_witness (tx_input coinbase) = [[WITNESS_RESERVED_VALUE]] \<and>
     script_builder.commitment_script (b_new_op_return (mn_btc M)) (mn_push_slice M) (witness_commitment_of M (coinbase # txs))
       (to_script_pubkey commitment))"

lemma finished_commitment_index:
  assumes "builder_of M"
    "script_builder.commitment_script (b_new_op_return (mn_btc M)) (mn_push_slice M) (witness_commitment_of M txs) (to_script_pubkey commitment)"
  shows "witness_commitment_index (outs @ [commitment]) = Inr (length outs)"
  using script_builder.commitment_script_looks [OF builder_ofD(1) [OF assms(1)] assms(2) builder_ofD(2) [OF assms(1)]]
  by (simp add: witness_commitment_index_def rposition_last)

lemma finished_commits:
  assumes "builder_of M" "finished M header outs txs block"
  shows "commits M block"
proof -
  from assms(2) obtain coinbase commitment where
    b: "block = \<lparr>blk_header = header\<lparr>hdr_merkle_root := compute_merkle_root M (coinbase # txs)\<rparr>, blk_txdata = coinbase # txs\<rparr>"
    "tx_output coinbase = outs @ [commitment]" "map txin_witness (tx_input coinbase) = [[WITNESS_RESERVED_VALUE]]"
    and c: "script_builder.commitment_script (b_new_op_return (mn_btc M)) (mn_push_slice M) (witness_commitment_of M (coinbase # txs))
       (to_script_pubkey commitment)" by (auto simp: finished_def)
  have "witness_commitment_index (tx_output coinbase) = Inr (length outs)"
    using finished_commitment_index [OF assms(1) c] b(2) by simp
  moreover have "tx_output coinbase ! length outs = commitment" using b(2) by simp
  ultimately show ?thesis
    using b script_builder.commitment_script_prefix [OF builder_ofD(1) [OF assms(1)] c] by (simp add: commits_def)
qed

lemma add_witness_commitment_parts:
  assumes "builder_of M" "add_witness_commitment M \<lparr>blk_header = header, blk_txdata = coinbase # txs\<rparr> = Some block"
    and "length (tx_input coinbase) = 1"
  obtains coinbase' commitment where
    "block = \<lparr>blk_header = header\<lparr>hdr_merkle_root := compute_merkle_root M (coinbase' # txs)\<rparr>, blk_txdata = coinbase' # txs\<rparr>"
    "tx_output coinbase' = tx_output coinbase @ [commitment]" "map txin_witness (tx_input coinbase') = [[WITNESS_RESERVED_VALUE]]"
    "to_script_pubkey commitment = b_new_op_return (mn_btc M) (WITNESS_COMMITMENT_HEADER @ witness_commitment_of M (coinbase' # txs))"
proof -
  from assms(3) obtain txin where i: "tx_input coinbase = [txin]" by (auto simp: length_Suc_conv)
  let ?cb = "coinbase\<lparr>tx_input := [txin\<lparr>txin_witness := [WITNESS_RESERVED_VALUE]\<rparr>]\<rparr>"
  let ?c = "witness_commitment_of M (?cb # txs)"
  let ?out = "\<lparr>to_value = 0, to_script_pubkey = b_new_op_return (mn_btc M) (WITNESS_COMMITMENT_HEADER @ ?c)\<rparr>"
  let ?cb' = "?cb\<lparr>tx_output := tx_output coinbase @ [?out]\<rparr>"
  have "block = \<lparr>blk_header = header\<lparr>hdr_merkle_root := compute_merkle_root M (?cb' # txs)\<rparr>, blk_txdata = ?cb' # txs\<rparr>"
    using assms(2) i by (simp add: add_witness_commitment_def Let_def witness_commitment_of_def)
  moreover have "to_script_pubkey ?out =
      b_new_op_return (mn_btc M) (WITNESS_COMMITMENT_HEADER @ witness_commitment_of M (?cb' # txs))"
    unfolding builder_ofD(3) [OF assms(1), of ?cb' txs ?cb] txout.select_convs by (rule refl)
  ultimately show thesis by (intro that [of ?cb' ?out]) simp_all
qed

lemma add_witness_commitment_finished:
  assumes "builder_of M" "add_witness_commitment M \<lparr>blk_header = header, blk_txdata = coinbase # txs\<rparr> = Some block"
    and "length (tx_input coinbase) = 1"
  shows "finished M header (tx_output coinbase) txs block"
proof (cases rule: add_witness_commitment_parts [OF assms])
  case (1 coinbase' commitment)
  then show ?thesis
    by (auto simp: finished_def script_builder.commitment_script_def [OF builder_ofD(1) [OF assms(1)]]
        intro!: exI [of _ coinbase'] exI [of _ commitment])
qed

lemma add_signet_solution_finished:
  assumes "builder_of M" "add_signet_solution M block sig witness = Some (Inr block')"
    and c0: "block = \<lparr>blk_header = h, blk_txdata = coinbase # txs\<rparr>" "tx_output coinbase = outs @ [commitment]"
      "map txin_witness (tx_input coinbase) = [[WITNESS_RESERVED_VALUE]]"
      "to_script_pubkey commitment = b_new_op_return (mn_btc M) (WITNESS_COMMITMENT_HEADER @ witness_commitment_of M (coinbase # txs))"
  shows "finished M h outs txs block'"
proof -
  note sb = builder_ofD(1) [OF assms(1)]
  have "script_builder.commitment_script (b_new_op_return (mn_btc M)) (mn_push_slice M) (witness_commitment_of M (coinbase # txs))
      (to_script_pubkey commitment)" using c0(4) by (simp add: script_builder.commitment_script_def [OF sb])
  from finished_commitment_index [OF assms(1) this] c0(2)
  have i: "witness_commitment_index (tx_output coinbase) = Inr (length outs)" by simp
  define d where "d = SIGNET_HEADER @ mn_serialize_script M sig @ mn_serialize_witness M witness"
  have sol: "add_signet_solution M block sig witness = (case push_bytes_try_from d of Inl _ \<Rightarrow> None | Inr d \<Rightarrow>
      Some (Inr \<lparr>blk_header = h\<lparr>hdr_merkle_root := compute_merkle_root M (push_to_output M (length outs) d coinbase # txs)\<rparr>,
        blk_txdata = push_to_output M (length outs) d coinbase # txs\<rparr>))"
    unfolding add_signet_solution_def c0(1) block.select_convs list.case i sum.case d_def Let_def by (rule refl)
  with assms(2) have d: "length d < 2 ^ 32"
    and b: "block' = \<lparr>blk_header = h\<lparr>hdr_merkle_root := compute_merkle_root M (push_to_output M (length outs) d coinbase # txs)\<rparr>,
      blk_txdata = push_to_output M (length outs) d coinbase # txs\<rparr>"
    by (simp_all add: push_bytes_try_from_def split: if_splits)
  let ?cb = "push_to_output M (length outs) d coinbase"
  let ?out = "commitment\<lparr>to_script_pubkey := mn_push_slice M (to_script_pubkey commitment) d\<rparr>"
  have out: "tx_output ?cb = outs @ [?out]" "tx_input ?cb = tx_input coinbase"
    using c0(2) by (simp_all add: push_to_output_def list_update_append)
  have "script_builder.commitment_script (b_new_op_return (mn_btc M)) (mn_push_slice M) (witness_commitment_of M (?cb # txs)) (to_script_pubkey ?out)"
    using d c0(4) builder_ofD(3) [OF assms(1), of coinbase txs ?cb] by (auto simp: script_builder.commitment_script_def [OF sb])
  with b out c0(3) show ?thesis by (auto simp: finished_def intro!: exI [of _ ?cb] exI [of _ ?out])
qed

text \<open>What \<open>finalize_block\<close> and \<open>sign_signet_block\<close> make of the parts of a block.\<close>

definition reward_output :: "bytes \<Rightarrow> amount \<Rightarrow> txout" where
  "reward_output spk value = (if value > 0 then \<lparr>to_value = value, to_script_pubkey = spk\<rparr>
     else \<lparr>to_value = 0, to_script_pubkey = [OP_RETURN]\<rparr>)"

definition unmined_header :: "blockhash \<Rightarrow> u32 \<Rightarrow> u32 \<Rightarrow> header" where
  "unmined_header parent time bits = \<lparr>hdr_version = 0x20000000, hdr_prev_blockhash = parent, hdr_merkle_root = all_zeros,
     hdr_time = time, hdr_bits = bits, hdr_nonce = 0\<rparr>"

lemma finalize_block_parts:
  assumes "finalize_block M v spk outs txs fees th = Some (Inr block)"
  obtains tip hi reward time coinbase where "current_chain_tip v = Some tip"
    "get_header_info (mn_btc M) (block_hashes v) tip = Inr hi"
    "get_block_value (hi_height hi + 1) fees (mn_network M) = Some reward" "block_time M hi th = Some time"
    "tx_output coinbase = reward_output spk reward # outs" "length (tx_input coinbase) = 1"
    "add_witness_commitment M \<lparr>blk_header = unmined_header tip time (th_bits th), blk_txdata = coinbase # txs\<rparr> = Some block"
proof -
  from assms obtain tip where tip: "current_chain_tip v = Some tip" by (auto simp: finalize_block_def split: option.splits)
  with assms obtain hi where hi: "get_header_info (mn_btc M) (block_hashes v) tip = Inr hi"
    by (auto simp: finalize_block_def split: sum.splits)
  with tip assms obtain cb where cb: "finalize_coinbase M (hi_height hi) spk outs fees = Some cb"
    by (auto simp: finalize_block_def split: option.splits)
  with tip hi assms obtain time where time: "block_time M hi th = Some time"
    by (auto simp: finalize_block_def split: option.splits)
  from cb obtain reward where v: "get_block_value (hi_height hi + 1) fees (mn_network M) = Some reward"
    "tx_output cb = reward_output spk reward # outs" "length (tx_input cb) = 1"
    by (auto simp: finalize_coinbase_def reward_output_def Let_def split: option.splits)
  have "add_witness_commitment M \<lparr>blk_header = unmined_header tip time (th_bits th), blk_txdata = cb # txs\<rparr> = Some block"
    using assms tip hi cb time by (simp add: finalize_block_def unmined_header_def Let_def)
  with that tip hi v time show ?thesis by blast
qed

lemma map_sum_Inr: "map_sum f id z = Inr y \<Longrightarrow> (z = Inr y \<Longrightarrow> P) \<Longrightarrow> P"
  by (cases z) simp_all

lemma bind_case_sum:
  "Option.bind x (case_sum f g) = Some y \<longleftrightarrow> (\<exists>e. x = Some (Inl e) \<and> f e = Some y) \<or> (\<exists>z. x = Some (Inr z) \<and> g z = Some y)"
  by (cases x) (auto split: sum.splits)

lemma signed_block_finished:
  assumes "builder_of M" "add_witness_commitment M \<lparr>blk_header = header, blk_txdata = coinbase # txs\<rparr> = Some block"
    and "length (tx_input coinbase) = 1" "sign_signet_block M block challenge = Some (Inr block')"
  shows "finished M header (tx_output coinbase) txs block'"
proof -
  obtain txs where t: "signet_txs_new M block challenge = Some (Inr txs)"
    using assms(4) by (auto simp: sign_signet_block_def bind_case_sum)
  obtain data where r: "mn_sign_with_wallet M (to_sign txs) (b_compute_txid (mn_btc M) (to_spend txs), challenge) = Inr (data, True)"
    using assms(4) t by (auto simp: sign_signet_block_def split: sum.splits prod.splits if_splits)
  obtain signed_tx where d: "mn_deserialize M data = Some signed_tx"
    using assms(4) t r by (auto simp: sign_signet_block_def split: option.splits)
  obtain txin txins where i: "tx_input signed_tx = txin # txins"
    using assms(4) t r d by (auto simp: sign_signet_block_def split: list.splits)
  have "map_option (map_sum SS_NoWitnessCommitment id) (add_signet_solution M block (script_sig txin) (txin_witness txin)) = Some (Inr block')"
    using assms(4) t r d i by (simp add: sign_signet_block_def)
  then obtain sig wit where sol: "add_signet_solution M block sig wit = Some (Inr block')" by (auto elim!: map_sum_Inr)
  show ?thesis
  proof (cases rule: add_witness_commitment_parts [OF assms(1-3)])
    case (1 coinbase' commitment)
    from add_signet_solution_finished [OF assms(1) sol 1] show ?thesis by (simp add: finished_def)
  qed
qed

lemma await_block_connection_seen:
  "await_block_connection B views block_hash = Inr () \<Longrightarrow>
     \<exists>v\<in>set views. \<exists>infos. try_get_block_infos B (block_hashes v) block_hash 0 = Inr (Some infos)"
  by (induction B views block_hash rule: await_block_connection.induct) (auto split: sum.splits option.splits)

lemma grind_and_submit_parts:
  assumes "grind_and_submit M views block = (Inr block_hash, submitted)"
  obtains header where "mn_grind M (blk_header block) = Inr (Some header)" "submitted = [block\<lparr>blk_header := header\<rparr>]"
    "block_hash = b_block_hash (mn_btc M) header" "mn_submit_block M (block\<lparr>blk_header := header\<rparr>) = Inr None"
    "\<exists>v\<in>set views. \<exists>infos. try_get_block_infos (mn_btc M) (block_hashes v) block_hash 0 = Inr (Some infos)"
proof -
  from assms obtain header where h: "mn_grind M (blk_header block) = Inr (Some header)"
    by (auto simp: grind_and_submit_def split: sum.splits option.splits)
  let ?b = "block\<lparr>blk_header := header\<rparr>"
  from assms h have s: "submit M views ?b = (Inr block_hash, submitted)" by (simp add: grind_and_submit_def)
  then have n: "mn_submit_block M ?b = Inr None" by (auto simp: submit_def split: sum.splits option.splits)
  let ?h = "b_block_hash (mn_btc M) header"
  have sub: "submit M views ?b = (case await_block_connection (mn_btc M) views ?h of
      Inl e \<Rightarrow> (Inl (ME_AwaitBlockConnection e), [?b]) | Inr _ \<Rightarrow> (Inr ?h, [?b]))"
    by (cases "await_block_connection (mn_btc M) views ?h") (simp_all add: submit_def n Let_def)
  obtain u where aw: "await_block_connection (mn_btc M) views ?h = Inr u"
    using s unfolding sub by (cases "await_block_connection (mn_btc M) views ?h") simp_all
  with s have "submitted = [?b]" "block_hash = ?h" unfolding sub by simp_all
  moreover have "await_block_connection (mn_btc M) views ?h = Inr ()" using aw by simp
  ultimately show thesis using that h n await_block_connection_seen by blast
qed

lemma mine_parts:
  assumes "builder_of M" "mine M v views spk outs txs fees th = Some (Inr block_hash, submitted)"
  obtains tip hi reward time block where "current_chain_tip v = Some tip"
    "get_header_info (mn_btc M) (block_hashes v) tip = Inr hi"
    "get_block_value (hi_height hi + 1) fees (mn_network M) = Some reward" "block_time M hi th = Some time"
    "finished M (unmined_header tip time (th_bits th)) (reward_output spk reward # outs) txs block"
    "grind_and_submit M views block = (Inr block_hash, submitted)"
proof -
  from assms(2) obtain block where fin: "finalize_block M v spk outs txs fees th = Some (Inr block)"
    by (auto simp: mine_def bind_case_sum)
  show thesis
  proof (cases rule: finalize_block_parts [OF fin])
    case (1 tip hi reward time coinbase)
    show ?thesis
    proof (cases "mn_signet_challenge M")
      case None
      then have "grind_and_submit M views block = (Inr block_hash, submitted)" using assms(2) fin by (simp add: mine_def)
      with that 1 add_witness_commitment_finished [OF assms(1) 1(7,6)] show ?thesis by metis
    next
      case (Some challenge)
      with assms(2) fin obtain block' where "sign_signet_block M block challenge = Some (Inr block')"
        "grind_and_submit M views block' = (Inr block_hash, submitted)"
        by (auto simp: mine_def bind_case_sum)
      with that 1 signed_block_finished [OF assms(1) 1(7,6)] show ?thesis by metis
    qed
  qed
qed

lemma decode_template_txs_Inr:
  "decode_template_txs M ts = Inr res \<Longrightarrow>
     map (\<lambda>t. mn_deserialize M (gt_data t)) ts = map (\<lambda>(tx, _). Some tx) res \<and> map snd res = map (\<lambda>t. of_int (gt_fee t)) ts"
  by (induction ts arbitrary: res) (auto split: option.splits if_splits sum.splits)

lemma select_block_txs_parts:
  assumes "select_block_txs M p tip = Inr (outs, selected, th)"
  obtains client template data coinbase where "mn_gbt_client M = Some client"
    "client ([''segwit'', ''bip300301''] @ (if mn_network M = Signet then [''signet''] else [])) = Inr template"
    "gbt_prev_blockhash template = tip" "gbt_coinbase template = CoinbaseTxn data" "mn_deserialize M data = Some coinbase"
    "outs = filter (is_message (mn_btc M)) (tx_output coinbase)" "decode_template_txs M (gbt_transactions template) = Inr selected"
    "th = \<lparr>th_bits = gbt_compact_target template, th_mintime = gbt_mintime template\<rparr>"
proof -
  from assms obtain client where c: "mn_gbt_client M = Some client" by (auto simp: select_block_txs_def Let_def split: option.splits)
  with assms obtain t where
    t: "client ([''segwit'', ''bip300301''] @ (if mn_network M = Signet then [''signet''] else [])) = Inr t"
    by (auto simp: select_block_txs_def fetch_block_template_def Let_def simp del: append.simps split: sum.splits)
  note start = assms [unfolded select_block_txs_def Let_def c option.case fetch_block_template_def t sum.case]
  from start have tip: "gbt_prev_blockhash t = tip" by (simp split: if_splits)
  with start obtain data where d: "gbt_coinbase t = CoinbaseTxn data" by (auto split: coinbase_txn_or_value.splits)
  with start tip obtain cb where cb: "mn_deserialize M data = Some cb" by (auto split: option.splits)
  from start tip d cb have "outs = filter (is_message (mn_btc M)) (tx_output cb)" "decode_template_txs M (gbt_transactions t) = Inr selected"
    "th = \<lparr>th_bits = gbt_compact_target t, th_mintime = gbt_mintime t\<rparr>" by (auto split: sum.splits)
  with that c t tip d cb show thesis by blast
qed

section \<open>Properties\<close>

text \<open>Grinding as \<open>Grind\<close> has it: some run of the threads, on a hash that is the hash of the header with the candidate's
  nonce, and against the target of the header's bits.\<close>

definition grinds :: "mining_env \<Rightarrow> (header \<Rightarrow> pow) \<Rightarrow> (u32 \<Rightarrow> bytes \<Rightarrow> bool) \<Rightarrow> u32 \<Rightarrow> bool" where
  "grinds M pw meets threads \<longleftrightarrow> 0 < threads \<and>
     (\<forall>h. pow_ok (pw h) \<and> pow_is_met_by (pw h) = meets (hdr_bits h) \<and>
        (\<forall>n. candidate_hash (pw h) n = b_block_hash (mn_btc M) (h\<lparr>hdr_nonce := n\<rparr>)) \<and>
        (\<forall>r. mn_grind M h = Inr r \<longrightarrow> (\<exists>st. (grind_step (pw h) threads)\<^sup>*\<^sup>* (grind_init threads) st \<and> grind_joined st \<and>
           r = grind_result h st)))"

lemma grinds_meets:
  assumes "grinds M pw meets threads" "mn_grind M h = Inr (Some h')"
  shows "h' = h\<lparr>hdr_nonce := hdr_nonce h'\<rparr>" "meets (hdr_bits h) (b_block_hash (mn_btc M) h')"
proof -
  from assms obtain st where st: "(grind_step (pw h) threads)\<^sup>*\<^sup>* (grind_init threads) st" "grind_joined st"
    "grind_result h st = Some h'" by (fastforce simp: grinds_def)
  have g: "0 < threads" "pow_ok (pw h)" "pow_is_met_by (pw h) = meets (hdr_bits h)"
    "candidate_hash (pw h) n = b_block_hash (mn_btc M) (h\<lparr>hdr_nonce := n\<rparr>)" for n
    using assms(1) by (simp_all add: grinds_def)
  from grind_joined_result [OF g(1,2) st(1,2), of h] st(3)
  have r: "h' = h\<lparr>hdr_nonce := hdr_nonce h'\<rparr>" "meets (hdr_bits h) (candidate_hash (pw h) (hdr_nonce h'))" by (simp_all add: g(3))
  from r(2) show "meets (hdr_bits h) (b_block_hash (mn_btc M) h')" unfolding g(4) r(1) [symmetric] .
  from r(1) show "h' = h\<lparr>hdr_nonce := hdr_nonce h'\<rparr>" .
qed

lemma commits_nonce: "commits M (block\<lparr>blk_header := (blk_header block)\<lparr>hdr_nonce := n\<rparr>\<rparr>) = commits M block"
  by (simp add: commits_def)

lemma generate_block_parts:
  assumes "builder_of M" "generate_block M p v views spk = Some (Inr block_hash, submitted)"
  obtains client template data coinbase selected tip hi reward time block where
    "current_chain_tip (bp_validator p) = Some (gbt_prev_blockhash template)" "mn_gbt_client M = Some client"
    "client ([''segwit'', ''bip300301''] @ (if mn_network M = Signet then [''signet''] else [])) = Inr template"
    "gbt_coinbase template = CoinbaseTxn data" "mn_deserialize M data = Some coinbase"
    "decode_template_txs M (gbt_transactions template) = Inr selected"
    "current_chain_tip v = Some tip" "get_header_info (mn_btc M) (block_hashes v) tip = Inr hi"
    "get_block_value (hi_height hi + 1) (sum_list (map snd selected)) (mn_network M) = Some reward"
    "finished M (unmined_header tip time (gbt_compact_target template))
       (reward_output spk reward # filter (is_message (mn_btc M)) (tx_output coinbase)) (map fst selected) block"
    "grind_and_submit M views block = (Inr block_hash, submitted)"
proof -
  from assms(2) obtain vtip where vt: "current_chain_tip (bp_validator p) = Some vtip"
    by (auto simp: generate_block_def split: option.splits)
  with assms(2) obtain outs selected th where sel: "select_block_txs M p vtip = Inr (outs, selected, th)"
    by (auto simp: generate_block_def split: sum.splits)
  have "mine M v views spk outs (map fst selected) (sum_list (map snd selected)) th = Some (Inr block_hash, submitted)"
    using assms(2) vt sel by (auto simp: generate_block_def Let_def elim!: map_sum_Inr)
  note mined = mine_parts [OF assms(1) this]
  show thesis
  proof (cases rule: select_block_txs_parts [OF sel])
    case (1 client template data coinbase)
    show ?thesis
    proof (cases rule: mined)
      case (1 tip hi reward time block)
      with \<open>th = _\<close> \<open>outs = _\<close> vt \<open>gbt_prev_blockhash template = vtip\<close> \<open>mn_gbt_client M = _\<close> \<open>client _ = _\<close>
        \<open>gbt_coinbase template = _\<close> \<open>mn_deserialize M data = _\<close> \<open>decode_template_txs M _ = _\<close>
      show ?thesis by (intro that [of template client data coinbase selected tip hi reward time block]) simp_all
    qed
  qed
qed

text \<open>C8: a block that is generated successfully was accepted by the node and connected by the validator. It is built
  on the validator's tip with the target of the template, its hash meets that target, its header commits to its transactions
  and its coinbase to their witnesses, also with a signet solution in it.\<close>

theorem generated_block_valid:
  assumes "builder_of M" "grinds M pw meets threads" "generate_block M p v views spk = Some (Inr block_hash, submitted)"
  shows "\<exists>client template block. mn_gbt_client M = Some client \<and>
    client ([''segwit'', ''bip300301''] @ (if mn_network M = Signet then [''signet''] else [])) = Inr template \<and>
    current_chain_tip (bp_validator p) = Some (gbt_prev_blockhash template) \<and>
    submitted = [block] \<and> mn_submit_block M block = Inr None \<and> block_hash = b_block_hash (mn_btc M) (blk_header block) \<and>
    current_chain_tip v = Some (hdr_prev_blockhash (blk_header block)) \<and> hdr_bits (blk_header block) = gbt_compact_target template \<and>
    meets (gbt_compact_target template) block_hash \<and> commits M block \<and>
    (\<exists>w\<in>set views. \<exists>infos. try_get_block_infos (mn_btc M) (block_hashes w) block_hash 0 = Inr (Some infos))"
proof (cases rule: generate_block_parts [OF assms(1,3)])
  case (1 client template data coinbase selected tip hi reward time block)
  note g = 1
  show ?thesis
  proof (cases rule: grind_and_submit_parts [OF g(11)])
    case (1 header)
    note m = grinds_meets [OF assms(2) 1(1)]
    let ?b = "block\<lparr>blk_header := header\<rparr>"
    have h: "hdr_prev_blockhash (blk_header block) = tip" "hdr_bits (blk_header block) = gbt_compact_target template"
      using g(10) by (auto simp: finished_def unmined_header_def)
    have same: "hdr_prev_blockhash header = hdr_prev_blockhash (blk_header block)" "hdr_bits header = hdr_bits (blk_header block)"
      using m(1) by (metis header.select_convs(2) header.surjective header.update_convs(6), metis header.select_convs(5) header.surjective header.update_convs(6))
    have "commits M ?b" using finished_commits [OF assms(1) g(10)] commits_nonce [of M "hdr_nonce header" block] m(1) by simp
    moreover have "meets (gbt_compact_target template) block_hash" using m(2) h 1(3) by simp
    ultimately show ?thesis using g(1-3,7) 1 h same by (intro exI [of _ client] exI [of _ template] exI [of _ ?b]) simp
  qed
qed

text \<open>C25: the block that is generated is the template's: it has the template's transactions in order, its coinbase pays
  subsidy and fees to the given address (or has an empty unspendable output if there is nothing to pay), and carries exactly the messages of the
  template's coinbase. (The address is not itself the script of a message.)\<close>

theorem generated_block_keeps_template:
  assumes "builder_of M" "coinbase_message_parse (mn_btc M) spk = Inl e"
    and "generate_block M p v views spk = Some (Inr block_hash, [block])"
  shows "\<exists>client template data coinbase selected tip hi reward. mn_gbt_client M = Some client \<and>
    client ([''segwit'', ''bip300301''] @ (if mn_network M = Signet then [''signet''] else [])) = Inr template \<and>
    gbt_coinbase template = CoinbaseTxn data \<and> mn_deserialize M data = Some coinbase \<and>
    map (\<lambda>t. mn_deserialize M (gt_data t)) (gbt_transactions template) = map Some (tl (blk_txdata block)) \<and>
    current_chain_tip v = Some tip \<and> get_header_info (mn_btc M) (block_hashes v) tip = Inr hi \<and>
    get_block_value (hi_height hi + 1) (\<Sum>t\<leftarrow>gbt_transactions template. of_int (gt_fee t)) (mn_network M) = Some reward \<and>
    hd (tx_output (hd (blk_txdata block))) = reward_output spk reward \<and>
    map fst (parsed_messages (mn_btc M) 0 (tx_output (hd (blk_txdata block)))) =
      map fst (parsed_messages (mn_btc M) 0 (tx_output coinbase))"
proof (cases rule: generate_block_parts [OF assms(1,3)])
  case (1 client template data coinbase selected tip hi reward time block0)
  note g = 1
  let ?B = "mn_btc M"
  show ?thesis
  proof (cases rule: grind_and_submit_parts [OF g(11)])
    case (1 header)
    from g(10) obtain cb commitment where
      cb: "blk_txdata block0 = cb # map fst selected" "tx_output cb = (reward_output spk reward # filter (is_message ?B) (tx_output coinbase)) @ [commitment]"
      and c: "script_builder.commitment_script (b_new_op_return ?B) (mn_push_slice M) (witness_commitment_of M (cb # map fst selected))
        (to_script_pubkey commitment)"
      unfolding finished_def by (elim exE conjE) simp
    note sb = builder_ofD(1) [OF assms(1)]
    have "\<not> is_message ?B commitment" by (rule commitment_is_no_message [OF sb c builder_ofD(2) [OF assms(1)]])
    moreover have "\<not> is_message ?B (reward_output spk reward)"
      using burn_is_no_message [OF sb] assms(2) by (simp add: reward_output_def is_message_def)
    ultimately have "map fst (parsed_messages ?B 0 (tx_output cb)) = map fst (parsed_messages ?B 0 (tx_output coinbase))"
      unfolding parsed_messages_filter cb(2) by (simp add: filter_filter)
    moreover have "blk_txdata block = cb # map fst selected" using 1(2) cb(1) by simp
    moreover note decode_template_txs_Inr [OF g(6)]
    ultimately show ?thesis using g(2-5,7-9) cb(2)
      by (intro exI [of _ client] exI [of _ template] exI [of _ data] exI [of _ coinbase] exI [of _ selected] exI [of _ tip] exI [of _ hi]
          exI [of _ reward]) (simp add: comp_def case_prod_beta)
  qed
qed

lemma midpoint_unat: "unat (midpoint a b) = (unat a + unat b) div 2"
proof -
  have "(unat a + unat b) div 2 < 2 ^ 64" using unsigned_less [of a, where 'a = nat] unsigned_less [of b, where 'a = nat] by simp
  then show ?thesis by (simp add: midpoint_def unat_of_nat)
qed

lemma signet_block_time_bounds:
  assumes "0 < interval" "unat tip + 1 < 2 ^ 64"
  shows "unat tip < unat (signet_block_time tip now interval)" "unat (signet_block_time tip now interval) \<le> max (unat now) (unat tip + 1)"
proof -
  let ?age = "saturating_sub now tip"
  have age: "unat ?age = unat now - unat tip" by (rule saturating_sub_unat)
  have i: "0 < unat interval" using assms(1) by (simp add: word_less_nat_alt)
  have succ: "unat (tip + 1) = unat tip + 1" using assms(2) by (simp add: unat_word_ariths)
  have "unat tip < unat (signet_block_time tip now interval) \<and> unat (signet_block_time tip now interval) \<le> max (unat now) (unat tip + 1)"
  proof (cases "?age > interval")
    case True
    then have a: "unat interval < unat now - unat tip" using age by (simp add: word_less_nat_alt)
    let ?m = "(unat ?age + unat interval) div 2"
    have m1: "0 < ?m" using a i age by linarith
    have m2: "?m \<le> unat now - unat tip" using a i age by linarith
    note m = m1 m2
    have "unat (tip + midpoint ?age interval) = unat tip + ?m"
    proof -
      have "unat tip + ?m < 2 ^ 64" using m a unsigned_less [of now, where 'a = nat] by simp
      then show ?thesis by (simp add: unat_word_ariths midpoint_unat)
    qed
    with m a True show ?thesis by (simp add: signet_block_time_def Let_def)
  next
    case False
    then show ?thesis using succ by (auto simp: signet_block_time_def Let_def max_def word_le_nat_alt)
  qed
  then show "unat tip < unat (signet_block_time tip now interval)" "unat (signet_block_time tip now interval) \<le> max (unat now) (unat tip + 1)"
    by blast+
qed

text \<open>C20: a block's time is after the tip's, at least the template's minimum, and otherwise not ahead of the clock, on a signet
  as elsewhere, as long as the clock and the minimum fit the header's 32 bits.\<close>

theorem block_time_bounds:
  assumes "block_time M tip_header template = Some time" "mn_now M = Some now"
    and "hi_timestamp tip_header \<noteq> 0xFFFFFFFF" "unat now < 2 ^ 32" "unat (th_mintime template) < 2 ^ 32"
  shows "hi_timestamp tip_header < time \<and> unat (th_mintime template) \<le> unat time \<and>
    unat time \<le> max (max (unat now) (unat (hi_timestamp tip_header) + 1)) (unat (th_mintime template))"
proof -
  let ?tip = "ucast (hi_timestamp tip_header) :: u64"
  let ?t = "case mn_signet_challenge M of Some challenge \<Rightarrow> signet_block_time ?tip now (target_block_interval challenge) | None \<Rightarrow> max now (?tip + 1)"
  have tip: "unat ?tip = unat (hi_timestamp tip_header)" by (simp add: unsigned_ucast_eq take_bit_nat_eq_self unsigned_less [THEN less_trans])
  have lt: "unat (hi_timestamp tip_header) + 1 < 2 ^ 32"
    using assms(3) unat_height_succ [of "hi_timestamp tip_header"] unsigned_less [of "hi_timestamp tip_header + 1", where 'a = nat] by simp
  then have succ: "unat (?tip + 1) = unat ?tip + 1" using tip by (simp add: unat_word_ariths)
  have "unat ?tip < unat ?t \<and> unat ?t \<le> max (unat now) (unat ?tip + 1)"
  proof (cases "mn_signet_challenge M")
    case None
    then show ?thesis using succ by (auto simp: max_def word_le_nat_alt)
  next
    case (Some challenge)
    have "0 < target_block_interval challenge" by (simp add: target_block_interval_def)
    with signet_block_time_bounds [OF this, of ?tip now] lt tip Some show ?thesis by simp
  qed
  then have t: "unat ?tip < unat (max ?t (th_mintime template))" "unat (th_mintime template) \<le> unat (max ?t (th_mintime template))"
    "unat (max ?t (th_mintime template)) \<le> max (max (unat now) (unat ?tip + 1)) (unat (th_mintime template))"
    by (auto simp: max_def word_le_nat_alt)
  have "time = ucast (max ?t (th_mintime template))" using assms(1,2) by (simp add: block_time_def Let_def)
  moreover have "unat (max ?t (th_mintime template)) < 2 ^ 32" using t(3) assms(4,5) lt tip by simp
  ultimately have "unat time = unat (max ?t (th_mintime template))" by (simp add: unsigned_ucast_eq take_bit_nat_eq_self)
  with t tip show ?thesis by (simp add: word_less_nat_alt)
qed

lemma sum_blocks: "(\<Sum>h<n * k. g (h div k)) = k * (\<Sum>i<n. g i :: nat)" if "0 < k"
proof (induction n)
  case (Suc n)
  have "(\<Sum>h<Suc n * k. g (h div k)) = (\<Sum>h<n * k. g (h div k)) + (\<Sum>h = n * k..<n * k + k. g (h div k))"
    by (simp add: add.commute sum.lessThan_Suc lessThan_atLeast0 sum.atLeastLessThan_concat)
  moreover have "(\<Sum>h = n * k..<n * k + k. g (h div k)) = (\<Sum>h = n * k..<n * k + k. g n)"
    by (rule sum.cong) (auto simp: that div_nat_eqI mult.commute)
  ultimately show ?case using Suc by (simp add: distrib_left)
qed simp

lemma sum_words: "(\<Sum>h\<in>UNIV. g (unat (h :: u32))) = (\<Sum>h<2 ^ 32. g h :: nat)"
proof (rule sum.reindex_cong [symmetric, of unat])
  show "{..<2 ^ 32} = range (unat :: u32 \<Rightarrow> nat)"
  proof (intro equalityI subsetI)
    fix x :: nat
    assume "x \<in> {..<2 ^ 32}"
    then have "unat (of_nat x :: u32) = x" by (simp add: unat_of_nat)
    then show "x \<in> range (unat :: u32 \<Rightarrow> nat)" by (rule range_eqI [OF sym])
  next
    fix x
    assume "x \<in> range (unat :: u32 \<Rightarrow> nat)"
    then obtain w :: u32 where "x = unat w" by blast
    then show "x \<in> {..<2 ^ 32}" using unsigned_less [of w, where 'a = nat] by simp
  qed
qed (simp_all add: inj_on_def word_unat_eq_iff)

text \<open>The subsidy after a number of halvings.\<close>

definition subsidy :: "nat \<Rightarrow> nat" where
  "subsidy halvings = (if halvings \<ge> 64 then 0 else 5000000000 div 2 ^ halvings)"

lemma get_block_value_subsidy:
  "\<exists>x. get_block_value h 0 network = Some x \<and> unat x = subsidy (unat h div (if network = Regtest then 150 else 210000))"
proof -
  let ?i = "case network of Regtest \<Rightarrow> 150 | _ \<Rightarrow> SUBSIDY_HALVING_INTERVAL"
  have "unat (h div ?i) = unat h div (if network = Regtest then 150 else 210000)"
    by (cases network) (simp_all add: unat_div_distrib SUBSIDY_HALVING_INTERVAL_def)
  moreover have "unat (drop_bit k (5000000000 :: u64)) = 5000000000 div 2 ^ k" for k
    unfolding unat_drop_bit_eq by (simp add: drop_bit_eq_div)
  moreover have "checked_add 0 y = Some y" for y :: u64 using unsigned_less [of y, where 'a = nat] by (simp add: checked_add_def)
  ultimately show ?thesis by (simp add: get_block_value_def Let_def subsidy_def word_le_nat_alt)
qed

text \<open>The subsidies of all heights together are 9999999989 satoshis for every block between two halvings, which is
  20999999.9769 coins where the subsidy halves every 210000 blocks, and no more than the maximal amount of money.\<close>

theorem subsidies_bounded:
  "\<exists>f. (\<forall>h. get_block_value h 0 network = Some (f h)) \<and> (\<Sum>h\<in>UNIV. unat (f h)) \<le> unat MAX_MONEY \<and>
     (\<Sum>h\<in>UNIV. unat (f h)) = (if network = Regtest then 150 else 210000) * 9999999989"
proof -
  let ?k = "if network = Regtest then 150 else 210000 :: nat"
  obtain f where f: "get_block_value h 0 network = Some (f h)" "unat (f h) = subsidy (unat h div ?k)" for h
    using get_block_value_subsidy [of _ network] by metis
  have "(\<Sum>h\<in>UNIV. unat (f h)) = (\<Sum>h<2 ^ 32. subsidy (h div ?k))" by (simp add: f(2) sum_words [of "\<lambda>h. subsidy (h div ?k)"])
  also have "\<dots> = (\<Sum>h<64 * ?k. subsidy (h div ?k))"
  proof (rule sum.mono_neutral_right)
    show "\<forall>h\<in>{..<2 ^ 32} - {..<64 * ?k}. subsidy (h div ?k) = 0"
      by (auto simp: subsidy_def not_less dest: div_le_mono [of _ _ ?k])
  qed auto
  also have "\<dots> = ?k * (\<Sum>i<64. subsidy i)" by (rule sum_blocks) simp
  also have "(\<Sum>i<64. subsidy i) = 9999999989" by (simp add: subsidy_def lessThan_nat_numeral lessThan_Suc)
  finally have "(\<Sum>h\<in>UNIV. unat (f h)) = ?k * 9999999989" .
  with f(1) show ?thesis by (intro exI [of _ f]) (simp add: MAX_MONEY_def)
qed

text \<open>The shorter interval is never used: it is compared with the 44 characters of a hexadecimal string, while a
  challenge is a script, and the one the string spells has 22 bytes.\<close>

lemma l2l_interval_unused:
  "target_block_interval [0x00, 0x14, 0x15, 0x51, 0x18, 0x8e, 0x51, 0x53, 0x53, 0x3b, 0x4f, 0xdd, 0x55, 0x54, 0x49, 0xe6, 0x40,
     0xd9, 0xcc, 0x12, 0x94, 0x56] = 600"
  by (simp add: target_block_interval_def L2L_SIGNET_CHALLENGE_def)

section \<open>A mined block\<close>

text \<open>A signet whose challenge the node's wallet solves, a template on the tip of a chain of two blocks, and a hash of which
  the first nonce meets the target.\<close>

definition hash_offset :: "header \<Rightarrow> u8" where
  "hash_offset h = (if hdr_bits h = 7 then 9 else 0)"

definition mining_btc :: btc where
  "mining_btc = sample_btc\<lparr>b_block_hash := (\<lambda>h. pad32 [hash_offset h + ucast (hdr_nonce h)])\<rparr>"

definition mining_template :: gbt_template where
  "mining_template = \<lparr>gbt_prev_blockhash = pad32 [2], gbt_compact_target = 7, gbt_mintime = 20, gbt_coinbase = CoinbaseTxn [1],
     gbt_transactions = [\<lparr>gt_txid = pad32 [0], gt_data = [2], gt_fee = 30\<rparr>]\<rparr>"

definition mining_tx :: transaction where
  "mining_tx = \<lparr>tx_version = 2, tx_lock_time = 0, tx_input = [default_txin \<lparr>op_txid = pad32 [5], op_vout = 0\<rparr>],
     tx_output = [\<lparr>to_value = 10, to_script_pubkey = wire_new_op_return (msg_bytes (M7BmmAccept
       \<lparr>m7_sidechain_number = 3, m7_sidechain_block_hash = pad32 [8]\<rparr>))\<rparr>]\<rparr>"

definition sample_mining :: mining_env where
  "sample_mining = \<lparr>mn_btc = mining_btc, mn_push_slice = wire_push_slice, mn_witness_root = (\<lambda>_. all_zeros),
     mn_witness_commitment = (\<lambda>_ _. pad32 [6]), mn_merkle_root = (\<lambda>ids. pad32 (concat ids)), mn_serialize_script = id, mn_serialize_witness = concat,
     mn_height_script = (\<lambda>_. [1, 2]), mn_deserialize = (\<lambda>d. if d \<in> {[1], [2]} then Some mining_tx else None), mn_network = Signet,
     mn_signet_challenge = Some [OP_TRUE], mn_now = Some 1000, mn_gbt_client = Some (\<lambda>_. Inr mining_template),
     mn_sign_with_wallet = (\<lambda>_ _. Inr ([2], True)), mn_grind = (\<lambda>h. Inr (Some (h\<lparr>hdr_nonce := 0\<rparr>))),
     mn_submit_block = (\<lambda>_. Inr None), mn_address_from_script = Some, mn_address_is_mine = (\<lambda>_. Inr True)\<rparr>"

definition sample_mining_pow :: "header \<Rightarrow> pow" where
  "sample_mining_pow h = \<lparr>pow_tail = replicate 16 0, pow_target = pad32 [9], pow_hash = (\<lambda>bs. pad32 [hash_offset h + bs ! 12]),
     pow_is_met_by = (\<lambda>h. le_nat h \<le> le_nat (pad32 [9]))\<rparr>"

definition mined_view :: dbs where
  "mined_view = template_validator\<lparr>block_hashes := (block_hashes template_validator)\<lparr>
     header_db := (header_db fork_tables)(pad32 [9] \<mapsto> (fork_header 0 (pad32 [2]))\<lparr>hdr_bits := 7\<rparr>), height_db := (height_db fork_tables)(pad32 [9] \<mapsto> 2)\<rparr>\<rparr>"

lemma sample_mining_simps [simp]:
  "mn_btc sample_mining = mining_btc" "mn_push_slice sample_mining = wire_push_slice" "mn_network sample_mining = Signet"
  "mn_signet_challenge sample_mining = Some [OP_TRUE]" "mn_now sample_mining = Some 1000"
  "mn_gbt_client sample_mining = Some (\<lambda>_. Inr mining_template)" "mn_sign_with_wallet sample_mining t x = Inr ([2], True)"
  "mn_grind sample_mining h = Inr (Some (h\<lparr>hdr_nonce := 0\<rparr>))" "mn_submit_block sample_mining b = Inr None"
  "mn_deserialize sample_mining [1] = Some mining_tx" "mn_deserialize sample_mining [2] = Some mining_tx"
  "b_instructions mining_btc = wire_instructions" "b_new_op_return mining_btc = wire_new_op_return"
  "b_block_hash mining_btc h = pad32 [hash_offset h + ucast (hdr_nonce h)]"
  "mn_serialize_script sample_mining = id" "mn_serialize_witness sample_mining = concat"
  "mn_merkle_root sample_mining ids = pad32 (concat ids)" "mn_witness_root sample_mining txs = all_zeros" "mn_witness_commitment sample_mining r w = pad32 [6]"
  by (simp_all add: sample_mining_def mining_btc_def)

lemma sample_mining_builder: "builder_of sample_mining"
  by (simp add: builder_of_def wire_builder.script_builder_axioms)

lemma sample_mining_grinds: "grinds sample_mining sample_mining_pow (\<lambda>_ h. le_nat h \<le> le_nat (pad32 [9])) 1"
proof -
  let ?p = sample_mining_pow
  have "Suc (Suc (Suc (Suc 0))) = 4" by simp
  moreover have "le_bytes_of (Suc (Suc (Suc (Suc 0)))) (unat n) ! 0 = ucast n" for n :: u32 by (simp add: of_nat_unat)
  ultimately have "le_bytes_of 4 (unat n) ! 0 = ucast n" for n :: u32 by (simp only:)
  then have hash: "candidate_hash (?p h) n = pad32 [hash_offset h + ucast n]" for h n
    by (simp add: candidate_hash_def sample_mining_pow_def nth_append)
  have ok: "pow_ok (?p h)" for h by (simp add: pow_ok_def sample_mining_pow_def)
  have "candidate_meets (?p h) 0" for h
    using candidate_meets_iff [OF ok, of h 0] hash [of h 0] by (simp add: sample_mining_pow_def hash_offset_def pad32_def)
  from first_nonce_run [OF this] have run: "\<exists>st. (grind_step (?p h) 1)\<^sup>*\<^sup>* (grind_init 1) st \<and> grind_joined st \<and>
      Some (h\<lparr>hdr_nonce := 0\<rparr>) = grind_result h st" for h
    by (intro exI [of _ "\<lparr>g_found = True, g_nonce = 0, g_threads = [Returned]\<rparr>"])
      (simp add: grind_joined_def grind_result_def U64_MAX_def)
  have "hash_offset (h\<lparr>hdr_nonce := n\<rparr>) = hash_offset h" for h n by (simp add: hash_offset_def)
  with ok run hash show ?thesis by (simp add: grinds_def) (simp add: sample_mining_pow_def)
qed

lemma sample_mining_header:
  "\<exists>hi. get_header_info mining_btc (block_hashes template_validator) (pad32 [2]) = Inr hi \<and> hi_height hi = 1 \<and> hi_timestamp hi = 0"
  by (simp add: get_header_info_def try_get_header_info_def fork_headers fork_header_def hash_offset_def)

lemma sample_mining_select:
  "select_block_txs sample_mining p (pad32 [2]) =
     Inr (filter (is_message mining_btc) (tx_output mining_tx), [(mining_tx, 30)], \<lparr>th_bits = 7, th_mintime = 20\<rparr>)"
  by (simp add: select_block_txs_def fetch_block_template_def mining_template_def)

lemma sample_mining_signed:
  assumes "add_witness_commitment sample_mining \<lparr>blk_header = header, blk_txdata = coinbase # txs\<rparr> = Some block"
    "length (tx_input coinbase) = 1" "length (hdr_prev_blockhash header) = 32"
  shows "\<exists>block'. sign_signet_block sample_mining block challenge = Some (Inr block')"
proof (cases rule: add_witness_commitment_parts [OF sample_mining_builder assms(1,2)])
  case (1 coinbase' commitment)
  have "wire_builder.commitment_script (witness_commitment_of sample_mining (coinbase' # txs)) (to_script_pubkey commitment)"
    using 1(4) by (simp add: wire_builder.commitment_script_def)
  then have "witness_commitment_index (tx_output coinbase') = Inr (length (tx_output coinbase))"
    unfolding 1(2) by (intro finished_commitment_index [OF sample_mining_builder, of "coinbase' # txs"]) simp
  moreover have "tx_input mining_tx = [default_txin \<lparr>op_txid = pad32 [5], op_vout = 0\<rparr>]" by (simp add: mining_tx_def)
  ultimately show ?thesis using assms(3)
    by (simp add: sign_signet_block_def signet_txs_new_def add_signet_solution_def 1(1) compute_merkle_root_def push_bytes_try_from_def
        Let_def default_txin_def SIGNET_HEADER_def)
qed

lemma sample_mined_seen: "\<exists>infos. try_get_block_infos mining_btc (block_hashes mined_view) (pad32 [9]) 0 = Inr (Some infos)"
  by (simp add: try_get_block_infos_def try_get_header_infos_def try_get_header_info_def mined_view_def try_get_block_info_def
      template_validator_def fork_tables_def fork_header_def hash_offset_def)

lemma sample_generated:
  assumes "bp_validator p = template_validator"
  shows "\<exists>block. generate_block sample_mining p template_validator [mined_view] [OP_TRUE] = Some (Inr (pad32 [9]), [block])"
proof -
  obtain hi where hi: "get_header_info mining_btc (block_hashes template_validator) (pad32 [2]) = Inr hi" "hi_height hi = 1" "hi_timestamp hi = 0"
    using sample_mining_header by blast
  let ?outs = "filter (is_message mining_btc) (tx_output mining_tx)" and ?th = "\<lparr>th_bits = 7, th_mintime = 20\<rparr>"
  obtain cb where cb: "finalize_coinbase sample_mining 1 [OP_TRUE] ?outs 30 = Some cb" "length (tx_input cb) = 1"
    by (simp add: finalize_coinbase_def get_block_value_def SUBSIDY_HALVING_INTERVAL_def checked_add_def)
  obtain time where time: "block_time sample_mining hi ?th = Some time" by (simp add: block_time_def)
  obtain block where block: "add_witness_commitment sample_mining
      \<lparr>blk_header = unmined_header (pad32 [2]) time 7, blk_txdata = [cb, mining_tx]\<rparr> = Some block"
    using cb(2) by (auto simp: add_witness_commitment_def Let_def length_Suc_conv)
  have fin: "finalize_block sample_mining template_validator [OP_TRUE] ?outs [mining_tx] 30 ?th = Some (Inr block)"
    using hi(1) cb(1) time block by (simp add: finalize_block_def hi(2) unmined_header_def)
  obtain block' where sign: "sign_signet_block sample_mining block [OP_TRUE] = Some (Inr block')"
    using sample_mining_signed [OF block cb(2)] by (auto simp: unmined_header_def)
  have bits: "hdr_bits (blk_header block') = 7"
    using signed_block_finished [OF sample_mining_builder block cb(2) sign] by (auto simp: finished_def unmined_header_def)
  obtain infos where seen: "try_get_block_infos mining_btc (block_hashes mined_view) (pad32 [9]) 0 = Inr (Some infos)"
    using sample_mined_seen by blast
  have "grind_and_submit sample_mining [mined_view] block' = (Inr (pad32 [9]), [block'\<lparr>blk_header := (blk_header block')\<lparr>hdr_nonce := 0\<rparr>\<rparr>])"
    by (simp add: grind_and_submit_def submit_def seen hash_offset_def bits)
  with fin sign have "mine sample_mining template_validator [mined_view] [OP_TRUE] ?outs [mining_tx] 30 ?th =
      Some (Inr (pad32 [9]), [block'\<lparr>blk_header := (blk_header block')\<lparr>hdr_nonce := 0\<rparr>\<rparr>])"
    by (simp add: mine_def)
  then show ?thesis by (simp add: generate_block_def assms sample_mining_select)
qed

theorem generated_block_valid_witness:
  "\<exists>block. generate_block sample_mining sample_producer template_validator [mined_view] [OP_TRUE] = Some (Inr (pad32 [9]), [block]) \<and>
     commits sample_mining block \<and> hdr_prev_blockhash (blk_header block) = pad32 [2] \<and> hdr_bits (blk_header block) = 7"
proof -
  obtain block where g: "generate_block sample_mining sample_producer template_validator [mined_view] [OP_TRUE] = Some (Inr (pad32 [9]), [block])"
    using sample_generated [of sample_producer] by (auto simp: sample_producer_def)
  from generated_block_valid [OF sample_mining_builder sample_mining_grinds g] g show ?thesis
    by (auto simp: mining_template_def)
qed

theorem generated_block_keeps_template_witness:
  "\<exists>block. generate_block sample_mining sample_producer template_validator [mined_view] [OP_TRUE] = Some (Inr (pad32 [9]), [block]) \<and>
     tl (blk_txdata block) = [mining_tx] \<and> hd (tx_output (hd (blk_txdata block))) = reward_output [OP_TRUE] 5000000030 \<and>
     map fst (parsed_messages mining_btc 0 (tx_output (hd (blk_txdata block)))) = map fst (parsed_messages mining_btc 0 (tx_output mining_tx))"
proof -
  obtain block where g: "generate_block sample_mining sample_producer template_validator [mined_view] [OP_TRUE] = Some (Inr (pad32 [9]), [block])"
    using sample_generated [of sample_producer] by (auto simp: sample_producer_def)
  have "wire_instructions [OP_TRUE] = [IOk (Op OP_TRUE)]" by (simp add: wire_instructions.simps wire_instruction_def)
  then have spk: "coinbase_message_parse (mn_btc sample_mining) [OP_TRUE] = Inl (NomFailure KFail)" by (simp add: coinbase_message_parse_def)
  obtain hi where hi: "get_header_info mining_btc (block_hashes template_validator) (pad32 [2]) = Inr hi" "hi_height hi = 1"
    using sample_mining_header by blast
  have "get_block_value 2 30 Signet = Some 5000000030" by (simp add: get_block_value_def SUBSIDY_HALVING_INTERVAL_def checked_add_def)
  with generated_block_keeps_template [OF sample_mining_builder spk g] hi have
    "map Some (tl (blk_txdata block)) = [Some mining_tx] \<and> hd (tx_output (hd (blk_txdata block))) = reward_output [OP_TRUE] 5000000030 \<and>
     map fst (parsed_messages mining_btc 0 (tx_output (hd (blk_txdata block)))) = map fst (parsed_messages mining_btc 0 (tx_output mining_tx))"
    by (auto simp: mining_template_def)
  with g show ?thesis by (auto simp: map_eq_Cons_conv)
qed

theorem block_time_bounds_witness:
  "\<exists>time hi. block_time sample_mining hi \<lparr>th_bits = 7, th_mintime = 20\<rparr> = Some time \<and> hi_timestamp hi = 100 \<and>
     100 < time \<and> unat time \<le> 1000"
proof -
  let ?hi = "\<lparr>hi_block_hash = pad32 [2], hi_prev_block_hash = pad32 [1], hi_height = 1, hi_work = 0, hi_timestamp = 100\<rparr>"
  obtain time where t: "block_time sample_mining ?hi \<lparr>th_bits = 7, th_mintime = 20\<rparr> = Some time" by (simp add: block_time_def)
  from block_time_bounds [OF t, of 1000] have "100 < time \<and> unat time \<le> 1000" by simp
  with t show ?thesis by (intro exI [of _ time] exI [of _ ?hi]) simp
qed

end
