(* ===== verification/ProducerRpc.thy ===== *)
theory ProducerRpc
  imports Proto Mining
begin

text \<open>
  The RPC services of the block producer (\<open>server/mod.rs\<close>, \<open>server/block_producer.rs\<close>,
  \<open>server/mining.rs\<close>): every handler from its request message to its response, over the policy
  database and the tables of the validator.

  A handler returns the response or an error status, and the policy database it leaves; the whole
  is \<open>None\<close> when reconciling the database does not end. The status of an error is kept as far as
  the handlers choose it themselves; \<open>CE_Status\<close> is the status of an error that carries its own.
\<close>

section \<open>Status codes and shared helpers\<close>

datatype connect_error =
    CE_Proto proto_error
  | CE_InvalidArgument
  | CE_Unknown
  | CE_Internal
  | CE_FailedPrecondition
  | CE_AlreadyExists
  | CE_Unavailable
  | CE_ResourceExhausted
  | CE_Status
  | CE_Panic

record server_env =
  sv_btc :: btc
  sv_codec :: proto_codec
  sv_decoders :: tx_decoders
  sv_params :: network_params

definition parse_sidechain_id :: "string \<Rightarrow> string \<Rightarrow> u32 option \<Rightarrow> connect_error + sidechain_number" where
  "parse_sidechain_id message field v = map_sum CE_Proto id (proto_sidechain_number message field v)"

definition required_field :: "string \<Rightarrow> string \<Rightarrow> 'a option \<Rightarrow> connect_error + 'a" where
  "required_field message field v = map_sum CE_Proto id (required message field v)"

definition decode_reverse_hash :: "server_env \<Rightarrow> string \<Rightarrow> string \<Rightarrow> hex_message \<Rightarrow> connect_error + bytes" where
  "decode_reverse_hash E message field h = map_sum CE_Proto id
     (reverse_hex_decode (sv_codec E) (pc_hash_deserialize (sv_codec E)) message field h)"

definition decode_consensus_hash :: "server_env \<Rightarrow> string \<Rightarrow> string \<Rightarrow> hex_message \<Rightarrow> connect_error + bytes" where
  "decode_consensus_hash E message field h = map_sum CE_Proto id
     (consensus_hex_decode (sv_codec E) (pc_hash_deserialize (sv_codec E)) message field h)"

text \<open>The \<open>?\<close> operator.\<close>

definition try_bind :: "'e + 'a \<Rightarrow> ('a \<Rightarrow> 'e + 'b) \<Rightarrow> 'e + 'b" where
  "try_bind r f = (case r of Inl e \<Rightarrow> Inl e | Inr x \<Rightarrow> f x)"

lemma try_bind_simps [simp]: "try_bind (Inr x) f = f x" "try_bind (Inl e) f = Inl e"
  by (simp_all add: try_bind_def)

lemma try_bind_Inr: "try_bind r f = Inr y \<longleftrightarrow> (\<exists>x. r = Inr x \<and> f x = Inr y)"
  by (cases r) simp_all

text \<open>A handler that fails before it reaches the database leaves it as it was.\<close>

definition with_request :: "connect_error + 'a \<Rightarrow> ('a \<Rightarrow> policy_db \<Rightarrow> ((connect_error + 'b) \<times> policy_db) option)
    \<Rightarrow> policy_db \<Rightarrow> ((connect_error + 'b) \<times> policy_db) option" where
  "with_request r f db = (case r of Inl e \<Rightarrow> Some (Inl e, db) | Inr x \<Rightarrow> f x db)"

text \<open>A transaction on the policy database: an error drops it.\<close>

definition transact :: "(policy_error \<Rightarrow> connect_error) \<Rightarrow> (policy_error + 'a \<times> policy_db) option \<Rightarrow> policy_db
    \<Rightarrow> ((connect_error + 'a) \<times> policy_db) option" where
  "transact status r db = map_option (\<lambda>r. case r of
     Inl e \<Rightarrow> (Inl (status e), db) | Inr (x, db') \<Rightarrow> (Inr x, db')) r"

definition saturating_succ :: "u32 \<Rightarrow> u32" where
  "saturating_succ h = (if h = 0xFFFFFFFF then h else h + 1)"

definition ensure_bip300_activation_height_reached :: "server_env \<Rightarrow> dbs \<Rightarrow> connect_error + unit" where
  "ensure_bip300_activation_height_reached E v = (case try_get_block_height v of
     Inl _ \<Rightarrow> Inl CE_Internal
   | Inr tip \<Rightarrow>
       (let next_block_height = (case tip of None \<Rightarrow> 0 | Some tip_height \<Rightarrow> saturating_succ tip_height)
        in if next_block_height < bip300_activation_height (sv_params E)
           then Inl CE_FailedPrecondition else Inr ()))"

section \<open>Withdrawal bundles\<close>

fun put_bundle_status :: "policy_error \<Rightarrow> connect_error" where
  "put_bundle_status (PE_AlreadyPaidOut _) = CE_AlreadyExists"
| "put_bundle_status _ = CE_Unknown"

text \<open>The gate of \<open>store_withdrawal_bundle\<close>: the slot is active, has a treasury output, and the
  bytes decode. The two reads of the validator and the one that reconciles the policy database are
  transactions of their own, so each has its own view of the tables.\<close>

definition bundle_request :: "server_env \<Rightarrow> string \<Rightarrow> dbs \<Rightarrow> dbs \<Rightarrow> sidechain_number \<Rightarrow> bytes
    \<Rightarrow> connect_error + blinded_m6" where
  "bundle_request E message v v_ctip n bytes = (case get_active_sidechains v of
     Inl Panic \<Rightarrow> Inl CE_Panic
   | Inl _ \<Rightarrow> Inl CE_Internal
   | Inr active \<Rightarrow>
       if \<not> list_ex (\<lambda>sc. prop_sidechain_number (sc_proposal sc) = n) active
       then Inl CE_FailedPrecondition
       else if ctip_db (active_sidechains v_ctip) n = None then Inl CE_FailedPrecondition
       else case blinded_m6_deserialize (sv_btc E) (sv_decoders E) bytes of
         Inl _ \<Rightarrow> Inl (CE_Proto (InvalidFieldValue message ''transaction''))
       | Inr bundle \<Rightarrow> Inr bundle)"

definition store_withdrawal_bundle :: "server_env \<Rightarrow> string \<Rightarrow> dbs \<Rightarrow> dbs \<Rightarrow> dbs \<Rightarrow> sidechain_number \<Rightarrow> bytes \<Rightarrow> policy_db
    \<Rightarrow> ((connect_error + m6id) \<times> policy_db) option" where
  "store_withdrawal_bundle E message v v_ctip v_put n bytes = with_request (bundle_request E message v v_ctip n bytes)
     (\<lambda>bundle db. transact put_bundle_status
        (put_withdrawal_bundle (sv_btc E) (sv_params E) v_put n bundle db) db)"

definition propose_withdrawal_bundle :: "server_env \<Rightarrow> dbs \<Rightarrow> dbs \<Rightarrow> dbs \<Rightarrow> u32 option \<Rightarrow> bytes option \<Rightarrow> policy_db
    \<Rightarrow> ((connect_error + m6id) \<times> policy_db) option" where
  "propose_withdrawal_bundle E v v_ctip v_put sidechain_id transaction = with_request
     (try_bind (parse_sidechain_id ''ProposeWithdrawalBundleRequest'' ''sidechain_id'' sidechain_id) (\<lambda>n.
      try_bind (required_field ''ProposeWithdrawalBundleRequest'' ''transaction'' transaction) (\<lambda>bytes.
      Inr (n, bytes))))
     (\<lambda>(n, bytes). store_withdrawal_bundle E ''ProposeWithdrawalBundleRequest'' v v_ctip v_put n bytes)"

section \<open>Proposals and acknowledgements\<close>

fun propose_status :: "policy_error \<Rightarrow> connect_error" where
  "propose_status PE_UniqueConstraint = CE_AlreadyExists"
| "propose_status _ = CE_Internal"

definition proposal_request :: "server_env \<Rightarrow> string \<Rightarrow> dbs \<Rightarrow> u32 option \<Rightarrow> declaration_message option
    \<Rightarrow> connect_error + sidechain_proposal" where
  "proposal_request E message v sidechain_id declaration =
     try_bind (ensure_bip300_activation_height_reached E v) (\<lambda>_.
     try_bind (parse_sidechain_id message ''sidechain_id'' sidechain_id) (\<lambda>n.
     try_bind (required_field message ''declaration'' declaration) (\<lambda>m.
     try_bind (map_sum CE_Proto id (declaration_from_proto (sv_codec E) m)) (\<lambda>decl.
     case create_sidechain_proposal (sv_btc E) n decl of
       Inl _ \<Rightarrow> Inl CE_Unknown
     | Inr (_, description) \<Rightarrow> Inr \<lparr>prop_sidechain_number = n, prop_description = description\<rparr>))))"

definition create_and_persist_sidechain_proposal :: "server_env \<Rightarrow> string \<Rightarrow> dbs \<Rightarrow> u32 option
    \<Rightarrow> declaration_message option \<Rightarrow> policy_db \<Rightarrow> ((connect_error + sidechain_proposal) \<times> policy_db) option" where
  "create_and_persist_sidechain_proposal E message v sidechain_id declaration =
     with_request (proposal_request E message v sidechain_id declaration) (\<lambda>proposal db.
       map_option (\<lambda>(r, db'). (map_sum id (\<lambda>_. proposal) r, db'))
         (transact propose_status (db_propose_sidechain (sv_btc E) (sv_params E) v proposal db) db))"

definition set_sidechain_ack :: "server_env \<Rightarrow> dbs \<Rightarrow> u32 option \<Rightarrow> hex_message option \<Rightarrow> bool \<Rightarrow> policy_db
    \<Rightarrow> ((connect_error + unit) \<times> policy_db) option" where
  "set_sidechain_ack E v sidechain_number hash ack = with_request
     (try_bind (ensure_bip300_activation_height_reached E v) (\<lambda>_.
      try_bind (parse_sidechain_id ''SetSidechainAckRequest'' ''sidechain_number'' sidechain_number) (\<lambda>n.
      try_bind (required_field ''SetSidechainAckRequest'' ''description_sha256d_hash'' hash) (\<lambda>h.
      try_bind (decode_reverse_hash E ''SetSidechainAckRequest'' ''description_sha256d_hash'' h) (\<lambda>description_hash.
      Inr (n, description_hash))))))
     (\<lambda>(n, description_hash) db.
        if ack then Some (case db_ack_sidechain n description_hash db of
            Inl _ \<Rightarrow> (Inl CE_Internal, db) | Inr db' \<Rightarrow> (Inr (), db'))
        else Some (Inr (), nack_sidechain n description_hash db))"

definition set_ack_all_proposals :: "proto_ack_policy option \<Rightarrow> policy_db \<Rightarrow> ((connect_error + unit) \<times> policy_db) option" where
  "set_ack_all_proposals policy = with_request
     (case ack_policy_from_proto policy of
        Inl _ \<Rightarrow> Inl (CE_Proto (InvalidFieldValue ''SetAckAllProposalsRequest'' ''policy'')) | Inr p \<Rightarrow> Inr p)
     (\<lambda>p db. Some (Inr (), set_ack_policy p db))"

definition set_withdrawal_bundle_policy :: "proto_bundle_policy option \<Rightarrow> policy_db
    \<Rightarrow> ((connect_error + unit) \<times> policy_db) option" where
  "set_withdrawal_bundle_policy policy = with_request
     (case bundle_policy_from_proto policy of
        Inl _ \<Rightarrow> Inl (CE_Proto (InvalidFieldValue ''SetWithdrawalBundlePolicyRequest'' ''policy'')) | Inr p \<Rightarrow> Inr p)
     (\<lambda>p db. Some (Inr (), set_bundle_policy p db))"

definition set_withdrawal_bundle_ack :: "server_env \<Rightarrow> dbs \<Rightarrow> u32 option \<Rightarrow> hex_message option \<Rightarrow> bool \<Rightarrow> policy_db
    \<Rightarrow> ((connect_error + unit) \<times> policy_db) option" where
  "set_withdrawal_bundle_ack E v sidechain_number m6id ack = with_request
     (try_bind (ensure_bip300_activation_height_reached E v) (\<lambda>_.
      try_bind (parse_sidechain_id ''SetWithdrawalBundleAckRequest'' ''sidechain_number'' sidechain_number) (\<lambda>n.
      try_bind (required_field ''SetWithdrawalBundleAckRequest'' ''m6id'' m6id) (\<lambda>h.
      try_bind (decode_consensus_hash E ''SetWithdrawalBundleAckRequest'' ''m6id'' h) (\<lambda>m.
      Inr (n, m))))))
     (\<lambda>(n, m) db. Some (Inr (), if ack then ack_bundle n m db else delete_bundle_ack n m db))"

section \<open>The state of the producer\<close>

record pending_proposal_message =
  ppm_sidechain_number :: u32
  ppm_description_sha256d_hash :: hex_message
  ppm_declaration :: "declaration_message option"
  ppm_description :: hex_message

record producer_state_message =
  psm_pending_proposals :: "pending_proposal_message list"
  psm_ack_policy :: proto_ack_policy
  psm_explicit_acks :: "(u32 \<times> hex_message) list"
  psm_withdrawal_bundle_policy :: proto_bundle_policy
  psm_explicit_bundle_acks :: "(u32 \<times> hex_message) list"

definition pending_proposal_to_proto :: "server_env \<Rightarrow> sidechain_proposal \<Rightarrow> pending_proposal_message" where
  "pending_proposal_to_proto E p =
     \<lparr>ppm_sidechain_number = ucast (prop_sidechain_number p),
      ppm_description_sha256d_hash =
        hash_to_reverse_hex (sv_codec E) (sha256d_hash (sv_btc E) (prop_description p)),
      ppm_declaration = (case sidechain_declaration_try_from (prop_description p) of
          Some (Inr d) \<Rightarrow> Some (declaration_to_proto (sv_codec E) d) | _ \<Rightarrow> None),
      ppm_description = hex_bytes_encode (sv_codec E) (prop_description p)\<rparr>"

definition get_block_producer_state :: "server_env \<Rightarrow> dbs \<Rightarrow> policy_db
    \<Rightarrow> ((connect_error + producer_state_message) \<times> policy_db) option" where
  "get_block_producer_state E v db =
     map_option (\<lambda>(r, db'). (map_sum id (\<lambda>proposals.
        \<lparr>psm_pending_proposals = map (pending_proposal_to_proto E) proposals,
         psm_ack_policy = ack_policy_to_proto (pd_ack_policy db),
         psm_explicit_acks = map (\<lambda>a. (ucast (ack_sidechain_number a),
           hash_to_reverse_hex (sv_codec E) (ack_description_hash a))) (pd_acks db),
         psm_withdrawal_bundle_policy = bundle_policy_to_proto (pd_bundle_policy db),
         psm_explicit_bundle_acks = map (\<lambda>(n, m). (ucast n, hash_to_consensus_hex (sv_codec E) m))
           (pd_bundle_acks db)\<rparr>) r, db'))
       (transact (\<lambda>_. CE_Internal) (get_our_sidechain_proposals (sv_btc E) (sv_params E) v db) db)"

section \<open>Confirmations of a proposal\<close>

datatype confirmation =
    Confirmed blockhash u32 u32 outpoint blockhash
  | NotConfirmed blockhash u32 blockhash

type_synonym confirmations = "blockhash \<rightharpoonup> u32 \<times> outpoint"

definition connect_block_event :: "sidechain_proposal \<Rightarrow> confirmations \<Rightarrow> header_info \<Rightarrow> block_info
    \<Rightarrow> confirmation \<times> confirmations" where
  "connect_block_event proposal confirmations header_info block_info =
     (case (case find (\<lambda>(vout, p). p = proposal) (bi_sidechain_proposals block_info) of
          Some (vout, _) \<Rightarrow> Some (1, \<lparr>op_txid = bi_coinbase_txid block_info, op_vout = vout\<rparr>)
        | None \<Rightarrow> confirmations (hi_prev_block_hash header_info)) of
        None \<Rightarrow> (NotConfirmed (hi_block_hash header_info) (hi_height header_info)
            (hi_prev_block_hash header_info), confirmations)
      | Some (confirms, outpoint) \<Rightarrow>
          (Confirmed (hi_block_hash header_info) confirms (hi_height header_info) outpoint
             (hi_prev_block_hash header_info),
           confirmations(hi_block_hash header_info \<mapsto> (confirms, outpoint))))"

text \<open>The stream over the events; an error of the subscription is passed on.\<close>

fun proposal_confirmations :: "sidechain_proposal \<Rightarrow> confirmations \<Rightarrow> ('e + event) list
    \<Rightarrow> ('e + confirmation) list" where
  "proposal_confirmations proposal confirmations [] = []"
| "proposal_confirmations proposal confirmations (Inl e # events) =
     Inl e # proposal_confirmations proposal confirmations events"
| "proposal_confirmations proposal confirmations (Inr (DisconnectBlock h) # events) =
     proposal_confirmations proposal confirmations events"
| "proposal_confirmations proposal confirmations (Inr (ConnectBlock header_info block_info) # events) =
     (case connect_block_event proposal confirmations header_info block_info of
        (resp, confirmations') \<Rightarrow> Inr resp # proposal_confirmations proposal confirmations' events)"

definition stream_proposal_confirmations :: "sidechain_proposal \<Rightarrow> ('e + event) list \<Rightarrow> ('e + confirmation) list" where
  "stream_proposal_confirmations proposal events = proposal_confirmations proposal Map.empty events"

section \<open>Generating blocks\<close>

text \<open>\<open>parse_address\<close> parses an address and checks its network; \<open>generate i\<close> is the result of the
  call of \<open>generate_block\<close> number \<open>i\<close>; \<open>busy\<close> says that another call holds the permit.\<close>

fun generate_loop :: "(nat \<Rightarrow> generate_block_error + blockhash) \<Rightarrow> nat \<Rightarrow> nat \<Rightarrow> connect_error + blockhash list" where
  "generate_loop generate i 0 = Inr []"
| "generate_loop generate i (Suc n) = (case generate i of
     Inl _ \<Rightarrow> Inl CE_Status
   | Inr block_hash \<Rightarrow> (case generate_loop generate (Suc i) n of
       Inl e \<Rightarrow> Inl e
     | Inr hashes \<Rightarrow> Inr (block_hash # hashes)))"

definition generate_to_address :: "server_env \<Rightarrow> mining_env \<Rightarrow> (string \<Rightarrow> bytes option) \<Rightarrow> bool
    \<Rightarrow> (bytes \<Rightarrow> nat \<Rightarrow> generate_block_error + blockhash) \<Rightarrow> u32 option \<Rightarrow> string
    \<Rightarrow> connect_error + hex_message list" where
  "generate_to_address E M parse_address busy generate blocks address =
     (let count = (case blocks of None \<Rightarrow> 1 | Some n \<Rightarrow> n)
      in if count = 0 then Inl CE_InvalidArgument
         else if address = [] then Inl (CE_Proto (MissingField ''GenerateToAddressRequest'' ''address''))
         else case parse_address address of
           None \<Rightarrow> Inl (CE_Proto (InvalidFieldValue ''GenerateToAddressRequest'' ''address''))
         | Some spk \<Rightarrow>
             if busy then Inl CE_ResourceExhausted
             else case verify_can_mine M of
               Inl _ \<Rightarrow> Inl CE_Status
             | Inr _ \<Rightarrow> map_sum id (map (hash_to_reverse_hex (sv_codec E)))
                 (generate_loop (generate spk) 0 (unat count)))"

section \<open>Properties\<close>

text \<open>Votes can be cast from one block before the activation height on.\<close>

definition vote_open :: "server_env \<Rightarrow> dbs \<Rightarrow> bool" where
  "vote_open E v \<longleftrightarrow> (\<exists>tip. try_get_block_height v = Inr tip \<and>
     unat (bip300_activation_height (sv_params E)) \<le> (case tip of None \<Rightarrow> 0 | Some k \<Rightarrow> unat k + 1))"

text \<open>The list \<open>ys\<close> has the vote \<open>x\<close> exactly if it was cast, and the other votes of \<open>xs\<close>.\<close>

definition voted :: "bool \<Rightarrow> 'a \<Rightarrow> 'a list \<Rightarrow> 'a list \<Rightarrow> bool" where
  "voted cast x xs ys \<longleftrightarrow> (\<forall>y. y \<in> set ys \<longleftrightarrow> (if y = x then cast else y \<in> set xs))"

lemma ensure_vote_open:
  "(ensure_bip300_activation_height_reached E v = Inr ()) = vote_open E v"
proof (cases "try_get_block_height v")
  case (Inr tip)
  have lt: "saturating_succ k < a \<longleftrightarrow> unat k + 1 < unat a" for k a :: u32
  proof (cases "k = 0xFFFFFFFF")
    case True
    have "unat a < 2 ^ 32" using unat_less_power [of a] by simp
    then show ?thesis using True by (simp add: saturating_succ_def word_less_nat_alt)
  next
    case False
    moreover have "(0xFFFFFFFF :: u32) = - 1" by simp
    ultimately have "1 + k \<noteq> 0" by (simp only: add_eq_0_iff) (metis add.inverse_inverse)
    from unatSuc [OF this] have "unat (k + 1) = unat k + 1" by (simp add: add.commute)
    then show ?thesis using False by (simp add: saturating_succ_def word_less_nat_alt)
  qed
  show ?thesis
  proof (cases tip)
    case None
    then show ?thesis using Inr
      by (simp add: ensure_bip300_activation_height_reached_def vote_open_def word_less_nat_alt)
  next
    case (Some k)
    then show ?thesis using Inr
      by (simp add: ensure_bip300_activation_height_reached_def vote_open_def lt not_less [symmetric])
  qed
qed (simp add: ensure_bip300_activation_height_reached_def vote_open_def)

lemma parse_sidechain_id_ucast: "parse_sidechain_id message field (Some (ucast n)) = Inr n"
proof -
  have "ucast n \<le> (0xFF :: u32)" by (simp add: word_le_nat_alt unsigned_ucast_eq take_bit_eq_mod) (use unat_less_power [of n] in simp)
  moreover have "ucast (ucast n :: u32) = n" by (simp add: ucast_down_ucast_id is_down)
  ultimately show ?thesis by (simp add: parse_sidechain_id_def proto_sidechain_number_def sidechain_number_try_from_def)
qed

text \<open>C27: The vote requests do exactly what they say. A request to acknowledge, or no longer to
  acknowledge, the proposal with the hash \<open>h\<close> or the bundle with the id \<open>h\<close> in slot \<open>n\<close>, with its
  fields encoded as the program itself encodes them, is carried out exactly if the next block reaches the
  activation height, and, for a proposal, if it is not acknowledged already: then this one vote is in the
  database exactly if it was cast, every other vote and every other table is as it was. Otherwise
  the request fails and the database is unchanged.\<close>

theorem vote_requests_exact:
  assumes "codec_ok (sv_codec E)" "length h = 32"
  shows "(\<exists>r db'. set_sidechain_ack E v (Some (ucast n)) (Some (hash_to_reverse_hex (sv_codec E) h)) ack db = Some (r, db') \<and>
      (if vote_open E v \<and> \<not> (ack \<and> \<lparr>ack_sidechain_number = n, ack_description_hash = h\<rparr> \<in> set (pd_acks db))
       then r = Inr () \<and> voted ack \<lparr>ack_sidechain_number = n, ack_description_hash = h\<rparr> (pd_acks db) (pd_acks db') \<and>
         db' = db\<lparr>pd_acks := pd_acks db'\<rparr>
       else r \<noteq> Inr () \<and> db' = db)) \<and>
    (\<exists>r db'. set_withdrawal_bundle_ack E v (Some (ucast n)) (Some (hash_to_consensus_hex (sv_codec E) h)) ack db = Some (r, db') \<and>
      (if vote_open E v
       then r = Inr () \<and> voted ack (n, h) (pd_bundle_acks db) (pd_bundle_acks db') \<and>
         db' = db\<lparr>pd_bundle_acks := pd_bundle_acks db'\<rparr>
       else r \<noteq> Inr () \<and> db' = db))"
proof (cases "vote_open E v")
  case True
  then have g: "ensure_bip300_activation_height_reached E v = Inr ()" by (simp add: ensure_vote_open)
  have d: "decode_reverse_hash E message field (hash_to_reverse_hex (sv_codec E) h) = Inr h"
    "decode_consensus_hash E message field (hash_to_consensus_hex (sv_codec E) h) = Inr h" for message field
    using assms by (simp_all add: decode_reverse_hash_def decode_consensus_hash_def reverse_hex_roundtrip consensus_hex_roundtrip)
  let ?a = "\<lparr>ack_sidechain_number = n, ack_description_hash = h\<rparr>"
  let ?db = "if ack then db\<lparr>pd_acks := pd_acks db @ [?a]\<rparr> else nack_sidechain n h db"
  let ?db' = "if ack then ack_bundle n h db else delete_bundle_ack n h db"
  have eta: "a = ?a \<longleftrightarrow> ack_sidechain_number a = n \<and> ack_description_hash a = h" for a :: sidechain_ack by (cases a) simp
  have s: "set_sidechain_ack E v (Some (ucast n)) (Some (hash_to_reverse_hex (sv_codec E) h)) ack db =
      Some (if ack \<and> ?a \<in> set (pd_acks db) then (Inl CE_Internal, db) else (Inr (), ?db))"
    by (simp add: set_sidechain_ack_def g d parse_sidechain_id_ucast required_field_def with_request_def
        db_ack_sidechain_def Let_def)
  have "voted ack ?a (pd_acks db) (pd_acks ?db)" "?db = db\<lparr>pd_acks := pd_acks ?db\<rparr>" by (auto simp: voted_def eta nack_sidechain_def)
  moreover have "set_withdrawal_bundle_ack E v (Some (ucast n)) (Some (hash_to_consensus_hex (sv_codec E) h)) ack db =
      Some (Inr (), ?db')"
    by (simp add: set_withdrawal_bundle_ack_def g d parse_sidechain_id_ucast required_field_def with_request_def)
  moreover have "voted ack (n, h) (pd_bundle_acks db) (pd_bundle_acks ?db')" "?db' = db\<lparr>pd_bundle_acks := pd_bundle_acks ?db'\<rparr>"
    by (auto simp: voted_def ack_bundle_def delete_bundle_ack_def)
  ultimately show ?thesis unfolding s using True by auto
next
  case False
  then obtain e where "ensure_bip300_activation_height_reached E v = Inl e"
    using ensure_vote_open [of E v] by (cases "ensure_bip300_activation_height_reached E v") auto
  then show ?thesis using False by (simp add: set_sidechain_ack_def set_withdrawal_bundle_ack_def with_request_def)
qed

definition sample_server :: server_env where
  "sample_server = \<lparr>sv_btc = sample_btc, sv_codec = sample_codec,
     sv_decoders = \<lparr>td_transaction = (\<lambda>_. Some sample_blinded_tx), td_version = (\<lambda>_. None), td_varint = (\<lambda>_. None),
       td_txout = (\<lambda>_. None), td_lock_time = (\<lambda>_. None)\<rparr>,
     sv_params = network_params_new sample_btc ForkBitcoin Regtest None\<rparr>"

theorem vote_requests_exact_witness:
  "\<exists>r db'. set_sidechain_ack sample_server dbs_empty (Some (ucast (5 :: sidechain_number)))
       (Some (hash_to_reverse_hex (sv_codec sample_server) (pad32 [9]))) True policy_db_new = Some (r, db') \<and>
     r = Inr () \<and> pd_acks db' \<noteq> []"
proof -
  have c: "codec_ok (sv_codec sample_server)" by (simp add: sample_server_def sample_codec_ok)
  have o: "vote_open sample_server dbs_empty"
    by (simp add: vote_open_def sample_server_def try_get_block_height_def dbs_empty_def network_params_new_def Let_def)
  have l: "length (pad32 [9]) = 32" by (simp add: pad32_def)
  from vote_requests_exact [OF c l, of dbs_empty 5 True policy_db_new, THEN conjunct1] o
  obtain r db' where r: "set_sidechain_ack sample_server dbs_empty (Some (ucast (5 :: sidechain_number)))
       (Some (hash_to_reverse_hex (sv_codec sample_server) (pad32 [9]))) True policy_db_new = Some (r, db')" "r = Inr ()"
    "voted True \<lparr>ack_sidechain_number = 5, ack_description_hash = pad32 [9]\<rparr> [] (pd_acks db')"
    by (auto simp: policy_db_new_def)
  from r(3) have "\<lparr>ack_sidechain_number = 5, ack_description_hash = pad32 [9]\<rparr> \<in> set (pd_acks db')" by (simp add: voted_def)
  with r(1,2) show ?thesis by (metis empty_iff list.set(1))
qed

lemma with_request_Inr:
  "with_request r f db = Some (Inr y, db') \<longleftrightarrow> (\<exists>x. r = Inr x \<and> f x db = Some (Inr y, db'))"
  by (cases r) (simp_all add: with_request_def)

lemma transact_Inr: "transact status r db = Some (Inr x, db') \<longleftrightarrow> r = Some (Inr (x, db'))"
proof (cases r)
  case (Some z)
  then show ?thesis by (cases z) (auto simp: transact_def)
qed (simp add: transact_def)

lemma put_withdrawal_bundle_queues:
  assumes "put_withdrawal_bundle B params v n bundle db = Some (Inr (m, db'))"
  shows "m = blinded_compute_m6id B bundle \<and>
    (\<exists>r\<in>set (pd_bundles db'). br_sidechain_number r = n \<and> br_bundle_hash r = m \<and> br_settled_in r = None)"
proof -
  let ?m = "blinded_compute_m6id B bundle"
  let ?same = "\<lambda>r. br_sidechain_number r = n \<and> br_bundle_hash r = ?m"
  obtain tip db1 where rec: "reconcile B params v db = Some (Inr (tip, db1))"
    using assms by (auto simp: put_withdrawal_bundle_def reconciled_def Let_def
        split: Option.bind_splits sum.splits)
  then have m: "m = ?m" and db': "pd_bundles db' =
      (if list_ex ?same (pd_bundles db1)
       then map (\<lambda>r. if ?same r then r\<lparr>br_settled_in := None, br_paid_out := None, br_queued_at := tip\<rparr> else r)
         (pd_bundles db1)
       else pd_bundles db1 @ [\<lparr>br_sidechain_number = n, br_bundle_hash = ?m, br_bundle = bundle,
         br_settled_in = None, br_queued_at = tip, br_paid_out = None\<rparr>])"
    using assms by (auto simp: put_withdrawal_bundle_def reconciled_def Let_def split: if_splits)
  show ?thesis
  proof (cases "list_ex ?same (pd_bundles db1)")
    case True
    then obtain r where "r \<in> set (pd_bundles db1)" "?same r" by (auto simp: list_ex_iff)
    then have "r\<lparr>br_settled_in := None, br_paid_out := None, br_queued_at := tip\<rparr> \<in> set (pd_bundles db')"
      using True by (force simp: db')
    then show ?thesis using \<open>?same r\<close> m
      by (intro conjI bexI [of _ "r\<lparr>br_settled_in := None, br_paid_out := None, br_queued_at := tip\<rparr>"]) simp_all
  next
    case False
    then show ?thesis using m by (simp add: db')
  qed
qed

text \<open>C28: A withdrawal bundle gets into the policy database only for a slot that was active when the
  first transaction looked and had a treasury output when the second did, when its bytes decode to a bundle; it is then queued, under the id of that bundle.\<close>

theorem stored_bundle_gate:
  assumes "store_withdrawal_bundle E message v v_ctip v_put n bytes db = Some (Inr m, db')" "slots_named v"
  shows "sidechain_db (active_sidechains v) n \<noteq> None \<and> ctip_db (active_sidechains v_ctip) n \<noteq> None
    \<and> (\<exists>bundle. blinded_m6_deserialize (sv_btc E) (sv_decoders E) bytes = Inr bundle
        \<and> m = blinded_compute_m6id (sv_btc E) bundle)
    \<and> (\<exists>r\<in>set (pd_bundles db'). br_sidechain_number r = n \<and> br_bundle_hash r = m \<and> br_settled_in r = None)"
proof -
  obtain b where gate: "bundle_request E message v v_ctip n bytes = Inr b"
      and put: "put_withdrawal_bundle (sv_btc E) (sv_params E) v_put n b db = Some (Inr (m, db'))"
    using assms(1) by (auto simp: store_withdrawal_bundle_def with_request_Inr transact_Inr)
  then obtain active where "get_active_sidechains v = Inr active"
      and "list_ex (\<lambda>sc. prop_sidechain_number (sc_proposal sc) = n) active"
      and "ctip_db (active_sidechains v_ctip) n \<noteq> None"
      and "blinded_m6_deserialize (sv_btc E) (sv_decoders E) bytes = Inr b"
    by (auto simp: bundle_request_def split: sum.splits fault.splits if_splits)
  moreover from this(1,2) have "n \<in> used_slots active" by (auto simp: used_slots_def list_ex_iff)
  then have "sidechain_db (active_sidechains v) n \<noteq> None"
    using active_slots(2) [OF \<open>get_active_sidechains v = Inr active\<close> assms(2)] by auto
  ultimately show ?thesis using put_withdrawal_bundle_queues [OF put] by blast
qed

definition treasury_view :: dbs where
  "treasury_view = dbs_empty\<lparr>active_sidechains := sample_active\<lparr>ctip_db := [5 \<mapsto> sample_ctip]\<rparr>\<rparr>"

theorem stored_bundle_gate_witness:
  "\<exists>m db'. store_withdrawal_bundle sample_server ''ProposeWithdrawalBundleRequest'' treasury_view treasury_view treasury_view 5 [] policy_db_new
       = Some (Inr m, db')
     \<and> (\<exists>r\<in>set (pd_bundles db'). br_sidechain_number r = 5 \<and> br_bundle_hash r = m \<and> br_settled_in r = None)"
proof -
  have nums: "numbers (active_sidechains treasury_view) = [5]"
    using sample_numbers by (simp add: treasury_view_def numbers_def)
  have active: "get_active_sidechains treasury_view = Inr [sample_sidechain]"
    unfolding get_active_sidechains_def nums
    by (simp add: treasury_view_def sample_active_def) (simp add: sample_sidechain_def)
  have named: "slots_named treasury_view"
    by (auto simp: slots_named_def treasury_view_def sample_active_def active_dbs_empty_def
        sample_sidechain_def split: if_splits)
  have "bundle_request sample_server message treasury_view treasury_view 5 [] = Inr sample_blinded_m6" for message
    by (simp add: bundle_request_def active blinded_m6_deserialize_def deserialize_tx_def sample_server_def
        sample_blinded_m6_try_from) (simp add: sample_sidechain_def treasury_view_def)
  moreover have "chain_diff params treasury_view t = Some (Inr None)" for params t
    by (simp add: Queries.chain_diff_def treasury_view_def dbs_empty_def)
  ultimately obtain m db' where "store_withdrawal_bundle sample_server ''ProposeWithdrawalBundleRequest''
      treasury_view treasury_view treasury_view 5 [] policy_db_new = Some (Inr m, db')"
    by (simp add: store_withdrawal_bundle_def with_request_def transact_def put_withdrawal_bundle_def
        reconciled_def reconcile_def Let_def policy_db_new_def)
  with stored_bundle_gate [OF this named] show ?thesis by blast
qed

lemma connect_block_event_one:
  assumes "\<forall>h c outpoint. confirmations h = Some (c, outpoint) \<longrightarrow> c = 1"
    "connect_block_event proposal confirmations hi bi = (resp, confirmations')"
  shows "(\<forall>h c outpoint. confirmations' h = Some (c, outpoint) \<longrightarrow> c = 1)
    \<and> (\<forall>h c height outpoint prev. resp = Confirmed h c height outpoint prev \<longrightarrow> c = 1)"
proof -
  have "c = 1" if "(case find (\<lambda>(vout, p). p = proposal) (bi_sidechain_proposals bi) of
      Some (vout, _) \<Rightarrow> Some (1, \<lparr>op_txid = bi_coinbase_txid bi, op_vout = vout\<rparr>)
    | None \<Rightarrow> confirmations (hi_prev_block_hash hi)) = Some (c, outpoint)" for c outpoint
    using that assms(1) by (cases "find (\<lambda>(vout, p). p = proposal) (bi_sidechain_proposals bi)") auto
  then show ?thesis using assms unfolding connect_block_event_def
    by (auto split: option.split_asm prod.split_asm if_split_asm) blast+
qed

lemma proposal_confirmations_one:
  assumes "\<forall>h c outpoint. confirmations h = Some (c, outpoint) \<longrightarrow> c = 1"
    "Inr (Confirmed h c height outpoint prev) \<in> set (proposal_confirmations proposal confirmations events)"
  shows "c = 1"
  using assms
proof (induction proposal confirmations events rule: proposal_confirmations.induct)
  case (4 proposal confirmations hi bi events)
  obtain resp confirmations' where e: "connect_block_event proposal confirmations hi bi = (resp, confirmations')"
    by fastforce
  from connect_block_event_one [OF 4(2) e] 4(1) [OF e [symmetric]] 4(3) e show ?case by auto
qed auto

text \<open>The confirmations a client is told never grow. Every block that is reported as confirming
  a proposal, the one that carries it and all that follow, is reported with one confirmation,
  however deep the proposal is.\<close>

theorem confirmations_stay_one:
  assumes "Inr (Confirmed h c height outpoint prev) \<in> set (stream_proposal_confirmations proposal events)"
  shows "c = 1"
  using proposal_confirmations_one [of Map.empty] assms by (simp add: stream_proposal_confirmations_def)

text \<open>A proposal in a block and two blocks on top of it.\<close>

definition confirmed_events :: "sidechain_proposal \<Rightarrow> (unit + event) list" where
  "confirmed_events proposal = map (\<lambda>i. Inr (ConnectBlock
     \<lparr>hi_block_hash = pad32 [i + 1], hi_prev_block_hash = pad32 [i], hi_height = ucast i, hi_work = 1, hi_timestamp = 0\<rparr>
     \<lparr>bi_bmm_commitments = [], bi_coinbase_txid = pad32 [9],
      bi_events = (if i = 1 then [SidechainProposalEvent 2 proposal] else [])\<rparr>)) [1, 2, 3]"

theorem confirmations_stay_one_witness:
  "\<exists>c. Inr (Confirmed (pad32 [4]) c 3 \<lparr>op_txid = pad32 [9], op_vout = 2\<rparr> (pad32 [3]))
      \<in> set (stream_proposal_confirmations (sc_proposal sample_sidechain)
          (confirmed_events (sc_proposal sample_sidechain))) \<and> c = 1"
proof -
  have "\<exists>c. Inr (Confirmed (pad32 [4]) c 3 \<lparr>op_txid = pad32 [9], op_vout = 2\<rparr> (pad32 [3]))
      \<in> set (stream_proposal_confirmations (sc_proposal sample_sidechain)
          (confirmed_events (sc_proposal sample_sidechain)))"
    by (simp add: stream_proposal_confirmations_def confirmed_events_def connect_block_event_def
        bi_sidechain_proposals_def List.map_filter_simps)
  then show ?thesis using confirmations_stay_one by metis
qed

end
