(* ===== verification/ValidatorRpc.thy ===== *)
theory ValidatorRpc
  imports NodeChecks ProducerRpc
begin

text \<open>
  The RPC service of the validator (\<open>server/validator/grpc.rs\<close>). A handler that opens several read
  transactions gets the state each of them sees as an argument of its own, since a block may be
  connected or disconnected in between. The order in which a hash map gives out the seen BMM
  requests is an argument, and so are the answers of the node about their fees.
\<close>

section \<open>Blocks and headers\<close>

definition proposal_age :: "u32 \<Rightarrow> u32 \<Rightarrow> u32" where
  "proposal_age mainchain_tip_height proposal_height = saturating_sub mainchain_tip_height proposal_height"

definition max_ancestors_of :: "u32 option \<Rightarrow> nat" where
  "max_ancestors_of m = (case m of None \<Rightarrow> 0 | Some n \<Rightarrow> unat n)"

definition internal :: "'e + 'a \<Rightarrow> connect_error + 'a" where
  "internal r = map_sum (\<lambda>_. CE_Internal) id r"

definition rpc_get_block_header_info :: "server_env \<Rightarrow> dbs \<Rightarrow> hex_message option \<Rightarrow> u32 option
    \<Rightarrow> connect_error + header_message list" where
  "rpc_get_block_header_info E v block_hash max_ancestors =
     try_bind (required_field ''GetBlockHeaderInfoRequest'' ''block_hash'' block_hash) (\<lambda>h.
     try_bind (decode_reverse_hash E ''GetBlockHeaderInfoRequest'' ''block_hash'' h) (\<lambda>hash.
     try_bind (internal (try_get_header_infos (sv_btc E) (block_hashes v) hash (max_ancestors_of max_ancestors))) (\<lambda>infos.
     Inr (case infos of None \<Rightarrow> [] | Some his \<Rightarrow> map (header_to_proto (sv_codec E)) his))))"

definition rpc_get_block_info :: "server_env \<Rightarrow> dbs \<Rightarrow> hex_message option \<Rightarrow> u32 option \<Rightarrow> u32 option
    \<Rightarrow> connect_error + (header_message \<times> block_info_message) list" where
  "rpc_get_block_info E v block_hash sidechain_id max_ancestors =
     try_bind (required_field ''GetBlockInfoRequest'' ''block_hash'' block_hash) (\<lambda>h.
     try_bind (decode_reverse_hash E ''GetBlockInfoRequest'' ''block_hash'' h) (\<lambda>hash.
     try_bind (parse_sidechain_id ''GetBlockInfoRequest'' ''sidechain_id'' sidechain_id) (\<lambda>n.
     try_bind (internal (try_get_block_infos (sv_btc E) (block_hashes v) hash (max_ancestors_of max_ancestors))) (\<lambda>infos.
     Inr (case infos of
         None \<Rightarrow> []
       | Some infos \<Rightarrow> map (\<lambda>(hi, bi). (header_to_proto (sv_codec E) hi,
           block_info_as_proto (sv_codec E) bi n)) infos)))))"

datatype h_star_message =
    BlockNotFound hex_message
  | Commitment "hex_message option" "hex_message option list"

definition rpc_get_bmm_h_star_commitment :: "server_env \<Rightarrow> dbs \<Rightarrow> hex_message option \<Rightarrow> u32 option \<Rightarrow> u32 option
    \<Rightarrow> connect_error + h_star_message" where
  "rpc_get_bmm_h_star_commitment E v block_hash sidechain_id max_ancestors =
     try_bind (required_field ''GetBmmHStarCommitmentRequest'' ''block_hash'' block_hash) (\<lambda>h.
     try_bind (decode_reverse_hash E ''GetBmmHStarCommitmentRequest'' ''block_hash'' h) (\<lambda>hash.
     try_bind (parse_sidechain_id ''GetBmmHStarCommitmentRequest'' ''sidechain_id'' sidechain_id) (\<lambda>n.
     let commitment = (\<lambda>c. map_option (hash_to_consensus_hex (sv_codec E)) (map_of c n))
     in case try_get_bmm_commitments (block_hashes v) hash (max_ancestors_of max_ancestors) of
          [] \<Rightarrow> Inr (BlockNotFound (hash_to_reverse_hex (sv_codec E) hash))
        | c # cs \<Rightarrow> Inr (Commitment (commitment c) (map commitment cs)))))"

record chain_info_message =
  ci_network :: proto_network
  ci_withdrawal_bundle_max_age :: u32
  ci_withdrawal_bundle_inclusion_threshold :: u32
  ci_used_sidechain_slot_proposal_max_age :: u32
  ci_used_sidechain_slot_activation_threshold :: u32
  ci_unused_sidechain_slot_proposal_max_age :: u32
  ci_unused_sidechain_slot_activation_threshold :: u32
  ci_activation_height :: u32

definition rpc_get_chain_info :: "network \<Rightarrow> network_params \<Rightarrow> chain_info_message" where
  "rpc_get_chain_info network params = (let t = np_thresholds params in
     \<lparr>ci_network = network_to_proto network,
      ci_withdrawal_bundle_max_age = ucast (withdrawal_bundle_max_age t),
      ci_withdrawal_bundle_inclusion_threshold = ucast (withdrawal_bundle_inclusion_threshold t),
      ci_used_sidechain_slot_proposal_max_age = ucast (withdrawal_bundle_max_age t),
      ci_used_sidechain_slot_activation_threshold = ucast (withdrawal_bundle_inclusion_threshold t),
      ci_unused_sidechain_slot_proposal_max_age = ucast (unused_sidechain_slot_proposal_max_age t),
      ci_unused_sidechain_slot_activation_threshold = ucast (unused_sidechain_slot_activation_threshold t),
      ci_activation_height = bip300_activation_height params\<rparr>)"

definition rpc_get_chain_tip :: "server_env \<Rightarrow> dbs \<Rightarrow> dbs \<Rightarrow> connect_error + header_message" where
  "rpc_get_chain_tip E v1 v2 = (case current_chain_tip v1 of
     None \<Rightarrow> Inl CE_Unavailable
   | Some tip_hash \<Rightarrow> try_bind (internal (get_header_info (sv_btc E) (block_hashes v2) tip_hash))
       (\<lambda>hi. Inr (header_to_proto (sv_codec E) hi)))"

section \<open>Coinbase outputs\<close>

record coinbase_psbt_request =
  cp_propose_sidechains :: "propose_sidechain_message list"
  cp_ack_sidechains :: "ack_sidechain_message list"
  cp_propose_bundles :: "propose_bundle_message list"
  cp_ack_bundles :: "ack_bundles_message option option"

fun convert_all :: "('a \<Rightarrow> proto_error + 'b) \<Rightarrow> 'a list \<Rightarrow> connect_error + 'b list" where
  "convert_all f [] = Inr []"
| "convert_all f (x # xs) = try_bind (map_sum CE_Proto id (f x)) (\<lambda>y.
     try_bind (convert_all f xs) (\<lambda>ys. Inr (y # ys)))"

definition psbt_messages :: "server_env \<Rightarrow> coinbase_psbt_request \<Rightarrow> connect_error + coinbase_message list" where
  "psbt_messages E r =
     try_bind (convert_all (m1_from_proto (sv_codec E)) (cp_propose_sidechains r)) (\<lambda>m1s.
     try_bind (convert_all (m2_from_proto (sv_codec E)) (cp_ack_sidechains r)) (\<lambda>m2s.
     try_bind (convert_all (m3_from_proto (sv_codec E)) (cp_propose_bundles r)) (\<lambda>m3s.
     try_bind (required_field ''GetCoinbasePSBTRequest'' ''ack_bundles'' (cp_ack_bundles r)) (\<lambda>ack.
     try_bind (map_sum CE_Proto id (m4_from_proto ack)) (\<lambda>m4.
     Inr (map M1ProposeSidechain m1s @ map M2AckSidechain m2s @ map M3ProposeBundle m3s
       @ [M4AckBundles m4]))))))"

definition rpc_get_coinbase_psbt :: "server_env \<Rightarrow> coinbase_psbt_request \<Rightarrow> connect_error + transaction" where
  "rpc_get_coinbase_psbt E r = try_bind (psbt_messages E r) (\<lambda>messages.
     try_bind (internal (collect_outputs (sv_btc E) messages)) (\<lambda>outputs.
     Inr \<lparr>tx_version = 2, tx_lock_time = 0, tx_input = [], tx_output = outputs\<rparr>))"

section \<open>Treasuries, BMM requests and sidechains\<close>

record ctip_message =
  ctm_txid :: hex_message
  ctm_vout :: u32
  ctm_value :: u64
  ctm_sequence_number :: nat

text \<open>\<open>get_ctip\<close> unwraps the sequence number, which a second transaction reads.\<close>

definition rpc_get_ctip :: "server_env \<Rightarrow> dbs \<Rightarrow> dbs \<Rightarrow> u32 option \<Rightarrow> connect_error + ctip_message option" where
  "rpc_get_ctip E v1 v2 sidechain_number =
     try_bind (parse_sidechain_id ''GetCtipRequest'' ''sidechain_number'' sidechain_number) (\<lambda>n.
     case ctip_db (active_sidechains v1) n of
       None \<Rightarrow> Inr None
     | Some ctip \<Rightarrow> (case get_ctip_sequence_number v2 n of
         None \<Rightarrow> Inl CE_Panic
       | Some sequence_number \<Rightarrow> Inr (Some
           \<lparr>ctm_txid = hash_to_reverse_hex (sv_codec E) (op_txid (ctip_outpoint ctip)),
            ctm_vout = op_vout (ctip_outpoint ctip), ctm_value = ctip_value ctip,
            ctm_sequence_number = sequence_number\<rparr>)))"

record bmm_request_message =
  brm_sidechain_number :: u32
  brm_txid :: hex_message
  brm_critical_hash :: hex_message
  brm_bid_sats :: u64

fun seen_loop :: "server_env \<Rightarrow> (txid \<Rightarrow> client_error + u64) \<Rightarrow> sidechain_number option
    \<Rightarrow> (sidechain_number \<times> bmm_commitment \<times> txid) list \<Rightarrow> connect_error + bmm_request_message list" where
  "seen_loop E mempool_fee wanted [] = Inr []"
| "seen_loop E mempool_fee wanted ((slot, commitment, txid) # seen) =
     (if wanted \<noteq> None \<and> wanted \<noteq> Some slot then seen_loop E mempool_fee wanted seen
      else try_bind (internal (bmm_bid_fee (mempool_fee txid))) (\<lambda>fee.
        case fee of
          None \<Rightarrow> seen_loop E mempool_fee wanted seen
        | Some fee \<Rightarrow> try_bind (seen_loop E mempool_fee wanted seen) (\<lambda>requests. Inr (
            \<lparr>brm_sidechain_number = ucast slot, brm_txid = hash_to_reverse_hex (sv_codec E) txid,
             brm_critical_hash = hash_to_consensus_hex (sv_codec E) commitment,
             brm_bid_sats = fee\<rparr> # requests))))"

definition wanted_slot :: "u32 option \<Rightarrow> connect_error + sidechain_number option" where
  "wanted_slot sidechain_number = (case sidechain_number of
     None \<Rightarrow> Inr None
   | Some raw \<Rightarrow> (case sidechain_number_try_from raw of
       Inl _ \<Rightarrow> Inl (CE_Proto (InvalidFieldValue ''GetSeenBmmRequestsRequest'' ''sidechain_number''))
     | Inr n \<Rightarrow> Inr (Some n)))"

text \<open>\<open>seen\<close> lists the requests for a parent block.\<close>

definition rpc_get_seen_bmm_requests :: "server_env \<Rightarrow> (blockhash \<Rightarrow> (sidechain_number \<times> bmm_commitment \<times> txid) list)
    \<Rightarrow> (txid \<Rightarrow> client_error + u64) \<Rightarrow> hex_message option \<Rightarrow> u32 option
    \<Rightarrow> connect_error + bmm_request_message list" where
  "rpc_get_seen_bmm_requests E seen mempool_fee prev_block_hash sidechain_number =
     try_bind (required_field ''GetSeenBmmRequestsRequest'' ''prev_block_hash'' prev_block_hash) (\<lambda>h.
     try_bind (decode_reverse_hash E ''GetSeenBmmRequestsRequest'' ''prev_block_hash'' h) (\<lambda>parent.
     try_bind (wanted_slot sidechain_number) (\<lambda>wanted.
     try_bind (seen_loop E mempool_fee wanted (seen parent)) (\<lambda>requests.
     Inr (sort_key (\<lambda>r. - uint (brm_bid_sats r)) requests)))))"

record sidechain_proposal_message =
  spm_sidechain_number :: u32
  spm_description :: hex_message
  spm_declaration :: "declaration_message option"
  spm_description_sha256d_hash :: hex_message
  spm_vote_count :: u32
  spm_proposal_height :: u32
  spm_proposal_age :: u32

definition proposal_to_proto :: "server_env \<Rightarrow> u32 \<Rightarrow> sidechain_proposal_id \<times> sidechain \<Rightarrow> sidechain_proposal_message" where
  "proposal_to_proto E tip_height = (\<lambda>(pid, sc).
     \<lparr>spm_sidechain_number = ucast (prop_sidechain_number (sc_proposal sc)),
      spm_description = consensus_hex_encode (sv_codec E)
        (pc_vec_serialize (sv_codec E) (prop_description (sc_proposal sc))),
      spm_declaration = (case sidechain_declaration_try_from (prop_description (sc_proposal sc)) of
          Some (Inr d) \<Rightarrow> Some (declaration_to_proto (sv_codec E) d) | _ \<Rightarrow> None),
      spm_description_sha256d_hash = hash_to_reverse_hex (sv_codec E) (id_description_hash pid),
      spm_vote_count = ucast (st_vote_count (sc_status sc)),
      spm_proposal_height = st_proposal_height (sc_status sc),
      spm_proposal_age = proposal_age tip_height (st_proposal_height (sc_status sc))\<rparr>)"

definition rpc_get_sidechain_proposals :: "server_env \<Rightarrow> dbs \<Rightarrow> dbs \<Rightarrow> (sidechain_proposal_id \<times> sidechain) list
    \<Rightarrow> connect_error + sidechain_proposal_message list" where
  "rpc_get_sidechain_proposals E v1 v2 proposals = (case current_chain_tip v1 of
     None \<Rightarrow> Inr []
   | Some tip \<Rightarrow> (case get_header_info (sv_btc E) (block_hashes v2) tip of
       Inl _ \<Rightarrow> Inl CE_Status
     | Inr hi \<Rightarrow> Inr (map (proposal_to_proto E (hi_height hi)) proposals)))"

definition rpc_get_sidechains :: "server_env \<Rightarrow> dbs \<Rightarrow> connect_error + sidechain_info_message list" where
  "rpc_get_sidechains E v = (case get_active_sidechains v of
     Inl Panic \<Rightarrow> Inl CE_Panic
   | Inl _ \<Rightarrow> Inl CE_Status
   | Inr scs \<Rightarrow> (case those (map (sidechain_to_info (sv_codec E)) scs) of
       None \<Rightarrow> Inl CE_Panic
     | Some infos \<Rightarrow> Inr infos))"

definition peg_data_request :: "server_env \<Rightarrow> u32 option \<Rightarrow> hex_message option \<Rightarrow> hex_message option
    \<Rightarrow> connect_error + sidechain_number \<times> blockhash option \<times> blockhash" where
  "peg_data_request E sidechain_id start_block_hash end_block_hash =
     try_bind (parse_sidechain_id ''GetTwoWayPegDataRequest'' ''sidechain_id'' sidechain_id) (\<lambda>n.
     try_bind (case start_block_hash of None \<Rightarrow> Inr None
       | Some h \<Rightarrow> map_sum id Some (decode_reverse_hash E ''GetTwoWayPegDataRequest'' ''start_block_hash'' h)) (\<lambda>start.
     try_bind (required_field ''GetTwoWayPegDataRequest'' ''end_block_hash'' end_block_hash) (\<lambda>h.
     try_bind (decode_reverse_hash E ''GetTwoWayPegDataRequest'' ''end_block_hash'' h) (\<lambda>end_hash.
     Inr (n, start, end_hash)))))"

definition rpc_get_two_way_peg_data :: "server_env \<Rightarrow> dbs \<Rightarrow> u32 option \<Rightarrow> hex_message option \<Rightarrow> hex_message option
    \<Rightarrow> (connect_error + (header_message \<times> block_info_message) list) option" where
  "rpc_get_two_way_peg_data E v sidechain_id start_block_hash end_block_hash =
     (case peg_data_request E sidechain_id start_block_hash end_block_hash of
        Inl e \<Rightarrow> Some (Inl e)
      | Inr (n, start, end_hash) \<Rightarrow> map_option (\<lambda>r. case r of
          Inl _ \<Rightarrow> Inl CE_Internal
        | Inr ds \<Rightarrow> Inr (List.map_filter (\<lambda>d. peg_data_into_proto (sv_codec E) d n) ds))
          (get_two_way_peg_data_range (sv_btc E) (block_hashes v) start end_hash))"

text \<open>The handler names the message of another request in its errors.\<close>

definition rpc_get_withdrawal_bundle_proposals :: "server_env \<Rightarrow> dbs \<Rightarrow> u32 option
    \<Rightarrow> connect_error + (hex_message \<times> u32 \<times> u32) list" where
  "rpc_get_withdrawal_bundle_proposals E v sidechain_id =
     try_bind (parse_sidechain_id ''GetTwoWayPegDataRequest'' ''sidechain_id'' sidechain_id) (\<lambda>n.
     try_bind (internal (get_pending_withdrawals v n)) (\<lambda>pending.
     Inr (map (\<lambda>(m6id, info). (hash_to_consensus_hex (sv_codec E) m6id, ucast (pi_vote_count info),
       pi_proposal_height info)) pending)))"

definition rpc_subscribe_events :: "server_env \<Rightarrow> u32 option \<Rightarrow> (unit + event) list
    \<Rightarrow> connect_error + (connect_error + event_message) list" where
  "rpc_subscribe_events E sidechain_id events =
     try_bind (parse_sidechain_id ''SubscribeEventsRequest'' ''sidechain_id'' sidechain_id) (\<lambda>n.
     Inr (map (map_sum (\<lambda>_. CE_Status) (\<lambda>e. event_into_proto (sv_codec E) e n)) events))"

definition rpc_stop :: "bool \<Rightarrow> (connect_error + unit) \<times> bool" where
  "rpc_stop cancelled = (if cancelled then (Inl CE_Unavailable, cancelled) else (Inr (), True))"


section \<open>What the answers mean\<close>

lemma ledger_cases:
  assumes "ledger_wf a n"
  obtains (none) "treasury_utxo_count a n = None" "ctip_db a n = None" "\<And>k. slot_sequence_to_treasury_utxo a (n, k) = None"
    | (some) s u where "treasury_utxo_count a n = Some (Suc s)"
      "slot_sequence_to_treasury_utxo a (n, s) = Some u" "slot_sequence_to_treasury_utxo a (n, Suc s) = None"
      "ctip_db a n = Some \<lparr>ctip_outpoint = tu_outpoint u, ctip_value = tu_total_value u\<rparr>"
proof (cases "treasury_utxo_count a n")
  case None
  then show ?thesis using assms none by (simp add: ledger_wf_def)
next
  case (Some c)
  then have c: "0 < c" "\<And>k. slot_sequence_to_treasury_utxo a (n, k) \<noteq> None \<longleftrightarrow> k < c"
    "ctip_db a n = map_option (\<lambda>u. \<lparr>ctip_outpoint = tu_outpoint u, ctip_value = tu_total_value u\<rparr>)
       (slot_sequence_to_treasury_utxo a (n, c - 1))"
    using assms by (simp_all add: ledger_wf_def)
  then obtain s where s: "c = Suc s" by (cases c) simp_all
  moreover obtain u where u: "slot_sequence_to_treasury_utxo a (n, s) = Some u" using c(2) [of s] s by auto
  moreover have "slot_sequence_to_treasury_utxo a (n, Suc s) = None" using c(2) [of "Suc s"] s by simp
  moreover have "ctip_db a n = Some \<lparr>ctip_outpoint = tu_outpoint u, ctip_value = tu_total_value u\<rparr>"
    using c(3) s u by simp
  ultimately show ?thesis using some [of s u] Some by simp
qed

text \<open>C23: on one state of the tables \<open>get_ctip\<close> never fails for a slot number. It answers nothing exactly
  if the slot never had a treasury output, and otherwise the last treasury output of the slot with
  the sequence number under which the tables record that very output.\<close>

theorem get_ctip_consistent:
  assumes "active_wf (active_sidechains v)"
    and "parse_sidechain_id ''GetCtipRequest'' ''sidechain_number'' sidechain_number = Inr n"
  shows "case rpc_get_ctip E v v sidechain_number of
      Inl _ \<Rightarrow> False
    | Inr None \<Rightarrow> \<forall>k. slot_sequence_to_treasury_utxo (active_sidechains v) (n, k) = None
    | Inr (Some m) \<Rightarrow> \<exists>u. slot_sequence_to_treasury_utxo (active_sidechains v) (n, ctm_sequence_number m) = Some u
        \<and> slot_sequence_to_treasury_utxo (active_sidechains v) (n, Suc (ctm_sequence_number m)) = None
        \<and> ctm_txid m = hash_to_reverse_hex (sv_codec E) (op_txid (tu_outpoint u))
        \<and> ctm_vout m = op_vout (tu_outpoint u) \<and> ctm_value m = tu_total_value u"
proof -
  have "ledger_wf (active_sidechains v) n" using assms(1) by (simp add: active_wf_def)
  then show ?thesis
    by (cases rule: ledger_cases)
      (simp_all add: rpc_get_ctip_def assms(2) get_ctip_sequence_number_def)
qed

theorem get_ctip_consistent_witness:
  "case rpc_get_ctip sample_server sample_treasury_dbs sample_treasury_dbs (Some 4) of
     Inr (Some m) \<Rightarrow> ctm_value m = 100 | _ \<Rightarrow> False"
proof -
  have p: "parse_sidechain_id ''GetCtipRequest'' ''sidechain_number'' (Some 4) = Inr 4"
    by (simp add: parse_sidechain_id_def proto_sidechain_number_def required_def sidechain_number_try_from_def)
  have r: "\<exists>m. rpc_get_ctip sample_server sample_treasury_dbs sample_treasury_dbs (Some 4) = Inr (Some m)"
    by (simp add: rpc_get_ctip_def p sample_treasury_dbs_def sample_treasury_def get_ctip_sequence_number_def)
  then obtain m where m: "rpc_get_ctip sample_server sample_treasury_dbs sample_treasury_dbs (Some 4) = Inr (Some m)" ..
  have "active_wf (active_sidechains sample_treasury_dbs)" by (simp add: sample_treasury_dbs_def sample_treasury_wf)
  from get_ctip_consistent [OF this p, of sample_server]
  have "\<exists>u. slot_sequence_to_treasury_utxo sample_treasury (4, ctm_sequence_number m) = Some u \<and> ctm_value m = tu_total_value u"
    unfolding m by (auto simp: sample_treasury_dbs_def)
  then show ?thesis by (auto simp: m sample_treasury_def split: if_splits)
qed

text \<open>A block that is disconnected between the two transactions and that holds the first treasury output
  of the slot makes the handler panic.\<close>

lemma get_ctip_panics_between_blocks:
  assumes "parse_sidechain_id ''GetCtipRequest'' ''sidechain_number'' sidechain_number = Inr n"
    and "ctip_db (active_sidechains v) n \<noteq> None" "treasury_utxo_count (active_sidechains v) n = Some 1"
    and "delete_ctip (active_sidechains v) n = Inr a"
  shows "rpc_get_ctip E v (v\<lparr>active_sidechains := a\<rparr>) sidechain_number = Inl CE_Panic"
proof -
  have "treasury_utxo_count a n = None"
    using assms(2-4) by (auto simp: delete_ctip_def Let_def split: option.splits if_splits)
  then show ?thesis using assms(1,2)
    by (auto simp: rpc_get_ctip_def get_ctip_sequence_number_def)
qed

section \<open>Bids\<close>

definition wants :: "sidechain_number option \<Rightarrow> sidechain_number \<times> bmm_commitment \<times> txid \<Rightarrow> bool" where
  "wants wanted r \<longleftrightarrow> wanted = None \<or> wanted = Some (fst r)"

definition bid_of :: "server_env \<Rightarrow> (txid \<Rightarrow> client_error + u64) \<Rightarrow> sidechain_number option
    \<Rightarrow> sidechain_number \<times> bmm_commitment \<times> txid \<Rightarrow> bmm_request_message option" where
  "bid_of E mempool_fee wanted = (\<lambda>(slot, commitment, txid).
     if \<not> wants wanted (slot, commitment, txid) then None
     else case mempool_fee txid of
       Inl _ \<Rightarrow> None
     | Inr fee \<Rightarrow> Some \<lparr>brm_sidechain_number = ucast slot, brm_txid = hash_to_reverse_hex (sv_codec E) txid,
         brm_critical_hash = hash_to_consensus_hex (sv_codec E) commitment, brm_bid_sats = fee\<rparr>)"

definition fee_unknown :: "(txid \<Rightarrow> client_error + u64) \<Rightarrow> txid \<Rightarrow> bool" where
  "fee_unknown mempool_fee txid \<longleftrightarrow>
     (case mempool_fee txid of Inl e \<Rightarrow> \<not> absent_from_mempool e | Inr _ \<Rightarrow> False)"

lemma seen_loop_exact:
  "seen_loop E mempool_fee wanted seen =
     (if list_ex (\<lambda>r. wants wanted r \<and> fee_unknown mempool_fee (snd (snd r))) seen then Inl CE_Internal
      else Inr (List.map_filter (bid_of E mempool_fee wanted) seen))"
proof (induction seen)
  case (Cons r seen)
  obtain slot commitment txid where r: "r = (slot, commitment, txid)" by (cases r)
  show ?case
  proof (cases "wants wanted r")
    case False
    then show ?thesis using Cons by (simp add: r wants_def bid_of_def List.map_filter_simps)
  next
    case True
    then show ?thesis using Cons
      by (cases "mempool_fee txid")
        (auto simp: r wants_def bid_of_def fee_unknown_def bmm_bid_fee_def internal_def List.map_filter_simps)
  qed
qed (simp add: List.map_filter_simps)

text \<open>\<open>get_seen_bmm_requests\<close> lists exactly the remembered requests for the parent block, of the wanted
  slot if one is given, whose transaction is still in the mempool, with its fee as the bid, the
  highest bid first; it fails exactly if the node cannot tell the fee of one of them.\<close>

theorem seen_bmm_requests_exact:
  assumes "decode_reverse_hash E ''GetSeenBmmRequestsRequest'' ''prev_block_hash'' h = Inr parent"
    and "wanted_slot sidechain_number = Inr wanted"
  shows "case rpc_get_seen_bmm_requests E seen mempool_fee (Some h) sidechain_number of
      Inl e \<Rightarrow> e = CE_Internal \<and> (\<exists>r\<in>set (seen parent). wants wanted r \<and> fee_unknown mempool_fee (snd (snd r)))
    | Inr rs \<Rightarrow> (\<forall>r\<in>set (seen parent). wants wanted r \<longrightarrow> \<not> fee_unknown mempool_fee (snd (snd r)))
        \<and> mset rs = mset (List.map_filter (bid_of E mempool_fee wanted) (seen parent))
        \<and> sorted_wrt (\<lambda>a b. brm_bid_sats a \<ge> brm_bid_sats b) rs"
proof -
  have s: "sorted_wrt (\<lambda>a b. brm_bid_sats a \<ge> brm_bid_sats b)
      (sort_key (\<lambda>r. - uint (brm_bid_sats r)) rs)" for rs :: "bmm_request_message list"
    using sorted_sort_key [of "\<lambda>r. - uint (brm_bid_sats r)" rs]
    by (simp add: sorted_map word_le_def)
  show ?thesis
    by (auto simp: rpc_get_seen_bmm_requests_def required_field_def required_def assms seen_loop_exact s
        list_ex_iff mset_sort)
qed

theorem seen_bmm_requests_exact_witness:
  "map brm_bid_sats (case rpc_get_seen_bmm_requests sample_server
       (\<lambda>_. [(4, pad32 [1], pad32 [2]), (4, pad32 [3], pad32 [4]), (5, pad32 [1], pad32 [5])])
       (\<lambda>txid. Inr (if txid = pad32 [2] then 10 else 20))
       (Some (hash_to_reverse_hex sample_codec (pad32 [6]))) (Some 4) of Inr rs \<Rightarrow> rs | Inl _ \<Rightarrow> []) = [20, 10]"
proof -
  let ?seen = "\<lambda>_ :: blockhash. [(4 :: u8, pad32 [1], pad32 [2]), (4, pad32 [3], pad32 [4]), (5, pad32 [1], pad32 [5])]"
  let ?fee = "\<lambda>txid. Inr (if txid = pad32 [2] then 10 else 20) :: client_error + u64"
  let ?h = "hash_to_reverse_hex sample_codec (pad32 [6])"
  have d: "decode_reverse_hash sample_server ''GetSeenBmmRequestsRequest'' ''prev_block_hash'' ?h = Inr (pad32 [6])"
    by (simp add: decode_reverse_hash_def sample_server_def reverse_hex_roundtrip [OF sample_codec_ok] pad32_def)
  have w: "wanted_slot (Some 4) = Inr (Some 4)" by (simp add: wanted_slot_def sidechain_number_try_from_def)
  have n: "pad32 [4] \<noteq> pad32 [2]" by (simp add: pad32_def)
  from seen_bmm_requests_exact [OF d w, of ?seen ?fee] n
  obtain rs where rs: "rpc_get_seen_bmm_requests sample_server ?seen ?fee (Some ?h) (Some 4) = Inr rs"
    and m: "image_mset brm_bid_sats (mset rs) = {# 10, 20 #}"
    and s: "sorted_wrt (\<lambda>a b. brm_bid_sats a \<ge> brm_bid_sats b) rs"
    by (auto simp: wants_def bid_of_def fee_unknown_def List.map_filter_simps split: sum.splits)
  have l: "size (mset rs) = 2" using arg_cong [OF m, of size] by simp
  then obtain a b where "rs = [a, b]" by (auto simp: length_Suc_conv numeral_2_eq_2)
  then show ?thesis using rs m s by (auto simp: add_eq_conv_ex)
qed

section \<open>Votes of a coinbase request\<close>

lemma upvotes_width_exact:
  "upvotes_width vals two_bytes =
     (if list_ex (\<lambda>u. u > 0xFFFF) vals then Inl (InvalidRepeatedValue ''Upvotes'' ''upvotes'')
      else Inr (two_bytes \<or> list_ex (\<lambda>u. u > 0xFF) vals))"
  by (induction vals arbitrary: two_bytes) auto

lemma ucast_small:
  assumes "u \<le> (0xFF :: u32)"
  shows "unat (ucast u :: u8) = unat u" "unat (ucast u :: u16) = unat u"
proof -
  have "unat u \<le> 255" using assms by (simp add: word_le_nat_alt)
  then show "unat (ucast u :: u8) = unat u" "unat (ucast u :: u16) = unat u"
    by (simp_all add: unsigned_ucast_eq take_bit_nat_eq_self)
qed

definition one_byte_meaning :: "u32 \<Rightarrow> u16" where
  "one_byte_meaning u = (if u = 0xFF then ABSTAIN_TWO_BYTES else if u = 0xFE then ALARM_TWO_BYTES else ucast u)"

lemma widen_vote_ucast:
  assumes "u \<le> (0xFF :: u32)"
  shows "widen_vote (ucast u) = one_byte_meaning u"
proof -
  have e: "(ucast u :: u8) = 0xFF \<longleftrightarrow> u = 0xFF" "(ucast u :: u8) = 0xFE \<longleftrightarrow> u = 0xFE"
    using ucast_small [OF assms] by (simp_all add: word_unat_eq_iff)
  have "(ucast (ucast u :: u8) :: u16) = ucast u"
  proof -
    have "unat u \<le> 255" using assms by (simp add: word_le_nat_alt)
    then have "unat (ucast (ucast u :: u8) :: u16) = unat u"
      by (subst unsigned_ucast_eq) (simp add: ucast_small [OF assms] take_bit_nat_eq_self)
    then show ?thesis using ucast_small(2) [OF assms] by (simp add: word_unat_eq_iff)
  qed
  then show ?thesis using e by (simp add: widen_vote_def one_byte_meaning_def ABSTAIN_ONE_BYTE_def ALARM_ONE_BYTE_def)
qed

lemma ucast_large:
  assumes "u > (0xFF :: u32)" "u \<le> 0xFFFF"
  shows "\<not> (ucast u :: u16) \<le> 253"
proof -
  have "unat u > 255" "unat u \<le> 65535" using assms by (simp_all add: word_le_nat_alt word_less_nat_alt)
  then have "unat (ucast u :: u16) = unat u" by (simp add: unsigned_ucast_eq take_bit_nat_eq_self)
  then show ?thesis using \<open>unat u > 255\<close> by (simp add: word_le_nat_alt)
qed

text \<open>C39: what the votes of a coinbase request mean to the handler of the block that carries them. Votes
  above \<open>0xFFFF\<close> are refused. If one is above \<open>0xFF\<close>, all of them count as they are given; if none
  is, \<open>0xFF\<close> abstains and \<open>0xFE\<close> is an alarm instead of the upvotes of the bundles 255 and 254.\<close>

theorem psbt_votes_meaning:
  "case m4_from_proto (Some (PUpvotes vals)) of
     Inl e \<Rightarrow> list_ex (\<lambda>u. u > 0xFFFF) vals \<and> e = InvalidRepeatedValue ''Upvotes'' ''upvotes''
   | Inr m \<Rightarrow> list_all (\<lambda>u. u \<le> 0xFFFF) vals \<and> handle_m4_ack_bundles srt db prev m =
       m4_votes_result (handle_m4_votes db
         (map (if list_ex (\<lambda>u. u > 0xFF) vals then ucast else one_byte_meaning) vals))"
proof (cases "list_ex (\<lambda>u. u > 0xFFFF) vals")
  case True
  then show ?thesis by (simp add: m4_from_proto_def required_def upvotes_from_proto_def upvotes_width_exact)
next
  case False
  then have small: "list_all (\<lambda>u. u \<le> 0xFFFF) vals" by (auto simp: list_ex_iff list_all_iff not_less)
  show ?thesis
  proof (cases "list_ex (\<lambda>u. u > 0xFF) vals")
    case True
    then obtain u where u: "u \<in> set vals" "u > 0xFF" by (auto simp: list_ex_iff)
    then have "\<not> (ucast u :: u16) \<le> 253" using small ucast_large [of u] by (simp add: list_all_iff)
    then have "\<not> list_all (\<lambda>v. v \<le> 253) (map ucast vals :: u16 list)" using u(1) by (auto simp: list_all_iff)
    then show ?thesis using False True small
      by (simp add: m4_from_proto_def required_def upvotes_from_proto_def upvotes_width_exact)
  next
    case one: False
    then have "\<forall>u\<in>set vals. u \<le> 0xFF" by (auto simp: list_ex_iff not_less)
    then have "map widen_vote (map ucast vals) = map one_byte_meaning vals" using widen_vote_ucast by simp
    then show ?thesis using False one small
      by (simp add: m4_from_proto_def required_def upvotes_from_proto_def upvotes_width_exact del: map_map)
  qed
qed

end
