(* ===== verification/Spec2Isabelle.thy ===== *)
theory Spec2Isabelle
  imports SendTx Seeds Summary ValidatorRpc
begin

text \<open>
  Verification of the BIP 300/301 enforcer.

  The enforcer follows a Bitcoin node and enforces two soft forks on it: sidechains whose coins lie
  in a treasury output per slot (BIP 300: M1 proposes a sidechain, M2 acknowledges a proposal, M3
  proposes a withdrawal bundle, M4 votes on bundles, M5 deposits, M6 pays a bundle out) and blind
  merged mining (BIP 301: M7 accepts and M8 requests a sidechain block). Its parts interact as
  follows. The validator (\<open>src/lib/validator/\<close>) keeps its state in LMDB tables; it fetches headers
  and blocks from the node (\<open>task/mod.rs\<close>) or from the node's block files
  (\<open>parse_block_files.rs\<close>, \<open>task/block_files.rs\<close>) and connects each block: it parses the
  coinbase messages (\<open>messages.rs\<close>), computes a diff from them and from the treasury transactions,
  applies and records it, so that a reorganisation can undo it (\<open>dbs/diff.rs\<close>). The CUSF enforcer
  (\<open>cusf_enforcer.rs\<close>) offers the same operations to the mempool driver, block by block and
  transaction by transaction. The block producer (\<open>block_producer/\<close>) keeps the miner's policies in a
  database that it reconciles with the chain, chooses the messages and treasury transactions of a new
  block, builds templates and mines blocks from them (\<open>mine.rs\<close>, \<open>mining.rs\<close>), and
  \<open>p2p/send_tx.rs\<close> hands a transaction to a node. The servers (\<open>server/\<close>) answer requests over the
  tables of the validator and change the policies of the producer, with the conversions of
  \<open>proto.rs\<close>; the wallet keeps its seed in a file (\<open>wallet/seed_store.rs\<close>). Before all this starts,
  the node is checked (\<open>version.rs\<close>, \<open>node_checks.rs\<close>).

  \<^bold>\<open>Theories\<close>, in the order of their imports, with the files under \<open>src/lib/\<close> they model:

  \<^item> \<open>Prelude\<close>: machine integers, byte encodings, the combinators of \<open>nom\<close>, generic lemmas.
  \<^item> \<open>Bitcoin\<close>: transactions, blocks, script instructions; the functions of the \<open>bitcoin\<close>
    crate as a record of parameters (\<open>btc\<close>).
  \<^item> \<open>Types\<close>: \<open>types.rs\<close> and the signet magic of \<open>p2p.rs\<close>.
  \<^item> \<open>Messages\<close>: \<open>messages.rs\<close>. Encoding and parsing are inverse and exact; the coinbase
    builder and the parser of a coinbase agree; the id of a withdrawal is that of its bundle.
  \<^item> \<open>ActiveDbs\<close>, \<open>BlockHashes\<close>: the tables of \<open>validator/dbs/mod.rs\<close> and
    \<open>block_hashes.rs\<close>. A table is a partial map; \<open>dbs\<close> is the record of all of them.
  \<^item> \<open>Diff\<close>: \<open>validator/dbs/diff.rs\<close>. Each diff can be undone: the trait \<open>Diff\<close> is the
    locale \<open>reversible\<close>, interpreted for every implementation up to a whole block.
  \<^item> \<open>Handlers\<close>, \<open>Ctips\<close>, \<open>Connect\<close>: \<open>validator/task/mod.rs\<close> from the message
    handlers to \<open>connect_block\<close>, \<open>disconnect_block\<close> and \<open>validate_tx\<close>, with
    \<open>task/error.rs\<close>. What a handler returns is a valid diff; votes mean what the BIP says;
    treasuries are protected; sidechains activate only with enough votes; blocks keep the invariant
    \<open>dbs_wf\<close> of the tables, and disconnecting inverts connecting.
  \<^item> \<open>Ancestors\<close>: what the walks over stored headers compute. \<open>Queries\<close>: the queries of
    \<open>validator/mod.rs\<close> over them, such as the difference between a block and the tip.
  \<^item> \<open>HeaderSync\<close>, \<open>BlockSync\<close>, \<open>BlockFiles\<close>, \<open>DirectorySync\<close>, \<open>Sync\<close>:
    synchronisation, with \<open>main_rest_client.rs\<close>, \<open>chainstates.rs\<close>,
    \<open>parse_block_files.rs\<close> and \<open>block_files.rs\<close>. Header batches are checked exactly, loops
    end (that over headers unless the REST endpoint never moves on), batches commit a valid prefix, block files parse back, and \<open>sync_blocks\<close> leaves tables that
    connecting blocks leads to.
  \<^item> \<open>Enforcer\<close>: \<open>validator/cusf_enforcer.rs\<close>. The enforcer refines a stack of blocks;
    validating predicts connecting; BMM requests are remembered.
  \<^item> \<open>Producer\<close>: \<open>block_producer/coinbase.rs\<close>. A produced coinbase connects; the
    payouts and the consolidation refine a specification (\<open>pays_out\<close>) of what every slot holds, and so
    conserve the treasuries.
  \<^item> \<open>PolicyDb\<close>: \<open>block_producer/db.rs\<close>. Reconciling leaves exactly the marks of the chain,
    but for the marks it forgets when it disconnects a block, which are characterised; the tables keep their keys.
  \<^item> \<open>Template\<close>: \<open>block_producer/mod.rs\<close>. A template settles the auction of BMM requests, leaves out
    payouts that are not payable, and accepts the requests it includes. The code opens a read transaction
    for each step of a template; the model takes one state of the validator for all of them.
  \<^item> \<open>Mining\<close>: \<open>block_producer/mine.rs\<close> and the rest of \<open>mining.rs\<close>. A generated block is the
    template's, commits to its contents, meets its target and has a time and a value within bounds.
  \<^item> \<open>SendTx\<close>: \<open>p2p/send_tx.rs\<close> and the broadcast of \<open>p2p.rs\<close>, as a protocol.
  \<^item> \<open>Grind\<close>: the threads of \<open>grind\<close> in \<open>mining.rs\<close>, interleaved.
  \<^item> \<open>Summary\<close>: \<open>validator/sync_state_summary.rs\<close>. The snapshot of the consensus state does not
    depend on the order in which tables are iterated, and the difference of two snapshots is empty
    exactly if they are equal. The code reads the tables in several transactions, the model in one.
  \<^item> \<open>Seeds\<close>: \<open>wallet/seed_store.rs\<close> and \<open>wallet/mnemonic.rs\<close>. Processes run step by step on a disk
    whose contents are volatile until synced, and may fail, be killed or lose power at each step. No
    seed is lost, one wallet is created, and opening the store recovers; an encrypted wallet is
    unlocked by its password.
  \<^item> \<open>NodeChecks\<close>: \<open>version.rs\<close>, \<open>node_checks.rs\<close>, \<open>rpc_client.rs\<close> and the mempool fee of a bid. The checks end
    and decide on the first answer that settles them.
  \<^item> \<open>Proto\<close>: \<open>proto.rs\<close> and the decoding of bundles of \<open>types.rs\<close>. Declarations and policies convert
    back to themselves; a peg message carries exactly the events of its slot.
  \<^item> \<open>ProducerRpc\<close>: \<open>server/block_producer.rs\<close>, \<open>server/mining.rs\<close>, \<open>server/mod.rs\<close>. Votes change
    exactly the vote they name, and only bundles that can be paid out are stored; the reads of one request
    each have their own state of the tables.
  \<^item> \<open>ValidatorRpc\<close>: \<open>server/validator/grpc.rs\<close>. The answers mean what the tables hold; a handler that
    opens several read transactions gets a state for each of them.

  \<^bold>\<open>Effects.\<close> A write transaction is the record of tables, passed on and returned; an error result
  (\<open>Inl\<close>) carries no tables where the code drops the transaction, and carries them where the code has
  committed before. A panic is a value (\<open>Panic\<close>, \<open>SE_Panic\<close>, ...), so that its absence can be
  proved. Machine integers keep their width; natural numbers stand for sequence numbers, lengths and
  256-bit work. An \<open>OrderMap\<close> is an association list in insertion order; a \<open>HashMap\<close> is a
  partial map, or an association list with an order parameter where it is iterated.

  \<^bold>\<open>Loops.\<close> Loops over stored headers, over block files and over the node's answers are
  \<open>partial_function (option)\<close>: a loop that never returns is \<open>None\<close>, and termination theorems
  say \<open>Some\<close>. Other loops are total functions. An operation of the seed store run alone takes at most
  as many steps as \<open>run_stages\<close> is given, 16 for opening and 8 for inserting; the theorems that it
  returns show that these suffice. The check of the REST server gives up after 180 retries, as the code does.

  \<^bold>\<open>Parameters.\<close> \<open>B :: btc\<close> are hashes, ids, weights and the script codec of the \<open>bitcoin\<close>
  crate; \<open>srt\<close> is the unstable sort of \<open>LeadingBy50\<close> and \<open>ord\<close> the order of a
  \<open>HashMap\<close>; \<open>node\<close> is the node's answer to every request of every iteration; \<open>codec\<close>
  are the decoders of blocks, block index entries and P2P messages; \<open>pow\<close> is the hash and the
  comparison with the target; \<open>template_env\<close> and \<open>mining_env\<close> are the answers of the clock, of the node and of the
  template server to the block producer, and what it takes from the \<open>bitcoin\<close> crate;
  \<open>seed_env\<close> is the JSON codec, the parser of mnemonics and what a commit of the database syncs,
  \<open>crypto_env\<close> are Argon2 and AES-GCM, \<open>proto_codec\<close> and \<open>tx_decoders\<close> the hexadecimal and consensus
  codecs behind the messages, collected in \<open>server_env\<close>.

  \<^bold>\<open>Hypotheses.\<close> \<open>script_codec\<close> (a pushed script splits into its instructions; instance
  \<open>wire\<close>), \<open>votes_sort\<close> (an unstable sort sorts; instance \<open>by_votes\<close>), \<open>env_ok\<close>
  (both orders are permutations, and the maximal ages are below \<open>2\<^sup>1\<^sup>6 - 1\<close>, as proved for every
  network), \<open>block_ready\<close> (the header of the block is stored at the next height with positive work, and no transaction
  id repeats one that holds a treasury output), \<open>sound_blocks\<close> (the blocks that connect along a history are ready),
  \<open>hash_distinct\<close> (no two headers share a hash, none is null), \<open>node_serves\<close> (batched answers are
  as long as the request; REST headers are linked and at most as many as requested), \<open>sync_source\<close> and \<open>driver_ok\<close> (these together, for
  the blocks a node or a driver hands over), \<open>driven\<close> (the driver disconnects only while there is a tip), \<open>background_ends\<close> (the
  node's background validation ends), \<open>key_differs\<close> (padding does not look like the magic),
  \<open>slots_named\<close> and \<open>rows_wf\<close> (tables and policy rows carry the keys they are stored under),
  \<open>pow_ok\<close> (hash and target are 32 bytes, compared as little-endian numbers), \<open>validator_ready\<close> (the
  header tables are well-formed and the blocks up to the tip are connected), \<open>uc_indexed\<close> (the
  two maps of unconsolidated outputs agree, which every operation on them keeps), \<open>quiet_below\<close> (blocks below the
  activation height have no events), \<open>builder_of\<close> (\<open>script_builder\<close>, and witness commitments of 32 bytes that do not depend on the
  coinbase), \<open>grinds\<close> (a nonce is found by a run of the threads of \<open>Grind\<close>), \<open>json_ok\<close>, \<open>codec_ok\<close> and
  \<open>crypto_ok\<close> (what was encoded or encrypted decodes or decrypts again), \<open>disk_ok\<close> (a seed file that is
  there at first is complete and synced, and legacy rows have distinct ids), \<open>se_commit_syncs_dir\<close> (a commit of the database syncs its
  directory). Each has a witness.

  \<^bold>\<open>Interfaces.\<close> \<open>reversible\<close> and \<open>slot_reversible\<close> (diffs), \<open>script_codec\<close>,
  its extension \<open>script_builder\<close>, \<open>votes_sort\<close>, \<open>marked_rows\<close> (the two tables with marks),
  \<open>block_mode\<close> and its extension \<open>dry_mode\<close> (the trait
  \<open>ConnectBlockMode\<close>), \<open>rely_guarantee\<close> (what the processes of the seed store leave to each other) are locales, interpreted on the model's definitions.

  \<^bold>\<open>Not modelled.\<close> The wallet but for its seed store (a shell around BDK, whose coin selection, signing,
  persistence and chain clients are third-party code) and its server; the cryptography server; the
  generated protobuf code; the transport of requests, the streams of events and of header synchronisation
  progress as asynchronous streams; the application's start-up, logging and command line.
  Errors of LMDB itself, serde and display implementations, and DNS are left out too.
\<close>

end
